(* ===== verification/Kernel_Prelude.thy ===== *)
theory Kernel_Prelude
  imports Main "HOL-Library.Word"
begin

text \<open>
  Shared vocabulary of the UNIX768 kernel development.

  \<^item> C integers: a field of type \<open>char\<close>, \<open>i16\<close>, \<open>u16\<close>, \<open>i32\<close> or \<open>u32\<close> is an
    \<open>int\<close>, and every store into it goes through the conversion of its width
    (\<open>to_i8\<close> \<dots> \<open>to_u32\<close>), so that the wrap-around of the 68000 build is written
    out where the value is stored. Fields that are only used as sets of flags are
    words of their width.
  \<^item> Control: kernel code may sleep, panic, leave by the non-local goto to
    \<open>u_qsav\<close>, or never return. A routine is a function from a schedule and a state to an
    \<open>outcome\<close>. The schedule lists what the other processes do to the kernel state
    at each point where this process gives up the processor; a routine that sleeps
    more often than the schedule has entries is \<open>Blocked\<close> at that sleep.
  \<^item> The collections \<open>flag_simps\<close> (bit masks) and \<open>kern_simps\<close> (unfolding of the
    control combinators) carry the component proofs.
\<close>

unbundle bit_operations_syntax

named_theorems flag_simps \<open>masking single flags in and out of flag words\<close>
named_theorems kern_simps \<open>unfolding of the control combinators\<close>
named_theorems kinv_intro \<open>invariant preservation by the control combinators\<close>

section \<open>C integers\<close>

definition to_i8 :: "int \<Rightarrow> int" where
  "to_i8 x = signed_take_bit 7 x"

definition to_i16 :: "int \<Rightarrow> int" where
  "to_i16 x = signed_take_bit 15 x"

definition to_i32 :: "int \<Rightarrow> int" where
  "to_i32 x = signed_take_bit 31 x"

definition to_u8 :: "int \<Rightarrow> int" where
  "to_u8 x = take_bit 8 x"

definition to_u16 :: "int \<Rightarrow> int" where
  "to_u16 x = take_bit 16 x"

definition to_u32 :: "int \<Rightarrow> int" where
  "to_u32 x = take_bit 32 x"

lemma to_i8_id: "\<lbrakk>- 128 \<le> x; x < 128\<rbrakk> \<Longrightarrow> to_i8 x = x"
  by (simp add: to_i8_def signed_take_bit_int_eq_self)

lemma to_i16_id: "\<lbrakk>- 32768 \<le> x; x < 32768\<rbrakk> \<Longrightarrow> to_i16 x = x"
  by (simp add: to_i16_def signed_take_bit_int_eq_self)

lemma to_i32_id: "\<lbrakk>- 2147483648 \<le> x; x < 2147483648\<rbrakk> \<Longrightarrow> to_i32 x = x"
  by (simp add: to_i32_def signed_take_bit_int_eq_self)

lemma to_u8_id: "\<lbrakk>0 \<le> x; x < 256\<rbrakk> \<Longrightarrow> to_u8 x = x"
  by (simp add: to_u8_def take_bit_int_eq_self)

lemma to_u16_id: "\<lbrakk>0 \<le> x; x < 65536\<rbrakk> \<Longrightarrow> to_u16 x = x"
  by (simp add: to_u16_def take_bit_int_eq_self)

lemma to_u32_id: "\<lbrakk>0 \<le> x; x < 4294967296\<rbrakk> \<Longrightarrow> to_u32 x = x"
  by (simp add: to_u32_def take_bit_int_eq_self)

lemma to_u8_range: "0 \<le> to_u8 x \<and> to_u8 x < 256"
  by (simp add: to_u8_def take_bit_eq_mod)

lemma to_u16_range: "0 \<le> to_u16 x \<and> to_u16 x < 65536"
  by (simp add: to_u16_def take_bit_eq_mod)

lemma to_u32_range: "0 \<le> to_u32 x \<and> to_u32 x < 4294967296"
  by (simp add: to_u32_def take_bit_eq_mod)

lemmas c_int_ids = to_i8_id to_i16_id to_i32_id to_u8_id to_u16_id to_u32_id

section \<open>Flag words\<close>

lemma flag_or_self [flag_simps]: "((w :: 'a :: len word) OR m) AND m = m"
  by (simp add: bit_eq_iff bit_simps)

lemma flag_clear_self [flag_simps]: "((w :: 'a :: len word) AND NOT m) AND m = 0"
  by (simp add: bit_eq_iff bit_simps)

lemma flag_or_other:
  assumes "m AND n = (0 :: 'a :: len word)"
  shows "(w OR m) AND n = w AND n"
proof -
  have "\<not> (bit m k \<and> bit n k)" for k
  proof -
    have "bit (m AND n) k = False" by (simp add: assms)
    then show ?thesis by (simp add: bit_and_iff)
  qed
  then show ?thesis by (auto simp add: bit_eq_iff bit_simps)
qed

lemma flag_clear_other:
  assumes "m AND n = (0 :: 'a :: len word)"
  shows "(w AND NOT m) AND n = w AND n"
proof -
  have "\<not> (bit m k \<and> bit n k)" for k
  proof -
    have "bit (m AND n) k = False" by (simp add: assms)
    then show ?thesis by (simp add: bit_and_iff)
  qed
  then show ?thesis by (auto simp add: bit_eq_iff bit_simps)
qed

section \<open>Faults of sequential code\<close>

text \<open>
  Routines that cannot sleep return \<open>fault + 'a\<close>: \<open>Panicked\<close> carries the message of
  the \<open>panic\<close> they reach, \<open>Wild\<close> names the table whose bounds a pointer leaves.
\<close>

datatype fault = Panicked string | Wild string

definition check_table :: "string \<Rightarrow> 'a option \<Rightarrow> fault + 'a" where
  "check_table t x = (case x of None \<Rightarrow> Inl (Wild t) | Some a \<Rightarrow> Inr a)"

lemma check_table_simps [simp]:
  "check_table t None = Inl (Wild t)"
  "check_table t (Some a) = Inr a"
  by (simp_all add: check_table_def)

section \<open>Control: sleeping, panics and non-local exits\<close>

datatype ('s, 'a) outcome =
    Ret 'a "('s \<Rightarrow> 's) list" 's
  | Blocked 's
  | Longjmp 's
  | Panic string 's
  | Exited 's

type_synonym ('s, 'a) kern = "('s \<Rightarrow> 's) list \<Rightarrow> 's \<Rightarrow> ('s, 'a) outcome"

definition kret :: "'a \<Rightarrow> ('s, 'a) kern" where
  [kern_simps]: "kret a = (\<lambda>es s. Ret a es s)"

definition kbind :: "('s, 'a) kern \<Rightarrow> ('a \<Rightarrow> ('s, 'b) kern) \<Rightarrow> ('s, 'b) kern" where
  [kern_simps]: "kbind m f = (\<lambda>es s. case m es s of
      Ret a es' s' \<Rightarrow> f a es' s'
    | Blocked s' \<Rightarrow> Blocked s'
    | Longjmp s' \<Rightarrow> Longjmp s'
    | Panic msg s' \<Rightarrow> Panic msg s'
    | Exited s' \<Rightarrow> Exited s')"

definition kget :: "('s \<Rightarrow> 'a) \<Rightarrow> ('s, 'a) kern" where
  [kern_simps]: "kget f = (\<lambda>es s. Ret (f s) es s)"

definition kmod :: "('s \<Rightarrow> 's) \<Rightarrow> ('s, unit) kern" where
  [kern_simps]: "kmod f = (\<lambda>es s. Ret () es (f s))"

definition kif :: "('s \<Rightarrow> bool) \<Rightarrow> ('s, 'a) kern \<Rightarrow> ('s, 'a) kern \<Rightarrow> ('s, 'a) kern" where
  [kern_simps]: "kif c m1 m2 = (\<lambda>es s. if c s then m1 es s else m2 es s)"

definition kwhen :: "('s \<Rightarrow> bool) \<Rightarrow> ('s, unit) kern \<Rightarrow> ('s, unit) kern" where
  [kern_simps]: "kwhen c m = kif c m (kret ())"

definition kthen :: "('s, 'a) kern \<Rightarrow> ('s, 'b) kern \<Rightarrow> ('s, 'b) kern" where
  [kern_simps]: "kthen m1 m2 = kbind m1 (\<lambda>_. m2)"

definition kpanic :: "string \<Rightarrow> ('s, 'a) kern" where
  [kern_simps]: "kpanic msg = (\<lambda>es s. Panic msg s)"

definition klongjmp :: "('s, 'a) kern" where
  [kern_simps]: "klongjmp = (\<lambda>es s. Longjmp s)"

definition kexited :: "('s, 'a) kern" where
  [kern_simps]: "kexited = (\<lambda>es s. Exited s)"

text \<open>
  The processor is given away: the next entry of the schedule is everything that
  happens to the kernel state until this process runs again.
\<close>

definition kyield :: "('s, unit) kern" where
  [kern_simps]: "kyield = (\<lambda>es s. case es of [] \<Rightarrow> Blocked s | e # es' \<Rightarrow> Ret () es' (e s))"

text \<open>A block of statements, and a loop over the entries of a table.\<close>

primrec kseq :: "('s, unit) kern list \<Rightarrow> ('s, unit) kern" where
  "kseq [] = kret ()"
| "kseq (m # ms) = kthen m (kseq ms)"

primrec kfor :: "('i \<Rightarrow> ('s, unit) kern) \<Rightarrow> 'i list \<Rightarrow> ('s, unit) kern" where
  "kfor f [] = kret ()"
| "kfor f (i # is) = kthen (f i) (kfor f is)"

text \<open>
  \<open>while (c) { body }\<close>, where every pass through the body sleeps at least once:
  one pass per remaining entry of the schedule, plus the last test.
\<close>

primrec ksleep_loop :: "nat \<Rightarrow> ('s \<Rightarrow> bool) \<Rightarrow> ('s, unit) kern \<Rightarrow> ('s, unit) kern" where
  "ksleep_loop 0 c body = (\<lambda>es s. Blocked s)"
| "ksleep_loop (Suc n) c body = kif c (kthen body (ksleep_loop n c body)) (kret ())"

definition ksleep_while :: "('s \<Rightarrow> bool) \<Rightarrow> ('s, unit) kern \<Rightarrow> ('s, unit) kern" where
  "ksleep_while c body = (\<lambda>es s. ksleep_loop (Suc (length es)) c body es s)"

lemma ksleep_while_skip [simp]: "\<not> c s \<Longrightarrow> ksleep_while c body es s = Ret () es s"
  by (simp add: ksleep_while_def kern_simps)

text \<open>Evaluating a routine up to its first return.\<close>

lemma kbind_Ret: "m es s = Ret a es' s' \<Longrightarrow> kbind m f es s = f a es' s'"
  by (simp add: kbind_def)

lemma kthen_Ret: "m es s = Ret a es' s' \<Longrightarrow> kthen m n es s = n es' s'"
  by (simp add: kthen_def kbind_def)

lemma kmod_run: "kthen (kmod f) n es s = n es (f s)"
  by (simp add: kern_simps)

lemma kget_run: "kbind (kget f) g es s = g (f s) es s"
  by (simp add: kern_simps)

lemma kif_run: "kif c m n es s = (if c s then m es s else n es s)"
  by (simp add: kern_simps)

lemma kwhen_run: "kthen (kwhen c m) n es s = (if c s then kthen m n es s else n es s)"
  by (simp add: kern_simps)

lemma kyield_run: "kthen kyield n (e # es) s = n es (e s)"
  by (simp add: kern_simps)

lemmas krun = kmod_run kget_run kif_run kwhen_run kyield_run

subsection \<open>What holds at the end of a routine\<close>

text \<open>
  \<open>outcome_all\<close> reads a property of the state off every way a routine can end;
  \<open>kinv I m\<close> says that the routine keeps \<open>I\<close> on every ending, provided the other
  processes keep it whenever they run.
\<close>

fun outcome_all :: "('s \<Rightarrow> bool) \<Rightarrow> ('s, 'a) outcome \<Rightarrow> bool" where
  "outcome_all I (Ret a es s) = I s"
| "outcome_all I (Blocked s) = I s"
| "outcome_all I (Longjmp s) = I s"
| "outcome_all I (Panic msg s) = I s"
| "outcome_all I (Exited s) = I s"

fun rest_of :: "('s, 'a) outcome \<Rightarrow> ('s \<Rightarrow> 's) list \<Rightarrow> ('s \<Rightarrow> 's) list" where
  "rest_of (Ret a es s) d = es"
| "rest_of _ d = d"

definition env_keeps :: "('s \<Rightarrow> bool) \<Rightarrow> ('s \<Rightarrow> 's) list \<Rightarrow> bool" where
  "env_keeps I es \<longleftrightarrow> (\<forall>e \<in> set es. \<forall>t. I t \<longrightarrow> I (e t))"

definition kinv :: "('s \<Rightarrow> bool) \<Rightarrow> ('s, 'a) kern \<Rightarrow> bool" where
  "kinv I m \<longleftrightarrow> (\<forall>es s. env_keeps I es \<longrightarrow> I s \<longrightarrow>
      outcome_all I (m es s) \<and> env_keeps I (rest_of (m es s) es))"

lemma kinvI:
  assumes "\<And>es s. env_keeps I es \<Longrightarrow> I s \<Longrightarrow>
    outcome_all I (m es s) \<and> env_keeps I (rest_of (m es s) es)"
  shows "kinv I m"
  using assms by (simp add: kinv_def)

lemma kinvD:
  assumes "kinv I m" "env_keeps I es" "I s"
  shows "outcome_all I (m es s)" and "env_keeps I (rest_of (m es s) es)"
  using assms by (auto simp add: kinv_def)

lemma kinv_RetD:
  assumes "kinv I m" "env_keeps I es" "I s" "m es s = Ret a es' s'"
  shows "I s'" and "env_keeps I es'"
  using kinvD[OF assms(1-3)] by (simp_all add: assms(4))

lemma kinv_kret [kinv_intro]: "kinv I (kret a)"
  by (simp add: kinv_def kern_simps)

lemma kinv_kget [kinv_intro]: "kinv I (kget f)"
  by (simp add: kinv_def kern_simps)

lemma kinv_kmod [kinv_intro]: "(\<And>s. I s \<Longrightarrow> I (f s)) \<Longrightarrow> kinv I (kmod f)"
  by (simp add: kinv_def kern_simps)

lemma kinv_kpanic [kinv_intro]: "kinv I (kpanic msg)"
  by (simp add: kinv_def kern_simps)

lemma kinv_klongjmp [kinv_intro]: "kinv I klongjmp"
  by (simp add: kinv_def kern_simps)

lemma kinv_kexited [kinv_intro]: "kinv I kexited"
  by (simp add: kinv_def kern_simps)

lemma kinv_kyield [kinv_intro]: "kinv I kyield"
  by (auto simp add: kinv_def kern_simps env_keeps_def split: list.split)

lemma kinv_kif [kinv_intro]: "\<lbrakk>kinv I m1; kinv I m2\<rbrakk> \<Longrightarrow> kinv I (kif c m1 m2)"
  by (simp add: kinv_def kern_simps)

lemma kinv_kbind [kinv_intro]:
  assumes "kinv I m" and "\<And>a. kinv I (f a)"
  shows "kinv I (kbind m f)"
proof (rule kinvI)
  fix es s
  assume env: "env_keeps I es" and I: "I s"
  show "outcome_all I (kbind m f es s) \<and> env_keeps I (rest_of (kbind m f es s) es)"
  proof (cases "m es s")
    case (Ret a es' s')
    from kinv_RetD[OF assms(1) env I Ret] kinvD[OF assms(2)[of a]]
    have "outcome_all I (f a es' s')" and "env_keeps I (rest_of (f a es' s') es')"
      by simp_all
    moreover have "env_keeps I (rest_of (f a es' s') es)"
      using calculation(2) env by (cases "f a es' s'") simp_all
    ultimately show ?thesis by (simp add: kern_simps Ret)
  qed (use kinvD[OF assms(1) env I] env in \<open>simp_all add: kern_simps\<close>)
qed

lemma kinv_kthen [kinv_intro]: "\<lbrakk>kinv I m1; kinv I m2\<rbrakk> \<Longrightarrow> kinv I (kthen m1 m2)"
  by (simp add: kthen_def kinv_kbind)

lemma kinv_kwhen [kinv_intro]: "kinv I m \<Longrightarrow> kinv I (kwhen c m)"
  by (simp add: kwhen_def kinv_kif kinv_kret)

lemma kinv_kseq [kinv_intro]: "(\<And>m. m \<in> set ms \<Longrightarrow> kinv I m) \<Longrightarrow> kinv I (kseq ms)"
  by (induction ms) (auto intro: kinv_intro)

lemma kinv_kfor [kinv_intro]: "(\<And>i. i \<in> set is \<Longrightarrow> kinv I (f i)) \<Longrightarrow> kinv I (kfor f is)"
  by (induction "is") (auto intro: kinv_intro)

lemma kinv_ksleep_while [kinv_intro]:
  assumes "kinv I body"
  shows "kinv I (ksleep_while c body)"
proof -
  have loop: "kinv I (ksleep_loop n c body)" for n
  proof (induction n)
    case 0
    show ?case by (simp add: kinv_def)
  next
    case (Suc n)
    show ?case by (simp, intro kinv_intro assms Suc)
  qed
  show ?thesis
    using loop by (simp add: ksleep_while_def kinv_def del: ksleep_loop.simps)
qed

section \<open>Tables\<close>

text \<open>The first index of a table that satisfies a condition, as the search loops find it.\<close>

definition first_index :: "nat \<Rightarrow> (nat \<Rightarrow> bool) \<Rightarrow> nat option" where
  "first_index n P = List.find P [0..<n]"

lemma first_index_Some:
  "first_index n P = Some i \<longleftrightarrow> i < n \<and> P i \<and> (\<forall>j < i. \<not> P j)"
  by (auto simp add: first_index_def find_Some_iff)

lemma first_index_None: "first_index n P = None \<longleftrightarrow> (\<forall>i < n. \<not> P i)"
  by (auto simp add: first_index_def find_None_iff)

end
