(* ===== verification/Callout.thy ===== *)
theory Callout
  imports Kernel_Prelude
begin

text \<open>
  The callout table of \<open>sys/clock.c\<close>: \<open>timeout\<close>, and the part of the clock interrupt
  that counts the table down and runs what is due.

  The table is an array of \<open>NCALL\<close> entries ended by an entry without a function; the
  time of an entry is the number of ticks after the entry before it. The abstraction
  \<open>deadlines\<close> turns the increments into ticks from now. A loop that
  would leave the array is \<open>Wild\<close>.
\<close>

section \<open>The table\<close>

definition NCALL :: nat where
  "NCALL = 20"

record 'f callo =
  c_time :: int
  c_arg :: int
  c_func :: "'f option"

text \<open>\<open>while (p1->c_func != 0 && p1->c_time <= t) { t -= p1->c_time; p1++; }\<close>\<close>

fun timeout_scan :: "'f callo list \<Rightarrow> int \<Rightarrow> (nat \<times> int) option" where
  "timeout_scan [] t = None"
| "timeout_scan (e # r) t =
    (if c_func e \<noteq> None \<and> c_time e \<le> t
     then map_option (\<lambda>(i, t'). (Suc i, t')) (timeout_scan r (t - c_time e))
     else Some (0, t))"

text \<open>\<open>while (p2->c_func != 0) p2++;\<close> from the start of a part of the array.\<close>

fun callout_end :: "'f callo list \<Rightarrow> nat option" where
  "callout_end [] = None"
| "callout_end (e # r) = (if c_func e = None then Some 0 else map_option Suc (callout_end r))"

text \<open>\<open>while (p2 >= p1) { (p2+1)->... = p2->...; p2--; }\<close>\<close>

definition callout_shift :: "nat \<Rightarrow> nat \<Rightarrow> 'f callo list \<Rightarrow> 'f callo list" where
  "callout_shift p1 p2 tbl = fold (\<lambda>p T. T[p + 1 := T ! p]) (rev [p1 ..< Suc p2]) tbl"

definition timeout :: "'f \<Rightarrow> int \<Rightarrow> int \<Rightarrow> 'f callo list \<Rightarrow> fault + 'f callo list" where
  "timeout fn arg tim tbl =
    (case timeout_scan tbl tim of
       None \<Rightarrow> Inl (Wild ''callout'')
     | Some (p1, t) \<Rightarrow>
         if p1 \<ge> NCALL - 1 then Inl (Panicked ''Timeout table overflow'')
         else
           let tbl = tbl[p1 := (tbl ! p1)\<lparr>c_time := c_time (tbl ! p1) - t\<rparr>]
           in case callout_end (drop p1 tbl) of
                None \<Rightarrow> Inl (Wild ''callout'')
              | Some d \<Rightarrow>
                  if p1 + d + 1 \<ge> length tbl then Inl (Wild ''callout'')
                  else Inr ((callout_shift p1 (p1 + d) tbl)
                         [p1 := \<lparr>c_time = t, c_arg = arg, c_func = Some fn\<rparr>]))"

section \<open>The clock's part\<close>

text \<open>
  \<open>if (callout[0].c_func == NULL) goto out;\<close> else step to the first entry with a positive time and
  count it down.
\<close>

fun callout_count :: "'f callo list \<Rightarrow> 'f callo list option" where
  "callout_count [] = None"
| "callout_count (e # r) =
    (if c_time e \<le> 0 \<and> c_func e \<noteq> None then map_option (Cons e) (callout_count r)
     else Some (e\<lparr>c_time := c_time e - 1\<rparr> # r))"

definition callout_tick :: "'f callo list \<Rightarrow> 'f callo list option" where
  "callout_tick tbl =
    (case tbl of [] \<Rightarrow> None
     | e # r \<Rightarrow> if c_func e = None then Some tbl else callout_count tbl)"

text \<open>
  \<open>while (p1->c_func != 0 && p1->c_time <= 0) { (*p1->c_func)(p1->c_arg); p1++; }\<close>, with the table read
  again after every call, since the called routine may itself call \<open>timeout\<close>.
  The first argument bounds the pointer by the length of the array.
\<close>

fun callout_calls ::
  "nat \<Rightarrow> ('f \<Rightarrow> int \<Rightarrow> 'f callo list \<times> 's \<Rightarrow> 'f callo list \<times> 's) \<Rightarrow> nat \<Rightarrow>
   'f callo list \<times> 's \<Rightarrow> (nat \<times> 'f callo list \<times> 's) option" where
  "callout_calls 0 call p1 st = None"
| "callout_calls (Suc n) call p1 st =
    (if p1 \<ge> length (fst st) then None
     else case c_func (fst st ! p1) of
            None \<Rightarrow> Some (p1, st)
          | Some f \<Rightarrow>
              if c_time (fst st ! p1) \<le> 0
              then callout_calls n call (p1 + 1) (call f (c_arg (fst st ! p1)) st)
              else Some (p1, st))"

text \<open>
  \<open>while (p2->c_func = p1->c_func) { ...; p1++; p2++; }\<close>: entries \<open>p1\<close>, \<open>p1 + 1\<close>, \dots up to the end mark
  are copied to the front; of the end mark only the missing function is copied.
\<close>

fun callout_slide :: "nat \<Rightarrow> nat \<Rightarrow> nat \<Rightarrow> 'f callo list \<Rightarrow> 'f callo list option" where
  "callout_slide 0 p1 p2 tbl = None"
| "callout_slide (Suc n) p1 p2 tbl =
    (if p1 \<ge> length tbl then None
     else if c_func (tbl ! p1) = None then Some (tbl[p2 := (tbl ! p2)\<lparr>c_func := None\<rparr>])
     else callout_slide n (p1 + 1) (p2 + 1) (tbl[p2 := tbl ! p1]))"

definition callout_run ::
  "('f \<Rightarrow> int \<Rightarrow> 'f callo list \<times> 's \<Rightarrow> 'f callo list \<times> 's) \<Rightarrow> 'f callo list \<times> 's \<Rightarrow>
   ('f callo list \<times> 's) option" where
  "callout_run call st =
    (if fst st = [] then None
     else if c_time (hd (fst st)) \<le> 0 then
       (case callout_calls (Suc (length (fst st))) call 0 st of
          None \<Rightarrow> None
        | Some (p1, tbl, s) \<Rightarrow>
            map_option (\<lambda>tbl'. (tbl', s)) (callout_slide (Suc (length tbl)) p1 0 tbl))
     else Some st)"

section \<open>Deadlines\<close>

definition live_callouts :: "'f callo list \<Rightarrow> 'f callo list" where
  "live_callouts tbl = takeWhile (\<lambda>e. c_func e \<noteq> None) tbl"

fun deadlines :: "int \<Rightarrow> 'f callo list \<Rightarrow> (int \<times> 'f option \<times> int) list" where
  "deadlines now [] = []"
| "deadlines now (e # r) = (now + c_time e, c_func e, c_arg e) # deadlines (now + c_time e) r"

definition pending :: "'f callo list \<Rightarrow> (int \<times> 'f option \<times> int) list" where
  "pending tbl = deadlines 0 (live_callouts tbl)"

text \<open>A table with an end mark, and with a free entry behind it.\<close>

definition callout_wf :: "'f callo list \<Rightarrow> bool" where
  "callout_wf tbl \<longleftrightarrow> length tbl = NCALL \<and> length (live_callouts tbl) < NCALL"

lemma callout_split:
  assumes "callout_wf tbl"
  obtains ls z zs where "tbl = ls @ z # zs" "\<forall>e \<in> set ls. c_func e \<noteq> None" "c_func z = None"
    "live_callouts tbl = ls"
proof -
  let ?n = "length (live_callouts tbl)"
  have lt: "?n < length tbl" using assms by (simp add: callout_wf_def)
  have "tbl = live_callouts tbl @ drop ?n tbl"
    unfolding live_callouts_def by (metis append_take_drop_id takeWhile_eq_take)
  moreover have "drop ?n tbl = tbl ! ?n # drop (Suc ?n) tbl"
    using lt by (simp add: Cons_nth_drop_Suc)
  moreover have "c_func (tbl ! ?n) = None"
    using nth_length_takeWhile[of "\<lambda>e. c_func e \<noteq> None" tbl] lt by (simp add: live_callouts_def)
  moreover have "\<forall>e \<in> set (live_callouts tbl). c_func e \<noteq> None"
    by (auto simp add: live_callouts_def dest: set_takeWhileD)
  ultimately show ?thesis using that by metis
qed

lemma live_callouts_append:
  "\<lbrakk>\<forall>e \<in> set ls. c_func e \<noteq> None; c_func z = None\<rbrakk> \<Longrightarrow> live_callouts (ls @ z # zs) = ls"
  by (simp add: live_callouts_def)

lemma deadlines_append:
  "deadlines now (xs @ ys) = deadlines now xs @ deadlines (now + sum_list (map c_time xs)) ys"
  by (induction xs arbitrary: now) (simp_all add: add.assoc)

lemma length_deadlines [simp]: "length (deadlines now xs) = length xs"
  by (induction xs arbitrary: now) simp_all

lemma scan_spec:
  assumes "\<forall>e \<in> set ls. c_func e \<noteq> None" "c_func z = None"
  shows "timeout_scan (ls @ z # zs) t =
    (let i = length (takeWhile (\<lambda>d. fst d \<le> now + t) (deadlines now ls))
     in Some (i, t - sum_list (map c_time (take i ls))))"
  using assms
proof (induction ls arbitrary: t now)
  case (Cons a ls)
  have "now + c_time a + (t - c_time a) = now + t" by simp
  with Cons.IH[of "t - c_time a" "now + c_time a"] Cons.prems show ?case
    by (auto simp add: Let_def)
qed simp

lemma callout_end_spec:
  "\<lbrakk>\<forall>e \<in> set ls. c_func e \<noteq> None; c_func z = None\<rbrakk> \<Longrightarrow> callout_end (ls @ z # zs) = Some (length ls)"
  by (induction ls) simp_all

lemma callout_shift_nth:
  assumes "p1 \<le> Suc p2" "p2 + 1 < length T"
  shows "length (callout_shift p1 p2 T) = length T"
    and "j < length T \<Longrightarrow> callout_shift p1 p2 T ! j = (if p1 < j \<and> j \<le> p2 + 1 then T ! (j - 1) else T ! j)"
  unfolding callout_shift_def using assms
proof (induction p2 arbitrary: T)
  case 0
  { case 1 then show ?case by (cases p1) auto next
    case 2 then show ?case by (cases p1) (auto simp add: nth_list_update) }
next
  case (Suc p2)
  {
    case 1
    then show ?case
    proof (cases "p1 \<le> Suc p2")
      case True
      then show ?thesis using Suc.IH(1)[of "T[Suc p2 + 1 := T ! Suc p2]"] 1 by simp
    qed auto
  next
    case 2
    then show ?case
    proof (cases "p1 \<le> Suc p2")
      case True
      then have "rev [p1 ..< Suc (Suc p2)] = Suc p2 # rev [p1 ..< Suc p2]" by simp
      then show ?thesis
        using Suc.IH(2)[of "T[Suc p2 + 1 := T ! Suc p2]"] 2 True
        by (auto simp add: nth_list_update simp del: upt_Suc)
    qed auto
  }
qed

text \<open>The move of the tail by one place, then the store of the new entry.\<close>

lemma callout_insert_list:
  assumes T: "T = xs @ ys @ z # w # ws"
  shows "(callout_shift (length xs) (length xs + length ys) T)[length xs := e] =
    xs @ e # ys @ z # ws"
proof (rule nth_equalityI)
  have le: "length xs \<le> Suc (length xs + length ys)" "length xs + length ys + 1 < length T"
    by (simp_all add: T)
  note len = callout_shift_nth(1)[OF le]
  show "length ((callout_shift (length xs) (length xs + length ys) T)[length xs := e]) =
      length (xs @ e # ys @ z # ws)"
    using len by (simp add: T)
  fix j
  assume "j < length ((callout_shift (length xs) (length xs + length ys) T)[length xs := e])"
  then have j: "j < length T" by (simp add: len)
  consider "j < length xs" | "j = length xs" | "length xs < j" "j \<le> length xs + length ys + 1"
    | "length xs + length ys + 1 < j" by linarith
  then show "(callout_shift (length xs) (length xs + length ys) T)[length xs := e] ! j =
      (xs @ e # ys @ z # ws) ! j"
  proof cases
    case 3
    then obtain d where d: "j = length xs + Suc d" "d \<le> length ys"
      using that[of "j - length xs - 1"] by auto
    then show ?thesis
      using callout_shift_nth(2)[OF le j] j
      by (simp add: T nth_append)
  next
    case 4
    then obtain d where d: "j = length xs + length ys + 2 + d"
      using that[of "j - length xs - length ys - 2"] by auto
    then show ?thesis
      using callout_shift_nth(2)[OF le j] j
      by (simp add: T nth_append)
  qed (use callout_shift_nth(2)[OF le j] j in \<open>simp_all add: T nth_append len[unfolded T]\<close>)
qed

section \<open>The contract of a timer queue\<close>

text \<open>
  What the clock and the drivers rely on: requests are kept in the order of their deadlines, a tick
  brings every future deadline one tick nearer, and running removes exactly what is due.
\<close>

definition insert_deadline :: "int \<times> 'a \<Rightarrow> (int \<times> 'a) list \<Rightarrow> (int \<times> 'a) list" where
  "insert_deadline x xs = takeWhile (\<lambda>d. fst d \<le> fst x) xs @ x # dropWhile (\<lambda>d. fst d \<le> fst x) xs"

lemma sorted_insert_middle:
  "\<lbrakk>sorted A; sorted B; \<forall>a \<in> set A. a \<le> x; \<forall>b \<in> set B. x \<le> b\<rbrakk> \<Longrightarrow> sorted (A @ x # B)"
  by (induction A) (auto intro: order.trans)

lemma insert_deadline_sorted:
  "sorted (map fst xs) \<Longrightarrow> sorted (map fst (insert_deadline x xs))"
proof -
  assume s: "sorted (map fst xs)"
  let ?a = "takeWhile (\<lambda>d. fst d \<le> fst x) xs" and ?b = "dropWhile (\<lambda>d. fst d \<le> fst x) xs"
  have "sorted (map fst (?a @ ?b))" using s by (simp only: takeWhile_dropWhile_id)
  then have ab: "sorted (map fst ?a)" "sorted (map fst ?b)"
      "\<forall>y \<in> set ?a. \<forall>y' \<in> set ?b. fst y \<le> fst y'"
    by (simp_all add: sorted_append del: takeWhile_dropWhile_id)
  have b: "\<forall>d \<in> set ?b. fst x \<le> fst d"
    using s by (induction xs) (auto split: if_splits)
  have a: "\<forall>d \<in> set ?a. fst d \<le> fst x"
    by (auto dest: set_takeWhileD)
  have "sorted (map fst ?a @ fst x # map fst ?b)"
    using ab(1,2) a b by (intro sorted_insert_middle) auto
  then show ?thesis by (simp add: insert_deadline_def)
qed

lemma timeout_table:
  assumes tbl: "tbl = ls @ z # w # ws" and len: "length tbl = NCALL"
    and live: "\<forall>e \<in> set ls. c_func e \<noteq> None" and z: "c_func z = None"
    and i: "i = length (takeWhile (\<lambda>d. fst d \<le> tim) (deadlines 0 ls))"
    and t: "t = tim - sum_list (map c_time (take i ls))"
    and e: "e = \<lparr>c_time = t, c_arg = arg, c_func = Some fn\<rparr>"
  shows "timeout fn arg tim tbl = Inr (take i ls @ e #
     (case drop i ls of
        [] \<Rightarrow> z\<lparr>c_time := c_time z - t\<rparr> # ws
      | y # ys \<Rightarrow> y\<lparr>c_time := c_time y - t\<rparr> # ys @ z # ws))"
proof -
  have sc: "timeout_scan tbl tim = Some (i, t)"
    using scan_spec[OF live z, of "w # ws" tim 0] by (simp add: tbl i t Let_def)
  have il: "i \<le> length ls"
    using length_takeWhile_le[of "\<lambda>d. fst d \<le> tim" "deadlines 0 ls"] by (simp add: i)
  have small: "\<not> i \<ge> NCALL - 1" using il len by (simp add: tbl)
  show ?thesis
  proof (cases "drop i ls")
    case Nil
    then have i': "i = length ls" using il by simp
    let ?T = "ls @ z\<lparr>c_time := c_time z - t\<rparr> # w # ws"
    have "tbl[i := (tbl ! i)\<lparr>c_time := c_time (tbl ! i) - t\<rparr>] = ?T"
      by (simp add: tbl i')
    moreover have "callout_end (drop i ?T) = Some 0" using i' z by simp
    moreover have "(callout_shift i (i + 0) ?T)[i := e] = ls @ e # z\<lparr>c_time := c_time z - t\<rparr> # ws"
      using callout_insert_list[of ?T ls "[]" "z\<lparr>c_time := c_time z - t\<rparr>" w ws e] i' by simp
    ultimately show ?thesis
      using sc small Nil i' by (simp add: timeout_def Let_def e)
  next
    case (Cons y ys)
    then have ls: "ls = take i ls @ y # ys" by (metis append_take_drop_id)
    have li: "length (take i ls) = i" using il by simp
    let ?y = "y\<lparr>c_time := c_time y - t\<rparr>"
    let ?T = "take i ls @ (?y # ys) @ z # w # ws"
    have nth: "tbl ! i = y" using ls li tbl by (metis append_assoc append_Cons nth_append_length)
    have "tbl = take i ls @ y # ys @ z # w # ws" using ls tbl by simp
    then have upd: "tbl[i := (tbl ! i)\<lparr>c_time := c_time (tbl ! i) - t\<rparr>] = ?T"
      by (metis append_Cons li list_update_length nth)
    have "y \<in> set ls" "set ys \<subseteq> set ls" using ls by (metis in_set_conv_decomp, metis in_set_conv_decomp_first set_append Un_iff insert_iff list.set(2) subsetI)
    then have "callout_end (drop i ?T) = Some (Suc (length ys))"
      using callout_end_spec[of "?y # ys" z "w # ws"] live z li by auto
    moreover have "(callout_shift i (i + Suc (length ys)) ?T)[i := e] = take i ls @ e # ?y # ys @ z # ws"
      using callout_insert_list[of ?T "take i ls" "?y # ys" z w ws e] li by simp
    moreover have "\<not> i + Suc (length ys) + 1 \<ge> length ?T" using li by simp
    ultimately show ?thesis
      using sc small Cons upd by (simp add: timeout_def Let_def e)
  qed
qed

lemma take_takeWhile_deadlines:
  "take (length (takeWhile P (deadlines now ls))) (deadlines now ls) = takeWhile P (deadlines now ls)"
  by (metis append_eq_conv_conj takeWhile_dropWhile_id)

lemma drop_takeWhile_deadlines:
  "drop (length (takeWhile P xs)) xs = dropWhile P xs"
  by (metis append_eq_conv_conj takeWhile_dropWhile_id)

lemma deadlines_take: "deadlines now (take i ls) = take i (deadlines now ls)"
proof (induction ls arbitrary: i now)
  case (Cons a ls)
  then show ?case by (cases i) simp_all
qed simp

lemma deadlines_drop:
  "deadlines (now + sum_list (map c_time (take i ls))) (drop i ls) = drop i (deadlines now ls)"
proof (induction ls arbitrary: i now)
  case (Cons a ls)
  then show ?case by (cases i) (simp_all add: add.assoc[symmetric])
qed simp

text \<open>Shifting the start of a list of increments and the first increment against each other.\<close>

lemma deadlines_rebase:
  "deadlines (now + t) (y\<lparr>c_time := c_time y - t\<rparr> # ys) = deadlines now (y # ys)"
  by simp

lemma timeout_pending:
  assumes wf: "callout_wf tbl" and room: "length (live_callouts tbl) < NCALL - 1"
  shows "\<exists>tbl'. timeout fn arg tim tbl = Inr tbl' \<and> callout_wf tbl' \<and>
    pending tbl' = insert_deadline (tim, Some fn, arg) (pending tbl)"
proof -
  obtain ls z zs where tbl: "tbl = ls @ z # zs" and live: "\<forall>e \<in> set ls. c_func e \<noteq> None"
    and z: "c_func z = None" and ls: "live_callouts tbl = ls"
    using callout_split[OF wf] by metis
  have len: "length tbl = NCALL" using wf by (simp add: callout_wf_def)
  then obtain w ws where zs: "zs = w # ws" using room ls tbl by (cases zs) auto
  define i where "i = length (takeWhile (\<lambda>d. fst d \<le> tim) (deadlines 0 ls))"
  define t where "t = tim - sum_list (map c_time (take i ls))"
  define e where "e = \<lparr>c_time = t, c_arg = arg, c_func = Some fn\<rparr>"
  have tab: "tbl = ls @ z # w # ws" using tbl zs by simp
  note T = timeout_table[OF tab len live z i_def t_def e_def]
  have D: "deadlines 0 (take i ls) = takeWhile (\<lambda>d. fst d \<le> tim) (deadlines 0 ls)"
    "deadlines (sum_list (map c_time (take i ls))) (drop i ls) = dropWhile (\<lambda>d. fst d \<le> tim) (deadlines 0 ls)"
    using deadlines_take[of 0 i ls] deadlines_drop[of 0 i ls]
    by (simp_all add: i_def take_takeWhile_deadlines drop_takeWhile_deadlines)
  have tk: "\<forall>x \<in> set (take i ls). c_func x \<noteq> None" "\<forall>x \<in> set (drop i ls). c_func x \<noteq> None"
    using live by (auto dest: in_set_takeD in_set_dropD)
  have end': "sum_list (map c_time (take i ls)) + t = tim" by (simp add: t_def)
  have goal: ?thesis if T': "timeout fn arg tim tbl = Inr (take i ls @ e # ys @ z' # ws)"
    and z': "c_func z' = None" and ys: "\<forall>x \<in> set ys. c_func x \<noteq> None"
    and l: "length ys = length (drop i ls)"
    and d: "deadlines tim ys = dropWhile (\<lambda>d. fst d \<le> tim) (deadlines 0 ls)" for ys z'
  proof -
    let ?n = "take i ls @ e # ys"
    have lv: "live_callouts (?n @ z' # ws) = ?n"
      using live_callouts_append[of ?n z' ws] tk(1) ys z' by (auto simp add: e_def)
    have "deadlines 0 ?n = insert_deadline (tim, Some fn, arg) (deadlines 0 ls)"
      using D(1) d end' by (simp add: deadlines_append e_def insert_deadline_def)
    moreover have "callout_wf (?n @ z' # ws)"
      using lv len l room ls by (simp add: callout_wf_def tab) linarith
    ultimately show ?thesis
      using T' lv ls by (auto simp add: pending_def)
  qed
  show ?thesis
  proof (cases "drop i ls")
    case Nil
    have d: "deadlines tim [] = dropWhile (\<lambda>d. fst d \<le> tim) (deadlines 0 ls)" using D(2) Nil by simp
    show ?thesis using goal[OF _ _ _ _ d, of "z\<lparr>c_time := c_time z - t\<rparr>"] T Nil z by simp
  next
    case (Cons y ys)
    have "deadlines tim (y\<lparr>c_time := c_time y - t\<rparr> # ys) = dropWhile (\<lambda>d. fst d \<le> tim) (deadlines 0 ls)"
      using deadlines_rebase[of "sum_list (map c_time (take i ls))" t y ys] D(2) Cons end'
      by (simp del: deadlines.simps)
    then show ?thesis
      using goal[of "y\<lparr>c_time := c_time y - t\<rparr> # ys" z] T Cons z tk(2) by simp
  qed
qed

subsection \<open>Counting down\<close>

definition increments_ok :: "'f callo list \<Rightarrow> bool" where
  "increments_ok tbl \<longleftrightarrow> (\<forall>e \<in> set (live_callouts tbl). 0 \<le> c_time e)"

definition nearer :: "int \<times> 'a \<Rightarrow> int \<times> 'a" where
  "nearer d = (if 0 < fst d then (fst d - 1, snd d) else d)"

lemma deadlines_ge: "\<lbrakk>\<forall>e \<in> set ls. 0 \<le> c_time e; d \<in> set (deadlines now ls)\<rbrakk> \<Longrightarrow> now \<le> fst d"
  by (induction ls arbitrary: now) fastforce+

lemma deadlines_minus: "deadlines (now - 1) ys = map (\<lambda>d. (fst d - 1, snd d)) (deadlines now ys)"
proof (induction ys arbitrary: now)
  case (Cons y ys)
  have "now - 1 + c_time y = (now + c_time y) - 1" by simp
  then show ?case using Cons.IH[of "now + c_time y"] by (simp only: deadlines.simps) simp
qed simp

lemma callout_count_spec:
  assumes "\<forall>e \<in> set ls. c_func e \<noteq> None" "c_func z = None" "\<forall>e \<in> set ls. 0 \<le> c_time e"
  shows "\<exists>ls' z'. callout_count (ls @ z # zs) = Some (ls' @ z' # zs) \<and> length ls' = length ls \<and>
    (\<forall>e \<in> set ls'. c_func e \<noteq> None \<and> 0 \<le> c_time e) \<and> c_func z' = None \<and>
    deadlines 0 ls' = map nearer (deadlines 0 ls)"
  using assms
proof (induction ls)
  case Nil
  then show ?case by (intro exI[of _ "[]"]) simp
next
  case (Cons e ls)
  show ?case
  proof (cases "c_time e = 0")
    case True
    with Cons obtain ls' z' where "callout_count (ls @ z # zs) = Some (ls' @ z' # zs)"
      "length ls' = length ls" "\<forall>e \<in> set ls'. c_func e \<noteq> None \<and> 0 \<le> c_time e" "c_func z' = None"
      "deadlines 0 ls' = map nearer (deadlines 0 ls)" by auto
    with True Cons.prems show ?thesis
      by (intro exI[of _ "e # ls'"] exI[of _ z']) (simp add: nearer_def)
  next
    case False
    then have pos: "0 < c_time e" using Cons.prems(3) by auto
    have "\<forall>d \<in> set (deadlines (c_time e) ls). 0 < fst d"
      using deadlines_ge[of ls _ "c_time e"] Cons.prems(3) pos by fastforce
    then have "map nearer (deadlines (c_time e) ls) = deadlines (c_time e - 1) ls"
      by (simp add: deadlines_minus nearer_def)
    with pos Cons.prems show ?thesis
      by (intro exI[of _ "e\<lparr>c_time := c_time e - 1\<rparr> # ls"] exI[of _ z]) (simp, simp add: nearer_def)
  qed
qed

lemma callout_tick_pending:
  assumes wf: "callout_wf tbl" and ok: "increments_ok tbl"
  shows "\<exists>tbl'. callout_tick tbl = Some tbl' \<and> callout_wf tbl' \<and> increments_ok tbl' \<and>
    pending tbl' = map nearer (pending tbl)"
proof -
  obtain ls z zs where tbl: "tbl = ls @ z # zs" and live: "\<forall>e \<in> set ls. c_func e \<noteq> None"
    and z: "c_func z = None" and ls: "live_callouts tbl = ls"
    using callout_split[OF wf] by metis
  show ?thesis
  proof (cases ls)
    case Nil
    with tbl z ls wf ok show ?thesis by (simp add: callout_tick_def pending_def)
  next
    case (Cons e r)
    have "\<forall>e \<in> set ls. 0 \<le> c_time e" using ok ls by (simp add: increments_ok_def)
    from callout_count_spec[OF live z this, of zs] obtain ls' z' where
      c: "callout_count tbl = Some (ls' @ z' # zs)" "length ls' = length ls"
        "\<forall>e \<in> set ls'. c_func e \<noteq> None \<and> 0 \<le> c_time e" "c_func z' = None"
        "deadlines 0 ls' = map nearer (deadlines 0 ls)"
      using tbl by blast
    have lv: "live_callouts (ls' @ z' # zs) = ls'" using c(3,4) by (intro live_callouts_append) auto
    have "callout_tick tbl = callout_count tbl"
      using Cons tbl live by (auto simp add: callout_tick_def)
    with c lv wf ls tbl show ?thesis
      by (simp add: callout_wf_def increments_ok_def pending_def)
  qed
qed

subsection \<open>Running what is due\<close>

definition due :: "'f callo list \<Rightarrow> 'f callo list" where
  "due tbl = takeWhile (\<lambda>e. c_func e \<noteq> None \<and> c_time e \<le> 0) tbl"

text \<open>The called routines may add requests, but not in front of what is already due.\<close>

definition keeps_due ::
  "('f \<Rightarrow> int \<Rightarrow> 'f callo list \<times> 's \<Rightarrow> 'f callo list \<times> 's) \<Rightarrow> bool" where
  "keeps_due call \<longleftrightarrow> (\<forall>f a tbl s. callout_wf tbl \<longrightarrow>
     callout_wf (fst (call f a (tbl, s))) \<and> due (fst (call f a (tbl, s))) = due tbl)"

definition run_entry ::
  "('f \<Rightarrow> int \<Rightarrow> 'f callo list \<times> 's \<Rightarrow> 'f callo list \<times> 's) \<Rightarrow> 'f callo \<Rightarrow>
   'f callo list \<times> 's \<Rightarrow> 'f callo list \<times> 's" where
  "run_entry call e st = call (the (c_func e)) (c_arg e) st"

lemma fold_run_due:
  assumes "keeps_due call" "callout_wf (fst st)"
  shows "callout_wf (fst (fold (run_entry call) es st)) \<and> due (fst (fold (run_entry call) es st)) = due (fst st)"
  using assms(2)
proof (induction es arbitrary: st)
  case (Cons e es)
  obtain tbl s where st: "st = (tbl, s)" by fastforce
  with assms(1) Cons.prems
  have "callout_wf (fst (run_entry call e st))" "due (fst (run_entry call e st)) = due (fst st)"
    by (simp_all add: keeps_due_def run_entry_def)
  with Cons.IH[of "run_entry call e st"] show ?case by simp
qed simp

lemma due_nth:
  assumes "i < length (due tbl)"
  shows "i < length tbl" "tbl ! i = due tbl ! i" "c_func (tbl ! i) \<noteq> None" "c_time (tbl ! i) \<le> 0"
proof -
  show l: "i < length tbl"
    using assms length_takeWhile_le[of "\<lambda>e. c_func e \<noteq> None \<and> c_time e \<le> 0" tbl] by (simp add: due_def)
  show e: "tbl ! i = due tbl ! i" using assms by (simp add: due_def takeWhile_nth)
  have "due tbl ! i \<in> set (due tbl)" using assms by simp
  then show "c_func (tbl ! i) \<noteq> None" "c_time (tbl ! i) \<le> 0"
    unfolding e by (auto simp add: due_def dest: set_takeWhileD)
qed

lemma due_end:
  assumes "callout_wf tbl" "i = length (due tbl)"
  shows "i < length tbl" "c_func (tbl ! i) = None \<or> 0 < c_time (tbl ! i)"
proof -
  obtain ls z zs where tbl: "tbl = ls @ z # zs" "\<forall>e \<in> set ls. c_func e \<noteq> None" "c_func z = None"
    using callout_split[OF assms(1)] by metis
  have "due tbl = takeWhile (\<lambda>e. c_func e \<noteq> None \<and> c_time e \<le> 0) ls"
    using tbl by (simp add: due_def takeWhile_append)
      (metis (mono_tags, lifting) takeWhile_eq_all_conv)
  then have "length (due tbl) \<le> length ls" by (simp add: length_takeWhile_le)
  then show l: "i < length tbl" using tbl assms(2) by simp
  then show "c_func (tbl ! i) = None \<or> 0 < c_time (tbl ! i)"
    using nth_length_takeWhile[of "\<lambda>e. c_func e \<noteq> None \<and> c_time e \<le> 0" tbl] assms(2)
    by (auto simp add: due_def)
qed

lemma callout_calls_spec:
  assumes keep: "keeps_due call" and wf: "callout_wf (fst st)"
    and i: "i \<le> length (due (fst st))" and n: "length (fst st) - i < n"
  shows "callout_calls n call i st =
    Some (length (due (fst st)), fold (run_entry call) (drop i (due (fst st))) st)"
  using wf i n
proof (induction n arbitrary: i st)
  case (Suc n)
  obtain tbl s where st: "st = (tbl, s)" by fastforce
  show ?case
  proof (cases "i = length (due tbl)")
    case True
    with due_end[of tbl i] Suc.prems st show ?thesis by (auto split: option.split)
  next
    case False
    then have lt: "i < length (due tbl)" using Suc.prems st by simp
    note d = due_nth[OF lt]
    then obtain f where f: "c_func (tbl ! i) = Some f" by auto
    let ?st = "call f (c_arg (tbl ! i)) st"
    have k: "callout_wf (fst ?st)" "due (fst ?st) = due tbl"
      using keep Suc.prems(1) st by (simp_all add: keeps_due_def)
    have len: "length (fst ?st) = length tbl"
      using k(1) Suc.prems(1) st by (simp add: callout_wf_def)
    have "callout_calls n call (i + 1) ?st =
        Some (length (due tbl), fold (run_entry call) (drop (i + 1) (due tbl)) ?st)"
      using Suc.IH[of ?st "i + 1"] k len lt Suc.prems(3) d(1) st by simp
    moreover have "drop i (due tbl) = due tbl ! i # drop (i + 1) (due tbl)"
      using lt by (simp add: Cons_nth_drop_Suc)
    moreover have "run_entry call (due tbl ! i) st = ?st"
      using f d(2) by (simp add: run_entry_def)
    ultimately show ?thesis using d f st by simp
  qed
qed simp

lemma callout_slide_spec:
  assumes "tbl = ps @ xs @ qs @ z # zs" "length ps = p2" "p1 = p2 + length xs"
    "\<forall>e \<in> set qs. c_func e \<noteq> None" "c_func z = None" "length qs < n" "\<forall>e \<in> set ps. c_func e \<noteq> None"
  shows "\<exists>tbl'. callout_slide n p1 p2 tbl = Some tbl' \<and> length tbl' = length tbl \<and>
    live_callouts tbl' = ps @ qs"
  using assms
proof (induction qs arbitrary: n tbl ps xs p1 p2)
  case Nil
  then obtain m where n: "n = Suc m" by (cases n) auto
  have z: "tbl ! p1 = z" using Nil.prems by (simp add: nth_append)
  have "callout_slide n p1 p2 tbl = Some (tbl[p2 := (tbl ! p2)\<lparr>c_func := None\<rparr>])"
    using n z Nil.prems by simp
  moreover have "tbl[p2 := (tbl ! p2)\<lparr>c_func := None\<rparr>] =
      ps @ (hd (xs @ [z]))\<lparr>c_func := None\<rparr> # tl (xs @ z # zs)"
    using Nil.prems by (cases xs) (simp_all add: list_update_append nth_append)
  ultimately show ?case
    using live_callouts_append[of ps "(hd (xs @ [z]))\<lparr>c_func := None\<rparr>" "tl (xs @ z # zs)"] Nil.prems
    by (cases xs) auto
next
  case (Cons q qs)
  then obtain m where n: "n = Suc m" by (cases n) auto
  have q: "tbl ! p1 = q" using Cons.prems by (simp add: nth_append)
  have step: "callout_slide n p1 p2 tbl = callout_slide m (p1 + 1) (p2 + 1) (tbl[p2 := q])"
    using n q Cons.prems by auto
  show ?case
  proof (cases xs)
    case Nil
    then have "tbl[p2 := q] = (ps @ [q]) @ [] @ qs @ z # zs"
      using Cons.prems by (auto simp add: list_update_append)
    from Cons.IH[OF this, of "p2 + 1" "p1 + 1" m] Cons.prems n step Nil show ?thesis by simp
  next
    case (Cons x xs')
    then have "tbl[p2 := q] = (ps @ [q]) @ (xs' @ [q]) @ qs @ z # zs"
      using Cons.prems by (simp add: list_update_append)
    from Cons.IH[OF this, of "p2 + 1" "p1 + 1" m] Cons.prems n step \<open>xs = x # xs'\<close>
    show ?thesis by simp
  qed
qed

section \<open>Properties\<close>

text \<open>
  \<open>timeout\<close> on a table with at least two free entries records the request so that it falls due
  exactly \<open>tim\<close> ticks from now: the pending requests afterwards are those before with the
  new one inserted behind every request due no later, and no other request's deadline has changed.\<close>

theorem timeout_inserts:
  assumes "callout_wf tbl" "length (live_callouts tbl) < NCALL - 1"
  shows "\<exists>tbl'. timeout fn arg tim tbl = Inr tbl' \<and> callout_wf tbl' \<and>
    pending tbl' = insert_deadline (tim, Some fn, arg) (pending tbl) \<and>
    (sorted (map fst (pending tbl)) \<longrightarrow> sorted (map fst (pending tbl')))"
  using timeout_pending[OF assms, of fn arg tim] insert_deadline_sorted by metis

text \<open>
  With \<open>NCALL - 1\<close> requests pending, the overflow test of \<open>timeout\<close> misses a request that is due
  before the last one: its insertion copies the end mark to \<open>callout[NCALL]\<close>, outside the table, instead of reaching the panic.\<close>

theorem timeout_overflow_unchecked:
  assumes wf: "callout_wf tbl" and full: "length (live_callouts tbl) = NCALL - 1"
    and early: "\<exists>d \<in> set (pending tbl). tim < fst d"
  shows "timeout fn arg tim tbl = Inl (Wild ''callout'')"
proof -
  obtain ls z zs where tbl: "tbl = ls @ z # zs" and live: "\<forall>e \<in> set ls. c_func e \<noteq> None"
    and z: "c_func z = None" and ls: "live_callouts tbl = ls"
    using callout_split[OF wf] by metis
  have len: "length tbl = NCALL" using wf by (simp add: callout_wf_def)
  have zs: "zs = []" using len full ls tbl by (simp add: NCALL_def)
  define i where "i = length (takeWhile (\<lambda>d. fst d \<le> tim) (deadlines 0 ls))"
  have sc: "timeout_scan tbl tim = Some (i, tim - sum_list (map c_time (take i ls)))"
    using scan_spec[OF live z, of zs tim 0] by (simp add: tbl i_def Let_def)
  have "takeWhile (\<lambda>d. fst d \<le> tim) (deadlines 0 ls) \<noteq> deadlines 0 ls"
    using early ls by (force simp add: pending_def takeWhile_eq_all_conv)
  then have il: "i < length ls"
    using length_takeWhile_le[of "\<lambda>d. fst d \<le> tim" "deadlines 0 ls"]
    by (metis (no_types, lifting) i_def le_neq_implies_less length_deadlines takeWhile_eq_take take_all_iff order_refl)
  define y where "y = (tbl ! i)\<lparr>c_time := c_time (tbl ! i) - (tim - sum_list (map c_time (take i ls)))\<rparr>"
  have upd: "tbl[i := y] = ls[i := y] @ [z]" using il tbl zs by (simp add: list_update_append)
  have yl: "\<forall>e \<in> set (drop i (ls[i := y])). c_func e \<noteq> None"
  proof -
    have "c_func y \<noteq> None" using il live tbl by (simp add: y_def nth_append)
    then show ?thesis
      using live by (auto dest!: in_set_dropD dest: subsetD[OF set_update_subset_insert])
  qed
  have "callout_end (drop i (tbl[i := y])) = Some (length (drop i (ls[i := y])))"
    using callout_end_spec[OF yl z, of "[]"] il upd by simp
  then show ?thesis
    using sc il full ls len y_def by (simp add: timeout_def Let_def)
qed

text \<open>
  One clock tick brings every request that is still in the future exactly one tick nearer
  and leaves requests already due where they are.\<close>

theorem callout_tick_counts:
  assumes "callout_wf tbl" "increments_ok tbl"
  shows "\<exists>tbl'. callout_tick tbl = Some tbl' \<and> callout_wf tbl' \<and> increments_ok tbl' \<and>
    pending tbl' = map (\<lambda>d. if 0 < fst d then (fst d - 1, snd d) else d) (pending tbl)"
proof -
  have "nearer = (\<lambda>d :: int \<times> 'a option \<times> int. if 0 < fst d then (fst d - 1, snd d) else d)"
    by (auto simp add: nearer_def)
  with callout_tick_pending[OF assms] show ?thesis by simp
qed

text \<open>
  Claim C26. When the clock runs the callouts, each request that is due is called once, in table order, with
  the state its predecessors left, and exactly the due requests leave the table, even when
  the called routines add requests of their own, as long as these are for a later tick
  (\<open>keeps_due\<close>: a called routine keeps the table well-formed and the due requests as they are).\<close>

theorem callout_run_due:
  assumes keep: "keeps_due call" and wf: "callout_wf tbl" and now: "due tbl \<noteq> []"
  shows "\<exists>tbl'. callout_run call (tbl, s) =
      Some (tbl', snd (fold (run_entry call) (due tbl) (tbl, s))) \<and> callout_wf tbl' \<and>
    live_callouts tbl' =
      drop (length (due tbl)) (live_callouts (fst (fold (run_entry call) (due tbl) (tbl, s))))"
proof -
  obtain T s' where F: "fold (run_entry call) (due tbl) (tbl, s) = (T, s')" by fastforce
  have T: "callout_wf T" "due T = due tbl"
    using fold_run_due[OF keep, of "(tbl, s)" "due tbl"] wf F by simp_all
  have len: "length T = length tbl" using T(1) wf by (simp add: callout_wf_def)
  have calls: "callout_calls (Suc (length tbl)) call 0 (tbl, s) = Some (length (due tbl), T, s')"
    using callout_calls_spec[OF keep, of "(tbl, s)" 0 "Suc (length tbl)"] wf F by simp
  obtain ls z zs where tb: "T = ls @ z # zs" "\<forall>e \<in> set ls. c_func e \<noteq> None" "c_func z = None"
    "live_callouts T = ls" using callout_split[OF T(1)] by metis
  have n: "length (due tbl) \<le> length ls"
    using due_nth(3)[of "length ls" T] tb T(2) by (cases "length (due tbl) \<le> length ls") simp_all
  have "\<exists>tbl'. callout_slide (Suc (length T)) (length (due tbl)) 0 T = Some tbl' \<and>
      length tbl' = length T \<and> live_callouts tbl' = [] @ drop (length (due tbl)) ls"
    using tb n by (intro callout_slide_spec[where xs = "take (length (due tbl)) ls" and z = z and zs = zs])
      (auto dest: in_set_dropD)
  then obtain tbl' where sl: "callout_slide (Suc (length T)) (length (due tbl)) 0 T = Some tbl'"
      "length tbl' = length T" "live_callouts tbl' = drop (length (due tbl)) ls" by auto
  have hd: "tbl \<noteq> []" "c_time (hd tbl) \<le> 0"
    using now by (cases tbl; simp add: due_def split: if_splits)+
  have "callout_run call (tbl, s) = Some (tbl', s')"
    using hd calls sl(1) by (simp add: callout_run_def)
  moreover have "callout_wf tbl'"
    using T(1) sl(2,3) tb(4) by (auto simp add: callout_wf_def)
  ultimately show ?thesis using sl(3) tb(4) F by simp
qed

subsection \<open>Instances\<close>

definition demo_table :: "nat callo list" where
  "demo_table =
    [\<lparr>c_time = 0, c_arg = 7, c_func = Some 1\<rparr>, \<lparr>c_time = 4, c_arg = 8, c_func = Some 2\<rparr>] @
    replicate 18 \<lparr>c_time = 0, c_arg = 0, c_func = None\<rparr>"

definition full_table :: "nat callo list" where
  "full_table = replicate 19 \<lparr>c_time = 1, c_arg = 0, c_func = Some 1\<rparr> @
    [\<lparr>c_time = 0, c_arg = 0, c_func = None\<rparr>]"

lemma demo_table_facts:
  "callout_wf demo_table" "live_callouts demo_table =
    [\<lparr>c_time = 0, c_arg = 7, c_func = Some 1\<rparr>, \<lparr>c_time = 4, c_arg = 8, c_func = Some 2\<rparr>]"
  "pending demo_table = [(0, Some 1, 7), (4, Some 2, 8)]" "increments_ok demo_table"
  "due demo_table = [\<lparr>c_time = 0, c_arg = 7, c_func = Some 1\<rparr>]"
  by (simp_all add: demo_table_def callout_wf_def live_callouts_def NCALL_def pending_def
      increments_ok_def due_def)

theorem timeout_inserts_witness:
  "\<exists>tbl'. timeout 3 9 2 demo_table = Inr tbl' \<and>
     pending tbl' = [(0, Some 1, 7), (2, Some 3, 9), (4, Some 2, 8)]"
  using timeout_inserts[of demo_table 3 9 2] demo_table_facts
  by (auto simp add: NCALL_def insert_deadline_def)

theorem timeout_overflow_unchecked_witness:
  "timeout 3 9 0 full_table = Inl (Wild ''callout'')"
proof -
  have "live_callouts full_table = replicate 19 \<lparr>c_time = 1, c_arg = 0, c_func = Some 1\<rparr>"
    by (simp add: full_table_def live_callouts_def takeWhile_append)
  moreover have "replicate 19 x = x # replicate 18 x" for x :: "nat callo"
    by (simp add: eval_nat_numeral)
  ultimately show ?thesis
    by (intro timeout_overflow_unchecked)
      (simp_all add: callout_wf_def full_table_def NCALL_def pending_def)
qed

definition demo_call :: "nat \<Rightarrow> int \<Rightarrow> nat callo list \<times> int list \<Rightarrow> nat callo list \<times> int list" where
  "demo_call f a st = (fst st, snd st @ [int f, a])"

theorem callout_run_due_witness:
  "\<exists>tbl'. callout_run demo_call (demo_table, []) = Some (tbl', [1, 7]) \<and>
     live_callouts tbl' = [\<lparr>c_time = 4, c_arg = 8, c_func = Some 2\<rparr>]"
proof -
  have "keeps_due demo_call" by (simp add: keeps_due_def demo_call_def)
  from callout_run_due[OF this, of demo_table "[]"] demo_table_facts show ?thesis
    by (auto simp add: run_entry_def demo_call_def)
qed

end
