(* ===== verification/Rtc.thy ===== *)
theory Rtc
  imports Kernel_Prelude
begin

text \<open>
  The MM58167 calendar clock driver \<open>dev/mm58167.c\<close>: conversion between \<open>time_t\<close> and the
  BCD digit registers. The registers are a function from register number to byte.
\<close>

section \<open>The driver\<close>

type_synonym regs = "nat \<Rightarrow> int"

definition MM58167_NREG :: nat where
  "MM58167_NREG = 16"

definition mdays :: "int list" where
  "mdays = [31, 28, 31, 30, 31, 30, 31, 31, 30, 31, 30, 31]"

text \<open>The pairs of a units register and a tens register.\<close>

definition RTC_SEC :: "nat \<times> nat" where "RTC_SEC = (0, 1)"
definition RTC_MIN :: "nat \<times> nat" where "RTC_MIN = (2, 3)"
definition RTC_HOUR :: "nat \<times> nat" where "RTC_HOUR = (4, 5)"
definition RTC_DAY :: "nat \<times> nat" where "RTC_DAY = (7, 8)"
definition RTC_MONTH :: "nat \<times> nat" where "RTC_MONTH = (9, 10)"
definition RTC_YEAR :: "nat \<times> nat" where "RTC_YEAR = (11, 12)"

definition rtcbcd :: "regs \<Rightarrow> nat \<times> nat \<Rightarrow> int" where
  "rtcbcd r ut =
    (let u = r (fst ut) AND 0xF; t = r (snd ut) AND 0xF
     in if u > 9 \<or> t > 9 then - 1 else t * 10 + u)"

definition rtcleap :: "int \<Rightarrow> bool" where
  "rtcleap year = (year mod 4 = 0)"

definition rtcputbcd :: "nat \<times> nat \<Rightarrow> int \<Rightarrow> regs \<Rightarrow> regs" where
  "rtcputbcd ut v r = r(fst ut := v mod 10, snd ut := (v div 10) mod 10)"

definition year_days :: "int \<Rightarrow> int" where
  "year_days year = (if rtcleap year then 366 else 365)"

text \<open>\<open>for (y = 1970; y < year; y++) days += rtcleap(y) ? 366 : 365;\<close>\<close>

definition rtcdays_before_year :: "int \<Rightarrow> int" where
  "rtcdays_before_year year = fold (\<lambda>y days. days + year_days y) [1970 .. year - 1] 0"

definition month_days :: "int \<Rightarrow> int \<Rightarrow> int" where
  "month_days year month =
    (mdays ! nat (month - 1) + (if month = 2 \<and> rtcleap year then 1 else 0))"

text \<open>\<open>for (i = 1; i < month; i++) ...\<close>\<close>

definition days_before_month :: "int \<Rightarrow> int \<Rightarrow> int" where
  "days_before_month year month = fold (\<lambda>i days. days + month_days year i) [1 .. month - 1] 0"

definition mm58167_time :: "regs \<Rightarrow> int option" where
  "mm58167_time r =
    (let sec = rtcbcd r RTC_SEC; min = rtcbcd r RTC_MIN; hour = rtcbcd r RTC_HOUR;
         day = rtcbcd r RTC_DAY; month = rtcbcd r RTC_MONTH; year = rtcbcd r RTC_YEAR
     in if sec < 0 \<or> sec > 59 \<or> min < 0 \<or> min > 59 \<or> hour < 0 \<or> hour > 23 \<or>
           month < 1 \<or> month > 12 then None
        else let year = (if year < 70 then year + 2000 else year + 1900)
             in if year < 1970 then None
                else if day < 1 then None
                else if day > month_days year month then None
                else let days = rtcdays_before_year year + days_before_month year month + (day - 1)
                     in Some (to_i32 (((days * 24 + hour) * 60 + min) * 60 + sec)))"

text \<open>\<open>for (year = 1970; days >= (rtcleap(year) ? 366 : 365); year++) days -= ...;\<close>\<close>

function year_loop :: "int \<Rightarrow> int \<Rightarrow> int \<times> int" where
  "year_loop days year =
    (if days \<ge> year_days year then year_loop (days - year_days year) (year + 1) else (days, year))"
  by auto

termination
  by (relation "measure (\<lambda>(d, y). nat (d + 1))") (auto simp add: year_days_def split: if_splits)

declare year_loop.simps [simp del]

text \<open>\<open>for (month = 1; month <= 12; month++)\<close> with its \<open>break\<close>; the months still to try.\<close>

fun month_loop :: "int \<Rightarrow> int list \<Rightarrow> int \<Rightarrow> int \<times> int" where
  "month_loop year [] days = (days, 13)"
| "month_loop year (month # ms) days =
    (if days < month_days year month then (days, month)
     else month_loop year ms (days - month_days year month))"

definition mm58167_set_time :: "int \<Rightarrow> regs \<Rightarrow> int \<times> regs" where
  "mm58167_set_time t r =
    (if t < 0 then (- 1, r)
     else let hms = t mod 86400; days = t div 86400;
              r = rtcputbcd RTC_SEC (hms mod 60) r; hms = hms div 60;
              r = rtcputbcd RTC_MIN (hms mod 60) r; hms = hms div 60;
              r = rtcputbcd RTC_HOUR hms r;
              (days, year) = year_loop days 1970;
              (days, month) = month_loop year [1 .. 12] days;
              r = rtcputbcd RTC_DAY (days + 1) r;
              r = rtcputbcd RTC_MONTH month r;
              r = rtcputbcd RTC_YEAR (year mod 100) r
          in (0, r))"

section \<open>Digits\<close>

lemma nibble_id: "\<lbrakk>0 \<le> x; x < 16\<rbrakk> \<Longrightarrow> x AND (15 :: int) = x"
proof -
  assume "0 \<le> x" "x < 16"
  then have "take_bit 4 x = x" by (simp add: take_bit_int_eq_self)
  moreover have "x AND 15 = x AND mask 4" by (simp add: mask_eq_exp_minus_1)
  ultimately show ?thesis by (simp only: take_bit_eq_mask)
qed

lemma rtcbcd_put:
  assumes "0 \<le> v" "v < 100" "fst ut \<noteq> snd ut"
  shows "rtcbcd (rtcputbcd ut v r) ut = v"
proof -
  have "(v mod 10) AND 15 = v mod 10" "(v div 10 mod 10) AND 15 = v div 10 mod 10"
    by (intro nibble_id; simp)+
  moreover have "v div 10 mod 10 = v div 10" using assms by simp
  moreover have "v div 10 * 10 + v mod 10 = v" by simp
  moreover have "\<not> v mod 10 > 9" "\<not> v div 10 > 9" using assms by simp_all
  ultimately show ?thesis using assms(3) by (simp add: rtcbcd_def rtcputbcd_def Let_def)
qed

lemma rtcbcd_other:
  "\<lbrakk>fst ut \<notin> {fst ut', snd ut'}; snd ut \<notin> {fst ut', snd ut'}\<rbrakk> \<Longrightarrow>
   rtcbcd (rtcputbcd ut' v r) ut = rtcbcd r ut"
  by (simp add: rtcbcd_def rtcputbcd_def)

section \<open>The calendar\<close>

lemma fold_plus_upto: "fold (\<lambda>i d. d + f i) xs (a :: int) = a + sum_list (map f xs)"
  by (induction xs arbitrary: a) simp_all

lemma days_before_year_Suc:
  "1970 \<le> y \<Longrightarrow> rtcdays_before_year (y + 1) = rtcdays_before_year y + year_days y"
proof -
  assume "1970 \<le> y"
  then have "[1970 .. y] = [1970 .. y - 1] @ [y]" by (simp add: upto_rec2)
  then show ?thesis by (simp add: rtcdays_before_year_def)
qed

lemma days_before_year_mono:
  assumes "1970 \<le> y" "y \<le> y'"
  shows "rtcdays_before_year y \<le> rtcdays_before_year y'"
  using assms(2)
proof (induction y' rule: int_ge_induct)
  case (step i)
  then show ?case using days_before_year_Suc[of i] assms(1) by (simp add: year_days_def)
qed simp

lemma year_loop_spec:
  assumes "0 \<le> d" "1970 \<le> y" "year_loop d y = (d', y')"
  shows "0 \<le> d' \<and> d' < year_days y' \<and> y \<le> y' \<and>
    rtcdays_before_year y + d = rtcdays_before_year y' + d'"
  using assms
proof (induction d y rule: year_loop.induct)
  case (1 d y)
  show ?case
  proof (cases "d \<ge> year_days y")
    case True
    with 1 have "year_loop (d - year_days y) (y + 1) = (d', y')"
      by (simp add: year_loop.simps[of d y])
    with 1(1)[OF True] 1(2,3) True days_before_year_Suc[of y] show ?thesis by simp
  next
    case False
    with 1 show ?thesis by (simp add: year_loop.simps[of d y])
  qed
qed

lemma days_before_month_Suc:
  "1 \<le> m \<Longrightarrow> days_before_month y (m + 1) = days_before_month y m + month_days y m"
proof -
  assume "1 \<le> m"
  then have "[1 .. m] = [1 .. m - 1] @ [m]" by (simp add: upto_rec2)
  then show ?thesis by (simp add: days_before_month_def)
qed

lemma month_loop_spec:
  assumes "1 \<le> m" "m \<le> 13" "0 \<le> d"
    "days_before_month y m + d < days_before_month y 13" "month_loop y [m .. 12] d = (d', m')"
  shows "0 \<le> d' \<and> m \<le> m' \<and> m' \<le> 12 \<and> d' < month_days y m' \<and>
    days_before_month y m + d = days_before_month y m' + d'"
  using assms
proof (induction "nat (13 - m)" arbitrary: m d)
  case (Suc n)
  then have ms: "[m .. 12] = m # [m + 1 .. 12]" by (simp add: upto_rec1)
  show ?case
  proof (cases "d < month_days y m")
    case True
    with Suc ms show ?thesis by auto
  next
    case False
    with Suc.prems ms have "month_loop y [m + 1 .. 12] (d - month_days y m) = (d', m')" by simp
    moreover have "n = nat (13 - (m + 1))" "m + 1 \<le> 13" using Suc.hyps(2) by linarith+
    ultimately show ?thesis
      using Suc.hyps(1)[of "m + 1" "d - month_days y m"] Suc.prems False
        days_before_month_Suc[of m y] by simp
  qed
qed simp

lemma days_before_month_13: "days_before_month y 13 = year_days y"
proof -
  have "[1 .. 12] = [1, 2, 3, 4, 5, 6, 7, 8, 9, 10, 11, 12 :: int]" by (simp add: upto_rec1)
  then show ?thesis
    by (simp add: days_before_month_def month_days_def mdays_def year_days_def)
qed

lemma month_days_le: "\<lbrakk>1 \<le> m; m \<le> 12\<rbrakk> \<Longrightarrow> month_days y m \<le> 31"
proof -
  assume "1 \<le> m" "m \<le> 12"
  then have "m = 1 \<or> m = 2 \<or> m = 3 \<or> m = 4 \<or> m = 5 \<or> m = 6 \<or> m = 7 \<or> m = 8 \<or> m = 9 \<or>
      m = 10 \<or> m = 11 \<or> m = 12" by presburger
  then show ?thesis by (auto simp add: month_days_def mdays_def)
qed

lemma days_before_1970: "rtcdays_before_year 1970 = 0"
  by (simp add: rtcdays_before_year_def)

lemma days_before_2070: "rtcdays_before_year 2070 = 36525"
  by code_simp

section \<open>Property\<close>

text \<open>
  Claim C40. Setting the calendar clock and reading it back is the identity on every time
  that fits \<open>time_t\<close>: for \<open>0 \<le> t < 2\<^sup>3\<^sup>1\<close>, \<open>mm58167_time\<close> on the registers written by
  \<open>mm58167_set_time(t)\<close> returns \<open>t\<close>, whatever the registers held before.\<close>

theorem rtc_roundtrip:
  assumes t: "0 \<le> t" "t < 2 ^ 31" and s: "mm58167_set_time t r = (e, r')"
  shows "e = 0 \<and> mm58167_time r' = Some t"
proof -
  obtain d y where yl: "year_loop (t div 86400) 1970 = (d, y)" by fastforce
  obtain d' m where ml: "month_loop y [1 .. 12] d = (d', m)" by fastforce
  have Y: "0 \<le> d" "d < year_days y" "1970 \<le> y" "t div 86400 = rtcdays_before_year y + d"
    using year_loop_spec[OF _ _ yl] t days_before_1970 by simp_all
  have "days_before_month y 1 = 0" by (simp add: days_before_month_def)
  then have M: "0 \<le> d'" "1 \<le> m" "m \<le> 12" "d' < month_days y m" "d = days_before_month y m + d'"
    using month_loop_spec[OF _ _ Y(1) _ ml] Y(2) days_before_month_13 by simp_all
  have y70: "y < 2070"
  proof (rule ccontr)
    assume "\<not> y < 2070"
    then have "36525 \<le> rtcdays_before_year y"
      using days_before_year_mono[of 2070 y] days_before_2070 by simp
    with Y t show False by simp
  qed
  have yy: "(if y mod 100 < 70 then y mod 100 + 2000 else y mod 100 + 1900) = y"
  proof (cases "y < 2000")
    case True
    then have "y mod 100 = y - 1900" using Y(3) by (intro int_mod_pos_eq[where q = 19]) auto
    then show ?thesis using Y(3) by simp
  next
    case False
    then have "y mod 100 = y - 2000" using y70 by (intro int_mod_pos_eq[where q = 20]) auto
    then show ?thesis using y70 by simp
  qed
  define h where "h = t mod 86400"
  define r1 where "r1 = rtcputbcd RTC_HOUR (h div 60 div 60)
      (rtcputbcd RTC_MIN (h div 60 mod 60) (rtcputbcd RTC_SEC (h mod 60) r))"
  have r': "e = 0" "r' = rtcputbcd RTC_YEAR (y mod 100) (rtcputbcd RTC_MONTH m
      (rtcputbcd RTC_DAY (d' + 1) r1))"
    using s t yl ml by (simp_all add: mm58167_set_time_def Let_def h_def r1_def)
  have hb: "0 \<le> h" "h < 86400" by (simp_all add: h_def)
  have dd: "d' + 1 \<le> 31" using M month_days_le[OF M(2,3), of y] by simp
  have digits: "rtcbcd r' RTC_SEC = h mod 60" "rtcbcd r' RTC_MIN = h div 60 mod 60"
    "rtcbcd r' RTC_HOUR = h div 60 div 60" "rtcbcd r' RTC_DAY = d' + 1"
    "rtcbcd r' RTC_MONTH = m" "rtcbcd r' RTC_YEAR = y mod 100"
    using hb M dd unfolding r'(2) r1_def RTC_SEC_def RTC_MIN_def RTC_HOUR_def RTC_DAY_def
      RTC_MONTH_def RTC_YEAR_def
    by (simp_all add: rtcbcd_other rtcbcd_put)
  have sum: "((t div 86400 * 24 + h div 60 div 60) * 60 + h div 60 mod 60) * 60 + h mod 60 = t"
    using mult_div_mod_eq[of 86400 t] mult_div_mod_eq[of 60 h] mult_div_mod_eq[of 60 "h div 60"]
    unfolding h_def[symmetric] by (simp add: algebra_simps)
  have ranges: "0 \<le> h mod 60" "h mod 60 \<le> 59" "0 \<le> h div 60 mod 60" "h div 60 mod 60 \<le> 59"
    "0 \<le> h div 60 div 60" "h div 60 div 60 \<le> 23"
    using hb by (auto intro: zmod_le_nonneg_dividend)
  have days: "rtcdays_before_year y + days_before_month y m + d' = t div 86400"
    using Y(4) M(5) by simp
  have "mm58167_time r' = Some (to_i32 t)"
    unfolding mm58167_time_def digits Let_def yy
    using ranges M(1-4) Y(3) days sum by (simp only: add_diff_cancel_right' if_False not_less
      de_Morgan_disj simp_thms linorder_not_le if_not_P)
  then show ?thesis using t r'(1) by (simp add: to_i32_id)
qed

theorem rtc_roundtrip_witness:
  "mm58167_time (snd (mm58167_set_time 951782400 (\<lambda>_. 255))) = Some 951782400"
  using rtc_roundtrip[of 951782400 "\<lambda>_. 255"]
  by (cases "mm58167_set_time 951782400 (\<lambda>_. 255)") simp

end
