(* ===== verification/Resource_Map.thy ===== *)
theory Resource_Map
  imports Kernel_Prelude
begin

text \<open>
  The resource maps of \<open>sys/malloc.c\<close> and the user-page pool of \<open>sys/machdep.c\<close>.

  A map is an array of \<open>(m_size, m_addr)\<close> entries in increasing address order, ended
  by an entry of size 0. The array is a list of its entries, a pointer into it is an
  index, and a routine whose pointer would leave the array is \<open>None\<close>.
  The abstraction \<open>units\<close> is the set of free units; \<open>malloc\<close> takes an interval out of it
  and \<open>mfree\<close> puts one back, coalescing, and both keep \<open>rmap_wf\<close>.
\<close>

section \<open>The map array\<close>

record mapent =
  m_size :: int
  m_addr :: int

type_synonym rmap = "mapent list"

text \<open>\<open>do { bp++; (bp-1)->m_addr = bp->m_addr; } while ((bp-1)->m_size = bp->m_size)\<close>, on the entries from \<open>bp\<close>.\<close>

fun shift_down :: "rmap \<Rightarrow> rmap option" where
  "shift_down (x # y # r) =
     (if m_size y = 0 then Some (y # y # r)
      else map_option (Cons y) (shift_down (y # r)))"
| "shift_down _ = None"

text \<open>\<open>malloc(mp, size)\<close>: first fit, 0 when nothing fits.\<close>

fun malloc :: "rmap \<Rightarrow> int \<Rightarrow> (int \<times> rmap) option" where
  "malloc [] sz = None"
| "malloc (bp # r) sz =
     (if m_size bp = 0 then Some (0, bp # r)
      else if m_size bp \<ge> sz then
        (let a = m_addr bp;
             bp' = bp\<lparr>m_addr := to_u16 (m_addr bp + sz), m_size := to_i16 (m_size bp - sz)\<rparr>
         in if m_size bp' = 0
            then map_option (Pair a) (shift_down (bp' # r))
            else Some (a, bp' # r))
      else map_option (\<lambda>(a, r'). (a, bp # r')) (malloc r sz))"

text \<open>\<open>for (; bp->m_addr <= a && bp->m_size != 0; bp++);\<close>\<close>

fun mfree_scan :: "rmap \<Rightarrow> int \<Rightarrow> nat option" where
  "mfree_scan [] a = None"
| "mfree_scan (bp # r) a =
     (if m_addr bp \<le> a \<and> m_size bp \<noteq> 0 then map_option Suc (mfree_scan r a) else Some 0)"

text \<open>The insertion loop \<open>do { swap (a, size) with *bp; bp++; } while (size = t)\<close>.\<close>

fun push_up :: "rmap \<Rightarrow> int \<Rightarrow> int \<Rightarrow> rmap option" where
  "push_up [] sz a = None"
| "push_up (bp # r) sz a =
     (let bp' = bp\<lparr>m_addr := to_u16 a, m_size := to_i16 sz\<rparr>
      in if m_size bp = 0 then Some (bp' # r)
         else map_option (Cons bp') (push_up r (m_size bp) (m_addr bp)))"

text \<open>\<open>mfree(mp, size, a)\<close> on the array; the wakeup of the scheduler for \<open>coremap\<close> is in the caller.\<close>

definition mfree :: "rmap \<Rightarrow> int \<Rightarrow> int \<Rightarrow> rmap option" where
  "mfree mp sz a =
     (case mfree_scan mp a of
        None \<Rightarrow> None
      | Some i \<Rightarrow>
          if 0 < i \<and> m_addr (mp ! (i - 1)) + m_size (mp ! (i - 1)) = a then
            (let prev = (mp ! (i - 1))\<lparr>m_size := to_i16 (m_size (mp ! (i - 1)) + sz)\<rparr>
             in if a + sz = m_addr (mp ! i) then
                  (let prev' = prev\<lparr>m_size := to_i16 (m_size prev + m_size (mp ! i))\<rparr>
                   in if m_size (mp ! i) = 0 then Some (mp[i - 1 := prev'])
                      else map_option (\<lambda>r. take i (mp[i - 1 := prev']) @ r) (shift_down (drop i mp)))
                else Some (mp[i - 1 := prev]))
          else if a + sz = m_addr (mp ! i) \<and> m_size (mp ! i) \<noteq> 0 then
            Some (mp[i := (mp ! i)\<lparr>m_addr := to_u16 (m_addr (mp ! i) - sz),
                                   m_size := to_i16 (m_size (mp ! i) + sz)\<rparr>])
          else if sz \<noteq> 0 then
            map_option (\<lambda>r. take i mp @ r) (push_up (drop i mp) sz a)
          else Some mp)"

section \<open>Well-formed maps and the units they hold\<close>

definition interval :: "int \<Rightarrow> int \<Rightarrow> int set" where
  "interval a n = {a ..< a + n}"

definition ent_units :: "mapent \<Rightarrow> int set" where
  "ent_units e = interval (m_addr e) (m_size e)"

text \<open>The live entries of the array, and the units they describe.\<close>

definition live :: "rmap \<Rightarrow> rmap" where
  "live mp = takeWhile (\<lambda>e. m_size e \<noteq> 0) mp"

definition units :: "rmap \<Rightarrow> int set" where
  "units mp = (\<Union>e \<in> set (live mp). ent_units e)"

text \<open>Live entries lie above \<open>lo\<close>, are not empty, do not touch, and end by \<open>MAPTOP\<close>,
  below which no field wraps.\<close>

definition MAPTOP :: int where
  "MAPTOP = 32768"

fun segs_ok :: "int \<Rightarrow> rmap \<Rightarrow> bool" where
  "segs_ok lo [] \<longleftrightarrow> True"
| "segs_ok lo (e # es) \<longleftrightarrow>
     lo < m_addr e \<and> 0 < m_size e \<and> m_addr e + m_size e \<le> MAPTOP \<and>
     segs_ok (m_addr e + m_size e) es"

definition zeros :: "rmap \<Rightarrow> bool" where
  "zeros z \<longleftrightarrow> (\<forall>e \<in> set z. m_size e = 0)"

definition rmap_wf :: "rmap \<Rightarrow> bool" where
  "rmap_wf mp \<longleftrightarrow> segs_ok 0 (live mp) \<and> zeros (drop (length (live mp)) mp) \<and>
     length (live mp) < length mp"


lemma live_append: "\<lbrakk>\<forall>e \<in> set ls. m_size e \<noteq> 0; zeros z\<rbrakk> \<Longrightarrow> live (ls @ z) = ls"
  by (induction ls) (cases z; auto simp add: live_def zeros_def)+

lemma segs_ok_nonzero: "segs_ok lo ls \<Longrightarrow> \<forall>e \<in> set ls. m_size e \<noteq> 0"
  by (induction ls arbitrary: lo) auto

lemma rmap_wfI:
  assumes "segs_ok 0 ls" "zeros z" "z \<noteq> []"
  shows "rmap_wf (ls @ z)" and "live (ls @ z) = ls"
  using assms live_append[OF segs_ok_nonzero[OF assms(1)] assms(2)]
  by (simp_all add: rmap_wf_def)

lemma rmap_wfE:
  assumes "rmap_wf mp"
  obtains ls z where "mp = ls @ z" "segs_ok 0 ls" "zeros z" "z \<noteq> []" "live mp = ls"
proof
  have "live mp = take (length (live mp)) mp"
    unfolding live_def by (rule takeWhile_eq_take)
  then show "mp = live mp @ drop (length (live mp)) mp"
    by (metis append_take_drop_id)
qed (use assms in \<open>auto simp add: rmap_wf_def\<close>)

definition units_of :: "rmap \<Rightarrow> int set" where
  "units_of ls = (\<Union>e \<in> set ls. ent_units e)"

lemma units_of_simps [simp]:
  "units_of [] = {}"
  "units_of (e # es) = ent_units e \<union> units_of es"
  "units_of (xs @ ys) = units_of xs \<union> units_of ys"
  by (auto simp add: units_of_def)

lemma units_live: "units mp = units_of (live mp)"
  by (simp add: units_def units_of_def)

lemma segs_ok_units: "segs_ok lo ls \<Longrightarrow> u \<in> units_of ls \<Longrightarrow> lo \<le> u \<and> u < MAPTOP"
proof (induction ls arbitrary: lo)
  case Nil
  then show ?case by simp
next
  case (Cons e ls)
  show ?case
  proof (cases "u \<in> ent_units e")
    case True
    with Cons.prems(1) show ?thesis by (simp add: ent_units_def interval_def)
  next
    case False
    with Cons.prems(2) have "u \<in> units_of ls" by simp
    with Cons.IH[of "m_addr e + m_size e"] Cons.prems(1) show ?thesis by simp
  qed
qed

lemma segs_ok_mono: "segs_ok lo ls \<Longrightarrow> lo' \<le> lo \<Longrightarrow> segs_ok lo' ls"
  by (cases ls) auto

fun endof :: "int \<Rightarrow> rmap \<Rightarrow> int" where
  "endof lo [] = lo"
| "endof lo (e # es) = endof (m_addr e + m_size e) es"

lemma endof_snoc [simp]: "endof lo (xs @ [e]) = m_addr e + m_size e"
  by (induction xs arbitrary: lo) auto

lemma segs_ok_append: "segs_ok lo (xs @ ys) \<longleftrightarrow> segs_ok lo xs \<and> segs_ok (endof lo xs) ys"
  by (induction xs arbitrary: lo) auto

lemma shift_down_segs:
  "\<forall>e \<in> set ls. m_size e \<noteq> 0 \<Longrightarrow> m_size z0 = 0 \<Longrightarrow>
     shift_down (x # ls @ z0 # z) = Some (ls @ z0 # z0 # z)"
  by (induction ls arbitrary: x) auto

lemma push_up_segs:
  "\<lbrakk>segs_ok lo ls; m_size z0 = 0; 0 < a; 0 < sz; a + sz \<le> MAPTOP; 0 \<le> lo\<rbrakk> \<Longrightarrow>
   \<exists>e ls'. push_up (ls @ z0 # z) sz a = Some (e # ls' @ z) \<and>
     m_addr e = a \<and> m_size e = sz \<and> length ls' = length ls \<and>
     (\<forall>lo'. segs_ok lo' ls' = segs_ok lo' ls) \<and> units_of ls' = units_of ls"
proof (induction ls arbitrary: lo sz a)
  case Nil
  then show ?case
    by (simp add: MAPTOP_def to_u16_id to_i16_id)
next
  case (Cons f ls)
  from Cons.prems have "segs_ok (m_addr f + m_size f) ls" "0 < m_addr f" "0 < m_size f"
    "m_addr f + m_size f \<le> MAPTOP" "0 \<le> m_addr f + m_size f"
    by auto
  from Cons.IH[OF this(1) Cons.prems(2) this(2-5)] obtain e ls' where
    "push_up (ls @ z0 # z) (m_size f) (m_addr f) = Some (e # ls' @ z)"
    "m_addr e = m_addr f" "m_size e = m_size f" "length ls' = length ls"
    "\<forall>lo'. segs_ok lo' ls' = segs_ok lo' ls" "units_of ls' = units_of ls"
    by blast
  then have "push_up ((f # ls) @ z0 # z) sz a =
      Some (f\<lparr>m_addr := a, m_size := sz\<rparr> # (e # ls') @ z) \<and>
    length (e # ls') = length (f # ls) \<and>
    (\<forall>lo'. segs_ok lo' (e # ls') = segs_ok lo' (f # ls)) \<and>
    units_of (e # ls') = units_of (f # ls)"
    using Cons.prems \<open>0 < m_size f\<close>
    by (simp add: MAPTOP_def to_u16_id to_i16_id ent_units_def)
  then show ?case
    by (intro exI[of _ "f\<lparr>m_addr := a, m_size := sz\<rparr>"] exI[of _ "e # ls'"]) simp
qed

section \<open>First-fit allocation\<close>

definition first_fit :: "rmap \<Rightarrow> int \<Rightarrow> int \<Rightarrow> bool" where
  "first_fit ls sz a \<longleftrightarrow>
     (\<exists>p e q. ls = p @ e # q \<and> a = m_addr e \<and> sz \<le> m_size e \<and> (\<forall>f \<in> set p. m_size f < sz))"

lemma malloc_segs:
  "\<lbrakk>segs_ok lo ls; 0 \<le> lo; zeros z; z \<noteq> []; 0 < sz\<rbrakk> \<Longrightarrow>
   \<exists>a ls' z'. malloc (ls @ z) sz = Some (a, ls' @ z') \<and> segs_ok lo ls' \<and> zeros z' \<and> z' \<noteq> [] \<and>
     length ls' \<le> length ls \<and> length (ls' @ z') = length (ls @ z) \<and>
     (if \<forall>e \<in> set ls. m_size e < sz then a = 0 \<and> ls' = ls \<and> z' = z
      else first_fit ls sz a \<and> lo < a \<and> interval a sz \<subseteq> units_of ls \<and>
        units_of ls' = units_of ls - interval a sz)"
proof (induction ls arbitrary: lo)
  case Nil
  then obtain z0 z1 where "z = z0 # z1" "m_size z0 = 0"
    by (cases z) (auto simp add: zeros_def)
  with Nil show ?case by (intro exI[of _ 0] exI[of _ "[]"] exI[of _ z]) simp
next
  case (Cons e ls)
  have e: "lo < m_addr e" "0 < m_size e" "m_addr e + m_size e \<le> MAPTOP"
    and ls: "segs_ok (m_addr e + m_size e) ls"
    using Cons.prems by auto
  have above: "\<forall>u \<in> units_of ls. m_addr e + m_size e \<le> u"
    using segs_ok_units[OF ls] by blast
  consider (small) "m_size e < sz" | (exact) "m_size e = sz" | (big) "sz < m_size e"
    by linarith
  then show ?case
  proof cases
    case small
    from Cons.IH[OF ls _ Cons.prems(3-5)] e Cons.prems(2) obtain a ls' z' where IH:
      "malloc (ls @ z) sz = Some (a, ls' @ z')" "segs_ok (m_addr e + m_size e) ls'"
      "zeros z'" "z' \<noteq> []" "length ls' \<le> length ls" "length (ls' @ z') = length (ls @ z)"
      and alt: "if \<forall>e \<in> set ls. m_size e < sz then a = 0 \<and> ls' = ls \<and> z' = z
        else first_fit ls sz a \<and> m_addr e + m_size e < a \<and> interval a sz \<subseteq> units_of ls \<and>
          units_of ls' = units_of ls - interval a sz"
      by auto
    have "first_fit (e # ls) sz a" if "first_fit ls sz a"
    proof -
      from that obtain p f q where "ls = p @ f # q" "a = m_addr f" "sz \<le> m_size f"
        "\<forall>f \<in> set p. m_size f < sz"
        by (auto simp add: first_fit_def)
      with small show ?thesis
        unfolding first_fit_def by (intro exI[of _ "e # p"]) auto
    qed
    moreover have "ent_units e \<inter> interval a sz = {}" if "m_addr e + m_size e < a"
      using that by (auto simp add: ent_units_def interval_def)
    ultimately show ?thesis
      using IH alt small e
      by (intro exI[of _ a] exI[of _ "e # ls'"] exI[of _ z']) (auto split: if_splits)
  next
    case exact
    obtain z0 z1 where z: "z = z0 # z1" "m_size z0 = 0"
      using Cons.prems by (cases z) (auto simp add: zeros_def)
    have "malloc ((e # ls) @ z) sz = Some (m_addr e, ls @ z0 # z)"
      using exact e z Cons.prems(5) shift_down_segs[OF segs_ok_nonzero[OF ls] z(2)]
      by (simp add: Let_def to_i16_id)
    moreover have "first_fit (e # ls) sz (m_addr e)"
      unfolding first_fit_def using exact by (intro exI[of _ "[]"]) simp
    moreover have "units_of ls \<inter> interval (m_addr e) sz = {}"
      using above exact by (force simp add: interval_def)
    ultimately show ?thesis
      using e exact Cons.prems z segs_ok_mono[OF ls, of lo]
      by (intro exI[of _ "m_addr e"] exI[of _ ls] exI[of _ "z0 # z"])
        (auto simp add: zeros_def ent_units_def)
  next
    case big
    define e' where "e' = e\<lparr>m_addr := m_addr e + sz, m_size := m_size e - sz\<rparr>"
    have "malloc ((e # ls) @ z) sz = Some (m_addr e, (e' # ls) @ z)"
      using big e Cons.prems(2,5)
      by (simp add: Let_def e'_def to_i16_id to_u16_id MAPTOP_def)
    moreover have "first_fit (e # ls) sz (m_addr e)"
      unfolding first_fit_def using big by (intro exI[of _ "[]"]) simp
    moreover have "ent_units e' = ent_units e - interval (m_addr e) sz"
      "interval (m_addr e) sz \<subseteq> ent_units e"
      using big Cons.prems(5) by (auto simp add: e'_def ent_units_def interval_def)
    moreover have "units_of ls \<inter> interval (m_addr e) sz = {}"
      using above big by (force simp add: interval_def)
    ultimately show ?thesis
      using e big Cons.prems ls
      by (intro exI[of _ "m_addr e"] exI[of _ "e' # ls"] exI[of _ z]) (auto simp add: e'_def)
  qed
qed


theorem malloc_spec:
  assumes "rmap_wf mp" "0 < sz"
  obtains a mp' where "malloc mp sz = Some (a, mp')" "rmap_wf mp'"
    "length (live mp') \<le> length (live mp)" "length mp' = length mp"
    "if \<forall>e \<in> set (live mp). m_size e < sz then a = 0 \<and> mp' = mp
     else first_fit (live mp) sz a \<and> 0 < a \<and> interval a sz \<subseteq> units mp \<and>
       units mp' = units mp - interval a sz"
proof -
  obtain ls z where mp: "mp = ls @ z" "segs_ok 0 ls" "zeros z" "z \<noteq> []" "live mp = ls"
    using assms(1) by (rule rmap_wfE)
  obtain a ls' z' where r: "malloc (ls @ z) sz = Some (a, ls' @ z')" "segs_ok 0 ls'"
    "zeros z'" "z' \<noteq> []" "length ls' \<le> length ls" "length (ls' @ z') = length (ls @ z)"
    "if \<forall>e \<in> set ls. m_size e < sz then a = 0 \<and> ls' = ls \<and> z' = z
     else first_fit ls sz a \<and> 0 < a \<and> interval a sz \<subseteq> units_of ls \<and>
       units_of ls' = units_of ls - interval a sz"
    using malloc_segs[OF mp(2) _ mp(3,4) assms(2)] by auto
  note live' = rmap_wfI(2)[OF r(2-4)]
  show ?thesis
  proof (rule that[of a "ls' @ z'"])
    show "rmap_wf (ls' @ z')" by (rule rmap_wfI(1)[OF r(2-4)])
    show "length (live (ls' @ z')) \<le> length (live mp)" using r(5) mp(5) live' by simp
    show "length (ls' @ z') = length mp" using r(6) mp(1) by simp
    show "if \<forall>e \<in> set (live mp). m_size e < sz then a = 0 \<and> ls' @ z' = mp
     else first_fit (live mp) sz a \<and> 0 < a \<and> interval a sz \<subseteq> units mp \<and>
       units (ls' @ z') = units mp - interval a sz"
      using r(7) mp(1,5) live' by (simp add: units_live split: if_splits)
  qed (use r(1) mp(1) in simp)
qed

section \<open>Freeing\<close>

lemma mfree_scan_split:
  assumes "\<forall>e \<in> set p. m_addr e \<le> a \<and> m_size e \<noteq> 0"
    and "r \<noteq> []" and "a < m_addr (hd r) \<or> m_size (hd r) = 0"
  shows "mfree_scan (p @ r) a = Some (length p)"
  using assms(1)
proof (induction p)
  case Nil
  show ?case using assms(2,3) by (cases r) auto
qed simp

lemma segs_below:
  "\<lbrakk>segs_ok lo p; lo \<le> a; \<forall>e \<in> set p. m_addr e \<le> a; units_of p \<inter> interval a sz = {}; 0 < sz\<rbrakk>
     \<Longrightarrow> endof lo p \<le> a"
proof (induction p arbitrary: lo)
  case (Cons e p)
  have "m_addr e + m_size e \<le> a"
  proof (rule ccontr)
    assume "\<not> m_addr e + m_size e \<le> a"
    with Cons.prems have "a \<in> ent_units e" "a \<in> interval a sz"
      by (auto simp add: ent_units_def interval_def)
    with Cons.prems(4) show False by auto
  qed
  with Cons show ?case by auto
qed simp

lemma segs_above:
  assumes "segs_ok lo (f # q)" "a < m_addr f" "units_of (f # q) \<inter> interval a sz = {}"
  shows "a + sz \<le> m_addr f"
proof (rule ccontr)
  assume "\<not> a + sz \<le> m_addr f"
  with assms have "m_addr f \<in> ent_units f" "m_addr f \<in> interval a sz"
    by (auto simp add: ent_units_def interval_def)
  with assms(3) show False by auto
qed

lemma interval_join: "0 \<le> m \<Longrightarrow> 0 \<le> n \<Longrightarrow> interval a (m + n) = interval a m \<union> interval (a + m) n"
  by (auto simp add: interval_def)

lemma segs_ok_bounds:
  "\<lbrakk>segs_ok lo ls; 0 \<le> lo; e \<in> set ls\<rbrakk> \<Longrightarrow>
     0 < m_addr e \<and> 0 < m_size e \<and> m_addr e + m_size e \<le> MAPTOP"
proof (induction ls arbitrary: lo)
  case (Cons f ls)
  then show ?case using Cons.IH[of "m_addr f + m_size f"] by auto
qed simp

text \<open>What \<open>mfree\<close> does once the scan has stopped at \<open>f\<close>, behind the entries \<open>p\<close>.\<close>

lemma mfree_no_prev:
  assumes "mfree_scan (p @ f # r) a = Some (length p)"
    and "p = [] \<or> m_addr (last p) + m_size (last p) \<noteq> a"
  shows "mfree (p @ f # r) sz a =
    (if a + sz = m_addr f \<and> m_size f \<noteq> 0
     then Some (p @ f\<lparr>m_addr := to_u16 (m_addr f - sz), m_size := to_i16 (m_size f + sz)\<rparr> # r)
     else if sz \<noteq> 0 then map_option ((@) p) (push_up (f # r) sz a) else Some (p @ f # r))"
proof -
  have no: "(0 < length p \<and> m_addr ((p @ f # r) ! (length p - 1)) +
      m_size ((p @ f # r) ! (length p - 1)) = a) = False"
    using assms(2) by (cases p rule: rev_cases) (auto simp add: nth_append)
  show ?thesis
    unfolding mfree_def assms(1) option.case no if_False
    by (simp add: list_update_append del: push_up.simps)
qed

lemma mfree_prev:
  assumes "mfree_scan ((p @ [e]) @ f # r) a = Some (length (p @ [e]))"
    and "m_addr e + m_size e = a"
  shows "mfree ((p @ [e]) @ f # r) sz a =
    (let e1 = e\<lparr>m_size := to_i16 (m_size e + sz)\<rparr>;
         e2 = e1\<lparr>m_size := to_i16 (m_size e1 + m_size f)\<rparr>
     in if a + sz = m_addr f then
          if m_size f = 0 then Some (p @ e2 # f # r)
          else map_option (\<lambda>r'. p @ e2 # r') (shift_down (f # r))
        else Some (p @ e1 # f # r))"
  using assms unfolding mfree_def assms(1)
  by (cases "shift_down (f # r)") (simp_all add: nth_append list_update_append Let_def)

text \<open>The three shapes of a free interval between the segments \<open>p\<close> below and \<open>q\<close> above.\<close>

lemma mfree_insert:
  assumes "segs_ok 0 p" "\<forall>e \<in> set p. m_addr e \<le> a" "endof 0 p < a"
    and "segs_ok (a + sz) q" "zeros (z0 # z1 # z)" "0 < a" "0 < sz" "a + sz \<le> MAPTOP"
  shows "\<exists>ls' z'. mfree (p @ q @ z0 # z1 # z) sz a = Some (ls' @ z') \<and> segs_ok 0 ls' \<and> zeros z' \<and>
    z' \<noteq> [] \<and> units_of ls' = units_of p \<union> units_of q \<union> interval a sz \<and>
    length (ls' @ z') = length (p @ q @ z0 # z1 # z)"
proof -
  obtain f r where fr: "q @ z0 # z1 # z = f # r" by (cases "q @ z0 # z1 # z") auto
  have f: "a < m_addr f \<or> m_size f = 0" "\<not> (a + sz = m_addr f \<and> m_size f \<noteq> 0)"
    using assms(4,5,7) fr by (cases q; auto simp add: zeros_def)+
  have "mfree_scan (p @ f # r) a = Some (length p)"
    by (rule mfree_scan_split) (use assms(1,2) segs_ok_nonzero f(1) in auto)
  moreover have "p = [] \<or> m_addr (last p) + m_size (last p) \<noteq> a"
    using assms(3) by (cases p rule: rev_cases) auto
  ultimately have "mfree (p @ f # r) sz a = map_option ((@) p) (push_up (f # r) sz a)"
    using f(2) assms(7) by (subst mfree_no_prev) auto
  moreover obtain e ls' where push: "push_up (q @ z0 # z1 # z) sz a = Some (e # ls' @ z1 # z)"
    "m_addr e = a" "m_size e = sz" "length ls' = length q"
    "\<forall>lo'. segs_ok lo' ls' = segs_ok lo' q" "units_of ls' = units_of q"
    using push_up_segs[OF assms(4), of z0 a sz "z1 # z"] assms(5-8) by (auto simp add: zeros_def)
  moreover have "segs_ok 0 (p @ e # ls')"
    using assms push by (simp add: segs_ok_append)
  ultimately show ?thesis
    using assms(5) unfolding fr
    by (intro exI[of _ "p @ e # ls'"] exI[of _ "z1 # z"])
      (auto simp add: fr[symmetric] zeros_def ent_units_def)
qed

lemma mfree_join_next:
  assumes "segs_ok 0 p" "\<forall>e \<in> set p. m_addr e \<le> a" "endof 0 p < a"
    and "segs_ok lo (f # q)" "m_addr f = a + sz" "zeros z" "z \<noteq> []" "0 < a" "0 < sz"
  shows "\<exists>ls' z'. mfree (p @ (f # q) @ z) sz a = Some (ls' @ z') \<and> segs_ok 0 ls' \<and> zeros z' \<and>
    z' \<noteq> [] \<and> units_of ls' = units_of p \<union> units_of (f # q) \<union> interval a sz \<and>
    length (ls' @ z') = length (p @ (f # q) @ z)"
proof -
  define f' where "f' = f\<lparr>m_addr := a, m_size := m_size f + sz\<rparr>"
  have f': "f\<lparr>m_addr := to_u16 (m_addr f - sz), m_size := to_i16 (m_size f + sz)\<rparr> = f'"
    using assms(4,5,8,9) by (simp add: f'_def MAPTOP_def to_u16_id to_i16_id)
  have "mfree_scan (p @ f # q @ z) a = Some (length p)"
    by (rule mfree_scan_split) (use assms(1,2,5,9) segs_ok_nonzero in auto)
  moreover have "p = [] \<or> m_addr (last p) + m_size (last p) \<noteq> a"
    using assms(3) by (cases p rule: rev_cases) auto
  ultimately have "mfree (p @ f # q @ z) sz a = Some (p @ f' # q @ z)"
    using assms(4,5) f' by (subst mfree_no_prev) auto
  moreover have "segs_ok 0 (p @ f' # q)"
    using assms by (simp add: segs_ok_append f'_def algebra_simps)
  moreover have "ent_units f' = interval a sz \<union> ent_units f"
    using assms(4,5,9) interval_join[of sz "m_size f" a]
    by (simp add: f'_def ent_units_def add.commute)
  ultimately show ?thesis
    using assms(6,7) by (intro exI[of _ "p @ f' # q"] exI[of _ z]) auto
qed

lemma mfree_join_prev:
  assumes "segs_ok 0 (p @ [e])" "\<forall>e \<in> set p. m_addr e \<le> a" "m_addr e + m_size e = a"
    and "segs_ok lo q" "\<forall>u \<in> units_of q. a + sz \<le> u" "zeros z" "z \<noteq> []" "0 < sz" "a + sz \<le> MAPTOP"
    and "q \<noteq> [] \<Longrightarrow> a + sz \<le> m_addr (hd q)"
  shows "\<exists>ls' z'. mfree ((p @ [e]) @ q @ z) sz a = Some (ls' @ z') \<and> segs_ok 0 ls' \<and> zeros z' \<and>
    z' \<noteq> [] \<and> units_of ls' = units_of (p @ [e]) \<union> units_of q \<union> interval a sz \<and>
    length (ls' @ z') = length ((p @ [e]) @ q @ z)"
proof -
  define e' where "e' = e\<lparr>m_size := m_size e + sz\<rparr>"
  have e: "0 < m_addr e" "0 < m_size e"
    using segs_ok_bounds[OF assms(1), of e] by auto
  have e': "e\<lparr>m_size := to_i16 (m_size e + sz)\<rparr> = e'" "m_size e' = m_size e + sz"
    "to_i16 (m_size e + sz) = m_size e + sz"
    using e assms(3,8,9) by (simp_all add: e'_def MAPTOP_def to_i16_id)
  have ue': "ent_units e' = ent_units e \<union> interval a sz"
    using interval_join[of "m_size e" sz "m_addr e"] e assms(3,8)
    by (simp add: ent_units_def e'_def)
  obtain f r where fr: "q @ z = f # r" using assms(7) by (cases "q @ z") auto
  obtain z0 z1 where z: "z = z0 # z1" "m_size z0 = 0"
    using assms(6,7) by (cases z) (auto simp add: zeros_def)
  have "mfree_scan ((p @ [e]) @ f # r) a = Some (length (p @ [e]))"
  proof (rule mfree_scan_split)
    show "\<forall>x \<in> set (p @ [e]). m_addr x \<le> a \<and> m_size x \<noteq> 0"
      using assms(2,3) e segs_ok_nonzero[OF assms(1)] by auto
    show "a < m_addr (hd (f # r)) \<or> m_size (hd (f # r)) = 0"
      using assms(8,10) fr z by (cases q) auto
  qed simp
  note upd = mfree_prev[OF this assms(3), of sz, unfolded Let_def e'(1)]
  have "\<exists>q' z'. mfree ((p @ [e]) @ f # r) sz a = Some ((p @ q') @ z') \<and> segs_ok (endof 0 p) q' \<and>
    zeros z' \<and> z' \<noteq> [] \<and> units_of q' = ent_units e \<union> interval a sz \<union> units_of q \<and>
    length (q' @ z') = length (e # q @ z)"
  proof (cases "q \<noteq> [] \<and> a + sz = m_addr f")
    case True
    then obtain q1 where q: "q = f # q1" using fr by (cases q) auto
    define e2 where "e2 = e'\<lparr>m_size := m_size e' + m_size f\<rparr>"
    have f: "0 < m_size f" "m_addr f + m_size f \<le> MAPTOP" "segs_ok (m_addr f + m_size f) q1"
      using assms(4) q by auto
    have "e'\<lparr>m_size := to_i16 (m_size e' + m_size f)\<rparr> = e2"
      using e e'(2) assms(3,8,9) f True by (simp add: e2_def MAPTOP_def to_i16_id)
    moreover have "shift_down (f # r) = Some (q1 @ z0 # z)"
      using shift_down_segs[OF segs_ok_nonzero[OF f(3)] z(2)] fr q z by auto
    ultimately have "mfree ((p @ [e]) @ f # r) sz a = Some ((p @ e2 # q1) @ z0 # z)"
      using upd True f by simp
    moreover have "ent_units e2 = ent_units e \<union> interval a sz \<union> ent_units f"
      using interval_join[of "m_size e'" "m_size f" "m_addr e"] e assms(3,8) f True ue' e'(2)
      by (simp add: ent_units_def e'_def e2_def add.assoc[symmetric])
    moreover have sum: "m_addr e + (m_size e + sz + m_size f) = m_addr f + m_size f"
      using True assms(3) by linarith
    have "segs_ok (m_addr e + (m_size e + sz + m_size f)) q1"
      unfolding sum by (rule f(3))
    then have "segs_ok (endof 0 p) (e2 # q1)"
      using assms(1,3) True e'(2) f assms(8) by (simp add: segs_ok_append e2_def e'_def)
    ultimately show ?thesis
      using q z assms(6) by (intro exI[of _ "e2 # q1"] exI[of _ "z0 # z"]) (auto simp add: zeros_def)
  next
    case False
    have "mfree ((p @ [e]) @ f # r) sz a = Some ((p @ e' # q) @ z)"
    proof (cases "a + sz = m_addr f")
      case True
      with False fr z have "m_size f = 0" by (cases q) auto
      moreover have "e'\<lparr>m_size := to_i16 (m_size e')\<rparr> = e'"
        using e'(2,3) by simp
      ultimately show ?thesis using upd True fr by simp
    qed (use upd fr in simp)
    moreover have "segs_ok (endof 0 p) (e' # q)"
      using assms(1,3,4,9,10) False fr e'(2) assms(8)
      by (cases q) (auto simp add: segs_ok_append e'_def)
    ultimately show ?thesis
      using assms(6,7) ue' by (intro exI[of _ "e' # q"] exI[of _ z]) auto
  qed
  then obtain q' z' where "mfree ((p @ [e]) @ q @ z) sz a = Some ((p @ q') @ z')"
    "segs_ok (endof 0 p) q'" "zeros z'" "z' \<noteq> []"
    "units_of q' = ent_units e \<union> interval a sz \<union> units_of q" "length (q' @ z') = length (e # q @ z)"
    unfolding fr by blast
  then show ?thesis
    using assms(1) by (intro exI[of _ "p @ q'"] exI[of _ z']) (auto simp add: segs_ok_append)
qed


theorem mfree_spec:
  assumes "rmap_wf mp" "0 < a" "0 < sz" "a + sz \<le> MAPTOP"
    and disj: "units mp \<inter> interval a sz = {}" and room: "length (live mp) + 2 \<le> length mp"
  obtains mp' where "mfree mp sz a = Some mp'" "rmap_wf mp'" "length mp' = length mp"
    "units mp' = units mp \<union> interval a sz"
proof -
  obtain ls z where mp: "mp = ls @ z" "segs_ok 0 ls" "zeros z" "z \<noteq> []" "live mp = ls"
    using assms(1) by (rule rmap_wfE)
  define p q where "p = takeWhile (\<lambda>e. m_addr e \<le> a) ls" and "q = dropWhile (\<lambda>e. m_addr e \<le> a) ls"
  have ls: "ls = p @ q" by (simp add: p_def q_def)
  have p: "\<forall>e \<in> set p. m_addr e \<le> a"
    by (auto simp add: p_def dest: set_takeWhileD)
  have segs: "segs_ok 0 p" "segs_ok (endof 0 p) q"
    using mp(2) by (simp_all add: ls segs_ok_append)
  have hdq: "a < m_addr (hd q)" if "q \<noteq> []"
    using hd_dropWhile[of "\<lambda>e. m_addr e \<le> a" ls] that by (simp add: q_def)
  have disj': "units_of p \<inter> interval a sz = {}" "units_of q \<inter> interval a sz = {}"
    using disj by (auto simp add: units_live mp(5) ls)
  have below: "endof 0 p \<le> a"
    using segs_below[OF segs(1) _ p disj'(1) assms(3)] assms(2) by simp
  have above: "a + sz \<le> m_addr (hd q)" if "q \<noteq> []"
    using segs_above[of "endof 0 p" "hd q" "tl q" a sz] that segs(2) hdq[OF that] disj'(2) by simp
  obtain z0 z1 z2 where z: "z = z0 # z1 # z2"
    using room mp(1,5) by (cases z; cases "tl z") auto
  have "\<exists>ls' z'. mfree (p @ q @ z) sz a = Some (ls' @ z') \<and> segs_ok 0 ls' \<and> zeros z' \<and> z' \<noteq> [] \<and>
    units_of ls' = units_of p \<union> units_of q \<union> interval a sz \<and> length (ls' @ z') = length (p @ q @ z)"
  proof (cases "p \<noteq> [] \<and> endof 0 p = a")
    case True
    then obtain p' e where pe: "p = p' @ [e]" by (cases p rule: rev_cases) auto
    have "\<forall>u \<in> units_of q. a + sz \<le> u"
    proof (cases q)
      case (Cons f q')
      have "segs_ok (m_addr f - 1) (f # q')" using segs(2) Cons by simp
      then show ?thesis
        using segs_ok_units[of "m_addr f - 1" "f # q'"] above Cons hdq disj'(2)
        by (force simp add: interval_def)
    qed simp
    then show ?thesis
      using mfree_join_prev[of p' e a "endof 0 p" q sz z] True p segs above mp(3,4) assms(3,4)
      unfolding pe by simp
  next
    case False
    have lt: "endof 0 p < a" using False below assms(2) by (cases p) auto
    show ?thesis
    proof (cases "q \<noteq> [] \<and> m_addr (hd q) = a + sz")
      case True
      then show ?thesis
        using mfree_join_next[OF segs(1) p lt, of "endof 0 p" "hd q" "tl q" sz z] segs(2)
          mp(3,4) assms(2,3) by simp
    next
      case False
      then have "segs_ok (a + sz) q" using segs(2) above by (cases q) auto
      then show ?thesis
        using mfree_insert[OF segs(1) p lt, of sz q z0 z1 z2] mp(3) assms(2-4) unfolding z by simp
    qed
  qed
  then obtain ls' z' where r: "mfree mp sz a = Some (ls' @ z')" "segs_ok 0 ls'" "zeros z'" "z' \<noteq> []"
    "units_of ls' = units_of p \<union> units_of q \<union> interval a sz" "length (ls' @ z') = length mp"
    using mp(1) ls by auto
  show ?thesis
    using that[of "ls' @ z'"] r rmap_wfI[OF r(2-4)] by (simp add: units_live mp(5) ls)
qed


section \<open>The contract of a resource map\<close>

text \<open>
  What the users of a map rely on: an allocation takes an interval of free units or
  reports 0 and changes nothing, and a release puts an interval back, as long as the
  table has room for one more entry.
\<close>

locale interval_allocator =
  fixes alloc :: "'m \<Rightarrow> int \<Rightarrow> (int \<times> 'm) option"
    and release :: "'m \<Rightarrow> int \<Rightarrow> int \<Rightarrow> 'm option"
    and space :: "'m \<Rightarrow> int set"
    and ok :: "'m \<Rightarrow> bool"
    and roomy :: "'m \<Rightarrow> bool"
    and top :: int
  assumes space_range: "ok m \<Longrightarrow> u \<in> space m \<Longrightarrow> 0 < u \<and> u < top"
    and alloc_law: "\<lbrakk>ok m; 0 < n\<rbrakk> \<Longrightarrow> \<exists>a m'. alloc m n = Some (a, m') \<and> ok m' \<and>
        (a = 0 \<and> m' = m \<or>
         interval a n \<subseteq> space m \<and> 0 < a \<and> space m' = space m - interval a n)"
    and alloc_roomy: "\<lbrakk>ok m; roomy m; 0 < n; alloc m n = Some (a, m')\<rbrakk> \<Longrightarrow> roomy m'"
    and alloc_unit: "\<lbrakk>ok m; alloc m 1 = Some (0, m')\<rbrakk> \<Longrightarrow> space m = {}"
    and release_law: "\<lbrakk>ok m; roomy m; 0 < n; 0 < a; a + n \<le> top; space m \<inter> interval a n = {}\<rbrakk>
        \<Longrightarrow> \<exists>m'. release m n a = Some m' \<and> ok m' \<and> space m' = space m \<union> interval a n"
begin

lemma alloc_elim:
  assumes "ok m" "0 < n" "alloc m n = Some (a, m')"
  shows "ok m'" and "a = 0 \<Longrightarrow> m' = m"
    and "a \<noteq> 0 \<Longrightarrow> interval a n \<subseteq> space m \<and> space m' = space m - interval a n"
  using alloc_law[OF assms(1,2)] assms(3) by auto

lemma allocations_disjoint:
  assumes "ok m" "0 < n" "0 < k"
    and "alloc m n = Some (a, m1)" "a \<noteq> 0" "alloc m1 k = Some (b, m2)" "b \<noteq> 0"
  shows "interval a n \<inter> interval b k = {} \<and> space m2 = space m - (interval a n \<union> interval b k)"
proof -
  note first = alloc_elim[OF assms(1,2,4)]
  note second = alloc_elim[OF first(1) assms(3,6)]
  show ?thesis using first(3)[OF assms(5)] second(3)[OF assms(7)] by blast
qed

lemma release_undoes_alloc:
  assumes "ok m" "roomy m" "0 < n" "alloc m n = Some (a, m1)" "a \<noteq> 0"
  shows "\<exists>m2. release m1 n a = Some m2 \<and> ok m2 \<and> space m2 = space m"
proof -
  note first = alloc_elim[OF assms(1,3,4)]
  have sub: "interval a n \<subseteq> space m" using first(3)[OF assms(5)] by simp
  have "a \<in> interval a n" "a + n - 1 \<in> interval a n" using assms(3) by (simp_all add: interval_def)
  then have "0 < a" "a + n - 1 < top" using space_range[OF assms(1)] sub by blast+
  then have range: "0 < a" "a + n \<le> top" by simp_all
  have "space m1 \<inter> interval a n = {}" using first(3)[OF assms(5)] by blast
  from release_law[OF first(1) alloc_roomy[OF assms(1,2,3,4)] assms(3) range this]
  show ?thesis using first(3)[OF assms(5)] sub by (metis Diff_partition Un_commute)
qed

end

definition map_roomy :: "rmap \<Rightarrow> bool" where
  "map_roomy mp \<longleftrightarrow> length (live mp) + 2 \<le> length mp"

lemma malloc_cases:
  assumes "rmap_wf mp" "0 < sz"
  shows "\<exists>a mp'. malloc mp sz = Some (a, mp') \<and> rmap_wf mp' \<and>
    length (live mp') \<le> length (live mp) \<and> length mp' = length mp \<and>
    (a = 0 \<and> mp' = mp \<and> (\<forall>e \<in> set (live mp). m_size e < sz) \<or>
     first_fit (live mp) sz a \<and> 0 < a \<and> interval a sz \<subseteq> units mp \<and>
       units mp' = units mp - interval a sz)"
  using malloc_spec[OF assms] by metis

interpretation ra: interval_allocator malloc mfree units rmap_wf map_roomy MAPTOP
proof unfold_locales
  fix m u
  assume "rmap_wf m" "u \<in> units m"
  then show "0 < u \<and> u < MAPTOP"
    by (elim rmap_wfE) (metis units_live units_of_def ent_units_def interval_def UN_E
      atLeastLessThan_iff segs_ok_bounds order_refl less_le_trans)
next
  fix m and n :: int
  assume "rmap_wf m" "0 < n"
  from malloc_cases[OF this] show "\<exists>a m'. malloc m n = Some (a, m') \<and> rmap_wf m' \<and>
    (a = 0 \<and> m' = m \<or> interval a n \<subseteq> units m \<and> 0 < a \<and> units m' = units m - interval a n)"
    by metis
next
  fix m n a m'
  assume "rmap_wf m" "map_roomy m" "0 < (n :: int)" "malloc m n = Some (a, m')"
  with malloc_cases[of m n] show "map_roomy m'" by (auto simp add: map_roomy_def)
next
  fix m m'
  assume "rmap_wf m" "malloc m 1 = Some (0, m')"
  with malloc_cases[of m 1] have "\<forall>e \<in> set (live m). m_size e < 1" by auto
  moreover from \<open>rmap_wf m\<close> have "\<forall>e \<in> set (live m). 0 < m_size e"
    by (elim rmap_wfE) (metis segs_ok_bounds order_refl)
  ultimately have "live m = []" by (cases "live m") auto
  then show "units m = {}" by (simp add: units_live)
next
  fix m n a
  assume "rmap_wf m" "map_roomy m" "0 < n" "0 < a" "a + n \<le> MAPTOP" "units m \<inter> interval a n = {}"
  then show "\<exists>m'. mfree m n a = Some m' \<and> rmap_wf m' \<and> units m' = units m \<union> interval a n"
    by (metis map_roomy_def mfree_spec)
qed

section \<open>The user-page pool\<close>

definition CMAPSIZ :: nat where
  "CMAPSIZ = 50"

definition EPOCH68_FIRST_USER_PAGE :: int where
  "EPOCH68_FIRST_USER_PAGE = 1"

definition EPOCH68_LAST_USER_PAGE :: int where
  "EPOCH68_LAST_USER_PAGE = 62"

lemmas page_bounds = EPOCH68_FIRST_USER_PAGE_def EPOCH68_LAST_USER_PAGE_def

record userpages =
  userpagemap :: rmap
  epoch68_userpage_owned :: "int \<Rightarrow> bool"

definition userpage_init :: "userpages \<Rightarrow> fault + userpages" where
  "userpage_init s =
     (let s1 = s\<lparr>userpagemap := replicate CMAPSIZ \<lparr>m_size = 0, m_addr = 0\<rparr>,
                 epoch68_userpage_owned := (\<lambda>i. if 0 \<le> i \<and> i < 64 then False
                                               else epoch68_userpage_owned s i)\<rparr>
      in case mfree (userpagemap s1) EPOCH68_LAST_USER_PAGE EPOCH68_FIRST_USER_PAGE of
           None \<Rightarrow> Inl (Wild ''userpagemap'')
         | Some m \<Rightarrow> Inr (s1\<lparr>userpagemap := m\<rparr>))"

definition userpage_alloc :: "userpages \<Rightarrow> fault + (int \<times> userpages)" where
  "userpage_alloc s =
     (case malloc (userpagemap s) 1 of
        None \<Rightarrow> Inl (Wild ''userpagemap'')
      | Some (page, m) \<Rightarrow>
          if page = 0 then Inr (0, s\<lparr>userpagemap := m\<rparr>)
          else if page < EPOCH68_FIRST_USER_PAGE \<or> page > EPOCH68_LAST_USER_PAGE \<or>
                  epoch68_userpage_owned s page
          then Inl (Panicked ''userpage alloc'')
          else Inr (page, s\<lparr>userpagemap := m,
                 epoch68_userpage_owned := (epoch68_userpage_owned s)(page := True)\<rparr>))"

definition userpage_free :: "userpages \<Rightarrow> int \<Rightarrow> fault + userpages" where
  "userpage_free s page =
     (if page < EPOCH68_FIRST_USER_PAGE \<or> page > EPOCH68_LAST_USER_PAGE \<or>
         \<not> epoch68_userpage_owned s page
      then Inl (Panicked ''userpage free'')
      else case mfree (userpagemap s) 1 page of
             None \<Rightarrow> Inl (Wild ''userpagemap'')
           | Some m \<Rightarrow> Inr (s\<lparr>epoch68_userpage_owned := (epoch68_userpage_owned s)(page := False),
                             userpagemap := m\<rparr>))"

text \<open>The pages that are neither owned nor out of range are exactly the units of the map.\<close>

definition pages_inv :: "userpages \<Rightarrow> bool" where
  "pages_inv s \<longleftrightarrow> rmap_wf (userpagemap s) \<and> length (userpagemap s) = CMAPSIZ \<and>
     units (userpagemap s) =
       {p. EPOCH68_FIRST_USER_PAGE \<le> p \<and> p \<le> EPOCH68_LAST_USER_PAGE \<and> \<not> epoch68_userpage_owned s p}"

lemma segs_spread:
  "segs_ok lo ls \<Longrightarrow> lo + 2 * int (length ls) \<le> endof lo ls"
  by (induction ls arbitrary: lo) (auto, smt (verit))

lemma few_segments:
  assumes "segs_ok 0 ls" "\<forall>u \<in> units_of ls. u < t" "0 < t"
  shows "2 * int (length ls) \<le> t"
proof (cases ls rule: rev_cases)
  case (snoc p e)
  have "0 < m_size e" using segs_ok_bounds[OF assms(1), of e] snoc by simp
  then have "m_addr e + m_size e - 1 \<in> units_of ls"
    by (simp add: snoc ent_units_def interval_def)
  with assms(2) have "m_addr e + m_size e - 1 < t" by blast
  then have "endof 0 ls \<le> t" by (simp add: snoc)
  with segs_spread[OF assms(1)] show ?thesis by simp
qed (use assms(3) in simp)

text \<open>Sixty-two pages never split into more entries than the table holds.\<close>

lemma pages_roomy:
  assumes "pages_inv s"
  shows "map_roomy (userpagemap s)"
proof -
  obtain ls z where ls: "segs_ok 0 ls" "live (userpagemap s) = ls"
    using assms by (auto simp add: pages_inv_def elim: rmap_wfE)
  have "\<forall>u \<in> units_of ls. u < 63"
    using assms ls(2) by (auto simp add: pages_inv_def units_live[symmetric] page_bounds)
  from few_segments[OF ls(1) this] show ?thesis
    using assms ls(2) by (simp add: map_roomy_def pages_inv_def CMAPSIZ_def)
qed

lemma userpage_alloc_inv:
  assumes "pages_inv s"
  shows "\<exists>page s'. userpage_alloc s = Inr (page, s') \<and> pages_inv s' \<and>
    (page = 0 \<and> (\<forall>p. 1 \<le> p \<and> p \<le> 62 \<longrightarrow> epoch68_userpage_owned s p) \<and>
       epoch68_userpage_owned s' = epoch68_userpage_owned s \<or>
     1 \<le> page \<and> page \<le> 62 \<and> \<not> epoch68_userpage_owned s page \<and>
       epoch68_userpage_owned s' = (epoch68_userpage_owned s)(page := True))"
proof -
  have wf: "rmap_wf (userpagemap s)" and len: "length (userpagemap s) = CMAPSIZ"
    and un: "units (userpagemap s) = {p. 1 \<le> p \<and> p \<le> 62 \<and> \<not> epoch68_userpage_owned s p}"
    using assms by (auto simp add: pages_inv_def page_bounds)
  obtain page m where m: "malloc (userpagemap s) 1 = Some (page, m)" "rmap_wf m"
    "length m = length (userpagemap s)"
    "page = 0 \<and> m = userpagemap s \<or>
     0 < page \<and> interval page 1 \<subseteq> units (userpagemap s) \<and>
       units m = units (userpagemap s) - interval page 1"
    using malloc_cases[OF wf, of 1] by auto
  show ?thesis
  proof (cases "page = 0")
    case True
    then have "units (userpagemap s) = {}" using ra.alloc_unit[OF wf] m(1) by simp
    with True m assms un show ?thesis
      by (auto simp add: userpage_alloc_def pages_inv_def)
  next
    case False
    then have "page \<in> units (userpagemap s)" "units m = units (userpagemap s) - {page}"
      using m(4) by (auto simp add: interval_def)
    with False m len un show ?thesis
      by (auto simp add: userpage_alloc_def pages_inv_def page_bounds)
  qed
qed

lemma userpage_free_inv:
  assumes "pages_inv s" "1 \<le> page" "page \<le> 62" "epoch68_userpage_owned s page"
  shows "\<exists>s'. userpage_free s page = Inr s' \<and> pages_inv s' \<and>
    epoch68_userpage_owned s' = (epoch68_userpage_owned s)(page := False)"
proof -
  have wf: "rmap_wf (userpagemap s)"
    and un: "units (userpagemap s) = {p. 1 \<le> p \<and> p \<le> 62 \<and> \<not> epoch68_userpage_owned s p}"
    using assms by (auto simp add: pages_inv_def page_bounds)
  have one: "interval page 1 = {page}" by (auto simp add: interval_def)
  have "page \<notin> units (userpagemap s)" unfolding un using assms(4) by simp
  then have "units (userpagemap s) \<inter> interval page 1 = {}" by (simp add: one)
  then obtain m where "mfree (userpagemap s) 1 page = Some m" "rmap_wf m"
    "length m = length (userpagemap s)" "units m = units (userpagemap s) \<union> interval page 1"
    using mfree_spec[OF wf, of page 1 thesis] pages_roomy[OF assms(1)] assms(2,3)
    by (simp add: map_roomy_def MAPTOP_def)
  moreover have "units (userpagemap s) \<union> interval page 1 =
      {p. 1 \<le> p \<and> p \<le> 62 \<and> \<not> ((epoch68_userpage_owned s)(page := False)) p}"
    unfolding un one using assms(2,3) by auto
  ultimately show ?thesis
    using assms by (simp add: userpage_free_def pages_inv_def page_bounds)
qed

lemma userpage_init_inv:
  "\<exists>s'. userpage_init s = Inr s' \<and> pages_inv s' \<and> (\<forall>p. 1 \<le> p \<and> p \<le> 62 \<longrightarrow> \<not> epoch68_userpage_owned s' p)"
proof -
  let ?z = "replicate CMAPSIZ \<lparr>m_size = 0, m_addr = 0\<rparr> :: rmap"
  have wf: "rmap_wf ?z" and live: "live ?z = []"
    using rmap_wfI[of "[]" ?z] by (simp_all add: zeros_def CMAPSIZ_def)
  then obtain m where "mfree ?z 62 1 = Some m" "rmap_wf m" "length m = CMAPSIZ"
    "units m = units ?z \<union> interval 1 62"
    using mfree_spec[OF wf, of 1 62] by (auto simp add: MAPTOP_def CMAPSIZ_def units_live)
  moreover have "units ?z \<union> interval 1 62 = {p. 1 \<le> p \<and> p \<le> 62}"
    by (auto simp add: units_live live interval_def)
  moreover have "{p. 1 \<le> p \<and> p \<le> (62 :: int) \<and> \<not> (if 0 \<le> p \<and> p < 64 then False else f p)} =
      {p. 1 \<le> p \<and> p \<le> 62}" for f
    by (rule Collect_cong) auto
  ultimately show ?thesis
    unfolding userpage_init_def pages_inv_def page_bounds Let_def by (simp del: if_split)
qed


text \<open>States of the pool that the system goes through: it is set up once, pages are taken,
  and a page is given back only by its owner.\<close>

inductive pool_reach :: "userpages \<Rightarrow> bool" where
  pr_init: "userpage_init s0 = Inr s \<Longrightarrow> pool_reach s"
| pr_take: "\<lbrakk>pool_reach s; userpage_alloc s = Inr (page, s')\<rbrakk> \<Longrightarrow> pool_reach s'"
| pr_give: "\<lbrakk>pool_reach s; 1 \<le> page; page \<le> 62; epoch68_userpage_owned s page;
    userpage_free s page = Inr s'\<rbrakk> \<Longrightarrow> pool_reach s'"

lemma pool_reach_inv: "pool_reach s \<Longrightarrow> pages_inv s"
proof (induction rule: pool_reach.induct)
  case (pr_init s0 s)
  then show ?case using userpage_init_inv[of s0] by auto
next
  case (pr_take s page s')
  then show ?case using userpage_alloc_inv[of s] by auto
next
  case (pr_give s page s')
  then show ?case using userpage_free_inv[of s page] by auto
qed

section \<open>Properties\<close>

definition sample_map :: rmap where
  "sample_map = [\<lparr>m_size = 4, m_addr = 10\<rparr>, \<lparr>m_size = 6, m_addr = 20\<rparr>,
     \<lparr>m_size = 0, m_addr = 0\<rparr>, \<lparr>m_size = 0, m_addr = 0\<rparr>]"

lemma sample_map_facts:
  "rmap_wf sample_map" "map_roomy sample_map" "live sample_map = take 2 sample_map"
  by (simp_all add: sample_map_def rmap_wf_def map_roomy_def live_def zeros_def MAPTOP_def numeral_2_eq_2)

text \<open>
  Claim C1. \<open>malloc\<close> on a well-formed map never runs off the table, keeps it well formed and
  is first fit: it returns 0 and changes nothing exactly when every free segment is
  smaller than the request, and otherwise the interval it returns starts the first
  segment that is large enough, was entirely free, and is exactly what leaves the
  set of free units.
\<close>

theorem malloc_first_fit:
  assumes "rmap_wf mp" and "0 < sz"
  shows "\<exists>a mp'. malloc mp sz = Some (a, mp') \<and> rmap_wf mp' \<and>
    (if \<forall>e \<in> set (live mp). m_size e < sz then a = 0 \<and> mp' = mp
     else first_fit (live mp) sz a \<and> 0 < a \<and> interval a sz \<subseteq> units mp \<and>
       units mp' = units mp - interval a sz)"
  using malloc_spec[OF assms] by metis

theorem malloc_first_fit_witness:
  "rmap_wf sample_map \<and> (\<exists>mp'. malloc sample_map 5 = Some (20, mp') \<and> rmap_wf mp' \<and>
     units mp' = units sample_map - interval 20 5)"
proof -
  have "malloc sample_map 5 = Some (20, sample_map[1 := \<lparr>m_size = 1, m_addr = 25\<rparr>])"
    by (simp add: sample_map_def to_u16_def to_i16_def)
  with malloc_first_fit[OF sample_map_facts(1), of 5] show ?thesis
    by (auto simp add: sample_map_facts split: if_splits)
qed

text \<open>
  Claim C2. \<open>mfree\<close> of an interval that is not free, into a well-formed map with room for
  one more entry, adds exactly that interval to the free units and keeps the map
  sorted, free of touching segments and terminated, whichever neighbours it joins.
\<close>

theorem mfree_coalesces:
  assumes "rmap_wf mp" and "map_roomy mp" and "0 < sz" and "0 < a" and "a + sz \<le> MAPTOP"
    and "units mp \<inter> interval a sz = {}"
  shows "\<exists>mp'. mfree mp sz a = Some mp' \<and> rmap_wf mp' \<and> length mp' = length mp \<and>
    units mp' = units mp \<union> interval a sz"
proof -
  have "length (live mp) + 2 \<le> length mp" using assms(2) by (simp add: map_roomy_def)
  from mfree_spec[OF assms(1,4,3,5,6) this] show ?thesis by metis
qed

theorem mfree_coalesces_witness:
  "map_roomy sample_map \<and> (\<exists>mp'. mfree sample_map 6 14 = Some mp' \<and> rmap_wf mp' \<and>
     live mp' = [\<lparr>m_size = 16, m_addr = 10\<rparr>])"
proof -
  have units: "units sample_map \<inter> interval 14 6 = {}"
    by (simp add: units_live sample_map_facts(3)) (auto simp add: sample_map_def ent_units_def interval_def)
  obtain mp' where "mfree sample_map 6 14 = Some mp'" "rmap_wf mp'"
    using mfree_coalesces[OF sample_map_facts(1,2) _ _ _ units] by (auto simp add: MAPTOP_def)
  moreover have "mfree sample_map 6 14 = Some [\<lparr>m_size = 16, m_addr = 10\<rparr>,
      \<lparr>m_size = 0, m_addr = 0\<rparr>, \<lparr>m_size = 0, m_addr = 0\<rparr>, \<lparr>m_size = 0, m_addr = 0\<rparr>]"
    by (simp add: mfree_def sample_map_def to_i16_def)
  ultimately show ?thesis by (auto simp add: sample_map_facts live_def)
qed

text \<open>
  Claim C3. Freeing what \<open>malloc\<close> returned restores the set of free units, and two
  intervals that are allocated one after the other never overlap.
\<close>

theorem malloc_mfree_inverse:
  assumes "rmap_wf mp" and "map_roomy mp" and "0 < sz" and "0 < n"
    and "malloc mp sz = Some (a, mp1)" and "a \<noteq> 0"
  shows "(\<exists>mp2. mfree mp1 sz a = Some mp2 \<and> rmap_wf mp2 \<and> units mp2 = units mp) \<and>
    (\<forall>b mp2. malloc mp1 n = Some (b, mp2) \<longrightarrow> b \<noteq> 0 \<longrightarrow> interval a sz \<inter> interval b n = {})"
  using ra.release_undoes_alloc[OF assms(1,2,3,5,6)]
    ra.allocations_disjoint[OF assms(1,3,4,5,6)] by blast

theorem malloc_mfree_inverse_witness:
  "\<exists>mp1 mp2. malloc sample_map 3 = Some (10, mp1) \<and> mfree mp1 3 10 = Some mp2 \<and>
     units mp2 = units sample_map"
proof -
  have "malloc sample_map 3 = Some (10, sample_map[0 := \<lparr>m_size = 1, m_addr = 13\<rparr>])"
    by (simp add: sample_map_def to_u16_def to_i16_def)
  from malloc_mfree_inverse[OF sample_map_facts(1,2) _ _ this, of 1] this show ?thesis
    by auto
qed

text \<open>
  Claim C4. In every state the user-page pool reaches, an allocation neither panics nor
  leaves the map table; it hands out a page of 1 to 62 that nobody owns, and reports
  exhaustion (0) only when all 62 pages are owned.
\<close>

theorem userpage_alloc_fresh:
  assumes "pool_reach s"
  shows "\<exists>page s'. userpage_alloc s = Inr (page, s') \<and> pool_reach s' \<and>
    (if \<forall>p. 1 \<le> p \<and> p \<le> 62 \<longrightarrow> epoch68_userpage_owned s p then page = 0
     else 1 \<le> page \<and> page \<le> 62 \<and> \<not> epoch68_userpage_owned s page \<and>
       epoch68_userpage_owned s' = (epoch68_userpage_owned s)(page := True))"
  using userpage_alloc_inv[OF pool_reach_inv[OF assms]] pool_reach.pr_take[OF assms] by fastforce

theorem userpage_alloc_fresh_witness:
  "\<exists>s s'. pool_reach s \<and> userpage_alloc s = Inr (1, s') \<and> epoch68_userpage_owned s' 1"
proof -
  let ?s0 = "\<lparr>userpagemap = [], epoch68_userpage_owned = (\<lambda>_. True)\<rparr>"
  let ?own = "\<lambda>i. if 0 \<le> i \<and> i < 64 then False else True"
  let ?s = "\<lparr>userpagemap = \<lparr>m_size = 62, m_addr = 1\<rparr> # replicate 49 \<lparr>m_size = 0, m_addr = 0\<rparr>,
    epoch68_userpage_owned = ?own\<rparr>"
  have rep: "replicate CMAPSIZ \<lparr>m_size = 0, m_addr = 0\<rparr> =
      \<lparr>m_size = 0, m_addr = 0\<rparr> # replicate 49 \<lparr>m_size = 0, m_addr = 0 :: int\<rparr>"
    by (simp add: CMAPSIZ_def numeral_eq_Suc)
  have "userpage_init ?s0 = Inr ?s"
    unfolding userpage_init_def rep Let_def
    by (simp add: mfree_def page_bounds to_u16_def to_i16_def)
  then have "pool_reach ?s" by (rule pool_reach.pr_init)
  moreover have "\<exists>s'. userpage_alloc ?s = Inr (1, s') \<and> epoch68_userpage_owned s' 1"
    by (simp add: userpage_alloc_def page_bounds to_u16_def to_i16_def)
  moreover note userpage_alloc_fresh[OF \<open>pool_reach ?s\<close>]
  ultimately show ?thesis by blast
qed

end
