(* ===== verification/Kernel_State.thy ===== *)
theory Kernel_State
  imports Kernel_Prelude Resource_Map
begin

text \<open>
  The kernel's tables and globals: \<open>struct proc\<close>, \<open>struct user\<close>, \<open>struct inode\<close>,
  \<open>struct file\<close>, \<open>struct mount\<close> with its in-core super block, \<open>struct text\<close>, and the
  scalars of \<open>sys/globals.c\<close>.

  \<^item> A table is a function from index to entry; a pointer into it is the index and a pointer
    that may be \<open>NULL\<close> is an index option. \<open>u\<close> is the entry \<open>k_uarrp\<close> of \<open>k_uarea\<close>.
  \<^item> A sleep channel is the address of an object; distinct objects have distinct addresses, so
    channels are the datatype \<open>chan\<close> and the addresses are the field \<open>k_addr\<close>, whose
    only use is the hash of the sleep queues.
  \<^item> The \<open>xproc\<close> overlay of a zombie's entry is kept in fields of its own; the
    fields it overlays are not read while the process is a zombie.
  \<^item> Disk blocks are read and written as a logical block store \<open>k_disk\<close>, with \<open>k_ioerr\<close>
    telling which transfers fail. \<open>k_mem\<close> is the memory of the user pages. The kernel object that
    \<open>u_base\<close> points at while \<open>u_segflg\<close> is 1 is \<open>u_kbuf\<close>.
  \<^item> The processor priority is not part of the state: no interrupt handler is interleaved with these
    routines, which is what their \<open>spl6\<close> sections arrange.
\<close>

section \<open>Constants\<close>

definition NPROC :: nat where "NPROC = 63"
definition NINODE :: nat where "NINODE = 200"
definition NFILE :: nat where "NFILE = 175"
definition NMOUNT :: nat where "NMOUNT = 8"
definition NTEXT :: nat where "NTEXT = 40"
definition NOFILE :: nat where "NOFILE = 20"
definition NSIG :: nat where "NSIG = 17"
definition MAXUPRC :: int where "MAXUPRC = 25"
definition HZ :: int where "HZ = 60"
definition USIZE :: int where "USIZE = 16"
definition SSIZE :: int where "SSIZE = 20"

definition PSWP :: int where "PSWP = 0"
definition PINOD :: int where "PINOD = 10"
definition PRIBIO :: int where "PRIBIO = 20"
definition PZERO :: int where "PZERO = 25"
definition NZERO :: int where "NZERO = 20"
definition PPIPE :: int where "PPIPE = 26"
definition PWAIT :: int where "PWAIT = 30"
definition PSLEP :: int where "PSLEP = 40"
definition PUSER :: int where "PUSER = 50"

definition EPERM :: int where "EPERM = 1"
definition ENOENT :: int where "ENOENT = 2"
definition ESRCH :: int where "ESRCH = 3"
definition EIO :: int where "EIO = 5"
definition ENXIO :: int where "ENXIO = 6"
definition EBADF :: int where "EBADF = 9"
definition ECHILD :: int where "ECHILD = 10"
definition EAGAIN :: int where "EAGAIN = 11"
definition ENOMEM :: int where "ENOMEM = 12"
definition EACCES :: int where "EACCES = 13"
definition EFAULT :: int where "EFAULT = 14"
definition ENOTBLK :: int where "ENOTBLK = 15"
definition EBUSY :: int where "EBUSY = 16"
definition EEXIST :: int where "EEXIST = 17"
definition EXDEV :: int where "EXDEV = 18"
definition ENODEV :: int where "ENODEV = 19"
definition ENOTDIR :: int where "ENOTDIR = 20"
definition EISDIR :: int where "EISDIR = 21"
definition EINVAL :: int where "EINVAL = 22"
definition ENFILE :: int where "ENFILE = 23"
definition EMFILE :: int where "EMFILE = 24"
definition ETXTBSY :: int where "ETXTBSY = 26"
definition EFBIG :: int where "EFBIG = 27"
definition ENOSPC :: int where "ENOSPC = 28"
definition ESPIPE :: int where "ESPIPE = 29"
definition EROFS :: int where "EROFS = 30"
definition EMLINK :: int where "EMLINK = 31"
definition EPIPE :: int where "EPIPE = 32"

text \<open>Device numbers: \<open>NODEV\<close> is \<open>(dev_t)(-1)\<close>.\<close>

definition NODEV :: int where "NODEV = 65535"

definition major :: "int \<Rightarrow> int" where
  "major dev = drop_bit 8 dev"

definition minor :: "int \<Rightarrow> int" where
  "minor dev = take_bit 8 dev"

section \<open>Processes\<close>

text \<open>Buffer headers: the head of the available list, the head of a driver's list, an entry of \<open>buf\<close>.\<close>

datatype bref = Bfreelist | Devtab nat | Bufent nat

datatype chan =
    Ch_proc nat | Ch_inode nat nat | Ch_u nat | Ch_lbolt | Ch_runin | Ch_runout | Ch_ipc
  | Ch_flock nat | Ch_ilock nat | Ch_text nat | Ch_execarg | Ch_buf bref
  | Ch_rawq nat | Ch_outq nat

text \<open>The stat codes; \<open>SNULL\<close> is the value 0 of a free entry.\<close>

datatype pstat = SNULL | SSLEEP | SWAIT | SRUN | SIDL | SZOMB | SSTOP

definition SLOAD :: "8 word" where "SLOAD = 0x01"
definition SSYS :: "8 word" where "SSYS = 0x02"
definition SLOCK :: "8 word" where "SLOCK = 0x04"
definition SSWAP :: "8 word" where "SSWAP = 0x08"
definition STRC :: "8 word" where "STRC = 0x10"
definition SWTED :: "8 word" where "SWTED = 0x20"
definition SULOCK :: "8 word" where "SULOCK = 0x40"

record proc =
  p_stat :: pstat
  p_flag :: "8 word"
  p_pri :: int
  p_time :: int
  p_cpu :: int
  p_nice :: int
  p_sig :: "16 word"
  p_uid :: int
  p_pgrp :: int
  p_pid :: int
  p_ppid :: int
  p_addr :: int
  p_size :: int
  p_wchan :: "chan option"
  p_textp :: "nat option"
  p_link :: "nat option"
  p_clktim :: int
  xp_xstat :: int
  xp_utime :: int
  xp_stime :: int

record direct =
  d_ino :: int
  d_name :: "8 word list"

record uprof =
  pr_base :: int
  pr_size :: int
  pr_off :: int
  pr_scale :: int

text \<open>The decoded header of an executable.\<close>

record exdata =
  ux_mag :: int
  ux_tsize :: int
  ux_dsize :: int
  ux_bsize :: int
  ux_ssize :: int
  ux_entloc :: int
  ux_unused :: int
  ux_relflg :: int

record user =
  u_segflg :: int
  u_error :: int
  u_uid :: int
  u_gid :: int
  u_ruid :: int
  u_rgid :: int
  u_procp :: nat
  u_ap :: "int list"
  r_val1 :: int
  r_val2 :: int
  u_base :: int
  u_count :: int
  u_offset :: int
  u_kbuf :: "nat \<Rightarrow> 8 word"
  u_cdir :: nat
  u_rdir :: "nat option"
  u_dbuf :: "8 word list"
  u_dirp :: int
  u_dent :: direct
  u_pdir :: "nat option"
  u_ofile :: "nat \<Rightarrow> nat option"
  u_pofile :: "nat \<Rightarrow> 8 word"
  u_tsize :: int
  u_dsize :: int
  u_ssize :: int
  u_signal :: "nat \<Rightarrow> int"
  u_sigtramp :: int
  u_utime :: int
  u_stime :: int
  u_cutime :: int
  u_cstime :: int
  u_ar0 :: "int \<Rightarrow> int"
  u_prof :: uprof
  u_sep :: int
  u_ttyp :: "nat option"
  u_ttyd :: int
  u_exdata :: exdata
  u_comm :: "8 word list"
  u_start :: int
  u_acflag :: "8 word"
  u_cmask :: "16 word"

section \<open>Files\<close>

definition ILOCK :: "8 word" where "ILOCK = 0x01"
definition IUPD :: "8 word" where "IUPD = 0x02"
definition IACC :: "8 word" where "IACC = 0x04"
definition IMOUNT :: "8 word" where "IMOUNT = 0x08"
definition IWANT :: "8 word" where "IWANT = 0x10"
definition ITEXT :: "8 word" where "ITEXT = 0x20"
definition ICHG :: "8 word" where "ICHG = 0x40"

definition IFMT :: "16 word" where "IFMT = 0xF000"
definition IFDIR :: "16 word" where "IFDIR = 0x4000"
definition IFCHR :: "16 word" where "IFCHR = 0x2000"
definition IFBLK :: "16 word" where "IFBLK = 0x6000"
definition IFREG :: "16 word" where "IFREG = 0x8000"
definition IFMPC :: "16 word" where "IFMPC = 0x3000"
definition IFMPB :: "16 word" where "IFMPB = 0x7000"
definition ISUID :: "16 word" where "ISUID = 0x800"
definition ISGID :: "16 word" where "ISGID = 0x400"
definition ISVTX :: "16 word" where "ISVTX = 0x200"
definition IREAD :: "16 word" where "IREAD = 0x100"
definition IWRITE :: "16 word" where "IWRITE = 0x80"
definition IEXEC :: "16 word" where "IEXEC = 0x40"

definition NADDR :: nat where "NADDR = 13"

record inode =
  i_flag :: "8 word"
  i_count :: int
  i_dev :: int
  i_number :: int
  i_mode :: "16 word"
  i_nlink :: int
  i_uid :: int
  i_gid :: int
  i_size :: int
  i_addr :: "nat \<Rightarrow> int"
  i_lastr :: int

definition FREAD :: "8 word" where "FREAD = 0x01"
definition FWRITE :: "8 word" where "FWRITE = 0x02"
definition FPIPE :: "8 word" where "FPIPE = 0x04"
definition FMPX :: "8 word" where "FMPX = 0x08"
definition FMPY :: "8 word" where "FMPY = 0x10"
definition FMP :: "8 word" where "FMP = 0x18"

record filent =
  f_flag :: "8 word"
  f_count :: int
  f_inode :: nat
  f_offset :: int

definition NICFREE :: int where "NICFREE = 50"
definition NICINOD :: int where "NICINOD = 100"

record filsys =
  s_isize :: int
  s_fsize :: int
  s_nfree :: int
  s_free :: "nat \<Rightarrow> int"
  s_ninode :: int
  s_inode :: "nat \<Rightarrow> int"
  s_flock :: int
  s_ilock :: int
  s_fmod :: int
  s_ronly :: int
  s_time :: int
  s_tfree :: int
  s_tinode :: int

text \<open>A mount entry is in use when \<open>m_bufp\<close> is not \<open>NULL\<close>; the super block it leads to is \<open>m_filsys\<close>.\<close>

record mount =
  m_dev :: int
  m_used :: bool
  m_filsys :: filsys
  m_inodp :: "nat option"

definition XTRC :: "8 word" where "XTRC = 0x01"
definition XWRIT :: "8 word" where "XWRIT = 0x02"
definition XLOAD :: "8 word" where "XLOAD = 0x04"
definition XLOCK :: "8 word" where "XLOCK = 0x08"
definition XWANT :: "8 word" where "XWANT = 0x10"

record textent =
  x_daddr :: int
  x_caddr :: int
  x_size :: int
  x_iptr :: "nat option"
  x_count :: int
  x_ccount :: int
  x_flag :: "8 word"

record ipcent =
  ip_lock :: int
  ip_req :: int
  ip_addr :: int
  ip_data :: int

text \<open>The calls through the device switches, and what a driver does to the caller's \<open>u\<close>.\<close>

datatype devcall =
    Cdev_open int int | Cdev_close int int | Cdev_read int | Cdev_write int | Cdev_ioctl int int int int
  | Bdev_open int int | Bdev_close int int

section \<open>The kernel\<close>

record kernel =
  k_proc :: "nat \<Rightarrow> proc"
  k_uarea :: "nat \<Rightarrow> user"
  k_uarrp :: nat
  k_runq :: "nat option"
  k_slpque :: "nat \<Rightarrow> nat option"
  k_runrun :: int
  k_runin :: int
  k_runout :: int
  k_curpri :: int
  k_mpid :: int
  k_lbolt :: int
  k_time :: int
  k_pages :: userpages
  k_mem :: "int \<Rightarrow> nat \<Rightarrow> 8 word"
  k_inode :: "nat \<Rightarrow> inode"
  k_file :: "nat \<Rightarrow> filent"
  k_mount :: "nat \<Rightarrow> mount"
  k_text :: "nat \<Rightarrow> textent"
  k_ipc :: ipcent
  k_disk :: "int \<Rightarrow> int \<Rightarrow> nat \<Rightarrow> 8 word"
  k_ioerr :: "int \<Rightarrow> int \<Rightarrow> bool"
  k_incore :: "int \<Rightarrow> int \<Rightarrow> bool"
  k_rablock :: int
  k_updlock :: int
  k_nchrdev :: int
  k_nblkdev :: int
  k_driver :: "devcall \<Rightarrow> user \<Rightarrow> user"
  k_devlog :: "devcall list"
  k_execarg :: "int \<times> int"
  k_coremap :: rmap
  k_swapmap :: rmap
  k_rootdir :: nat
  k_acctp :: "nat option"
  k_addr :: "chan \<Rightarrow> nat"

text \<open>\<open>u\<close>, the current process, and updates of single table entries.\<close>

definition u :: "kernel \<Rightarrow> user" where
  "u s = k_uarea s (k_uarrp s)"

definition procp :: "kernel \<Rightarrow> nat" where
  "procp s = u_procp (u s)"

definition upd_u :: "(user \<Rightarrow> user) \<Rightarrow> kernel \<Rightarrow> kernel" where
  "upd_u f s = s\<lparr>k_uarea := (k_uarea s)(k_uarrp s := f (u s))\<rparr>"

definition upd_proc :: "nat \<Rightarrow> (proc \<Rightarrow> proc) \<Rightarrow> kernel \<Rightarrow> kernel" where
  "upd_proc p f s = s\<lparr>k_proc := (k_proc s)(p := f (k_proc s p))\<rparr>"

definition upd_inode :: "nat \<Rightarrow> (inode \<Rightarrow> inode) \<Rightarrow> kernel \<Rightarrow> kernel" where
  "upd_inode i f s = s\<lparr>k_inode := (k_inode s)(i := f (k_inode s i))\<rparr>"

definition upd_file :: "nat \<Rightarrow> (filent \<Rightarrow> filent) \<Rightarrow> kernel \<Rightarrow> kernel" where
  "upd_file i f s = s\<lparr>k_file := (k_file s)(i := f (k_file s i))\<rparr>"

definition upd_fs :: "nat \<Rightarrow> (filsys \<Rightarrow> filsys) \<Rightarrow> kernel \<Rightarrow> kernel" where
  "upd_fs i f s = s\<lparr>k_mount := (k_mount s)(i := (k_mount s i)\<lparr>m_filsys := f (m_filsys (k_mount s i))\<rparr>)\<rparr>"

definition upd_text :: "nat \<Rightarrow> (textent \<Rightarrow> textent) \<Rightarrow> kernel \<Rightarrow> kernel" where
  "upd_text i f s = s\<lparr>k_text := (k_text s)(i := f (k_text s i))\<rparr>"

definition set_error :: "int \<Rightarrow> kernel \<Rightarrow> kernel" where
  "set_error e = upd_u (\<lambda>w. w\<lparr>u_error := e\<rparr>)"

lemmas upd_defs = upd_u_def upd_proc_def upd_inode_def upd_file_def upd_fs_def upd_text_def
  set_error_def procp_def u_def

text \<open>Each update leaves the other fields alone.\<close>

lemma upd_u_fields [simp]:
  "k_proc (upd_u f s) = k_proc s"
  "k_uarrp (upd_u f s) = k_uarrp s"
  "k_runq (upd_u f s) = k_runq s"
  "k_slpque (upd_u f s) = k_slpque s"
  "k_runrun (upd_u f s) = k_runrun s"
  "k_runin (upd_u f s) = k_runin s"
  "k_runout (upd_u f s) = k_runout s"
  "k_curpri (upd_u f s) = k_curpri s"
  "k_mpid (upd_u f s) = k_mpid s"
  "k_lbolt (upd_u f s) = k_lbolt s"
  "k_time (upd_u f s) = k_time s"
  "k_pages (upd_u f s) = k_pages s"
  "k_mem (upd_u f s) = k_mem s"
  "k_inode (upd_u f s) = k_inode s"
  "k_file (upd_u f s) = k_file s"
  "k_mount (upd_u f s) = k_mount s"
  "k_text (upd_u f s) = k_text s"
  "k_ipc (upd_u f s) = k_ipc s"
  "k_disk (upd_u f s) = k_disk s"
  "k_ioerr (upd_u f s) = k_ioerr s"
  "k_rablock (upd_u f s) = k_rablock s"
  "k_updlock (upd_u f s) = k_updlock s"
  "k_nchrdev (upd_u f s) = k_nchrdev s"
  "k_nblkdev (upd_u f s) = k_nblkdev s"
  "k_driver (upd_u f s) = k_driver s"
  "k_devlog (upd_u f s) = k_devlog s"
  "k_execarg (upd_u f s) = k_execarg s"
  "k_coremap (upd_u f s) = k_coremap s"
  "k_swapmap (upd_u f s) = k_swapmap s"
  "k_rootdir (upd_u f s) = k_rootdir s"
  "k_acctp (upd_u f s) = k_acctp s"
  "k_addr (upd_u f s) = k_addr s"
  by (simp_all add: upd_u_def)

lemma upd_proc_fields [simp]:
  "k_uarea (upd_proc p f s) = k_uarea s"
  "k_uarrp (upd_proc p f s) = k_uarrp s"
  "k_runq (upd_proc p f s) = k_runq s"
  "k_slpque (upd_proc p f s) = k_slpque s"
  "k_runrun (upd_proc p f s) = k_runrun s"
  "k_runin (upd_proc p f s) = k_runin s"
  "k_runout (upd_proc p f s) = k_runout s"
  "k_curpri (upd_proc p f s) = k_curpri s"
  "k_mpid (upd_proc p f s) = k_mpid s"
  "k_lbolt (upd_proc p f s) = k_lbolt s"
  "k_time (upd_proc p f s) = k_time s"
  "k_pages (upd_proc p f s) = k_pages s"
  "k_mem (upd_proc p f s) = k_mem s"
  "k_inode (upd_proc p f s) = k_inode s"
  "k_file (upd_proc p f s) = k_file s"
  "k_mount (upd_proc p f s) = k_mount s"
  "k_text (upd_proc p f s) = k_text s"
  "k_ipc (upd_proc p f s) = k_ipc s"
  "k_disk (upd_proc p f s) = k_disk s"
  "k_ioerr (upd_proc p f s) = k_ioerr s"
  "k_rablock (upd_proc p f s) = k_rablock s"
  "k_updlock (upd_proc p f s) = k_updlock s"
  "k_nchrdev (upd_proc p f s) = k_nchrdev s"
  "k_nblkdev (upd_proc p f s) = k_nblkdev s"
  "k_driver (upd_proc p f s) = k_driver s"
  "k_devlog (upd_proc p f s) = k_devlog s"
  "k_execarg (upd_proc p f s) = k_execarg s"
  "k_coremap (upd_proc p f s) = k_coremap s"
  "k_swapmap (upd_proc p f s) = k_swapmap s"
  "k_rootdir (upd_proc p f s) = k_rootdir s"
  "k_acctp (upd_proc p f s) = k_acctp s"
  "k_addr (upd_proc p f s) = k_addr s"
  by (simp_all add: upd_proc_def)

lemma upd_inode_fields [simp]:
  "k_proc (upd_inode p f s) = k_proc s"
  "k_uarea (upd_inode p f s) = k_uarea s"
  "k_uarrp (upd_inode p f s) = k_uarrp s"
  "k_runq (upd_inode p f s) = k_runq s"
  "k_slpque (upd_inode p f s) = k_slpque s"
  "k_runrun (upd_inode p f s) = k_runrun s"
  "k_runin (upd_inode p f s) = k_runin s"
  "k_runout (upd_inode p f s) = k_runout s"
  "k_curpri (upd_inode p f s) = k_curpri s"
  "k_mpid (upd_inode p f s) = k_mpid s"
  "k_lbolt (upd_inode p f s) = k_lbolt s"
  "k_time (upd_inode p f s) = k_time s"
  "k_pages (upd_inode p f s) = k_pages s"
  "k_mem (upd_inode p f s) = k_mem s"
  "k_file (upd_inode p f s) = k_file s"
  "k_mount (upd_inode p f s) = k_mount s"
  "k_text (upd_inode p f s) = k_text s"
  "k_ipc (upd_inode p f s) = k_ipc s"
  "k_disk (upd_inode p f s) = k_disk s"
  "k_ioerr (upd_inode p f s) = k_ioerr s"
  "k_rablock (upd_inode p f s) = k_rablock s"
  "k_updlock (upd_inode p f s) = k_updlock s"
  "k_nchrdev (upd_inode p f s) = k_nchrdev s"
  "k_nblkdev (upd_inode p f s) = k_nblkdev s"
  "k_driver (upd_inode p f s) = k_driver s"
  "k_devlog (upd_inode p f s) = k_devlog s"
  "k_execarg (upd_inode p f s) = k_execarg s"
  "k_coremap (upd_inode p f s) = k_coremap s"
  "k_swapmap (upd_inode p f s) = k_swapmap s"
  "k_rootdir (upd_inode p f s) = k_rootdir s"
  "k_acctp (upd_inode p f s) = k_acctp s"
  "k_addr (upd_inode p f s) = k_addr s"
  by (simp_all add: upd_inode_def)

lemma upd_file_fields [simp]:
  "k_proc (upd_file p f s) = k_proc s"
  "k_uarea (upd_file p f s) = k_uarea s"
  "k_uarrp (upd_file p f s) = k_uarrp s"
  "k_runq (upd_file p f s) = k_runq s"
  "k_slpque (upd_file p f s) = k_slpque s"
  "k_runrun (upd_file p f s) = k_runrun s"
  "k_runin (upd_file p f s) = k_runin s"
  "k_runout (upd_file p f s) = k_runout s"
  "k_curpri (upd_file p f s) = k_curpri s"
  "k_mpid (upd_file p f s) = k_mpid s"
  "k_lbolt (upd_file p f s) = k_lbolt s"
  "k_time (upd_file p f s) = k_time s"
  "k_pages (upd_file p f s) = k_pages s"
  "k_mem (upd_file p f s) = k_mem s"
  "k_inode (upd_file p f s) = k_inode s"
  "k_mount (upd_file p f s) = k_mount s"
  "k_text (upd_file p f s) = k_text s"
  "k_ipc (upd_file p f s) = k_ipc s"
  "k_disk (upd_file p f s) = k_disk s"
  "k_ioerr (upd_file p f s) = k_ioerr s"
  "k_rablock (upd_file p f s) = k_rablock s"
  "k_updlock (upd_file p f s) = k_updlock s"
  "k_nchrdev (upd_file p f s) = k_nchrdev s"
  "k_nblkdev (upd_file p f s) = k_nblkdev s"
  "k_driver (upd_file p f s) = k_driver s"
  "k_devlog (upd_file p f s) = k_devlog s"
  "k_execarg (upd_file p f s) = k_execarg s"
  "k_coremap (upd_file p f s) = k_coremap s"
  "k_swapmap (upd_file p f s) = k_swapmap s"
  "k_rootdir (upd_file p f s) = k_rootdir s"
  "k_acctp (upd_file p f s) = k_acctp s"
  "k_addr (upd_file p f s) = k_addr s"
  by (simp_all add: upd_file_def)

lemma upd_fs_fields [simp]:
  "k_proc (upd_fs p f s) = k_proc s"
  "k_uarea (upd_fs p f s) = k_uarea s"
  "k_uarrp (upd_fs p f s) = k_uarrp s"
  "k_runq (upd_fs p f s) = k_runq s"
  "k_slpque (upd_fs p f s) = k_slpque s"
  "k_runrun (upd_fs p f s) = k_runrun s"
  "k_runin (upd_fs p f s) = k_runin s"
  "k_runout (upd_fs p f s) = k_runout s"
  "k_curpri (upd_fs p f s) = k_curpri s"
  "k_mpid (upd_fs p f s) = k_mpid s"
  "k_lbolt (upd_fs p f s) = k_lbolt s"
  "k_time (upd_fs p f s) = k_time s"
  "k_pages (upd_fs p f s) = k_pages s"
  "k_mem (upd_fs p f s) = k_mem s"
  "k_inode (upd_fs p f s) = k_inode s"
  "k_file (upd_fs p f s) = k_file s"
  "k_text (upd_fs p f s) = k_text s"
  "k_ipc (upd_fs p f s) = k_ipc s"
  "k_disk (upd_fs p f s) = k_disk s"
  "k_ioerr (upd_fs p f s) = k_ioerr s"
  "k_rablock (upd_fs p f s) = k_rablock s"
  "k_updlock (upd_fs p f s) = k_updlock s"
  "k_nchrdev (upd_fs p f s) = k_nchrdev s"
  "k_nblkdev (upd_fs p f s) = k_nblkdev s"
  "k_driver (upd_fs p f s) = k_driver s"
  "k_devlog (upd_fs p f s) = k_devlog s"
  "k_execarg (upd_fs p f s) = k_execarg s"
  "k_coremap (upd_fs p f s) = k_coremap s"
  "k_swapmap (upd_fs p f s) = k_swapmap s"
  "k_rootdir (upd_fs p f s) = k_rootdir s"
  "k_acctp (upd_fs p f s) = k_acctp s"
  "k_addr (upd_fs p f s) = k_addr s"
  by (simp_all add: upd_fs_def)

lemma upd_text_fields [simp]:
  "k_proc (upd_text p f s) = k_proc s"
  "k_uarea (upd_text p f s) = k_uarea s"
  "k_uarrp (upd_text p f s) = k_uarrp s"
  "k_runq (upd_text p f s) = k_runq s"
  "k_slpque (upd_text p f s) = k_slpque s"
  "k_runrun (upd_text p f s) = k_runrun s"
  "k_runin (upd_text p f s) = k_runin s"
  "k_runout (upd_text p f s) = k_runout s"
  "k_curpri (upd_text p f s) = k_curpri s"
  "k_mpid (upd_text p f s) = k_mpid s"
  "k_lbolt (upd_text p f s) = k_lbolt s"
  "k_time (upd_text p f s) = k_time s"
  "k_pages (upd_text p f s) = k_pages s"
  "k_mem (upd_text p f s) = k_mem s"
  "k_inode (upd_text p f s) = k_inode s"
  "k_file (upd_text p f s) = k_file s"
  "k_mount (upd_text p f s) = k_mount s"
  "k_ipc (upd_text p f s) = k_ipc s"
  "k_disk (upd_text p f s) = k_disk s"
  "k_ioerr (upd_text p f s) = k_ioerr s"
  "k_rablock (upd_text p f s) = k_rablock s"
  "k_updlock (upd_text p f s) = k_updlock s"
  "k_nchrdev (upd_text p f s) = k_nchrdev s"
  "k_nblkdev (upd_text p f s) = k_nblkdev s"
  "k_driver (upd_text p f s) = k_driver s"
  "k_devlog (upd_text p f s) = k_devlog s"
  "k_execarg (upd_text p f s) = k_execarg s"
  "k_coremap (upd_text p f s) = k_coremap s"
  "k_swapmap (upd_text p f s) = k_swapmap s"
  "k_rootdir (upd_text p f s) = k_rootdir s"
  "k_acctp (upd_text p f s) = k_acctp s"
  "k_addr (upd_text p f s) = k_addr s"
  by (simp_all add: upd_text_def)

lemma set_error_fields [simp]:
  "k_proc (set_error e s) = k_proc s"
  "k_uarrp (set_error e s) = k_uarrp s"
  "k_runq (set_error e s) = k_runq s"
  "k_slpque (set_error e s) = k_slpque s"
  "k_runrun (set_error e s) = k_runrun s"
  "k_runin (set_error e s) = k_runin s"
  "k_runout (set_error e s) = k_runout s"
  "k_curpri (set_error e s) = k_curpri s"
  "k_mpid (set_error e s) = k_mpid s"
  "k_lbolt (set_error e s) = k_lbolt s"
  "k_time (set_error e s) = k_time s"
  "k_pages (set_error e s) = k_pages s"
  "k_mem (set_error e s) = k_mem s"
  "k_inode (set_error e s) = k_inode s"
  "k_file (set_error e s) = k_file s"
  "k_mount (set_error e s) = k_mount s"
  "k_text (set_error e s) = k_text s"
  "k_ipc (set_error e s) = k_ipc s"
  "k_disk (set_error e s) = k_disk s"
  "k_ioerr (set_error e s) = k_ioerr s"
  "k_rablock (set_error e s) = k_rablock s"
  "k_updlock (set_error e s) = k_updlock s"
  "k_nchrdev (set_error e s) = k_nchrdev s"
  "k_nblkdev (set_error e s) = k_nblkdev s"
  "k_driver (set_error e s) = k_driver s"
  "k_devlog (set_error e s) = k_devlog s"
  "k_execarg (set_error e s) = k_execarg s"
  "k_coremap (set_error e s) = k_coremap s"
  "k_swapmap (set_error e s) = k_swapmap s"
  "k_rootdir (set_error e s) = k_rootdir s"
  "k_acctp (set_error e s) = k_acctp s"
  "k_addr (set_error e s) = k_addr s"
  by (simp_all add: upd_u_def set_error_def)

lemma upd_same [simp]:
  "k_proc (upd_proc p f s) = (k_proc s)(p := f (k_proc s p))"
  "k_inode (upd_inode i g s) = (k_inode s)(i := g (k_inode s i))"
  "k_file (upd_file i fl s) = (k_file s)(i := fl (k_file s i))"
  "k_text (upd_text i t s) = (k_text s)(i := t (k_text s i))"
  "m_filsys (k_mount (upd_fs m fs s) m') = (if m' = m then fs (m_filsys (k_mount s m)) else m_filsys (k_mount s m'))"
  "m_dev (k_mount (upd_fs m fs s) m') = m_dev (k_mount s m')"
  "m_used (k_mount (upd_fs m fs s) m') = m_used (k_mount s m')"
  "m_inodp (k_mount (upd_fs m fs s) m') = m_inodp (k_mount s m')"
  "u (upd_u h s) = h (u s)"
  "u (set_error e s) = (u s)\<lparr>u_error := e\<rparr>"
  by (simp_all add: upd_proc_def upd_inode_def upd_file_def upd_text_def upd_fs_def upd_u_def u_def
      set_error_def)

lemma u_other [simp]:
  "u (upd_proc p f s) = u s" "u (upd_inode i g s) = u s" "u (upd_file i fl s) = u s"
  "u (upd_text i t s) = u s" "u (upd_fs m fs s) = u s"
  by (simp_all add: u_def)

lemma procp_other [simp]:
  "procp (upd_proc p f s) = procp s" "procp (upd_inode i g s) = procp s" "procp (upd_file i fl s) = procp s"
  "procp (upd_text i t s) = procp s" "procp (upd_fs m fs s) = procp s" "procp (set_error e s) = procp s"
  by (simp_all add: procp_def)

lemma u_upd [simp]:
  "u (k_proc_update f1 s) = u s"
  "u (k_runq_update f2 s) = u s"
  "u (k_slpque_update f3 s) = u s"
  "u (k_runrun_update f4 s) = u s"
  "u (k_runin_update f5 s) = u s"
  "u (k_runout_update f6 s) = u s"
  "u (k_curpri_update f7 s) = u s"
  "u (k_mpid_update f8 s) = u s"
  "u (k_lbolt_update f9 s) = u s"
  "u (k_time_update f10 s) = u s"
  "u (k_pages_update f11 s) = u s"
  "u (k_mem_update f12 s) = u s"
  "u (k_inode_update f13 s) = u s"
  "u (k_file_update f14 s) = u s"
  "u (k_mount_update f15 s) = u s"
  "u (k_text_update f16 s) = u s"
  "u (k_ipc_update f17 s) = u s"
  "u (k_disk_update f18 s) = u s"
  "u (k_ioerr_update f19 s) = u s"
  "u (k_incore_update f19a s) = u s"
  "u (k_rablock_update f20 s) = u s"
  "u (k_updlock_update f21 s) = u s"
  "u (k_nchrdev_update f22 s) = u s"
  "u (k_nblkdev_update f23 s) = u s"
  "u (k_driver_update f24 s) = u s"
  "u (k_devlog_update f25 s) = u s"
  "u (k_execarg_update f26 s) = u s"
  "u (k_coremap_update f26cor s) = u s"
  "u (k_swapmap_update f26swa s) = u s"
  "u (k_rootdir_update f26roo s) = u s"
  "u (k_acctp_update f26acc s) = u s"
  "u (k_addr_update f27 s) = u s"
  by (simp_all add: u_def procp_def)

lemma procp_upd [simp]:
  "procp (k_proc_update f28 s) = procp s"
  "procp (k_runq_update f29 s) = procp s"
  "procp (k_slpque_update f30 s) = procp s"
  "procp (k_runrun_update f31 s) = procp s"
  "procp (k_runin_update f32 s) = procp s"
  "procp (k_runout_update f33 s) = procp s"
  "procp (k_curpri_update f34 s) = procp s"
  "procp (k_mpid_update f35 s) = procp s"
  "procp (k_lbolt_update f36 s) = procp s"
  "procp (k_time_update f37 s) = procp s"
  "procp (k_pages_update f38 s) = procp s"
  "procp (k_mem_update f39 s) = procp s"
  "procp (k_inode_update f40 s) = procp s"
  "procp (k_file_update f41 s) = procp s"
  "procp (k_mount_update f42 s) = procp s"
  "procp (k_text_update f43 s) = procp s"
  "procp (k_ipc_update f44 s) = procp s"
  "procp (k_disk_update f45 s) = procp s"
  "procp (k_ioerr_update f46 s) = procp s"
  "procp (k_incore_update f46a s) = procp s"
  "procp (k_rablock_update f47 s) = procp s"
  "procp (k_updlock_update f48 s) = procp s"
  "procp (k_nchrdev_update f49 s) = procp s"
  "procp (k_nblkdev_update f50 s) = procp s"
  "procp (k_driver_update f51 s) = procp s"
  "procp (k_devlog_update f52 s) = procp s"
  "procp (k_execarg_update f53 s) = procp s"
  "procp (k_coremap_update f53cor s) = procp s"
  "procp (k_swapmap_update f53swa s) = procp s"
  "procp (k_rootdir_update f53roo s) = procp s"
  "procp (k_acctp_update f53acc s) = procp s"
  "procp (k_addr_update f54 s) = procp s"
  by (simp_all add: u_def procp_def)

text \<open>A routine that cannot sleep, run inside one that can.\<close>

definition kpure :: "('s \<Rightarrow> string + 's) \<Rightarrow> ('s, unit) kern" where
  "kpure f = (\<lambda>es s. case f s of Inl msg \<Rightarrow> Panic msg s | Inr s' \<Rightarrow> Ret () es s')"

definition sbind :: "string + 's \<Rightarrow> ('s \<Rightarrow> string + 's) \<Rightarrow> string + 's" where
  "sbind r f = (case r of Inl msg \<Rightarrow> Inl msg | Inr s \<Rightarrow> f s)"

lemma sbind_simps [simp]: "sbind (Inl m) f = Inl m" "sbind (Inr s) f = f s"
  by (simp_all add: sbind_def)

text \<open>A loop over table entries in a routine that cannot sleep.\<close>

primrec sfor :: "('i \<Rightarrow> 's \<Rightarrow> string + 's) \<Rightarrow> 'i list \<Rightarrow> 's \<Rightarrow> string + 's" where
  "sfor f [] s = Inr s"
| "sfor f (i # is) s = sbind (f i s) (sfor f is)"

section \<open>Linked lists through a table\<close>

text \<open>\<open>lchain nx p xs\<close>: following \<open>nx\<close> from \<open>p\<close> to \<open>NULL\<close> visits \<open>xs\<close>.\<close>

fun lchain :: "(nat \<Rightarrow> nat option) \<Rightarrow> nat option \<Rightarrow> nat list \<Rightarrow> bool" where
  "lchain nx p [] \<longleftrightarrow> p = None"
| "lchain nx p (x # xs) \<longleftrightarrow> p = Some x \<and> lchain nx (nx x) xs"

lemma lchain_upd [simp]: "x \<notin> set xs \<Longrightarrow> lchain (nx(x := v)) p xs = lchain nx p xs"
  by (induction xs arbitrary: p) auto

lemma lchain_cong: "(\<And>x. x \<in> set xs \<Longrightarrow> nx x = nx' x) \<Longrightarrow> lchain nx p xs = lchain nx' p xs"
  by (induction xs arbitrary: p) auto

lemma lchain_None [simp]: "lchain nx None xs \<longleftrightarrow> xs = []"
  by (cases xs) auto

lemma lchain_unique: "\<lbrakk>lchain nx p xs; lchain nx p ys\<rbrakk> \<Longrightarrow> xs = ys"
proof (induction xs arbitrary: p ys)
  case (Cons x xs)
  then show ?case by (cases ys) auto
qed simp

lemma lchain_unlink:
  assumes "lchain nx p (xs @ y # ys)" "distinct (xs @ y # ys)" "xs \<noteq> []"
  shows "lchain (nx(last xs := nx y)) p (xs @ ys)"
  using assms
proof (induction xs arbitrary: p)
  case (Cons x xs)
  show ?case
  proof (cases "xs = []")
    case True
    then have "p = Some x" "lchain nx (nx y) ys" "x \<notin> set ys" using Cons.prems by auto
    then show ?thesis using True by (simp add: fun_upd_same del: fun_upd_apply)
  next
    case False
    have "x \<noteq> last xs" using Cons.prems(2) False by auto
    then show ?thesis using Cons.IH[of "nx x"] Cons.prems False by simp
  qed
qed simp

section \<open>The cleared kernel\<close>

text \<open>The kernel whose tables are all zero, the starting point of the concrete instances.\<close>

definition proc0 :: proc where
  "proc0 = \<lparr>p_stat = SNULL, p_flag = 0, p_pri = 0, p_time = 0, p_cpu = 0, p_nice = 0, p_sig = 0,
     p_uid = 0, p_pgrp = 0, p_pid = 0, p_ppid = 0, p_addr = 0, p_size = 0, p_wchan = None,
     p_textp = None, p_link = None, p_clktim = 0, xp_xstat = 0, xp_utime = 0, xp_stime = 0\<rparr>"

definition user0 :: user where
  "user0 = \<lparr>u_segflg = 0, u_error = 0, u_uid = 0, u_gid = 0, u_ruid = 0, u_rgid = 0, u_procp = 0,
     u_ap = [], r_val1 = 0, r_val2 = 0, u_base = 0, u_count = 0, u_offset = 0, u_kbuf = (\<lambda>_. 0),
     u_cdir = 0, u_rdir = None, u_dbuf = replicate 14 0, u_dirp = 0,
     u_dent = \<lparr>d_ino = 0, d_name = replicate 14 0\<rparr>, u_pdir = None, u_ofile = (\<lambda>_. None),
     u_pofile = (\<lambda>_. 0), u_tsize = 0, u_dsize = 0, u_ssize = 0, u_signal = (\<lambda>_. 0),
     u_sigtramp = 0, u_utime = 0, u_stime = 0, u_cutime = 0, u_cstime = 0, u_ar0 = (\<lambda>_. 0),
     u_prof = \<lparr>pr_base = 0, pr_size = 0, pr_off = 0, pr_scale = 0\<rparr>, u_sep = 0, u_ttyp = None, u_ttyd = 0,
     u_exdata = \<lparr>ux_mag = 0, ux_tsize = 0, ux_dsize = 0, ux_bsize = 0, ux_ssize = 0, ux_entloc = 0, ux_unused = 0, ux_relflg = 0\<rparr>,
     u_comm = replicate 14 0, u_start = 0, u_acflag = 0, u_cmask = 0\<rparr>"

definition inode0 :: inode where
  "inode0 = \<lparr>i_flag = 0, i_count = 0, i_dev = 0, i_number = 0, i_mode = 0, i_nlink = 0, i_uid = 0,
     i_gid = 0, i_size = 0, i_addr = (\<lambda>_. 0), i_lastr = 0\<rparr>"

definition file0 :: filent where
  "file0 = \<lparr>f_flag = 0, f_count = 0, f_inode = 0, f_offset = 0\<rparr>"

definition filsys0 :: filsys where
  "filsys0 = \<lparr>s_isize = 0, s_fsize = 0, s_nfree = 0, s_free = (\<lambda>_. 0), s_ninode = 0,
     s_inode = (\<lambda>_. 0), s_flock = 0, s_ilock = 0, s_fmod = 0, s_ronly = 0, s_time = 0,
     s_tfree = 0, s_tinode = 0\<rparr>"

definition kernel0 :: kernel where
  "kernel0 = \<lparr>k_proc = (\<lambda>_. proc0), k_uarea = (\<lambda>i. user0\<lparr>u_procp := i\<rparr>), k_uarrp = 0, k_runq = None,
     k_slpque = (\<lambda>_. None), k_runrun = 0, k_runin = 0, k_runout = 0, k_curpri = 0, k_mpid = 0,
     k_lbolt = 0, k_time = 0,
     k_pages = \<lparr>userpagemap = \<lparr>m_size = 62, m_addr = 1\<rparr> # replicate 49 \<lparr>m_size = 0, m_addr = 0\<rparr>,
                epoch68_userpage_owned = (\<lambda>_. False)\<rparr>,
     k_mem = (\<lambda>_ _. 0), k_inode = (\<lambda>_. inode0), k_file = (\<lambda>_. file0),
     k_mount = (\<lambda>_. \<lparr>m_dev = 0, m_used = False, m_filsys = filsys0, m_inodp = None\<rparr>),
     k_text = (\<lambda>_. \<lparr>x_daddr = 0, x_caddr = 0, x_size = 0, x_iptr = None, x_count = 0, x_ccount = 0,
                    x_flag = 0\<rparr>),
     k_ipc = \<lparr>ip_lock = 0, ip_req = 0, ip_addr = 0, ip_data = 0\<rparr>,
     k_disk = (\<lambda>_ _ _. 0), k_ioerr = (\<lambda>_ _. False), k_incore = (\<lambda>_ _. False), k_rablock = 0, k_updlock = 0,
     k_nchrdev = 0, k_nblkdev = 0, k_driver = (\<lambda>_ w. w), k_devlog = [], k_execarg = (0, 0),
     k_coremap = replicate 50 \<lparr>m_size = 0, m_addr = 0\<rparr>, k_swapmap = replicate 50 \<lparr>m_size = 0, m_addr = 0\<rparr>, k_rootdir = 0, k_acctp = None,
     k_addr = (\<lambda>_. 0)\<rparr>"

lemmas zero_defs = kernel0_def proc0_def user0_def inode0_def file0_def filsys0_def

end
