(* ===== verification/User_Memory.thy ===== *)
theory User_Memory
  imports Kernel_State
begin

text \<open>
  Access to the user window: \<open>conf/usermem.c\<close>, the size check \<open>estabur\<close> of \<open>sys/ureg.c\<close>,
  the heap limit \<open>expand\<close> of \<open>sys/slp.c\<close> and the signal frame \<open>sendsig\<close> of \<open>sys/machdep.c\<close>.

  Every process sees its own 256 KiB page at address 0. Selecting the page in the mirror
  register and dereferencing the window is one access to \<open>k_mem\<close> at the
  current process's page. A transfer either lies inside the window or is refused, also when address and
  length wrap around 32 bits.
\<close>

section \<open>The window\<close>

definition EPOCH68_USER_PAGE_SIZE :: int where
  "EPOCH68_USER_PAGE_SIZE = 256 * 1024"

definition EPOCH68_CLICK_SIZE :: int where
  "EPOCH68_CLICK_SIZE = 64"

definition epoch68_user_start :: "int \<Rightarrow> int" where
  "epoch68_user_start addr = to_u32 addr"

definition epoch68_user_range_ok :: "int \<Rightarrow> int \<Rightarrow> bool" where
  "epoch68_user_range_ok addr count =
    (let start = epoch68_user_start addr; span = to_u32 count; endp = to_u32 (start + span)
     in if start \<ge> EPOCH68_USER_PAGE_SIZE then False
        else if endp < start \<or> endp > EPOCH68_USER_PAGE_SIZE then False
        else True)"

definition epoch68_user_page :: "kernel \<Rightarrow> int" where
  "epoch68_user_page s = to_u8 (p_addr (k_proc s (procp s)))"

text \<open>The offset into the current page, or \<open>None\<close> for the null pointer.\<close>

definition epoch68_user_ptr :: "int \<Rightarrow> int \<Rightarrow> nat option" where
  "epoch68_user_ptr addr count =
    (if \<not> epoch68_user_range_ok addr count then None else Some (nat (epoch68_user_start addr)))"

text \<open>\<open>while (count-- > 0) *dst++ = *src++;\<close> in the two directions.\<close>

definition epoch68_copy_bytes :: "(nat \<Rightarrow> 8 word) \<Rightarrow> nat \<Rightarrow> nat \<Rightarrow> 8 word list" where
  "epoch68_copy_bytes m src count = map m [src ..< src + count]"

fun epoch68_copyout_bytes :: "8 word list \<Rightarrow> nat \<Rightarrow> (nat \<Rightarrow> 8 word) \<Rightarrow> nat \<Rightarrow> 8 word" where
  "epoch68_copyout_bytes [] dst m = m"
| "epoch68_copyout_bytes (b # bs) dst m = epoch68_copyout_bytes bs (dst + 1) (m(dst := b))"

definition copyin :: "int \<Rightarrow> int \<Rightarrow> kernel \<Rightarrow> 8 word list option" where
  "copyin from count s =
    (case epoch68_user_ptr from count of
       None \<Rightarrow> None
     | Some src \<Rightarrow> Some (epoch68_copy_bytes (k_mem s (epoch68_user_page s)) src (nat (to_u32 count))))"

definition copyout :: "8 word list \<Rightarrow> int \<Rightarrow> kernel \<Rightarrow> int \<times> kernel" where
  "copyout bytes to s =
    (case epoch68_user_ptr to (int (length bytes)) of
       None \<Rightarrow> (- 1, s)
     | Some dst \<Rightarrow>
         (0, s\<lparr>k_mem := (k_mem s)(epoch68_user_page s :=
                epoch68_copyout_bytes bytes dst (k_mem s (epoch68_user_page s)))\<rparr>))"

definition fubyte :: "int \<Rightarrow> kernel \<Rightarrow> int" where
  "fubyte addr s =
    (case epoch68_user_ptr addr 1 of
       None \<Rightarrow> - 1
     | Some src \<Rightarrow> uint (k_mem s (epoch68_user_page s) src))"

definition fuword :: "int \<Rightarrow> kernel \<Rightarrow> int" where
  "fuword addr s =
    (case epoch68_user_ptr addr 2 of
       None \<Rightarrow> - 1
     | Some src \<Rightarrow>
         (let m = k_mem s (epoch68_user_page s);
              value = push_bit 8 (uint (m src)) OR uint (m (src + 1))
          in if value AND 0x8000 \<noteq> 0 then value OR NOT 0xFFFF else value))"

definition subyte :: "int \<Rightarrow> int \<Rightarrow> kernel \<Rightarrow> int \<times> kernel" where
  "subyte addr value s =
    (case epoch68_user_ptr addr 1 of
       None \<Rightarrow> (- 1, s)
     | Some dst \<Rightarrow>
         (0, s\<lparr>k_mem := (k_mem s)(epoch68_user_page s :=
                (k_mem s (epoch68_user_page s))(dst := word_of_int value))\<rparr>))"

definition suword :: "int \<Rightarrow> int \<Rightarrow> kernel \<Rightarrow> int \<times> kernel" where
  "suword addr value s =
    (case epoch68_user_ptr addr 2 of
       None \<Rightarrow> (- 1, s)
     | Some dst \<Rightarrow>
         (0, s\<lparr>k_mem := (k_mem s)(epoch68_user_page s :=
                (k_mem s (epoch68_user_page s))
                  (dst := word_of_int (drop_bit 8 value AND 0xFF),
                   dst + 1 := word_of_int (value AND 0xFF)))\<rparr>))"

text \<open>The instruction-space variants call the data-space ones.\<close>

definition copyiin :: "int \<Rightarrow> int \<Rightarrow> kernel \<Rightarrow> 8 word list option" where
  "copyiin = copyin"

definition copyiout :: "8 word list \<Rightarrow> int \<Rightarrow> kernel \<Rightarrow> int \<times> kernel" where
  "copyiout = copyout"

definition fuibyte :: "int \<Rightarrow> kernel \<Rightarrow> int" where
  "fuibyte = fubyte"

definition fuiword :: "int \<Rightarrow> kernel \<Rightarrow> int" where
  "fuiword = fuword"

definition suibyte :: "int \<Rightarrow> int \<Rightarrow> kernel \<Rightarrow> int \<times> kernel" where
  "suibyte = subyte"

definition suiword :: "int \<Rightarrow> int \<Rightarrow> kernel \<Rightarrow> int \<times> kernel" where
  "suiword = suword"

definition clearseg :: "int \<Rightarrow> kernel \<Rightarrow> kernel" where
  "clearseg click s =
    (case epoch68_user_ptr (to_u32 (to_u32 click * EPOCH68_CLICK_SIZE)) EPOCH68_CLICK_SIZE of
       None \<Rightarrow> s
     | Some dst \<Rightarrow>
         s\<lparr>k_mem := (k_mem s)(epoch68_user_page s :=
             epoch68_copyout_bytes (replicate 64 0) dst (k_mem s (epoch68_user_page s)))\<rparr>)"

definition copyseg :: "int \<Rightarrow> int \<Rightarrow> kernel \<Rightarrow> kernel" where
  "copyseg src_click dst_click s =
    (case (epoch68_user_ptr (to_u32 (to_u32 src_click * EPOCH68_CLICK_SIZE)) EPOCH68_CLICK_SIZE,
           epoch68_user_ptr (to_u32 (to_u32 dst_click * EPOCH68_CLICK_SIZE)) EPOCH68_CLICK_SIZE) of
       (Some src, Some dst) \<Rightarrow>
         s\<lparr>k_mem := (k_mem s)(epoch68_user_page s :=
             epoch68_copyout_bytes (epoch68_copy_bytes (k_mem s (epoch68_user_page s)) src 64) dst
               (k_mem s (epoch68_user_page s)))\<rparr>
     | _ \<Rightarrow> s)"

section \<open>Sizes\<close>

definition EPOCH68_USER_CLICKS :: int where
  "EPOCH68_USER_CLICKS = (256 * 1024) div 64"

text \<open>\<open>estabur\<close>: text, image and stack sizes in clicks, as unsigned 32-bit values.\<close>

definition estabur :: "int \<Rightarrow> int \<Rightarrow> int \<Rightarrow> int \<Rightarrow> kernel \<Rightarrow> int \<times> kernel" where
  "estabur nt nd ns sep s =
    (let image_end = max (to_u32 nt) (to_u32 nd)
     in if sep \<noteq> 0 \<or> image_end > EPOCH68_USER_CLICKS \<or> to_u32 ns > to_u32 (EPOCH68_USER_CLICKS - image_end)
        then (- 1, set_error ENOMEM s)
        else (0, s))"

definition expand :: "int \<Rightarrow> kernel \<Rightarrow> kernel" where
  "expand newsize s =
    (let userclicks = newsize - USIZE
     in if newsize < USIZE \<or> to_i32 (push_bit 6 userclicks) > 256 * 1024
        then set_error ENOMEM s
        else upd_proc (procp s) (\<lambda>p. p\<lparr>p_size := to_i16 newsize\<rparr>) s)"

section \<open>The signal frame\<close>

definition R0 :: int where "R0 = 0"
definition R6 :: int where "R6 = - 3"
definition PC :: int where "PC = 1"
definition RPS :: int where "RPS = 2"
definition TBIT :: int where "TBIT = 16"

text \<open>\<open>(x >> 24) & 0xff\<close>, \dots, \<open>x & 0xff\<close>: the big-endian bytes.\<close>

definition be_byte :: "nat \<Rightarrow> int \<Rightarrow> 8 word" where
  "be_byte k x = word_of_int (drop_bit (8 * k) x AND 0xFF)"

definition sendsig :: "int \<Rightarrow> int \<Rightarrow> kernel \<Rightarrow> kernel" where
  "sendsig p signo s =
    (let oldsp = to_u32 (u_ar0 (u s) R6); tramp = to_u32 (u_sigtramp (u s));
         n = to_u32 (oldsp - 10); oldpc = to_u32 (u_ar0 (u s) PC)
     in if n \<ge> 256 * 1024 \<or> n > oldsp then set_error EFAULT s
        else let p = to_u32 p;
                 frame = [be_byte 3 p, be_byte 2 p, be_byte 1 p, be_byte 0 p,
                          be_byte 1 signo, be_byte 0 signo,
                          be_byte 3 oldpc, be_byte 2 oldpc, be_byte 1 oldpc, be_byte 0 oldpc];
                 (r, s) = copyout frame n s
             in if r < 0 then set_error EFAULT s
                else upd_u (\<lambda>w. w\<lparr>u_ar0 := (u_ar0 w)
                       (R6 := to_i32 n,
                        RPS := u_ar0 w RPS AND NOT (TBIT OR 0x2000),
                        PC := to_i32 tramp)\<rparr>) s)"

section \<open>The window check\<close>

lemma user_ptr_Some:
  assumes "0 \<le> count" "count < 2 ^ 32"
  shows "epoch68_user_ptr addr count = Some a \<longleftrightarrow>
    int a = to_u32 addr \<and> int a < EPOCH68_USER_PAGE_SIZE \<and> int a + count \<le> EPOCH68_USER_PAGE_SIZE"
proof -
  have c: "to_u32 count = count" using assms by (simp add: to_u32_id)
  have r: "0 \<le> to_u32 addr" by (simp add: to_u32_range)
  show ?thesis
  proof (cases "to_u32 addr \<ge> EPOCH68_USER_PAGE_SIZE")
    case True
    then show ?thesis
      by (auto simp add: epoch68_user_ptr_def epoch68_user_range_ok_def epoch68_user_start_def)
  next
    case False
    have wrap: "to_u32 (to_u32 addr + count) =
        (if to_u32 addr + count < 2 ^ 32 then to_u32 addr + count else to_u32 addr + count - 2 ^ 32)"
    proof (cases "to_u32 addr + count < 2 ^ 32")
      case False
      have "to_u32 (to_u32 addr + count) = (to_u32 addr + count) mod 2 ^ 32"
        by (simp add: to_u32_def take_bit_eq_mod)
      also have "\<dots> = to_u32 addr + count - 2 ^ 32"
        using False assms to_u32_range[of addr] by (intro int_mod_pos_eq[where q = 1]) auto
      finally show ?thesis using False by simp
    qed (use assms r in \<open>simp add: to_u32_id\<close>)
    show ?thesis
      using False r assms
      by (auto simp add: epoch68_user_ptr_def epoch68_user_range_ok_def epoch68_user_start_def c
          wrap Let_def EPOCH68_USER_PAGE_SIZE_def)
  qed
qed

lemma copyout_bytes_nth:
  "epoch68_copyout_bytes bs dst m a =
    (if dst \<le> a \<and> a < dst + length bs then bs ! (a - dst) else m a)"
proof (induction bs arbitrary: dst m)
  case (Cons b bs)
  then show ?case by (cases "a = dst") (auto simp add: nth_Cons' Suc_le_eq)
qed auto

lemma copyout_read_back:
  "epoch68_copy_bytes (epoch68_copyout_bytes bs dst m) dst (length bs) = bs"
  by (rule nth_equalityI) (simp_all add: epoch68_copy_bytes_def copyout_bytes_nth)

lemma epoch68_user_page_upd_mem [simp]: "epoch68_user_page (s\<lparr>k_mem := m\<rparr>) = epoch68_user_page s"
  by (simp add: epoch68_user_page_def upd_defs)

section \<open>Properties\<close>

text \<open>
  \<open>copyout\<close> either refuses with \<open>-1\<close> and changes nothing, exactly when the destination does not lie
  in the 256 KiB window, or stores the bytes so that \<open>copyin\<close> from the same address
  returns them, and then it has changed no byte outside the destination range and none of any other page.\<close>

theorem copyout_copyin:
  assumes len: "int (length bs) < 2 ^ 31" and c: "copyout bs a s = (r, s')"
  shows "if to_u32 a < 256 * 1024 \<and> to_u32 a + int (length bs) \<le> 256 * 1024
    then r = 0 \<and> copyin a (int (length bs)) s' = Some bs \<and>
      (\<forall>page off. page \<noteq> epoch68_user_page s \<or> off < nat (to_u32 a) \<or> nat (to_u32 a) + length bs \<le> off
         \<longrightarrow> k_mem s' page off = k_mem s page off)
    else r = - 1 \<and> s' = s"
proof -
  have l: "0 \<le> int (length bs)" "int (length bs) < 2 ^ 32" using len by simp_all
  note ptr = user_ptr_Some[OF l, of a]
  show ?thesis
  proof (cases "to_u32 a < 256 * 1024 \<and> to_u32 a + int (length bs) \<le> 256 * 1024")
    case True
    have p: "epoch68_user_ptr a (int (length bs)) = Some (nat (to_u32 a))"
      using ptr[of "nat (to_u32 a)"] True to_u32_range[of a] by (simp add: EPOCH68_USER_PAGE_SIZE_def)
    let ?m = "k_mem s (epoch68_user_page s)"
    have s': "r = 0" "s' = s\<lparr>k_mem := (k_mem s)(epoch68_user_page s :=
        epoch68_copyout_bytes bs (nat (to_u32 a)) ?m)\<rparr>"
      using c p by (simp_all add: copyout_def)
    have "copyin a (int (length bs)) s' = Some bs"
      using p l by (simp add: copyin_def s'(2) to_u32_id copyout_read_back)
    moreover have "k_mem s' page off = k_mem s page off"
      if "page \<noteq> epoch68_user_page s \<or> off < nat (to_u32 a) \<or> nat (to_u32 a) + length bs \<le> off" for page off
      using that by (auto simp add: s'(2) copyout_bytes_nth)
    ultimately show ?thesis using True s'(1) by simp
  next
    case False
    then have "epoch68_user_ptr a (int (length bs)) \<noteq> Some x" for x
      using ptr[of x] by (auto simp add: EPOCH68_USER_PAGE_SIZE_def)
    then have "epoch68_user_ptr a (int (length bs)) = None" by blast
    then show ?thesis using c False by (auto simp add: copyout_def)
  qed
qed

text \<open>
  A word stored by \<open>suword\<close> inside the window is read back by \<open>fuword\<close> as the signed 16-bit
  value of its low half, and outside the window both report \<open>-1\<close> and nothing is stored.\<close>

theorem suword_fuword:
  assumes c: "suword a v s = (r, s')"
  shows "if to_u32 a + 2 \<le> 256 * 1024 then r = 0 \<and> fuword a s' = to_i16 v
    else r = - 1 \<and> s' = s \<and> fuword a s = - 1"
proof -
  note ptr = user_ptr_Some[of 2 a, simplified]
  show ?thesis
  proof (cases "to_u32 a + 2 \<le> 256 * 1024")
    case True
    have p: "epoch68_user_ptr a 2 = Some (nat (to_u32 a))"
      using ptr[of "nat (to_u32 a)"] True to_u32_range[of a] by (simp add: EPOCH68_USER_PAGE_SIZE_def)
    have byte: "uint (word_of_int (x AND 0xFF) :: 8 word) = take_bit 8 x" for x
    proof -
      have "x AND 0xFF = take_bit 8 x"
        by (simp add: take_bit_eq_mask mask_eq_exp_minus_1)
      then show ?thesis by (simp add: unsigned_of_int)
    qed
    have val: "push_bit 8 (uint (word_of_int (drop_bit 8 v AND 0xFF) :: 8 word)) OR
        uint (word_of_int (v AND 0xFF) :: 8 word) = take_bit 16 v"
      unfolding byte by (rule bit_eqI) (auto simp add: bit_simps)
    have b15: "take_bit 16 v AND 0x8000 \<noteq> 0 \<longleftrightarrow> bit v 15"
    proof -
      have p: "(0x8000 :: int) = 2 ^ 15" by simp
      show ?thesis unfolding p and_exp_eq_0_iff_not_bit by (simp add: bit_take_bit_iff)
    qed
    have "(if take_bit 16 v AND 0x8000 \<noteq> 0 then take_bit 16 v OR NOT 0xFFFF else take_bit 16 v) = to_i16 v"
    proof -
      have m: "(0xFFFF :: int) = mask 16" by (simp add: mask_eq_exp_minus_1)
      show ?thesis
        unfolding b15 m to_i16_def
        by (rule bit_eqI) (auto simp add: bit_simps min_def not_less le_less
            numeral_eq_Suc less_Suc_eq)
    qed
    then show ?thesis
      using c p True by (auto simp add: suword_def fuword_def val Let_def)
  next
    case False
    then have "epoch68_user_ptr a 2 \<noteq> Some x" for x
      using ptr[of x] by (auto simp add: EPOCH68_USER_PAGE_SIZE_def)
    then have "epoch68_user_ptr a 2 = None" by blast
    then show ?thesis using c False by (auto simp add: suword_def fuword_def)
  qed
qed

text \<open>
  \<open>estabur\<close> accepts a layout of text, image and stack sizes exactly when there is no separate
  instruction space and the larger of text and image leaves room for the stack in the 4096-click window; a refusal sets \<open>ENOMEM\<close>
  and nothing else.\<close>

theorem estabur_fits:
  assumes "0 \<le> nt" "nt < 2 ^ 32" "0 \<le> nd" "nd < 2 ^ 32" "0 \<le> ns" "ns < 2 ^ 32"
  shows "estabur nt nd ns sep s =
    (if sep = 0 \<and> max nt nd + ns \<le> 4096 then (0, s) else (- 1, set_error ENOMEM s))"
proof -
  have ids: "to_u32 nt = nt" "to_u32 nd = nd" "to_u32 ns = ns"
    using assms by (simp_all add: to_u32_id)
  define M where "M = max nt nd"
  have M: "0 \<le> M" using assms by (simp add: M_def)
  then have "M \<le> 4096 \<Longrightarrow> to_u32 (4096 - M) = 4096 - M"
    by (intro to_u32_id) auto
  then show ?thesis
    unfolding estabur_def ids M_def[symmetric] Let_def EPOCH68_USER_CLICKS_def
    using M assms(5) by (cases "M \<le> 4096") auto
qed

subsection \<open>Instances\<close>

theorem copyout_copyin_witness:
  "copyin 262141 3 (snd (copyout [1, 2, 3] 262141 kernel0)) = Some [1, 2, 3] \<and>
   copyout [1, 2, 3] 262142 kernel0 = (- 1, kernel0)"
proof -
  have u: "to_u32 262141 = 262141" "to_u32 262142 = 262142" by (simp_all add: to_u32_id)
  obtain r s' where c: "copyout [1, 2, 3] 262141 kernel0 = (r, s')" by fastforce
  obtain r2 s2 where c2: "copyout [1, 2, 3] 262142 kernel0 = (r2, s2)" by fastforce
  from copyout_copyin[OF _ c] copyout_copyin[OF _ c2] c c2 u show ?thesis by simp
qed

end
