(* ===== verification/Process_Sched.thy ===== *)
theory Process_Sched
  imports User_Memory
begin

text \<open>
  The process scheduler of \<open>sys/slp.c\<close>, with the two tests for signals of \<open>sys/sig.c\<close> that \<open>sleep\<close> uses.

  A process waits on one of the hashed sleep queues \<open>slpque\<close> or for the processor on the run queue
  \<open>runq\<close>; both are singly linked through \<open>p_link\<close>. The loops along \<open>p_link\<close> visit
  each process at most once in a well-formed state, so their bound \<open>NPROC\<close> is never what ends them.

  \<open>swtch\<close> picks the next process and gives it the processor. Seen from the caller this is \<open>kyield\<close>: the
  schedule's next entry is what happens until some process resumes the caller. The saved
  registers and kernel stacks (\<open>save\<close>, \<open>resume\<close>) are not part of the state.
\<close>

section \<open>Signals a process can see\<close>

text \<open>\<open>fsig\<close>: the lowest numbered pending signal.\<close>

definition fsig :: "proc \<Rightarrow> nat" where
  "fsig p = (case List.find (\<lambda>i. bit (p_sig p) (i - 1)) [1 ..< NSIG] of None \<Rightarrow> 0 | Some i \<Rightarrow> i)"

text \<open>
  \<open>issig\<close>: ignored signals are dropped until one is found that is not. Each turn clears one of the
  sixteen bits of \<open>p_sig\<close>.
\<close>

fun issig_loop :: "nat \<Rightarrow> kernel \<Rightarrow> nat \<times> kernel" where
  "issig_loop 0 s = (0, s)"
| "issig_loop (Suc fuel) s =
    (let p = procp s
     in if p_sig (k_proc s p) = 0 then (0, s)
        else let n = fsig (k_proc s p)
             in if even (u_signal (u s) n) \<or> p_flag (k_proc s p) AND STRC \<noteq> 0 then (n, s)
                else issig_loop fuel
                  (upd_proc p (\<lambda>q. q\<lparr>p_sig := p_sig q AND NOT (push_bit (n - 1) 1)\<rparr>) s))"

definition issig :: "kernel \<Rightarrow> nat \<times> kernel" where
  "issig s = issig_loop NSIG s"

section \<open>Queues\<close>

definition SQSIZE :: nat where
  "SQSIZE = 64"

definition HASH :: "kernel \<Rightarrow> chan \<Rightarrow> nat" where
  "HASH s c = drop_bit 5 (k_addr s c) AND (SQSIZE - 1)"

text \<open>\<open>for (q = runq; q != NULL; q = q->p_link) if (q == p) ...\<close>\<close>

fun on_queue :: "nat \<Rightarrow> kernel \<Rightarrow> nat option \<Rightarrow> nat \<Rightarrow> bool" where
  "on_queue 0 s q p = False"
| "on_queue (Suc n) s q p =
    (case q of None \<Rightarrow> False
     | Some x \<Rightarrow> x = p \<or> on_queue n s (p_link (k_proc s x)) p)"

definition setrq :: "nat \<Rightarrow> kernel \<Rightarrow> kernel" where
  "setrq p s =
    (if on_queue (Suc NPROC) s (k_runq s) p then s
     else (upd_proc p (\<lambda>q. q\<lparr>p_link := k_runq s\<rparr>) s)\<lparr>k_runq := Some p\<rparr>)"

text \<open>
  The loop of \<open>wakeup\<close>: \<open>run\<close> is the call of \<open>setrun\<close>, \<open>q\<close> the process before \<open>p\<close> on the queue.
\<close>

fun wakeup_scan ::
  "nat \<Rightarrow> (nat \<Rightarrow> kernel \<Rightarrow> string + kernel) \<Rightarrow> chan \<Rightarrow> nat \<Rightarrow> nat option \<Rightarrow> nat option \<Rightarrow>
   kernel \<Rightarrow> string + kernel" where
  "wakeup_scan 0 run c i q p s = Inr s"
| "wakeup_scan (Suc n) run c i q p s =
    (case p of
       None \<Rightarrow> Inr s
     | Some x \<Rightarrow>
         if p_wchan (k_proc s x) = Some c \<and> p_stat (k_proc s x) \<noteq> SZOMB then
           (let sp = p_link (k_proc s x);
                s = (case q of
                       None \<Rightarrow> s\<lparr>k_slpque := (k_slpque s)(i := sp)\<rparr>
                     | Some y \<Rightarrow> upd_proc y (\<lambda>r. r\<lparr>p_link := sp\<rparr>) s);
                s = upd_proc x (\<lambda>r. r\<lparr>p_wchan := None\<rparr>) s
            in sbind (run x s) (wakeup_scan n run c i q sp))
         else wakeup_scan n run c i (Some x) (p_link (k_proc s x)) s)"

definition wakeup_with :: "(nat \<Rightarrow> kernel \<Rightarrow> string + kernel) \<Rightarrow> chan \<Rightarrow> kernel \<Rightarrow> string + kernel" where
  "wakeup_with run c s = wakeup_scan (Suc NPROC) run c (HASH s c) None (k_slpque s (HASH s c)) s"

text \<open>
  \<open>setrun\<close> of a process that no longer waits on a channel, in three layers that
  follow the recursion of the code: \<open>setrun_base\<close> is its body without the swapper's
  wakeup; \<open>setrun_awake\<close> adds that wakeup, inside which \<open>runout\<close> is already 0; \<open>setrun\<close> itself
  starts with the test of \<open>p_wchan\<close>, which \<open>wakeup\<close> has cleared before it calls back.
\<close>

definition setrun_base :: "nat \<Rightarrow> kernel \<Rightarrow> string + kernel" where
  "setrun_base p s =
    (if p_stat (k_proc s p) = SNULL \<or> p_stat (k_proc s p) = SZOMB then Inl ''Running a dead proc''
     else let s = setrq p (upd_proc p (\<lambda>q. q\<lparr>p_stat := SRUN\<rparr>) s)
          in Inr (if p_pri (k_proc s p) < k_curpri s then s\<lparr>k_runrun := to_i8 (k_runrun s + 1)\<rparr> else s))"

definition setrun_awake :: "nat \<Rightarrow> kernel \<Rightarrow> string + kernel" where
  "setrun_awake p s =
    sbind (setrun_base p s)
      (\<lambda>s. if k_runout s \<noteq> 0 \<and> p_flag (k_proc s p) AND SLOAD = 0
           then wakeup_with setrun_base Ch_runout (s\<lparr>k_runout := 0\<rparr>) else Inr s)"

definition wakeup :: "chan \<Rightarrow> kernel \<Rightarrow> string + kernel" where
  "wakeup c s = wakeup_with setrun_awake c s"

definition setrun :: "nat \<Rightarrow> kernel \<Rightarrow> string + kernel" where
  "setrun p s =
    (if p_stat (k_proc s p) = SNULL \<or> p_stat (k_proc s p) = SZOMB then Inl ''Running a dead proc''
     else case p_wchan (k_proc s p) of
            Some w \<Rightarrow> wakeup w s
          | None \<Rightarrow> setrun_awake p s)"

text \<open>\<open>setpri\<close> returns the priority it stores.\<close>

definition setpri :: "nat \<Rightarrow> kernel \<Rightarrow> int \<times> kernel" where
  "setpri pp s =
    (let p = take_bit 8 (p_cpu (k_proc s pp)) div 16 + PUSER + p_nice (k_proc s pp) - NZERO;
         p = (if p > 127 then 127 else p);
         s = (if p < k_curpri s then s\<lparr>k_runrun := to_i8 (k_runrun s + 1)\<rparr> else s)
     in (p, upd_proc pp (\<lambda>q. q\<lparr>p_pri := to_i8 p\<rparr>) s))"

section \<open>Switching\<close>

definition EPOCH68_KERNEL_METADATA_PAGE :: int where
  "EPOCH68_KERNEL_METADATA_PAGE = 63"

text \<open>
  The search of \<open>swtch\<close> for the best loaded runnable process: the result is the process, the one before it on the queue,
  and its priority.
\<close>

fun swtch_scan ::
  "nat \<Rightarrow> kernel \<Rightarrow> nat option \<Rightarrow> nat option \<Rightarrow> nat option \<times> nat option \<times> int \<Rightarrow>
   nat option \<times> nat option \<times> int" where
  "swtch_scan 0 s p q best = best"
| "swtch_scan (Suc fuel) s p q best =
    (case p of
       None \<Rightarrow> best
     | Some x \<Rightarrow>
         (case best of (pp, pq, n) \<Rightarrow>
            swtch_scan fuel s (p_link (k_proc s x)) (Some x)
              (if p_stat (k_proc s x) = SRUN \<and> p_flag (k_proc s x) AND SLOAD \<noteq> 0 \<and>
                  p_pri (k_proc s x) < n
               then (Some x, q, p_pri (k_proc s x)) else (pp, pq, n))))"

text \<open>The state in which the chosen process \<open>p\<close> has the processor.\<close>

definition switch_to :: "nat \<Rightarrow> int \<Rightarrow> kernel \<Rightarrow> string + kernel" where
  "switch_to p n s =
    (if p \<noteq> 0 \<and> (p_stat (k_proc s p) \<noteq> SRUN \<or> p_flag (k_proc s p) AND SLOAD = 0 \<or>
         p_addr (k_proc s p) \<le> 0 \<or> p_addr (k_proc s p) \<ge> EPOCH68_KERNEL_METADATA_PAGE)
     then Inl ''bad runnable''
     else let s = s\<lparr>k_curpri := to_i8 n\<rparr>;
              s = upd_proc p (\<lambda>q. q\<lparr>p_flag := p_flag q AND NOT SSWAP\<rparr>) s;
              s = s\<lparr>k_uarrp := p\<rparr>
          in Inr (upd_u (\<lambda>w. w\<lparr>u_procp := p\<rparr>) s))"

text \<open>
  Everything \<open>swtch\<close> does before the processor changes hands: \<open>None\<close> when process 0 finds nobody to run and keeps it,
  otherwise the process that gets it.
\<close>

definition swtch_pick :: "kernel \<Rightarrow> string + nat option \<times> kernel" where
  "swtch_pick s =
    (let s = s\<lparr>k_runrun := 0\<rparr>;
         (pp, pq, n) = swtch_scan (Suc NPROC) s (k_runq s) None (None, None, 128)
     in case pp of
          None \<Rightarrow>
            if procp s = 0 then Inr (None, s)
            else (case switch_to 0 PUSER s of Inl m \<Rightarrow> Inl m | Inr s \<Rightarrow> Inr (Some 0, s))
        | Some p \<Rightarrow>
            (let s = (case pq of
                        None \<Rightarrow> s\<lparr>k_runq := p_link (k_proc s p)\<rparr>
                      | Some q \<Rightarrow> upd_proc q (\<lambda>r. r\<lparr>p_link := p_link (k_proc s p)\<rparr>) s)
             in case switch_to p n s of Inl m \<Rightarrow> Inl m | Inr s \<Rightarrow> Inr (Some p, s)))"

definition swtch :: "(kernel, unit) kern" where
  "swtch = (\<lambda>es s.
     case swtch_pick s of
       Inl msg \<Rightarrow> Panic msg s
     | Inr (None, s') \<Rightarrow> Ret () es s'
     | Inr (Some p, s') \<Rightarrow> if p = procp s then Ret () es s' else kyield es s')"

definition qswtch :: "(kernel, unit) kern" where
  "qswtch = kthen (kmod (\<lambda>s. setrq (procp s) s)) swtch"

text \<open>\<open>sched\<close>: process 0 polls the console and calls \<open>swtch\<close>, for as long as the schedule lasts.\<close>

fun sched :: "nat \<Rightarrow> (kernel \<Rightarrow> kernel) \<Rightarrow> (kernel, unit) kern" where
  "sched 0 poll = kret ()"
| "sched (Suc n) poll = kthen (kmod poll) (kthen swtch (sched n poll))"

section \<open>Sleep\<close>

text \<open>The process is marked and put at the head of its sleep queue.\<close>

definition sleep_enter :: "chan \<Rightarrow> int \<Rightarrow> kernel \<Rightarrow> kernel" where
  "sleep_enter c pri s =
    (let rp = procp s; h = HASH s c;
         s = upd_proc rp (\<lambda>q. q\<lparr>p_stat := SSLEEP, p_wchan := Some c, p_pri := to_i8 pri,
                                p_link := k_slpque s h\<rparr>) s
     in s\<lparr>k_slpque := (k_slpque s)(h := Some rp)\<rparr>)"

text \<open>The sleep is abandoned for a signal.\<close>

definition sleep_cancel :: "nat \<Rightarrow> nat \<Rightarrow> kernel \<Rightarrow> kernel" where
  "sleep_cancel rp h s =
    (let s = upd_proc rp (\<lambda>q. q\<lparr>p_wchan := None, p_stat := SRUN\<rparr>) s
     in s\<lparr>k_slpque := (k_slpque s)(h := p_link (k_proc s rp))\<rparr>)"

definition kissig :: "(kernel, nat) kern" where
  "kissig = (\<lambda>es s. case issig s of (n, s') \<Rightarrow> Ret n es s')"

definition sleep :: "chan \<Rightarrow> int \<Rightarrow> (kernel, unit) kern" where
  "sleep c pri =
    kbind (kget (\<lambda>s. (procp s, HASH s c))) (\<lambda>(rp, h).
    kthen (kmod (sleep_enter c pri))
      (if pri > PZERO then
         kbind kissig (\<lambda>n.
           if n \<noteq> 0 then kthen (kmod (sleep_cancel rp h)) klongjmp
           else
             kthen (kwhen (\<lambda>s. k_runin s \<noteq> 0)
                (kthen (kmod (\<lambda>s. s\<lparr>k_runin := 0\<rparr>)) (kpure (wakeup Ch_runin))))
             (kthen swtch
                (kbind kissig (\<lambda>n. if n \<noteq> 0 then klongjmp else kret ()))))
       else swtch))"

section \<open>Process creation\<close>

text \<open>
  The \<open>retry\<close> loop for an unused process id; \<open>busy\<close> is the test against every
  \<open>p_pid\<close> and \<open>p_pgrp\<close>.
\<close>

fun pid_search :: "nat \<Rightarrow> (int \<Rightarrow> bool) \<Rightarrow> int \<Rightarrow> int option" where
  "pid_search 0 busy mpid = None"
| "pid_search (Suc n) busy mpid =
    (let m = mpid + 1; m = (if m \<ge> 30000 then 1 else m)
     in if busy m then pid_search n busy m else Some m)"

definition pid_busy :: "kernel \<Rightarrow> int \<Rightarrow> bool" where
  "pid_busy s m = (\<exists>i \<in> set [0 ..< NPROC]. p_pid (k_proc s i) = m \<or> p_pgrp (k_proc s i) = m)"

definition AFORK :: "8 word" where
  "AFORK = 0x01"

text \<open>The fields a new entry takes from its parent.\<close>

definition newproc_entry :: "proc \<Rightarrow> int \<Rightarrow> proc \<Rightarrow> proc" where
  "newproc_entry parent pid p =
    p\<lparr>p_stat := SIDL, p_clktim := 0, p_flag := SLOAD, p_uid := p_uid parent, p_pgrp := p_pgrp parent,
      p_nice := p_nice parent, p_textp := p_textp parent, p_pid := pid, p_ppid := p_pid parent,
      p_sig := 0, p_wchan := None, p_link := None, p_time := 0, p_cpu := 0, p_size := p_size parent\<rparr>"

text \<open>The entry given back when there is no user page.\<close>

definition newproc_undo :: "proc \<Rightarrow> proc" where
  "newproc_undo p =
    p\<lparr>p_flag := 0, p_pri := 0, p_time := 0, p_cpu := 0, p_nice := 0, p_sig := 0, p_uid := 0,
      p_pgrp := 0, p_pid := 0, p_ppid := 0, p_addr := 0, p_size := 0, p_wchan := None,
      p_textp := None, p_link := None, p_clktim := 0, p_stat := SNULL\<rparr>"

text \<open>One more reference for every open file, the text segment and the two directories.\<close>

definition newproc_refs :: "nat \<Rightarrow> kernel \<Rightarrow> kernel" where
  "newproc_refs parentp s =
    (let s = fold (\<lambda>n s. case u_ofile (u s) n of
                    None \<Rightarrow> s
                  | Some fp \<Rightarrow> upd_file fp (\<lambda>f. f\<lparr>f_count := to_i8 (f_count f + 1)\<rparr>) s) [0 ..< NOFILE] s;
         s = (case p_textp (k_proc s parentp) of
                None \<Rightarrow> s
              | Some x \<Rightarrow> upd_text x (\<lambda>t. t\<lparr>x_count := to_i8 (x_count t + 1),
                                           x_ccount := to_i8 (x_ccount t + 1)\<rparr>) s);
         s = upd_inode (u_cdir (u s)) (\<lambda>i. i\<lparr>i_count := to_i8 (i_count i + 1)\<rparr>) s
     in case u_rdir (u s) of
          None \<Rightarrow> s
        | Some r \<Rightarrow> upd_inode r (\<lambda>i. i\<lparr>i_count := to_i8 (i_count i + 1)\<rparr>) s)"

definition child_user :: "kernel \<Rightarrow> nat \<Rightarrow> nat \<Rightarrow> user" where
  "child_user s parentp child =
    (k_uarea s parentp)
      \<lparr>u_procp := child, r_val1 := 0, r_val2 := p_pid (k_proc s parentp), u_start := k_time s,
       u_cstime := 0, u_stime := 0, u_cutime := 0, u_utime := 0, u_acflag := AFORK\<rparr>"

text \<open>
  \<open>newproc(parentp)\<close>. The search of a process id ends within \<open>2 * NPROC + 1\<close> turns; the copies of
  the user page and of the u area are the updates of \<open>k_mem\<close> and \<open>k_uarea\<close>.
\<close>

definition newproc :: "nat \<Rightarrow> kernel \<Rightarrow> string + kernel" where
  "newproc parentp s =
    (case pid_search (2 * NPROC + 1) (pid_busy s) (k_mpid s) of
       None \<Rightarrow> Inl ''retry''
     | Some pid \<Rightarrow>
         (let s = s\<lparr>k_mpid := pid\<rparr>
          in case first_index NPROC (\<lambda>i. p_stat (k_proc s i) = SNULL) of
               None \<Rightarrow> Inl ''no procs''
             | Some rpp \<Rightarrow>
                 (let rip = parentp;
                      s = upd_proc rpp (newproc_entry (k_proc s rip) pid) s
                  in case userpage_alloc (k_pages s) of
                       Inl (Panicked m) \<Rightarrow> Inl m
                     | Inl (Wild t) \<Rightarrow> Inl t
                     | Inr (child_page, pages) \<Rightarrow>
                         (let s = s\<lparr>k_pages := pages\<rparr>
                          in if child_page = 0 then
                               Inr (set_error ENOMEM (upd_proc rpp newproc_undo s))
                             else
                               (let a1 = p_addr (k_proc s rip);
                                    s = upd_proc rpp (\<lambda>p. p\<lparr>p_addr := to_i16 child_page\<rparr>) s;
                                    s = newproc_refs rip s;
                                    s = s\<lparr>k_uarea := (k_uarea s)(rpp := child_user s rip rpp)\<rparr>;
                                    s = s\<lparr>k_mem := (k_mem s)(p_addr (k_proc s rpp) := k_mem s a1)\<rparr>;
                                    s = upd_proc rpp (\<lambda>p. p\<lparr>p_stat := SRUN\<rparr>) s
                                in Inr (setrq rpp s))))))"

section \<open>Well-formed queues\<close>

definition links :: "kernel \<Rightarrow> nat \<Rightarrow> nat option" where
  "links s x = p_link (k_proc s x)"

definition sleeper :: "kernel \<Rightarrow> nat \<Rightarrow> chan \<Rightarrow> bool" where
  "sleeper s x c \<longleftrightarrow> p_wchan (k_proc s x) = Some c \<and> p_stat (k_proc s x) = SSLEEP"

text \<open>
  \<open>R\<close> is the run queue and \<open>Q h\<close> the sleep queue of hash value \<open>h\<close>: disjoint lists of table entries; runnable
  processes wait for nothing, and a process waits on a channel exactly when it
  sleeps on that channel's queue.
\<close>

definition queues_ok :: "kernel \<Rightarrow> nat list \<Rightarrow> (nat \<Rightarrow> nat list) \<Rightarrow> bool" where
  "queues_ok s R Q \<longleftrightarrow>
    lchain (links s) (k_runq s) R \<and> distinct R \<and>
    (\<forall>h. lchain (links s) (k_slpque s h) (Q h) \<and> distinct (Q h)) \<and>
    (\<forall>h. set R \<inter> set (Q h) = {}) \<and> (\<forall>h h'. h \<noteq> h' \<longrightarrow> set (Q h) \<inter> set (Q h') = {}) \<and>
    (\<forall>x \<in> set R. x < NPROC \<and> p_stat (k_proc s x) = SRUN \<and> p_wchan (k_proc s x) = None) \<and>
    (\<forall>h. \<forall>x \<in> set (Q h). x < NPROC \<and> (\<exists>c. sleeper s x c \<and> HASH s c = h)) \<and>
    (\<forall>x c. p_wchan (k_proc s x) = Some c \<longrightarrow> x \<in> set (Q (HASH s c)))"

definition sched_inv :: "kernel \<Rightarrow> bool" where
  "sched_inv s \<longleftrightarrow> (\<exists>R Q. queues_ok s R Q)"

lemma queue_short:
  assumes "distinct xs" "\<forall>x \<in> set xs. x < NPROC"
  shows "length xs \<le> NPROC"
proof -
  have "set xs \<subseteq> {..< NPROC}" using assms(2) by auto
  then have "card (set xs) \<le> NPROC" using card_mono[of "{..< NPROC}" "set xs"] by simp
  then show ?thesis using distinct_card[OF assms(1)] by simp
qed

lemma on_queue_iff:
  "\<lbrakk>lchain (links s) q xs; length xs < n\<rbrakk> \<Longrightarrow> on_queue n s q p \<longleftrightarrow> p \<in> set xs"
proof (induction xs arbitrary: q n)
  case Nil
  then show ?case by (cases n) simp_all
next
  case (Cons x xs)
  then show ?case by (cases n) (auto simp add: links_def)
qed

text \<open>What the scheduler's routines leave alone.\<close>

definition only_sched :: "kernel \<Rightarrow> kernel \<Rightarrow> bool" where
  "only_sched s s' \<longleftrightarrow>
    (\<exists>pr rq sq rr. s' = s\<lparr>k_proc := pr, k_runq := rq, k_slpque := sq, k_runrun := rr\<rparr>) \<and>
    (\<forall>x. \<exists>l w st. k_proc s' x = (k_proc s x)\<lparr>p_link := l, p_wchan := w, p_stat := st\<rparr>)"

lemma only_schedI:
  assumes "s' = s\<lparr>k_proc := pr, k_runq := rq, k_slpque := sq, k_runrun := rr\<rparr>"
    and "\<And>x. pr x = (k_proc s x)\<lparr>p_link := l x, p_wchan := w x, p_stat := st x\<rparr>"
  shows "only_sched s s'"
  unfolding only_sched_def using assms by auto

lemma only_sched_refl: "only_sched s s"
  by (rule only_schedI[where pr = "k_proc s" and rq = "k_runq s" and sq = "k_slpque s" and
        rr = "k_runrun s" and l = "\<lambda>x. p_link (k_proc s x)" and w = "\<lambda>x. p_wchan (k_proc s x)" and
        st = "\<lambda>x. p_stat (k_proc s x)"]) simp_all

lemma only_sched_trans:
  assumes "only_sched s t" "only_sched t v"
  shows "only_sched s v"
  unfolding only_sched_def
proof (intro conjI allI)
  show "\<exists>pr rq sq rr. v = s\<lparr>k_proc := pr, k_runq := rq, k_slpque := sq, k_runrun := rr\<rparr>"
    using assms by (auto simp add: only_sched_def) blast
  fix x
  obtain l w st where 1: "k_proc t x = (k_proc s x)\<lparr>p_link := l, p_wchan := w, p_stat := st\<rparr>"
    using assms(1) unfolding only_sched_def by blast
  obtain l' w' st' where 2: "k_proc v x = (k_proc t x)\<lparr>p_link := l', p_wchan := w', p_stat := st'\<rparr>"
    using assms(2) unfolding only_sched_def by blast
  show "\<exists>l w st. k_proc v x = (k_proc s x)\<lparr>p_link := l, p_wchan := w, p_stat := st\<rparr>"
    unfolding 2 1 by (intro exI[of _ l'] exI[of _ w'] exI[of _ st']) simp
qed

lemma only_sched_kernel:
  assumes "only_sched s s'"
  shows "k_uarea s' = k_uarea s" "k_uarrp s' = k_uarrp s" "k_runout s' = k_runout s"
    "k_runin s' = k_runin s" "k_addr s' = k_addr s" "k_inode s' = k_inode s" "k_file s' = k_file s"
    "k_curpri s' = k_curpri s" "k_mount s' = k_mount s" "k_text s' = k_text s" "k_disk s' = k_disk s"
    "k_ioerr s' = k_ioerr s" "k_time s' = k_time s" "k_pages s' = k_pages s" "k_mem s' = k_mem s"
    "k_mpid s' = k_mpid s" "k_driver s' = k_driver s" "k_devlog s' = k_devlog s"
    "HASH s' = HASH s" "u s' = u s" "procp s' = procp s"
  using assms by (auto simp add: only_sched_def HASH_def fun_eq_iff u_def procp_def)

text \<open>The update of the process behind which an element leaves a queue.\<close>

definition unlink_at :: "nat \<Rightarrow> nat list \<Rightarrow> nat \<Rightarrow> kernel \<Rightarrow> kernel" where
  "unlink_at h pre x s =
    (let sp = p_link (k_proc s x)
     in if pre = [] then s\<lparr>k_slpque := (k_slpque s)(h := sp)\<rparr>
        else upd_proc (last pre) (\<lambda>r. r\<lparr>p_link := sp\<rparr>) s)"

text \<open>One turn of the loop of \<open>wakeup\<close> that wakes \<open>x\<close>.\<close>

lemma wake_step:
  assumes ok: "queues_ok s R Q" and Q: "Q h = pre @ x # ys" and x: "p_wchan (k_proc s x) = Some c"
    and h: "HASH s c = h" and ro: "k_runout s = 0"
  defines "s1 \<equiv> upd_proc x (\<lambda>r. r\<lparr>p_wchan := None\<rparr>) (unlink_at h pre x s)"
  shows "\<exists>s2. setrun_awake x s1 = Inr s2 \<and> queues_ok s2 (x # R) (Q(h := pre @ ys)) \<and> only_sched s s2 \<and>
    (\<forall>y. y \<noteq> x \<longrightarrow> p_wchan (k_proc s2 y) = p_wchan (k_proc s y) \<and> p_stat (k_proc s2 y) = p_stat (k_proc s y)) \<and>
    p_wchan (k_proc s2 x) = None \<and> p_stat (k_proc s2 x) = SRUN"
proof -
  have xQ: "x \<in> set (Q h)" by (simp add: Q)
  have xR: "x \<notin> set R" using ok xQ unfolding queues_ok_def by blast
  have dQ: "distinct (pre @ x # ys)" using ok unfolding queues_ok_def Q[symmetric] by blast
  have xs: "p_stat (k_proc s x) = SSLEEP"
    using ok xQ unfolding queues_ok_def sleeper_def by blast
  have preR: "pre \<noteq> [] \<Longrightarrow> last pre \<notin> set R"
    using ok Q unfolding queues_ok_def by (metis Int_iff Un_iff empty_iff last_in_set set_append)
  have lx: "pre \<noteq> [] \<Longrightarrow> last pre \<noteq> x" using dQ by auto
  have lR: "length R < Suc NPROC"
    using queue_short[of R] ok by (auto simp add: queues_ok_def less_Suc_eq_le)
  define s1' where "s1' = upd_proc x (\<lambda>q. q\<lparr>p_stat := SRUN\<rparr>) s1"
  have s1k: "k_runq s1' = k_runq s" "k_runout s1' = 0" "k_curpri s1' = k_curpri s"
    "p_stat (k_proc s1 x) = SSLEEP" "k_addr s1' = k_addr s" "k_runrun s1' = k_runrun s"
    using xs ro lx by (auto simp add: s1'_def s1_def unlink_at_def upd_proc_def Let_def)
  have "lchain (links s1') (k_runq s1') R"
  proof -
    have "lchain (links s) (k_runq s) R" using ok by (simp add: queues_ok_def)
    moreover have "links s1' y = links s y" if "y \<in> set R" for y
      using that preR by (auto simp add: links_def s1'_def s1_def unlink_at_def upd_proc_def Let_def)
    ultimately show ?thesis using lchain_cong[of R "links s1'" "links s"] s1k(1) by simp
  qed
  then have noq: "\<not> on_queue (Suc NPROC) s1' (k_runq s1') x" using on_queue_iff lR xR by blast
  define s2 where "s2 = (let t = (upd_proc x (\<lambda>q. q\<lparr>p_link := k_runq s\<rparr>) s1')\<lparr>k_runq := Some x\<rparr>
      in if p_pri (k_proc t x) < k_curpri t then t\<lparr>k_runrun := to_i8 (k_runrun t + 1)\<rparr> else t)"
  have run: "setrun_awake x s1 = Inr s2"
    using noq s1k
    by (simp add: setrun_awake_def setrun_base_def setrq_def s1'_def[symmetric] s2_def Let_def)
  have pr: "k_proc s2 = (\<lambda>y. if y = x then (k_proc s x)\<lparr>p_wchan := None, p_stat := SRUN, p_link := k_runq s\<rparr>
      else if pre \<noteq> [] \<and> y = last pre then (k_proc s y)\<lparr>p_link := p_link (k_proc s x)\<rparr> else k_proc s y)"
    using lx by (auto simp add: s2_def s1'_def s1_def unlink_at_def upd_proc_def Let_def fun_eq_iff)
  have kq: "k_runq s2 = Some x" "k_addr s2 = k_addr s"
    "k_slpque s2 = (if pre = [] then (k_slpque s)(h := p_link (k_proc s x)) else k_slpque s)"
    by (auto simp add: s2_def s1'_def s1_def unlink_at_def upd_proc_def Let_def)
  have "queues_ok s2 (x # R) (Q(h := pre @ ys))"
  proof -
    have H: "HASH s2 = HASH s" by (simp add: HASH_def kq(2) fun_eq_iff)
    have lk: "links s2 = (if pre = [] then (links s)(x := k_runq s)
        else (links s)(x := k_runq s, last pre := links s x))"
      using lx by (auto simp add: links_def pr fun_eq_iff)
    have r: "lchain (links s2) (k_runq s2) (x # R)"
      using ok xR preR lx kq(1) by (cases "pre = []") (auto simp add: queues_ok_def lk)
    have q: "lchain (links s2) (k_slpque s2 k) ((Q(h := pre @ ys)) k)" for k
    proof (cases "k = h")
      case True
      have c0: "lchain (links s) (k_slpque s h) (pre @ x # ys)" using ok Q unfolding queues_ok_def by metis
      show ?thesis
      proof (cases "pre = []")
        case pre: True
        then have "lchain (links s) (links s x) ys" using c0 by simp
        then show ?thesis using pre dQ True by (simp add: kq(3) lk links_def)
      next
        case pre: False
        have "lchain ((links s)(last pre := links s x)) (k_slpque s h) (pre @ ys)"
          using lchain_unlink[OF c0 dQ pre] .
        moreover have "lchain (links s2) p (pre @ ys) = lchain ((links s)(last pre := links s x)) p (pre @ ys)" for p
          using dQ pre lx by (intro lchain_cong) (auto simp add: lk)
        ultimately show ?thesis using pre True by (simp add: kq(3))
      qed
    next
      case False
      have "x \<notin> set (Q k)" "pre \<noteq> [] \<Longrightarrow> last pre \<notin> set (Q k)"
        using ok False Q unfolding queues_ok_def
        by (metis Int_iff Un_iff empty_iff list.set_intros(1) set_append, metis Int_iff Un_iff empty_iff last_in_set set_append)
      then show ?thesis using ok False by (auto simp add: queues_ok_def lk kq(3))
    qed
    show ?thesis
      unfolding queues_ok_def
    proof (intro conjI)
      show "\<forall>k. lchain (links s2) (k_slpque s2 k) ((Q(h := pre @ ys)) k) \<and> distinct ((Q(h := pre @ ys)) k)"
        using q ok dQ by (auto simp add: queues_ok_def)
      show "\<forall>k. set (x # R) \<inter> set ((Q(h := pre @ ys)) k) = {}"
      proof
        fix k
        have "set ((Q(h := pre @ ys)) k) \<subseteq> set (Q k)" using Q by auto
        moreover have "set R \<inter> set (Q k) = {}" using ok by (simp add: queues_ok_def)
        moreover have "x \<notin> set ((Q(h := pre @ ys)) k)"
        proof (cases "k = h")
          case False
          then have "set (Q k) \<inter> set (Q h) = {}" using ok by (simp add: queues_ok_def)
          then show ?thesis using xQ False by auto
        qed (use dQ in auto)
        ultimately show "set (x # R) \<inter> set ((Q(h := pre @ ys)) k) = {}" by auto
      qed
      show "\<forall>k k'. k \<noteq> k' \<longrightarrow> set ((Q(h := pre @ ys)) k) \<inter> set ((Q(h := pre @ ys)) k') = {}"
      proof -
        have sub: "set ((Q(h := pre @ ys)) k) \<subseteq> set (Q k)" for k using Q by auto
        show ?thesis
        proof (intro allI impI)
          fix k k' :: nat
          assume "k \<noteq> k'"
          then have "set (Q k) \<inter> set (Q k') = {}" using ok by (simp add: queues_ok_def)
          with sub[of k] sub[of k'] show "set ((Q(h := pre @ ys)) k) \<inter> set ((Q(h := pre @ ys)) k') = {}"
            by blast
        qed
      qed
      show "\<forall>y \<in> set (x # R). y < NPROC \<and> p_stat (k_proc s2 y) = SRUN \<and> p_wchan (k_proc s2 y) = None"
        using ok xQ by (auto simp add: queues_ok_def pr)
      show "\<forall>k. \<forall>y \<in> set ((Q(h := pre @ ys)) k). y < NPROC \<and> (\<exists>c. sleeper s2 y c \<and> HASH s2 c = k)"
      proof (intro allI ballI)
        fix k y
        assume y: "y \<in> set ((Q(h := pre @ ys)) k)"
        then have yk: "y \<in> set (Q k)" using Q by (auto split: if_splits)
        have "y \<noteq> x"
        proof
          assume "y = x"
          then have "k = h" using ok yk xQ unfolding queues_ok_def by blast
          with y \<open>y = x\<close> dQ show False by auto
        qed
        then show "y < NPROC \<and> (\<exists>c. sleeper s2 y c \<and> HASH s2 c = k)"
          using ok yk by (auto simp add: queues_ok_def sleeper_def pr H)
      qed
      show "\<forall>y c. p_wchan (k_proc s2 y) = Some c \<longrightarrow> y \<in> set ((Q(h := pre @ ys)) (HASH s2 c))"
      proof (intro allI impI)
        fix y d
        assume "p_wchan (k_proc s2 y) = Some d"
        then have "y \<noteq> x" "p_wchan (k_proc s y) = Some d" by (auto simp add: pr split: if_splits)
        moreover have "y \<in> set (Q (HASH s d))" using ok calculation(2) by (simp add: queues_ok_def)
        ultimately show "y \<in> set ((Q(h := pre @ ys)) (HASH s2 d))" using Q by (auto simp add: H)
      qed
    qed (use r ok xR in \<open>auto simp add: queues_ok_def\<close>)
  qed
  moreover have "only_sched s s2"
  proof (rule only_schedI)
    show "s2 = s\<lparr>k_proc := k_proc s2, k_runq := k_runq s2, k_slpque := k_slpque s2, k_runrun := k_runrun s2\<rparr>"
      by (auto simp add: s2_def s1'_def s1_def unlink_at_def upd_proc_def Let_def)
    show "k_proc s2 y = (k_proc s y)\<lparr>p_link := p_link (k_proc s2 y), p_wchan := p_wchan (k_proc s2 y),
        p_stat := p_stat (k_proc s2 y)\<rparr>" for y
      by (simp add: pr)
  qed
  ultimately show ?thesis using run by (auto simp add: pr)
qed

text \<open>The whole loop, from the element \<open>pre\<close> has been passed to.\<close>

lemma wakeup_scan_spec:
  assumes "queues_ok s R Q" "Q h = pre @ ys" "HASH s c = h" "k_runout s = 0"
    "\<forall>y \<in> set pre. p_wchan (k_proc s y) \<noteq> Some c" "length ys < n"
  shows "\<exists>s' R' Q'. wakeup_scan n setrun_awake c h (if pre = [] then None else Some (last pre))
      (case ys of [] \<Rightarrow> None | y # _ \<Rightarrow> Some y) s = Inr s' \<and> queues_ok s' R' Q' \<and> only_sched s s' \<and>
    set R' = set R \<union> {y \<in> set ys. p_wchan (k_proc s y) = Some c} \<and>
    (\<forall>y. if p_wchan (k_proc s y) = Some c then p_wchan (k_proc s' y) = None \<and> p_stat (k_proc s' y) = SRUN
      else p_wchan (k_proc s' y) = p_wchan (k_proc s y) \<and> p_stat (k_proc s' y) = p_stat (k_proc s y))"
  using assms
proof (induction ys arbitrary: n s R Q pre)
  case Nil
  then obtain m where n: "n = Suc m" by (cases n) auto
  have "p_wchan (k_proc s y) \<noteq> Some c" for y
  proof
    assume w: "p_wchan (k_proc s y) = Some c"
    then have "y \<in> set (Q (HASH s c))" using Nil.prems(1) by (simp add: queues_ok_def)
    with w Nil.prems show False by auto
  qed
  with Nil.prems(1) n only_sched_refl show ?case by (intro exI[of _ s] exI[of _ R] exI[of _ Q]) simp
next
  case (Cons y ys)
  then obtain m where n: "n = Suc m" by (cases n) auto
  have yQ: "y \<in> set (Q h)" using Cons.prems(2) by simp
  have chain: "lchain (links s) (k_slpque s h) (pre @ y # ys)"
    using Cons.prems(1,2) unfolding queues_ok_def by metis
  have next_y: "p_link (k_proc s y) = (case ys of [] \<Rightarrow> None | z # _ \<Rightarrow> Some z)"
  proof -
    have "lchain (links s) p (pre @ y # ys) \<Longrightarrow> lchain (links s) (links s y) ys" for p
      by (induction pre arbitrary: p) auto
    then have "lchain (links s) (links s y) ys" using chain by blast
    then show ?thesis by (cases ys) (simp_all add: links_def)
  qed
  show ?case
  proof (cases "p_wchan (k_proc s y) = Some c")
    case True
    have st: "p_stat (k_proc s y) \<noteq> SZOMB"
      using Cons.prems(1) yQ unfolding queues_ok_def sleeper_def by fastforce
    let ?s1 = "upd_proc y (\<lambda>r. r\<lparr>p_wchan := None\<rparr>) (unlink_at h pre y s)"
    obtain s2 where s2: "setrun_awake y ?s1 = Inr s2" "queues_ok s2 (y # R) (Q(h := pre @ ys))"
        "only_sched s s2"
        "\<And>z. z \<noteq> y \<Longrightarrow> p_wchan (k_proc s2 z) = p_wchan (k_proc s z) \<and> p_stat (k_proc s2 z) = p_stat (k_proc s z)"
        "p_wchan (k_proc s2 y) = None" "p_stat (k_proc s2 y) = SRUN"
      using wake_step[OF Cons.prems(1,2) True Cons.prems(3,4)] by blast
    have step: "wakeup_scan n setrun_awake c h (if pre = [] then None else Some (last pre)) (Some y) s =
        wakeup_scan m setrun_awake c h (if pre = [] then None else Some (last pre))
          (case ys of [] \<Rightarrow> None | z # _ \<Rightarrow> Some z) s2"
      using True st s2(1) n next_y by (cases "pre = []") (simp_all add: unlink_at_def Let_def)
    note ks = only_sched_kernel[OF s2(3)]
    have pre2: "\<forall>z \<in> set pre. p_wchan (k_proc s2 z) \<noteq> Some c"
      using s2(4,5) Cons.prems(5) by (metis option.distinct(1))
    obtain s' R' Q' where IH:
        "wakeup_scan m setrun_awake c h (if pre = [] then None else Some (last pre))
          (case ys of [] \<Rightarrow> None | z # _ \<Rightarrow> Some z) s2 = Inr s'" "queues_ok s' R' Q'" "only_sched s2 s'"
        "set R' = set (y # R) \<union> {z \<in> set ys. p_wchan (k_proc s2 z) = Some c}"
        "\<forall>z. if p_wchan (k_proc s2 z) = Some c then p_wchan (k_proc s' z) = None \<and> p_stat (k_proc s' z) = SRUN
          else p_wchan (k_proc s' z) = p_wchan (k_proc s2 z) \<and> p_stat (k_proc s' z) = p_stat (k_proc s2 z)"
    proof -
      have p: "(Q(h := pre @ ys)) h = pre @ ys" "HASH s2 c = h" "k_runout s2 = 0" "length ys < m"
        using Cons.prems(3,4,6) ks n by simp_all
      show ?thesis using Cons.IH[OF s2(2) p(1-3) pre2 p(4)] that by blast
    qed
    have "set R' = set R \<union> {z \<in> set (y # ys). p_wchan (k_proc s z) = Some c}"
    proof -
      have "y \<notin> set ys" using Cons.prems(1,2) unfolding queues_ok_def by (metis distinct.simps(2) distinct_append)
      then show ?thesis using IH(4) s2(4) True by (auto; metis)
    qed
    moreover have "if p_wchan (k_proc s z) = Some c then p_wchan (k_proc s' z) = None \<and> p_stat (k_proc s' z) = SRUN
          else p_wchan (k_proc s' z) = p_wchan (k_proc s z) \<and> p_stat (k_proc s' z) = p_stat (k_proc s z)" for z
      using IH(5)[rule_format, of z] s2(4)[of z] s2(5,6) True by (cases "z = y") auto
    ultimately show ?thesis
      using step IH(1,2) only_sched_trans[OF s2(3) IH(3)] by auto
  next
    case False
    have step: "wakeup_scan n setrun_awake c h (if pre = [] then None else Some (last pre)) (Some y) s =
        wakeup_scan m setrun_awake c h (if pre @ [y] = [] then None else Some (last (pre @ [y])))
          (case ys of [] \<Rightarrow> None | z # _ \<Rightarrow> Some z) s"
      using False n next_y by simp
    have "{z \<in> set (y # ys). p_wchan (k_proc s z) = Some c} = {z \<in> set ys. p_wchan (k_proc s z) = Some c}"
      using False by auto
    then show ?thesis
      using Cons.IH[of s R Q "pre @ [y]" m] Cons.prems False n step by simp
  qed
qed

lemma wakeup_spec:
  assumes ok: "queues_ok s R Q" and ro: "k_runout s = 0"
  shows "\<exists>s' R' Q'. wakeup c s = Inr s' \<and> queues_ok s' R' Q' \<and> only_sched s s' \<and>
    set R' = set R \<union> {y. p_wchan (k_proc s y) = Some c} \<and>
    (\<forall>y. if p_wchan (k_proc s y) = Some c then p_wchan (k_proc s' y) = None \<and> p_stat (k_proc s' y) = SRUN
      else p_wchan (k_proc s' y) = p_wchan (k_proc s y) \<and> p_stat (k_proc s' y) = p_stat (k_proc s y))"
proof -
  let ?h = "HASH s c"
  have start: "k_slpque s ?h = (case Q ?h of [] \<Rightarrow> None | y # _ \<Rightarrow> Some y)"
  proof -
    have "lchain (links s) (k_slpque s ?h) (Q ?h)" using ok by (simp add: queues_ok_def)
    then show ?thesis by (cases "Q ?h") simp_all
  qed
  have "length (Q ?h) < Suc NPROC"
    using queue_short[of "Q ?h"] ok by (auto simp add: queues_ok_def less_Suc_eq_le)
  then have sc: "\<exists>s' R' Q'. wakeup_scan (Suc NPROC) setrun_awake c ?h None (k_slpque s ?h) s = Inr s' \<and>
      queues_ok s' R' Q' \<and> only_sched s s' \<and> set R' = set R \<union> {y \<in> set (Q ?h). p_wchan (k_proc s y) = Some c} \<and>
      (\<forall>y. if p_wchan (k_proc s y) = Some c then p_wchan (k_proc s' y) = None \<and> p_stat (k_proc s' y) = SRUN
        else p_wchan (k_proc s' y) = p_wchan (k_proc s y) \<and> p_stat (k_proc s' y) = p_stat (k_proc s y))"
    using wakeup_scan_spec[OF ok, of ?h "[]" "Q ?h" c "Suc NPROC"] ro start by simp
  have "{y \<in> set (Q ?h). p_wchan (k_proc s y) = Some c} = {y. p_wchan (k_proc s y) = Some c}"
    using ok by (auto simp add: queues_ok_def)
  with sc show ?thesis unfolding wakeup_def wakeup_with_def by simp
qed

section \<open>Choosing the next process\<close>

definition candidate :: "kernel \<Rightarrow> nat \<Rightarrow> bool" where
  "candidate s x \<longleftrightarrow> p_stat (k_proc s x) = SRUN \<and> p_flag (k_proc s x) AND SLOAD \<noteq> 0 \<and> p_pri (k_proc s x) < 128"

text \<open>
  What \<open>swtch_scan\<close> has found when the rest \<open>ys\<close> of a queue \<open>xs\<close> remains: the first of the best candidates.
\<close>

definition best_so_far :: "kernel \<Rightarrow> nat list \<Rightarrow> nat option \<times> nat option \<times> int \<Rightarrow> bool" where
  "best_so_far s xs b \<longleftrightarrow>
    (case b of
       (None, pq, n) \<Rightarrow> n = 128 \<and> (\<forall>x \<in> set xs. \<not> candidate s x)
     | (Some p, pq, n) \<Rightarrow>
         n = p_pri (k_proc s p) \<and> candidate s p \<and>
         (\<exists>as bs. xs = as @ p # bs \<and> pq = (if as = [] then None else Some (last as)) \<and>
            (\<forall>x \<in> set as. candidate s x \<longrightarrow> p_pri (k_proc s p) < p_pri (k_proc s x)) \<and>
            (\<forall>x \<in> set bs. candidate s x \<longrightarrow> p_pri (k_proc s p) \<le> p_pri (k_proc s x))))"

lemma best_so_far_le:
  assumes "best_so_far s xs (pp, pq, n)" "x \<in> set xs" "candidate s x"
  shows "n \<le> p_pri (k_proc s x)"
proof (cases pp)
  case (Some p)
  then obtain as bs where "n = p_pri (k_proc s p)" "xs = as @ p # bs"
      "\<forall>x \<in> set as. candidate s x \<longrightarrow> p_pri (k_proc s p) < p_pri (k_proc s x)"
      "\<forall>x \<in> set bs. candidate s x \<longrightarrow> p_pri (k_proc s p) \<le> p_pri (k_proc s x)"
    using assms(1) by (auto simp add: best_so_far_def)
  with assms(2,3) show ?thesis by (auto intro: less_imp_le)
qed (use assms in \<open>auto simp add: best_so_far_def\<close>)

lemma swtch_scan_spec:
  assumes "lchain (links s) (case ys of [] \<Rightarrow> None | y # _ \<Rightarrow> Some y) ys" "length ys < fuel"
    "best_so_far s xs b"
  shows "best_so_far s (xs @ ys)
    (swtch_scan fuel s (case ys of [] \<Rightarrow> None | y # _ \<Rightarrow> Some y) (if xs = [] then None else Some (last xs)) b)"
  using assms
proof (induction ys arbitrary: fuel xs b)
  case Nil
  then show ?case by (cases fuel) simp_all
next
  case (Cons y ys)
  then obtain m where f: "fuel = Suc m" by (cases fuel) auto
  obtain pp pq n where b: "b = (pp, pq, n)" using prod_cases3 by blast
  have next_y: "p_link (k_proc s y) = (case ys of [] \<Rightarrow> None | z # _ \<Rightarrow> Some z)"
    "lchain (links s) (case ys of [] \<Rightarrow> None | z # _ \<Rightarrow> Some z) ys"
  proof -
    have c: "lchain (links s) (links s y) ys" using Cons.prems(1) by simp
    then show 1: "p_link (k_proc s y) = (case ys of [] \<Rightarrow> None | z # _ \<Rightarrow> Some z)"
      by (cases ys) (simp_all add: links_def)
    show "lchain (links s) (case ys of [] \<Rightarrow> None | z # _ \<Rightarrow> Some z) ys"
      using c 1 by (simp add: links_def)
  qed
  define b' where "b' = (if p_stat (k_proc s y) = SRUN \<and> p_flag (k_proc s y) AND SLOAD \<noteq> 0 \<and> p_pri (k_proc s y) < n
      then (Some y, if xs = [] then None else Some (last xs), p_pri (k_proc s y)) else (pp, pq, n))"
  have nle: "n \<le> 128" using Cons.prems(3) b by (auto simp add: best_so_far_def candidate_def split: option.splits)
  have "best_so_far s (xs @ [y]) b'"
  proof (cases "p_stat (k_proc s y) = SRUN \<and> p_flag (k_proc s y) AND SLOAD \<noteq> 0 \<and> p_pri (k_proc s y) < n")
    case True
    have "\<forall>x \<in> set xs. candidate s x \<longrightarrow> p_pri (k_proc s y) < p_pri (k_proc s x)"
      using True best_so_far_le[of s xs pp pq n] Cons.prems(3) b by (metis less_le_trans)
    then have "\<exists>as bs. xs @ [y] = as @ y # bs \<and>
        (if xs = [] then None else Some (last xs)) = (if as = [] then None else Some (last as)) \<and>
        (\<forall>x \<in> set as. candidate s x \<longrightarrow> p_pri (k_proc s y) < p_pri (k_proc s x)) \<and>
        (\<forall>x \<in> set bs. candidate s x \<longrightarrow> p_pri (k_proc s y) \<le> p_pri (k_proc s x))"
      by (intro exI[of _ xs] exI[of _ "[]"]) simp
    moreover have "b' = (Some y, if xs = [] then None else Some (last xs), p_pri (k_proc s y))"
      using True unfolding b'_def by (rule if_P)
    moreover have "candidate s y" using True nle by (simp add: candidate_def)
    ultimately show ?thesis by (simp add: best_so_far_def)
  next
    case False
    then have yn: "candidate s y \<Longrightarrow> n \<le> p_pri (k_proc s y)" by (auto simp add: candidate_def)
    have b': "b' = (pp, pq, n)" using False unfolding b'_def by (rule if_not_P)
    show ?thesis
    proof (cases pp)
      case None
      then have n: "n = 128" "\<forall>x \<in> set xs. \<not> candidate s x"
        using Cons.prems(3) b by (simp_all add: best_so_far_def)
      have "\<not> candidate s y" using yn n(1) by (auto simp add: candidate_def)
      then show ?thesis using None n b' by (auto simp add: best_so_far_def)
    next
      case (Some p)
      then obtain as bs where ab: "n = p_pri (k_proc s p)" "candidate s p" "xs = as @ p # bs"
          "pq = (if as = [] then None else Some (last as))"
          "\<forall>x \<in> set as. candidate s x \<longrightarrow> p_pri (k_proc s p) < p_pri (k_proc s x)"
          "\<forall>x \<in> set bs. candidate s x \<longrightarrow> p_pri (k_proc s p) \<le> p_pri (k_proc s x)"
        using Cons.prems(3) b by (auto simp add: best_so_far_def)
      have "\<forall>x \<in> set (bs @ [y]). candidate s x \<longrightarrow> p_pri (k_proc s p) \<le> p_pri (k_proc s x)"
        using ab(1,6) yn by auto
      moreover have "xs @ [y] = as @ p # (bs @ [y])" using ab(3) by simp
      ultimately have "\<exists>as bs. xs @ [y] = as @ p # bs \<and> pq = (if as = [] then None else Some (last as)) \<and>
          (\<forall>x \<in> set as. candidate s x \<longrightarrow> p_pri (k_proc s p) < p_pri (k_proc s x)) \<and>
          (\<forall>x \<in> set bs. candidate s x \<longrightarrow> p_pri (k_proc s p) \<le> p_pri (k_proc s x))"
        using ab(4,5) by (intro exI[of _ as] exI[of _ "bs @ [y]"] conjI) assumption+
      then show ?thesis using b' Some ab(1,2) by (simp add: best_so_far_def)
    qed
  qed
  from Cons.IH[OF next_y(2) _ this, of m] Cons.prems(2) f
  have "best_so_far s ((xs @ [y]) @ ys)
      (swtch_scan m s (case ys of [] \<Rightarrow> None | z # _ \<Rightarrow> Some z) (Some y) b')" by simp
  then show ?case using f b next_y(1) by (simp add: b'_def)
qed

lemma swtch_scan_queue:
  assumes "queues_ok s R Q"
  shows "best_so_far s R (swtch_scan (Suc NPROC) s (k_runq s) None (None, None, 128))"
proof -
  have "lchain (links s) (k_runq s) R" "length R < Suc NPROC"
    using assms queue_short[of R] by (auto simp add: queues_ok_def less_Suc_eq_le)
  moreover have "k_runq s = (case R of [] \<Rightarrow> None | y # _ \<Rightarrow> Some y)"
    using calculation(1) by (cases R) simp_all
  ultimately show ?thesis
    using swtch_scan_spec[of s R "Suc NPROC" "[]" "(None, None, 128)"] by (simp add: best_so_far_def)
qed

section \<open>Process ids\<close>

lemma pid_search_sound:
  "\<lbrakk>pid_search n busy m = Some p; 0 \<le> m; m < 30000\<rbrakk> \<Longrightarrow> \<not> busy p \<and> 1 \<le> p \<and> p < 30000"
  by (induction n arbitrary: m) (auto simp add: Let_def split: if_splits)

lemma pid_search_None:
  "\<lbrakk>pid_search n busy m = None; 0 \<le> m; m < 30000; i < n\<rbrakk> \<Longrightarrow> busy ((m + int i) mod 29999 + 1)"
proof (induction n arbitrary: m i)
  case (Suc n)
  define m' where "m' = (if m + 1 \<ge> 30000 then 1 else m + 1)"
  have m': "m' = m mod 29999 + 1"
  proof (cases "m = 29999")
    case False
    then have "m mod 29999 = m" using Suc.prems by simp
    then show ?thesis using False Suc.prems by (simp add: m'_def)
  qed (simp add: m'_def)
  have b: "busy m'" "pid_search n busy m' = None"
    using Suc.prems(1) by (auto simp add: m'_def Let_def split: if_splits)
  show ?case
  proof (cases i)
    case 0
    then show ?thesis using b(1) m' by simp
  next
    case (Suc j)
    have "0 \<le> m'" "m' < 30000" using Suc.prems by (auto simp add: m'_def)
    with Suc.IH[OF b(2), of j] Suc Suc.prems have "busy ((m' + int j) mod 29999 + 1)" by simp
    moreover have "(m' + int j) mod 29999 = (m + int i) mod 29999"
    proof -
      have "m' + int j = m mod 29999 + int i" using Suc m' by simp
      then show ?thesis by (simp add: mod_add_left_eq)
    qed
    ultimately show ?thesis by simp
  qed
qed simp

lemma pid_search_total:
  assumes "0 \<le> m" "m < 30000" "finite {p. busy p}" "card {p. busy p} < n" "n \<le> 29999"
  shows "pid_search n busy m \<noteq> None"
proof
  assume N: "pid_search n busy m = None"
  let ?f = "\<lambda>i. (m + int i) mod 29999 + 1"
  have sub: "?f ` {..< n} \<subseteq> {p. busy p}" using pid_search_None[OF N assms(1,2)] by auto
  have "inj_on ?f {..< n}"
  proof (rule inj_onI)
    fix i j
    assume ij: "i \<in> {..< n}" "j \<in> {..< n}" "?f i = ?f j"
    then have "(m + int i) mod 29999 = (m + int j) mod 29999" by simp
    then have "29999 dvd (int i - int j)" by (simp add: mod_eq_dvd_iff)
    moreover have "\<bar>int i - int j\<bar> < 29999" using ij(1,2) assms(5) by auto
    ultimately show "i = j" by (metis dvd_imp_le_int eq_iff_diff_eq_0 not_le of_nat_eq_iff abs_of_nonneg zero_le_numeral)
  qed
  then have "n = card (?f ` {..< n})" by (simp add: card_image)
  also have "\<dots> \<le> card {p. busy p}" using card_mono[OF assms(3) sub] .
  finally show False using assms(4) by simp
qed

lemma pid_busy_few: "finite {p. pid_busy s p}" "card {p. pid_busy s p} < 2 * NPROC + 1"
proof -
  let ?A = "(\<lambda>i. p_pid (k_proc s i)) ` {..< NPROC} \<union> (\<lambda>i. p_pgrp (k_proc s i)) ` {..< NPROC}"
  have eq: "{p. pid_busy s p} = ?A" by (auto simp add: pid_busy_def)
  have "card ?A \<le> card ((\<lambda>i. p_pid (k_proc s i)) ` {..< NPROC}) + card ((\<lambda>i. p_pgrp (k_proc s i)) ` {..< NPROC})"
    by (rule card_Un_le)
  also have "\<dots> \<le> NPROC + NPROC"
    using card_image_le[of "{..< NPROC}"] by (metis add_mono card_lessThan finite_lessThan)
  finally show "finite {p. pid_busy s p}" "card {p. pid_busy s p} < 2 * NPROC + 1"
    by (simp_all add: eq)
qed

lemma newproc_pid:
  assumes "0 \<le> k_mpid s" "k_mpid s < 30000"
  obtains pid where "pid_search (2 * NPROC + 1) (pid_busy s) (k_mpid s) = Some pid"
    "\<not> pid_busy s pid" "1 \<le> pid" "pid < 30000"
proof -
  have "pid_search (2 * NPROC + 1) (pid_busy s) (k_mpid s) \<noteq> None"
    using pid_search_total[OF assms pid_busy_few] by (simp add: NPROC_def)
  then obtain pid where p: "pid_search (2 * NPROC + 1) (pid_busy s) (k_mpid s) = Some pid" by blast
  with pid_search_sound[OF p assms] that show ?thesis by blast
qed

section \<open>The scheduler as a state machine\<close>

text \<open>A process that may run: loaded, and in a user page.\<close>

definition resident :: "proc \<Rightarrow> bool" where
  "resident p \<longleftrightarrow> p_flag p AND SLOAD \<noteq> 0 \<and> 0 < p_addr p \<and> p_addr p < EPOCH68_KERNEL_METADATA_PAGE"

text \<open>
  The invariant between scheduling steps: the queues are well-formed, process 0 and the current process are
  on none of them, and every live process other than process 0 is resident.
\<close>

definition idle_ok :: "kernel \<Rightarrow> nat list \<Rightarrow> (nat \<Rightarrow> nat list) \<Rightarrow> bool" where
  "idle_ok s R Q \<longleftrightarrow> queues_ok s R Q \<and> 0 \<notin> set R \<and> (\<forall>h. 0 \<notin> set (Q h)) \<and>
    p_stat (k_proc s 0) = SRUN \<and> p_wchan (k_proc s 0) = None \<and> k_runout s = 0 \<and>
    (\<forall>x. p_pri (k_proc s x) < 128) \<and>
    (\<forall>x. 0 < x \<and> p_stat (k_proc s x) \<noteq> SNULL \<and> p_stat (k_proc s x) \<noteq> SZOMB \<longrightarrow> resident (k_proc s x))"

definition cur_ok :: "kernel \<Rightarrow> nat list \<Rightarrow> (nat \<Rightarrow> nat list) \<Rightarrow> bool" where
  "cur_ok s R Q \<longleftrightarrow> procp s < NPROC \<and> k_uarrp s = procp s \<and> procp s \<notin> set R \<and> (\<forall>h. procp s \<notin> set (Q h)) \<and>
    p_stat (k_proc s (procp s)) = SRUN \<and> p_wchan (k_proc s (procp s)) = None"

definition sched_wf :: "kernel \<Rightarrow> bool" where
  "sched_wf s \<longleftrightarrow> (\<exists>R Q. idle_ok s R Q \<and> cur_ok s R Q) \<and> pages_inv (k_pages s) \<and>
    0 \<le> k_mpid s \<and> k_mpid s < 30000"

text \<open>Changing fields the queues do not mention.\<close>

lemma queues_ok_cong:
  assumes "queues_ok s R Q" "k_runq s' = k_runq s" "k_slpque s' = k_slpque s" "k_addr s' = k_addr s"
    "\<And>x. p_link (k_proc s' x) = p_link (k_proc s x)" "\<And>x. p_stat (k_proc s' x) = p_stat (k_proc s x)"
    "\<And>x. p_wchan (k_proc s' x) = p_wchan (k_proc s x)"
  shows "queues_ok s' R Q"
proof -
  have "links s' = links s" "HASH s' = HASH s" "sleeper s' = sleeper s"
    using assms by (auto simp add: links_def HASH_def sleeper_def fun_eq_iff)
  then show ?thesis using assms by (simp add: queues_ok_def)
qed

text \<open>Putting a process that is on no queue onto the run queue.\<close>

lemma queues_ok_push:
  assumes ok: "queues_ok s R Q" and x: "x \<notin> set R" "\<And>h. x \<notin> set (Q h)" "x < NPROC"
    and s': "k_proc s' = (k_proc s)(x := f (k_proc s x))" "p_link (f (k_proc s x)) = k_runq s"
      "p_stat (f (k_proc s x)) = SRUN" "p_wchan (f (k_proc s x)) = None"
      "k_runq s' = Some x" "k_slpque s' = k_slpque s" "k_addr s' = k_addr s"
  shows "queues_ok s' (x # R) Q"
proof -
  have lk: "links s' = (links s)(x := k_runq s)" using s'(1,2) by (auto simp add: links_def)
  have H: "HASH s' = HASH s" using s'(7) by (simp add: HASH_def fun_eq_iff)
  show ?thesis
    unfolding queues_ok_def
  proof (intro conjI)
    show "lchain (links s') (k_runq s') (x # R)" using ok x s'(5) by (simp add: queues_ok_def lk)
    show "\<forall>h. lchain (links s') (k_slpque s' h) (Q h) \<and> distinct (Q h)"
      using ok x s'(6) by (simp add: queues_ok_def lk)
    show "\<forall>h. set (x # R) \<inter> set (Q h) = {}" using ok x by (simp add: queues_ok_def)
    show "\<forall>h. \<forall>y \<in> set (Q h). y < NPROC \<and> (\<exists>c. sleeper s' y c \<and> HASH s' c = h)"
    proof (intro allI ballI)
      fix h y
      assume y: "y \<in> set (Q h)"
      then have "y \<noteq> x" using x(2) by blast
      then show "y < NPROC \<and> (\<exists>c. sleeper s' y c \<and> HASH s' c = h)"
        using ok y by (simp add: queues_ok_def sleeper_def s'(1) H)
    qed
    show "\<forall>y c. p_wchan (k_proc s' y) = Some c \<longrightarrow> y \<in> set (Q (HASH s' c))"
      using ok s'(1,4) by (auto simp add: queues_ok_def H)
  qed (use ok x s' in \<open>auto simp add: queues_ok_def\<close>)
qed

text \<open>Going to sleep.\<close>

lemma queues_ok_sleep:
  assumes ok: "queues_ok s R Q" and x: "procp s \<notin> set R" "\<And>h. procp s \<notin> set (Q h)" "procp s < NPROC"
  shows "queues_ok (sleep_enter c pri s) R (Q(HASH s c := procp s # Q (HASH s c)))"
proof -
  let ?x = "procp s" and ?h = "HASH s c" and ?s = "sleep_enter c pri s"
  have pr: "k_proc ?s = (k_proc s)(?x := (k_proc s ?x)\<lparr>p_stat := SSLEEP, p_wchan := Some c,
      p_pri := to_i8 pri, p_link := k_slpque s ?h\<rparr>)"
    and k: "k_runq ?s = k_runq s" "k_slpque ?s = (k_slpque s)(?h := Some ?x)" "k_addr ?s = k_addr s"
    by (simp_all add: sleep_enter_def Let_def)
  have lk: "links ?s = (links s)(?x := k_slpque s ?h)" by (auto simp add: links_def pr)
  have H: "HASH ?s = HASH s" by (simp add: HASH_def fun_eq_iff k)
  let ?Q = "Q(?h := ?x # Q ?h)"
  show ?thesis
    unfolding queues_ok_def
  proof (intro conjI)
    show "lchain (links ?s) (k_runq ?s) R" using ok x by (simp add: queues_ok_def lk k)
    show "\<forall>h. lchain (links ?s) (k_slpque ?s h) (?Q h) \<and> distinct (?Q h)"
      using ok x by (simp add: queues_ok_def lk k)
    show "\<forall>h. set R \<inter> set (?Q h) = {}" using ok x by (simp add: queues_ok_def)
    show "\<forall>h h'. h \<noteq> h' \<longrightarrow> set (?Q h) \<inter> set (?Q h') = {}" using ok x by (auto simp add: queues_ok_def)
    show "\<forall>y \<in> set R. y < NPROC \<and> p_stat (k_proc ?s y) = SRUN \<and> p_wchan (k_proc ?s y) = None"
      using ok x(1) by (auto simp add: queues_ok_def pr)
    show "\<forall>h. \<forall>y \<in> set (?Q h). y < NPROC \<and> (\<exists>c. sleeper ?s y c \<and> HASH ?s c = h)"
    proof (intro allI ballI)
      fix h y
      assume y: "y \<in> set (?Q h)"
      show "y < NPROC \<and> (\<exists>c. sleeper ?s y c \<and> HASH ?s c = h)"
      proof (cases "y = ?x")
        case True
        then have "h = ?h" using y x(2)[of h] by (auto split: if_splits)
        then show ?thesis using True x(3) by (auto simp add: sleeper_def pr H)
      next
        case False
        then have "y \<in> set (Q h)" using y by (auto split: if_splits)
        then show ?thesis using ok False by (simp add: queues_ok_def sleeper_def pr H)
      qed
    qed
    show "\<forall>y d. p_wchan (k_proc ?s y) = Some d \<longrightarrow> y \<in> set (?Q (HASH ?s d))"
    proof (intro allI impI)
      fix y d
      assume w: "p_wchan (k_proc ?s y) = Some d"
      show "y \<in> set (?Q (HASH ?s d))"
      proof (cases "y = ?x")
        case True
        then have "d = c" using w by (simp add: pr)
        then show ?thesis unfolding H using True by simp
      next
        case False
        then have "y \<in> set (Q (HASH s d))" using ok w by (simp add: queues_ok_def pr)
        then show ?thesis by (cases "HASH s d = ?h") (simp_all add: H)
      qed
    qed
  qed (use ok in \<open>auto simp add: queues_ok_def\<close>)
qed

text \<open>Taking the chosen process off the run queue.\<close>

definition runq_remove :: "nat list \<Rightarrow> nat \<Rightarrow> kernel \<Rightarrow> kernel" where
  "runq_remove as p s =
    (if as = [] then s\<lparr>k_runq := p_link (k_proc s p)\<rparr>
     else upd_proc (last as) (\<lambda>r. r\<lparr>p_link := p_link (k_proc s p)\<rparr>) s)"

lemma queues_ok_runq_remove:
  assumes ok: "queues_ok s (as @ p # bs) Q"
  shows "queues_ok (runq_remove as p s) (as @ bs) Q"
proof -
  let ?s = "runq_remove as p s"
  have pr: "k_proc ?s = (if as = [] then k_proc s
      else (k_proc s)(last as := (k_proc s (last as))\<lparr>p_link := p_link (k_proc s p)\<rparr>))"
    and k: "k_slpque ?s = k_slpque s" "k_addr ?s = k_addr s"
      "k_runq ?s = (if as = [] then p_link (k_proc s p) else k_runq s)"
    by (simp_all add: runq_remove_def)
  have same: "p_stat (k_proc ?s y) = p_stat (k_proc s y)" "p_wchan (k_proc ?s y) = p_wchan (k_proc s y)" for y
    by (simp_all add: pr)
  have H: "HASH ?s = HASH s" by (simp add: HASH_def fun_eq_iff k)
  have lk: "links ?s = (if as = [] then links s else (links s)(last as := links s p))"
    by (auto simp add: links_def pr fun_eq_iff)
  have c: "lchain (links s) (k_runq s) (as @ p # bs)" "distinct (as @ p # bs)"
    using ok by (simp_all add: queues_ok_def)
  have r: "lchain (links ?s) (k_runq ?s) (as @ bs)"
  proof (cases "as = []")
    case True
    then have e: "links ?s = links s" "k_runq ?s = links s p" using lk k(3) by (simp_all add: links_def)
    have "lchain (links s) (links s p) bs" using c(1) True by simp
    then show ?thesis unfolding e using True by simp
  next
    case False
    then show ?thesis using lchain_unlink[OF c False] by (simp add: lk k(3))
  qed
  have q: "lchain (links ?s) (k_slpque ?s h) (Q h)" for h
  proof -
    have "as \<noteq> [] \<Longrightarrow> last as \<notin> set (Q h)"
      using ok unfolding queues_ok_def by (metis Int_iff Un_iff empty_iff last_in_set set_append)
    then show ?thesis using ok by (simp add: queues_ok_def lk k)
  qed
  show ?thesis
    unfolding queues_ok_def same H
    using ok r q by (auto simp add: queues_ok_def sleeper_def same)
qed

lemma switch_to_ok:
  assumes "p = 0 \<or> (p_stat (k_proc s p) = SRUN \<and> resident (k_proc s p))"
  shows "\<exists>s'. switch_to p n s = Inr s' \<and> procp s' = p \<and> k_uarrp s' = p \<and> k_curpri s' = to_i8 n \<and>
    k_pages s' = k_pages s \<and> k_mpid s' = k_mpid s \<and>
    k_runq s' = k_runq s \<and> k_slpque s' = k_slpque s \<and> k_addr s' = k_addr s \<and> k_runout s' = k_runout s \<and>
    k_runrun s' = k_runrun s \<and>
    k_proc s' = (k_proc s)(p := (k_proc s p)\<lparr>p_flag := p_flag (k_proc s p) AND NOT SSWAP\<rparr>)"
  using assms by (auto simp add: switch_to_def resident_def Let_def procp_def u_def upd_u_def)

lemma sload_sswap [simp]: "(w AND NOT SSWAP) AND SLOAD = w AND SLOAD"
  by (rule flag_clear_other) (simp add: SLOAD_def SSWAP_def)

lemma resident_sswap [simp]: "resident (p\<lparr>p_flag := p_flag p AND NOT SSWAP\<rparr>) = resident p"
  by (simp add: resident_def)

text \<open>
  The processor changes hands without a panic: the process picked is the first of the best on the run queue,
  which loses exactly that process, or process 0 when the queue has none.
\<close>

lemma swtch_pick_ok:
  assumes inv: "idle_ok s R Q" and cur: "procp s < NPROC" "k_uarrp s = procp s"
    and c0: "procp s = 0 \<Longrightarrow> cur_ok s R Q"
  shows "\<exists>r s' R'. swtch_pick s = Inr (r, s') \<and> idle_ok s' R' Q \<and> cur_ok s' R' Q \<and> k_runrun s' = 0 \<and>
    k_pages s' = k_pages s \<and> k_mpid s' = k_mpid s \<and>
    (case r of
       None \<Rightarrow> procp s = 0 \<and> R' = R \<and> (\<forall>x \<in> set R. \<not> candidate s x)
     | Some p \<Rightarrow> procp s' = p \<and>
         (if p = 0 then procp s \<noteq> 0 \<and> R' = R \<and> (\<forall>x \<in> set R. \<not> candidate s x)
          else \<exists>as bs. R = as @ p # bs \<and> R' = as @ bs \<and> candidate s p \<and> k_curpri s' = to_i8 (p_pri (k_proc s p)) \<and>
            (\<forall>x \<in> set as. candidate s x \<longrightarrow> p_pri (k_proc s p) < p_pri (k_proc s x)) \<and>
            (\<forall>x \<in> set bs. candidate s x \<longrightarrow> p_pri (k_proc s p) \<le> p_pri (k_proc s x))))"
proof -
  let ?s = "s\<lparr>k_runrun := 0\<rparr>"
  have q0: "queues_ok s R Q" using inv by (simp add: idle_ok_def)
  have q: "queues_ok ?s R Q" by (rule queues_ok_cong[OF q0]) simp_all
  have cand: "candidate ?s x = candidate s x" for x by (simp add: candidate_def)
  have pc: "procp ?s = procp s" by (simp add: procp_def u_def)
  obtain pp pq n where scan: "swtch_scan (Suc NPROC) ?s (k_runq ?s) None (None, None, 128) = (pp, pq, n)"
    using prod_cases3 by blast
  have best: "best_so_far ?s R (pp, pq, n)" using swtch_scan_queue[OF q] scan by simp
  have pick: "swtch_pick s = (case pp of
      None \<Rightarrow> if procp s = 0 then Inr (None, ?s)
        else (case switch_to 0 PUSER ?s of Inl m \<Rightarrow> Inl m | Inr t \<Rightarrow> Inr (Some 0, t))
    | Some p \<Rightarrow> (case switch_to p n (case pq of None \<Rightarrow> ?s\<lparr>k_runq := p_link (k_proc ?s p)\<rparr>
          | Some q \<Rightarrow> upd_proc q (\<lambda>r. r\<lparr>p_link := p_link (k_proc ?s p)\<rparr>) ?s) of
        Inl m \<Rightarrow> Inl m | Inr t \<Rightarrow> Inr (Some p, t)))"
    unfolding swtch_pick_def Let_def scan pc by simp
  show ?thesis
  proof (cases pp)
    case None
    then have none: "\<forall>x \<in> set R. \<not> candidate s x" using best by (simp add: best_so_far_def cand)
    show ?thesis
    proof (cases "procp s = 0")
      case True
      have "idle_ok ?s R Q" using inv q by (simp add: idle_ok_def)
      moreover have "cur_ok ?s R Q" using c0[OF True] by (simp add: cur_ok_def pc)
      ultimately show ?thesis using pick None True none by auto
    next
      case False
      obtain t where t: "switch_to 0 PUSER ?s = Inr t" "procp t = 0" "k_uarrp t = 0"
          "k_pages t = k_pages s" "k_mpid t = k_mpid s"
          "k_runq t = k_runq s" "k_slpque t = k_slpque s" "k_addr t = k_addr s" "k_runout t = k_runout s"
          "k_runrun t = 0"
          "k_proc t = (k_proc s)(0 := (k_proc s 0)\<lparr>p_flag := p_flag (k_proc s 0) AND NOT SSWAP\<rparr>)"
        using switch_to_ok[of 0 ?s PUSER] by auto
      have tq: "queues_ok t R Q"
        using t by (intro queues_ok_cong[OF q0]) simp_all
      have "idle_ok t R Q" using inv t tq by (auto simp add: idle_ok_def)
      moreover have "cur_ok t R Q" using inv t by (auto simp add: cur_ok_def idle_ok_def NPROC_def)
      ultimately show ?thesis using pick None False none t(1,2,4,5,10) by auto
    qed
  next
    case (Some p)
    then obtain as bs where ab: "n = p_pri (k_proc s p)" "candidate s p" "R = as @ p # bs"
        "pq = (if as = [] then None else Some (last as))"
        "\<forall>x \<in> set as. candidate s x \<longrightarrow> p_pri (k_proc s p) < p_pri (k_proc s x)"
        "\<forall>x \<in> set bs. candidate s x \<longrightarrow> p_pri (k_proc s p) \<le> p_pri (k_proc s x)"
      using best by (auto simp add: best_so_far_def cand)
    let ?t = "runq_remove as p ?s"
    have rm: "(case pq of None \<Rightarrow> ?s\<lparr>k_runq := p_link (k_proc ?s p)\<rparr>
          | Some q \<Rightarrow> upd_proc q (\<lambda>r. r\<lparr>p_link := p_link (k_proc ?s p)\<rparr>) ?s) = ?t"
      by (simp add: ab(4) runq_remove_def)
    have tq: "queues_ok ?t (as @ bs) Q" using queues_ok_runq_remove[of ?s as p bs Q] q ab(3) by simp
    have tp: "\<exists>l. k_proc ?t x = (k_proc s x)\<lparr>p_link := l\<rparr>" for x
      by (auto simp add: runq_remove_def) (metis proc.surjective proc.update_convs(16))+
    have tk: "k_runout ?t = k_runout s" "k_addr ?t = k_addr s" "k_runrun ?t = 0"
      "k_pages ?t = k_pages s" "k_mpid ?t = k_mpid s"
      by (simp_all add: runq_remove_def)
    have p0: "p \<noteq> 0" "p < NPROC" using inv ab(3) by (auto simp add: idle_ok_def queues_ok_def)
    have same: "p_stat (k_proc ?t x) = p_stat (k_proc s x)" "p_wchan (k_proc ?t x) = p_wchan (k_proc s x)"
      "resident (k_proc ?t x) = resident (k_proc s x)" "p_pri (k_proc ?t x) = p_pri (k_proc s x)" for x
      using tp[of x] by (auto simp add: resident_def)
    have "p_stat (k_proc ?t p) = SRUN \<and> resident (k_proc ?t p)"
      using inv ab(2) p0 by (auto simp add: same idle_ok_def candidate_def)
    then obtain t where t: "switch_to p n ?t = Inr t" "procp t = p" "k_uarrp t = p" "k_curpri t = to_i8 n"
        "k_pages t = k_pages ?t" "k_mpid t = k_mpid ?t"
        "k_runq t = k_runq ?t" "k_slpque t = k_slpque ?t" "k_addr t = k_addr ?t" "k_runout t = k_runout ?t"
        "k_runrun t = k_runrun ?t"
        "k_proc t = (k_proc ?t)(p := (k_proc ?t p)\<lparr>p_flag := p_flag (k_proc ?t p) AND NOT SSWAP\<rparr>)"
      using switch_to_ok[of p ?t n] by auto
    have q': "queues_ok t (as @ bs) Q"
      using t by (intro queues_ok_cong[OF tq]) auto
    have res: "resident (k_proc t x) = resident (k_proc s x)" for x by (simp add: t(12) same)
    have "idle_ok t (as @ bs) Q"
      using inv q' t(10,12) tk same res ab(3) p0 by (auto simp add: idle_ok_def)
    moreover have "cur_ok t (as @ bs) Q"
      using inv t(2,3,12) ab(2,3) p0 same
      by (auto simp add: cur_ok_def idle_ok_def queues_ok_def candidate_def)
    ultimately show ?thesis
      using pick Some rm t(1,2,4,5,6,11) tk ab p0 by auto
  qed
qed

subsection \<open>Preservation\<close>

lemma to_i8_lt: "to_i8 x < 128"
  using signed_take_bit_int_less_exp[of 7 x] by (simp add: to_i8_def)

lemma sleep_enter_idle:
  assumes "idle_ok s R Q" "cur_ok s R Q" "procp s \<noteq> 0"
  shows "idle_ok (sleep_enter c pri s) R (Q(HASH s c := procp s # Q (HASH s c)))"
    "procp (sleep_enter c pri s) = procp s" "k_uarrp (sleep_enter c pri s) = k_uarrp s"
    "k_pages (sleep_enter c pri s) = k_pages s" "k_mpid (sleep_enter c pri s) = k_mpid s"
proof -
  have "queues_ok (sleep_enter c pri s) R (Q(HASH s c := procp s # Q (HASH s c)))"
    using assms by (intro queues_ok_sleep) (auto simp add: idle_ok_def cur_ok_def)
  then show "idle_ok (sleep_enter c pri s) R (Q(HASH s c := procp s # Q (HASH s c)))"
    using assms to_i8_lt by (auto simp add: idle_ok_def cur_ok_def sleep_enter_def Let_def resident_def)
qed (simp_all add: sleep_enter_def Let_def procp_def u_def)

lemma setrq_push:
  assumes "queues_ok s R Q" "x \<notin> set R"
  shows "setrq x s = (upd_proc x (\<lambda>q. q\<lparr>p_link := k_runq s\<rparr>) s)\<lparr>k_runq := Some x\<rparr>"
proof -
  have "lchain (links s) (k_runq s) R" "length R < Suc NPROC"
    using assms queue_short[of R] by (auto simp add: queues_ok_def less_Suc_eq_le)
  then show ?thesis using on_queue_iff[of s "k_runq s" R "Suc NPROC" x] assms(2) by (simp add: setrq_def)
qed

lemma setrq_idle:
  assumes "idle_ok s R Q" "cur_ok s R Q" "procp s \<noteq> 0"
  shows "idle_ok (setrq (procp s) s) (procp s # R) Q"
    "procp (setrq (procp s) s) = procp s" "k_uarrp (setrq (procp s) s) = k_uarrp s"
    "k_pages (setrq (procp s) s) = k_pages s" "k_mpid (setrq (procp s) s) = k_mpid s"
proof -
  let ?x = "procp s"
  have eq: "setrq ?x s = (upd_proc ?x (\<lambda>q. q\<lparr>p_link := k_runq s\<rparr>) s)\<lparr>k_runq := Some ?x\<rparr>"
    using assms by (intro setrq_push) (auto simp add: idle_ok_def cur_ok_def)
  have "queues_ok (setrq ?x s) (?x # R) Q"
    unfolding eq using assms
    by (intro queues_ok_push[where f = "\<lambda>q. q\<lparr>p_link := k_runq s\<rparr>" and s = s])
      (auto simp add: idle_ok_def cur_ok_def)
  then show "idle_ok (setrq ?x s) (?x # R) Q"
    using assms by (auto simp add: idle_ok_def eq resident_def)
qed (use assms in \<open>simp_all add: setrq_def procp_def u_def\<close>)

lemma wakeup_idle:
  assumes inv: "idle_ok s R Q" and cur: "cur_ok s R Q"
  shows "\<exists>s' R' Q'. wakeup c s = Inr s' \<and> idle_ok s' R' Q' \<and> cur_ok s' R' Q' \<and> only_sched s s' \<and>
    set R' = set R \<union> {y. p_wchan (k_proc s y) = Some c} \<and>
    (\<forall>y. if p_wchan (k_proc s y) = Some c then p_wchan (k_proc s' y) = None \<and> p_stat (k_proc s' y) = SRUN
      else p_wchan (k_proc s' y) = p_wchan (k_proc s y) \<and> p_stat (k_proc s' y) = p_stat (k_proc s y))"
proof -
  have q: "queues_ok s R Q" "k_runout s = 0" using inv by (simp_all add: idle_ok_def)
  obtain s' R' Q' where w: "wakeup c s = Inr s'" "queues_ok s' R' Q'" "only_sched s s'"
      "set R' = set R \<union> {y. p_wchan (k_proc s y) = Some c}"
      "\<forall>y. if p_wchan (k_proc s y) = Some c then p_wchan (k_proc s' y) = None \<and> p_stat (k_proc s' y) = SRUN
        else p_wchan (k_proc s' y) = p_wchan (k_proc s y) \<and> p_stat (k_proc s' y) = p_stat (k_proc s y)"
    using wakeup_spec[OF q] by blast
  note k = only_sched_kernel[OF w(3)]
  have same: "resident (k_proc s' y) = resident (k_proc s y)" "p_pri (k_proc s' y) = p_pri (k_proc s y)" for y
  proof -
    obtain l wc st where "k_proc s' y = (k_proc s y)\<lparr>p_link := l, p_wchan := wc, p_stat := st\<rparr>"
      using w(3) unfolding only_sched_def by blast
    then show "resident (k_proc s' y) = resident (k_proc s y)" "p_pri (k_proc s' y) = p_pri (k_proc s y)"
      by (simp_all add: resident_def)
  qed
  have sl: "p_stat (k_proc s y) = SSLEEP" if "p_wchan (k_proc s y) = Some c" for y
    using q(1) that unfolding queues_ok_def sleeper_def by blast
  have notq: "p_wchan (k_proc s' y) = None \<Longrightarrow> y \<notin> set (Q' h)" for y h
    using w(2) unfolding queues_ok_def sleeper_def by fastforce
  have zero: "p_wchan (k_proc s' 0) = None" "p_stat (k_proc s' 0) = SRUN"
    using w(5)[rule_format, of 0] inv by (auto simp add: idle_ok_def split: if_splits)
  have cu: "p_wchan (k_proc s' (procp s)) = None" "p_stat (k_proc s' (procp s)) = SRUN"
    using w(5)[rule_format, of "procp s"] cur by (auto simp add: cur_ok_def split: if_splits)
  have "idle_ok s' R' Q'"
    unfolding idle_ok_def
  proof (intro conjI allI impI)
    show "0 \<notin> set R'" using w(4) inv by (auto simp add: idle_ok_def)
    fix x
    assume x: "0 < x \<and> p_stat (k_proc s' x) \<noteq> SNULL \<and> p_stat (k_proc s' x) \<noteq> SZOMB"
    then have "p_stat (k_proc s x) \<noteq> SNULL \<and> p_stat (k_proc s x) \<noteq> SZOMB"
      using w(5)[rule_format, of x] sl[of x] by (auto split: if_splits)
    then show "resident (k_proc s' x)" using inv x by (simp add: same idle_ok_def)
  qed (use w(2) zero notq k(3) q(2) inv same in \<open>auto simp add: idle_ok_def\<close>)
  moreover have "cur_ok s' R' Q'"
    using cur k cu notq w(4) by (auto simp add: cur_ok_def)
  ultimately show ?thesis using w by blast
qed

lemma fold_keeps: "(\<And>x s. g (f x s) = g s) \<Longrightarrow> g (fold f xs s) = g s"
  by (induction xs arbitrary: s) simp_all

lemma newproc_refs_fields:
  "k_proc (newproc_refs p s) = k_proc s" "k_uarea (newproc_refs p s) = k_uarea s"
  "k_uarrp (newproc_refs p s) = k_uarrp s" "k_runq (newproc_refs p s) = k_runq s"
  "k_slpque (newproc_refs p s) = k_slpque s" "k_addr (newproc_refs p s) = k_addr s"
  "k_runout (newproc_refs p s) = k_runout s" "k_pages (newproc_refs p s) = k_pages s"
  "k_mpid (newproc_refs p s) = k_mpid s" "k_mem (newproc_refs p s) = k_mem s"
  "k_time (newproc_refs p s) = k_time s"
  by (simp_all add: newproc_refs_def Let_def fold_keeps split: option.split)

text \<open>The entries no queue can hold.\<close>

lemma free_not_queued:
  assumes "queues_ok s R Q" "p_stat (k_proc s x) = SNULL"
  shows "x \<notin> set R" "x \<notin> set (Q h)" "p_wchan (k_proc s x) = None"
proof -
  show R: "x \<notin> set R" using assms by (auto simp add: queues_ok_def)
  show q: "x \<notin> set (Q h)" for h
    using assms unfolding queues_ok_def sleeper_def by fastforce
  show "p_wchan (k_proc s x) = None"
    using assms(1) q unfolding queues_ok_def by (metis not_Some_eq)
qed

lemma queues_ok_free:
  assumes ok: "queues_ok s R Q" and x: "p_stat (k_proc s x) = SNULL" "p_wchan p = None"
    and s': "k_proc s' = (k_proc s)(x := p)" "k_runq s' = k_runq s" "k_slpque s' = k_slpque s" "k_addr s' = k_addr s"
  shows "queues_ok s' R Q"
proof -
  note fr = free_not_queued[OF ok x(1)]
  have lk: "links s' = (links s)(x := p_link p)" using s'(1) by (auto simp add: links_def)
  have H: "HASH s' = HASH s" using s'(4) by (simp add: HASH_def fun_eq_iff)
  show ?thesis
    unfolding queues_ok_def
  proof (intro conjI)
    show "\<forall>h. lchain (links s') (k_slpque s' h) (Q h) \<and> distinct (Q h)"
      using ok fr s' by (simp add: queues_ok_def lk)
    show "\<forall>h. \<forall>y \<in> set (Q h). y < NPROC \<and> (\<exists>c. sleeper s' y c \<and> HASH s' c = h)"
    proof (intro allI ballI)
      fix h y
      assume y: "y \<in> set (Q h)"
      then have "y \<noteq> x" using fr(2) by blast
      then show "y < NPROC \<and> (\<exists>c. sleeper s' y c \<and> HASH s' c = h)"
        using ok y by (simp add: queues_ok_def sleeper_def s'(1) H)
    qed
  qed (use ok fr s' x in \<open>auto simp add: queues_ok_def lk H\<close>)
qed

text \<open>What \<open>newproc\<close> does when there is a free entry: a process in the entry \<open>c\<close>, or \<open>ENOMEM\<close>.\<close>

definition forked :: "nat \<Rightarrow> kernel \<Rightarrow> nat \<Rightarrow> kernel \<Rightarrow> bool" where
  "forked parent s c s' \<longleftrightarrow>
    (let p = k_proc s' c; page = p_addr p
     in p_stat p = SRUN \<and> on_queue (Suc NPROC) s' (k_runq s') c \<and> p_ppid p = p_pid (k_proc s parent) \<and> p_uid p = p_uid (k_proc s parent) \<and>
        p_pgrp p = p_pgrp (k_proc s parent) \<and> p_sig p = 0 \<and>
        1 \<le> p_pid p \<and> p_pid p < 30000 \<and> \<not> pid_busy s (p_pid p) \<and>
        1 \<le> page \<and> page \<le> 62 \<and> \<not> epoch68_userpage_owned (k_pages s) page \<and>
        epoch68_userpage_owned (k_pages s') = (epoch68_userpage_owned (k_pages s))(page := True) \<and>
        k_mem s' = (k_mem s)(page := k_mem s (p_addr (k_proc s parent))) \<and>
        r_val1 (k_uarea s' c) = 0 \<and> u_procp (k_uarea s' c) = c \<and>
        (\<forall>x. x \<noteq> c \<longrightarrow> k_proc s' x = k_proc s x \<and> k_uarea s' x = k_uarea s x))"

lemma newproc_success:
  assumes inv: "idle_ok s R Q" and cur: "cur_ok s R Q"
    and c: "p_stat (k_proc s c) = SNULL" "c < NPROC"
    and pid: "\<not> pid_busy s pid" "1 \<le> pid" "pid < 30000"
    and page: "1 \<le> page" "page \<le> 62" "\<not> epoch68_userpage_owned (k_pages s) page" "pages_inv pages"
      "epoch68_userpage_owned pages = (epoch68_userpage_owned (k_pages s))(page := True)"
    and s1: "s1 = newproc_refs (procp s) (upd_proc c (\<lambda>p. p\<lparr>p_addr := to_i16 page\<rparr>)
        ((upd_proc c (newproc_entry (k_proc s (procp s)) pid) (s\<lparr>k_mpid := pid\<rparr>))\<lparr>k_pages := pages\<rparr>))"
    and s2: "s2 = s1\<lparr>k_uarea := (k_uarea s1)(c := child_user s1 (procp s) c),
        k_mem := (k_mem s1)(p_addr (k_proc s1 c) := k_mem s1 (p_addr (k_proc s (procp s))))\<rparr>"
    and s3: "s3 = setrq c (upd_proc c (\<lambda>p. p\<lparr>p_stat := SRUN\<rparr>) s2)"
  shows "idle_ok s3 (c # R) Q" "cur_ok s3 (c # R) Q" "pages_inv (k_pages s3)" "k_mpid s3 = pid"
    "forked (procp s) s c s3" "procp s3 = procp s"
proof -
  have q: "queues_ok s R Q" using inv by (simp add: idle_ok_def)
  note fr = free_not_queued[OF q c(1)]
  have "p_stat (k_proc s (procp s)) \<noteq> p_stat (k_proc s c)" "p_stat (k_proc s 0) \<noteq> p_stat (k_proc s c)"
    using cur inv c(1) by (simp_all add: cur_ok_def idle_ok_def)
  then have ne: "procp s \<noteq> c" "c \<noteq> 0" by metis+
  have pg: "to_i16 page = page" using page by (intro to_i16_id) auto
  let ?e = "(newproc_entry (k_proc s (procp s)) pid (k_proc s c))\<lparr>p_addr := page\<rparr>"
  have pr2: "k_proc s2 = (k_proc s)(c := ?e)"
    by (simp add: s2 s1 newproc_refs_fields pg)
  have k2: "k_runq s2 = k_runq s" "k_slpque s2 = k_slpque s" "k_addr s2 = k_addr s" "k_runout s2 = k_runout s"
    "k_uarrp s2 = k_uarrp s" "k_pages s2 = pages" "k_mpid s2 = pid"
    "k_uarea s2 = (k_uarea s)(c := child_user s1 (procp s) c)"
    "k_mem s2 = (k_mem s)(page := k_mem s (p_addr (k_proc s (procp s))))"
    by (simp_all add: s2 s1 newproc_refs_fields pg)
  let ?t = "upd_proc c (\<lambda>p. p\<lparr>p_stat := SRUN\<rparr>) s2"
  have tq: "queues_ok ?t R Q"
    by (rule queues_ok_free[OF q c(1)]) (simp_all add: pr2 k2 newproc_entry_def)
  have s3': "s3 = (upd_proc c (\<lambda>q. q\<lparr>p_link := k_runq s\<rparr>) ?t)\<lparr>k_runq := Some c\<rparr>"
    unfolding s3 using setrq_push[OF tq fr(1)] by (simp add: k2)
  have q3: "queues_ok s3 (c # R) Q"
    unfolding s3' by (rule queues_ok_push[OF tq fr(1,2) c(2), where f = "\<lambda>q. q\<lparr>p_link := k_runq s\<rparr>"])
      (simp_all add: k2 pr2 newproc_entry_def)
  have pr3: "k_proc s3 = (k_proc s)(c := ?e\<lparr>p_stat := SRUN, p_link := k_runq s\<rparr>)"
    by (simp add: s3' pr2)
  have k3: "k_runout s3 = k_runout s" "k_pages s3 = pages" "k_mpid s3 = pid"
    "k_uarea s3 = (k_uarea s)(c := child_user s1 (procp s) c)"
    "k_mem s3 = (k_mem s)(page := k_mem s (p_addr (k_proc s (procp s))))"
    by (simp_all add: s3' k2)
  have u3: "procp s3 = procp s" "k_uarrp s3 = k_uarrp s"
    using ne cur by (simp_all add: procp_def u_def s3' k2 cur_ok_def)
  have "resident (k_proc s3 c)"
    using page by (simp add: pr3 resident_def newproc_entry_def SLOAD_def EPOCH68_KERNEL_METADATA_PAGE_def)
  then show "idle_ok s3 (c # R) Q"
    using inv q3 ne fr by (auto simp add: idle_ok_def pr3 k3 newproc_entry_def)
  show "procp s3 = procp s" by (rule u3(1))
  show "cur_ok s3 (c # R) Q"
    using cur u3 ne by (auto simp add: cur_ok_def pr3)
  show "pages_inv (k_pages s3)" "k_mpid s3 = pid" using page by (simp_all add: k3)
  have "on_queue (Suc NPROC) s3 (k_runq s3) c"
    using q3 queue_short[of "c # R"] by (subst on_queue_iff[of s3 "k_runq s3" "c # R"]) (auto simp add: queues_ok_def less_Suc_eq_le)
  then show "forked (procp s) s c s3"
    using page pid ne by (simp add: forked_def pr3 k3 newproc_entry_def child_user_def Let_def)
qed

text \<open>
  Without a page the entry is empty again, apart from the fields of a zombie that only \<open>exit\<close> sets; what remains is the
  error and the advanced \<open>mpid\<close>.
\<close>

definition fork_failed :: "kernel \<Rightarrow> nat \<Rightarrow> kernel \<Rightarrow> bool" where
  "fork_failed s c s' \<longleftrightarrow>
    (let e = k_proc s c
     in s' = set_error ENOMEM (s\<lparr>k_mpid := k_mpid s', k_pages := k_pages s',
          k_proc := (k_proc s)(c := proc0\<lparr>xp_xstat := xp_xstat e, xp_utime := xp_utime e, xp_stime := xp_stime e\<rparr>)\<rparr>)) \<and>
    epoch68_userpage_owned (k_pages s') = epoch68_userpage_owned (k_pages s)"

lemma newproc_undo_blank:
  "newproc_undo (newproc_entry p pid e) = proc0\<lparr>xp_xstat := xp_xstat e, xp_utime := xp_utime e, xp_stime := xp_stime e\<rparr>"
  by (simp add: newproc_undo_def newproc_entry_def proc0_def)

lemma newproc_queues:
  assumes wf: "sched_wf s" and inv: "idle_ok s R Q" and cur: "cur_ok s R Q"
    and c: "first_index NPROC (\<lambda>i. p_stat (k_proc s i) = SNULL) = Some c"
  shows "\<exists>s'. newproc (procp s) s = Inr s' \<and> sched_wf s' \<and> procp s' = procp s \<and>
    (if \<exists>p. 1 \<le> p \<and> p \<le> 62 \<and> \<not> epoch68_userpage_owned (k_pages s) p
     then forked (procp s) s c s' \<and> idle_ok s' (c # R) Q \<and> cur_ok s' (c # R) Q
     else fork_failed s c s' \<and> idle_ok s' R Q \<and> cur_ok s' R Q)"
proof -
  have mp: "0 \<le> k_mpid s" "k_mpid s < 30000" and pg: "pages_inv (k_pages s)"
    using wf by (simp_all add: sched_wf_def)
  have c': "c < NPROC" "p_stat (k_proc s c) = SNULL" using c by (auto simp add: first_index_Some)
  obtain pid where pid: "pid_search (2 * NPROC + 1) (pid_busy s) (k_mpid s) = Some pid"
    "\<not> pid_busy s pid" "1 \<le> pid" "pid < 30000" using newproc_pid[OF mp] .
  obtain page pages where al: "userpage_alloc (k_pages s) = Inr (page, pages)" "pages_inv pages"
      "page = 0 \<and> (\<forall>p. 1 \<le> p \<and> p \<le> 62 \<longrightarrow> epoch68_userpage_owned (k_pages s) p) \<and>
         epoch68_userpage_owned pages = epoch68_userpage_owned (k_pages s) \<or>
       1 \<le> page \<and> page \<le> 62 \<and> \<not> epoch68_userpage_owned (k_pages s) page \<and>
         epoch68_userpage_owned pages = (epoch68_userpage_owned (k_pages s))(page := True)"
    using userpage_alloc_inv[OF pg] by blast
  define s0 where "s0 = (upd_proc c (newproc_entry (k_proc s (procp s)) pid) (s\<lparr>k_mpid := pid\<rparr>))\<lparr>k_pages := pages\<rparr>"
  show ?thesis
  proof (cases "page = 0")
    case True
    have full: "\<not> (\<exists>p. 1 \<le> p \<and> p \<le> 62 \<and> \<not> epoch68_userpage_owned (k_pages s) p)" using al(3) True by auto
    define t where "t = set_error ENOMEM (upd_proc c newproc_undo s0)"
    have np: "newproc (procp s) s = Inr t"
      using pid(1) c al(1) True by (simp add: newproc_def t_def s0_def Let_def)
    have pr: "k_proc t = (k_proc s)(c := newproc_undo (newproc_entry (k_proc s (procp s)) pid (k_proc s c)))"
      by (simp add: t_def s0_def)
    have k: "k_runq t = k_runq s" "k_slpque t = k_slpque s" "k_addr t = k_addr s"
      "k_runout t = k_runout s" "k_pages t = pages" "k_mpid t = pid" "k_uarrp t = k_uarrp s"
      "procp t = procp s"
      by (simp_all add: t_def s0_def)
    have q: "queues_ok t R Q"
    proof -
      have q0: "queues_ok s R Q" using inv by (simp add: idle_ok_def)
      show ?thesis
        by (rule queues_ok_free[OF q0 c'(2) _ pr]) (simp_all add: k newproc_undo_def)
    qed
    have "p_stat (k_proc s (procp s)) \<noteq> p_stat (k_proc s c)" "p_stat (k_proc s 0) \<noteq> p_stat (k_proc s c)"
      using cur inv c'(2) by (simp_all add: cur_ok_def idle_ok_def)
    then have ne: "procp s \<noteq> c" "c \<noteq> 0" by metis+
    have "idle_ok t R Q" using inv q ne by (auto simp add: idle_ok_def pr k newproc_undo_def)
    moreover have "cur_ok t R Q" using cur ne by (simp add: cur_ok_def pr k)
    moreover have "sched_wf t" using calculation al(2) pid k(5,6) by (auto simp add: sched_wf_def)
    moreover have "fork_failed s c t"
      using al(3) True by (simp add: fork_failed_def t_def s0_def newproc_undo_blank set_error_def upd_proc_def upd_u_def Let_def)
    ultimately show ?thesis using np full k(8) by auto
  next
    case False
    have some: "\<exists>p. 1 \<le> p \<and> p \<le> 62 \<and> \<not> epoch68_userpage_owned (k_pages s) p" using al(3) False by auto
    define s1 where "s1 = newproc_refs (procp s) (upd_proc c (\<lambda>p. p\<lparr>p_addr := to_i16 page\<rparr>) s0)"
    define s2 where "s2 = s1\<lparr>k_uarea := (k_uarea s1)(c := child_user s1 (procp s) c),
        k_mem := (k_mem s1)(p_addr (k_proc s1 c) := k_mem s1 (p_addr (k_proc s (procp s))))\<rparr>"
    define s3 where "s3 = setrq c (upd_proc c (\<lambda>p. p\<lparr>p_stat := SRUN\<rparr>) s2)"
    have ne: "procp s \<noteq> c" using cur c'(2) by (auto simp add: cur_ok_def)
    have np: "newproc (procp s) s = Inr s3"
      using pid(1) c al(1) False ne by (simp add: newproc_def s0_def s1_def s2_def s3_def Let_def)
    have res: "idle_ok s3 (c # R) Q" "cur_ok s3 (c # R) Q" "pages_inv (k_pages s3)" "k_mpid s3 = pid"
      "forked (procp s) s c s3" "procp s3 = procp s"
      using newproc_success[OF inv cur c'(2,1) pid(2-4) _ _ _ al(2) _ s1_def[unfolded s0_def] s2_def s3_def]
        al(3) False by blast+
    then have "sched_wf s3" using pid(3,4) by (auto simp add: sched_wf_def)
    then show ?thesis using np some res by auto
  qed
qed

lemma newproc_spec:
  assumes "sched_wf s" "first_index NPROC (\<lambda>i. p_stat (k_proc s i) = SNULL) = Some c"
  shows "\<exists>s'. newproc (procp s) s = Inr s' \<and> sched_wf s' \<and>
    (if \<exists>p. 1 \<le> p \<and> p \<le> 62 \<and> \<not> epoch68_userpage_owned (k_pages s) p then forked (procp s) s c s' else fork_failed s c s')"
proof -
  obtain R Q where "idle_ok s R Q" "cur_ok s R Q" using assms(1) by (auto simp add: sched_wf_def)
  from newproc_queues[OF assms(1) this assms(2)] show ?thesis by (metis (no_types, lifting))
qed

text \<open>The steps that move processes between the queues and the processor.\<close>

inductive sched_step :: "kernel \<Rightarrow> kernel \<Rightarrow> bool" where
  step_sleep: "\<lbrakk>procp s \<noteq> 0; swtch_pick (sleep_enter c pri s) = Inr (r, s')\<rbrakk> \<Longrightarrow> sched_step s s'"
| step_qswtch: "\<lbrakk>procp s \<noteq> 0; swtch_pick (setrq (procp s) s) = Inr (r, s')\<rbrakk> \<Longrightarrow> sched_step s s'"
| step_idle: "\<lbrakk>procp s = 0; swtch_pick s = Inr (r, s')\<rbrakk> \<Longrightarrow> sched_step s s'"
| step_wakeup: "wakeup c s = Inr s' \<Longrightarrow> sched_step s s'"
| step_newproc: "\<lbrakk>first_index NPROC (\<lambda>i. p_stat (k_proc s i) = SNULL) \<noteq> None;
    newproc (procp s) s = Inr s'\<rbrakk> \<Longrightarrow> sched_step s s'"

inductive_simps sched_step_iff: "sched_step s s'"

text \<open>
  The queues hold exactly the processes that they should: every runnable process apart from process 0 and the current one waits on the run
  queue, and every sleeping process on the sleep queue of its channel.
\<close>

definition queues_exact :: "kernel \<Rightarrow> bool" where
  "queues_exact s \<longleftrightarrow>
    (\<forall>x. on_queue (Suc NPROC) s (k_runq s) x \<longleftrightarrow> x < NPROC \<and> p_stat (k_proc s x) = SRUN \<and> x \<noteq> 0 \<and> x \<noteq> procp s) \<and>
    (\<forall>h x. on_queue (Suc NPROC) s (k_slpque s h) x \<longleftrightarrow>
       x < NPROC \<and> p_stat (k_proc s x) = SSLEEP \<and> (\<exists>c. p_wchan (k_proc s x) = Some c \<and> HASH s c = h)) \<and>
    (\<forall>x < NPROC. p_stat (k_proc s x) = SSLEEP \<longrightarrow> p_wchan (k_proc s x) \<noteq> None)"

text \<open>No runnable process other than those of \<open>A\<close> is missing from the run queue \<open>R\<close>, and none sleeps without a channel.\<close>

definition all_queued :: "nat set \<Rightarrow> kernel \<Rightarrow> nat list \<Rightarrow> bool" where
  "all_queued A s R \<longleftrightarrow>
    (\<forall>x < NPROC. (p_stat (k_proc s x) = SRUN \<longrightarrow> x \<in> A \<union> set R) \<and> (p_stat (k_proc s x) = SSLEEP \<longrightarrow> p_wchan (k_proc s x) \<noteq> None))"

lemma queues_exact_iff:
  assumes inv: "idle_ok s R Q" and cur: "cur_ok s R Q"
  shows "queues_exact s \<longleftrightarrow> all_queued {0, procp s} s R"
proof -
  have q: "queues_ok s R Q" using inv by (simp add: idle_ok_def)
  have r: "on_queue (Suc NPROC) s (k_runq s) x \<longleftrightarrow> x \<in> set R" for x
    using q queue_short[of R] by (intro on_queue_iff) (auto simp add: queues_ok_def less_Suc_eq_le)
  have sl: "on_queue (Suc NPROC) s (k_slpque s h) x \<longleftrightarrow> x \<in> set (Q h)" for h x
    using q queue_short[of "Q h"] by (intro on_queue_iff) (auto simp add: queues_ok_def less_Suc_eq_le)
  have R: "x \<in> set R \<Longrightarrow> x < NPROC \<and> p_stat (k_proc s x) = SRUN \<and> x \<noteq> 0 \<and> x \<noteq> procp s" for x
    using inv cur by (auto simp add: idle_ok_def cur_ok_def queues_ok_def)
  have Q: "x \<in> set (Q h) \<longleftrightarrow> x < NPROC \<and> p_stat (k_proc s x) = SSLEEP \<and> (\<exists>c. p_wchan (k_proc s x) = Some c \<and> HASH s c = h)" for h x
    using q unfolding queues_ok_def sleeper_def by blast
  show ?thesis
    unfolding queues_exact_def r sl all_queued_def using R Q by blast
qed

lemma swtch_pick_states:
  assumes "swtch_pick s = Inr (r, s')"
  shows "p_stat (k_proc s' x) = p_stat (k_proc s x)" "p_wchan (k_proc s' x) = p_wchan (k_proc s x)"
  using assms by (auto simp add: swtch_pick_def switch_to_def Let_def split: prod.splits option.splits if_splits sum.splits)

text \<open>A switch keeps the queues complete, whoever was current: the process that gets the processor is the only one that leaves.\<close>

lemma swtch_pick_queued:
  assumes inv: "idle_ok s R Q" and cur: "procp s < NPROC" "k_uarrp s = procp s" and c0: "procp s = 0 \<Longrightarrow> cur_ok s R Q"
    and pick: "swtch_pick s = Inr (r, s')" and all: "all_queued {0} s R"
  shows "\<exists>R'. idle_ok s' R' Q \<and> cur_ok s' R' Q \<and> k_pages s' = k_pages s \<and> k_mpid s' = k_mpid s \<and> queues_exact s'"
proof -
  obtain R' where r: "idle_ok s' R' Q" "cur_ok s' R' Q" "k_pages s' = k_pages s" "k_mpid s' = k_mpid s"
      "case r of None \<Rightarrow> procp s = 0 \<and> R' = R \<and> (\<forall>x \<in> set R. \<not> candidate s x)
       | Some p \<Rightarrow> procp s' = p \<and> (if p = 0 then procp s \<noteq> 0 \<and> R' = R \<and> (\<forall>x \<in> set R. \<not> candidate s x)
          else \<exists>as bs. R = as @ p # bs \<and> R' = as @ bs \<and> candidate s p \<and> k_curpri s' = to_i8 (p_pri (k_proc s p)) \<and>
            (\<forall>x \<in> set as. candidate s x \<longrightarrow> p_pri (k_proc s p) < p_pri (k_proc s x)) \<and>
            (\<forall>x \<in> set bs. candidate s x \<longrightarrow> p_pri (k_proc s p) \<le> p_pri (k_proc s x)))"
    using swtch_pick_ok[OF inv cur c0] pick by auto
  have "set R \<subseteq> {procp s'} \<union> set R'" using r(5) by (auto split: option.splits if_splits)
  then have "all_queued {0, procp s'} s' R'"
    using all unfolding all_queued_def swtch_pick_states[OF pick] by blast
  then show ?thesis using r(1-4) queues_exact_iff[OF r(1,2)] by blast
qed

lemma sleep_enter_states:
  "k_proc (sleep_enter c pri s) = (k_proc s)(procp s := (k_proc s (procp s))\<lparr>p_stat := SSLEEP, p_wchan := Some c,
      p_pri := to_i8 pri, p_link := k_slpque s (HASH s c)\<rparr>)"
  by (simp add: sleep_enter_def Let_def)

lemma setrq_states: "p_stat (k_proc (setrq x s) y) = p_stat (k_proc s y)" "p_wchan (k_proc (setrq x s) y) = p_wchan (k_proc s y)"
  by (simp_all add: setrq_def)

text \<open>The state in which each caller of \<open>swtch\<close> enters it: what the queues are, and that nobody is missing.\<close>

lemma swtch_callers:
  assumes inv: "idle_ok s R Q" and cur: "cur_ok s R Q" and all: "all_queued {0, procp s} s R"
  shows "procp s \<noteq> 0 \<Longrightarrow> all_queued {0} (sleep_enter c pri s) R" "procp s \<noteq> 0 \<Longrightarrow> all_queued {0} (setrq (procp s) s) (procp s # R)"
    "procp s = 0 \<Longrightarrow> all_queued {0} s R"
  using all by (auto simp add: all_queued_def sleep_enter_states setrq_states)

lemma sched_wfI:
  "\<lbrakk>idle_ok s' R Q; cur_ok s' R Q; sched_wf s; k_pages s' = k_pages s; k_mpid s' = k_mpid s\<rbrakk> \<Longrightarrow> sched_wf s'"
  by (auto simp add: sched_wf_def)

lemma sched_step_exact:
  assumes "sched_step s s'" "sched_wf s" "queues_exact s"
  shows "sched_wf s' \<and> queues_exact s'"
proof -
  obtain R Q where inv: "idle_ok s R Q" and cur: "cur_ok s R Q"
    using assms(2) by (auto simp add: sched_wf_def)
  have pc: "procp s < NPROC" "k_uarrp s = procp s" using cur by (simp_all add: cur_ok_def)
  have all: "all_queued {0, procp s} s R" using assms(3) queues_exact_iff[OF inv cur] by blast
  note callers = swtch_callers[OF inv cur all]
  from assms(1)[unfolded sched_step_iff] consider
      (slp) c pri r where "procp s \<noteq> 0" "swtch_pick (sleep_enter c pri s) = Inr (r, s')"
    | (qsw) r where "procp s \<noteq> 0" "swtch_pick (setrq (procp s) s) = Inr (r, s')"
    | (idl) r where "procp s = 0" "swtch_pick s = Inr (r, s')"
    | (wak) c where "wakeup c s = Inr s'"
    | (new) c where "first_index NPROC (\<lambda>i. p_stat (k_proc s i) = SNULL) = Some c" "newproc (procp s) s = Inr s'"
    by blast
  then show ?thesis
  proof cases
    case slp
    note e = sleep_enter_idle[OF inv cur slp(1), of c pri]
    show ?thesis
      using swtch_pick_queued[OF e(1) _ _ _ slp(2) callers(1)[OF slp(1)]] e(2-5) pc slp(1) sched_wfI[OF _ _ assms(2)] by metis
  next
    case qsw
    note e = setrq_idle[OF inv cur qsw(1)]
    show ?thesis
      using swtch_pick_queued[OF e(1) _ _ _ qsw(2) callers(2)[OF qsw(1)]] e(2-5) pc qsw(1) sched_wfI[OF _ _ assms(2)] by metis
  next
    case idl
    show ?thesis
      using swtch_pick_queued[OF inv pc cur idl(2) callers(3)[OF idl(1)]] sched_wfI[OF _ _ assms(2)] by metis
  next
    case wak
    obtain R' Q' where w: "idle_ok s' R' Q'" "cur_ok s' R' Q'" "only_sched s s'"
        "set R' = set R \<union> {y. p_wchan (k_proc s y) = Some c}"
        "\<forall>y. if p_wchan (k_proc s y) = Some c then p_wchan (k_proc s' y) = None \<and> p_stat (k_proc s' y) = SRUN
          else p_wchan (k_proc s' y) = p_wchan (k_proc s y) \<and> p_stat (k_proc s' y) = p_stat (k_proc s y)"
      using wakeup_idle[OF inv cur, of c] wak by auto
    note k = only_sched_kernel[OF w(3)]
    have "all_queued {0, procp s'} s' R'"
      unfolding all_queued_def
    proof (intro allI impI)
      fix x
      assume "x < NPROC"
      then show "(p_stat (k_proc s' x) = SRUN \<longrightarrow> x \<in> {0, procp s'} \<union> set R') \<and> (p_stat (k_proc s' x) = SSLEEP \<longrightarrow> p_wchan (k_proc s' x) \<noteq> None)"
        using all[unfolded all_queued_def, rule_format, of x] w(4) w(5)[rule_format, of x] k(21) by (auto split: if_splits)
    qed
    then show ?thesis
      using sched_wfI[OF w(1,2) assms(2)] k queues_exact_iff[OF w(1,2)] by blast
  next
    case new
    obtain t where t: "newproc (procp s) s = Inr t" "sched_wf t" "procp t = procp s"
        "if \<exists>p. 1 \<le> p \<and> p \<le> 62 \<and> \<not> epoch68_userpage_owned (k_pages s) p
         then forked (procp s) s c t \<and> idle_ok t (c # R) Q \<and> cur_ok t (c # R) Q
         else fork_failed s c t \<and> idle_ok t R Q \<and> cur_ok t R Q"
      using newproc_queues[OF assms(2) inv cur new(1)] by blast
    have s': "s' = t" using new(2) t(1) by simp
    show ?thesis
    proof (cases "\<exists>p. 1 \<le> p \<and> p \<le> 62 \<and> \<not> epoch68_userpage_owned (k_pages s) p")
      case True
      then have f: "forked (procp s) s c t" "idle_ok t (c # R) Q" "cur_ok t (c # R) Q" using t(4) by simp_all
      have st: "p_stat (k_proc t c) = SRUN" "\<forall>x. x \<noteq> c \<longrightarrow> k_proc t x = k_proc s x"
        using f(1) by (simp_all add: forked_def Let_def)
      have "all_queued {0, procp t} t (c # R)"
        unfolding all_queued_def
      proof (intro allI impI)
        fix x
        assume "x < NPROC"
        then show "(p_stat (k_proc t x) = SRUN \<longrightarrow> x \<in> {0, procp t} \<union> set (c # R)) \<and> (p_stat (k_proc t x) = SSLEEP \<longrightarrow> p_wchan (k_proc t x) \<noteq> None)"
          using all[unfolded all_queued_def] st t(3) by (cases "x = c") simp_all
      qed
      then show ?thesis using s' t(2) queues_exact_iff[OF f(2,3)] by blast
    next
      case False
      then have f: "fork_failed s c t" "idle_ok t R Q" "cur_ok t R Q" using t(4) by (simp_all only: if_False)
      obtain e m pg where e: "t = set_error ENOMEM (s\<lparr>k_mpid := m, k_pages := pg, k_proc := (k_proc s)(c := e)\<rparr>)" "p_stat e = SNULL"
        using f(1) unfolding fork_failed_def Let_def by (auto simp add: proc0_def)
      have "k_proc t = (k_proc s)(c := e)" by (simp add: e(1))
      then have "all_queued {0, procp t} t R"
        using all e(2) t(3) by (auto simp add: all_queued_def)
      then show ?thesis using s' t(2) queues_exact_iff[OF f(2,3)] by blast
    qed
  qed
qed

lemma wakeup_spec_wf:
  assumes "sched_wf s"
  shows "\<exists>s'. wakeup c s = Inr s' \<and> sched_wf s' \<and> only_sched s s' \<and>
    (\<forall>y. if p_wchan (k_proc s y) = Some c
       then p_wchan (k_proc s' y) = None \<and> p_stat (k_proc s' y) = SRUN \<and> on_queue (Suc NPROC) s' (k_runq s') y
       else p_wchan (k_proc s' y) = p_wchan (k_proc s y) \<and> p_stat (k_proc s' y) = p_stat (k_proc s y))"
proof -
  obtain R Q where inv: "idle_ok s R Q" and cur: "cur_ok s R Q" using assms by (auto simp add: sched_wf_def)
  obtain s' R' Q' where w: "wakeup c s = Inr s'" "idle_ok s' R' Q'" "cur_ok s' R' Q'" "only_sched s s'"
      "set R' = set R \<union> {y. p_wchan (k_proc s y) = Some c}"
      "\<forall>y. if p_wchan (k_proc s y) = Some c then p_wchan (k_proc s' y) = None \<and> p_stat (k_proc s' y) = SRUN
        else p_wchan (k_proc s' y) = p_wchan (k_proc s y) \<and> p_stat (k_proc s' y) = p_stat (k_proc s y)"
    using wakeup_idle[OF inv cur] by blast
  note k = only_sched_kernel[OF w(4)]
  have wf: "sched_wf s'" using sched_wfI[OF w(2,3) assms] k by blast
  have q: "queues_ok s' R' Q'" using w(2) by (simp add: idle_ok_def)
  have "on_queue (Suc NPROC) s' (k_runq s') y \<longleftrightarrow> y \<in> set R'" for y
    using q queue_short[of R'] by (intro on_queue_iff) (auto simp add: queues_ok_def less_Suc_eq_le)
  with w(1,4,5,6) wf show ?thesis by auto
qed

lemma swtch_pick_stays: "swtch_pick s = Inr (None, s') \<Longrightarrow> procp s' = procp s"
  by (auto simp add: swtch_pick_def Let_def procp_def u_def split: prod.splits option.splits if_splits sum.splits)

text \<open>The three ways in which \<open>swtch\<close> is entered.\<close>

lemma swtch_entered:
  assumes inv: "idle_ok t R Q" and cur: "cur_ok t R Q"
    and s: "procp t = 0 \<and> s = t \<or> procp t \<noteq> 0 \<and> (s = sleep_enter c pri t \<or> s = setrq (procp t) t)"
  shows "\<exists>R' Q'. idle_ok s R' Q' \<and> procp s < NPROC \<and> k_uarrp s = procp s \<and> (procp s = 0 \<longrightarrow> cur_ok s R' Q') \<and>
    procp s = procp t \<and> k_pages s = k_pages t \<and> k_mpid s = k_mpid t"
proof -
  have pc: "procp t < NPROC" "k_uarrp t = procp t" using cur by (simp_all add: cur_ok_def)
  from s consider (idle) "procp t = 0" "s = t" | (sleep) "procp t \<noteq> 0" "s = sleep_enter c pri t" | (qswtch) "procp t \<noteq> 0" "s = setrq (procp t) t"
    by (elim disjE conjE) simp_all
  then show ?thesis
  proof cases
    case idle
    then show ?thesis using inv cur pc by blast
  next
    case sleep
    note e = sleep_enter_idle[OF inv cur sleep(1), of c pri]
    show ?thesis unfolding sleep(2) using e sleep(1) pc by (intro exI conjI) (rule e(1), simp_all)
  next
    case qswtch
    note e = setrq_idle[OF inv cur qswtch(1)]
    show ?thesis unfolding qswtch(2) using e qswtch(1) pc by (intro exI conjI) (rule e(1), simp_all)
  qed
qed

section \<open>Properties\<close>

text \<open>
  Claim C6. \<open>wakeup(chan)\<close> makes runnable exactly the processes that sleep on \<open>chan\<close>: each of them leaves its sleep queue, no longer waits
  and is on the run queue; every other process keeps its state; it never panics, and nothing but the scheduler's own links, states and
  rescheduling flag changes.\<close>

theorem wakeup_exact:
  assumes "sched_wf s"
  shows "\<exists>s'. wakeup c s = Inr s' \<and> sched_wf s' \<and> only_sched s s' \<and>
    (\<forall>y. if p_wchan (k_proc s y) = Some c
       then p_wchan (k_proc s' y) = None \<and> p_stat (k_proc s' y) = SRUN \<and> on_queue (Suc NPROC) s' (k_runq s') y
       else p_wchan (k_proc s' y) = p_wchan (k_proc s y) \<and> p_stat (k_proc s' y) = p_stat (k_proc s y))"
  using wakeup_spec_wf[OF assms] .

text \<open>
  Claim C7. \<open>swtch\<close>, as its callers enter it (from the loop of process 0, from \<open>sleep\<close> with the current process on its sleep queue, from
  \<open>qswtch\<close> with the current process on the run queue), gives the processor to the best process on the run queue without a panic: when it
  hands over to a process other than process 0, that process is runnable and loaded, no loaded runnable process on the queue has a better
  priority, it leaves the queue and becomes the current process at its own priority; process 0 gets or keeps the processor only if no
  process on the run queue can run.\<close>

theorem swtch_picks_best:
  assumes "sched_wf t"
    and "procp t = 0 \<and> s = t \<or> procp t \<noteq> 0 \<and> (s = sleep_enter c pri t \<or> s = setrq (procp t) t)"
  shows "\<exists>r s'. swtch_pick s = Inr (r, s') \<and> sched_wf s' \<and>
    (case r of
       None \<Rightarrow> procp t = 0 \<and> procp s' = 0 \<and> (\<forall>x. on_queue (Suc NPROC) s (k_runq s) x \<longrightarrow> \<not> candidate s x)
     | Some p \<Rightarrow> procp s' = p \<and>
         (if p = 0 then procp t \<noteq> 0 \<and> (\<forall>x. on_queue (Suc NPROC) s (k_runq s) x \<longrightarrow> \<not> candidate s x)
          else candidate s p \<and> on_queue (Suc NPROC) s (k_runq s) p \<and>
            k_curpri s' = to_i8 (p_pri (k_proc s p)) \<and> \<not> on_queue (Suc NPROC) s' (k_runq s') p \<and>
            (\<forall>x. on_queue (Suc NPROC) s (k_runq s) x \<and> candidate s x \<longrightarrow> p_pri (k_proc s p) \<le> p_pri (k_proc s x))))"
proof -
  obtain R0 Q0 where inv0: "idle_ok t R0 Q0" and cur0: "cur_ok t R0 Q0" using assms(1) by (auto simp add: sched_wf_def)
  obtain R Q where inv: "idle_ok s R Q" and pc: "procp s < NPROC" "k_uarrp s = procp s" and c0: "procp s = 0 \<longrightarrow> cur_ok s R Q"
      and k: "procp s = procp t" "k_pages s = k_pages t" "k_mpid s = k_mpid t"
    using swtch_entered[OF inv0 cur0 assms(2)] by (elim exE conjE) (rule that)
  obtain r s' R' where p: "swtch_pick s = Inr (r, s')" "idle_ok s' R' Q" "cur_ok s' R' Q" "k_pages s' = k_pages s" "k_mpid s' = k_mpid s"
      "case r of None \<Rightarrow> procp s = 0 \<and> R' = R \<and> (\<forall>x \<in> set R. \<not> candidate s x)
       | Some p \<Rightarrow> procp s' = p \<and> (if p = 0 then procp s \<noteq> 0 \<and> R' = R \<and> (\<forall>x \<in> set R. \<not> candidate s x)
          else \<exists>as bs. R = as @ p # bs \<and> R' = as @ bs \<and> candidate s p \<and> k_curpri s' = to_i8 (p_pri (k_proc s p)) \<and>
            (\<forall>x \<in> set as. candidate s x \<longrightarrow> p_pri (k_proc s p) < p_pri (k_proc s x)) \<and>
            (\<forall>x \<in> set bs. candidate s x \<longrightarrow> p_pri (k_proc s p) \<le> p_pri (k_proc s x)))"
    using swtch_pick_ok[OF inv pc c0[rule_format]] by blast
  have onq: "idle_ok v T W \<Longrightarrow> on_queue (Suc NPROC) v (k_runq v) y \<longleftrightarrow> y \<in> set T" for v T W y
    using queue_short[of T] by (intro on_queue_iff) (auto simp add: idle_ok_def queues_ok_def less_Suc_eq_le)
  have wf: "sched_wf s'" using sched_wfI[OF p(2,3) assms(1)] p(4,5) k by simp
  have out: "procp s' \<notin> set R'" using p(3) by (simp add: cur_ok_def)
  have none: "r = None \<Longrightarrow> procp s' = 0" using p(1,6) swtch_pick_stays[of s s'] by auto
  show ?thesis
  proof (cases r)
    case None
    then show ?thesis using p(1,6) wf none k(1) unfolding onq[OF inv] by auto
  next
    case (Some x)
    have le: "y \<in> set R \<Longrightarrow> candidate s y \<Longrightarrow> x \<noteq> 0 \<Longrightarrow> p_pri (k_proc s x) \<le> p_pri (k_proc s y)" for y
      using p(6) Some by (auto dest: less_imp_le dest!: bspec)
    show ?thesis
      using p(1,6) Some wf out k(1) le onq[OF inv] onq[OF p(2)] by (cases "x = 0") (auto simp del: on_queue.simps)
  qed
qed

text \<open>
  Claim C5. The scheduler's data structure survives every sequence of sleeps, wakeups, voluntary switches, idle-loop switches and process creations, in any
  order: the run queue and the sleep queues stay disjoint linked lists; the run queue holds exactly the runnable processes other than the
  current one and process 0, so that none is ever lost, and the sleep queue of a hash value exactly the processes that sleep on a channel
  of that value; and in every reached state the next \<open>swtch\<close> returns a process or stays in process 0, never a panic.\<close>

theorem sched_reachable_wf:
  assumes "sched_wf s" "queues_exact s" "sched_step\<^sup>*\<^sup>* s s'"
  shows "sched_wf s' \<and> queues_exact s' \<and> (\<exists>r t. swtch_pick s' = Inr (r, t))"
proof -
  from assms(3) have wf: "sched_wf s' \<and> queues_exact s'"
    by (induction rule: rtranclp_induct) (use assms(1,2) sched_step_exact in auto)
  then obtain R Q where inv: "idle_ok s' R Q" "cur_ok s' R Q" by (auto simp add: sched_wf_def)
  then have "procp s' < NPROC" "k_uarrp s' = procp s'" by (simp_all add: cur_ok_def)
  from swtch_pick_ok[OF inv(1) this] inv(2) wf show ?thesis by blast
qed

text \<open>
  Claim C8. \<open>newproc\<close>, given a free process entry, either creates a child in the first free entry or fails with \<open>ENOMEM\<close> and leaves no trace of it. The child is runnable and on the run queue, has a
  process id between 1 and 29999 that no process or process group uses, the caller's id as parent id, no pending
  signals, a page no process owned with a copy of the caller's memory, and every other process, u area and page is as before; it fails only when all 62
  pages are owned, and then the state is the one before but for the error code, the last process id tried and the entry, which is empty again: no
  reference count of a file, i-node or text segment, no queue and no page has changed.\<close>

theorem newproc_forks:
  assumes "sched_wf s" "first_index NPROC (\<lambda>i. p_stat (k_proc s i) = SNULL) = Some c"
  shows "\<exists>s'. newproc (procp s) s = Inr s' \<and> sched_wf s' \<and>
    (if \<exists>p. 1 \<le> p \<and> p \<le> 62 \<and> \<not> epoch68_userpage_owned (k_pages s) p
     then forked (procp s) s c s'
     else fork_failed s c s')"
  using newproc_spec[OF assms] .

text \<open>
  \<open>setpri\<close> keeps user priorities in their band: for a nice value within its range the priority computed from any
  processor usage lies between 30 and 84, so it fits \<open>p_pri\<close>, worsens with usage and with the nice value, and asks for rescheduling exactly when it is better than the current one.\<close>

theorem setpri_band:
  assumes n: "0 \<le> p_nice (k_proc s pp)" "p_nice (k_proc s pp) < 40" and r: "setpri pp s = (p, s')"
  shows "30 \<le> p \<and> p \<le> 84 \<and> p_pri (k_proc s' pp) = p \<and>
    p = 30 + p_nice (k_proc s pp) + (p_cpu (k_proc s pp) mod 256) div 16 \<and>
    k_runrun s' = (if p < k_curpri s then to_i8 (k_runrun s + 1) else k_runrun s)"
proof -
  have c: "0 \<le> (p_cpu (k_proc s pp) mod 256) div 16" "(p_cpu (k_proc s pp) mod 256) div 16 \<le> 15" by simp_all
  have tb: "take_bit 8 (p_cpu (k_proc s pp)) = p_cpu (k_proc s pp) mod 256" by (simp add: take_bit_eq_mod)
  let ?p = "30 + p_nice (k_proc s pp) + (p_cpu (k_proc s pp) mod 256) div 16"
  have le: "\<not> ?p > 127" "30 \<le> ?p" "?p \<le> 84" using n c by linarith+
  have eq: "(p_cpu (k_proc s pp) mod 256) div 16 + PUSER + p_nice (k_proc s pp) - NZERO = ?p"
    by (simp add: PUSER_def NZERO_def)
  have id: "to_i8 ?p = ?p" using le by (intro to_i8_id) linarith+
  have sp: "setpri pp s = (?p, upd_proc pp (\<lambda>q. q\<lparr>p_pri := ?p\<rparr>)
      (if ?p < k_curpri s then s\<lparr>k_runrun := to_i8 (k_runrun s + 1)\<rparr> else s))"
    unfolding setpri_def tb eq Let_def if_not_P[OF le(1)] id by simp
  have "p = ?p" "s' = upd_proc pp (\<lambda>q. q\<lparr>p_pri := ?p\<rparr>)
      (if ?p < k_curpri s then s\<lparr>k_runrun := to_i8 (k_runrun s + 1)\<rparr> else s)"
    using trans[OF r[symmetric] sp] unfolding prod.inject by blast+
  then show ?thesis using le by simp
qed

subsection \<open>Instances\<close>

text \<open>Process 1 runs, process 2 sleeps on \<open>lbolt\<close>, process 3 is on the run queue.\<close>

definition live_proc :: "nat \<Rightarrow> proc" where
  "live_proc i = proc0\<lparr>p_stat := SRUN, p_flag := SLOAD, p_addr := int i, p_pid := int i, p_pri := 50, p_nice := 20\<rparr>"

definition demo_sched :: kernel where
  "demo_sched = kernel0
    \<lparr>k_proc := (\<lambda>_. proc0)
       (0 := proc0\<lparr>p_stat := SRUN\<rparr>, 1 := live_proc 1,
        2 := (live_proc 2)\<lparr>p_stat := SSLEEP, p_wchan := Some Ch_lbolt, p_pri := 40\<rparr>, 3 := live_proc 3),
     k_uarrp := 1, k_runq := Some 3, k_slpque := (\<lambda>_. None)(0 := Some 2),
     k_pages := \<lparr>userpagemap = \<lparr>m_size = 59, m_addr = 4\<rparr> # replicate 49 \<lparr>m_size = 0, m_addr = 0\<rparr>,
       epoch68_userpage_owned = (\<lambda>i. 1 \<le> i \<and> i \<le> 3)\<rparr>\<rparr>"

lemmas demo_sched_defs = demo_sched_def live_proc_def zero_defs

lemma demo_queues: "queues_ok demo_sched [3] ((\<lambda>_. [])(0 := [2]))"
  by (simp add: queues_ok_def links_def demo_sched_defs HASH_def sleeper_def NPROC_def) auto

lemma demo_pages: "pages_inv (k_pages demo_sched)"
proof -
  have l: "live (userpagemap (k_pages demo_sched)) = [\<lparr>m_size = 59, m_addr = 4\<rparr>]"
    by (simp add: demo_sched_def live_def)
  then have un: "units (userpagemap (k_pages demo_sched)) = {4 ..< 63}"
    by (simp add: units_live ent_units_def interval_def)
  have ow: "{p. 1 \<le> p \<and> p \<le> 62 \<and> \<not> epoch68_userpage_owned (k_pages demo_sched) p} = {4 ..< 63}"
    by (auto simp add: demo_sched_def)
  have len: "length (userpagemap (k_pages demo_sched)) = CMAPSIZ"
    by (simp add: demo_sched_def CMAPSIZ_def)
  have "zeros (drop 1 (userpagemap (k_pages demo_sched)))"
    by (simp add: demo_sched_def zeros_def)
  then have "rmap_wf (userpagemap (k_pages demo_sched))"
    unfolding rmap_wf_def l by (simp add: len MAPTOP_def CMAPSIZ_def)
  then show ?thesis unfolding pages_inv_def page_bounds using un ow len by simp
qed

lemma demo_sched_wf: "sched_wf demo_sched"
proof -
  have "idle_ok demo_sched [3] ((\<lambda>_. [])(0 := [2]))"
    using demo_queues
    by (auto simp add: idle_ok_def demo_sched_defs resident_def SLOAD_def EPOCH68_KERNEL_METADATA_PAGE_def)
  moreover have "cur_ok demo_sched [3] ((\<lambda>_. [])(0 := [2]))"
    by (simp add: cur_ok_def procp_def u_def demo_sched_defs NPROC_def)
  moreover have "0 \<le> k_mpid demo_sched" "k_mpid demo_sched < 30000" by (simp_all add: demo_sched_defs)
  ultimately show ?thesis unfolding sched_wf_def using demo_pages by blast
qed

theorem wakeup_exact_witness:
  "\<exists>s'. wakeup Ch_lbolt demo_sched = Inr s' \<and> p_stat (k_proc s' 2) = SRUN \<and> p_stat (k_proc s' 3) = SRUN"
proof -
  obtain s' where w: "wakeup Ch_lbolt demo_sched = Inr s'"
      "\<forall>y. if p_wchan (k_proc demo_sched y) = Some Ch_lbolt
        then p_wchan (k_proc s' y) = None \<and> p_stat (k_proc s' y) = SRUN \<and> on_queue (Suc NPROC) s' (k_runq s') y
        else p_wchan (k_proc s' y) = p_wchan (k_proc demo_sched y) \<and>
          p_stat (k_proc s' y) = p_stat (k_proc demo_sched y)"
    using wakeup_exact[OF demo_sched_wf] by blast
  show ?thesis
    using w(1) w(2)[rule_format, of 2] w(2)[rule_format, of 3] by (simp add: demo_sched_defs)
qed

lemma demo_sleep_pick: "\<exists>s'. swtch_pick (sleep_enter Ch_lbolt 40 demo_sched) = Inr (Some 3, s')"
  by (simp add: sleep_enter_def Let_def HASH_def swtch_pick_def demo_sched_defs NPROC_def eval_nat_numeral switch_to_def SLOAD_def
      EPOCH68_KERNEL_METADATA_PAGE_def procp_def u_def)

text \<open>Process 1 goes to sleep, and process 3 gets the processor.\<close>

theorem swtch_picks_best_witness:
  "\<exists>s'. swtch_pick (sleep_enter Ch_lbolt 40 demo_sched) = Inr (Some 3, s') \<and> procp s' = 3"
proof -
  have "procp demo_sched \<noteq> 0" by (simp add: procp_def u_def demo_sched_defs)
  from swtch_picks_best[OF demo_sched_wf, of "sleep_enter Ch_lbolt 40 demo_sched" Ch_lbolt 40] this demo_sleep_pick show ?thesis
    by auto
qed

lemma demo_sched_exact: "queues_exact demo_sched"
proof -
  have i: "idle_ok demo_sched [3] ((\<lambda>_. [])(0 := [2]))"
    using demo_queues
    by (auto simp add: idle_ok_def demo_sched_defs resident_def SLOAD_def EPOCH68_KERNEL_METADATA_PAGE_def)
  have c: "cur_ok demo_sched [3] ((\<lambda>_. [])(0 := [2]))"
    by (simp add: cur_ok_def procp_def u_def demo_sched_defs NPROC_def)
  have "all_queued {0, procp demo_sched} demo_sched [3]"
    by (auto simp add: all_queued_def procp_def u_def demo_sched_defs split: if_splits)
  then show ?thesis using queues_exact_iff[OF i c] by blast
qed

theorem sched_reachable_wf_witness:
  "\<exists>s' r t. sched_step\<^sup>*\<^sup>* demo_sched s' \<and> s' \<noteq> demo_sched \<and> queues_exact s' \<and> swtch_pick s' = Inr (r, t)"
proof -
  obtain s' where w: "wakeup Ch_lbolt demo_sched = Inr s'"
      "\<forall>y. if p_wchan (k_proc demo_sched y) = Some Ch_lbolt
        then p_wchan (k_proc s' y) = None \<and> p_stat (k_proc s' y) = SRUN \<and> on_queue (Suc NPROC) s' (k_runq s') y
        else p_wchan (k_proc s' y) = p_wchan (k_proc demo_sched y) \<and>
          p_stat (k_proc s' y) = p_stat (k_proc demo_sched y)"
    using wakeup_spec_wf[OF demo_sched_wf] by blast
  have "p_stat (k_proc s' 2) = SRUN" using w(2)[rule_format, of 2] by (simp add: demo_sched_defs)
  moreover have "p_stat (k_proc demo_sched 2) = SSLEEP" by (simp add: demo_sched_defs)
  ultimately have ne: "s' \<noteq> demo_sched" by auto
  have st: "sched_step\<^sup>*\<^sup>* demo_sched s'" using step_wakeup[OF w(1)] by blast
  from sched_reachable_wf[OF demo_sched_wf demo_sched_exact st] ne st show ?thesis by blast
qed

theorem newproc_forks_witness:
  "\<exists>s'. newproc 1 demo_sched = Inr s' \<and> p_stat (k_proc s' 4) = SRUN \<and> p_ppid (k_proc s' 4) = 1"
proof -
  have f: "first_index NPROC (\<lambda>i. p_stat (k_proc demo_sched i) = SNULL) = Some 4"
    unfolding first_index_Some by (auto simp add: demo_sched_defs NPROC_def eval_nat_numeral less_Suc_eq)
  have pg: "\<exists>p. 1 \<le> p \<and> p \<le> 62 \<and> \<not> epoch68_userpage_owned (k_pages demo_sched) p"
    by (intro exI[of _ 4]) (simp add: demo_sched_def)
  have pc: "procp demo_sched = 1" "p_pid (k_proc demo_sched 1) = 1"
    by (simp_all add: procp_def u_def demo_sched_defs)
  from newproc_forks[OF demo_sched_wf f] pg pc show ?thesis by (auto simp add: forked_def Let_def)
qed

theorem setpri_band_witness:
  "fst (setpri 1 demo_sched) = 50"
proof -
  have n: "p_nice (k_proc demo_sched 1) = 20" "p_cpu (k_proc demo_sched 1) = 0" by (simp_all add: demo_sched_defs)
  from setpri_band[of demo_sched 1] n show ?thesis by (cases "setpri 1 demo_sched") simp
qed

end
