(* ===== verification/Signals.thy ===== *)
theory Signals
  imports Process_Sched
begin

text \<open>
  Sending and taking signals: \<open>signal\<close> and \<open>psignal\<close> of \<open>sys/sig.c\<close>, the properties of \<open>fsig\<close> and \<open>issig\<close>, and the
  system calls of \<open>sys/sys4.c\<close> that read or set a process's own attributes or signal others
  (\<open>kill\<close>, \<open>ssig\<close>, \<open>alarm\<close>, \<open>nice\<close>, the user and group ids, the times). The arguments of
  a call are the list \<open>u_ap\<close>.
\<close>

section \<open>Sending signals\<close>

definition psignal :: "nat \<Rightarrow> int \<Rightarrow> kernel \<Rightarrow> string + kernel" where
  "psignal p sig s =
    (if to_u32 sig \<ge> int NSIG then Inr s
     else let s = (if sig \<noteq> 0
                   then upd_proc p (\<lambda>q. q\<lparr>p_sig := p_sig q OR push_bit (nat (sig - 1)) 1\<rparr>) s else s);
              s = (if p_pri (k_proc s p) > PUSER then upd_proc p (\<lambda>q. q\<lparr>p_pri := PUSER\<rparr>) s else s)
          in if p_stat (k_proc s p) = SSLEEP \<and> p_pri (k_proc s p) > PZERO then setrun p s else Inr s)"

definition signal :: "int \<Rightarrow> int \<Rightarrow> kernel \<Rightarrow> string + kernel" where
  "signal pgrp sig s =
    (if pgrp = 0 then Inr s
     else sfor (\<lambda>p s. if p_pgrp (k_proc s p) = pgrp then psignal p sig s else Inr s) [0 ..< NPROC] s)"

section \<open>Permission\<close>

definition ASU :: "8 word" where
  "ASU = 0x02"

definition suser :: "kernel \<Rightarrow> bool \<times> kernel" where
  "suser s =
    (if u_uid (u s) = 0 then (True, upd_u (\<lambda>w. w\<lparr>u_acflag := u_acflag w OR ASU\<rparr>) s)
     else (False, set_error EPERM s))"

section \<open>System calls\<close>

text \<open>The n-th argument.\<close>

definition arg :: "nat \<Rightarrow> kernel \<Rightarrow> int" where
  "arg n s = (if n < length (u_ap (u s)) then u_ap (u s) ! n else 0)"

definition set_r1 :: "int \<Rightarrow> kernel \<Rightarrow> kernel" where
  "set_r1 v = upd_u (\<lambda>w. w\<lparr>r_val1 := v\<rparr>)"

definition set_r2 :: "int \<Rightarrow> kernel \<Rightarrow> kernel" where
  "set_r2 v = upd_u (\<lambda>w. w\<lparr>r_val2 := v\<rparr>)"

definition gtime :: "kernel \<Rightarrow> kernel" where
  "gtime s = set_r1 (k_time s) s"

text \<open>\<open>setuid\<close>: the effective, the real and the process's user id; \<open>setgid\<close> the two group ids.\<close>

definition setuid :: "kernel \<Rightarrow> kernel" where
  "setuid s =
    (let uid = arg 0 s;
         (ok, s) = (if u_ruid (u s) = uid then (True, s) else suser s)
     in if ok then
          let s = upd_u (\<lambda>w. w\<lparr>u_uid := to_i16 uid\<rparr>) s;
              s = upd_proc (procp s) (\<lambda>p. p\<lparr>p_uid := to_i16 uid\<rparr>) s
          in upd_u (\<lambda>w. w\<lparr>u_ruid := to_i16 uid\<rparr>) s
        else s)"

definition getuid :: "kernel \<Rightarrow> kernel" where
  "getuid s = set_r2 (u_uid (u s)) (set_r1 (u_ruid (u s)) s)"

definition setgid :: "kernel \<Rightarrow> kernel" where
  "setgid s =
    (let gid = arg 0 s;
         (ok, s) = (if u_rgid (u s) = gid then (True, s) else suser s)
     in if ok then upd_u (\<lambda>w. w\<lparr>u_gid := to_i16 gid, u_rgid := to_i16 gid\<rparr>) s else s)"

definition getgid :: "kernel \<Rightarrow> kernel" where
  "getgid s = set_r2 (u_gid (u s)) (set_r1 (u_rgid (u s)) s)"

definition getpid :: "kernel \<Rightarrow> kernel" where
  "getpid s = set_r2 (p_ppid (k_proc s (procp s))) (set_r1 (p_pid (k_proc s (procp s))) s)"

definition nice :: "kernel \<Rightarrow> kernel" where
  "nice s =
    (let n = arg 0 s;
         (n, s) = (if n < 0 then (case suser s of (ok, s') \<Rightarrow> (if ok then n else 0, s')) else (n, s));
         n = to_i32 (n + p_nice (k_proc s (procp s)));
         n = (if n \<ge> 2 * NZERO then 2 * NZERO - 1 else n);
         n = (if n < 0 then 0 else n)
     in upd_proc (procp s) (\<lambda>p. p\<lparr>p_nice := to_i8 n\<rparr>) s)"

definition SIGKIL :: int where "SIGKIL = 9"
definition SIGPIPE :: int where "SIGPIPE = 13"
definition SIGCLK :: int where "SIGCLK = 14"
definition SIGTRC :: int where "SIGTRC = 5"
definition SIGINS :: int where "SIGINS = 4"

definition ssig :: "kernel \<Rightarrow> kernel" where
  "ssig s =
    (let a = arg 0 s
     in if a \<le> 0 \<or> a \<ge> int NSIG \<or> a = SIGKIL then set_error EINVAL s
        else let s = set_r1 (u_signal (u s) (nat a)) s;
                 s = upd_u (\<lambda>w. w\<lparr>u_signal := (u_signal w)(nat a := arg 1 s), u_sigtramp := arg 2 s\<rparr>) s
             in upd_proc (procp s) (\<lambda>p. p\<lparr>p_sig := p_sig p AND NOT (push_bit (nat a - 1) 1)\<rparr>) s)"

text \<open>\<open>kill\<close>: whether an entry is a target, then the signal for every target.\<close>

definition kill_target :: "int \<Rightarrow> bool \<Rightarrow> nat \<Rightarrow> kernel \<Rightarrow> nat \<Rightarrow> bool" where
  "kill_target a priv q s p =
    (p_stat (k_proc s p) \<noteq> SNULL \<and>
     \<not> (a \<noteq> 0 \<and> p_pid (k_proc s p) \<noteq> a) \<and>
     \<not> (a = 0 \<and> ((p_pgrp (k_proc s p) \<noteq> p_pgrp (k_proc s q) \<and> \<not> priv) \<or> p \<le> 1)) \<and>
     \<not> (u_uid (u s) \<noteq> 0 \<and> u_uid (u s) \<noteq> p_uid (k_proc s p)))"

fun kill_loop :: "int \<Rightarrow> bool \<Rightarrow> nat \<Rightarrow> int \<Rightarrow> nat list \<Rightarrow> nat \<Rightarrow> kernel \<Rightarrow> string + nat \<times> kernel" where
  "kill_loop a priv q signo [] f s = Inr (f, s)"
| "kill_loop a priv q signo (p # ps) f s =
    (if kill_target a priv q s p then
       (case psignal p signo s of
          Inl m \<Rightarrow> Inl m
        | Inr s' \<Rightarrow> kill_loop a priv q signo ps (f + 1) s')
     else kill_loop a priv q signo ps f s)"

definition kill :: "kernel \<Rightarrow> string + kernel" where
  "kill s =
    (let a = arg 0 s; signo = arg 1 s;
         priv = (a = - 1 \<and> u_uid (u s) = 0);
         a = (if priv then 0 else a)
     in case kill_loop a priv (procp s) signo [0 ..< NPROC] 0 s of
          Inl m \<Rightarrow> Inl m
        | Inr (f, s) \<Rightarrow> Inr (if f = 0 then set_error ESRCH s else s))"

definition be32 :: "int \<Rightarrow> 8 word list" where
  "be32 x = [be_byte 3 x, be_byte 2 x, be_byte 1 x, be_byte 0 x]"

definition times :: "kernel \<Rightarrow> kernel" where
  "times s =
    (let w = u s;
         (r, s) = copyout (be32 (u_utime w) @ be32 (u_stime w) @ be32 (u_cutime w) @ be32 (u_cstime w)) (arg 0 s) s
     in if r < 0 then set_error EFAULT s else s)"

text \<open>\<open>ftime\<close>: the 10 bytes of \<open>struct timeb\<close>.\<close>

definition TIMEZONE :: int where "TIMEZONE = 5 * 60"
definition DSTFLAG :: int where "DSTFLAG = 1"

definition ftime :: "kernel \<Rightarrow> kernel" where
  "ftime s =
    (let ms = to_u32 (k_lbolt s);
         (t, ms) = (if ms > HZ then (k_time s + 1, ms - HZ) else (k_time s, ms));
         millitm = to_u32 (1000 * ms) div HZ;
         bytes = be32 (to_i32 t) @ [be_byte 1 millitm, be_byte 0 millitm, be_byte 1 TIMEZONE, be_byte 0 TIMEZONE,
                   be_byte 1 DSTFLAG, be_byte 0 DSTFLAG];
         (r, s) = copyout bytes (arg 0 s) s
     in if r < 0 then set_error EFAULT s else s)"

definition alarm :: "kernel \<Rightarrow> kernel" where
  "alarm s =
    (let c = p_clktim (k_proc s (procp s));
         s = upd_proc (procp s) (\<lambda>p. p\<lparr>p_clktim := arg 0 s\<rparr>) s
     in set_r1 c s)"

text \<open>\<open>pause\<close>: sleep again after every return of \<open>sleep\<close>, as often as the schedule allows.\<close>

definition pause :: "(kernel, unit) kern" where
  "pause = ksleep_while (\<lambda>s. True) (kbind (kget k_uarrp) (\<lambda>w. sleep (Ch_u w) PSLEP))"

definition umask :: "kernel \<Rightarrow> kernel" where
  "umask s =
    (let t = uint (u_cmask (u s));
         s = upd_u (\<lambda>w. w\<lparr>u_cmask := word_of_int (arg 0 s) AND 0x1FF\<rparr>) s
     in set_r1 t s)"

section \<open>The pending signals\<close>

lemma fsig_cases:
  obtains (none) "fsig p = 0" "\<And>i. i < NSIG - 1 \<Longrightarrow> \<not> bit (p_sig p) i"
  | (found) j where "fsig p = Suc j" "j < NSIG - 1" "bit (p_sig p) j" "\<And>i. i < j \<Longrightarrow> \<not> bit (p_sig p) i"
proof (cases "List.find (\<lambda>i. bit (p_sig p) (i - 1)) [1 ..< NSIG]")
  case None
  then have n: "\<forall>i \<in> {1 ..< NSIG}. \<not> bit (p_sig p) (i - 1)" by (simp add: find_None_iff)
  have "\<not> bit (p_sig p) i" if "i < NSIG - 1" for i
    using bspec[OF n, of "Suc i"] that by simp
  moreover have "fsig p = 0" using None by (simp add: fsig_def)
  ultimately show thesis using none by blast
next
  case (Some k)
  then obtain j where j: "j < length [1 ..< NSIG]" "bit (p_sig p) ([1 ..< NSIG] ! j - 1)" "k = [1 ..< NSIG] ! j"
      "\<forall>i < j. \<not> bit (p_sig p) ([1 ..< NSIG] ! i - 1)"
    by (auto simp add: find_Some_iff)
  have k: "k = Suc j" using j(1,3) by simp
  show thesis
  proof (rule found[of j])
    show "fsig p = Suc j" using Some k by (simp add: fsig_def)
    show "j < NSIG - 1" using j(1) by simp
    show "bit (p_sig p) j" using j(1,2) by simp
    show "\<not> bit (p_sig p) i" if "i < j" for i using j(1,4) that by auto
  qed
qed

lemma bits_above: "NSIG - 1 \<le> k \<Longrightarrow> \<not> bit (w :: 16 word) k"
  by (auto simp add: NSIG_def dest: bit_imp_le_length)

lemma fsig_zero: "fsig p = 0 \<longleftrightarrow> p_sig p = 0"
proof (cases rule: fsig_cases[of p])
  case none
  have "\<not> bit (p_sig p) i" for i using none(2)[of i] bits_above[of i "p_sig p"] by linarith
  then show ?thesis using none(1) by (simp add: bit_eq_iff)
next
  case (found j)
  then have "p_sig p \<noteq> 0" by auto
  then show ?thesis using found(1) by simp
qed

lemma clear_bit: "bit ((w :: 16 word) AND NOT (2 ^ k)) i \<longleftrightarrow> bit w i \<and> i \<noteq> k"
  by (auto simp add: bit_simps dest: bit_imp_le_length)

definition pending_signal :: "kernel \<Rightarrow> nat \<Rightarrow> bool" where
  "pending_signal s i \<longleftrightarrow> 1 \<le> i \<and> bit (p_sig (k_proc s (procp s))) (i - 1)"

definition heeded :: "kernel \<Rightarrow> nat \<Rightarrow> bool" where
  "heeded s i \<longleftrightarrow> even (u_signal (u s) i) \<or> p_flag (k_proc s (procp s)) AND STRC \<noteq> 0"

lemma finite_bits: "finite {k. bit (w :: 16 word) k}"
  by (rule finite_subset[of _ "{..< 16}"]) (auto dest: bit_imp_le_length)

lemma issig_loop_spec:
  assumes "issig_loop fuel s = (n, s')" "card {k. bit (p_sig (k_proc s (procp s))) k} < fuel"
  shows "(if n = 0 then \<forall>i. pending_signal s i \<longrightarrow> \<not> heeded s i
      else pending_signal s n \<and> heeded s n \<and> (\<forall>i < n. pending_signal s i \<longrightarrow> \<not> heeded s i)) \<and>
    (\<forall>i. pending_signal s' i \<longleftrightarrow> pending_signal s i \<and> n \<noteq> 0 \<and> n \<le> i) \<and>
    (\<exists>w. s' = upd_proc (procp s) (\<lambda>q. q\<lparr>p_sig := w\<rparr>) s)"
  using assms
proof (induction fuel arbitrary: s)
  case (Suc fuel)
  let ?p = "procp s"
  let ?P = "k_proc s ?p"
  have idu: "\<exists>w. s = upd_proc ?p (\<lambda>q. q\<lparr>p_sig := w\<rparr>) s"
    by (intro exI[of _ "p_sig ?P"]) (simp add: upd_proc_def)
  show ?case
  proof (cases "p_sig ?P = 0")
    case True
    then have "n = 0" "s' = s" using Suc.prems by simp_all
    then show ?thesis using True idu by (auto simp add: pending_signal_def)
  next
    case False
    define k where "k = fsig ?P"
    have k: "1 \<le> k" "bit (p_sig ?P) (k - 1)" "\<And>i. 1 \<le> i \<Longrightarrow> i < k \<Longrightarrow> \<not> bit (p_sig ?P) (i - 1)"
    proof -
      from False have "fsig ?P \<noteq> 0" by (simp add: fsig_zero)
      then obtain j where j: "k = Suc j" "bit (p_sig ?P) j" "\<And>i. i < j \<Longrightarrow> \<not> bit (p_sig ?P) i"
        unfolding k_def by (cases rule: fsig_cases[of ?P]) blast+
      then show "1 \<le> k" "bit (p_sig ?P) (k - 1)" "\<And>i. 1 \<le> i \<Longrightarrow> i < k \<Longrightarrow> \<not> bit (p_sig ?P) (i - 1)" by auto
    qed
    show ?thesis
    proof (cases "heeded s k")
      case True
      then have "n = k" "s' = s" using Suc.prems False by (auto simp add: heeded_def k_def Let_def)
      then show ?thesis
        using True k idu by (auto simp add: pending_signal_def) (metis not_le)+
    next
      case False
      define s1 where "s1 = upd_proc ?p (\<lambda>q. q\<lparr>p_sig := p_sig q AND NOT (push_bit (k - 1) 1)\<rparr>) s"
      have l: "issig_loop fuel s1 = (n, s')"
        using Suc.prems(1) False \<open>p_sig ?P \<noteq> 0\<close> by (simp add: heeded_def k_def s1_def Let_def)
      have p1: "procp s1 = ?p" "u s1 = u s" "p_flag (k_proc s1 ?p) = p_flag ?P"
        "p_sig (k_proc s1 ?p) = p_sig ?P AND NOT (push_bit (k - 1) 1)"
        by (simp_all add: s1_def)
      have "{i. bit (p_sig (k_proc s1 ?p)) i} = {i. bit (p_sig ?P) i} - {k - 1}"
        by (auto simp add: p1 clear_bit)
      then have "card {i. bit (p_sig (k_proc s1 ?p)) i} < fuel"
        using Suc.prems(2) card_Diff1_less[OF finite_bits, of "k - 1" "p_sig ?P"] k(2) by simp
      note IH = Suc.IH[OF l, unfolded p1(1), OF this]
      have pend: "pending_signal s1 i \<longleftrightarrow> pending_signal s i \<and> i \<noteq> k" for i
        using k(1) by (auto simp add: pending_signal_def p1 clear_bit)
      have heed: "heeded s1 i \<longleftrightarrow> heeded s i" for i by (simp add: heeded_def p1)
      from IH obtain w where "s' = upd_proc ?p (\<lambda>q. q\<lparr>p_sig := w\<rparr>) s1" by blast
      then have w: "s' = upd_proc ?p (\<lambda>q. q\<lparr>p_sig := w\<rparr>) s" by (simp add: s1_def upd_proc_def)
      note IH1 = conjunct1[OF IH, unfolded pend heed] and IH2 = conjunct1[OF conjunct2[OF IH], unfolded pend]
      show ?thesis
      proof (cases "n = 0")
        case True
        have "\<not> heeded s i" if "pending_signal s i" for i using IH1 True that False by (cases "i = k") auto
        then show ?thesis using IH2 w True by auto
      next
        case nz: False
        have n: "pending_signal s n" "n \<noteq> k" "heeded s n" "\<And>i. i < n \<Longrightarrow> pending_signal s i \<Longrightarrow> i \<noteq> k \<Longrightarrow> \<not> heeded s i"
          using IH1 nz by auto
        have kn: "k < n"
          using n(1,2) k(3)[of n] linorder_neqE_nat[of k n] unfolding pending_signal_def by blast
        have low: "\<not> heeded s i" if "i < n" "pending_signal s i" for i using n(4)[OF that] False by (cases "i = k") auto
        have rest: "pending_signal s' i \<longleftrightarrow> pending_signal s i \<and> n \<noteq> 0 \<and> n \<le> i" for i
          using spec[OF IH2, of i] kn by (cases "i = k") linarith+
        have "if n = 0 then \<forall>i. pending_signal s i \<longrightarrow> \<not> heeded s i
          else pending_signal s n \<and> heeded s n \<and> (\<forall>i < n. pending_signal s i \<longrightarrow> \<not> heeded s i)"
          using n(1,3) low nz by simp
        then show ?thesis by (intro conjI allI rest exI[of _ w] w)
      qed
    qed
  qed
qed simp

section \<open>Waking a sleeping process\<close>

lemma sched_wf_soft:
  assumes wf: "sched_wf s"
    and k: "k_runq s' = k_runq s" "k_slpque s' = k_slpque s" "k_addr s' = k_addr s" "k_runout s' = k_runout s"
      "k_uarrp s' = k_uarrp s" "procp s' = procp s" "k_pages s' = k_pages s" "k_mpid s' = k_mpid s"
    and p: "\<And>x. p_link (k_proc s' x) = p_link (k_proc s x)" "\<And>x. p_stat (k_proc s' x) = p_stat (k_proc s x)"
      "\<And>x. p_wchan (k_proc s' x) = p_wchan (k_proc s x)" "\<And>x. resident (k_proc s' x) = resident (k_proc s x)"
      "\<And>x. p_pri (k_proc s' x) < 128"
  shows "sched_wf s'"
proof -
  obtain R Q where inv: "idle_ok s R Q" and cur: "cur_ok s R Q" using wf by (auto simp add: sched_wf_def)
  have "queues_ok s R Q" using inv by (simp add: idle_ok_def)
  from queues_ok_cong[OF this k(1-3) p(1-3)] have "idle_ok s' R Q"
    using inv by (simp add: idle_ok_def p k)
  moreover have "cur_ok s' R Q" using cur by (simp add: cur_ok_def p k)
  ultimately show ?thesis using sched_wfI[OF _ _ wf k(7,8)] by blast
qed

lemma setrun_base_sleeping:
  assumes "idle_ok s R Q" "cur_ok s R Q" "p < NPROC" "p_stat (k_proc s p) = SSLEEP" "p_wchan (k_proc s p) = None"
  shows "\<exists>s'. setrun_base p s = Inr s' \<and> idle_ok s' (p # R) Q \<and> cur_ok s' (p # R) Q \<and> only_sched s s' \<and>
    (\<forall>x. p_stat (k_proc s' x) = (if x = p then SRUN else p_stat (k_proc s x)))"
proof -
  have ok: "queues_ok s R Q" using assms(1) by (simp add: idle_ok_def)
  have pR: "p \<notin> set R" and pQ: "p \<notin> set (Q h)" for h
    using ok assms(4,5) by (fastforce simp add: queues_ok_def sleeper_def)+
  have p0: "p \<noteq> 0" "p \<noteq> procp s" using assms(1,2,4) unfolding idle_ok_def cur_ok_def by (metis pstat.distinct)+
  define t where "t = upd_proc p (\<lambda>q. q\<lparr>p_stat := SRUN\<rparr>) s"
  define v where "v = (upd_proc p (\<lambda>q. q\<lparr>p_link := k_runq t\<rparr>) t)\<lparr>k_runq := Some p\<rparr>"
  have t: "k_runq t = k_runq s" "links t = links s" by (auto simp add: t_def links_def fun_eq_iff)
  have sq: "setrq p t = v"
  proof -
    have "lchain (links t) (k_runq t) R" "length R < Suc NPROC"
      using ok queue_short[of R] t by (auto simp add: queues_ok_def less_Suc_eq_le)
    then show ?thesis using on_queue_iff[of t "k_runq t" R "Suc NPROC" p] pR by (simp add: setrq_def v_def)
  qed
  have pr: "k_proc v = (k_proc s)(p := (k_proc s p)\<lparr>p_stat := SRUN, p_link := k_runq s\<rparr>)"
    and k: "k_runq v = Some p" "k_slpque v = k_slpque s" "k_addr v = k_addr s" "k_runout v = k_runout s"
      "k_uarrp v = k_uarrp s" "procp v = procp s" "k_curpri v = k_curpri s"
    by (simp_all add: v_def t_def)
  have qv: "queues_ok v (p # R) Q"
    by (rule queues_ok_push[where f = "\<lambda>q. q\<lparr>p_stat := SRUN, p_link := k_runq s\<rparr>", OF ok pR pQ assms(3) pr])
      (use k assms(5) in simp_all)
  define w where "w = (if p_pri (k_proc v p) < k_curpri v then v\<lparr>k_runrun := to_i8 (k_runrun v + 1)\<rparr> else v)"
  have wk: "k_proc w = k_proc v" "k_runq w = k_runq v" "k_slpque w = k_slpque v" "k_addr w = k_addr v"
      "k_runout w = k_runout v" "k_uarrp w = k_uarrp v" "procp w = procp v"
    by (simp_all add: w_def)
  have "setrun_base p s = Inr w"
    using assms(4) by (simp add: setrun_base_def Let_def sq[symmetric] w_def t_def)
  moreover have qw: "queues_ok w (p # R) Q"
    using queues_ok_cong[OF qv wk(2-4)] by (simp add: wk)
  moreover have "idle_ok w (p # R) Q"
    using qw assms(1,4) p0(1) by (auto simp add: idle_ok_def wk k pr resident_def)
  moreover have "cur_ok w (p # R) Q"
    using assms(2) p0(2) by (auto simp add: cur_ok_def wk k pr)
  moreover have "only_sched s w"
    by (rule only_schedI[where pr = "k_proc w" and rq = "k_runq w" and sq = "k_slpque w" and rr = "k_runrun w" and
          l = "\<lambda>x. p_link (k_proc w x)" and w = "\<lambda>x. p_wchan (k_proc w x)" and st = "\<lambda>x. p_stat (k_proc w x)"])
      (auto simp add: w_def v_def t_def upd_proc_def)
  ultimately show ?thesis by (auto simp add: wk pr)
qed

lemma setrun_spec:
  assumes wf: "sched_wf s" and p: "p < NPROC" "p_stat (k_proc s p) = SSLEEP"
  shows "\<exists>s'. setrun p s = Inr s' \<and> sched_wf s' \<and> only_sched s s' \<and> p_stat (k_proc s' p) = SRUN \<and>
    (\<forall>x. p_stat (k_proc s' x) = p_stat (k_proc s x) \<or> p_stat (k_proc s x) = SSLEEP \<and> p_stat (k_proc s' x) = SRUN)"
proof (cases "p_wchan (k_proc s p)")
  case (Some c)
  obtain s' where w: "wakeup c s = Inr s'" "sched_wf s'" "only_sched s s'"
      "\<forall>y. if p_wchan (k_proc s y) = Some c
       then p_wchan (k_proc s' y) = None \<and> p_stat (k_proc s' y) = SRUN \<and> on_queue (Suc NPROC) s' (k_runq s') y
       else p_wchan (k_proc s' y) = p_wchan (k_proc s y) \<and> p_stat (k_proc s' y) = p_stat (k_proc s y)"
    using wakeup_spec_wf[OF wf] by blast
  have "p_stat (k_proc s x) = SSLEEP" if "p_wchan (k_proc s x) = Some c" for x
    using wf that unfolding sched_wf_def idle_ok_def queues_ok_def sleeper_def by blast
  then have "p_stat (k_proc s' x) = p_stat (k_proc s x) \<or> p_stat (k_proc s x) = SSLEEP \<and> p_stat (k_proc s' x) = SRUN" for x
    using w(4)[rule_format, of x] by (cases "p_wchan (k_proc s x) = Some c") simp_all
  then show ?thesis using w Some p(2) by (auto simp add: setrun_def)
next
  case None
  obtain R Q where inv: "idle_ok s R Q" and cur: "cur_ok s R Q" using wf by (auto simp add: sched_wf_def)
  obtain s' where b: "setrun_base p s = Inr s'" "idle_ok s' (p # R) Q" "cur_ok s' (p # R) Q" "only_sched s s'"
      "\<forall>x. p_stat (k_proc s' x) = (if x = p then SRUN else p_stat (k_proc s x))"
    using setrun_base_sleeping[OF inv cur p None] by blast
  have "k_runout s' = 0" using b(2) by (simp add: idle_ok_def)
  then have "setrun p s = Inr s'" using None p(2) b(1) by (simp add: setrun_def setrun_awake_def)
  moreover have "sched_wf s'"
    using sched_wfI[OF b(2,3) wf] only_sched_kernel[OF b(4)] by blast
  ultimately show ?thesis using b(4,5) p(2) by auto
qed

text \<open>What a signal leaves alone: the attributes by which \<open>kill\<close> and \<open>signal\<close> choose their targets.\<close>

definition same_identity :: "kernel \<Rightarrow> kernel \<Rightarrow> bool" where
  "same_identity s s' \<longleftrightarrow> u s' = u s \<and> procp s' = procp s \<and>
    (\<forall>x. p_pid (k_proc s' x) = p_pid (k_proc s x) \<and> p_pgrp (k_proc s' x) = p_pgrp (k_proc s x) \<and>
      p_uid (k_proc s' x) = p_uid (k_proc s x) \<and> p_clktim (k_proc s' x) = p_clktim (k_proc s x) \<and>
      (p_stat (k_proc s' x) = p_stat (k_proc s x) \<or> p_stat (k_proc s x) = SSLEEP \<and> p_stat (k_proc s' x) = SRUN))"

lemma only_sched_proc:
  assumes "only_sched s s'"
  shows "p_pid (k_proc s' x) = p_pid (k_proc s x)" "p_pgrp (k_proc s' x) = p_pgrp (k_proc s x)"
    "p_uid (k_proc s' x) = p_uid (k_proc s x)" "p_sig (k_proc s' x) = p_sig (k_proc s x)"
    "p_pri (k_proc s' x) = p_pri (k_proc s x)" "p_clktim (k_proc s' x) = p_clktim (k_proc s x)"
proof -
  obtain l w st where "k_proc s' x = (k_proc s x)\<lparr>p_link := l, p_wchan := w, p_stat := st\<rparr>"
    using assms unfolding only_sched_def by blast
  then show "p_pid (k_proc s' x) = p_pid (k_proc s x)" "p_pgrp (k_proc s' x) = p_pgrp (k_proc s x)"
    "p_uid (k_proc s' x) = p_uid (k_proc s x)" "p_sig (k_proc s' x) = p_sig (k_proc s x)"
    "p_pri (k_proc s' x) = p_pri (k_proc s x)" "p_clktim (k_proc s' x) = p_clktim (k_proc s x)" by simp_all
qed

lemma psignal_spec:
  assumes wf: "sched_wf s" and p: "p < NPROC" and sig: "1 \<le> sig" "sig < int NSIG"
  shows "\<exists>s'. psignal p sig s = Inr s' \<and> sched_wf s' \<and> same_identity s s' \<and>
    p_sig (k_proc s' p) = p_sig (k_proc s p) OR push_bit (nat (sig - 1)) 1 \<and>
    (\<forall>x. x \<noteq> p \<longrightarrow> p_sig (k_proc s' x) = p_sig (k_proc s x)) \<and>
    \<not> (p_stat (k_proc s' p) = SSLEEP \<and> p_pri (k_proc s' p) > PZERO)"
proof -
  have n: "\<not> to_u32 sig \<ge> int NSIG" "sig \<noteq> 0" using sig by (simp_all add: to_u32_id NSIG_def)
  define t where "t = upd_proc p (\<lambda>q. q\<lparr>p_sig := p_sig q OR push_bit (nat (sig - 1)) 1\<rparr>) s"
  define v where "v = (if p_pri (k_proc t p) > PUSER then upd_proc p (\<lambda>q. q\<lparr>p_pri := PUSER\<rparr>) t else t)"
  have pri: "p_pri (k_proc s x) < 128" for x using wf by (auto simp add: sched_wf_def idle_ok_def)
  have vk: "k_runq v = k_runq s" "k_slpque v = k_slpque s" "k_addr v = k_addr s" "k_runout v = k_runout s"
      "k_uarrp v = k_uarrp s" "procp v = procp s" "k_pages v = k_pages s" "k_mpid v = k_mpid s" "u v = u s"
    by (simp_all add: v_def t_def)
  have vp: "p_link (k_proc v x) = p_link (k_proc s x)" "p_stat (k_proc v x) = p_stat (k_proc s x)"
      "p_wchan (k_proc v x) = p_wchan (k_proc s x)" "resident (k_proc v x) = resident (k_proc s x)"
      "p_pri (k_proc v x) < 128" "p_pid (k_proc v x) = p_pid (k_proc s x)"
      "p_pgrp (k_proc v x) = p_pgrp (k_proc s x)" "p_uid (k_proc v x) = p_uid (k_proc s x)"
      "p_clktim (k_proc v x) = p_clktim (k_proc s x)"
      "p_sig (k_proc v x) = (if x = p then p_sig (k_proc s p) OR push_bit (nat (sig - 1)) 1 else p_sig (k_proc s x))" for x
    using pri[of x] by (simp_all add: v_def t_def resident_def PUSER_def)
  have wfv: "sched_wf v" by (rule sched_wf_soft[OF wf vk(1-8) vp(1-5)])
  have ps: "psignal p sig s = (if p_stat (k_proc v p) = SSLEEP \<and> p_pri (k_proc v p) > PZERO then setrun p v else Inr v)"
    using n unfolding psignal_def Let_def v_def t_def by (simp only: if_False if_True not_False_eq_True)
  show ?thesis
  proof (cases "p_stat (k_proc v p) = SSLEEP \<and> p_pri (k_proc v p) > PZERO")
    case True
    obtain s' where r: "setrun p v = Inr s'" "sched_wf s'" "only_sched v s'" "p_stat (k_proc s' p) = SRUN"
        "\<forall>x. p_stat (k_proc s' x) = p_stat (k_proc v x) \<or> p_stat (k_proc v x) = SSLEEP \<and> p_stat (k_proc s' x) = SRUN"
      using setrun_spec[OF wfv p] True by blast
    show ?thesis
      using r ps True only_sched_kernel[OF r(3)] by (auto simp add: same_identity_def only_sched_proc[OF r(3)] vp vk)
  next
    case False
    then show ?thesis using ps wfv by (auto simp add: same_identity_def vp vk)
  qed
qed

lemma same_identity_trans: "\<lbrakk>same_identity s t; same_identity t v\<rbrakk> \<Longrightarrow> same_identity s v"
  unfolding same_identity_def by (metis pstat.distinct(23))

lemma kill_target_cong: "same_identity s t \<Longrightarrow> kill_target a priv q t p = kill_target a priv q s p"
proof -
  assume i: "same_identity s t"
  then have "p_stat (k_proc t p) = SNULL \<longleftrightarrow> p_stat (k_proc s p) = SNULL" unfolding same_identity_def by (metis pstat.simps)
  then show ?thesis using i by (simp add: same_identity_def kill_target_def)
qed

lemma kill_loop_spec:
  assumes "sched_wf s" "\<forall>p \<in> set ps. p < NPROC" "distinct ps" "1 \<le> sig" "sig < int NSIG"
  shows "\<exists>s'. kill_loop a priv q sig ps f s = Inr (f + length (filter (kill_target a priv q s) ps), s') \<and>
    sched_wf s' \<and> same_identity s s' \<and>
    (\<forall>p. p_sig (k_proc s' p) = (if p \<in> set ps \<and> kill_target a priv q s p
       then p_sig (k_proc s p) OR push_bit (nat (sig - 1)) 1 else p_sig (k_proc s p)))"
  using assms
proof (induction ps arbitrary: f s)
  case Nil
  then show ?case by (simp add: same_identity_def)
next
  case (Cons p ps)
  show ?case
  proof (cases "kill_target a priv q s p")
    case True
    obtain t where t: "psignal p sig s = Inr t" "sched_wf t" "same_identity s t"
        "p_sig (k_proc t p) = p_sig (k_proc s p) OR push_bit (nat (sig - 1)) 1"
        "\<And>x. x \<noteq> p \<Longrightarrow> p_sig (k_proc t x) = p_sig (k_proc s x)"
      using psignal_spec[OF Cons.prems(1) _ Cons.prems(4,5)] Cons.prems(2) by (metis list.set_intros(1))
    note tg = kill_target_cong[OF t(3)]
    obtain s' where IH: "kill_loop a priv q sig ps (f + 1) t = Inr (f + 1 + length (filter (kill_target a priv q s) ps), s')"
        "sched_wf s'" "same_identity t s'"
        "\<forall>x. p_sig (k_proc s' x) = (if x \<in> set ps \<and> kill_target a priv q s x
          then p_sig (k_proc t x) OR push_bit (nat (sig - 1)) 1 else p_sig (k_proc t x))"
      using Cons.IH[OF t(2), of "f + 1"] Cons.prems by (auto simp add: tg)
    have "p_sig (k_proc s' x) = (if x \<in> set (p # ps) \<and> kill_target a priv q s x
          then p_sig (k_proc s x) OR push_bit (nat (sig - 1)) 1 else p_sig (k_proc s x))" for x
      using IH(4) t(4) t(5)[of x] True Cons.prems(3) by (cases "x = p") auto
    then show ?thesis
      using IH(1,2) same_identity_trans[OF t(3) IH(3)] True t(1) by auto
  next
    case False
    show ?thesis using Cons.IH[of s f] Cons.prems False by auto
  qed
qed

text \<open>The documented targets of \<open>kill(pid, sig)\<close>.\<close>

definition may_signal :: "kernel \<Rightarrow> nat \<Rightarrow> bool" where
  "may_signal s p \<longleftrightarrow> p < NPROC \<and> p_stat (k_proc s p) \<noteq> SNULL \<and>
    (if arg 0 s = 0 then 1 < p \<and> p_pgrp (k_proc s p) = p_pgrp (k_proc s (procp s))
     else if arg 0 s = - 1 \<and> u_uid (u s) = 0 then 1 < p else p_pid (k_proc s p) = arg 0 s) \<and>
    (u_uid (u s) = 0 \<or> p_uid (k_proc s p) = u_uid (u s))"

section \<open>Properties\<close>

text \<open>
  \<open>issig\<close> returns the lowest numbered pending signal that the process does not ignore, or any pending signal when the process is traced, and 0 when there is none; it discards
  exactly the ignored signals below it and changes nothing else.\<close>

theorem issig_lowest:
  assumes "issig s = (n, s')"
  shows "(if n = 0 then \<forall>i. pending_signal s i \<longrightarrow> \<not> heeded s i
      else pending_signal s n \<and> heeded s n \<and> (\<forall>i < n. pending_signal s i \<longrightarrow> \<not> heeded s i)) \<and>
    (\<forall>i. pending_signal s' i \<longleftrightarrow> pending_signal s i \<and> n \<noteq> 0 \<and> n \<le> i) \<and>
    (\<exists>w. s' = upd_proc (procp s) (\<lambda>q. q\<lparr>p_sig := w\<rparr>) s)"
proof -
  have "{k. bit (p_sig (k_proc s (procp s))) k} \<subseteq> {..< 16}" by (auto dest: bit_imp_le_length)
  then have "card {k. bit (p_sig (k_proc s (procp s))) k} \<le> 16"
    using card_mono[of "{..< 16 :: nat}"] by fastforce
  then show ?thesis using issig_loop_spec assms by (simp add: issig_def NSIG_def)
qed

text \<open>
  \<open>kill\<close> with a valid signal posts it to exactly the processes it may signal, none of them if the caller is neither the super-user nor their
  owner: every process that is not free, has the given process number (or, for 0, is in the caller's process group and not one of the first two
  entries; for -1 from the super-user, any process but those two), and belongs to the caller's effective user unless that is 0.
  It fails with \<open>ESRCH\<close> exactly when there is no such process; no other process's signals change and the scheduler's
  invariant is kept.\<close>

theorem kill_targets:
  assumes "sched_wf s" "1 \<le> arg 1 s" "arg 1 s < int NSIG"
  shows "\<exists>s'. kill s = Inr s' \<and> sched_wf s' \<and>
    (\<forall>p. p_sig (k_proc s' p) = (if may_signal s p then p_sig (k_proc s p) OR push_bit (nat (arg 1 s - 1)) 1
       else p_sig (k_proc s p))) \<and>
    u_error (u s') = (if \<exists>p. may_signal s p then u_error (u s) else ESRCH)"
proof -
  define priv where "priv = (arg 0 s = - 1 \<and> u_uid (u s) = 0)"
  define a where "a = (if priv then 0 else arg 0 s)"
  have tgt: "may_signal s p \<longleftrightarrow> p \<in> set [0 ..< NPROC] \<and> kill_target a priv (procp s) s p" for p
    by (auto simp add: may_signal_def kill_target_def a_def priv_def)
  obtain s' where k: "kill_loop a priv (procp s) (arg 1 s) [0 ..< NPROC] 0 s =
        Inr (length (filter (kill_target a priv (procp s) s) [0 ..< NPROC]), s')" "sched_wf s'" "same_identity s s'"
      "\<forall>p. p_sig (k_proc s' p) = (if p \<in> set [0 ..< NPROC] \<and> kill_target a priv (procp s) s p
         then p_sig (k_proc s p) OR push_bit (nat (arg 1 s - 1)) 1 else p_sig (k_proc s p))"
    using kill_loop_spec[OF assms(1) _ _ assms(2,3), of "[0 ..< NPROC]" a priv "procp s" 0] by auto
  define v where "v = (if \<exists>p. may_signal s p then s' else set_error ESRCH s')"
  have "filter (kill_target a priv (procp s) s) [0 ..< NPROC] = [] \<longleftrightarrow> \<not> (\<exists>p. may_signal s p)"
    by (auto simp add: filter_empty_conv tgt)
  then have "kill s = Inr v"
    using k(1) by (auto simp add: kill_def Let_def v_def priv_def[symmetric] a_def[symmetric])
  moreover have pv: "k_proc v = k_proc s'" by (simp add: v_def)
  moreover have "sched_wf v"
  proof (cases "\<exists>p. may_signal s p")
    case False
    then have "v = set_error ESRCH s'" by (simp add: v_def)
    moreover have "p_pri (k_proc s' x) < 128" for x using k(2) by (auto simp add: sched_wf_def idle_ok_def)
    ultimately show ?thesis using sched_wf_soft[OF k(2), of v] by simp
  qed (use k(2) v_def in simp)
  moreover have "u_error (u v) = (if \<exists>p. may_signal s p then u_error (u s) else ESRCH)"
    using k(3) by (simp add: v_def same_identity_def)
  ultimately show ?thesis using k(4) unfolding tgt[symmetric] by auto
qed

text \<open>
  \<open>nice\<close> keeps the nice value of every process between 0 and 39, lowers it only for the super-user, and otherwise adds the argument and clips the sum;
  another user's attempt to lower it fails with \<open>EPERM\<close> and changes nothing.\<close>

theorem nice_clamps:
  assumes "0 \<le> p_nice (k_proc s (procp s))" "p_nice (k_proc s (procp s)) < 40" "\<bar>arg 0 s\<bar> < 2 ^ 30"
  shows "p_nice (k_proc (nice s) (procp s)) =
      (if arg 0 s < 0 \<and> u_uid (u s) \<noteq> 0 then p_nice (k_proc s (procp s))
       else max 0 (min 39 (p_nice (k_proc s (procp s)) + arg 0 s))) \<and>
    u_error (u (nice s)) = (if arg 0 s < 0 \<and> u_uid (u s) \<noteq> 0 then EPERM else u_error (u s)) \<and>
    (\<forall>x. x \<noteq> procp s \<longrightarrow> k_proc (nice s) x = k_proc s x)"
proof (intro conjI)
  have pp: "procp (upd_u (\<lambda>w. w\<lparr>u_acflag := u_acflag w OR ASU\<rparr>) s) = procp s" by (simp add: procp_def)
  have i32: "to_i32 (arg 0 s + p_nice (k_proc s (procp s))) = arg 0 s + p_nice (k_proc s (procp s))"
    "to_i32 (p_nice (k_proc s (procp s))) = p_nice (k_proc s (procp s))"
    using assms by (simp_all add: to_i32_id)
  note d = nice_def suser_def Let_def pp i32 NZERO_def
  show "p_nice (k_proc (nice s) (procp s)) =
      (if arg 0 s < 0 \<and> u_uid (u s) \<noteq> 0 then p_nice (k_proc s (procp s))
       else max 0 (min 39 (p_nice (k_proc s (procp s)) + arg 0 s)))"
    using assms by (simp add: d to_i8_id)
  show "u_error (u (nice s)) = (if arg 0 s < 0 \<and> u_uid (u s) \<noteq> 0 then EPERM else u_error (u s))"
    by (simp add: d)
  show "\<forall>x. x \<noteq> procp s \<longrightarrow> k_proc (nice s) x = k_proc s x"
    by (simp add: d)
qed

subsection \<open>Instances\<close>

definition demo_pending :: kernel where
  "demo_pending = upd_u (\<lambda>w. w\<lparr>u_signal := (\<lambda>_. 0)(2 := 1)\<rparr>) (upd_proc 1 (\<lambda>p. p\<lparr>p_sig := 0x8006\<rparr>) demo_sched)"

theorem issig_lowest_witness: "fst (issig demo_pending) = 3"
proof -
  have p: "procp demo_pending = 1" "p_sig (k_proc demo_pending 1) = 0x8006" "u_signal (u demo_pending) = (\<lambda>_. 0)(2 := 1)"
      "p_flag (k_proc demo_pending 1) = SLOAD"
    by (simp_all add: demo_pending_def procp_def u_def upd_u_def upd_proc_def demo_sched_defs)
  have b: "\<not> pending_signal demo_pending 1" "pending_signal demo_pending 3" "\<not> pending_signal demo_pending 0"
    unfolding pending_signal_def p by simp_all
  have h: "\<not> heeded demo_pending 2" "heeded demo_pending 3" unfolding heeded_def p by (simp_all add: SLOAD_def STRC_def)
  obtain n s' where i: "issig demo_pending = (n, s')" by (cases "issig demo_pending")
  have "if n = 0 then \<forall>i. pending_signal demo_pending i \<longrightarrow> \<not> heeded demo_pending i
      else pending_signal demo_pending n \<and> heeded demo_pending n \<and>
        (\<forall>i < n. pending_signal demo_pending i \<longrightarrow> \<not> heeded demo_pending i)"
    using issig_lowest[OF i] by (rule conjunct1)
  then have "n \<noteq> 0" "pending_signal demo_pending n" "heeded demo_pending n" "\<not> 3 < n"
    using b h by (auto split: if_splits)
  moreover have "n \<noteq> 1" "n \<noteq> 2" using calculation b h by metis+
  ultimately have "n = 3" by linarith
  then show ?thesis using i by simp
qed

definition demo_kill :: kernel where
  "demo_kill = upd_u (\<lambda>w. w\<lparr>u_ap := [2, 9]\<rparr>) demo_sched"

lemma demo_kill_wf: "sched_wf demo_kill"
proof -
  have "p_pri (k_proc demo_sched x) < 128" for x using demo_sched_wf by (auto simp add: sched_wf_def idle_ok_def)
  then show ?thesis using sched_wf_soft[OF demo_sched_wf, of demo_kill] by (simp add: demo_kill_def procp_def)
qed

theorem kill_targets_witness:
  "\<exists>s'. kill demo_kill = Inr s' \<and> p_sig (k_proc s' 2) = 0x100 \<and> p_sig (k_proc s' 3) = 0 \<and> u_error (u s') = 0"
proof -
  have a: "arg 0 demo_kill = 2" "arg 1 demo_kill = 9" "u_uid (u demo_kill) = 0" "u_error (u demo_kill) = 0"
    by (simp_all add: arg_def demo_kill_def u_def demo_sched_defs upd_u_def)
  have p: "p_sig (k_proc demo_kill x) = 0" "p_pid (k_proc demo_kill 2) = 2" "p_pid (k_proc demo_kill 3) = 3"
      "p_stat (k_proc demo_kill 2) = SSLEEP" for x
    by (simp_all add: demo_kill_def demo_sched_defs)
  have t: "may_signal demo_kill 2" "\<not> may_signal demo_kill 3" by (simp_all add: may_signal_def a p NPROC_def)
  obtain s' where k: "kill demo_kill = Inr s'" "\<forall>p. p_sig (k_proc s' p) = (if may_signal demo_kill p
        then p_sig (k_proc demo_kill p) OR push_bit (nat (arg 1 demo_kill - 1)) 1 else p_sig (k_proc demo_kill p))"
      "u_error (u s') = (if \<exists>p. may_signal demo_kill p then u_error (u demo_kill) else ESRCH)"
    using kill_targets[OF demo_kill_wf] unfolding a by (auto simp add: NSIG_def)
  have "p_sig (k_proc s' 2) = 0x100" using k(2)[rule_format, of 2] t(1) unfolding a(2) p(1) by simp
  moreover have "p_sig (k_proc s' 3) = 0" using k(2)[rule_format, of 3] t(2) unfolding p(1) by simp
  moreover have "u_error (u s') = 0" using k(3) t(1) a(4) by auto
  ultimately show ?thesis using k(1) by blast
qed

definition demo_nice :: kernel where
  "demo_nice = upd_u (\<lambda>w. w\<lparr>u_ap := [100]\<rparr>) demo_sched"

end
