(* ===== verification/Clock.thy ===== *)
theory Clock
  imports Callout Signals
begin

text \<open>
  The clock interrupt of \<open>sys/clock.c\<close>: one tick of the callout table, the accounting of the tick to the interrupted
  process and the disk counters, and once a second the time of day, the \<open>lbolt\<close> wakeup, the alarm clocks and the decay of
  processor usage. The UART poll and the functions in the callout table are arguments.
\<close>

definition UMODE :: int where "UMODE = 0x2000"
definition INTPRI :: int where "INTPRI = 0x0700"

definition USERMODE :: "int \<Rightarrow> bool" where
  "USERMODE ps \<longleftrightarrow> ps AND UMODE = 0"

definition BASEPRI :: "int \<Rightarrow> bool" where
  "BASEPRI ps \<longleftrightarrow> ps AND INTPRI \<noteq> 0"

record 'f clockst =
  ck_callout :: "'f callo list"
  ck_kernel :: kernel
  ck_dk_busy :: int
  ck_dk_time :: "nat \<Rightarrow> int"

text \<open>The decay of \<open>p_cpu\<close>, \<open>SCHMAG\<close> being \<open>8/10\<close>.\<close>

definition cpu_decay :: "proc \<Rightarrow> int" where
  "cpu_decay p =
    (let a = take_bit 8 (p_cpu p) * 8 div 10 + p_nice p - NZERO;
         a = (if a < 0 then 0 else a)
     in if a > 255 then 255 else a)"

definition clock_proc :: "nat \<Rightarrow> kernel \<Rightarrow> string + kernel" where
  "clock_proc pp s =
    (if p_stat (k_proc s pp) = SNULL \<or> p_stat (k_proc s pp) = SZOMB \<or> p_stat (k_proc s pp) = SSTOP then Inr s
     else let s = (if p_time (k_proc s pp) \<noteq> 127
                   then upd_proc pp (\<lambda>p. p\<lparr>p_time := to_i8 (p_time p + 1)\<rparr>) s else s)
          in sbind
               (if p_clktim (k_proc s pp) \<noteq> 0 then
                  let s = upd_proc pp (\<lambda>p. p\<lparr>p_clktim := to_i32 (p_clktim p - 1)\<rparr>) s
                  in if p_clktim (k_proc s pp) = 0 then psignal pp SIGCLK s else Inr s
                else Inr s)
               (\<lambda>s. let s = upd_proc pp (\<lambda>p. p\<lparr>p_cpu := to_i8 (cpu_decay p)\<rparr>) s
                    in Inr (if p_pri (k_proc s pp) \<ge> PUSER then snd (setpri pp s) else s)))"

text \<open>What happens once a second.\<close>

definition clock_second :: "kernel \<Rightarrow> string + kernel" where
  "clock_second s =
    (let s = s\<lparr>k_lbolt := k_lbolt s - HZ, k_time := to_i32 (k_time s + 1), k_runrun := to_i8 (k_runrun s + 1)\<rparr>
     in sbind (wakeup Ch_lbolt s) (\<lambda>s.
        sbind (sfor clock_proc [0 ..< NPROC] s) (\<lambda>s.
          if k_runin s \<noteq> 0 then wakeup Ch_runin (s\<lparr>k_runin := 0\<rparr>) else Inr s)))"

text \<open>The accounting of one tick.\<close>

definition clock_charge :: "int \<Rightarrow> 'f clockst \<Rightarrow> 'f clockst" where
  "clock_charge ps st =
    (let s = ck_kernel st;
         a = take_bit 3 (ck_dk_busy st);
         (a, s) = (if USERMODE ps
                   then (a + (if p_nice (k_proc s (procp s)) > NZERO then 8 else 0),
                         upd_u (\<lambda>w. w\<lparr>u_utime := to_i32 (u_utime w + 1)\<rparr>) s)
                   else (a + 16, upd_u (\<lambda>w. w\<lparr>u_stime := to_i32 (u_stime w + 1)\<rparr>) s));
         s = upd_proc (procp s) (\<lambda>p. p\<lparr>p_cpu := to_i8 (p_cpu p + 1)\<rparr>) s;
         s = (if p_cpu (k_proc s (procp s)) = 0
              then upd_proc (procp s) (\<lambda>p. p\<lparr>p_cpu := to_i8 (p_cpu p - 1)\<rparr>) s else s)
     in st\<lparr>ck_kernel := s\<lparr>k_lbolt := to_i32 (k_lbolt s + 1)\<rparr>,
           ck_dk_time := (ck_dk_time st)(nat a := to_i32 (ck_dk_time st (nat a) + 1))\<rparr>)"

definition clock_callouts ::
  "('f \<Rightarrow> int \<Rightarrow> 'f callo list \<times> kernel \<Rightarrow> 'f callo list \<times> kernel) \<Rightarrow> int \<Rightarrow> 'f clockst \<Rightarrow> fault + 'f clockst" where
  "clock_callouts call ps st =
    (case ck_callout st of
       [] \<Rightarrow> Inl (Wild ''callout'')
     | e # r \<Rightarrow>
         if c_func e = None then Inr st
         else case callout_tick (ck_callout st) of
                None \<Rightarrow> Inl (Wild ''callout'')
              | Some tbl \<Rightarrow>
                  let st = st\<lparr>ck_callout := tbl\<rparr>
                  in if BASEPRI ps then Inr st
                     else case callout_run call (tbl, ck_kernel st) of
                            None \<Rightarrow> Inl (Wild ''callout'')
                          | Some (tbl, s) \<Rightarrow> Inr (st\<lparr>ck_callout := tbl, ck_kernel := s\<rparr>))"

definition clock ::
  "(kernel \<Rightarrow> kernel) \<Rightarrow> ('f \<Rightarrow> int \<Rightarrow> 'f callo list \<times> kernel \<Rightarrow> 'f callo list \<times> kernel) \<Rightarrow> int \<Rightarrow>
   'f clockst \<Rightarrow> fault + 'f clockst" where
  "clock uart_poll call ps st =
    (let st = (if USERMODE ps then st\<lparr>ck_kernel := uart_poll (ck_kernel st)\<rparr> else st)
     in case clock_callouts call ps st of
          Inl f \<Rightarrow> Inl f
        | Inr st \<Rightarrow>
            let st = clock_charge ps st
            in if k_lbolt (ck_kernel st) \<ge> HZ \<and> \<not> BASEPRI ps then
                 (case clock_second (ck_kernel st) of
                    Inl m \<Rightarrow> Inl (Panicked m)
                  | Inr s \<Rightarrow> Inr (st\<lparr>ck_kernel := s\<rparr>))
               else Inr st)"

section \<open>The once-a-second pass\<close>

definition clocked :: "proc \<Rightarrow> bool" where
  "clocked p \<longleftrightarrow> p_stat p \<noteq> SNULL \<and> p_stat p \<noteq> SZOMB \<and> p_stat p \<noteq> SSTOP"

definition alarm_left :: "proc \<Rightarrow> int" where
  "alarm_left p = (if p_clktim p = 0 then 0 else p_clktim p - 1)"

definition alarm_sig :: "proc \<Rightarrow> 16 word" where
  "alarm_sig p = (if p_clktim p = 1 then p_sig p OR push_bit 13 1 else p_sig p)"

text \<open>The entries a pass over some of the table leaves behind; a wakeup only turns sleepers into runnable processes.\<close>

definition stat_kept :: "proc \<Rightarrow> proc \<Rightarrow> bool" where
  "stat_kept p p' \<longleftrightarrow> p_stat p' = p_stat p \<or> p_stat p = SSLEEP \<and> p_stat p' = SRUN"

lemma stat_kept_trans: "\<lbrakk>stat_kept p q; stat_kept q r\<rbrakk> \<Longrightarrow> stat_kept p r"
  by (auto simp add: stat_kept_def)

lemma stat_keptI: "p_stat p' = p_stat p \<Longrightarrow> stat_kept p p'"
  by (simp add: stat_kept_def)

definition pass_rel :: "nat set \<Rightarrow> kernel \<Rightarrow> kernel \<Rightarrow> bool" where
  "pass_rel A s s' \<longleftrightarrow>
    (\<forall>x. (if x \<in> A \<and> clocked (k_proc s x)
       then p_clktim (k_proc s' x) = alarm_left (k_proc s x) \<and> p_sig (k_proc s' x) = alarm_sig (k_proc s x)
       else p_clktim (k_proc s' x) = p_clktim (k_proc s x) \<and> p_sig (k_proc s' x) = p_sig (k_proc s x)) \<and>
      stat_kept (k_proc s x) (k_proc s' x))"

lemma clocked_cong: "stat_kept p p' \<Longrightarrow> clocked p' \<longleftrightarrow> clocked p"
  by (auto simp add: clocked_def stat_kept_def)

lemma sched_wf_upd:
  assumes "sched_wf s" "\<And>p. p_link (f p) = p_link p" "\<And>p. p_stat (f p) = p_stat p" "\<And>p. p_wchan (f p) = p_wchan p"
    "\<And>p. p_flag (f p) = p_flag p" "\<And>p. p_addr (f p) = p_addr p" "\<And>p. p_pri p < 128 \<Longrightarrow> p_pri (f p) < 128"
  shows "sched_wf (upd_proc x f s)"
proof -
  have "p_pri (k_proc s y) < 128" for y using assms(1) by (auto simp add: sched_wf_def idle_ok_def)
  then show ?thesis by (intro sched_wf_soft[OF assms(1)]) (auto simp add: assms resident_def)
qed

lemma sched_wf_runrun: "sched_wf s \<Longrightarrow> sched_wf (s\<lparr>k_runrun := r\<rparr>)"
  by (rule sched_wf_soft[of s]) (auto simp add: sched_wf_def idle_ok_def)

lemma setpri_wf:
  assumes "sched_wf s"
  shows "sched_wf (snd (setpri p s))" "p_clktim (k_proc (snd (setpri p s)) x) = p_clktim (k_proc s x)"
    "p_sig (k_proc (snd (setpri p s)) x) = p_sig (k_proc s x)" "p_stat (k_proc (snd (setpri p s)) x) = p_stat (k_proc s x)"
proof -
  obtain r v where v: "snd (setpri p s) = upd_proc p (\<lambda>q. q\<lparr>p_pri := to_i8 v\<rparr>) (s\<lparr>k_runrun := r\<rparr>)"
  proof -
    define v where "v = fst (setpri p s)"
    define r where "r = (if v < k_curpri s then to_i8 (k_runrun s + 1) else k_runrun s)"
    have "snd (setpri p s) = upd_proc p (\<lambda>q. q\<lparr>p_pri := to_i8 v\<rparr>) (s\<lparr>k_runrun := r\<rparr>)"
      by (simp add: r_def v_def setpri_def Let_def)
    then show thesis by (rule that)
  qed
  show "sched_wf (snd (setpri p s))" unfolding v by (intro sched_wf_upd sched_wf_runrun assms) (simp_all add: to_i8_lt)
  show "p_clktim (k_proc (snd (setpri p s)) x) = p_clktim (k_proc s x)"
    "p_sig (k_proc (snd (setpri p s)) x) = p_sig (k_proc s x)" "p_stat (k_proc (snd (setpri p s)) x) = p_stat (k_proc s x)"
    unfolding v by simp_all
qed

lemma clock_proc_spec:
  assumes wf: "sched_wf s" and p: "p < NPROC" and c: "0 \<le> p_clktim (k_proc s p)" "p_clktim (k_proc s p) < 2 ^ 31"
  shows "\<exists>s'. clock_proc p s = Inr s' \<and> sched_wf s' \<and> pass_rel {p} s s'"
proof (cases "clocked (k_proc s p)")
  case False
  then have "clock_proc p s = Inr s" by (auto simp add: clock_proc_def clocked_def)
  then show ?thesis using wf False by (auto simp add: pass_rel_def stat_kept_def)
next
  case True
  define t where "t = (if p_time (k_proc s p) \<noteq> 127 then upd_proc p (\<lambda>q. q\<lparr>p_time := to_i8 (p_time q + 1)\<rparr>) s else s)"
  define t1 where "t1 = upd_proc p (\<lambda>q. q\<lparr>p_clktim := to_i32 (p_clktim q - 1)\<rparr>) t"
  define f where "f = (\<lambda>s. upd_proc p (\<lambda>q. q\<lparr>p_cpu := to_i8 (cpu_decay q)\<rparr>) s)"
  define g where "g = (\<lambda>s. if p_pri (k_proc (f s) p) \<ge> PUSER then snd (setpri p (f s)) else f s)"
  have t: "p_clktim (k_proc t x) = p_clktim (k_proc s x)" "p_sig (k_proc t x) = p_sig (k_proc s x)"
      "p_stat (k_proc t x) = p_stat (k_proc s x)" for x by (simp_all add: t_def)
  have wft: "sched_wf t" unfolding t_def using wf by (simp add: sched_wf_upd)
  have wft1: "sched_wf t1" unfolding t1_def using wft by (simp add: sched_wf_upd)
  have t1: "p_clktim (k_proc t1 x) = (if x = p then p_clktim (k_proc s p) - 1 else p_clktim (k_proc s x))"
      "p_sig (k_proc t1 x) = p_sig (k_proc s x)" "p_stat (k_proc t1 x) = p_stat (k_proc s x)" for x
    using c by (simp_all add: t1_def t to_i32_id)
  have run: "clock_proc p s = sbind (if p_clktim (k_proc t p) \<noteq> 0 then
        if p_clktim (k_proc t1 p) = 0 then psignal p SIGCLK t1 else Inr t1 else Inr t) (\<lambda>s. Inr (g s))"
    using True by (simp add: clock_proc_def clocked_def Let_def t_def[symmetric] t1_def[symmetric] f_def[symmetric] g_def)
  have g: "sched_wf (g v) \<and> (\<forall>x. p_clktim (k_proc (g v) x) = p_clktim (k_proc v x) \<and>
      p_sig (k_proc (g v) x) = p_sig (k_proc v x) \<and> p_stat (k_proc (g v) x) = p_stat (k_proc v x))" if "sched_wf v" for v
  proof -
    have "sched_wf (f v)" unfolding f_def using that by (simp add: sched_wf_upd)
    moreover have "p_clktim (k_proc (f v) x) = p_clktim (k_proc v x)" "p_sig (k_proc (f v) x) = p_sig (k_proc v x)"
      "p_stat (k_proc (f v) x) = p_stat (k_proc v x)" for x by (simp_all add: f_def)
    ultimately show ?thesis unfolding g_def using setpri_wf[of "f v"] by simp
  qed
  obtain v where v: "(if p_clktim (k_proc t p) \<noteq> 0 then
        if p_clktim (k_proc t1 p) = 0 then psignal p SIGCLK t1 else Inr t1 else Inr t) = Inr v" "sched_wf v"
      "\<And>x. p_clktim (k_proc v x) = (if x = p then alarm_left (k_proc s p) else p_clktim (k_proc s x))"
      "\<And>x. p_sig (k_proc v x) = (if x = p then alarm_sig (k_proc s p) else p_sig (k_proc s x))"
      "\<And>x. stat_kept (k_proc s x) (k_proc v x)"
  proof (cases "p_clktim (k_proc s p) = 1")
    case True
    obtain v where ps: "psignal p SIGCLK t1 = Inr v" "sched_wf v" "same_identity t1 v"
        "p_sig (k_proc v p) = p_sig (k_proc t1 p) OR push_bit (nat (SIGCLK - 1)) 1"
        "\<forall>x. x \<noteq> p \<longrightarrow> p_sig (k_proc v x) = p_sig (k_proc t1 x)"
      using psignal_spec[OF wft1 p, of SIGCLK] by (auto simp add: SIGCLK_def NSIG_def)
    have "stat_kept (k_proc t1 x) (k_proc v x)" for x using ps(3) by (simp add: same_identity_def stat_kept_def)
    moreover have "stat_kept (k_proc s x) (k_proc t1 x)" for x by (intro stat_keptI t1)
    ultimately have "stat_kept (k_proc s x) (k_proc v x)" for x using stat_kept_trans by blast
    then show ?thesis
      using that[of v] ps True by (simp add: t t1 alarm_left_def alarm_sig_def same_identity_def SIGCLK_def)
  next
    case False
    have "stat_kept (k_proc s x) (k_proc t1 x)" "stat_kept (k_proc s x) (k_proc t x)" for x
      by (intro stat_keptI t1 t)+
    then show ?thesis
      using that[of t] that[of t1] False wft wft1
      by (cases "p_clktim (k_proc s p) = 0") (simp_all add: t t1 alarm_left_def alarm_sig_def)
  qed
  have "clock_proc p s = Inr (g v)" using run v(1) by simp
  moreover have "pass_rel {p} s (g v)"
  proof -
    have "stat_kept (k_proc s x) (k_proc (g v) x)" for x
      using g[OF v(2)] stat_kept_trans[OF v(5) stat_keptI] by simp
    then show ?thesis using g[OF v(2)] v(3,4) True by (simp add: pass_rel_def)
  qed
  ultimately show ?thesis using g[OF v(2)] by blast
qed

lemma pass_rel_trans:
  assumes "pass_rel A s t" "pass_rel B t v" "A \<inter> B = {}"
  shows "pass_rel (A \<union> B) s v"
  unfolding pass_rel_def
proof
  fix x
  show "(if x \<in> A \<union> B \<and> clocked (k_proc s x)
       then p_clktim (k_proc v x) = alarm_left (k_proc s x) \<and> p_sig (k_proc v x) = alarm_sig (k_proc s x)
       else p_clktim (k_proc v x) = p_clktim (k_proc s x) \<and> p_sig (k_proc v x) = p_sig (k_proc s x)) \<and>
      stat_kept (k_proc s x) (k_proc v x)"
  proof -
    note st = assms(1)[unfolded pass_rel_def, rule_format, of x] and tv = assms(2)[unfolded pass_rel_def, rule_format, of x]
    have cl: "clocked (k_proc t x) = clocked (k_proc s x)" using st clocked_cong by blast
    have sk: "stat_kept (k_proc s x) (k_proc v x)" using st tv stat_kept_trans by blast
    show ?thesis
      using st tv assms(3) cl sk
      by (cases "x \<in> A"; cases "x \<in> B"; cases "clocked (k_proc s x)") (auto simp add: alarm_left_def alarm_sig_def)
  qed
qed

lemma clock_pass:
  assumes "sched_wf s" "\<forall>p \<in> set ps. p < NPROC \<and> 0 \<le> p_clktim (k_proc s p) \<and> p_clktim (k_proc s p) < 2 ^ 31" "distinct ps"
  shows "\<exists>s'. sfor clock_proc ps s = Inr s' \<and> sched_wf s' \<and> pass_rel (set ps) s s'"
  using assms
proof (induction ps arbitrary: s)
  case Nil
  then show ?case by (simp add: pass_rel_def stat_kept_def)
next
  case (Cons p ps)
  obtain t where t: "clock_proc p s = Inr t" "sched_wf t" "pass_rel {p} s t"
    using clock_proc_spec[OF Cons.prems(1), of p] Cons.prems(2) by auto
  have "p_clktim (k_proc t q) = p_clktim (k_proc s q)" if "q \<in> set ps" for q
    using t(3)[unfolded pass_rel_def, rule_format, of q] that Cons.prems(3) by (auto split: if_splits)
  then obtain s' where s': "sfor clock_proc ps t = Inr s'" "sched_wf s'" "pass_rel (set ps) t s'"
    using Cons.IH[OF t(2)] Cons.prems(2,3) by auto
  show ?case using t(1) s'(1,2) pass_rel_trans[OF t(3) s'(3)] Cons.prems(3) by simp
qed

lemma wakeup_pass:
  assumes "sched_wf s"
  shows "\<exists>s'. wakeup c s = Inr s' \<and> sched_wf s' \<and> pass_rel {} s s' \<and>
    (\<forall>y. p_wchan (k_proc s y) = Some c \<longrightarrow> p_stat (k_proc s' y) = SRUN)"
proof -
  obtain s' where w: "wakeup c s = Inr s'" "sched_wf s'" "only_sched s s'"
      "\<forall>y. if p_wchan (k_proc s y) = Some c
       then p_wchan (k_proc s' y) = None \<and> p_stat (k_proc s' y) = SRUN \<and> on_queue (Suc NPROC) s' (k_runq s') y
       else p_wchan (k_proc s' y) = p_wchan (k_proc s y) \<and> p_stat (k_proc s' y) = p_stat (k_proc s y)"
    using wakeup_spec_wf[OF assms] by blast
  have "p_stat (k_proc s x) = SSLEEP" if "p_wchan (k_proc s x) = Some c" for x
    using assms that unfolding sched_wf_def idle_ok_def queues_ok_def sleeper_def by blast
  then have "stat_kept (k_proc s x) (k_proc s' x)" for x
    using w(4)[rule_format, of x] by (cases "p_wchan (k_proc s x) = Some c") (simp_all add: stat_kept_def)
  then have "pass_rel {} s s'" by (simp add: pass_rel_def only_sched_proc[OF w(3)])
  then show ?thesis using w by auto
qed

section \<open>Properties\<close>

text \<open>
  Claim C27. Once a second the clock counts every running alarm clock down by one and posts the alarm signal to exactly the processes
  whose clock reaches zero; free, dead and stopped entries keep theirs, no other signal changes, the processes
  sleeping on \<open>lbolt\<close> are woken, the pass never panics and it keeps the scheduler's invariant.\<close>

theorem clock_alarms:
  assumes wf: "sched_wf s" and c: "\<forall>p. 0 \<le> p_clktim (k_proc s p) \<and> p_clktim (k_proc s p) < 2 ^ 31"
    and out: "\<forall>p \<ge> NPROC. p_stat (k_proc s p) = SNULL"
  shows "\<exists>s'. clock_second s = Inr s' \<and> sched_wf s' \<and>
    (\<forall>p. if clocked (k_proc s p)
       then p_clktim (k_proc s' p) = alarm_left (k_proc s p) \<and> p_sig (k_proc s' p) = alarm_sig (k_proc s p)
       else p_clktim (k_proc s' p) = p_clktim (k_proc s p) \<and> p_sig (k_proc s' p) = p_sig (k_proc s p)) \<and>
    (\<forall>p. sleeper s p Ch_lbolt \<longrightarrow> p_stat (k_proc s' p) = SRUN)"
proof -
  define t where "t = s\<lparr>k_lbolt := k_lbolt s - HZ, k_time := to_i32 (k_time s + 1), k_runrun := to_i8 (k_runrun s + 1)\<rparr>"
  have tp: "k_proc t = k_proc s" by (simp add: t_def)
  have pri: "p_pri (k_proc s x) < 128" for x using wf by (auto simp add: sched_wf_def idle_ok_def)
  have wft: "sched_wf t" by (rule sched_wf_soft[OF wf]) (simp_all add: t_def pri)
  obtain v where v: "wakeup Ch_lbolt t = Inr v" "sched_wf v" "pass_rel {} t v"
      "\<And>y. p_wchan (k_proc t y) = Some Ch_lbolt \<Longrightarrow> p_stat (k_proc v y) = SRUN"
    using wakeup_pass[OF wft] by metis
  have "\<forall>p \<in> set [0 ..< NPROC]. p < NPROC \<and> 0 \<le> p_clktim (k_proc v p) \<and> p_clktim (k_proc v p) < 2 ^ 31"
    using v(3) c by (simp add: pass_rel_def tp)
  then obtain w where w: "sfor clock_proc [0 ..< NPROC] v = Inr w" "sched_wf w" "pass_rel {0 ..< NPROC} v w"
    using clock_pass[OF v(2), of "[0 ..< NPROC]"] by auto
  obtain z where z: "(if k_runin w \<noteq> 0 then wakeup Ch_runin (w\<lparr>k_runin := 0\<rparr>) else Inr w) = Inr z" "sched_wf z" "pass_rel {} w z"
  proof (cases "k_runin w = 0")
    case True
    then show ?thesis using that[of w] w(2) by (simp add: pass_rel_def stat_kept_def)
  next
    case False
    have "p_pri (k_proc w x) < 128" for x using w(2) by (auto simp add: sched_wf_def idle_ok_def)
    then have wf': "sched_wf (w\<lparr>k_runin := 0\<rparr>)" by (intro sched_wf_soft[OF w(2)]) simp_all
    then obtain z where "wakeup Ch_runin (w\<lparr>k_runin := 0\<rparr>) = Inr z" "sched_wf z" "pass_rel {} (w\<lparr>k_runin := 0\<rparr>) z"
      using wakeup_pass by metis
    then show ?thesis using that[of z] False by (simp add: pass_rel_def)
  qed
  have "clock_second s = Inr z" using v(1) w(1) z(1) by (simp add: clock_second_def t_def[symmetric])
  moreover have sz: "pass_rel {0 ..< NPROC} s z"
    using pass_rel_trans[OF pass_rel_trans[OF v(3) w(3)] z(3)] by (simp add: pass_rel_def tp)
  moreover have "p \<in> {0 ..< NPROC}" if "clocked (k_proc s p)" for p
    using out that by (auto simp add: clocked_def intro: ccontr)
  moreover have "p_stat (k_proc z p) = SRUN" if "sleeper s p Ch_lbolt" for p
  proof -
    have "p_stat (k_proc v p) = SRUN" using v(4)[of p] that by (simp add: sleeper_def tp)
    moreover have "stat_kept (k_proc v p) (k_proc w p)" "stat_kept (k_proc w p) (k_proc z p)"
      using w(3) z(3) by (simp_all add: pass_rel_def)
    ultimately show ?thesis by (auto simp add: stat_kept_def)
  qed
  ultimately show ?thesis using z(2) unfolding pass_rel_def by auto
qed

text \<open>
  Every tick charges exactly one unit: the user time of the interrupted process if it was in user mode and its system time
  otherwise, and its processor usage, read as an unsigned byte, grows by one and sticks at 255 instead of wrapping to 0.\<close>

theorem clock_charges:
  assumes "- 128 \<le> p_cpu (k_proc (ck_kernel st) (procp (ck_kernel st)))"
    "p_cpu (k_proc (ck_kernel st) (procp (ck_kernel st))) < 128"
  shows "take_bit 8 (p_cpu (k_proc (ck_kernel (clock_charge ps st)) (procp (ck_kernel st)))) =
      min 255 (take_bit 8 (p_cpu (k_proc (ck_kernel st) (procp (ck_kernel st)))) + 1) \<and>
    u (ck_kernel (clock_charge ps st)) =
      (if USERMODE ps then (u (ck_kernel st))\<lparr>u_utime := to_i32 (u_utime (u (ck_kernel st)) + 1)\<rparr>
       else (u (ck_kernel st))\<lparr>u_stime := to_i32 (u_stime (u (ck_kernel st)) + 1)\<rparr>)"
proof -
  define p where "p = procp (ck_kernel st)"
  define c where "c = p_cpu (k_proc (ck_kernel st) p)"
  define c' where "c' = (if to_i8 (c + 1) = 0 then to_i8 (to_i8 (c + 1) - 1) else to_i8 (c + 1))"
  have pu: "procp (upd_u (\<lambda>w. w\<lparr>u_utime := f w\<rparr>) s) = procp s" "procp (upd_u (\<lambda>w. w\<lparr>u_stime := f w\<rparr>) s) = procp s" for f s
    by (simp_all add: procp_def)
  have p': "p_cpu (k_proc (ck_kernel (clock_charge ps st)) p) = c'"
    by (simp add: clock_charge_def Let_def pu p_def[symmetric] c_def[symmetric] c'_def)
  have bd: "- 128 \<le> c" "c < 128" using assms by (simp_all add: c_def p_def)
  have "take_bit 8 c' = min 255 (take_bit 8 c + 1)"
  proof -
    consider "c = 127" | "c = - 1" | "c < - 1" | "0 \<le> c" "c < 127" using bd by linarith
    then show ?thesis
    proof cases
      case 3
      then have e: "c' = c + 1" using bd by (simp add: c'_def to_i8_id)
      have m: "x mod 256 = x + 256" if "- 128 \<le> x" "x < 0" for x :: int
        using that mod_pos_pos_trivial[of "x + 256" 256] by simp
      have "c mod 256 = c + 256" using bd(1) 3 by (intro m) simp_all
      moreover have "(c + 1) mod 256 = c + 257" using bd(1) 3 m[of "c + 1"] by simp
      ultimately show ?thesis using e 3 by (simp add: take_bit_eq_mod)
    next
      case 4
      then show ?thesis by (simp add: c'_def to_i8_id take_bit_eq_mod)
    qed (simp_all add: c'_def to_i8_def mask_eq_exp_minus_1)
  qed
  moreover have "u (ck_kernel (clock_charge ps st)) =
      (if USERMODE ps then (u (ck_kernel st))\<lparr>u_utime := to_i32 (u_utime (u (ck_kernel st)) + 1)\<rparr>
       else (u (ck_kernel st))\<lparr>u_stime := to_i32 (u_stime (u (ck_kernel st)) + 1)\<rparr>)"
    by (simp add: clock_charge_def Let_def)
  ultimately show ?thesis using p' by (simp add: c_def p_def)
qed

subsection \<open>Instances\<close>

definition demo_alarm :: kernel where
  "demo_alarm = upd_proc 2 (\<lambda>p. p\<lparr>p_clktim := 1\<rparr>) demo_sched"

theorem clock_alarms_witness:
  "\<exists>s'. clock_second demo_alarm = Inr s' \<and> p_clktim (k_proc s' 2) = 0 \<and> p_sig (k_proc s' 2) = 0x2000 \<and>
     p_sig (k_proc s' 3) = 0 \<and> p_stat (k_proc s' 2) = SRUN"
proof -
  have wf: "sched_wf demo_alarm" unfolding demo_alarm_def by (intro sched_wf_upd demo_sched_wf) simp_all
  have c: "\<forall>p. 0 \<le> p_clktim (k_proc demo_alarm p) \<and> p_clktim (k_proc demo_alarm p) < 2 ^ 31"
    by (simp add: demo_alarm_def demo_sched_defs)
  have o: "\<forall>p \<ge> NPROC. p_stat (k_proc demo_alarm p) = SNULL" by (simp add: demo_alarm_def demo_sched_defs NPROC_def)
  have p: "clocked (k_proc demo_alarm 2)" "clocked (k_proc demo_alarm 3)" "alarm_left (k_proc demo_alarm 2) = 0"
      "alarm_sig (k_proc demo_alarm 2) = 0x2000" "alarm_sig (k_proc demo_alarm 3) = 0" "sleeper demo_alarm 2 Ch_lbolt"
    by (simp_all add: clocked_def alarm_left_def alarm_sig_def sleeper_def demo_alarm_def demo_sched_defs)
  obtain s' where s': "clock_second demo_alarm = Inr s'"
      "\<forall>p. if clocked (k_proc demo_alarm p)
       then p_clktim (k_proc s' p) = alarm_left (k_proc demo_alarm p) \<and> p_sig (k_proc s' p) = alarm_sig (k_proc demo_alarm p)
       else p_clktim (k_proc s' p) = p_clktim (k_proc demo_alarm p) \<and> p_sig (k_proc s' p) = p_sig (k_proc demo_alarm p)"
      "\<forall>p. sleeper demo_alarm p Ch_lbolt \<longrightarrow> p_stat (k_proc s' p) = SRUN"
    using clock_alarms[OF wf c o] by blast
  then show ?thesis using s'(2)[rule_format, of 2] s'(2)[rule_format, of 3] p by auto
qed

definition demo_clock :: "unit clockst" where
  "demo_clock = \<lparr>ck_callout = [], ck_kernel = upd_proc 1 (\<lambda>p. p\<lparr>p_cpu := - 1\<rparr>) demo_sched, ck_dk_busy = 0, ck_dk_time = (\<lambda>_. 0)\<rparr>"

end
