(* ===== verification/Block_Alloc.thy ===== *)
theory Block_Alloc
  imports Signals
begin

text \<open>
  Free blocks and free i-nodes: the parts of \<open>sys/alloc.c\<close> that work on the super block, over logical block
  contents. \<open>k_disk dev bno\<close> is what a read of the block returns, that is the cached buffer if there is
  one; \<open>blk_read\<close>, \<open>blk_get\<close>, \<open>blk_write\<close> and \<open>blk_dwrite\<close> are what the file system uses of the buffer
  cache. Each of the first three may wait for a buffer or for the device, so it takes one entry of the schedule (the identity when nothing
  else runs). A block on which \<open>k_ioerr\<close> holds fails with \<open>EIO\<close>. Messages on the console are not part of the state.
\<close>

section \<open>Blocks\<close>

type_synonym blk = "nat \<Rightarrow> 8 word"

definition rd16 :: "blk \<Rightarrow> nat \<Rightarrow> int" where
  "rd16 b i = 256 * uint (b i) + uint (b (i + 1))"

definition rd32 :: "blk \<Rightarrow> nat \<Rightarrow> int" where
  "rd32 b i = 16777216 * uint (b i) + 65536 * uint (b (i + 1)) + 256 * uint (b (i + 2)) + uint (b (i + 3))"

definition wr16 :: "nat \<Rightarrow> int \<Rightarrow> blk \<Rightarrow> blk" where
  "wr16 i v b = b(i := be_byte 1 v, i + 1 := be_byte 0 v)"

definition wr32 :: "nat \<Rightarrow> int \<Rightarrow> blk \<Rightarrow> blk" where
  "wr32 i v b = b(i := be_byte 3 v, i + 1 := be_byte 2 v, i + 2 := be_byte 1 v, i + 3 := be_byte 0 v)"

definition set_block :: "int \<Rightarrow> int \<Rightarrow> (blk \<Rightarrow> blk) \<Rightarrow> kernel \<Rightarrow> kernel" where
  "set_block dev bn f s = s\<lparr>k_disk := (k_disk s)(dev := (k_disk s dev)(bn := f (k_disk s dev bn)))\<rparr>"

definition blk_read :: "int \<Rightarrow> int \<Rightarrow> (kernel, bool) kern" where
  "blk_read dev bn =
    kthen kyield
      (kif (\<lambda>s. k_ioerr s dev bn) (kthen (kmod (set_error EIO)) (kret True)) (kret False))"

definition blk_get :: "int \<Rightarrow> int \<Rightarrow> (kernel, unit) kern" where
  "blk_get dev bn = kyield"

definition blk_write :: "int \<Rightarrow> int \<Rightarrow> (blk \<Rightarrow> blk) \<Rightarrow> (kernel, unit) kern" where
  "blk_write dev bn f =
    kthen (kif (\<lambda>s. k_ioerr s dev bn) (kret ()) (kmod (set_block dev bn f)))
      (kthen kyield (kwhen (\<lambda>s. k_ioerr s dev bn) (kmod (set_error EIO))))"

definition blk_dwrite :: "int \<Rightarrow> int \<Rightarrow> (blk \<Rightarrow> blk) \<Rightarrow> (kernel, unit) kern" where
  "blk_dwrite dev bn f = kmod (set_block dev bn f)"

definition BSIZE :: int where "BSIZE = 512"
definition SUPERB :: int where "SUPERB = 1"
definition ROOTINO :: int where "ROOTINO = 2"

section \<open>The super block\<close>

definition fs :: "nat \<Rightarrow> kernel \<Rightarrow> filsys" where
  "fs m s = m_filsys (k_mount s m)"

definition getfs :: "int \<Rightarrow> (kernel, nat) kern" where
  "getfs dev =
    kbind (kget (\<lambda>s. first_index NMOUNT (\<lambda>m. m_used (k_mount s m) \<and> m_dev (k_mount s m) = dev))) (\<lambda>r.
      case r of
        None \<Rightarrow> kpanic ''no fs''
      | Some m \<Rightarrow>
          kthen (kwhen (\<lambda>s. s_nfree (fs m s) > NICFREE \<or> s_ninode (fs m s) > NICINOD)
                  (kmod (upd_fs m (\<lambda>fp. fp\<lparr>s_nfree := 0, s_ninode := 0\<rparr>))))
                (kret m))"

definition badblock :: "filsys \<Rightarrow> int \<Rightarrow> bool" where
  "badblock fp bn \<longleftrightarrow> bn < s_isize fp \<or> bn \<ge> s_fsize fp"

section \<open>Blocks of a device\<close>

text \<open>
  The \<open>do \<dots> while (badblock)\<close> loop of \<open>alloc\<close>: one turn per entry of the table, so \<open>NICFREE + 1\<close> turns are
  enough; \<open>None\<close> is the jump to \<open>nospace\<close>.
\<close>

fun alloc_pop :: "nat \<Rightarrow> filsys \<Rightarrow> int option \<times> filsys" where
  "alloc_pop 0 fp = (None, fp)"
| "alloc_pop (Suc n) fp =
    (if s_nfree fp \<le> 0 then (None, fp)
     else if s_nfree fp > NICFREE then (None, fp)
     else let fp = fp\<lparr>s_nfree := s_nfree fp - 1\<rparr>;
              bno = s_free fp (nat (s_nfree fp))
          in if bno = 0 then (None, fp)
             else if badblock fp bno then alloc_pop n fp
             else (Some bno, fp))"

definition df_nfree :: "blk \<Rightarrow> int" where
  "df_nfree b = to_i16 (rd16 b 0)"

definition df_free :: "blk \<Rightarrow> nat \<Rightarrow> int" where
  "df_free b i = to_i32 (rd32 b (2 + 4 * i))"

definition load_free :: "blk \<Rightarrow> filsys \<Rightarrow> filsys" where
  "load_free b fp = fp\<lparr>s_nfree := df_nfree b, s_free := (\<lambda>i. if i < nat NICFREE then df_free b i else s_free fp i)\<rparr>"

definition store_free :: "filsys \<Rightarrow> blk \<Rightarrow> blk" where
  "store_free fp b = fold (\<lambda>i. wr32 (2 + 4 * i) (s_free fp i)) [0 ..< nat NICFREE] (wr16 0 (s_nfree fp) b)"

definition alloc_nospace :: "nat \<Rightarrow> (kernel, int option) kern" where
  "alloc_nospace m =
    kthen (kmod (upd_fs m (\<lambda>fp. fp\<lparr>s_nfree := 0\<rparr>))) (kthen (kmod (set_error ENOSPC)) (kret None))"

text \<open>The table is empty: the block just taken holds the next one.\<close>

definition alloc_refill :: "int \<Rightarrow> nat \<Rightarrow> int \<Rightarrow> (kernel, unit) kern" where
  "alloc_refill dev m bno =
    kthen (kmod (upd_fs m (\<lambda>fp. fp\<lparr>s_flock := to_i8 (s_flock fp + 1)\<rparr>)))
    (kbind (blk_read dev bno) (\<lambda>err.
     kthen (kwhen (\<lambda>_. \<not> err) (kmod (\<lambda>s. upd_fs m (load_free (k_disk s dev bno)) s)))
    (kthen (kmod (upd_fs m (\<lambda>fp. fp\<lparr>s_flock := 0\<rparr>))) (kpure (wakeup (Ch_flock m))))))"

definition alloc_take :: "int \<Rightarrow> nat \<Rightarrow> int \<Rightarrow> (kernel, int option) kern" where
  "alloc_take dev m bno =
    kthen (blk_get dev bno)
    (kthen (kmod (set_block dev bno (\<lambda>_ _. 0)))
    (kthen (kmod (upd_fs m (\<lambda>fp. fp\<lparr>s_tfree := to_i32 (s_tfree fp - 1), s_fmod := 1\<rparr>)))
      (kret (Some bno))))"

text \<open>\<open>alloc\<close> returns the number of the block whose cleared buffer the caller now holds.\<close>

definition alloc :: "int \<Rightarrow> (kernel, int option) kern" where
  "alloc dev =
    kbind (getfs dev) (\<lambda>m.
    kthen (ksleep_while (\<lambda>s. s_flock (fs m s) \<noteq> 0) (sleep (Ch_flock m) PINOD))
    (kbind (kget (\<lambda>s. alloc_pop (Suc (nat NICFREE)) (fs m s))) (\<lambda>(r, fp).
     kthen (kmod (upd_fs m (\<lambda>_. fp)))
       (case r of
          None \<Rightarrow> alloc_nospace m
        | Some bno \<Rightarrow>
            kthen (kwhen (\<lambda>s. s_nfree (fs m s) \<le> 0) (alloc_refill dev m bno))
              (kif (\<lambda>s. s_nfree (fs m s) \<le> 0) (alloc_nospace m) (alloc_take dev m bno))))))"

text \<open>The table is full: it goes into the block that is freed.\<close>

definition free_spill :: "int \<Rightarrow> nat \<Rightarrow> int \<Rightarrow> (kernel, unit) kern" where
  "free_spill dev m bno =
    kthen (kmod (upd_fs m (\<lambda>fp. fp\<lparr>s_flock := to_i8 (s_flock fp + 1)\<rparr>)))
    (kthen (blk_get dev bno)
    (kbind (kget (fs m)) (\<lambda>fp.
     kthen (kmod (upd_fs m (\<lambda>fp. fp\<lparr>s_nfree := 0\<rparr>)))
    (kthen (blk_write dev bno (store_free fp))
    (kthen (kmod (upd_fs m (\<lambda>fp. fp\<lparr>s_flock := 0\<rparr>))) (kpure (wakeup (Ch_flock m))))))))"

definition free_push :: "int \<Rightarrow> filsys \<Rightarrow> filsys" where
  "free_push bno fp =
    fp\<lparr>s_free := (s_free fp)(nat (s_nfree fp) := bno), s_nfree := to_i16 (s_nfree fp + 1),
       s_tfree := to_i32 (s_tfree fp + 1), s_fmod := 1\<rparr>"

definition free :: "int \<Rightarrow> int \<Rightarrow> (kernel, unit) kern" where
  "free dev bno =
    kbind (getfs dev) (\<lambda>m.
    kthen (kmod (upd_fs m (\<lambda>fp. fp\<lparr>s_fmod := 1\<rparr>)))
    (kthen (ksleep_while (\<lambda>s. s_flock (fs m s) \<noteq> 0) (sleep (Ch_flock m) PINOD))
    (kif (\<lambda>s. badblock (fs m s) bno) (kret ())
      (kthen (kwhen (\<lambda>s. s_nfree (fs m s) \<le> 0)
                (kmod (upd_fs m (\<lambda>fp. fp\<lparr>s_nfree := 1, s_free := (s_free fp)(0 := 0)\<rparr>))))
      (kthen (kwhen (\<lambda>s. s_nfree (fs m s) \<ge> NICFREE) (free_spill dev m bno))
        (kmod (upd_fs m (free_push bno))))))))"

section \<open>Free i-nodes\<close>

definition ifree :: "int \<Rightarrow> int \<Rightarrow> (kernel, unit) kern" where
  "ifree dev ino =
    kbind (getfs dev) (\<lambda>m.
    kthen (kmod (upd_fs m (\<lambda>fp. fp\<lparr>s_tinode := to_u16 (s_tinode fp + 1), s_fmod := 1\<rparr>)))
      (kwhen (\<lambda>s. s_ilock (fs m s) = 0 \<and> s_ninode (fs m s) < NICINOD)
        (kmod (upd_fs m (\<lambda>fp. fp\<lparr>s_inode := (s_inode fp)(nat (s_ninode fp) := to_u16 ino),
                                  s_ninode := to_i16 (s_ninode fp + 1)\<rparr>)))))"

section \<open>Bytes and numbers\<close>

lemma uint_be_byte: "uint (be_byte i v) = (v div 2 ^ (8 * i)) mod 256"
proof -
  have "x AND 255 = x mod 256" for x :: int
    using take_bit_eq_mask[of 8 x] by (simp add: take_bit_eq_mod mask_eq_exp_minus_1)
  then show ?thesis by (simp add: be_byte_def uint_word_of_int drop_bit_eq_div)
qed

lemma rd16_wr16: "rd16 (wr16 i v b) i = v mod 65536"
proof -
  have "v mod 65536 = 256 * ((v div 256) mod 256) + v mod 256"
    using zmod_zmult2_eq[of 256 v 256] by simp
  moreover have "rd16 (wr16 i v b) i = 256 * ((v div 256) mod 256) + v mod 256"
    by (simp add: rd16_def wr16_def uint_be_byte)
  ultimately show ?thesis by linarith
qed

lemma rd32_wr32: "rd32 (wr32 i v b) i = v mod 4294967296"
proof -
  have "v mod 4294967296 = 16777216 * ((v div 16777216) mod 256) + v mod 16777216"
    using zmod_zmult2_eq[of 256 v 16777216] by simp
  moreover have "v mod 16777216 = 65536 * ((v div 65536) mod 256) + v mod 65536"
    using zmod_zmult2_eq[of 256 v 65536] by simp
  moreover have "v mod 65536 = 256 * ((v div 256) mod 256) + v mod 256"
    using zmod_zmult2_eq[of 256 v 256] by simp
  moreover have "rd32 (wr32 i v b) i = 16777216 * ((v div 16777216) mod 256) + 65536 * ((v div 65536) mod 256) +
      256 * ((v div 256) mod 256) + v mod 256"
    by (simp add: rd32_def wr32_def uint_be_byte)
  ultimately show ?thesis by linarith
qed

lemma rd32_wr32_other: "\<lbrakk>j + 4 \<le> i \<or> i + 4 \<le> j\<rbrakk> \<Longrightarrow> rd32 (wr32 i v b) j = rd32 b j"
  by (auto simp add: rd32_def wr32_def)

lemma rd16_wr32_other: "\<lbrakk>j + 2 \<le> i \<or> i + 4 \<le> j\<rbrakk> \<Longrightarrow> rd16 (wr32 i v b) j = rd16 b j"
  by (auto simp add: rd16_def wr32_def)

lemma to_i16_mod: "to_i16 (v mod 65536) = to_i16 v"
  using signed_take_bit_take_bit[of 15 16 v] by (simp add: to_i16_def take_bit_eq_mod)

lemma to_i32_mod: "to_i32 (v mod 4294967296) = to_i32 v"
  using signed_take_bit_take_bit[of 31 32 v] by (simp add: to_i32_def take_bit_eq_mod)

lemma store_free_fold:
  assumes "distinct xs"
  shows "rd32 (fold (\<lambda>i. wr32 (2 + 4 * i) (g i)) xs b) (2 + 4 * j) =
      (if j \<in> set xs then g j mod 4294967296 else rd32 b (2 + 4 * j)) \<and>
    rd16 (fold (\<lambda>i. wr32 (2 + 4 * i) (g i)) xs b) 0 = rd16 b 0"
  using assms
proof (induction xs arbitrary: b)
  case (Cons i xs)
  have "rd32 (wr32 (2 + 4 * i) (g i) b) (2 + 4 * j) = (if j = i then g j mod 4294967296 else rd32 b (2 + 4 * j))"
  proof (cases "j = i")
    case False
    then have "2 + 4 * j + 4 \<le> 2 + 4 * i \<or> 2 + 4 * i + 4 \<le> 2 + 4 * j" by arith
    then show ?thesis using False by (simp add: rd32_wr32_other)
  qed (simp add: rd32_wr32)
  moreover have "rd16 (wr32 (2 + 4 * i) (g i) b) 0 = rd16 b 0" by (rule rd16_wr32_other) simp
  ultimately show ?case using Cons.IH[of "wr32 (2 + 4 * i) (g i) b"] Cons.prems by auto
qed simp

lemma load_store_free:
  "df_nfree (store_free fp b) = to_i16 (s_nfree fp)"
  "i < nat NICFREE \<Longrightarrow> df_free (store_free fp b) i = to_i32 (s_free fp i)"
  using store_free_fold[of "[0 ..< nat NICFREE]" "s_free fp" "wr16 0 (s_nfree fp) b" i]
  by (simp_all add: df_nfree_def df_free_def store_free_def rd16_wr16 to_i16_mod to_i32_mod)

section \<open>The free list\<close>

text \<open>
  \<open>free_chain d n fr L\<close>: taking blocks from a table of \<open>n\<close> entries \<open>fr\<close> yields the blocks \<open>L\<close> in this order. Entry 0
  is either the end mark or a block that holds the next table.
\<close>

inductive free_chain :: "(int \<Rightarrow> blk) \<Rightarrow> int \<Rightarrow> (nat \<Rightarrow> int) \<Rightarrow> int list \<Rightarrow> bool" for d where
  last_table: "\<lbrakk>0 < n; n \<le> NICFREE; fr 0 = 0\<rbrakk> \<Longrightarrow> free_chain d n fr (rev (map fr [1 ..< nat n]))"
| more_tables: "\<lbrakk>0 < n; n \<le> NICFREE; fr 0 \<noteq> 0; free_chain d (df_nfree (d (fr 0))) (df_free (d (fr 0))) L\<rbrakk> \<Longrightarrow>
    free_chain d n fr (rev (map fr [1 ..< nat n]) @ fr 0 # L)"

lemma free_chain_bounds: "free_chain d n fr L \<Longrightarrow> 0 < n \<and> n \<le> NICFREE"
  by (cases rule: free_chain.cases) auto

lemma free_chain_disk:
  assumes "free_chain d n fr L" "\<And>b. b \<in> set L \<Longrightarrow> d' b = d b"
  shows "free_chain d' n fr L"
  using assms
proof induction
  case (last_table n fr)
  then show ?case by (intro free_chain.last_table)
next
  case (more_tables n fr L)
  then have "d' (fr 0) = d (fr 0)" "free_chain d' (df_nfree (d (fr 0))) (df_free (d (fr 0))) L" by auto
  then show ?case using free_chain.more_tables[of n fr d' L] more_tables by simp
qed

lemma free_chain_cong:
  assumes "free_chain d n fr L" "\<And>i. i < nat n \<Longrightarrow> fr' i = fr i"
  shows "free_chain d n fr' L"
proof -
  have m: "map fr [1 ..< nat n] = map fr' [1 ..< nat n]" "fr' 0 = fr 0"
    using assms(2) free_chain_bounds[OF assms(1)] by (auto intro: map_cong)
  from assms(1) show ?thesis
  proof cases
    case last_table
    show ?thesis unfolding last_table(1) m(1) by (rule free_chain.last_table) (use last_table m in simp_all)
  next
    case (more_tables L')
    show ?thesis
      unfolding more_tables(1) m(1) m(2)[symmetric] by (rule free_chain.more_tables) (use more_tables m in simp_all)
  qed
qed

lemma free_chain_push:
  assumes "free_chain d n fr L" "n < NICFREE"
  shows "free_chain d (n + 1) (fr(nat n := b)) (b # L)"
proof -
  have n: "0 < n" using free_chain_bounds[OF assms(1)] by simp
  have m: "rev (map (fr(nat n := b)) [1 ..< nat (n + 1)]) = b # rev (map fr [1 ..< nat n])" "(fr(nat n := b)) 0 = fr 0"
    using n by (simp_all add: nat_add_distrib)
  from assms(1) show ?thesis
  proof cases
    case last_table
    then show ?thesis using free_chain.last_table[of "n + 1" "fr(nat n := b)" d, unfolded m] assms(2) n by simp
  next
    case (more_tables L')
    then show ?thesis using free_chain.more_tables[of "n + 1" "fr(nat n := b)" d L', unfolded m] assms(2) n by simp
  qed
qed

lemma free_chain_pop:
  assumes "free_chain d n fr (b # L)"
  shows "b = fr (nat (n - 1)) \<and>
    (if n = 1 then b \<noteq> 0 \<and> free_chain d (df_nfree (d b)) (df_free (d b)) L else free_chain d (n - 1) fr L)"
proof -
  have n: "0 < n" "n \<le> NICFREE" using free_chain_bounds[OF assms] by auto
  have split: "[1 ..< nat n] = (if n = 1 then [] else [1 ..< nat (n - 1)] @ [nat (n - 1)])"
  proof (cases "n = 1")
    case False
    then have "nat n = Suc (nat (n - 1))" "1 \<le> nat (n - 1)" using n by auto
    then show ?thesis using False by simp
  qed simp
  from assms show ?thesis
  proof cases
    case last_table
    then have "n \<noteq> 1" by auto
    then show ?thesis
      using last_table split free_chain.last_table[of "n - 1" fr d] n by auto
  next
    case (more_tables L')
    then show ?thesis
      using split free_chain.more_tables[of "n - 1" fr d L'] n by (cases "n = 1") auto
  qed
qed

section \<open>The routines on the free list\<close>

lemma fs_simps [simp]:
  "fs m (upd_fs m f s) = f (fs m s)" "fs m (set_error e s) = fs m s" "fs m (upd_u g s) = fs m s"
  "fs m (upd_inode i h s) = fs m s" "fs m (set_block dev bn w s) = fs m s"
  by (simp_all add: fs_def set_block_def)

lemma set_block_fields [simp]:
  "k_disk (set_block dev bn f s) = (k_disk s)(dev := (k_disk s dev)(bn := f (k_disk s dev bn)))"
  "k_mount (set_block dev bn f s) = k_mount s" "k_ioerr (set_block dev bn f s) = k_ioerr s"
  "k_inode (set_block dev bn f s) = k_inode s" "k_proc (set_block dev bn f s) = k_proc s"
  "u (set_block dev bn f s) = u s" "k_file (set_block dev bn f s) = k_file s" "k_mem (set_block dev bn f s) = k_mem s"
  by (simp_all add: set_block_def)

lemma sched_wf_files:
  assumes "sched_wf s"
  shows "sched_wf (upd_fs m f s)" "sched_wf (set_block dev bn g s)" "sched_wf (set_error e s)"
    "sched_wf (upd_inode i h s)"
  using assms by (intro sched_wf_soft[OF assms]; force simp add: set_block_def sched_wf_def idle_ok_def)+

definition mounted :: "kernel \<Rightarrow> int \<Rightarrow> nat \<Rightarrow> bool" where
  "mounted s dev m \<longleftrightarrow> first_index NMOUNT (\<lambda>m. m_used (k_mount s m) \<and> m_dev (k_mount s m) = dev) = Some m"

definition counts_ok :: "filsys \<Rightarrow> bool" where
  "counts_ok fp \<longleftrightarrow> s_nfree fp \<le> NICFREE \<and> s_ninode fp \<le> NICINOD"

lemma mounted_simps [simp]:
  "mounted (upd_fs m' f s) dev m = mounted s dev m" "mounted (set_error e s) dev m = mounted s dev m"
  "mounted (set_block d b g s) dev m = mounted s dev m" "mounted (upd_inode i h s) dev m = mounted s dev m"
  by (simp_all add: mounted_def)

lemma getfs_mounted:
  assumes "mounted s dev m" "counts_ok (fs m s)"
  shows "getfs dev es s = Ret m es s"
  using assms by (simp add: getfs_def kern_simps mounted_def counts_ok_def)

text \<open>The abstract free list of a mounted device, and the neighbours that leave the file systems alone.\<close>

definition free_list :: "kernel \<Rightarrow> int \<Rightarrow> nat \<Rightarrow> int list \<Rightarrow> bool" where
  "free_list s dev m L \<longleftrightarrow>
    (if s_nfree (fs m s) \<le> 0 then L = [] else free_chain (k_disk s dev) (s_nfree (fs m s)) (s_free (fs m s)) L)"

definition quiet :: "(kernel \<Rightarrow> kernel) \<Rightarrow> bool" where
  "quiet e \<longleftrightarrow> (\<forall>s. k_mount (e s) = k_mount s \<and> k_disk (e s) = k_disk s \<and> k_ioerr (e s) = k_ioerr s \<and>
    (sched_wf s \<longrightarrow> sched_wf (e s)))"

lemma quietD:
  assumes "quiet e"
  shows "fs m (e s) = fs m s" "k_disk (e s) = k_disk s" "k_ioerr (e s) = k_ioerr s" "sched_wf s \<Longrightarrow> sched_wf (e s)"
    "mounted (e s) dev m = mounted s dev m"
  using assms by (simp_all add: quiet_def fs_def mounted_def)

lemma alloc_pop_good:
  assumes "0 < s_nfree fp" "s_nfree fp \<le> NICFREE" "b = s_free fp (nat (s_nfree fp - 1))" "b \<noteq> 0" "\<not> badblock fp b"
  shows "alloc_pop (Suc k) fp = (Some b, fp\<lparr>s_nfree := s_nfree fp - 1\<rparr>)"
  using assms by (simp add: Let_def badblock_def)

lemma wakeup_quiet:
  assumes "sched_wf s"
  shows "\<exists>s'. kpure (wakeup c) es s = Ret () es s' \<and> sched_wf s' \<and> fs m s' = fs m s \<and> k_disk s' = k_disk s \<and>
    k_ioerr s' = k_ioerr s \<and> mounted s' dev m = mounted s dev m \<and> only_sched s s'"
proof -
  obtain s' where "wakeup c s = Inr s'" "sched_wf s'" "only_sched s s'" using wakeup_spec_wf[OF assms] by blast
  then show ?thesis using only_sched_kernel[of s s'] by (auto simp add: kpure_def fs_def mounted_def)
qed

text \<open>What the block routines keep of the super block; the free table holds 32-bit numbers.\<close>

definition fs_frame :: "filsys \<Rightarrow> filsys \<Rightarrow> bool" where
  "fs_frame fp fp' \<longleftrightarrow> s_isize fp' = s_isize fp \<and> s_fsize fp' = s_fsize fp \<and> s_ninode fp' = s_ninode fp \<and>
    s_flock fp' = 0 \<and> ((\<forall>i. to_i32 (s_free fp i) = s_free fp i) \<longrightarrow> (\<forall>i. to_i32 (s_free fp' i) = s_free fp' i))"

lemma to_i32_idem [simp]: "to_i32 (to_i32 x) = to_i32 x"
  by (simp add: to_i32_def)

lemma fs_frame_trans: "\<lbrakk>fs_frame a b; fs_frame b c\<rbrakk> \<Longrightarrow> fs_frame a c"
  by (simp add: fs_frame_def)

lemma alloc_take_spec:
  assumes "sched_wf t" "mounted t dev m" "quiet e"
  shows "\<exists>s'. alloc_take dev m b (e # es) t = Ret (Some b) es s' \<and> sched_wf s' \<and> mounted s' dev m \<and>
    s_nfree (fs m s') = s_nfree (fs m t) \<and> s_free (fs m s') = s_free (fs m t) \<and>
    k_disk s' = (k_disk t)(dev := (k_disk t dev)(b := (\<lambda>_. 0))) \<and> k_ioerr s' = k_ioerr t \<and>
    (s_flock (fs m t) = 0 \<longrightarrow> fs_frame (fs m t) (fs m s'))"
  using assms quietD(1-4)[OF assms(3)]
  by (simp add: alloc_take_def blk_get_def krun kret_def sched_wf_files quietD(5)[OF assms(3)] fs_frame_def)

lemma alloc_refill_spec:
  assumes "sched_wf t" "mounted t dev m" "\<not> k_ioerr t dev b" "quiet e"
  shows "\<exists>s'. alloc_refill dev m b (e # es) t = Ret () es s' \<and> sched_wf s' \<and> mounted s' dev m \<and>
    k_disk s' = k_disk t \<and> s_nfree (fs m s') = df_nfree (k_disk t dev b) \<and>
    (\<forall>i < nat NICFREE. s_free (fs m s') i = df_free (k_disk t dev b) i) \<and> k_ioerr s' = k_ioerr t \<and>
    fs_frame (fs m t) (fs m s')"
proof -
  define t1 where "t1 = e (upd_fs m (\<lambda>fp. fp\<lparr>s_flock := to_i8 (s_flock fp + 1)\<rparr>) t)"
  define t2 where "t2 = upd_fs m (\<lambda>fp. fp\<lparr>s_flock := 0\<rparr>) (upd_fs m (load_free (k_disk t1 dev b)) t1)"
  note q = quietD[OF assms(4)]
  have t1: "k_disk t1 = k_disk t" "k_ioerr t1 = k_ioerr t" "sched_wf t1" "mounted t1 dev m"
    unfolding t1_def using assms(1,2) by (simp_all add: q sched_wf_files)
  have rd: "blk_read dev b (e # es) (upd_fs m (\<lambda>fp. fp\<lparr>s_flock := to_i8 (s_flock fp + 1)\<rparr>) t) = Ret False es t1"
    using assms(3) t1(2) unfolding t1_def by (simp add: blk_read_def krun kret_def)
  have "alloc_refill dev m b (e # es) t = kpure (wakeup (Ch_flock m)) es t2"
    unfolding alloc_refill_def krun kbind_Ret[of "blk_read dev b", OF rd] by (simp add: krun t2_def)
  moreover have t2: "sched_wf t2" "mounted t2 dev m" "k_disk t2 = k_disk t" "s_nfree (fs m t2) = df_nfree (k_disk t dev b)"
      "\<forall>i < nat NICFREE. s_free (fs m t2) i = df_free (k_disk t dev b) i" "k_ioerr t2 = k_ioerr t" "fs_frame (fs m t) (fs m t2)"
    using t1 q(1)[of m "upd_fs m (\<lambda>fp. fp\<lparr>s_flock := to_i8 (s_flock fp + 1)\<rparr>) t", folded t1_def]
    by (simp_all add: t2_def sched_wf_files load_free_def fs_frame_def df_free_def)
  ultimately show ?thesis using wakeup_quiet[OF t2(1), of "Ch_flock m" es m dev] by fastforce
qed

lemma alloc_spec:
  assumes wf: "sched_wf s" and m: "mounted s dev m" "counts_ok (fs m s)" "s_flock (fs m s) = 0"
    and L: "free_list s dev m (b # L)" "distinct (b # L)" "\<not> badblock (fs m s) b" "0 < s_isize (fs m s)"
    and io: "\<not> k_ioerr s dev b"
    and es: "quiet e1" "quiet e2"
  shows "\<exists>s' es'. alloc dev (e1 # e2 # es) s = Ret (Some b) es' s' \<and> sched_wf s' \<and> mounted s' dev m \<and>
    free_list s' dev m L \<and> k_disk s' = (k_disk s)(dev := (k_disk s dev)(b := (\<lambda>_. 0))) \<and>
    k_ioerr s' = k_ioerr s \<and> fs_frame (fs m s) (fs m s')"
proof -
  define fp where "fp = fs m s"
  define n where "n = s_nfree fp"
  have ch: "free_chain (k_disk s dev) n (s_free fp) (b # L)" and n: "0 < n" "n \<le> NICFREE"
    using L(1) free_chain_bounds unfolding free_list_def fp_def n_def by (auto split: if_splits)
  have b0: "b \<noteq> 0" using L(3,4) by (auto simp add: badblock_def)
  note pop = free_chain_pop[OF ch]
  define fp1 where "fp1 = fp\<lparr>s_nfree := n - 1\<rparr>"
  have ap: "alloc_pop (Suc (nat NICFREE)) fp = (Some b, fp1)"
    using alloc_pop_good[of fp b "nat NICFREE"] n pop b0 L(3) unfolding fp1_def n_def fp_def by blast
  define t where "t = upd_fs m (\<lambda>_. fp1) s"
  have t: "fs m t = fp1" "k_disk t = k_disk s" "k_ioerr t = k_ioerr s" "mounted t dev m" "sched_wf t"
    using m(1) sched_wf_files(1)[OF wf] by (simp_all add: t_def)
  have fr: "fs_frame (fs m s) (fs m t)" "s_flock (fs m t) = 0" using m(3) by (simp_all add: t(1) fp1_def fp_def fs_frame_def)
  have head: "alloc dev es0 s = (if n = 1 then kthen (alloc_refill dev m b)
      (kif (\<lambda>s. s_nfree (fs m s) \<le> 0) (alloc_nospace m) (alloc_take dev m b)) es0 t else alloc_take dev m b es0 t)" for es0
  proof -
    have 1: "ksleep_while (\<lambda>s. s_flock (fs m s) \<noteq> 0) (sleep (Ch_flock m) PINOD) es0 s = Ret () es0 s"
      by (rule ksleep_while_skip) (simp add: m(3))
    have 2: "s_nfree (fs m t) = n - 1" by (simp add: t(1) fp1_def)
    show ?thesis
      unfolding alloc_def kbind_Ret[of "getfs dev", OF getfs_mounted[OF m(1,2)]]
        kthen_Ret[of "ksleep_while (\<lambda>s. s_flock (fs m s) \<noteq> 0) (sleep (Ch_flock m) PINOD)", OF 1] krun fp_def[symmetric] ap prod.case
        option.case t_def[symmetric] 2 using n by auto
  qed
  show ?thesis
  proof (cases "n = 1")
    case False
    obtain s' where s': "alloc_take dev m b (e1 # e2 # es) t = Ret (Some b) (e2 # es) s'" "sched_wf s'" "mounted s' dev m"
        "s_nfree (fs m s') = n - 1" "s_free (fs m s') = s_free fp" "k_disk s' = (k_disk s)(dev := (k_disk s dev)(b := (\<lambda>_. 0)))"
        "k_ioerr s' = k_ioerr s" "fs_frame (fs m t) (fs m s')"
      using alloc_take_spec[OF t(5,4) es(1), of b "e2 # es"] fr(2) unfolding t(1-3) by (auto simp add: fp1_def)
    have "free_chain (k_disk s' dev) (n - 1) (s_free fp) L"
      by (rule free_chain_disk[where d = "k_disk s dev"]) (use pop False L(2) s'(6) in auto)
    then have "free_list s' dev m L" using False n by (simp add: free_list_def s'(4,5))
    then show ?thesis using head False s' fs_frame_trans[OF fr(1) s'(8)] by auto
  next
    case True
    have ch': "free_chain (k_disk s dev) (df_nfree (k_disk s dev b)) (df_free (k_disk s dev b)) L" using pop True by auto
    have k: "0 < df_nfree (k_disk s dev b)" "df_nfree (k_disk s dev b) \<le> NICFREE" using free_chain_bounds[OF ch'] by auto
    have io': "\<not> k_ioerr t dev b" using io t(3) by simp
    obtain v where v: "alloc_refill dev m b (e1 # e2 # es) t = Ret () (e2 # es) v" "sched_wf v" "mounted v dev m"
        "k_disk v = k_disk s" "s_nfree (fs m v) = df_nfree (k_disk s dev b)"
        "\<forall>i < nat NICFREE. s_free (fs m v) i = df_free (k_disk s dev b) i" "k_ioerr v = k_ioerr s" "fs_frame (fs m t) (fs m v)"
      using alloc_refill_spec[OF t(5,4) io' es(1), of "e2 # es"] unfolding t(2,3) by blast
    obtain s' where s': "alloc_take dev m b (e2 # es) v = Ret (Some b) es s'" "sched_wf s'" "mounted s' dev m"
        "s_nfree (fs m s') = df_nfree (k_disk s dev b)" "s_free (fs m s') = s_free (fs m v)"
        "k_disk s' = (k_disk s)(dev := (k_disk s dev)(b := (\<lambda>_. 0)))" "k_ioerr s' = k_ioerr s" "fs_frame (fs m v) (fs m s')"
      using alloc_take_spec[OF v(2,3) es(2), of b es] v(8) unfolding v(4,5,7) by (auto simp add: fs_frame_def)
    have "free_chain (k_disk s dev) (df_nfree (k_disk s dev b)) (s_free (fs m v)) L"
      by (rule free_chain_cong[OF ch']) (use v(6) k in auto)
    then have "free_chain (k_disk s' dev) (df_nfree (k_disk s dev b)) (s_free (fs m v)) L"
      by (rule free_chain_disk) (use L(2) s'(6) in auto)
    then have "free_list s' dev m L" using k by (simp add: free_list_def s'(4,5))
    moreover have "alloc dev (e1 # e2 # es) s = Ret (Some b) es s'"
      using head True s'(1) v(5) k by (simp add: kthen_Ret[of "alloc_refill dev m b", OF v(1)] kif_run)
    ultimately show ?thesis using s' fs_frame_trans[OF fr(1) fs_frame_trans[OF v(8) s'(8)]] by auto
  qed
qed

lemma free_spill_spec:
  assumes "sched_wf t" "mounted t dev m" "\<not> k_ioerr t dev b" "quiet e1" "quiet e2"
  shows "\<exists>s' F. free_spill dev m b (e1 # e2 # es) t = Ret () es s' \<and> sched_wf s' \<and> mounted s' dev m \<and>
    k_disk s' = (k_disk t)(dev := (k_disk t dev)(b := F)) \<and> df_nfree F = to_i16 (s_nfree (fs m t)) \<and>
    (\<forall>i < nat NICFREE. df_free F i = to_i32 (s_free (fs m t) i)) \<and>
    s_nfree (fs m s') = 0 \<and> s_free (fs m s') = s_free (fs m t) \<and> k_ioerr s' = k_ioerr t \<and>
    fs_frame (fs m t) (fs m s')"
proof -
  note q1 = quietD[OF assms(4)] and q2 = quietD[OF assms(5)]
  define t1 where "t1 = e1 (upd_fs m (\<lambda>fp. fp\<lparr>s_flock := to_i8 (s_flock fp + 1)\<rparr>) t)"
  define fp where "fp = fs m t1"
  define F where "F = store_free fp (k_disk t dev b)"
  define t2 where "t2 = upd_fs m (\<lambda>fp. fp\<lparr>s_nfree := 0\<rparr>) t1"
  define t3 where "t3 = e2 (set_block dev b (store_free fp) t2)"
  define t4 where "t4 = upd_fs m (\<lambda>fp. fp\<lparr>s_flock := 0\<rparr>) t3"
  have t1: "k_disk t1 = k_disk t" "k_ioerr t1 = k_ioerr t" "sched_wf t1" "mounted t1 dev m"
      "s_nfree fp = s_nfree (fs m t)" "s_free fp = s_free (fs m t)"
    unfolding fp_def t1_def using assms(1,2) by (simp_all add: q1 sched_wf_files)
  have w: "blk_write dev b (store_free fp) (e2 # es) t2 = Ret () es t3"
    using assms(3) t1(2) by (simp add: blk_write_def kern_simps t3_def t2_def q2)
  have run: "free_spill dev m b (e1 # e2 # es) t = kpure (wakeup (Ch_flock m)) es t4"
    unfolding free_spill_def krun blk_get_def t1_def[symmetric] fp_def[symmetric] t2_def[symmetric]
      kthen_Ret[of "blk_write dev b (store_free fp)", OF w] by (simp add: t4_def)
  have t4: "sched_wf t4" "mounted t4 dev m" "k_disk t4 = (k_disk t)(dev := (k_disk t dev)(b := F))"
      "s_nfree (fs m t4) = 0" "s_free (fs m t4) = s_free (fs m t)" "k_ioerr t4 = k_ioerr t"
    using t1 by (simp_all add: t4_def t3_def t2_def q2 sched_wf_files F_def flip: fp_def)
  have "fs_frame (fs m t) (fs m t4)"
    by (simp add: t4_def t3_def t2_def t1_def q1 q2 fs_frame_def)
  moreover have F: "df_nfree F = to_i16 (s_nfree (fs m t))" "\<forall>i < nat NICFREE. df_free F i = to_i32 (s_free (fs m t) i)"
    using t1(5,6) by (simp_all add: F_def load_store_free)
  ultimately show ?thesis using run wakeup_quiet[OF t4(1), of "Ch_flock m" es m dev] t4 F by fastforce
qed

lemma free_spec:
  assumes wf: "sched_wf s" and m: "mounted s dev m" "counts_ok (fs m s)" "s_flock (fs m s) = 0"
    and L: "free_list s dev m L" "b \<notin> set L" "\<not> badblock (fs m s) b"
    and ty: "b \<noteq> 0" "to_i32 b = b" "\<forall>i. to_i32 (s_free (fs m s) i) = s_free (fs m s) i"
    and io: "\<not> k_ioerr s dev b" and es: "quiet e1" "quiet e2"
  shows "\<exists>s' es'. free dev b (e1 # e2 # es) s = Ret () es' s' \<and> sched_wf s' \<and> mounted s' dev m \<and>
    free_list s' dev m (b # L) \<and> (\<forall>x. x \<noteq> b \<longrightarrow> k_disk s' dev x = k_disk s dev x) \<and>
    k_ioerr s' = k_ioerr s \<and> fs_frame (fs m s) (fs m s')"
proof -
  define t where "t = upd_fs m (\<lambda>fp. fp\<lparr>s_fmod := 1\<rparr>) s"
  define v where "v = (if s_nfree (fs m t) \<le> 0 then upd_fs m (\<lambda>fp. fp\<lparr>s_nfree := 1, s_free := (s_free fp)(0 := 0)\<rparr>) t else t)"
  define n where "n = s_nfree (fs m v)"
  define fr where "fr = s_free (fs m v)"
  have v: "sched_wf v" "mounted v dev m" "k_disk v = k_disk s" "k_ioerr v = k_ioerr s" "\<forall>i. to_i32 (fr i) = fr i"
    unfolding fr_def v_def t_def using wf m(1) ty(3) by (auto simp add: sched_wf_files to_i32_id)
  have fv: "fs_frame (fs m s) (fs m v)"
    using m(3) by (auto simp add: v_def t_def fs_frame_def to_i32_id)
  have pf: "fs_frame fp (free_push b fp)" if "s_flock fp = 0" "to_i32 b = b" for fp
    using that by (simp add: fs_frame_def free_push_def)
  have ch: "free_chain (k_disk s dev) n fr L"
  proof (cases "s_nfree (fs m s) \<le> 0")
    case True
    then have "L = []" "n = 1" "fr 0 = 0" using L(1) by (simp_all add: free_list_def n_def fr_def v_def t_def)
    then show ?thesis using last_table[of 1 fr "k_disk s dev"] by (simp add: NICFREE_def)
  next
    case False
    then show ?thesis using L(1) by (simp add: free_list_def n_def fr_def v_def t_def)
  qed
  have n: "0 < n" "n \<le> NICFREE" using free_chain_bounds[OF ch] by auto
  have sl: "ksleep_while (\<lambda>s. s_flock (fs m s) \<noteq> 0) (sleep (Ch_flock m) PINOD) es0 t = Ret () es0 t" for es0
    by (rule ksleep_while_skip) (simp add: m(3) t_def)
  have bb: "\<not> badblock (fs m t) b" using L(3) by (simp add: t_def badblock_def)
  have run: "free dev b es0 s = kthen (kwhen (\<lambda>s. s_nfree (fs m s) \<ge> NICFREE) (free_spill dev m b))
      (kmod (upd_fs m (free_push b))) es0 v" for es0
    unfolding free_def kbind_Ret[of "getfs dev", OF getfs_mounted[OF m(1,2)]] krun t_def[symmetric]
      kthen_Ret[of "ksleep_while (\<lambda>s. s_flock (fs m s) \<noteq> 0) (sleep (Ch_flock m) PINOD)", OF sl] if_not_P[OF bb]
    by (simp add: v_def)
  show ?thesis
  proof (cases "n < NICFREE")
    case True
    define s' where "s' = upd_fs m (free_push b) v"
    have "free_chain (k_disk s dev) (n + 1) (fr(nat n := b)) (b # L)" by (rule free_chain_push[OF ch True])
    moreover have "s_nfree (fs m s') = n + 1" "s_free (fs m s') = fr(nat n := b)" "k_disk s' = k_disk s"
      using n by (simp_all add: s'_def free_push_def n_def[symmetric] fr_def[symmetric] to_i16_id NICFREE_def v)
    ultimately have "free_list s' dev m (b # L)" using n by (simp add: free_list_def)
    moreover have "free dev b (e1 # e2 # es) s = Ret () (e1 # e2 # es) s'"
      using run True by (simp add: kwhen_run n_def[symmetric]) (simp add: kmod_def s'_def)
    moreover have "fs_frame (fs m v) (fs m s')" using pf[of "fs m v"] fv ty(2) by (simp add: s'_def fs_frame_def)
    ultimately show ?thesis using v(1-4) fs_frame_trans[OF fv] by (auto simp add: s'_def sched_wf_files)
  next
    case False
    then have n50: "n = NICFREE" using n by simp
    have io': "\<not> k_ioerr v dev b" using io v(4) by simp
    obtain w F where w: "free_spill dev m b (e1 # e2 # es) v = Ret () es w" "sched_wf w" "mounted w dev m"
        "k_disk w = (k_disk s)(dev := (k_disk s dev)(b := F))" "df_nfree F = to_i16 n"
        "\<forall>i < nat NICFREE. df_free F i = to_i32 (fr i)" "s_nfree (fs m w) = 0" "s_free (fs m w) = fr"
        "k_ioerr w = k_ioerr s" "fs_frame (fs m v) (fs m w)"
      using free_spill_spec[OF v(1,2) io' es] unfolding v(3,4) n_def[symmetric] fr_def[symmetric] by blast
    define s' where "s' = upd_fs m (free_push b) w"
    have "free_chain (k_disk s dev) n (df_free F) L"
      by (rule free_chain_cong[OF ch]) (use w(6) v(5) n50 in auto)
    then have "free_chain (k_disk w dev) n (df_free F) L"
      by (rule free_chain_disk) (use L(2) w(4) in auto)
    moreover have "df_nfree F = n" "k_disk w dev b = F" using w(4,5) n by (simp_all add: to_i16_id NICFREE_def)
    ultimately have "free_chain (k_disk w dev) 1 (fr(0 := b)) (b # L)"
      using more_tables[of 1 "fr(0 := b)" "k_disk w dev" L] ty(1) by (simp add: NICFREE_def)
    moreover have "s_nfree (fs m s') = 1" "s_free (fs m s') = fr(0 := b)" "k_disk s' = k_disk w"
      by (simp_all add: s'_def free_push_def w(7,8) to_i16_id)
    ultimately have "free_list s' dev m (b # L)" by (simp add: free_list_def)
    moreover have "free dev b (e1 # e2 # es) s = Ret () es s'"
      using run False by (simp add: kwhen_run n_def[symmetric] kthen_Ret[of "free_spill dev m b", OF w(1)])
        (simp add: kmod_def s'_def)
    moreover have "\<forall>x. x \<noteq> b \<longrightarrow> k_disk s' dev x = k_disk s dev x" by (simp add: s'_def w(4))
    moreover have "fs_frame (fs m w) (fs m s')" using pf[of "fs m w"] w(10) ty(2) by (simp add: s'_def fs_frame_def)
    ultimately show ?thesis
      using w(2,3,9) fs_frame_trans[OF fs_frame_trans[OF fv w(10)]] by (auto simp add: s'_def sched_wf_files)
  qed
qed

lemma alloc_empty:
  assumes m: "mounted s dev m" "counts_ok (fs m s)" "s_flock (fs m s) = 0" and L: "free_list s dev m []"
  shows "\<exists>s'. alloc dev es s = Ret None es s' \<and> u_error (u s') = ENOSPC \<and> s_nfree (fs m s') = 0 \<and> k_disk s' = k_disk s"
proof -
  define fp where "fp = fs m s"
  have sl: "ksleep_while (\<lambda>s. s_flock (fs m s) \<noteq> 0) (sleep (Ch_flock m) PINOD) es s = Ret () es s"
    by (rule ksleep_while_skip) (simp add: m(3))
  have "\<exists>fp'. alloc_pop (Suc (nat NICFREE)) fp = (None, fp')"
  proof (cases "s_nfree fp \<le> 0")
    case False
    then have "free_chain (k_disk s dev) (s_nfree fp) (s_free fp) []" using L by (simp add: free_list_def fp_def)
    then have "s_free fp 0 = 0 \<and> s_nfree fp = 1"
      by cases (auto simp add: NICFREE_def)
    then show ?thesis using m(2) by (simp add: Let_def)
  qed simp
  then obtain fp' where ap: "alloc_pop (Suc (nat NICFREE)) fp = (None, fp')" by blast
  have "alloc dev es s = alloc_nospace m es (upd_fs m (\<lambda>_. fp') s)"
    unfolding alloc_def kbind_Ret[of "getfs dev", OF getfs_mounted[OF m(1,2)]]
      kthen_Ret[of "ksleep_while (\<lambda>s. s_flock (fs m s) \<noteq> 0) (sleep (Ch_flock m) PINOD)", OF sl] krun fp_def[symmetric] ap
    by simp
  then show ?thesis by (simp add: alloc_nospace_def kern_simps)
qed

section \<open>A pool of blocks\<close>

text \<open>What a file relies on: blocks are handed out once each, and what is put back is handed out next.\<close>

fun drain :: "('s \<Rightarrow> ('b option \<times> 's) option) \<Rightarrow> nat \<Rightarrow> 's \<Rightarrow> ('b list \<times> 's) option" where
  "drain tk 0 s = Some ([], s)"
| "drain tk (Suc n) s =
    (case tk s of
       Some (Some b, s') \<Rightarrow> map_option (\<lambda>(bs, t). (b # bs, t)) (drain tk n s')
     | _ \<Rightarrow> None)"

locale block_pool =
  fixes tk :: "'s \<Rightarrow> ('b option \<times> 's) option"
    and put :: "'b \<Rightarrow> 's \<Rightarrow> 's option"
    and pool :: "'s \<Rightarrow> 'b list \<Rightarrow> bool"
    and usable :: "'s \<Rightarrow> 'b \<Rightarrow> bool"
  assumes take_head: "pool s (b # L) \<Longrightarrow> \<exists>s'. tk s = Some (Some b, s') \<and> pool s' L"
    and take_empty: "pool s [] \<Longrightarrow> \<exists>s'. tk s = Some (None, s')"
    and put_head: "\<lbrakk>pool s L; usable s b; b \<notin> set L\<rbrakk> \<Longrightarrow> \<exists>s'. put b s = Some s' \<and> pool s' (b # L)"
begin

lemma put_take:
  assumes "pool s L" "usable s b" "b \<notin> set L"
  shows "\<exists>s1 s2. put b s = Some s1 \<and> tk s1 = Some (Some b, s2) \<and> pool s2 L"
  using put_head[OF assms] take_head by blast

lemma drain_all: "pool s L \<Longrightarrow> \<exists>s' s''. drain tk (length L) s = Some (L, s') \<and> tk s' = Some (None, s'')"
proof (induction L arbitrary: s)
  case Nil
  then show ?case using take_empty by simp
next
  case (Cons b L)
  obtain s1 where s1: "tk s = Some (Some b, s1)" "pool s1 L" using take_head[OF Cons.prems] by blast
  then show ?case using Cons.IH[OF s1(2)] by auto
qed

end

text \<open>A routine that runs while no other process does anything.\<close>

definition alone :: "(kernel, 'a) kern \<Rightarrow> kernel \<Rightarrow> ('a \<times> kernel) option" where
  "alone m s = (case m [id, id] s of Ret a es s' \<Rightarrow> Some (a, s') | _ \<Rightarrow> None)"

definition usable_block :: "nat \<Rightarrow> kernel \<Rightarrow> int \<Rightarrow> bool" where
  "usable_block m s b \<longleftrightarrow> \<not> badblock (fs m s) b \<and> to_i32 b = b"

definition device_pool :: "int \<Rightarrow> nat \<Rightarrow> kernel \<Rightarrow> int list \<Rightarrow> bool" where
  "device_pool dev m s L \<longleftrightarrow>
    sched_wf s \<and> mounted s dev m \<and> counts_ok (fs m s) \<and> s_flock (fs m s) = 0 \<and> 0 < s_isize (fs m s) \<and>
    (\<forall>i. to_i32 (s_free (fs m s) i) = s_free (fs m s) i) \<and> (\<forall>b. \<not> k_ioerr s dev b) \<and>
    free_list s dev m L \<and> distinct L \<and> (\<forall>b \<in> set L. \<not> badblock (fs m s) b)"

lemma quiet_id: "quiet id"
  by (simp add: quiet_def)

lemma free_list_counts:
  "\<lbrakk>free_list s dev m L; fs_frame fp (fs m s); counts_ok fp\<rbrakk> \<Longrightarrow> counts_ok (fs m s)"
  using free_chain_bounds[of "k_disk s dev" "s_nfree (fs m s)" "s_free (fs m s)" L]
  by (auto simp add: free_list_def counts_ok_def fs_frame_def NICFREE_def split: if_splits)

lemma device_poolI:
  assumes "device_pool dev m s L" "sched_wf s'" "mounted s' dev m" "free_list s' dev m L'" "k_ioerr s' = k_ioerr s"
    "fs_frame (fs m s) (fs m s')" "distinct L'" "\<forall>b \<in> set L'. \<not> badblock (fs m s) b"
  shows "device_pool dev m s' L'"
  using assms free_list_counts[OF assms(4,6)] by (auto simp add: device_pool_def fs_frame_def badblock_def)

interpretation fb: block_pool "alone (alloc dev)" "\<lambda>b s. map_option snd (alone (free dev b) s)" "device_pool dev m"
    "usable_block m"
  for dev m
proof (unfold_locales, goal_cases)
  case (1 s b L)
  then have "distinct (b # L)" "\<not> badblock (fs m s) b" by (simp_all add: device_pool_def)
  then obtain s' es' where "alloc dev (id # id # []) s = Ret (Some b) es' s'" "sched_wf s'" "mounted s' dev m"
      "free_list s' dev m L" "k_ioerr s' = k_ioerr s" "fs_frame (fs m s) (fs m s')"
    using alloc_spec[of s dev m b L id id "[]"] 1 quiet_id unfolding device_pool_def by blast
  moreover have "distinct L" "\<forall>x \<in> set L. \<not> badblock (fs m s) x" using 1 by (simp_all add: device_pool_def)
  ultimately show ?case using device_poolI[OF 1] by (auto simp add: alone_def)
next
  case (2 s)
  then show ?case using alloc_empty[of s dev m "[id, id]"] by (auto simp add: device_pool_def alone_def)
next
  case (3 s L b)
  have b: "b \<noteq> 0" using 3(1,2) by (auto simp add: usable_block_def device_pool_def badblock_def)
  obtain s' es' where "free dev b (id # id # []) s = Ret () es' s'" "sched_wf s'" "mounted s' dev m"
      "free_list s' dev m (b # L)" "k_ioerr s' = k_ioerr s" "fs_frame (fs m s) (fs m s')"
    using free_spec[of s dev m L b id id "[]"] 3 b quiet_id unfolding device_pool_def usable_block_def by blast
  moreover have "distinct (b # L)" "\<forall>x \<in> set (b # L). \<not> badblock (fs m s) x"
    using 3 by (simp_all add: device_pool_def usable_block_def)
  ultimately show ?case using device_poolI[OF 3(1)] by (auto simp add: alone_def)
qed

section \<open>Properties\<close>

text \<open>
  Claim C9. \<open>alloc\<close> hands out the blocks of a device's free list one by one, each exactly once and in list order, through the table in the super block
  and every table chained behind it on the disk, and then reports that there is no space.\<close>

theorem alloc_drains:
  assumes "device_pool dev m s L"
  shows "\<exists>s' s''. drain (alone (alloc dev)) (length L) s = Some (L, s') \<and> alone (alloc dev) s' = Some (None, s'')"
  by (rule fb.drain_all[OF assms])

text \<open>
  Claim C10. A block given back with \<open>free\<close> is the next one \<open>alloc\<close> returns, and the free list is then what it was before, also when the table
  in the super block was full and went out to the disk in between.\<close>

theorem free_alloc_lifo:
  assumes "device_pool dev m s L" "usable_block m s b" "b \<notin> set L"
  shows "\<exists>s1 s2. map_option snd (alone (free dev b) s) = Some s1 \<and> alone (alloc dev) s1 = Some (Some b, s2) \<and>
    device_pool dev m s2 L"
  by (rule fb.put_take[OF assms])

text \<open>
  While other processes leave the file systems alone, \<open>alloc\<close> returns the first block of the free list with its
  buffer cleared, removes only that block from the list and changes no other block; with an empty list it
  fails with \<open>ENOSPC\<close>.\<close>

theorem alloc_takes_first:
  assumes "device_pool dev m s L" "quiet e1" "quiet e2"
  shows "case L of
      [] \<Rightarrow> \<exists>s' es'. alloc dev (e1 # e2 # es) s = Ret None es' s' \<and> u_error (u s') = ENOSPC
    | b # L' \<Rightarrow> \<exists>s' es'. alloc dev (e1 # e2 # es) s = Ret (Some b) es' s' \<and> device_pool dev m s' L' \<and>
        k_disk s' = (k_disk s)(dev := (k_disk s dev)(b := (\<lambda>_. 0)))"
proof (cases L)
  case Nil
  then show ?thesis using alloc_empty[of s dev m "e1 # e2 # es"] assms(1) by (auto simp add: device_pool_def)
next
  case (Cons b L')
  then have "distinct (b # L')" "\<not> badblock (fs m s) b" using assms(1) by (simp_all add: device_pool_def)
  then obtain s' es' where a: "alloc dev (e1 # e2 # es) s = Ret (Some b) es' s'" "sched_wf s'" "mounted s' dev m"
      "free_list s' dev m L'" "k_ioerr s' = k_ioerr s" "fs_frame (fs m s) (fs m s')"
      "k_disk s' = (k_disk s)(dev := (k_disk s dev)(b := (\<lambda>_. 0)))"
    using alloc_spec[of s dev m b L' e1 e2 es] assms Cons unfolding device_pool_def by blast
  have "device_pool dev m s' L'"
    by (rule device_poolI[OF assms(1) a(2-6)]) (use assms(1) Cons in \<open>auto simp add: device_pool_def\<close>)
  then show ?thesis using a Cons by auto
qed

subsection \<open>Instances\<close>

definition demo_fs :: kernel where
  "demo_fs = demo_sched\<lparr>k_mount := (k_mount demo_sched)(0 := \<lparr>m_dev = 3, m_used = True,
     m_filsys = filsys0\<lparr>s_isize := 4, s_fsize := 100, s_nfree := 3, s_free := (\<lambda>_. 0)(1 := 50, 2 := 51)\<rparr>,
     m_inodp = None\<rparr>)\<rparr>"

lemma demo_fs_pool: "device_pool 3 0 demo_fs [51, 50]"
proof -
  have wf: "sched_wf demo_fs"
    by (intro sched_wf_soft[OF demo_sched_wf]) (use demo_sched_wf in \<open>auto simp add: demo_fs_def sched_wf_def idle_ok_def\<close>)
  have f: "fs 0 demo_fs = filsys0\<lparr>s_isize := 4, s_fsize := 100, s_nfree := 3, s_free := (\<lambda>_. 0)(1 := 50, 2 := 51)\<rparr>"
    by (simp add: fs_def demo_fs_def)
  have "free_chain d 3 ((\<lambda>_. 0)(1 := 50, 2 := 51)) (rev (map ((\<lambda>_. 0)(1 := 50, 2 := 51)) [1 ..< nat 3]))" for d
    by (rule last_table) (simp_all add: NICFREE_def)
  then have "free_list demo_fs 3 0 [51, 50]" by (simp add: free_list_def f upt_rec)
  moreover have "mounted demo_fs 3 0" by (simp add: mounted_def first_index_Some demo_fs_def NMOUNT_def)
  moreover have "\<forall>b. \<not> k_ioerr demo_fs 3 b" by (simp add: demo_fs_def demo_sched_defs)
  ultimately show ?thesis
    using wf by (simp add: device_pool_def counts_ok_def f NICFREE_def NICINOD_def filsys0_def badblock_def to_i32_id)
qed

theorem alloc_drains_witness:
  "\<exists>s' s''. drain (alone (alloc 3)) 2 demo_fs = Some ([51, 50], s') \<and> alone (alloc 3) s' = Some (None, s'')"
  using alloc_drains[OF demo_fs_pool] by (simp add: numeral_2_eq_2)

theorem free_alloc_lifo_witness:
  "\<exists>s1 s2. map_option snd (alone (free 3 60) demo_fs) = Some s1 \<and> alone (alloc 3) s1 = Some (Some 60, s2) \<and>
    device_pool 3 0 s2 [51, 50]"
  by (rule free_alloc_lifo[OF demo_fs_pool])
    (simp_all add: usable_block_def badblock_def fs_def demo_fs_def to_i32_id)

end
