(* ===== verification/Kernel_Frames.thy ===== *)
theory Kernel_Frames
  imports Block_Alloc
begin

text \<open>
  What the scheduler and the block routines leave alone. A view of the kernel that does not look at processes, queues and user
  areas cannot see a sleep, a wakeup or a switch; one that also ignores super blocks and block contents cannot see \<open>alloc\<close>,
  \<open>free\<close> and \<open>ifree\<close>. Invariants of such views are kept by these routines whatever the other processes do, as long
  as they keep the invariant too.
\<close>

section \<open>Views the scheduler does not touch\<close>

locale sched_view =
  fixes view :: "kernel \<Rightarrow> 'v"
  assumes view_proc: "view (k_proc_update f s) = view s"
    and view_slpque: "view (k_slpque_update f2 s) = view s"
    and view_runq: "view (k_runq_update f3 s) = view s"
    and view_runrun: "view (k_runrun_update f4 s) = view s"
    and view_runout: "view (k_runout_update f5 s) = view s"
    and view_runin: "view (k_runin_update f6 s) = view s"
    and view_curpri: "view (k_curpri_update f7 s) = view s"
    and view_uarrp: "view (k_uarrp_update f8 s) = view s"
    and view_uarea: "view (k_uarea_update f9 s) = view s"
begin

lemmas view_sched = view_proc view_slpque view_runq view_runrun view_runout view_runin view_curpri view_uarrp view_uarea

lemma view_upd: "view (upd_proc p f s) = view s" "view (upd_u h s) = view s" "view (set_error e s) = view s"
  by (simp_all add: upd_proc_def upd_u_def set_error_def view_sched)

lemma view_setrq: "view (setrq p s) = view s"
  by (simp add: setrq_def view_sched view_upd)

lemma view_setrun_base: "setrun_base p s = Inr s' \<Longrightarrow> view s' = view s"
  by (auto simp add: setrun_base_def Let_def view_sched view_upd view_setrq split: if_splits)

lemma view_wakeup_scan:
  assumes run: "\<And>x t t'. run x t = Inr t' \<Longrightarrow> view t' = view t"
  shows "wakeup_scan n run c i q p s = Inr s' \<Longrightarrow> view s' = view s"
proof (induction n arbitrary: q p s)
  case (Suc n)
  show ?case
  proof (cases p)
    case (Some x)
    define t where "t = upd_proc x (\<lambda>r. r\<lparr>p_wchan := None\<rparr>) (case q of
        None \<Rightarrow> s\<lparr>k_slpque := (k_slpque s)(i := p_link (k_proc s x))\<rparr>
      | Some y \<Rightarrow> upd_proc y (\<lambda>r. r\<lparr>p_link := p_link (k_proc s x)\<rparr>) s)"
    have t: "view t = view s" by (simp add: t_def view_upd view_sched split: option.split)
    show ?thesis
    proof (cases "p_wchan (k_proc s x) = Some c \<and> p_stat (k_proc s x) \<noteq> SZOMB")
      case True
      then have "sbind (run x t) (wakeup_scan n run c i q (p_link (k_proc s x))) = Inr s'"
        using Suc.prems Some by (simp add: Let_def t_def)
      then obtain v where "run x t = Inr v" "wakeup_scan n run c i q (p_link (k_proc s x)) v = Inr s'"
        by (cases "run x t") simp_all
      then show ?thesis using Suc.IH run t by metis
    next
      case False
      then have "wakeup_scan n run c i (Some x) (p_link (k_proc s x)) s = Inr s'"
        using Suc.prems Some by auto
      then show ?thesis by (rule Suc.IH)
    qed
  qed (use Suc.prems in simp)
qed simp

lemma view_setrun_awake: "setrun_awake p s = Inr s' \<Longrightarrow> view s' = view s"
proof -
  assume r: "setrun_awake p s = Inr s'"
  then obtain t where t: "setrun_base p s = Inr t" by (cases "setrun_base p s") (simp_all add: setrun_awake_def)
  show "view s' = view s"
  proof (cases "k_runout t \<noteq> 0 \<and> p_flag (k_proc t p) AND SLOAD = 0")
    case True
    then have "wakeup_with setrun_base Ch_runout (t\<lparr>k_runout := 0\<rparr>) = Inr s'" using r t by (simp add: setrun_awake_def)
    then have "view s' = view (t\<lparr>k_runout := 0\<rparr>)"
      unfolding wakeup_with_def by (rule view_wakeup_scan[rotated]) (rule view_setrun_base)
    then show ?thesis using view_setrun_base[OF t] by (simp add: view_sched)
  next
    case False
    then have "s' = t" using r t by (auto simp add: setrun_awake_def)
    then show ?thesis using view_setrun_base[OF t] by simp
  qed
qed

lemma view_wakeup: "wakeup c s = Inr s' \<Longrightarrow> view s' = view s"
  unfolding wakeup_def wakeup_with_def by (erule view_wakeup_scan[rotated]) (rule view_setrun_awake)

lemma view_setrun: "setrun p s = Inr s' \<Longrightarrow> view s' = view s"
  using view_wakeup view_setrun_awake by (auto simp add: setrun_def split: if_splits option.splits)

lemma view_psignal: "psignal p sig s = Inr s' \<Longrightarrow> view s' = view s"
  using view_setrun by (fastforce simp add: psignal_def Let_def view_upd split: if_splits)

lemma view_switch_to: "switch_to p n s = Inr s' \<Longrightarrow> view s' = view s"
  by (auto simp add: switch_to_def Let_def view_upd view_sched split: if_splits)

lemma view_swtch_pick: "swtch_pick s = Inr (r, s') \<Longrightarrow> view s' = view s"
  by (auto simp add: swtch_pick_def Let_def view_upd view_sched split: if_splits prod.splits option.splits sum.splits
      dest!: view_switch_to)

lemma view_issig_loop: "issig_loop n s = (r, s') \<Longrightarrow> view s' = view s"
proof (induction n arbitrary: s)
  case (Suc n)
  then show ?case by (auto simp add: Let_def view_upd split: if_splits dest!: Suc.IH)
qed simp

lemma kinv_wakeup [kinv_intro]: "kinv (\<lambda>s. P (view s)) (kpure (wakeup c))"
  by (rule kinvI) (auto simp add: kpure_def view_wakeup split: sum.split)

lemma kinv_psignal [kinv_intro]: "kinv (\<lambda>s. P (view s)) (kpure (psignal p sig))"
  by (rule kinvI) (auto simp add: kpure_def view_psignal split: sum.split)

lemma kinv_upd [kinv_intro]:
  "kinv (\<lambda>s. P (view s)) (kmod (upd_proc p f))" "kinv (\<lambda>s. P (view s)) (kmod (upd_u h))"
  "kinv (\<lambda>s. P (view s)) (kmod (set_error e))"
  by (rule kinv_kmod, simp add: view_upd)+

lemma kinv_kissig [kinv_intro]: "kinv (\<lambda>s. P (view s)) kissig"
  by (rule kinvI) (auto simp add: kissig_def issig_def dest!: view_issig_loop split: prod.split)

lemma kinv_swtch [kinv_intro]: "kinv (\<lambda>s. P (view s)) swtch"
proof (rule kinvI)
  fix es s
  assume env: "env_keeps (\<lambda>s. P (view s)) es" and P: "P (view s)"
  show "outcome_all (\<lambda>s. P (view s)) (swtch es s) \<and> env_keeps (\<lambda>s. P (view s)) (rest_of (swtch es s) es)"
  proof (cases "swtch_pick s")
    case (Inr r)
    obtain p s' where r: "r = (p, s')" by (cases r)
    have v: "P (view s')" using view_swtch_pick[of s p s'] Inr r P by simp
    show ?thesis
      using v env kinvD[OF kinv_kyield env v] Inr r by (cases p) (auto simp add: swtch_def)
  qed (use env P in \<open>simp add: swtch_def\<close>)
qed

lemma kinv_sleep [kinv_intro]: "kinv (\<lambda>s. P (view s)) (sleep c pri)"
proof -
  have e: "kinv (\<lambda>s. P (view s)) (kmod (sleep_enter c pri))"
    by (rule kinv_kmod) (simp add: sleep_enter_def Let_def view_upd view_sched)
  have x: "kinv (\<lambda>s. P (view s)) (kmod (sleep_cancel rp h))" for rp h
    by (rule kinv_kmod) (simp add: sleep_cancel_def Let_def view_upd view_sched)
  have r: "kinv (\<lambda>s. P (view s)) (kmod (\<lambda>s. s\<lparr>k_runin := 0\<rparr>))"
    by (rule kinv_kmod) (simp add: view_sched)
  show ?thesis
    unfolding sleep_def by (intro kinv_kbind kinv_kget, split prod.split, intro allI impI kinv_kthen e)
      (auto intro!: kinv_intro x r simp: )
qed

end

section \<open>Views the block routines do not touch\<close>

locale block_view = sched_view +
  assumes view_mount: "view (k_mount_update f10 s) = view s"
    and view_disk: "view (k_disk_update f11 s) = view s"
begin

lemma kinv_blk [kinv_intro]:
  "kinv (\<lambda>s. P (view s)) (blk_read dev bn)" "kinv (\<lambda>s. P (view s)) (blk_get dev bn)"
  "kinv (\<lambda>s. P (view s)) (blk_write dev bn g)" "kinv (\<lambda>s. P (view s)) (blk_dwrite dev bn g)"
  "kinv (\<lambda>s. P (view s)) (kmod (set_block dev bn g))" "kinv (\<lambda>s. P (view s)) (kmod (upd_fs m h))"
proof -
  show b: "kinv (\<lambda>s. P (view s)) (kmod (set_block dev bn g))" "kinv (\<lambda>s. P (view s)) (kmod (upd_fs m h))"
    by (rule kinv_kmod, simp add: set_block_def upd_fs_def view_disk view_mount)+
  show "kinv (\<lambda>s. P (view s)) (blk_read dev bn)" "kinv (\<lambda>s. P (view s)) (blk_get dev bn)"
    "kinv (\<lambda>s. P (view s)) (blk_write dev bn g)" "kinv (\<lambda>s. P (view s)) (blk_dwrite dev bn g)"
    unfolding blk_read_def blk_get_def blk_write_def blk_dwrite_def by (intro kinv_intro b)+
qed

lemma kinv_getfs [kinv_intro]: "kinv (\<lambda>s. P (view s)) (getfs dev)"
  unfolding getfs_def by (intro kinv_kbind kinv_kget, split option.split) (intro conjI allI impI kinv_intro)

lemma kinv_alloc [kinv_intro]: "kinv (\<lambda>s. P (view s)) (alloc dev)"
proof -
  have l: "kinv (\<lambda>s. P (view s)) (kmod (\<lambda>s. upd_fs m (load_free (k_disk s dev bno)) s))" for m bno
    by (rule kinv_kmod) (simp add: upd_fs_def view_mount)
  have n: "kinv (\<lambda>s. P (view s)) (alloc_nospace m)" for m
    unfolding alloc_nospace_def by (intro kinv_intro)
  have t: "kinv (\<lambda>s. P (view s)) (alloc_take dev m bno)" for m bno
    unfolding alloc_take_def by (intro kinv_intro)
  have r: "kinv (\<lambda>s. P (view s)) (alloc_refill dev m bno)" for m bno
    unfolding alloc_refill_def by (intro kinv_intro l)
  show ?thesis
    unfolding alloc_def
    by (intro kinv_kbind kinv_getfs kinv_kthen kinv_ksleep_while kinv_sleep kinv_kget, split prod.split, intro allI impI
        kinv_kthen kinv_blk(6), split option.split, intro conjI allI impI n kinv_kthen kinv_kwhen r kinv_kif t)
qed

lemma kinv_free [kinv_intro]: "kinv (\<lambda>s. P (view s)) (free dev bno)"
  unfolding free_def free_spill_def by (intro kinv_intro)

lemma kinv_ifree [kinv_intro]: "kinv (\<lambda>s. P (view s)) (ifree dev n)"
  unfolding ifree_def by (intro kinv_intro)

end

interpretation iv: block_view k_inode
  by unfold_locales simp_all

interpretation fv: block_view k_file
  by unfold_locales simp_all

interpretation ifv: block_view "\<lambda>s. (k_inode s, k_file s)"
  by unfold_locales simp_all

interpretation dv: sched_view "\<lambda>s. (k_mount s, k_disk s)"
  by unfold_locales simp_all

end
