(* ===== verification/Inode_Table.thy ===== *)
theory Inode_Table
  imports Kernel_Frames
begin

text \<open>
  The table of in-core i-nodes: \<open>sys/iget.c\<close> without directory entries, the lock routines \<open>plock\<close> and \<open>prele\<close> of
  \<open>sys/pipe.c\<close>, and \<open>ialloc\<close> and \<open>update\<close> of \<open>sys/alloc.c\<close>. An i-node is an index of \<open>k_inode\<close>; its
  image on the disk is 64 bytes of a block, most significant byte first.
\<close>

section \<open>I-nodes on the disk\<close>

definition itod :: "int \<Rightarrow> int" where
  "itod x = to_u32 (x + 15) div 8"

definition itoo :: "int \<Rightarrow> nat" where
  "itoo x = nat (take_bit 3 (x + 15))"

definition INOPB :: nat where "INOPB = 8"

definition iaddr_from_disk :: "nat \<Rightarrow> blk \<Rightarrow> nat \<Rightarrow> int" where
  "iaddr_from_disk off b i =
    65536 * uint (b (off + 3 * i)) + 256 * uint (b (off + 3 * i + 1)) + uint (b (off + 3 * i + 2))"

definition iaddr_to_disk :: "nat \<Rightarrow> (nat \<Rightarrow> int) \<Rightarrow> blk \<Rightarrow> blk" where
  "iaddr_to_disk off a =
    fold (\<lambda>i b. b(off + 3 * i := be_byte 2 (a i), off + 3 * i + 1 := be_byte 1 (a i), off + 3 * i + 2 := be_byte 0 (a i)))
      [0 ..< NADDR]"

definition iexpand :: "nat \<Rightarrow> blk \<Rightarrow> inode \<Rightarrow> inode" where
  "iexpand off b ip =
    ip\<lparr>i_mode := word_of_int (rd16 b off), i_nlink := to_i16 (rd16 b (off + 2)), i_uid := to_i16 (rd16 b (off + 4)),
       i_gid := to_i16 (rd16 b (off + 6)), i_size := to_i32 (rd32 b (off + 8)),
       i_addr := (\<lambda>i. if i < NADDR then iaddr_from_disk (off + 12) b i else i_addr ip i)\<rparr>"

text \<open>The stores of \<open>iupdat\<close> into the disk i-node at offset \<open>off\<close>.\<close>

definition dinode_store :: "nat \<Rightarrow> inode \<Rightarrow> int \<Rightarrow> int \<Rightarrow> int \<Rightarrow> blk \<Rightarrow> blk" where
  "dinode_store off ip ta tm now b =
    (let b = wr16 off (uint (i_mode ip)) b;
         b = wr16 (off + 2) (i_nlink ip) b;
         b = wr16 (off + 4) (i_uid ip) b;
         b = wr16 (off + 6) (i_gid ip) b;
         b = wr32 (off + 8) (i_size ip) b;
         b = iaddr_to_disk (off + 12) (i_addr ip) b;
         b = (if i_flag ip AND IACC \<noteq> 0 then wr32 (off + 52) ta b else b);
         b = (if i_flag ip AND IUPD \<noteq> 0 then wr32 (off + 56) tm b else b)
     in if i_flag ip AND ICHG \<noteq> 0 then wr32 (off + 60) now b else b)"

section \<open>Locks\<close>

definition ino :: "nat \<Rightarrow> kernel \<Rightarrow> inode" where
  "ino ip s = k_inode s ip"

definition set_iflag :: "nat \<Rightarrow> 8 word \<Rightarrow> kernel \<Rightarrow> kernel" where
  "set_iflag ip m = upd_inode ip (\<lambda>i. i\<lparr>i_flag := i_flag i OR m\<rparr>)"

definition clr_iflag :: "nat \<Rightarrow> 8 word \<Rightarrow> kernel \<Rightarrow> kernel" where
  "clr_iflag ip m = upd_inode ip (\<lambda>i. i\<lparr>i_flag := i_flag i AND NOT m\<rparr>)"

definition plock :: "nat \<Rightarrow> (kernel, unit) kern" where
  "plock ip =
    kthen (ksleep_while (\<lambda>s. i_flag (ino ip s) AND ILOCK \<noteq> 0)
             (kthen (kmod (set_iflag ip IWANT)) (sleep (Ch_inode ip 0) PINOD)))
          (kmod (set_iflag ip ILOCK))"

definition prele :: "nat \<Rightarrow> (kernel, unit) kern" where
  "prele ip =
    kthen (kmod (clr_iflag ip ILOCK))
      (kwhen (\<lambda>s. i_flag (ino ip s) AND IWANT \<noteq> 0)
        (kthen (kmod (clr_iflag ip IWANT)) (kpure (wakeup (Ch_inode ip 0)))))"

section \<open>Writing back and truncating\<close>

definition iupdat :: "nat \<Rightarrow> (kernel \<Rightarrow> int) \<Rightarrow> (kernel \<Rightarrow> int) \<Rightarrow> (kernel, unit) kern" where
  "iupdat ip ta tm =
    kwhen (\<lambda>s. i_flag (ino ip s) AND (IUPD OR IACC OR ICHG) \<noteq> 0)
      (kbind (kget (\<lambda>s. (i_dev (ino ip s), i_number (ino ip s)))) (\<lambda>(dev, n).
       kbind (getfs dev) (\<lambda>m.
       kif (\<lambda>s. s_ronly (fs m s) \<noteq> 0) (kret ())
         (kbind (blk_read dev (itod n)) (\<lambda>err.
            if err then kret ()
            else kthen (kmod (\<lambda>s. set_block dev (itod n)
                         (dinode_store (64 * itoo (i_number (ino ip s))) (ino ip s) (ta s) (tm s) (k_time s)) s))
                       (kmod (clr_iflag ip (IUPD OR IACC OR ICHG))))))))"

text \<open>
  \<open>tloop(dev, bn, f1, f2)\<close> for \<open>(f1, f2)\<close> = (0, 0), (1, 0), (1, 1) is level 0, 1, 2. The scan goes down
  the 128 addresses of the block and returns whether it reached the end; \<open>have\<close> says that the buffer is held, and
  the recursive call gives it up.
\<close>

definition NINDIR :: nat where "NINDIR = 128"

definition daddr_at :: "blk \<Rightarrow> nat \<Rightarrow> int" where
  "daddr_at b i = to_i32 (rd32 b (4 * i))"

fun tloop_scan :: "(int \<Rightarrow> (kernel, unit) kern) \<Rightarrow> bool \<Rightarrow> int \<Rightarrow> int \<Rightarrow> nat list \<Rightarrow> bool \<Rightarrow> (kernel, bool) kern" where
  "tloop_scan sub f1 dev bn [] have = kret True"
| "tloop_scan sub f1 dev bn (i # is) have =
    kbind (if have then kret False else blk_read dev bn) (\<lambda>err.
      if err then kret False
      else kbind (kget (\<lambda>s. daddr_at (k_disk s dev bn) i)) (\<lambda>nb.
        if nb = 0 then tloop_scan sub f1 dev bn is True
        else kthen (sub nb) (tloop_scan sub f1 dev bn is (\<not> f1))))"

primrec tloop :: "nat \<Rightarrow> int \<Rightarrow> int \<Rightarrow> (kernel, unit) kern" where
  "tloop 0 dev bn =
    kbind (tloop_scan (free dev) False dev bn (rev [0 ..< NINDIR]) False)
      (\<lambda>ok. if ok then free dev bn else kret ())"
| "tloop (Suc n) dev bn =
    kbind (tloop_scan (tloop n dev) True dev bn (rev [0 ..< NINDIR]) False)
      (\<lambda>ok. if ok then free dev bn else kret ())"

definition itrunc_addr :: "nat \<Rightarrow> int \<Rightarrow> nat \<Rightarrow> (kernel, unit) kern" where
  "itrunc_addr ip dev i =
    kbind (kget (\<lambda>s. i_addr (ino ip s) i)) (\<lambda>bn.
      if bn = 0 then kret ()
      else kthen (kmod (upd_inode ip (\<lambda>d. d\<lparr>i_addr := (i_addr d)(i := 0)\<rparr>)))
             (if i = NADDR - 3 then tloop 0 dev bn
              else if i = NADDR - 2 then tloop 1 dev bn
              else if i = NADDR - 1 then tloop 2 dev bn
              else free dev bn))"

definition itrunc :: "nat \<Rightarrow> (kernel, unit) kern" where
  "itrunc ip =
    kif (\<lambda>s. i_mode (ino ip s) AND IFMT \<noteq> IFREG \<and> i_mode (ino ip s) AND IFMT \<noteq> IFDIR) (kret ())
      (kbind (kget (\<lambda>s. i_dev (ino ip s))) (\<lambda>dev.
       kthen (kfor (itrunc_addr ip dev) (rev [0 ..< NADDR]))
       (kthen (kmod (upd_inode ip (\<lambda>d. d\<lparr>i_size := 0\<rparr>))) (kmod (set_iflag ip (ICHG OR IUPD))))))"

section \<open>References\<close>

text \<open>The last reference: a file without links is truncated and its i-node freed; then the i-node goes to the disk.\<close>

definition iput_last :: "nat \<Rightarrow> (kernel, unit) kern" where
  "iput_last ip =
    kthen (kmod (set_iflag ip ILOCK))
    (kthen (kwhen (\<lambda>s. i_nlink (ino ip s) \<le> 0)
        (kthen (itrunc ip)
        (kthen (kmod (upd_inode ip (\<lambda>d. d\<lparr>i_mode := 0\<rparr>)))
        (kthen (kmod (set_iflag ip (IUPD OR ICHG)))
          (kbind (kget (\<lambda>s. (i_dev (ino ip s), i_number (ino ip s)))) (\<lambda>(dev, n). ifree dev n))))))
    (kthen (iupdat ip k_time k_time)
    (kthen (prele ip)
      (kmod (upd_inode ip (\<lambda>d. d\<lparr>i_flag := 0, i_number := 0\<rparr>))))))"

definition iput :: "nat \<Rightarrow> (kernel, unit) kern" where
  "iput ip =
    kthen (kwhen (\<lambda>s. i_count (ino ip s) = 1) (iput_last ip))
    (kthen (kmod (upd_inode ip (\<lambda>d. d\<lparr>i_count := to_i8 (i_count d - 1)\<rparr>))) (prele ip))"

text \<open>The i-node is not in the table.\<close>

definition iget_read :: "int \<Rightarrow> int \<Rightarrow> (kernel, nat option) kern" where
  "iget_read dev n =
    kbind (kget (\<lambda>s. first_index NINODE (\<lambda>i. i_count (ino i s) = 0))) (\<lambda>r.
      case r of
        None \<Rightarrow> kthen (kmod (set_error ENFILE)) (kret None)
      | Some ip \<Rightarrow>
          kthen (kmod (upd_inode ip (\<lambda>d. d\<lparr>i_dev := to_u16 dev, i_number := to_u16 n, i_flag := ILOCK,
                                            i_count := to_i8 (i_count d + 1), i_lastr := 0\<rparr>)))
          (kbind (blk_read dev (itod n)) (\<lambda>err.
             if err then kthen (iput ip) (kret None)
             else kthen (kmod (\<lambda>s. upd_inode ip (iexpand (64 * itoo n) (k_disk s dev (itod n))) s)) (kret (Some ip)))))"

text \<open>
  The \<open>loop\<close> of \<open>iget\<close> starts again after a sleep on a locked i-node, and with another i-node when one is mounted on; between two
  sleeps there are at most \<open>NMOUNT\<close> of the latter unless mounts form a cycle.
\<close>

fun iget_loop :: "nat \<Rightarrow> int \<Rightarrow> int \<Rightarrow> (kernel, nat option) kern" where
  "iget_loop 0 dev n = (\<lambda>es s. Blocked s)"
| "iget_loop (Suc k) dev n =
    kbind (kget (\<lambda>s. first_index NINODE (\<lambda>i. i_number (ino i s) = n \<and> i_dev (ino i s) = dev))) (\<lambda>r.
      case r of
        None \<Rightarrow> iget_read dev n
      | Some ip \<Rightarrow>
          kif (\<lambda>s. i_flag (ino ip s) AND ILOCK \<noteq> 0)
            (kthen (kmod (set_iflag ip IWANT)) (kthen (sleep (Ch_inode ip 0) PINOD) (iget_loop k dev n)))
            (kif (\<lambda>s. i_flag (ino ip s) AND IMOUNT \<noteq> 0)
              (kbind (kget (\<lambda>s. first_index NMOUNT (\<lambda>m. m_inodp (k_mount s m) = Some ip))) (\<lambda>r.
                 case r of
                   None \<Rightarrow> kpanic ''no imt''
                 | Some m \<Rightarrow> kbind (kget (\<lambda>s. to_u16 (m_dev (k_mount s m)))) (\<lambda>d. iget_loop k d ROOTINO)))
              (kthen (kmod (upd_inode ip (\<lambda>d. d\<lparr>i_count := to_i8 (i_count d + 1)\<rparr>)))
              (kthen (kmod (set_iflag ip ILOCK)) (kret (Some ip))))))"

definition iget :: "int \<Rightarrow> int \<Rightarrow> (kernel, nat option) kern" where
  "iget dev n = (\<lambda>es s. iget_loop ((NMOUNT + 1) * Suc (length es)) dev n es s)"

section \<open>New i-nodes\<close>

text \<open>
  The search of \<open>ialloc\<close> through one block of the i-list: free i-nodes that are not in the table go into the super block until it is full.
\<close>

fun ialloc_block :: "int \<Rightarrow> nat \<Rightarrow> int \<Rightarrow> nat list \<Rightarrow> int \<Rightarrow> kernel \<Rightarrow> int \<times> kernel" where
  "ialloc_block dev m adr [] n s = (n, s)"
| "ialloc_block dev m adr (i # is) n s =
    (if rd16 (k_disk s dev adr) (64 * i) \<noteq> 0 \<or>
        (\<exists>j < NINODE. i_dev (ino j s) = dev \<and> i_number (ino j s) = n)
     then ialloc_block dev m adr is (to_u16 (n + 1)) s
     else let s = upd_fs m (\<lambda>fp. fp\<lparr>s_inode := (s_inode fp)(nat (s_ninode fp) := to_u16 n),
                                    s_ninode := to_i16 (s_ninode fp + 1)\<rparr>) s
          in if s_ninode (fs m s) \<ge> NICINOD then (n, s)
             else ialloc_block dev m adr is (to_u16 (n + 1)) s)"

text \<open>The loop over the blocks, at most \<open>s_isize\<close> of them.\<close>

fun ialloc_search :: "nat \<Rightarrow> int \<Rightarrow> nat \<Rightarrow> int \<Rightarrow> int \<Rightarrow> (kernel, unit) kern" where
  "ialloc_search 0 dev m adr n = kret ()"
| "ialloc_search (Suc k) dev m adr n =
    kif (\<lambda>s. adr < s_isize (fs m s))
      (kbind (blk_read dev adr) (\<lambda>err.
         if err then ialloc_search k dev m (adr + 1) (to_u16 (n + int INOPB))
         else kbind (kget (ialloc_block dev m adr [0 ..< INOPB] n)) (\<lambda>(n', t).
              kthen (kmod (\<lambda>_. t))
                (kif (\<lambda>s. s_ninode (fs m s) \<ge> NICINOD) (kret ()) (ialloc_search k dev m (adr + 1) n')))))
      (kret ())"

text \<open>
  The \<open>loop\<close> of \<open>ialloc\<close>: every turn takes an entry of the super block, or fills it from the disk, which reads at least one
  block; every turn that comes back from \<open>iget\<close> has read a block too. So at most \<open>NICINOD + 2\<close> turns go by between two entries of the schedule.
\<close>

fun ialloc_loop :: "nat \<Rightarrow> int \<Rightarrow> nat \<Rightarrow> (kernel, nat option) kern" where
  "ialloc_loop 0 dev m = (\<lambda>es s. Blocked s)"
| "ialloc_loop (Suc k) dev m =
    kif (\<lambda>s. s_ninode (fs m s) > 0)
      (kthen (kmod (upd_fs m (\<lambda>fp. fp\<lparr>s_ninode := to_i16 (s_ninode fp - 1)\<rparr>)))
      (kbind (kget (\<lambda>s. to_u16 (s_inode (fs m s) (nat (s_ninode (fs m s)))))) (\<lambda>n.
       kif (\<lambda>s. n < ROOTINO \<or> (\<exists>j < NINODE. i_dev (ino j s) = dev \<and> i_number (ino j s) = n \<and> i_count (ino j s) \<noteq> 0))
         (ialloc_loop k dev m)
         (kbind (iget dev n) (\<lambda>r.
            case r of
              None \<Rightarrow> kret None
            | Some ip \<Rightarrow>
                kif (\<lambda>s. i_mode (ino ip s) = 0)
                  (kthen (kmod (upd_inode ip (\<lambda>d. d\<lparr>i_addr := (\<lambda>i. if i < NADDR then 0 else i_addr d i)\<rparr>)))
                  (kthen (kmod (upd_fs m (\<lambda>fp. fp\<lparr>s_tinode := to_u16 (s_tinode fp - 1), s_fmod := 1\<rparr>)))
                    (kret (Some ip))))
                  (kthen (iput ip) (ialloc_loop k dev m)))))))
      (kthen (kmod (upd_fs m (\<lambda>fp. fp\<lparr>s_ilock := to_i8 (s_ilock fp + 1)\<rparr>)))
      (kbind (kget (\<lambda>s. nat (s_isize (fs m s)))) (\<lambda>b.
       kthen (ialloc_search b dev m (SUPERB + 1) 1)
      (kthen (kmod (upd_fs m (\<lambda>fp. fp\<lparr>s_ilock := 0\<rparr>)))
      (kthen (kpure (wakeup (Ch_ilock m)))
        (kif (\<lambda>s. s_ninode (fs m s) > 0) (ialloc_loop k dev m)
          (kthen (kmod (set_error ENOSPC)) (kret None))))))))"

definition ialloc :: "int \<Rightarrow> (kernel, nat option) kern" where
  "ialloc dev =
    kbind (getfs dev) (\<lambda>m.
    kthen (ksleep_while (\<lambda>s. s_ilock (fs m s) \<noteq> 0) (sleep (Ch_ilock m) PINOD))
      (\<lambda>es s. ialloc_loop ((nat NICINOD + 2) * Suc (length es)) dev m es s))"

section \<open>Writing everything back\<close>

text \<open>The super block as it is copied to block 1; the bytes of the fields the kernel never changes stay.\<close>

definition super_store :: "filsys \<Rightarrow> blk \<Rightarrow> blk" where
  "super_store fp b =
    (let b = wr32 2 (s_fsize fp) (wr16 0 (s_isize fp) b);
         b = fold (\<lambda>i. wr32 (8 + 4 * i) (s_free fp i)) [0 ..< nat NICFREE] (wr16 6 (s_nfree fp) b);
         b = fold (\<lambda>i. wr16 (210 + 2 * i) (s_inode fp i)) [0 ..< nat NICINOD] (wr16 208 (s_ninode fp) b);
         b = b(410 := be_byte 0 (s_flock fp), 411 := be_byte 0 (s_ilock fp), 412 := be_byte 0 (s_fmod fp),
               413 := be_byte 0 (s_ronly fp))
     in wr16 422 (s_tinode fp) (wr32 418 (s_tfree fp) (wr32 414 (s_time fp) b)))"

text \<open>
  The super block of one mount. The code leaves the loop for this entry if the buffer of \<open>getblk\<close> has \<open>B_ERROR\<close>; the logical contents
  of blocks have no such flag, and \<open>brelse\<close> gives up the identity of a buffer with it.
\<close>

definition update_super :: "nat \<Rightarrow> (kernel, unit) kern" where
  "update_super m =
    kif (\<lambda>s. \<not> m_used (k_mount s m) \<or> s_fmod (fs m s) = 0 \<or> s_ilock (fs m s) \<noteq> 0 \<or> s_flock (fs m s) \<noteq> 0 \<or>
             s_ronly (fs m s) \<noteq> 0) (kret ())
      (kbind (kget (\<lambda>s. m_dev (k_mount s m))) (\<lambda>dev.
       kthen (blk_get dev SUPERB)
      (kthen (kmod (\<lambda>s. upd_fs m (\<lambda>fp. fp\<lparr>s_fmod := 0, s_time := k_time s\<rparr>) s))
        (kbind (kget (fs m)) (\<lambda>fp. blk_write dev SUPERB (super_store fp))))))"

definition update_inode :: "nat \<Rightarrow> (kernel, unit) kern" where
  "update_inode ip =
    kwhen (\<lambda>s. i_flag (ino ip s) AND ILOCK = 0 \<and> i_count (ino ip s) \<noteq> 0)
      (kthen (kmod (set_iflag ip ILOCK))
      (kthen (kmod (upd_inode ip (\<lambda>d. d\<lparr>i_count := to_i8 (i_count d + 1)\<rparr>)))
      (kthen (iupdat ip k_time k_time) (iput ip))))"

definition update :: "(kernel, unit) kern" where
  "update =
    kif (\<lambda>s. k_updlock s \<noteq> 0) (kret ())
      (kthen (kmod (\<lambda>s. s\<lparr>k_updlock := k_updlock s + 1\<rparr>))
      (kthen (kfor update_super [0 ..< NMOUNT])
      (kthen (kfor update_inode [0 ..< NINODE])
        (kmod (\<lambda>s. s\<lparr>k_updlock := 0\<rparr>)))))"

definition sync :: "(kernel, unit) kern" where
  "sync = update"

section \<open>The disk image of an i-node\<close>

lemma wr16_other: "j \<noteq> i \<Longrightarrow> j \<noteq> i + 1 \<Longrightarrow> wr16 i v b j = b j"
  by (simp add: wr16_def)

lemma wr32_other: "j < i \<or> i + 4 \<le> j \<Longrightarrow> wr32 i v b j = b j"
  by (auto simp add: wr32_def)

lemma iaddr_to_disk_other: "j < off \<or> off + 39 \<le> j \<Longrightarrow> iaddr_to_disk off a b j = b j"
proof -
  assume j: "j < off \<or> off + 39 \<le> j"
  have "\<forall>i \<in> set xs. i < NADDR \<Longrightarrow> fold (\<lambda>i b. b(off + 3 * i := be_byte 2 (a i), off + 3 * i + 1 := be_byte 1 (a i),
      off + 3 * i + 2 := be_byte 0 (a i))) xs b j = b j" for xs b
  proof (induction xs arbitrary: b)
    case (Cons i xs)
    then have "j \<noteq> off + 3 * i" "j \<noteq> off + 3 * i + 1" "j \<noteq> off + 3 * i + 2" using j by (auto simp add: NADDR_def)
    then show ?case using Cons by simp
  qed simp
  then show ?thesis unfolding iaddr_to_disk_def by simp
qed

lemma iaddr_to_disk_at:
  "i < NADDR \<Longrightarrow> k < 3 \<Longrightarrow> iaddr_to_disk off a b (off + 3 * i + k) = be_byte (2 - k) (a i)"
proof -
  assume i: "i < NADDR" and k: "k < 3"
  define F where "F = (\<lambda>i b. b(off + 3 * i := be_byte 2 (a i), off + 3 * i + 1 := be_byte 1 (a i),
      off + 3 * i + 2 := be_byte 0 (a i)))"
  have "distinct xs \<Longrightarrow> fold F xs b (off + 3 * i + k) =
      (if i \<in> set xs then be_byte (2 - k) (a i) else b (off + 3 * i + k))" for xs b
  proof (induction xs arbitrary: b)
    case (Cons x xs)
    have "F x b (off + 3 * i + k) = (if i = x then be_byte (2 - k) (a i) else b (off + 3 * i + k))"
    proof (cases "i = x")
      case True
      consider "k = 0" | "k = 1" | "k = 2" using k by linarith
      then show ?thesis using True by cases (simp_all add: F_def)
    next
      case False
      then have "3 * i + k \<noteq> 3 * x" "3 * i + k \<noteq> 3 * x + 1" "3 * i + k \<noteq> 3 * x + 2" using k by arith+
      then show ?thesis using False by (simp add: F_def)
    qed
    then show ?case using Cons.IH[of "F x b"] Cons.prems by auto
  qed simp
  then show ?thesis using i unfolding iaddr_to_disk_def F_def[symmetric] by simp
qed

lemma iaddr_roundtrip: "i < NADDR \<Longrightarrow> iaddr_from_disk off (iaddr_to_disk off a b) i = a i mod 16777216"
proof -
  assume i: "i < NADDR"
  have "iaddr_from_disk off (iaddr_to_disk off a b) i = 65536 * (a i div 65536 mod 256) + 256 * (a i div 256 mod 256) + a i mod 256"
    using iaddr_to_disk_at[OF i, of 0 off a b] iaddr_to_disk_at[OF i, of 1 off a b] iaddr_to_disk_at[OF i, of 2 off a b]
    by (simp add: iaddr_from_disk_def uint_be_byte)
  moreover have "a i mod 16777216 = 65536 * (a i div 65536 mod 256) + a i mod 65536" using zmod_zmult2_eq[of 256 "a i" 65536] by simp
  moreover have "a i mod 65536 = 256 * (a i div 256 mod 256) + a i mod 256" using zmod_zmult2_eq[of 256 "a i" 256] by simp
  ultimately show ?thesis by linarith
qed

lemma rd_cong:
  "\<lbrakk>b' i = b i; b' (i + 1) = b (i + 1)\<rbrakk> \<Longrightarrow> rd16 b' i = rd16 b i"
  "\<lbrakk>b' i = b i; b' (i + 1) = b (i + 1); b' (i + 2) = b (i + 2); b' (i + 3) = b (i + 3)\<rbrakk> \<Longrightarrow> rd32 b' i = rd32 b i"
  by (simp_all add: rd16_def rd32_def)

lemma dinode_store_other:
  "j < off \<or> off + 64 \<le> j \<Longrightarrow> dinode_store off ip ta tm now b j = b j"
  by (auto simp add: dinode_store_def Let_def wr16_other wr32_other iaddr_to_disk_other)

lemma dinode_store_times:
  assumes "off \<le> j" "j < off + 52"
  shows "dinode_store off ip ta tm now b j = iaddr_to_disk (off + 12) (i_addr ip) (wr32 (off + 8) (i_size ip)
    (wr16 (off + 6) (i_gid ip) (wr16 (off + 4) (i_uid ip) (wr16 (off + 2) (i_nlink ip) (wr16 off (uint (i_mode ip)) b))))) j"
  using assms by (simp add: dinode_store_def Let_def wr32_other)

lemma dinode_store_fields:
  "rd16 (dinode_store off ip ta tm now b) off = uint (i_mode ip)"
  "rd16 (dinode_store off ip ta tm now b) (off + 2) = i_nlink ip mod 65536"
  "rd16 (dinode_store off ip ta tm now b) (off + 4) = i_uid ip mod 65536"
  "rd16 (dinode_store off ip ta tm now b) (off + 6) = i_gid ip mod 65536"
  "rd32 (dinode_store off ip ta tm now b) (off + 8) = i_size ip mod 4294967296"
  "i < NADDR \<Longrightarrow> iaddr_from_disk (off + 12) (dinode_store off ip ta tm now b) i = i_addr ip i mod 16777216"
proof -
  note d = dinode_store_times[of off _ ip ta tm now b] iaddr_to_disk_other
  show "rd16 (dinode_store off ip ta tm now b) off = uint (i_mode ip)"
    using rd16_wr16[of off "uint (i_mode ip)" b] unsigned_less[of "i_mode ip", where ?'a = int] mod_pos_pos_trivial[of "uint (i_mode ip)" 65536]
    by (simp add: rd16_def d wr16_other wr32_other)
  show "rd16 (dinode_store off ip ta tm now b) (off + 2) = i_nlink ip mod 65536"
    using rd16_wr16[of "off + 2" "i_nlink ip"] by (simp add: rd16_def d wr16_other wr32_other)
  show "rd16 (dinode_store off ip ta tm now b) (off + 4) = i_uid ip mod 65536"
    using rd16_wr16[of "off + 4" "i_uid ip"] by (simp add: rd16_def d wr16_other wr32_other)
  show "rd16 (dinode_store off ip ta tm now b) (off + 6) = i_gid ip mod 65536"
    using rd16_wr16[of "off + 6" "i_gid ip"] by (simp add: rd16_def d wr16_other wr32_other)
  show "rd32 (dinode_store off ip ta tm now b) (off + 8) = i_size ip mod 4294967296"
    using rd32_wr32[of "off + 8" "i_size ip"] by (simp add: rd32_def d)
  show "i < NADDR \<Longrightarrow> iaddr_from_disk (off + 12) (dinode_store off ip ta tm now b) i = i_addr ip i mod 16777216"
    using iaddr_roundtrip[of i "off + 12" "i_addr ip"]
    by (simp add: iaddr_from_disk_def dinode_store_times[of off _ ip ta tm now b] NADDR_def)
qed

text \<open>The values the fields of \<open>struct inode\<close> can hold, with block addresses that fit the three bytes of the disk.\<close>

definition inode_typed :: "inode \<Rightarrow> bool" where
  "inode_typed i \<longleftrightarrow> to_i16 (i_nlink i) = i_nlink i \<and> to_i16 (i_uid i) = i_uid i \<and> to_i16 (i_gid i) = i_gid i \<and>
    to_i32 (i_size i) = i_size i \<and> (\<forall>k < NADDR. 0 \<le> i_addr i k \<and> i_addr i k < 16777216)"

section \<open>At most one entry per i-node\<close>

definition names_unique :: "(nat \<Rightarrow> inode) \<Rightarrow> bool" where
  "names_unique t \<longleftrightarrow> (\<forall>i < NINODE. \<forall>j < NINODE. i \<noteq> j \<longrightarrow> i_number (t i) \<noteq> 0 \<longrightarrow>
    (i_dev (t i), i_number (t i)) \<noteq> (i_dev (t j), i_number (t j)))"

abbreviation unique_inodes :: "kernel \<Rightarrow> bool" where
  "unique_inodes s \<equiv> names_unique (k_inode s)"

lemma names_unique_upd:
  assumes "names_unique t" "i_dev d = i_dev (t ip)" "i_number d = i_number (t ip) \<or> i_number d = 0"
  shows "names_unique (t(ip := d))"
  unfolding names_unique_def
proof (intro allI impI)
  fix i j
  assume ij: "i < NINODE" "j < NINODE" "i \<noteq> j" "i_number ((t(ip := d)) i) \<noteq> 0"
  have "i_number (t i) \<noteq> 0 \<longrightarrow> (i_dev (t i), i_number (t i)) \<noteq> (i_dev (t j), i_number (t j))"
    "i_number (t j) \<noteq> 0 \<longrightarrow> (i_dev (t j), i_number (t j)) \<noteq> (i_dev (t i), i_number (t i))"
    using assms(1) ij unfolding names_unique_def by blast+
  then show "(i_dev ((t(ip := d)) i), i_number ((t(ip := d)) i)) \<noteq> (i_dev ((t(ip := d)) j), i_number ((t(ip := d)) j))"
    using ij assms(2,3) by (cases "i = ip"; cases "j = ip") auto
qed

lemma names_unique_new:
  assumes "names_unique t" "\<forall>i < NINODE. \<not> (i_number (t i) = i_number d \<and> i_dev (t i) = i_dev d)"
  shows "names_unique (t(ip := d))"
  using assms unfolding names_unique_def by auto

lemma unique_upd [kinv_intro]:
  assumes "\<And>d. i_dev (f d) = i_dev d" "\<And>d. i_number (f d) = i_number d \<or> i_number (f d) = 0"
  shows "kinv unique_inodes (kmod (upd_inode ip f))"
  by (rule kinv_kmod) (simp add: names_unique_upd assms)

lemma unique_flag [kinv_intro]:
  "kinv unique_inodes (kmod (set_iflag ip m))" "kinv unique_inodes (kmod (clr_iflag ip m))"
  unfolding set_iflag_def clr_iflag_def by (rule unique_upd; simp)+

lemma unique_plock [kinv_intro]: "kinv unique_inodes (plock ip)"
  unfolding plock_def by (intro kinv_intro iv.kinv_sleep)

lemma unique_prele [kinv_intro]: "kinv unique_inodes (prele ip)"
  unfolding prele_def by (intro kinv_intro iv.kinv_wakeup)

lemma unique_iupdat [kinv_intro]: "kinv unique_inodes (iupdat ip ta tm)"
proof -
  have b: "kinv unique_inodes (kmod (\<lambda>s. set_block dev bn (g s) s))" for dev bn g
    by (rule kinv_kmod) simp
  show ?thesis
    unfolding iupdat_def
    by (intro kinv_kwhen kinv_kbind kinv_kget, split prod.split, intro allI impI kinv_kbind kinv_kif iv.kinv_getfs iv.kinv_blk)
      (auto intro!: kinv_intro b)
qed

lemma unique_tloop_scan:
  assumes "\<And>nb. kinv unique_inodes (sub nb)"
  shows "kinv unique_inodes (tloop_scan sub f1 dev bn is have)"
proof (induction "is" arbitrary: "have")
  case (Cons i "is")
  then show ?case by (auto intro!: kinv_intro assms iv.kinv_blk)
qed (simp add: kinv_kret)

lemma unique_tloop [kinv_intro]: "kinv unique_inodes (tloop n dev bn)"
  by (induction n arbitrary: bn) (auto intro!: kinv_kbind kinv_kret unique_tloop_scan iv.kinv_free)

lemma unique_itrunc [kinv_intro]: "kinv unique_inodes (itrunc ip)"
proof -
  have "kinv unique_inodes (itrunc_addr ip dev i)" for dev i
    unfolding itrunc_addr_def by (auto intro!: kinv_intro iv.kinv_free simp: names_unique_upd simp del: tloop.simps)
  then show ?thesis unfolding itrunc_def by (auto intro!: kinv_intro simp: names_unique_upd)
qed

lemma unique_iput [kinv_intro]: "kinv unique_inodes (iput ip)"
proof -
  have "kinv unique_inodes (iput_last ip)"
    unfolding iput_last_def by (auto intro!: kinv_intro iv.kinv_ifree simp: names_unique_upd split: prod.split)
  then show ?thesis unfolding iput_def by (auto intro!: kinv_intro simp: names_unique_upd)
qed

lemma to_u16_idem [simp]: "to_u16 (to_u16 x) = to_u16 x"
  by (simp add: to_u16_def)

text \<open>A slot is renamed only when no entry of the table has the new name.\<close>

definition not_named :: "int \<Rightarrow> int \<Rightarrow> kernel \<Rightarrow> bool" where
  "not_named dev n s \<longleftrightarrow> (\<forall>i < NINODE. \<not> (i_number (ino i s) = n \<and> i_dev (ino i s) = dev))"

lemma unique_iget_read:
  assumes "to_u16 dev = dev" "to_u16 n = n" "env_keeps unique_inodes es" "unique_inodes s" "not_named dev n s"
  shows "outcome_all unique_inodes (iget_read dev n es s) \<and> env_keeps unique_inodes (rest_of (iget_read dev n es s) es)"
proof (cases "first_index NINODE (\<lambda>i. i_count (ino i s) = 0)")
  case None
  then show ?thesis using assms by (simp add: iget_read_def kern_simps)
next
  case (Some ip)
  define t where "t = upd_inode ip (\<lambda>d. d\<lparr>i_dev := to_u16 dev, i_number := to_u16 n, i_flag := ILOCK,
                                            i_count := to_i8 (i_count d + 1), i_lastr := 0\<rparr>) s"
  define rest where "rest = kbind (blk_read dev (itod n)) (\<lambda>err.
             if err then kthen (iput ip) (kret None)
             else kthen (kmod (\<lambda>s. upd_inode ip (iexpand (64 * itoo n) (k_disk s dev (itod n))) s)) (kret (Some ip)))"
  have t: "unique_inodes t"
    using assms(1,2,4,5) by (auto simp add: t_def not_named_def ino_def intro!: names_unique_new)
  have x: "kinv unique_inodes (kmod (\<lambda>s. upd_inode ip (iexpand off (g s)) s))" for off g
    by (rule kinv_kmod) (simp add: names_unique_upd iexpand_def)
  have "kinv unique_inodes rest" unfolding rest_def by (auto intro!: kinv_kbind kinv_kthen kinv_kret unique_iput iv.kinv_blk x)
  moreover have "iget_read dev n es s = rest es t"
    using Some by (simp add: iget_read_def krun rest_def t_def)
  ultimately show ?thesis using kinvD[of unique_inodes rest, OF _ assms(3) t] by simp
qed

lemma unique_iget_loop:
  assumes "to_u16 dev = dev" "to_u16 n = n"
  shows "kinv unique_inodes (iget_loop k dev n)"
  using assms
proof (induction k arbitrary: dev n)
  case 0
  then show ?case by (simp add: kinv_def)
next
  case (Suc k)
  define found where "found ip = kif (\<lambda>s. i_flag (ino ip s) AND ILOCK \<noteq> 0)
            (kthen (kmod (set_iflag ip IWANT)) (kthen (sleep (Ch_inode ip 0) PINOD) (iget_loop k dev n)))
            (kif (\<lambda>s. i_flag (ino ip s) AND IMOUNT \<noteq> 0)
              (kbind (kget (\<lambda>s. first_index NMOUNT (\<lambda>m. m_inodp (k_mount s m) = Some ip))) (\<lambda>r.
                 case r of
                   None \<Rightarrow> kpanic ''no imt''
                 | Some m \<Rightarrow> kbind (kget (\<lambda>s. to_u16 (m_dev (k_mount s m)))) (\<lambda>d. iget_loop k d ROOTINO)))
              (kthen (kmod (upd_inode ip (\<lambda>d. d\<lparr>i_count := to_i8 (i_count d + 1)\<rparr>)))
              (kthen (kmod (set_iflag ip ILOCK)) (kret (Some ip)))))" for ip
  have root: "kinv unique_inodes (kbind (kget g) (\<lambda>d. iget_loop k d ROOTINO))" if "\<And>s. to_u16 (g s) = g s" for g
  proof (rule kinvI)
    fix es s
    assume "env_keeps unique_inodes es" "unique_inodes s"
    moreover have "to_u16 ROOTINO = ROOTINO" by (simp add: ROOTINO_def to_u16_id)
    ultimately show "outcome_all unique_inodes (kbind (kget g) (\<lambda>d. iget_loop k d ROOTINO) es s) \<and>
        env_keeps unique_inodes (rest_of (kbind (kget g) (\<lambda>d. iget_loop k d ROOTINO) es s) es)"
      using kinvD[OF Suc.IH[of "g s" ROOTINO]] that by (simp add: kget_run)
  qed
  have f: "kinv unique_inodes (found ip)" for ip
  proof -
    have "kinv unique_inodes (kbind (kget (\<lambda>s. first_index NMOUNT (\<lambda>m. m_inodp (k_mount s m) = Some ip))) (\<lambda>r.
                 case r of
                   None \<Rightarrow> kpanic ''no imt''
                 | Some m \<Rightarrow> kbind (kget (\<lambda>s. to_u16 (m_dev (k_mount s m)))) (\<lambda>d. iget_loop k d ROOTINO)))"
      by (intro kinv_kbind kinv_kget, split option.split, intro conjI allI impI kinv_kpanic root) simp
    then show ?thesis
      unfolding found_def
      by (intro kinv_kif kinv_kthen unique_flag iv.kinv_sleep Suc.IH Suc.prems unique_upd kinv_kret) simp_all
  qed
  show ?case
  proof (rule kinvI)
    fix es s
    assume env: "env_keeps unique_inodes es" and un: "unique_inodes s"
    show "outcome_all unique_inodes (iget_loop (Suc k) dev n es s) \<and>
      env_keeps unique_inodes (rest_of (iget_loop (Suc k) dev n es s) es)"
    proof (cases "first_index NINODE (\<lambda>i. i_number (ino i s) = n \<and> i_dev (ino i s) = dev)")
      case None
      then have "not_named dev n s" by (simp add: first_index_None not_named_def)
      then show ?thesis using unique_iget_read[OF Suc.prems env un] None by (simp add: kget_run)
    next
      case (Some ip)
      then have "iget_loop (Suc k) dev n es s = found ip es s" by (simp add: kget_run found_def)
      then show ?thesis using kinvD[OF f env un] by simp
    qed
  qed
qed

lemma kinv_sized: "(\<And>k. kinv I (m k)) \<Longrightarrow> kinv I (\<lambda>es s. m (f es) es s)"
  by (simp add: kinv_def)

lemma unique_iget: "\<lbrakk>to_u16 dev = dev; to_u16 n = n\<rbrakk> \<Longrightarrow> kinv unique_inodes (iget dev n)"
  unfolding iget_def
  by (rule kinv_sized[where m = "\<lambda>k. iget_loop k dev n" and f = "\<lambda>es. (NMOUNT + 1) * Suc (length es)"]) (rule unique_iget_loop)

lemma ialloc_block_inode: "k_inode (snd (ialloc_block dev m adr is n s)) = k_inode s"
proof (induction "is" arbitrary: n s)
  case (Cons i "is")
  show ?case by (cases "rd16 (k_disk s dev adr) (64 * i) \<noteq> 0 \<or>
        (\<exists>j < NINODE. i_dev (ino j s) = dev \<and> i_number (ino j s) = n)") (simp_all only: ialloc_block.simps Let_def Cons.IH if_True
        if_False snd_conv upd_fs_fields simp_thms split: if_splits)
qed simp

lemma unique_ialloc_search: "kinv unique_inodes (ialloc_search k dev m adr n)"
proof (induction k arbitrary: adr n)
  case (Suc k)
  have b: "kinv unique_inodes (kbind (kget (ialloc_block dev m adr [0 ..< INOPB] n)) (\<lambda>(n', t).
              kthen (kmod (\<lambda>_. t))
                (kif (\<lambda>s. s_ninode (fs m s) \<ge> NICINOD) (kret ()) (ialloc_search k dev m (adr + 1) n'))))"
  proof (rule kinvI)
    fix es s
    assume env: "env_keeps unique_inodes es" and un: "unique_inodes s"
    obtain n' t where nt: "ialloc_block dev m adr [0 ..< INOPB] n s = (n', t)" by (cases "ialloc_block dev m adr [0 ..< INOPB] n s")
    have t: "unique_inodes t" using ialloc_block_inode[of dev m adr "[0 ..< INOPB]" n s] nt un by simp
    show "outcome_all unique_inodes (kbind (kget (ialloc_block dev m adr [0 ..< INOPB] n)) (\<lambda>(n', t).
              kthen (kmod (\<lambda>_. t)) (kif (\<lambda>s. s_ninode (fs m s) \<ge> NICINOD) (kret ()) (ialloc_search k dev m (adr + 1) n'))) es s) \<and>
        env_keeps unique_inodes (rest_of (kbind (kget (ialloc_block dev m adr [0 ..< INOPB] n)) (\<lambda>(n', t).
              kthen (kmod (\<lambda>_. t)) (kif (\<lambda>s. s_ninode (fs m s) \<ge> NICINOD) (kret ()) (ialloc_search k dev m (adr + 1) n'))) es s) es)"
      using kinvD[OF kinv_kret[of unique_inodes "()"] env t] kinvD[OF Suc.IH[of "adr + 1" n'] env t] by (simp add: krun nt)
  qed
  show ?case by (auto intro!: kinv_kif kinv_kbind kinv_kret iv.kinv_blk Suc.IH b)
qed (simp add: kinv_kret)

lemma unique_ialloc_loop:
  assumes "to_u16 dev = dev"
  shows "kinv unique_inodes (ialloc_loop k dev m)"
proof (induction k)
  case 0
  then show ?case by (simp add: kinv_def)
next
  case (Suc k)
  have got: "kinv unique_inodes (case r of
              None \<Rightarrow> kret None
            | Some ip \<Rightarrow>
                kif (\<lambda>s. i_mode (ino ip s) = 0)
                  (kthen (kmod (upd_inode ip (\<lambda>d. d\<lparr>i_addr := (\<lambda>i. if i < NADDR then 0 else i_addr d i)\<rparr>)))
                  (kthen (kmod (upd_fs m (\<lambda>fp. fp\<lparr>s_tinode := to_u16 (s_tinode fp - 1), s_fmod := 1\<rparr>)))
                    (kret (Some ip))))
                  (kthen (iput ip) (ialloc_loop k dev m)))" for r
    by (cases r) (simp_all add: kinv_kret kinv_kif kinv_kthen unique_upd iv.kinv_blk unique_iput Suc.IH)
  define take where "take n = kif (\<lambda>s. n < ROOTINO \<or>
          (\<exists>j < NINODE. i_dev (ino j s) = dev \<and> i_number (ino j s) = n \<and> i_count (ino j s) \<noteq> 0)) (ialloc_loop k dev m)
         (kbind (iget dev n) (\<lambda>r.
            case r of
              None \<Rightarrow> kret None
            | Some ip \<Rightarrow>
                kif (\<lambda>s. i_mode (ino ip s) = 0)
                  (kthen (kmod (upd_inode ip (\<lambda>d. d\<lparr>i_addr := (\<lambda>i. if i < NADDR then 0 else i_addr d i)\<rparr>)))
                  (kthen (kmod (upd_fs m (\<lambda>fp. fp\<lparr>s_tinode := to_u16 (s_tinode fp - 1), s_fmod := 1\<rparr>)))
                    (kret (Some ip))))
                  (kthen (iput ip) (ialloc_loop k dev m))))" for n
  have tk: "kinv unique_inodes (take n)" if "to_u16 n = n" for n
    unfolding take_def by (intro kinv_kif Suc.IH kinv_kbind unique_iget assms that got)
  have pop: "kinv unique_inodes (kbind (kget (\<lambda>s. to_u16 (h s))) take)" for h
  proof (rule kinvI)
    fix es s
    assume "env_keeps unique_inodes es" "unique_inodes s"
    then show "outcome_all unique_inodes (kbind (kget (\<lambda>s. to_u16 (h s))) take es s) \<and>
        env_keeps unique_inodes (rest_of (kbind (kget (\<lambda>s. to_u16 (h s))) take es s) es)"
      using kinvD[OF tk] by (simp add: kget_run)
  qed
  show ?case
    unfolding ialloc_loop.simps take_def[symmetric]
    by (intro kinv_kif kinv_kthen pop iv.kinv_blk kinv_kbind kinv_kget unique_ialloc_search iv.kinv_wakeup Suc.IH kinv_kret iv.kinv_upd)
qed

lemma unique_ialloc: "to_u16 dev = dev \<Longrightarrow> kinv unique_inodes (ialloc dev)"
proof -
  assume d: "to_u16 dev = dev"
  have "kinv unique_inodes (\<lambda>es s. ialloc_loop ((nat NICINOD + 2) * Suc (length es)) dev m es s)" for m
    by (rule kinv_sized[where m = "\<lambda>k. ialloc_loop k dev m" and f = "\<lambda>es. (nat NICINOD + 2) * Suc (length es)"])
      (rule unique_ialloc_loop[OF d])
  then show ?thesis
    unfolding ialloc_def by (intro kinv_kbind kinv_kthen kinv_ksleep_while iv.kinv_getfs iv.kinv_sleep)
qed

lemma unique_update: "kinv unique_inodes update"
proof -
  have s: "kinv unique_inodes (update_super m)" for m
    unfolding update_super_def by (intro kinv_kif kinv_kret kinv_kbind kinv_kget kinv_kthen iv.kinv_blk kinv_kmod) (simp_all add: iv.kinv_blk)
  have i: "kinv unique_inodes (update_inode ip)" for ip
    unfolding update_inode_def by (intro kinv_kwhen kinv_kthen unique_flag unique_upd unique_iupdat unique_iput) simp_all
  show ?thesis
    unfolding update_def by (intro kinv_kif kinv_kthen kinv_kret kinv_kfor s i kinv_kmod) simp_all
qed

section \<open>Properties\<close>

text \<open>
  Claim C11. The i-node table never holds two entries for the same i-node of the same device: \<open>iget\<close>, \<open>iput\<close>, \<open>ialloc\<close> and \<open>update\<close> keep this whenever
  they sleep and however they end, if the processes that run in between keep it.\<close>

theorem inode_table_unique:
  assumes "0 \<le> dev" "dev < 65536" "0 \<le> n" "n < 65536"
  shows "kinv unique_inodes (iget dev n) \<and> kinv unique_inodes (iput ip) \<and> kinv unique_inodes (ialloc dev) \<and>
    kinv unique_inodes update"
  using unique_iget[of dev n] unique_iput unique_ialloc[of dev] unique_update assms by (simp add: to_u16_id)

theorem inode_table_unique_witness:
  "outcome_all unique_inodes (iget 3 7 [id, id] kernel0)"
proof -
  have "kinv unique_inodes (iget 3 7)" using inode_table_unique[of 3 7 0] by simp
  moreover have "env_keeps unique_inodes [id, id]" by (simp add: env_keeps_def)
  moreover have "unique_inodes kernel0" by (simp add: names_unique_def zero_defs)
  ultimately show ?thesis by (rule kinvD)
qed

text \<open>
  Claim C12. An i-node that \<open>iupdat\<close> writes to its place in a block and \<open>iexpand\<close> reads back has the same mode, links, owner, group, size and
  block addresses, and the other i-nodes of the block are untouched.\<close>

theorem inode_disk_roundtrip:
  assumes "inode_typed ip"
  shows "(let b' = dinode_store (64 * k) ip ta tm now b; ip' = iexpand (64 * k) b' ip0
    in i_mode ip' = i_mode ip \<and> i_nlink ip' = i_nlink ip \<and> i_uid ip' = i_uid ip \<and> i_gid ip' = i_gid ip \<and>
       i_size ip' = i_size ip \<and> (\<forall>i < NADDR. i_addr ip' i = i_addr ip i) \<and>
       (\<forall>l. l \<noteq> k \<longrightarrow> iexpand (64 * l) b' ip0 = iexpand (64 * l) b ip0))"
proof -
  define b' where "b' = dinode_store (64 * k) ip ta tm now b"
  define ip' where "ip' = iexpand (64 * k) b' ip0"
  have "i_mode ip' = i_mode ip" "i_nlink ip' = i_nlink ip" "i_uid ip' = i_uid ip" "i_gid ip' = i_gid ip" "i_size ip' = i_size ip"
    using assms unfolding ip'_def b'_def iexpand_def inode_typed_def
    by (simp_all add: dinode_store_fields[simplified] dinode_store_fields to_i16_mod to_i32_mod)
  moreover have "i_addr ip' i = i_addr ip i" if "i < NADDR" for i
    using assms that dinode_store_fields(6)[OF that, of "64 * k" ip ta tm now b]
    by (simp add: ip'_def b'_def iexpand_def inode_typed_def)
  moreover have "iexpand (64 * l) b' ip0 = iexpand (64 * l) b ip0" if "l \<noteq> k" for l
  proof -
    have "b' j = b j" if "64 * l \<le> j" "j < 64 * l + 64" for j
      unfolding b'_def by (rule dinode_store_other) (use that \<open>l \<noteq> k\<close> in arith)
    then show ?thesis by (simp add: iexpand_def rd16_def rd32_def iaddr_from_disk_def NADDR_def fun_eq_iff)
  qed
  ultimately show ?thesis by (simp add: Let_def ip'_def[symmetric] b'_def[symmetric])
qed

definition demo_inode :: inode where
  "demo_inode = inode0\<lparr>i_mode := 0x81A4, i_nlink := 1, i_uid := 3, i_size := 1000, i_addr := (\<lambda>_. 0)(0 := 70, 1 := 71),
    i_flag := IUPD\<rparr>"

theorem inode_disk_roundtrip_witness:
  "inode_typed demo_inode \<and> i_size (iexpand 64 (dinode_store 64 demo_inode 5 6 7 (\<lambda>_. 0)) inode0) = 1000"
proof -
  have t: "inode_typed demo_inode" by (simp add: inode_typed_def demo_inode_def inode0_def to_i16_id to_i32_id)
  then have "i_size (iexpand 64 (dinode_store 64 demo_inode 5 6 7 (\<lambda>_. 0)) inode0) = i_size demo_inode"
    using inode_disk_roundtrip[OF t, of 1 5 6 7 "\<lambda>_. 0" inode0] by (simp add: Let_def)
  then show ?thesis using t by (simp add: demo_inode_def)
qed

text \<open>
  \<open>plock\<close> on an unlocked i-node returns at once with the i-node locked; \<open>prele\<close> unlocks it and, if somebody wanted it, wakes exactly
  the processes that sleep on it.\<close>

theorem prele_wakes:
  assumes "sched_wf s"
  shows "(\<exists>s'. prele ip es s = Ret () es s' \<and> i_flag (ino ip s') AND ILOCK = 0 \<and> i_flag (ino ip s') AND IWANT = 0 \<and>
      (\<forall>p. p_wchan (k_proc s p) = Some (Ch_inode ip 0) \<longrightarrow>
        (if i_flag (ino ip s) AND IWANT \<noteq> 0 then p_stat (k_proc s' p) = SRUN else k_proc s' p = k_proc s p))) \<and>
    (i_flag (ino ip s) AND ILOCK = 0 \<longrightarrow>
      (\<exists>s'. plock ip es s = Ret () es s' \<and> i_flag (ino ip s') AND ILOCK \<noteq> 0))"
proof -
  have fl: "ILOCK AND IWANT = 0" "IWANT AND ILOCK = 0" by (simp_all add: ILOCK_def IWANT_def)
  define t where "t = clr_iflag ip ILOCK s"
  have t: "i_flag (ino ip t) = i_flag (ino ip s) AND NOT ILOCK" "k_proc t = k_proc s" "sched_wf t"
    using assms by (simp_all add: t_def clr_iflag_def ino_def sched_wf_files)
  have tw: "i_flag (ino ip t) AND IWANT = i_flag (ino ip s) AND IWANT" using fl by (simp add: t(1) flag_clear_other)
  have 1: "\<exists>s'. prele ip es s = Ret () es s' \<and> i_flag (ino ip s') AND ILOCK = 0 \<and> i_flag (ino ip s') AND IWANT = 0 \<and>
      (\<forall>p. p_wchan (k_proc s p) = Some (Ch_inode ip 0) \<longrightarrow>
        (if i_flag (ino ip s) AND IWANT \<noteq> 0 then p_stat (k_proc s' p) = SRUN else k_proc s' p = k_proc s p))"
  proof (cases "i_flag (ino ip s) AND IWANT = 0")
    case True
    then have "prele ip es s = Ret () es t" using tw by (simp add: prele_def kern_simps t_def[symmetric])
    then show ?thesis using True tw by (simp add: t flag_clear_self)
  next
    case False
    define v where "v = clr_iflag ip IWANT t"
    have v: "sched_wf v" "k_proc v = k_proc s" "i_flag (ino ip v) = i_flag (ino ip t) AND NOT IWANT"
      using t by (simp_all add: v_def clr_iflag_def ino_def sched_wf_files)
    obtain s' where w: "wakeup (Ch_inode ip 0) v = Inr s'" "only_sched v s'"
        "\<forall>y. if p_wchan (k_proc v y) = Some (Ch_inode ip 0)
         then p_wchan (k_proc s' y) = None \<and> p_stat (k_proc s' y) = SRUN \<and> on_queue (Suc NPROC) s' (k_runq s') y
         else p_wchan (k_proc s' y) = p_wchan (k_proc v y) \<and> p_stat (k_proc s' y) = p_stat (k_proc v y)"
      using wakeup_spec_wf[OF v(1)] by blast
    have "prele ip es s = Ret () es s'"
      using False tw w(1) by (simp add: prele_def kern_simps kpure_def t_def[symmetric] v_def[symmetric])
    moreover have "ino ip s' = ino ip v" using only_sched_kernel[OF w(2)] by (simp add: ino_def)
    ultimately show ?thesis
      using w(3) False fl by (auto simp add: v t flag_clear_self flag_clear_other)
  qed
  have 2: "\<exists>s'. plock ip es s = Ret () es s' \<and> i_flag (ino ip s') AND ILOCK \<noteq> 0" if "i_flag (ino ip s) AND ILOCK = 0"
  proof -
    have sk: "ksleep_while (\<lambda>s. i_flag (ino ip s) AND ILOCK \<noteq> 0)
             (kthen (kmod (set_iflag ip IWANT)) (sleep (Ch_inode ip 0) PINOD)) es s = Ret () es s"
      by (rule ksleep_while_skip) (use that in simp)
    show ?thesis
      unfolding plock_def kthen_Ret[of "ksleep_while (\<lambda>s. i_flag (ino ip s) AND ILOCK \<noteq> 0)
             (kthen (kmod (set_iflag ip IWANT)) (sleep (Ch_inode ip 0) PINOD))", OF sk]
      by (simp add: kmod_def set_iflag_def ino_def flag_or_self ILOCK_def)
  qed
  show ?thesis using 1 2 by blast
qed

end
