(* ===== verification/File_IO.thy ===== *)
theory File_IO
  imports Inode_Table
begin

text \<open>
  Reading and writing files: \<open>sys/subr.c\<close> (the block map of a file and the byte transfers) and \<open>sys/rdwri.c\<close>. A transfer to or from the kernel
  itself (\<open>u_segflg = 1\<close>) goes through the bytes \<open>u_kbuf\<close>, indexed by \<open>u_base\<close>. \<open>k_incore\<close> tells which blocks have a valid buffer: a buffer that is
  changed and then released without being written shows the change only if it was valid. A device call is logged and gives the driver's effect on the user
  area; it may sleep.
\<close>

section \<open>The block map\<close>

definition NSHIFT :: nat where "NSHIFT = 7"
definition NMASK :: int where "NMASK = 127"
definition BSHIFT :: nat where "BSHIFT = 9"
definition BMASK :: int where "BMASK = 511"

text \<open>\<open>for (j = 3; j > 0; j--)\<close>: the number of levels, with the shift and the block number that remain.\<close>

fun bmap_level :: "nat \<Rightarrow> nat \<Rightarrow> int \<Rightarrow> int \<Rightarrow> (nat \<times> nat \<times> int) option" where
  "bmap_level 0 sh nb bn = None"
| "bmap_level (Suc j) sh nb bn =
    (let sh = sh + NSHIFT; nb = push_bit NSHIFT nb
     in if bn < nb then Some (Suc j, sh, bn) else bmap_level j sh nb (bn - nb))"

text \<open>An address in the i-node, allocated when it is missing and the file is written; \<open>None\<close> is the return of -1.\<close>

definition bmap_addr :: "nat \<Rightarrow> int \<Rightarrow> nat \<Rightarrow> bool \<Rightarrow> (kernel, int option) kern" where
  "bmap_addr ip dev i wr =
    kbind (kget (\<lambda>s. i_addr (ino ip s) i)) (\<lambda>nb.
      if nb \<noteq> 0 then kret (Some nb)
      else if \<not> wr then kret None
      else kbind (alloc dev) (\<lambda>r.
        case r of
          None \<Rightarrow> kret None
        | Some nb \<Rightarrow>
            kthen (kmod (upd_inode ip (\<lambda>d. d\<lparr>i_addr := (i_addr d)(i := nb)\<rparr>)))
            (kthen (kmod (set_iflag ip (IUPD OR ICHG))) (kret (Some nb)))))"

text \<open>The remaining \<open>k\<close> indirect blocks, from block \<open>nb\<close> down.\<close>

definition bmap_last :: "int \<Rightarrow> int \<Rightarrow> nat \<Rightarrow> int \<Rightarrow> (kernel, int) kern" where
  "bmap_last dev ind i nb =
    kthen (kwhen (\<lambda>_. i < NINDIR - 1) (kmod (\<lambda>s. s\<lparr>k_rablock := daddr_at (k_disk s dev ind) (i + 1)\<rparr>))) (kret nb)"

fun bmap_indir :: "nat \<Rightarrow> int \<Rightarrow> int \<Rightarrow> nat \<Rightarrow> int \<Rightarrow> bool \<Rightarrow> (kernel, int) kern" where
  "bmap_indir 0 dev bn sh nb wr = kret nb"
| "bmap_indir (Suc k) dev bn sh nb wr =
    kbind (blk_read dev nb) (\<lambda>err.
      if err then kret 0
      else
        let sh' = sh - NSHIFT; i = nat (drop_bit sh' bn AND NMASK);
            next_level = (\<lambda>a. if k = 0 then bmap_last dev nb i a else bmap_indir k dev bn sh' a wr)
        in kbind (kget (\<lambda>s. daddr_at (k_disk s dev nb) i)) (\<lambda>a.
             if a \<noteq> 0 then next_level a
             else if \<not> wr then kret (- 1)
             else kbind (alloc dev) (\<lambda>r.
               case r of
                 None \<Rightarrow> kret (- 1)
               | Some a \<Rightarrow> kthen (kmod (set_block dev nb (wr32 (4 * i) a))) (next_level a))))"

definition bmap :: "nat \<Rightarrow> int \<Rightarrow> bool \<Rightarrow> (kernel, int) kern" where
  "bmap ip bn wr =
    (if bn < 0 then kthen (kmod (set_error EFBIG)) (kret 0)
     else kbind (kget (\<lambda>s. i_dev (ino ip s))) (\<lambda>dev.
       kthen (kmod (\<lambda>s. s\<lparr>k_rablock := 0\<rparr>))
         (if bn < int NADDR - 3 then
            (let i = nat bn
             in kbind (bmap_addr ip dev i wr) (\<lambda>r.
                  case r of
                    None \<Rightarrow> kret (- 1)
                  | Some nb \<Rightarrow>
                      kthen (kwhen (\<lambda>_. i < NADDR - 4) (kmod (\<lambda>s. s\<lparr>k_rablock := i_addr (ino ip s) (i + 1)\<rparr>))) (kret nb)))
          else
            (case bmap_level 3 0 1 (bn - (int NADDR - 3)) of
               None \<Rightarrow> kthen (kmod (set_error EFBIG)) (kret 0)
             | Some (j, sh, bn') \<Rightarrow>
                 kbind (bmap_addr ip dev (NADDR - j) wr) (\<lambda>r.
                   case r of
                     None \<Rightarrow> kret (- 1)
                   | Some nb \<Rightarrow> bmap_indir (4 - j) dev bn' sh nb wr)))))"

section \<open>Single bytes\<close>

definition io_step :: "nat \<Rightarrow> kernel \<Rightarrow> kernel" where
  "io_step n = upd_u (\<lambda>w. w\<lparr>u_count := to_u32 (u_count w - int n), u_offset := to_i32 (u_offset w + int n),
                            u_base := to_u32 (u_base w + int n)\<rparr>)"

definition passc :: "int \<Rightarrow> kernel \<Rightarrow> int \<times> kernel" where
  "passc c s =
    (let (r, s) = (if u_segflg (u s) = 1
                   then (0, upd_u (\<lambda>w. w\<lparr>u_kbuf := (u_kbuf w)(nat (u_base w) := word_of_int c)\<rparr>) s)
                   else if u_segflg (u s) \<noteq> 0 then suibyte (u_base (u s)) c s else subyte (u_base (u s)) c s)
     in if r < 0 then (- 1, set_error EFAULT s)
        else let s = io_step 1 s in (if u_count (u s) = 0 then - 1 else 0, s))"

definition cpass :: "kernel \<Rightarrow> int \<times> kernel" where
  "cpass s =
    (if u_count (u s) = 0 then (- 1, s)
     else if u_segflg (u s) = 1 then (uint (u_kbuf (u s) (nat (u_base (u s)))), io_step 1 s)
     else let c = (if u_segflg (u s) = 0 then fubyte (u_base (u s)) s else fuibyte (u_base (u s)) s)
          in if c < 0 then (- 1, set_error EFAULT s)
             else (take_bit 8 c, io_step 1 s))"

definition nodev :: "kernel \<Rightarrow> int \<times> kernel" where
  "nodev s = (- 1, set_error ENODEV s)"

definition nulldev :: "kernel \<Rightarrow> int \<times> kernel" where
  "nulldev s = (0, s)"

text \<open>\<open>min\<close> and \<open>max\<close> of \<open>sys/rdwri.c\<close> work on unsigned numbers.\<close>

definition umin :: "int \<Rightarrow> int \<Rightarrow> int" where
  "umin a b = (if to_u32 a < to_u32 b then to_u32 a else to_u32 b)"

definition umax :: "int \<Rightarrow> int \<Rightarrow> int" where
  "umax a b = (if to_u32 a > to_u32 b then to_u32 a else to_u32 b)"

section \<open>Blocks of bytes\<close>

fun iomove_cpass :: "nat \<Rightarrow> nat \<Rightarrow> blk \<Rightarrow> kernel \<Rightarrow> blk \<times> kernel" where
  "iomove_cpass 0 cp b s = (b, s)"
| "iomove_cpass (Suc n) cp b s =
    (case cpass s of (t, s) \<Rightarrow>
       if t < 0 then (b, s) else iomove_cpass n (cp + 1) (b(cp := word_of_int t)) s)"

fun iomove_passc :: "nat \<Rightarrow> nat \<Rightarrow> blk \<Rightarrow> kernel \<Rightarrow> kernel" where
  "iomove_passc 0 cp b s = s"
| "iomove_passc (Suc n) cp b s =
    (case passc (uint (b cp)) s of (t, s) \<Rightarrow>
       if t < 0 then s else iomove_passc n (cp + 1) b s)"

text \<open>The aligned case; buffers are aligned, so the parity of the address is that of the offset.\<close>

definition iomove_even :: "nat \<Rightarrow> nat \<Rightarrow> kernel \<Rightarrow> bool" where
  "iomove_even cp n s \<longleftrightarrow> u_segflg (u s) \<noteq> 1 \<and> even n \<and> even cp \<and> even (u_base (u s))"

text \<open>\<open>iomove(b_addr + cp, n, B_WRITE)\<close>: from the user into the buffer.\<close>

definition iomove_write :: "nat \<Rightarrow> nat \<Rightarrow> blk \<Rightarrow> kernel \<Rightarrow> blk \<times> kernel" where
  "iomove_write cp n b s =
    (if n = 0 then (b, s)
     else if iomove_even cp n s then
       (case (if u_segflg (u s) = 0 then copyin (u_base (u s)) (int n) s else copyiin (u_base (u s)) (int n) s) of
          None \<Rightarrow> (b, set_error EFAULT s)
        | Some bs \<Rightarrow> (\<lambda>j. if cp \<le> j \<and> j < cp + n then bs ! (j - cp) else b j, io_step n s))
     else iomove_cpass n cp b s)"

text \<open>\<open>iomove(b_addr + cp, n, B_READ)\<close>: from the buffer to the user.\<close>

definition iomove_read :: "nat \<Rightarrow> nat \<Rightarrow> blk \<Rightarrow> kernel \<Rightarrow> kernel" where
  "iomove_read cp n b s =
    (if n = 0 then s
     else if iomove_even cp n s then
       (let bs = map b [cp ..< cp + n];
            (t, s) = (if u_segflg (u s) = 0 then copyout bs (u_base (u s)) s else copyiout bs (u_base (u s)) s)
        in if t \<noteq> 0 then set_error EFAULT s else io_step n s)
     else iomove_passc n cp b s)"

section \<open>Files\<close>

definition dev_call :: "devcall \<Rightarrow> (kernel, unit) kern" where
  "dev_call c = kthen kyield (kmod (\<lambda>s. upd_u (k_driver s c) (s\<lparr>k_devlog := k_devlog s @ [c]\<rparr>)))"

definition i_rdev :: "inode \<Rightarrow> int" where
  "i_rdev i = to_u16 (i_addr i 0)"

definition is_chr :: "16 word \<Rightarrow> bool" where
  "is_chr ty \<longleftrightarrow> ty = IFCHR \<or> ty = IFMPC"

definition is_blk :: "16 word \<Rightarrow> bool" where
  "is_blk ty \<longleftrightarrow> ty = IFBLK \<or> ty = IFMPB"

definition io_block :: "kernel \<Rightarrow> int \<times> nat \<times> int" where
  "io_block s =
    (let on = u_offset (u s) AND BMASK
     in (drop_bit BSHIFT (u_offset (u s)), nat on, umin (BSIZE - on) (u_count (u s))))"

text \<open>The block is in hand: remember it, move the bytes, and say how many were asked for.\<close>

definition readi_move :: "nat \<Rightarrow> int \<Rightarrow> nat \<Rightarrow> int \<Rightarrow> (kernel \<Rightarrow> blk) \<Rightarrow> (kernel, int) kern" where
  "readi_move ip lbn on n content =
    kthen (kmod (upd_inode ip (\<lambda>d. d\<lparr>i_lastr := lbn\<rparr>)))
    (kthen (kmod (\<lambda>s. iomove_read on (nat (umin n BSIZE)) (content s) s)) (kret (umin n BSIZE)))"

text \<open>One turn of the loop of \<open>readi\<close>; \<open>None\<close> is a return from the middle. A hole is read from a cleared buffer.\<close>

definition readi_turn :: "nat \<Rightarrow> 16 word \<Rightarrow> (kernel, int option) kern" where
  "readi_turn ip ty =
    kbind (kget io_block) (\<lambda>(lbn, on, n).
      let move = (\<lambda>dev bn n.
            if bn < 0 then kthen kyield (kbind (readi_move ip lbn on n (\<lambda>_ _. 0)) (\<lambda>n. kret (Some n)))
            else kbind (blk_read dev bn) (\<lambda>_.
                   kbind (readi_move ip lbn on n (\<lambda>s. k_disk s dev bn)) (\<lambda>n. kret (Some n))))
      in if is_blk ty then
           kthen (kmod (\<lambda>s. s\<lparr>k_rablock := lbn + 1\<rparr>))
             (kbind (kget (\<lambda>s. i_rdev (ino ip s))) (\<lambda>dev. move dev lbn n))
         else
           kbind (kget (\<lambda>s. i_size (ino ip s) - u_offset (u s))) (\<lambda>diff.
             if diff \<le> 0 then kret None
             else let n = (if diff < n then diff else n)
                  in kbind (bmap ip lbn False) (\<lambda>bn.
                       kif (\<lambda>s. u_error (u s) \<noteq> 0) (kret None)
                         (kbind (kget (\<lambda>s. i_dev (ino ip s))) (\<lambda>dev. move dev bn n)))))"

text \<open>Every turn that goes on has waited for a buffer, so the length of the schedule bounds the turns.\<close>

fun readi_loop :: "nat \<Rightarrow> nat \<Rightarrow> 16 word \<Rightarrow> (kernel, unit) kern" where
  "readi_loop 0 ip ty = (\<lambda>es s. Blocked s)"
| "readi_loop (Suc k) ip ty =
    kbind (readi_turn ip ty) (\<lambda>r.
      case r of
        None \<Rightarrow> kret ()
      | Some n \<Rightarrow>
          kwhen (\<lambda>s. u_error (u s) = 0 \<and> u_count (u s) \<noteq> 0 \<and> n > 0) (readi_loop k ip ty))"

definition readi :: "nat \<Rightarrow> (kernel, unit) kern" where
  "readi ip =
    kif (\<lambda>s. u_count (u s) = 0) (kret ())
      (kif (\<lambda>s. u_offset (u s) < 0) (kmod (set_error EINVAL))
        (kthen (kmod (set_iflag ip IACC))
        (kbind (kget (\<lambda>s. (i_rdev (ino ip s), i_mode (ino ip s) AND IFMT))) (\<lambda>(dev, ty).
           if is_chr ty then dev_call (Cdev_read dev)
           else (\<lambda>es s. readi_loop (Suc (length es)) ip ty es s)))))"

text \<open>
  One turn of the loop of \<open>writei\<close>; the result says whether the loop may go on. A whole block is not read first; with an error the
  buffer is released unwritten.
\<close>

definition writei_block :: "nat \<Rightarrow> 16 word \<Rightarrow> int \<Rightarrow> int \<Rightarrow> nat \<Rightarrow> int \<Rightarrow> (kernel, unit) kern" where
  "writei_block ip ty dev bn on n =
    kthen (if n = BSIZE then blk_get dev bn else kthen (blk_read dev bn) (kret ()))
    (kthen (kmod (\<lambda>s.
        let (b, t) = iomove_write on (nat n) (k_disk s dev bn) s
        in if u_error (u t) = 0 \<or> n \<noteq> BSIZE \<or> k_incore s dev bn then set_block dev bn (\<lambda>_. b) t else t))
    (kthen (kmod (\<lambda>s.
        if u_offset (u s) > i_size (ino ip s) \<and> (ty = IFDIR \<or> ty = IFREG)
        then upd_inode ip (\<lambda>d. d\<lparr>i_size := u_offset (u s)\<rparr>) s else s))
      (kmod (set_iflag ip (IUPD OR ICHG)))))"

definition writei_turn :: "nat \<Rightarrow> 16 word \<Rightarrow> (kernel, bool) kern" where
  "writei_turn ip ty =
    kbind (kget io_block) (\<lambda>(bn, on, n).
      if is_blk ty then
        kbind (kget (\<lambda>s. i_rdev (ino ip s))) (\<lambda>dev. kthen (writei_block ip ty dev bn on n) (kret True))
      else
        kbind (bmap ip bn True) (\<lambda>bn.
          if bn < 0 then kret False
          else kbind (kget (\<lambda>s. i_dev (ino ip s))) (\<lambda>dev. kthen (writei_block ip ty dev bn on n) (kret True))))"

fun writei_loop :: "nat \<Rightarrow> nat \<Rightarrow> 16 word \<Rightarrow> (kernel, unit) kern" where
  "writei_loop 0 ip ty = (\<lambda>es s. Blocked s)"
| "writei_loop (Suc k) ip ty =
    kbind (writei_turn ip ty) (\<lambda>go.
      kwhen (\<lambda>s. go \<and> u_error (u s) = 0 \<and> u_count (u s) \<noteq> 0) (writei_loop k ip ty))"

definition writei :: "nat \<Rightarrow> (kernel, unit) kern" where
  "writei ip =
    kif (\<lambda>s. u_offset (u s) < 0) (kmod (set_error EINVAL))
      (kbind (kget (\<lambda>s. (i_rdev (ino ip s), i_mode (ino ip s) AND IFMT))) (\<lambda>(dev, ty).
         if is_chr ty then kthen (kmod (set_iflag ip (IUPD OR ICHG))) (dev_call (Cdev_write dev))
         else kif (\<lambda>s. u_count (u s) = 0) (kret ())
                (\<lambda>es s. writei_loop (Suc (length es)) ip ty es s)))"

section \<open>Reference: a file as a tree of blocks\<close>

text \<open>
  The path of a block: the address of the i-node to start from and the indices through the indirect blocks. The ten direct blocks come first,
  then one, two and three levels of 128 addresses each.
\<close>

definition block_path :: "nat \<Rightarrow> nat \<times> nat list" where
  "block_path bn =
    (if bn < 10 then (bn, [])
     else if bn < 138 then (10, [bn - 10])
     else if bn < 16522 then (11, [(bn - 138) div 128, (bn - 138) mod 128])
     else (12, [(bn - 16522) div 16384, (bn - 16522) div 128 mod 128, (bn - 16522) mod 128]))"

fun tree_get :: "(int \<Rightarrow> blk) \<Rightarrow> int \<Rightarrow> nat list \<Rightarrow> int option" where
  "tree_get d a [] = (if a = 0 then None else Some a)"
| "tree_get d a (i # is) = (if a = 0 then None else tree_get d (daddr_at (d a) i) is)"

definition max_blocks :: nat where
  "max_blocks = 10 + 128 + 128 * 128 + 128 * 128 * 128"

lemma bmap_level_eval:
  "bmap_level 3 0 1 b =
    (if b < 128 then Some (3, 7, b) else if b < 16512 then Some (2, 14, b - 128)
     else if b < 2113664 then Some (1, 21, b - 16512) else None)"
  by (simp add: numeral_3_eq_3 NSHIFT_def push_bit_eq_mult)

lemma path_index: "nat (drop_bit k (int r) AND NMASK) = (r div 2 ^ k) mod 128"
proof -
  have "drop_bit k (int r) AND NMASK = take_bit 7 (drop_bit k (int r))"
    by (simp add: NMASK_def take_bit_eq_mask mask_eq_exp_minus_1)
  also have "\<dots> = int ((r div 2 ^ k) mod 128)"
    by (simp add: take_bit_eq_mod drop_bit_eq_div zdiv_int zmod_int)
  finally show ?thesis by simp
qed

lemma bmap_indir_step:
  assumes q: "quiet e" and io: "\<And>b. \<not> k_ioerr s dev b" and sh: "sh = 7 * Suc k"
    and a: "a = daddr_at (k_disk s dev nb) ((r div 2 ^ (7 * k)) mod 128)"
  shows "bmap_indir (Suc k) dev (int r) sh nb False (e # es) s =
    (if a = 0 then Ret (- 1) es (e s)
     else if k = 0 then bmap_last dev nb ((r div 2 ^ (7 * k)) mod 128) a es (e s)
     else bmap_indir k dev (int r) (7 * k) a False es (e s))"
proof -
  have rd: "blk_read dev nb (e # es) s = Ret False es (e s)"
    by (simp add: blk_read_def kern_simps quietD(3)[OF q] io)
  have s: "sh - NSHIFT = 7 * k" by (simp add: sh NSHIFT_def)
  show ?thesis
    unfolding bmap_indir.simps(2) kbind_Ret[of "blk_read dev nb", OF rd] Let_def s path_index
    by (simp add: krun kret_def a quietD(2)[OF q])
qed

lemma bmap_last_run: "\<exists>s'. bmap_last dev nb i a es s = Ret a es s' \<and> k_disk s' = k_disk s \<and> u s' = u s"
  by (simp add: bmap_last_def krun kern_simps)

definition hole_or :: "int option \<Rightarrow> int" where
  "hole_or r = (case r of None \<Rightarrow> - 1 | Some a \<Rightarrow> a)"

lemma bmap_indir_tree:
  assumes "\<forall>e \<in> set es. quiet e" "k < length es" "\<And>b. \<not> k_ioerr s dev b" "nb \<noteq> 0"
  shows "\<exists>es' s'. bmap_indir (Suc k) dev (int r) (7 * Suc k) nb False es s =
      Ret (hole_or (tree_get (k_disk s dev) nb (map (\<lambda>i. (r div 2 ^ (7 * i)) mod 128) (rev [0 ..< Suc k])))) es' s' \<and>
    k_disk s' = k_disk s \<and> (\<exists>m \<le> Suc k. es' = drop m es)"
  using assms
proof (induction k arbitrary: es s nb)
  case 0
  then obtain e es' where es: "es = e # es'" by (cases es) auto
  then have q: "quiet e" using "0.prems"(1) by simp
  note step = bmap_indir_step[OF q "0.prems"(3) refl refl, of 0 r nb es']
  show ?case
    using bmap_last_run[of dev nb "r mod 128" "daddr_at (k_disk s dev nb) (r mod 128)" es' "e s"] "0.prems"(1,4)
    unfolding es step by (auto simp add: es hole_or_def quietD(2)[OF q] intro!: exI[of _ "Suc 0"])
next
  case (Suc k)
  then obtain e es' where es: "es = e # es'" by (cases es) auto
  then have q: "quiet e" using Suc.prems(1) by simp
  define a where "a = daddr_at (k_disk s dev nb) ((r div 2 ^ (7 * Suc k)) mod 128)"
  note step = bmap_indir_step[OF q Suc.prems(3) refl a_def, of es']
  have tree: "tree_get (k_disk s dev) nb (map (\<lambda>i. (r div 2 ^ (7 * i)) mod 128) (rev [0 ..< Suc (Suc k)])) =
      tree_get (k_disk s dev) a (map (\<lambda>i. (r div 2 ^ (7 * i)) mod 128) (rev [0 ..< Suc k]))"
    using Suc.prems(4) by (simp add: a_def)
  show ?case
  proof (cases "a = 0")
    case True
    then show ?thesis
      using step Suc.prems(1) es unfolding tree
      by (auto simp add: hole_or_def quietD(2)[OF q] intro: exI[of _ "Suc 0"] simp del: bmap_indir.simps)
  next
    case False
    have "\<exists>es'' s'. bmap_indir (Suc k) dev (int r) (7 * Suc k) a False es' (e s) =
        Ret (hole_or (tree_get (k_disk (e s) dev) a (map (\<lambda>i. (r div 2 ^ (7 * i)) mod 128) (rev [0 ..< Suc k])))) es'' s' \<and>
      k_disk s' = k_disk (e s) \<and> (\<exists>m \<le> Suc k. es'' = drop m es')"
      using Suc.prems es False by (intro Suc.IH) (auto simp add: quietD(3)[OF q])
    then obtain es'' s' m where r: "bmap_indir (Suc k) dev (int r) (7 * Suc k) a False es' (e s) =
        Ret (hole_or (tree_get (k_disk s dev) a (map (\<lambda>i. (r div 2 ^ (7 * i)) mod 128) (rev [0 ..< Suc k])))) es'' s'"
      "k_disk s' = k_disk s" "m \<le> Suc k" "es'' = drop m es'"
      by (auto simp add: quietD(2)[OF q] simp del: bmap_indir.simps upt.simps)
    then have "es'' = drop (Suc m) (e # es')" "Suc m \<le> Suc (Suc k)" by simp_all
    then show ?thesis unfolding tree es step using False r(1,2) by auto
  qed
qed

text \<open>\<open>bmap\<close> on a number that no file has.\<close>

lemma bmap_too_big:
  assumes "bn < 0 \<or> int max_blocks \<le> bn"
  shows "\<exists>s'. bmap ip bn wr es s = Ret 0 es s' \<and> s' = set_error EFBIG (s\<lparr>k_rablock := k_rablock s'\<rparr>)"
proof (cases "bn < 0")
  case False
  then have "bmap_level 3 0 1 (bn - 10) = None" using assms by (simp add: bmap_level_eval max_blocks_def)
  then show ?thesis using False assms
    by (simp add: bmap_def krun NADDR_def max_blocks_def kern_simps)
qed (simp add: bmap_def krun kern_simps)

section \<open>Bytes one by one\<close>

lemma to_u32_step: "to_u32 (to_u32 a + b) = to_u32 (a + b)" "to_u32 (to_u32 a - b) = to_u32 (a - b)"
  by (simp_all add: to_u32_def take_bit_eq_mod mod_simps)

lemma to_i32_step: "to_i32 (to_i32 a + b) = to_i32 (a + b)"
  by (simp add: to_i32_def signed_take_bit_eq_take_bit_shift take_bit_eq_mod mod_simps algebra_simps)

lemma io_step_add: "io_step m (io_step n s) = io_step (n + m) s"
proof -
  have "to_u32 (to_u32 (c - int n) - int m) = to_u32 (c - int (n + m))"
    "to_u32 (to_u32 (c + int n) + int m) = to_u32 (c + int (n + m))"
    "to_i32 (to_i32 (c + int n) + int m) = to_i32 (c + int (n + m))" for c
    unfolding to_u32_step to_i32_step by (simp_all add: algebra_simps)
  then show ?thesis by (simp add: io_step_def upd_u_def u_def)
qed

definition put_bytes :: "nat \<Rightarrow> 8 word list \<Rightarrow> kernel \<Rightarrow> kernel" where
  "put_bytes dst bs s = s\<lparr>k_mem := (k_mem s)(epoch68_user_page s :=
     epoch68_copyout_bytes bs dst (k_mem s (epoch68_user_page s)))\<rparr>"

lemma user_page_io_step [simp]: "epoch68_user_page (io_step n s) = epoch68_user_page s"
  by (simp add: epoch68_user_page_def io_step_def upd_u_def procp_def u_def)

lemma put_bytes_fields [simp]:
  "u (put_bytes dst bs s) = u s" "epoch68_user_page (put_bytes dst bs s) = epoch68_user_page s"
  by (simp_all add: put_bytes_def epoch68_user_page_def procp_def u_def)

lemma put_bytes_io_step: "put_bytes dst bs (io_step n s) = io_step n (put_bytes dst bs s)"
  unfolding put_bytes_def user_page_io_step by (simp add: io_step_def upd_u_def u_def)

lemma put_bytes_Cons: "put_bytes dst (b # bs) s = put_bytes (dst + 1) bs (put_bytes dst [b] s)"
  unfolding put_bytes_def epoch68_user_page_upd_mem by simp

text \<open>A transfer of \<open>n\<close> bytes at \<open>u_base\<close> that fits the request and the window.\<close>

definition fits :: "nat \<Rightarrow> kernel \<Rightarrow> bool" where
  "fits n s \<longleftrightarrow> u_segflg (u s) \<noteq> 1 \<and> 0 < n \<and> int n \<le> u_count (u s) \<and> u_count (u s) < 2 ^ 32 \<and>
    0 \<le> u_base (u s) \<and> u_base (u s) + int n \<le> EPOCH68_USER_PAGE_SIZE"

lemma fits_ptr:
  assumes "fits n s" "m \<le> n"
  shows "epoch68_user_ptr (u_base (u s)) (int m) = Some (nat (u_base (u s)))"
  using assms user_ptr_Some[of "int m" "u_base (u s)" "nat (u_base (u s))"]
  by (simp add: fits_def EPOCH68_USER_PAGE_SIZE_def to_u32_id)

lemma fits_copyout: "fits (length bs) s \<Longrightarrow> copyout bs (u_base (u s)) s = (0, put_bytes (nat (u_base (u s))) bs s)"
  using fits_ptr[of "length bs" s "length bs"] by (simp add: copyout_def put_bytes_def)

lemma io_step_u:
  assumes "fits n s" "m \<le> n"
  shows "u_count (u (io_step m s)) = u_count (u s) - int m" "u_base (u (io_step m s)) = u_base (u s) + int m"
    "u_segflg (u (io_step m s)) = u_segflg (u s)"
  using assms by (simp_all add: io_step_def fits_def to_u32_id EPOCH68_USER_PAGE_SIZE_def)

lemma passc_fits:
  assumes "fits n s"
  shows "passc (uint c) s = (if u_count (u s) = 1 then - 1 else 0, io_step 1 (put_bytes (nat (u_base (u s))) [c] s))"
proof -
  have n: "1 \<le> n" and seg: "u_segflg (u s) \<noteq> 1" using assms by (simp_all add: fits_def)
  have ptr: "epoch68_user_ptr (u_base (u s)) 1 = Some (nat (u_base (u s)))" using fits_ptr[OF assms n] by simp
  have "u_count (u (io_step 1 (put_bytes (nat (u_base (u s))) [c] s))) = u_count (u s) - 1"
    using io_step_u(1)[OF assms n] by (simp flip: put_bytes_io_step)
  then show ?thesis
    using seg by (simp add: passc_def subyte_def suibyte_def ptr put_bytes_def Let_def)
qed

lemma iomove_passc_fits:
  "fits n s \<Longrightarrow> iomove_passc n cp b s = io_step n (put_bytes (nat (u_base (u s))) (map b [cp ..< cp + n]) s)"
proof (induction n arbitrary: cp s)
  case (Suc n)
  define t where "t = io_step 1 (put_bytes (nat (u_base (u s))) [b cp] s)"
  have st: "iomove_passc (Suc n) cp b s = (if u_count (u s) = 1 then t else iomove_passc n (cp + 1) b t)"
    by (simp add: passc_fits[OF Suc.prems] t_def)
  show ?case
  proof (cases n)
    case 0
    then show ?thesis using st by (simp add: t_def)
  next
    case (Suc m)
    have ut: "u_count (u t) = u_count (u s) - 1" "u_base (u t) = u_base (u s) + 1" "u_segflg (u t) = u_segflg (u s)"
      using io_step_u[OF \<open>fits (Suc n) s\<close>, of 1] by (simp_all add: t_def flip: put_bytes_io_step)
    have ft: "fits n t" and c: "u_count (u s) \<noteq> 1" and b0: "0 \<le> u_base (u s)"
      using \<open>fits (Suc n) s\<close> Suc ut by (auto simp add: fits_def)
    have bytes: "map b [cp ..< cp + Suc n] = b cp # map b [cp + 1 ..< cp + 1 + n]"
      using upt_conv_Cons[of cp "cp + Suc n"] by simp
    have "nat (u_base (u t)) = nat (u_base (u s)) + 1" using ut b0 by simp
    then have "iomove_passc (Suc n) cp b s = io_step n (put_bytes (nat (u_base (u s)) + 1) (map b [cp + 1 ..< cp + 1 + n]) t)"
      using st c Suc.IH[OF ft, of "cp + 1"] by simp
    also have "\<dots> = io_step (Suc n) (put_bytes (nat (u_base (u s))) (map b [cp ..< cp + Suc n]) s)"
      using put_bytes_Cons[of "nat (u_base (u s))" "b cp" "map b [cp + 1 ..< cp + 1 + n]" s]
      unfolding bytes t_def put_bytes_io_step io_step_add by simp
    finally show ?thesis .
  qed
qed (simp add: fits_def)


lemma cpass_fits:
  assumes "fits n s"
  shows "cpass s = (uint (k_mem s (epoch68_user_page s) (nat (u_base (u s)))), io_step 1 s)"
proof -
  have n: "1 \<le> n" and seg: "u_segflg (u s) \<noteq> 1" "u_count (u s) \<noteq> 0" using assms by (auto simp add: fits_def)
  have ptr: "epoch68_user_ptr (u_base (u s)) 1 = Some (nat (u_base (u s)))" using fits_ptr[OF assms n] by simp
  have "take_bit 8 (uint c) = uint c" for c :: "8 word"
    using uint_lt2p[of c] by (simp add: take_bit_int_eq_self)
  then show ?thesis
    using seg by (simp add: cpass_def fubyte_def fuibyte_def ptr Let_def not_less)
qed

lemma k_mem_io_step [simp]: "k_mem (io_step n s) = k_mem s"
  by (simp add: io_step_def upd_u_def)

lemma iomove_cpass_fits:
  "fits n s \<Longrightarrow> iomove_cpass n cp b s =
    (\<lambda>j. if cp \<le> j \<and> j < cp + n then k_mem s (epoch68_user_page s) (nat (u_base (u s)) + (j - cp)) else b j, io_step n s)"
proof (induction n arbitrary: cp b s)
  case (Suc n)
  define c where "c = k_mem s (epoch68_user_page s) (nat (u_base (u s)))"
  have st: "iomove_cpass (Suc n) cp b s = iomove_cpass n (cp + 1) (b(cp := c)) (io_step 1 s)"
    by (simp add: cpass_fits[OF Suc.prems] c_def not_less)
  show ?case
  proof (cases n)
    case 0
    then show ?thesis using st by (auto simp add: c_def fun_eq_iff)
  next
    case (Suc m)
    have ut: "u_count (u (io_step 1 s)) = u_count (u s) - 1" "u_base (u (io_step 1 s)) = u_base (u s) + 1"
      "u_segflg (u (io_step 1 s)) = u_segflg (u s)"
      using io_step_u[OF \<open>fits (Suc n) s\<close>, of 1] by simp_all
    have ft: "fits n (io_step 1 s)" and b0: "0 \<le> u_base (u s)"
      using \<open>fits (Suc n) s\<close> Suc ut by (auto simp add: fits_def)
    have nb: "nat (u_base (u (io_step 1 s))) = nat (u_base (u s)) + 1" using ut b0 by simp
    have "iomove_cpass (Suc n) cp b s =
        (\<lambda>j. if cp + 1 \<le> j \<and> j < cp + 1 + n then k_mem s (epoch68_user_page s) (nat (u_base (u s)) + 1 + (j - (cp + 1)))
            else (b(cp := c)) j, io_step (Suc n) s)"
      unfolding st Suc.IH[OF ft] nb io_step_add k_mem_io_step user_page_io_step by simp
    also have "(\<lambda>j. if cp + 1 \<le> j \<and> j < cp + 1 + n then k_mem s (epoch68_user_page s) (nat (u_base (u s)) + 1 + (j - (cp + 1)))
        else (b(cp := c)) j) =
      (\<lambda>j. if cp \<le> j \<and> j < cp + Suc n then k_mem s (epoch68_user_page s) (nat (u_base (u s)) + (j - cp)) else b j)"
      by (rule ext) (auto simp add: c_def intro!: arg_cong[where f = "k_mem s (epoch68_user_page s)"])
    finally show ?thesis .
  qed
qed (simp add: fits_def)

lemma fits_copyin:
  "fits n s \<Longrightarrow> copyin (u_base (u s)) (int n) s = Some (epoch68_copy_bytes (k_mem s (epoch68_user_page s)) (nat (u_base (u s))) n)"
  using fits_ptr[of n s n] by (simp add: copyin_def to_u32_id fits_def)


lemma bmap_tree:
  assumes bn: "bn < max_blocks" and es: "\<forall>e \<in> set es. quiet e" "3 \<le> length es"
    and io: "\<And>b. \<not> k_ioerr s (i_dev (ino ip s)) b"
  shows "\<exists>es' s'. bmap ip (int bn) False es s =
      Ret (hole_or (tree_get (k_disk s (i_dev (ino ip s))) (i_addr (ino ip s) (fst (block_path bn))) (snd (block_path bn)))) es' s' \<and>
    k_disk s' = k_disk s \<and> (\<exists>m \<le> 3. es' = drop m es)"
proof (cases "bn < 10")
  case True
  then show ?thesis
    by (auto simp add: bmap_def bmap_addr_def krun NADDR_def kern_simps block_path_def hole_or_def ino_def Let_def intro: exI[of _ 0])
next
  case False
  define dev where "dev = i_dev (ino ip s)"
  define t where "t = s\<lparr>k_rablock := 0\<rparr>"
  have t: "k_disk t = k_disk s" "\<And>b. \<not> k_ioerr t dev b" using io by (simp_all add: t_def dev_def)
  obtain k r where kr: "bmap_level 3 0 1 (int bn - 10) = Some (3 - k, 7 * Suc k, int r)" "k < 3"
      "block_path bn = (10 + k, map (\<lambda>i. (r div 2 ^ (7 * i)) mod 128) (rev [0 ..< Suc k]))"
  proof -
    consider "bn < 138" | "138 \<le> bn" "bn < 16522" | "16522 \<le> bn" by linarith
    then show thesis
    proof cases
      case 1
      then show thesis using False that[of 0 "bn - 10"] by (simp add: bmap_level_eval block_path_def)
    next
      case 2
      then show thesis using False that[of 1 "bn - 138"] by (simp add: bmap_level_eval block_path_def)
    next
      case 3
      then have "(bn - 16522) div 16384 mod 128 = (bn - 16522) div 16384"
        using bn by (intro mod_less) (simp add: max_blocks_def div_less_iff_less_mult)
      moreover have "rev [0 ..< Suc 2] = [2, 1, 0]" by (simp add: numeral_2_eq_2)
      ultimately show thesis using 3 False bn that[of 2 "bn - 16522"]
        by (simp add: bmap_level_eval block_path_def max_blocks_def)
    qed
  qed
  have go: "bmap ip (int bn) False es s =
      (let a = i_addr (ino ip s) (10 + k) in if a = 0 then Ret (- 1) es t else bmap_indir (Suc k) dev (int r) (7 * Suc k) a False es t)"
    using False kr(1,2) by (simp add: bmap_def bmap_addr_def krun kern_simps NADDR_def ino_def Let_def t_def dev_def Suc_diff_le)
  show ?thesis
  proof (cases "i_addr (ino ip s) (10 + k) = 0")
    case True
    then show ?thesis unfolding go kr(3) by (auto simp add: hole_or_def t(1) intro: exI[of _ 0])
  next
    case nz: False
    obtain es' s' m where r: "bmap_indir (Suc k) dev (int r) (7 * Suc k) (i_addr (ino ip s) (10 + k)) False es t =
        Ret (hole_or (tree_get (k_disk s dev) (i_addr (ino ip s) (10 + k)) (map (\<lambda>i. (r div 2 ^ (7 * i)) mod 128) (rev [0 ..< Suc k])))) es' s'"
      "k_disk s' = k_disk s" "m \<le> Suc k" "es' = drop m es"
      using bmap_indir_tree[OF es(1) _ t(2) nz, of k r] kr(2) es(2) unfolding t(1) by auto
    then have "m \<le> 3" using kr(2) by simp
    then show ?thesis using r nz unfolding go kr(3) dev_def by auto
  qed
qed

lemma iomove_paths:
  assumes "fits n s" "int n < 2 ^ 32"
  shows "iomove_read cp n b s = iomove_passc n cp b s \<and> iomove_write cp n b s = iomove_cpass n cp b s"
proof -
  define a where "a = nat (u_base (u s))"
  define m where "m = k_mem s (epoch68_user_page s)"
  have n: "n \<noteq> 0" "u_segflg (u s) \<noteq> 1" using assms by (simp_all add: fits_def)
  have out: "copyout (map b [cp ..< cp + n]) (u_base (u s)) s = (0, put_bytes a (map b [cp ..< cp + n]) s)"
    using fits_copyout[of "map b [cp ..< cp + n]" s] assms by (simp add: a_def)
  have "(\<lambda>j. if cp \<le> j \<and> j < cp + n then epoch68_copy_bytes m a n ! (j - cp) else b j) =
      (\<lambda>j. if cp \<le> j \<and> j < cp + n then m (a + (j - cp)) else b j)"
    by (rule ext) (auto simp add: epoch68_copy_bytes_def)
  then show ?thesis
    using n iomove_passc_fits[OF assms(1), of cp b] iomove_cpass_fits[OF assms(1), of cp b]
    unfolding iomove_read_def iomove_write_def copyiout_def copyiin_def out fits_copyin[OF assms(1)] a_def[symmetric] m_def[symmetric]
    by (simp add: out)
qed

section \<open>Properties\<close>

text \<open>
  Claim C18. Reading, \<open>bmap\<close> finds the block of a file as the block tree gives it: the address in the i-node for the first ten
  blocks, then through one, two and three levels of indirect blocks, and \<open>-1\<close> for a hole at any level; this holds for every
  block number up to the limit of 10 + 128 + 128^2 + 128^3 blocks, and the contents of the disk are not changed.\<close>

theorem bmap_reads_tree:
  assumes bn: "bn < max_blocks" and es: "\<forall>e \<in> set es. quiet e" "3 \<le> length es"
    and io: "\<And>b. \<not> k_ioerr s (i_dev (ino ip s)) b"
  shows "\<exists>es' s'. bmap ip (int bn) False es s =
      Ret (hole_or (tree_get (k_disk s (i_dev (ino ip s))) (i_addr (ino ip s) (fst (block_path bn))) (snd (block_path bn)))) es' s' \<and>
    k_disk s' = k_disk s"
  using bmap_tree[OF assms] by blast

text \<open>
  Claim C19. The two algorithms of \<open>iomove\<close> agree: for a transfer that lies in the window and does not exceed the count, the
  block copy that is used when everything is even gives the same state and the same buffer as the byte loops of \<open>passc\<close> and \<open>cpass\<close>.\<close>

theorem iomove_equivalent:
  "\<lbrakk>fits n s; int n < 2 ^ 32\<rbrakk> \<Longrightarrow>
    iomove_read cp n b s = iomove_passc n cp b s \<and> iomove_write cp n b s = iomove_cpass n cp b s"
  by (rule iomove_paths)

text \<open>
  Claim C20. A write beyond the largest file is not refused before it does damage: \<open>bmap\<close> reports \<open>EFBIG\<close> and returns block 0, but
  \<open>writei\<close> tests only for a negative block. It copies the user's bytes into the buffer of block 0 of the device (the boot block), and
  raises the size of the file to an offset that \<open>bmap\<close> cannot reach.\<close>

theorem writei_past_limit:
  assumes fit: "fits n s" and off: "int max_blocks * 512 \<le> u_offset (u s)" "u_offset (u s) AND BMASK = 0" "u_offset (u s) + int n < 2 ^ 31"
    and n: "n < 512" "u_count (u s) = int n" and err: "u_error (u s) = 0"
    and reg: "i_mode (ino ip s) AND IFMT = IFREG" "i_size (ino ip s) \<le> u_offset (u s)"
    and io: "\<not> k_ioerr s (i_dev (ino ip s)) 0"
  shows "\<exists>s'. writei ip [id] s = Ret () [] s' \<and> u_error (u s') = EFBIG \<and> i_size (ino ip s') = u_offset (u s) + int n \<and>
    (\<forall>j < n. k_disk s' (i_dev (ino ip s)) 0 j = k_mem s (epoch68_user_page s) (nat (u_base (u s)) + j))"
proof -
  define dev where "dev = i_dev (ino ip s)"
  have o: "0 \<le> u_offset (u s)" using off(1) by (simp add: max_blocks_def)
  have c: "u_count (u s) \<noteq> 0" "0 < n" using fit n by (simp_all add: fits_def)
  have ty: "\<not> is_chr IFREG" "\<not> is_blk IFREG"
    by (simp_all add: is_chr_def is_blk_def IFREG_def IFCHR_def IFMPC_def IFBLK_def IFMPB_def)
  have bn: "int max_blocks \<le> drop_bit BSHIFT (u_offset (u s))"
    using off(1) by (simp add: BSHIFT_def drop_bit_eq_div max_blocks_def)
  obtain t where t: "bmap ip (drop_bit BSHIFT (u_offset (u s))) True [id] s = Ret 0 [id] t"
      "t = set_error EFBIG (s\<lparr>k_rablock := k_rablock t\<rparr>)"
    using bmap_too_big[OF disjI2[OF bn], of ip True "[id]" s] by blast
  have tf: "k_disk t = k_disk s" "k_inode t = k_inode s" "k_mem t = k_mem s" "u t = (u s)\<lparr>u_error := EFBIG\<rparr>" "k_ioerr t = k_ioerr s"
      "epoch68_user_page t = epoch68_user_page s"
    by (subst t(2), simp add: epoch68_user_page_def)+
  have ft: "fits n t" using fit by (simp add: fits_def tf)
  obtain b' where b: "iomove_write 0 n (k_disk s dev 0) t = (b', io_step n t)"
      "\<forall>j < n. b' j = k_mem s (epoch68_user_page s) (nat (u_base (u s)) + j)"
  proof -
    have "int n < 2 ^ 32" using n by simp
    from iomove_paths[OF ft this, of 0 "k_disk s dev 0"] iomove_cpass_fits[OF ft, of 0 "k_disk s dev 0"] that
    show thesis by (simp add: tf)
  qed
  define v where "v = upd_inode ip (\<lambda>d. d\<lparr>i_size := u_offset (u s) + int n\<rparr>) (set_block dev 0 (\<lambda>_. b') (io_step n t))"
  define w where "w = set_iflag ip (IUPD OR ICHG) v"
  have un: "umin 512 (int n) = int n" using n by (simp add: umin_def to_u32_id)
  have iob: "io_block s = (drop_bit BSHIFT (u_offset (u s)), 0, int n)"
    using off(2) n by (simp add: io_block_def BSIZE_def un)
  have ut: "u_offset (u (io_step n t)) = u_offset (u s) + int n" "u_error (u (io_step n t)) = EFBIG" "k_inode (io_step n t) = k_inode s"
      "u_count (u (io_step n t)) = 0"
    using o off(3) n(2) by (simp_all add: io_step_def tf to_i32_id to_u32_id)
  have rd: "blk_read dev 0 [id] t = Ret False [] t"
    using io by (simp add: blk_read_def kern_simps tf dev_def)
  have blk: "writei_block ip IFREG dev 0 0 (int n) [id] t = Ret () [] w"
    using n(1) b(1) reg(2) c(2) ut
    by (simp add: writei_block_def BSIZE_def kern_simps rd w_def v_def tf ino_def)
  have wf: "u_error (u w) = EFBIG" "i_size (ino ip w) = u_offset (u s) + int n" "k_disk w dev 0 = b'"
    by (simp_all add: w_def v_def set_iflag_def ino_def ut set_block_def)
  have turn: "writei_turn ip IFREG [id] s = Ret True [] w"
    unfolding writei_turn_def krun iob using ty t(1) blk by (simp add: kern_simps ino_def tf dev_def)
  have "writei ip [id] s = Ret () [] w"
    using o c(1) reg(1) ty turn wf(1) by (simp add: writei_def kern_simps EFBIG_def ino_def)
  then show ?thesis using wf b(2) by (simp add: dev_def)
qed

text \<open>Concrete instances.\<close>

definition io_demo :: kernel where
  "io_demo = (upd_u (\<lambda>w. w\<lparr>u_count := 4, u_base := 100, u_offset := 2113674 * 512\<rparr>)
     (upd_inode 7 (\<lambda>d. d\<lparr>i_mode := IFREG, i_addr := (\<lambda>i. if i = 10 then 77 else 0)\<rparr>) kernel0))
     \<lparr>k_disk := (\<lambda>dev bn. if bn = 77 then wr32 12 99 (\<lambda>_. 0) else (\<lambda>_. 0))\<rparr>"

lemma io_demo_fields:
  "u io_demo = user0\<lparr>u_count := 4, u_base := 100, u_offset := 2113674 * 512\<rparr>"
  "ino 7 io_demo = inode0\<lparr>i_mode := IFREG, i_addr := (\<lambda>i. if i = 10 then 77 else 0)\<rparr>"
  "k_ioerr io_demo = (\<lambda>_ _. False)" "k_disk io_demo = (\<lambda>dev bn. if bn = 77 then wr32 12 99 (\<lambda>_. 0) else (\<lambda>_. 0))"
  by (simp_all add: io_demo_def ino_def kernel0_def u_def upd_u_def) (simp add: user0_def)

lemma io_demo_fits: "fits 4 io_demo"
  by (simp add: fits_def io_demo_fields EPOCH68_USER_PAGE_SIZE_def user0_def)

theorem bmap_reads_tree_witness: "\<exists>es' s'. bmap 7 13 False [id, id, id] io_demo = Ret 99 es' s' \<and> k_disk s' = k_disk io_demo"
proof -
  have "daddr_at (wr32 12 99 (\<lambda>_. 0)) 3 = 99" by (simp add: daddr_at_def rd32_wr32 to_i32_id)
  then show ?thesis
    using bmap_reads_tree[of 13 "[id, id, id]" io_demo 7]
    by (simp add: quiet_id max_blocks_def io_demo_fields block_path_def hole_or_def inode0_def)
qed

theorem iomove_equivalent_witness:
  "iomove_read 0 4 (\<lambda>_. 1) io_demo = iomove_passc 4 0 (\<lambda>_. 1) io_demo \<and>
   iomove_write 0 4 (\<lambda>_. 1) io_demo = iomove_cpass 4 0 (\<lambda>_. 1) io_demo"
  using iomove_equivalent[OF io_demo_fits] by simp

theorem writei_past_limit_witness:
  "\<exists>s'. writei 7 [id] io_demo = Ret () [] s' \<and> u_error (u s') = EFBIG \<and> i_size (ino 7 s') = 2113674 * 512 + 4 \<and>
    (\<forall>j < 4. k_disk s' 0 0 j = k_mem io_demo (epoch68_user_page io_demo) (nat (u_base (u io_demo)) + j))"
  using writei_past_limit[OF io_demo_fits, of 7]
  by (simp add: io_demo_fields max_blocks_def BMASK_def inode0_def IFMT_def IFREG_def user0_def)

end
