(* ===== verification/Text_Table.thy ===== *)
theory Text_Table
  imports File_IO
begin

text \<open>
  The text table, \<open>sys/text.c\<close>. This port loads every image into the page of its process; the table only marks the
  i-nodes of running programs, so that they cannot be written (\<open>xmark\<close>, \<open>xfree\<close>, \<open>xrele\<close>, \<open>xumount\<close>). \<open>coremap\<close> and \<open>swapmap\<close> have
  no entries and every text has size 0, but their \<open>mfree\<close> calls are kept. The routines that move text and processes to and from swap space (\<open>xswap\<close>, \<open>xalloc\<close>,
  \<open>xexpand\<close>) are not called by this port and not modelled.
\<close>

text \<open>Following a pointer that must not be \<open>NULL\<close>.\<close>

definition kderef :: "(kernel \<Rightarrow> 'i option) \<Rightarrow> ('i \<Rightarrow> (kernel, 'a) kern) \<Rightarrow> (kernel, 'a) kern" where
  "kderef f g = kbind (kget f) (\<lambda>r. case r of None \<Rightarrow> kpanic ''null pointer'' | Some i \<Rightarrow> g i)"

definition ctod :: "int \<Rightarrow> int" where
  "ctod x = drop_bit 3 (x + 7)"

text \<open>\<open>mfree\<close> on the two maps, with the wakeup of the scheduler for \<open>coremap\<close>.\<close>

definition mfree_map :: "kernel \<Rightarrow> rmap option \<Rightarrow> (rmap \<Rightarrow> kernel) \<Rightarrow> string + kernel" where
  "mfree_map s r f = (case r of None \<Rightarrow> Inl ''wild map'' | Some m \<Rightarrow> Inr (f m))"

definition mfree_swap :: "int \<Rightarrow> int \<Rightarrow> kernel \<Rightarrow> string + kernel" where
  "mfree_swap sz a s = mfree_map s (mfree (k_swapmap s) sz a) (\<lambda>m. s\<lparr>k_swapmap := m\<rparr>)"

definition mfree_core :: "int \<Rightarrow> int \<Rightarrow> kernel \<Rightarrow> string + kernel" where
  "mfree_core sz a s =
    sbind (if k_runin s \<noteq> 0 then wakeup Ch_runin (s\<lparr>k_runin := 0\<rparr>) else Inr s)
      (\<lambda>s. mfree_map s (mfree (k_coremap s) sz a) (\<lambda>m. s\<lparr>k_coremap := m\<rparr>))"

definition set_xflag :: "nat \<Rightarrow> 8 word \<Rightarrow> kernel \<Rightarrow> kernel" where
  "set_xflag xp f = upd_text xp (\<lambda>x. x\<lparr>x_flag := x_flag x OR f\<rparr>)"

definition clr_xflag :: "nat \<Rightarrow> 8 word \<Rightarrow> kernel \<Rightarrow> kernel" where
  "clr_xflag xp f = upd_text xp (\<lambda>x. x\<lparr>x_flag := x_flag x AND NOT f\<rparr>)"

definition xlock :: "nat \<Rightarrow> (kernel, unit) kern" where
  "xlock xp =
    kthen (ksleep_while (\<lambda>s. x_flag (k_text s xp) AND XLOCK \<noteq> 0)
            (kthen (kmod (set_xflag xp XWANT)) (sleep (Ch_text xp) PSWP)))
      (kmod (set_xflag xp XLOCK))"

definition xunlock :: "nat \<Rightarrow> (kernel, unit) kern" where
  "xunlock xp =
    kthen (kwhen (\<lambda>s. x_flag (k_text s xp) AND XWANT \<noteq> 0) (kpure (wakeup (Ch_text xp))))
      (kmod (clr_xflag xp (XLOCK OR XWANT)))"

text \<open>A text that was written is swapped out; with size 0, as for every text of this port, \<open>swap\<close> transfers nothing. A larger one ends here as a panic.\<close>

definition xccdec :: "nat option \<Rightarrow> (kernel, unit) kern" where
  "xccdec r =
    (case r of
       None \<Rightarrow> kret ()
     | Some xp \<Rightarrow>
         kwhen (\<lambda>s. x_ccount (k_text s xp) \<noteq> 0)
           (kthen (xlock xp)
           (kthen (kmod (upd_text xp (\<lambda>x. x\<lparr>x_ccount := to_i8 (x_ccount x - 1)\<rparr>)))
           (kthen (kwhen (\<lambda>s. x_ccount (k_text s xp) = 0)
                    (kthen (kwhen (\<lambda>s. x_flag (k_text s xp) AND XWRIT \<noteq> 0)
                             (kthen (kmod (clr_xflag xp XWRIT)) (kwhen (\<lambda>s. x_size (k_text s xp) \<noteq> 0) (kpanic ''swap''))))
                      (kpure (\<lambda>s. mfree_core (x_size (k_text s xp)) (x_caddr (k_text s xp)) s))))
             (xunlock xp)))))"

text \<open>The i-node of a text that goes away: \<open>if (ip->i_flag & ILOCK) ip->i_count--; else iput(ip);\<close>\<close>

definition xput :: "nat \<Rightarrow> (kernel, unit) kern" where
  "xput ip =
    kthen (kmod (clr_iflag ip ITEXT))
      (kif (\<lambda>s. i_flag (ino ip s) AND ILOCK \<noteq> 0)
        (kmod (upd_inode ip (\<lambda>d. d\<lparr>i_count := to_i8 (i_count d - 1)\<rparr>)))
        (iput ip))"

definition xfree :: "(kernel, unit) kern" where
  "xfree =
    kbind (kget (\<lambda>s. p_textp (k_proc s (procp s)))) (\<lambda>r.
      case r of
        None \<Rightarrow> kret ()
      | Some xp \<Rightarrow>
          kthen (xlock xp)
          (kthen (kmod (clr_xflag xp XLOCK))
          (kthen (kmod (\<lambda>s. upd_proc (procp s) (\<lambda>p. p\<lparr>p_textp := None\<rparr>) s))
          (kderef (\<lambda>s. x_iptr (k_text s xp)) (\<lambda>ip.
          (kthen (kmod (upd_text xp (\<lambda>x. x\<lparr>x_count := to_i8 (x_count x - 1)\<rparr>)))
            (kif (\<lambda>s. x_count (k_text s xp) = 0 \<and> i_mode (ino ip s) AND ISVTX = 0)
              (kthen (kmod (upd_text xp (\<lambda>x. x\<lparr>x_iptr := None\<rparr>)))
              (kthen (kpure (\<lambda>s. mfree_swap (ctod (x_size (k_text s xp))) (x_daddr (k_text s xp)) s))
              (kthen (kpure (\<lambda>s. mfree_core (x_size (k_text s xp)) (x_caddr (k_text s xp)) s))
                (xput ip))))
              (xccdec (Some xp)))))))))"

text \<open>The search for a free entry (the first) and for the entry of this i-node.\<close>

definition xmark :: "nat \<Rightarrow> (kernel, unit) kern" where
  "xmark ip =
    kif (\<lambda>s. ux_tsize (u_exdata (u s)) = 0) (kret ())
      (kbind (kget (\<lambda>s. (first_index NTEXT (\<lambda>x. x_iptr (k_text s x) = Some ip),
                         first_index NTEXT (\<lambda>x. x_iptr (k_text s x) = None)))) (\<lambda>r.
        case r of
          (Some xp, _) \<Rightarrow>
            kthen (xlock xp)
            (kthen (kmod (upd_text xp (\<lambda>x. x\<lparr>x_count := to_i8 (x_count x + 1), x_ccount := to_i8 (x_ccount x + 1)\<rparr>)))
            (kthen (kmod (\<lambda>s. upd_proc (procp s) (\<lambda>p. p\<lparr>p_textp := Some xp\<rparr>) s))
              (xunlock xp)))
        | (None, None) \<Rightarrow> kpure (\<lambda>s. psignal (procp s) SIGKIL s)
        | (None, Some xp) \<Rightarrow>
            kthen (kmod (upd_text xp (\<lambda>x. \<lparr>x_daddr = 0, x_caddr = 0, x_size = 0, x_iptr = Some ip, x_count = 1, x_ccount = 1, x_flag = 0\<rparr>)))
            (kthen (kmod (set_iflag ip ITEXT))
            (kthen (kmod (upd_inode ip (\<lambda>d. d\<lparr>i_count := to_i8 (i_count d + 1)\<rparr>)))
              (kmod (\<lambda>s. upd_proc (procp s) (\<lambda>p. p\<lparr>p_textp := Some xp\<rparr>) s))))))"

definition xuntext :: "nat \<Rightarrow> (kernel, unit) kern" where
  "xuntext xp =
    kthen (xlock xp)
      (kif (\<lambda>s. x_count (k_text s xp) \<noteq> 0)
        (xunlock xp)
        (kderef (\<lambda>s. x_iptr (k_text s xp)) (\<lambda>ip.
          kthen (kmod (clr_xflag xp XLOCK))
          (kthen (kmod (upd_text xp (\<lambda>x. x\<lparr>x_iptr := None\<rparr>)))
          (kthen (kpure (\<lambda>s. mfree_swap (ctod (x_size (k_text s xp))) (x_daddr (k_text s xp)) s))
            (xput ip))))))"

definition xumount :: "int \<Rightarrow> (kernel, unit) kern" where
  "xumount dev =
    kfor (\<lambda>xp. kwhen (\<lambda>s. case x_iptr (k_text s xp) of None \<Rightarrow> False | Some ip \<Rightarrow> dev = i_dev (ino ip s)) (xuntext xp))
      [0 ..< NTEXT]"

definition xrele :: "nat \<Rightarrow> (kernel, unit) kern" where
  "xrele ip =
    kwhen (\<lambda>s. i_flag (ino ip s) AND ITEXT \<noteq> 0)
      (kfor (\<lambda>xp. kwhen (\<lambda>s. x_iptr (k_text s xp) = Some ip) (xuntext xp)) [0 ..< NTEXT])"

end
