(* ===== verification/Name_Lookup.thy ===== *)
theory Name_Lookup
  imports Text_Table
begin

text \<open>
  Permissions and path names: \<open>access\<close> and \<open>owner\<close> of \<open>sys/fio.c\<close>, \<open>sys/nami.c\<close>, and \<open>maknode\<close> and \<open>wdir\<close> of \<open>sys/iget.c\<close>.

  The function that \<open>namei\<close> calls for the next character of the name is an argument, \<open>uchar\<close> or \<open>schar\<close> on a kernel string. \<open>mpxip\<close> is
  never assigned in this kernel, so the tests for it fail and the name of a multiplexed file (with \<open>!\<close>) is an ordinary name.
\<close>

section \<open>Permissions\<close>

text \<open>\<open>True\<close> is the return of 1: no permission. A routine that returns with an error:\<close>

definition kfail :: "int \<Rightarrow> 'a \<Rightarrow> (kernel, 'a) kern" where
  "kfail e a = kthen (kmod (set_error e)) (kret a)"

definition access_bits :: "nat \<Rightarrow> 16 word \<Rightarrow> kernel \<Rightarrow> 16 word" where
  "access_bits ip mode s =
    (if u_uid (u s) \<noteq> i_uid (ino ip s) then
       (if u_gid (u s) \<noteq> i_gid (ino ip s) then drop_bit 6 mode else drop_bit 3 mode)
     else mode)"

definition access_write :: "nat \<Rightarrow> (kernel, bool) kern" where
  "access_write ip =
    kbind (kget (\<lambda>s. i_dev (ino ip s))) (\<lambda>dev.
    kbind (getfs dev) (\<lambda>m.
      kif (\<lambda>s. s_ronly (fs m s) \<noteq> 0) (kfail EROFS True)
        (kthen (kwhen (\<lambda>s. i_flag (ino ip s) AND ITEXT \<noteq> 0) (xrele ip))
          (kif (\<lambda>s. i_flag (ino ip s) AND ITEXT \<noteq> 0) (kfail ETXTBSY True) (kret False)))))"

definition access :: "nat \<Rightarrow> 16 word \<Rightarrow> (kernel, bool) kern" where
  "access ip mode =
    kbind (if mode = IWRITE then access_write ip else kret False) (\<lambda>denied.
      if denied then kret True
      else kif (\<lambda>s. u_uid (u s) = 0) (kret False)
             (kif (\<lambda>s. i_mode (ino ip s) AND access_bits ip mode s \<noteq> 0) (kret False) (kfail EACCES True)))"

section \<open>The characters of a name\<close>

definition DIRSIZ :: nat where "DIRSIZ = 14"

type_synonym namefn = "kernel \<Rightarrow> int \<times> kernel"

definition next_dirp :: "kernel \<Rightarrow> kernel" where
  "next_dirp = upd_u (\<lambda>w. w\<lparr>u_dirp := to_u32 (u_dirp w + 1)\<rparr>)"

definition schar :: "(nat \<Rightarrow> 8 word) \<Rightarrow> namefn" where
  "schar str s = (uint (str (nat (u_dirp (u s)))), next_dirp s)"

definition uchar :: namefn where
  "uchar s =
    (let c = fubyte (u_dirp (u s)) s; s = next_dirp s
     in (c, if c = - 1 then set_error EFAULT s else s))"

text \<open>
  The loops over characters. They end at a character other than \<open>/\<close>, or at one of \<open>/\<close>, \<open>NUL\<close> and an error. A user name
  is at most the window of \<open>2 ^ 18\<close> bytes long, after which \<open>uchar\<close> fails, so \<open>NAMEMAX\<close> steps are enough.
\<close>

definition NAMEMAX :: nat where "NAMEMAX = 262145"

fun skip_slashes :: "nat \<Rightarrow> namefn \<Rightarrow> int \<Rightarrow> kernel \<Rightarrow> int \<times> kernel" where
  "skip_slashes k func c s =
    (if c = 47 \<and> k \<noteq> 0 then (case func s of (c, s) \<Rightarrow> skip_slashes (k - 1) func c s) else (c, s))"

declare skip_slashes.simps [simp del]

text \<open>One component: at most \<open>DIRSIZ\<close> characters are kept, the others are read and dropped; the rest of \<open>u_dbuf\<close> is cleared.\<close>

fun gather_name :: "nat \<Rightarrow> namefn \<Rightarrow> int \<Rightarrow> 8 word list \<Rightarrow> kernel \<Rightarrow> int \<times> 8 word list \<times> kernel" where
  "gather_name k func c cp s =
    (if c \<noteq> 47 \<and> c \<noteq> 0 \<and> u_error (u s) = 0 \<and> k \<noteq> 0 then
       (let cp = (if length cp < DIRSIZ then cp @ [word_of_int c] else cp)
        in case func s of (c, s) \<Rightarrow> gather_name (k - 1) func c cp s)
     else (c, cp, s))"

declare gather_name.simps [simp del]

definition name_component :: "namefn \<Rightarrow> int \<Rightarrow> kernel \<Rightarrow> int \<times> kernel" where
  "name_component func c s =
    (case gather_name NAMEMAX func c [] s of (c, cp, s) \<Rightarrow>
       skip_slashes NAMEMAX func c (upd_u (\<lambda>w. w\<lparr>u_dbuf := cp @ replicate (DIRSIZ - length cp) 0\<rparr>) s))"

section \<open>Searching a directory\<close>

definition dir_entry :: "blk \<Rightarrow> nat \<Rightarrow> direct" where
  "dir_entry b off = \<lparr>d_ino = rd16 b off, d_name = map b [off + 2 ..< off + 2 + DIRSIZ]\<rparr>"

text \<open>
  \<open>eloop\<close> inside one block: \<open>True\<close> when an entry matches, \<open>False\<close> at the end of the block or of the directory. \<open>eo\<close> is the offset
  behind the first empty slot, or 0. A block has 32 entries.
\<close>

fun dir_scan :: "nat \<Rightarrow> blk \<Rightarrow> int \<Rightarrow> int \<Rightarrow> kernel \<Rightarrow> bool \<times> int \<times> kernel" where
  "dir_scan 0 b sz eo s = (False, eo, s)"
| "dir_scan (Suc k) b sz eo s =
    (let d = dir_entry b (nat (u_offset (u s) AND BMASK));
         s = upd_u (\<lambda>w. w\<lparr>u_dent := d, u_offset := to_i32 (u_offset w + 16)\<rparr>) s;
         again = (\<lambda>eo. if u_offset (u s) \<ge> sz \<or> u_offset (u s) AND BMASK = 0 then (False, eo, s) else dir_scan k b sz eo s)
     in if d_ino d = 0 then again (if eo = 0 then u_offset (u s) else eo)
        else if u_dbuf (u s) \<noteq> d_name d then again eo
        else (True, eo, s))"

datatype search = Found | Not_found int | Io_error

text \<open>Every block is read, so the length of the schedule bounds the turns.\<close>

fun name_search :: "nat \<Rightarrow> nat \<Rightarrow> int \<Rightarrow> (kernel, search) kern" where
  "name_search 0 dp eo = (\<lambda>es s. Blocked s)"
| "name_search (Suc k) dp eo =
    kif (\<lambda>s. u_offset (u s) \<ge> i_size (ino dp s)) (kret (Not_found eo))
      (kbind (kget (\<lambda>s. (i_dev (ino dp s), drop_bit BSHIFT (u_offset (u s))))) (\<lambda>(dev, lbn).
       kbind (bmap dp lbn False) (\<lambda>bn.
       kbind (blk_read dev bn) (\<lambda>err.
         if err then kret Io_error
         else kbind (kget (\<lambda>s. dir_scan 32 (k_disk s dev bn) (i_size (ino dp s)) eo s)) (\<lambda>(hit, eo, t).
              kthen (kmod (\<lambda>_. t)) (if hit then kret Found else name_search k dp eo))))))"

section \<open>Looking up a path\<close>

text \<open>What follows the search of a directory: return from \<open>namei\<close>, go on with another i-node at \<open>cloop\<close>, or search again at \<open>seloop\<close>.\<close>

datatype namei_next = N_return "nat option" | N_cloop "nat option" | N_seloop nat

definition namei_out :: "nat \<Rightarrow> (kernel, namei_next) kern" where
  "namei_out dp = kthen (iput dp) (kret (N_return None))"

text \<open>The name is not there.\<close>

definition namei_absent :: "int \<Rightarrow> bool \<Rightarrow> nat \<Rightarrow> int \<Rightarrow> (kernel, namei_next) kern" where
  "namei_absent flag final dp eo =
    (if flag = 1 \<and> final then
       kbind (access dp IWRITE) (\<lambda>denied.
         if denied then namei_out dp
         else kthen (kmod (upd_u (\<lambda>w. w\<lparr>u_pdir := Some dp\<rparr>)))
             (kthen (if eo \<noteq> 0 then kmod (upd_u (\<lambda>w. w\<lparr>u_offset := eo - 16\<rparr>)) else kmod (set_iflag dp (IUPD OR ICHG)))
               (kret (N_return None))))
     else kthen (kmod (set_error ENOENT)) (namei_out dp))"

text \<open>\<open>..\<close> in the root of a mounted file system leads to the directory it is mounted on.\<close>

definition dotdot_mount :: "nat \<Rightarrow> kernel \<Rightarrow> nat option" where
  "dotdot_mount dp s =
    (if d_ino (u_dent (u s)) = ROOTINO \<and> i_number (ino dp s) = ROOTINO \<and> d_name (u_dent (u s)) ! 1 = 46
     then List.find (\<lambda>i. m_used (k_mount s i) \<and> m_dev (k_mount s i) = i_dev (ino dp s)) [1 ..< NMOUNT]
     else None)"

definition namei_found :: "int \<Rightarrow> bool \<Rightarrow> nat \<Rightarrow> (kernel, namei_next) kern" where
  "namei_found flag final dp =
    (if flag = 2 \<and> final then
       kbind (access dp IWRITE) (\<lambda>denied. if denied then namei_out dp else kret (N_return (Some dp)))
     else
       kbind (kget (\<lambda>s. (i_dev (ino dp s), dotdot_mount dp s))) (\<lambda>(d, mp).
         case mp of
           Some i \<Rightarrow>
             kthen (iput dp)
             (kderef (\<lambda>s. m_inodp (k_mount s i)) (\<lambda>dp.
               kthen (kmod (upd_inode dp (\<lambda>v. v\<lparr>i_count := to_i8 (i_count v + 1)\<rparr>)))
               (kthen (plock dp) (kret (N_seloop dp)))))
         | None \<Rightarrow>
             kthen (iput dp)
             (kbind (kget (\<lambda>s. d_ino (u_dent (u s)))) (\<lambda>n.
              kbind (iget d n) (\<lambda>r. kret (N_cloop r))))))"

definition namei_dir :: "int \<Rightarrow> bool \<Rightarrow> nat \<Rightarrow> (kernel, namei_next) kern" where
  "namei_dir flag final dp =
    kthen (kwhen (\<lambda>s. i_mode (ino dp s) AND IFMT \<noteq> IFDIR) (kmod (set_error ENOTDIR)))
    (kbind (access dp IEXEC) (\<lambda>_.
      kif (\<lambda>s. u_error (u s) \<noteq> 0) (namei_out dp)
        (kthen (kmod (upd_u (\<lambda>w. w\<lparr>u_offset := 0, u_segflg := 1\<rparr>)))
        (kbind (\<lambda>es s. name_search (Suc (length es)) dp 0 es s) (\<lambda>r.
          case r of
            Io_error \<Rightarrow> namei_out dp
          | Not_found eo \<Rightarrow> namei_absent flag final dp eo
          | Found \<Rightarrow> namei_found flag final dp)))))"

text \<open>
  \<open>cloop\<close> and \<open>seloop\<close>; \<open>gather\<close> tells them apart. A turn that goes on has read a block of a directory.
\<close>

fun namei_loop :: "nat \<Rightarrow> namefn \<Rightarrow> int \<Rightarrow> nat \<Rightarrow> int \<Rightarrow> bool \<Rightarrow> (kernel, nat option) kern" where
  "namei_loop 0 func flag dp c gather = (\<lambda>es s. Blocked s)"
| "namei_loop (Suc k) func flag dp c gather =
    kif (\<lambda>s. gather \<and> u_error (u s) \<noteq> 0) (kthen (iput dp) (kret None))
      (if gather \<and> c = 0 then kret (Some dp)
       else kbind (if gather then kget (name_component func c) else kget (\<lambda>s. (c, s))) (\<lambda>(c, t).
            kthen (kmod (\<lambda>_. t))
            (kbind (namei_dir flag (c = 0) dp) (\<lambda>r.
               case r of
                 N_return x \<Rightarrow> kret x
               | N_cloop None \<Rightarrow> kret None
               | N_cloop (Some dp) \<Rightarrow> namei_loop k func flag dp c True
               | N_seloop dp \<Rightarrow> namei_loop k func flag dp c False))))"

definition namei :: "namefn \<Rightarrow> int \<Rightarrow> (kernel, nat option) kern" where
  "namei func flag =
    kbind (kget (\<lambda>s. u_cdir (u s))) (\<lambda>cdir.
    kbind (kget func) (\<lambda>(c, t). kthen (kmod (\<lambda>_. t))
    (kbind (kget (\<lambda>s. if c = 47 then (case u_rdir (u s) of None \<Rightarrow> k_rootdir s | Some r \<Rightarrow> r) else cdir)) (\<lambda>dp.
     kbind (kget (\<lambda>s. (i_dev (ino dp s), i_number (ino dp s)))) (\<lambda>(dev, n).
     kthen (iget dev n)
    (kbind (kget (skip_slashes NAMEMAX func c)) (\<lambda>(c, t). kthen (kmod (\<lambda>_. t))
    (kthen (kwhen (\<lambda>_. c = 0 \<and> flag \<noteq> 0) (kmod (set_error ENOENT)))
      (\<lambda>es s. namei_loop (Suc (length es)) func flag dp c True es s)))))))))"

definition owner :: "(kernel, nat option) kern" where
  "owner =
    kbind (namei uchar 0) (\<lambda>r.
      case r of
        None \<Rightarrow> kret None
      | Some ip \<Rightarrow>
          kif (\<lambda>s. u_uid (u s) = i_uid (ino ip s)) (kret (Some ip))
            (kbind (kget suser) (\<lambda>(ok, t). kthen (kmod (\<lambda>_. t))
              (if ok then kret (Some ip) else kthen (iput ip) (kret None)))))"

section \<open>New names\<close>

definition dir_bytes :: "direct \<Rightarrow> 8 word list" where
  "dir_bytes d = be_byte 1 (d_ino d) # be_byte 0 (d_ino d) # d_name d"

text \<open>The transfer of \<open>u_dent\<close>: \<open>u_base\<close> points at the kernel object itself.\<close>

definition dent_io :: "kernel \<Rightarrow> kernel" where
  "dent_io = upd_u (\<lambda>w. w\<lparr>u_count := 16, u_base := 0,
     u_kbuf := (\<lambda>j. if j < 16 then dir_bytes (u_dent w) ! j else u_kbuf w j)\<rparr>)"

definition wdir :: "nat \<Rightarrow> (kernel, unit) kern" where
  "wdir ip =
    kderef (\<lambda>s. u_pdir (u s)) (\<lambda>pdir.
      kthen
        (kif (\<lambda>s. i_nlink (ino pdir s) \<le> 0) (kmod (set_error ENOTDIR))
          (kthen (kmod (\<lambda>s. upd_u (\<lambda>w. w\<lparr>u_dent := \<lparr>d_ino = i_number (ino ip s), d_name = u_dbuf w\<rparr>, u_segflg := 1\<rparr>) s))
          (kthen (kmod dent_io) (writei pdir))))
        (kderef (\<lambda>s. u_pdir (u s)) iput))"

definition maknode :: "16 word \<Rightarrow> (kernel, nat option) kern" where
  "maknode mode =
    kderef (\<lambda>s. u_pdir (u s)) (\<lambda>pdir.
    kbind (kget (\<lambda>s. i_dev (ino pdir s))) (\<lambda>dev.
    kbind (ialloc dev) (\<lambda>r.
      case r of
        None \<Rightarrow> kthen (kderef (\<lambda>s. u_pdir (u s)) iput) (kret None)
      | Some ip \<Rightarrow>
          kthen (kmod (set_iflag ip (IACC OR IUPD OR ICHG)))
          (kthen (kmod (\<lambda>s. upd_inode ip (\<lambda>d. d\<lparr>i_mode := (if mode AND IFMT = 0 then mode OR IFREG else mode) AND NOT (u_cmask (u s)),
                                                 i_nlink := 1, i_uid := u_uid (u s), i_gid := u_gid (u s)\<rparr>) s))
          (kthen (wdir ip) (kret (Some ip)))))))"

section \<open>Names end\<close>

text \<open>A user name runs out of the window after at most \<open>2 ^ 18\<close> characters, so the bound \<open>NAMEMAX\<close> is never reached.\<close>

definition name_left :: "kernel \<Rightarrow> nat" where
  "name_left s = (if to_u32 (u_dirp (u s)) < 262144 then nat (262144 - to_u32 (u_dirp (u s))) else 0)"

lemma fubyte_inside: "fubyte a s \<noteq> - 1 \<longleftrightarrow> to_u32 a < 262144"
proof (cases "epoch68_user_ptr a 1")
  case None
  then have "\<not> to_u32 a < 262144"
    using user_ptr_Some[of 1 a "nat (to_u32 a)"] to_u32_range[of a] by (simp add: EPOCH68_USER_PAGE_SIZE_def)
  then show ?thesis using None by (simp add: fubyte_def)
next
  case (Some x)
  then have "to_u32 a < 262144"
    using user_ptr_Some[of 1 a x] by (simp add: EPOCH68_USER_PAGE_SIZE_def)
  moreover have "uint (v :: 8 word) \<noteq> - 1" for v using uint_ge_0[of v] by linarith
  ultimately show ?thesis using Some by (simp add: fubyte_def)
qed

lemma uchar_left:
  assumes "uchar s = (c, t)" "c \<noteq> - 1"
  shows "name_left t < name_left s" "u_error (u t) = u_error (u s)"
proof -
  define a where "a = to_u32 (u_dirp (u s))"
  have c: "c = fubyte (u_dirp (u s)) s" and t: "t = next_dirp s"
    using assms by (auto simp add: uchar_def Let_def split: if_splits)
  have "a < 262144" using fubyte_inside[of "u_dirp (u s)" s] assms(2) c by (simp add: a_def)
  moreover have "to_u32 (to_u32 (u_dirp (u s) + 1)) = a + 1"
    using calculation to_u32_range[of "u_dirp (u s)"] to_u32_step(1)[of "u_dirp (u s)" 1]
    by (simp add: a_def to_u32_id)
  ultimately show "name_left t < name_left s"
    by (simp add: name_left_def t next_dirp_def flip: a_def)
  show "u_error (u t) = u_error (u s)" by (simp add: t next_dirp_def)
qed

lemma uchar_error: "uchar s = (- 1, t) \<Longrightarrow> u_error (u t) = EFAULT"
  by (auto simp add: uchar_def Let_def split: if_splits)

lemma skip_slashes_ends:
  "name_left s < k \<Longrightarrow> fst (skip_slashes k uchar c s) \<noteq> 47"
proof (induction k arbitrary: c s)
  case (Suc k)
  show ?case
  proof (cases "c = 47")
    case True
    obtain c' t where u: "uchar s = (c', t)" by (cases "uchar s")
    then have sk: "skip_slashes (Suc k) uchar c s = skip_slashes k uchar c' t"
      using True by (subst skip_slashes.simps) simp
    show ?thesis
    proof (cases "c' = - 1")
      case True
      then show ?thesis using sk by (simp add: skip_slashes.simps)
    next
      case False
      then show ?thesis using sk Suc.IH[of t c'] uchar_left(1)[OF u False] Suc.prems by simp
    qed
  qed (simp add: skip_slashes.simps)
qed simp

lemma gather_name_ends:
  assumes "name_left s < k" "gather_name k uchar c cp s = (c', cp', t)"
  shows "c' = 47 \<or> c' = 0 \<or> u_error (u t) \<noteq> 0"
  using assms
proof (induction k arbitrary: c cp s)
  case (Suc k)
  show ?case
  proof (cases "c \<noteq> 47 \<and> c \<noteq> 0 \<and> u_error (u s) = 0")
    case True
    obtain d v where u: "uchar s = (d, v)" by (cases "uchar s")
    have g: "gather_name k uchar d (if length cp < DIRSIZ then cp @ [word_of_int c] else cp) v = (c', cp', t)"
      using Suc.prems(2) True u by (subst (asm) gather_name.simps) (simp add: Let_def)
    show ?thesis
    proof (cases "d = - 1")
      case True
      then have "u_error (u v) \<noteq> 0" using uchar_error u by (simp add: EFAULT_def)
      then show ?thesis using g by (auto simp add: gather_name.simps)
    next
      case False
      then show ?thesis using Suc.IH[OF _ g] uchar_left(1)[OF u False] Suc.prems(1) by simp
    qed
  next
    case False
    then show ?thesis using Suc.prems(2) by (auto simp add: gather_name.simps)
  qed
qed simp

lemma name_left_max: "name_left s < NAMEMAX"
  using to_u32_range[of "u_dirp (u s)"] by (auto simp add: name_left_def NAMEMAX_def)

section \<open>A directory as a list of entries\<close>

definition at_offset :: "kernel \<Rightarrow> direct \<Rightarrow> int \<Rightarrow> kernel" where
  "at_offset s d off = upd_u (\<lambda>w. w\<lparr>u_dent := d, u_offset := off\<rparr>) s"

lemma at_offset_u [simp]:
  "u (at_offset s d off) = (u s)\<lparr>u_dent := d, u_offset := off\<rparr>"
  by (simp add: at_offset_def)

lemma at_offset_again [simp]: "at_offset (at_offset s d off) d' off' = at_offset s d' off'"
  by (simp add: at_offset_def upd_u_def u_def)

definition matches :: "kernel \<Rightarrow> direct \<Rightarrow> bool" where
  "matches s d \<longleftrightarrow> d_ino d \<noteq> 0 \<and> d_name d = u_dbuf (u s)"

text \<open>The offset behind the first empty slot among the entries \<open>[i ..< n]\<close> of a list, unless one was found before.\<close>

definition slot_after :: "int \<Rightarrow> (nat \<Rightarrow> direct) \<Rightarrow> nat \<Rightarrow> nat \<Rightarrow> int" where
  "slot_after eo f i n = (if eo \<noteq> 0 then eo else case List.find (\<lambda>j. d_ino (f j) = 0) [i ..< n] of None \<Rightarrow> 0 | Some j \<Rightarrow> 16 * int j + 16)"

lemma find_Cons_upt: "i < n \<Longrightarrow> List.find P [i ..< n] = (if P i then Some i else List.find P [Suc i ..< n])"
  by (simp add: upt_conv_Cons)

lemma entry_offset:
  assumes "0 \<le> int i" "int i < 134217727"
  shows "nat ((16 * int i) AND BMASK) = 16 * (i mod 32)" "to_i32 (16 * int i + 16) = 16 * int (Suc i)"
    "(16 * int (Suc i)) AND BMASK = 0 \<longleftrightarrow> Suc i mod 32 = 0"
proof -
  have m: "(16 * int j) AND BMASK = 16 * int (j mod 32)" for j
  proof -
    have "(16 * int j) AND BMASK = (16 * int j) mod 512"
      using take_bit_eq_mask[of 9 "16 * int j"] by (simp add: BMASK_def mask_eq_exp_minus_1 take_bit_eq_mod)
    moreover have "(16 * int j) mod 512 = 16 * (int j mod 32)" using mult_mod_right[of 16 "int j" 32] by simp
    ultimately show ?thesis by (simp add: zmod_int)
  qed
  show "nat ((16 * int i) AND BMASK) = 16 * (i mod 32)" by (simp add: m nat_mult_distrib)
  show "to_i32 (16 * int i + 16) = 16 * int (Suc i)" using assms by (simp add: to_i32_id)
  show "(16 * int (Suc i)) AND BMASK = 0 \<longleftrightarrow> Suc i mod 32 = 0" by (simp add: m del: of_nat_Suc)
qed

lemma dir_scan_spec:
  assumes "u_offset (u s) = 16 * int i" "i < n" "n \<le> 32 * (i div 32) + 32" "int n < 134217728"
    "n = 32 * (i div 32) + 32 \<or> sz \<le> 16 * int n" "16 * int n < sz + 16" "n - i \<le> k"
    and f: "\<And>j. i \<le> j \<Longrightarrow> j < n \<Longrightarrow> f j = dir_entry b (16 * (j mod 32))"
  shows "dir_scan k b sz eo s =
    (case List.find (\<lambda>j. matches s (f j)) [i ..< n] of
       Some j \<Rightarrow> (True, slot_after eo f i j, at_offset s (f j) (16 * int j + 16))
     | None \<Rightarrow> (False, slot_after eo f i n, at_offset s (f (n - 1)) (16 * int n)))"
  using assms
proof (induction k arbitrary: i s eo)
  case (Suc k)
  have off: "nat (u_offset (u s) AND BMASK) = 16 * (i mod 32)" "to_i32 (16 * int i + 16) = 16 * int (Suc i)"
      "(16 * int (Suc i)) AND BMASK = 0 \<longleftrightarrow> Suc i mod 32 = 0"
    using entry_offset[of i] Suc.prems(1,2,4) by simp_all
  define d where "d = f i"
  define t where "t = at_offset s d (16 * int (Suc i))"
  have d: "d = dir_entry b (16 * (i mod 32))" using Suc.prems(8)[of i] Suc.prems(2) by (simp add: d_def)
  have t: "upd_u (\<lambda>w. w\<lparr>u_dent := d, u_offset := to_i32 (u_offset w + 16)\<rparr>) s = t"
    using off(2) Suc.prems(1) by (simp add: t_def at_offset_def upd_u_def u_def)
  have stop: "(u_offset (u t) \<ge> sz \<or> u_offset (u t) AND BMASK = 0) \<longleftrightarrow> Suc i = n"
  proof
    assume l: "u_offset (u t) \<ge> sz \<or> u_offset (u t) AND BMASK = 0"
    show "Suc i = n"
    proof (rule ccontr)
      assume "Suc i \<noteq> n"
      then have "Suc i < n" using Suc.prems(2) by simp
      moreover have "\<not> Suc i mod 32 = 0"
      proof
        assume "Suc i mod 32 = 0"
        then have "Suc i = 32 * (i div 32) + 32" by presburger
        then show False using calculation Suc.prems(3) by simp
      qed
      ultimately show False using l off(3) Suc.prems(6) by (simp add: t_def)
    qed
  next
    assume "Suc i = n"
    then show "u_offset (u t) \<ge> sz \<or> u_offset (u t) AND BMASK = 0"
      using Suc.prems(5) off(3) by (auto simp add: t_def)
  qed
  define G where "G e = (if u_offset (u t) \<ge> sz \<or> u_offset (u t) AND BMASK = 0 then (False, e, t) else dir_scan k b sz e t)" for e
  have again: "G e =
    (case List.find (\<lambda>j. matches s (f j)) [Suc i ..< n] of
       Some j \<Rightarrow> (True, slot_after e f (Suc i) j, at_offset s (f j) (16 * int j + 16))
     | None \<Rightarrow> (False, slot_after e f (Suc i) n, at_offset s (f (n - 1)) (16 * int n)))" for e
  proof (cases "Suc i = n")
    case True
    then show ?thesis unfolding G_def if_P[OF stop[THEN iffD2, OF True]] by (auto simp add: slot_after_def t_def d_def)
  next
    case False
    have same: "matches t = matches s" "\<And>d' o'. at_offset t d' o' = at_offset s d' o'"
      by (simp_all add: t_def matches_def fun_eq_iff)
    have "dir_scan k b sz e t =
      (case List.find (\<lambda>j. matches t (f j)) [Suc i ..< n] of
         Some j \<Rightarrow> (True, slot_after e f (Suc i) j, at_offset t (f j) (16 * int j + 16))
       | None \<Rightarrow> (False, slot_after e f (Suc i) n, at_offset t (f (n - 1)) (16 * int n)))"
    proof (rule Suc.IH)
      have q: "Suc i div 32 = i div 32"
      proof -
        have "\<not> Suc i mod 32 = 0" using stop False off(3) by (simp add: t_def)
        then show ?thesis by (simp add: div_Suc)
      qed
      show "u_offset (u t) = 16 * int (Suc i)" by (simp add: t_def)
      show "Suc i < n" using Suc.prems(2) False by simp
      show "n \<le> 32 * (Suc i div 32) + 32" "n = 32 * (Suc i div 32) + 32 \<or> sz \<le> 16 * int n"
        using Suc.prems(3,5) unfolding q by simp_all
      show "int n < 134217728" "16 * int n < sz + 16" by fact+
      show "n - Suc i \<le> k" using Suc.prems(7) by simp
      show "\<And>j. Suc i \<le> j \<Longrightarrow> j < n \<Longrightarrow> f j = dir_entry b (16 * (j mod 32))" using Suc.prems(8) by simp
    qed
    then show ?thesis using stop False unfolding same G_def by simp
  qed
  have slot: "slot_after eo f i m = slot_after (if d_ino d = 0 then (if eo = 0 then 16 * int (Suc i) else eo) else eo) f (Suc i) m"
    if "i < m" for m
    using find_Cons_upt[OF that, of "\<lambda>j. d_ino (f j) = 0"] by (auto simp add: slot_after_def d_def)
  have ut: "u_offset (u t) = 16 * int (Suc i)" by (simp add: t_def)
  define e' where "e' = (if d_ino d = 0 then (if eo = 0 then 16 * int (Suc i) else eo) else eo)"
  define R where "R = (case List.find (\<lambda>j. matches s (f j)) [Suc i ..< n] of
       Some j \<Rightarrow> (True, slot_after e' f (Suc i) j, at_offset s (f j) (16 * int j + 16))
     | None \<Rightarrow> (False, slot_after e' f (Suc i) n, at_offset s (f (n - 1)) (16 * int n)))"
  have R: "R = (case List.find (\<lambda>j. matches s (f j)) [Suc i ..< n] of
       Some j \<Rightarrow> (True, slot_after eo f i j, at_offset s (f j) (16 * int j + 16))
     | None \<Rightarrow> (False, slot_after eo f i n, at_offset s (f (n - 1)) (16 * int n)))"
  proof (cases "List.find (\<lambda>j. matches s (f j)) [Suc i ..< n]")
    case None
    then show ?thesis using slot[OF Suc.prems(2)] by (simp add: R_def e'_def)
  next
    case (Some j)
    then have "j \<in> set [Suc i ..< n]" unfolding find_Some_iff by (metis nth_mem)
    then show ?thesis using Some slot[of j] by (simp add: R_def e'_def)
  qed
  have step: "dir_scan (Suc k) b sz eo s =
    (if d_ino d = 0 then G (if eo = 0 then u_offset (u t) else eo) else if u_dbuf (u t) \<noteq> d_name d then G eo else (True, eo, t))"
    unfolding dir_scan.simps(2) Let_def off(1) d[symmetric] t G_def ..
  have "G e' = R" unfolding again R_def ..
  then have "dir_scan (Suc k) b sz eo s = (if matches s d then (True, eo, t) else R)"
    unfolding step ut by (auto simp add: matches_def e'_def t_def)
  moreover have "slot_after eo f i i = eo" by (simp add: slot_after_def)
  ultimately show ?case
    unfolding find_Cons_upt[OF Suc.prems(2)] R by (simp add: d_def t_def add.commute)
qed simp

section \<open>A lookup with nothing else running\<close>

definition idle :: "(kernel \<Rightarrow> kernel) list \<Rightarrow> bool" where
  "idle es \<longleftrightarrow> set es \<subseteq> {id}"

definition only_ra :: "kernel \<Rightarrow> kernel \<Rightarrow> bool" where
  "only_ra s t \<longleftrightarrow> (\<exists>r. t = s\<lparr>k_rablock := r\<rparr>)"

lemma idle_env: "idle es \<Longrightarrow> env_keeps I es"
  by (auto simp add: idle_def env_keeps_def)

lemma idle_drop: "idle es \<Longrightarrow> idle (drop m es)"
  using set_drop_subset[of m es] by (auto simp add: idle_def)

lemma idle_quiet: "idle es \<Longrightarrow> \<forall>e \<in> set es. quiet e"
  using quiet_id by (auto simp add: idle_def)

lemma only_ra_refl: "only_ra s s"
  unfolding only_ra_def by (rule exI[of _ "k_rablock s"]) (cases s, simp)

lemma only_ra_fields: "only_ra s t \<Longrightarrow> k_ioerr t = k_ioerr s \<and> k_inode t = k_inode s \<and> u t = u s \<and> k_disk t = k_disk s"
  by (auto simp add: only_ra_def)

lemma only_ra_blk_read:
  assumes io: "\<And>d b. \<not> k_ioerr s d b"
  shows "kinv (only_ra s) (blk_read dev bn)"
proof (rule kinvI)
  fix es t
  assume env: "env_keeps (only_ra s) es" and t: "only_ra s t"
  show "outcome_all (only_ra s) (blk_read dev bn es t) \<and> env_keeps (only_ra s) (rest_of (blk_read dev bn es t) es)"
  proof (cases es)
    case (Cons e es')
    then have e: "only_ra s (e t)" "env_keeps (only_ra s) es'" using env t by (auto simp add: env_keeps_def)
    then have "\<not> k_ioerr (e t) dev bn" using only_ra_fields[OF e(1)] io by simp
    then show ?thesis using e Cons by (simp add: blk_read_def kern_simps)
  qed (use env t in \<open>simp add: blk_read_def kern_simps\<close>)
qed

lemma only_ra_upd: "kinv (only_ra s) (kmod (\<lambda>t. t\<lparr>k_rablock := f t\<rparr>))"
  by (rule kinv_kmod) (auto simp add: only_ra_def)

lemma only_ra_indir: "(\<And>d b. \<not> k_ioerr s d b) \<Longrightarrow> kinv (only_ra s) (bmap_indir k dev bn sh nb False)"
proof (induction k arbitrary: sh nb)
  case (Suc k)
  have l: "kinv (only_ra s) (bmap_last dev nb i a)" for i a
    unfolding bmap_last_def by (intro kinv_intro only_ra_upd)
  show ?case
    unfolding bmap_indir.simps(2) Let_def
    by (intro kinv_kbind only_ra_blk_read Suc.prems)
      (auto intro!: kinv_intro l Suc.IH Suc.prems)
qed (simp add: kinv_kret)

lemma only_ra_bmap:
  assumes io: "\<And>d b. \<not> k_ioerr s d b" and bn: "0 \<le> bn" "bn < int max_blocks"
  shows "kinv (only_ra s) (bmap ip bn False)"
proof -
  have a: "kinv (only_ra s) (bmap_addr ip dev i False)" for dev i
    unfolding bmap_addr_def by (intro kinv_kbind kinv_kget) (auto intro: kinv_kret)
  have lv: "10 \<le> bn \<Longrightarrow> bmap_level 3 0 1 (bn - 10) \<noteq> None"
    using bn by (simp add: bmap_level_eval max_blocks_def)
  show ?thesis
  proof (cases "bn < 10")
    case True
    then show ?thesis using bn(1)
      unfolding bmap_def by (auto simp add: NADDR_def Let_def intro!: kinv_intro a only_ra_upd split: option.split)
  next
    case False
    then obtain j sh b where "bmap_level 3 0 1 (bn - 10) = Some (j, sh, b)" using lv by (cases "bmap_level 3 0 1 (bn - 10)") auto
    then show ?thesis using False bn(1) only_ra_indir[OF io]
      unfolding bmap_def by (auto simp add: NADDR_def intro!: kinv_intro a only_ra_upd split: option.split)
  qed
qed


lemma find_append: "List.find P (xs @ ys) = (case List.find P xs of None \<Rightarrow> List.find P ys | Some x \<Rightarrow> Some x)"
  by (induction xs) auto

lemma find_upt_split:
  "\<lbrakk>i \<le> n; n \<le> m\<rbrakk> \<Longrightarrow> List.find P [i ..< m] = (case List.find P [i ..< n] of None \<Rightarrow> List.find P [n ..< m] | Some j \<Rightarrow> Some j)"
  using upt_add_eq_append[of i n "m - n"] find_append[of P "[i ..< n]" "[n ..< m]"] by simp

lemma slot_after_split: "\<lbrakk>i \<le> n; n \<le> m\<rbrakk> \<Longrightarrow> slot_after (slot_after eo f i n) f n m = slot_after eo f i m"
  using find_upt_split[of i n m "\<lambda>j. d_ino (f j) = 0"] by (auto simp add: slot_after_def split: option.split)

definition dir_block :: "kernel \<Rightarrow> nat \<Rightarrow> nat \<Rightarrow> int" where
  "dir_block s dp q = hole_or (tree_get (k_disk s (i_dev (ino dp s))) (i_addr (ino dp s) (fst (block_path q))) (snd (block_path q)))"

definition dir_get :: "kernel \<Rightarrow> nat \<Rightarrow> nat \<Rightarrow> direct" where
  "dir_get s dp j = dir_entry (k_disk s (i_dev (ino dp s)) (dir_block s dp (j div 32))) (16 * (j mod 32))"

definition dir_len :: "kernel \<Rightarrow> nat \<Rightarrow> nat" where
  "dir_len s dp = nat ((i_size (ino dp s) + 15) div 16)"

text \<open>The states of a search differ from its start in the current entry, the offset and the read-ahead block.\<close>

definition searching :: "kernel \<Rightarrow> kernel \<Rightarrow> bool" where
  "searching s t \<longleftrightarrow> k_inode t = k_inode s \<and> k_disk t = k_disk s \<and> k_ioerr t = k_ioerr s \<and> u_dbuf (u t) = u_dbuf (u s)"

lemma searching_at: "searching s t \<Longrightarrow> searching s (at_offset t d off)"
  by (simp add: searching_def at_offset_def)

lemma searching_ra: "\<lbrakk>searching s t; only_ra t t'\<rbrakk> \<Longrightarrow> searching s t' \<and> u t' = u t"
  using only_ra_fields[of t t'] by (simp add: searching_def)

lemma dir_block_read:
  assumes s: "searching s t" and io: "\<And>d b. \<not> k_ioerr s d b" and es: "idle es" "4 \<le> length es" and q: "q < max_blocks"
  shows "\<exists>m t'. m \<le> 4 \<and> kbind (bmap dp (int q) False) (\<lambda>bn. kbind (blk_read (i_dev (ino dp t)) bn) (\<lambda>err. g bn err)) es t =
    g (dir_block s dp q) False (drop m es) t' \<and> searching s t' \<and> u t' = u t"
proof -
  have io': "\<not> k_ioerr t d b" for d b using s io by (simp add: searching_def)
  have same: "ino dp t = ino dp s" "k_disk t = k_disk s" using s by (simp_all add: searching_def ino_def)
  obtain m t1 where b: "bmap dp (int q) False es t = Ret (dir_block s dp q) (drop m es) t1" "m \<le> 3"
    using bmap_tree[OF q idle_quiet[OF es(1)] _ io', of dp] es(2) by (auto simp add: dir_block_def same)
  have "only_ra t t1"
    using q by (intro kinv_RetD(1)[OF only_ra_bmap[OF io'] idle_env[OF es(1)] only_ra_refl b(1)]) simp_all
  then have t1: "searching s t1 \<and> u t1 = u t" by (rule searching_ra[OF s])
  obtain es' where d: "drop m es = id # es'" "es' = drop (Suc m) es"
  proof -
    have "m < length es" using b(2) es(2) by simp
    then have "drop m es = es ! m # drop (Suc m) es" by (simp add: Cons_nth_drop_Suc)
    moreover have "es ! m = id" using es(1) nth_mem[OF \<open>m < length es\<close>] unfolding idle_def by blast
    ultimately show thesis using that by simp
  qed
  have "blk_read (i_dev (ino dp t)) (dir_block s dp q) (drop m es) t1 = Ret False (drop (Suc m) es) t1"
    using t1 io by (simp add: blk_read_def kern_simps d searching_def)
  then show ?thesis
    using b t1 by (intro exI[of _ "Suc m"] exI[of _ t1]) (simp add: kbind_def)
qed

lemma dir_len_bounds:
  assumes "0 \<le> i_size (ino dp s)"
  shows "16 * int (dir_len s dp) < i_size (ino dp s) + 16" "i_size (ino dp s) \<le> 16 * int (dir_len s dp)"
proof -
  define x where "x = (i_size (ino dp s) + 15) div 16"
  have "i_size (ino dp s) + 15 = 16 * x + (i_size (ino dp s) + 15) mod 16" by (simp add: x_def)
  moreover have "0 \<le> (i_size (ino dp s) + 15) mod 16" "(i_size (ino dp s) + 15) mod 16 < 16" by simp_all
  moreover have "int (dir_len s dp) = x" using assms by (simp add: dir_len_def x_def)
  ultimately show "16 * int (dir_len s dp) < i_size (ino dp s) + 16" "i_size (ino dp s) \<le> 16 * int (dir_len s dp)"
    by linarith+
qed

lemma search_over:
  assumes "dir_len s dp \<le> i" "searching s t" "u_offset (u t) = 16 * int i" "0 \<le> i_size (ino dp s)"
  shows "name_search (Suc k) dp eo es t = Ret (Not_found eo) es t"
proof -
  have "i_size (ino dp t) \<le> 16 * int i"
    using assms dir_len_bounds[OF assms(4)] by (simp add: searching_def ino_def)
  then show ?thesis using assms(3) by (simp add: kern_simps)
qed

lemma name_search_finds:
  assumes "searching s t" and "u_offset (u t) = 16 * int i" and "32 dvd i \<or> dir_len s dp \<le> i"
    and "idle es" "dir_len s dp - i \<le> 32 * k" "4 * k \<le> length es"
    and io: "\<And>d b. \<not> k_ioerr s d b" and sz: "0 \<le> i_size (ino dp s)" "i_size (ino dp s) < 2 ^ 30"
  shows "\<exists>es' s'. name_search (Suc k) dp eo es t =
      Ret (case List.find (\<lambda>j. matches s (dir_get s dp j)) [i ..< dir_len s dp] of
             None \<Rightarrow> Not_found (slot_after eo (dir_get s dp) i (dir_len s dp)) | Some j \<Rightarrow> Found) es' s' \<and>
    (\<forall>j. List.find (\<lambda>j. matches s (dir_get s dp j)) [i ..< dir_len s dp] = Some j \<longrightarrow>
       u_dent (u s') = dir_get s dp j \<and> u_offset (u s') = 16 * int j + 16)"
  using assms(1-6)
proof (induction k arbitrary: i es t eo)
  case 0
  then have "dir_len s dp \<le> i" by simp
  then show ?case using search_over[OF _ "0.prems"(1,2) sz(1)] by (simp add: slot_after_def del: name_search.simps)
next
  case (Suc k)
  define f where "f = dir_get s dp"
  define len where "len = dir_len s dp"
  show ?case
  proof (cases "len \<le> i")
    case True
    then show ?thesis using search_over[OF _ Suc.prems(1,2) sz(1)]
      by (simp add: slot_after_def len_def del: name_search.simps)
  next
    case False
    define q where "q = i div 32"
    define n where "n = min (i + 32) len"
    define dev where "dev = i_dev (ino dp s)"
    have i: "i = 32 * q" "i < len" using False Suc.prems(3) by (auto simp add: q_def len_def)
    have same: "ino dp t = ino dp s" using Suc.prems(1) by (simp add: searching_def ino_def)
    have len: "int len < 67108865" "16 * int len < i_size (ino dp s) + 16" "i_size (ino dp s) \<le> 16 * int len"
      using dir_len_bounds[OF sz(1)] sz(2) by (simp_all add: len_def)
    have lbn: "drop_bit BSHIFT (u_offset (u t)) = int q" using i(1) by (simp add: Suc.prems(2) BSHIFT_def drop_bit_eq_div)
    define rest where "rest = (\<lambda>bn err. if err then kret Io_error
         else kbind (kget (\<lambda>s. dir_scan 32 (k_disk s dev bn) (i_size (ino dp s)) eo s)) (\<lambda>(hit, eo, t).
              kthen (kmod (\<lambda>_. t)) (if hit then kret Found else name_search (Suc k) dp eo)))"
    have "name_search (Suc (Suc k)) dp eo es t =
        kbind (bmap dp (int q) False) (\<lambda>bn. kbind (blk_read (i_dev (ino dp t)) bn) (\<lambda>err. rest bn err)) es t"
      using i len(2) Suc.prems(2)
      unfolding name_search.simps(2)[of "Suc k"] krun same lbn dev_def[symmetric] rest_def by (auto simp add: krun)
    moreover obtain m v where mv: "m \<le> 4" "searching s v" "u v = u t"
        "kbind (bmap dp (int q) False) (\<lambda>bn. kbind (blk_read (i_dev (ino dp t)) bn) (\<lambda>err. rest bn err)) es t =
         rest (dir_block s dp q) False (drop m es) v"
      using dir_block_read[OF Suc.prems(1) io Suc.prems(4), of q dp rest] Suc.prems(6) i len(1) by (auto simp add: max_blocks_def)
    ultimately have run: "name_search (Suc (Suc k)) dp eo es t = rest (dir_block s dp q) False (drop m es) v" by simp
    have sv: "ino dp v = ino dp s" "k_disk v = k_disk s" "matches v = matches s"
      using mv(2) by (simp_all add: searching_def ino_def matches_def fun_eq_iff)
    have fe: "f j = dir_entry (k_disk s dev (dir_block s dp q)) (16 * (j mod 32))" if "i \<le> j" "j < n" for j
    proof -
      have "j div 32 = q" using that i(1) by (auto simp add: n_def intro!: div_nat_eqI)
      then show ?thesis by (simp add: f_def dir_get_def dev_def)
    qed
    have nl: "i \<le> n" "n \<le> len" using i by (auto simp add: n_def)
    have scan: "dir_scan 32 (k_disk v dev (dir_block s dp q)) (i_size (ino dp v)) eo v =
      (case List.find (\<lambda>j. matches v (f j)) [i ..< n] of
         Some j \<Rightarrow> (True, slot_after eo f i j, at_offset v (f j) (16 * int j + 16))
       | None \<Rightarrow> (False, slot_after eo f i n, at_offset v (f (n - 1)) (16 * int n)))"
    proof (rule dir_scan_spec)
      show "u_offset (u v) = 16 * int i" using Suc.prems(2) mv(3) by simp
      show "i < n" "n - i \<le> 32" "n \<le> 32 * (i div 32) + 32" using i by (auto simp add: n_def)
      show "int n < 134217728" "16 * int n < i_size (ino dp v) + 16" using len nl(2) unfolding sv by linarith+
      show "n = 32 * (i div 32) + 32 \<or> i_size (ino dp v) \<le> 16 * int n" using i(1) len(3) unfolding sv n_def by auto
      show "\<And>j. i \<le> j \<Longrightarrow> j < n \<Longrightarrow> f j = dir_entry (k_disk v dev (dir_block s dp q)) (16 * (j mod 32))" using fe unfolding sv .
    qed
    note split = find_upt_split[of i n len "\<lambda>j. matches s (f j)"]
    show ?thesis
    proof (cases "List.find (\<lambda>j. matches s (f j)) [i ..< n]")
      case (Some j)
      then show ?thesis
        unfolding run rest_def using scan split[OF nl]
        by (simp add: krun sv kret_def f_def len_def)
    next
      case None
      have ih: "\<exists>es' s'. name_search (Suc k) dp (slot_after eo f i n) (drop m es) (at_offset v (f (n - 1)) (16 * int n)) =
          Ret (case List.find (\<lambda>j. matches s (dir_get s dp j)) [n ..< dir_len s dp] of
                 None \<Rightarrow> Not_found (slot_after (slot_after eo f i n) (dir_get s dp) n (dir_len s dp)) | Some j \<Rightarrow> Found) es' s' \<and>
        (\<forall>j. List.find (\<lambda>j. matches s (dir_get s dp j)) [n ..< dir_len s dp] = Some j \<longrightarrow>
           u_dent (u s') = dir_get s dp j \<and> u_offset (u s') = 16 * int j + 16)"
      proof (rule Suc.IH)
        show "searching s (at_offset v (f (n - 1)) (16 * int n))" using mv(2) by (rule searching_at)
        show "u_offset (u (at_offset v (f (n - 1)) (16 * int n))) = 16 * int n" by simp
        show "32 dvd n \<or> dir_len s dp \<le> n" using i(1) by (auto simp add: n_def len_def)
        show "idle (drop m es)" using Suc.prems(4) by (rule idle_drop)
        show "dir_len s dp - n \<le> 32 * k" using Suc.prems(5) by (auto simp add: n_def len_def)
        show "4 * k \<le> length (drop m es)" using Suc.prems(6) mv(1) by simp
      qed
      have go: "name_search (Suc (Suc k)) dp eo es t =
          name_search (Suc k) dp (slot_after eo f i n) (drop m es) (at_offset v (f (n - 1)) (16 * int n))"
        unfolding run rest_def using scan None by (simp add: krun sv del: name_search.simps)
      have "List.find (\<lambda>j. matches s (f j)) [i ..< len] = List.find (\<lambda>j. matches s (f j)) [n ..< len]"
        using split[OF nl] None by simp
      then show ?thesis
        using ih[folded f_def len_def, unfolded slot_after_split[OF nl]]
        unfolding go f_def[symmetric] len_def[symmetric] by (simp del: name_search.simps)
    qed
  qed
qed

section \<open>Properties\<close>

text \<open>
  Claim C21. \<open>access\<close> decides by the mode bits of the one class the user falls into: owner, else group, else others (bit 6, 3 or 0 of the mode
  plus 2 for reading, 1 for writing, 0 for executing), with everything granted to the super-user; a refusal sets \<open>EACCES\<close> and changes
  nothing else. For writing this holds on a file system that is not read-only and for a file that is no running text; on a
  read-only one even the super-user gets \<open>EROFS\<close>.\<close>

theorem access_decides:
  assumes k: "k < 3" and mode: "mode = push_bit (6 + k) 1"
    and wr: "mode = IWRITE \<longrightarrow> mounted s (i_dev (ino ip s)) m \<and> counts_ok (fs m s) \<and> i_flag (ino ip s) AND ITEXT = 0"
  shows "access ip mode es s =
    (let class = (if u_uid (u s) = i_uid (ino ip s) then 6 else if u_gid (u s) = i_gid (ino ip s) then 3 else 0)
     in if mode = IWRITE \<and> s_ronly (fs m s) \<noteq> 0 then Ret True es (set_error EROFS s)
        else if u_uid (u s) = 0 \<or> bit (i_mode (ino ip s)) (class + k) then Ret False es s
        else Ret True es (set_error EACCES s))"
proof -
  have w: "access_write ip es s = (if s_ronly (fs m s) \<noteq> 0 then Ret True es (set_error EROFS s) else Ret False es s)" if "mode = IWRITE"
    using wr that getfs_mounted[of s "i_dev (ino ip s)" m es]
    by (simp add: access_write_def kern_simps kfail_def)
  have one: "(v AND push_bit j 1 \<noteq> 0) = bit v j" if "j < 16" for v :: "16 word" and j
    using that by (simp add: push_bit_of_1 and_exp_eq_0_iff_not_bit)
  have "drop_bit 3 mode = push_bit (3 + k) 1" "drop_bit 6 mode = push_bit k 1"
  proof -
    have "k = 0 \<or> k = 1 \<or> k = 2" using k by linarith
    then show "drop_bit 3 mode = push_bit (3 + k) 1" "drop_bit 6 mode = push_bit k 1" unfolding mode by auto
  qed
  then have bits: "(i_mode (ino ip s) AND access_bits ip mode s \<noteq> 0) = bit (i_mode (ino ip s))
      ((if u_uid (u s) = i_uid (ino ip s) then 6 else if u_gid (u s) = i_gid (ino ip s) then 3 else 0) + k)"
    using k one by (auto simp add: access_bits_def mode)
  show ?thesis
  proof (cases "mode = IWRITE")
    case True
    then show ?thesis using w[OF True] bits by (auto simp add: access_def kern_simps kfail_def Let_def)
  next
    case False
    then show ?thesis using bits by (auto simp add: access_def kern_simps kfail_def Let_def)
  qed
qed

text \<open>
  Claim C22. With nothing else running and no transfer failing, the search of \<open>namei\<close> through a directory of any size finds the first
  used entry whose 14 characters are those of the component, with its contents in \<open>u_dent\<close> and \<open>u_offset\<close> behind it; otherwise it
  reports the first empty slot, or none.\<close>

theorem name_search_first:
  assumes off: "u_offset (u s) = 0" and es: "es = replicate (4 * k) id" "dir_len s dp \<le> 32 * k"
    and io: "\<And>d b. \<not> k_ioerr s d b" and sz: "0 \<le> i_size (ino dp s)" "i_size (ino dp s) < 2 ^ 30"
  shows "\<exists>es' s'. case first_index (dir_len s dp) (\<lambda>j. d_ino (dir_get s dp j) \<noteq> 0 \<and> d_name (dir_get s dp j) = u_dbuf (u s)) of
      Some j \<Rightarrow> name_search (Suc k) dp 0 es s = Ret Found es' s' \<and> u_dent (u s') = dir_get s dp j \<and> u_offset (u s') = 16 * (int j + 1)
    | None \<Rightarrow> name_search (Suc k) dp 0 es s = Ret (Not_found (case first_index (dir_len s dp) (\<lambda>j. d_ino (dir_get s dp j) = 0) of
                None \<Rightarrow> 0 | Some j \<Rightarrow> 16 * (int j + 1))) es' s'"
proof -
  have "searching s s" "idle es" "4 * k \<le> length es" by (simp_all add: searching_def idle_def es set_replicate_conv_if)
  from name_search_finds[OF this(1) _ _ this(2) _ this(3) io sz, of 0 0] off es(2)
  obtain es' s' where r: "name_search (Suc k) dp 0 es s =
      Ret (case List.find (\<lambda>j. matches s (dir_get s dp j)) [0 ..< dir_len s dp] of
             None \<Rightarrow> Not_found (slot_after 0 (dir_get s dp) 0 (dir_len s dp)) | Some j \<Rightarrow> Found) es' s'"
    "\<And>j. List.find (\<lambda>j. matches s (dir_get s dp j)) [0 ..< dir_len s dp] = Some j \<Longrightarrow>
       u_dent (u s') = dir_get s dp j \<and> u_offset (u s') = 16 * int j + 16"
    by auto
  show ?thesis
  proof (intro exI[of _ es'] exI[of _ s'], cases "List.find (\<lambda>j. matches s (dir_get s dp j)) [0 ..< dir_len s dp]")
    case None
    then show "case first_index (dir_len s dp) (\<lambda>j. d_ino (dir_get s dp j) \<noteq> 0 \<and> d_name (dir_get s dp j) = u_dbuf (u s)) of
      Some j \<Rightarrow> name_search (Suc k) dp 0 es s = Ret Found es' s' \<and> u_dent (u s') = dir_get s dp j \<and> u_offset (u s') = 16 * (int j + 1)
    | None \<Rightarrow> name_search (Suc k) dp 0 es s = Ret (Not_found (case first_index (dir_len s dp) (\<lambda>j. d_ino (dir_get s dp j) = 0) of
                None \<Rightarrow> 0 | Some j \<Rightarrow> 16 * (int j + 1))) es' s'"
      unfolding r(1) by (auto simp add: first_index_def matches_def slot_after_def algebra_simps split: option.split)
  next
    case (Some j)
    then show "case first_index (dir_len s dp) (\<lambda>j. d_ino (dir_get s dp j) \<noteq> 0 \<and> d_name (dir_get s dp j) = u_dbuf (u s)) of
      Some j \<Rightarrow> name_search (Suc k) dp 0 es s = Ret Found es' s' \<and> u_dent (u s') = dir_get s dp j \<and> u_offset (u s') = 16 * (int j + 1)
    | None \<Rightarrow> name_search (Suc k) dp 0 es s = Ret (Not_found (case first_index (dir_len s dp) (\<lambda>j. d_ino (dir_get s dp j) = 0) of
                None \<Rightarrow> 0 | Some j \<Rightarrow> 16 * (int j + 1))) es' s'"
      using r(2)[OF Some] unfolding r(1) by (simp add: first_index_def matches_def)
  qed
qed

text \<open>Concrete instances.\<close>

definition dir_demo :: kernel where
  "dir_demo = (upd_u (\<lambda>w. w\<lparr>u_uid := 5, u_dbuf := 97 # replicate 13 0\<rparr>)
     (upd_inode 7 (\<lambda>d. d\<lparr>i_mode := 0x41C0, i_uid := 5, i_size := 48, i_addr := (\<lambda>i. if i = 0 then 77 else 0)\<rparr>) kernel0))
     \<lparr>k_disk := (\<lambda>dev bn. if bn = 77 then (\<lambda>j. if j = 33 then 9 else if j = 34 then 97 else 0) else (\<lambda>_. 0))\<rparr>"

lemma dir_demo_fields:
  "u dir_demo = user0\<lparr>u_uid := 5, u_dbuf := 97 # replicate 13 0\<rparr>"
  "ino 7 dir_demo = inode0\<lparr>i_mode := 0x41C0, i_uid := 5, i_size := 48, i_addr := (\<lambda>i. if i = 0 then 77 else 0)\<rparr>"
  "k_ioerr dir_demo = (\<lambda>_ _. False)"
  "k_disk dir_demo 0 77 = (\<lambda>j. if j = 33 then 9 else if j = 34 then 97 else 0)"
  by (simp_all add: dir_demo_def ino_def kernel0_def u_def upd_u_def) (simp add: user0_def)

theorem access_decides_witness: "access 7 IEXEC [] dir_demo = Ret False [] dir_demo"
proof -
  have "IEXEC \<noteq> IWRITE" "IEXEC = push_bit (6 + 0) 1" by (simp_all add: IEXEC_def IWRITE_def)
  then show ?thesis
    using access_decides[of 0 IEXEC dir_demo 7 0 "[]"] by (simp add: dir_demo_fields inode0_def user0_def)
qed

theorem name_search_first_witness:
  "\<exists>es' s'. name_search 2 7 0 (replicate 4 id) dir_demo = Ret Found es' s' \<and>
    d_ino (u_dent (u s')) = 9 \<and> u_offset (u s') = 48"
proof -
  have len: "dir_len dir_demo 7 = 3" by (simp add: dir_len_def dir_demo_fields)
  have get: "dir_get dir_demo 7 j = dir_entry (\<lambda>j. if j = 33 then 9 else if j = 34 then 97 else 0) (16 * j)" if "j < 3" for j
    using that by (simp add: dir_get_def dir_block_def block_path_def hole_or_def dir_demo_fields inode0_def)
  have ino: "d_ino (dir_get dir_demo 7 0) = 0" "d_ino (dir_get dir_demo 7 1) = 0" "d_ino (dir_get dir_demo 7 2) = 9"
    "d_name (dir_get dir_demo 7 2) = 97 # replicate 13 0"
  proof -
    have "replicate 13 (0 :: 8 word) = [0, 0, 0, 0, 0, 0, 0, 0, 0, 0, 0, 0, 0]" by (simp add: numeral_eq_Suc)
    then show "d_ino (dir_get dir_demo 7 0) = 0" "d_ino (dir_get dir_demo 7 1) = 0" "d_ino (dir_get dir_demo 7 2) = 9"
      "d_name (dir_get dir_demo 7 2) = 97 # replicate 13 0"
      by (simp_all add: get dir_entry_def rd16_def DIRSIZ_def)
  qed
  have "\<forall>j < 2. d_ino (dir_get dir_demo 7 j) = 0"
  proof (intro allI impI)
    fix j :: nat
    assume "j < 2"
    then have "j = 0 \<or> j = 1" by linarith
    then show "d_ino (dir_get dir_demo 7 j) = 0" using ino by auto
  qed
  then have "first_index 3 (\<lambda>j. d_ino (dir_get dir_demo 7 j) \<noteq> 0 \<and> d_name (dir_get dir_demo 7 j) = u_dbuf (u dir_demo)) = Some 2"
    using ino by (simp add: first_index_Some dir_demo_fields)
  moreover have "Suc 1 = (2 :: nat)" "16 * (int 2 + 1) = 48" by simp_all
  ultimately show ?thesis
    using name_search_first[of dir_demo "replicate (4 * 1) id" 1 7] ino(3) unfolding len
    by (auto simp add: dir_demo_fields user0_def inode0_def simp del: name_search.simps One_nat_def)
qed

end
