(* ===== verification/File_Table.thy ===== *)
theory File_Table
  imports Name_Lookup
begin

text \<open>
  Open files: descriptors and the file table of \<open>sys/fio.c\<close>, pipes (\<open>sys/pipe.c\<close>), and the calls of \<open>sys/sys2.c\<close> with \<open>dup\<close> of \<open>sys/sys3.c\<close>.
  The arguments of a call are the words \<open>u_ap\<close>.
\<close>

section \<open>Descriptors and file structures\<close>

definition getf :: "int \<Rightarrow> (kernel, nat option) kern" where
  "getf f =
    kbind (kget (\<lambda>s. if 0 \<le> f \<and> f < int NOFILE then u_ofile (u s) (nat f) else None)) (\<lambda>r.
      case r of None \<Rightarrow> kfail EBADF None | Some fp \<Rightarrow> kret (Some fp))"

definition ufalloc :: "(kernel, int) kern" where
  "ufalloc =
    kbind (kget (\<lambda>s. first_index NOFILE (\<lambda>i. u_ofile (u s) i = None))) (\<lambda>r.
      case r of
        None \<Rightarrow> kfail EMFILE (- 1)
      | Some i \<Rightarrow> kthen (kmod (upd_u (\<lambda>w. w\<lparr>r_val1 := int i, u_pofile := (u_pofile w)(i := 0)\<rparr>))) (kret (int i)))"

definition set_ofile :: "nat \<Rightarrow> nat option \<Rightarrow> kernel \<Rightarrow> kernel" where
  "set_ofile i r = upd_u (\<lambda>w. w\<lparr>u_ofile := (u_ofile w)(i := r)\<rparr>)"

definition falloc :: "(kernel, nat option) kern" where
  "falloc =
    kbind ufalloc (\<lambda>i.
      if i < 0 then kret None
      else kbind (kget (\<lambda>s. first_index NFILE (\<lambda>f. f_count (k_file s f) = 0))) (\<lambda>r.
        case r of
          None \<Rightarrow> kfail ENFILE None
        | Some fp \<Rightarrow>
            kthen (kmod (set_ofile (nat i) (Some fp)))
            (kthen (kmod (upd_file fp (\<lambda>f. f\<lparr>f_count := to_i8 (f_count f + 1), f_offset := 0\<rparr>))) (kret (Some fp)))))"

text \<open>The last close of a device.\<close>

definition close_dev :: "int \<Rightarrow> 16 word \<Rightarrow> 8 word \<Rightarrow> (kernel, unit) kern" where
  "close_dev dev mode flag =
    (if is_chr (mode AND IFMT) then dev_call (Cdev_close dev (uint flag))
     else if is_blk (mode AND IFMT) then dev_call (Bdev_close dev (uint flag))
     else kret ())"

definition closef :: "nat option \<Rightarrow> (kernel, unit) kern" where
  "closef r =
    (case r of
       None \<Rightarrow> kret ()
     | Some fp \<Rightarrow>
         kif (\<lambda>s. f_count (k_file s fp) > 1)
           (kmod (upd_file fp (\<lambda>f. f\<lparr>f_count := to_i8 (f_count f - 1)\<rparr>)))
           (kbind (kget (\<lambda>s. let ip = f_inode (k_file s fp)
                             in (ip, f_flag (k_file s fp), i_rdev (ino ip s), i_mode (ino ip s)))) (\<lambda>(ip, flag, dev, mode).
            kthen (plock ip)
            (kthen (kmod (upd_file fp (\<lambda>f. f\<lparr>f_count := 0\<rparr>)))
            (kthen (if flag AND FPIPE \<noteq> 0 then
                      kthen (kmod (upd_inode ip (\<lambda>d. d\<lparr>i_mode := i_mode d AND NOT (IREAD OR IWRITE)\<rparr>)))
                      (kthen (kpure (wakeup (Ch_inode ip 1))) (kpure (wakeup (Ch_inode ip 2))))
                    else kret ())
            (kthen (iput ip)
              (kif (\<lambda>s. flag AND FMP = 0 \<and> (\<exists>g < NFILE. f_count (k_file s g) \<noteq> 0 \<and> f_inode (k_file s g) = ip))
                (kret ())
                (close_dev dev mode flag))))))))"

definition openi :: "nat \<Rightarrow> int \<Rightarrow> (kernel, unit) kern" where
  "openi ip rw =
    kbind (kget (\<lambda>s. (i_rdev (ino ip s), i_mode (ino ip s) AND IFMT))) (\<lambda>(dev, ty).
      if is_chr ty then
        kif (\<lambda>s. major dev \<ge> k_nchrdev s) (kmod (set_error ENXIO)) (dev_call (Cdev_open dev rw))
      else if is_blk ty then
        kif (\<lambda>s. major dev \<ge> k_nblkdev s) (kmod (set_error ENXIO)) (dev_call (Bdev_open dev rw))
      else kret ())"

section \<open>Pipes\<close>

definition PIPSIZ :: int where "PIPSIZ = 4096"
definition pipedev :: int where "pipedev = 0"

definition pipe :: "(kernel, unit) kern" where
  "pipe =
    kbind (ialloc pipedev) (\<lambda>r.
      case r of
        None \<Rightarrow> kret ()
      | Some ip \<Rightarrow>
          kbind falloc (\<lambda>r.
            case r of
              None \<Rightarrow> iput ip
            | Some rfile \<Rightarrow>
                kbind (kget (\<lambda>s. r_val1 (u s))) (\<lambda>r.
                kbind falloc (\<lambda>w.
                  case w of
                    None \<Rightarrow>
                      kthen (kmod (upd_file rfile (\<lambda>f. f\<lparr>f_count := 0\<rparr>)))
                      (kthen (kmod (set_ofile (nat r) None)) (iput ip))
                  | Some wfile \<Rightarrow>
                      kthen (kmod (\<lambda>s. set_r2 (r_val1 (u s)) s))
                      (kthen (kmod (set_r1 r))
                      (kthen (kmod (upd_file wfile (\<lambda>f. f\<lparr>f_flag := FWRITE OR FPIPE, f_inode := ip\<rparr>)))
                      (kthen (kmod (upd_file rfile (\<lambda>f. f\<lparr>f_flag := FREAD OR FPIPE, f_inode := ip\<rparr>)))
                        (kmod (upd_inode ip (\<lambda>d. d\<lparr>i_count := 2, i_mode := IFREG, i_flag := IACC OR IUPD OR ICHG\<rparr>))))))))))"

text \<open>Waiting on one side of a pipe, \<open>(caddr_t)ip+1\<close> for writers and \<open>(caddr_t)ip+2\<close> for readers.\<close>

definition pipe_wait :: "nat \<Rightarrow> nat \<Rightarrow> 16 word \<Rightarrow> (kernel, unit) kern" where
  "pipe_wait ip side perm =
    kthen (kmod (upd_inode ip (\<lambda>d. d\<lparr>i_mode := i_mode d OR perm\<rparr>)))
    (kthen (prele ip) (sleep (Ch_inode ip side) PPIPE))"

definition pipe_wake :: "nat \<Rightarrow> nat \<Rightarrow> 16 word \<Rightarrow> (kernel, unit) kern" where
  "pipe_wake ip side perm =
    kwhen (\<lambda>s. i_mode (ino ip s) AND perm \<noteq> 0)
      (kthen (kmod (upd_inode ip (\<lambda>d. d\<lparr>i_mode := i_mode d AND NOT perm\<rparr>))) (kpure (wakeup (Ch_inode ip side))))"

definition readp_take :: "nat \<Rightarrow> nat \<Rightarrow> (kernel, unit) kern" where
  "readp_take fp ip =
    kthen (kmod (\<lambda>s. upd_u (\<lambda>w. w\<lparr>u_offset := f_offset (k_file s fp)\<rparr>) s))
    (kthen (readi ip)
    (kthen (kmod (\<lambda>s. upd_file fp (\<lambda>f. f\<lparr>f_offset := u_offset (u s)\<rparr>) s))
    (kthen (kwhen (\<lambda>s. f_offset (k_file s fp) = i_size (ino ip s))
              (kthen (kmod (upd_file fp (\<lambda>f. f\<lparr>f_offset := 0\<rparr>)))
              (kthen (kmod (upd_inode ip (\<lambda>d. d\<lparr>i_size := 0\<rparr>))) (pipe_wake ip 1 IWRITE))))
      (prele ip))))"

text \<open>Every turn but the last sleeps.\<close>

fun readp_loop :: "nat \<Rightarrow> nat \<Rightarrow> nat \<Rightarrow> (kernel, unit) kern" where
  "readp_loop 0 fp ip = (\<lambda>es s. Blocked s)"
| "readp_loop (Suc k) fp ip =
    kthen (plock ip)
      (kif (\<lambda>s. i_size (ino ip s) = 0)
        (kif (\<lambda>s. i_count (ino ip s) < 2) (prele ip) (kthen (pipe_wait ip 2 IREAD) (readp_loop k fp ip)))
        (readp_take fp ip))"

definition readp :: "nat \<Rightarrow> (kernel, unit) kern" where
  "readp fp = kbind (kget (\<lambda>s. f_inode (k_file s fp))) (\<lambda>ip es s. readp_loop (Suc (length es)) fp ip es s)"

text \<open>A turn that goes on has slept, or has taken up to \<open>PIPSIZ\<close> bytes off the remaining count \<open>c\<close>, a 32-perm number.\<close>

fun writep_loop :: "nat \<Rightarrow> nat \<Rightarrow> int \<Rightarrow> (kernel, unit) kern" where
  "writep_loop 0 ip c = (\<lambda>es s. Blocked s)"
| "writep_loop (Suc k) ip c =
    kthen (plock ip)
      (if c = 0 then kthen (prele ip) (kmod (upd_u (\<lambda>w. w\<lparr>u_count := 0\<rparr>)))
       else
         kif (\<lambda>s. i_count (ino ip s) < 2)
           (kthen (prele ip) (kthen (kmod (set_error EPIPE)) (kpure (\<lambda>s. psignal (procp s) SIGPIPE s))))
           (kif (\<lambda>s. i_size (ino ip s) \<ge> PIPSIZ)
             (kthen (pipe_wait ip 1 IWRITE) (writep_loop k ip c))
             (kthen (kmod (\<lambda>s. upd_u (\<lambda>w. w\<lparr>u_offset := i_size (ino ip s), u_count := umin c PIPSIZ\<rparr>) s))
             (kthen (writei ip)
             (kthen (prele ip)
             (kthen (pipe_wake ip 2 IREAD)
               (writep_loop k ip (to_i32 (c - umin c PIPSIZ)))))))))"

definition writep :: "nat \<Rightarrow> (kernel, unit) kern" where
  "writep fp =
    kbind (kget (\<lambda>s. (f_inode (k_file s fp), to_i32 (u_count (u s))))) (\<lambda>(ip, c) es s.
      writep_loop (length es + nat (to_u32 c) div 4096 + 2) ip c es s)"

section \<open>Read and write\<close>

definition is_char_special :: "nat \<Rightarrow> kernel \<Rightarrow> bool" where
  "is_char_special ip s \<longleftrightarrow> i_mode (ino ip s) AND (IFCHR AND IFBLK) \<noteq> 0"

text \<open>\<open>cnt\<close> is the count the caller asked for.\<close>

definition rdwr_file :: "8 word \<Rightarrow> nat \<Rightarrow> int \<Rightarrow> (kernel, unit) kern" where
  "rdwr_file mode fp cnt =
    kbind (kget (\<lambda>s. f_inode (k_file s fp))) (\<lambda>ip.
    kthen (kmod (\<lambda>s. upd_u (\<lambda>w. w\<lparr>u_offset := if f_flag (k_file s fp) AND FMP \<noteq> 0 then 0 else f_offset (k_file s fp)\<rparr>) s))
    (kthen (kwhen (\<lambda>s. \<not> is_char_special ip s) (plock ip))
    (kthen (if mode = FREAD then readi ip else writei ip)
    (kthen (kwhen (\<lambda>s. \<not> is_char_special ip s) (prele ip))
      (kwhen (\<lambda>s. f_flag (k_file s fp) AND FMP = 0)
        (kmod (\<lambda>s. upd_file fp (\<lambda>f. f\<lparr>f_offset := to_i32 (f_offset f + (cnt - u_count (u s)))\<rparr>) s)))))))"

definition rdwr :: "8 word \<Rightarrow> (kernel, unit) kern" where
  "rdwr mode =
    kbind (kget (\<lambda>s. (arg 0 s, arg 1 s, to_u32 (arg 2 s)))) (\<lambda>(fdes, cbuf, cnt).
    kbind (getf fdes) (\<lambda>r.
      case r of
        None \<Rightarrow> kret ()
      | Some fp \<Rightarrow>
          kif (\<lambda>s. f_flag (k_file s fp) AND mode = 0) (kmod (set_error EBADF))
            (kthen (kmod (upd_u (\<lambda>w. w\<lparr>u_base := to_u32 cbuf, u_count := cnt, u_segflg := 0\<rparr>)))
            (kthen (kif (\<lambda>s. f_flag (k_file s fp) AND FPIPE \<noteq> 0)
                      (if mode = FREAD then readp fp else writep fp)
                      (rdwr_file mode fp cnt))
              (kmod (\<lambda>s. set_r1 (to_i32 (cnt - u_count (u s))) s))))))"

definition read_call :: "(kernel, unit) kern" where
  "read_call = rdwr FREAD"

definition write_call :: "(kernel, unit) kern" where
  "write_call = rdwr FWRITE"

section \<open>Open, close and seek\<close>

text \<open>\<open>trf\<close>: 0 for \<open>open\<close>, 1 for \<open>creat\<close> of an existing file, 2 for a new one.\<close>

definition open1_check :: "nat \<Rightarrow> 8 word \<Rightarrow> (kernel, unit) kern" where
  "open1_check ip mode =
    kthen (if mode AND FREAD \<noteq> 0 then kthen (access ip IREAD) (kret ()) else kret ())
      (if mode AND FWRITE \<noteq> 0 then
         kthen (access ip IWRITE)
           (kwhen (\<lambda>s. i_mode (ino ip s) AND IFMT = IFDIR) (kmod (set_error EISDIR)))
       else kret ())"

definition open1 :: "nat \<Rightarrow> 8 word \<Rightarrow> int \<Rightarrow> (kernel, unit) kern" where
  "open1 ip mode trf =
    kthen (if trf \<noteq> 2 then open1_check ip mode else kret ())
      (kif (\<lambda>s. u_error (u s) \<noteq> 0) (iput ip)
        (kthen (if trf = 1 then itrunc ip else kret ())
        (kthen (prele ip)
        (kbind falloc (\<lambda>r.
          case r of
            None \<Rightarrow> iput ip
          | Some fp \<Rightarrow>
              kthen (kmod (upd_file fp (\<lambda>f. f\<lparr>f_flag := mode AND (FREAD OR FWRITE), f_inode := ip\<rparr>)))
              (kbind (kget (\<lambda>s. r_val1 (u s))) (\<lambda>i.
               kthen (openi ip (uint (mode AND FWRITE)))
                (kif (\<lambda>s. u_error (u s) = 0) (kret ())
                  (kthen (kmod (set_ofile (nat i) None))
                  (kthen (kmod (upd_file fp (\<lambda>f. f\<lparr>f_count := to_i8 (f_count f - 1)\<rparr>)))
                    (iput ip)))))))))))"

definition open_call :: "(kernel, unit) kern" where
  "open_call =
    kbind (kget (arg 1)) (\<lambda>rwmode.
    kbind (namei uchar 0) (\<lambda>r.
      case r of None \<Rightarrow> kret () | Some ip \<Rightarrow> open1 ip (word_of_int (rwmode + 1)) 0))"

definition creat :: "(kernel, unit) kern" where
  "creat =
    kbind (kget (arg 1)) (\<lambda>fmode.
    kbind (namei uchar 1) (\<lambda>r.
      case r of
        Some ip \<Rightarrow> open1 ip FWRITE 1
      | None \<Rightarrow>
          kif (\<lambda>s. u_error (u s) \<noteq> 0) (kret ())
            (kbind (maknode (word_of_int fmode AND 0xFFF AND NOT ISVTX)) (\<lambda>r.
              case r of None \<Rightarrow> kret () | Some ip \<Rightarrow> open1 ip FWRITE 2))))"

definition close :: "(kernel, unit) kern" where
  "close =
    kbind (kget (arg 0)) (\<lambda>fdes.
    kbind (getf fdes) (\<lambda>r.
      case r of
        None \<Rightarrow> kret ()
      | Some fp \<Rightarrow> kthen (kmod (set_ofile (nat fdes) None)) (closef (Some fp))))"

definition seek :: "(kernel, unit) kern" where
  "seek =
    kbind (kget (\<lambda>s. (arg 0 s, arg 1 s, arg 2 s))) (\<lambda>(fdes, off, sbase).
    kbind (getf fdes) (\<lambda>r.
      case r of
        None \<Rightarrow> kret ()
      | Some fp \<Rightarrow>
          kif (\<lambda>s. f_flag (k_file s fp) AND (FPIPE OR FMP) \<noteq> 0) (kmod (set_error ESPIPE))
            (kbind (kget (\<lambda>s. to_i32 (if sbase = 1 then off + f_offset (k_file s fp)
                                       else if sbase = 2 then off + i_size (ino (f_inode (k_file s fp)) s)
                                       else off))) (\<lambda>off.
             kthen (kmod (upd_file fp (\<lambda>f. f\<lparr>f_offset := off\<rparr>))) (kmod (set_r1 off))))))"

definition dup :: "(kernel, unit) kern" where
  "dup =
    kbind (kget (\<lambda>s. (arg 0 s AND NOT 63, arg 0 s AND 63, arg 1 s))) (\<lambda>(m, fdes, fdes2).
    kbind (getf fdes) (\<lambda>r.
      case r of
        None \<Rightarrow> kret ()
      | Some fp \<Rightarrow>
          kbind (if m AND 64 = 0 then ufalloc
                 else if fdes2 < 0 \<or> fdes2 \<ge> int NOFILE then kfail EBADF (- 1)
                 else kthen (kmod (set_r1 fdes2)) (kret fdes2)) (\<lambda>i.
            if i < 0 then kret ()
            else if i \<noteq> fdes then
              kthen (kbind (kget (\<lambda>s. u_ofile (u s) (nat i))) closef)
              (kthen (kmod (set_ofile (nat i) (Some fp)))
                (kmod (upd_file fp (\<lambda>f. f\<lparr>f_count := to_i8 (f_count f + 1)\<rparr>))))
            else kret ())))"

section \<open>Links and permissions\<close>

definition ksuser :: "(kernel, bool) kern" where
  "ksuser = kbind (kget suser) (\<lambda>(ok, t). kthen (kmod (\<lambda>_. t)) (kret ok))"

definition set_dirp :: "int \<Rightarrow> kernel \<Rightarrow> kernel" where
  "set_dirp a = upd_u (\<lambda>w. w\<lparr>u_dirp := to_u32 a\<rparr>)"

definition link_to :: "nat \<Rightarrow> int \<Rightarrow> (kernel, unit) kern" where
  "link_to ip linkname =
    kthen (prele ip)
    (kthen (kmod (set_dirp linkname))
    (kbind (namei uchar 1) (\<lambda>r.
      case r of
        Some xp \<Rightarrow> kthen (kmod (set_error EEXIST)) (iput xp)
      | None \<Rightarrow>
          kif (\<lambda>s. u_error (u s) \<noteq> 0) (kret ())
            (kderef (\<lambda>s. u_pdir (u s)) (\<lambda>pdir.
              kif (\<lambda>s. i_dev (ino pdir s) \<noteq> i_dev (ino ip s))
                (kthen (iput pdir) (kmod (set_error EXDEV)))
                (kthen (wdir ip)
                  (kwhen (\<lambda>s. u_error (u s) = 0)
                    (kthen (kmod (upd_inode ip (\<lambda>d. d\<lparr>i_nlink := to_i16 (i_nlink d + 1)\<rparr>)))
                      (kmod (set_iflag ip ICHG))))))))))"

definition link :: "(kernel, unit) kern" where
  "link =
    kbind (kget (arg 1)) (\<lambda>linkname.
    kbind (namei uchar 0) (\<lambda>r.
      case r of
        None \<Rightarrow> kret ()
      | Some ip \<Rightarrow>
          kthen (kbind (kget (\<lambda>s. i_mode (ino ip s) AND IFMT = IFDIR)) (\<lambda>dir.
                   kbind (if dir then ksuser else kret True) (\<lambda>ok. if ok then link_to ip linkname else kret ())))
            (iput ip)))"

definition mknod :: "(kernel, unit) kern" where
  "mknod =
    kbind (kget (\<lambda>s. (arg 1 s, arg 2 s))) (\<lambda>(fmode, dev).
    kbind ksuser (\<lambda>ok.
    kbind (if ok then namei uchar 1 else kret None) (\<lambda>r.
      case r of
        Some ip \<Rightarrow> kthen (kmod (set_error EEXIST)) (iput ip)
      | None \<Rightarrow>
          kif (\<lambda>s. u_error (u s) \<noteq> 0) (kret ())
            (kbind (maknode (word_of_int fmode)) (\<lambda>r.
              case r of
                None \<Rightarrow> kret ()
              | Some ip \<Rightarrow>
                  kthen (kwhen (\<lambda>s. is_chr (i_mode (ino ip s) AND IFMT) \<or> is_blk (i_mode (ino ip s) AND IFMT))
                          (kmod (upd_inode ip (\<lambda>d. d\<lparr>i_addr := (i_addr d)(0 := to_u16 dev)\<rparr>))))
                    (iput ip))))))"

definition saccess_check :: "nat \<Rightarrow> int \<Rightarrow> 16 word \<Rightarrow> (kernel, unit) kern" where
  "saccess_check ip fmode perm =
    (if (word_of_int fmode :: 16 word) AND drop_bit 6 perm \<noteq> 0 then kthen (access ip perm) (kret ()) else kret ())"

definition saccess :: "(kernel, unit) kern" where
  "saccess =
    kbind (kget (\<lambda>s. (arg 1 s, u_uid (u s), u_gid (u s)))) (\<lambda>(fmode, svuid, svgid).
    kthen (kmod (upd_u (\<lambda>w. w\<lparr>u_uid := u_ruid w, u_gid := u_rgid w\<rparr>)))
    (kthen (kbind (namei uchar 0) (\<lambda>r.
              case r of
                None \<Rightarrow> kret ()
              | Some ip \<Rightarrow>
                  kthen (saccess_check ip fmode IREAD)
                  (kthen (saccess_check ip fmode IWRITE)
                  (kthen (saccess_check ip fmode IEXEC) (iput ip)))))
      (kmod (upd_u (\<lambda>w. w\<lparr>u_uid := svuid, u_gid := svgid\<rparr>)))))"

section \<open>Descriptors share file structures\<close>

definition more_refs :: "nat \<Rightarrow> int \<Rightarrow> kernel \<Rightarrow> kernel" where
  "more_refs fp n = upd_file fp (\<lambda>f. f\<lparr>f_count := to_i8 (f_count f + n)\<rparr>)"

text \<open>The state after \<open>dup\<close> into the free descriptor \<open>i\<close>.\<close>

definition dup_state :: "nat \<Rightarrow> nat \<Rightarrow> kernel \<Rightarrow> kernel" where
  "dup_state i fp s =
    more_refs fp 1 (set_ofile i (Some fp) (upd_u (\<lambda>w. w\<lparr>r_val1 := int i, u_pofile := (u_pofile w)(i := 0)\<rparr>) s))"

lemma dup_spec:
  assumes a: "arg 0 s = int fd" "fd < NOFILE" and o: "u_ofile (u s) fd = Some fp"
    and i: "first_index NOFILE (\<lambda>i. u_ofile (u s) i = None) = Some i"
  shows "dup es s = Ret () es (dup_state i fp s)"
proof -
  have lt: "fd < 64" using a(2) by (simp add: NOFILE_def)
  have low: "int fd AND 63 = int fd"
    using lt take_bit_eq_mask[of 6 "int fd"] take_bit_int_eq_self[of "int fd" 6] by (simp add: mask_eq_exp_minus_1)
  have "(int fd AND 63) AND NOT 63 = 0" by (simp add: and.assoc)
  then have high: "int fd AND NOT 63 = 0" unfolding low .
  have ifree: "i < NOFILE" "u_ofile (u s) i = None" using i by (simp_all add: first_index_Some)
  have "i \<noteq> fd" using ifree(2) o by auto
  then show ?thesis
    using a o i ifree low high
    by (simp add: dup_def kern_simps getf_def ufalloc_def closef_def dup_state_def more_refs_def set_ofile_def)
qed

lemma close_shared:
  assumes a: "arg 0 s = int fd" "fd < NOFILE" and o: "u_ofile (u s) fd = Some fp" and c: "f_count (k_file s fp) > 1"
  shows "close es s = Ret () es (more_refs fp (- 1) (set_ofile fd None s))"
  using assms by (simp add: close_def kern_simps getf_def closef_def more_refs_def set_ofile_def)

text \<open>The last reference to a regular file whose i-node is unlocked and referenced elsewhere too.\<close>

lemma closef_last:
  assumes c: "f_count (k_file s fp) \<le> 1" and ip: "ip = f_inode (k_file s fp)" and fl: "f_flag (k_file s fp) AND FPIPE = 0"
    and i: "i_flag (ino ip s) = 0" "i_count (ino ip s) > 1" "i_count (ino ip s) < 128" "i_mode (ino ip s) AND IFMT = IFREG"
  shows "\<exists>s'. closef (Some fp) es s = Ret () es s' \<and> k_file s' = (k_file s)(fp := (k_file s fp)\<lparr>f_count := 0\<rparr>) \<and> u s' = u s"
proof -
  define flag where "flag = f_flag (k_file s fp)"
  define t1 where "t1 = set_iflag ip ILOCK s"
  define t2 where "t2 = upd_file fp (\<lambda>f. f\<lparr>f_count := 0\<rparr>) t1"
  define t3 where "t3 = clr_iflag ip ILOCK (upd_inode ip (\<lambda>d. d\<lparr>i_count := to_i8 (i_count d - 1)\<rparr>) t2)"
  have lock: "plock ip es s = Ret () es t1" using i(1) by (simp add: plock_def kern_simps t1_def)
  have f2: "i_count (ino ip t2) \<noteq> 1" "i_flag (ino ip t2) = ILOCK" using i(1,2) by (simp_all add: t2_def t1_def set_iflag_def ino_def)
  have put: "iput ip es t2 = Ret () es t3"
    using f2 by (simp add: iput_def prele_def kern_simps t3_def clr_iflag_def ino_def ILOCK_def IWANT_def)
  have f3: "k_file t3 = (k_file s)(fp := (k_file s fp)\<lparr>f_count := 0\<rparr>)" "u t3 = u s"
    by (simp_all add: t3_def t2_def t1_def set_iflag_def clr_iflag_def)
  have dev: "close_dev d (i_mode (ino ip s)) flag = kret ()" for d
    using i(4) by (simp add: close_dev_def is_chr_def is_blk_def IFREG_def IFCHR_def IFBLK_def IFMPC_def IFMPB_def)
  have skip: "kthen (kret a) m es s = m es s" for a :: unit and m :: "(kernel, unit) kern" and es s by (simp add: kern_simps)
  have "closef (Some fp) es s = Ret () es t3"
    using c fl skip unfolding closef_def
    by (simp add: krun Let_def ip[symmetric] kthen_Ret[of "plock ip", OF lock] t2_def[symmetric] kthen_Ret[of "iput ip", OF put]
        flag_def[symmetric] dev) (simp add: kret_def)
  then show ?thesis using f3 by blast
qed

section \<open>Properties\<close>

text \<open>
  \<open>dup\<close> gives the lowest free descriptor a second reference to the same file structure and returns it, touching no other
  descriptor; closing that descriptor brings back the table of descriptors and the reference count, as long as the count fits its byte.\<close>

theorem dup_close:
  assumes a: "arg 0 s = int fd" "fd < NOFILE" and o: "u_ofile (u s) fd = Some fp"
    and i: "first_index NOFILE (\<lambda>i. u_ofile (u s) i = None) = Some i" and c: "1 \<le> f_count (k_file s fp)" "f_count (k_file s fp) < 127"
  shows "\<exists>s' s''. dup es s = Ret () es s' \<and> r_val1 (u s') = int i \<and> u_ofile (u s') = (u_ofile (u s))(i := Some fp) \<and>
    f_count (k_file s' fp) = f_count (k_file s fp) + 1 \<and>
    close es (upd_u (\<lambda>w. w\<lparr>u_ap := [int i]\<rparr>) s') = Ret () es s'' \<and> u_ofile (u s'') = u_ofile (u s) \<and> k_file s'' = k_file s"
proof -
  define s' where "s' = dup_state i fp s"
  define t where "t = upd_u (\<lambda>w. w\<lparr>u_ap := [int i]\<rparr>) s'"
  have ifree: "i < NOFILE" "u_ofile (u s) i = None" using i by (simp_all add: first_index_Some)
  have s': "r_val1 (u s') = int i" "u_ofile (u s') = (u_ofile (u s))(i := Some fp)"
      "k_file s' = (k_file s)(fp := (k_file s fp)\<lparr>f_count := f_count (k_file s fp) + 1\<rparr>)"
    using c by (simp_all add: s'_def dup_state_def more_refs_def set_ofile_def to_i8_id)
  have "close es t = Ret () es (more_refs fp (- 1) (set_ofile i None t))"
    using c(1) ifree(1) s' by (intro close_shared) (simp_all add: t_def arg_def)
  moreover have "u_ofile (u (more_refs fp (- 1) (set_ofile i None t))) = u_ofile (u s)"
    using s'(2) ifree(2) by (auto simp add: more_refs_def set_ofile_def t_def fun_eq_iff)
  moreover have "k_file (more_refs fp (- 1) (set_ofile i None t)) = k_file s"
    using s'(3) c by (simp add: more_refs_def set_ofile_def t_def to_i8_id)
  ultimately show ?thesis
    using dup_spec[OF a o i, of es] s' unfolding t_def s'_def[symmetric] by auto
qed

text \<open>
  The reference count of a file structure is a signed byte and \<open>dup\<close> does not check it: the 128th reference makes it negative,
  and then the next close of any of these descriptors releases the structure although all the others still refer to it.\<close>

theorem dup_count_overflow:
  assumes a: "arg 0 s = int fd" "fd < NOFILE" and o: "u_ofile (u s) fd = Some fp"
    and i: "first_index NOFILE (\<lambda>i. u_ofile (u s) i = None) = Some i" and c: "f_count (k_file s fp) = 127"
    and ip: "ip = f_inode (k_file s fp)" "f_flag (k_file s fp) AND FPIPE = 0"
    and ino: "i_flag (ino ip s) = 0" "i_count (ino ip s) > 1" "i_count (ino ip s) < 128" "i_mode (ino ip s) AND IFMT = IFREG"
  shows "\<exists>s' s''. dup es s = Ret () es s' \<and> f_count (k_file s' fp) = - 128 \<and>
    close es (upd_u (\<lambda>w. w\<lparr>u_ap := [int i]\<rparr>) s') = Ret () es s'' \<and> f_count (k_file s'' fp) = 0 \<and> u_ofile (u s'') fd = Some fp"
proof -
  define s' where "s' = dup_state i fp s"
  define t where "t = set_ofile i None (upd_u (\<lambda>w. w\<lparr>u_ap := [int i]\<rparr>) s')"
  have ifree: "i < NOFILE" "i \<noteq> fd" using i o by (auto simp add: first_index_Some)
  have "f_count (k_file s' fp) = to_i8 128" using c by (simp add: s'_def dup_state_def more_refs_def set_ofile_def)
  then have s': "f_count (k_file s' fp) = - 128" "u_ofile (u s') i = Some fp" "u_ofile (u s') fd = Some fp"
    using o ifree by (simp_all add: s'_def dup_state_def more_refs_def set_ofile_def to_i8_def)
  have ft: "f_count (k_file t fp) \<le> 1" "ip = f_inode (k_file t fp)" "f_flag (k_file t fp) AND FPIPE = 0" "ino ip t = ino ip s"
    using s'(1) ip by (simp_all add: t_def s'_def dup_state_def more_refs_def set_ofile_def ino_def)
  obtain s'' where cl: "closef (Some fp) es t = Ret () es s''" "k_file s'' = (k_file t)(fp := (k_file t fp)\<lparr>f_count := 0\<rparr>)" "u s'' = u t"
    using closef_last[OF ft(1-3), of es] ino unfolding ft(4) by blast
  have "close es (upd_u (\<lambda>w. w\<lparr>u_ap := [int i]\<rparr>) s') = Ret () es s''"
    using ifree(1) s'(2) cl(1) by (simp add: close_def getf_def kern_simps arg_def t_def)
  moreover have "u_ofile (u s'') fd = Some fp" using s'(3) ifree(2) cl(3) by (simp add: t_def set_ofile_def)
  ultimately show ?thesis
    using dup_spec[OF a o i, of es] s'(1) cl(2) unfolding s'_def[symmetric] by auto
qed

text \<open>Concrete instances.\<close>

definition file_demo :: "int \<Rightarrow> kernel" where
  "file_demo n = upd_inode 7 (\<lambda>d. d\<lparr>i_mode := IFREG, i_count := 2\<rparr>)
     (upd_file 3 (\<lambda>f. f\<lparr>f_count := n, f_inode := 7, f_flag := FREAD\<rparr>)
     (upd_u (\<lambda>w. w\<lparr>u_ap := [0], u_ofile := (\<lambda>i. if i = 0 then Some 3 else None)\<rparr>) kernel0))"

lemma file_demo_fields:
  "u (file_demo n) = user0\<lparr>u_ap := [0], u_ofile := (\<lambda>i. if i = 0 then Some 3 else None)\<rparr>"
  "k_file (file_demo n) 3 = file0\<lparr>f_count := n, f_inode := 7, f_flag := FREAD\<rparr>"
  "ino 7 (file_demo n) = inode0\<lparr>i_mode := IFREG, i_count := 2\<rparr>"
  "first_index NOFILE (\<lambda>i. u_ofile (u (file_demo n)) i = None) = Some 1"
  by (simp_all add: file_demo_def ino_def kernel0_def u_def upd_u_def first_index_Some NOFILE_def) (simp add: user0_def)

lemma file_demo_open: "arg 0 (file_demo n) = int 0" "0 < NOFILE" "u_ofile (u (file_demo n)) 0 = Some 3"
  by (simp_all add: file_demo_fields arg_def NOFILE_def)

theorem dup_close_witness:
  "\<exists>s' s''. dup [] (file_demo 1) = Ret () [] s' \<and> r_val1 (u s') = 1 \<and>
    f_count (k_file s' 3) = 2 \<and> close [] (upd_u (\<lambda>w. w\<lparr>u_ap := [1]\<rparr>) s') = Ret () [] s'' \<and> k_file s'' = k_file (file_demo 1)"
  using dup_close[OF file_demo_open file_demo_fields(4), of 1 "[]"] unfolding file_demo_fields by auto

theorem dup_count_overflow_witness:
  "\<exists>s' s''. dup [] (file_demo 127) = Ret () [] s' \<and> f_count (k_file s' 3) = - 128 \<and>
    close [] (upd_u (\<lambda>w. w\<lparr>u_ap := [1]\<rparr>) s') = Ret () [] s'' \<and> f_count (k_file s'' 3) = 0 \<and> u_ofile (u s'') 0 = Some 3"
proof -
  have h: "f_count (k_file (file_demo 127) 3) = 127" "7 = f_inode (k_file (file_demo 127) 3)"
    "f_flag (k_file (file_demo 127) 3) AND FPIPE = 0" "i_flag (ino 7 (file_demo 127)) = 0" "i_count (ino 7 (file_demo 127)) > 1"
    "i_count (ino 7 (file_demo 127)) < 128" "i_mode (ino 7 (file_demo 127)) AND IFMT = IFREG"
    unfolding file_demo_fields by (simp_all add: FREAD_def FPIPE_def inode0_def IFREG_def IFMT_def)
  show ?thesis using dup_count_overflow[OF file_demo_open file_demo_fields(4) h, of "[]"] by simp
qed

end
