(* ===== verification/File_Calls.thy ===== *)
theory File_Calls
  imports File_Table
begin

text \<open>
  The calls on names and mounted devices: \<open>sys/sys3.c\<close> (\<open>stat\<close>, \<open>mount\<close>, \<open>umount\<close>) and the file calls of \<open>sys/sys4.c\<close>. A mount entry is in use
  when its \<open>m_bufp\<close> is set; the super block is decoded from block 1 of the device when it is mounted.
\<close>

section \<open>File status\<close>

definition be16 :: "int \<Rightarrow> 8 word list" where
  "be16 v = [be_byte 1 v, be_byte 0 v]"

definition be32 :: "int \<Rightarrow> 8 word list" where
  "be32 v = [be_byte 3 v, be_byte 2 v, be_byte 1 v, be_byte 0 v]"

text \<open>\<open>struct stat\<close> in memory, 30 bytes; longs are aligned to 2 bytes as in the super block.\<close>

definition stat_bytes :: "inode \<Rightarrow> int \<Rightarrow> int \<Rightarrow> int \<Rightarrow> int \<Rightarrow> 8 word list" where
  "stat_bytes d sz at mt ct =
    be16 (i_dev d) @ be16 (i_number d) @ be16 (uint (i_mode d)) @ be16 (i_nlink d) @ be16 (i_uid d) @ be16 (i_gid d) @
    be16 (i_rdev d) @ be32 sz @ be32 at @ be32 mt @ be32 ct"

definition stat1 :: "nat \<Rightarrow> int \<Rightarrow> int \<Rightarrow> (kernel, unit) kern" where
  "stat1 ip ub pipeadj =
    kthen (iupdat ip k_time k_time)
    (kbind (kget (ino ip)) (\<lambda>d.
     kbind (blk_read (i_dev d) (itod (i_number d))) (\<lambda>_.
     kbind (kget (\<lambda>s. let b = k_disk s (i_dev d) (itod (i_number d)); off = 64 * itoo (i_number d)
                      in copyout (stat_bytes d (i_size d - pipeadj) (rd32 b (off + 52)) (rd32 b (off + 56)) (rd32 b (off + 60))) ub s)) (\<lambda>(r, t).
     kthen (kmod (\<lambda>_. t)) (if r < 0 then kmod (set_error EFAULT) else kret ())))))"

definition fstat :: "(kernel, unit) kern" where
  "fstat =
    kbind (kget (\<lambda>s. (arg 0 s, arg 1 s))) (\<lambda>(fdes, sb).
    kbind (getf fdes) (\<lambda>r.
      case r of
        None \<Rightarrow> kret ()
      | Some fp \<Rightarrow>
          kbind (kget (\<lambda>s. (f_inode (k_file s fp), if f_flag (k_file s fp) AND FPIPE \<noteq> 0 then f_offset (k_file s fp) else 0)))
            (\<lambda>(ip, adj). stat1 ip sb adj)))"

definition stat :: "(kernel, unit) kern" where
  "stat =
    kbind (kget (arg 1)) (\<lambda>sb.
    kbind (namei uchar 0) (\<lambda>r.
      case r of None \<Rightarrow> kret () | Some ip \<Rightarrow> kthen (stat1 ip sb 0) (iput ip)))"

section \<open>Mounting\<close>

text \<open>The super block in block 1, the inverse of \<open>super_store\<close>; \<open>char\<close> fields are signed.\<close>

definition super_load :: "blk \<Rightarrow> filsys" where
  "super_load b =
    \<lparr>s_isize = rd16 b 0, s_fsize = to_i32 (rd32 b 2), s_nfree = to_i16 (rd16 b 6),
     s_free = (\<lambda>i. if i < nat NICFREE then to_i32 (rd32 b (8 + 4 * i)) else 0), s_ninode = to_i16 (rd16 b 208),
     s_inode = (\<lambda>i. if i < nat NICINOD then rd16 b (210 + 2 * i) else 0),
     s_flock = sint (b 410), s_ilock = sint (b 411), s_fmod = sint (b 412), s_ronly = sint (b 413),
     s_time = to_i32 (rd32 b 414), s_tfree = to_i32 (rd32 b 418), s_tinode = rd16 b 422\<rparr>"

definition getmdev :: "(kernel, int) kern" where
  "getmdev =
    kbind (namei uchar 0) (\<lambda>r.
      case r of
        None \<Rightarrow> kret NODEV
      | Some ip \<Rightarrow>
          kthen (kwhen (\<lambda>s. i_mode (ino ip s) AND IFMT \<noteq> IFBLK) (kmod (set_error ENOTBLK)))
          (kbind (kget (\<lambda>s. i_rdev (ino ip s))) (\<lambda>dev.
           kthen (kwhen (\<lambda>s. major dev \<ge> k_nblkdev s) (kmod (set_error ENXIO)))
           (kthen (iput ip) (kret dev)))))"

definition set_mount :: "nat \<Rightarrow> (mount \<Rightarrow> mount) \<Rightarrow> kernel \<Rightarrow> kernel" where
  "set_mount m f s = s\<lparr>k_mount := (k_mount s)(m := f (k_mount s m))\<rparr>"

text \<open>Entry \<open>mp\<close> is free and \<open>dev\<close> is not mounted.\<close>

definition smount_on :: "nat \<Rightarrow> nat \<Rightarrow> int \<Rightarrow> int \<Rightarrow> (kernel, unit) kern" where
  "smount_on ip mp dev ronly =
    kthen (dev_call (Bdev_open dev (if ronly = 0 then 1 else 0)))
      (kif (\<lambda>s. u_error (u s) \<noteq> 0)
        (kthen (kmod (set_error EBUSY)) (iput ip))
        (kthen (blk_read dev SUPERB)
          (kif (\<lambda>s. u_error (u s) \<noteq> 0)
            (iput ip)
            (kbind (kget (\<lambda>s. k_disk s dev SUPERB)) (\<lambda>b.
             kthen (kmod (set_mount mp (\<lambda>m. m\<lparr>m_inodp := Some ip, m_dev := dev\<rparr>)))
             (kthen kyield
             (kthen (kmod (set_mount mp (\<lambda>m. m\<lparr>m_used := True,
                       m_filsys := (super_load b)\<lparr>s_ilock := 0, s_flock := 0, s_ronly := ronly AND 1\<rparr>\<rparr>)))
             (kthen (kmod (set_iflag ip IMOUNT)) (prele ip)))))))))"

definition smount :: "(kernel, unit) kern" where
  "smount =
    kbind (kget (\<lambda>s. (arg 1 s, arg 2 s))) (\<lambda>(freg, ronly).
    kbind getmdev (\<lambda>dev.
      kif (\<lambda>s. u_error (u s) \<noteq> 0) (kret ())
        (kthen (kmod (set_dirp freg))
        (kbind (namei uchar 0) (\<lambda>r.
          case r of
            None \<Rightarrow> kret ()
          | Some ip \<Rightarrow>
              kbind (kget (\<lambda>s. if i_count (ino ip s) \<noteq> 1 \<or> i_mode (ino ip s) AND (IFBLK AND IFCHR) \<noteq> 0 \<or>
                                  (\<exists>m < NMOUNT. m_used (k_mount s m) \<and> m_dev (k_mount s m) = dev) then None
                               else first_index NMOUNT (\<lambda>m. \<not> m_used (k_mount s m)))) (\<lambda>mp.
                case mp of
                  None \<Rightarrow> kthen (kmod (set_error EBUSY)) (iput ip)
                | Some mp \<Rightarrow> smount_on ip mp dev ronly))))))"

definition sumount :: "(kernel, unit) kern" where
  "sumount =
    kbind getmdev (\<lambda>dev.
      kif (\<lambda>s. u_error (u s) \<noteq> 0) (kret ())
        (kthen (xumount dev)
        (kthen update
        (kbind (kget (\<lambda>s. first_index NMOUNT (\<lambda>m. m_used (k_mount s m) \<and> m_dev (k_mount s m) = dev))) (\<lambda>r.
          case r of
            None \<Rightarrow> kmod (set_error EINVAL)
          | Some mp \<Rightarrow>
              kif (\<lambda>s. \<exists>i < NINODE. i_number (ino i s) \<noteq> 0 \<and> i_dev (ino i s) = dev) (kmod (set_error EBUSY))
                (kthen (dev_call (Bdev_close dev 0))
                (kderef (\<lambda>s. m_inodp (k_mount s mp)) (\<lambda>ip.
                  kthen (kmod (clr_iflag ip IMOUNT))
                  (kthen (plock ip)
                  (kthen (iput ip)
                    (kmod (set_mount mp (\<lambda>m. m\<lparr>m_used := False\<rparr>)))))))))))))"

section \<open>Names\<close>

text \<open>The entry is cleared and the link count lowered; \<open>pp\<close> is the directory and \<open>ip\<close> the file, both locked.\<close>

definition unlink_entry :: "nat \<Rightarrow> nat \<Rightarrow> (kernel, unit) kern" where
  "unlink_entry pp ip =
    kbind (kget (\<lambda>s. i_mode (ino ip s) AND IFMT = IFDIR)) (\<lambda>dir.
    kbind (if dir then ksuser else kret True) (\<lambda>ok.
      if \<not> ok then kret ()
      else
        kif (\<lambda>s. i_dev (ino ip s) \<noteq> i_dev (ino pp s)) (kmod (set_error EBUSY))
          (kthen (kwhen (\<lambda>s. i_flag (ino ip s) AND ITEXT \<noteq> 0) (xrele ip))
            (kif (\<lambda>s. i_flag (ino ip s) AND ITEXT \<noteq> 0 \<and> i_nlink (ino ip s) = 1) (kmod (set_error ETXTBSY))
              (kthen (kmod (upd_u (\<lambda>w. w\<lparr>u_offset := to_i32 (u_offset w - 16), u_dent := (u_dent w)\<lparr>d_ino := 0\<rparr>\<rparr>)))
              (kthen (kmod dent_io)
              (kthen (writei pp)
              (kthen (kmod (upd_inode ip (\<lambda>d. d\<lparr>i_nlink := to_i16 (i_nlink d - 1)\<rparr>)))
                (kmod (set_iflag ip ICHG))))))))))"

definition unlink :: "(kernel, unit) kern" where
  "unlink =
    kbind (namei uchar 2) (\<lambda>r.
      case r of
        None \<Rightarrow> kret ()
      | Some pp \<Rightarrow>
          kbind (kget (\<lambda>s. (i_dev (ino pp s), d_ino (u_dent (u s)), i_number (ino pp s)))) (\<lambda>(dev, n, dot).
          kbind (if dot = n then kthen (kmod (upd_inode pp (\<lambda>d. d\<lparr>i_count := to_i8 (i_count d + 1)\<rparr>))) (kret (Some pp))
                 else iget dev n) (\<lambda>r.
            case r of
              None \<Rightarrow> iput pp
            | Some ip \<Rightarrow> kthen (unlink_entry pp ip) (kthen (iput ip) (iput pp)))))"

text \<open>\<open>chdirec\<close> on one of the two directories of \<open>u\<close>, given by its reader and its writer.\<close>

definition chdirec :: "(user \<Rightarrow> nat option) \<Rightarrow> (nat \<Rightarrow> user \<Rightarrow> user) \<Rightarrow> (kernel, unit) kern" where
  "chdirec getd setd =
    kbind (namei uchar 0) (\<lambda>r.
      case r of
        None \<Rightarrow> kret ()
      | Some ip \<Rightarrow>
          kif (\<lambda>s. i_mode (ino ip s) AND IFMT \<noteq> IFDIR)
            (kthen (kmod (set_error ENOTDIR)) (iput ip))
            (kbind (access ip IEXEC) (\<lambda>denied.
              if denied then iput ip
              else kthen (prele ip)
                (kthen (kbind (kget (\<lambda>s. getd (u s))) (\<lambda>old.
                          case old of None \<Rightarrow> kret () | Some old \<Rightarrow> kthen (plock old) (kbind (kget (\<lambda>s. getd (u s))) (\<lambda>o'. case o' of None \<Rightarrow> kret () | Some d \<Rightarrow> iput d))))
                  (kmod (upd_u (setd ip)))))))"

definition chdir :: "(kernel, unit) kern" where
  "chdir = chdirec (\<lambda>w. Some (u_cdir w)) (\<lambda>ip w. w\<lparr>u_cdir := ip\<rparr>)"

definition chroot :: "(kernel, unit) kern" where
  "chroot = kbind ksuser (\<lambda>ok. if ok then chdirec u_rdir (\<lambda>ip w. w\<lparr>u_rdir := Some ip\<rparr>) else kret ())"

definition chmod :: "(kernel, unit) kern" where
  "chmod =
    kbind (kget (arg 1)) (\<lambda>fmode.
    kbind owner (\<lambda>r.
      case r of
        None \<Rightarrow> kret ()
      | Some ip \<Rightarrow>
          kthen (kmod (\<lambda>s. upd_inode ip (\<lambda>d. d\<lparr>i_mode := (i_mode d AND NOT 0xFFF) OR
              ((if u_uid (u s) \<noteq> 0 then word_of_int fmode AND NOT ISVTX else word_of_int fmode) AND 0xFFF)\<rparr>) s))
          (kthen (kmod (set_iflag ip ICHG))
          (kthen (kwhen (\<lambda>s. i_flag (ino ip s) AND ITEXT \<noteq> 0 \<and> i_mode (ino ip s) AND ISVTX = 0) (xrele ip))
            (iput ip)))))"

definition chown :: "(kernel, unit) kern" where
  "chown =
    kbind (kget (\<lambda>s. (arg 1 s, arg 2 s))) (\<lambda>(uid, gid).
    kbind ksuser (\<lambda>ok.
      if \<not> ok then kret ()
      else kbind owner (\<lambda>r.
        case r of
          None \<Rightarrow> kret ()
        | Some ip \<Rightarrow>
            kthen (kmod (upd_inode ip (\<lambda>d. d\<lparr>i_uid := to_i16 uid, i_gid := to_i16 gid\<rparr>)))
            (kthen (kmod (set_iflag ip ICHG)) (iput ip)))))"

text \<open>\<open>utime\<close> returns with the i-node locked when the times cannot be read.\<close>

definition utime :: "(kernel, unit) kern" where
  "utime =
    kbind (kget (arg 1)) (\<lambda>tptr.
    kbind owner (\<lambda>r.
      case r of
        None \<Rightarrow> kret ()
      | Some ip \<Rightarrow>
          kbind (kget (copyin tptr 8)) (\<lambda>tv.
            case tv of
              None \<Rightarrow> kmod (set_error EFAULT)
            | Some bs \<Rightarrow>
                kthen (kmod (set_iflag ip (IACC OR IUPD OR ICHG)))
                (kthen (iupdat ip (\<lambda>_. to_i32 (rd32 (\<lambda>j. bs ! j) 0)) (\<lambda>_. to_i32 (rd32 (\<lambda>j. bs ! j) 4)))
                  (iput ip)))))"

section \<open>The super block on disk\<close>

lemma rd32_wr16_other: "j + 4 \<le> i \<or> i + 2 \<le> j \<Longrightarrow> rd32 (wr16 i v b) j = rd32 b j"
  by (auto simp add: rd32_def wr16_def)

lemma fold_wr32_other:
  "j < off \<or> off + 4 * n \<le> j \<Longrightarrow> fold (\<lambda>i. wr32 (off + 4 * i) (g i)) [0 ..< n] b j = b j"
  by (induction n) (auto simp add: wr32_other)

lemma fold_wr16_other:
  "j < off \<or> off + 2 * n \<le> j \<Longrightarrow> fold (\<lambda>i. wr16 (off + 2 * i) (g i)) [0 ..< n] b j = b j"
  by (induction n) (auto simp add: wr16_other)

lemma fold_wr32_at: "k < n \<Longrightarrow> rd32 (fold (\<lambda>i. wr32 (off + 4 * i) (g i)) [0 ..< n] b) (off + 4 * k) = g k mod 4294967296"
proof (induction n)
  case (Suc n)
  show ?case
  proof (cases "k = n")
    case False
    then show ?thesis using Suc by (simp add: rd32_wr32_other)
  qed (simp add: rd32_wr32)
qed simp

lemma fold_wr16_at: "k < n \<Longrightarrow> rd16 (fold (\<lambda>i. wr16 (off + 2 * i) (g i)) [0 ..< n] b) (off + 2 * k) = g k mod 65536"
proof (induction n)
  case (Suc n)
  show ?case
  proof (cases "k = n")
    case False
    then have "rd16 (wr16 (off + 2 * n) v c) (off + 2 * k) = rd16 c (off + 2 * k)" for v c
      using Suc.prems by (intro rd_cong(1)) (auto simp add: wr16_other)
    then show ?thesis using Suc False by simp
  qed (simp add: rd16_wr16)
qed simp

lemma sint_be_byte: "sint (be_byte 0 v) = to_i8 v"
proof -
  have "v AND 255 = take_bit 8 v" by (simp add: take_bit_eq_mask mask_eq_exp_minus_1)
  then show ?thesis using signed_take_bit_take_bit[of 7 8 v] by (simp add: be_byte_def to_i8_def sint_sbintrunc')
qed

text \<open>The layers of \<open>super_store\<close>, from the first bytes up.\<close>

definition super_head :: "filsys \<Rightarrow> blk \<Rightarrow> blk" where
  "super_head fp b = wr16 6 (s_nfree fp) (wr32 2 (s_fsize fp) (wr16 0 (s_isize fp) b))"

definition super_lists :: "filsys \<Rightarrow> blk \<Rightarrow> blk" where
  "super_lists fp b = fold (\<lambda>i. wr16 (210 + 2 * i) (s_inode fp i)) [0 ..< nat NICINOD]
     (wr16 208 (s_ninode fp) (fold (\<lambda>i. wr32 (8 + 4 * i) (s_free fp i)) [0 ..< nat NICFREE] (super_head fp b)))"

lemma super_store_low: "j < 410 \<Longrightarrow> super_store fp b j = super_lists fp b j"
  by (simp add: super_store_def super_lists_def super_head_def Let_def wr16_other wr32_other)

lemma super_lists_head: "j < 8 \<Longrightarrow> super_lists fp b j = super_head fp b j"
  by (simp add: super_lists_def fold_wr16_other fold_wr32_other wr16_other)

lemma super_lists_free: "8 \<le> j \<Longrightarrow> j < 208 \<Longrightarrow>
    super_lists fp b j = fold (\<lambda>i. wr32 (8 + 4 * i) (s_free fp i)) [0 ..< nat NICFREE] (super_head fp b) j"
  by (simp add: super_lists_def fold_wr16_other wr16_other)

lemma rd_low:
  "i + 2 \<le> 410 \<Longrightarrow> rd16 (super_store fp b) i = rd16 (super_lists fp b) i"
  "i + 4 \<le> 410 \<Longrightarrow> rd32 (super_store fp b) i = rd32 (super_lists fp b) i"
  by (simp_all add: rd16_def rd32_def super_store_low)

section \<open>Properties\<close>

text \<open>
  Mounting reads back what \<open>update\<close> writes: decoding the super block from the block that \<open>super_store\<close> produced returns every
  field as it was stored, each cut to the width it has on the disk, including all 50 free blocks and all 100 free i-numbers, whatever the
  block held before.\<close>

theorem super_roundtrip:
  "let fp' = super_load (super_store fp b)
   in s_isize fp' = to_u16 (s_isize fp) \<and> s_fsize fp' = to_i32 (s_fsize fp) \<and> s_nfree fp' = to_i16 (s_nfree fp) \<and>
      map (s_free fp') [0 ..< 50] = map (\<lambda>i. to_i32 (s_free fp i)) [0 ..< 50] \<and> s_ninode fp' = to_i16 (s_ninode fp) \<and>
      map (s_inode fp') [0 ..< 100] = map (\<lambda>i. to_u16 (s_inode fp i)) [0 ..< 100] \<and>
      s_flock fp' = to_i8 (s_flock fp) \<and> s_ilock fp' = to_i8 (s_ilock fp) \<and> s_fmod fp' = to_i8 (s_fmod fp) \<and>
      s_ronly fp' = to_i8 (s_ronly fp) \<and> s_time fp' = to_i32 (s_time fp) \<and> s_tfree fp' = to_i32 (s_tfree fp) \<and>
      s_tinode fp' = to_u16 (s_tinode fp)"
proof -
  have u16: "to_u16 v = v mod 65536" for v by (simp add: to_u16_def take_bit_eq_mod)
  have head: "rd16 (super_lists fp b) 0 = rd16 (super_head fp b) 0" "rd32 (super_lists fp b) 2 = rd32 (super_head fp b) 2"
      "rd16 (super_lists fp b) 6 = rd16 (super_head fp b) 6"
    by (simp_all add: rd16_def rd32_def super_lists_head)
  have "rd16 (super_head fp b) 0 = s_isize fp mod 65536"
    using rd16_wr16[of 0 "s_isize fp" b] by (simp add: super_head_def rd16_def wr16_other wr32_other)
  moreover have "rd32 (super_head fp b) 2 = s_fsize fp mod 4294967296"
    using rd32_wr32[of 2 "s_fsize fp" "wr16 0 (s_isize fp) b"] by (simp add: super_head_def rd32_def wr16_other)
  moreover have "rd16 (super_head fp b) 6 = s_nfree fp mod 65536" by (simp add: super_head_def rd16_wr16)
  ultimately have h: "rd16 (super_store fp b) 0 = s_isize fp mod 65536" "rd32 (super_store fp b) 2 = s_fsize fp mod 4294967296"
      "rd16 (super_store fp b) 6 = s_nfree fp mod 65536"
    by (simp_all add: rd_low head)
  have fr: "rd32 (super_store fp b) (8 + 4 * i) = s_free fp i mod 4294967296" if "i < 50" for i
  proof -
    have "rd32 (super_store fp b) (8 + 4 * i) =
        rd32 (fold (\<lambda>i. wr32 (8 + 4 * i) (s_free fp i)) [0 ..< nat NICFREE] (super_head fp b)) (8 + 4 * i)"
      using that by (simp add: rd32_def super_store_low super_lists_free)
    then show ?thesis using fold_wr32_at[of i "nat NICFREE" 8 "s_free fp"] that by (simp add: NICFREE_def)
  qed
  have nin: "rd16 (super_store fp b) 208 = s_ninode fp mod 65536"
    using rd16_wr16[of 208 "s_ninode fp"] by (simp add: rd16_def super_store_low super_lists_def fold_wr16_other)
  have ino: "rd16 (super_store fp b) (210 + 2 * i) = s_inode fp i mod 65536" if "i < 100" for i
    using fold_wr16_at[of i "nat NICINOD" 210 "s_inode fp"] that by (simp add: rd_low super_lists_def NICINOD_def)
  have fl: "super_store fp b 410 = be_byte 0 (s_flock fp)" "super_store fp b 411 = be_byte 0 (s_ilock fp)"
      "super_store fp b 412 = be_byte 0 (s_fmod fp)" "super_store fp b 413 = be_byte 0 (s_ronly fp)"
    by (simp_all add: super_store_def Let_def wr16_other wr32_other)
  have tl: "rd32 (super_store fp b) 414 = s_time fp mod 4294967296" "rd32 (super_store fp b) 418 = s_tfree fp mod 4294967296"
      "rd16 (super_store fp b) 422 = s_tinode fp mod 65536"
    by (simp_all add: super_store_def Let_def rd16_wr16 rd32_wr32 rd32_wr32_other rd32_wr16_other)
  show ?thesis
    by (simp add: super_load_def Let_def h fr nin ino fl tl to_i32_mod to_i16_mod u16 sint_be_byte NICFREE_def NICINOD_def)
qed

end
