(* ===== verification/Ring_List.thy ===== *)
theory Ring_List
  imports Main
begin

text \<open>
  Circular doubly linked lists with a head, as the buffer cache keeps them. The links are two functions on addresses; \<open>ring f g h xs\<close> says that
  following \<open>f\<close> from the head \<open>h\<close> visits \<open>xs\<close> and returns, and following \<open>g\<close> visits them in the opposite order. The three
  link manipulations of the code are unlinking a node, and linking a node after or before the head.
\<close>

section \<open>Segments\<close>

text \<open>\<open>seg f a xs b\<close>: the links from \<open>a\<close> lead through \<open>xs\<close> to \<open>b\<close>.\<close>

fun seg :: "('a \<Rightarrow> 'a) \<Rightarrow> 'a \<Rightarrow> 'a list \<Rightarrow> 'a \<Rightarrow> bool" where
  "seg f a [] b \<longleftrightarrow> f a = b"
| "seg f a (x # xs) b \<longleftrightarrow> f a = x \<and> seg f x xs b"

lemma seg_append: "seg f a (xs @ x # ys) b \<longleftrightarrow> seg f a xs x \<and> seg f x ys b"
  by (induction xs arbitrary: a) auto

lemma seg_upd_other: "y \<notin> set (a # xs) \<Longrightarrow> seg (f(y := v)) a xs b = seg f a xs b"
  by (induction xs arbitrary: a) auto

lemma seg_first: "seg f a xs b \<Longrightarrow> f a = hd (xs @ [b])"
  by (cases xs) auto

lemma seg_last: "seg f a xs b \<Longrightarrow> f (last (a # xs)) = b"
  by (induction xs arbitrary: a) auto

text \<open>Redirecting the last link of a segment.\<close>

lemma seg_redirect: "\<lbrakk>seg f a xs b; distinct (a # xs)\<rbrakk> \<Longrightarrow> seg (f(last (a # xs) := c)) a xs c"
proof (induction xs arbitrary: a)
  case (Cons x xs)
  have "seg (f(last (x # xs) := c)) x xs c"
    by (rule Cons.IH) (use Cons.prems in auto)
  moreover have "a \<noteq> last (x # xs)" using Cons.prems(2) by (metis distinct.simps(2) last_in_set list.distinct(1))
  ultimately show ?case using Cons.prems(1) by (simp del: fun_upd_apply add: fun_upd_other)
qed simp

text \<open>A segment without one of its nodes: the node before it is made to point behind it.\<close>

lemma seg_unlink:
  assumes "seg f a (xs @ x # ys) b" "distinct (a # xs @ x # ys)"
  shows "seg (f(last (a # xs) := f x)) a (xs @ ys) b"
proof -
  have s: "seg f a xs x" "seg f x ys b" using assms(1) by (simp_all add: seg_append)
  have "set (a # xs) \<inter> set (x # ys) = {}" using assms(2) by auto
  then have d: "distinct (a # xs)" "last (a # xs) \<notin> set (x # ys)"
    using assms(2) last_in_set[of "a # xs"] by (auto simp del: last.simps)
  show ?thesis
  proof (cases ys)
    case Nil
    then show ?thesis using seg_redirect[OF s(1) d(1)] s(2) by simp
  next
    case (Cons y zs)
    then have "seg (f(last (a # xs) := y)) y zs b" using s(2) d(2) by (intro seg_upd_other[THEN iffD2]) auto
    moreover have "seg (f(last (a # xs) := y)) a xs y" using seg_redirect[OF s(1) d(1)] .
    ultimately show ?thesis using s(2) Cons by (simp add: seg_append)
  qed
qed

section \<open>Rings\<close>

definition ring :: "('a \<Rightarrow> 'a) \<Rightarrow> ('a \<Rightarrow> 'a) \<Rightarrow> 'a \<Rightarrow> 'a list \<Rightarrow> bool" where
  "ring f g h xs \<longleftrightarrow> seg f h xs h \<and> seg g h (rev xs) h \<and> distinct (h # xs)"

lemma ring_dual: "ring f g h xs \<Longrightarrow> ring g f h (rev xs)"
  by (simp add: ring_def)

lemma ring_next:
  assumes "ring f g h xs"
  shows "f h = hd (xs @ [h])" "g h = last (h # xs)"
proof -
  show "f h = hd (xs @ [h])" using assms unfolding ring_def by (blast intro: seg_first)
  have "g h = hd (rev xs @ [h])" using assms unfolding ring_def by (blast intro: seg_first)
  then show "g h = last (h # xs)" by (simp add: hd_append hd_rev)
qed

lemma ring_empty_iff: "ring f g h xs \<Longrightarrow> f h = h \<longleftrightarrow> xs = []"
  using ring_next(1)[of f g h xs] by (cases xs) (auto simp add: ring_def)

lemma ring_unique: "\<lbrakk>ring f g h xs; ring f g' h ys\<rbrakk> \<Longrightarrow> xs = ys"
proof -
  have "xs = ys" if "seg f a xs h" "seg f a ys h" "h \<notin> set xs" "h \<notin> set ys" for a
    using that
  proof (induction xs arbitrary: a ys)
    case Nil
    then show ?case by (cases ys) auto
  next
    case (Cons x xs)
    then show ?case by (cases ys) auto
  qed
  then show "\<lbrakk>ring f g h xs; ring f g' h ys\<rbrakk> \<Longrightarrow> xs = ys" unfolding ring_def distinct.simps by blast
qed

text \<open>A node knows its neighbours.\<close>

lemma ring_neighbours:
  assumes "ring f g h (xs @ x # ys)"
  shows "g x = last (h # xs)" "f x = hd (ys @ [h])"
proof -
  show "f x = hd (ys @ [h])" using assms by (auto simp add: ring_def seg_append dest: seg_first)
  have "seg g x (rev xs) h" using assms by (simp add: ring_def seg_append)
  then have "g x = hd (rev xs @ [h])" by (rule seg_first)
  then show "g x = last (h # xs)" by (simp add: hd_append hd_rev)
qed

lemma ring_cong:
  assumes "ring f g h xs" "\<And>y. y \<in> set (h # xs) \<Longrightarrow> f' y = f y \<and> g' y = g y"
  shows "ring f' g' h xs"
proof -
  have c: "seg f a ys h \<Longrightarrow> (\<And>y. y \<in> set (a # ys) \<Longrightarrow> f' y = f y) \<Longrightarrow> seg f' a ys h" for f f' a ys
    by (induction f a ys h rule: seg.induct) auto
  have "seg f' h xs h" using assms by (intro c[of f h xs f']) (auto simp add: ring_def)
  moreover have "seg g' h (rev xs) h" using assms by (intro c[of g h "rev xs" g']) (auto simp add: ring_def)
  ultimately show ?thesis using assms by (simp add: ring_def)
qed

text \<open>\<open>x->back->forw = x->forw; x->forw->back = x->back\<close>\<close>

lemma ring_remove:
  assumes "ring f g h (xs @ x # ys)"
  shows "ring (f(g x := f x)) (g(f x := g x)) h (xs @ ys)"
proof -
  note nb = ring_neighbours[OF assms]
  have d: "distinct (h # xs @ x # ys)" using assms by (simp add: ring_def)
  have "seg (f(last (h # xs) := f x)) h (xs @ ys) h" using assms d by (intro seg_unlink) (simp_all add: ring_def)
  moreover have "seg (g(last (h # rev ys) := g x)) h (rev ys @ rev xs) h"
    using assms d by (intro seg_unlink) (auto simp add: ring_def)
  moreover have "last (h # rev ys) = f x" using nb(2) by (cases ys) (simp_all add: last_rev)
  ultimately show ?thesis using d nb(1) by (auto simp add: ring_def)
qed

lemma ring_remove1:
  assumes "ring f g h xs" "x \<in> set xs"
  shows "ring (f(g x := f x)) (g(f x := g x)) h (remove1 x xs)"
proof -
  obtain as bs where xs: "xs = as @ x # bs" using assms(2) by (auto dest: split_list)
  have "x \<notin> set as" using assms(1) by (simp add: ring_def xs)
  then have "remove1 x xs = as @ bs" by (simp add: xs remove1_append)
  then show ?thesis using ring_remove[of f g h as x bs] assms(1) by (simp add: xs)
qed

text \<open>Linking a node behind the head.\<close>

lemma ring_push:
  assumes "ring f g h xs" "x \<notin> set (h # xs)"
  shows "ring (f(x := f h, h := x)) (g(f h := x, x := h)) h (x # xs)"
proof -
  have d: "distinct (h # xs)" using assms(1) by (simp add: ring_def)
  have fh: "f h = hd (xs @ [h])" by (rule ring_next(1)[OF assms(1)])
  have fwd: "seg (f(x := f h, h := x)) x xs h"
  proof (cases xs)
    case Nil
    then show ?thesis using assms fh by simp
  next
    case (Cons y ys)
    then have "seg f y ys h" using assms(1) by (simp add: ring_def)
    then have "seg (f(x := y, h := x)) y ys h" using assms(2) d Cons by (subst seg_upd_other; simp add: seg_upd_other)+
    then show ?thesis using Cons assms(2) fh by simp
  qed
  have lst: "last (h # rev xs) = f h" using fh by (cases xs) (simp_all add: last_rev)
  have "seg (g(last (h # rev xs) := x)) h (rev xs) x"
    using assms(1) d by (intro seg_redirect[where b = h]) (simp_all add: ring_def)
  then have "seg (g(f h := x, x := h)) h (rev xs) x" using assms(2) lst by (subst seg_upd_other) auto
  then have "seg (g(f h := x, x := h)) h (rev xs @ [x]) h" by (simp add: seg_append)
  then show ?thesis using fwd d assms(2) by (auto simp add: ring_def)
qed

text \<open>Linking a node before the head.\<close>

lemma ring_append:
  assumes "ring f g h xs" "x \<notin> set (h # xs)"
  shows "ring (f(g h := x, x := h)) (g(x := g h, h := x)) h (xs @ [x])"
proof -
  have "ring (g(x := g h, h := x)) (f(g h := x, x := h)) h (x # rev xs)"
    using assms by (intro ring_push ring_dual) auto
  then show ?thesis by (auto dest: ring_dual)
qed

end
