(* ===== verification/Buffer_Pool.thy ===== *)
theory Buffer_Pool
  imports Ring_List Process_Sched
begin

text \<open>
  The buffer headers of \<open>h/buf.h\<close> and the routines of \<open>dev/bio.c\<close> that the drivers call or that only move a header between the
  lists. A header is the head of the available list (\<open>bfreelist\<close>), the head of a driver's list (\<open>d_tab\<close> of \<open>conf/c.c\<close>, named by
  its major device number) or an entry of \<open>buf\<close>. \<open>b_data\<close> is the memory that \<open>b_un\<close> points at; it belongs to its header. The disk of
  the board is the memory behind the window of \<open>dev/rd.c\<close>, by page; the serial disk is a UART whose input is the list of what each call of \<open>sdgetc\<close> finds
  (\<open>None\<close> for a time-out) and whose output is the list of bytes sent.
\<close>

section \<open>Headers\<close>

definition NBUF :: nat where "NBUF = 29"

definition B_READ :: "32 word" where "B_READ = 0x1"
definition B_DONE :: "32 word" where "B_DONE = 0x2"
definition B_ERROR :: "32 word" where "B_ERROR = 0x4"
definition B_BUSY :: "32 word" where "B_BUSY = 0x8"
definition B_WANTED :: "32 word" where "B_WANTED = 0x40"
definition B_AGE :: "32 word" where "B_AGE = 0x80"
definition B_ASYNC :: "32 word" where "B_ASYNC = 0x100"
definition B_DELWRI :: "32 word" where "B_DELWRI = 0x200"
definition B_TAPE :: "32 word" where "B_TAPE = 0x400"

lemmas b_flag_defs = B_READ_def B_DONE_def B_ERROR_def B_BUSY_def B_WANTED_def B_AGE_def B_ASYNC_def B_DELWRI_def B_TAPE_def

text \<open>A flag is one bit.\<close>

lemma single_bit: "k < 32 \<Longrightarrow> ((w :: 32 word) AND push_bit k 1 = 0) \<longleftrightarrow> \<not> bit w k"
  by (simp add: push_bit_eq_mult and_exp_eq_0_iff_not_bit)

lemma single_bit_iff: "k < 32 \<Longrightarrow> bit (push_bit k 1 :: 32 word) n \<longleftrightarrow> n = k"
  by (auto simp add: bit_exp_iff)

lemma flag_push:
  "B_READ = push_bit 0 1"
  "B_DONE = push_bit 1 1"
  "B_ERROR = push_bit 2 1"
  "B_BUSY = push_bit 3 1"
  "B_WANTED = push_bit 6 1"
  "B_AGE = push_bit 7 1"
  "B_ASYNC = push_bit 8 1"
  "B_DELWRI = push_bit 9 1"
  "B_TAPE = push_bit 10 1"
  by (simp_all add: b_flag_defs push_bit_eq_mult)

lemma bit_flags [simp]:
  "bit B_READ n \<longleftrightarrow> n = 0"
  "bit B_DONE n \<longleftrightarrow> n = 1"
  "bit B_ERROR n \<longleftrightarrow> n = 2"
  "bit B_BUSY n \<longleftrightarrow> n = 3"
  "bit B_WANTED n \<longleftrightarrow> n = 6"
  "bit B_AGE n \<longleftrightarrow> n = 7"
  "bit B_ASYNC n \<longleftrightarrow> n = 8"
  "bit B_DELWRI n \<longleftrightarrow> n = 9"
  "bit B_TAPE n \<longleftrightarrow> n = 10"
  unfolding flag_push by (rule single_bit_iff, simp)+

lemma test_flags [simp]:
  "(w AND B_READ = 0) \<longleftrightarrow> \<not> bit w 0"
  "(w AND B_DONE = 0) \<longleftrightarrow> \<not> bit w 1"
  "(w AND B_ERROR = 0) \<longleftrightarrow> \<not> bit w 2"
  "(w AND B_BUSY = 0) \<longleftrightarrow> \<not> bit w 3"
  "(w AND B_WANTED = 0) \<longleftrightarrow> \<not> bit w 6"
  "(w AND B_AGE = 0) \<longleftrightarrow> \<not> bit w 7"
  "(w AND B_ASYNC = 0) \<longleftrightarrow> \<not> bit w 8"
  "(w AND B_DELWRI = 0) \<longleftrightarrow> \<not> bit w 9"
  "(w AND B_TAPE = 0) \<longleftrightarrow> \<not> bit w 10"
  unfolding flag_push by (rule single_bit, simp)+

lemma flag_nonzero: "B_READ \<noteq> 0" "B_BUSY \<noteq> 0" "B_DONE \<noteq> 0" "B_ERROR \<noteq> 0" "B_DELWRI \<noteq> 0" "B_ASYNC \<noteq> 0"
  by (simp_all add: b_flag_defs)

record buf =
  b_flags :: "32 word"
  b_forw :: bref
  b_back :: bref
  av_forw :: bref
  av_back :: bref
  b_dev :: int
  b_bcount :: int
  b_data :: "nat \<Rightarrow> 8 word"
  b_blkno :: int
  b_error :: int
  b_resid :: int

record io_info =
  io_nread :: int
  io_nreada :: int
  io_ncache :: int
  io_nwrite :: int
  io_bufcount :: "nat \<Rightarrow> int"

record bio =
  bs_buf :: "bref \<Rightarrow> buf"
  bs_kern :: kernel
  bs_rd :: "nat \<Rightarrow> nat \<Rightarrow> 8 word"
  bs_rx :: "8 word option list"
  bs_tx :: "8 word list"
  bs_info :: io_info

definition upd_buf :: "bref \<Rightarrow> (buf \<Rightarrow> buf) \<Rightarrow> bio \<Rightarrow> bio" where
  "upd_buf r f s = s\<lparr>bs_buf := (bs_buf s)(r := f (bs_buf s r))\<rparr>"

definition set_bflags :: "bref \<Rightarrow> 32 word \<Rightarrow> bio \<Rightarrow> bio" where
  "set_bflags r m = upd_buf r (\<lambda>b. b\<lparr>b_flags := b_flags b OR m\<rparr>)"

definition clr_bflags :: "bref \<Rightarrow> 32 word \<Rightarrow> bio \<Rightarrow> bio" where
  "clr_bflags r m = upd_buf r (\<lambda>b. b\<lparr>b_flags := b_flags b AND NOT m\<rparr>)"

definition bflag :: "bref \<Rightarrow> 32 word \<Rightarrow> bio \<Rightarrow> bool" where
  "bflag r m s \<longleftrightarrow> b_flags (bs_buf s r) AND m \<noteq> 0"

section \<open>Links\<close>

text \<open>The pairs of assignments to the links, in the order of the code.\<close>

definition av_unlink :: "bref \<Rightarrow> bio \<Rightarrow> bio" where
  "av_unlink bp s =
    (let s = upd_buf (av_back (bs_buf s bp)) (\<lambda>b. b\<lparr>av_forw := av_forw (bs_buf s bp)\<rparr>) s
     in upd_buf (av_forw (bs_buf s bp)) (\<lambda>b. b\<lparr>av_back := av_back (bs_buf s bp)\<rparr>) s)"

text \<open>\<open>B_AGE\<close>: at the front of the available list; otherwise at its end.\<close>

definition av_front :: "bref \<Rightarrow> bio \<Rightarrow> bio" where
  "av_front bp s =
    (let s = upd_buf (av_forw (bs_buf s Bfreelist)) (\<lambda>b. b\<lparr>av_back := bp\<rparr>) s;
         s = upd_buf bp (\<lambda>b. b\<lparr>av_forw := av_forw (bs_buf s Bfreelist)\<rparr>) s;
         s = upd_buf Bfreelist (\<lambda>b. b\<lparr>av_forw := bp\<rparr>) s
     in upd_buf bp (\<lambda>b. b\<lparr>av_back := Bfreelist\<rparr>) s)"

definition av_tail :: "bref \<Rightarrow> bio \<Rightarrow> bio" where
  "av_tail bp s =
    (let s = upd_buf (av_back (bs_buf s Bfreelist)) (\<lambda>b. b\<lparr>av_forw := bp\<rparr>) s;
         s = upd_buf bp (\<lambda>b. b\<lparr>av_back := av_back (bs_buf s Bfreelist)\<rparr>) s;
         s = upd_buf Bfreelist (\<lambda>b. b\<lparr>av_back := bp\<rparr>) s
     in upd_buf bp (\<lambda>b. b\<lparr>av_forw := Bfreelist\<rparr>) s)"

definition b_unlink :: "bref \<Rightarrow> bio \<Rightarrow> bio" where
  "b_unlink bp s =
    (let s = upd_buf (b_back (bs_buf s bp)) (\<lambda>b. b\<lparr>b_forw := b_forw (bs_buf s bp)\<rparr>) s
     in upd_buf (b_forw (bs_buf s bp)) (\<lambda>b. b\<lparr>b_back := b_back (bs_buf s bp)\<rparr>) s)"

definition b_link :: "bref \<Rightarrow> bref \<Rightarrow> bio \<Rightarrow> bio" where
  "b_link dp bp s =
    (let s = upd_buf bp (\<lambda>b. b\<lparr>b_forw := b_forw (bs_buf s dp)\<rparr>) s;
         s = upd_buf bp (\<lambda>b. b\<lparr>b_back := dp\<rparr>) s;
         s = upd_buf (b_forw (bs_buf s dp)) (\<lambda>b. b\<lparr>b_back := bp\<rparr>) s
     in upd_buf dp (\<lambda>b. b\<lparr>b_forw := bp\<rparr>) s)"

definition notavail :: "bref \<Rightarrow> bio \<Rightarrow> bio" where
  "notavail bp s = set_bflags bp B_BUSY (av_unlink bp s)"

section \<open>Release and completion\<close>

definition bwakeup :: "bref \<Rightarrow> bio \<Rightarrow> string + bio" where
  "bwakeup r s = (case wakeup (Ch_buf r) (bs_kern s) of Inl msg \<Rightarrow> Inl msg | Inr k \<Rightarrow> Inr (s\<lparr>bs_kern := k\<rparr>))"

definition brelse :: "bref \<Rightarrow> bio \<Rightarrow> string + bio" where
  "brelse bp s =
    sbind (if bflag bp B_WANTED s then bwakeup bp s else Inr s) (\<lambda>s.
    sbind (if bflag Bfreelist B_WANTED s then bwakeup Bfreelist (clr_bflags Bfreelist B_WANTED s) else Inr s) (\<lambda>s.
      let s = (if bflag bp B_ERROR s then upd_buf bp (\<lambda>b. b\<lparr>b_dev := NODEV\<rparr>) s else s);
          s = (if bflag bp B_AGE s then av_front bp s else av_tail bp s)
      in Inr (clr_bflags bp (B_WANTED OR B_BUSY OR B_ASYNC OR B_AGE) s)))"

definition iodone :: "bref \<Rightarrow> bio \<Rightarrow> string + bio" where
  "iodone bp s =
    (let s = set_bflags bp B_DONE s
     in if bflag bp B_ASYNC s then brelse bp s
        else bwakeup bp (clr_bflags bp B_WANTED s))"

definition geterror :: "bref \<Rightarrow> bio \<Rightarrow> bio" where
  "geterror bp s =
    (if bflag bp B_ERROR s
     then s\<lparr>bs_kern := set_error (if b_error (bs_buf s bp) = 0 then EIO else b_error (bs_buf s bp)) (bs_kern s)\<rparr>
     else s)"

definition clrbuf :: "bref \<Rightarrow> bio \<Rightarrow> bio" where
  "clrbuf bp = upd_buf bp (\<lambda>b. b\<lparr>b_data := (\<lambda>i. if i < 512 then 0 else b_data b i), b_resid := 0\<rparr>)"

section \<open>Links after each manipulation\<close>

abbreviation avf :: "bio \<Rightarrow> bref \<Rightarrow> bref" where "avf s \<equiv> \<lambda>r. av_forw (bs_buf s r)"
abbreviation avb :: "bio \<Rightarrow> bref \<Rightarrow> bref" where "avb s \<equiv> \<lambda>r. av_back (bs_buf s r)"
abbreviation bfw :: "bio \<Rightarrow> bref \<Rightarrow> bref" where "bfw s \<equiv> \<lambda>r. b_forw (bs_buf s r)"
abbreviation bbk :: "bio \<Rightarrow> bref \<Rightarrow> bref" where "bbk s \<equiv> \<lambda>r. b_back (bs_buf s r)"

lemma upd_buf_simps [simp]:
  "bs_buf (upd_buf r f s) = (bs_buf s)(r := f (bs_buf s r))"
  "bs_kern (upd_buf r f s) = bs_kern s" "bs_rd (upd_buf r f s) = bs_rd s" "bs_rx (upd_buf r f s) = bs_rx s"
  "bs_tx (upd_buf r f s) = bs_tx s" "bs_info (upd_buf r f s) = bs_info s"
  by (simp_all add: upd_buf_def)

lemma av_unlink_links:
  "avf (av_unlink bp s) = (avf s)(avb s bp := avf s bp)"
  "avb (av_unlink bp s) = (avb s)(avf s bp := avb s bp)"
  by (auto simp add: av_unlink_def Let_def)

lemma av_front_links:
  "avf (av_front bp s) = (avf s)(bp := avf s Bfreelist, Bfreelist := bp)"
  "avb (av_front bp s) = (avb s)(avf s Bfreelist := bp, bp := Bfreelist)"
  by (auto simp add: av_front_def Let_def)

lemma av_tail_links:
  "avf (av_tail bp s) = (avf s)(avb s Bfreelist := bp, bp := Bfreelist)"
  "avb (av_tail bp s) = (avb s)(bp := avb s Bfreelist, Bfreelist := bp)"
  by (auto simp add: av_tail_def Let_def)

lemma b_unlink_links:
  "bfw (b_unlink bp s) = (bfw s)(bbk s bp := bfw s bp)"
  "bbk (b_unlink bp s) = (bbk s)(bfw s bp := bbk s bp)"
  by (auto simp add: b_unlink_def Let_def)

lemma b_link_links:
  assumes "bp \<noteq> dp" "bfw s dp \<noteq> bp"
  shows "bfw (b_link dp bp s) = (bfw s)(bp := bfw s dp, dp := bp)"
    and "bbk (b_link dp bp s) = (bbk s)(bfw s dp := bp, bp := dp)"
  using assms by (auto simp add: b_link_def Let_def)

text \<open>The parts of a header that the link manipulations leave alone.\<close>

definition payload :: "buf \<Rightarrow> 32 word \<times> int \<times> int \<times> (nat \<Rightarrow> 8 word) \<times> int \<times> int \<times> int" where
  "payload b = (b_flags b, b_dev b, b_bcount b, b_data b, b_blkno b, b_error b, b_resid b)"

lemma link_payload:
  "payload (bs_buf (av_unlink bp s) r) = payload (bs_buf s r)"
  "payload (bs_buf (av_front bp s) r) = payload (bs_buf s r)"
  "payload (bs_buf (av_tail bp s) r) = payload (bs_buf s r)"
  "payload (bs_buf (b_unlink bp s) r) = payload (bs_buf s r)"
  "payload (bs_buf (b_link dp bp s) r) = payload (bs_buf s r)"
  by (simp_all add: payload_def av_unlink_def av_front_def av_tail_def b_unlink_def b_link_def Let_def)

lemma link_other:
  "bfw (av_unlink bp s) = bfw s" "bbk (av_unlink bp s) = bbk s"
  "bfw (av_front bp s) = bfw s" "bbk (av_front bp s) = bbk s"
  "bfw (av_tail bp s) = bfw s" "bbk (av_tail bp s) = bbk s"
  "avf (b_unlink bp s) = avf s" "avb (b_unlink bp s) = avb s"
  "avf (b_link dp bp s) = avf s" "avb (b_link dp bp s) = avb s"
  by (auto simp add: av_unlink_def av_front_def av_tail_def b_unlink_def b_link_def Let_def)

definition outside :: "bio \<Rightarrow> kernel \<times> (nat \<Rightarrow> nat \<Rightarrow> 8 word) \<times> 8 word option list \<times> 8 word list" where
  "outside s = (bs_kern s, bs_rd s, bs_rx s, bs_tx s)"

lemma link_outside:
  "outside (av_unlink bp s) = outside s" "outside (av_front bp s) = outside s" "outside (av_tail bp s) = outside s"
  "outside (b_unlink bp s) = outside s" "outside (b_link dp bp s) = outside s" "outside (upd_buf r f s) = outside s"
  by (simp_all add: outside_def av_unlink_def av_front_def av_tail_def b_unlink_def b_link_def Let_def)

section \<open>The lists and the entries of the pool\<close>

text \<open>
  What the cache means: an entry holds a block of a device, valid or not, changed or not, in use or not. \<open>pool_lists\<close> is the structure of
  the pointers: the available list holds exactly the buffers that are not busy, and every buffer is on exactly one driver's list (or on that
  of \<open>bfreelist\<close>).
\<close>

record bent =
  be_dev :: int
  be_blk :: int
  be_data :: "nat \<Rightarrow> 8 word"
  be_done :: bool
  be_delwri :: bool
  be_busy :: bool
  be_err :: bool
  be_async :: bool

definition bent_of :: "buf \<Rightarrow> bent" where
  "bent_of b = \<lparr>be_dev = b_dev b, be_blk = b_blkno b, be_data = b_data b, be_done = (b_flags b AND B_DONE \<noteq> 0),
     be_delwri = (b_flags b AND B_DELWRI \<noteq> 0), be_busy = (b_flags b AND B_BUSY \<noteq> 0), be_err = (b_flags b AND B_ERROR \<noteq> 0),
     be_async = (b_flags b AND B_ASYNC \<noteq> 0)\<rparr>"

definition ent :: "bio \<Rightarrow> nat \<Rightarrow> bent" where
  "ent s i = bent_of (bs_buf s (Bufent i))"

definition heads :: "bref set" where
  "heads = {Bfreelist, Devtab 0, Devtab 1, Devtab 7}"

definition pool_lists :: "bio \<Rightarrow> bref list \<Rightarrow> (bref \<Rightarrow> bref list) \<Rightarrow> bool" where
  "pool_lists s A D \<longleftrightarrow>
    ring (avf s) (avb s) Bfreelist A \<and>
    set A = {Bufent i |i. i < NBUF \<and> \<not> be_busy (ent s i)} \<and>
    (\<forall>t \<in> heads. ring (bfw s) (bbk s) t (D t)) \<and>
    (\<Union>t \<in> heads. set (D t)) = Bufent ` {..< NBUF} \<and>
    (\<forall>t \<in> heads. \<forall>t' \<in> heads. t \<noteq> t' \<longrightarrow> set (D t) \<inter> set (D t') = {})"

lemma payload_bent: "payload b = payload b' \<Longrightarrow> bent_of b = bent_of b'"
  by (simp add: payload_def bent_of_def)

lemma payload_flags: "payload b = payload b' \<Longrightarrow> b_flags b = b_flags b'"
  by (simp add: payload_def)

lemma link_ent:
  "ent (av_unlink bp s) = ent s" "ent (av_front bp s) = ent s" "ent (av_tail bp s) = ent s"
  "ent (b_unlink bp s) = ent s" "ent (b_link dp bp s) = ent s"
  by (simp_all add: ent_def fun_eq_iff payload_bent[OF link_payload(1)] payload_bent[OF link_payload(2)]
      payload_bent[OF link_payload(3)] payload_bent[OF link_payload(4)] payload_bent[OF link_payload(5)])

lemma ent_upd_buf [simp]:
  "ent (upd_buf (Bufent i) f s) = (ent s)(i := bent_of (f (bs_buf s (Bufent i))))"
  "ent (upd_buf Bfreelist f s) = ent s" "ent (upd_buf (Devtab m) f s) = ent s"
  by (auto simp add: ent_def fun_eq_iff)

lemma ent_flags:
  "be_done (ent s i) = bit (b_flags (bs_buf s (Bufent i))) 1" "be_delwri (ent s i) = bit (b_flags (bs_buf s (Bufent i))) 9"
  "be_busy (ent s i) = bit (b_flags (bs_buf s (Bufent i))) 3" "be_err (ent s i) = bit (b_flags (bs_buf s (Bufent i))) 2"
  "be_dev (ent s i) = b_dev (bs_buf s (Bufent i))" "be_blk (ent s i) = b_blkno (bs_buf s (Bufent i))"
  "be_data (ent s i) = b_data (bs_buf s (Bufent i))" "be_async (ent s i) = bit (b_flags (bs_buf s (Bufent i))) 8"
  by (simp_all add: ent_def bent_of_def)

text \<open>The effect of a flag on the meaning of an entry.\<close>

lemma bent_or_flags:
  "bent_of (b\<lparr>b_flags := b_flags b OR B_BUSY\<rparr>) = (bent_of b)\<lparr>be_busy := True\<rparr>"
  "bent_of (b\<lparr>b_flags := b_flags b OR B_DONE\<rparr>) = (bent_of b)\<lparr>be_done := True\<rparr>"
  "bent_of (b\<lparr>b_flags := b_flags b OR B_ERROR\<rparr>) = (bent_of b)\<lparr>be_err := True\<rparr>"
  "bent_of (b\<lparr>b_flags := b_flags b OR (B_DELWRI OR B_DONE)\<rparr>) = (bent_of b)\<lparr>be_delwri := True, be_done := True\<rparr>"
  "bent_of (b\<lparr>b_flags := b_flags b OR B_READ\<rparr>) = bent_of b"
  "bent_of (b\<lparr>b_flags := b_flags b OR B_WANTED\<rparr>) = bent_of b"
  "bent_of (b\<lparr>b_flags := b_flags b OR B_AGE\<rparr>) = bent_of b"
  "bent_of (b\<lparr>b_flags := b_flags b OR B_ASYNC\<rparr>) = (bent_of b)\<lparr>be_async := True\<rparr>"
  "bent_of (b\<lparr>b_flags := b_flags b OR (B_READ OR B_ASYNC)\<rparr>) = (bent_of b)\<lparr>be_async := True\<rparr>"
  by (simp_all add: bent_of_def bit_or_iff flag_nonzero)

lemma bent_clr_flags:
  "bent_of (b\<lparr>b_flags := b_flags b AND NOT (B_WANTED OR B_BUSY OR B_ASYNC OR B_AGE)\<rparr>) = (bent_of b)\<lparr>be_busy := False, be_async := False\<rparr>"
  "bent_of (b\<lparr>b_flags := b_flags b AND NOT B_WANTED\<rparr>) = bent_of b"
  "bent_of (b\<lparr>b_flags := b_flags b AND NOT (B_READ OR B_DONE OR B_ERROR OR B_DELWRI OR B_AGE)\<rparr>) =
    (bent_of b)\<lparr>be_done := False, be_err := False, be_delwri := False\<rparr>"
  "bent_of (b\<lparr>b_flags := B_BUSY\<rparr>) = (bent_of b)\<lparr>be_done := False, be_delwri := False, be_busy := True, be_err := False,
    be_async := False\<rparr>"
  by (simp_all add: bent_of_def bit_and_iff bit_not_iff bit_or_iff flag_nonzero)

lemma ent_eqI:
  assumes "\<And>j. be_dev (ent s j) = be_dev (e j)" "\<And>j. be_blk (ent s j) = be_blk (e j)" "\<And>j. be_data (ent s j) = be_data (e j)"
    "\<And>j. be_done (ent s j) = be_done (e j)" "\<And>j. be_delwri (ent s j) = be_delwri (e j)" "\<And>j. be_busy (ent s j) = be_busy (e j)"
    "\<And>j. be_err (ent s j) = be_err (e j)" "\<And>j. be_async (ent s j) = be_async (e j)"
  shows "ent s = e"
  by (rule ext, rule bent.equality) (simp_all add: assms)

definition links :: "buf \<Rightarrow> bref \<times> bref \<times> bref \<times> bref" where
  "links b = (b_forw b, b_back b, av_forw b, av_back b)"

lemma pool_lists_cong:
  assumes "\<And>r. links (bs_buf s' r) = links (bs_buf s r)" "\<And>i. i < NBUF \<Longrightarrow> be_busy (ent s' i) = be_busy (ent s i)"
  shows "pool_lists s' A D \<longleftrightarrow> pool_lists s A D"
proof -
  have l: "avf s' = avf s" "avb s' = avb s" "bfw s' = bfw s" "bbk s' = bbk s"
    using assms(1) by (auto simp add: links_def fun_eq_iff)
  have "{Bufent i |i. i < NBUF \<and> \<not> be_busy (ent s' i)} = {Bufent i |i. i < NBUF \<and> \<not> be_busy (ent s i)}"
    using assms(2) by auto
  then show ?thesis unfolding pool_lists_def l by simp
qed

text \<open>An update of a header that keeps its links and whether it is busy.\<close>

lemma pool_lists_upd:
  assumes "\<And>b. links (f b) = links b" "\<And>i. r = Bufent i \<Longrightarrow> be_busy (bent_of (f (bs_buf s r))) = be_busy (ent s i)"
  shows "pool_lists (upd_buf r f s) A D \<longleftrightarrow> pool_lists s A D"
  using assms by (intro pool_lists_cong) (auto simp add: ent_def)

section \<open>Taking and releasing a buffer\<close>

lemma pool_not_head: "\<lbrakk>pool_lists s A D; t \<in> heads; x \<in> set (D t)\<rbrakk> \<Longrightarrow> \<exists>i < NBUF. x = Bufent i"
proof -
  assume w: "pool_lists s A D" and x: "t \<in> heads" "x \<in> set (D t)"
  have "x \<in> (\<Union>t \<in> heads. set (D t))" using x by blast
  then have "x \<in> Bufent ` {..< NBUF}" using w unfolding pool_lists_def by metis
  then show ?thesis by auto
qed

lemma notavail_spec:
  assumes w: "pool_lists s A D" and i: "i < NBUF" "\<not> be_busy (ent s i)"
  shows "pool_lists (notavail (Bufent i) s) (remove1 (Bufent i) A) D"
    and "ent (notavail (Bufent i) s) = (ent s)(i := (ent s i)\<lparr>be_busy := True\<rparr>)"
    and "outside (notavail (Bufent i) s) = outside s"
    and "\<And>k. k \<noteq> 3 \<Longrightarrow> bit (b_flags (bs_buf (notavail (Bufent i) s) r)) k = bit (b_flags (bs_buf s r)) k"
proof -
  let ?t = "av_unlink (Bufent i) s" and ?v = "notavail (Bufent i) s"
  have r: "ring (avf s) (avb s) Bfreelist A" and A: "set A = {Bufent i |i. i < NBUF \<and> \<not> be_busy (ent s i)}"
    and d: "distinct A" using w by (simp_all add: pool_lists_def ring_def)
  have fl: "b_flags (bs_buf ?t q) = b_flags (bs_buf s q)" for q by (rule payload_flags[OF link_payload(1)])
  show e: "ent ?v = (ent s)(i := (ent s i)\<lparr>be_busy := True\<rparr>)"
  proof -
    have "bent_of (bs_buf ?t (Bufent i)) = ent s i" by (simp add: ent_def payload_bent[OF link_payload(1)])
    then have "bent_of ((bs_buf ?t (Bufent i))\<lparr>b_flags := b_flags (bs_buf ?t (Bufent i)) OR B_BUSY\<rparr>) = (ent s i)\<lparr>be_busy := True\<rparr>"
      by (simp add: bent_or_flags)
    then show ?thesis by (simp add: notavail_def set_bflags_def link_ent)
  qed
  have lk: "avf ?v = avf ?t" "avb ?v = avb ?t" "bfw ?v = bfw s" "bbk ?v = bbk s"
    by (auto simp add: notavail_def set_bflags_def link_other[unfolded fun_eq_iff])
  have "ring (avf ?v) (avb ?v) Bfreelist (remove1 (Bufent i) A)"
    unfolding lk av_unlink_links using r A i by (intro ring_remove1) auto
  moreover have "set (remove1 (Bufent i) A) = {Bufent j |j. j < NBUF \<and> \<not> be_busy (ent ?v j)}"
    using d A by (auto simp add: e)
  ultimately show "pool_lists ?v (remove1 (Bufent i) A) D" using w unfolding pool_lists_def lk by simp
  show "outside ?v = outside s" by (simp add: notavail_def set_bflags_def link_outside)
  show "\<And>k. k \<noteq> 3 \<Longrightarrow> bit (b_flags (bs_buf ?v r)) k = bit (b_flags (bs_buf s r)) k"
    by (auto simp add: notavail_def set_bflags_def fl bit_simps)
qed

text \<open>
  \<open>settled s s'\<close>: of the state outside the buffers, only processes were made runnable; the flags of the driver heads did not change.
\<close>

definition settled :: "bio \<Rightarrow> bio \<Rightarrow> bool" where
  "settled s s' \<longleftrightarrow> sched_wf (bs_kern s') \<and> only_sched (bs_kern s) (bs_kern s') \<and>
    (\<forall>m. b_flags (bs_buf s' (Devtab m)) = b_flags (bs_buf s (Devtab m)))"

lemma settled_refl: "sched_wf (bs_kern s) \<Longrightarrow> settled s s"
  by (simp add: settled_def only_sched_refl)

lemma settled_trans: "\<lbrakk>settled s t; settled t v\<rbrakk> \<Longrightarrow> settled s v"
  unfolding settled_def by (auto intro: only_sched_trans)

lemma settled_kern: "\<lbrakk>settled s t; bs_kern v = bs_kern t; \<And>m. b_flags (bs_buf v (Devtab m)) = b_flags (bs_buf t (Devtab m))\<rbrakk> \<Longrightarrow> settled s v"
  by (simp add: settled_def)

lemma bwakeup_spec:
  assumes "sched_wf (bs_kern s)"
  shows "\<exists>k. bwakeup r s = Inr (s\<lparr>bs_kern := k\<rparr>) \<and> sched_wf k \<and> only_sched (bs_kern s) k"
  using wakeup_spec_wf[OF assms, of "Ch_buf r"] by (auto simp add: bwakeup_def)

text \<open>The wakeups at the start of \<open>brelse\<close>.\<close>

lemma brelse_wakes:
  assumes k: "sched_wf (bs_kern s)"
  shows "\<exists>t. (if bflag r B_WANTED s then bwakeup r s else Inr s) = Inr t \<and> settled s t \<and> bs_buf t = bs_buf s \<and> bs_rd t = bs_rd s"
proof (cases "bflag r B_WANTED s")
  case True
  then show ?thesis using bwakeup_spec[OF k, of r] by (auto simp add: settled_def)
qed (simp add: settled_refl[OF k])

lemma brelse_free_wakes:
  assumes k: "sched_wf (bs_kern s)"
  shows "\<exists>t. (if bflag Bfreelist B_WANTED s then bwakeup Bfreelist (clr_bflags Bfreelist B_WANTED s) else Inr s) = Inr t \<and>
    settled s t \<and> (\<forall>i. bs_buf t (Bufent i) = bs_buf s (Bufent i)) \<and> (\<forall>r. links (bs_buf t r) = links (bs_buf s r)) \<and> bs_rd t = bs_rd s"
proof (cases "bflag Bfreelist B_WANTED s")
  case True
  have "sched_wf (bs_kern (clr_bflags Bfreelist B_WANTED s))" using k by (simp add: clr_bflags_def)
  from bwakeup_spec[OF this, of Bfreelist] True show ?thesis by (auto simp add: clr_bflags_def settled_def links_def)
qed (simp add: settled_refl[OF k])

text \<open>The last part of \<open>brelse\<close>: the buffer goes on the available list.\<close>

definition brelse_put :: "bref \<Rightarrow> bio \<Rightarrow> bio" where
  "brelse_put bp s =
    (let s = (if bflag bp B_ERROR s then upd_buf bp (\<lambda>b. b\<lparr>b_dev := NODEV\<rparr>) s else s);
         s = (if bflag bp B_AGE s then av_front bp s else av_tail bp s)
     in clr_bflags bp (B_WANTED OR B_BUSY OR B_ASYNC OR B_AGE) s)"

lemma brelse_put_spec:
  assumes w: "pool_lists s A D" and i: "i < NBUF" "be_busy (ent s i)"
  defines "bp \<equiv> Bufent i"
  defines "e \<equiv> (ent s)(i := (ent s i)\<lparr>be_dev := (if be_err (ent s i) then NODEV else be_dev (ent s i)), be_busy := False, be_async := False\<rparr>)"
  shows "\<exists>A'. pool_lists (brelse_put bp s) A' D \<and> A' \<in> {bp # A, A @ [bp]}" and "ent (brelse_put bp s) = e" and "outside (brelse_put bp s) = outside s"
    and "b_flags (bs_buf (brelse_put bp s) (Devtab m)) = b_flags (bs_buf s (Devtab m))"
proof -
  define t where "t = (if bflag bp B_ERROR s then upd_buf bp (\<lambda>b. b\<lparr>b_dev := NODEV\<rparr>) s else s)"
  define v where "v = (if bflag bp B_AGE t then av_front bp t else av_tail bp t)"
  define z where "z = clr_bflags bp (B_WANTED OR B_BUSY OR B_ASYNC OR B_AGE) v"
  have z: "brelse_put bp s = z" by (simp add: brelse_put_def z_def v_def t_def Let_def)
  have lt: "links (bs_buf t r) = links (bs_buf s r)" for r by (simp add: t_def links_def)
  have bt: "ent t = (ent s)(i := (ent s i)\<lparr>be_dev := (if be_err (ent s i) then NODEV else be_dev (ent s i))\<rparr>)"
    by (rule ent_eqI) (auto simp add: t_def bflag_def bp_def bent_of_def ent_flags)
  have wt: "pool_lists t A D" using w by (subst pool_lists_cong[OF lt]) (simp_all add: bt)
  have ev: "ent v = ent t" by (simp add: v_def link_ent)
  have bz: "bent_of (bs_buf v bp) = ent t i" using ev by (simp add: ent_def bp_def fun_eq_iff)
  have ez: "ent z = (ent t)(i := (ent t i)\<lparr>be_busy := False, be_async := False\<rparr>)"
    unfolding z_def clr_bflags_def bp_def ent_upd_buf bent_clr_flags by (simp add: ev bz[unfolded bp_def])
  then show "ent (brelse_put bp s) = e" by (simp add: z bt e_def)
  have r: "ring (avf t) (avb t) Bfreelist A" and A: "set A = {Bufent i |i. i < NBUF \<and> \<not> be_busy (ent t i)}"
    using wt by (simp_all add: pool_lists_def)
  have nin: "bp \<notin> set (Bfreelist # A)" using i A by (auto simp add: bp_def bt)
  define A' where "A' = (if bflag bp B_AGE t then bp # A else A @ [bp])"
  have lz: "avf z = avf v" "avb z = avb v" "bfw z = bfw t" "bbk z = bbk t"
    by (auto simp add: z_def clr_bflags_def v_def link_other[unfolded fun_eq_iff])
  have "ring (avf z) (avb z) Bfreelist A'"
    unfolding lz v_def A'_def
    using ring_push[OF r nin] ring_append[OF r nin]
    by (simp add: av_front_links av_tail_links del: fun_upd_apply)
  moreover have "set A' = {Bufent j |j. j < NBUF \<and> \<not> be_busy (ent z j)}"
    using A i by (auto simp add: A'_def ez bp_def)
  ultimately have "pool_lists z A' D" using wt unfolding pool_lists_def lz by simp
  then show "\<exists>A'. pool_lists (brelse_put bp s) A' D \<and> A' \<in> {bp # A, A @ [bp]}" unfolding z by (intro exI[of _ A']) (simp add: A'_def)
  show "outside (brelse_put bp s) = outside s"
    by (simp add: z z_def v_def t_def clr_bflags_def link_outside)
  have "b_flags (bs_buf v r) = b_flags (bs_buf t r)" for r
    by (simp add: v_def payload_flags[OF link_payload(2)] payload_flags[OF link_payload(3)])
  moreover have "b_flags (bs_buf t r) = b_flags (bs_buf s r)" for r by (simp add: t_def)
  moreover have "Devtab m \<noteq> bp" by (simp add: bp_def)
  ultimately show "b_flags (bs_buf (brelse_put bp s) (Devtab m)) = b_flags (bs_buf s (Devtab m))"
    by (simp add: z z_def clr_bflags_def)
qed

lemma brelse_spec:
  assumes w: "pool_lists s A D" "sched_wf (bs_kern s)" and i: "i < NBUF" "be_busy (ent s i)"
  shows "\<exists>s' A'. brelse (Bufent i) s = Inr s' \<and> pool_lists s' A' D \<and> settled s s' \<and> bs_rd s' = bs_rd s \<and>
    A' \<in> {Bufent i # A, A @ [Bufent i]} \<and>
    ent s' = (ent s)(i := (ent s i)\<lparr>be_dev := (if be_err (ent s i) then NODEV else be_dev (ent s i)), be_busy := False, be_async := False\<rparr>)"
proof -
  obtain t where t: "(if bflag (Bufent i) B_WANTED s then bwakeup (Bufent i) s else Inr s) = Inr t" "settled s t"
      "bs_buf t = bs_buf s" "bs_rd t = bs_rd s"
    using brelse_wakes[OF w(2)] by blast
  have "sched_wf (bs_kern t)" using t(2) by (simp add: settled_def)
  then obtain v where v: "(if bflag Bfreelist B_WANTED t then bwakeup Bfreelist (clr_bflags Bfreelist B_WANTED t) else Inr t) = Inr v"
      "settled t v" "\<forall>i. bs_buf v (Bufent i) = bs_buf t (Bufent i)" "\<forall>r. links (bs_buf v r) = links (bs_buf t r)" "bs_rd v = bs_rd t"
    using brelse_free_wakes[of t] by blast
  have e: "ent v = ent s" using t(3) v(3) by (simp add: ent_def fun_eq_iff)
  have wv: "pool_lists v A D" using w(1) t(3) v(4) by (subst pool_lists_cong[where s = s]) (simp_all add: e)
  have iv: "be_busy (ent v i)" using i by (simp add: e)
  note put = brelse_put_spec[OF wv i(1) iv]
  have run: "brelse (Bufent i) s = Inr (brelse_put (Bufent i) v)"
    unfolding brelse_def t(1) sbind_simps v(1) by (simp add: brelse_put_def Let_def)
  have "settled s (brelse_put (Bufent i) v)"
    using settled_trans[OF t(2) v(2)] put(3,4) by (auto intro: settled_kern simp add: outside_def)
  moreover obtain A' where "pool_lists (brelse_put (Bufent i) v) A' D" "A' \<in> {Bufent i # A, A @ [Bufent i]}" using put(1) by blast
  moreover have "bs_rd (brelse_put (Bufent i) v) = bs_rd s" using put(3) t(4) v(5) by (simp add: outside_def)
  ultimately show ?thesis using run put(2) unfolding e by blast
qed

text \<open>Completion of a transfer: the buffer of an asynchronous one is released.\<close>

lemma iodone_spec:
  assumes w: "pool_lists s A D" "sched_wf (bs_kern s)" and i: "i < NBUF" "be_busy (ent s i)"
  defines "async \<equiv> bflag (Bufent i) B_ASYNC s" and "e \<equiv> (ent s i)\<lparr>be_done := True\<rparr>"
  shows "\<exists>s' A'. iodone (Bufent i) s = Inr s' \<and> pool_lists s' A' D \<and> settled s s' \<and> bs_rd s' = bs_rd s \<and>
    (if async then A' \<in> {Bufent i # A, A @ [Bufent i]} else A' = A) \<and>
    ent s' = (ent s)(i := if async then e\<lparr>be_dev := (if be_err e then NODEV else be_dev e), be_busy := False, be_async := False\<rparr> else e)"
proof -
  define t where "t = set_bflags (Bufent i) B_DONE s"
  have et: "ent t = (ent s)(i := e)" unfolding t_def set_bflags_def ent_upd_buf bent_or_flags e_def by (simp add: ent_def)
  have wt: "pool_lists t A D" using w(1) unfolding t_def set_bflags_def
    by (subst pool_lists_upd) (simp_all add: links_def bent_of_def ent_flags bit_or_iff)
  have ft: "bflag (Bufent i) B_ASYNC t = async" by (simp add: t_def set_bflags_def bflag_def async_def bit_or_iff)
  have st: "settled s t" using settled_refl[OF w(2)] by (rule settled_kern) (simp_all add: t_def set_bflags_def)
  have rt: "bs_rd t = bs_rd s" "bs_kern t = bs_kern s" by (simp_all add: t_def set_bflags_def)
  show ?thesis
  proof (cases async)
    case True
    have "be_busy (ent t i)" using i by (simp add: et e_def)
    from brelse_spec[OF wt _ i(1) this] w(2) rt obtain s' A' where r: "brelse (Bufent i) t = Inr s'" "pool_lists s' A' D" "settled t s'"
        "bs_rd s' = bs_rd t" "A' \<in> {Bufent i # A, A @ [Bufent i]}"
        "ent s' = (ent t)(i := (ent t i)\<lparr>be_dev := (if be_err (ent t i) then NODEV else be_dev (ent t i)), be_busy := False, be_async := False\<rparr>)"
      by auto
    have run: "iodone (Bufent i) s = Inr s'" using True r(1) ft unfolding iodone_def t_def[symmetric] by simp
    show ?thesis
      by (intro exI[of _ s'] exI[of _ A'] conjI run r(2) settled_trans[OF st r(3)])
        (use True r rt in \<open>simp_all add: et\<close>)
  next
    case False
    define v where "v = clr_bflags (Bufent i) B_WANTED t"
    have "sched_wf (bs_kern v)" using w(2) rt by (simp add: v_def clr_bflags_def)
    from bwakeup_spec[OF this, of "Bufent i"] obtain k where k: "bwakeup (Bufent i) v = Inr (v\<lparr>bs_kern := k\<rparr>)" "sched_wf k"
        "only_sched (bs_kern v) k" by blast
    have run: "iodone (Bufent i) s = Inr (v\<lparr>bs_kern := k\<rparr>)" using False k(1) ft unfolding iodone_def t_def[symmetric] by (simp add: v_def)
    have ev: "ent (v\<lparr>bs_kern := k\<rparr>) = (ent s)(i := e)"
    proof -
      have "bent_of (bs_buf t (Bufent i)) = e" using et by (simp add: ent_def fun_eq_iff)
      then have "ent v = (ent s)(i := e)" unfolding v_def clr_bflags_def ent_upd_buf bent_clr_flags by (simp add: et)
      then show ?thesis by (simp add: ent_def fun_eq_iff)
    qed
    have lv: "links (bs_buf (v\<lparr>bs_kern := k\<rparr>) r) = links (bs_buf t r)" for r by (simp add: v_def clr_bflags_def links_def)
    have "pool_lists (v\<lparr>bs_kern := k\<rparr>) A D" using wt by (subst pool_lists_cong[OF lv]) (simp_all add: ev et)
    moreover have "settled s (v\<lparr>bs_kern := k\<rparr>)"
      using k st by (auto simp add: settled_def v_def clr_bflags_def rt)
    ultimately show ?thesis using run ev False by (auto simp add: v_def clr_bflags_def rt)
  qed
qed

end
