(* ===== verification/Disk_Drivers.thy ===== *)
theory Disk_Drivers
  imports Buffer_Pool
begin

text \<open>
  The block device drivers: the RAM disk \<open>dev/rd.c\<close>, the serial disk \<open>dev/sd.c\<close>, and the block device switch of \<open>conf/c.c\<close> with
  the strategy stubs of \<open>conf/stubs.c\<close>. Both drivers finish a transfer before their strategy routine returns.
\<close>

section \<open>The RAM disk\<close>

definition EPOCH68_DISK_PAGE_SIZE :: nat where
  "EPOCH68_DISK_PAGE_SIZE = 256 * 1024"

definition rdparts :: "(int \<times> int) list" where
  "rdparts = [(0, 32768)]"

definition rdvalid :: "int \<Rightarrow> bool" where
  "rdvalid m \<longleftrightarrow> 0 \<le> m \<and> m < int (length rdparts)"

text \<open>
  \<open>while (count-- > 0)\<close>: the buffer and the disk memory after the loop. The page register holds eight bits.
\<close>

fun rd_copy :: "nat \<Rightarrow> bool \<Rightarrow> nat \<Rightarrow> nat \<Rightarrow> nat \<Rightarrow> (nat \<Rightarrow> 8 word) \<times> (nat \<Rightarrow> nat \<Rightarrow> 8 word) \<Rightarrow>
  (nat \<Rightarrow> 8 word) \<times> (nat \<Rightarrow> nat \<Rightarrow> 8 word)" where
  "rd_copy 0 rd page off cp (d, w) = (d, w)"
| "rd_copy (Suc count) rd page off cp (d, w) =
    (let pg = page mod 256;
         (d, w) = (if rd then (d(cp := w pg off), w) else (d, w(pg := (w pg)(off := d cp))))
     in if off + 1 = EPOCH68_DISK_PAGE_SIZE \<and> count > 0
        then rd_copy count rd (page + 1) 0 (cp + 1) (d, w)
        else rd_copy count rd page (off + 1) (cp + 1) (d, w))"

definition rdxfer :: "bref \<Rightarrow> bio \<Rightarrow> string + bio" where
  "rdxfer bp s =
    (let b = bs_buf s bp; partno = minor (b_dev b)
     in if \<not> rdvalid partno \<or> b_blkno b < 0 \<or> b_blkno b \<ge> snd (rdparts ! nat partno)
        then iodone bp (set_bflags bp B_ERROR s)
        else let physbn = fst (rdparts ! nat partno) + b_blkno b;
                 disk_offset = nat (to_u32 (to_u32 physbn * 512));
                 (d, w) = rd_copy (nat (to_u16 (b_bcount b))) (bflag bp B_READ s)
                            (disk_offset div EPOCH68_DISK_PAGE_SIZE) (disk_offset mod EPOCH68_DISK_PAGE_SIZE) 0 (b_data b, bs_rd s)
             in iodone bp (upd_buf bp (\<lambda>b. b\<lparr>b_data := d, b_resid := 0\<rparr>) (s\<lparr>bs_rd := w\<rparr>)))"

definition rdstrategy :: "bref \<Rightarrow> bio \<Rightarrow> string + bio" where
  "rdstrategy bp s = rdxfer bp s"

definition rdopen :: "int \<Rightarrow> bio \<Rightarrow> int \<times> bio" where
  "rdopen dev s =
    (if \<not> rdvalid (minor dev) then (- 1, s\<lparr>bs_kern := set_error ENXIO (bs_kern s)\<rparr>) else (0, s))"

section \<open>The serial disk\<close>

definition SD_SECTOR_SIZE :: nat where "SD_SECTOR_SIZE = 512"
definition SD_NSECTORS :: int where "SD_NSECTORS = 2880"
definition SD_MAGIC0 :: int where "SD_MAGIC0 = 0xe7"
definition SD_MAGIC1 :: int where "SD_MAGIC1 = 0x68"
definition SD_MAGIC2_REQ :: int where "SD_MAGIC2_REQ = 0x53"
definition SD_MAGIC2_RESP :: int where "SD_MAGIC2_RESP = 0x73"
definition SD_MAGIC3 :: int where "SD_MAGIC3 = 0x44"
definition SD_VERSION :: int where "SD_VERSION = 1"
definition SD_OP_READ :: int where "SD_OP_READ = 82"
definition SD_OP_WRITE :: int where "SD_OP_WRITE = 87"
definition SD_STATUS_OK :: int where "SD_STATUS_OK = 0"

definition sdcrc_shift :: "int \<Rightarrow> int" where
  "sdcrc_shift crc =
    (if crc AND 0x8000 \<noteq> 0 then to_i32 (push_bit 1 crc) XOR 0x1021 else to_i32 (push_bit 1 crc))"

definition sdcrc_update :: "int \<Rightarrow> int \<Rightarrow> int" where
  "sdcrc_update crc ch = to_u16 ((sdcrc_shift ^^ 8) (crc XOR push_bit 8 (to_u16 ch)))"

definition sdcrc :: "int list \<Rightarrow> int" where
  "sdcrc cs = fold (\<lambda>c crc. sdcrc_update crc c) cs 0"

definition sdputc :: "int \<Rightarrow> bio \<Rightarrow> bio" where
  "sdputc c s = s\<lparr>bs_tx := bs_tx s @ [word_of_int c]\<rparr>"

definition sdgetc :: "bio \<Rightarrow> int \<times> bio" where
  "sdgetc s =
    (case bs_rx s of
       [] \<Rightarrow> (- 1, s)
     | None # r \<Rightarrow> (- 1, s\<lparr>bs_rx := r\<rparr>)
     | Some b # r \<Rightarrow> (uint b, s\<lparr>bs_rx := r\<rparr>))"

definition sdput16 :: "int \<Rightarrow> bio \<Rightarrow> bio" where
  "sdput16 v s = sdputc v (sdputc (drop_bit 8 v) s)"

text \<open>The request: \<open>h\<close>, the frame around it, and the data of a write.\<close>

definition sd_header :: "int \<Rightarrow> int \<Rightarrow> int list" where
  "sd_header op lba =
    [SD_VERSION, op, 0, to_u8 (drop_bit 24 lba), to_u8 (drop_bit 16 lba), to_u8 (drop_bit 8 lba), to_u8 lba, 0, 1]"

definition sd_send :: "int \<Rightarrow> int \<Rightarrow> (nat \<Rightarrow> 8 word) \<Rightarrow> bio \<Rightarrow> bio" where
  "sd_send op lba data s =
    (let h = sd_header op lba;
         s = fold sdputc ([SD_MAGIC0, SD_MAGIC1, SD_MAGIC2_REQ, SD_MAGIC3] @ h) s;
         s = sdput16 (sdcrc h) s
     in if op = SD_OP_WRITE then
          (let cs = map (\<lambda>i. uint (data i)) [0 ..< SD_SECTOR_SIZE]
           in sdput16 (sdcrc cs) (fold sdputc cs s))
        else s)"

text \<open>The chain of comparisons with \<open>||\<close>, which stops at the first that fails.\<close>

fun sd_expect :: "int list \<Rightarrow> bio \<Rightarrow> bool \<times> bio" where
  "sd_expect [] s = (True, s)"
| "sd_expect (m # ms) s = (case sdgetc s of (c, s) \<Rightarrow> if c \<noteq> m then (False, s) else sd_expect ms s)"

text \<open>Bytes read into an array, up to the first time-out; the checksum runs along.\<close>

fun sd_fill :: "nat \<Rightarrow> nat \<Rightarrow> int \<Rightarrow> (nat \<Rightarrow> 8 word) \<Rightarrow> bio \<Rightarrow> int option \<times> (nat \<Rightarrow> 8 word) \<times> bio" where
  "sd_fill 0 i crc a s = (Some crc, a, s)"
| "sd_fill (Suc n) i crc a s =
    (case sdgetc s of (c, s) \<Rightarrow>
       if c < 0 then (None, a, s)
       else sd_fill n (i + 1) (sdcrc_update crc c) (a(i := word_of_int c)) s)"

text \<open>The two bytes of the checksum, \<open>want\<close>.\<close>

definition sd_want :: "bio \<Rightarrow> int option \<times> bio" where
  "sd_want s =
    (case sdgetc s of (c, s) \<Rightarrow>
       if c < 0 then (None, s)
       else case sdgetc s of (d, s) \<Rightarrow>
         if d < 0 then (None, s) else (Some (push_bit 8 c OR d), s))"

definition sd_finish :: "int \<Rightarrow> int \<Rightarrow> (nat \<Rightarrow> 8 word) \<Rightarrow> bio \<Rightarrow> int \<times> (nat \<Rightarrow> 8 word) \<times> bio" where
  "sd_finish status crc data s =
    (case sd_want s of
       (None, s) \<Rightarrow> (- 1, data, s)
     | (Some want, s) \<Rightarrow>
         if crc \<noteq> want then (- 1, data, s)
         else if status \<noteq> SD_STATUS_OK then (- 1, data, s)
         else (0, data, s))"

definition sdrequest :: "int \<Rightarrow> int \<Rightarrow> (nat \<Rightarrow> 8 word) \<Rightarrow> bio \<Rightarrow> int \<times> (nat \<Rightarrow> 8 word) \<times> bio" where
  "sdrequest op lba data s =
    (case sd_expect [SD_MAGIC0, SD_MAGIC1, SD_MAGIC2_RESP, SD_MAGIC3] (sd_send op lba data s) of
       (False, s) \<Rightarrow> (- 1, data, s)
     | (True, s) \<Rightarrow>
         (case sd_fill 4 0 0 (\<lambda>_. 0) s of
            (None, rh, s) \<Rightarrow> (- 1, data, s)
          | (Some crc, rh, s) \<Rightarrow>
              if uint (rh 0) \<noteq> SD_VERSION then (- 1, data, s)
              else let status = uint (rh 1); count = to_i16 (push_bit 8 (uint (rh 2)) OR uint (rh 3))
                   in if op = SD_OP_READ \<and> status = SD_STATUS_OK then
                        if count \<noteq> 1 then (- 1, data, s)
                        else (case sd_fill SD_SECTOR_SIZE 0 crc data s of
                                (None, data, s) \<Rightarrow> (- 1, data, s)
                              | (Some crc, data, s) \<Rightarrow> sd_finish status crc data s)
                      else sd_finish status crc data s))"

definition sdopen :: "int \<Rightarrow> bio \<Rightarrow> int \<times> bio" where
  "sdopen dev s = (if minor dev \<noteq> 0 then (- 1, s\<lparr>bs_kern := set_error ENXIO (bs_kern s)\<rparr>) else (0, s))"

definition sdstrategy :: "bref \<Rightarrow> bio \<Rightarrow> string + bio" where
  "sdstrategy bp s =
    (let b = bs_buf s bp
     in if minor (b_dev b) \<noteq> 0 \<or> b_blkno b < 0 \<or> b_blkno b \<ge> SD_NSECTORS \<or> b_bcount b \<noteq> int SD_SECTOR_SIZE
        then iodone bp (set_bflags bp B_ERROR s)
        else let (r, d, s) = sdrequest (if bflag bp B_READ s then SD_OP_READ else SD_OP_WRITE) (to_u32 (b_blkno b)) (b_data b) s;
                 s = upd_buf bp (\<lambda>b. b\<lparr>b_data := d\<rparr>) s;
                 s = (if r < 0 then set_bflags bp B_ERROR s else s)
             in iodone bp (upd_buf bp (\<lambda>b. b\<lparr>b_resid := 0\<rparr>) s))"

section \<open>The block device switch\<close>

definition notready :: "bio \<Rightarrow> int \<times> bio" where
  "notready s = (- 1, s\<lparr>bs_kern := set_error ENODEV (bs_kern s)\<rparr>)"

definition d_tab :: "int \<Rightarrow> bref option" where
  "d_tab m = (if m = 0 then Some (Devtab 0) else if m = 1 then Some (Devtab 1) else if m = 7 then Some (Devtab 7) else None)"

definition d_strategy :: "bref \<Rightarrow> bio \<Rightarrow> string + bio" where
  "d_strategy bp s =
    (let m = major (b_dev (bs_buf s bp))
     in if m = 0 then rdstrategy bp s
        else if m = 1 then sdstrategy bp s
        else if m \<le> 8 then Inr (snd (notready s))
        else Inl ''bdevsw'')"

section \<open>The contents of the RAM disk\<close>

definition sector :: "(nat \<Rightarrow> 8 word) \<Rightarrow> 8 word list" where
  "sector f = map f [0 ..< 512]"

definition rd_block :: "(nat \<Rightarrow> nat \<Rightarrow> 8 word) \<Rightarrow> int \<Rightarrow> 8 word list" where
  "rd_block w bn =
    sector (\<lambda>i. w (nat bn * 512 div EPOCH68_DISK_PAGE_SIZE) (nat bn * 512 mod EPOCH68_DISK_PAGE_SIZE + i))"

definition on_disk :: "int \<Rightarrow> bool" where
  "on_disk bn \<longleftrightarrow> 0 \<le> bn \<and> bn < 32768"

lemma rd_copy_read:
  "off + n \<le> EPOCH68_DISK_PAGE_SIZE \<Longrightarrow>
   rd_copy n True page off cp (d, w) = (\<lambda>k. if cp \<le> k \<and> k < cp + n then w (page mod 256) (off + (k - cp)) else d k, w)"
proof (induction n arbitrary: off cp d)
  case (Suc n)
  have IH: "rd_copy n True page (off + 1) (cp + 1) (d(cp := w (page mod 256) off), w) =
      (\<lambda>k. if cp + 1 \<le> k \<and> k < cp + 1 + n then w (page mod 256) (off + 1 + (k - (cp + 1)))
            else (d(cp := w (page mod 256) off)) k, w)"
    using Suc.prems by (intro Suc.IH) simp
  have stay: "\<not> (off + 1 = EPOCH68_DISK_PAGE_SIZE \<and> n > 0)" using Suc.prems by simp
  show ?case by (simp only: rd_copy.simps Let_def if_True prod.case if_not_P[OF stay] IH) (auto simp add: fun_eq_iff Suc_diff_Suc)
qed (auto simp add: fun_eq_iff)

lemma rd_copy_write:
  "off + n \<le> EPOCH68_DISK_PAGE_SIZE \<Longrightarrow>
   rd_copy n False page off cp (d, w) =
     (d, w(page mod 256 := (\<lambda>k. if off \<le> k \<and> k < off + n then d (cp + (k - off)) else w (page mod 256) k)))"
proof (induction n arbitrary: off cp w)
  case (Suc n)
  define w' where "w' = w(page mod 256 := (w (page mod 256))(off := d cp))"
  have IH: "rd_copy n False page (off + 1) (cp + 1) (d, w') =
      (d, w'(page mod 256 := (\<lambda>k. if off + 1 \<le> k \<and> k < off + 1 + n then d (cp + 1 + (k - (off + 1))) else w' (page mod 256) k)))"
    using Suc.prems by (intro Suc.IH) simp
  have stay: "\<not> (off + 1 = EPOCH68_DISK_PAGE_SIZE \<and> n > 0)" using Suc.prems by simp
  show ?case
    by (simp only: rd_copy.simps Let_def if_False prod.case if_not_P[OF stay] w'_def[symmetric] IH)
      (auto simp add: fun_eq_iff w'_def Suc_diff_Suc)
qed (auto simp add: fun_eq_iff)

text \<open>The 512 blocks of a page fill it, so that a block never crosses the end of its page.\<close>

lemma block_place:
  "nat bn * 512 mod EPOCH68_DISK_PAGE_SIZE + 512 \<le> EPOCH68_DISK_PAGE_SIZE"
  "on_disk bn \<Longrightarrow> nat bn * 512 div EPOCH68_DISK_PAGE_SIZE mod 256 = nat bn * 512 div EPOCH68_DISK_PAGE_SIZE"
  "on_disk bn \<Longrightarrow> nat (to_u32 (to_u32 bn * 512)) = nat bn * 512"
proof -
  have "nat bn * 512 mod (512 * 512) = 512 * (nat bn mod 512)" by (simp add: mult_mod_right mult.commute)
  moreover have "nat bn mod 512 \<le> 511" by simp
  ultimately show "nat bn * 512 mod EPOCH68_DISK_PAGE_SIZE + 512 \<le> EPOCH68_DISK_PAGE_SIZE"
    by (simp add: EPOCH68_DISK_PAGE_SIZE_def)
  show "on_disk bn \<Longrightarrow> nat bn * 512 div EPOCH68_DISK_PAGE_SIZE mod 256 = nat bn * 512 div EPOCH68_DISK_PAGE_SIZE"
    by (intro mod_less) (auto simp add: EPOCH68_DISK_PAGE_SIZE_def on_disk_def less_mult_imp_div_less)
  show "on_disk bn \<Longrightarrow> nat (to_u32 (to_u32 bn * 512)) = nat bn * 512"
    by (simp add: on_disk_def to_u32_id nat_mult_distrib)
qed

lemma rd_write_block:
  fixes w d :: "_ \<Rightarrow> _" and b bn :: int
  defines "pg \<equiv> nat b * 512 div EPOCH68_DISK_PAGE_SIZE" and "off \<equiv> nat b * 512 mod EPOCH68_DISK_PAGE_SIZE"
  assumes "on_disk b" "on_disk bn"
  shows "rd_block (w(pg := (\<lambda>k. if off \<le> k \<and> k < off + 512 then d (0 + (k - off)) else w pg k))) bn =
    (if bn = b then sector d else rd_block w bn)"
proof (cases "bn = b")
  case True
  then show ?thesis by (simp add: rd_block_def sector_def pg_def off_def)
next
  case False
  let ?w = "w(pg := (\<lambda>k. if off \<le> k \<and> k < off + 512 then d (0 + (k - off)) else w pg k))"
  let ?p = "nat bn * 512 div EPOCH68_DISK_PAGE_SIZE" and ?o = "nat bn * 512 mod EPOCH68_DISK_PAGE_SIZE"
  have "?w ?p (?o + i) = w ?p (?o + i)" if i: "i < 512" for i
  proof (cases "?p = pg")
    case True
    have d: "nat b * 512 = pg * EPOCH68_DISK_PAGE_SIZE + off" "nat bn * 512 = ?p * EPOCH68_DISK_PAGE_SIZE + ?o"
      by (simp_all only: pg_def off_def div_mult_mod_eq)
    have n: "nat bn \<noteq> nat b" using False assms(3,4) by (auto simp add: on_disk_def)
    have "nat bn * 512 + off = nat b * 512 + ?o" using d True by simp
    moreover have "nat bn + 1 \<le> nat b \<or> nat b + 1 \<le> nat bn" using n by linarith
    ultimately have "?o + 512 \<le> off \<or> off + 512 \<le> ?o" by linarith
    then show ?thesis using i by auto
  qed simp
  then show ?thesis using False by (simp add: rd_block_def sector_def del: fun_upd_apply)
qed

section \<open>The serial line leaves the kernel alone\<close>

definition only_line :: "bio \<Rightarrow> bio \<Rightarrow> bool" where
  "only_line s s' \<longleftrightarrow> bs_buf s' = bs_buf s \<and> bs_kern s' = bs_kern s \<and> bs_rd s' = bs_rd s"

lemma sdgetc_line: "sdgetc s = (c, s') \<Longrightarrow> only_line s s'"
  by (auto simp add: sdgetc_def only_line_def split: list.splits option.splits)

lemma fold_sdputc_line: "only_line s (fold sdputc cs s)"
  by (induction cs arbitrary: s) (auto simp add: sdputc_def only_line_def)

lemma only_line_trans: "\<lbrakk>only_line s t; only_line t v\<rbrakk> \<Longrightarrow> only_line s v"
  by (simp add: only_line_def)

lemma sd_send_line: "only_line s (sd_send op lba data s)"
proof -
  have p: "only_line t (sdput16 v (fold sdputc cs t))" for t v cs
    using fold_sdputc_line[of t cs] by (simp add: sdput16_def sdputc_def only_line_def)
  show ?thesis unfolding sd_send_def Let_def by (simp only: p p[THEN only_line_trans, OF p] split: if_split) simp
qed

lemma sd_expect_line: "sd_expect ms s = (r, s') \<Longrightarrow> only_line s s'"
proof (induction ms arbitrary: s)
  case (Cons m ms)
  obtain c t where g: "sdgetc s = (c, t)" by fastforce
  show ?case using Cons g sdgetc_line[OF g] by (auto split: if_splits intro: only_line_trans)
qed (simp add: only_line_def)

lemma sd_fill_line: "sd_fill n i crc a s = (r, a', s') \<Longrightarrow> only_line s s'"
proof (induction n arbitrary: i crc a s)
  case (Suc n)
  obtain c t where g: "sdgetc s = (c, t)" by fastforce
  show ?case using Suc g sdgetc_line[OF g] by (auto split: if_splits intro: only_line_trans)
qed (simp add: only_line_def)

lemma sd_finish_line: "sd_finish st crc d s = (r, d', s') \<Longrightarrow> only_line s s'"
proof -
  have "sd_want s = (x, t) \<Longrightarrow> only_line s t" for x t
    unfolding sd_want_def by (auto split: prod.splits if_splits dest!: sdgetc_line intro: only_line_trans)
  then show "sd_finish st crc d s = (r, d', s') \<Longrightarrow> only_line s s'"
    unfolding sd_finish_def by (fastforce split: prod.splits option.splits if_splits)
qed

lemma sdrequest_line: "sdrequest op lba d s = (r, d', s') \<Longrightarrow> only_line s s'"
proof -
  assume run: "sdrequest op lba d s = (r, d', s')"
  obtain x t where x: "sd_expect [SD_MAGIC0, SD_MAGIC1, SD_MAGIC2_RESP, SD_MAGIC3] (sd_send op lba d s) = (x, t)" by fastforce
  obtain y rh v where y: "sd_fill 4 0 0 (\<lambda>_. 0) t = (y, rh, v)" by (metis prod_cases3)
  have st: "only_line s t" using sd_send_line sd_expect_line[OF x] by (rule only_line_trans)
  have sv: "only_line s v" using st sd_fill_line[OF y] by (rule only_line_trans)
  show ?thesis
    using run x y st sv unfolding sdrequest_def
    by (auto simp add: Let_def split: bool.splits option.splits if_splits prod.splits
        dest!: sd_fill_line sd_finish_line intro: only_line_trans)
qed

section \<open>What a strategy routine does\<close>

text \<open>The state in which a driver calls \<open>iodone\<close>: only the entry and the device have changed.\<close>

definition transferred :: "nat \<Rightarrow> bio \<Rightarrow> bio \<Rightarrow> bent \<Rightarrow> bool" where
  "transferred i s t e \<longleftrightarrow>
    (\<forall>r. links (bs_buf t r) = links (bs_buf s r)) \<and> ent t = (ent s)(i := e) \<and> bs_kern t = bs_kern s \<and>
    (bflag (Bufent i) B_ASYNC t \<longleftrightarrow> bflag (Bufent i) B_ASYNC s) \<and>
    (\<forall>m. b_flags (bs_buf t (Devtab m)) = b_flags (bs_buf s (Devtab m))) \<and>
    be_dev e = be_dev (ent s i) \<and> be_blk e = be_blk (ent s i) \<and> be_delwri e = be_delwri (ent s i) \<and>
    be_busy e = be_busy (ent s i) \<and> be_done e = be_done (ent s i) \<and> be_async e = be_async (ent s i)"

lemma transferred_error:
  "transferred i s (set_bflags (Bufent i) B_ERROR s) ((ent s i)\<lparr>be_err := True\<rparr>)"
proof -
  have "ent (set_bflags (Bufent i) B_ERROR s) = (ent s)(i := (ent s i)\<lparr>be_err := True\<rparr>)"
    unfolding set_bflags_def ent_upd_buf bent_or_flags by (simp add: ent_def)
  then show ?thesis by (simp add: transferred_def) (simp add: set_bflags_def links_def bflag_def bit_or_iff)
qed

lemma transferred_data:
  assumes "only_line (s\<lparr>bs_rd := w\<rparr>) v"
  shows "transferred i s (upd_buf (Bufent i) (\<lambda>b. b\<lparr>b_resid := x\<rparr>) (upd_buf (Bufent i) (\<lambda>b. b\<lparr>b_data := d\<rparr>) v)) ((ent s i)\<lparr>be_data := d\<rparr>)"
proof -
  have b: "bs_buf v = bs_buf s" "bs_kern v = bs_kern s" using assms by (simp_all add: only_line_def)
  let ?t = "upd_buf (Bufent i) (\<lambda>b. b\<lparr>b_resid := x\<rparr>) (upd_buf (Bufent i) (\<lambda>b. b\<lparr>b_data := d\<rparr>) v)"
  have "ent ?t = (ent s)(i := (ent s i)\<lparr>be_data := d\<rparr>)"
    by (rule ent_eqI) (auto simp add: ent_def bent_of_def b)
  then show ?thesis by (simp add: transferred_def) (simp add: links_def bflag_def b)
qed

text \<open>The RAM disk fails on a block outside the disk and is otherwise exact.\<close>

lemma rdstrategy_spec:
  assumes m: "major (be_dev (ent s i)) = 0" and n: "be_dev (ent s i) = 0 \<Longrightarrow> b_bcount (bs_buf s (Bufent i)) = 512"
  defines "rd \<equiv> bflag (Bufent i) B_READ s" and "blk \<equiv> be_blk (ent s i)"
  shows "\<exists>t e. rdstrategy (Bufent i) s = iodone (Bufent i) t \<and> transferred i s t e \<and>
    (if be_dev (ent s i) = 0 \<and> on_disk blk then
       be_err e = be_err (ent s i) \<and>
       (if rd then sector (be_data e) = rd_block (bs_rd s) blk \<and> bs_rd t = bs_rd s
        else be_data e = be_data (ent s i) \<and>
          (\<forall>bn. on_disk bn \<longrightarrow> rd_block (bs_rd t) bn = (if bn = blk then sector (be_data e) else rd_block (bs_rd s) bn)))
     else be_err e \<and> bs_rd t = bs_rd s)"
proof -
  let ?b = "bs_buf s (Bufent i)"
  have dev: "be_dev (ent s i) = 0 \<longleftrightarrow> minor (b_dev ?b) = 0"
    using m by (auto simp add: ent_flags major_def minor_def take_bit_eq_mod drop_bit_eq_div)
  have rv: "rdvalid (minor (b_dev ?b)) \<longleftrightarrow> minor (b_dev ?b) = 0"
    using take_bit_nonnegative[of 8 "b_dev ?b"] by (auto simp add: rdvalid_def rdparts_def minor_def simp del: take_bit_nonnegative)
  show ?thesis
  proof (cases "be_dev (ent s i) = 0 \<and> on_disk blk")
    case False
    then have "\<not> rdvalid (minor (b_dev ?b)) \<or> b_blkno ?b < 0 \<or> b_blkno ?b \<ge> snd (rdparts ! nat (minor (b_dev ?b)))"
      using dev rv by (auto simp add: on_disk_def blk_def ent_flags rdparts_def)
    then have "rdstrategy (Bufent i) s = iodone (Bufent i) (set_bflags (Bufent i) B_ERROR s)"
      unfolding rdstrategy_def rdxfer_def Let_def by simp
    then show ?thesis using transferred_error[of i s] unfolding if_not_P[OF False]
      by (intro exI[of _ "set_bflags (Bufent i) B_ERROR s"] exI[of _ "(ent s i)\<lparr>be_err := True\<rparr>"]) (simp add: set_bflags_def)
  next
    case True
    define pg where "pg = nat blk * 512 div EPOCH68_DISK_PAGE_SIZE"
    define off where "off = nat blk * 512 mod EPOCH68_DISK_PAGE_SIZE"
    obtain d w where c: "rd_copy 512 rd pg off 0 (b_data ?b, bs_rd s) = (d, w)" by fastforce
    have ok: "rdvalid (minor (b_dev ?b))" "minor (b_dev ?b) = 0" "on_disk blk" "blk = b_blkno ?b" "b_bcount ?b = 512"
      using True dev rv n by (auto simp add: blk_def ent_flags)
    have small: "b_blkno ?b < 32768" "\<not> b_blkno ?b < 0" using ok by (simp_all add: on_disk_def)
    have run: "rdstrategy (Bufent i) s =
        iodone (Bufent i) (upd_buf (Bufent i) (\<lambda>b. b\<lparr>b_data := d, b_resid := 0\<rparr>) (s\<lparr>bs_rd := w\<rparr>))"
      using c ok small block_place(3)[OF ok(3)] unfolding rdstrategy_def rdxfer_def Let_def rd_def pg_def off_def
      by (simp add: rdparts_def to_u16_id)
    let ?t = "upd_buf (Bufent i) (\<lambda>b. b\<lparr>b_data := d, b_resid := 0\<rparr>) (s\<lparr>bs_rd := w\<rparr>)"
    have two: "?t = upd_buf (Bufent i) (\<lambda>b. b\<lparr>b_resid := 0\<rparr>) (upd_buf (Bufent i) (\<lambda>b. b\<lparr>b_data := d\<rparr>) (s\<lparr>bs_rd := w\<rparr>))"
      by (simp add: upd_buf_def)
    have tr: "transferred i s ?t ((ent s i)\<lparr>be_data := d\<rparr>)"
      unfolding two by (rule transferred_data[where w = w]) (simp add: only_line_def)
    have pl: "off + 512 \<le> EPOCH68_DISK_PAGE_SIZE" "pg mod 256 = pg" using block_place(1,2) ok(3) by (simp_all add: pg_def off_def)
    have "if rd then sector d = rd_block (bs_rd s) blk \<and> w = bs_rd s
      else d = be_data (ent s i) \<and> (\<forall>bn. on_disk bn \<longrightarrow> rd_block w bn = (if bn = blk then sector d else rd_block (bs_rd s) bn))"
    proof (cases rd)
      case True
      then have "d = (\<lambda>k. if k < 512 then bs_rd s pg (off + k) else b_data ?b k)" "w = bs_rd s"
        using c rd_copy_read[OF pl(1)] pl(2) by auto
      then show ?thesis using True by (simp add: rd_block_def sector_def pg_def off_def)
    next
      case False
      then have "d = b_data ?b" "w = (bs_rd s)(pg := (\<lambda>k. if off \<le> k \<and> k < off + 512 then b_data ?b (0 + (k - off)) else bs_rd s pg k))"
        using c rd_copy_write[OF pl(1), of pg 0 "b_data ?b" "bs_rd s"] False unfolding pl(2) by auto
      then show ?thesis using False rd_write_block[OF ok(3)] unfolding pg_def off_def by (simp add: ent_flags)
    qed
    then show ?thesis using True run tr
      by (intro exI[of _ ?t] exI[of _ "(ent s i)\<lparr>be_data := d\<rparr>"]) (simp split: if_splits)
  qed
qed

lemma sdstrategy_spec:
  "\<exists>t e. sdstrategy (Bufent i) s = iodone (Bufent i) t \<and> transferred i s t e \<and> bs_rd t = bs_rd s"
proof -
  let ?b = "bs_buf s (Bufent i)"
  define op where "op = (if bflag (Bufent i) B_READ s then SD_OP_READ else SD_OP_WRITE)"
  obtain r d v where q: "sdrequest op (to_u32 (b_blkno ?b)) (b_data ?b) s = (r, d, v)" by (metis prod_cases3)
  have ln: "only_line s v" by (rule sdrequest_line[OF q])
  have bv: "bs_buf v = bs_buf s" using ln by (simp add: only_line_def)
  define t0 where "t0 = upd_buf (Bufent i) (\<lambda>b. b\<lparr>b_resid := 0\<rparr>) (upd_buf (Bufent i) (\<lambda>b. b\<lparr>b_data := d\<rparr>) v)"
  have t0: "transferred i s t0 ((ent s i)\<lparr>be_data := d\<rparr>)"
    unfolding t0_def using ln by (intro transferred_data[where w = "bs_rd s"]) simp
  define t1 where "t1 = upd_buf (Bufent i) (\<lambda>b. b\<lparr>b_resid := 0\<rparr>) (set_bflags (Bufent i) B_ERROR (upd_buf (Bufent i) (\<lambda>b. b\<lparr>b_data := d\<rparr>) v))"
  have err: "transferred i s t1 ((ent s i)\<lparr>be_data := d, be_err := True\<rparr>)"
  proof -
    have "ent t1 = (ent s)(i := (ent s i)\<lparr>be_data := d, be_err := True\<rparr>)"
      by (rule ent_eqI) (auto simp add: t1_def set_bflags_def ent_def bent_of_def bv bit_or_iff flag_nonzero)
    then show ?thesis using ln by (simp add: transferred_def) (simp add: t1_def set_bflags_def links_def bflag_def bv only_line_def bit_or_iff)
  qed
  have rdt: "bs_rd t0 = bs_rd s" "bs_rd t1 = bs_rd s" using ln by (simp_all add: t0_def t1_def set_bflags_def only_line_def)
  show ?thesis
  proof (cases "minor (b_dev ?b) \<noteq> 0 \<or> b_blkno ?b < 0 \<or> b_blkno ?b \<ge> SD_NSECTORS \<or> b_bcount ?b \<noteq> int SD_SECTOR_SIZE")
    case True
    then have "sdstrategy (Bufent i) s = iodone (Bufent i) (set_bflags (Bufent i) B_ERROR s)"
      unfolding sdstrategy_def Let_def by simp
    then show ?thesis using transferred_error[of i s]
      by (intro exI[of _ "set_bflags (Bufent i) B_ERROR s"] exI[of _ "(ent s i)\<lparr>be_err := True\<rparr>"]) (simp add: set_bflags_def)
  next
    case False
    then have "sdstrategy (Bufent i) s = iodone (Bufent i) (if r < 0 then t1 else t0)"
      using q unfolding sdstrategy_def Let_def op_def[symmetric] if_not_P[OF False] by (simp add: t0_def t1_def)
    then show ?thesis using t0 err rdt by (cases "r < 0") auto
  qed
qed

text \<open>
  A strategy routine on a busy buffer of one of the two disks: the transfer is complete when it returns, and the buffer of an
  asynchronous one has been released.
\<close>

definition released :: "bent \<Rightarrow> bent" where
  "released e = e\<lparr>be_dev := (if be_err e then NODEV else be_dev e), be_busy := False, be_async := False\<rparr>"

lemma transferred_lists: "\<lbrakk>transferred i s t e; pool_lists s A D\<rbrakk> \<Longrightarrow> pool_lists t A D"
  by (subst pool_lists_cong[where s = s]) (auto simp add: transferred_def)

lemma d_strategy_spec:
  assumes w: "pool_lists s A D" "sched_wf (bs_kern s)" and i: "i < NBUF" "be_busy (ent s i)"
    and m: "major (be_dev (ent s i)) \<in> {0, 1}" and n: "b_bcount (bs_buf s (Bufent i)) = 512"
  defines "rd \<equiv> bflag (Bufent i) B_READ s" and "async \<equiv> bflag (Bufent i) B_ASYNC s" and "blk \<equiv> be_blk (ent s i)"
  shows "\<exists>s' A' e. d_strategy (Bufent i) s = Inr s' \<and> pool_lists s' A' D \<and> settled s s' \<and>
    (if async then A' \<in> {Bufent i # A, A @ [Bufent i]} else A' = A) \<and>
    ent s' = (ent s)(i := if async then released e else e) \<and>
    be_dev e = be_dev (ent s i) \<and> be_blk e = blk \<and> be_delwri e = be_delwri (ent s i) \<and> be_busy e \<and> be_done e \<and> be_async e = async \<and>
    (if be_dev (ent s i) = 0 \<and> on_disk blk then
       be_err e = be_err (ent s i) \<and>
       (if rd then sector (be_data e) = rd_block (bs_rd s) blk \<and> bs_rd s' = bs_rd s
        else be_data e = be_data (ent s i) \<and>
          (\<forall>bn. on_disk bn \<longrightarrow> rd_block (bs_rd s') bn = (if bn = blk then sector (be_data e) else rd_block (bs_rd s) bn)))
     else bs_rd s' = bs_rd s)"
proof -
  have "\<exists>t e. d_strategy (Bufent i) s = iodone (Bufent i) t \<and> transferred i s t e \<and>
    (if be_dev (ent s i) = 0 \<and> on_disk blk then
       be_err e = be_err (ent s i) \<and>
       (if rd then sector (be_data e) = rd_block (bs_rd s) blk \<and> bs_rd t = bs_rd s
        else be_data e = be_data (ent s i) \<and>
          (\<forall>bn. on_disk bn \<longrightarrow> rd_block (bs_rd t) bn = (if bn = blk then sector (be_data e) else rd_block (bs_rd s) bn)))
     else bs_rd t = bs_rd s)"
  proof (cases "major (be_dev (ent s i)) = 0")
    case True
    then have run: "d_strategy (Bufent i) s = rdstrategy (Bufent i) s" by (simp add: d_strategy_def ent_flags)
    show ?thesis unfolding run using rdstrategy_spec[OF True n] unfolding rd_def blk_def by (auto split: if_splits)
  next
    case False
    then have run: "d_strategy (Bufent i) s = sdstrategy (Bufent i) s" using m by (simp add: d_strategy_def ent_flags)
    have "be_dev (ent s i) \<noteq> 0" using False by (auto simp add: major_def)
    then show ?thesis unfolding run using sdstrategy_spec[of i s] by simp
  qed
  then obtain t e where t: "d_strategy (Bufent i) s = iodone (Bufent i) t" "transferred i s t e"
      and r: "if be_dev (ent s i) = 0 \<and> on_disk blk then
       be_err e = be_err (ent s i) \<and>
       (if rd then sector (be_data e) = rd_block (bs_rd s) blk \<and> bs_rd t = bs_rd s
        else be_data e = be_data (ent s i) \<and>
          (\<forall>bn. on_disk bn \<longrightarrow> rd_block (bs_rd t) bn = (if bn = blk then sector (be_data e) else rd_block (bs_rd s) bn)))
     else bs_rd t = bs_rd s" by blast
  have et: "ent t = (ent s)(i := e)" "bflag (Bufent i) B_ASYNC t = async" "bs_kern t = bs_kern s" "be_busy (ent t i)"
    using t(2) i by (auto simp add: transferred_def async_def)
  have ea: "be_async e = async" using t(2) by (simp add: transferred_def async_def bflag_def ent_flags)
  have st: "settled s t" using t(2) w(2) by (simp add: settled_def transferred_def only_sched_refl)
  obtain s' A' where d: "iodone (Bufent i) t = Inr s'" "pool_lists s' A' D" "settled t s'" "bs_rd s' = bs_rd t"
      "if async then A' \<in> {Bufent i # A, A @ [Bufent i]} else A' = A"
      "ent s' = (ent t)(i := if async then released ((ent t i)\<lparr>be_done := True\<rparr>) else (ent t i)\<lparr>be_done := True\<rparr>)"
    using iodone_spec[OF transferred_lists[OF t(2) w(1)] _ i(1) et(4)] w(2) unfolding et(2,3) released_def by auto
  show ?thesis
    by (intro exI[of _ s'] exI[of _ A'] exI[of _ "e\<lparr>be_done := True\<rparr>"] conjI)
      (use t d r et ea i settled_trans[OF st d(3)] in \<open>auto simp add: transferred_def blk_def split: if_splits\<close>)
qed

end
