(* ===== verification/Buffer_Cache.thy ===== *)
theory Buffer_Cache
  imports Disk_Drivers
begin

text \<open>
  The buffer cache, \<open>dev/bio.c\<close>, and its initialization in \<open>sys/main.c\<close>. A lookup that sleeps starts again; a lookup or a flush that
  writes out a delayed buffer starts again too.
\<close>

section \<open>Sleeping\<close>

text \<open>\<open>sleep\<close> at a priority that signals do not interrupt, as in \<open>Process_Sched.sleep\<close>, on the larger state.\<close>

definition bswtch :: "(bio, unit) kern" where
  "bswtch = (\<lambda>es s.
     case swtch_pick (bs_kern s) of
       Inl msg \<Rightarrow> Panic msg s
     | Inr (None, k) \<Rightarrow> Ret () es (s\<lparr>bs_kern := k\<rparr>)
     | Inr (Some p, k) \<Rightarrow>
         if p = procp (bs_kern s) then Ret () es (s\<lparr>bs_kern := k\<rparr>) else kyield es (s\<lparr>bs_kern := k\<rparr>))"

definition bsleep :: "bref \<Rightarrow> int \<Rightarrow> (bio, unit) kern" where
  "bsleep r pri = kthen (kmod (\<lambda>s. s\<lparr>bs_kern := sleep_enter (Ch_buf r) pri (bs_kern s)\<rparr>)) bswtch"

definition iowait :: "bref \<Rightarrow> (bio, unit) kern" where
  "iowait bp =
    kthen (ksleep_while (\<lambda>s. \<not> bflag bp B_DONE s) (bsleep bp PRIBIO)) (kmod (geterror bp))"

section \<open>Writing\<close>

definition bwrite :: "bref \<Rightarrow> (bio, unit) kern" where
  "bwrite bp =
    kbind (kget (\<lambda>s. b_flags (bs_buf s bp))) (\<lambda>flag.
    kthen (kmod (clr_bflags bp (B_READ OR B_DONE OR B_ERROR OR B_DELWRI OR B_AGE)))
    (kthen (kmod (upd_buf bp (\<lambda>b. b\<lparr>b_bcount := 512\<rparr>)))
    (kthen (kmod (\<lambda>s. s\<lparr>bs_info := (bs_info s)\<lparr>io_nwrite := to_i32 (io_nwrite (bs_info s) + 1)\<rparr>\<rparr>))
    (kthen (kpure (d_strategy bp))
      (if flag AND B_ASYNC = 0 then kthen (iowait bp) (kpure (brelse bp))
       else if flag AND B_DELWRI \<noteq> 0 then kmod (set_bflags bp B_AGE)
       else kmod (geterror bp))))))"

definition bawrite :: "bref \<Rightarrow> (bio, unit) kern" where
  "bawrite bp = kthen (kmod (set_bflags bp B_ASYNC)) (bwrite bp)"

definition bdwrite :: "bref \<Rightarrow> (bio, unit) kern" where
  "bdwrite bp =
    kbind (kget (\<lambda>s. d_tab (major (b_dev (bs_buf s bp))))) (\<lambda>t.
      case t of
        None \<Rightarrow> kpanic ''d_tab''
      | Some dp \<Rightarrow>
          kif (bflag dp B_TAPE) (bawrite bp)
            (kthen (kmod (set_bflags bp (B_DELWRI OR B_DONE))) (kpure (brelse bp))))"

section \<open>Lookup\<close>

text \<open>The loop along \<open>b_forw\<close> of \<open>incore\<close> and \<open>getblk\<close>: the buffer of the block, if it has one.\<close>

fun find_blk :: "nat \<Rightarrow> bref \<Rightarrow> int \<Rightarrow> int \<Rightarrow> bio \<Rightarrow> bref \<Rightarrow> bref option" where
  "find_blk 0 dp dev blkno s bp = None"
| "find_blk (Suc n) dp dev blkno s bp =
    (if bp = dp then None
     else if b_blkno (bs_buf s bp) = blkno \<and> b_dev (bs_buf s bp) = dev then Some bp
     else find_blk n dp dev blkno s (b_forw (bs_buf s bp)))"

definition lookup_blk :: "bref \<Rightarrow> int \<Rightarrow> int \<Rightarrow> bio \<Rightarrow> bref option" where
  "lookup_blk dp dev blkno s = find_blk (Suc NBUF) dp dev blkno s (b_forw (bs_buf s dp))"

definition incore :: "int \<Rightarrow> int \<Rightarrow> (bio, bool) kern" where
  "incore dev blkno =
    (case d_tab (major dev) of
       None \<Rightarrow> kpanic ''d_tab''
     | Some dp \<Rightarrow> kget (\<lambda>s. lookup_blk dp dev blkno s \<noteq> None))"

text \<open>The statistics of a hit: how far the buffer was from the end of the available list.\<close>

fun av_distance :: "nat \<Rightarrow> bio \<Rightarrow> bref \<Rightarrow> nat" where
  "av_distance 0 s dp = 0"
| "av_distance (Suc n) s dp = (if dp = Bfreelist then 0 else Suc (av_distance n s (av_forw (bs_buf s dp))))"

definition count_hit :: "bref \<Rightarrow> bio \<Rightarrow> bio" where
  "count_hit bp s =
    (let i = av_distance (Suc NBUF) s (av_forw (bs_buf s bp))
     in if i < NBUF
        then s\<lparr>bs_info := (bs_info s)\<lparr>io_bufcount := (io_bufcount (bs_info s))(i := to_i32 (io_bufcount (bs_info s) i + 1))\<rparr>\<rparr>
        else s)"

text \<open>A free buffer moves to the list of \<open>dp\<close>.\<close>

definition rehome :: "bref \<Rightarrow> bref \<Rightarrow> bio \<Rightarrow> bio" where
  "rehome dp bp s = b_link dp bp (b_unlink bp (upd_buf bp (\<lambda>b. b\<lparr>b_flags := B_BUSY\<rparr>) s))"

primrec getblk_loop :: "nat \<Rightarrow> bref \<Rightarrow> int \<Rightarrow> int \<Rightarrow> (bio, bref) kern" where
  "getblk_loop 0 dp dev blkno = (\<lambda>es s. Blocked s)"
| "getblk_loop (Suc n) dp dev blkno =
    kbind (kget (lookup_blk dp dev blkno)) (\<lambda>r.
      case r of
        Some bp \<Rightarrow>
          kif (bflag bp B_BUSY)
            (kthen (kmod (set_bflags bp B_WANTED))
            (kthen (bsleep bp (PRIBIO + 1)) (getblk_loop n dp dev blkno)))
            (kthen (kmod (count_hit bp)) (kthen (kmod (notavail bp)) (kret bp)))
      | None \<Rightarrow>
          kbind (kget (\<lambda>s. av_forw (bs_buf s Bfreelist))) (\<lambda>bp.
            if bp = Bfreelist then
              kthen (kmod (set_bflags Bfreelist B_WANTED))
              (kthen (bsleep Bfreelist (PRIBIO + 1)) (getblk_loop n dp dev blkno))
            else
              kthen (kmod (notavail bp))
              (kif (bflag bp B_DELWRI)
                (kthen (kmod (set_bflags bp B_ASYNC)) (kthen (bwrite bp) (getblk_loop n dp dev blkno)))
                (kthen (kmod (\<lambda>s. upd_buf bp (\<lambda>b. b\<lparr>b_dev := dev, b_blkno := blkno\<rparr>) (rehome dp bp s))) (kret bp)))))"

definition getblk :: "int \<Rightarrow> int \<Rightarrow> (bio, bref) kern" where
  "getblk dev blkno = (\<lambda>es s.
    if major dev \<ge> k_nblkdev (bs_kern s) then Panic ''blkdev'' s
    else case d_tab (major dev) of
           None \<Rightarrow> Panic ''devtab'' s
         | Some dp \<Rightarrow> getblk_loop (Suc NBUF * Suc (length es)) dp dev blkno es s)"

primrec geteblk_loop :: "nat \<Rightarrow> (bio, bref) kern" where
  "geteblk_loop 0 = (\<lambda>es s. Blocked s)"
| "geteblk_loop (Suc n) =
    kthen (ksleep_while (\<lambda>s. av_forw (bs_buf s Bfreelist) = Bfreelist)
            (kthen (kmod (set_bflags Bfreelist B_WANTED)) (bsleep Bfreelist (PRIBIO + 1))))
    (kbind (kget (\<lambda>s. av_forw (bs_buf s Bfreelist))) (\<lambda>bp.
      kthen (kmod (notavail bp))
      (kif (bflag bp B_DELWRI)
        (kthen (kmod (set_bflags bp B_ASYNC)) (kthen (bwrite bp) (geteblk_loop n)))
        (kthen (kmod (\<lambda>s. upd_buf bp (\<lambda>b. b\<lparr>b_dev := NODEV\<rparr>) (rehome Bfreelist bp s))) (kret bp)))))"

definition geteblk :: "(bio, bref) kern" where
  "geteblk = (\<lambda>es s. geteblk_loop (Suc NBUF * Suc (length es)) es s)"

section \<open>Reading\<close>

definition count_io :: "(io_info \<Rightarrow> io_info) \<Rightarrow> (bio, unit) kern" where
  "count_io f = kmod (\<lambda>s. s\<lparr>bs_info := f (bs_info s)\<rparr>)"

definition start_read :: "bref \<Rightarrow> 32 word \<Rightarrow> (io_info \<Rightarrow> io_info) \<Rightarrow> (bio, unit) kern" where
  "start_read bp fl f =
    kthen (kmod (set_bflags bp fl))
    (kthen (kmod (upd_buf bp (\<lambda>b. b\<lparr>b_bcount := 512\<rparr>)))
    (kthen (kpure (d_strategy bp)) (count_io f)))"

definition bread :: "int \<Rightarrow> int \<Rightarrow> (bio, bref) kern" where
  "bread dev blkno =
    kbind (getblk dev blkno) (\<lambda>bp.
      kif (bflag bp B_DONE)
        (kthen (count_io (\<lambda>i. i\<lparr>io_ncache := to_i32 (io_ncache i + 1)\<rparr>)) (kret bp))
        (kthen (start_read bp B_READ (\<lambda>i. i\<lparr>io_nread := to_i32 (io_nread i + 1)\<rparr>))
        (kthen (iowait bp) (kret bp))))"

definition breada_first :: "int \<Rightarrow> int \<Rightarrow> (bio, bref option) kern" where
  "breada_first dev blkno =
    kbind (incore dev blkno) (\<lambda>c.
      if c then kret None
      else kbind (getblk dev blkno) (\<lambda>bp.
             kthen (kwhen (\<lambda>s. \<not> bflag bp B_DONE s) (start_read bp B_READ (\<lambda>i. i\<lparr>io_nread := to_i32 (io_nread i + 1)\<rparr>)))
               (kret (Some bp))))"

definition breada_ahead :: "int \<Rightarrow> int \<Rightarrow> (bio, unit) kern" where
  "breada_ahead dev rablkno =
    (if rablkno = 0 then kret ()
     else kbind (incore dev rablkno) (\<lambda>c.
       if c then kret ()
       else kbind (getblk dev rablkno) (\<lambda>rabp.
              kif (bflag rabp B_DONE) (kpure (brelse rabp))
                (start_read rabp (B_READ OR B_ASYNC) (\<lambda>i. i\<lparr>io_nreada := to_i32 (io_nreada i + 1)\<rparr>)))))"

definition breada :: "int \<Rightarrow> int \<Rightarrow> int \<Rightarrow> (bio, bref) kern" where
  "breada dev blkno rablkno =
    kbind (breada_first dev blkno) (\<lambda>r.
    kthen (breada_ahead dev rablkno)
      (case r of None \<Rightarrow> bread dev blkno | Some bp \<Rightarrow> kthen (iowait bp) (kret bp)))"

section \<open>Flushing\<close>

fun find_delwri :: "nat \<Rightarrow> int \<Rightarrow> bio \<Rightarrow> bref \<Rightarrow> bref option" where
  "find_delwri 0 dev s bp = None"
| "find_delwri (Suc n) dev s bp =
    (if bp = Bfreelist then None
     else if bflag bp B_DELWRI s \<and> (dev = NODEV \<or> dev = b_dev (bs_buf s bp)) then Some bp
     else find_delwri n dev s (av_forw (bs_buf s bp)))"

primrec bflush_loop :: "nat \<Rightarrow> int \<Rightarrow> (bio, unit) kern" where
  "bflush_loop 0 dev = (\<lambda>es s. Blocked s)"
| "bflush_loop (Suc n) dev =
    kbind (kget (\<lambda>s. find_delwri (Suc NBUF) dev s (av_forw (bs_buf s Bfreelist)))) (\<lambda>r.
      case r of
        None \<Rightarrow> kret ()
      | Some bp \<Rightarrow>
          kthen (kmod (set_bflags bp B_ASYNC)) (kthen (kmod (notavail bp)) (kthen (bwrite bp) (bflush_loop n dev))))"

definition bflush :: "int \<Rightarrow> (bio, unit) kern" where
  "bflush dev = bflush_loop (Suc NBUF) dev"

section \<open>Initialization\<close>

definition binit_buf :: "bref \<Rightarrow> bio \<Rightarrow> string + bio" where
  "binit_buf bp s =
    (let s = upd_buf bp (\<lambda>b. b\<lparr>b_dev := NODEV\<rparr>) s;
         s = upd_buf bp (\<lambda>b. b\<lparr>b_back := Bfreelist\<rparr>) s;
         s = upd_buf bp (\<lambda>b. b\<lparr>b_forw := b_forw (bs_buf s Bfreelist)\<rparr>) s;
         s = upd_buf (b_forw (bs_buf s Bfreelist)) (\<lambda>b. b\<lparr>b_back := bp\<rparr>) s;
         s = upd_buf Bfreelist (\<lambda>b. b\<lparr>b_forw := bp\<rparr>) s;
         s = upd_buf bp (\<lambda>b. b\<lparr>b_flags := B_BUSY\<rparr>) s
     in brelse bp s)"

text \<open>One turn of the loop over \<open>bdevsw\<close>, which has nine entries.\<close>

definition binit_dev :: "int \<Rightarrow> bio \<Rightarrow> bio" where
  "binit_dev m s =
    (let s = (case d_tab m of
                None \<Rightarrow> s
              | Some dp \<Rightarrow> upd_buf dp (\<lambda>b. b\<lparr>b_forw := dp, b_back := dp\<rparr>) s)
     in s\<lparr>bs_kern := (bs_kern s)\<lparr>k_nblkdev := to_i32 (k_nblkdev (bs_kern s) + 1)\<rparr>\<rparr>)"

definition binit :: "bio \<Rightarrow> string + bio" where
  "binit s =
    sbind (sfor (\<lambda>i. binit_buf (Bufent i)) [0 ..< NBUF]
            (upd_buf Bfreelist (\<lambda>b. b\<lparr>b_forw := Bfreelist, b_back := Bfreelist, av_forw := Bfreelist, av_back := Bfreelist\<rparr>) s))
      (\<lambda>s. Inr (fold binit_dev [0 .. 8] s))"

section \<open>Moving a buffer between the lists\<close>

definition all_rings :: "(bref \<Rightarrow> bref) \<Rightarrow> (bref \<Rightarrow> bref) \<Rightarrow> (bref \<Rightarrow> bref list) \<Rightarrow> bool" where
  "all_rings f g D \<longleftrightarrow>
    (\<forall>t \<in> heads. ring f g t (D t)) \<and> (\<forall>t \<in> heads. set (D t) \<inter> heads = {}) \<and>
    (\<forall>t \<in> heads. \<forall>t' \<in> heads. t \<noteq> t' \<longrightarrow> set (D t) \<inter> set (D t') = {})"

lemma ring_links_in: "\<lbrakk>ring f g h xs; x \<in> set xs\<rbrakk> \<Longrightarrow> f x \<in> set (h # xs) \<and> g x \<in> set (h # xs)"
proof -
  assume r: "ring f g h xs" and "x \<in> set xs"
  then obtain as bs where xs: "xs = as @ x # bs" by (auto dest: split_list)
  note nb = ring_neighbours[OF r[unfolded xs]]
  have "last (h # as) \<in> set (h # as)" "hd (bs @ [h]) \<in> set (bs @ [h])" by (rule last_in_set hd_in_set; simp)+
  then show ?thesis unfolding nb xs by auto
qed

lemma all_rings_remove:
  assumes a: "all_rings f g D" and t: "t \<in> heads" "x \<in> set (D t)"
  shows "all_rings (f(g x := f x)) (g(f x := g x)) (D(t := remove1 x (D t)))"
proof -
  let ?D = "D(t := remove1 x (D t))"
  have r: "ring f g t (D t)" and h: "\<And>t. t \<in> heads \<Longrightarrow> set (D t) \<inter> heads = {}"
    and d: "\<And>t t'. \<lbrakk>t \<in> heads; t' \<in> heads; t \<noteq> t'\<rbrakk> \<Longrightarrow> set (D t) \<inter> set (D t') = {}"
    using a t by (auto simp add: all_rings_def)
  have nb: "f x \<in> set (t # D t)" "g x \<in> set (t # D t)" using ring_links_in[OF r t(2)] by blast+
  have sub: "set (?D v) \<subseteq> set (D v)" for v using set_remove1_subset[of x "D t"] by simp
  have "ring (f(g x := f x)) (g(f x := g x)) v (?D v)" if v: "v \<in> heads" for v
  proof (cases "v = t")
    case True
    then show ?thesis using ring_remove1[OF r t(2)] by simp
  next
    case False
    have rv: "ring f g v (D v)" using a v by (simp add: all_rings_def)
    have "y \<noteq> g x \<and> y \<noteq> f x" if "y \<in> set (v # D v)" for y
      using that nb d[OF v t(1) False] h[OF v] h[OF t(1)] v t(1) False by auto
    then show ?thesis using False ring_cong[OF rv] by simp
  qed
  then show ?thesis unfolding all_rings_def using h d sub by (meson disjoint_iff subsetD)
qed

lemma all_rings_push:
  assumes a: "all_rings f g D" and t: "t \<in> heads" and x: "x \<notin> heads" "\<And>v. v \<in> heads \<Longrightarrow> x \<notin> set (D v)"
  shows "all_rings (f(x := f t, t := x)) (g(f t := x, x := t)) (D(t := x # D t))"
proof -
  let ?D = "D(t := x # D t)"
  have r: "ring f g t (D t)" and h: "\<And>t. t \<in> heads \<Longrightarrow> set (D t) \<inter> heads = {}"
    and d: "\<And>t t'. \<lbrakk>t \<in> heads; t' \<in> heads; t \<noteq> t'\<rbrakk> \<Longrightarrow> set (D t) \<inter> set (D t') = {}"
    using a t by (auto simp add: all_rings_def)
  have nb: "f t \<in> set (t # D t)" using ring_next(1)[OF r] by (cases "D t") simp_all
  have "ring (f(x := f t, t := x)) (g(f t := x, x := t)) v (?D v)" if v: "v \<in> heads" for v
  proof (cases "v = t")
    case True
    have "x \<notin> set (t # D t)" using x(1) x(2)[OF t] t by auto
    from ring_push[OF r this] show ?thesis unfolding True by (simp del: fun_upd_apply add: fun_upd_same)
  next
    case False
    have rv: "ring f g v (D v)" using a v by (simp add: all_rings_def)
    have "y \<noteq> x \<and> y \<noteq> t \<and> y \<noteq> f t" if "y \<in> set (v # D v)" for y
      using that nb d[OF v t False] h[OF v] h[OF t] v t False x(1) x(2)[OF v] by auto
    then show ?thesis using False ring_cong[OF rv] by simp
  qed
  moreover have "set (?D v) \<inter> heads = {}" if "v \<in> heads" for v using h[OF that] x(1) by auto
  moreover have "set (?D v) \<inter> set (?D v') = {}" if "v \<in> heads" "v' \<in> heads" "v \<noteq> v'" for v v'
    using d[OF that] x(2)[OF that(1)] x(2)[OF that(2)] that(3) by auto
  ultimately show ?thesis unfolding all_rings_def by blast
qed

lemma pool_all_rings: "pool_lists s A D \<Longrightarrow> all_rings (bfw s) (bbk s) D"
proof -
  assume w: "pool_lists s A D"
  have "set (D t) \<inter> heads = {}" if "t \<in> heads" for t
    using pool_not_head[OF w that] by (fastforce simp add: heads_def)
  then show ?thesis using w by (simp add: pool_lists_def all_rings_def)
qed

text \<open>A busy buffer moves to the list of a driver, or of \<open>bfreelist\<close> itself.\<close>

definition moved :: "bref \<Rightarrow> bref \<Rightarrow> (bref \<Rightarrow> bref list) \<Rightarrow> bref \<Rightarrow> bref list" where
  "moved dp bp D = (let D = (\<lambda>t. remove1 bp (D t)) in D(dp := bp # D dp))"

lemma rehome_spec:
  assumes w: "pool_lists s A D" and i: "i < NBUF" "be_busy (ent s i)" and dp: "dp \<in> heads"
  shows "pool_lists (rehome dp (Bufent i) s) A (moved dp (Bufent i) D)"
    and "ent (rehome dp (Bufent i) s) =
      (ent s)(i := (ent s i)\<lparr>be_done := False, be_delwri := False, be_busy := True, be_err := False, be_async := False\<rparr>)"
    and "outside (rehome dp (Bufent i) s) = outside s"
    and "b_flags (bs_buf (rehome dp (Bufent i) s) (Devtab m)) = b_flags (bs_buf s (Devtab m))"
proof -
  let ?bp = "Bufent i"
  define t where "t = upd_buf ?bp (\<lambda>b. b\<lparr>b_flags := B_BUSY\<rparr>) s"
  define v where "v = b_unlink ?bp t"
  define z where "z = b_link dp ?bp v"
  have z: "rehome dp ?bp s = z" by (simp add: rehome_def z_def v_def t_def)
  have et: "ent t = (ent s)(i := (ent s i)\<lparr>be_done := False, be_delwri := False, be_busy := True, be_err := False, be_async := False\<rparr>)"
    unfolding t_def ent_upd_buf bent_clr_flags by (simp add: ent_def)
  have ez: "ent z = ent t" by (simp add: z_def v_def link_ent)
  then show "ent (rehome dp ?bp s) = (ent s)(i := (ent s i)\<lparr>be_done := False, be_delwri := False, be_busy := True, be_err := False, be_async := False\<rparr>)"
    by (simp add: z et)
  show "outside (rehome dp ?bp s) = outside s" by (simp add: z z_def v_def t_def link_outside)
  show "b_flags (bs_buf (rehome dp ?bp s) (Devtab m)) = b_flags (bs_buf s (Devtab m))"
    by (simp add: z z_def v_def payload_flags[OF link_payload(5)] payload_flags[OF link_payload(4)] t_def)
  have wt: "pool_lists t A D" using w by (subst pool_lists_cong[where s = s]) (auto simp add: et i, simp add: t_def links_def)
  have u: "(\<Union>t \<in> heads. set (D t)) = Bufent ` {..< NBUF}"
    and dj: "\<And>t t'. \<lbrakk>t \<in> heads; t' \<in> heads; t \<noteq> t'\<rbrakk> \<Longrightarrow> set (D t) \<inter> set (D t') = {}"
    using w by (auto simp add: pool_lists_def)
  obtain h where h: "h \<in> heads" "?bp \<in> set (D h)" using u i(1) by (metis UN_E image_eqI lessThan_iff)
  define D1 where "D1 = D(h := remove1 ?bp (D h))"
  have D1: "D1 = (\<lambda>t. if t \<in> heads then remove1 ?bp (D t) else D1 t)"
  proof (rule ext)
    fix t show "D1 t = (if t \<in> heads then remove1 ?bp (D t) else D1 t)"
    proof (cases "t = h \<or> t \<notin> heads")
      case False
      then have "?bp \<notin> set (D t)" using dj[OF h(1), of t] h by blast
      then show ?thesis using False by (simp add: D1_def remove1_idem)
    qed (auto simp add: D1_def h)
  qed
  have dist: "distinct (D t)" if "t \<in> heads" for t using w that by (auto simp add: pool_lists_def ring_def)
  have av: "all_rings (bfw v) (bbk v) D1"
    unfolding v_def b_unlink_links D1_def using pool_all_rings[OF wt] h by (rule all_rings_remove)
  have gone: "?bp \<notin> set (D1 t)" if "t \<in> heads" for t
    using that dist[OF that] by (subst D1) (simp add: set_remove1_eq)
  have hd: "?bp \<notin> heads" by (simp add: heads_def)
  have nf: "bfw v dp \<noteq> ?bp" using ring_next(1)[of "bfw v" "bbk v" dp "D1 dp"] av dp gone[OF dp] hd
    by (cases "D1 dp") (auto simp add: all_rings_def)
  have "all_rings (bfw z) (bbk z) (D1(dp := ?bp # D1 dp))"
    unfolding z_def using b_link_links[OF _ nf] hd dp all_rings_push[OF av dp hd gone] by metis
  moreover have same: "t \<in> heads \<Longrightarrow> (D1(dp := ?bp # D1 dp)) t = moved dp ?bp D t" for t
    using dp by (subst (1 2) D1) (simp add: moved_def Let_def)
  ultimately have az: "all_rings (bfw z) (bbk z) (moved dp ?bp D)" by (simp add: all_rings_def)
  have lz: "avf z = avf t" "avb z = avb t" by (simp_all add: z_def v_def link_other)
  have "(\<Union>t \<in> heads. set (moved dp ?bp D t)) = Bufent ` {..< NBUF}"
  proof -
    have m: "x \<in> set (moved dp ?bp D t) \<longleftrightarrow> x = ?bp \<and> t = dp \<or> x \<in> set (D t) \<and> x \<noteq> ?bp" if "t \<in> heads" for t x
      using dist[OF that] dist[OF dp] by (auto simp add: moved_def Let_def set_remove1_eq)
    have "(\<Union>t \<in> heads. set (moved dp ?bp D t)) = insert ?bp ((\<Union>t \<in> heads. set (D t)) - {?bp})"
    proof (rule set_eqI)
      fix x
      show "x \<in> (\<Union>t \<in> heads. set (moved dp ?bp D t)) \<longleftrightarrow> x \<in> insert ?bp ((\<Union>t \<in> heads. set (D t)) - {?bp})"
        using dp m[of _ x] by (cases "x = ?bp") (blast, simp)
    qed
    then show ?thesis unfolding u using i(1) by auto
  qed
  then show "pool_lists (rehome dp ?bp s) A (moved dp ?bp D)"
    using wt az unfolding z pool_lists_def lz by (simp add: all_rings_def ez)
qed

section \<open>The cache as a store of blocks\<close>

text \<open>
  \<open>entries_ok\<close>: a buffer that belongs to a block is on the list of its driver, no block has two buffers, a delayed write is complete and
  free of errors, and a released buffer with an error belongs to no block.
\<close>

definition entries_ok :: "(nat \<Rightarrow> bent) \<Rightarrow> (bref \<Rightarrow> bref list) \<Rightarrow> bool" where
  "entries_ok e D \<longleftrightarrow>
    (\<forall>i < NBUF. be_dev (e i) \<noteq> NODEV \<longrightarrow> major (be_dev (e i)) \<in> {0, 1} \<and> Bufent i \<in> set (D (Devtab (nat (major (be_dev (e i))))))) \<and>
    (\<forall>i < NBUF. \<forall>j < NBUF. be_dev (e i) \<noteq> NODEV \<and> be_dev (e i) = be_dev (e j) \<and> be_blk (e i) = be_blk (e j) \<longrightarrow> i = j) \<and>
    (\<forall>i < NBUF. be_delwri (e i) \<longrightarrow> be_done (e i) \<and> be_dev (e i) \<noteq> NODEV \<and> \<not> be_err (e i)) \<and>
    (\<forall>i < NBUF. \<not> be_busy (e i) \<longrightarrow> \<not> be_async (e i) \<and> (be_err (e i) \<longrightarrow> be_dev (e i) = NODEV))"

definition cache_ok :: "bio \<Rightarrow> bref list \<Rightarrow> (bref \<Rightarrow> bref list) \<Rightarrow> bool" where
  "cache_ok s A D \<longleftrightarrow> pool_lists s A D \<and> entries_ok (ent s) D \<and> sched_wf (bs_kern s) \<and>
    (\<forall>m. \<not> bflag (Devtab m) B_TAPE s) \<and> k_nblkdev (bs_kern s) = 9"

text \<open>A clean buffer that nobody uses shows what is on the disk.\<close>

definition clean_ok :: "(nat \<Rightarrow> bent) \<Rightarrow> (nat \<Rightarrow> nat \<Rightarrow> 8 word) \<Rightarrow> bool" where
  "clean_ok e w \<longleftrightarrow>
    (\<forall>i < NBUF. be_dev (e i) = 0 \<and> on_disk (be_blk (e i)) \<and> be_done (e i) \<and> \<not> be_delwri (e i) \<and> \<not> be_busy (e i) \<longrightarrow>
      sector (be_data (e i)) = rd_block w (be_blk (e i)))"

text \<open>The contents of block \<open>bn\<close> of the RAM disk as the kernel sees them: the valid buffer if there is one, else the disk.\<close>

definition contents_of :: "(nat \<Rightarrow> bent) \<Rightarrow> (nat \<Rightarrow> nat \<Rightarrow> 8 word) \<Rightarrow> int \<Rightarrow> 8 word list" where
  "contents_of e w bn =
    (case first_index NBUF (\<lambda>i. be_dev (e i) = 0 \<and> be_blk (e i) = bn \<and> be_done (e i)) of
       Some i \<Rightarrow> sector (be_data (e i))
     | None \<Rightarrow> rd_block w bn)"

abbreviation contents :: "bio \<Rightarrow> int \<Rightarrow> 8 word list" where
  "contents s \<equiv> contents_of (ent s) (bs_rd s)"

definition cache_inv :: "bio \<Rightarrow> bool" where
  "cache_inv s \<longleftrightarrow> (\<exists>A D. cache_ok s A D) \<and> clean_ok (ent s) (bs_rd s)"

lemma entries_okD:
  assumes "entries_ok e D" "i < NBUF"
  shows "be_dev (e i) \<noteq> NODEV \<Longrightarrow> major (be_dev (e i)) \<in> {0, 1} \<and> Bufent i \<in> set (D (Devtab (nat (major (be_dev (e i))))))"
    and "\<lbrakk>j < NBUF; be_dev (e i) \<noteq> NODEV; be_dev (e i) = be_dev (e j); be_blk (e i) = be_blk (e j)\<rbrakk> \<Longrightarrow> i = j"
    and "be_delwri (e i) \<Longrightarrow> be_done (e i) \<and> be_dev (e i) \<noteq> NODEV \<and> \<not> be_err (e i)"
    and "\<not> be_busy (e i) \<Longrightarrow> \<not> be_async (e i) \<and> (be_err (e i) \<longrightarrow> be_dev (e i) = NODEV)"
  using assms unfolding entries_ok_def by blast+

lemma NODEV_neq: "NODEV \<noteq> 0" "major NODEV = 255" by (simp_all add: NODEV_def major_def)

lemma contents_held:
  assumes "entries_ok e D" "i < NBUF" "be_dev (e i) = 0" "be_done (e i)"
  shows "contents_of e w (be_blk (e i)) = sector (be_data (e i))"
proof -
  have "j = i" if "j < NBUF" "be_dev (e j) = 0" "be_blk (e j) = be_blk (e i)" for j
    using entries_okD(2)[OF assms(1) that(1) assms(2)] that assms(3) NODEV_neq(1) by simp
  then have "first_index NBUF (\<lambda>j. be_dev (e j) = 0 \<and> be_blk (e j) = be_blk (e i) \<and> be_done (e j)) = Some i"
    unfolding first_index_Some using assms by (metis nat_neq_iff order.strict_trans)
  then show ?thesis by (simp add: contents_of_def)
qed

lemma contents_disk:
  assumes "\<And>i. \<lbrakk>i < NBUF; be_dev (e i) = 0; be_blk (e i) = bn\<rbrakk> \<Longrightarrow> \<not> be_done (e i)"
  shows "contents_of e w bn = rd_block w bn"
proof -
  have "first_index NBUF (\<lambda>i. be_dev (e i) = 0 \<and> be_blk (e i) = bn \<and> be_done (e i)) = None"
    using assms by (auto simp add: first_index_None)
  then show ?thesis by (simp add: contents_of_def)
qed

text \<open>A change of one entry and of the disk is invisible to every block that neither concerns.\<close>

lemma contents_upd_other:
  assumes "be_dev (e i) = 0 \<Longrightarrow> be_done (e i) \<Longrightarrow> be_blk (e i) \<noteq> bn" "be_dev x = 0 \<Longrightarrow> be_done x \<Longrightarrow> be_blk x \<noteq> bn"
    and "rd_block w' bn = rd_block w bn"
  shows "contents_of (e(i := x)) w' bn = contents_of e w bn"
proof -
  let ?P = "\<lambda>e j. be_dev (e j) = 0 \<and> be_blk (e j) = bn \<and> be_done (e j)"
  have "?P (e(i := x)) = ?P e" using assms(1,2) by (auto simp add: fun_eq_iff)
  moreover have "first_index NBUF (?P e) = Some j \<Longrightarrow> j \<noteq> i" for j using assms(1) by (auto simp add: first_index_Some)
  ultimately show ?thesis using assms(3) by (auto simp add: contents_of_def split: option.split)
qed

lemma clean_ok_upd:
  assumes "clean_ok e w" "\<And>bn. \<lbrakk>on_disk bn; \<exists>j < NBUF. j \<noteq> i \<and> be_dev (e j) = 0 \<and> be_blk (e j) = bn\<rbrakk> \<Longrightarrow> rd_block w' bn = rd_block w bn"
    and "\<lbrakk>be_dev x = 0; on_disk (be_blk x); be_done x; \<not> be_delwri x; \<not> be_busy x\<rbrakk> \<Longrightarrow> sector (be_data x) = rd_block w' (be_blk x)"
  shows "clean_ok (e(i := x)) w'"
  unfolding clean_ok_def
proof (intro allI impI)
  fix j assume j: "j < NBUF" and p: "be_dev ((e(i := x)) j) = 0 \<and> on_disk (be_blk ((e(i := x)) j)) \<and> be_done ((e(i := x)) j) \<and>
    \<not> be_delwri ((e(i := x)) j) \<and> \<not> be_busy ((e(i := x)) j)"
  show "sector (be_data ((e(i := x)) j)) = rd_block w' (be_blk ((e(i := x)) j))"
  proof (cases "j = i")
    case False
    then have "sector (be_data (e j)) = rd_block w (be_blk (e j))" using assms(1) j p by (simp add: clean_ok_def)
    moreover have "rd_block w' (be_blk (e j)) = rd_block w (be_blk (e j))"
      using p j False by (intro assms(2)) auto
    ultimately show ?thesis using False by simp
  qed (use assms(3) p in simp)
qed

text \<open>Changing one entry in a way that keeps its place.\<close>

lemma entries_ok_upd:
  assumes e: "entries_ok e D" "i < NBUF"
    and d: "be_dev x = NODEV \<or> be_dev x = be_dev (e i) \<and> be_blk x = be_blk (e i)"
    and r: "be_delwri x \<Longrightarrow> be_done x \<and> be_dev x \<noteq> NODEV \<and> \<not> be_err x" "\<not> be_busy x \<Longrightarrow> \<not> be_async x \<and> (be_err x \<longrightarrow> be_dev x = NODEV)"
  shows "entries_ok (e(i := x)) D"
  unfolding entries_ok_def
proof (intro conjI allI impI)
  fix j assume j: "j < NBUF"
  note o = entries_okD[OF e(1) j] entries_okD[OF e(1,2)]
  { assume "be_dev ((e(i := x)) j) \<noteq> NODEV"
    then show "major (be_dev ((e(i := x)) j)) \<in> {0, 1}" "Bufent j \<in> set (D (Devtab (nat (major (be_dev ((e(i := x)) j))))))"
      using d o(1) by (auto split: if_splits) }
  { assume "be_delwri ((e(i := x)) j)"
    then show "be_done ((e(i := x)) j)" "be_dev ((e(i := x)) j) \<noteq> NODEV" "\<not> be_err ((e(i := x)) j)"
      using r(1) o(3) by (auto split: if_splits) }
  { assume "\<not> be_busy ((e(i := x)) j)"
    then show "\<not> be_async ((e(i := x)) j)" and "be_err ((e(i := x)) j) \<Longrightarrow> be_dev ((e(i := x)) j) = NODEV"
      using r(2) o(4) by (auto split: if_splits) }
  { fix k assume k: "k < NBUF" and
      "be_dev ((e(i := x)) j) \<noteq> NODEV \<and> be_dev ((e(i := x)) j) = be_dev ((e(i := x)) k) \<and> be_blk ((e(i := x)) j) = be_blk ((e(i := x)) k)"
    then have "e j = (e(i := x)) j \<or> j = i" "e k = (e(i := x)) k \<or> k = i" and
      q: "be_dev (e j) \<noteq> NODEV" "be_dev (e j) = be_dev (e k)" "be_blk (e j) = be_blk (e k)"
      using d by (auto split: if_splits)
    then show "j = k" using entries_okD(2)[OF e(1) j k] by blast }
qed

end
