(* ===== verification/Cache_Contents.thy ===== *)
theory Cache_Contents
  imports Buffer_Cache
begin

text \<open>
  The buffer cache shows the contents of the disk: looking a block up, even when it means writing out another one, changes the contents of no
  block; a read returns the contents; what is written becomes the contents; and a flush brings the disk up to date. A routine that does not
  have to sleep is run with an arbitrary schedule, of which it uses nothing.
\<close>

section \<open>Writing a buffer\<close>

text \<open>What \<open>bwrite\<close> does before it calls the driver.\<close>

definition bwrite_ready :: "bref \<Rightarrow> bio \<Rightarrow> bio" where
  "bwrite_ready bp s =
    (let s = upd_buf bp (\<lambda>b. b\<lparr>b_bcount := 512\<rparr>) (clr_bflags bp (B_READ OR B_DONE OR B_ERROR OR B_DELWRI OR B_AGE) s)
     in s\<lparr>bs_info := (bs_info s)\<lparr>io_nwrite := to_i32 (io_nwrite (bs_info s) + 1)\<rparr>\<rparr>)"

lemma ent_same_buf: "bs_buf s' = bs_buf s \<Longrightarrow> ent s' = ent s"
  by (simp add: ent_def fun_eq_iff)

lemma bwrite_ready_spec:
  assumes "pool_lists s A D" "sched_wf (bs_kern s)"
  shows "pool_lists (bwrite_ready (Bufent i) s) A D"
    and "ent (bwrite_ready (Bufent i) s) = (ent s)(i := (ent s i)\<lparr>be_done := False, be_err := False, be_delwri := False\<rparr>)"
    and "settled s (bwrite_ready (Bufent i) s)" and "bs_rd (bwrite_ready (Bufent i) s) = bs_rd s"
    and "b_bcount (bs_buf (bwrite_ready (Bufent i) s) (Bufent i)) = 512"
    and "\<not> bflag (Bufent i) B_READ (bwrite_ready (Bufent i) s)"
    and "bflag (Bufent i) B_ASYNC (bwrite_ready (Bufent i) s) = bflag (Bufent i) B_ASYNC s"
    and "bs_kern (bwrite_ready (Bufent i) s) = bs_kern s"
proof -
  let ?t = "bwrite_ready (Bufent i) s"
  have b: "bs_buf ?t = (bs_buf s)(Bufent i := (bs_buf s (Bufent i))\<lparr>b_flags := b_flags (bs_buf s (Bufent i)) AND
      NOT (B_READ OR B_DONE OR B_ERROR OR B_DELWRI OR B_AGE), b_bcount := 512\<rparr>)"
    by (simp add: bwrite_ready_def clr_bflags_def Let_def)
  show e: "ent ?t = (ent s)(i := (ent s i)\<lparr>be_done := False, be_err := False, be_delwri := False\<rparr>)"
    by (rule ent_eqI) (auto simp add: ent_def bent_of_def b bit_and_iff bit_not_iff bit_or_iff)
  show "pool_lists ?t A D"
    using assms(1) by (subst pool_lists_cong[where s = s]) (auto simp add: e, simp add: b links_def)
  show "settled s ?t" using settled_refl[OF assms(2)] by (rule settled_kern) (simp_all add: bwrite_ready_def clr_bflags_def Let_def)
  show "b_bcount (bs_buf ?t (Bufent i)) = 512" by (simp add: b)
  show "\<not> bflag (Bufent i) B_READ ?t" "bflag (Bufent i) B_ASYNC ?t = bflag (Bufent i) B_ASYNC s"
    by (simp_all add: bflag_def b bit_and_iff bit_not_iff bit_or_iff)
qed (simp_all add: bwrite_ready_def clr_bflags_def Let_def)

lemma bwrite_unfold:
  "bwrite bp es s =
    (let flag = b_flags (bs_buf s bp)
     in kthen (kpure (d_strategy bp))
       (if flag AND B_ASYNC = 0 then kthen (iowait bp) (kpure (brelse bp))
        else if flag AND B_DELWRI \<noteq> 0 then kmod (set_bflags bp B_AGE) else kmod (geterror bp)) es (bwrite_ready bp s))"
  unfolding bwrite_def kget_run kmod_run by (simp add: bwrite_ready_def Let_def)

text \<open>The driver's work on a buffer that is to be written.\<close>

lemma bwrite_strategy:
  assumes c: "pool_lists s A D" "sched_wf (bs_kern s)" and i: "i < NBUF" "be_busy (ent s i)" and m: "major (be_dev (ent s i)) \<in> {0, 1}"
  defines "async \<equiv> be_async (ent s i)"
  shows "\<exists>s' A' e. d_strategy (Bufent i) (bwrite_ready (Bufent i) s) = Inr s' \<and> pool_lists s' A' D \<and> settled s s' \<and>
    (if async then A' \<in> {Bufent i # A, A @ [Bufent i]} else A' = A) \<and> ent s' = (ent s)(i := if async then released e else e) \<and>
    be_dev e = be_dev (ent s i) \<and> be_blk e = be_blk (ent s i) \<and> \<not> be_delwri e \<and> be_busy e \<and> be_done e \<and> be_async e = async \<and>
    (if be_dev (ent s i) = 0 \<and> on_disk (be_blk (ent s i)) then
       \<not> be_err e \<and> be_data e = be_data (ent s i) \<and>
       (\<forall>bn. on_disk bn \<longrightarrow> rd_block (bs_rd s') bn = (if bn = be_blk e then sector (be_data e) else rd_block (bs_rd s) bn))
     else bs_rd s' = bs_rd s)"
proof -
  let ?t = "bwrite_ready (Bufent i) s"
  note r = bwrite_ready_spec[OF c]
  have et: "be_busy (ent ?t i)" "major (be_dev (ent ?t i)) \<in> {0, 1}" "sched_wf (bs_kern ?t)" using i m c by (simp_all add: r)
  have as: "bflag (Bufent i) B_ASYNC ?t = async" using r(7)[of i] by (simp add: async_def bflag_def ent_flags)
  obtain s' A' e where d: "d_strategy (Bufent i) ?t = Inr s'" "pool_lists s' A' D" "settled ?t s'"
      "if async then A' \<in> {Bufent i # A, A @ [Bufent i]} else A' = A" "ent s' = (ent ?t)(i := if async then released e else e)"
      "be_dev e = be_dev (ent ?t i)" "be_blk e = be_blk (ent ?t i)" "be_delwri e = be_delwri (ent ?t i)" "be_busy e" "be_done e" "be_async e = async"
      and w: "if be_dev (ent ?t i) = 0 \<and> on_disk (be_blk (ent ?t i)) then
       be_err e = be_err (ent ?t i) \<and> be_data e = be_data (ent ?t i) \<and>
          (\<forall>bn. on_disk bn \<longrightarrow> rd_block (bs_rd s') bn = (if bn = be_blk (ent ?t i) then sector (be_data e) else rd_block (bs_rd ?t) bn))
     else bs_rd s' = bs_rd ?t"
    using d_strategy_spec[OF r(1) et(3) i(1) et(1,2) r(5)] r(6)[of i] unfolding as by auto
  have "settled s s'" using r(3) d(3) by (rule settled_trans)
  then show ?thesis using d w
    by (intro exI[of _ s'] exI[of _ A'] exI[of _ e]) (simp add: r(2,4) split: if_splits)
qed

text \<open>The written block has the buffer's data; no other block changes.\<close>

definition written :: "bent \<Rightarrow> bent \<Rightarrow> (nat \<Rightarrow> nat \<Rightarrow> 8 word) \<Rightarrow> (nat \<Rightarrow> nat \<Rightarrow> 8 word) \<Rightarrow> bool" where
  "written e x w w' \<longleftrightarrow>
    be_blk x = be_blk e \<and> (be_dev x = NODEV \<or> be_dev x = be_dev e) \<and> \<not> be_delwri x \<and> be_done x \<and>
    (be_busy x \<or> \<not> be_async x \<and> (be_err x \<longrightarrow> be_dev x = NODEV)) \<and>
    (if be_dev e = 0 \<and> on_disk (be_blk e) then
       be_dev x = 0 \<and> be_data x = be_data e \<and>
       (\<forall>bn. on_disk bn \<longrightarrow> rd_block w' bn = (if bn = be_blk e then sector (be_data e) else rd_block w bn))
     else w' = w)"

lemma written_entries:
  assumes "entries_ok e D" "i < NBUF" "written (e i) x w w'"
  shows "entries_ok (e(i := x)) D"
  using assms by (intro entries_ok_upd) (auto simp add: written_def)

lemma written_contents:
  assumes e: "entries_ok e D" "i < NBUF" and w: "written (e i) x w w'" and b: "on_disk bn"
  shows "contents_of (e(i := x)) w' bn =
    (if be_dev (e i) = 0 \<and> bn = be_blk (e i) then sector (be_data (e i)) else contents_of e w bn)"
proof (cases "be_dev (e i) = 0 \<and> bn = be_blk (e i)")
  case True
  then have x: "be_dev x = 0" "be_blk x = bn" "be_data x = be_data (e i)" "be_done x" using w b by (auto simp add: written_def)
  show ?thesis using contents_held[OF written_entries[OF e w] e(2), of w'] x True by simp
next
  case False
  have "contents_of (e(i := x)) w' bn = contents_of e w bn"
    using False w b NODEV_neq(1) by (intro contents_upd_other) (auto simp add: written_def split: if_splits)
  then show ?thesis unfolding if_not_P[OF False] .
qed

lemma written_clean:
  assumes e: "entries_ok e D" "i < NBUF" and c: "clean_ok e w" and w: "written (e i) x w w'"
  shows "clean_ok (e(i := x)) w'"
proof (rule clean_ok_upd[OF c])
  fix bn assume b: "on_disk bn" and "\<exists>j < NBUF. j \<noteq> i \<and> be_dev (e j) = 0 \<and> be_blk (e j) = bn"
  then obtain j where j: "j < NBUF" "j \<noteq> i" "be_dev (e j) = 0" "be_blk (e j) = bn" by blast
  have "\<not> (be_dev (e i) = 0 \<and> be_blk (e i) = bn)" using entries_okD(2)[OF e(1) j(1) e(2)] j NODEV_neq(1) by auto
  then show "rd_block w' bn = rd_block w bn" using w b by (auto simp add: written_def split: if_splits)
next
  assume "be_dev x = 0" "on_disk (be_blk x)"
  then show "sector (be_data x) = rd_block w' (be_blk x)" using w NODEV_neq(1) by (auto simp add: written_def split: if_splits)
qed

lemma settled_cache:
  assumes "settled s s'" "\<forall>m. \<not> bflag (Devtab m) B_TAPE s" "k_nblkdev (bs_kern s) = 9"
  shows "sched_wf (bs_kern s')" "\<forall>m. \<not> bflag (Devtab m) B_TAPE s'" "k_nblkdev (bs_kern s') = 9"
  using assms by (auto simp add: settled_def only_sched_def bflag_def)

lemma cache_okD:
  assumes "cache_ok s A D"
  shows "pool_lists s A D" "entries_ok (ent s) D" "sched_wf (bs_kern s)" "\<forall>m. \<not> bflag (Devtab m) B_TAPE s" "k_nblkdev (bs_kern s) = 9"
  using assms by (simp_all add: cache_ok_def)

lemma cache_okI:
  assumes "cache_ok s A D" "pool_lists s' A' D'" "entries_ok (ent s') D'" "settled s s'"
  shows "cache_ok s' A' D'"
  using assms settled_cache[OF assms(4)] by (simp add: cache_ok_def)

text \<open>The asynchronous write of a delayed block, as a lookup or a flush does it.\<close>

lemma bwrite_delayed:
  assumes c: "cache_ok s A D" "clean_ok (ent s) (bs_rd s)" and i: "i < NBUF" "be_busy (ent s i)" "be_delwri (ent s i)" "be_async (ent s i)"
  shows "\<exists>s' A' x. bwrite (Bufent i) es s = Ret () es s' \<and> cache_ok s' A' D \<and> clean_ok (ent s') (bs_rd s') \<and> settled s s' \<and>
    A' \<in> {Bufent i # A, A @ [Bufent i]} \<and> ent s' = (ent s)(i := x) \<and> \<not> be_busy x \<and> written (ent s i) x (bs_rd s) (bs_rd s')"
proof -
  note ok = cache_okD[OF c(1)]
  have dev: "be_dev (ent s i) \<noteq> NODEV" using entries_okD(3)[OF ok(2) i(1) i(3)] by simp
  then have m: "major (be_dev (ent s i)) \<in> {0, 1}" using entries_okD(1)[OF ok(2) i(1)] by simp
  obtain t A' e where d: "d_strategy (Bufent i) (bwrite_ready (Bufent i) s) = Inr t" "pool_lists t A' D" "settled s t"
      "A' \<in> {Bufent i # A, A @ [Bufent i]}" "ent t = (ent s)(i := released e)"
      "be_dev e = be_dev (ent s i)" "be_blk e = be_blk (ent s i)" "\<not> be_delwri e" "be_done e"
    and w: "if be_dev (ent s i) = 0 \<and> on_disk (be_blk (ent s i)) then
       \<not> be_err e \<and> be_data e = be_data (ent s i) \<and>
       (\<forall>bn. on_disk bn \<longrightarrow> rd_block (bs_rd t) bn = (if bn = be_blk e then sector (be_data e) else rd_block (bs_rd s) bn))
     else bs_rd t = bs_rd s"
    using bwrite_strategy[OF ok(1,3) i(1,2) m] i(4) by auto
  have wr: "written (ent s i) (released e) (bs_rd s) (bs_rd t)"
    using d w unfolding written_def released_def by (auto split: if_splits)
  define s' where "s' = set_bflags (Bufent i) B_AGE t"
  have e': "ent s' = ent t"
    unfolding s'_def set_bflags_def ent_upd_buf bent_or_flags by (simp add: ent_def[symmetric])
  have l': "pool_lists s' A' D" using d(2) by (subst pool_lists_cong[where s = t]) (simp_all add: e', simp add: s'_def set_bflags_def links_def)
  have st: "settled s s'" using d(3) by (rule settled_kern) (simp_all add: s'_def set_bflags_def)
  have rd: "bs_rd s' = bs_rd t" by (simp add: s'_def set_bflags_def)
  have fl: "b_flags (bs_buf s (Bufent i)) AND B_ASYNC \<noteq> 0" "b_flags (bs_buf s (Bufent i)) AND B_DELWRI \<noteq> 0"
    using i by (simp_all add: ent_flags)
  have run: "bwrite (Bufent i) es s = Ret () es s'"
    using fl d(1) unfolding bwrite_unfold Let_def by (simp add: kern_simps kpure_def s'_def)
  have "entries_ok (ent s') D" unfolding e' d(5) using ok(2) i(1) wr by (rule written_entries)
  then have "cache_ok s' A' D" by (rule cache_okI[OF c(1) l' _ st])
  moreover have "clean_ok (ent s') (bs_rd s')" unfolding e' d(5) rd using ok(2) i(1) c(2) wr by (rule written_clean)
  ultimately show ?thesis using run d(4,5) wr st
    by (intro exI[of _ s'] exI[of _ A'] exI[of _ "released e"]) (simp add: e' rd released_def)
qed

section \<open>Looking a block up\<close>

lemma find_blk_seg:
  "\<lbrakk>seg (bfw s) a xs dp; dp \<notin> set xs; length xs < n\<rbrakk> \<Longrightarrow>
   find_blk n dp dev bn s (bfw s a) = List.find (\<lambda>r. b_blkno (bs_buf s r) = bn \<and> b_dev (bs_buf s r) = dev) xs"
proof (induction xs arbitrary: a n)
  case Nil
  then show ?case by (cases n) simp_all
next
  case (Cons x xs)
  then obtain m where m: "n = Suc m" by (cases n) auto
  show ?case using Cons unfolding m by auto
qed

lemma pool_distinct: "\<lbrakk>pool_lists s A D; t \<in> heads\<rbrakk> \<Longrightarrow> distinct (D t) \<and> length (D t) \<le> NBUF"
proof -
  assume w: "pool_lists s A D" and t: "t \<in> heads"
  have d: "distinct (D t)" using w t by (auto simp add: pool_lists_def ring_def)
  have "set (D t) \<subseteq> Bufent ` {..< NBUF}" using pool_not_head[OF w t] by auto
  then have "card (set (D t)) \<le> card (Bufent ` {..< NBUF})" by (intro card_mono) auto
  also have "\<dots> \<le> NBUF" using card_image_le[of "{..< NBUF}" Bufent] by simp
  finally show ?thesis using d distinct_card[OF d] by simp
qed

lemma major_head: "major dev \<in> {0, 1} \<Longrightarrow> Devtab (nat (major dev)) \<in> heads"
  by (auto simp add: heads_def)

lemma lookup_find:
  assumes c: "cache_ok s A D" and m: "major dev \<in> {0, 1}"
  defines "t \<equiv> Devtab (nat (major dev))"
  shows "lookup_blk t dev bn s = List.find (\<lambda>r. b_blkno (bs_buf s r) = bn \<and> b_dev (bs_buf s r) = dev) (D t)"
proof -
  note w = cache_okD(1)[OF c]
  have t: "t \<in> heads" using major_head[OF m] by (simp add: t_def)
  have "ring (bfw s) (bbk s) t (D t)" using w t by (simp add: pool_lists_def)
  then have "seg (bfw s) t (D t) t" "t \<notin> set (D t)" by (simp_all add: ring_def)
  then show ?thesis unfolding lookup_blk_def using pool_distinct[OF w t] by (intro find_blk_seg) auto
qed

lemma lookup_hit:
  assumes c: "cache_ok s A D" and m: "major dev \<in> {0, 1}" and i: "i < NBUF" "be_dev (ent s i) = dev" "be_blk (ent s i) = bn"
  shows "lookup_blk (Devtab (nat (major dev))) dev bn s = Some (Bufent i)"
proof -
  let ?t = "Devtab (nat (major dev))" and ?P = "\<lambda>r. b_blkno (bs_buf s r) = bn \<and> b_dev (bs_buf s r) = dev"
  note ok = cache_okD[OF c]
  have nd: "dev \<noteq> NODEV" using m NODEV_neq by auto
  have "Bufent i \<in> set (D ?t)" using entries_okD(1)[OF ok(2) i(1)] i nd by simp
  moreover have "?P (Bufent i)" using i by (simp add: ent_flags)
  ultimately have "List.find ?P (D ?t) \<noteq> None" unfolding find_None_iff by blast
  then obtain r where r: "List.find ?P (D ?t) = Some r" "r \<in> set (D ?t)" "?P r"
    unfolding find_Some_iff not_None_eq by (metis nth_mem)
  then obtain j where j: "j < NBUF" "r = Bufent j" using pool_not_head[OF ok(1) major_head[OF m]] by blast
  have "j = i" using entries_okD(2)[OF ok(2) j(1) i(1)] r(3) i nd by (simp add: ent_flags j(2))
  then show ?thesis using r(1) j(2) by (simp add: lookup_find[OF c m])
qed

lemma lookup_miss:
  assumes c: "cache_ok s A D" and m: "major dev \<in> {0, 1}"
    and i: "\<And>i. \<lbrakk>i < NBUF; be_dev (ent s i) = dev\<rbrakk> \<Longrightarrow> be_blk (ent s i) \<noteq> bn"
  shows "lookup_blk (Devtab (nat (major dev))) dev bn s = None"
proof -
  have "\<not> (b_blkno (bs_buf s r) = bn \<and> b_dev (bs_buf s r) = dev)" if r: "r \<in> set (D (Devtab (nat (major dev))))" for r
    using pool_not_head[OF cache_okD(1)[OF c] major_head[OF m] r] i by (auto simp add: ent_flags)
  then show ?thesis by (auto simp add: lookup_find[OF c m] find_None_iff)
qed

text \<open>A clean free buffer is given to another block.\<close>

lemma contents_drop:
  assumes "\<not> be_done x" "on_disk bn"
    and "\<lbrakk>be_dev (e i) = 0; on_disk (be_blk (e i)); be_done (e i)\<rbrakk> \<Longrightarrow> sector (be_data (e i)) = rd_block w (be_blk (e i))"
    and e: "entries_ok e D" "i < NBUF"
  shows "contents_of (e(i := x)) w bn = contents_of e w bn"
proof (cases "be_dev (e i) = 0 \<and> be_done (e i) \<and> be_blk (e i) = bn")
  case True
  have "contents_of e w bn = rd_block w bn" using contents_held[OF e, of w] assms(2,3) True by metis
  moreover have "contents_of (e(i := x)) w bn = rd_block w bn"
  proof (rule contents_disk)
    fix j assume j: "j < NBUF" "be_dev ((e(i := x)) j) = 0" "be_blk ((e(i := x)) j) = bn"
    have "j = i"
    proof (rule ccontr)
      assume n: "j \<noteq> i"
      then have "be_dev (e j) = be_dev (e i)" "be_blk (e j) = be_blk (e i)" "be_dev (e j) \<noteq> NODEV"
        using j(2,3) True NODEV_neq(1) by simp_all
      then show False using entries_okD(2)[OF e(1) j(1) e(2)] n by blast
    qed
    then show "\<not> be_done ((e(i := x)) j)" using assms(1) by simp
  qed
  ultimately show ?thesis by simp
next
  case False
  then show ?thesis using assms(1) by (intro contents_upd_other) auto
qed

definition assigned :: "int \<Rightarrow> int \<Rightarrow> bent \<Rightarrow> bent" where
  "assigned dev bn e =
    e\<lparr>be_dev := dev, be_blk := bn, be_done := False, be_delwri := False, be_busy := True, be_err := False, be_async := False\<rparr>"

lemma moved_mem: "\<lbrakk>x \<noteq> bp; x \<in> set (D t)\<rbrakk> \<Longrightarrow> x \<in> set (moved dp bp D t)" "bp \<in> set (moved dp bp D dp)"
  by (auto simp add: moved_def Let_def)

lemma assigned_entries:
  assumes e: "entries_ok e D" "i < NBUF" and m: "major dev \<in> {0, 1}"
    and n: "\<And>j. \<lbrakk>j < NBUF; be_dev (e j) = dev\<rbrakk> \<Longrightarrow> be_blk (e j) \<noteq> bn"
  shows "entries_ok (e(i := assigned dev bn (e i))) (moved (Devtab (nat (major dev))) (Bufent i) D)"
  unfolding entries_ok_def
proof (intro conjI allI impI)
  let ?e = "e(i := assigned dev bn (e i))"
  fix j assume j: "j < NBUF"
  note o = entries_okD[OF e(1) j]
  { assume "be_dev (?e j) \<noteq> NODEV"
    then show "major (be_dev (?e j)) \<in> {0, 1}"
        "Bufent j \<in> set (moved (Devtab (nat (major dev))) (Bufent i) D (Devtab (nat (major (be_dev (?e j))))))"
      using o(1) m by (auto simp add: assigned_def moved_mem split: if_splits) }
  { assume "be_delwri (?e j)"
    then show "be_done (?e j)" "be_dev (?e j) \<noteq> NODEV" "\<not> be_err (?e j)" using o(3) by (auto simp add: assigned_def split: if_splits) }
  { assume "\<not> be_busy (?e j)"
    then show "\<not> be_async (?e j)" and "be_err (?e j) \<Longrightarrow> be_dev (?e j) = NODEV" using o(4) by (auto simp add: assigned_def split: if_splits) }
  { fix k assume k: "k < NBUF" and "be_dev (?e j) \<noteq> NODEV \<and> be_dev (?e j) = be_dev (?e k) \<and> be_blk (?e j) = be_blk (?e k)"
    then show "j = k" using o(2)[OF k] n[OF j] n[OF k] by (cases "j = i"; cases "k = i") (auto simp add: assigned_def) }
qed

lemma notavail_ok:
  assumes c: "cache_ok s A D" and i: "i < NBUF" "\<not> be_busy (ent s i)"
  shows "cache_ok (notavail (Bufent i) s) (remove1 (Bufent i) A) D" "settled s (notavail (Bufent i) s)"
proof -
  note n = notavail_spec[OF cache_okD(1)[OF c] i]
  have fl: "b_flags (bs_buf (notavail (Bufent i) s) (Devtab m)) = b_flags (bs_buf s (Devtab m))" for m
    by (simp add: notavail_def set_bflags_def payload_flags[OF link_payload(1)])
  show st: "settled s (notavail (Bufent i) s)"
    using settled_refl[OF cache_okD(3)[OF c]] by (rule settled_kern) (use n(3) in \<open>simp_all add: fl outside_def\<close>)
  have "entries_ok (ent (notavail (Bufent i) s)) D"
    unfolding n(2) using entries_okD[OF cache_okD(2)[OF c] i(1)] i cache_okD(2)[OF c] by (intro entries_ok_upd) auto
  then show "cache_ok (notavail (Bufent i) s) (remove1 (Bufent i) A) D" by (rule cache_okI[OF c n(1) _ st])
qed

lemma contents_same:
  assumes "be_dev x = be_dev (e i)" "be_blk x = be_blk (e i)" "be_done x = be_done (e i)" "be_data x = be_data (e i)"
  shows "contents_of (e(i := x)) w bn = contents_of e w bn"
proof -
  have "(\<lambda>j. be_dev ((e(i := x)) j) = 0 \<and> be_blk ((e(i := x)) j) = bn \<and> be_done ((e(i := x)) j)) =
      (\<lambda>j. be_dev (e j) = 0 \<and> be_blk (e j) = bn \<and> be_done (e j))" using assms by (auto simp add: fun_eq_iff)
  then show ?thesis using assms(4) by (auto simp add: contents_of_def split: option.split)
qed

text \<open>
  A buffer \<open>i\<close> has been found or assigned for a block. Nobody else had it, no contents changed, and the buffers in use are
  untouched.
\<close>

definition got :: "int \<Rightarrow> int \<Rightarrow> nat \<Rightarrow> bio \<Rightarrow> bio \<Rightarrow> bool" where
  "got dev bn i s s' \<longleftrightarrow>
    i < NBUF \<and> be_dev (ent s' i) = dev \<and> be_blk (ent s' i) = bn \<and> be_busy (ent s' i) \<and> \<not> be_async (ent s' i) \<and> \<not> be_err (ent s' i) \<and>
    cache_inv s' \<and> settled s s' \<and> (\<forall>b. on_disk b \<longrightarrow> contents s' b = contents s b) \<and>
    (\<forall>j < NBUF. be_busy (ent s j) \<longrightarrow> j \<noteq> i \<and> ent s' j = ent s j) \<and>
    (be_done (ent s' i) \<and> \<not> be_delwri (ent s' i) \<and> dev = 0 \<and> on_disk bn \<longrightarrow>
      sector (be_data (ent s' i)) = rd_block (bs_rd s') bn)"

lemma count_hit_same: "bs_buf (count_hit bp s) = bs_buf s" "bs_kern (count_hit bp s) = bs_kern s" "bs_rd (count_hit bp s) = bs_rd s"
  by (simp_all add: count_hit_def Let_def)

lemma cache_ok_same:
  assumes "cache_ok s A D" "bs_buf s' = bs_buf s" "bs_kern s' = bs_kern s"
  shows "cache_ok s' A D" "settled s s'"
proof -
  have e: "ent s' = ent s" by (rule ent_same_buf) (rule assms)
  have "pool_lists s' A D" using cache_okD(1)[OF assms(1)] assms(2) by (subst pool_lists_cong[where s = s]) (simp_all add: e)
  then show "cache_ok s' A D" using assms by (simp add: cache_ok_def e bflag_def)
  show "settled s s'" using settled_refl[OF cache_okD(3)[OF assms(1)]] by (rule settled_kern) (simp_all add: assms)
qed

lemma getblk_hit:
  assumes c: "cache_ok s A D" "clean_ok (ent s) (bs_rd s)" and m: "major dev \<in> {0, 1}"
    and i: "i < NBUF" "be_dev (ent s i) = dev" "be_blk (ent s i) = bn" "\<not> be_busy (ent s i)"
  shows "got dev bn i s (notavail (Bufent i) (count_hit (Bufent i) s))"
proof -
  let ?t = "count_hit (Bufent i) s" and ?v = "notavail (Bufent i) (count_hit (Bufent i) s)"
  note t = cache_ok_same[OF c(1) count_hit_same(1,2), of "Bufent i"]
  have et: "ent ?t = ent s" by (rule ent_same_buf) (rule count_hit_same)
  have it: "\<not> be_busy (ent ?t i)" using i by (simp add: et)
  note v = notavail_ok[OF t(1) i(1) it]
  note n = notavail_spec[OF cache_okD(1)[OF t(1)] i(1) it]
  have e: "ent ?v = (ent s)(i := (ent s i)\<lparr>be_busy := True\<rparr>)" and rd: "bs_rd ?v = bs_rd s"
    using n(2,3) by (simp_all add: et outside_def count_hit_same)
  have "clean_ok (ent ?v) (bs_rd ?v)" unfolding e rd using c(2) by (intro clean_ok_upd) simp_all
  moreover have "\<not> be_async (ent s i)" "\<not> be_err (ent s i)"
    using entries_okD(4)[OF cache_okD(2)[OF c(1)] i(1) i(4)] m i NODEV_neq by auto
  moreover have "\<lbrakk>be_done (ent s i); \<not> be_delwri (ent s i); dev = 0; on_disk bn\<rbrakk> \<Longrightarrow> sector (be_data (ent s i)) = rd_block (bs_rd s) bn"
    using c(2) i by (auto simp add: clean_ok_def)
  ultimately show ?thesis using i v(1) settled_trans[OF t(2) v(2)] unfolding got_def cache_inv_def
    by (auto simp add: e rd contents_same)
qed

lemma bent_of_place: "bent_of (b\<lparr>b_dev := d, b_blkno := n\<rparr>) = (bent_of b)\<lparr>be_dev := d, be_blk := n\<rparr>"
  by (simp add: bent_of_def)

text \<open>A free clean buffer is taken from the front of the available list.\<close>

lemma getblk_take:
  assumes c: "cache_ok s A D" "clean_ok (ent s) (bs_rd s)" and m: "major dev \<in> {0, 1}"
    and i: "i < NBUF" "\<not> be_busy (ent s i)" "\<not> be_delwri (ent s i)"
    and n: "\<And>j. \<lbrakk>j < NBUF; be_dev (ent s j) = dev\<rbrakk> \<Longrightarrow> be_blk (ent s j) \<noteq> bn"
  defines "dp \<equiv> Devtab (nat (major dev))"
  shows "got dev bn i s (upd_buf (Bufent i) (\<lambda>b. b\<lparr>b_dev := dev, b_blkno := bn\<rparr>) (rehome dp (Bufent i) (notavail (Bufent i) s)))"
proof -
  let ?t = "notavail (Bufent i) s"
  let ?v = "rehome dp (Bufent i) ?t"
  let ?z = "upd_buf (Bufent i) (\<lambda>b. b\<lparr>b_dev := dev, b_blkno := bn\<rparr>) ?v"
  note t = notavail_ok[OF c(1) i(1,2)]
  note nt = notavail_spec[OF cache_okD(1)[OF c(1)] i(1,2)]
  have bt: "be_busy (ent ?t i)" by (simp add: nt(2))
  have dp: "dp \<in> heads" unfolding dp_def using m by (rule major_head)
  note v = rehome_spec[OF cache_okD(1)[OF t(1)] i(1) bt dp]
  have bv: "bent_of (bs_buf ?v (Bufent i)) = ent ?v i" by (simp add: ent_def)
  have ez: "ent ?z = (ent s)(i := assigned dev bn (ent s i))"
  proof -
    have "bent_of ((bs_buf ?v (Bufent i))\<lparr>b_dev := dev, b_blkno := bn\<rparr>) = assigned dev bn (ent s i)"
      unfolding bent_of_place bv v(2) nt(2) by (rule bent.equality) (simp_all add: assigned_def)
    then show ?thesis unfolding ent_upd_buf v(2) nt(2) by (simp add: fun_upd_idem_iff)
  qed
  have wz: "pool_lists ?z (remove1 (Bufent i) A) (moved dp (Bufent i) D)"
    using v(1) by (subst pool_lists_upd) (auto simp add: links_def ent_flags bent_of_def)
  have rd: "bs_rd ?z = bs_rd s" using v(3) nt(3) by (simp add: outside_def)
  have kz: "bs_kern ?v = bs_kern ?t" using v(3) by (simp add: outside_def)
  have st: "settled s ?z" using t(2) by (rule settled_kern) (simp_all add: kz v(4))
  have "entries_ok (ent ?z) (moved dp (Bufent i) D)"
    unfolding ez unfolding dp_def using cache_okD(2)[OF c(1)] i(1) m n by (rule assigned_entries)
  then have "cache_ok ?z (remove1 (Bufent i) A) (moved dp (Bufent i) D)" by (rule cache_okI[OF c(1) wz _ st])
  moreover have "clean_ok (ent ?z) (bs_rd ?z)" unfolding ez rd using c(2) by (intro clean_ok_upd) (simp_all add: assigned_def)
  moreover have "contents ?z b = contents s b" if "on_disk b" for b
    unfolding ez rd using that c(2) i cache_okD(2)[OF c(1)]
    by (intro contents_drop) (auto simp add: assigned_def clean_ok_def)
  moreover have "got dev bn i s z"
    if "ent z = (ent s)(i := assigned dev bn (ent s i))" "cache_inv z" "settled s z" "\<And>b. on_disk b \<Longrightarrow> contents z b = contents s b" for z
    using that i by (auto simp add: got_def assigned_def)
  ultimately show ?thesis using ez st unfolding cache_inv_def by blast
qed

text \<open>The number of delayed writes that can still interrupt a lookup.\<close>

definition delayed :: "bio \<Rightarrow> nat" where
  "delayed s = card {i. i < NBUF \<and> be_delwri (ent s i) \<and> \<not> be_busy (ent s i)}"

lemma delayed_le: "delayed s \<le> NBUF"
  unfolding delayed_def by (rule order_trans[OF card_mono[of "{..< NBUF}"]]) auto

lemma delayed_less:
  assumes "i < NBUF" "be_delwri (ent s i)" "\<not> be_busy (ent s i)" "ent s' = (ent s)(i := x)" "\<not> be_delwri x"
  shows "delayed s' < delayed s"
  unfolding delayed_def assms(4) by (rule psubset_card_mono) (use assms in auto)

text \<open>The front of the available list, taken and written out.\<close>

lemma write_out:
  assumes c: "cache_ok s A D" "clean_ok (ent s) (bs_rd s)" and i: "i < NBUF" "\<not> be_busy (ent s i)" "be_delwri (ent s i)"
  shows "\<exists>s' A' x. bwrite (Bufent i) es (set_bflags (Bufent i) B_ASYNC (notavail (Bufent i) s)) = Ret () es s' \<and>
    cache_ok s' A' D \<and> A' \<in> {Bufent i # remove1 (Bufent i) A, remove1 (Bufent i) A @ [Bufent i]} \<and> clean_ok (ent s') (bs_rd s') \<and> settled s s' \<and>
    ent s' = (ent s)(i := x) \<and> \<not> be_busy x \<and> written (ent s i) x (bs_rd s) (bs_rd s')"
proof -
  let ?t = "notavail (Bufent i) s"
  let ?v = "set_bflags (Bufent i) B_ASYNC ?t"
  note t = notavail_ok[OF c(1) i(1,2)] and n = notavail_spec[OF cache_okD(1)[OF c(1)] i(1,2)]
  have et: "bent_of (bs_buf ?t (Bufent i)) = (ent s i)\<lparr>be_busy := True\<rparr>" using n(2) by (simp add: ent_def fun_eq_iff)
  have ev: "ent ?v = (ent s)(i := (ent s i)\<lparr>be_busy := True, be_async := True\<rparr>)"
    unfolding set_bflags_def ent_upd_buf bent_or_flags et n(2) by simp
  have wv: "pool_lists ?v (remove1 (Bufent i) A) D"
    using cache_okD(1)[OF t(1)] by (subst pool_lists_cong[where s = ?t]) (auto simp add: ev n(2), simp add: set_bflags_def links_def)
  have sv: "settled s ?v" using t(2) by (rule settled_kern) (simp_all add: set_bflags_def)
  have rd: "bs_rd ?v = bs_rd s" using n(3) by (simp add: set_bflags_def outside_def)
  have "entries_ok (ent ?v) D" unfolding ev using cache_okD(2)[OF c(1)] i(1) entries_okD(3)[OF cache_okD(2)[OF c(1)] i(1)] i
    by (intro entries_ok_upd) auto
  then have cv: "cache_ok ?v (remove1 (Bufent i) A) D" by (rule cache_okI[OF c(1) wv _ sv])
  have clv: "clean_ok (ent ?v) (bs_rd ?v)" unfolding ev rd using c(2) by (intro clean_ok_upd) simp_all
  obtain s' A' x where b: "bwrite (Bufent i) es ?v = Ret () es s'" "cache_ok s' A' D" "clean_ok (ent s') (bs_rd s')" "settled ?v s'"
      "A' \<in> {Bufent i # remove1 (Bufent i) A, remove1 (Bufent i) A @ [Bufent i]}" "ent s' = (ent ?v)(i := x)" "\<not> be_busy x"
      "written (ent ?v i) x (bs_rd ?v) (bs_rd s')"
    using bwrite_delayed[OF cv clv i(1), of es] i by (auto simp add: ev)
  have wr: "written (ent s i) x (bs_rd s) (bs_rd s')" using b(8) by (simp add: ev rd written_def)
  show ?thesis using b wr settled_trans[OF sv b(4)] by (intro exI[of _ s'] exI[of _ A'] exI[of _ x]) (simp add: ev)
qed

lemma written_delayed_contents:
  assumes "entries_ok e D" "i < NBUF" "be_delwri (e i)" "written (e i) x w w'" "on_disk bn"
  shows "contents_of (e(i := x)) w' bn = contents_of e w bn"
proof -
  have "be_done (e i)" using entries_okD(3)[OF assms(1,2,3)] by simp
  then show ?thesis using written_contents[OF assms(1,2,4,5)] contents_held[OF assms(1,2), of w] by auto
qed

lemma pool_front:
  assumes w: "pool_lists s A D" and ne: "A \<noteq> []"
  shows "\<exists>i B. A = Bufent i # B \<and> i < NBUF \<and> \<not> be_busy (ent s i) \<and> avf s Bfreelist = Bufent i"
proof -
  have r: "ring (avf s) (avb s) Bfreelist A" and A: "set A = {Bufent i |i. i < NBUF \<and> \<not> be_busy (ent s i)}"
    using w by (simp_all add: pool_lists_def)
  obtain r B where B: "A = r # B" using ne by (cases A) auto
  then have "r \<in> set A" by simp
  then obtain i where "r = Bufent i" "i < NBUF" "\<not> be_busy (ent s i)" unfolding A by blast
  then show ?thesis using B ring_next(1)[OF r] by auto
qed

text \<open>A lookup that need not sleep succeeds, after at most as many turns as there are delayed writes.\<close>

lemma getblk_loop_spec:
  assumes "cache_ok s A D" "clean_ok (ent s) (bs_rd s)" and m: "major dev \<in> {0, 1}"
    and "\<And>i. \<lbrakk>i < NBUF; be_dev (ent s i) = dev; be_blk (ent s i) = bn\<rbrakk> \<Longrightarrow> \<not> be_busy (ent s i)"
    and "A \<noteq> []" and "delayed s < n"
  shows "\<exists>i s'. getblk_loop n (Devtab (nat (major dev))) dev bn es s = Ret (Bufent i) es s' \<and> got dev bn i s s'"
  using assms(1,2,4-)
proof (induction n arbitrary: s A)
  case (Suc n)
  note c = Suc.prems(1,2) and idle = Suc.prems(3)
  let ?dp = "Devtab (nat (major dev))"
  show ?case
  proof (cases "\<exists>i < NBUF. be_dev (ent s i) = dev \<and> be_blk (ent s i) = bn")
    case True
    then obtain i where i: "i < NBUF" "be_dev (ent s i) = dev" "be_blk (ent s i) = bn" by blast
    have nb: "\<not> be_busy (ent s i)" using idle i by blast
    have "\<not> bflag (Bufent i) B_BUSY s" using nb by (simp add: bflag_def ent_flags)
    then have "getblk_loop (Suc n) ?dp dev bn es s = Ret (Bufent i) es (notavail (Bufent i) (count_hit (Bufent i) s))"
      using lookup_hit[OF c(1) m i] by (simp add: kern_simps)
    then show ?thesis using getblk_hit[OF c m i nb] by blast
  next
    case False
    then have miss: "\<And>j. \<lbrakk>j < NBUF; be_dev (ent s j) = dev\<rbrakk> \<Longrightarrow> be_blk (ent s j) \<noteq> bn" by blast
    note lk = lookup_miss[OF c(1) m miss]
    obtain i B where i: "A = Bufent i # B" "i < NBUF" "\<not> be_busy (ent s i)" "avf s Bfreelist = Bufent i"
      using pool_front[OF cache_okD(1)[OF c(1)] Suc.prems(4)] by blast
    have fl: "bflag (Bufent i) B_DELWRI (notavail (Bufent i) s) = be_delwri (ent s i)"
      using notavail_spec(4)[OF cache_okD(1)[OF c(1)] i(2,3), of 9 "Bufent i"] by (simp add: bflag_def ent_flags)
    show ?thesis
    proof (cases "be_delwri (ent s i)")
      case False
      then have "getblk_loop (Suc n) ?dp dev bn es s = Ret (Bufent i) es
          (upd_buf (Bufent i) (\<lambda>b. b\<lparr>b_dev := dev, b_blkno := bn\<rparr>) (rehome ?dp (Bufent i) (notavail (Bufent i) s)))"
        using lk fl i(4) by (simp add: kern_simps)
      then show ?thesis using getblk_take[OF c m i(2,3) False miss] by blast
    next
      case True
      obtain t A' x where t: "bwrite (Bufent i) es (set_bflags (Bufent i) B_ASYNC (notavail (Bufent i) s)) = Ret () es t"
          "cache_ok t A' D" "A' \<in> {Bufent i # remove1 (Bufent i) A, remove1 (Bufent i) A @ [Bufent i]}" "clean_ok (ent t) (bs_rd t)"
          "settled s t" "ent t = (ent s)(i := x)" "\<not> be_busy x" "written (ent s i) x (bs_rd s) (bs_rd t)"
        using write_out[OF c i(2,3) True, of es] by blast
      have run: "getblk_loop (Suc n) ?dp dev bn es s = getblk_loop n ?dp dev bn es t"
        using lk fl i(4) True t(1) by (simp add: kern_simps)
      have "delayed t < delayed s" using i(2) True i(3) t(6) t(8) by (intro delayed_less) (auto simp add: written_def)
      then have d: "delayed t < n" using Suc.prems(5) by simp
      have idle': "\<not> be_busy (ent t j)" if "j < NBUF" "be_dev (ent t j) = dev" "be_blk (ent t j) = bn" for j
        using idle[of j] that t(6,7) by (cases "j = i") auto
      have "A' \<noteq> []" using t(3) by auto
      from Suc.IH[OF t(2,4) idle' this d] obtain j s' where j: "getblk_loop n ?dp dev bn es t = Ret (Bufent j) es s'" "got dev bn j t s'"
        by blast
      have "contents t b = contents s b" if "on_disk b" for b
        unfolding t(6) using cache_okD(2)[OF c(1)] i(2) True t(8) that by (rule written_delayed_contents)
      moreover have "k \<noteq> j \<and> ent s' k = ent s k" if k: "k < NBUF" "be_busy (ent s k)" for k
      proof -
        have "k \<noteq> i" using k i(3) by auto
        then have "ent t k = ent s k" by (simp add: t(6))
        then show ?thesis using j(2) k by (simp add: got_def)
      qed
      ultimately have "got dev bn j s s'"
        using j(2) settled_trans[OF t(5)] unfolding got_def by simp
      then show ?thesis using run j(1) by auto
    qed
  qed
qed simp

text \<open>The block is in no buffer that is in use, and there is a free buffer.\<close>

definition available :: "int \<Rightarrow> int \<Rightarrow> bio \<Rightarrow> bool" where
  "available dev bn s \<longleftrightarrow>
    (\<forall>i < NBUF. be_dev (ent s i) = dev \<and> be_blk (ent s i) = bn \<longrightarrow> \<not> be_busy (ent s i)) \<and> (\<exists>i < NBUF. \<not> be_busy (ent s i))"

lemma getblk_spec:
  assumes c: "cache_inv s" and m: "major dev \<in> {0, 1}" and a: "available dev bn s"
  shows "\<exists>i s'. getblk dev bn es s = Ret (Bufent i) es s' \<and> got dev bn i s s'"
proof -
  obtain A D where ok: "cache_ok s A D" "clean_ok (ent s) (bs_rd s)" using c by (auto simp add: cache_inv_def)
  have "A \<noteq> []" using cache_okD(1)[OF ok(1)] a by (auto simp add: pool_lists_def available_def)
  moreover have "delayed s < Suc NBUF * Suc (length es)" using delayed_le[of s] by simp
  moreover have "\<not> major dev \<ge> k_nblkdev (bs_kern s)" "d_tab (major dev) = Some (Devtab (nat (major dev)))"
    using m cache_okD(5)[OF ok(1)] by (auto simp add: d_tab_def)
  ultimately show ?thesis using getblk_loop_spec[OF ok m] a unfolding getblk_def available_def by (simp del: getblk_loop.simps)
qed

section \<open>Reading\<close>

lemma iowait_done:
  "\<lbrakk>be_done (ent s i); \<not> be_err (ent s i)\<rbrakk> \<Longrightarrow> kthen (iowait (Bufent i)) m es s = m es s"
  by (simp add: iowait_def kern_simps bflag_def ent_flags geterror_def)

lemma set_bflags_ent_READ: "ent (set_bflags (Bufent i) B_READ s) = ent s"
  unfolding set_bflags_def ent_upd_buf bent_or_flags by (simp add: ent_def[symmetric])

text \<open>A read of a block of the RAM disk into a buffer that is not valid yet.\<close>

lemma start_read_spec:
  assumes c: "cache_ok s A D" "clean_ok (ent s) (bs_rd s)" and i: "i < NBUF" "be_busy (ent s i)" "\<not> be_done (ent s i)" "\<not> be_async (ent s i)" "\<not> be_err (ent s i)"
    and b: "be_dev (ent s i) = 0" "on_disk (be_blk (ent s i))"
  shows "\<exists>s' e. kthen (start_read (Bufent i) B_READ f) m es s = m es s' \<and> ent s' = (ent s)(i := e) \<and> cache_inv s' \<and> settled s s' \<and>
    be_dev e = 0 \<and> be_blk e = be_blk (ent s i) \<and> be_done e \<and> be_busy e \<and> \<not> be_async e \<and> \<not> be_err e \<and> \<not> be_delwri e \<and>
    sector (be_data e) = rd_block (bs_rd s) (be_blk (ent s i)) \<and> bs_rd s' = bs_rd s"
proof -
  define t where "t = upd_buf (Bufent i) (\<lambda>b. b\<lparr>b_bcount := 512\<rparr>) (set_bflags (Bufent i) B_READ s)"
  have et: "ent t = ent s" by (rule ent_eqI) (simp_all add: t_def set_bflags_def ent_def bent_of_def bit_or_iff)
  have wt: "pool_lists t A D" using cache_okD(1)[OF c(1)]
    by (subst pool_lists_cong[where s = s]) (simp_all add: et, simp add: t_def set_bflags_def links_def)
  have st: "settled s t" using settled_refl[OF cache_okD(3)[OF c(1)]] by (rule settled_kern) (simp_all add: t_def set_bflags_def)
  have t: "b_bcount (bs_buf t (Bufent i)) = 512" "bflag (Bufent i) B_READ t" "bflag (Bufent i) B_ASYNC t = be_async (ent s i)" "bs_rd t = bs_rd s"
    using B_READ_def by (simp_all add: t_def set_bflags_def bflag_def bit_or_iff ent_flags)
  have k: "sched_wf (bs_kern t)" using st by (simp add: settled_def)
  have nd: "\<not> be_delwri (ent s i)" using entries_okD(3)[OF cache_okD(2)[OF c(1)] i(1)] i(3) by blast
  have pre: "be_busy (ent t i)" "major (be_dev (ent t i)) \<in> {0, 1}" using i b by (simp_all add: et major_def)
  obtain v A' e where v: "d_strategy (Bufent i) t = Inr v" "pool_lists v A' D" "settled t v" "ent v = (ent t)(i := e)"
      "be_dev e = 0" "be_blk e = be_blk (ent s i)" "\<not> be_delwri e" "be_busy e" "be_done e" "\<not> be_async e" "\<not> be_err e"
      "sector (be_data e) = rd_block (bs_rd s) (be_blk (ent s i))" "bs_rd v = bs_rd s"
    using d_strategy_spec[OF wt k i(1) pre t(1)] i b nd t by (auto simp add: et)
  define s' where "s' = v\<lparr>bs_info := f (bs_info v)\<rparr>"
  have run: "kthen (start_read (Bufent i) B_READ f) m es s = m es s'"
    using v(1) unfolding start_read_def count_io_def s'_def t_def by (simp add: kern_simps kpure_def)
  have ent': "ent s' = (ent s)(i := e)" 
  proof -
    have "ent s' = ent v" by (rule ent_same_buf) (simp add: s'_def)
    then show ?thesis using v(4) et by simp
  qed
  have "entries_ok (ent v) D" unfolding v(4) et using cache_okD(2)[OF c(1)] i b v by (intro entries_ok_upd) auto
  then have ok: "cache_ok v A' D" by (rule cache_okI[OF c(1) v(2) _ settled_trans[OF st v(3)]])
  have "cache_ok s' A' D" "settled v s'" using cache_ok_same[OF ok, of s'] by (simp_all add: s'_def)
  moreover have "clean_ok (ent s') (bs_rd s')" unfolding ent' using c(2) v by (intro clean_ok_upd[where w = "bs_rd s"]) (simp_all add: s'_def)
  ultimately show ?thesis using run ent' v settled_trans[OF settled_trans[OF st v(3)]] unfolding cache_inv_def
    by (intro exI[of _ s'] exI[of _ e]) (auto simp add: s'_def)
qed

lemma bread_spec:
  assumes c: "cache_inv s" and b: "on_disk bn" and a: "available 0 bn s"
  shows "\<exists>i s'. bread 0 bn es s = Ret (Bufent i) es s' \<and> got 0 bn i s s' \<and> be_done (ent s' i) \<and> sector (be_data (ent s' i)) = contents s bn"
proof -
  have m: "major 0 \<in> {0, 1}" by (simp add: major_def)
  obtain i t where t: "getblk 0 bn es s = Ret (Bufent i) es t" "got 0 bn i s t" using getblk_spec[OF c m a] by blast
  obtain A D where ok: "cache_ok t A D" "clean_ok (ent t) (bs_rd t)" using t(2) by (auto simp add: got_def cache_inv_def)
  have i: "i < NBUF" "be_dev (ent t i) = 0" "be_blk (ent t i) = bn" "be_busy (ent t i)" "\<not> be_async (ent t i)" "\<not> be_err (ent t i)"
    and same: "contents t bn = contents s bn" using t(2) b by (auto simp add: got_def)
  note eo = cache_okD(2)[OF ok(1)]
  show ?thesis
  proof (cases "be_done (ent t i)")
    case True
    define v where "v = t\<lparr>bs_info := (bs_info t)\<lparr>io_ncache := to_i32 (io_ncache (bs_info t) + 1)\<rparr>\<rparr>"
    have run: "bread 0 bn es s = Ret (Bufent i) es v"
    proof -
      have "bflag (Bufent i) B_DONE t" using True by (simp add: bflag_def ent_flags)
      then show ?thesis
        unfolding bread_def kbind_Ret[of "getblk 0 bn", OF t(1)] kif_run count_io_def kmod_run v_def by (simp add: kret_def)
    qed
    have ev: "ent v = ent t" "bs_rd v = bs_rd t" by (rule ent_same_buf, simp_all add: v_def)
    have vk: "cache_ok v A D" "settled t v" by (rule cache_ok_same[OF ok(1)]; simp add: v_def)+
    have "cache_inv v" unfolding cache_inv_def ev using vk(1) ok(2) by blast
    moreover have "settled s v" using t(2) vk(2) settled_trans[of s t v] by (simp add: got_def)
    ultimately have "got 0 bn i s v" using t(2) unfolding got_def ev by blast
    then show ?thesis using run True contents_held[OF eo i(1,2) True, of "bs_rd t"] i(3) same by (auto simp add: ev)
  next
    case False
    have bk: "on_disk (be_blk (ent t i))" using b i by simp
    let ?f = "\<lambda>i. i\<lparr>io_nread := to_i32 (io_nread i + 1)\<rparr>"
    obtain v e where v: "kthen (start_read (Bufent i) B_READ ?f) (kthen (iowait (Bufent i)) (kret (Bufent i))) es t =
          kthen (iowait (Bufent i)) (kret (Bufent i)) es v" "ent v = (ent t)(i := e)" "cache_inv v" "settled t v"
        "be_dev e = 0" "be_blk e = bn" "be_done e" "be_busy e" "\<not> be_async e" "\<not> be_err e" "\<not> be_delwri e"
        "sector (be_data e) = rd_block (bs_rd t) bn" "bs_rd v = bs_rd t"
      using start_read_spec[OF ok i(1,4) False i(5,6,2) bk, of ?f "kthen (iowait (Bufent i)) (kret (Bufent i))" es] i(3) by auto
    have run: "bread 0 bn es s = Ret (Bufent i) es v"
    proof -
      have "bread 0 bn es s = kthen (start_read (Bufent i) B_READ ?f) (kthen (iowait (Bufent i)) (kret (Bufent i))) es t"
        using t(1) False unfolding bread_def by (simp add: kbind_Ret[of "getblk 0 bn", OF t(1)] kif_run bflag_def ent_flags)
      also have "\<dots> = kthen (iowait (Bufent i)) (kret (Bufent i)) es v" by (rule v(1))
      also have "\<dots> = kret (Bufent i) es v" using v by (intro iowait_done) simp_all
      finally show ?thesis by (simp add: kern_simps)
    qed
    have disk: "contents t bn = rd_block (bs_rd t) bn"
    proof (rule contents_disk)
      fix j assume "j < NBUF" "be_dev (ent t j) = 0" "be_blk (ent t j) = bn"
      then have "j = i" using entries_okD(2)[OF eo _ i(1), of j] i NODEV_neq(1) by simp
      then show "\<not> be_done (ent t j)" using False by simp
    qed
    have cv: "contents v x = contents s x" if "on_disk x" for x
    proof (cases "x = bn")
      case True
      obtain A' D' where "entries_ok (ent v) D'" using v(3) by (auto simp add: cache_inv_def cache_ok_def)
      from contents_held[OF this i(1), of "bs_rd v"] have "contents v bn = sector (be_data e)" using v by simp
      then show ?thesis using True v disk same by simp
    next
      case False
      then have "contents v x = contents t x" unfolding v(2,13) using v i by (intro contents_upd_other) auto
      then show ?thesis using t(2) that by (simp add: got_def)
    qed
    have "got 0 bn i s v"
      using t(2) i(1) v(3,4) settled_trans[of s t v] cv v by (auto simp add: got_def)
    then show ?thesis using run v disk same by (intro exI[of _ i] exI[of _ v]) simp
  qed
qed

section \<open>Giving a buffer back\<close>

lemma cache_inv_entries: "cache_inv s \<Longrightarrow> \<exists>D. entries_ok (ent s) D"
  by (auto simp add: cache_inv_def cache_ok_def)

text \<open>Releasing a buffer that shows what is on the disk, or that has a delayed write.\<close>

lemma brelse_inv:
  assumes c: "cache_ok s A D" "clean_ok (ent s) (bs_rd s)" and i: "i < NBUF" "be_busy (ent s i)" "be_delwri (ent s i) \<Longrightarrow> \<not> be_err (ent s i)"
    and d: "\<lbrakk>be_dev (ent s i) = 0; on_disk (be_blk (ent s i)); be_done (ent s i); \<not> be_delwri (ent s i)\<rbrakk> \<Longrightarrow>
      sector (be_data (ent s i)) = rd_block (bs_rd s) (be_blk (ent s i))"
  shows "\<exists>s'. brelse (Bufent i) s = Inr s' \<and> cache_inv s' \<and> settled s s' \<and> ent s' = (ent s)(i := released (ent s i)) \<and>
    bs_rd s' = bs_rd s \<and> (\<not> be_err (ent s i) \<longrightarrow> (\<forall>bn. contents s' bn = contents s bn))"
proof -
  obtain s' A' where s': "brelse (Bufent i) s = Inr s'" "pool_lists s' A' D" "settled s s'" "bs_rd s' = bs_rd s"
      "ent s' = (ent s)(i := released (ent s i))"
    using brelse_spec[OF cache_okD(1,3)[OF c(1)] i(1,2)] unfolding released_def by auto
  have "entries_ok (ent s') D" unfolding s'(5) using cache_okD(2)[OF c(1)] i entries_okD(3)[OF cache_okD(2)[OF c(1)] i(1)]
    by (intro entries_ok_upd) (auto simp add: released_def)
  then have "cache_ok s' A' D" by (rule cache_okI[OF c(1) s'(2) _ s'(3)])
  moreover have "clean_ok (ent s') (bs_rd s')" unfolding s'(4,5) using c(2) d NODEV_neq(1)
    by (intro clean_ok_upd) (auto simp add: released_def split: if_splits)
  moreover have "\<not> be_err (ent s i) \<Longrightarrow> contents s' bn = contents s bn" for bn unfolding s'(4,5) by (intro contents_same) (simp_all add: released_def)
  ultimately show ?thesis using s' unfolding cache_inv_def by (intro exI[of _ s']) auto
qed

text \<open>A synchronous write to the RAM disk: the driver leaves the buffer valid, and \<open>bwrite\<close> releases it.\<close>

lemma bwrite_sync:
  assumes c: "cache_ok s A D" "clean_ok (ent s) (bs_rd s)" and i: "i < NBUF" "be_busy (ent s i)" "\<not> be_async (ent s i)"
    and d: "be_dev (ent s i) = 0" "on_disk (be_blk (ent s i))"
  shows "\<exists>s'. bwrite (Bufent i) es s = Ret () es s' \<and> cache_inv s' \<and> settled s s' \<and> \<not> be_busy (ent s' i) \<and> \<not> be_delwri (ent s' i) \<and>
    (\<forall>j. j \<noteq> i \<longrightarrow> ent s' j = ent s j) \<and> rd_block (bs_rd s') (be_blk (ent s i)) = sector (be_data (ent s i)) \<and>
    (\<forall>bn. on_disk bn \<longrightarrow> contents s' bn = (if bn = be_blk (ent s i) then sector (be_data (ent s i)) else contents s bn))"
proof -
  note ok = cache_okD[OF c(1)]
  have m: "major (be_dev (ent s i)) \<in> {0, 1}" by (simp add: d major_def)
  obtain t e where t: "d_strategy (Bufent i) (bwrite_ready (Bufent i) s) = Inr t" "pool_lists t A D" "settled s t" "ent t = (ent s)(i := e)"
      "be_dev e = 0" "be_blk e = be_blk (ent s i)" "\<not> be_delwri e" "be_busy e" "be_done e" "\<not> be_err e" "be_data e = be_data (ent s i)"
      "\<forall>bn. on_disk bn \<longrightarrow> rd_block (bs_rd t) bn = (if bn = be_blk e then sector (be_data e) else rd_block (bs_rd s) bn)"
    using bwrite_strategy[OF ok(1,3) i(1,2) m] i(3) d by auto
  have wr: "written (ent s i) e (bs_rd s) (bs_rd t)" using t d unfolding written_def by auto
  have "entries_ok (ent t) D" unfolding t(4) using ok(2) i(1) wr by (rule written_entries)
  then have ct: "cache_ok t A D" by (rule cache_okI[OF c(1) t(2) _ t(3)])
  have clt: "clean_ok (ent t) (bs_rd t)" unfolding t(4) using ok(2) i(1) c(2) wr by (rule written_clean)
  have cont: "contents t bn = (if bn = be_blk (ent s i) then sector (be_data (ent s i)) else contents s bn)" if "on_disk bn" for bn
    unfolding t(4) using written_contents[OF ok(2) i(1) wr that] d(1) by simp
  have b: "be_busy (ent t i)" "be_delwri (ent t i) \<Longrightarrow> \<not> be_err (ent t i)" "\<not> be_err (ent t i)" using t by simp_all
  have sd: "sector (be_data (ent t i)) = rd_block (bs_rd t) (be_blk (ent t i))" using t d by simp
  obtain s' where s': "brelse (Bufent i) t = Inr s'" "settled t s'" "ent s' = (ent t)(i := released (ent t i))" "bs_rd s' = bs_rd t" "cache_inv s'"
      "\<And>bn. contents s' bn = contents t bn"
    using brelse_inv[OF ct clt i(1) b(1,2) sd] b(3) by blast
  have fl: "b_flags (bs_buf s (Bufent i)) AND B_ASYNC = 0" using i(3) by (simp add: ent_flags)
  have run: "bwrite (Bufent i) es s = Ret () es s'"
  proof -
    have k: "kpure (d_strategy (Bufent i)) es (bwrite_ready (Bufent i) s) = Ret () es t" by (simp add: kpure_def t(1))
    have "bwrite (Bufent i) es s = kthen (iowait (Bufent i)) (kpure (brelse (Bufent i))) es t"
      unfolding bwrite_unfold Let_def kthen_Ret[of "kpure (d_strategy (Bufent i))", OF k] if_P[OF fl] ..
    also have "\<dots> = kpure (brelse (Bufent i)) es t" using t by (intro iowait_done) simp_all
    finally show ?thesis by (simp add: kpure_def s'(1))
  qed
  show ?thesis using run settled_trans[OF t(3) s'(2)] cont s'(3-6) t(4,6,7,11,12) d
    by (intro exI[of _ s']) (simp add: released_def)
qed

lemma bwrite_spec:
  assumes "cache_inv s" "i < NBUF" "be_busy (ent s i)" "\<not> be_async (ent s i)" "be_dev (ent s i) = 0" "on_disk (be_blk (ent s i))"
  shows "\<exists>s'. bwrite (Bufent i) es s = Ret () es s' \<and> cache_inv s' \<and> settled s s' \<and> \<not> be_busy (ent s' i) \<and> \<not> be_delwri (ent s' i) \<and>
    (\<forall>j. j \<noteq> i \<longrightarrow> ent s' j = ent s j) \<and> rd_block (bs_rd s') (be_blk (ent s i)) = sector (be_data (ent s i)) \<and>
    (\<forall>bn. on_disk bn \<longrightarrow> contents s' bn = (if bn = be_blk (ent s i) then sector (be_data (ent s i)) else contents s bn))"
  using assms bwrite_sync unfolding cache_inv_def[of s] by blast

text \<open>A delayed write leaves the disk as it is; the contents change all the same.\<close>

lemma bdwrite_spec:
  assumes c: "cache_inv s" and i: "i < NBUF" "be_busy (ent s i)" "\<not> be_err (ent s i)"
    and d: "be_dev (ent s i) = 0" "on_disk (be_blk (ent s i))"
  shows "\<exists>s'. bdwrite (Bufent i) es s = Ret () es s' \<and> cache_inv s' \<and> settled s s' \<and> \<not> be_busy (ent s' i) \<and> be_delwri (ent s' i) \<and>
    (\<forall>j. j \<noteq> i \<longrightarrow> ent s' j = ent s j) \<and> bs_rd s' = bs_rd s \<and>
    (\<forall>bn. on_disk bn \<longrightarrow> contents s' bn = (if bn = be_blk (ent s i) then sector (be_data (ent s i)) else contents s bn))"
proof -
  obtain A D where ok: "cache_ok s A D" "clean_ok (ent s) (bs_rd s)" using c by (auto simp add: cache_inv_def)
  let ?t = "set_bflags (Bufent i) (B_DELWRI OR B_DONE) s" and ?e = "(ent s i)\<lparr>be_delwri := True, be_done := True\<rparr>"
  have et: "ent ?t = (ent s)(i := ?e)" unfolding set_bflags_def ent_upd_buf bent_or_flags by (simp add: ent_def)
  have wt: "pool_lists ?t A D" using cache_okD(1)[OF ok(1)]
    by (subst pool_lists_cong[where s = s]) (simp_all add: et, simp add: set_bflags_def links_def)
  have st: "settled s ?t" using settled_refl[OF cache_okD(3)[OF ok(1)]] by (rule settled_kern) (simp_all add: set_bflags_def)
  have "entries_ok (ent ?t) D" unfolding et using cache_okD(2)[OF ok(1)] i d NODEV_neq(1) by (intro entries_ok_upd) auto
  then have ct: "cache_ok ?t A D" by (rule cache_okI[OF ok(1) wt _ st])
  have rt: "bs_rd ?t = bs_rd s" by (simp add: set_bflags_def)
  have clt: "clean_ok (ent ?t) (bs_rd ?t)" unfolding et rt using ok(2) by (intro clean_ok_upd) simp_all
  have bt: "be_busy (ent ?t i)" "be_delwri (ent ?t i)" "\<not> be_err (ent ?t i)" using i by (simp_all add: et)
  obtain s' where s': "brelse (Bufent i) ?t = Inr s'" "settled ?t s'" "ent s' = (ent ?t)(i := released (ent ?t i))" "bs_rd s' = bs_rd ?t"
      "cache_inv s'" "\<And>bn. contents s' bn = contents ?t bn"
    using brelse_inv[OF ct clt i(1) bt(1)] bt(2,3) by blast
  have cont: "contents ?t bn = (if bn = be_blk (ent s i) then sector (be_data (ent s i)) else contents s bn)" for bn
  proof (cases "bn = be_blk (ent s i)")
    case True
    then show ?thesis using contents_held[OF cache_okD(2)[OF ct] i(1), of "bs_rd ?t"] d by (simp add: et)
  next
    case False
    then show ?thesis unfolding et rt by (subst contents_upd_other[where w = "bs_rd s"]) auto
  qed
  have run: "bdwrite (Bufent i) es s = Ret () es s'"
  proof -
    have "d_tab (major (b_dev (bs_buf s (Bufent i)))) = Some (Devtab 0)" using d(1) by (simp add: ent_flags d_tab_def major_def)
    moreover have "\<not> bflag (Devtab 0) B_TAPE s" using cache_okD(4)[OF ok(1)] by blast
    ultimately show ?thesis unfolding bdwrite_def kget_run by (simp add: kif_run kmod_run kpure_def s'(1))
  qed
  show ?thesis using run settled_trans[OF st s'(2)] cont s'(3-6) by (intro exI[of _ s']) (simp add: released_def et rt)
qed

section \<open>Flushing\<close>

lemma find_delwri_seg:
  "\<lbrakk>seg (avf s) a xs Bfreelist; Bfreelist \<notin> set xs; length xs < n\<rbrakk> \<Longrightarrow>
   find_delwri n dev s (avf s a) = List.find (\<lambda>r. bflag r B_DELWRI s \<and> (dev = NODEV \<or> dev = b_dev (bs_buf s r))) xs"
proof (induction xs arbitrary: a n)
  case Nil
  then show ?case by (cases n) simp_all
next
  case (Cons x xs)
  then obtain m where m: "n = Suc m" by (cases n) auto
  show ?case using Cons unfolding m by auto
qed

text \<open>\<open>pending dev s i\<close>: the free buffer \<open>i\<close> has a delayed write that a flush of \<open>dev\<close> is for.\<close>

definition pending :: "int \<Rightarrow> bio \<Rightarrow> nat \<Rightarrow> bool" where
  "pending dev s i \<longleftrightarrow>
    i < NBUF \<and> \<not> be_busy (ent s i) \<and> be_delwri (ent s i) \<and> (dev = NODEV \<or> dev = be_dev (ent s i))"

lemma find_delwri_free:
  assumes c: "cache_ok s A D"
  shows "case find_delwri (Suc NBUF) dev s (avf s Bfreelist) of None \<Rightarrow> \<forall>i. \<not> pending dev s i | Some r \<Rightarrow> \<exists>i. r = Bufent i \<and> pending dev s i"
proof -
  let ?P = "\<lambda>r. bflag r B_DELWRI s \<and> (dev = NODEV \<or> dev = b_dev (bs_buf s r))"
  have r: "ring (avf s) (avb s) Bfreelist A" and A: "set A = {Bufent i |i. i < NBUF \<and> \<not> be_busy (ent s i)}"
    using cache_okD(1)[OF c] by (simp_all add: pool_lists_def)
  have d: "distinct A" using r by (simp add: ring_def)
  have "card (set A) \<le> card (Bufent ` {..< NBUF})" unfolding A by (rule card_mono) auto
  then have "length A \<le> NBUF" using distinct_card[OF d] card_image_le[of "{..< NBUF}" Bufent] by simp
  then have f: "find_delwri (Suc NBUF) dev s (avf s Bfreelist) = List.find ?P A"
    using r by (intro find_delwri_seg) (simp_all add: ring_def)
  have p: "?P (Bufent i) \<longleftrightarrow> pending dev s i" if "Bufent i \<in> set A" for i
    using that unfolding A by (auto simp add: pending_def bflag_def ent_flags)
  show ?thesis
  proof (cases "List.find ?P A")
    case None
    then have "\<not> ?P r" if "r \<in> set A" for r using that unfolding find_None_iff by blast
    then have "\<not> pending dev s i" for i using p[of i] A by (auto simp add: pending_def)
    then show ?thesis unfolding f None by simp
  next
    case (Some r)
    then have "r \<in> set A" "?P r" unfolding find_Some_iff by auto
    moreover obtain i where "r = Bufent i" using \<open>r \<in> set A\<close> unfolding A by blast
    ultimately show ?thesis unfolding f Some using p[of i] by auto
  qed
qed

lemma flush_order:
  "notavail bp (set_bflags bp B_ASYNC s) = set_bflags bp B_ASYNC (notavail bp s)"
proof -
  have "av_unlink bp (set_bflags bp B_ASYNC s) = set_bflags bp B_ASYNC (av_unlink bp s)"
    by (auto simp add: av_unlink_def set_bflags_def upd_buf_def Let_def fun_eq_iff)
  then show ?thesis
    by (simp add: notavail_def set_bflags_def upd_buf_def or.assoc or.commute or.left_commute)
qed

text \<open>Every turn of \<open>bflush\<close> writes one pending buffer, so it ends.\<close>

lemma bflush_loop_spec:
  assumes "cache_ok s A D" "clean_ok (ent s) (bs_rd s)" "delayed s < n"
  shows "\<exists>s'. bflush_loop n dev es s = Ret () es s' \<and> cache_inv s' \<and> settled s s' \<and> (\<forall>i. \<not> pending dev s' i) \<and>
    (\<forall>i. be_busy (ent s i) \<longrightarrow> ent s' i = ent s i) \<and> (\<forall>i. be_busy (ent s' i) \<longrightarrow> be_busy (ent s i)) \<and>
    (\<forall>bn. on_disk bn \<longrightarrow> contents s' bn = contents s bn)"
  using assms
proof (induction n arbitrary: s A)
  case (Suc n)
  note c = Suc.prems(1,2)
  show ?case
  proof (cases "find_delwri (Suc NBUF) dev s (avf s Bfreelist)")
    case None
    then have "bflush_loop (Suc n) dev es s = Ret () es s" by (simp add: kern_simps)
    moreover have "\<forall>i. \<not> pending dev s i" using find_delwri_free[OF c(1), of dev] None by simp
    ultimately show ?thesis using c settled_refl[OF cache_okD(3)[OF c(1)]] by (intro exI[of _ s]) (auto simp add: cache_inv_def)
  next
    case (Some r)
    then obtain i where i: "r = Bufent i" "pending dev s i" using find_delwri_free[OF c(1), of dev] by auto
    then have p: "i < NBUF" "\<not> be_busy (ent s i)" "be_delwri (ent s i)" by (simp_all add: pending_def)
    obtain t A' x where t: "bwrite (Bufent i) es (set_bflags (Bufent i) B_ASYNC (notavail (Bufent i) s)) = Ret () es t"
        "cache_ok t A' D" "clean_ok (ent t) (bs_rd t)" "settled s t" "ent t = (ent s)(i := x)" "\<not> be_busy x"
        "written (ent s i) x (bs_rd s) (bs_rd t)"
      using write_out[OF c p, of es] by blast
    have run: "bflush_loop (Suc n) dev es s = bflush_loop n dev es t"
      using Some i(1) t(1) flush_order[of "Bufent i" s] by (simp add: kern_simps)
    have "delayed t < delayed s" using p t(5,7) by (intro delayed_less) (auto simp add: written_def)
    then obtain s' where s': "bflush_loop n dev es t = Ret () es s'" "cache_inv s'" "settled t s'" "\<forall>i. \<not> pending dev s' i"
        "\<forall>i. be_busy (ent t i) \<longrightarrow> ent s' i = ent t i" "\<forall>i. be_busy (ent s' i) \<longrightarrow> be_busy (ent t i)"
        "\<forall>bn. on_disk bn \<longrightarrow> contents s' bn = contents t bn"
      using Suc.IH[OF t(2,3)] Suc.prems(3) by auto
    have "contents t bn = contents s bn" if "on_disk bn" for bn
      unfolding t(5) using cache_okD(2)[OF c(1)] p(1,3) t(7) that by (rule written_delayed_contents)
    moreover have "ent s' k = ent s k" if "be_busy (ent s k)" for k
    proof -
      have "k \<noteq> i" using that p(2) by auto
      then have "ent t k = ent s k" by (simp add: t(5))
      then show ?thesis using s'(5) that by simp
    qed
    moreover have "be_busy (ent s k)" if "be_busy (ent s' k)" for k
    proof -
      have "be_busy (ent t k)" using s'(6) that by blast
      then show ?thesis using t(5,6) by (cases "k = i") simp_all
    qed
    moreover have "contents s' bn = contents s bn" if "on_disk bn" for bn using s'(7) calculation(1) that by simp
    ultimately show ?thesis using run[THEN trans, OF s'(1)] s'(2,4) settled_trans[OF t(4) s'(3)] by blast
  qed
qed simp

lemma bflush_spec:
  assumes c: "cache_inv s"
  shows "\<exists>s'. bflush dev es s = Ret () es s' \<and> cache_inv s' \<and> settled s s' \<and> (\<forall>i. \<not> pending dev s' i) \<and>
    (\<forall>i. be_busy (ent s i) \<longrightarrow> ent s' i = ent s i) \<and> (\<forall>i. be_busy (ent s' i) \<longrightarrow> be_busy (ent s i)) \<and>
    (\<forall>bn. on_disk bn \<longrightarrow> contents s' bn = contents s bn)"
proof -
  obtain A D where ok: "cache_ok s A D" "clean_ok (ent s) (bs_rd s)" using c by (auto simp add: cache_inv_def)
  have "delayed s < Suc NBUF" using delayed_le[of s] by simp
  from bflush_loop_spec[OF ok this] show ?thesis unfolding bflush_def .
qed

text \<open>After a flush the disk agrees with the contents of every block that is not in use.\<close>

lemma flushed_disk:
  assumes c: "cache_inv s" and p: "\<And>i. \<not> pending dev s i" "dev = NODEV \<or> dev = 0"
    and b: "on_disk bn" "\<And>i. \<lbrakk>i < NBUF; be_busy (ent s i); be_dev (ent s i) = 0\<rbrakk> \<Longrightarrow> be_blk (ent s i) \<noteq> bn"
  shows "rd_block (bs_rd s) bn = contents s bn"
proof (cases "\<exists>i < NBUF. be_dev (ent s i) = 0 \<and> be_blk (ent s i) = bn \<and> be_done (ent s i)")
  case True
  then obtain i where i: "i < NBUF" "be_dev (ent s i) = 0" "be_blk (ent s i) = bn" "be_done (ent s i)" by blast
  obtain D where e: "entries_ok (ent s) D" using cache_inv_entries[OF c] by blast
  have nb: "\<not> be_busy (ent s i)" using b(2)[OF i(1)] i by blast
  then have "\<not> be_delwri (ent s i)" using p(1)[of i] p(2) i by (auto simp add: pending_def)
  then have "sector (be_data (ent s i)) = rd_block (bs_rd s) bn" using c i b(1) nb by (auto simp add: cache_inv_def clean_ok_def)
  then show ?thesis using contents_held[OF e i(1,2,4), of "bs_rd s"] i(3) by simp
next
  case False
  then show ?thesis by (subst contents_disk) auto
qed

end
