(* ===== verification/Cache_Init.thy ===== *)
theory Cache_Init
  imports Cache_Contents Signals
begin

text \<open>
  The buffer cache from its initialization in \<open>sys/main.c\<close> on: \<open>binit\<close> establishes the invariant of the cache, and the properties of
  lookup, reading, writing and flushing.
\<close>

section \<open>\<open>binit\<close>\<close>

text \<open>The pool during the loop over \<open>buf\<close>, with the first \<open>n\<close> buffers linked.\<close>

definition linked :: "nat \<Rightarrow> bio \<Rightarrow> bool" where
  "linked n s \<longleftrightarrow>
    (\<exists>A B. ring (avf s) (avb s) Bfreelist A \<and> ring (bfw s) (bbk s) Bfreelist B \<and> set A = Bufent ` {..< n} \<and> set B = Bufent ` {..< n}) \<and>
    (\<forall>i < n. b_flags (bs_buf s (Bufent i)) = 0 \<and> b_dev (bs_buf s (Bufent i)) = NODEV) \<and> \<not> bflag Bfreelist B_WANTED s"

lemma binit_buf_linked:
  assumes l: "linked n s"
  shows "\<exists>s'. binit_buf (Bufent n) s = Inr s' \<and> linked (Suc n) s' \<and> bs_kern s' = bs_kern s \<and> bs_rd s' = bs_rd s \<and>
    (\<forall>m. b_flags (bs_buf s' (Devtab m)) = b_flags (bs_buf s (Devtab m)))"
proof -
  let ?bp = "Bufent n"
  obtain A B where r: "ring (avf s) (avb s) Bfreelist A" "ring (bfw s) (bbk s) Bfreelist B" "set A = Bufent ` {..< n}" "set B = Bufent ` {..< n}"
    using l by (auto simp add: linked_def)
  have nin: "?bp \<notin> set (Bfreelist # A)" "?bp \<notin> set (Bfreelist # B)" using r(3,4) by auto
  define h where "h = b_forw (bs_buf s Bfreelist)"
  have hb: "h \<noteq> ?bp" using ring_next(1)[OF r(2)] nin(2) by (cases B) (auto simp add: h_def)
  define t where "t = upd_buf ?bp (\<lambda>b. b\<lparr>b_flags := B_BUSY\<rparr>) (upd_buf Bfreelist (\<lambda>b. b\<lparr>b_forw := ?bp\<rparr>)
    (upd_buf h (\<lambda>b. b\<lparr>b_back := ?bp\<rparr>) (upd_buf ?bp (\<lambda>b. b\<lparr>b_dev := NODEV, b_back := Bfreelist, b_forw := h\<rparr>) s)))"
  have run1: "binit_buf ?bp s = brelse ?bp t"
    by (simp add: binit_buf_def t_def h_def Let_def upd_buf_def)
  have ft: "b_flags (bs_buf t ?bp) = B_BUSY" "b_dev (bs_buf t ?bp) = NODEV" "bs_kern t = bs_kern s" "bs_rd t = bs_rd s"
    using hb by (auto simp add: t_def)
  have fo: "r \<noteq> ?bp \<Longrightarrow> b_flags (bs_buf t r) = b_flags (bs_buf s r) \<and> b_dev (bs_buf t r) = b_dev (bs_buf s r)" for r by (simp add: t_def)
  have av: "avf t = avf s" "avb t = avb s" by (auto simp add: t_def)
  have bl: "bfw t = (bfw s)(?bp := bfw s Bfreelist, Bfreelist := ?bp)" "bbk t = (bbk s)(bfw s Bfreelist := ?bp, ?bp := Bfreelist)"
    using hb by (auto simp add: t_def h_def)
  have rb: "ring (bfw t) (bbk t) Bfreelist (?bp # B)" unfolding bl using r(2) nin(2) by (rule ring_push)
  define v where "v = av_tail ?bp t"
  define z where "z = clr_bflags ?bp (B_WANTED OR B_BUSY OR B_ASYNC OR B_AGE) v"
  have nf: "\<not> bflag ?bp B_WANTED t" "\<not> bflag Bfreelist B_WANTED t" "\<not> bflag ?bp B_ERROR t" "\<not> bflag ?bp B_AGE t"
    using ft(1) fo[of Bfreelist] l by (simp_all add: bflag_def linked_def)
  have run: "binit_buf ?bp s = Inr z"
    unfolding run1 brelse_def using nf by (simp add: Let_def z_def v_def)
  have pv: "payload (bs_buf v r) = payload (bs_buf t r)" for r by (simp add: v_def link_payload)
  have fz: "b_flags (bs_buf z r) = (if r = ?bp then 0 else b_flags (bs_buf s r))" "b_dev (bs_buf z r) = (if r = ?bp then NODEV else b_dev (bs_buf s r))" for r
  proof -
    have "b_flags (bs_buf v r) = b_flags (bs_buf t r)" "b_dev (bs_buf v r) = b_dev (bs_buf t r)" using pv[of r] by (simp_all add: payload_def)
    then show "b_flags (bs_buf z r) = (if r = ?bp then 0 else b_flags (bs_buf s r))" "b_dev (bs_buf z r) = (if r = ?bp then NODEV else b_dev (bs_buf s r))"
      using ft fo[of r] by (auto simp add: z_def clr_bflags_def b_flag_defs)
  qed
  have ra: "ring (avf z) (avb z) Bfreelist (A @ [?bp])"
  proof -
    have "avf z = avf v" "avb z = avb v" by (auto simp add: z_def clr_bflags_def)
    then have "avf z = (avf t)(avb t Bfreelist := ?bp, ?bp := Bfreelist)" "avb z = (avb t)(?bp := avb t Bfreelist, Bfreelist := ?bp)"
      using av_tail_links[of ?bp t] unfolding v_def by simp_all
    moreover have "avb t Bfreelist = avb s Bfreelist" by (rule fun_cong[OF av(2)])
    ultimately show ?thesis unfolding av using ring_append[OF r(1) nin(1)] by simp
  qed
  have lz: "bfw z = bfw t" "bbk z = bbk t" by (auto simp add: z_def clr_bflags_def v_def link_other[unfolded fun_eq_iff])
  have su: "Bufent ` {..< Suc n} = insert ?bp (Bufent ` {..< n})" by (auto simp add: lessThan_Suc)
  have "ring (avf z) (avb z) Bfreelist (A @ [?bp]) \<and> ring (bfw z) (bbk z) Bfreelist (?bp # B) \<and>
      set (A @ [?bp]) = Bufent ` {..< Suc n} \<and> set (?bp # B) = Bufent ` {..< Suc n}"
    unfolding lz using ra rb r(3,4) su by simp
  moreover have "b_flags (bs_buf z (Bufent i)) = 0 \<and> b_dev (bs_buf z (Bufent i)) = NODEV" if "i < Suc n" for i
    using that l by (auto simp add: fz linked_def less_Suc_eq)
  moreover have "\<not> bflag Bfreelist B_WANTED z" using l by (simp add: bflag_def fz linked_def)
  ultimately have "linked (Suc n) z" unfolding linked_def by blast
  moreover have "bs_kern z = bs_kern s" "bs_rd z = bs_rd s"
    using link_outside(3)[of ?bp t] ft by (simp_all add: z_def clr_bflags_def v_def outside_def)
  ultimately show ?thesis using run fz(1) by auto
qed

lemma binit_bufs_linked:
  assumes "linked 0 s"
  shows "\<exists>s'. sfor (\<lambda>i. binit_buf (Bufent i)) [0 ..< n] s = Inr s' \<and> linked n s' \<and> bs_kern s' = bs_kern s \<and> bs_rd s' = bs_rd s \<and>
    (\<forall>m. b_flags (bs_buf s' (Devtab m)) = b_flags (bs_buf s (Devtab m)))"
proof (induction n)
  case 0
  show ?case using assms by simp
next
  case (Suc n)
  have app: "sfor f (xs @ ys) s = sbind (sfor f xs s) (sfor f ys)" for f :: "nat \<Rightarrow> bio \<Rightarrow> string + bio" and xs ys s
  proof (induction xs arbitrary: s)
    case (Cons x xs)
    then show ?case by (cases "f x s") simp_all
  qed simp
  obtain t where t: "sfor (\<lambda>i. binit_buf (Bufent i)) [0 ..< n] s = Inr t" "linked n t" "bs_kern t = bs_kern s" "bs_rd t = bs_rd s"
      "\<forall>m. b_flags (bs_buf t (Devtab m)) = b_flags (bs_buf s (Devtab m))" using Suc by blast
  obtain v where v: "binit_buf (Bufent n) t = Inr v" "linked (Suc n) v" "bs_kern v = bs_kern t" "bs_rd v = bs_rd t"
      "\<forall>m. b_flags (bs_buf v (Devtab m)) = b_flags (bs_buf t (Devtab m))" using binit_buf_linked[OF t(2)] by blast
  show ?case using t v by (intro exI[of _ v]) (simp add: app)
qed

lemma binit_devs:
  "fold binit_dev [0 .. 8] s =
    (upd_buf (Devtab 7) (\<lambda>b. b\<lparr>b_forw := Devtab 7, b_back := Devtab 7\<rparr>)
      (upd_buf (Devtab 1) (\<lambda>b. b\<lparr>b_forw := Devtab 1, b_back := Devtab 1\<rparr>)
        (upd_buf (Devtab 0) (\<lambda>b. b\<lparr>b_forw := Devtab 0, b_back := Devtab 0\<rparr>) s)))
    \<lparr>bs_kern := (bs_kern s)\<lparr>k_nblkdev := 9\<rparr>\<rparr>" if "k_nblkdev (bs_kern s) = 0"
  using that by (simp add: upto.simps binit_dev_def d_tab_def Let_def upd_buf_def to_i32_id)

lemma sched_wf_nblkdev: "sched_wf k \<Longrightarrow> sched_wf (k\<lparr>k_nblkdev := n\<rparr>)"
proof -
  assume k: "sched_wf k"
  show ?thesis by (intro sched_wf_soft[OF k]) (use k in \<open>auto simp add: procp_def u_def sched_wf_def idle_ok_def\<close>)
qed

lemma fresh_available:
  "\<forall>i < NBUF. be_dev (ent s i) = NODEV \<and> \<not> be_busy (ent s i) \<and> \<not> be_done (ent s i) \<Longrightarrow> available dev bn s"
  unfolding available_def by (intro conjI exI[of _ 0]) (auto simp add: NBUF_def)

text \<open>The state in which \<open>binit\<close> is called: the headers are in memory that is zero at start-up.\<close>

definition boot_state :: "bio \<Rightarrow> bool" where
  "boot_state s \<longleftrightarrow> (\<forall>r. b_flags (bs_buf s r) = 0) \<and> sched_wf (bs_kern s) \<and> k_nblkdev (bs_kern s) = 0"

text \<open>All buffers, and nothing else, are on the available list, and on the list of the buffers without a block, once each; the devices have none.\<close>

definition all_free :: "bio \<Rightarrow> bool" where
  "all_free s \<longleftrightarrow>
    (\<exists>A B. ring (avf s) (avb s) Bfreelist A \<and> ring (bfw s) (bbk s) Bfreelist B \<and>
       length A = NBUF \<and> set A = Bufent ` {..< NBUF} \<and> length B = NBUF \<and> set B = Bufent ` {..< NBUF}) \<and>
    (\<forall>t \<in> heads - {Bfreelist}. ring (bfw s) (bbk s) t [])"

lemma ring_all: "\<lbrakk>ring f g h xs; set xs = Bufent ` {..< n}\<rbrakk> \<Longrightarrow> length xs = n"
  using distinct_card[of xs] by (simp add: ring_def card_image inj_on_def)

lemma binit_spec:
  assumes b: "boot_state s"
  shows "\<exists>s'. binit s = Inr s' \<and> cache_inv s' \<and> (\<forall>i < NBUF. be_dev (ent s' i) = NODEV \<and> \<not> be_busy (ent s' i) \<and> \<not> be_done (ent s' i)) \<and> bs_rd s' = bs_rd s \<and>
    all_free s'"
proof -
  let ?s = "upd_buf Bfreelist (\<lambda>b. b\<lparr>b_forw := Bfreelist, b_back := Bfreelist, av_forw := Bfreelist, av_back := Bfreelist\<rparr>) s"
  have "linked 0 ?s" using b unfolding linked_def
    by (intro conjI exI[of _ "[]"]) (simp_all add: ring_def boot_state_def bflag_def)
  then obtain t where t: "sfor (\<lambda>i. binit_buf (Bufent i)) [0 ..< NBUF] ?s = Inr t" "linked NBUF t" "bs_kern t = bs_kern s" "bs_rd t = bs_rd s"
      "\<forall>m. b_flags (bs_buf t (Devtab m)) = 0"
    using binit_bufs_linked[of ?s NBUF] b by (auto simp add: boot_state_def)
  have nk: "k_nblkdev (bs_kern t) = 0" using t(3) b by (simp add: boot_state_def)
  define z where "z = fold binit_dev [0 .. 8] t"
  note z = z_def[unfolded binit_devs[OF nk]]
  have bz: "r \<notin> {Devtab 0, Devtab 1, Devtab 7} \<Longrightarrow> bs_buf z r = bs_buf t r" for r by (auto simp add: z)
  have ez: "ent z i = ent t i" for i by (simp add: ent_def bz)
  have e0: "be_dev (ent z i) = NODEV \<and> \<not> be_busy (ent z i) \<and> \<not> be_done (ent z i) \<and> \<not> be_delwri (ent z i) \<and> \<not> be_err (ent z i) \<and> \<not> be_async (ent z i)"
    if "i < NBUF" for i using t(2) that by (auto simp add: ez ent_flags linked_def)
  obtain A B where r: "ring (avf t) (avb t) Bfreelist A" "ring (bfw t) (bbk t) Bfreelist B" "set A = Bufent ` {..< NBUF}" "set B = Bufent ` {..< NBUF}"
    using t(2) by (auto simp add: linked_def)
  have dj: "y \<notin> {Devtab 0, Devtab 1, Devtab 7}" if "y \<in> set (Bfreelist # A) \<union> set (Bfreelist # B)" for y using that r(3,4) by auto
  define D where "D = (\<lambda>t. if t = Bfreelist then B else [])"
  have av: "avf z = avf t" "avb z = avb t" by (auto simp add: z fun_eq_iff)
  then have "ring (avf z) (avb z) Bfreelist A" using r(1) by simp
  moreover have D: "ring (bfw z) (bbk z) t (D t)" if "t \<in> heads" for t
  proof (cases "t = Bfreelist")
    case True
    have "ring (bfw z) (bbk z) Bfreelist B" by (rule ring_cong[OF r(2)]) (use dj bz in auto)
    then show ?thesis using True by (simp add: D_def)
  next
    case False
    then have "t \<in> {Devtab 0, Devtab 1, Devtab 7}" using that by (simp add: heads_def)
    then show ?thesis by (auto simp add: D_def ring_def z)
  qed
  moreover have "(\<Union>t \<in> heads. set (D t)) = Bufent ` {..< NBUF}" using r(4) by (auto simp add: D_def heads_def)
  moreover have "set A = {Bufent i |i. i < NBUF \<and> \<not> be_busy (ent z i)}" using r(3) e0 by auto
  ultimately have "pool_lists z A D" unfolding pool_lists_def by (auto simp add: D_def)
  moreover have "entries_ok (ent z) D" unfolding entries_ok_def using e0 by auto
  moreover have "sched_wf (bs_kern z)" "k_nblkdev (bs_kern z) = 9" using b t(3) by (simp_all add: z sched_wf_nblkdev boot_state_def)
  moreover have "\<not> bflag (Devtab m) B_TAPE z" for m using t(5) by (auto simp add: z bflag_def)
  ultimately have "cache_ok z A D" by (simp add: cache_ok_def)
  moreover have "clean_ok (ent z) (bs_rd z)" unfolding clean_ok_def using e0 by blast
  ultimately have "cache_inv z" unfolding cache_inv_def by blast
  moreover have "binit s = Inr z" unfolding binit_def t(1) by (simp add: z_def)
  moreover have "bs_rd z = bs_rd s" by (simp add: z t(4))
  moreover have "all_free z"
  proof -
    have "Bfreelist \<in> heads" by (simp add: heads_def)
    then have "ring (bfw z) (bbk z) Bfreelist B" using D[of Bfreelist] by (simp add: D_def)
    moreover have "ring (avf z) (avb z) Bfreelist A" using r(1) av by simp
    moreover have "ring (bfw z) (bbk z) t []" if "t \<in> heads - {Bfreelist}" for t using D[of t] that by (simp add: D_def)
    ultimately show ?thesis unfolding all_free_def using ring_all[OF _ r(3)] ring_all[OF _ r(4)] r(3,4) by blast
  qed
  ultimately show ?thesis using e0 by blast
qed

section \<open>Properties\<close>

text \<open>
  Claim C17. \<open>binit\<close> turns zeroed buffer headers into a well-formed cache: the available list is a ring of all \<open>NBUF\<close> buffers, and so is the list of
  the buffers without a block; no device has a buffer, none is busy, valid or belongs to a block, so every block of the RAM disk reads as
  it is on the disk, and every block of every device can be looked up without sleeping.\<close>

theorem binit_establishes:
  assumes "boot_state s"
  shows "\<exists>s'. binit s = Inr s' \<and> cache_inv s' \<and> all_free s' \<and>
    (\<forall>i < NBUF. be_dev (ent s' i) = NODEV \<and> \<not> be_busy (ent s' i) \<and> \<not> be_done (ent s' i)) \<and>
    (\<forall>dev bn. available dev bn s') \<and> (\<forall>bn. contents s' bn = rd_block (bs_rd s) bn)"
proof -
  obtain s' where s': "binit s = Inr s'" "cache_inv s'" "\<forall>i < NBUF. be_dev (ent s' i) = NODEV \<and> \<not> be_busy (ent s' i) \<and> \<not> be_done (ent s' i)"
      "bs_rd s' = bs_rd s" "all_free s'" using binit_spec[OF assms] by blast
  have "contents s' bn = rd_block (bs_rd s) bn" for bn using s'(3,4) by (subst contents_disk) auto
  then show ?thesis using s'(1,2,3,5) fresh_available[OF s'(3)] by blast
qed

text \<open>
  Claim C15. \<open>getblk\<close>, for a block of the RAM disk or of the serial disk, finds the buffer of the block or gives it one: if no process uses the block and
  some buffer is free, it returns without sleeping a busy buffer that belongs to the block and to nobody else, even if it first has to write
  out delayed blocks; buffers that others use stay as they are, and the cache stays well-formed (in particular no block ever has two
  buffers). The contents of no block of the RAM disk change, and a valid buffer of such a block holds them. (A delayed block of the serial disk whose
  write fails is lost, so nothing is said of the contents of that disk.)\<close>

theorem getblk_assigns:
  assumes "cache_inv s" "major dev \<in> {0, 1}" "available dev bn s"
  shows "\<exists>i s'. getblk dev bn es s = Ret (Bufent i) es s' \<and> i < NBUF \<and> be_dev (ent s' i) = dev \<and> be_blk (ent s' i) = bn \<and> be_busy (ent s' i) \<and>
    cache_inv s' \<and> (\<forall>j < NBUF. be_busy (ent s j) \<longrightarrow> j \<noteq> i \<and> ent s' j = ent s j) \<and> (\<forall>b. on_disk b \<longrightarrow> contents s' b = contents s b) \<and>
    (dev = 0 \<and> on_disk bn \<and> be_done (ent s' i) \<longrightarrow> sector (be_data (ent s' i)) = contents s bn)"
proof -
  obtain i s' where g: "getblk dev bn es s = Ret (Bufent i) es s'" "got dev bn i s s'" using getblk_spec[OF assms, of es] by blast
  obtain D where "entries_ok (ent s') D" using cache_inv_entries[of s'] g(2) by (auto simp add: got_def)
  then have "dev = 0 \<and> on_disk bn \<and> be_done (ent s' i) \<longrightarrow> sector (be_data (ent s' i)) = contents s bn"
    using contents_held[of "ent s'" D i "bs_rd s'"] g(2) by (auto simp add: got_def)
  then show ?thesis using g by (auto simp add: got_def)
qed

text \<open>
  Claim C13. \<open>bread\<close> reads a block of the RAM disk as the kernel sees it: the buffer it returns is valid and holds the data of an
  earlier delayed write if there is one and of the disk otherwise; reading changes the contents of no block.\<close>

theorem bread_reads:
  assumes "cache_inv s" "on_disk bn" "available 0 bn s"
  shows "\<exists>i s'. bread 0 bn es s = Ret (Bufent i) es s' \<and> be_done (ent s' i) \<and> sector (be_data (ent s' i)) = contents s bn \<and>
    cache_inv s' \<and> (\<forall>b. on_disk b \<longrightarrow> contents s' b = contents s b)"
  using bread_spec[OF assms, of es] by (auto simp add: got_def)

text \<open>
  Claim C14. Writing a buffer of the RAM disk makes its data the contents of its block and changes no other block: at once on the disk with
  \<open>bwrite\<close>, in the cache only with \<open>bdwrite\<close>; both release the buffer and keep the cache well-formed.\<close>

theorem buffer_writes:
  assumes "cache_inv s" "i < NBUF" "be_busy (ent s i)" "\<not> be_async (ent s i)" "\<not> be_err (ent s i)" "be_dev (ent s i) = 0" "on_disk (be_blk (ent s i))"
  defines "bn \<equiv> be_blk (ent s i)" and "d \<equiv> sector (be_data (ent s i))"
  shows "\<exists>s' s''. bwrite (Bufent i) es s = Ret () es s' \<and> bdwrite (Bufent i) es s = Ret () es s'' \<and> cache_inv s' \<and> cache_inv s'' \<and>
    \<not> be_busy (ent s' i) \<and> \<not> be_busy (ent s'' i) \<and> rd_block (bs_rd s') bn = d \<and> bs_rd s'' = bs_rd s \<and>
    (\<forall>b. on_disk b \<longrightarrow> contents s' b = (if b = bn then d else contents s b) \<and> contents s'' b = contents s' b)"
  using bwrite_spec[OF assms(1-4,6,7), of es] bdwrite_spec[OF assms(1-3,5,6,7), of es] unfolding bn_def d_def by auto

text \<open>
  Claim C16. \<open>bflush\<close> ends without sleeping, whatever the schedule and whatever the device, and leaves no delayed write of the device (of any
  device for \<open>NODEV\<close>) in a free buffer. It changes the contents of no block of the RAM disk; when the RAM disk is flushed, or all devices
  are, the RAM disk afterwards holds the contents of each of its blocks that no process is using. (Nothing is said of the contents of the
  serial disk, where a write can fail and then the data are lost.)\<close>

theorem bflush_synchronizes:
  assumes "cache_inv s"
  shows "\<exists>s'. bflush dev es s = Ret () es s' \<and> cache_inv s' \<and> (\<forall>i. \<not> pending dev s' i) \<and>
    (\<forall>bn. on_disk bn \<longrightarrow> contents s' bn = contents s bn \<and>
      ((dev = NODEV \<or> dev = 0) \<and> (\<forall>i < NBUF. be_busy (ent s i) \<and> be_dev (ent s i) = 0 \<longrightarrow> be_blk (ent s i) \<noteq> bn) \<longrightarrow>
        rd_block (bs_rd s') bn = contents s bn))"
proof -
  obtain s' where s': "bflush dev es s = Ret () es s'" "cache_inv s'" "\<forall>i. \<not> pending dev s' i" "\<forall>i. be_busy (ent s i) \<longrightarrow> ent s' i = ent s i"
      "\<forall>i. be_busy (ent s' i) \<longrightarrow> be_busy (ent s i)" "\<forall>bn. on_disk bn \<longrightarrow> contents s' bn = contents s bn"
    using bflush_spec[OF assms(1)] by blast
  have "rd_block (bs_rd s') bn = contents s bn"
    if b: "on_disk bn" "\<forall>i < NBUF. be_busy (ent s i) \<and> be_dev (ent s i) = 0 \<longrightarrow> be_blk (ent s i) \<noteq> bn" and d: "dev = NODEV \<or> dev = 0" for bn
  proof -
    have "be_blk (ent s' i) \<noteq> bn" if "i < NBUF" "be_busy (ent s' i)" "be_dev (ent s' i) = 0" for i
      using that b(2) s'(4,5) by metis
    then show ?thesis using flushed_disk[OF s'(2) _ d b(1)] s'(3,6) b(1) by simp
  qed
  then show ?thesis using s' by blast
qed

section \<open>Witnesses\<close>

definition demo_boot :: bio where
  "demo_boot = \<lparr>
    bs_buf = (\<lambda>_. \<lparr>b_flags = 0, b_forw = Bfreelist, b_back = Bfreelist, av_forw = Bfreelist, av_back = Bfreelist, b_dev = 0, b_bcount = 0,
      b_data = (\<lambda>_. 0), b_blkno = 0, b_error = 0, b_resid = 0\<rparr>),
    bs_kern = demo_sched\<lparr>k_nblkdev := 0\<rparr>, bs_rd = (\<lambda>p k. word_of_nat (p + k)), bs_rx = [], bs_tx = [],
    bs_info = \<lparr>io_nread = 0, io_nreada = 0, io_ncache = 0, io_nwrite = 0, io_bufcount = (\<lambda>_. 0)\<rparr>\<rparr>"

lemma demo_boot: "boot_state demo_boot"
  using demo_sched_wf by (simp add: boot_state_def demo_boot_def sched_wf_nblkdev)

text \<open>A cache with a buffer in use for block 5.\<close>

lemma demo_busy:
  "\<exists>i s. cache_inv s \<and> i < NBUF \<and> be_busy (ent s i) \<and> \<not> be_async (ent s i) \<and> \<not> be_err (ent s i) \<and> be_dev (ent s i) = 0 \<and> be_blk (ent s i) = 5"
proof -
  obtain s where s: "cache_inv s" "\<forall>i < NBUF. be_dev (ent s i) = NODEV \<and> \<not> be_busy (ent s i) \<and> \<not> be_done (ent s i)"
    using binit_spec[OF demo_boot] by blast
  have "available 0 5 s" using s(2) by (rule fresh_available)
  moreover have "major 0 \<in> {0, 1}" by (simp add: major_def)
  ultimately obtain i s' where "got 0 5 i s s'" using getblk_spec[OF s(1)] by blast
  then show ?thesis by (auto simp add: got_def)
qed

theorem binit_establishes_witness: "\<exists>s. binit demo_boot = Inr s \<and> cache_inv s \<and> contents s 3 = rd_block (bs_rd demo_boot) 3"
  using binit_establishes[OF demo_boot] by blast

theorem getblk_assigns_witness:
  "\<exists>s i s'. binit demo_boot = Inr s \<and> getblk 0 7 [] s = Ret (Bufent i) [] s' \<and> be_blk (ent s' i) = 7 \<and> be_busy (ent s' i)"
proof -
  obtain s where s: "binit demo_boot = Inr s" "cache_inv s" "\<forall>i < NBUF. be_dev (ent s i) = NODEV \<and> \<not> be_busy (ent s i) \<and> \<not> be_done (ent s i)"
    using binit_spec[OF demo_boot] by blast
  have a: "available 0 7 s" using s(3) by (rule fresh_available)
  have m: "major 0 \<in> {0, 1}" by (simp add: major_def)
  show ?thesis using getblk_assigns[OF s(2) m a, of "[]"] s(1) by blast
qed

theorem bread_reads_witness:
  "\<exists>s i s'. binit demo_boot = Inr s \<and> bread 0 7 [] s = Ret (Bufent i) [] s' \<and> sector (be_data (ent s' i)) = contents s 7"
proof -
  obtain s where s: "binit demo_boot = Inr s" "cache_inv s" "\<forall>i < NBUF. be_dev (ent s i) = NODEV \<and> \<not> be_busy (ent s i) \<and> \<not> be_done (ent s i)"
    using binit_spec[OF demo_boot] by blast
  have a: "available 0 7 s" using s(3) by (rule fresh_available)
  have b: "on_disk 7" by (simp add: on_disk_def)
  show ?thesis using bread_reads[OF s(2) b a, of "[]"] s(1) by blast
qed

theorem buffer_writes_witness:
  "\<exists>i s s'. cache_inv s \<and> be_blk (ent s i) = 5 \<and> bwrite (Bufent i) [] s = Ret () [] s' \<and> rd_block (bs_rd s') 5 = sector (be_data (ent s i))"
proof -
  obtain i s where d: "cache_inv s" "i < NBUF" "be_busy (ent s i)" "\<not> be_async (ent s i)" "\<not> be_err (ent s i)" "be_dev (ent s i) = 0" "be_blk (ent s i) = 5"
    using demo_busy by blast
  have b: "on_disk (be_blk (ent s i))" by (simp add: d on_disk_def)
  show ?thesis using buffer_writes[OF d(1-6) b, of "[]"] d(1,7) by auto
qed

theorem bflush_synchronizes_witness:
  "\<exists>s s'. binit demo_boot = Inr s \<and> bflush 0 [] s = Ret () [] s' \<and> (\<forall>i. \<not> pending 0 s' i)"
proof -
  obtain s where s: "binit demo_boot = Inr s" "cache_inv s" using binit_spec[OF demo_boot] by blast
  show ?thesis using bflush_synchronizes[OF s(2), of 0 "[]"] s(1) by auto
qed

end
