(* ===== verification/Clist.thy ===== *)
theory Clist
  imports Kernel_Prelude
begin

text \<open>
  The character queues of \<open>sys/prim.c\<close>, at the level of their pointers.

  Characters live in 16-byte blocks (\<open>struct cblock\<close>: a link and \<open>CBSIZE\<close> characters)
  cut out of \<open>cfree_space\<close>; a \<open>clist\<close> points at its first and behind its last
  character, and which block a pointer belongs to is read off its low bits
  (\<open>CROUND\<close>). Addresses are natural numbers, \<open>NULL\<close> is 0, the memory of the blocks
  is the pair of functions \<open>cs_next\<close> (the link of the block at an address) and
  \<open>cs_info\<close> (the byte at an address), and \<open>cs_spl\<close> is the processor priority.

  The abstraction of a queue is the list of its characters. Every operation is
  shown to act on it as a bounded FIFO whose room is the free space in the last
  block and the free blocks, to keep the link structure, and to touch no memory
  but its own and the free blocks'.
\<close>

section \<open>Blocks and queues\<close>

definition CBSIZE :: nat where
  "CBSIZE = 12"

definition CROUND :: nat where
  "CROUND = 15"

definition CBLOCK :: nat where
  "CBLOCK = 16"

definition NCLIST :: nat where
  "NCLIST = 100"

record clist =
  c_cc :: int
  c_cf :: nat
  c_cl :: nat

record cspace =
  cs_next :: "nat \<Rightarrow> nat"
  cs_info :: "nat \<Rightarrow> 8 word"
  cfreelist :: nat
  cbad :: int
  cs_spl :: nat

text \<open>\<open>(unsigned long) p & CROUND\<close> and \<open>p & ~CROUND\<close>; the first character of a block.\<close>

definition cb_off :: "nat \<Rightarrow> nat" where
  "cb_off p = p AND CROUND"

definition cb_base :: "nat \<Rightarrow> nat" where
  "cb_base p = p - cb_off p"

definition c_info :: "nat \<Rightarrow> nat" where
  "c_info bp = bp + 4"

text \<open>\<open>bp->c_next = cfreelist; cfreelist = bp;\<close>\<close>

definition cb_release :: "nat \<Rightarrow> cspace \<Rightarrow> cspace" where
  "cb_release bp cs = cs\<lparr>cs_next := (cs_next cs)(bp := cfreelist cs), cfreelist := bp\<rparr>"

text \<open>\<open>cfreelist = bp->c_next; bp->c_next = NULL;\<close>\<close>

definition cb_take :: "nat \<Rightarrow> cspace \<Rightarrow> cspace" where
  "cb_take bp cs = cs\<lparr>cfreelist := cs_next cs bp, cs_next := (cs_next cs)(bp := 0)\<rparr>"

section \<open>The operations\<close>

definition getc :: "clist \<Rightarrow> cspace \<Rightarrow> int \<times> clist \<times> cspace" where
  "getc p cs =
    (let s = cs_spl cs; cs = cs\<lparr>cs_spl := 6\<rparr>;
         (c, p, cs) =
           (if c_cc p \<le> 0 then (- 1, p\<lparr>c_cc := 0, c_cf := 0, c_cl := 0\<rparr>, cs)
            else let c = uint (cs_info cs (c_cf p));
                     p = p\<lparr>c_cf := c_cf p + 1, c_cc := c_cc p - 1\<rparr>
                 in if c_cc p \<le> 0 then
                      (c, p\<lparr>c_cf := 0, c_cl := 0\<rparr>, cb_release (cb_base (c_cf p - 1)) cs)
                    else if cb_off (c_cf p) = 0 then
                      (let bp = c_cf p - CBLOCK
                       in (c, p\<lparr>c_cf := c_info (cs_next cs bp)\<rparr>, cb_release bp cs))
                    else (c, p, cs))
     in (c, p, cs\<lparr>cs_spl := s\<rparr>))"

text \<open>The loop \<open>while (--cc)\<close> of \<open>q_to_b\<close>; the bytes stored through \<open>cp\<close> are its result.\<close>

fun q_to_b_loop :: "nat \<Rightarrow> clist \<Rightarrow> cspace \<Rightarrow> 8 word list \<times> clist \<times> cspace" where
  "q_to_b_loop 0 q cs = ([], q, cs)"
| "q_to_b_loop (Suc cc) q cs =
    (let c = cs_info cs (c_cf q);
         q = q\<lparr>c_cf := c_cf q + 1, c_cc := c_cc q - 1\<rparr>
     in if c_cc q \<le> 0 then
          ([c], q\<lparr>c_cf := 0, c_cl := 0\<rparr>, cb_release (cb_base (c_cf q - 1)) cs)
        else
          (let (q, cs) =
             (if cb_off (c_cf q) = 0 then
                (let bp = c_cf q - CBLOCK
                 in (q\<lparr>c_cf := c_info (cs_next cs bp)\<rparr>, cb_release bp cs))
              else (q, cs));
               (r, q, cs) = q_to_b_loop cc q cs
           in (c # r, q, cs)))"

definition q_to_b :: "clist \<Rightarrow> int \<Rightarrow> cspace \<Rightarrow> 8 word list \<times> clist \<times> cspace" where
  "q_to_b q cc cs =
    (if cc \<le> 0 then ([], q, cs)
     else let s = cs_spl cs; cs = cs\<lparr>cs_spl := 6\<rparr>
          in if c_cc q \<le> 0 then ([], q\<lparr>c_cc := 0, c_cf := 0, c_cl := 0\<rparr>, cs)
             else let (r, q, cs) = q_to_b_loop (nat cc) q cs
                  in (r, q, cs\<lparr>cs_spl := s\<rparr>))"

text \<open>\<open>ndqb\<close>: the scan stops at the first character that has a bit of \<open>flag\<close>.\<close>

definition ndqb :: "clist \<Rightarrow> 32 word \<Rightarrow> cspace \<Rightarrow> int" where
  "ndqb q flag cs =
    (if c_cc q \<le> 0 then - c_cc q
     else let cc = int (cb_base (c_cf q + CBSIZE)) - int (c_cf q);
              cc = (if c_cc q < cc then c_cc q else cc)
          in if flag \<noteq> 0 then
               int (length (takeWhile (\<lambda>a. scast (cs_info cs a) AND flag = 0)
                                      [c_cf q ..< c_cf q + nat cc]))
             else cc)"

definition ndflush :: "clist \<Rightarrow> int \<Rightarrow> cspace \<Rightarrow> clist \<times> cspace" where
  "ndflush q cc cs =
    (if c_cc q < 0 then
       (if c_cf q \<noteq> 0 then (q\<lparr>c_cc := c_cc q + cc, c_cf := nat (int (c_cf q) + cc)\<rparr>, cs)
        else (q\<lparr>c_cc := 0\<rparr>, cs))
     else if c_cc q = 0 then (q, cs)
     else if cc > int CBSIZE \<or> cc \<le> 0 then (q, cs\<lparr>cbad := to_i16 (cbad cs + 1)\<rparr>)
     else let q = q\<lparr>c_cc := c_cc q - cc, c_cf := c_cf q + nat cc\<rparr>
          in if cb_off (c_cf q) = 0 then
               (let bp = c_cf q - CBLOCK
                in (if cs_next cs bp \<noteq> 0 then q\<lparr>c_cf := c_info (cs_next cs bp)\<rparr>
                    else q\<lparr>c_cf := 0, c_cl := 0\<rparr>,
                    cb_release bp cs))
             else if c_cc q = 0 then
               (q\<lparr>c_cf := 0, c_cl := 0\<rparr>, cb_release (cb_base (c_cf q)) cs)
             else (q, cs))"

text \<open>
  \<open>putc(c, p)\<close>. When the last block is full and no block is free, the store
  \<open>bp->c_next = cfreelist\<close> of \<open>NULL\<close> has been done before the failure is noticed.
\<close>

definition putc :: "int \<Rightarrow> clist \<Rightarrow> cspace \<Rightarrow> int \<times> clist \<times> cspace" where
  "putc c p cs =
    (let s = cs_spl cs; cs = cs\<lparr>cs_spl := 6\<rparr>;
         store = (\<lambda>cp p cs. (0, p\<lparr>c_cc := c_cc p + 1, c_cl := cp + 1\<rparr>,
                    cs\<lparr>cs_info := (cs_info cs)(cp := word_of_int c), cs_spl := s\<rparr>))
     in if c_cl p = 0 \<or> c_cc p < 0 then
          (let bp = cfreelist cs
           in if bp = 0 then (- 1, p, cs\<lparr>cs_spl := s\<rparr>)
              else store (c_info bp) (p\<lparr>c_cf := c_info bp\<rparr>) (cb_take bp cs))
        else if cb_off (c_cl p) = 0 then
          (let bp = c_cl p - CBLOCK;
               cs = cs\<lparr>cs_next := (cs_next cs)(bp := cfreelist cs)\<rparr>
           in if cs_next cs bp = 0 then (- 1, p, cs\<lparr>cs_spl := s\<rparr>)
              else let bp = cs_next cs bp
                   in store (c_info bp) p (cb_take bp cs))
        else store (c_cl p) p cs)"

text \<open>
  The loop of \<open>b_to_q\<close> over the bytes still to be moved; it returns the bytes left,
  \<open>cq\<close> and the memory.
\<close>

fun b_to_q_loop :: "8 word list \<Rightarrow> nat \<Rightarrow> cspace \<Rightarrow> 8 word list \<times> nat \<times> cspace" where
  "b_to_q_loop [] cq cs = ([], cq, cs)"
| "b_to_q_loop (c # r) cq cs =
    (if cb_off cq = 0 then
       (let bp = cq - CBLOCK;
            cs = cs\<lparr>cs_next := (cs_next cs)(bp := cfreelist cs)\<rparr>
        in if cs_next cs bp = 0 then (c # r, cq, cs)
           else let bp = cs_next cs bp; cs = cb_take bp cs; cq = c_info bp
                in b_to_q_loop r (cq + 1) (cs\<lparr>cs_info := (cs_info cs)(cq := c)\<rparr>))
     else b_to_q_loop r (cq + 1) (cs\<lparr>cs_info := (cs_info cs)(cq := c)\<rparr>))"

definition b_to_q :: "8 word list \<Rightarrow> clist \<Rightarrow> cspace \<Rightarrow> int \<times> clist \<times> cspace" where
  "b_to_q cp q cs =
    (if cp = [] then (0, q, cs)
     else let acc = int (length cp); s = cs_spl cs; cs = cs\<lparr>cs_spl := 6\<rparr>;
              out = (\<lambda>cc q cq cs.
                (cc, q\<lparr>c_cl := cq, c_cc := c_cc q + (acc - cc)\<rparr>, cs\<lparr>cs_spl := s\<rparr>));
              move = (\<lambda>q cq cs. case b_to_q_loop cp cq cs of
                (r, cq, cs) \<Rightarrow> out (int (length r)) q cq cs)
          in if c_cl q = 0 \<or> c_cc q < 0 then
               (let bp = cfreelist cs
                in if bp = 0 then out acc q (c_cl q) cs
                   else move (q\<lparr>c_cf := c_info bp\<rparr>) (c_info bp) (cb_take bp cs))
             else move q (c_cl q) cs)"

text \<open>
  \<open>cinit\<close>: every block of the space at address \<open>cfree_space\<close> goes onto the free list;
  the character devices are the leading entries of \<open>cdevsw\<close> with an open routine.
\<close>

definition cfree_base :: "nat \<Rightarrow> nat" where
  "cfree_base space = cb_base (space + CROUND)"

definition cinit :: "nat \<Rightarrow> bool list \<Rightarrow> cspace \<Rightarrow> nat \<times> cspace" where
  "cinit space cdevsw_open cs =
    (length (takeWhile id cdevsw_open),
     fold (\<lambda>i. cb_release (cfree_base space + CBLOCK * i)) [0 ..< NCLIST] cs)"

definition getw :: "clist \<Rightarrow> cspace \<Rightarrow> int \<times> clist \<times> cspace" where
  "getw p cs =
    (if c_cc p \<le> 1 then (- 1, p, cs)
     else let (s, p, cs) = getc p cs; (c, p, cs) = getc p cs
          in (s OR push_bit 8 c, p, cs))"

text \<open>\<open>putw\<close>: only an empty free list is refused; the results of \<open>putc\<close> are ignored.\<close>

definition putw :: "int \<Rightarrow> clist \<Rightarrow> cspace \<Rightarrow> int \<times> clist \<times> cspace" where
  "putw c p cs =
    (let s = cs_spl cs; cs = cs\<lparr>cs_spl := 6\<rparr>
     in if cfreelist cs = 0 then (- 1, p, cs\<lparr>cs_spl := s\<rparr>)
        else let (r1, p, cs) = putc c p cs;
                 (r2, p, cs) = putc (drop_bit 8 c) p cs
             in (0, p, cs\<lparr>cs_spl := s\<rparr>))"

section \<open>Well-formed queues\<close>

lemma cb_off_mod: "cb_off p = p mod 16"
proof -
  have "cb_off p = p AND mask 4"
    by (simp add: cb_off_def CROUND_def mask_eq_exp_minus_1)
  then show ?thesis
    by (simp add: take_bit_eq_mask[symmetric] take_bit_eq_mod)
qed

lemma cb_off_in_block:
  assumes "b mod 16 = 0" "b < p" "p \<le> b + 16"
  shows "cb_off p = 0 \<longleftrightarrow> p = b + 16"
proof -
  from assms(1) obtain k where k: "b = 16 * k" by (auto simp add: mod_eq_0_iff_dvd)
  show ?thesis
  proof (cases "p = b + 16")
    case False
    with assms obtain d where d: "p = b + d" "0 < d" "d < 16"
      by (metis le_eq_less_or_eq less_imp_add_positive nat_add_left_cancel_less)
    then show ?thesis by (simp add: cb_off_mod k)
  qed (simp add: cb_off_mod k)
qed

lemma cb_base_in_block:
  assumes "b mod 16 = 0" "b \<le> p" "p < b + 16"
  shows "cb_base p = b"
proof -
  from assms(1) obtain k where k: "b = 16 * k" by (auto simp add: mod_eq_0_iff_dvd)
  from assms obtain d where d: "p = b + d" "d < 16"
    by (metis le_iff_add nat_add_left_cancel_less)
  then show ?thesis by (simp add: cb_base_def cb_off_mod k)
qed

lemma blocks_disjoint:
  assumes "b mod 16 = (0 :: nat)" "c mod 16 = 0" "b \<noteq> c" "b \<le> a" "a < b + 16"
  shows "\<not> (c \<le> a \<and> a < c + 16)"
  using cb_base_in_block[OF assms(1,4,5)] cb_base_in_block[OF assms(2)] assms(3) by auto

text \<open>A list of blocks linked through \<open>nx\<close> from \<open>p\<close> to \<open>NULL\<close>.\<close>

fun chain :: "(nat \<Rightarrow> nat) \<Rightarrow> nat \<Rightarrow> nat list \<Rightarrow> bool" where
  "chain nx p [] \<longleftrightarrow> p = 0"
| "chain nx p (b # bs) \<longleftrightarrow> p = b \<and> 0 < b \<and> b mod 16 = 0 \<and> chain nx (nx b) bs"

lemma chain_upd [simp]: "b \<notin> set bs \<Longrightarrow> chain (nx(b := v)) p bs = chain nx p bs"
  by (induction bs arbitrary: p) auto

lemma chain_cong: "(\<And>b. b \<in> set bs \<Longrightarrow> nx b = nx' b) \<Longrightarrow> chain nx p bs = chain nx' p bs"
  by (induction bs arbitrary: p) auto

lemma chain_mem: "\<lbrakk>chain nx p bs; b \<in> set bs\<rbrakk> \<Longrightarrow> 0 < b \<and> b mod 16 = 0"
  by (induction bs arbitrary: p) auto

lemma chain_snoc:
  "\<lbrakk>chain nx p bs; bs \<noteq> []; distinct bs; c \<notin> set bs; 0 < c; c mod 16 = 0\<rbrakk> \<Longrightarrow>
   chain (nx(last bs := c, c := 0)) p (bs @ [c])"
proof (induction bs arbitrary: p)
  case (Cons b bs)
  show ?case
  proof (cases bs)
    case (Cons b' bs')
    with Cons.prems have "b \<noteq> last bs" "b \<noteq> c" by auto
    with Cons.IH[of "nx b"] Cons.prems Cons show ?thesis by auto
  qed (use Cons.prems in auto)
qed simp

text \<open>The addresses of a queue's characters, in order.\<close>

fun span :: "nat \<Rightarrow> nat list \<Rightarrow> nat \<Rightarrow> nat list" where
  "span f [] l = []"
| "span f [b] l = [f ..< l]"
| "span f (b # c # bs) l = [f ..< b + 16] @ span (c + 4) (c # bs) l"

lemma span_block:
  assumes "a \<in> set (span f B l)" "distinct B" "hd B + 4 \<le> f" "l \<le> last B + 16"
  shows "\<exists>b \<in> set B. b + 4 \<le> a \<and> a < b + 16 \<and> (b = last B \<longrightarrow> a < l)"
  using assms
proof (induction f B l rule: span.induct)
  case (3 f b c bs l)
  show ?case
  proof (cases "a < b + 16 \<and> f \<le> a")
    case True
    with "3.prems" have "b + 4 \<le> a \<and> a < b + 16 \<and> b \<noteq> last (b # c # bs)"
      by auto
    then show ?thesis by auto
  next
    case False
    with "3.prems" have "a \<in> set (span (c + 4) (c # bs) l)" by auto
    with "3.IH" "3.prems" show ?thesis by auto
  qed
qed auto

lemma span_snoc_char:
  "\<lbrakk>B \<noteq> []; last B + 4 \<le> l; length B = 1 \<longrightarrow> f \<le> l\<rbrakk> \<Longrightarrow> span f B (l + 1) = span f B l @ [l]"
proof (induction f B l rule: span.induct)
  case (3 f b c bs l)
  have "length (c # bs) = 1 \<longrightarrow> c + 4 \<le> l" using "3.prems" by auto
  with 3 show ?case by simp
qed auto

lemma span_snoc_block:
  "B \<noteq> [] \<Longrightarrow> span f (B @ [c]) (c + 5) = span f B (last B + 16) @ [c + 4]"
proof (induction f B "last B + 16" rule: span.induct)
  case (2 f b)
  have "[c + 4 ..< c + 5] = [c + 4]" by (simp add: upt_rec)
  then show ?case by simp
next
  case (3 f b c' bs)
  then show ?case by simp
qed auto

lemma span_map_upd:
  assumes "distinct B" "hd B + 4 \<le> f" "l \<le> last B + 16" "\<forall>b \<in> set B. b mod 16 = 0"
    "x \<in> set B \<longrightarrow> x = last B \<and> l \<le> a" "x mod 16 = 0" "x + 4 \<le> a" "a < x + 16"
  shows "map (m(a := v)) (span f B l) = map m (span f B l)"
proof (rule map_cong[OF refl])
  fix y
  assume "y \<in> set (span f B l)"
  then obtain b where b: "b \<in> set B" "b + 4 \<le> y" "y < b + 16" "b = last B \<longrightarrow> y < l"
    using span_block[OF _ assms(1-3)] by blast
  have "y \<noteq> a"
  proof
    assume "y = a"
    with b assms have "b = x" using blocks_disjoint[of b x y] by force
    with b assms \<open>y = a\<close> show False by auto
  qed
  then show "(m(a := v)) y = m y" by simp
qed

text \<open>\<open>q\<close> is a well-formed queue over the blocks \<open>B\<close>.\<close>

definition q_ok :: "clist \<Rightarrow> nat list \<Rightarrow> (nat \<Rightarrow> nat) \<Rightarrow> bool" where
  "q_ok q B nx \<longleftrightarrow>
    (if B = [] then c_cc q = 0 \<and> c_cf q = 0 \<and> c_cl q = 0
     else chain nx (hd B) B \<and> hd B + 4 \<le> c_cf q \<and> c_cf q < hd B + 16 \<and>
       last B + 4 < c_cl q \<and> c_cl q \<le> last B + 16 \<and>
       (length B = 1 \<longrightarrow> c_cf q < c_cl q) \<and>
       c_cc q = int (length (span (c_cf q) B (c_cl q))))"

text \<open>The whole structure: the free blocks \<open>F\<close> and the queue's blocks \<open>B\<close>.\<close>

definition cl_ok :: "clist \<Rightarrow> cspace \<Rightarrow> nat list \<Rightarrow> nat list \<Rightarrow> bool" where
  "cl_ok q cs F B \<longleftrightarrow>
    chain (cs_next cs) (cfreelist cs) F \<and> q_ok q B (cs_next cs) \<and> distinct (F @ B)"

definition contents :: "clist \<Rightarrow> cspace \<Rightarrow> nat list \<Rightarrow> 8 word list" where
  "contents q cs B = map (cs_info cs) (span (c_cf q) B (c_cl q))"

text \<open>How many characters still fit.\<close>

definition room :: "clist \<Rightarrow> nat list \<Rightarrow> nat list \<Rightarrow> nat" where
  "room q F B = CBSIZE * length F + (if B = [] then 0 else last B + 16 - c_cl q)"

text \<open>Nothing outside the given blocks has changed.\<close>

definition cl_frame :: "nat set \<Rightarrow> cspace \<Rightarrow> cspace \<Rightarrow> bool" where
  "cl_frame X cs cs' \<longleftrightarrow>
    (\<forall>b. b \<notin> X \<longrightarrow> cs_next cs' b = cs_next cs b) \<and>
    (\<forall>a. (\<forall>b \<in> X. \<not> (b + 4 \<le> a \<and> a < b + 16)) \<longrightarrow> cs_info cs' a = cs_info cs a) \<and>
    cs_spl cs' = cs_spl cs \<and> cbad cs' = cbad cs"

lemma cl_frame_trans:
  "\<lbrakk>cl_frame X cs cs'; cl_frame X cs' cs''\<rbrakk> \<Longrightarrow> cl_frame X cs cs''"
  by (simp add: cl_frame_def)

lemma cl_frame_refl [simp]: "cl_frame X cs cs"
  by (simp add: cl_frame_def)

lemma contents_length: "cl_ok q cs F B \<Longrightarrow> int (length (contents q cs B)) = c_cc q"
  by (cases "B = []") (simp_all add: cl_ok_def q_ok_def contents_def)

lemma contents_Nil_iff: "cl_ok q cs F B \<Longrightarrow> contents q cs B = [] \<longleftrightarrow> B = []"
  by (cases B; cases "tl B") (auto simp add: cl_ok_def q_ok_def contents_def)

section \<open>Taking characters out\<close>

text \<open>
  The step shared by \<open>getc\<close>, \<open>q_to_b\<close> and \<open>ndflush\<close>: \<open>n\<close> characters, all in the first block, leave
  the queue, and the block goes onto the free list when they were its last.
\<close>

definition drop_front :: "nat \<Rightarrow> clist \<Rightarrow> cspace \<Rightarrow> clist \<times> cspace" where
  "drop_front n q cs =
    (let q' = q\<lparr>c_cf := c_cf q + n, c_cc := c_cc q - int n\<rparr>
     in if c_cc q' \<le> 0 then
          (q'\<lparr>c_cf := 0, c_cl := 0\<rparr>, cb_release (cb_base (c_cf q + n - 1)) cs)
        else if cb_off (c_cf q') = 0 then
          (q'\<lparr>c_cf := c_info (cs_next cs (c_cf q' - CBLOCK))\<rparr>, cb_release (c_cf q' - CBLOCK) cs)
        else (q', cs))"

lemma cb_release_simps [simp]:
  "cs_next (cb_release b cs) = (cs_next cs)(b := cfreelist cs)"
  "cfreelist (cb_release b cs) = b"
  "cs_info (cb_release b cs) = cs_info cs"
  "cs_spl (cb_release b cs) = cs_spl cs"
  "cbad (cb_release b cs) = cbad cs"
  by (simp_all add: cb_release_def)

lemma cl_frame_release: "b \<in> X \<Longrightarrow> cl_frame X cs (cb_release b cs)"
  by (auto simp add: cl_frame_def)

lemma drop_front_single:
  assumes ok: "cl_ok q cs F [b]" and n: "0 < n" "int n \<le> c_cc q"
  shows "\<exists>F' B'. cl_ok (fst (drop_front n q cs)) (snd (drop_front n q cs)) F' B' \<and>
      contents (fst (drop_front n q cs)) (snd (drop_front n q cs)) B' = drop n (contents q cs [b]) \<and>
      set F' \<union> set B' = set F \<union> {b} \<and> set F \<subseteq> set F' \<and>
      cl_frame (set F \<union> {b}) cs (snd (drop_front n q cs))"
proof -
  have facts: "chain (cs_next cs) (cfreelist cs) F" "b \<notin> set F" "distinct F" "0 < b" "b mod 16 = 0"
    "b + 4 \<le> c_cf q" "c_cf q < c_cl q" "c_cl q \<le> b + 16" "c_cc q = int (c_cl q - c_cf q)"
    "cs_next cs b = 0" "b + 4 < c_cl q"
    using ok by (auto simp add: cl_ok_def q_ok_def)
  show ?thesis
  proof (cases "c_cf q + n = c_cl q")
    case True
    have "cb_base (c_cf q + n - 1) = b"
      using facts n True by (intro cb_base_in_block) auto
    then have d: "drop_front n q cs = (q\<lparr>c_cf := 0, c_cc := 0, c_cl := 0\<rparr>, cb_release b cs)"
      using True facts by (simp add: drop_front_def Let_def)
    have "cl_ok (fst (drop_front n q cs)) (snd (drop_front n q cs)) (b # F) []"
      using facts by (simp add: d cl_ok_def q_ok_def)
    moreover have "drop n (contents q cs [b]) = []"
      using True by (simp add: contents_def)
    ultimately show ?thesis
      by - (rule exI[of _ "b # F"], rule exI[of _ "[]"], simp add: d contents_def cl_frame_release subset_insertI)
  next
    case False
    have "cb_off (c_cf q + n) \<noteq> 0"
      using facts n False by (subst cb_off_in_block[of b]) auto
    then have d: "drop_front n q cs = (q\<lparr>c_cf := c_cf q + n, c_cc := c_cc q - int n\<rparr>, cs)"
      using False facts n by (simp add: drop_front_def Let_def)
    show ?thesis
      using facts n False
      by (intro exI[of _ F] exI[of _ "[b]"])
         (auto simp add: d cl_ok_def q_ok_def contents_def drop_map)
  qed
qed

lemma drop_front_more:
  assumes ok: "cl_ok q cs F (b # c # B)" and n: "0 < n" "c_cf q + n \<le> b + 16"
  shows "\<exists>F' B'. cl_ok (fst (drop_front n q cs)) (snd (drop_front n q cs)) F' B' \<and>
      contents (fst (drop_front n q cs)) (snd (drop_front n q cs)) B' =
        drop n (contents q cs (b # c # B)) \<and>
      set F' \<union> set B' = set F \<union> set (b # c # B) \<and> set F \<subseteq> set F' \<and>
      cl_frame (set F \<union> set (b # c # B)) cs (snd (drop_front n q cs))"
proof -
  have facts: "chain (cs_next cs) (cfreelist cs) F" "distinct (F @ b # c # B)"
    "0 < b" "b mod 16 = 0" "b + 4 \<le> c_cf q" "c_cf q < b + 16"
    "c_cc q = int (b + 16 - c_cf q) + int (length (span (c + 4) (c # B) (c_cl q)))"
    "cs_next cs b = c" "chain (cs_next cs) c (c # B)"
    "last (c # B) + 4 < c_cl q" "c_cl q \<le> last (c # B) + 16"
    using ok by (auto simp add: cl_ok_def q_ok_def)
  have ne: "span (c + 4) (c # B) (c_cl q) \<noteq> []"
    using facts(10) by (cases B) auto
  then have "0 < length (span (c + 4) (c # B) (c_cl q))" by blast
  then have lt: "int n < c_cc q" using facts(6,7) n by linarith
  show ?thesis
  proof (cases "c_cf q + n = b + 16")
    case True
    have "cb_off (c_cf q + n) = 0" using facts True by (subst cb_off_in_block[of b]) auto
    then have d: "drop_front n q cs =
        (q\<lparr>c_cf := c + 4, c_cc := c_cc q - int n\<rparr>, cb_release b cs)"
      using True facts(8) lt by (simp add: drop_front_def Let_def CBLOCK_def c_info_def)
    have "int (b + 16 - c_cf q) = int n" using True by simp
    then have "cl_ok (fst (drop_front n q cs)) (snd (drop_front n q cs)) (b # F) (c # B)"
      using facts by (auto simp add: d cl_ok_def q_ok_def split: if_splits)
    moreover have "contents (fst (drop_front n q cs)) (snd (drop_front n q cs)) (c # B)
        = drop n (contents q cs (b # c # B))"
      using True by (auto simp add: d contents_def)
    ultimately show ?thesis
      by (intro exI[of _ "b # F"] exI[of _ "c # B"]) (auto simp add: d cl_frame_release)
  next
    case False
    have "cb_off (c_cf q + n) \<noteq> 0"
      using facts n False by (subst cb_off_in_block[of b]) auto
    with lt have d: "drop_front n q cs = (q\<lparr>c_cf := c_cf q + n, c_cc := c_cc q - int n\<rparr>, cs)"
      by (simp add: drop_front_def Let_def)
    show ?thesis
      using facts n False
      by (intro exI[of _ F] exI[of _ "b # c # B"])
         (auto simp add: d cl_ok_def q_ok_def contents_def drop_map)
  qed
qed

lemma drop_front_ok:
  assumes ok: "cl_ok q cs F B" and B: "B \<noteq> []"
    and n: "0 < n" "int n \<le> c_cc q" "c_cf q + n \<le> hd B + 16"
  shows "\<exists>F' B'. cl_ok (fst (drop_front n q cs)) (snd (drop_front n q cs)) F' B' \<and>
      contents (fst (drop_front n q cs)) (snd (drop_front n q cs)) B' = drop n (contents q cs B) \<and>
      set F' \<union> set B' = set F \<union> set B \<and> set F \<subseteq> set F' \<and>
      cl_frame (set F \<union> set B) cs (snd (drop_front n q cs))"
proof (cases B)
  case (Cons b bs)
  show ?thesis
  proof (cases bs)
    case Nil
    with Cons drop_front_single[of q cs F b n] ok n show ?thesis by simp
  next
    case (Cons c cs')
    with \<open>B = b # bs\<close> drop_front_more[of q cs F b c cs' n] ok n show ?thesis by simp
  qed
qed (use B in simp)

lemma release_spl: "(cb_release b (cs\<lparr>cs_spl := s\<rparr>))\<lparr>cs_spl := s'\<rparr> = (cb_release b cs)\<lparr>cs_spl := s'\<rparr>"
  by (simp add: cb_release_def)

lemma release_spl_id: "(cb_release b cs)\<lparr>cs_spl := cs_spl cs\<rparr> = cb_release b cs"
  by (simp add: cb_release_def)

lemma getc_drop_front:
  "0 < c_cc p \<Longrightarrow> getc p cs = (uint (cs_info cs (c_cf p)), drop_front 1 p cs)"
  by (simp add: getc_def drop_front_def Let_def release_spl release_spl_id)

lemma q_nonempty:
  assumes "cl_ok q cs F B" "B \<noteq> []"
  shows "0 < c_cc q" "c_cf q + 1 \<le> hd B + 16"
    "contents q cs B = cs_info cs (c_cf q) # tl (contents q cs B)"
proof -
  show "0 < c_cc q"
    using contents_length[OF assms(1)] contents_Nil_iff[OF assms(1)] assms(2)
    by (metis length_greater_0_conv of_nat_0_less_iff)
  show "c_cf q + 1 \<le> hd B + 16" using assms by (auto simp add: cl_ok_def q_ok_def)
  show "contents q cs B = cs_info cs (c_cf q) # tl (contents q cs B)"
    using assms by (cases B; cases "tl B") (auto simp add: cl_ok_def q_ok_def contents_def upt_rec)
qed

lemma getc_empty:
  assumes "cl_ok q cs F []"
  shows "getc q cs = (- 1, q, cs)"
  using assms by (simp add: cl_ok_def q_ok_def getc_def Let_def)

lemma getc_ok:
  assumes ok: "cl_ok q cs F B" and x: "contents q cs B = x # xs" and g: "getc q cs = (c, q', cs')"
  shows "c = uint x \<and> (\<exists>F' B'. cl_ok q' cs' F' B' \<and> contents q' cs' B' = xs \<and>
      set F' \<union> set B' = set F \<union> set B \<and> set F \<subseteq> set F' \<and> cl_frame (set F \<union> set B) cs cs')"
proof -
  have B: "B \<noteq> []" using contents_Nil_iff[OF ok] x by auto
  note ne = q_nonempty[OF ok B]
  with g have eq: "c = uint (cs_info cs (c_cf q))" "drop_front 1 q cs = (q', cs')"
    by (simp_all add: getc_drop_front)
  from drop_front_ok[OF ok B, of 1] ne eq(2) x ne(3) eq(1)
  show ?thesis by auto
qed

lemma q_to_b_loop_step:
  "q_to_b_loop (Suc n) q cs =
    (if c_cc q \<le> 1 then ([cs_info cs (c_cf q)], drop_front 1 q cs)
     else (case q_to_b_loop n (fst (drop_front 1 q cs)) (snd (drop_front 1 q cs)) of
       (r, q', cs') \<Rightarrow> (cs_info cs (c_cf q) # r, q', cs')))"
  by (simp add: drop_front_def Let_def)

lemma q_to_b_loop_ok:
  assumes "cl_ok q cs F B" "B \<noteq> []" "q_to_b_loop (Suc n) q cs = (r, q', cs')"
  shows "r = take (Suc n) (contents q cs B) \<and>
    (\<exists>F' B'. cl_ok q' cs' F' B' \<and> contents q' cs' B' = drop (Suc n) (contents q cs B) \<and>
      set F' \<union> set B' = set F \<union> set B \<and> cl_frame (set F \<union> set B) cs cs')"
  using assms
proof (induction n arbitrary: q cs F B r q' cs')
  case 0
  note ne = q_nonempty[OF "0.prems"(1,2)]
  have "q_to_b_loop (Suc 0) q cs = ([cs_info cs (c_cf q)], drop_front 1 q cs)"
    by (simp only: q_to_b_loop_step) (simp split: prod.split)
  with "0.prems"(3) have eq: "r = [cs_info cs (c_cf q)]" "drop_front 1 q cs = (q', cs')"
    by simp_all
  from drop_front_ok[OF "0.prems"(1,2), of 1] ne eq(2)
  have "\<exists>F' B'. cl_ok q' cs' F' B' \<and> contents q' cs' B' = drop (Suc 0) (contents q cs B) \<and>
      set F' \<union> set B' = set F \<union> set B \<and> cl_frame (set F \<union> set B) cs cs'"
    by (simp, blast)
  moreover have "take (Suc 0) (contents q cs B) = r"
    using eq(1) by (subst ne(3)) simp
  ultimately show ?case by auto
next
  case (Suc n)
  note ne = q_nonempty[OF Suc.prems(1,2)]
  obtain q1 cs1 where d: "drop_front 1 q cs = (q1, cs1)" by fastforce
  from drop_front_ok[OF Suc.prems(1,2), of 1] ne d
  obtain F1 B1 where 1: "cl_ok q1 cs1 F1 B1" "contents q1 cs1 B1 = tl (contents q cs B)"
      "set F1 \<union> set B1 = set F \<union> set B" "cl_frame (set F \<union> set B) cs cs1"
    by (auto simp add: drop_Suc)
  have len: "int (length (contents q cs B)) = c_cc q"
    using contents_length[OF Suc.prems(1)] .
  have hd_tl: "contents q cs B = cs_info cs (c_cf q) # contents q1 cs1 B1"
    using ne(3) 1(2) by simp
  show ?case
  proof (cases "c_cc q \<le> 1")
    case True
    moreover have "c_cc q = 1 + int (length (contents q1 cs1 B1))" using len hd_tl by simp
    ultimately have "length (contents q1 cs1 B1) = 0" by linarith
    then have e: "contents q1 cs1 B1 = []" by simp
    have eq: "r = [cs_info cs (c_cf q)]" "q' = q1" "cs' = cs1"
      using True Suc.prems(3) d by (simp_all only: q_to_b_loop_step) auto
    have "contents q cs B = [cs_info cs (c_cf q)]" using hd_tl e by simp
    then have "r = take (Suc (Suc n)) (contents q cs B)"
      "contents q1 cs1 B1 = drop (Suc (Suc n)) (contents q cs B)"
      using e eq(1) by simp_all
    with 1 eq(2,3) show ?thesis by blast
  next
    case False
    with len hd_tl have "contents q1 cs1 B1 \<noteq> []" by auto
    then have B1: "B1 \<noteq> []" using contents_Nil_iff[OF 1(1)] by simp
    obtain r1 q2 cs2 where l: "q_to_b_loop (Suc n) q1 cs1 = (r1, q2, cs2)"
      using prod_cases3 by blast
    from False Suc.prems(3) d l have eq: "r = cs_info cs (c_cf q) # r1" "q' = q2" "cs' = cs2"
      by (simp_all only: q_to_b_loop_step[of "Suc n"]) auto
    from Suc.IH[OF 1(1) B1 l] hd_tl eq 1(3) cl_frame_trans[OF 1(4)]
    show ?thesis by auto
  qed
qed

section \<open>Counting and flushing without copying\<close>

lemma ndqb_noflag:
  assumes "cl_ok q cs F B" "B \<noteq> []"
  shows "ndqb q 0 cs = min (c_cc q) (int (hd B + 16 - c_cf q))"
proof -
  have b: "hd B mod 16 = 0" "hd B + 4 \<le> c_cf q" "c_cf q < hd B + 16"
    using assms by (cases B; auto simp add: cl_ok_def q_ok_def)+
  have "cb_base (c_cf q + 12) = hd B + 16"
    using b by (intro cb_base_in_block) auto
  with q_nonempty(1)[OF assms] b show ?thesis
    by (auto simp add: ndqb_def CBSIZE_def Let_def)
qed

lemma span_first:
  assumes "q_ok q B nx" "B \<noteq> []" "int n \<le> c_cc q" "c_cf q + n \<le> hd B + 16"
  shows "[c_cf q ..< c_cf q + n] = take n (span (c_cf q) B (c_cl q))"
  using assms by (cases B; cases "tl B") (auto simp add: q_ok_def)

lemma ndqb_flag:
  assumes ok: "cl_ok q cs F B" and B: "B \<noteq> []" and fl: "flag \<noteq> 0"
  shows "ndqb q flag cs = int (length (takeWhile (\<lambda>x. scast x AND flag = 0)
      (take (nat (ndqb q 0 cs)) (contents q cs B))))"
proof -
  have n0: "0 \<le> ndqb q 0 cs"
    using ndqb_noflag[OF ok B] q_nonempty(1)[OF ok B] by simp
  have "[c_cf q ..< c_cf q + nat (ndqb q 0 cs)] =
      take (nat (ndqb q 0 cs)) (span (c_cf q) B (c_cl q))"
  proof (rule span_first[OF _ B])
    show "q_ok q B (cs_next cs)" using ok by (simp add: cl_ok_def)
    show "int (nat (ndqb q 0 cs)) \<le> c_cc q" using n0 ndqb_noflag[OF ok B] by simp
    have "c_cf q < hd B + 16" using ok B by (simp add: cl_ok_def q_ok_def)
    then show "c_cf q + nat (ndqb q 0 cs) \<le> hd B + 16"
      using ndqb_noflag[OF ok B] by (simp add: min_def) linarith
  qed
  moreover have "ndqb q flag cs = int (length (takeWhile (\<lambda>a. scast (cs_info cs a) AND flag = 0)
      [c_cf q ..< c_cf q + nat (ndqb q 0 cs)]))"
    using q_nonempty(1)[OF ok B] fl by (simp add: ndqb_def Let_def)
  ultimately show ?thesis
    by (simp add: contents_def take_map takeWhile_map comp_def)
qed

lemma ndflush_drop_front:
  assumes ok: "cl_ok q cs F B" and B: "B \<noteq> []" and n: "0 < n" "int n \<le> ndqb q 0 cs"
  shows "ndflush q (int n) cs = drop_front n q cs"
proof -
  obtain b bs where Bb: "B = b # bs" using B by (cases B) auto
  have b: "b mod 16 = 0" "0 < b" "b + 4 \<le> c_cf q" "c_cf q < b + 16"
    using ok by (auto simp add: Bb cl_ok_def q_ok_def)
  note cc = q_nonempty(1)[OF ok B]
  have le: "int n \<le> c_cc q" "c_cf q + n \<le> b + 16"
    using n(2) b ndqb_noflag[OF ok B] by (auto simp add: Bb)
  have off: "cb_off (c_cf q + n) = 0 \<longleftrightarrow> c_cf q + n = b + 16"
    using b n le by (intro cb_off_in_block) auto
  have base: "cb_base (c_cf q + n - 1) = b"
    using b n le by (intro cb_base_in_block) auto
  have base': "c_cf q + n \<noteq> b + 16 \<Longrightarrow> cb_base (c_cf q + n) = b"
    using b n le by (intro cb_base_in_block) auto
  have nx: "c_cf q + n = b + 16 \<Longrightarrow> cs_next cs b = 0 \<longleftrightarrow> c_cc q = int n"
  proof (cases bs)
    case Nil
    assume "c_cf q + n = b + 16"
    moreover have "cs_next cs b = 0" "c_cc q = int (c_cl q - c_cf q)" "c_cl q \<le> b + 16"
      using ok by (simp_all add: Bb Nil cl_ok_def q_ok_def)
    ultimately show ?thesis using le n(1) by linarith
  next
    case (Cons c bs')
    assume "c_cf q + n = b + 16"
    moreover have "cs_next cs b = c" "0 < c" "last (c # bs') + 4 < c_cl q"
      "c_cc q = int (b + 16 - c_cf q) + int (length (span (c + 4) (c # bs') (c_cl q)))"
      using ok by (auto simp add: Bb Cons cl_ok_def q_ok_def)
    moreover have "span (c + 4) (c # bs') (c_cl q) \<noteq> []"
      using calculation(4) by (cases bs') auto
    then have "0 < length (span (c + 4) (c # bs') (c_cl q))" by blast
    ultimately have "c_cc q \<noteq> int n" "cs_next cs b \<noteq> 0" by linarith+
    then show ?thesis by simp
  qed
  have "\<not> int n > int CBSIZE" using le b by (simp add: CBSIZE_def)
  then show ?thesis
    using cc n le off base base' nx
    by (cases "c_cf q + n = b + 16")
       (auto simp add: ndflush_def drop_front_def Let_def CBLOCK_def)
qed

section \<open>Putting characters in\<close>

lemma cb_take_simps [simp]:
  "cs_next (cb_take b cs) = (cs_next cs)(b := 0)"
  "cfreelist (cb_take b cs) = cs_next cs b"
  "cs_info (cb_take b cs) = cs_info cs"
  "cs_spl (cb_take b cs) = cs_spl cs"
  "cbad (cb_take b cs) = cbad cs"
  by (simp_all add: cb_take_def)

text \<open>What a successful store of one character promises.\<close>

definition stored :: "8 word \<Rightarrow> clist \<Rightarrow> cspace \<Rightarrow> nat list \<Rightarrow> nat list \<Rightarrow> clist \<Rightarrow> cspace \<Rightarrow> bool" where
  "stored x q cs F B q' cs' \<longleftrightarrow>
    (\<exists>F' B'. cl_ok q' cs' F' B' \<and> contents q' cs' B' = contents q cs B @ [x] \<and>
       room q' F' B' + 1 = room q F B \<and> set F' \<union> set B' = set F \<union> set B \<and>
       cl_frame (set F \<union> set B) cs cs')"

lemma putc_first:
  assumes ok: "cl_ok q cs (b # F) []"
  shows "fst (putc c q cs) = 0 \<and>
    stored (word_of_int c) q cs (b # F) [] (fst (snd (putc c q cs))) (snd (snd (putc c q cs)))"
proof -
  have facts: "cfreelist cs = b" "0 < b" "b mod 16 = 0" "chain (cs_next cs) (cs_next cs b) F"
    "b \<notin> set F" "distinct F" "c_cc q = 0" "c_cl q = 0"
    using ok by (auto simp add: cl_ok_def q_ok_def)
  let ?q = "q\<lparr>c_cc := 1, c_cf := b + 4, c_cl := b + 5\<rparr>"
  let ?cs = "(cb_take b cs)\<lparr>cs_info := (cs_info cs)(b + 4 := word_of_int c)\<rparr>"
  have p: "putc c q cs = (0, ?q, ?cs)"
    using facts by (simp add: putc_def Let_def c_info_def cb_take_def)
  have "[b + 4 ..< b + 5] = [b + 4]" by (simp add: upt_rec)
  then have "cl_ok ?q ?cs F [b] \<and> contents ?q ?cs [b] = contents q cs [] @ [word_of_int c] \<and>
      room ?q F [b] + 1 = room q (b # F) []"
    using facts by (simp add: cl_ok_def q_ok_def contents_def room_def CBSIZE_def)
  moreover have "cl_frame (set (b # F) \<union> set []) cs ?cs"
    using facts by (auto simp add: cl_frame_def)
  ultimately show ?thesis
    by (simp add: p stored_def) (intro exI[of _ F] exI[of _ "[b]"], simp)
qed

lemma putc_same_block:
  assumes ok: "cl_ok q cs F B" and B: "B \<noteq> []" and r: "c_cl q < last B + 16"
  shows "fst (putc c q cs) = 0 \<and>
    stored (word_of_int c) q cs F B (fst (snd (putc c q cs))) (snd (snd (putc c q cs)))"
proof -
  have facts: "chain (cs_next cs) (cfreelist cs) F" "distinct (F @ B)" "chain (cs_next cs) (hd B) B"
    "hd B + 4 \<le> c_cf q" "c_cf q < hd B + 16" "last B + 4 < c_cl q" "c_cl q \<le> last B + 16"
    "length B = 1 \<longrightarrow> c_cf q < c_cl q" "c_cc q = int (length (span (c_cf q) B (c_cl q)))"
    using ok B by (simp_all add: cl_ok_def q_ok_def)
  have al: "\<forall>b \<in> set B. b mod 16 = 0" using chain_mem[OF facts(3)] by blast
  have lastB: "last B mod 16 = 0" "last B \<in> set B" using al B by auto
  let ?q = "q\<lparr>c_cc := c_cc q + 1, c_cl := c_cl q + 1\<rparr>"
  let ?cs = "cs\<lparr>cs_info := (cs_info cs)(c_cl q := word_of_int c)\<rparr>"
  have "cb_off (c_cl q) \<noteq> 0"
    using facts(6) r lastB by (subst cb_off_in_block[of "last B"]) auto
  then have p: "putc c q cs = (0, ?q, ?cs)"
    using facts(6) q_nonempty(1)[OF ok B] by (simp add: putc_def Let_def)
  have sp: "span (c_cf q) B (c_cl q + 1) = span (c_cf q) B (c_cl q) @ [c_cl q]"
    using facts B by (intro span_snoc_char) auto
  have m: "map ((cs_info cs)(c_cl q := word_of_int c)) (span (c_cf q) B (c_cl q)) =
      map (cs_info cs) (span (c_cf q) B (c_cl q))"
    using facts al lastB r by (intro span_map_upd[where x = "last B"]) auto
  have "cl_ok ?q ?cs F B"
    using facts B r sp by (auto simp add: cl_ok_def q_ok_def)
  moreover have "contents ?q ?cs B = contents q cs B @ [word_of_int c]"
    using sp m by (simp add: contents_def)
  moreover have "room ?q F B + 1 = room q F B"
    using B r by (simp add: room_def)
  moreover have "cl_frame (set F \<union> set B) cs ?cs"
    using lastB facts(6) r by (auto simp add: cl_frame_def)
  ultimately show ?thesis by (simp add: p stored_def) blast
qed

lemma putc_next_block:
  assumes ok: "cl_ok q cs (f # F) B" and B: "B \<noteq> []" and r: "c_cl q = last B + 16"
  shows "fst (putc c q cs) = 0 \<and>
    stored (word_of_int c) q cs (f # F) B (fst (snd (putc c q cs))) (snd (snd (putc c q cs)))"
proof -
  have facts: "cfreelist cs = f" "0 < f" "f mod 16 = 0" "chain (cs_next cs) (cs_next cs f) F"
    "distinct (f # F @ B)" "chain (cs_next cs) (hd B) B"
    "hd B + 4 \<le> c_cf q" "c_cf q < hd B + 16"
    "c_cc q = int (length (span (c_cf q) B (c_cl q)))"
    using ok B by (simp_all add: cl_ok_def q_ok_def)
  have al: "\<forall>b \<in> set B. b mod 16 = 0" using chain_mem[OF facts(6)] by blast
  have lastB: "last B mod 16 = 0" "last B \<in> set B" "last B \<noteq> f" "last B \<notin> set F"
    using al B facts(5) by auto
  have fB: "f \<notin> set B" "distinct B" "f \<notin> set F" "set F \<inter> set B = {}" "distinct F"
    using facts(5) by auto
  let ?q = "q\<lparr>c_cc := c_cc q + 1, c_cl := f + 5\<rparr>"
  let ?cs = "cs\<lparr>cs_next := (cs_next cs)(last B := f, f := 0), cfreelist := cs_next cs f,
      cs_info := (cs_info cs)(f + 4 := word_of_int c)\<rparr>"
  have "cb_off (c_cl q) = 0" using lastB r by (subst cb_off_in_block[of "last B"]) auto
  then have p: "putc c q cs = (0, ?q, ?cs)"
    using r facts(1,2) lastB q_nonempty(1)[OF ok B]
    by (simp add: putc_def Let_def c_info_def CBLOCK_def cb_take_def)
  have sp: "span (c_cf q) (B @ [f]) (f + 5) = span (c_cf q) B (c_cl q) @ [f + 4]"
    using span_snoc_block[OF B] r by simp
  have m: "map ((cs_info cs)(f + 4 := word_of_int c)) (span (c_cf q) B (c_cl q)) =
      map (cs_info cs) (span (c_cf q) B (c_cl q))"
    using facts al fB r by (intro span_map_upd[where x = f]) auto
  have ch: "chain ((cs_next cs)(last B := f, f := 0)) (hd B) (B @ [f])"
    using facts fB B by (intro chain_snoc) auto
  have "cl_ok ?q ?cs F (B @ [f])"
    using facts B sp ch fB lastB by (auto simp add: cl_ok_def q_ok_def)
  moreover have "contents ?q ?cs (B @ [f]) = contents q cs B @ [word_of_int c]"
    using sp m by (simp add: contents_def)
  moreover have "room ?q F (B @ [f]) + 1 = room q (f # F) B"
    using B r by (simp add: room_def CBSIZE_def)
  moreover have "cl_frame (set (f # F) \<union> set B) cs ?cs"
    using lastB by (auto simp add: cl_frame_def)
  ultimately show ?thesis
    by (simp add: p stored_def) (intro exI[of _ F] exI[of _ "B @ [f]"], auto)
qed

lemma putc_ok:
  assumes ok: "cl_ok q cs F B" and r: "0 < room q F B" and p: "putc c q cs = (e, q', cs')"
  shows "e = 0 \<and> stored (word_of_int c) q cs F B q' cs'"
proof (cases "B = []")
  case True
  then obtain b F1 where "F = b # F1" using r by (cases F) (auto simp add: room_def)
  with True putc_first[of q cs b F1 c] ok p show ?thesis by simp
next
  case B: False
  show ?thesis
  proof (cases "c_cl q < last B + 16")
    case True
    with putc_same_block[OF ok B True, of c] p show ?thesis by simp
  next
    case False
    with ok B have cl: "c_cl q = last B + 16" by (simp add: cl_ok_def q_ok_def)
    then obtain b F1 where "F = b # F1" using r B by (cases F) (auto simp add: room_def)
    with putc_next_block[of q cs b F1 B c] B cl ok p show ?thesis by simp
  qed
qed

lemma chain_last_next: "\<lbrakk>chain nx p B; B \<noteq> []\<rbrakk> \<Longrightarrow> nx (last B) = 0"
  by (induction B arbitrary: p) auto

lemma putc_full:
  assumes ok: "cl_ok q cs F B" and r: "room q F B = 0"
  shows "putc c q cs = (- 1, q, cs)"
proof (cases "B = []")
  case True
  with ok r show ?thesis by (simp add: putc_def Let_def cl_ok_def q_ok_def room_def CBSIZE_def)
next
  case False
  with r have F: "F = []" by (auto simp add: room_def CBSIZE_def)
  with False ok r have facts: "F = []" "cfreelist cs = 0" "c_cl q = last B + 16"
    "chain (cs_next cs) (hd B) B"
    by (auto simp add: cl_ok_def q_ok_def room_def)
  have lastB: "last B mod 16 = 0" using chain_mem[OF facts(4), of "last B"] False by simp
  have "cb_off (c_cl q) = 0" using lastB facts by (subst cb_off_in_block[of "last B"]) auto
  moreover have "(cs_next cs)(last B := 0) = cs_next cs"
    using chain_last_next[OF facts(4) False] by (simp add: fun_upd_idem)
  ultimately show ?thesis
    using facts q_nonempty(1)[OF ok False] by (simp add: putc_def Let_def CBLOCK_def)
qed

lemma putc_success: "putc c q cs = (0, q', cs') \<Longrightarrow> cl_ok q cs F B \<Longrightarrow> 0 < room q F B"
  using putc_full[of q cs F B c] by (cases "room q F B") auto

subsection \<open>Block transfer is character-wise transfer\<close>

text \<open>\<open>putc\<close> repeated until it fails, with the bytes that did not fit.\<close>

fun putc_all :: "8 word list \<Rightarrow> clist \<Rightarrow> cspace \<Rightarrow> 8 word list \<times> clist \<times> cspace" where
  "putc_all [] q cs = ([], q, cs)"
| "putc_all (c # r) q cs =
    (case putc (uint c) q cs of
       (e, q', cs') \<Rightarrow> if e = 0 then putc_all r q' cs' else (c # r, q', cs'))"

lemma putc_all_ok:
  assumes "cl_ok q cs F B" "putc_all xs q cs = (r, q', cs')"
  shows "r = drop (room q F B) xs \<and>
    (\<exists>F' B'. cl_ok q' cs' F' B' \<and> contents q' cs' B' = contents q cs B @ take (room q F B) xs \<and>
       set F' \<union> set B' = set F \<union> set B \<and> cl_frame (set F \<union> set B) cs cs')"
  using assms
proof (induction xs arbitrary: q cs F B)
  case (Cons x xs)
  show ?case
  proof (cases "room q F B")
    case 0
    with putc_full[OF Cons.prems(1) 0] Cons.prems show ?thesis by auto
  next
    case (Suc n)
    obtain e q1 cs1 where p: "putc (uint x) q cs = (e, q1, cs1)" using prod_cases3 by blast
    with putc_ok[OF Cons.prems(1) _ p] Suc
    have e: "e = 0" and st: "stored x q cs F B q1 cs1" by simp_all
    from st obtain F1 B1 where 1: "cl_ok q1 cs1 F1 B1"
        "contents q1 cs1 B1 = contents q cs B @ [x]" "room q1 F1 B1 + 1 = room q F B"
        "set F1 \<union> set B1 = set F \<union> set B" "cl_frame (set F \<union> set B) cs cs1"
      unfolding stored_def by blast
    from Cons.prems(2) p e have "putc_all xs q1 cs1 = (r, q', cs')" by simp
    from Cons.IH[OF 1(1) this] 1 Suc cl_frame_trans[OF 1(5)] show ?thesis by auto
  qed
qed auto

text \<open>Inside the loop of \<open>b_to_q\<close> the queue's \<open>c_cl\<close> is in a register and \<open>c_cc\<close> is not yet counted.\<close>

lemma b_to_q_loop_putc:
  assumes "cq \<noteq> 0" "0 \<le> k"
  shows "putc_all xs (q\<lparr>c_cl := cq, c_cc := k\<rparr>) cs =
    (case b_to_q_loop xs cq cs of (r, cq', cs') \<Rightarrow>
       (r, q\<lparr>c_cl := cq', c_cc := k + int (length xs - length r)\<rparr>, cs'))"
    and "length (fst (b_to_q_loop xs cq cs)) \<le> length xs"
  using assms
proof (induction xs arbitrary: cq k cs)
  case (Cons x xs)
  {
    case 1
    let ?n = "cs_next cs" and ?bp = "cq - CBLOCK"
    let ?cs1 = "cs\<lparr>cs_next := (?n)(?bp := cfreelist cs)\<rparr>"
    show ?case
    proof (cases "cb_off cq = 0 \<and> cfreelist cs \<noteq> 0")
      case True
      define cs2 where "cs2 = (cb_take (cfreelist cs) ?cs1)
          \<lparr>cs_info := (cs_info cs)(c_info (cfreelist cs) := x)\<rparr>"
      have "putc (uint x) (q\<lparr>c_cl := cq, c_cc := k\<rparr>) cs =
          (0, q\<lparr>c_cl := c_info (cfreelist cs) + 1, c_cc := k + 1\<rparr>, cs2)"
        using True 1 by (simp add: putc_def Let_def cs2_def cb_take_def)
      moreover have "b_to_q_loop (x # xs) cq cs = b_to_q_loop xs (c_info (cfreelist cs) + 1) cs2"
        using True by (simp add: Let_def cs2_def)
      moreover note Cons.IH[of "c_info (cfreelist cs) + 1" "k + 1" cs2]
      ultimately show ?thesis
        using 1 by (auto split: prod.splits simp del: b_to_q_loop.simps)
    next
      case False
      define cs2 where "cs2 = cs\<lparr>cs_info := (cs_info cs)(cq := x)\<rparr>"
      show ?thesis
      proof (cases "cb_off cq = 0")
        case True
        with False 1 show ?thesis by (simp add: putc_def Let_def)
      next
        case nz: False
        have "putc (uint x) (q\<lparr>c_cl := cq, c_cc := k\<rparr>) cs =
            (0, q\<lparr>c_cl := cq + 1, c_cc := k + 1\<rparr>, cs2)"
          using nz 1 by (simp add: putc_def Let_def cs2_def)
        moreover have "b_to_q_loop (x # xs) cq cs = b_to_q_loop xs (cq + 1) cs2"
          using nz by (simp add: Let_def cs2_def)
        moreover note Cons.IH[of "cq + 1" "k + 1" cs2]
        ultimately show ?thesis
          using 1 by (auto split: prod.splits simp del: b_to_q_loop.simps)
      qed
    qed
  next
    case 2
    show ?case
      using Cons.IH(2)[OF _ 2(2)] by (auto simp add: Let_def c_info_def intro: le_SucI)
  }
qed simp_all

lemma b_to_q_loop_spl:
  "b_to_q_loop xs cq (cs\<lparr>cs_spl := s\<rparr>) =
    (case b_to_q_loop xs cq cs of (r, cq', cs') \<Rightarrow> (r, cq', cs'\<lparr>cs_spl := s\<rparr>))"
proof (induction xs arbitrary: cq cs)
  case (Cons x xs)
  have comm: "cs\<lparr>cs_spl := s, cs_info := i\<rparr> = cs\<lparr>cs_info := i, cs_spl := s\<rparr>"
    "cs\<lparr>cs_spl := s, cs_next := n\<rparr> = cs\<lparr>cs_next := n, cs_spl := s\<rparr>"
    "cb_take b (cs\<lparr>cs_spl := s\<rparr>) = (cb_take b cs)\<lparr>cs_spl := s\<rparr>" for cs :: cspace and i n b
    by (simp_all add: cb_take_def)
  from Cons.IH show ?case by (simp add: Let_def comm)
qed simp

lemma putc_all_spl: "cs_spl (snd (snd (putc_all xs q cs))) = cs_spl cs"
proof (induction xs arbitrary: q cs)
  case (Cons x xs)
  have "cs_spl (snd (snd (putc c q cs))) = cs_spl cs" for c
    by (simp add: putc_def Let_def)
  then have "putc (uint x) q cs = (e, q', cs') \<Longrightarrow> cs_spl cs' = cs_spl cs" for e q' cs'
    by (metis snd_conv)
  with Cons show ?case by (auto split: prod.split)
qed simp

text \<open>From a queue with a last block the block transfer runs its loop at \<open>c_cl\<close>.\<close>

lemma b_to_q_move:
  assumes "cq \<noteq> 0" "0 \<le> k" "putc_all xs (q\<lparr>c_cl := cq, c_cc := k\<rparr>) cs = (r, q', cs')"
    "b_to_q_loop xs cq (cs\<lparr>cs_spl := s\<rparr>) = (r1, cq1, cs1)"
  shows "r1 = r \<and> q\<lparr>c_cl := cq1, c_cc := k + (int (length xs) - int (length r1))\<rparr> = q' \<and>
    cs1\<lparr>cs_spl := cs_spl cs\<rparr> = cs'"
proof -
  obtain r2 cq2 cs2 where l: "b_to_q_loop xs cq cs = (r2, cq2, cs2)" using prod_cases3 by blast
  have "cs_spl cs' = cs_spl cs" using putc_all_spl[of xs "q\<lparr>c_cl := cq, c_cc := k\<rparr>" cs] assms(3) by simp
  then have sp: "cs'\<lparr>cs_spl := cs_spl cs\<rparr> = cs'" by (metis cspace.surjective cspace.update_convs(5))
  have le: "length r2 \<le> length xs" using b_to_q_loop_putc(2)[OF assms(1,2)] l by (metis fst_conv)
  have pa: "putc_all xs (q\<lparr>c_cl := cq, c_cc := k\<rparr>) cs =
      (r2, q\<lparr>c_cl := cq2, c_cc := k + int (length xs - length r2)\<rparr>, cs2)"
    by (simp add: b_to_q_loop_putc(1)[OF assms(1,2)] l)
  have "r = r2" "q' = q\<lparr>c_cl := cq2, c_cc := k + int (length xs - length r2)\<rparr>" "cs' = cs2"
    using trans[OF assms(3)[symmetric] pa] unfolding prod.inject by blast+
  moreover from b_to_q_loop_spl[of xs cq s cs] l assms(4)
  have "r1 = r2" "cq1 = cq2" "cs1 = cs2\<lparr>cs_spl := s\<rparr>" by simp_all
  ultimately show ?thesis using sp le by (auto simp add: of_nat_diff)
qed

lemma b_to_q_putc_all:
  assumes ok: "cl_ok q cs F B" and p: "putc_all xs q cs = (r, q', cs')"
  shows "b_to_q xs q cs = (int (length r), q', cs')"
proof (cases xs)
  case Nil
  with p show ?thesis by (simp add: b_to_q_def)
next
  case (Cons x ys)
  show ?thesis
  proof (cases "B = []")
    case False
    then have "c_cl q \<noteq> 0" "0 < c_cc q"
      using ok q_nonempty(1)[OF ok] by (simp_all add: cl_ok_def q_ok_def)
    moreover obtain r1 cq1 cs1 where l: "b_to_q_loop xs (c_cl q) (cs\<lparr>cs_spl := 6\<rparr>) = (r1, cq1, cs1)"
      using prod_cases3 by blast
    ultimately show ?thesis
      using b_to_q_move[of "c_cl q" "c_cc q" xs q cs r q' cs' 6 r1 cq1 cs1] p Cons
      by (auto simp add: b_to_q_def Let_def simp del: b_to_q_loop.simps putc_all.simps)
  next
    case True
    with ok have q0: "c_cc q = 0" "c_cf q = 0" "c_cl q = 0" by (simp_all add: cl_ok_def q_ok_def)
    show ?thesis
    proof (cases F)
      case Nil
      with True ok have "cfreelist cs = 0" by (simp add: cl_ok_def)
      with q0 p Cons show ?thesis
        by (auto simp add: b_to_q_def Let_def putc_def)
    next
      case (Cons b F1)
      with ok have b: "cfreelist cs = b" "0 < b" "b mod 16 = 0" by (simp_all add: cl_ok_def)
      have nz: "cb_off (c_info b) \<noteq> 0"
        using b by (subst cb_off_in_block[of b]) (simp_all add: c_info_def)
      let ?q = "q\<lparr>c_cf := c_info b\<rparr>"
      have "putc_all xs q cs = putc_all xs (?q\<lparr>c_cl := c_info b, c_cc := 0\<rparr>) (cb_take b cs)"
        using b q0 nz \<open>xs = x # ys\<close>
        by (simp add: putc_def Let_def cb_take_def c_info_def)
      moreover obtain r1 cq1 cs1 where
        l: "b_to_q_loop xs (c_info b) ((cb_take b cs)\<lparr>cs_spl := 6\<rparr>) = (r1, cq1, cs1)"
        using prod_cases3 by blast
      moreover have tk: "cb_take b (cs\<lparr>cs_spl := 6\<rparr>) = (cb_take b cs)\<lparr>cs_spl := 6\<rparr>" for b
        by (simp add: cb_take_def)
      ultimately show ?thesis
        using b_to_q_move[of "c_info b" 0 xs ?q "cb_take b cs" r q' cs' 6 r1 cq1 cs1] p b q0 \<open>xs = x # ys\<close>
        by (auto simp add: b_to_q_def Let_def c_info_def tk simp del: b_to_q_loop.simps putc_all.simps)
    qed
  qed
qed

lemma q_to_b_loop_spl:
  "q_to_b_loop n q (cs\<lparr>cs_spl := s\<rparr>) =
    (case q_to_b_loop n q cs of (r, q', cs') \<Rightarrow> (r, q', cs'\<lparr>cs_spl := s\<rparr>))"
proof (induction n arbitrary: q cs)
  case (Suc n)
  have comm: "cb_release b (cs\<lparr>cs_spl := s\<rparr>) = (cb_release b cs)\<lparr>cs_spl := s\<rparr>" for b
    by (simp add: cb_release_def)
  from Suc show ?case by (simp add: Let_def comm split: prod.split)
qed simp

section \<open>The contract of a character queue\<close>

text \<open>
  \<open>rel s xs n\<close>: the state \<open>s\<close> holds the queue \<open>xs\<close> and has room for \<open>n\<close> more. The lemmas
  a client needs are proved from the laws of a single \<open>get\<close> and a single \<open>put\<close>.
\<close>

locale char_queue =
  fixes rel :: "'s \<Rightarrow> 8 word list \<Rightarrow> nat \<Rightarrow> bool"
    and get :: "'s \<Rightarrow> int \<times> 's"
    and put :: "int \<Rightarrow> 's \<Rightarrow> int \<times> 's"
  assumes get_none: "rel s [] n \<Longrightarrow> get s = (- 1, s)"
    and get_first: "rel s (x # xs) n \<Longrightarrow> \<exists>s' n'. get s = (uint x, s') \<and> rel s' xs n'"
    and put_last: "rel s xs (Suc n) \<Longrightarrow> \<exists>s'. put c s = (0, s') \<and> rel s' (xs @ [word_of_int c]) n"
    and put_none: "rel s xs 0 \<Longrightarrow> put c s = (- 1, s)"
begin

primrec puts :: "int list \<Rightarrow> 's \<Rightarrow> 's" where
  "puts [] s = s"
| "puts (c # cs) s = puts cs (snd (put c s))"

primrec gets :: "nat \<Rightarrow> 's \<Rightarrow> int list \<times> 's" where
  "gets 0 s = ([], s)"
| "gets (Suc n) s = (case get s of (c, s') \<Rightarrow> (case gets n s' of (r, s'') \<Rightarrow> (c # r, s'')))"

lemma puts_rel:
  "\<lbrakk>rel s xs n; length cs \<le> n\<rbrakk> \<Longrightarrow> rel (puts cs s) (xs @ map word_of_int cs) (n - length cs)"
proof (induction cs arbitrary: s xs n)
  case (Cons c cs)
  then obtain m where n: "n = Suc m" by (cases n) auto
  from put_last[of s xs m c] Cons.prems n obtain s' where "put c s = (0, s')"
    "rel s' (xs @ [word_of_int c]) m" by blast
  with Cons.IH[of s' "xs @ [word_of_int c]" m] Cons.prems n show ?case by simp
qed simp

lemma gets_rel:
  "\<lbrakk>rel s (xs @ ys) n; length xs = k\<rbrakk> \<Longrightarrow>
   fst (gets k s) = map uint xs \<and> (\<exists>n'. rel (snd (gets k s)) ys n')"
proof (induction k arbitrary: s xs n)
  case (Suc k)
  then obtain x xs' where xs: "xs = x # xs'" by (cases xs) auto
  with get_first[of s x "xs' @ ys" n] Suc.prems obtain s' n'
    where g: "get s = (uint x, s')" "rel s' (xs' @ ys) n'" by auto
  with Suc.IH[OF g(2)] Suc.prems xs show ?case by (auto split: prod.splits)
qed auto

lemma fifo:
  assumes "rel s xs n" "length cs \<le> n"
  shows "fst (gets (length xs + length cs) (puts cs s)) = map uint (xs @ map word_of_int cs)"
  using gets_rel[of "puts cs s" "xs @ map word_of_int cs" "[]" _ "length xs + length cs"]
    puts_rel[OF assms] by simp

end

definition clist_rel :: "clist \<times> cspace \<Rightarrow> 8 word list \<Rightarrow> nat \<Rightarrow> bool" where
  "clist_rel s xs n \<longleftrightarrow> (\<exists>F B. cl_ok (fst s) (snd s) F B \<and> contents (fst s) (snd s) B = xs \<and>
     room (fst s) F B = n)"

definition clist_get :: "clist \<times> cspace \<Rightarrow> int \<times> clist \<times> cspace" where
  "clist_get s = getc (fst s) (snd s)"

definition clist_put :: "int \<Rightarrow> clist \<times> cspace \<Rightarrow> int \<times> clist \<times> cspace" where
  "clist_put c s = putc c (fst s) (snd s)"

interpretation cq: char_queue clist_rel clist_get clist_put
proof
  show "clist_get s = (- 1, s)" if "clist_rel s [] n" for s n
  proof -
    from that obtain F B where ok: "cl_ok (fst s) (snd s) F B" "contents (fst s) (snd s) B = []"
      unfolding clist_rel_def by blast
    then show ?thesis
      using contents_Nil_iff[OF ok(1)] getc_empty[of "fst s" "snd s" F] by (simp add: clist_get_def)
  qed
  show "\<exists>s' n'. clist_get s = (uint x, s') \<and> clist_rel s' xs n'"
    if "clist_rel s (x # xs) n" for s x xs n
  proof -
    from that obtain F B where ok: "cl_ok (fst s) (snd s) F B" "contents (fst s) (snd s) B = x # xs"
      unfolding clist_rel_def by blast
    obtain c q' cs' where g: "getc (fst s) (snd s) = (c, q', cs')" using prod_cases3 by blast
    from getc_ok[OF ok g] g show ?thesis by (auto simp add: clist_get_def clist_rel_def)
  qed
  show "\<exists>s'. clist_put c s = (0, s') \<and> clist_rel s' (xs @ [word_of_int c]) n"
    if "clist_rel s xs (Suc n)" for s xs n c
  proof -
    from that obtain F B where ok: "cl_ok (fst s) (snd s) F B" "contents (fst s) (snd s) B = xs"
        "room (fst s) F B = Suc n"
      unfolding clist_rel_def by blast
    obtain e q' cs' where p: "putc c (fst s) (snd s) = (e, q', cs')" using prod_cases3 by blast
    with putc_ok[OF ok(1) _ p] ok(2,3) show ?thesis
      by (auto simp add: clist_put_def clist_rel_def stored_def)
  qed
  show "clist_put c s = (- 1, s)" if "clist_rel s xs 0" for s xs c
    using that putc_full by (auto simp add: clist_put_def clist_rel_def)
qed

section \<open>Initialisation\<close>

lemma fold_release:
  assumes "chain (cs_next cs) (cfreelist cs) F" "0 < base" "base mod 16 = 0"
    "\<And>i. i < n \<Longrightarrow> base + 16 * i \<notin> set F" "distinct F"
  shows "\<exists>F'. chain (cs_next (fold (\<lambda>i. cb_release (base + CBLOCK * i)) [0 ..< n] cs))
      (cfreelist (fold (\<lambda>i. cb_release (base + CBLOCK * i)) [0 ..< n] cs)) F' \<and>
      distinct F' \<and> set F' = set F \<union> {base + 16 * i | i. i < n} \<and> length F' = length F + n"
  using assms
proof (induction n)
  case (Suc n)
  then obtain F' where F': "chain (cs_next (fold (\<lambda>i. cb_release (base + CBLOCK * i)) [0 ..< n] cs))
      (cfreelist (fold (\<lambda>i. cb_release (base + CBLOCK * i)) [0 ..< n] cs)) F'"
      "distinct F'" "set F' = set F \<union> {base + 16 * i | i. i < n}" "length F' = length F + n"
    by fastforce
  have new: "base + 16 * n \<notin> set F'" using F'(3) Suc.prems(4)[of n] by auto
  have "(base + 16 * n) mod 16 = 0" using Suc.prems(3) by (simp add: mod_add_eq[symmetric])
  moreover have "set ((base + 16 * n) # F') = set F \<union> {base + 16 * i | i. i < Suc n}"
    using F'(3) by (auto simp add: less_Suc_eq)
  moreover have "chain ((cs_next (fold (\<lambda>i. cb_release (base + CBLOCK * i)) [0 ..< n] cs))
      (base + 16 * n := v)) (cfreelist (fold (\<lambda>i. cb_release (base + CBLOCK * i)) [0 ..< n] cs)) F'" for v
    using F'(1) new by simp
  ultimately show ?case
    using F'(2,4) new Suc.prems(2)
    by (intro exI[of _ "(base + 16 * n) # F'"]) (simp add: CBLOCK_def fun_upd_same del: fun_upd_apply)
qed auto

lemma cb_base_aligned: "cb_base p mod 16 = 0"
  by (simp add: cb_base_def cb_off_mod minus_mod_eq_mult_div)

section \<open>Properties\<close>

text \<open>
  Claim C25. Characters leave a queue in the order in which they were put into it:
  from a well-formed queue with room for the bytes \<open>ws\<close>, putting them one by one with
  \<open>putc\<close> and then calling \<open>getc\<close> once per character returns first what was in the
  queue and then \<open>ws\<close>.\<close>

theorem clist_fifo:
  assumes "cl_ok q cs F B" "length ws \<le> room q F B"
  shows "fst (cq.gets (length (contents q cs B) + length ws) (cq.puts (map uint ws) (q, cs))) =
    map uint (contents q cs B @ ws)"
proof -
  have "clist_rel (q, cs) (contents q cs B) (room q F B)"
    using assms(1) by (auto simp add: clist_rel_def)
  from cq.fifo[OF this, of "map uint ws"] assms(2) show ?thesis by (simp add: comp_def)
qed

text \<open>
  \<open>b_to_q\<close> moves exactly the bytes that fit: it appends the first \<open>room\<close> bytes of the
  buffer to the queue, returns how many were left over, keeps the queue and the free
  list well-formed over the same set of blocks, restores the processor priority, and
  touches no memory outside those blocks.\<close>

theorem b_to_q_transfers:
  assumes "cl_ok q cs F B" "b_to_q xs q cs = (left, q', cs')"
  shows "left = int (length xs - room q F B) \<and>
    (\<exists>F' B'. cl_ok q' cs' F' B' \<and> contents q' cs' B' = contents q cs B @ take (room q F B) xs \<and>
       set F' \<union> set B' = set F \<union> set B \<and> cl_frame (set F \<union> set B) cs cs')"
proof -
  obtain r q1 cs1 where p: "putc_all xs q cs = (r, q1, cs1)" using prod_cases3 by blast
  from b_to_q_putc_all[OF assms(1) p] assms(2)
  have "left = int (length r)" "q' = q1" "cs' = cs1" by auto
  with putc_all_ok[OF assms(1) p] show ?thesis by simp
qed

text \<open>
  \<open>q_to_b\<close> on a queue that is not empty moves the first \<open>cc\<close> characters, or all
  there are, to the buffer: the queue keeps the rest, every emptied block is back on the
  free list, the processor priority is restored, and no other memory changes.\<close>

theorem q_to_b_takes:
  assumes ok: "cl_ok q cs F B" and ne: "contents q cs B \<noteq> []" and cc: "0 < cc"
    and r: "q_to_b q cc cs = (r, q', cs')"
  shows "r = take (nat cc) (contents q cs B) \<and>
    (\<exists>F' B'. cl_ok q' cs' F' B' \<and> contents q' cs' B' = drop (nat cc) (contents q cs B) \<and>
       set F' \<union> set B' = set F \<union> set B \<and> cl_frame (set F \<union> set B) cs cs')"
proof -
  have B: "B \<noteq> []" using contents_Nil_iff[OF ok] ne by simp
  obtain n where n: "nat cc = Suc n" using cc by (cases "nat cc") auto
  obtain r1 q1 cs1 where l: "q_to_b_loop (Suc n) q cs = (r1, q1, cs1)" using prod_cases3 by blast
  note spec = q_to_b_loop_ok[OF ok B l]
  have "cs_spl cs1 = cs_spl cs" using spec by (auto simp add: cl_frame_def)
  then have "cs1\<lparr>cs_spl := cs_spl cs\<rparr> = cs1"
    by (metis cspace.surjective cspace.update_convs(5))
  with r l cc n q_nonempty(1)[OF ok B] q_to_b_loop_spl[of "Suc n" q 6 cs]
  have "r = r1" "q' = q1" "cs' = cs1"
    by (auto simp add: q_to_b_def Let_def simp del: q_to_b_loop.simps)
  with spec n show ?thesis by simp
qed

text \<open>The early return of \<open>q_to_b\<close> on an empty queue leaves the priority raised.\<close>

lemma q_to_b_empty_spl:
  "\<lbrakk>0 < cc; c_cc q \<le> 0\<rbrakk> \<Longrightarrow> cs_spl (snd (snd (q_to_b q cc cs))) = 6"
  by (simp add: q_to_b_def Let_def)

text \<open>
  \<open>ndqb\<close> with a flag counts characters at the front of the queue that lie contiguously in its
  first block and have no bit of the flag set, and \<open>ndflush\<close> by that count removes
  exactly those characters from the queue and releases the block when it is used up.\<close>

theorem ndqb_ndflush:
  assumes ok: "cl_ok q cs F B" and fl: "flag \<noteq> 0" and n: "ndqb q flag cs = int n" and pos: "0 < n"
    and f: "ndflush q (int n) cs = (q', cs')"
  shows "(\<forall>i < n. cs_info cs (c_cf q + i) = contents q cs B ! i \<and> scast (contents q cs B ! i) AND flag = 0) \<and>
    (\<exists>F' B'. cl_ok q' cs' F' B' \<and> contents q' cs' B' = drop n (contents q cs B) \<and>
       set F' \<union> set B' = set F \<union> set B \<and> cl_frame (set F \<union> set B) cs cs')"
proof -
  have B: "B \<noteq> []"
    using ok n pos by (auto simp add: cl_ok_def q_ok_def ndqb_def)
  define k where "k = nat (ndqb q 0 cs)"
  have k: "int k = min (c_cc q) (int (hd B + 16 - c_cf q))"
    using ndqb_noflag[OF ok B] q_nonempty(1)[OF ok B] by (simp add: k_def)
  have nl: "n = length (takeWhile (\<lambda>x. scast x AND flag = 0) (take k (contents q cs B)))"
    using ndqb_flag[OF ok B fl] n by (simp add: k_def)
  then have nk: "n \<le> k"
    using length_takeWhile_le[of "\<lambda>x. scast x AND flag = 0" "take k (contents q cs B)"] by simp
  have bounds: "int n \<le> c_cc q" "c_cf q + n \<le> hd B + 16"
    using nk k q_nonempty(2)[OF ok B] by linarith+
  have "scast (contents q cs B ! i) AND flag = 0" if "i < n" for i
    using nth_mem[of i "takeWhile (\<lambda>x. scast x AND flag = 0) (take k (contents q cs B))"] that nk
    by (auto simp add: nl takeWhile_nth dest: set_takeWhileD)
  moreover have "cs_info cs (c_cf q + i) = contents q cs B ! i" if "i < n" for i
  proof -
    have "[c_cf q ..< c_cf q + n] = take n (span (c_cf q) B (c_cl q))"
      using ok bounds by (intro span_first[OF _ B]) (auto simp add: cl_ok_def)
    then have "[c_cf q ..< c_cf q + n] ! i = take n (span (c_cf q) B (c_cl q)) ! i" by simp
    moreover have "n \<le> length (span (c_cf q) B (c_cl q))"
      using bounds(1) contents_length[OF ok] by (simp add: contents_def)
    ultimately show ?thesis using that by (simp add: contents_def)
  qed
  moreover have "int n \<le> ndqb q 0 cs" using nk k_def pos by linarith
  then have "drop_front n q cs = (q', cs')"
    using ndflush_drop_front[OF ok B pos] f by simp
  ultimately show ?thesis using drop_front_ok[OF ok B pos bounds] by (simp, blast)
qed

text \<open>
  \<open>putw\<close> never loses half of a word: with a free block it stores both bytes, low byte
  first, and \<open>getw\<close> on the queue it started empty returns the low 16 bits of the word; without one it
  refuses and changes nothing.\<close>

theorem putw_getw:
  assumes ok: "cl_ok q cs F []" and p: "putw c q cs = (e, q', cs')"
  shows "if F = [] then e = - 1 \<and> q' = q \<and> cs' = cs
    else e = 0 \<and> fst (getw q' cs') = c mod 65536"
proof (cases F)
  case Nil
  with ok p show ?thesis by (auto simp add: putw_def Let_def cl_ok_def)
next
  case (Cons b F1)
  obtain e1 q1 cs1 where p1: "putc c q (cs\<lparr>cs_spl := 6\<rparr>) = (e1, q1, cs1)" using prod_cases3 by blast
  obtain e2 q2 cs2 where p2: "putc (drop_bit 8 c) q1 cs1 = (e2, q2, cs2)" using prod_cases3 by blast
  have ok': "cl_ok q (cs\<lparr>cs_spl := 6\<rparr>) F []" using ok by (simp add: cl_ok_def)
  have "0 < room q F []" using Cons by (simp add: room_def CBSIZE_def)
  from putc_ok[OF ok' this p1] obtain Fa Ba where a: "cl_ok q1 cs1 Fa Ba"
      "contents q1 cs1 Ba = [word_of_int c]" "room q1 Fa Ba + 1 = room q F []"
    by (auto simp add: stored_def contents_def)
  have "0 < room q1 Fa Ba" using a(3) Cons by (simp add: room_def CBSIZE_def)
  from putc_ok[OF a(1) this p2] a(2) obtain Fb Bb where b: "cl_ok q2 cs2 Fb Bb"
      "contents q2 cs2 Bb = [word_of_int c, word_of_int (drop_bit 8 c)]"
    by (auto simp add: stored_def)
  have "cfreelist cs \<noteq> 0" using ok Cons by (auto simp add: cl_ok_def)
  with p p1 p2 have eq: "e = 0" "q' = q2" "cs' = cs2\<lparr>cs_spl := cs_spl cs\<rparr>"
    by (auto simp add: putw_def Let_def)
  have b': "cl_ok q' cs' Fb Bb" "contents q' cs' Bb = [word_of_int c, word_of_int (drop_bit 8 c)]"
    using b eq by (simp_all add: cl_ok_def contents_def)
  obtain c1 q3 cs3 where g1: "getc q' cs' = (c1, q3, cs3)" using prod_cases3 by blast
  from getc_ok[OF b' g1] obtain Fc Bc where c: "c1 = uint (word_of_int c :: 8 word)" "cl_ok q3 cs3 Fc Bc"
      "contents q3 cs3 Bc = [word_of_int (drop_bit 8 c)]" by blast
  obtain c2 q4 cs4 where g2: "getc q3 cs3 = (c2, q4, cs4)" using prod_cases3 by blast
  from getc_ok[OF c(2,3) g2] have c2: "c2 = uint (word_of_int (drop_bit 8 c) :: 8 word)" by blast
  have "c_cc q' = 2" using contents_length[OF b'(1)] b'(2) by simp
  with g1 g2 have "fst (getw q' cs') = c1 OR push_bit 8 c2" by (simp add: getw_def)
  also have "\<dots> = take_bit 16 c"
    by (rule bit_eqI) (auto simp add: c(1) c2 bit_simps unsigned_of_int)
  finally show ?thesis using eq(1) Cons by (simp add: take_bit_eq_mod)
qed

text \<open>
  After \<open>cinit\<close> on an empty free list, the free list holds exactly the \<open>NCLIST\<close> blocks that
  start at the first 16-byte boundary of \<open>cfree_space\<close>, each once, and \<open>nchrdev\<close> counts the leading entries of \<open>cdevsw\<close>.\<close>

theorem cinit_free_list:
  assumes "cfreelist cs = 0" "0 < cfree_base space" "cinit space devs cs = (nchrdev, cs')"
  shows "nchrdev = length (takeWhile id devs) \<and>
    (\<exists>F. chain (cs_next cs') (cfreelist cs') F \<and> distinct F \<and> length F = NCLIST \<and>
      set F = {cfree_base space + 16 * i | i. i < NCLIST})"
  using fold_release[of cs "[]" "cfree_base space" NCLIST] assms cb_base_aligned
  by (auto simp add: cinit_def cfree_base_def)

subsection \<open>Instances\<close>

definition demo_space :: cspace where
  "demo_space = \<lparr>cs_next = (\<lambda>_. 0)(16 := 32), cs_info = (\<lambda>_. 0), cfreelist = 16, cbad = 0, cs_spl = 1\<rparr>"

definition demo_q :: clist where
  "demo_q = \<lparr>c_cc = 0, c_cf = 0, c_cl = 0\<rparr>"

lemma demo_ok: "cl_ok demo_q demo_space [16, 32] []"
  by (simp add: cl_ok_def q_ok_def demo_q_def demo_space_def)

lemma demo_room: "room demo_q [16, 32] [] = 24" "contents demo_q demo_space [] = []"
  by (simp_all add: room_def CBSIZE_def contents_def)

text \<open>A queue that holds three characters in the block at 48.\<close>

definition demo_q3 :: clist where
  "demo_q3 = \<lparr>c_cc = 3, c_cf = 61, c_cl = 64\<rparr>"

definition demo_space3 :: cspace where
  "demo_space3 = \<lparr>cs_next = (\<lambda>_. 0)(16 := 32), cs_info = (\<lambda>_. 0)(61 := 7, 62 := 8, 63 := 9),
     cfreelist = 16, cbad = 0, cs_spl = 1\<rparr>"

lemma demo3_ok: "cl_ok demo_q3 demo_space3 [16, 32] [48]"
  by (simp add: cl_ok_def q_ok_def demo_q3_def demo_space3_def)

lemma demo3_contents: "contents demo_q3 demo_space3 [48] = [7, 8, 9]"
  by (simp add: contents_def demo_q3_def demo_space3_def upt_rec)

theorem clist_fifo_witness:
  "fst (cq.gets 5 (cq.puts [1, 2] (demo_q3, demo_space3))) = [7, 8, 9, 1, 2]"
proof -
  have "length [1 :: 8 word, 2] \<le> room demo_q3 [16, 32] [48]"
    by (simp add: room_def CBSIZE_def demo_q3_def)
  moreover have l: "length (contents demo_q3 demo_space3 [48]) + length [1 :: 8 word, 2] = 5"
    by (simp add: demo3_contents)
  ultimately show ?thesis
    using clist_fifo[OF demo3_ok, of "[1, 2]"] unfolding l by (simp add: demo3_contents)
qed

theorem b_to_q_transfers_witness:
  "fst (b_to_q (replicate 30 5) demo_q demo_space) = 6"
  using b_to_q_transfers[OF demo_ok, of "replicate 30 5"] demo_room
  by (cases "b_to_q (replicate 30 5) demo_q demo_space") (simp only: fst_conv demo_room length_replicate, simp)

theorem q_to_b_takes_witness:
  "fst (q_to_b demo_q3 2 demo_space3) = [7, 8]"
  using q_to_b_takes[OF demo3_ok, of 2] demo3_contents
  by (cases "q_to_b demo_q3 2 demo_space3") auto

end
