(* ===== verification/Tty_State.thy ===== *)
theory Tty_State
  imports Clist Signals
begin

text \<open>
  Terminals: \<open>struct tty\<close> of \<open>h/tty.h\<close>, the software rings and the transmit side of the UART driver \<open>dev/kl.c\<close>, and the routines of
  \<open>dev/tty.c\<close> that start, drain and flush a terminal.

  The state \<open>tio\<close> holds the kernel, the memory of the character queues (\<open>Clist\<close>), one \<open>tty\<close> and two rings for each of the six UART
  channels, and the UARTs. A \<open>struct tty *\<close> is the index of its entry in \<open>epoch68_kl_tty\<close>. The only values that \<open>t_oproc\<close> and
  \<open>d_stop\<close> ever have are \<open>klstart\<close> and \<open>nulldev_stop\<close>, and these are what the code calls through them.

  A UART is what its registers show: \<open>ua_thre\<close> lists the answers of the coming reads of the transmitter's ready bit (no more answers:
  it stays busy), \<open>ua_rx\<close> the bytes that wait in the receiver, \<open>ua_tx\<close> the bytes written to the transmitter so far.
  \<open>io_past_maptab\<close> is the memory behind the 128 entries of \<open>maptab\<close>, which \<open>canon\<close> can index beyond its end.
\<close>

section \<open>Constants\<close>

definition TTIPRI :: int where "TTIPRI = 28"
definition TTOPRI :: int where "TTOPRI = 29"
definition TTHIWAT :: int where "TTHIWAT = 100"
definition TTLOWAT :: int where "TTLOWAT = 50"
definition TTYHOG :: int where "TTYHOG = 256"
definition CANBSIZ :: nat where "CANBSIZ = 256"
definition SIGINT :: int where "SIGINT = 2"
definition SIGQUIT :: int where "SIGQUIT = 3"

definition CERASE :: int where "CERASE = 35"
definition CEOT :: int where "CEOT = 4"
definition CKILL :: int where "CKILL = 64"
definition CQUIT :: int where "CQUIT = 28"
definition CINTR :: int where "CINTR = 3"
definition CSTOP :: int where "CSTOP = 19"
definition CSTART :: int where "CSTART = 17"
definition CBRK :: int where "CBRK = 255"

text \<open>The modes \<open>t_flags\<close> and the internal state \<open>t_state\<close>.\<close>

definition TANDEM :: "16 word" where [flag_simps]: "TANDEM = 0x0001"
definition CBREAK :: "16 word" where [flag_simps]: "CBREAK = 0x0002"
definition LCASE :: "16 word" where [flag_simps]: "LCASE = 0x0004"
definition ECHO :: "16 word" where [flag_simps]: "ECHO = 0x0008"
definition CRMOD :: "16 word" where [flag_simps]: "CRMOD = 0x0010"
definition RAW :: "16 word" where [flag_simps]: "RAW = 0x0020"
definition ODDP :: "16 word" where [flag_simps]: "ODDP = 0x0040"
definition EVENP :: "16 word" where [flag_simps]: "EVENP = 0x0080"
definition TBDELAY :: "16 word" where [flag_simps]: "TBDELAY = 0x0C00"
definition XTABS :: "16 word" where [flag_simps]: "XTABS = 0x0C00"
definition VTDELAY :: "16 word" where [flag_simps]: "VTDELAY = 0x4000"

definition TIMEOUT :: "16 word" where [flag_simps]: "TIMEOUT = 0x0001"
definition WOPEN :: "16 word" where [flag_simps]: "WOPEN = 0x0002"
definition ISOPEN :: "16 word" where [flag_simps]: "ISOPEN = 0x0004"
definition CARR_ON :: "16 word" where [flag_simps]: "CARR_ON = 0x0010"
definition BUSY :: "16 word" where [flag_simps]: "BUSY = 0x0020"
definition ASLEEP :: "16 word" where [flag_simps]: "ASLEEP = 0x0040"
definition XCLUDE :: "16 word" where [flag_simps]: "XCLUDE = 0x0080"
definition TTSTOP :: "16 word" where [flag_simps]: "TTSTOP = 0x0100"
definition HUPCLS :: "16 word" where [flag_simps]: "HUPCLS = 0x0200"
definition TBLOCK :: "16 word" where [flag_simps]: "TBLOCK = 0x0400"

definition UART_CHANNELS :: nat where "UART_CHANNELS = 6"
definition UART_RING_SIZE :: nat where "UART_RING_SIZE = 1280"
definition UART_RX_POLL_BUDGET :: nat where "UART_RX_POLL_BUDGET = 64"
definition UART_TX_POLL_BUDGET :: nat where "UART_TX_POLL_BUDGET = 64"
definition UART_IER_RX :: "8 word" where [flag_simps]: "UART_IER_RX = 0x01"
definition UART_IER_TX :: "8 word" where [flag_simps]: "UART_IER_TX = 0x02"

section \<open>State\<close>

text \<open>
  The fields of \<open>struct tc\<close> are those of the union \<open>t_un\<close>. Fields of type \<open>char\<close> are signed. \<open>t_iproc\<close>, \<open>t_linep\<close>
  and \<open>t_addr\<close> are never read.
\<close>

record tty =
  t_rawq :: clist
  t_canq :: clist
  t_outq :: clist
  t_chan :: "nat option"
  t_dev :: int
  t_flags :: "16 word"
  t_state :: "16 word"
  t_pgrp :: int
  t_delct :: int
  t_line :: int
  t_col :: int
  t_erase :: int
  t_kill :: int
  t_char :: int
  t_ispeed :: int
  t_ospeed :: int
  t_intrc :: int
  t_quitc :: int
  t_startc :: int
  t_stopc :: int
  t_eofc :: int
  t_brkc :: int

record epoch68_uart_ring =
  ur_head :: nat
  ur_tail :: nat
  ur_count :: nat
  ur_data :: "nat \<Rightarrow> 8 word"

record uart16550 =
  ua_thre :: "bool list"
  ua_rx :: "8 word list"
  ua_tx :: "8 word list"
  ua_ier :: "8 word"
  ua_lcr :: "8 word"
  ua_fcr :: "8 word"

record tio =
  io_kern :: kernel
  io_cs :: cspace
  io_tty :: "nat \<Rightarrow> tty"
  io_rx :: "nat \<Rightarrow> epoch68_uart_ring"
  io_txq :: "nat \<Rightarrow> epoch68_uart_ring"
  io_uart :: "nat \<Rightarrow> uart16550"
  io_canonb :: "nat \<Rightarrow> 8 word"
  io_past_maptab :: "int \<Rightarrow> int"
  tk_nin :: int
  tk_nout :: int

definition upd_tty :: "nat \<Rightarrow> (tty \<Rightarrow> tty) \<Rightarrow> tio \<Rightarrow> tio" where
  "upd_tty i f s = s\<lparr>io_tty := (io_tty s)(i := f (io_tty s i))\<rparr>"

definition upd_uart :: "nat \<Rightarrow> (uart16550 \<Rightarrow> uart16550) \<Rightarrow> tio \<Rightarrow> tio" where
  "upd_uart i f s = s\<lparr>io_uart := (io_uart s)(i := f (io_uart s i))\<rparr>"

definition on_kern :: "(kernel \<Rightarrow> kernel) \<Rightarrow> tio \<Rightarrow> tio" where
  "on_kern f s = s\<lparr>io_kern := f (io_kern s)\<rparr>"

definition set_tstate :: "nat \<Rightarrow> 16 word \<Rightarrow> tio \<Rightarrow> tio" where
  "set_tstate i m = upd_tty i (\<lambda>t. t\<lparr>t_state := t_state t OR m\<rparr>)"

definition clr_tstate :: "nat \<Rightarrow> 16 word \<Rightarrow> tio \<Rightarrow> tio" where
  "clr_tstate i m = upd_tty i (\<lambda>t. t\<lparr>t_state := t_state t AND NOT m\<rparr>)"

definition tstate :: "nat \<Rightarrow> 16 word \<Rightarrow> tio \<Rightarrow> bool" where
  "tstate i m s \<longleftrightarrow> t_state (io_tty s i) AND m \<noteq> 0"

definition tflag :: "nat \<Rightarrow> 16 word \<Rightarrow> tio \<Rightarrow> bool" where
  "tflag i m s \<longleftrightarrow> t_flags (io_tty s i) AND m \<noteq> 0"

text \<open>\<open>spl\<close>\<open>n\<close>\<open>()\<close> and \<open>splx(n)\<close>.\<close>

definition set_spl :: "nat \<Rightarrow> tio \<Rightarrow> tio" where
  "set_spl n s = s\<lparr>io_cs := (io_cs s)\<lparr>cs_spl := n\<rparr>\<rparr>"

section \<open>The queues of a terminal\<close>

datatype tqueue = Rawq | Canq | Outq

fun tq :: "tqueue \<Rightarrow> tty \<Rightarrow> clist" where
  "tq Rawq t = t_rawq t"
| "tq Canq t = t_canq t"
| "tq Outq t = t_outq t"

fun set_tq :: "tqueue \<Rightarrow> clist \<Rightarrow> tty \<Rightarrow> tty" where
  "set_tq Rawq q t = t\<lparr>t_rawq := q\<rparr>"
| "set_tq Canq q t = t\<lparr>t_canq := q\<rparr>"
| "set_tq Outq q t = t\<lparr>t_outq := q\<rparr>"

text \<open>The memory and one queue after an operation on that queue.\<close>

definition with_q :: "nat \<Rightarrow> tqueue \<Rightarrow> clist \<Rightarrow> cspace \<Rightarrow> tio \<Rightarrow> tio" where
  "with_q i k q cs s = upd_tty i (set_tq k q) (s\<lparr>io_cs := cs\<rparr>)"

definition tcc :: "nat \<Rightarrow> tqueue \<Rightarrow> tio \<Rightarrow> int" where
  "tcc i k s = c_cc (tq k (io_tty s i))"

text \<open>\<open>getc(&tp->q)\<close>, \<open>putc(c, &tp->q)\<close> and \<open>b_to_q(cp, cc, &tp->q)\<close>.\<close>

definition tgetc :: "nat \<Rightarrow> tqueue \<Rightarrow> tio \<Rightarrow> int \<times> tio" where
  "tgetc i k s = (case getc (tq k (io_tty s i)) (io_cs s) of (c, q, cs) \<Rightarrow> (c, with_q i k q cs s))"

definition tputc :: "int \<Rightarrow> nat \<Rightarrow> tqueue \<Rightarrow> tio \<Rightarrow> int \<times> tio" where
  "tputc c i k s = (case putc c (tq k (io_tty s i)) (io_cs s) of (r, q, cs) \<Rightarrow> (r, with_q i k q cs s))"

definition tb_to_q :: "8 word list \<Rightarrow> nat \<Rightarrow> tqueue \<Rightarrow> tio \<Rightarrow> tio" where
  "tb_to_q cp i k s = (case b_to_q cp (tq k (io_tty s i)) (io_cs s) of (r, q, cs) \<Rightarrow> with_q i k q cs s)"

text \<open>\<open>putc\<close> where its result is not used.\<close>

definition tput :: "int \<Rightarrow> nat \<Rightarrow> tqueue \<Rightarrow> tio \<Rightarrow> tio" where
  "tput c i k s = snd (tputc c i k s)"

lemma tq_set_tq [simp]: "tq k (set_tq k' q t) = (if k = k' then q else tq k t)"
  by (cases k; cases k') simp_all

lemma tcc_with_q [simp]: "tcc i k (with_q i k q cs s) = c_cc q"
  by (simp add: tcc_def with_q_def upd_tty_def)

lemma getc_counts:
  assumes "getc q cs = (c, q', cs')" "0 \<le> c"
  shows "0 < c_cc q \<and> c_cc q' = c_cc q - 1"
proof -
  have "0 < c_cc q"
    using assms by (cases "c_cc q \<le> 0") (auto simp add: getc_def Let_def)
  then show ?thesis using assms(1) by (auto simp add: getc_def Let_def split: if_splits)
qed

lemma tgetc_counts:
  assumes "tgetc i k s = (c, s')" "0 \<le> c"
  shows "0 < tcc i k s \<and> tcc i k s' = tcc i k s - 1"
proof -
  obtain c1 q1 cs1 where g: "getc (tq k (io_tty s i)) (io_cs s) = (c1, q1, cs1)" using prod_cases3 by blast
  then have "c = c1" "s' = with_q i k q1 cs1 s" using assms(1) by (simp_all add: tgetc_def)
  with getc_counts[OF g] assms(2) show ?thesis by (simp add: tcc_def with_q_def upd_tty_def)
qed

text \<open>\<open>while (getc(&tp->q) >= 0);\<close>\<close>

function drainq :: "nat \<Rightarrow> tqueue \<Rightarrow> tio \<Rightarrow> tio" where
  "drainq i k s = (case tgetc i k s of (c, s') \<Rightarrow> if 0 \<le> c then drainq i k s' else s')"
  by pat_completeness auto
termination
  by (relation "measure (\<lambda>(i, k, s). nat (tcc i k s))") (auto dest: tgetc_counts[OF sym])

declare drainq.simps [simp del]

section \<open>The rings of the UART driver\<close>

definition ring_put :: "int \<Rightarrow> epoch68_uart_ring \<Rightarrow> epoch68_uart_ring" where
  "ring_put value r =
    (if ur_count r \<ge> UART_RING_SIZE then r
     else r\<lparr>ur_data := (ur_data r)(ur_tail r := word_of_int value),
            ur_tail := (ur_tail r + 1) mod UART_RING_SIZE, ur_count := ur_count r + 1\<rparr>)"

definition ring_get :: "epoch68_uart_ring \<Rightarrow> int \<times> epoch68_uart_ring" where
  "ring_get r =
    (if ur_count r = 0 then (- 1, r)
     else (uint (ur_data r (ur_head r)),
           r\<lparr>ur_head := (ur_head r + 1) mod UART_RING_SIZE, ur_count := ur_count r - 1\<rparr>))"

definition uart_rx_ring_put :: "nat \<Rightarrow> int \<Rightarrow> tio \<Rightarrow> tio" where
  "uart_rx_ring_put ch value s =
    (if ch \<ge> UART_CHANNELS then s else s\<lparr>io_rx := (io_rx s)(ch := ring_put value (io_rx s ch))\<rparr>)"

definition uart_rx_ring_get :: "nat \<Rightarrow> tio \<Rightarrow> int \<times> tio" where
  "uart_rx_ring_get ch s =
    (if ch \<ge> UART_CHANNELS then (- 1, s)
     else case ring_get (io_rx s ch) of (c, r) \<Rightarrow> (c, s\<lparr>io_rx := (io_rx s)(ch := r)\<rparr>))"

definition uart_tx_ring_put :: "nat \<Rightarrow> int \<Rightarrow> tio \<Rightarrow> tio" where
  "uart_tx_ring_put ch value s =
    (if ch \<ge> UART_CHANNELS then s else s\<lparr>io_txq := (io_txq s)(ch := ring_put value (io_txq s ch))\<rparr>)"

definition uart_tx_ring_get :: "nat \<Rightarrow> tio \<Rightarrow> int \<times> tio" where
  "uart_tx_ring_get ch s =
    (if ch \<ge> UART_CHANNELS then (- 1, s)
     else case ring_get (io_txq s ch) of (c, r) \<Rightarrow> (c, s\<lparr>io_txq := (io_txq s)(ch := r)\<rparr>))"

text \<open>Reading the ready bit of the line status register, writing the transmit register.\<close>

definition uart_thre :: "nat \<Rightarrow> tio \<Rightarrow> bool \<times> tio" where
  "uart_thre ch s =
    (case ua_thre (io_uart s ch) of [] \<Rightarrow> (False, s)
     | b # bs \<Rightarrow> (b, upd_uart ch (\<lambda>h. h\<lparr>ua_thre := bs\<rparr>) s))"

definition uart_thr :: "nat \<Rightarrow> int \<Rightarrow> tio \<Rightarrow> tio" where
  "uart_thr ch c = upd_uart ch (\<lambda>h. h\<lparr>ua_tx := ua_tx h @ [word_of_int c]\<rparr>)"

section \<open>The transmit side\<close>

definition tio_wakeup :: "chan \<Rightarrow> tio \<Rightarrow> string + tio" where
  "tio_wakeup c s = (case wakeup c (io_kern s) of Inl msg \<Rightarrow> Inl msg | Inr k \<Rightarrow> Inr (s\<lparr>io_kern := k\<rparr>))"

text \<open>The two loops of \<open>uart_poll_tx_channel\<close>, with what is left of the budget.\<close>

fun tx_stage :: "nat \<Rightarrow> nat \<Rightarrow> tio \<Rightarrow> tio" where
  "tx_stage 0 ch s = s"
| "tx_stage (Suc n) ch s =
    (if ur_count (io_txq s ch) < UART_RING_SIZE \<and> \<not> tstate ch (TIMEOUT OR TTSTOP) s then
       (case tgetc ch Outq s of (c, s) \<Rightarrow>
          if c < 0 then s
          else if \<not> tflag ch RAW s \<and> c AND 0x80 \<noteq> 0 then tx_stage n ch s
          else tx_stage n ch (uart_tx_ring_put ch c s))
     else s)"

fun tx_send :: "nat \<Rightarrow> nat \<Rightarrow> tio \<Rightarrow> tio" where
  "tx_send 0 ch s = s"
| "tx_send (Suc n) ch s =
    (if ur_count (io_txq s ch) \<noteq> 0 then
       (case uart_thre ch s of (ready, s) \<Rightarrow>
          if \<not> ready then s
          else case uart_tx_ring_get ch s of (c, s) \<Rightarrow>
            if c < 0 then s else tx_send n ch (uart_thr ch c s))
     else s)"

definition tx_busy :: "nat \<Rightarrow> tio \<Rightarrow> tio" where
  "tx_busy ch s =
    (if ur_count (io_txq s ch) \<noteq> 0
     then upd_uart ch (\<lambda>h. h\<lparr>ua_ier := ua_ier h OR UART_IER_TX\<rparr>) (set_tstate ch BUSY s)
     else upd_uart ch (\<lambda>h. h\<lparr>ua_ier := ua_ier h AND NOT UART_IER_TX\<rparr>) (clr_tstate ch BUSY s))"

definition tx_wake :: "nat \<Rightarrow> tio \<Rightarrow> string + tio" where
  "tx_wake ch s =
    (if tcc ch Outq s \<le> TTLOWAT \<and> ur_count (io_txq s ch) = 0 then
       sbind (if tstate ch ASLEEP s then tio_wakeup (Ch_outq ch) (clr_tstate ch ASLEEP s) else Inr s) (\<lambda>s.
         if t_chan (io_tty s ch) \<noteq> None then tio_wakeup (Ch_outq ch) s else Inr s)
     else Inr s)"

definition uart_poll_tx_channel :: "nat \<Rightarrow> tio \<Rightarrow> string + tio" where
  "uart_poll_tx_channel ch s =
    (let spl = cs_spl (io_cs s); s = set_spl 6 s;
         s = tx_stage UART_TX_POLL_BUDGET ch s;
         s = tx_send UART_TX_POLL_BUDGET ch s;
         s = tx_busy ch s
     in sbind (tx_wake ch s) (\<lambda>s. Inr (set_spl spl s)))"

definition klstart :: "nat \<Rightarrow> tio \<Rightarrow> string + tio" where
  "klstart i s =
    (let ch = nat (minor (t_dev (io_tty s i)))
     in if ch \<ge> UART_CHANNELS then Inr s else uart_poll_tx_channel ch s)"

section \<open>Starting and flushing a terminal\<close>

definition nulldev_stop :: "nat \<Rightarrow> tio \<Rightarrow> tio" where
  "nulldev_stop i s = s"

definition ttstart :: "nat \<Rightarrow> tio \<Rightarrow> string + tio" where
  "ttstart i s =
    (let spl = cs_spl (io_cs s); s = set_spl 5 s
     in sbind (if \<not> tstate i (TIMEOUT OR TTSTOP OR BUSY) s then klstart i s else Inr s) (\<lambda>s.
        Inr (set_spl spl s)))"

definition ttrstrt :: "nat \<Rightarrow> tio \<Rightarrow> string + tio" where
  "ttrstrt i s = ttstart i (clr_tstate i TIMEOUT s)"

definition flushtty :: "nat \<Rightarrow> tio \<Rightarrow> string + tio" where
  "flushtty i s =
    sbind (tio_wakeup (Ch_rawq i) (drainq i Canq s)) (\<lambda>s.
    sbind (tio_wakeup (Ch_outq i) s) (\<lambda>s.
    let spl = cs_spl (io_cs s); s = set_spl 6 s;
        s = nulldev_stop i (clr_tstate i TTSTOP s);
        s = drainq i Rawq (drainq i Outq s);
        s = upd_tty i (\<lambda>t. t\<lparr>t_delct := 0\<rparr>) s
    in Inr (set_spl spl s)))"

text \<open>\<open>sleep\<close> at a priority above \<open>PZERO\<close>, as in \<open>Process_Sched.sleep\<close>, on the larger state.\<close>

definition tissig :: "(tio, nat) kern" where
  "tissig = (\<lambda>es s. case issig (io_kern s) of (n, k) \<Rightarrow> Ret n es (s\<lparr>io_kern := k\<rparr>))"

definition tswtch :: "(tio, unit) kern" where
  "tswtch = (\<lambda>es s.
     case swtch_pick (io_kern s) of
       Inl msg \<Rightarrow> Panic msg s
     | Inr (None, k) \<Rightarrow> Ret () es (s\<lparr>io_kern := k\<rparr>)
     | Inr (Some p, k) \<Rightarrow>
         if p = procp (io_kern s) then Ret () es (s\<lparr>io_kern := k\<rparr>) else kyield es (s\<lparr>io_kern := k\<rparr>))"

definition tsleep :: "chan \<Rightarrow> int \<Rightarrow> (tio, unit) kern" where
  "tsleep c pri =
    kbind (kget (\<lambda>s. (procp (io_kern s), HASH (io_kern s) c, cs_spl (io_cs s)))) (\<lambda>(rp, h, spl).
    kthen (kmod (set_spl 6))
    (kthen (kmod (on_kern (sleep_enter c pri)))
    (kbind tissig (\<lambda>n.
      if n \<noteq> 0 then kthen (kmod (on_kern (sleep_cancel rp h))) (kthen (kmod (set_spl 0)) klongjmp)
      else
        kthen (kmod (set_spl 0))
        (kthen (kwhen (\<lambda>s. k_runin (io_kern s) \<noteq> 0)
           (kthen (kmod (on_kern (\<lambda>k. k\<lparr>k_runin := 0\<rparr>))) (kpure (tio_wakeup Ch_runin))))
        (kthen tswtch
        (kbind tissig (\<lambda>n. if n \<noteq> 0 then klongjmp else kmod (set_spl spl)))))))))"

text \<open>
  The loop of \<open>wflushtty\<close>: after a \<open>continue\<close> the next test ends the loop, so that two turns more than the schedule has
  entries are enough.
\<close>

primrec wflush_loop :: "nat \<Rightarrow> nat \<Rightarrow> (tio, unit) kern" where
  "wflush_loop 0 i = (\<lambda>es s. Blocked s)"
| "wflush_loop (Suc n) i =
    kif (\<lambda>s. (tcc i Outq s \<noteq> 0 \<or> tstate i BUSY s) \<and> tstate i CARR_ON s)
      (kthen (kpure (klstart i))
      (kif (\<lambda>s. tcc i Outq s = 0 \<and> \<not> tstate i BUSY s)
        (wflush_loop n i)
        (kthen (kmod (set_tstate i ASLEEP)) (kthen (tsleep (Ch_outq i) TTOPRI) (wflush_loop n i)))))
      (kret ())"

definition wflushtty :: "nat \<Rightarrow> (tio, unit) kern" where
  "wflushtty i =
    kthen (kmod (set_spl 5))
    (kthen (\<lambda>es s. wflush_loop (length es + 2) i es s)
    (kthen (kpure (flushtty i)) (kmod (set_spl 0))))"

end
