(* ===== verification/Tty_Queues.thy ===== *)
theory Tty_Queues
  imports Tty_State
begin

text \<open>
  All queues of all terminals share the memory of the character blocks. \<open>tqs s Q n\<close> says that the queues of \<open>s\<close> are well formed, that no
  block belongs to two of them, that queue \<open>k\<close> of terminal \<open>i\<close> holds \<open>Q i k\<close>, that \<open>n\<close> blocks are free, and that no block is lost:
  the free ones and those of the queues are \<open>NCLIST\<close> together, so that the lengths of the queues bound \<open>n\<close> from below. Each operation on one
  queue is shown to act on \<open>Q\<close> alone and to leave the other queues as they are.
\<close>

section \<open>Operations on one of several queues\<close>

lemma q_ok_bounds:
  assumes "q_ok q B nx" "B \<noteq> []"
  shows "hd B + 4 \<le> c_cf q" "c_cl q \<le> last B + 16" "chain nx (hd B) B"
  using assms by (simp_all add: q_ok_def)

lemma other_queue:
  assumes q: "cl_ok q cs F B" and q2: "cl_ok q2 cs F B2" and dj: "set B \<inter> set B2 = {}"
    and new: "cl_ok q' cs' F' B'" "set F' \<union> set B' = set F \<union> set B" "cl_frame (set F \<union> set B) cs cs'"
  shows "cl_ok q2 cs' F' B2 \<and> contents q2 cs' B2 = contents q2 cs B2 \<and> set B' \<inter> set B2 = {}"
proof -
  have dF: "set F \<inter> set B2 = {}" "distinct B2" using q2 by (auto simp add: cl_ok_def)
  then have out: "\<And>b. b \<in> set B2 \<Longrightarrow> b \<notin> set F \<union> set B" using dj by blast
  then have dj': "set B' \<inter> set B2 = {}" "set F' \<inter> set B2 = {}" using new(2) by blast+
  have nx: "\<And>b. b \<in> set B2 \<Longrightarrow> cs_next cs' b = cs_next cs b" using new(3) out by (simp add: cl_frame_def)
  have ch: "chain (cs_next cs') (hd B2) B2 = chain (cs_next cs) (hd B2) B2" using nx by (intro chain_cong)
  have ok2: "q_ok q2 B2 (cs_next cs')" using q2 by (simp add: cl_ok_def q_ok_def ch)
  have "contents q2 cs' B2 = contents q2 cs B2"
  proof (cases "B2 = []")
    case False
    note b2 = q_ok_bounds[OF ok2 False]
    have al: "\<And>b. b \<in> set F \<union> set B \<Longrightarrow> b mod 16 = 0"
      using q chain_mem[of "cs_next cs"] by (cases "B = []") (auto simp add: cl_ok_def q_ok_def)
    have "cs_info cs' a = cs_info cs a" if a: "a \<in> set (span (c_cf q2) B2 (c_cl q2))" for a
    proof -
      obtain b where b: "b \<in> set B2" "b + 4 \<le> a" "a < b + 16"
        using span_block[OF a dF(2) b2(1,2)] by blast
      have "b mod 16 = 0" using chain_mem[OF b2(3) b(1)] by simp
      have "\<not> (c + 4 \<le> a \<and> a < c + 16)" if "c \<in> set F \<union> set B" for c
      proof -
        have "b \<noteq> c" using out[OF b(1)] that by blast
        from blocks_disjoint[OF \<open>b mod 16 = 0\<close> al[OF that] this] b show ?thesis by auto
      qed
      then show ?thesis using new(3) by (simp add: cl_frame_def)
    qed
    then show ?thesis by (simp add: contents_def)
  qed (simp add: contents_def)
  moreover have "cl_ok q2 cs' F' B2" using new(1) ok2 dj' dF by (auto simp add: cl_ok_def)
  ultimately show ?thesis using dj' by blast
qed

text \<open>The whole set of queues.\<close>

definition tqs_with ::
  "(nat \<Rightarrow> tqueue \<Rightarrow> clist) \<Rightarrow> cspace \<Rightarrow> nat list \<Rightarrow> (nat \<Rightarrow> tqueue \<Rightarrow> nat list) \<Rightarrow> (nat \<Rightarrow> tqueue \<Rightarrow> 8 word list) \<Rightarrow> bool" where
  "tqs_with T cs F B Q \<longleftrightarrow>
    (\<forall>i k. cl_ok (T i k) cs F (B i k) \<and> contents (T i k) cs (B i k) = Q i k) \<and>
    (\<forall>i k j l. (i, k) \<noteq> (j, l) \<longrightarrow> set (B i k) \<inter> set (B j l) = {}) \<and>
    card (set F \<union> (\<Union>(i, k). set (B i k))) = NCLIST"

abbreviation tqueues :: "tio \<Rightarrow> nat \<Rightarrow> tqueue \<Rightarrow> clist" where
  "tqueues s \<equiv> \<lambda>i k. tq k (io_tty s i)"

definition tqs :: "tio \<Rightarrow> (nat \<Rightarrow> tqueue \<Rightarrow> 8 word list) \<Rightarrow> nat \<Rightarrow> bool" where
  "tqs s Q n \<longleftrightarrow> (\<exists>F B. length F = n \<and> tqs_with (tqueues s) (io_cs s) F B Q)"

definition upd2 :: "nat \<Rightarrow> tqueue \<Rightarrow> 'a \<Rightarrow> (nat \<Rightarrow> tqueue \<Rightarrow> 'a) \<Rightarrow> nat \<Rightarrow> tqueue \<Rightarrow> 'a" where
  "upd2 i k x Q = Q(i := (Q i)(k := x))"

lemma upd2_apply [simp]: "upd2 i k x Q j l = (if j = i \<and> l = k then x else Q j l)"
  by (auto simp add: upd2_def)

lemma upd2_upd2 [simp]: "upd2 i k x (upd2 i k y Q) = upd2 i k x Q"
  by (simp add: upd2_def)

lemma upd2_id: "Q i k = x \<Longrightarrow> upd2 i k x Q = Q"
  by (auto simp add: upd2_def)

lemma tqs_with_step:
  assumes t: "tqs_with T cs F B Q"
    and new: "cl_ok q' cs' F' B'" "contents q' cs' B' = xs"
      "set F' \<union> set B' = set F \<union> set (B i k)" "cl_frame (set F \<union> set (B i k)) cs cs'"
  shows "tqs_with (upd2 i k q' T) cs' F' (upd2 i k B' B) (upd2 i k xs Q)"
proof -
  have ok: "\<And>j l. cl_ok (T j l) cs F (B j l)" and c: "\<And>j l. contents (T j l) cs (B j l) = Q j l"
    and dj: "\<And>j l j' l'. (j, l) \<noteq> (j', l') \<Longrightarrow> set (B j l) \<inter> set (B j' l') = {}"
    and all: "card (set F \<union> (\<Union>(i, k). set (B i k))) = NCLIST"
    using t by (simp_all add: tqs_with_def)
  have univ: "(UNIV :: (nat \<times> tqueue) set) = insert (i, k) (- {(i, k)})" by auto
  have "(\<Union>(j, l) \<in> - {(i, k)}. set (upd2 i k B' B j l)) = (\<Union>(j, l) \<in> - {(i, k)}. set (B j l))"
    by (rule SUP_cong) (simp_all add: case_prod_unfold prod_eq_iff cong: conj_cong)
  then have "(\<Union>(j, l). set (upd2 i k B' B j l)) = set B' \<union> (\<Union>(j, l) \<in> - {(i, k)}. set (B j l))"
    unfolding univ by simp
  moreover have "(\<Union>(j, l). set (B j l)) = set (B i k) \<union> (\<Union>(j, l) \<in> - {(i, k)}. set (B j l))"
    unfolding univ by simp
  ultimately have "card (set F' \<union> (\<Union>(j, l). set (upd2 i k B' B j l))) = NCLIST"
    using all new(3) by (metis Un_assoc)
  moreover
  have o: "cl_ok (T j l) cs' F' (B j l) \<and> contents (T j l) cs' (B j l) = contents (T j l) cs (B j l) \<and>
      set B' \<inter> set (B j l) = {}" if "(i, k) \<noteq> (j, l)" for j l
    using other_queue[OF ok ok dj[OF that] new(1,3,4)] .
  have "cl_ok (upd2 i k q' T j l) cs' F' (upd2 i k B' B j l) \<and>
      contents (upd2 i k q' T j l) cs' (upd2 i k B' B j l) = upd2 i k xs Q j l" for j l
    using o[of j l] new(1,2) c[of j l] by (cases "j = i \<and> l = k") auto
  moreover have "set (upd2 i k B' B j l) \<inter> set (upd2 i k B' B j' l') = {}" if "(j, l) \<noteq> (j', l')" for j l j' l'
    using o[of j l] o[of j' l'] dj[OF that] that
    by (cases "j = i \<and> l = k"; cases "j' = i \<and> l' = k") auto
  ultimately show ?thesis by (simp only: tqs_with_def) blast
qed

section \<open>Queues inside the state\<close>

lemma io_with_q [simp]:
  "io_cs (with_q i k q cs s) = cs"
  "io_kern (with_q i k q cs s) = io_kern s"
  "io_rx (with_q i k q cs s) = io_rx s"
  "io_txq (with_q i k q cs s) = io_txq s"
  "io_uart (with_q i k q cs s) = io_uart s"
  "io_canonb (with_q i k q cs s) = io_canonb s"
  "tk_nin (with_q i k q cs s) = tk_nin s"
  "tk_nout (with_q i k q cs s) = tk_nout s"
  by (simp_all add: with_q_def upd_tty_def)

lemma tqueues_with_q: "tqueues (with_q i k q cs s) = upd2 i k q (tqueues s)"
  by (auto simp add: with_q_def upd_tty_def fun_eq_iff)

lemma set_tq_same [simp]: "set_tq k (tq k t) t = t"
  by (cases k) simp_all

lemma with_q_id [simp]: "with_q i k (tq k (io_tty s i)) (io_cs s) s = s"
  by (simp add: with_q_def upd_tty_def)

text \<open>What an operation on one queue may change.\<close>

definition qframe :: "nat \<Rightarrow> tqueue \<Rightarrow> tio \<Rightarrow> tio \<Rightarrow> bool" where
  "qframe i k s s' \<longleftrightarrow> (\<exists>q cs. s' = with_q i k q cs s \<and> cs_spl cs = cs_spl (io_cs s))"

lemma qframe_refl [simp]: "qframe i k s s"
  unfolding qframe_def by (metis with_q_id)

lemma set_tq_twice [simp]: "set_tq k q (set_tq k q' t) = set_tq k q t"
  by (cases k) simp_all

lemma qframe_trans: "\<lbrakk>qframe i k s s'; qframe i k s' s''\<rbrakk> \<Longrightarrow> qframe i k s s''"
  by (fastforce simp add: qframe_def with_q_def upd_tty_def)

lemma tqs_count: "tqs s Q n \<Longrightarrow> tcc i k s = int (length (Q i k))"
  by (auto simp add: tqs_def tqs_with_def tcc_def dest!: spec[of _ i] spec[of _ k] contents_length)

lemma tqs_get:
  assumes t: "tqs s Q n" and x: "Q i k = x # xs"
  shows "\<exists>s' n'. tgetc i k s = (uint x, s') \<and> tqs s' (upd2 i k xs Q) n' \<and> n \<le> n' \<and> qframe i k s s'"
proof -
  obtain F B where FB: "length F = n" "tqs_with (tqueues s) (io_cs s) F B Q" using t by (auto simp add: tqs_def)
  then have ok: "cl_ok (tqueues s i k) (io_cs s) F (B i k)" "contents (tqueues s i k) (io_cs s) (B i k) = x # xs"
    using x by (simp_all add: tqs_with_def)
  obtain c q' cs' where g: "getc (tq k (io_tty s i)) (io_cs s) = (c, q', cs')" using prod_cases3 by blast
  from getc_ok[OF ok g] obtain F' B' where new: "c = uint x" "cl_ok q' cs' F' B'" "contents q' cs' B' = xs"
      "set F' \<union> set B' = set F \<union> set (B i k)" "set F \<subseteq> set F'" "cl_frame (set F \<union> set (B i k)) (io_cs s) cs'"
    by blast
  have "n \<le> length F'"
    using new(2,5) ok(1) FB(1) card_mono[OF _ new(5)] by (simp add: cl_ok_def distinct_card)
  moreover have "tqs (with_q i k q' cs' s) (upd2 i k xs Q) (length F')"
    unfolding tqs_def tqueues_with_q
    using tqs_with_step[OF FB(2) new(2,3,4,6)] by auto
  moreover have "qframe i k s (with_q i k q' cs' s)"
    using new(6) by (auto simp add: qframe_def cl_frame_def)
  ultimately show ?thesis using g new(1) by (auto simp add: tgetc_def)
qed

lemma tqs_get_empty:
  assumes t: "tqs s Q n" and x: "Q i k = []"
  shows "tgetc i k s = (- 1, s)"
proof -
  obtain F B where FB: "tqs_with (tqueues s) (io_cs s) F B Q" using t by (auto simp add: tqs_def)
  then have "cl_ok (tqueues s i k) (io_cs s) F (B i k)" "contents (tqueues s i k) (io_cs s) (B i k) = []"
    using x by (simp_all add: tqs_with_def)
  then have "cl_ok (tqueues s i k) (io_cs s) F []" using contents_Nil_iff by fastforce
  then show ?thesis by (simp add: tgetc_def getc_empty)
qed

lemma room_blocks:
  assumes "cl_ok q cs F B" "cl_ok q' cs' F' B'" "room q' F' B' + 1 = room q F B"
  shows "length F \<le> Suc (length F')"
proof -
  have "B' \<noteq> [] \<Longrightarrow> last B' + 4 < c_cl q'" using assms(2) by (simp add: cl_ok_def q_ok_def)
  then have "room q' F' B' < 12 * length F' + 12" by (auto simp add: room_def CBSIZE_def)
  moreover have "12 * length F \<le> room q F B" by (simp add: room_def CBSIZE_def)
  ultimately show ?thesis using assms(3) by linarith
qed

lemma tqs_put:
  assumes t: "tqs s Q n"
  shows "(\<exists>s' n'. tputc c i k s = (0, s') \<and> tqs s' (upd2 i k (Q i k @ [word_of_int c]) Q) n' \<and> n \<le> Suc n' \<and>
      qframe i k s s') \<or> (n = 0 \<and> tputc c i k s = (- 1, s))"
proof -
  obtain F B where FB: "length F = n" "tqs_with (tqueues s) (io_cs s) F B Q" using t by (auto simp add: tqs_def)
  then have ok: "cl_ok (tqueues s i k) (io_cs s) F (B i k)" "contents (tqueues s i k) (io_cs s) (B i k) = Q i k"
    by (simp_all add: tqs_with_def)
  show ?thesis
  proof (cases "room (tqueues s i k) F (B i k)")
    case 0
    with putc_full[OF ok(1), of c] FB(1) show ?thesis by (simp add: tputc_def room_def CBSIZE_def)
  next
    case (Suc m)
    obtain e q' cs' where p: "putc c (tq k (io_tty s i)) (io_cs s) = (e, q', cs')" using prod_cases3 by blast
    from putc_ok[OF ok(1) _ p] Suc ok(2)
    obtain F' B' where new: "e = 0" "cl_ok q' cs' F' B'" "contents q' cs' B' = Q i k @ [word_of_int c]"
        "room q' F' B' + 1 = room (tqueues s i k) F (B i k)"
        "set F' \<union> set B' = set F \<union> set (B i k)" "cl_frame (set F \<union> set (B i k)) (io_cs s) cs'"
      by (auto simp add: stored_def)
    have "n \<le> Suc (length F')" using room_blocks[OF ok(1) new(2,4)] FB(1) by simp
    moreover have "tqs (with_q i k q' cs' s) (upd2 i k (Q i k @ [word_of_int c]) Q) (length F')"
      unfolding tqs_def tqueues_with_q
      using tqs_with_step[OF FB(2) new(2,3,5,6)] by auto
    moreover have "qframe i k s (with_q i k q' cs' s)"
      using new(6) by (auto simp add: qframe_def cl_frame_def)
    ultimately show ?thesis using p new(1) by (auto simp add: tputc_def)
  qed
qed

text \<open>\<open>putc\<close> with a free block, and in general.\<close>

lemma tput_some:
  assumes "tqs s Q n" "0 < n"
  shows "\<exists>n'. tqs (tput c i k s) (upd2 i k (Q i k @ [word_of_int c]) Q) n' \<and> n \<le> Suc n' \<and>
    qframe i k s (tput c i k s)"
  using tqs_put[OF assms(1), of c i k] assms(2) by (auto simp add: tput_def)

lemma tput_any:
  assumes "tqs s Q n"
  shows "\<exists>xs n'. tqs (tput c i k s) (upd2 i k xs Q) n' \<and> n \<le> Suc n' \<and> qframe i k s (tput c i k s) \<and>
    length xs \<le> Suc (length (Q i k))"
  using tqs_put[OF assms(1), of c i k]
proof (elim disjE exE conjE)
  assume "n = 0" "tputc c i k s = (- 1, s)"
  then show ?thesis
    using assms upd2_id[of Q i k "Q i k"]
    by - (rule exI[of _ "Q i k"], rule exI[of _ n], simp add: tput_def)
next
  fix s' n'
  assume "tputc c i k s = (0, s')" "tqs s' (upd2 i k (Q i k @ [word_of_int c]) Q) n'" "n \<le> Suc n'" "qframe i k s s'"
  then show ?thesis by (intro exI[of _ "Q i k @ [word_of_int c]"] exI[of _ n']) (simp add: tput_def)
qed

text \<open>A block transfer into a queue, with enough free blocks.\<close>

lemma tqs_b_to_q:
  assumes t: "tqs s Q n" and len: "length xs \<le> 12 * n"
  shows "\<exists>n'. tqs (tb_to_q xs i k s) (upd2 i k (Q i k @ xs) Q) n' \<and> qframe i k s (tb_to_q xs i k s)"
proof -
  obtain F B where FB: "length F = n" "tqs_with (tqueues s) (io_cs s) F B Q" using t by (auto simp add: tqs_def)
  then have ok: "cl_ok (tqueues s i k) (io_cs s) F (B i k)" "contents (tqueues s i k) (io_cs s) (B i k) = Q i k"
    by (simp_all add: tqs_with_def)
  obtain r q' cs' where p: "putc_all xs (tq k (io_tty s i)) (io_cs s) = (r, q', cs')" using prod_cases3 by blast
  have "take (room (tqueues s i k) F (B i k)) xs = xs" using len FB(1) by (simp add: room_def CBSIZE_def)
  then obtain F' B' where new: "cl_ok q' cs' F' B'" "contents q' cs' B' = Q i k @ xs"
      "set F' \<union> set B' = set F \<union> set (B i k)" "cl_frame (set F \<union> set (B i k)) (io_cs s) cs'"
    using putc_all_ok[OF ok(1) p] ok(2) by auto
  have run: "tb_to_q xs i k s = with_q i k q' cs' s" by (simp add: tb_to_q_def b_to_q_putc_all[OF ok(1) p])
  have "tqs (with_q i k q' cs' s) (upd2 i k (Q i k @ xs) Q) (length F')"
    unfolding tqs_def tqueues_with_q using tqs_with_step[OF FB(2) new] by auto
  moreover have "qframe i k s (with_q i k q' cs' s)" using new(4) by (auto simp add: qframe_def cl_frame_def)
  ultimately show ?thesis unfolding run by blast
qed

text \<open>The number of free blocks is determined by the state.\<close>

lemma chain_unique: "\<lbrakk>chain nx p xs; chain nx p ys\<rbrakk> \<Longrightarrow> xs = ys"
proof (induction xs arbitrary: p ys)
  case Nil
  then show ?case by (cases ys) auto
next
  case (Cons x xs)
  then show ?case by (cases ys) auto
qed

lemma tqs_free_unique: "\<lbrakk>tqs s Q n; tqs s R m\<rbrakk> \<Longrightarrow> n = m"
  unfolding tqs_def tqs_with_def cl_ok_def using chain_unique by metis

lemma drainq_ok:
  assumes "tqs s Q n"
  shows "\<exists>n'. tqs (drainq i k s) (upd2 i k [] Q) n' \<and> n \<le> n' \<and> qframe i k s (drainq i k s)"
  using assms
proof (induction "Q i k" arbitrary: s Q n)
  case Nil
  then have "drainq i k s = s" by (simp add: drainq.simps tqs_get_empty)
  moreover have "upd2 i k [] Q = Q" using Nil.hyps by (simp add: upd2_id)
  ultimately show ?case using Nil.prems by auto
next
  case (Cons x xs)
  obtain s1 n1 where g: "tgetc i k s = (uint x, s1)" "tqs s1 (upd2 i k xs Q) n1" "n \<le> n1" "qframe i k s s1"
    using tqs_get[OF Cons.prems Cons.hyps(2)[symmetric]] by blast
  have "xs = upd2 i k xs Q i k" by simp
  from Cons.hyps(1)[OF this g(2)] obtain n2 where
    r: "tqs (drainq i k s1) (upd2 i k [] Q) n2" "n1 \<le> n2" "qframe i k s1 (drainq i k s1)" by auto
  have "drainq i k s = drainq i k s1" using g(1) by (simp add: drainq.simps[of i k s])
  with r g(3,4) qframe_trans[OF g(4) r(3)] show ?case by (metis le_trans)
qed

section \<open>No block is lost\<close>

text \<open>The blocks that \<open>m\<close> characters can take: the first may be all but empty, and the last.\<close>

definition blocks_for :: "nat \<Rightarrow> nat" where
  "blocks_for m = (if m = 0 then 0 else (m + 22) div 12)"

lemma blocks_for_mono: "m \<le> m' \<Longrightarrow> blocks_for m \<le> blocks_for m'"
  by (auto simp add: blocks_for_def intro: div_le_mono)

lemma blocks_for_enough: "m \<le> 12 * blocks_for m"
proof (cases "m = 0")
  case False
  have "m + 11 \<le> 12 * ((m + 22) div 12)" by simp
  then show ?thesis using False by (simp add: blocks_for_def)
qed simp

lemma span_fills:
  assumes "chain nx p B" "B \<noteq> []" "f < hd B + 16" "last B + 4 < l" "length B = 1 \<longrightarrow> f < l"
  shows "12 * length B + (hd B + 4) + 1 \<le> length (span f B l) + f + 12"
  using assms
proof (induction f B l arbitrary: p rule: span.induct)
  case (3 f b c bs l)
  have "chain nx (nx b) (c # bs)" using "3.prems"(1) by simp
  moreover have "length (c # bs) = 1 \<longrightarrow> c + 4 < l" "last (c # bs) + 4 < l" using "3.prems"(4) by auto
  ultimately have "12 * length (c # bs) + (c + 4) + 1 \<le> length (span (c + 4) (c # bs) l) + (c + 4) + 12"
    using "3.IH"[of "nx b"] by simp
  then show ?case using "3.prems"(3) by simp
qed auto

lemma cl_ok_blocks:
  assumes "cl_ok q cs F B"
  shows "length B \<le> blocks_for (length (contents q cs B))"
proof (cases "B = []")
  case False
  then have q: "chain (cs_next cs) (hd B) B" "hd B + 4 \<le> c_cf q" "c_cf q < hd B + 16" "last B + 4 < c_cl q"
      "length B = 1 \<longrightarrow> c_cf q < c_cl q"
    using assms by (simp_all add: cl_ok_def q_ok_def)
  have "12 * length B \<le> length (contents q cs B) + 22"
    using span_fills[OF q(1) False q(3-5)] q(2,3) by (simp add: contents_def)
  moreover have "contents q cs B \<noteq> []" using contents_Nil_iff[OF assms] False by simp
  ultimately show ?thesis by (simp add: blocks_for_def less_eq_div_iff_mult_less_eq)
qed simp

text \<open>The free blocks are those that the characters in the queues do not take.\<close>

lemma tqs_accounted:
  assumes t: "tqs s Q n" and S: "finite S" "\<forall>j k. (j, k) \<notin> S \<longrightarrow> Q j k = []"
  shows "NCLIST \<le> n + (\<Sum>(j, k)\<in>S. blocks_for (length (Q j k)))"
proof -
  obtain F B where FB: "length F = n" "tqs_with (tqueues s) (io_cs s) F B Q" using t by (auto simp add: tqs_def)
  then have ok: "cl_ok (tqueues s j k) (io_cs s) F (B j k)" "contents (tqueues s j k) (io_cs s) (B j k) = Q j k" for j k
    by (simp_all add: tqs_with_def)
  have le: "card (set (B j k)) \<le> blocks_for (length (Q j k))" for j k
    using cl_ok_blocks[OF ok(1)[of k j]] card_length[of "B j k"] by (simp add: ok(2))
  have "set (B j k) = {}" if "(j, k) \<notin> S" for j k
    using contents_Nil_iff[OF ok(1)[of k j]] S(2) that by (simp add: ok(2))
  then have "(\<Union>(j, k)\<in>- S. set (B j k)) = {}" by (intro SUP_eq_const ballI SUP_bot_conv[THEN iffD2]) auto
  moreover have "(\<Union>(j, k). set (B j k)) = (\<Union>(j, k)\<in>S \<union> - S. set (B j k))" by (simp only: Compl_partition)
  ultimately have "(\<Union>(j, k). set (B j k)) = (\<Union>(j, k)\<in>S. set (B j k))" by (simp only: UN_Un Un_empty_right)
  moreover have "card (set F \<union> (\<Union>(j, k). set (B j k))) = NCLIST" using FB(2) by (simp add: tqs_with_def)
  ultimately have "NCLIST = card (set F \<union> (\<Union>(j, k)\<in>S. set (B j k)))" by simp
  also have "\<dots> \<le> card (set F) + card (\<Union>(j, k)\<in>S. set (B j k))" by (rule card_Un_le)
  also have "card (\<Union>(j, k)\<in>S. set (B j k)) \<le> (\<Sum>(j, k)\<in>S. card (set (B j k)))"
    using card_UN_le[OF S(1), of "\<lambda>(j, k). set (B j k)"] by (simp add: case_prod_unfold)
  also have "\<dots> \<le> (\<Sum>(j, k)\<in>S. blocks_for (length (Q j k)))"
    using le by (intro sum_mono) (simp add: case_prod_unfold)
  finally show ?thesis using card_length[of F] FB(1) by simp
qed

section \<open>Updates that leave the queues alone\<close>

lemma cl_ok_spl [simp]: "cl_ok q (cs\<lparr>cs_spl := n\<rparr>) F B = cl_ok q cs F B"
  by (simp add: cl_ok_def)

lemma contents_spl [simp]: "contents q (cs\<lparr>cs_spl := n\<rparr>) B = contents q cs B"
  by (simp add: contents_def)

lemma tqs_cong:
  assumes "tqueues s' = tqueues s" "io_cs s' = (io_cs s)\<lparr>cs_spl := m\<rparr>"
  shows "tqs s' Q n = tqs s Q n"
  using assms(1) by (simp add: tqs_def tqs_with_def assms(2))

lemma io_cs_self: "io_cs s = (io_cs s)\<lparr>cs_spl := cs_spl (io_cs s)\<rparr>"
  by simp

lemma tqs_upd_tty:
  assumes "\<And>k. tq k (f (io_tty s i)) = tq k (io_tty s i)"
  shows "tqs (upd_tty i f s) Q n = tqs s Q n"
  by (rule tqs_cong[of _ _ "cs_spl (io_cs s)"]) (auto simp add: upd_tty_def fun_eq_iff assms)

lemma tqs_simps [simp]:
  "tqs (set_spl m s) Q n = tqs s Q n"
  "tqs (set_tstate i w s) Q n = tqs s Q n"
  "tqs (clr_tstate i w s) Q n = tqs s Q n"
  "tqs (upd_uart j h s) Q n = tqs s Q n"
  "tqs (on_kern g s) Q n = tqs s Q n"
  "tqs (s\<lparr>io_kern := k\<rparr>) Q n = tqs s Q n"
  "tqs (s\<lparr>io_rx := r\<rparr>) Q n = tqs s Q n"
  "tqs (s\<lparr>io_txq := r\<rparr>) Q n = tqs s Q n"
  "tqs (s\<lparr>io_canonb := b\<rparr>) Q n = tqs s Q n"
  "tqs (s\<lparr>tk_nin := x\<rparr>) Q n = tqs s Q n"
  "tqs (s\<lparr>tk_nout := x\<rparr>) Q n = tqs s Q n"
  subgoal by (rule tqs_cong[of _ _ m]) (simp_all add: set_spl_def)
  subgoal unfolding set_tstate_def by (rule tqs_upd_tty) (case_tac k; simp)
  subgoal unfolding clr_tstate_def by (rule tqs_upd_tty) (case_tac k; simp)
  by (rule tqs_cong[of _ _ "cs_spl (io_cs s)"], simp_all add: upd_uart_def on_kern_def)+

end
