(* ===== verification/Tty_Transmit.thy ===== *)
theory Tty_Transmit
  imports Tty_Queues
begin

text \<open>
  The software rings of \<open>dev/kl.c\<close> are bounded FIFO queues (the locale \<open>char_queue\<close> of \<open>Clist\<close>), and the transmit side passes the
  output queue of a terminal through its ring to the UART in order and without loss: \<open>line_out\<close>, what has been sent followed by
  what waits in the ring and in the queue, stays the same.
\<close>

section \<open>Rings\<close>

definition ring_ok :: "epoch68_uart_ring \<Rightarrow> bool" where
  "ring_ok r \<longleftrightarrow> ur_head r < UART_RING_SIZE \<and> ur_count r \<le> UART_RING_SIZE \<and>
    ur_tail r = (ur_head r + ur_count r) mod UART_RING_SIZE"

definition ring_list :: "epoch68_uart_ring \<Rightarrow> 8 word list" where
  "ring_list r = map (\<lambda>i. ur_data r ((ur_head r + i) mod UART_RING_SIZE)) [0 ..< ur_count r]"

lemma ring_list_length [simp]: "length (ring_list r) = ur_count r"
  by (simp add: ring_list_def)

lemma ring_list_Nil [simp]: "ring_list r = [] \<longleftrightarrow> ur_count r = 0"
  by (simp add: ring_list_def)

lemma ring_slot:
  assumes "h < (m :: nat)" "i < c" "c < m"
  shows "(h + i) mod m \<noteq> (h + c) mod m"
proof
  assume "(h + i) mod m = (h + c) mod m"
  then have "(h + c - (h + i)) mod m = 0" using assms by (intro mod_eq_dvd_iff_nat[THEN iffD1, THEN dvd_imp_mod_0]) auto
  then show False using assms by simp
qed

lemma ring_put_ok:
  assumes "ring_ok r" "ur_count r < UART_RING_SIZE"
  shows "ring_ok (ring_put v r) \<and> ring_list (ring_put v r) = ring_list r @ [word_of_int v]"
proof -
  have "ring_list (ring_put v r) = ring_list r @ [word_of_int v]"
    using assms ring_slot[of "ur_head r" UART_RING_SIZE _ "ur_count r"]
    by (simp add: ring_put_def ring_list_def ring_ok_def)
  moreover have "ring_ok (ring_put v r)"
    using assms by (simp add: ring_put_def ring_ok_def mod_Suc_eq)
  ultimately show ?thesis by simp
qed

lemma ring_put_full: "UART_RING_SIZE \<le> ur_count r \<Longrightarrow> ring_put v r = r"
  by (simp add: ring_put_def)

lemma ring_get_ok:
  assumes ok: "ring_ok r" and ne: "0 < ur_count r"
  shows "\<exists>r'. ring_get r = (uint (hd (ring_list r)), r') \<and> ring_ok r' \<and> ring_list r = hd (ring_list r) # ring_list r' \<and>
    ur_count r' = ur_count r - 1"
proof -
  obtain n where n: "ur_count r = Suc n" using ne by (cases "ur_count r") auto
  let ?r' = "r\<lparr>ur_head := (ur_head r + 1) mod UART_RING_SIZE, ur_count := ur_count r - 1\<rparr>"
  have h: "ur_head r mod UART_RING_SIZE = ur_head r" using ok by (simp add: ring_ok_def)
  have split: "ring_list r = ur_data r (ur_head r) # ring_list ?r'"
  proof -
    have "ring_list r = map (\<lambda>i. ur_data r ((ur_head r + i) mod UART_RING_SIZE)) (0 # map Suc [0 ..< n])"
      by (simp add: ring_list_def n upt_conv_Cons map_Suc_upt del: upt_Suc)
    also have "\<dots> = ur_data r (ur_head r) # ring_list ?r'"
      by (simp add: ring_list_def n h mod_add_left_eq)
    finally show ?thesis .
  qed
  moreover have "ring_ok ?r'"
    using ok mod_add_left_eq[of "Suc (ur_head r)" UART_RING_SIZE n] by (simp add: ring_ok_def n UART_RING_SIZE_def)
  moreover have "ring_get r = (uint (ur_data r (ur_head r)), ?r')" using ne by (simp add: ring_get_def)
  ultimately show ?thesis by simp
qed

definition ring_rel :: "epoch68_uart_ring \<Rightarrow> 8 word list \<Rightarrow> nat \<Rightarrow> bool" where
  "ring_rel r xs n \<longleftrightarrow> ring_ok r \<and> ring_list r = xs \<and> n = UART_RING_SIZE - ur_count r"

definition ring_store :: "int \<Rightarrow> epoch68_uart_ring \<Rightarrow> int \<times> epoch68_uart_ring" where
  "ring_store v r = (if ur_count r < UART_RING_SIZE then 0 else - 1, ring_put v r)"

interpretation rq: char_queue ring_rel ring_get ring_store
proof
  show "ring_get s = (- 1, s)" if "ring_rel s [] n" for s n
    using that by (simp add: ring_rel_def ring_get_def)
  show "\<exists>s' n'. ring_get s = (uint x, s') \<and> ring_rel s' xs n'" if r: "ring_rel s (x # xs) n" for s x xs n
  proof -
    have "0 < ur_count s" using r ring_list_length[of s] by (simp add: ring_rel_def del: ring_list_length)
    from ring_get_ok[OF _ this] r show ?thesis by (auto simp add: ring_rel_def)
  qed
  show "\<exists>s'. ring_store c s = (0, s') \<and> ring_rel s' (xs @ [word_of_int c]) n"
    if r: "ring_rel s xs (Suc n)" for s xs n c
  proof -
    have lt: "ur_count s < UART_RING_SIZE" using r unfolding ring_rel_def by linarith
    moreover have "ur_count (ring_put c s) = Suc (ur_count s)" using lt by (simp add: ring_put_def)
    ultimately show ?thesis using r ring_put_ok[of s c] by (auto simp add: ring_rel_def ring_store_def)
  qed
  show "ring_store c s = (- 1, s)" if "ring_rel s xs 0" for s xs c
    using that by (simp add: ring_rel_def ring_store_def ring_put_full ring_ok_def)
qed

section \<open>From the queue through the ring to the UART\<close>

text \<open>What the line is to carry: in cooked mode a character above 0177 is a delay, which this driver skips.\<close>

definition to_line :: "bool \<Rightarrow> 8 word list \<Rightarrow> 8 word list" where
  "to_line raw xs = (if raw then xs else filter (\<lambda>w. w AND 0x80 = 0) xs)"

lemma to_line_simps [simp]:
  "to_line raw [] = []"
  "to_line raw (xs @ ys) = to_line raw xs @ to_line raw ys"
  "to_line raw (x # xs) = (if raw \<or> x AND 0x80 = 0 then x # to_line raw xs else to_line raw xs)"
  by (simp_all add: to_line_def)

definition line_out :: "nat \<Rightarrow> tio \<Rightarrow> (nat \<Rightarrow> tqueue \<Rightarrow> 8 word list) \<Rightarrow> 8 word list" where
  "line_out ch s Q = ua_tx (io_uart s ch) @ ring_list (io_txq s ch) @ to_line (tflag ch RAW s) (Q ch Outq)"

text \<open>The parts of the state that \<open>tx_stage\<close> and \<open>tx_send\<close> leave alone.\<close>

definition rest_same :: "nat \<Rightarrow> tio \<Rightarrow> tio \<Rightarrow> bool" where
  "rest_same ch s s' \<longleftrightarrow> io_rx s' = io_rx s \<and> io_canonb s' = io_canonb s \<and>
    tk_nin s' = tk_nin s \<and> tk_nout s' = tk_nout s \<and> cs_spl (io_cs s') = cs_spl (io_cs s) \<and>
    (\<forall>j. j \<noteq> ch \<longrightarrow> io_tty s' j = io_tty s j \<and> io_txq s' j = io_txq s j \<and> io_uart s' j = io_uart s j)"

definition stage_frame :: "nat \<Rightarrow> tio \<Rightarrow> tio \<Rightarrow> bool" where
  "stage_frame ch s s' \<longleftrightarrow> rest_same ch s s' \<and> io_kern s' = io_kern s \<and> io_uart s' = io_uart s \<and>
    (\<exists>q. io_tty s' ch = (io_tty s ch)\<lparr>t_outq := q\<rparr>)"

lemma rest_same_refl [simp]: "rest_same ch s s"
  by (simp add: rest_same_def)

lemma rest_same_trans: "\<lbrakk>rest_same ch s s'; rest_same ch s' s''\<rbrakk> \<Longrightarrow> rest_same ch s s''"
  by (simp add: rest_same_def)

lemma stage_frameI: "qframe ch Outq s s' \<Longrightarrow> stage_frame ch s s'"
  by (auto simp add: qframe_def stage_frame_def rest_same_def with_q_def upd_tty_def)

lemma stage_frame_refl [simp]: "stage_frame ch s s"
  by (simp add: stage_frameI)

lemma stage_frame_trans:
  assumes "stage_frame ch s s'" "stage_frame ch s' s''"
  shows "stage_frame ch s s''"
proof -
  obtain q q' where "io_tty s' ch = (io_tty s ch)\<lparr>t_outq := q\<rparr>" "io_tty s'' ch = (io_tty s' ch)\<lparr>t_outq := q'\<rparr>"
    using assms by (auto simp add: stage_frame_def)
  then have "io_tty s'' ch = (io_tty s ch)\<lparr>t_outq := q'\<rparr>" by simp
  with assms show ?thesis unfolding stage_frame_def using rest_same_trans by metis
qed

lemma stage_frame_put: "stage_frame ch s (uart_tx_ring_put ch c s)"
  by (auto simp add: stage_frame_def rest_same_def uart_tx_ring_put_def intro!: exI[of _ "t_outq (io_tty s ch)"])

lemma stage_frame_flags:
  assumes "stage_frame ch s s'"
  shows "tflag ch m s' = tflag ch m s" "tstate ch m s' = tstate ch m s" "io_uart s' = io_uart s" "io_kern s' = io_kern s"
  using assms by (auto simp add: stage_frame_def tflag_def tstate_def)

lemma tx_ring_put_simps [simp]:
  "tqs (uart_tx_ring_put ch c s) Q n = tqs s Q n"
  "ch < UART_CHANNELS \<Longrightarrow> io_txq (uart_tx_ring_put ch c s) ch = ring_put c (io_txq s ch)"
  by (simp_all add: uart_tx_ring_put_def)

lemma tgetc_ring [simp]: "tgetc i k s = (c, s') \<Longrightarrow> io_txq s' = io_txq s"
  by (auto simp add: tgetc_def split: prod.splits)

lemma delay_char: "(uint (w :: 8 word) AND 0x80 \<noteq> 0) = (w AND 0x80 \<noteq> 0)"
proof -
  have "uint (w AND 0x80) = uint w AND 0x80" by (simp add: uint_and)
  then show ?thesis by (metis uint_0_eq uint_0_iff)
qed

lemma tx_stage_ok:
  assumes "tqs s Q n" "ring_ok (io_txq s ch)" "ch < UART_CHANNELS"
  shows "\<exists>xs n'. tqs (tx_stage m ch s) (upd2 ch Outq xs Q) n' \<and> n \<le> n' \<and> ring_ok (io_txq (tx_stage m ch s) ch) \<and>
    stage_frame ch s (tx_stage m ch s) \<and> length xs \<le> length (Q ch Outq) \<and>
    ring_list (io_txq (tx_stage m ch s) ch) @ to_line (tflag ch RAW s) xs =
      ring_list (io_txq s ch) @ to_line (tflag ch RAW s) (Q ch Outq)"
  using assms
proof (induction m arbitrary: s Q n)
  case 0
  then show ?case using upd2_id[of Q ch Outq "Q ch Outq"] by (intro exI[of _ "Q ch Outq"] exI[of _ n]) simp
next
  case (Suc m)
  let ?go = "ur_count (io_txq s ch) < UART_RING_SIZE \<and> \<not> tstate ch (TIMEOUT OR TTSTOP) s"
  show ?case
  proof (cases "?go \<and> Q ch Outq \<noteq> []")
    case False
    then have "tx_stage (Suc m) ch s = s" using tqs_get_empty[OF Suc.prems(1)] by auto
    then show ?thesis
      using Suc.prems upd2_id[of Q ch Outq "Q ch Outq"] by (intro exI[of _ "Q ch Outq"] exI[of _ n]) simp
  next
    case go: True
    then obtain x xs where x: "Q ch Outq = x # xs" by (cases "Q ch Outq") auto
    obtain s1 n1 where g: "tgetc ch Outq s = (uint x, s1)" "tqs s1 (upd2 ch Outq xs Q) n1" "n \<le> n1"
        "qframe ch Outq s s1"
      using tqs_get[OF Suc.prems(1) x] by blast
    note f1 = stage_frameI[OF g(4)]
    note fl = stage_frame_flags[OF f1]
    define s2 where "s2 = (if \<not> tflag ch RAW s \<and> x AND 0x80 \<noteq> 0 then s1 else uart_tx_ring_put ch (uint x) s1)"
    have step: "tx_stage (Suc m) ch s = tx_stage m ch s2"
      using go g(1) by (simp add: s2_def fl delay_char[symmetric])
    have t2: "tqs s2 (upd2 ch Outq xs Q) n1" using g(2) by (simp add: s2_def)
    have rs: "io_txq s1 = io_txq s" using g(1) by simp
    have r2: "ring_ok (io_txq s2 ch)" "ring_list (io_txq s2 ch) @ to_line (tflag ch RAW s) xs =
        ring_list (io_txq s ch) @ to_line (tflag ch RAW s) (Q ch Outq)"
      using Suc.prems(2,3) go ring_put_ok[of "io_txq s ch" "uint x"] by (auto simp add: s2_def rs x)
    have f2: "stage_frame ch s s2"
      using f1 stage_frame_trans[OF f1 stage_frame_put] by (simp add: s2_def)
    have "upd2 ch Outq xs Q ch Outq = xs" by simp
    from Suc.IH[OF t2 r2(1) Suc.prems(3), unfolded this upd2_upd2] obtain ys n' where
      r: "tqs (tx_stage m ch s2) (upd2 ch Outq ys Q) n'" "n1 \<le> n'" "ring_ok (io_txq (tx_stage m ch s2) ch)"
        "stage_frame ch s2 (tx_stage m ch s2)" "length ys \<le> length xs"
        "ring_list (io_txq (tx_stage m ch s2) ch) @ to_line (tflag ch RAW s2) ys =
          ring_list (io_txq s2 ch) @ to_line (tflag ch RAW s2) xs"
      by blast
    have "n \<le> n'" "length ys \<le> length (Q ch Outq)" using g(3) r(2,5) x by simp_all
    then show ?thesis
      unfolding step
      using r(1,3) stage_frame_trans[OF f2 r(4)] trans[OF r(6)[unfolded stage_frame_flags[OF f2]] r2(2)]
      by blast
  qed
qed


section \<open>Sending\<close>

text \<open>What \<open>tx_send\<close> changes: the ring and the UART of its channel.\<close>

definition send_frame :: "nat \<Rightarrow> tio \<Rightarrow> tio \<Rightarrow> bool" where
  "send_frame ch s s' \<longleftrightarrow> rest_same ch s s' \<and> io_kern s' = io_kern s \<and> io_cs s' = io_cs s \<and> io_tty s' = io_tty s"

lemma send_frame_refl [simp]: "send_frame ch s s"
  by (simp add: send_frame_def)

lemma send_frame_trans: "\<lbrakk>send_frame ch s s'; send_frame ch s' s''\<rbrakk> \<Longrightarrow> send_frame ch s s''"
  using rest_same_trans by (auto simp add: send_frame_def)

lemma send_frame_thre: "uart_thre ch s = (b, s') \<Longrightarrow> send_frame ch s s' \<and> io_txq s' = io_txq s \<and>
    ua_tx (io_uart s' ch) = ua_tx (io_uart s ch)"
  by (auto simp add: uart_thre_def send_frame_def rest_same_def upd_uart_def split: list.splits)

lemma send_frame_get: "uart_tx_ring_get ch s = (c, s') \<Longrightarrow> send_frame ch s s' \<and> io_uart s' = io_uart s"
  by (auto simp add: uart_tx_ring_get_def send_frame_def rest_same_def split: if_splits prod.splits)

lemma send_frame_thr: "send_frame ch s (uart_thr ch c s)"
  by (simp add: uart_thr_def send_frame_def rest_same_def upd_uart_def)

lemma uart_thr_simps [simp]:
  "io_txq (uart_thr ch c s) = io_txq s"
  "ua_tx (io_uart (uart_thr ch c s) ch) = ua_tx (io_uart s ch) @ [word_of_int c]"
  by (simp_all add: uart_thr_def upd_uart_def)

lemma tx_ring_get_ok:
  assumes "ring_ok (io_txq s ch)" "0 < ur_count (io_txq s ch)" "ch < UART_CHANNELS"
  shows "\<exists>s'. uart_tx_ring_get ch s = (uint (hd (ring_list (io_txq s ch))), s') \<and> ring_ok (io_txq s' ch) \<and>
    ring_list (io_txq s ch) = hd (ring_list (io_txq s ch)) # ring_list (io_txq s' ch)"
  using ring_get_ok[OF assms(1,2)] assms(3) by (auto simp add: uart_tx_ring_get_def)

lemma tx_send_ok:
  assumes "ring_ok (io_txq s ch)" "ch < UART_CHANNELS"
  shows "ring_ok (io_txq (tx_send m ch s) ch) \<and> send_frame ch s (tx_send m ch s) \<and>
    ua_tx (io_uart (tx_send m ch s) ch) @ ring_list (io_txq (tx_send m ch s) ch) =
      ua_tx (io_uart s ch) @ ring_list (io_txq s ch)"
  using assms
proof (induction m arbitrary: s)
  case (Suc m)
  obtain b s1 where t: "uart_thre ch s = (b, s1)" by fastforce
  note f1 = send_frame_thre[OF t]
  show ?case
  proof (cases "ur_count (io_txq s ch) \<noteq> 0 \<and> b")
    case False
    then have "tx_send (Suc m) ch s = (if ur_count (io_txq s ch) = 0 then s else s1)" using t by auto
    then show ?thesis using f1 Suc.prems(1) by (simp del: tx_send.simps)
  next
    case go: True
    then obtain s2 where g: "uart_tx_ring_get ch s1 = (uint (hd (ring_list (io_txq s ch))), s2)" "ring_ok (io_txq s2 ch)"
        "ring_list (io_txq s ch) = hd (ring_list (io_txq s ch)) # ring_list (io_txq s2 ch)"
      using tx_ring_get_ok[of s1 ch] Suc.prems f1 by auto
    define x where "x = hd (ring_list (io_txq s ch))"
    note g = g[folded x_def]
    note f2 = send_frame_get[OF g(1)]
    have step: "tx_send (Suc m) ch s = tx_send m ch (uart_thr ch (uint x) s2)"
      using go t g(1) by simp
    have fr: "send_frame ch s (uart_thr ch (uint x) s2)"
      using f1 f2 send_frame_thr send_frame_trans by meson
    have "ring_ok (io_txq (uart_thr ch (uint x) s2) ch)" using g(2) by simp
    note ih = Suc.IH[OF this Suc.prems(2)]
    have "ua_tx (io_uart (uart_thr ch (uint x) s2) ch) @ ring_list (io_txq (uart_thr ch (uint x) s2) ch) =
        ua_tx (io_uart s ch) @ ring_list (io_txq s ch)"
      using f1 f2 by (simp add: g(3))
    with ih show ?thesis unfolding step using send_frame_trans[OF fr] by simp
  qed
qed simp


section \<open>A whole turn of the transmitter\<close>

text \<open>The invariant of the terminals: the queues and the rings are well formed, and so are the scheduler's queues.\<close>

definition tio_ok :: "tio \<Rightarrow> (nat \<Rightarrow> tqueue \<Rightarrow> 8 word list) \<Rightarrow> nat \<Rightarrow> bool" where
  "tio_ok s Q n \<longleftrightarrow> tqs s Q n \<and> (\<forall>ch. ring_ok (io_txq s ch) \<and> ring_ok (io_rx s ch)) \<and> sched_wf (io_kern s)"

lemma tio_okD:
  assumes "tio_ok s Q n"
  shows "tqs s Q n" "ring_ok (io_txq s ch)" "ring_ok (io_rx s ch)" "sched_wf (io_kern s)"
  using assms by (simp_all add: tio_ok_def)

lemma upd_simps [simp]:
  "io_kern (upd_tty i f s) = io_kern s"
  "io_cs (upd_tty i f s) = io_cs s"
  "io_rx (upd_tty i f s) = io_rx s"
  "io_txq (upd_tty i f s) = io_txq s"
  "io_uart (upd_tty i f s) = io_uart s"
  "io_canonb (upd_tty i f s) = io_canonb s"
  "tk_nin (upd_tty i f s) = tk_nin s"
  "tk_nout (upd_tty i f s) = tk_nout s"
  "io_kern (upd_uart i h s) = io_kern s"
  "io_cs (upd_uart i h s) = io_cs s"
  "io_rx (upd_uart i h s) = io_rx s"
  "io_txq (upd_uart i h s) = io_txq s"
  "io_tty (upd_uart i h s) = io_tty s"
  "io_canonb (upd_uart i h s) = io_canonb s"
  "tk_nin (upd_uart i h s) = tk_nin s"
  "tk_nout (upd_uart i h s) = tk_nout s"
  "io_kern (set_spl m s) = io_kern s"
  "io_rx (set_spl m s) = io_rx s"
  "io_txq (set_spl m s) = io_txq s"
  "io_uart (set_spl m s) = io_uart s"
  "io_tty (set_spl m s) = io_tty s"
  "io_canonb (set_spl m s) = io_canonb s"
  "tk_nin (set_spl m s) = tk_nin s"
  "tk_nout (set_spl m s) = tk_nout s"
  "cs_spl (io_cs (set_spl m s)) = m"
  "io_tty (upd_tty i f s) j = (if j = i then f (io_tty s i) else io_tty s j)"
  "io_uart (upd_uart i h s) j = (if j = i then h (io_uart s i) else io_uart s j)"
  by (simp_all add: upd_tty_def upd_uart_def set_spl_def)

lemma tstate_simps [simp]:
  "io_kern (set_tstate i w s) = io_kern s"
  "io_cs (set_tstate i w s) = io_cs s"
  "io_rx (set_tstate i w s) = io_rx s"
  "io_txq (set_tstate i w s) = io_txq s"
  "io_uart (set_tstate i w s) = io_uart s"
  "io_canonb (set_tstate i w s) = io_canonb s"
  "tk_nin (set_tstate i w s) = tk_nin s"
  "tk_nout (set_tstate i w s) = tk_nout s"
  "io_kern (clr_tstate i w s) = io_kern s"
  "io_cs (clr_tstate i w s) = io_cs s"
  "io_rx (clr_tstate i w s) = io_rx s"
  "io_txq (clr_tstate i w s) = io_txq s"
  "io_uart (clr_tstate i w s) = io_uart s"
  "io_canonb (clr_tstate i w s) = io_canonb s"
  "tk_nin (clr_tstate i w s) = tk_nin s"
  "tk_nout (clr_tstate i w s) = tk_nout s"
  "io_tty (set_tstate i w s) j = (if j = i then (io_tty s i)\<lparr>t_state := t_state (io_tty s i) OR w\<rparr> else io_tty s j)"
  "io_tty (clr_tstate i w s) j = (if j = i then (io_tty s i)\<lparr>t_state := t_state (io_tty s i) AND NOT w\<rparr> else io_tty s j)"
  by (simp_all add: set_tstate_def clr_tstate_def)

lemma tio_ok_simps [simp]:
  "tio_ok (set_spl m s) Q n = tio_ok s Q n"
  "tio_ok (set_tstate i w s) Q n = tio_ok s Q n"
  "tio_ok (clr_tstate i w s) Q n = tio_ok s Q n"
  "tio_ok (upd_uart j h s) Q n = tio_ok s Q n"
  by (simp_all add: tio_ok_def)

lemma tio_wakeup_ok:
  assumes "tio_ok s Q n"
  shows "\<exists>k. tio_wakeup c s = Inr (s\<lparr>io_kern := k\<rparr>) \<and> tio_ok (s\<lparr>io_kern := k\<rparr>) Q n \<and> only_sched (io_kern s) k \<and>
    (\<forall>y. p_wchan (k_proc k y) = (if p_wchan (k_proc (io_kern s) y) = Some c then None else p_wchan (k_proc (io_kern s) y)))"
proof -
  obtain k where k: "wakeup c (io_kern s) = Inr k" "sched_wf k" "only_sched (io_kern s) k"
      "\<forall>y. if p_wchan (k_proc (io_kern s) y) = Some c
         then p_wchan (k_proc k y) = None \<and> p_stat (k_proc k y) = SRUN \<and> on_queue (Suc NPROC) k (k_runq k) y
         else p_wchan (k_proc k y) = p_wchan (k_proc (io_kern s) y) \<and> p_stat (k_proc k y) = p_stat (k_proc (io_kern s) y)"
    using wakeup_spec_wf[OF tio_okD(4)[OF assms]] by blast
  have "tio_ok (s\<lparr>io_kern := k\<rparr>) Q n" using assms k(2) by (simp add: tio_ok_def)
  moreover have "tio_wakeup c s = Inr (s\<lparr>io_kern := k\<rparr>)" by (simp add: tio_wakeup_def k(1))
  ultimately show ?thesis using k(3,4) by (intro exI[of _ k]) presburger
qed


lemma tx_busy_simps [simp]:
  "io_kern (tx_busy ch s) = io_kern s"
  "io_cs (tx_busy ch s) = io_cs s"
  "io_txq (tx_busy ch s) = io_txq s"
  "tio_ok (tx_busy ch s) Q n = tio_ok s Q n"
  "ua_tx (io_uart (tx_busy ch s) j) = ua_tx (io_uart s j)"
  "rest_same ch s (tx_busy ch s)"
  by (simp_all add: tx_busy_def rest_same_def)

lemma tx_busy_state:
  "\<exists>st. io_tty (tx_busy ch s) ch = (io_tty s ch)\<lparr>t_state := st\<rparr> \<and> st AND NOT BUSY = t_state (io_tty s ch) AND NOT BUSY \<and>
    (st AND BUSY \<noteq> 0 \<longleftrightarrow> ur_count (io_txq s ch) \<noteq> 0)"
proof (cases "ur_count (io_txq s ch) = 0")
  case True
  then show ?thesis
    by (intro exI[of _ "t_state (io_tty s ch) AND NOT BUSY"]) (simp add: tx_busy_def flag_clear_self and.assoc)
next
  case False
  have "(t_state (io_tty s ch) OR BUSY) AND BUSY \<noteq> 0" by (simp add: flag_or_self) (simp add: BUSY_def)
  moreover have "(w OR m) AND NOT m = w AND NOT m" for w m :: "16 word" by (simp add: bit_eq_iff bit_simps) blast
  ultimately show ?thesis
    using False by (intro exI[of _ "t_state (io_tty s ch) OR BUSY"]) (simp add: tx_busy_def)
qed

text \<open>The sleepers of the output queue run again once the queue has drained.\<close>

definition outq_awake :: "nat \<Rightarrow> tio \<Rightarrow> bool" where
  "outq_awake ch s \<longleftrightarrow> \<not> tstate ch ASLEEP s \<and> (\<forall>y. p_wchan (k_proc (io_kern s) y) \<noteq> Some (Ch_outq ch))"

definition wake_frame :: "nat \<Rightarrow> tio \<Rightarrow> tio \<Rightarrow> bool" where
  "wake_frame ch s s' \<longleftrightarrow> rest_same ch s s' \<and> io_cs s' = io_cs s \<and> io_txq s' = io_txq s \<and> io_uart s' = io_uart s \<and>
    only_sched (io_kern s) (io_kern s') \<and>
    (io_tty s' ch = io_tty s ch \<or> io_tty s' ch = (io_tty s ch)\<lparr>t_state := t_state (io_tty s ch) AND NOT ASLEEP\<rparr>)"

lemma wake_frame_kern: "only_sched (io_kern s) k \<Longrightarrow> wake_frame ch s (s\<lparr>io_kern := k\<rparr>)"
  by (simp add: wake_frame_def rest_same_def)

lemma tx_wake_ok:
  assumes ok: "tio_ok s Q n"
  shows "\<exists>s'. tx_wake ch s = Inr s' \<and> tio_ok s' Q n \<and> wake_frame ch s s' \<and>
    (tcc ch Outq s \<le> TTLOWAT \<and> ur_count (io_txq s ch) = 0 \<and> tstate ch ASLEEP s \<longrightarrow> outq_awake ch s')"
proof (cases "tcc ch Outq s \<le> TTLOWAT \<and> ur_count (io_txq s ch) = 0")
  case False
  then show ?thesis using ok only_sched_refl by (auto simp add: tx_wake_def wake_frame_def)
next
  case low: True
  define s1 where "s1 = (if tstate ch ASLEEP s then clr_tstate ch ASLEEP s else s)"
  have ok1: "tio_ok s1 Q n" using ok by (simp add: s1_def)
  obtain k where k: "tio_wakeup (Ch_outq ch) s1 = Inr (s1\<lparr>io_kern := k\<rparr>)" "tio_ok (s1\<lparr>io_kern := k\<rparr>) Q n"
      "only_sched (io_kern s1) k"
      "\<forall>y. p_wchan (k_proc k y) = (if p_wchan (k_proc (io_kern s1) y) = Some (Ch_outq ch) then None else p_wchan (k_proc (io_kern s1) y))"
    using tio_wakeup_ok[OF ok1] by blast
  define s2 where "s2 = (if tstate ch ASLEEP s then s1\<lparr>io_kern := k\<rparr> else s)"
  have first: "(if tstate ch ASLEEP s then tio_wakeup (Ch_outq ch) (clr_tstate ch ASLEEP s) else Inr s) = Inr s2"
    using k(1) by (cases "tstate ch ASLEEP s") (simp_all add: s1_def s2_def)
  have ok2: "tio_ok s2 Q n" using k(2) ok by (simp add: s2_def)
  have f2: "wake_frame ch s s2"
    using k(3) only_sched_refl
    by (cases "tstate ch ASLEEP s") (simp_all add: s2_def s1_def wake_frame_def rest_same_def)
  have a2: "tstate ch ASLEEP s \<Longrightarrow> outq_awake ch s2"
    using k(4) by (simp add: s2_def s1_def outq_awake_def tstate_def flag_clear_self)
  show ?thesis
  proof (cases "t_chan (io_tty s2 ch) = None")
    case True
    then show ?thesis using low first ok2 f2 a2 by (simp add: tx_wake_def)
  next
    case False
    obtain k' where k': "tio_wakeup (Ch_outq ch) s2 = Inr (s2\<lparr>io_kern := k'\<rparr>)" "tio_ok (s2\<lparr>io_kern := k'\<rparr>) Q n"
        "only_sched (io_kern s2) k'"
        "\<forall>y. p_wchan (k_proc k' y) = (if p_wchan (k_proc (io_kern s2) y) = Some (Ch_outq ch) then None else p_wchan (k_proc (io_kern s2) y))"
      using tio_wakeup_ok[OF ok2] by blast
    have "tx_wake ch s = Inr (s2\<lparr>io_kern := k'\<rparr>)" using low first False k'(1) by (simp add: tx_wake_def)
    moreover have "wake_frame ch s (s2\<lparr>io_kern := k'\<rparr>)"
      using f2 k'(3) only_sched_trans by (auto simp add: wake_frame_def rest_same_def)
    moreover have "tstate ch ASLEEP s \<Longrightarrow> outq_awake ch (s2\<lparr>io_kern := k'\<rparr>)"
      using a2 k'(4) by (simp add: outq_awake_def tstate_def)
    ultimately show ?thesis using k'(2) by blast
  qed
qed


text \<open>What one turn may change of the rest of the state.\<close>

definition poll_frame :: "nat \<Rightarrow> tio \<Rightarrow> tio \<Rightarrow> bool" where
  "poll_frame ch s s' \<longleftrightarrow> rest_same ch s s' \<and> only_sched (io_kern s) (io_kern s') \<and>
    (\<exists>q st. io_tty s' ch = (io_tty s ch)\<lparr>t_outq := q, t_state := st\<rparr> \<and>
      st AND NOT (BUSY OR ASLEEP) = t_state (io_tty s ch) AND NOT (BUSY OR ASLEEP))"

lemma clear_both:
  assumes "st AND NOT a = w AND NOT a"
  shows "st AND NOT (a OR b) = w AND NOT (a OR (b :: 16 word))"
proof -
  have "NOT (a OR b) = NOT a AND NOT b" by simp
  then show ?thesis using assms by (simp add: and.assoc[symmetric])
qed

lemma poll_spec:
  assumes ok: "tio_ok s Q n" and ch: "ch < UART_CHANNELS"
  shows "\<exists>s' xs n'. uart_poll_tx_channel ch s = Inr s' \<and> tio_ok s' (upd2 ch Outq xs Q) n' \<and> n \<le> n' \<and>
    length xs \<le> length (Q ch Outq) \<and> poll_frame ch s s' \<and> line_out ch s' (upd2 ch Outq xs Q) = line_out ch s Q \<and>
    (tstate ch BUSY s' \<longleftrightarrow> ur_count (io_txq s' ch) \<noteq> 0) \<and>
    (length xs \<le> 50 \<and> ur_count (io_txq s' ch) = 0 \<and> tstate ch ASLEEP s \<longrightarrow> outq_awake ch s')"
proof -
  define s0 where "s0 = set_spl 6 s"
  define s1 where "s1 = tx_stage UART_TX_POLL_BUDGET ch s0"
  define s2 where "s2 = tx_send UART_TX_POLL_BUDGET ch s1"
  define s3 where "s3 = tx_busy ch s2"
  have r0: "tqs s0 Q n" "ring_ok (io_txq s0 ch)" "tflag ch RAW s0 = tflag ch RAW s"
    using tio_okD[OF ok] by (simp_all add: s0_def tflag_def)
  obtain xs n' where a: "tqs s1 (upd2 ch Outq xs Q) n'" "n \<le> n'" "ring_ok (io_txq s1 ch)" "stage_frame ch s0 s1" "length xs \<le> length (Q ch Outq)"
      "ring_list (io_txq s1 ch) @ to_line (tflag ch RAW s) xs = ring_list (io_txq s ch) @ to_line (tflag ch RAW s) (Q ch Outq)"
    using tx_stage_ok[OF r0(1,2) ch, of UART_TX_POLL_BUDGET] r0(3) by (auto simp add: s1_def s0_def)
  note b = tx_send_ok[OF a(3) ch, of UART_TX_POLL_BUDGET, folded s2_def]
  have tr: "ring_ok (io_txq s2 j)" "ring_ok (io_rx s2 j)" "io_kern s2 = io_kern s" for j
    using a(4) b tio_okD[OF ok] by (cases "j = ch"; simp add: stage_frame_def send_frame_def rest_same_def s0_def)+
  have "tqs s2 (upd2 ch Outq xs Q) n'"
    using a(1) b by (subst tqs_cong[of s2 s1 "cs_spl (io_cs s1)"]) (simp_all add: send_frame_def)
  then have ok2: "tio_ok s2 (upd2 ch Outq xs Q) n'"
    using tr tio_okD(4)[OF ok] by (simp add: tio_ok_def)
  then have ok3: "tio_ok s3 (upd2 ch Outq xs Q) n'" by (simp add: s3_def)
  obtain s4 where w: "tx_wake ch s3 = Inr s4" "tio_ok s4 (upd2 ch Outq xs Q) n'" "wake_frame ch s3 s4"
      "tcc ch Outq s3 \<le> TTLOWAT \<and> ur_count (io_txq s3 ch) = 0 \<and> tstate ch ASLEEP s3 \<longrightarrow> outq_awake ch s4"
    using tx_wake_ok[OF ok3, of ch] by blast
  define s5 where "s5 = set_spl (cs_spl (io_cs s)) s4"
  have run: "uart_poll_tx_channel ch s = Inr s5"
    unfolding uart_poll_tx_channel_def Let_def
    unfolding s0_def[symmetric] s1_def[symmetric] s2_def[symmetric] s3_def[symmetric] w(1) sbind_simps s5_def ..
  have t2: "io_tty s2 = io_tty s1" using b by (simp add: send_frame_def)
  obtain q where q: "io_tty s1 ch = (io_tty s ch)\<lparr>t_outq := q\<rparr>" using a(4) by (auto simp add: stage_frame_def s0_def)
  obtain st where busy: "io_tty (tx_busy ch s2) ch = (io_tty s2 ch)\<lparr>t_state := st\<rparr>"
      "st AND NOT BUSY = t_state (io_tty s2 ch) AND NOT BUSY" "st AND BUSY \<noteq> 0 \<longleftrightarrow> ur_count (io_txq s2 ch) \<noteq> 0"
    using tx_busy_state[of ch s2] by blast
  then have st: "io_tty s3 ch = (io_tty s ch)\<lparr>t_outq := q, t_state := st\<rparr>"
      "st AND NOT BUSY = t_state (io_tty s ch) AND NOT BUSY" "st AND BUSY \<noteq> 0 \<longleftrightarrow> ur_count (io_txq s2 ch) \<noteq> 0"
    by (simp_all add: s3_def q t2)
  have st3: "st AND NOT (BUSY OR ASLEEP) = t_state (io_tty s ch) AND NOT (BUSY OR ASLEEP)"
    using clear_both[OF st(2)] .
  have cl: "(st AND NOT ASLEEP) AND NOT (BUSY OR ASLEEP) = st AND NOT (BUSY OR ASLEEP)"
    by (simp add: bit_eq_iff bit_simps) blast
  have as: "tstate ch ASLEEP s3 = tstate ch ASLEEP s"
  proof -
    have "(st AND NOT BUSY) AND ASLEEP = (t_state (io_tty s ch) AND NOT BUSY) AND ASLEEP" using st(2) by simp
    then have "st AND ASLEEP = t_state (io_tty s ch) AND ASLEEP"
      using flag_clear_other[of BUSY ASLEEP] by (simp add: BUSY_def ASLEEP_def)
    then show ?thesis by (simp add: tstate_def st(1))
  qed
  have rs: "rest_same ch s s5"
    using a(4) b w(3)
    by (auto simp add: rest_same_def stage_frame_def send_frame_def wake_frame_def s0_def s3_def s5_def tx_busy_def)
  have pf: "poll_frame ch s s5"
    unfolding poll_frame_def
  proof (intro conjI rs)
    show "only_sched (io_kern s) (io_kern s5)" using w(3) tr(3) by (simp add: wake_frame_def s5_def s3_def)
    have "io_tty s5 ch = (io_tty s ch)\<lparr>t_outq := q, t_state := st\<rparr> \<or>
        io_tty s5 ch = (io_tty s ch)\<lparr>t_outq := q, t_state := st AND NOT ASLEEP\<rparr>"
      using w(3) st(1) by (auto simp add: wake_frame_def s5_def)
    then show "\<exists>q st. io_tty s5 ch = (io_tty s ch)\<lparr>t_outq := q, t_state := st\<rparr> \<and>
        st AND NOT (BUSY OR ASLEEP) = t_state (io_tty s ch) AND NOT (BUSY OR ASLEEP)"
      using st3 cl by metis
  qed
  have fl: "tflag ch RAW s5 = tflag ch RAW s" using pf by (auto simp add: poll_frame_def tflag_def)
  have tx: "io_txq s5 = io_txq s2" "ua_tx (io_uart s5 ch) = ua_tx (io_uart s2 ch)"
    using w(3) by (simp_all add: wake_frame_def s5_def s3_def)
  have u1: "ua_tx (io_uart s1 ch) = ua_tx (io_uart s ch)" using a(4) by (simp add: stage_frame_def s0_def)
  have line: "line_out ch s5 (upd2 ch Outq xs Q) = line_out ch s Q"
    unfolding line_out_def fl tx using b a(6) u1 by (simp add: append_assoc[symmetric] del: append_assoc) (simp add: append_assoc)
  have bu: "tstate ch BUSY s5 \<longleftrightarrow> ur_count (io_txq s5 ch) \<noteq> 0"
  proof -
    have "(st AND NOT ASLEEP) AND BUSY = st AND BUSY" using flag_clear_other[of ASLEEP BUSY] by (simp add: BUSY_def ASLEEP_def)
    then have "tstate ch BUSY s5 \<longleftrightarrow> st AND BUSY \<noteq> 0"
      using w(3) st(1) by (auto simp add: wake_frame_def s5_def tstate_def)
    then show ?thesis by (simp add: tx(1) st(3))
  qed
  have aw: "length xs \<le> 50 \<and> ur_count (io_txq s5 ch) = 0 \<and> tstate ch ASLEEP s \<longrightarrow> outq_awake ch s5"
  proof -
    have "outq_awake ch s5 = outq_awake ch s4" by (simp add: outq_awake_def tstate_def s5_def)
    moreover have "tcc ch Outq s3 = int (length xs)"
      using tqs_count[OF tio_okD(1)[OF ok3], of ch Outq] by simp
    moreover have "ur_count (io_txq s3 ch) = ur_count (io_txq s5 ch)" by (simp add: tx(1) s3_def)
    ultimately show ?thesis using w(4) unfolding as TTLOWAT_def by simp
  qed
  have ok5: "tio_ok s5 (upd2 ch Outq xs Q) n'" using w(2) by (simp add: s5_def)
  show ?thesis using run ok5 a(2,5) pf line bu aw by blast
qed

end
