(* ===== verification/Tty_Output.thy ===== *)
theory Tty_Output
  imports Tty_Transmit File_IO
begin

text \<open>
  Output to terminals: \<open>ttyoutput\<close> and \<open>ttwrite\<close> of \<open>dev/tty.c\<close> with the table of \<open>dev/partab.c\<close>. \<open>cook\<close> is \<open>ttyoutput\<close> as a
  function from a character and a column to the characters sent and the new column; text written with the modes of a freshly opened
  terminal appears with its tabs expanded to the tab stops and its newlines preceded by carriage returns (\<open>render\<close>).
\<close>

section \<open>Character classes\<close>

definition partab :: "nat list" where
  "partab =
    [1, 129, 129, 1, 129, 1, 1, 129, 130, 4, 3, 129, 5, 134, 129, 1,
     129, 1, 1, 129, 1, 129, 129, 1, 1, 129, 129, 1, 129, 1, 1, 129,
     128, 0, 0, 128, 0, 128, 128, 0, 0, 128, 128, 0, 128, 0, 0, 128,
     0, 128, 128, 0, 128, 0, 0, 128, 128, 0, 0, 128, 0, 128, 128, 0,
     128, 0, 0, 128, 0, 128, 128, 0, 0, 128, 128, 0, 128, 0, 0, 128,
     0, 128, 128, 0, 128, 0, 0, 128, 128, 0, 0, 128, 0, 128, 128, 0,
     0, 128, 128, 0, 128, 0, 0, 128, 128, 0, 0, 128, 0, 128, 128, 0,
     128, 0, 0, 128, 0, 128, 128, 0, 0, 128, 128, 0, 128, 0, 0, 129]"

text \<open>The table \<open>colp\<close> of the escapes for upper-case terminals: what is sent after a backslash, and the character it stands for.\<close>

definition escapes :: "(int \<times> int) list" where
  "escapes = [(40, 123), (41, 125), (33, 124), (94, 126), (39, 96)]"

definition escape_of :: "int \<Rightarrow> int option" where
  "escape_of c = map_option fst (List.find (\<lambda>(a, b). c = b) escapes)"

section \<open>ttyoutput\<close>

definition set_col :: "nat \<Rightarrow> int \<Rightarrow> tio \<Rightarrow> tio" where
  "set_col i x = upd_tty i (\<lambda>t. t\<lparr>t_col := to_i8 x\<rparr>)"

definition delay_mode :: "nat \<Rightarrow> nat \<Rightarrow> tio \<Rightarrow> 16 word" where
  "delay_mode k i s = drop_bit k (t_flags (io_tty s i)) AND 3"

text \<open>The last part of \<open>ttyoutput\<close>: the delay that a character needs, with the column behind it; and the delay on the queue.\<close>

definition tty_column :: "int \<Rightarrow> nat \<Rightarrow> tio \<Rightarrow> int \<times> tio" where
  "tty_column c i s =
    (let col = t_col (io_tty s i)
     in (case partab ! nat c mod 64 of
              0 \<Rightarrow> (0, set_col i (col + 1) s)
            | Suc 0 \<Rightarrow> (0, s)
            | Suc (Suc 0) \<Rightarrow> (0, if col \<noteq> 0 then set_col i (col - 1) s else s)
            | Suc (Suc (Suc 0)) \<Rightarrow>
                (if delay_mode 8 i s = 1
                 then if col \<noteq> 0 then to_i32 (umax (to_u32 col div 16 + 3) 6) else 0
                 else if delay_mode 8 i s = 2 then 6 else 0,
                 set_col i 0 s)
            | Suc (Suc (Suc (Suc 0))) \<Rightarrow>
                (if delay_mode 10 i s = 1 \<and> 1 - (col OR NOT 7) \<ge> 5 then 1 - (col OR NOT 7) else 0,
                 set_col i ((col OR 7) + 1) s)
            | Suc (Suc (Suc (Suc (Suc 0)))) \<Rightarrow> (if tflag i VTDELAY s then 0x7F else 0, s)
            | Suc (Suc (Suc (Suc (Suc (Suc 0))))) \<Rightarrow>
                (if delay_mode 12 i s = 1 then 5 else if delay_mode 12 i s = 2 then 10 else 0, set_col i 0 s)
            | _ \<Rightarrow> (0, s)))"

definition tty_delay :: "int \<Rightarrow> nat \<Rightarrow> tio \<Rightarrow> tio" where
  "tty_delay c i s =
    (case tty_column c i s of (d, s) \<Rightarrow> if d \<noteq> 0 then tput (d OR 0x80) i Outq s else s)"

text \<open>The loop that replaces a tab by spaces, with what is left of its count.\<close>

primrec tty_tab :: "(int \<Rightarrow> nat \<Rightarrow> tio \<Rightarrow> tio) \<Rightarrow> nat \<Rightarrow> nat \<Rightarrow> tio \<Rightarrow> tio" where
  "tty_tab out 0 i s = out 32 i s"
| "tty_tab out (Suc n) i s =
    (let s = out 32 i s in if t_col (io_tty s i) AND 7 \<noteq> 0 then tty_tab out n i s else s)"

definition tty_lower :: "(int \<Rightarrow> nat \<Rightarrow> tio \<Rightarrow> tio) \<Rightarrow> int \<Rightarrow> nat \<Rightarrow> tio \<Rightarrow> int \<times> tio" where
  "tty_lower out c i s =
    (let (c, s) = (case escape_of c of None \<Rightarrow> (c, s) | Some e \<Rightarrow> (e, out 92 i s))
     in (if 97 \<le> c \<and> c \<le> 122 then c - 32 else c, s))"

text \<open>The body of \<open>ttyoutput\<close>, with the function that it calls for the characters it adds.\<close>

definition ttyoutput_with :: "(int \<Rightarrow> nat \<Rightarrow> tio \<Rightarrow> tio) \<Rightarrow> int \<Rightarrow> nat \<Rightarrow> tio \<Rightarrow> tio" where
  "ttyoutput_with out c i s =
    (let s = s\<lparr>tk_nout := to_i32 (tk_nout s + 1)\<rparr>
     in if tflag i RAW s then tput c i Outq s
        else let c = c AND 0x7F
             in if c = CEOT then s
                else if c = 9 \<and> t_flags (io_tty s i) AND TBDELAY = XTABS then tty_tab out 8 i s
                else let (c, s) = (if tflag i LCASE s then tty_lower out c i s else (c, s));
                         s = (if c = 10 \<and> tflag i CRMOD s then out 13 i s else s)
                     in tty_delay c i (tput c i Outq s))"

text \<open>The characters it adds are a space, a backslash and a carriage return, for which it adds none: two levels are all.\<close>

definition ttyoutput :: "int \<Rightarrow> nat \<Rightarrow> tio \<Rightarrow> tio" where
  "ttyoutput = ttyoutput_with (ttyoutput_with (\<lambda>_ _ s. s))"

lemma escape_of_leaf: "escape_of 32 = None" "escape_of 92 = None" "escape_of 13 = None"
  by (simp_all add: escape_of_def escapes_def)

lemma ttyoutput_with_leaf:
  assumes "c \<in> {32, 92, 13}"
  shows "ttyoutput_with out c i s = ttyoutput_with out' c i s"
proof -
  have "c AND 0x7F = c" "c \<noteq> 9" "c \<noteq> 10" "escape_of c = None" "97 \<le> c \<and> c \<le> 122 \<longleftrightarrow> False"
    using assms escape_of_leaf by auto
  then show ?thesis by (simp add: ttyoutput_with_def tty_lower_def Let_def)
qed

lemma tty_tab_cong: "out 32 = out' 32 \<Longrightarrow> tty_tab out n i s = tty_tab out' n i s"
  by (induction n arbitrary: s) (simp_all add: Let_def)

lemma tty_lower_cong: "out 92 = out' 92 \<Longrightarrow> tty_lower out c i s = tty_lower out' c i s"
  by (simp add: tty_lower_def split: option.split)

lemma ttyoutput_with_cong:
  assumes "\<And>c. c \<in> {32, 92, 13} \<Longrightarrow> out c = out' c"
  shows "ttyoutput_with out = ttyoutput_with out'"
proof (intro ext)
  fix c i s
  have eqs: "out 13 = out' 13" "\<And>n i s. tty_tab out n i s = tty_tab out' n i s"
    "\<And>c i s. tty_lower out c i s = tty_lower out' c i s"
    using tty_tab_cong[of out out'] tty_lower_cong[of out out'] assms by simp_all
  show "ttyoutput_with out c i s = ttyoutput_with out' c i s" unfolding ttyoutput_with_def eqs ..
qed

text \<open>The recursion of the code.\<close>

lemma ttyoutput_rec: "ttyoutput c i s = ttyoutput_with ttyoutput c i s"
proof -
  have "ttyoutput_with (\<lambda>_ _ s. s) c = ttyoutput c" if "c \<in> {32, 92, 13}" for c
    unfolding ttyoutput_def by (intro ext ttyoutput_with_leaf that)
  from ttyoutput_with_cong[OF this] have "ttyoutput_with (ttyoutput_with (\<lambda>_ _ s. s)) = ttyoutput_with ttyoutput" .
  then show ?thesis using fun_cong[OF ttyoutput_def] by simp
qed

section \<open>ttwrite\<close>

definition tcpass :: "tio \<Rightarrow> int \<times> tio" where
  "tcpass s = (case cpass (io_kern s) of (c, k) \<Rightarrow> (c, s\<lparr>io_kern := k\<rparr>))"

definition tpassc :: "int \<Rightarrow> tio \<Rightarrow> int \<times> tio" where
  "tpassc c s = (case passc c (io_kern s) of (r, k) \<Rightarrow> (r, s\<lparr>io_kern := k\<rparr>))"

text \<open>The wait for the output queue to fall below its mark; \<open>True\<close> is the return for a multiplexed channel.\<close>

primrec ttwrite_wait :: "nat \<Rightarrow> nat \<Rightarrow> (tio, bool) kern" where
  "ttwrite_wait 0 i = (\<lambda>es s. Blocked s)"
| "ttwrite_wait (Suc n) i =
    kif (\<lambda>s. tcc i Outq s > TTHIWAT)
      (kthen (kmod (set_tstate i ASLEEP))
      (kthen (kpure (ttstart i))
      (kif (\<lambda>s. tcc i Outq s \<le> TTLOWAT)
        (kthen (kmod (clr_tstate i ASLEEP)) (kret False))
      (kif (\<lambda>s. t_chan (io_tty s i) \<noteq> None)
        (kret True)
        (kthen (tsleep (Ch_outq i) TTOPRI) (ttwrite_wait n i))))))
      (kret False)"

primrec ttwrite_loop :: "nat \<Rightarrow> nat \<Rightarrow> (tio, chan option) kern" where
  "ttwrite_loop 0 i = (\<lambda>es s. Blocked s)"
| "ttwrite_loop (Suc n) i =
    kif (\<lambda>s. u_count (u (io_kern s)) \<noteq> 0)
      (kthen (kmod (set_spl 5))
      (kbind (\<lambda>es s. ttwrite_wait (Suc (length es)) i es s) (\<lambda>ret.
        if ret then kret (Some (Ch_outq i))
        else kthen (kmod (set_spl 0))
          (kbind (\<lambda>es s. case tcpass s of (c, s) \<Rightarrow> Ret c es s) (\<lambda>c.
            if c < 0 then kthen (kpure (ttstart i)) (kret None)
            else kthen (kmod (ttyoutput c i)) (ttwrite_loop n i))))))
      (kthen (kpure (ttstart i)) (kret None))"

definition ttwrite :: "nat \<Rightarrow> (tio, chan option) kern" where
  "ttwrite i = kif (\<lambda>s. \<not> tstate i CARR_ON s) (kret None)
    (\<lambda>es s. ttwrite_loop (Suc (nat (u_count (u (io_kern s))))) i es s)"


section \<open>What output appends to the queue\<close>

lemma tput_tty [simp]:
  "t_flags (io_tty (tput c i k s) j) = t_flags (io_tty s j)"
  "t_col (io_tty (tput c i k s) j) = t_col (io_tty s j)"
  "t_state (io_tty (tput c i k s) j) = t_state (io_tty s j)"
  "j \<noteq> i \<Longrightarrow> io_tty (tput c i k s) j = io_tty s j"
  "cs_spl (io_cs (tput c i k s)) = cs_spl (io_cs s)"
  by (cases k; auto simp add: tput_def tputc_def with_q_def upd_tty_def putc_def Let_def split: prod.splits)+

definition out_frame :: "nat \<Rightarrow> tio \<Rightarrow> tio \<Rightarrow> bool" where
  "out_frame i s s' \<longleftrightarrow> io_kern s' = io_kern s \<and> io_rx s' = io_rx s \<and> io_txq s' = io_txq s \<and> io_uart s' = io_uart s \<and>
    io_canonb s' = io_canonb s \<and> tk_nin s' = tk_nin s \<and> cs_spl (io_cs s') = cs_spl (io_cs s) \<and>
    (\<forall>j. j \<noteq> i \<longrightarrow> io_tty s' j = io_tty s j) \<and>
    (\<exists>q c. io_tty s' i = (io_tty s i)\<lparr>t_outq := q, t_col := c\<rparr>)"

lemma out_frame_refl [simp]: "out_frame i s s"
  by (simp add: out_frame_def) (metis tty.surjective tty.update_convs(3) tty.update_convs(11))

lemma out_frame_trans:
  assumes "out_frame i s s'" "out_frame i s' s''"
  shows "out_frame i s s''"
proof -
  obtain q c q' c' where "io_tty s' i = (io_tty s i)\<lparr>t_outq := q, t_col := c\<rparr>"
      "io_tty s'' i = (io_tty s' i)\<lparr>t_outq := q', t_col := c'\<rparr>"
    using assms by (auto simp add: out_frame_def)
  then have "io_tty s'' i = (io_tty s i)\<lparr>t_outq := q', t_col := c'\<rparr>" by simp
  then show ?thesis using assms by (auto simp add: out_frame_def)
qed

text \<open>\<open>emits i s xs s'\<close>: from \<open>s\<close> to \<open>s'\<close> the characters \<open>xs\<close> join the output queue of terminal \<open>i\<close>, if there is room.\<close>

definition emits :: "nat \<Rightarrow> tio \<Rightarrow> 8 word list \<Rightarrow> tio \<Rightarrow> bool" where
  "emits i s xs s' \<longleftrightarrow> (\<forall>Q n. tqs s Q n \<and> length xs \<le> n \<longrightarrow>
    (\<exists>n'. tqs s' (upd2 i Outq (Q i Outq @ xs) Q) n' \<and> n \<le> n' + length xs) \<and> out_frame i s s')"

lemma emitsE:
  assumes "emits i s xs s'" "tqs s Q n" "length xs \<le> n"
  obtains n' where "tqs s' (upd2 i Outq (Q i Outq @ xs) Q) n'" "n \<le> n' + length xs" "out_frame i s s'"
  using assms by (auto simp add: emits_def)

lemma emits_same:
  assumes "\<And>Q n. tqs s Q n \<Longrightarrow> tqs s' Q n" "out_frame i s s'"
  shows "emits i s [] s'"
  unfolding emits_def
proof (intro allI impI)
  fix Q n
  assume "tqs s Q n \<and> length ([] :: 8 word list) \<le> n"
  moreover have "upd2 i Outq (Q i Outq) Q = Q" by (rule upd2_id) (rule refl)
  ultimately show "(\<exists>n'. tqs s' (upd2 i Outq (Q i Outq @ []) Q) n' \<and> n \<le> n' + length ([] :: 8 word list)) \<and> out_frame i s s'"
    using assms by (metis add_0_right append_Nil2 list.size(3) order_refl)
qed

lemma emits_none: "emits i s [] s"
  by (rule emits_same) simp_all

lemma emits_trans:
  assumes "emits i s xs s'" "emits i s' ys s''"
  shows "emits i s (xs @ ys) s''"
  unfolding emits_def
proof (intro allI impI)
  fix Q n
  assume a: "tqs s Q n \<and> length (xs @ ys) \<le> n"
  then have "tqs s Q n" "length xs \<le> n" by simp_all
  from emitsE[OF assms(1) this] obtain n' where
    1: "tqs s' (upd2 i Outq (Q i Outq @ xs) Q) n'" "n \<le> n' + length xs" "out_frame i s s'" .
  have "length ys \<le> n'" using a 1(2) by simp
  have e: "upd2 i Outq (Q i Outq @ xs) Q i Outq = Q i Outq @ xs" by simp
  from emitsE[OF assms(2) 1(1) \<open>length ys \<le> n'\<close>, unfolded e upd2_upd2] obtain n'' where
    2: "tqs s'' (upd2 i Outq ((Q i Outq @ xs) @ ys) Q) n''" "n' \<le> n'' + length ys" "out_frame i s' s''" .
  show "(\<exists>n'. tqs s'' (upd2 i Outq (Q i Outq @ xs @ ys) Q) n' \<and> n \<le> n' + length (xs @ ys)) \<and> out_frame i s s''"
    using 1(2) 2 out_frame_trans[OF 1(3) 2(3)] by (intro conjI exI[of _ n'']) simp_all
qed

lemma emits_tput: "emits i s [word_of_int c] (tput c i Outq s)"
  unfolding emits_def
proof (intro allI impI)
  fix Q n
  assume a: "tqs s Q n \<and> length [word_of_int c :: 8 word] \<le> n"
  then obtain n' where p: "tqs (tput c i Outq s) (upd2 i Outq (Q i Outq @ [word_of_int c]) Q) n'" "n \<le> Suc n'"
      "qframe i Outq s (tput c i Outq s)"
    using tput_some[of s Q n c i Outq] by auto
  obtain q cs where "tput c i Outq s = with_q i Outq q cs s" "cs_spl cs = cs_spl (io_cs s)"
    using p(3) by (auto simp add: qframe_def)
  then have "out_frame i s (tput c i Outq s)"
    by (auto simp add: out_frame_def with_q_def upd_tty_def intro!: exI[of _ q] exI[of _ "t_col (io_tty s i)"])
  with p show "(\<exists>n'. tqs (tput c i Outq s) (upd2 i Outq (Q i Outq @ [word_of_int c]) Q) n' \<and> n \<le> n' + length [word_of_int c :: 8 word]) \<and>
      out_frame i s (tput c i Outq s)"
    by auto
qed

lemma tqs_set_col [simp]: "tqs (set_col i x s) Q n = tqs s Q n"
  unfolding set_col_def by (rule tqs_upd_tty) (case_tac k; simp)

lemma out_frameI:
  assumes "s' = (upd_tty i (\<lambda>t. t\<lparr>t_col := x\<rparr>) s)\<lparr>tk_nout := y\<rparr>"
  shows "out_frame i s s'"
  unfolding assms by (auto simp add: out_frame_def intro!: exI[of _ "t_outq (io_tty s i)"] exI[of _ x])

lemma emits_set_col: "emits i s [] (set_col i x s)"
  by (rule emits_same, simp, rule out_frameI[where x = "to_i8 x" and y = "tk_nout s"]) (simp add: set_col_def upd_tty_def)

lemma emits_count: "emits i s [] (s\<lparr>tk_nout := x\<rparr>)"
  by (rule emits_same, simp, rule out_frameI[where x = "t_col (io_tty s i)" and y = x]) (simp add: upd_tty_def)


section \<open>Text on a freshly opened terminal\<close>

text \<open>The modes in which a tab becomes spaces, a newline becomes two characters and nothing is delayed.\<close>

definition text_modes :: "16 word \<Rightarrow> bool" where
  "text_modes fl \<longleftrightarrow> fl AND RAW = 0 \<and> fl AND LCASE = 0 \<and> fl AND CRMOD \<noteq> 0 \<and> fl AND TBDELAY = XTABS \<and>
    drop_bit 8 fl AND 3 \<noteq> 1 \<and> drop_bit 8 fl AND 3 \<noteq> 2 \<and> drop_bit 12 fl AND 3 \<noteq> 1 \<and> drop_bit 12 fl AND 3 \<noteq> 2"

lemma partab_printable:
  assumes "32 \<le> c" "c < 127"
  shows "partab ! c mod 64 = 0"
proof -
  have "\<forall>x \<in> set (take 95 (drop 32 partab)). x mod 64 = 0" by (simp add: partab_def)
  moreover have len: "length partab = 128" by (simp add: partab_def)
  have "take 95 (drop 32 partab) ! (c - 32) = partab ! c" using assms by (simp add: len)
  moreover have "c - 32 < length (take 95 (drop 32 partab))" using assms by (simp add: len)
  ultimately show ?thesis by (metis nth_mem)
qed

lemma partab_control: "partab ! 10 mod 64 = 3" "partab ! 13 mod 64 = 6"
  by (simp_all add: partab_def)

text \<open>The flags and the column after an operation.\<close>

lemma tty_flags_kept [simp]:
  "t_flags (io_tty (set_col i x s) j) = t_flags (io_tty s j)"
  "t_col (io_tty (set_col i x s) i) = to_i8 x"
  by (simp_all add: set_col_def)

lemma text_modes_simps:
  assumes "text_modes (t_flags (io_tty s i))"
  shows "\<not> tflag i RAW s" "\<not> tflag i LCASE s" "tflag i CRMOD s" "t_flags (io_tty s i) AND TBDELAY = XTABS"
    "delay_mode 8 i s \<noteq> 1" "delay_mode 8 i s \<noteq> 2" "delay_mode 12 i s \<noteq> 1" "delay_mode 12 i s \<noteq> 2"
  using assms by (simp_all add: text_modes_def tflag_def delay_mode_def)

lemma low_char: "\<lbrakk>0 \<le> c; c < 128\<rbrakk> \<Longrightarrow> c AND 0x7F = (c :: int)"
  using take_bit_eq_mask[of 7 c] take_bit_int_eq_self[of c 7] by (simp add: mask_eq_exp_minus_1)

text \<open>The state in which \<open>ttyoutput\<close> has counted the character.\<close>

abbreviation (input) counted :: "tio \<Rightarrow> tio" where
  "counted s \<equiv> s\<lparr>tk_nout := to_i32 (tk_nout s + 1)\<rparr>"

lemma counted_simps [simp]:
  "io_tty (counted s) = io_tty s" "tflag i m (counted s) = tflag i m s" "delay_mode k i (counted s) = delay_mode k i s"
  by (simp_all add: tflag_def delay_mode_def)

lemma put_simps [simp]:
  "tflag i m (tput c i k s) = tflag i m s" "delay_mode b i (tput c i k s) = delay_mode b i s"
  by (simp_all add: tflag_def delay_mode_def)

lemma emits_char: "emits i s [word_of_int c] (set_col i x (tput c i Outq (counted s)))"
  using emits_trans[OF emits_trans[OF emits_count emits_tput] emits_set_col] by simp

lemma ttyoutput_printable:
  assumes m: "text_modes (t_flags (io_tty s i))" and c: "32 \<le> c" "c < 127"
  shows "ttyoutput c i s = set_col i (t_col (io_tty s i) + 1) (tput c i Outq (counted s))"
proof -
  have "c AND 0x7F = c" "partab ! nat c mod 64 = 0"
    using low_char c partab_printable[of "nat c"] by auto
  then show ?thesis
    using c text_modes_simps[OF m]
    by (simp add: ttyoutput_rec[of c] ttyoutput_with_def Let_def tty_delay_def tty_column_def CEOT_def)
qed

lemma ttyoutput_cr:
  assumes m: "text_modes (t_flags (io_tty s i))"
  shows "ttyoutput 13 i s = set_col i 0 (tput 13 i Outq (counted s))"
  using text_modes_simps[OF m]
  by (simp add: ttyoutput_rec[of 13] ttyoutput_with_def Let_def tty_delay_def tty_column_def CEOT_def partab_control)

lemma ttyoutput_nl:
  assumes m: "text_modes (t_flags (io_tty s i))"
  shows "ttyoutput 10 i s = set_col i 0 (tput 10 i Outq (ttyoutput 13 i (counted s)))"
proof -
  have fl: "t_flags (io_tty (ttyoutput 13 i (counted s)) i) = t_flags (io_tty s i)" using m by (simp add: ttyoutput_cr)
  then have m': "text_modes (t_flags (io_tty (ttyoutput 13 i (counted s)) i))" using m by simp
  show ?thesis
    using text_modes_simps[OF m] text_modes_simps[OF m']
    by (simp add: ttyoutput_rec[of 10] ttyoutput_with_def Let_def tty_delay_def tty_column_def CEOT_def partab_control del: put_simps(1))
qed


text \<open>The column is kept in a \<open>char\<close>; tab stops only depend on its last three bits, which wrap-around does not change.\<close>

lemma to_i8_succ: "to_i8 (to_i8 x + 1) = to_i8 (x + 1)"
  using signed_take_bit_add[of 7 x 1] by (simp add: to_i8_def)

lemma to_i8_low: "to_i8 x AND 7 = x mod 8"
proof -
  have "to_i8 x AND 7 = take_bit 3 (to_i8 x)" by (simp add: take_bit_eq_mask mask_eq_exp_minus_1)
  also have "\<dots> = take_bit 3 x" by (simp add: to_i8_def take_bit_signed_take_bit)
  finally show ?thesis by (simp add: take_bit_eq_mod)
qed

definition next_stop :: "int \<Rightarrow> int" where
  "next_stop col = 8 * (col div 8) + 8"

lemma next_stop_bounds: "col < next_stop col" "next_stop col \<le> col + 8"
  unfolding next_stop_def by presburger+

lemma next_stop_succ: "(col + 1) mod 8 \<noteq> 0 \<Longrightarrow> next_stop (col + 1) = next_stop col"
  unfolding next_stop_def by presburger

lemma next_stop_here: "(col + 1) mod 8 = 0 \<Longrightarrow> next_stop col = col + 1"
  unfolding next_stop_def by presburger

lemma emits_space:
  assumes "text_modes (t_flags (io_tty s i))" "t_col (io_tty s i) = to_i8 col"
  shows "emits i s [32] (ttyoutput 32 i s)" "t_flags (io_tty (ttyoutput 32 i s) i) = t_flags (io_tty s i)"
    "t_col (io_tty (ttyoutput 32 i s) i) = to_i8 (col + 1)"
  using emits_char[of i s 32] by (simp_all add: ttyoutput_printable[OF assms(1)] assms(2) to_i8_succ)

lemma tty_tab_ok:
  assumes "text_modes (t_flags (io_tty s i))" "t_col (io_tty s i) = to_i8 col" "next_stop col \<le> col + 1 + int n"
  shows "emits i s (replicate (nat (next_stop col - col)) 32) (tty_tab ttyoutput n i s) \<and>
    t_flags (io_tty (tty_tab ttyoutput n i s) i) = t_flags (io_tty s i) \<and>
    t_col (io_tty (tty_tab ttyoutput n i s) i) = to_i8 (next_stop col)"
  using assms
proof (induction n arbitrary: s col)
  case 0
  then have "next_stop col = col + 1" using next_stop_bounds(1)[of col] by simp
  then show ?case using emits_space[OF "0.prems"(1,2)] by simp
next
  case (Suc n)
  define s1 where "s1 = ttyoutput 32 i s"
  note sp = emits_space[OF Suc.prems(1,2), folded s1_def]
  have step: "tty_tab ttyoutput (Suc n) i s = (if (col + 1) mod 8 \<noteq> 0 then tty_tab ttyoutput n i s1 else s1)"
    using sp(3) by (simp add: s1_def[symmetric] Let_def to_i8_low)
  show ?case
  proof (cases "(col + 1) mod 8 = 0")
    case True
    then show ?thesis using step sp next_stop_here[OF True] by simp
  next
    case False
    note ns = next_stop_succ[OF False]
    have "text_modes (t_flags (io_tty s1 i))" using Suc.prems(1) sp(2) by simp
    moreover have "next_stop (col + 1) \<le> (col + 1) + 1 + int n" using Suc.prems(3) ns by simp
    ultimately have ih: "emits i s1 (replicate (nat (next_stop col - (col + 1))) 32) (tty_tab ttyoutput n i s1)"
        "t_flags (io_tty (tty_tab ttyoutput n i s1) i) = t_flags (io_tty s1 i)"
        "t_col (io_tty (tty_tab ttyoutput n i s1) i) = to_i8 (next_stop col)"
      using Suc.IH[of s1 "col + 1"] sp(3) ns by simp_all
    have "nat (next_stop col - col) = Suc (nat (next_stop col - (col + 1)))"
      using next_stop_bounds(1)[of col] by simp
    then have "replicate (nat (next_stop col - col)) (32 :: 8 word) = [32] @ replicate (nat (next_stop col - (col + 1))) 32"
      by simp
    then show ?thesis using step False emits_trans[OF sp(1) ih(1)] ih(2,3) sp(2) by simp
  qed
qed

text \<open>What a character shows on the line, and the column behind it.\<close>

definition text_char :: "int \<Rightarrow> bool" where
  "text_char c \<longleftrightarrow> c = 9 \<or> c = 10 \<or> 32 \<le> c \<and> c < 127"

definition advance :: "int \<Rightarrow> int \<Rightarrow> int" where
  "advance col c = (if c = 10 then 0 else if c = 9 then next_stop col else col + 1)"

definition shown :: "int \<Rightarrow> int \<Rightarrow> 8 word list" where
  "shown col c = (if c = 10 then [13, 10] else if c = 9 then replicate (nat (next_stop col - col)) 32 else [word_of_int c])"

primrec render :: "int \<Rightarrow> int list \<Rightarrow> 8 word list" where
  "render col [] = []"
| "render col (c # cs) = shown col c @ render (advance col c) cs"

lemma ttyoutput_char:
  assumes m: "text_modes (t_flags (io_tty s i))" and col: "t_col (io_tty s i) = to_i8 col" and c: "text_char c"
  shows "emits i s (shown col c) (ttyoutput c i s) \<and> t_flags (io_tty (ttyoutput c i s) i) = t_flags (io_tty s i) \<and>
    t_col (io_tty (ttyoutput c i s) i) = to_i8 (advance col c)"
proof -
  have m': "text_modes (t_flags (io_tty (counted s) i))" "t_col (io_tty (counted s) i) = to_i8 col" using m col by simp_all
  consider "c = 9" | "c = 10" | "32 \<le> c" "c < 127" using c by (auto simp add: text_char_def)
  then show ?thesis
  proof cases
    case 1
    have "ttyoutput 9 i s = tty_tab ttyoutput 8 i (counted s)"
      using text_modes_simps[OF m] by (simp add: ttyoutput_rec[of 9] ttyoutput_with_def Let_def CEOT_def)
    moreover have "next_stop col \<le> col + 1 + int 8" using next_stop_bounds(2)[of col] by simp
    ultimately show ?thesis
      using tty_tab_ok[OF m', of 8] emits_trans[OF emits_count] 1 by (fastforce simp add: shown_def advance_def)
  next
    case 2
    have cr: "emits i (counted s) [13] (ttyoutput 13 i (counted s))"
      using emits_char[of i "counted s" 13] by (simp only: ttyoutput_cr[OF m'(1)]) simp
    have "emits i s ([] @ [13] @ [10] @ []) (ttyoutput 10 i s)"
      unfolding ttyoutput_nl[OF m]
      using emits_tput[of i "ttyoutput 13 i (counted s)" 10]
      by - (rule emits_trans[OF emits_count emits_trans[OF cr emits_trans[OF _ emits_set_col]]], simp)
    moreover have "t_flags (io_tty (ttyoutput 10 i s) i) = t_flags (io_tty s i)"
      by (simp add: ttyoutput_nl[OF m] ttyoutput_cr[OF m'(1)])
    ultimately show ?thesis using 2 by (simp add: ttyoutput_nl[OF m] shown_def advance_def)
  next
    case 3
    then show ?thesis
      using emits_char by (simp add: ttyoutput_printable[OF m 3] col to_i8_succ shown_def advance_def)
  qed
qed

lemma ttyoutput_all:
  assumes "text_modes (t_flags (io_tty s i))" "t_col (io_tty s i) = to_i8 col" "\<forall>c \<in> set cs. text_char c"
  shows "emits i s (render col cs) (fold (\<lambda>c. ttyoutput c i) cs s) \<and>
    t_flags (io_tty (fold (\<lambda>c. ttyoutput c i) cs s) i) = t_flags (io_tty s i) \<and>
    t_col (io_tty (fold (\<lambda>c. ttyoutput c i) cs s) i) = to_i8 (foldl advance col cs)"
  using assms
proof (induction cs arbitrary: s col)
  case (Cons c cs)
  then have "text_char c" by simp
  note one = ttyoutput_char[OF Cons.prems(1,2) this]
  have "text_modes (t_flags (io_tty (ttyoutput c i s) i))" using one Cons.prems(1) by simp
  from Cons.IH[OF this] one Cons.prems(3) emits_trans show ?case by fastforce
qed (simp add: emits_none)

end
