(* ===== verification/Tty_Input.thy ===== *)
theory Tty_Input
  imports Tty_Output
begin

text \<open>
  Input from terminals, \<open>dev/tty.c\<close>: \<open>ttyinput\<close> puts the characters that the driver receives on the raw queue and a delimiter
  behind each line, \<open>canon\<close> moves a line to the canonical queue and applies the erase, kill and escape characters, \<open>ttread\<close> hands
  it to the process.
\<close>

section \<open>Flow control\<close>

definition set_delct :: "nat \<Rightarrow> int \<Rightarrow> tio \<Rightarrow> tio" where
  "set_delct i x = upd_tty i (\<lambda>t. t\<lparr>t_delct := to_i8 x\<rparr>)"

definition ttyblock :: "nat \<Rightarrow> tio \<Rightarrow> string + tio" where
  "ttyblock i s =
    (let x = tcc i Rawq s + tcc i Canq s
     in sbind (if tcc i Rawq s > TTYHOG
               then sbind (flushtty i s) (\<lambda>s. Inr (clr_tstate i TBLOCK s)) else Inr s) (\<lambda>s.
        if x \<ge> TTYHOG div 2 then
          (case tputc (t_stopc (io_tty s i)) i Outq s of (r, s) \<Rightarrow>
             if r = 0 then
               ttstart i (upd_tty i (\<lambda>t. t\<lparr>t_char := to_i8 (t_char t + 1)\<rparr>) (set_tstate i TBLOCK s))
             else Inr s)
        else Inr s))"

section \<open>ttyinput\<close>

text \<open>The stop and start characters; \<open>True\<close> means that the character is consumed.\<close>

definition ttyinput_stop :: "int \<Rightarrow> nat \<Rightarrow> tio \<Rightarrow> string + bool \<times> tio" where
  "ttyinput_stop c i s =
    (let start = t_startc (io_tty s i); stop = t_stopc (io_tty s i);
         go = (\<lambda>b s. case ttstart i s of Inl msg \<Rightarrow> Inl msg | Inr s \<Rightarrow> Inr (b, s))
     in if tstate i TTSTOP s then
          (if c = start then go True (clr_tstate i TTSTOP s)
           else if c = stop then Inr (True, s)
           else go False (clr_tstate i TTSTOP s))
        else if c = stop then Inr (True, nulldev_stop i (set_tstate i TTSTOP s))
        else Inr (c = start, s))"

definition tio_signal :: "int \<Rightarrow> int \<Rightarrow> tio \<Rightarrow> string + tio" where
  "tio_signal pgrp sig s =
    (case signal pgrp sig (io_kern s) of Inl msg \<Rightarrow> Inl msg | Inr k \<Rightarrow> Inr (s\<lparr>io_kern := k\<rparr>))"

text \<open>The interrupt and quit characters. \<open>scontrol\<close> and \<open>sdata\<close> of \<open>conf/stubs.c\<close> do nothing.\<close>

definition ttyinput_signal :: "int \<Rightarrow> nat \<Rightarrow> tio \<Rightarrow> string + tio" where
  "ttyinput_signal c i s =
    sbind (flushtty i s) (\<lambda>s.
      if t_chan (io_tty s i) \<noteq> None then Inr s
      else tio_signal (t_pgrp (io_tty s i)) (if c = t_intrc (io_tty s i) then SIGINT else SIGQUIT) s)"

definition wake_reader :: "nat \<Rightarrow> tio \<Rightarrow> string + tio" where
  "wake_reader i s = (if t_chan (io_tty s i) \<noteq> None then Inr s else tio_wakeup (Ch_rawq i) s)"

text \<open>The character goes on the raw queue, with a delimiter behind it if it ends a line.\<close>

definition ttyinput_queue :: "16 word \<Rightarrow> int \<Rightarrow> nat \<Rightarrow> tio \<Rightarrow> string + tio" where
  "ttyinput_queue fl c i s =
    (let t = io_tty s i; s = tput c i Rawq s
     in if fl AND (RAW OR CBREAK) \<noteq> 0 \<or> c = 10 \<or> c = t_eofc t \<or> c = t_brkc t then
          wake_reader i
            (if fl AND (RAW OR CBREAK) = 0 then
               (case tputc 0xFF i Rawq s of (r, s) \<Rightarrow>
                  if r = 0 then set_delct i (t_delct (io_tty s i) + 1) s else s)
             else s)
        else Inr s)"

definition ttyinput_echo :: "16 word \<Rightarrow> int \<Rightarrow> nat \<Rightarrow> tio \<Rightarrow> string + tio" where
  "ttyinput_echo fl c i s =
    (if fl AND ECHO \<noteq> 0 then
       let s = ttyoutput c i s
       in ttstart i (if c = t_kill (io_tty s i) \<and> fl AND (RAW OR CBREAK) = 0 then ttyoutput 10 i s else s)
     else Inr s)"

definition ttyinput_store :: "16 word \<Rightarrow> int \<Rightarrow> nat \<Rightarrow> tio \<Rightarrow> string + tio" where
  "ttyinput_store fl c i s =
    (if tcc i Rawq s > TTYHOG then flushtty i s
     else let c = (if fl AND LCASE \<noteq> 0 \<and> 65 \<le> c \<and> c \<le> 90 then c + 32 else c)
          in sbind (ttyinput_queue fl c i s) (ttyinput_echo fl c i))"

definition ttyinput :: "int \<Rightarrow> nat \<Rightarrow> tio \<Rightarrow> string + tio" where
  "ttyinput c i s =
    (let s = s\<lparr>tk_nin := to_i32 (tk_nin s + 1)\<rparr>; c = c AND 0xFF; fl = t_flags (io_tty s i)
     in sbind (if fl AND TANDEM \<noteq> 0 then ttyblock i s else Inr s) (\<lambda>s.
        if fl AND RAW = 0 then
          let c = c AND 0x7F
          in case ttyinput_stop c i s of
               Inl msg \<Rightarrow> Inl msg
             | Inr (done, s) \<Rightarrow>
                 if done then Inr s
                 else if c = t_quitc (io_tty s i) \<or> c = t_intrc (io_tty s i) then ttyinput_signal c i s
                 else ttyinput_store fl (if c = 13 \<and> fl AND CRMOD \<noteq> 0 then 10 else c) i s
        else ttyinput_store fl c i s))"

definition set_tflags :: "nat \<Rightarrow> (16 word \<Rightarrow> 16 word) \<Rightarrow> tio \<Rightarrow> tio" where
  "set_tflags i f = upd_tty i (\<lambda>t. t\<lparr>t_flags := f (t_flags t)\<rparr>)"

definition ttyrend :: "8 word list \<Rightarrow> nat \<Rightarrow> tio \<Rightarrow> string + tio" where
  "ttyrend pb i s =
    (let tandem = t_flags (io_tty s i) AND TANDEM
     in sbind
       (if tflag i RAW s then wake_reader i (tb_to_q pb i Rawq s)
        else sbind (sfor (\<lambda>c. ttyinput (sint c) i) pb (set_tflags i (\<lambda>f. f AND NOT TANDEM) s)) (\<lambda>s.
             Inr (set_tflags i (\<lambda>f. f OR tandem) s))) (\<lambda>s.
       if tandem \<noteq> 0 then ttyblock i s else Inr s))"

section \<open>canon\<close>

definition maptab_entries :: "nat list" where
  "maptab_entries =
    [0, 0, 0, 0, 0, 0, 0, 0, 0, 0, 0, 0, 0, 0, 0, 0,
     0, 0, 0, 0, 0, 0, 0, 0, 0, 0, 0, 0, 0, 0, 0, 0,
     0, 124, 0, 0, 0, 0, 0, 96, 123, 125, 0, 0, 0, 0, 0, 0,
     0, 0, 0, 0, 0, 0, 0, 0, 0, 0, 0, 0, 0, 0, 0, 0,
     0, 0, 0, 0, 0, 0, 0, 0, 0, 0, 0, 0, 0, 0, 0, 0,
     0, 0, 0, 0, 0, 0, 0, 0, 0, 0, 0, 0, 0, 0, 126, 0,
     0, 65, 66, 67, 68, 69, 70, 71, 72, 73, 74, 75, 76, 77, 78, 79,
     80, 81, 82, 83, 84, 85, 86, 87, 88, 89, 90, 0, 0, 0, 0, 0]"

definition maptab :: "int \<Rightarrow> tio \<Rightarrow> int" where
  "maptab c s = (if c < 128 then int (maptab_entries ! nat c) else io_past_maptab s c)"

definition cooked :: "nat \<Rightarrow> tio \<Rightarrow> bool" where
  "cooked i s \<longleftrightarrow> t_flags (io_tty s i) AND (RAW OR CBREAK) = 0"

text \<open>\<open>*bp++ = c\<close>, and whether the buffer is full then.\<close>

definition canon_put :: "int \<Rightarrow> nat \<Rightarrow> tio \<Rightarrow> bool \<times> nat \<times> tio" where
  "canon_put c bp s =
    (bp + 1 \<ge> CANBSIZ, bp + 1, s\<lparr>io_canonb := (io_canonb s)(bp := word_of_int c)\<rparr>)"

text \<open>One character of the loop: whether the loop ends, \<open>bp\<close> as an index into \<open>canonb\<close>, and the state.\<close>

definition canon_char :: "int \<Rightarrow> nat \<Rightarrow> nat \<Rightarrow> tio \<Rightarrow> bool \<times> nat \<times> tio" where
  "canon_char c i bp s =
    (let t = io_tty s i
     in if \<not> cooked i s then canon_put c bp s
        else if c = 0xFF then (True, bp, set_delct i (t_delct t - 1) s)
        else if io_canonb s (bp - 1) \<noteq> 92 then
          (if c = t_erase t then (False, if bp > 2 then bp - 1 else bp, s)
           else if c = t_kill t then (False, 2, s)
           else if c = t_eofc t then (False, bp, s)
           else canon_put c bp s)
        else
          let mc = (if c = t_erase t \<or> c = t_kill t then c else maptab c s)
          in if mc \<noteq> 0 \<and> (mc = c \<or> tflag i LCASE s)
             then canon_put (if io_canonb s (bp - 2) \<noteq> 92 then mc else c) (bp - 1) s
             else canon_put c bp s)"

lemma canon_char_tcc: "canon_char c i bp s = (e, bp', s') \<Longrightarrow> tcc j k s' = tcc j k s"
proof -
  have d: "tcc j k (set_delct i x s) = tcc j k s" for x
    by (cases k; simp add: tcc_def set_delct_def upd_tty_def)
  show "canon_char c i bp s = (e, bp', s') \<Longrightarrow> tcc j k s' = tcc j k s"
    unfolding canon_char_def canon_put_def Let_def
    by (auto simp add: d split: if_splits) (simp_all add: tcc_def)
qed

lemma canon_turn_shrinks:
  assumes "(c, s1) = tgetc i Rawq s" "\<not> c < 0" "(e, bp', s2) = canon_char c i bp s1"
  shows "0 < tcc i Rawq s \<and> tcc i Rawq s2 < tcc i Rawq s"
  using tgetc_counts[of i Rawq s c s1] canon_char_tcc[of c i bp s1 e bp' s2 i Rawq] assms by simp

function canon_loop :: "nat \<Rightarrow> nat \<Rightarrow> tio \<Rightarrow> nat \<times> tio" where
  "canon_loop i bp s =
    (case tgetc i Rawq s of (c, s1) \<Rightarrow>
       if c < 0 then (bp, s1)
       else case canon_char c i bp s1 of (stop, bp, s2) \<Rightarrow> if stop then (bp, s2) else canon_loop i bp s2)"
  by pat_completeness auto
termination
  by (relation "measure (\<lambda>(i, bp, s). nat (tcc i Rawq s))") (auto dest: canon_turn_shrinks)

declare canon_loop.simps [simp del]

definition canon_unblock :: "nat \<Rightarrow> tio \<Rightarrow> string + tio" where
  "canon_unblock i s =
    (if tstate i TBLOCK s \<and> tcc i Rawq s < TTYHOG div 5 then
       sbind (case tputc (t_startc (io_tty s i)) i Outq s of (r, s) \<Rightarrow>
                if r = 0 then ttstart i (clr_tstate i TBLOCK s) else Inr s) (\<lambda>s.
         Inr (upd_tty i (\<lambda>t. t\<lparr>t_char := 0\<rparr>) s))
     else Inr s)"

text \<open>The wait for a line, or for any character; \<open>True\<close> is the return without one.\<close>

definition canon_waits :: "nat \<Rightarrow> tio \<Rightarrow> bool" where
  "canon_waits i s \<longleftrightarrow> (if cooked i s then t_delct (io_tty s i) = 0 else tcc i Rawq s = 0)"

primrec canon_wait :: "nat \<Rightarrow> nat \<Rightarrow> (tio, bool) kern" where
  "canon_wait 0 i = (\<lambda>es s. Blocked s)"
| "canon_wait (Suc n) i =
    kif (canon_waits i)
      (kif (\<lambda>s. \<not> tstate i CARR_ON s \<or> t_chan (io_tty s i) \<noteq> None)
        (kret True)
        (kthen (tsleep (Ch_rawq i) TTIPRI) (canon_wait n i)))
      (kret False)"

definition canon_line :: "nat \<Rightarrow> tio \<Rightarrow> nat \<times> tio" where
  "canon_line i s =
    (case canon_loop i 2 s of (bp, s) \<Rightarrow> (bp - 2, tb_to_q (map (io_canonb s) [2 ..< bp]) i Canq s))"

definition canon :: "nat \<Rightarrow> (tio, int) kern" where
  "canon i =
    kthen (kmod (set_spl 5))
    (kbind (\<lambda>es s. canon_wait (Suc (length es)) i es s) (\<lambda>ret.
      if ret then kret 0
      else kthen (kmod (set_spl 0))
        (kbind (\<lambda>es s. case canon_line i s of (n, s) \<Rightarrow> Ret n es s) (\<lambda>n.
          kthen (kpure (canon_unblock i)) (kret (int n))))))"

section \<open>ttread\<close>

lemma tpassc_tcc: "tpassc c s = (r, s') \<Longrightarrow> tcc i k s' = tcc i k s"
  by (auto simp add: tpassc_def tcc_def split: prod.splits)

lemma getc_shrinks: "getc q cs = (c, q', cs') \<Longrightarrow> c_cc q \<noteq> 0 \<Longrightarrow> \<bar>c_cc q'\<bar> < \<bar>c_cc q\<bar>"
  by (auto simp add: getc_def Let_def split: if_splits)

lemma tgetc_shrinks: "\<lbrakk>tgetc i k s = (c, s'); tcc i k s \<noteq> 0\<rbrakk> \<Longrightarrow> \<bar>tcc i k s'\<bar> < \<bar>tcc i k s\<bar>"
  by (auto simp add: tgetc_def tcc_def with_q_def upd_tty_def dest: getc_shrinks split: prod.splits)

lemma ttread_turn_shrinks:
  assumes "(c, s1) = tgetc i Canq s" "(r, s2) = tpassc c s1" "tcc i Canq s \<noteq> 0"
  shows "\<bar>tcc i Canq s2\<bar> < \<bar>tcc i Canq s\<bar>"
  using tgetc_shrinks[of i Canq s c s1] tpassc_tcc[of c s1 r s2 i Canq] assms by simp

function ttread_loop :: "nat \<Rightarrow> tio \<Rightarrow> tio" where
  "ttread_loop i s =
    (if tcc i Canq s = 0 then s
     else case tgetc i Canq s of (c, s1) \<Rightarrow>
       (case tpassc c s1 of (r, s2) \<Rightarrow> if 0 \<le> r then ttread_loop i s2 else s2))"
  by pat_completeness auto
termination
  by (relation "measure (\<lambda>(i, s). nat \<bar>tcc i Canq s\<bar>)") (auto dest: ttread_turn_shrinks)

declare ttread_loop.simps [simp del]

definition ttread :: "nat \<Rightarrow> (tio, int) kern" where
  "ttread i =
    kif (\<lambda>s. \<not> tstate i CARR_ON s) (kret 0)
      (kbind (\<lambda>es s. if tcc i Canq s \<noteq> 0 then Ret True es s else kbind (canon i) (\<lambda>n. kret (n \<noteq> 0)) es s) (\<lambda>any.
        kthen (if any then kmod (ttread_loop i) else kret ())
          (kget (\<lambda>s. tcc i Rawq s + tcc i Canq s))))"

end
