(* ===== verification/Tty_Discipline.thy ===== *)
theory Tty_Discipline
  imports Tty_Input
begin

text \<open>
  The line discipline: what \<open>ttyinput\<close> and \<open>canon\<close> do to the queues and the delimiter count, for all modes of a terminal. \<open>edit\<close> is
  the line editor as a function on lists, and \<open>canon\<close> is shown to compute it; the delimiter count is zero exactly if the raw queue holds
  no delimiter, so that a reader waits only while no line is complete. Operations on the output side are \<open>calm\<close> or \<open>silent\<close>: they
  keep the input and put out a bounded number of characters. \<open>key_done\<close> says what becomes of a received character, with and
  without the flow control of \<open>TANDEM\<close>.
\<close>

section \<open>Operations that do not touch the input\<close>

definition out_only :: "tio \<Rightarrow> (nat \<Rightarrow> tqueue \<Rightarrow> 8 word list) \<Rightarrow> tio \<Rightarrow> (nat \<Rightarrow> tqueue \<Rightarrow> 8 word list) \<Rightarrow> bool" where
  "out_only s Q s' Q' \<longleftrightarrow> io_canonb s' = io_canonb s \<and> cs_spl (io_cs s') = cs_spl (io_cs s) \<and>
    only_sched (io_kern s) (io_kern s') \<and>
    (\<forall>j. Q' j Rawq = Q j Rawq \<and> Q' j Canq = Q j Canq \<and>
      (\<exists>q st c ch. io_tty s' j = (io_tty s j)\<lparr>t_outq := q, t_state := st, t_col := c, t_char := ch\<rparr>))"

lemma tty_same: "\<exists>q st c ch. t = t\<lparr>t_outq := q, t_state := st, t_col := c, t_char := ch\<rparr>"
  by (intro exI[of _ "t_outq t"] exI[of _ "t_state t"] exI[of _ "t_col t"] exI[of _ "t_char t"]) simp

lemma out_onlyI:
  assumes "io_canonb s' = io_canonb s" "cs_spl (io_cs s') = cs_spl (io_cs s)" "only_sched (io_kern s) (io_kern s')"
    "\<And>j. j \<noteq> i \<Longrightarrow> io_tty s' j = io_tty s j"
    "io_tty s' i = (io_tty s i)\<lparr>t_outq := q, t_state := st, t_col := c, t_char := ch\<rparr>"
    "\<And>j. Q' j Rawq = Q j Rawq" "\<And>j. Q' j Canq = Q j Canq"
  shows "out_only s Q s' Q'"
  unfolding out_only_def
proof (intro conjI allI assms(1-3,6,7))
  fix j
  show "\<exists>q st c ch. io_tty s' j = (io_tty s j)\<lparr>t_outq := q, t_state := st, t_col := c, t_char := ch\<rparr>"
    using assms(4)[of j] assms(5) tty_same[of "io_tty s j"] by (cases "j = i") auto
qed

lemma out_only_refl [simp]: "out_only s Q s Q"
  unfolding out_only_def using tty_same only_sched_refl by blast

lemma out_only_trans:
  assumes "out_only s Q t R" "out_only t R v W"
  shows "out_only s Q v W"
  unfolding out_only_def
proof (intro conjI allI)
  fix j
  obtain q st c ch where 1: "io_tty t j = (io_tty s j)\<lparr>t_outq := q, t_state := st, t_col := c, t_char := ch\<rparr>"
    using assms(1) unfolding out_only_def by blast
  obtain q' st' c' ch' where 2: "io_tty v j = (io_tty t j)\<lparr>t_outq := q', t_state := st', t_col := c', t_char := ch'\<rparr>"
    using assms(2) unfolding out_only_def by blast
  show "\<exists>q st c ch. io_tty v j = (io_tty s j)\<lparr>t_outq := q, t_state := st, t_col := c, t_char := ch\<rparr>"
    unfolding 2 1 by (intro exI[of _ q'] exI[of _ st'] exI[of _ c'] exI[of _ ch']) simp
qed (use assms only_sched_trans in \<open>auto simp add: out_only_def\<close>)

lemma out_only_fields:
  assumes "out_only s Q s' Q'"
  shows "t_delct (io_tty s' i) = t_delct (io_tty s i)" "t_flags (io_tty s' i) = t_flags (io_tty s i)"
    "t_erase (io_tty s' i) = t_erase (io_tty s i)" "t_kill (io_tty s' i) = t_kill (io_tty s i)"
    "t_eofc (io_tty s' i) = t_eofc (io_tty s i)" "t_brkc (io_tty s' i) = t_brkc (io_tty s i)"
    "t_pgrp (io_tty s' i) = t_pgrp (io_tty s i)" "t_chan (io_tty s' i) = t_chan (io_tty s i)"
    "t_intrc (io_tty s' i) = t_intrc (io_tty s i)" "t_quitc (io_tty s' i) = t_quitc (io_tty s i)"
    "Q' i Rawq = Q i Rawq" "Q' i Canq = Q i Canq"
proof -
  obtain q st c ch where "io_tty s' i = (io_tty s i)\<lparr>t_outq := q, t_state := st, t_col := c, t_char := ch\<rparr>"
    using assms unfolding out_only_def by blast
  then show "t_delct (io_tty s' i) = t_delct (io_tty s i)" "t_flags (io_tty s' i) = t_flags (io_tty s i)"
    "t_erase (io_tty s' i) = t_erase (io_tty s i)" "t_kill (io_tty s' i) = t_kill (io_tty s i)"
    "t_eofc (io_tty s' i) = t_eofc (io_tty s i)" "t_brkc (io_tty s' i) = t_brkc (io_tty s i)"
    "t_pgrp (io_tty s' i) = t_pgrp (io_tty s i)" "t_chan (io_tty s' i) = t_chan (io_tty s i)"
    "t_intrc (io_tty s' i) = t_intrc (io_tty s i)" "t_quitc (io_tty s' i) = t_quitc (io_tty s i)"
    by simp_all
  show "Q' i Rawq = Q i Rawq" "Q' i Canq = Q i Canq" using assms by (simp_all add: out_only_def)
qed

text \<open>
  \<open>grows i k n Q n' Q'\<close>: the output queue of terminal \<open>i\<close> grows by at most \<open>k\<close> characters, for which at most \<open>k\<close> blocks are taken,
  and no other output queue grows.
\<close>

definition grows ::
  "nat \<Rightarrow> nat \<Rightarrow> nat \<Rightarrow> (nat \<Rightarrow> tqueue \<Rightarrow> 8 word list) \<Rightarrow> nat \<Rightarrow> (nat \<Rightarrow> tqueue \<Rightarrow> 8 word list) \<Rightarrow> bool" where
  "grows i k n Q n' Q' \<longleftrightarrow> n \<le> n' + k \<and>
    (\<forall>j. length (Q' j Outq) \<le> length (Q j Outq) + (if j = i then k else 0))"

lemma grows_refl [simp]: "grows i k n Q n Q"
  by (simp add: grows_def)

lemma grows_mono: "\<lbrakk>grows i k n Q n' Q'; k \<le> l\<rbrakk> \<Longrightarrow> grows i l n Q n' Q'"
  unfolding grows_def
proof (elim conjE, intro conjI allI)
  fix j
  assume "k \<le> l" "\<forall>j. length (Q' j Outq) \<le> length (Q j Outq) + (if j = i then k else 0)"
  from this(1) spec[OF this(2), of j]
  show "length (Q' j Outq) \<le> length (Q j Outq) + (if j = i then l else 0)" by (auto split: if_splits)
qed simp

lemma grows_trans: "\<lbrakk>grows i k n Q n1 Q1; grows i l n1 Q1 n2 Q2\<rbrakk> \<Longrightarrow> grows i (k + l) n Q n2 Q2"
  unfolding grows_def
proof (elim conjE, intro conjI allI)
  fix j
  assume "\<forall>j. length (Q1 j Outq) \<le> length (Q j Outq) + (if j = i then k else 0)"
    "\<forall>j. length (Q2 j Outq) \<le> length (Q1 j Outq) + (if j = i then l else 0)"
  from spec[OF this(1), of j] spec[OF this(2), of j]
  show "length (Q2 j Outq) \<le> length (Q j Outq) + (if j = i then k + l else 0)" by (auto split: if_splits)
qed simp

lemma grows_blocks: "grows i k n Q n' Q' \<Longrightarrow> n \<le> n' + k"
  by (simp add: grows_def)

lemma grows_shift: "grows i k n Q n' Q' \<Longrightarrow> grows i k (n + m) Q (n' + m) Q'"
  by (simp add: grows_def)

lemma grows_input: "\<lbrakk>grows i k n Q (n1 + 2) Q1; grows i l n1 Q1 n2 Q2\<rbrakk> \<Longrightarrow> grows i (k + l) n Q (n2 + 2) Q2"
  by (rule grows_trans[OF _ grows_shift])

text \<open>
  \<open>calm i k f\<close>: the operation succeeds in every well-formed state, leaves the input alone and puts at most \<open>k\<close> characters out.
\<close>

definition calm :: "nat \<Rightarrow> nat \<Rightarrow> (tio \<Rightarrow> string + tio) \<Rightarrow> bool" where
  "calm i k f \<longleftrightarrow> (\<forall>s Q n. tio_ok s Q n \<longrightarrow>
    (\<exists>s' Q' n'. f s = Inr s' \<and> tio_ok s' Q' n' \<and> out_only s Q s' Q' \<and> grows i k n Q n' Q'))"

lemma calmI:
  assumes "\<And>s Q n. tio_ok s Q n \<Longrightarrow> \<exists>s' Q' n'. f s = Inr s' \<and> tio_ok s' Q' n' \<and> out_only s Q s' Q' \<and> grows i k n Q n' Q'"
  shows "calm i k f"
  unfolding calm_def using assms by blast

lemma calmE:
  assumes "calm i k f" "tio_ok s Q n"
  obtains s' Q' n' where "f s = Inr s'" "tio_ok s' Q' n'" "out_only s Q s' Q'" "grows i k n Q n' Q'"
  using assms unfolding calm_def by blast

lemma calm_mono: "\<lbrakk>calm i k f; k \<le> l\<rbrakk> \<Longrightarrow> calm i l f"
  unfolding calm_def using grows_mono by meson

lemma calm_Inr: "calm i k Inr"
  unfolding calm_def using out_only_refl grows_refl by blast

lemma calm_sbind:
  assumes "calm i k f" "calm i l g"
  shows "calm i (k + l) (\<lambda>s. sbind (f s) g)"
proof (rule calmI)
  fix s Q n
  assume "tio_ok s Q n"
  from calmE[OF assms(1) this] obtain s1 Q1 n1 where 1: "f s = Inr s1" "tio_ok s1 Q1 n1" "out_only s Q s1 Q1" "grows i k n Q n1 Q1" .
  from calmE[OF assms(2) 1(2)] obtain s2 Q2 n2 where
    2: "g s1 = Inr s2" "tio_ok s2 Q2 n2" "out_only s1 Q1 s2 Q2" "grows i l n1 Q1 n2 Q2" .
  show "\<exists>s' Q' n'. sbind (f s) g = Inr s' \<and> tio_ok s' Q' n' \<and> out_only s Q s' Q' \<and> grows i (k + l) n Q n' Q'"
    using grows_trans[OF 1(4) 2(4)] 1(1) 2(1,2) out_only_trans[OF 1(3) 2(3)] by auto
qed

lemma calm_if: "\<lbrakk>calm i k f; calm i k g\<rbrakk> \<Longrightarrow> calm i k (\<lambda>s. if c s then f s else g s)"
  by (simp add: calm_def)

lemma calm_read: "(\<And>x. calm i k (F x)) \<Longrightarrow> calm i k (\<lambda>s. F (h s) s)"
  by (simp add: calm_def)

lemma calm_poll: "ch < UART_CHANNELS \<Longrightarrow> calm i 0 (uart_poll_tx_channel ch)"
proof (rule calmI)
  fix s Q n
  assume ch: "ch < UART_CHANNELS" and ok: "tio_ok s Q n"
  obtain s' xs n' where p: "uart_poll_tx_channel ch s = Inr s'" "tio_ok s' (upd2 ch Outq xs Q) n'" "n \<le> n'" "poll_frame ch s s'" "length xs \<le> length (Q ch Outq)"
    using poll_spec[OF ok ch] by blast
  obtain q st where t: "io_tty s' ch = (io_tty s ch)\<lparr>t_outq := q, t_state := st\<rparr>"
    using p(4) by (auto simp add: poll_frame_def)
  have "out_only s Q s' (upd2 ch Outq xs Q)"
    using p(4) t
    by (intro out_onlyI[of _ _ ch, where q = q and st = st and c = "t_col (io_tty s ch)" and ch = "t_char (io_tty s ch)"])
       (simp_all add: poll_frame_def rest_same_def)
  moreover have "grows i 0 n Q n' (upd2 ch Outq xs Q)" using p(3,5) by (simp add: grows_def)
  ultimately show "\<exists>s' Q' n'. uart_poll_tx_channel ch s = Inr s' \<and> tio_ok s' Q' n' \<and> out_only s Q s' Q' \<and> grows i 0 n Q n' Q'"
    using p(1,2) by blast
qed

lemma calm_klstart: "calm j 0 (klstart i)"
  unfolding calm_def klstart_def Let_def
  using calm_poll calm_Inr[of j 0] by (auto simp add: calm_def not_le)

lemma calm_ttstart: "calm j 0 (ttstart i)"
proof (rule calmI)
  fix s Q n
  assume ok: "tio_ok s Q n"
  let ?f = "\<lambda>s. if \<not> tstate i (TIMEOUT OR TTSTOP OR BUSY) s then klstart i s else Inr s"
  have "calm j 0 ?f" by (rule calm_if[OF calm_klstart calm_Inr])
  moreover have "tio_ok (set_spl 5 s) Q n" using ok by simp
  ultimately obtain s' Q' n' where s': "?f (set_spl 5 s) = Inr s'" "tio_ok s' Q' n'" "out_only (set_spl 5 s) Q s' Q'" "grows j 0 n Q n' Q'"
    by (rule calmE)
  have "ttstart i s = Inr (set_spl (cs_spl (io_cs s)) s')"
    unfolding ttstart_def Let_def using s'(1) by simp
  moreover have "out_only s Q (set_spl (cs_spl (io_cs s)) s') Q'" using s'(3) by (simp add: out_only_def)
  moreover have "tio_ok (set_spl (cs_spl (io_cs s)) s') Q' n'" using s'(2) by simp
  ultimately show "\<exists>s' Q' n'. ttstart i s = Inr s' \<and> tio_ok s' Q' n' \<and> out_only s Q s' Q' \<and> grows j 0 n Q n' Q'" using s'(4) by blast
qed

lemma calm_wakeup: "calm i 0 (tio_wakeup c)"
proof (rule calmI)
  fix s Q n
  assume "tio_ok s Q n"
  from tio_wakeup_ok[OF this] obtain k where
    k: "tio_wakeup c s = Inr (s\<lparr>io_kern := k\<rparr>)" "tio_ok (s\<lparr>io_kern := k\<rparr>) Q n" "only_sched (io_kern s) k" by blast
  have "out_only s Q (s\<lparr>io_kern := k\<rparr>) Q"
    by (rule out_onlyI[of _ _ 0, where q = "t_outq (io_tty s 0)" and st = "t_state (io_tty s 0)" and
          c = "t_col (io_tty s 0)" and ch = "t_char (io_tty s 0)"]) (simp_all add: k(3))
  with k show "\<exists>s' Q' n'. tio_wakeup c s = Inr s' \<and> tio_ok s' Q' n' \<and> out_only s Q s' Q' \<and> grows i 0 n Q n' Q'" using grows_refl by blast
qed

lemma calm_wake_reader: "calm j 0 (wake_reader i)"
  unfolding wake_reader_def by (intro calm_if calm_Inr calm_wakeup)

text \<open>Steps that cannot fail.\<close>

definition silent :: "nat \<Rightarrow> nat \<Rightarrow> tio \<Rightarrow> tio \<Rightarrow> bool" where
  "silent i k s s' \<longleftrightarrow> (\<forall>Q n. tio_ok s Q n \<longrightarrow> (\<exists>Q' n'. tio_ok s' Q' n' \<and> out_only s Q s' Q' \<and> grows i k n Q n' Q'))"

lemma silentE:
  assumes "silent i k s s'" "tio_ok s Q n"
  obtains Q' n' where "tio_ok s' Q' n'" "out_only s Q s' Q'" "grows i k n Q n' Q'"
  using assms unfolding silent_def by blast

lemma silent_refl [simp]: "silent i k s s"
  unfolding silent_def using out_only_refl grows_refl by blast

lemma silent_trans:
  assumes "silent i k s t" "silent i l t v"
  shows "silent i (k + l) s v"
  unfolding silent_def
proof (intro allI impI)
  fix Q n
  assume "tio_ok s Q n"
  from silentE[OF assms(1) this] obtain Q1 n1 where 1: "tio_ok t Q1 n1" "out_only s Q t Q1" "grows i k n Q n1 Q1" .
  from silentE[OF assms(2) 1(1)] obtain Q2 n2 where 2: "tio_ok v Q2 n2" "out_only t Q1 v Q2" "grows i l n1 Q1 n2 Q2" .
  show "\<exists>Q' n'. tio_ok v Q' n' \<and> out_only s Q v Q' \<and> grows i (k + l) n Q n' Q'"
    using grows_trans[OF 1(3) 2(3)] 2(1) out_only_trans[OF 1(2) 2(2)] by blast
qed

lemma silent_mono: "\<lbrakk>silent i k s t; k \<le> l\<rbrakk> \<Longrightarrow> silent i l s t"
  unfolding silent_def using grows_mono by meson

lemma calm_silent: "(\<And>s. silent i k s (h s)) \<Longrightarrow> calm i k (\<lambda>s. Inr (h s))"
  unfolding calm_def silent_def by blast

lemma calm_next: "\<lbrakk>\<And>s. silent i k s (h s); calm i l f\<rbrakk> \<Longrightarrow> calm i (k + l) (\<lambda>s. f (h s))"
  using calm_sbind[OF calm_silent] by fastforce

lemma silent_tty:
  assumes "\<And>j. j \<noteq> i \<Longrightarrow> io_tty s' j = io_tty s j"
    "io_tty s' i = (io_tty s i)\<lparr>t_state := st, t_col := c, t_char := ch\<rparr>"
    "io_cs s' = io_cs s" "io_kern s' = io_kern s" "io_txq s' = io_txq s" "io_rx s' = io_rx s" "io_canonb s' = io_canonb s"
  shows "silent m 0 s s'"
  unfolding silent_def
proof (intro allI impI)
  fix Q n
  assume ok: "tio_ok s Q n"
  have "tq k (io_tty s' j) = tq k (io_tty s j)" for j k
    using assms(1)[of j] assms(2) by (cases "j = i"; cases k) simp_all
  then have "tqs s' Q n = tqs s Q n"
    by (intro tqs_cong[of _ _ "cs_spl (io_cs s)"] ext) (simp_all add: assms(3))
  then have "tio_ok s' Q n" using ok by (simp add: tio_ok_def assms)
  moreover have "out_only s Q s' Q"
    by (rule out_onlyI[of _ _ i, where q = "t_outq (io_tty s i)" and st = st and c = c and ch = ch])
       (simp_all add: assms only_sched_refl)
  ultimately show "\<exists>Q' n'. tio_ok s' Q' n' \<and> out_only s Q s' Q' \<and> grows m 0 n Q n' Q'" using grows_refl by blast
qed

lemma silent_set_col: "silent m 0 s (set_col i x s)"
  by (rule silent_tty[of i, where st = "t_state (io_tty s i)" and c = "to_i8 x" and ch = "t_char (io_tty s i)"])
     (simp_all add: set_col_def)

lemma silent_count: "silent m 0 s (s\<lparr>tk_nout := x\<rparr>)" "silent m 0 s (s\<lparr>tk_nin := x\<rparr>)"
  by (rule silent_tty[of 0, where st = "t_state (io_tty s 0)" and c = "t_col (io_tty s 0)" and ch = "t_char (io_tty s 0)"];
      simp)+

lemma silent_t_char: "silent m 0 s (upd_tty i (\<lambda>t. t\<lparr>t_char := f t\<rparr>) s)"
  by (rule silent_tty[of i, where st = "t_state (io_tty s i)" and c = "t_col (io_tty s i)" and ch = "f (io_tty s i)"]) simp_all

lemma silent_tstate: "silent j 0 s (set_tstate i m s)" "silent j 0 s (clr_tstate i m s)"
  by (rule silent_tty[of i, where c = "t_col (io_tty s i)" and ch = "t_char (io_tty s i)"]; simp)+

lemma tio_ok_qframe:
  assumes "tio_ok s Q n" "qframe i k s s'" "tqs s' Q' n'"
  shows "tio_ok s' Q' n'"
  using assms by (auto simp add: tio_ok_def qframe_def)

lemma silent_tput: "silent i 1 s (tput c i Outq s)"
  unfolding silent_def
proof (intro allI impI)
  fix Q n
  assume ok: "tio_ok s Q n"
  obtain xs n' where p: "tqs (tput c i Outq s) (upd2 i Outq xs Q) n'" "qframe i Outq s (tput c i Outq s)" "n \<le> Suc n'"
      "length xs \<le> Suc (length (Q i Outq))"
    using tput_any[OF tio_okD(1)[OF ok]] by blast
  obtain q cs where "tput c i Outq s = with_q i Outq q cs s" "cs_spl cs = cs_spl (io_cs s)"
    using p(2) by (auto simp add: qframe_def)
  then have "out_only s Q (tput c i Outq s) (upd2 i Outq xs Q)"
    by (intro out_onlyI[of _ _ i, where q = q and st = "t_state (io_tty s i)" and c = "t_col (io_tty s i)" and
          ch = "t_char (io_tty s i)"]) (simp_all add: with_q_def only_sched_refl)
  moreover have "grows i 1 n Q n' (upd2 i Outq xs Q)" using p(3,4) by (simp add: grows_def)
  ultimately show "\<exists>Q' n'. tio_ok (tput c i Outq s) Q' n' \<and> out_only s Q (tput c i Outq s) Q' \<and> grows i 1 n Q n' Q'"
    using tio_ok_qframe[OF ok p(2,1)] by blast
qed

lemma calm_tputc:
  assumes "calm i k f" "calm i k g"
  shows "calm i (Suc k) (\<lambda>s. case tputc c i Outq s of (r, s) \<Rightarrow> if r = 0 then f s else g s)"
proof (rule calmI)
  fix s Q n
  assume ok: "tio_ok s Q n"
  obtain r s1 where p: "tputc c i Outq s = (r, s1)" by fastforce
  then have "silent i 1 s s1" using silent_tput[of i s c] by (simp add: tput_def)
  from silentE[OF this ok] obtain Q1 n1 where 1: "tio_ok s1 Q1 n1" "out_only s Q s1 Q1" "grows i 1 n Q n1 Q1" .
  have "calm i k (\<lambda>s. if r = 0 then f s else g s)" using assms by (cases "r = 0") simp_all
  from calmE[OF this 1(1)] obtain s2 Q2 n2 where
    2: "(if r = 0 then f s1 else g s1) = Inr s2" "tio_ok s2 Q2 n2" "out_only s1 Q1 s2 Q2" "grows i k n1 Q1 n2 Q2" .
  have "grows i (Suc k) n Q n2 Q2" using grows_trans[OF 1(3) 2(4)] by simp
  then show "\<exists>s' Q' n'. (case tputc c i Outq s of (r, s) \<Rightarrow> if r = 0 then f s else g s) = Inr s' \<and> tio_ok s' Q' n' \<and>
      out_only s Q s' Q' \<and> grows i (Suc k) n Q n' Q'"
    using p 2(1,2) out_only_trans[OF 1(2) 2(3)] by auto
qed

text \<open>\<open>ttyoutput\<close> in every mode: at most twenty characters.\<close>

lemma silent_column: "silent j 0 s (snd (tty_column c i s))"
  by (simp add: tty_column_def Let_def silent_set_col split: nat.split)

lemma silent_delay: "silent i 1 s (tty_delay c i s)"
proof -
  obtain d t where t: "tty_column c i s = (d, t)" by fastforce
  then have "silent i 0 s t" using silent_column[of i s c i] by simp
  then show ?thesis using silent_trans[where k = 0, OF _ silent_tput] silent_mono[where k = 0 and l = 1] by (simp add: tty_delay_def t)
qed

lemma silent_tab:
  assumes "\<And>s. silent i k s (out 32 i s)"
  shows "silent i (Suc n * k) s (tty_tab out n i s)"
proof (induction n arbitrary: s)
  case 0
  show ?case using assms by simp
next
  case (Suc n)
  have "silent i (k + Suc n * k) s (tty_tab out n i (out 32 i s))" by (rule silent_trans[OF assms Suc])
  moreover have "silent i (k + Suc n * k) s (out 32 i s)" using silent_mono[OF assms] by simp
  ultimately show ?case by (simp add: Let_def)
qed

lemma silent_lower: "(\<And>s. silent i k s (out 92 i s)) \<Longrightarrow> silent i k s (snd (tty_lower out c i s))"
  by (simp add: tty_lower_def split: option.split)

lemma silent_with:
  assumes out: "\<And>c s. silent i k s (out c i s)"
  shows "silent i (9 * k + 2) s (ttyoutput_with out c i s)"
proof -
  define s1 where "s1 = s\<lparr>tk_nout := to_i32 (tk_nout s + 1)\<rparr>"
  define c1 where "c1 = c AND 0x7F"
  have q1: "silent i 0 s s1" by (simp add: s1_def silent_count(1))
  obtain d t where low: "(if tflag i LCASE s1 then tty_lower out c1 i s1 else (c1, s1)) = (d, t)" by fastforce
  then have q2: "silent i k s1 t" using silent_lower[of i k out s1 c1] out by (auto split: if_splits)
  define v where "v = (if d = 10 \<and> tflag i CRMOD t then out 13 i t else t)"
  have q3: "silent i (k + k) s1 v" using silent_trans[OF q2 out] silent_mono[OF q2] by (simp add: v_def)
  have run: "ttyoutput_with out c i s =
      (if tflag i RAW s1 then tput c i Outq s1
       else if c1 = CEOT then s1
       else if c1 = 9 \<and> t_flags (io_tty s1 i) AND TBDELAY = XTABS then tty_tab out 8 i s1
       else tty_delay d i (tput d i Outq v))"
    unfolding ttyoutput_with_def Let_def s1_def[symmetric] c1_def[symmetric] low prod.case v_def ..
  have "silent i (9 * k + 2) s1 (tput c i Outq s1)" by (rule silent_mono[OF silent_tput]) simp
  moreover have "silent i (9 * k + 2) s1 (tty_tab out 8 i s1)"
    using silent_mono[OF silent_tab[of i k out 8 s1]] out by simp
  moreover have "silent i (9 * k + 2) s1 (tty_delay d i (tput d i Outq v))"
    by (rule silent_mono[OF silent_trans[OF silent_trans[OF q3 silent_tput] silent_delay]]) simp
  ultimately have "silent i (9 * k + 2) s1 (ttyoutput_with out c i s)" unfolding run by simp
  from silent_trans[OF q1 this] show ?thesis by simp
qed

lemma silent_ttyoutput: "silent i 20 s (ttyoutput c i s)"
proof -
  have "silent i 2 s (ttyoutput_with (\<lambda>_ _ s. s) c i s)" for c s
    using silent_with[where k = 0 and out = "\<lambda>_ _ s. s" and i = i and s = s and c = c] by (simp add: numeral_2_eq_2)
  from silent_with[where k = 2 and out = "ttyoutput_with (\<lambda>_ _ s. s)", OF this] show ?thesis unfolding ttyoutput_def by simp
qed


section \<open>Flushing\<close>

definition flushed_tty :: "tty \<Rightarrow> tty \<Rightarrow> bool" where
  "flushed_tty t t' \<longleftrightarrow> (\<exists>r c o' st. t' = t\<lparr>t_rawq := r, t_canq := c, t_outq := o', t_state := st, t_delct := 0\<rparr> \<and> st = t_state t AND NOT TTSTOP)"

definition no_input :: "nat \<Rightarrow> (nat \<Rightarrow> tqueue \<Rightarrow> 8 word list) \<Rightarrow> nat \<Rightarrow> tqueue \<Rightarrow> 8 word list" where
  "no_input i Q = upd2 i Rawq [] (upd2 i Outq [] (upd2 i Canq [] Q))"

lemma drainq_step:
  assumes "tio_ok s Q n"
  shows "\<exists>n'. tio_ok (drainq i k s) (upd2 i k [] Q) n' \<and> n \<le> n' \<and> qframe i k s (drainq i k s)"
proof -
  obtain n' where d: "tqs (drainq i k s) (upd2 i k [] Q) n'" "n \<le> n'" "qframe i k s (drainq i k s)"
    using drainq_ok[OF tio_okD(1)[OF assms], of i k] by blast
  with tio_ok_qframe[OF assms d(3,1)] show ?thesis by blast
qed

lemma tqs_delct: "tqs (upd_tty i (\<lambda>t. t\<lparr>t_delct := x\<rparr>) s) Q n = tqs s Q n"
  by (rule tqs_upd_tty, rename_tac k, case_tac k, simp_all)

lemma flush_spec:
  assumes ok: "tio_ok s Q n"
  shows "\<exists>s' n'. flushtty i s = Inr s' \<and> tio_ok s' (no_input i Q) n' \<and> n \<le> n' \<and>
    flushed_tty (io_tty s i) (io_tty s' i) \<and> (\<forall>j. j \<noteq> i \<longrightarrow> io_tty s' j = io_tty s j) \<and>
    io_canonb s' = io_canonb s \<and> only_sched (io_kern s) (io_kern s') \<and>
    (\<forall>y. p_wchan (k_proc (io_kern s') y) \<notin> {Some (Ch_rawq i), Some (Ch_outq i)})"
proof -
  define s1 where "s1 = drainq i Canq s"
  obtain n1 where 1: "tio_ok s1 (upd2 i Canq [] Q) n1" "n \<le> n1" "qframe i Canq s s1"
    using drainq_step[OF ok, of i Canq] by (auto simp add: s1_def)
  obtain q1 c1 where f1: "s1 = with_q i Canq q1 c1 s" using 1(3) by (auto simp add: qframe_def)
  obtain k2 where 2: "tio_wakeup (Ch_rawq i) s1 = Inr (s1\<lparr>io_kern := k2\<rparr>)" "tio_ok (s1\<lparr>io_kern := k2\<rparr>) (upd2 i Canq [] Q) n1"
      "only_sched (io_kern s1) k2"
      "\<forall>y. p_wchan (k_proc k2 y) = (if p_wchan (k_proc (io_kern s1) y) = Some (Ch_rawq i) then None else p_wchan (k_proc (io_kern s1) y))"
    using tio_wakeup_ok[OF 1(1)] by blast
  define s2 where "s2 = s1\<lparr>io_kern := k2\<rparr>"
  obtain k3 where 3: "tio_wakeup (Ch_outq i) s2 = Inr (s2\<lparr>io_kern := k3\<rparr>)" "tio_ok (s2\<lparr>io_kern := k3\<rparr>) (upd2 i Canq [] Q) n1"
      "only_sched (io_kern s2) k3"
      "\<forall>y. p_wchan (k_proc k3 y) = (if p_wchan (k_proc (io_kern s2) y) = Some (Ch_outq i) then None else p_wchan (k_proc (io_kern s2) y))"
    using tio_wakeup_ok[OF 2(2)[folded s2_def]] by blast
  define s3 where "s3 = s2\<lparr>io_kern := k3\<rparr>"
  define s4 where "s4 = clr_tstate i TTSTOP (set_spl 6 s3)"
  have 4: "tio_ok s4 (upd2 i Canq [] Q) n1" using 3(2) by (simp add: s4_def s3_def)
  define s5 where "s5 = drainq i Outq s4"
  obtain n5 where 5: "tio_ok s5 (upd2 i Outq [] (upd2 i Canq [] Q)) n5" "n1 \<le> n5" "qframe i Outq s4 s5"
    using drainq_step[OF 4, of i Outq] by (auto simp add: s5_def)
  obtain q5 c5 where f5: "s5 = with_q i Outq q5 c5 s4" using 5(3) by (auto simp add: qframe_def)
  define s6 where "s6 = drainq i Rawq s5"
  obtain n6 where 6: "tio_ok s6 (no_input i Q) n6" "n5 \<le> n6" "qframe i Rawq s5 s6"
    using drainq_step[OF 5(1), of i Rawq] by (auto simp add: s6_def no_input_def)
  obtain q6 c6 where f6: "s6 = with_q i Rawq q6 c6 s5" using 6(3) by (auto simp add: qframe_def)
  define s7 where "s7 = set_spl (cs_spl (io_cs s3)) (upd_tty i (\<lambda>t. t\<lparr>t_delct := 0\<rparr>) s6)"
  have "tqs (upd_tty i (\<lambda>t. t\<lparr>t_delct := 0\<rparr>) s6) (no_input i Q) n6"
    using tio_okD(1)[OF 6(1)] by (simp add: tqs_delct)
  then have 7: "tio_ok s7 (no_input i Q) n6" using 6(1) by (simp add: tio_ok_def s7_def)
  have run: "flushtty i s = Inr s7"
    unfolding flushtty_def s1_def[symmetric] 2(1) sbind_simps s2_def[symmetric] 3(1) s3_def[symmetric] Let_def nulldev_stop_def
    unfolding s4_def[symmetric] s5_def[symmetric] s6_def[symmetric] s7_def ..
  have tty: "io_tty s7 i = (io_tty s i)\<lparr>t_rawq := q6, t_canq := q1, t_outq := q5, t_state := t_state (io_tty s i) AND NOT TTSTOP, t_delct := 0\<rparr>"
    by (simp add: s7_def f6 f5 s4_def s3_def s2_def f1 with_q_def)
  have oth: "j \<noteq> i \<Longrightarrow> io_tty s7 j = io_tty s j" for j
    by (simp add: s7_def f6 f5 s4_def s3_def s2_def f1 with_q_def)
  have kern: "io_kern s7 = k3" "io_kern s2 = k2" "io_kern s1 = io_kern s" "io_canonb s7 = io_canonb s"
    by (simp_all add: s7_def f6 f5 s4_def s3_def s2_def f1)
  have "only_sched (io_kern s) k3" using only_sched_trans 2(3) 3(3) by (simp add: kern)
  moreover have "\<forall>y. p_wchan (k_proc k3 y) \<notin> {Some (Ch_rawq i), Some (Ch_outq i)}"
    using 2(4) 3(4) by (simp add: kern)
  moreover have "flushed_tty (io_tty s i) (io_tty s7 i)" unfolding flushed_tty_def tty by blast
  moreover have "n \<le> n6" using 1(2) 5(2) 6(2) by simp
  ultimately show ?thesis using run 7 oth kern by blast
qed


section \<open>Signals to a process group\<close>

lemma signal_loop_spec:
  assumes "sched_wf s" "distinct ps" "\<forall>p \<in> set ps. p < NPROC" "1 \<le> sig" "sig < int NSIG"
  shows "\<exists>s'. sfor (\<lambda>p s. if p_pgrp (k_proc s p) = g then psignal p sig s else Inr s) ps s = Inr s' \<and> sched_wf s' \<and>
    same_identity s s' \<and>
    (\<forall>p. p_sig (k_proc s' p) = (if p \<in> set ps \<and> p_pgrp (k_proc s p) = g
       then p_sig (k_proc s p) OR push_bit (nat (sig - 1)) 1 else p_sig (k_proc s p)))"
  using assms
proof (induction ps arbitrary: s)
  case Nil
  then show ?case by (simp add: same_identity_def)
next
  case (Cons p ps)
  show ?case
  proof (cases "p_pgrp (k_proc s p) = g")
    case True
    obtain t where t: "psignal p sig s = Inr t" "sched_wf t" "same_identity s t"
        "p_sig (k_proc t p) = p_sig (k_proc s p) OR push_bit (nat (sig - 1)) 1"
        "\<And>x. x \<noteq> p \<Longrightarrow> p_sig (k_proc t x) = p_sig (k_proc s x)"
      using psignal_spec[OF Cons.prems(1) _ Cons.prems(4,5)] Cons.prems(3) by (metis list.set_intros(1))
    obtain s' where IH: "sfor (\<lambda>p s. if p_pgrp (k_proc s p) = g then psignal p sig s else Inr s) ps t = Inr s'" "sched_wf s'"
        "same_identity t s'"
        "\<forall>x. p_sig (k_proc s' x) = (if x \<in> set ps \<and> p_pgrp (k_proc t x) = g
          then p_sig (k_proc t x) OR push_bit (nat (sig - 1)) 1 else p_sig (k_proc t x))"
      using Cons.IH[OF t(2)] Cons.prems by auto
    have grp: "p_pgrp (k_proc t x) = p_pgrp (k_proc s x)" for x using t(3) by (simp add: same_identity_def)
    have "p_sig (k_proc s' x) = (if x \<in> set (p # ps) \<and> p_pgrp (k_proc s x) = g
          then p_sig (k_proc s x) OR push_bit (nat (sig - 1)) 1 else p_sig (k_proc s x))" for x
      using IH(4) t(4) t(5)[of x] True Cons.prems(2) by (cases "x = p") (auto simp add: grp)
    then show ?thesis
      using IH(1,2) same_identity_trans[OF t(3) IH(3)] True t(1) by auto
  next
    case False
    show ?thesis using Cons.IH[of s] Cons.prems False by auto
  qed
qed

definition signalled :: "int \<Rightarrow> int \<Rightarrow> kernel \<Rightarrow> kernel \<Rightarrow> bool" where
  "signalled g sig s s' \<longleftrightarrow> (\<forall>p. p_sig (k_proc s' p) = (if g \<noteq> 0 \<and> p < NPROC \<and> p_pgrp (k_proc s p) = g
     then p_sig (k_proc s p) OR push_bit (nat (sig - 1)) 1 else p_sig (k_proc s p)))"

lemma signal_spec:
  assumes "sched_wf s" "1 \<le> sig" "sig < int NSIG"
  shows "\<exists>s'. signal g sig s = Inr s' \<and> sched_wf s' \<and> same_identity s s' \<and> signalled g sig s s'"
proof (cases "g = 0")
  case True
  then show ?thesis using assms(1) by (simp add: signal_def same_identity_def signalled_def)
next
  case False
  from signal_loop_spec[OF assms(1) _ _ assms(2,3), of "[0 ..< NPROC]" g] False
  obtain s' where "signal g sig s = Inr s'" "sched_wf s'" "same_identity s s'"
      "\<forall>p. p_sig (k_proc s' p) = (if p \<in> set [0 ..< NPROC] \<and> p_pgrp (k_proc s p) = g
         then p_sig (k_proc s p) OR push_bit (nat (sig - 1)) 1 else p_sig (k_proc s p))"
    unfolding signal_def by auto
  then show ?thesis using False by (auto simp add: signalled_def)
qed

section \<open>Input\<close>

text \<open>What input to one terminal may change.\<close>

definition in_frame :: "nat \<Rightarrow> tio \<Rightarrow> (nat \<Rightarrow> tqueue \<Rightarrow> 8 word list) \<Rightarrow> tio \<Rightarrow> (nat \<Rightarrow> tqueue \<Rightarrow> 8 word list) \<Rightarrow> bool" where
  "in_frame i s Q s' Q' \<longleftrightarrow> io_canonb s' = io_canonb s \<and>
    (\<forall>j. j \<noteq> i \<longrightarrow> Q' j Rawq = Q j Rawq \<and> Q' j Canq = Q j Canq \<and> t_delct (io_tty s' j) = t_delct (io_tty s j) \<and>
       t_flags (io_tty s' j) = t_flags (io_tty s j)) \<and>
    (\<exists>r cq q st c ch d. io_tty s' i =
       (io_tty s i)\<lparr>t_rawq := r, t_canq := cq, t_outq := q, t_state := st, t_col := c, t_char := ch, t_delct := d\<rparr>)"

lemma in_frameI:
  assumes "io_canonb s' = io_canonb s"
    "\<And>j. j \<noteq> i \<Longrightarrow> Q' j Rawq = Q j Rawq \<and> Q' j Canq = Q j Canq \<and> t_delct (io_tty s' j) = t_delct (io_tty s j) \<and>
       t_flags (io_tty s' j) = t_flags (io_tty s j)"
    "io_tty s' i =
       (io_tty s i)\<lparr>t_rawq := r, t_canq := cq, t_outq := q, t_state := st, t_col := c, t_char := ch, t_delct := d\<rparr>"
  shows "in_frame i s Q s' Q'"
  unfolding in_frame_def using assms by blast

lemma in_frame_trans:
  assumes "in_frame i s Q t R" "in_frame i t R v W"
  shows "in_frame i s Q v W"
proof -
  obtain r cq q st c ch d where 1: "io_tty t i =
      (io_tty s i)\<lparr>t_rawq := r, t_canq := cq, t_outq := q, t_state := st, t_col := c, t_char := ch, t_delct := d\<rparr>"
    using assms(1) unfolding in_frame_def by blast
  obtain r' cq' q' st' c' ch' d' where 2: "io_tty v i =
      (io_tty t i)\<lparr>t_rawq := r', t_canq := cq', t_outq := q', t_state := st', t_col := c', t_char := ch', t_delct := d'\<rparr>"
    using assms(2) unfolding in_frame_def by blast
  have "io_tty v i =
      (io_tty s i)\<lparr>t_rawq := r', t_canq := cq', t_outq := q', t_state := st', t_col := c', t_char := ch', t_delct := d'\<rparr>"
    unfolding 2 1 by simp
  from in_frameI[OF _ _ this, of W Q] show ?thesis using assms by (simp add: in_frame_def)
qed

lemma in_frame_out:
  assumes "out_only s Q s' Q'"
  shows "in_frame i s Q s' Q'"
proof -
  obtain q st c ch where "io_tty s' i = (io_tty s i)\<lparr>t_outq := q, t_state := st, t_col := c, t_char := ch\<rparr>"
    using assms unfolding out_only_def by blast
  then have "io_tty s' i = (io_tty s i)\<lparr>t_rawq := t_rawq (io_tty s i), t_canq := t_canq (io_tty s i), t_outq := q, t_state := st,
      t_col := c, t_char := ch, t_delct := t_delct (io_tty s i)\<rparr>" by simp
  from in_frameI[OF _ _ this, of Q' Q] show ?thesis
    using assms out_only_fields[OF assms] by (simp add: out_only_def)
qed

lemma in_frame_refl [simp]: "in_frame i s Q s Q"
  by (rule in_frame_out) simp

lemma in_frame_fields:
  assumes "in_frame i s Q s' Q'"
  shows "t_flags (io_tty s' j) = t_flags (io_tty s j)" "t_erase (io_tty s' i) = t_erase (io_tty s i)"
    "t_kill (io_tty s' i) = t_kill (io_tty s i)" "t_eofc (io_tty s' i) = t_eofc (io_tty s i)"
    "t_brkc (io_tty s' i) = t_brkc (io_tty s i)" "t_intrc (io_tty s' i) = t_intrc (io_tty s i)"
    "t_quitc (io_tty s' i) = t_quitc (io_tty s i)" "t_startc (io_tty s' i) = t_startc (io_tty s i)"
    "t_stopc (io_tty s' i) = t_stopc (io_tty s i)" "t_chan (io_tty s' i) = t_chan (io_tty s i)"
    "t_pgrp (io_tty s' i) = t_pgrp (io_tty s i)"
proof -
  obtain r cq q st c ch d where t: "io_tty s' i =
      (io_tty s i)\<lparr>t_rawq := r, t_canq := cq, t_outq := q, t_state := st, t_col := c, t_char := ch, t_delct := d\<rparr>"
    using assms unfolding in_frame_def by blast
  show "t_flags (io_tty s' j) = t_flags (io_tty s j)"
    using t assms by (cases "j = i") (simp_all add: in_frame_def)
  show "t_erase (io_tty s' i) = t_erase (io_tty s i)"
    "t_kill (io_tty s' i) = t_kill (io_tty s i)" "t_eofc (io_tty s' i) = t_eofc (io_tty s i)"
    "t_brkc (io_tty s' i) = t_brkc (io_tty s i)" "t_intrc (io_tty s' i) = t_intrc (io_tty s i)"
    "t_quitc (io_tty s' i) = t_quitc (io_tty s i)" "t_startc (io_tty s' i) = t_startc (io_tty s i)"
    "t_stopc (io_tty s' i) = t_stopc (io_tty s i)" "t_chan (io_tty s' i) = t_chan (io_tty s i)"
    "t_pgrp (io_tty s' i) = t_pgrp (io_tty s i)"
    using t by simp_all
qed

lemma flush_in:
  assumes "tio_ok s Q n"
  shows "\<exists>s' n'. flushtty i s = Inr s' \<and> tio_ok s' (no_input i Q) n' \<and> grows i 0 n Q n' (no_input i Q) \<and> in_frame i s Q s' (no_input i Q) \<and>
    t_delct (io_tty s' i) = 0 \<and> only_sched (io_kern s) (io_kern s')"
proof -
  obtain s' n' where f: "flushtty i s = Inr s'" "tio_ok s' (no_input i Q) n'" "n \<le> n'"
      "flushed_tty (io_tty s i) (io_tty s' i)" "\<forall>j. j \<noteq> i \<longrightarrow> io_tty s' j = io_tty s j" "io_canonb s' = io_canonb s"
      "only_sched (io_kern s) (io_kern s')"
    using flush_spec[OF assms, of i] by blast
  obtain r c q st where t: "io_tty s' i = (io_tty s i)\<lparr>t_rawq := r, t_canq := c, t_outq := q, t_state := st, t_delct := 0\<rparr>"
    using f(4) unfolding flushed_tty_def by blast
  then have "io_tty s' i = (io_tty s i)\<lparr>t_rawq := r, t_canq := c, t_outq := q, t_state := st, t_col := t_col (io_tty s i),
      t_char := t_char (io_tty s i), t_delct := 0\<rparr>" by simp
  from in_frameI[OF _ _ this, of "no_input i Q" Q] have "in_frame i s Q s' (no_input i Q)"
    using f(5,6) by (simp add: no_input_def)
  moreover have "grows i 0 n Q n' (no_input i Q)" using f(3) by (simp add: grows_def no_input_def)
  ultimately show ?thesis using f t by auto
qed


text \<open>Storing on the raw queue.\<close>

lemma putc_result: "fst (putc c q cs) = fst (putc d q cs)"
  by (simp add: putc_def Let_def)

lemma tputc_result: "tputc c i k s = (r, s') \<Longrightarrow> fst (tputc d i k s) = r"
  using putc_result[of c "tq k (io_tty s i)" "io_cs s" d] by (auto simp add: tputc_def split: prod.splits)

lemma put_raw:
  assumes ok: "tio_ok s Q n"
  shows "(\<exists>s' n'. tputc c i Rawq s = (0, s') \<and> tio_ok s' (upd2 i Rawq (Q i Rawq @ [word_of_int c]) Q) n' \<and> n \<le> Suc n' \<and>
      in_frame i s Q s' (upd2 i Rawq (Q i Rawq @ [word_of_int c]) Q) \<and> t_delct (io_tty s' i) = t_delct (io_tty s i)) \<or>
    (n = 0 \<and> tputc c i Rawq s = (- 1, s))"
proof (cases "n = 0 \<and> tputc c i Rawq s = (- 1, s)")
  case False
  then obtain s' n' where p: "tputc c i Rawq s = (0, s')" "tqs s' (upd2 i Rawq (Q i Rawq @ [word_of_int c]) Q) n'" "n \<le> Suc n'"
      "qframe i Rawq s s'"
    using tqs_put[OF tio_okD(1)[OF ok], of c i Rawq] by blast
  obtain q cs where w: "s' = with_q i Rawq q cs s" "cs_spl cs = cs_spl (io_cs s)" using p(4) by (auto simp add: qframe_def)
  have t: "io_tty s' i = (io_tty s i)\<lparr>t_rawq := q, t_canq := t_canq (io_tty s i), t_outq := t_outq (io_tty s i),
      t_state := t_state (io_tty s i), t_col := t_col (io_tty s i), t_char := t_char (io_tty s i), t_delct := t_delct (io_tty s i)\<rparr>"
    by (simp add: w with_q_def)
  have "in_frame i s Q s' (upd2 i Rawq (Q i Rawq @ [word_of_int c]) Q)"
    by (rule in_frameI[OF _ _ t]) (simp_all add: w with_q_def)
  moreover have "t_delct (io_tty s' i) = t_delct (io_tty s i)" by (simp add: t)
  ultimately show ?thesis using p(1,3) tio_ok_qframe[OF ok p(4,2)] by blast
qed simp

text \<open>
  \<open>stored\<close>: the character \<open>c\<close> has joined the raw queue, with a delimiter if \<open>e\<close>; \<open>cut_short\<close>: there was no room for all of it.
\<close>

definition joined :: "nat \<Rightarrow> int \<Rightarrow> bool \<Rightarrow> tio \<Rightarrow> (nat \<Rightarrow> tqueue \<Rightarrow> 8 word list) \<Rightarrow> tio \<Rightarrow> (nat \<Rightarrow> tqueue \<Rightarrow> 8 word list) \<Rightarrow> bool" where
  "joined i c e s Q s' Q' \<longleftrightarrow>
    Q' i Rawq = Q i Rawq @ word_of_int c # (if e then [0xFF] else []) \<and> Q' i Canq = Q i Canq \<and>
    t_delct (io_tty s' i) = (if e then to_i8 (t_delct (io_tty s i) + 1) else t_delct (io_tty s i))"

definition cut_short :: "nat \<Rightarrow> int \<Rightarrow> tio \<Rightarrow> (nat \<Rightarrow> tqueue \<Rightarrow> 8 word list) \<Rightarrow> tio \<Rightarrow> (nat \<Rightarrow> tqueue \<Rightarrow> 8 word list) \<Rightarrow> bool" where
  "cut_short i c s Q s' Q' \<longleftrightarrow> Q' i Rawq \<in> {Q i Rawq, Q i Rawq @ [word_of_int c]} \<and> Q' i Canq = Q i Canq \<and>
    t_delct (io_tty s' i) = t_delct (io_tty s i)"

lemma joined_out: "\<lbrakk>joined i c e s Q t R; out_only t R v W\<rbrakk> \<Longrightarrow> joined i c e s Q v W"
  by (simp add: joined_def out_only_fields)

lemma cut_short_out: "\<lbrakk>cut_short i c s Q t R; out_only t R v W\<rbrakk> \<Longrightarrow> cut_short i c s Q v W"
  by (simp add: cut_short_def out_only_fields)

lemma set_delct_ok:
  assumes "tio_ok s Q n"
  shows "tio_ok (set_delct i x s) Q n" "in_frame i s Q (set_delct i x s) Q" "t_delct (io_tty (set_delct i x s) i) = to_i8 x"
proof -
  show "tio_ok (set_delct i x s) Q n" using assms by (simp add: tio_ok_def set_delct_def tqs_delct)
  have t: "io_tty (set_delct i x s) i = (io_tty s i)\<lparr>t_rawq := t_rawq (io_tty s i), t_canq := t_canq (io_tty s i),
      t_outq := t_outq (io_tty s i), t_state := t_state (io_tty s i), t_col := t_col (io_tty s i), t_char := t_char (io_tty s i),
      t_delct := to_i8 x\<rparr>"
    by (simp add: set_delct_def)
  show "in_frame i s Q (set_delct i x s) Q" by (rule in_frameI[OF _ _ t]) (simp_all add: set_delct_def)
  show "t_delct (io_tty (set_delct i x s) i) = to_i8 x" by (simp add: t)
qed

definition ends_line :: "tty \<Rightarrow> int \<Rightarrow> bool" where
  "ends_line t c \<longleftrightarrow> c = 10 \<or> c = t_eofc t \<or> c = t_brkc t"

text \<open>The two characters of a line's end.\<close>

lemma put_line_end:
  assumes ok: "tio_ok s Q n"
  shows "\<exists>s' Q' n'. (case tputc 0xFF i Rawq (tput c i Rawq s) of (r, s) \<Rightarrow>
        if r = 0 then set_delct i (t_delct (io_tty s i) + 1) s else s) = s' \<and>
      tio_ok s' Q' n' \<and> grows i 0 n Q (n' + 2) Q' \<and> in_frame i s Q s' Q' \<and>
      (joined i c True s Q s' Q' \<or> n < 2 \<and> cut_short i c s Q s' Q')"
proof (cases "n = 0 \<and> tputc c i Rawq s = (- 1, s)")
  case True
  then have "tput c i Rawq s = s" "fst (tputc 0xFF i Rawq s) = - 1" using tputc_result[of c i Rawq s "- 1" s "0xFF"] by (simp_all add: tput_def)
  moreover obtain s2 where s2: "tputc 0xFF i Rawq s = (- 1, s2)" using calculation(2) by (metis prod.collapse)
  moreover have "s2 = s" using put_raw[OF ok, of "0xFF" i] s2 by auto
  moreover have "grows i 0 n Q (n + 2) Q" by (simp add: grows_def)
  ultimately show ?thesis using ok True by (auto simp add: cut_short_def intro!: exI[of _ Q] exI[of _ n])
next
  case False
  define Q1 where "Q1 = upd2 i Rawq (Q i Rawq @ [word_of_int c]) Q"
  obtain s1 n1 where 1: "tputc c i Rawq s = (0, s1)" "tio_ok s1 Q1 n1" "n \<le> Suc n1" "in_frame i s Q s1 Q1"
      "t_delct (io_tty s1 i) = t_delct (io_tty s i)"
    using put_raw[OF ok, of c i] False unfolding Q1_def by blast
  have p1: "tput c i Rawq s = s1" by (simp add: tput_def 1(1))
  have q1: "Q1 i Rawq = Q i Rawq @ [word_of_int c]" "Q1 i Canq = Q i Canq" by (simp_all add: Q1_def)
  show ?thesis
  proof (cases "n1 = 0 \<and> tputc 0xFF i Rawq s1 = (- 1, s1)")
    case True
    moreover have "grows i 0 n Q (n1 + 2) Q1" using 1(3) by (simp add: grows_def Q1_def)
    ultimately show ?thesis using 1 p1 q1 by (auto simp add: cut_short_def intro!: exI[of _ Q1] exI[of _ n1])
  next
    case False
    define Q2 where "Q2 = upd2 i Rawq (Q1 i Rawq @ [0xFF]) Q1"
    obtain s2 n2 where 2: "tputc 0xFF i Rawq s1 = (0, s2)" "tio_ok s2 Q2 n2" "n1 \<le> Suc n2" "in_frame i s1 Q1 s2 Q2"
        "t_delct (io_tty s2 i) = t_delct (io_tty s1 i)"
      using put_raw[OF 1(2), of "0xFF" i] False unfolding Q2_def by auto
    have q2: "Q2 i Rawq = Q i Rawq @ [word_of_int c, 0xFF]" "Q2 i Canq = Q i Canq" by (simp_all add: Q2_def q1)
    note d = set_delct_ok[OF 2(2), of i "t_delct (io_tty s2 i) + 1"]
    have "in_frame i s Q (set_delct i (t_delct (io_tty s2 i) + 1) s2) Q2"
      using in_frame_trans[OF in_frame_trans[OF 1(4) 2(4)] d(2)] .
    moreover have "joined i c True s Q (set_delct i (t_delct (io_tty s2 i) + 1) s2) Q2"
      using d(3) 1(5) 2(5) by (simp add: joined_def q2)
    moreover have "grows i 0 n Q (n2 + 2) Q2" using 1(3) 2(3) by (simp add: grows_def Q1_def Q2_def)
    ultimately show ?thesis using d(1) p1 2(1) by (intro exI[of _ "set_delct i (t_delct (io_tty s2 i) + 1) s2"] exI[of _ Q2] exI[of _ n2]) simp
  qed
qed


lemma queue_spec:
  assumes ok: "tio_ok s Q n" and fl: "fl AND (RAW OR CBREAK) = 0"
  shows "\<exists>s' Q' n'. ttyinput_queue fl c i s = Inr s' \<and> tio_ok s' Q' n' \<and> grows i 0 n Q (n' + 2) Q' \<and> in_frame i s Q s' Q' \<and>
    (joined i c (ends_line (io_tty s i) c) s Q s' Q' \<or> n < 2 \<and> cut_short i c s Q s' Q')"
proof (cases "ends_line (io_tty s i) c")
  case True
  obtain s1 Q1 n1 where 1: "(case tputc 0xFF i Rawq (tput c i Rawq s) of (r, s) \<Rightarrow>
        if r = 0 then set_delct i (t_delct (io_tty s i) + 1) s else s) = s1"
      "tio_ok s1 Q1 n1" "grows i 0 n Q (n1 + 2) Q1" "in_frame i s Q s1 Q1" "joined i c True s Q s1 Q1 \<or> n < 2 \<and> cut_short i c s Q s1 Q1"
    using put_line_end[OF ok, of i c] by blast
  from calmE[OF calm_wake_reader 1(2), of i] obtain s2 Q2 n2 where
    2: "wake_reader i s1 = Inr s2" "tio_ok s2 Q2 n2" "out_only s1 Q1 s2 Q2" "grows i 0 n1 Q1 n2 Q2" .
  have "ttyinput_queue fl c i s = wake_reader i s1"
    using True fl 1(1) unfolding ttyinput_queue_def Let_def ends_line_def by auto
  then have "ttyinput_queue fl c i s = Inr s2" using 2(1) by simp
  moreover have "in_frame i s Q s2 Q2" using in_frame_trans[OF 1(4) in_frame_out[OF 2(3)]] .
  moreover have "joined i c True s Q s2 Q2 \<or> n < 2 \<and> cut_short i c s Q s2 Q2" using 1(5) joined_out[OF _ 2(3)] cut_short_out[OF _ 2(3)] by blast
  moreover have "grows i 0 n Q (n2 + 2) Q2" using grows_input[OF 1(3) 2(4)] by simp
  ultimately show ?thesis using 2(2) True by auto
next
  case False
  then have run: "ttyinput_queue fl c i s = Inr (tput c i Rawq s)"
    using fl unfolding ttyinput_queue_def Let_def ends_line_def by simp
  show ?thesis
  proof (cases "n = 0 \<and> tputc c i Rawq s = (- 1, s)")
    case True
    moreover have "grows i 0 n Q (n + 2) Q" by (simp add: grows_def)
    ultimately show ?thesis using ok run by (auto simp add: tput_def cut_short_def intro!: exI[of _ Q] exI[of _ n])
  next
    case full: False
    then obtain s1 n1 where 1: "tputc c i Rawq s = (0, s1)" "tio_ok s1 (upd2 i Rawq (Q i Rawq @ [word_of_int c]) Q) n1" "n \<le> Suc n1"
        "in_frame i s Q s1 (upd2 i Rawq (Q i Rawq @ [word_of_int c]) Q)" "t_delct (io_tty s1 i) = t_delct (io_tty s i)"
      using put_raw[OF ok, of c i] by blast
    have "joined i c False s Q s1 (upd2 i Rawq (Q i Rawq @ [word_of_int c]) Q)" using 1(5) by (simp add: joined_def)
    moreover have "grows i 0 n Q (n1 + 2) (upd2 i Rawq (Q i Rawq @ [word_of_int c]) Q)" using 1(3) by (simp add: grows_def)
    moreover have "ttyinput_queue fl c i s = Inr s1" using run 1(1) by (simp add: tput_def)
    moreover have e: "ends_line (io_tty s i) c = False" using False by simp
    ultimately show ?thesis using 1(2,4) unfolding e by blast
  qed
qed

text \<open>The characters that the echo of \<open>c\<close> can put out: one for a printable character, up to forty for the others.\<close>

definition echo_cost :: "tty \<Rightarrow> int \<Rightarrow> nat" where
  "echo_cost t c =
    (if t_flags t AND ECHO = 0 then 0
     else if 32 \<le> c \<and> c < 127 \<and> t_flags t AND LCASE = 0 \<and> c \<noteq> t_kill t then 1 else 40)"

lemma silent_plain:
  assumes "t_flags (io_tty s i) AND RAW = 0" "t_flags (io_tty s i) AND LCASE = 0" "32 \<le> c" "c < 127"
  shows "silent i 1 s (ttyoutput c i s)"
proof -
  have "c AND 0x7F = c" "partab ! nat c mod 64 = 0"
    using low_char assms(3,4) partab_printable[of "nat c"] by auto
  then have run: "ttyoutput c i s = set_col i (t_col (io_tty s i) + 1) (tput c i Outq (counted s))"
    using assms by (simp add: ttyoutput_rec[of c] ttyoutput_with_def Let_def tty_delay_def tty_column_def CEOT_def tflag_def)
  have "silent i (0 + (1 + 0)) s (ttyoutput c i s)"
    unfolding run by (rule silent_trans[OF silent_count(1) silent_trans[OF silent_tput silent_set_col]])
  then show ?thesis by simp
qed

lemma calm_echo: "calm i 40 (ttyinput_echo fl c i)"
proof -
  have 1: "calm i 20 (\<lambda>s. if c = t_kill (io_tty s i) \<and> fl AND (RAW OR CBREAK) = 0 then ttstart i (ttyoutput 10 i s) else ttstart i s)"
  proof (intro calm_if)
    show "calm i 20 (\<lambda>s. ttstart i (ttyoutput 10 i s))" using calm_next[OF silent_ttyoutput[of i _ 10] calm_ttstart] by simp
    show "calm i 20 (ttstart i)" by (rule calm_mono[OF calm_ttstart]) simp
  qed
  have 2: "calm i 20 (\<lambda>s. ttstart i (if c = t_kill (io_tty s i) \<and> fl AND (RAW OR CBREAK) = 0 then ttyoutput 10 i s else s))"
    using 1 by (simp add: if_distrib cong: if_cong)
  have 3: "calm i 40 (\<lambda>s. ttstart i (if c = t_kill (io_tty (ttyoutput c i s) i) \<and> fl AND (RAW OR CBREAK) = 0
      then ttyoutput 10 i (ttyoutput c i s) else ttyoutput c i s))"
    using calm_next[OF silent_ttyoutput[of i _ c] 2] by simp
  then show ?thesis unfolding ttyinput_echo_def Let_def by (intro calm_if calm_Inr)
qed

lemma echo_spec:
  assumes ok: "tio_ok s Q n" and ck: "cooked i s" and fl: "fl = t_flags (io_tty s i)"
  shows "\<exists>s' Q' n'. ttyinput_echo fl c i s = Inr s' \<and> tio_ok s' Q' n' \<and> out_only s Q s' Q' \<and>
    grows i (echo_cost (io_tty s i) c) n Q n' Q'"
proof -
  consider "fl AND ECHO = 0" | "fl AND ECHO \<noteq> 0" "echo_cost (io_tty s i) c = 40"
    | "fl AND ECHO \<noteq> 0" "echo_cost (io_tty s i) c = 1" "32 \<le> c" "c < 127" "fl AND LCASE = 0" "c \<noteq> t_kill (io_tty s i)"
    unfolding fl echo_cost_def by meson
  then show ?thesis
  proof cases
    case 1
    then have "ttyinput_echo fl c i s = Inr s" by (simp add: ttyinput_echo_def)
    moreover have "grows i (echo_cost (io_tty s i) c) n Q n Q" "out_only s Q s Q" by simp_all
    ultimately show ?thesis using ok by blast
  next
    case 2
    then show ?thesis using calmE[OF calm_echo[where i = i and fl = fl and c = c] ok] by metis
  next
    case 3
    have raw: "fl AND RAW = 0" using ck by (simp add: cooked_def fl bit.conj_disj_distrib or_eq_0_iff)
    have q: "silent i 1 s (ttyoutput c i s)" using silent_plain raw 3 by (simp add: fl)
    from silentE[OF q ok] obtain Q1 n1 where
      1: "tio_ok (ttyoutput c i s) Q1 n1" "out_only s Q (ttyoutput c i s) Q1" "grows i 1 n Q n1 Q1" .
    from calmE[OF calm_ttstart 1(1)] obtain s2 Q2 n2 where
      2: "ttstart i (ttyoutput c i s) = Inr s2" "tio_ok s2 Q2 n2" "out_only (ttyoutput c i s) Q1 s2 Q2" "grows i 0 n1 Q1 n2 Q2" .
    have "ttyinput_echo fl c i s = Inr s2"
      using 2(1) 3 out_only_fields(4)[OF 1(2), of i] by (simp add: ttyinput_echo_def Let_def)
    moreover have "grows i (echo_cost (io_tty s i) c) n Q n2 Q2" using grows_trans[OF 1(3) 2(4)] 3(2) by simp
    ultimately show ?thesis using 2(2) out_only_trans[OF 1(2) 2(3)] by blast
  qed
qed

definition fold_case :: "16 word \<Rightarrow> int \<Rightarrow> int" where
  "fold_case fl c = (if fl AND LCASE \<noteq> 0 \<and> 65 \<le> c \<and> c \<le> 90 then c + 32 else c)"

text \<open>More than \<open>TTYHOG\<close> characters that nobody reads are thrown away, with the new one.\<close>

definition emptied :: "nat \<Rightarrow> tio \<Rightarrow> (nat \<Rightarrow> tqueue \<Rightarrow> 8 word list) \<Rightarrow> bool" where
  "emptied i s Q \<longleftrightarrow> Q i Rawq = [] \<and> Q i Canq = [] \<and> Q i Outq = [] \<and> t_delct (io_tty s i) = 0"

definition accepted :: "nat \<Rightarrow> int \<Rightarrow> nat \<Rightarrow> tio \<Rightarrow> (nat \<Rightarrow> tqueue \<Rightarrow> 8 word list) \<Rightarrow> tio \<Rightarrow> (nat \<Rightarrow> tqueue \<Rightarrow> 8 word list) \<Rightarrow> bool" where
  "accepted i c n s Q s' Q' \<longleftrightarrow>
    (if length (Q i Rawq) > 256 then emptied i s' Q'
     else joined i c (ends_line (io_tty s i) c) s Q s' Q' \<or> n < 2 \<and> cut_short i c s Q s' Q')"

lemma store_spec:
  assumes ok: "tio_ok s Q n" and ck: "cooked i s" and fl: "fl = t_flags (io_tty s i)"
  shows "\<exists>s' Q' n'. ttyinput_store fl c i s = Inr s' \<and> tio_ok s' Q' n' \<and>
    grows i (echo_cost (io_tty s i) (fold_case fl c)) n Q (n' + 2) Q' \<and> in_frame i s Q s' Q' \<and>
    accepted i (fold_case fl c) n s Q s' Q'"
proof (cases "length (Q i Rawq) > 256")
  case True
  then have "tcc i Rawq s > TTYHOG" using tqs_count[OF tio_okD(1)[OF ok], of i Rawq] by (simp add: TTYHOG_def)
  then have "ttyinput_store fl c i s = flushtty i s" by (simp add: ttyinput_store_def)
  moreover obtain s' n' where f: "flushtty i s = Inr s'" "tio_ok s' (no_input i Q) n'" "grows i 0 n Q n' (no_input i Q)"
      "in_frame i s Q s' (no_input i Q)" "t_delct (io_tty s' i) = 0"
    using flush_in[OF ok, of i] by blast
  moreover have "accepted i (fold_case fl c) n s Q s' (no_input i Q)"
    using True f(5) by (simp add: accepted_def emptied_def no_input_def)
  moreover have "grows i (echo_cost (io_tty s i) (fold_case fl c)) n Q (n' + 2) (no_input i Q)"
    using f(3) by (auto simp add: grows_def split: if_splits intro: le_trans)
  ultimately have "ttyinput_store fl c i s = Inr s' \<and> accepted i (fold_case fl c) n s Q s' (no_input i Q) \<and>
      grows i (echo_cost (io_tty s i) (fold_case fl c)) n Q (n' + 2) (no_input i Q)" by simp
  then show ?thesis using f(2,4) by blast
next
  case False
  let ?c = "fold_case fl c"
  have cb: "fl AND (RAW OR CBREAK) = 0" using ck by (simp add: cooked_def fl)
  obtain s1 Q1 n1 where 1: "ttyinput_queue fl ?c i s = Inr s1" "tio_ok s1 Q1 n1" "grows i 0 n Q (n1 + 2) Q1" "in_frame i s Q s1 Q1"
      "joined i ?c (ends_line (io_tty s i) ?c) s Q s1 Q1 \<or> n < 2 \<and> cut_short i ?c s Q s1 Q1"
    using queue_spec[OF ok cb, of ?c i] by blast
  note f = in_frame_fields[OF 1(4)]
  have "cooked i s1" "fl = t_flags (io_tty s1 i)" using ck fl by (simp_all add: cooked_def f)
  from echo_spec[OF 1(2) this, of ?c] obtain s2 Q2 n2 where
    2: "ttyinput_echo fl ?c i s1 = Inr s2" "tio_ok s2 Q2 n2" "out_only s1 Q1 s2 Q2" "grows i (echo_cost (io_tty s1 i) ?c) n1 Q1 n2 Q2"
    by blast
  have "\<not> tcc i Rawq s > TTYHOG" using False tqs_count[OF tio_okD(1)[OF ok], of i Rawq] by (simp add: TTYHOG_def)
  then have "ttyinput_store fl c i s = Inr s2"
    using 1(1) 2(1) unfolding ttyinput_store_def Let_def fold_case_def[symmetric] by simp
  moreover have "in_frame i s Q s2 Q2" using in_frame_trans[OF 1(4) in_frame_out[OF 2(3)]] .
  moreover have "joined i ?c (ends_line (io_tty s i) ?c) s Q s2 Q2 \<or> n < 2 \<and> cut_short i ?c s Q s2 Q2"
    using 1(5) joined_out[OF _ 2(3)] cut_short_out[OF _ 2(3)] by blast
  moreover have "echo_cost (io_tty s1 i) ?c = echo_cost (io_tty s i) ?c" by (simp add: echo_cost_def f)
  then have "grows i (echo_cost (io_tty s i) ?c) n Q (n2 + 2) Q2" using grows_input[OF 1(3) 2(4)] by simp
  ultimately show ?thesis using 2(2) False unfolding accepted_def by auto
qed

lemma stop_spec:
  assumes ok: "tio_ok s Q n"
  shows "\<exists>s' Q' n'. ttyinput_stop c i s = Inr (c = t_startc (io_tty s i) \<or> c = t_stopc (io_tty s i), s') \<and> tio_ok s' Q' n' \<and>
    out_only s Q s' Q' \<and> grows i 0 n Q n' Q'"
proof -
  have clr: "calm i 0 (\<lambda>s. ttstart i (clr_tstate i TTSTOP s))" using calm_next[OF silent_tstate(2) calm_ttstart] by simp
  from calmE[OF clr ok] obtain s1 Q1 n1 where
    1: "ttstart i (clr_tstate i TTSTOP s) = Inr s1" "tio_ok s1 Q1 n1" "out_only s Q s1 Q1" "grows i 0 n Q n1 Q1" .
  from silentE[OF silent_tstate(1)[where i = i and j = i and m = TTSTOP] ok] obtain Q2 n2 where
    2: "tio_ok (set_tstate i TTSTOP s) Q2 n2" "out_only s Q (set_tstate i TTSTOP s) Q2" "grows i 0 n Q n2 Q2" .
  have "\<exists>Q' n'. tio_ok s Q' n' \<and> out_only s Q s Q' \<and> grows i 0 n Q n' Q'" using ok out_only_refl grows_refl by blast
  then show ?thesis
    unfolding ttyinput_stop_def Let_def nulldev_stop_def 1(1)
    using 1(2-4) 2 by auto
qed

text \<open>What becomes of a character, in cooked mode.\<close>

datatype fate = Consumed | Interrupt int | Store int

definition fate :: "tty \<Rightarrow> int \<Rightarrow> fate" where
  "fate t c =
    (let c = c AND 0x7F
     in if c = t_startc t \<or> c = t_stopc t then Consumed
        else if c = t_quitc t \<or> c = t_intrc t then Interrupt (if c = t_intrc t then SIGINT else SIGQUIT)
        else Store (fold_case (t_flags t) (if c = 13 \<and> t_flags t AND CRMOD \<noteq> 0 then 10 else c)))"

definition fate_done :: "nat \<Rightarrow> fate \<Rightarrow> nat \<Rightarrow> tio \<Rightarrow> (nat \<Rightarrow> tqueue \<Rightarrow> 8 word list) \<Rightarrow> tio \<Rightarrow> (nat \<Rightarrow> tqueue \<Rightarrow> 8 word list) \<Rightarrow> bool" where
  "fate_done i f n s Q s' Q' \<longleftrightarrow>
    (case f of
       Consumed \<Rightarrow> Q' i Rawq = Q i Rawq \<and> Q' i Canq = Q i Canq \<and> t_delct (io_tty s' i) = t_delct (io_tty s i)
     | Interrupt sig \<Rightarrow> emptied i s' Q' \<and>
         (t_chan (io_tty s i) = None \<longrightarrow> signalled (t_pgrp (io_tty s i)) sig (io_kern s) (io_kern s'))
     | Store c \<Rightarrow> accepted i c n s Q s' Q')"

definition fate_cost :: "tty \<Rightarrow> fate \<Rightarrow> nat" where
  "fate_cost t f = (case f of Store d \<Rightarrow> echo_cost t d | _ \<Rightarrow> 0)"

lemma ttyinput_signal_spec:
  assumes ok: "tio_ok s Q n"
  shows "\<exists>s' n'. ttyinput_signal c i s = Inr s' \<and> tio_ok s' (no_input i Q) n' \<and> grows i 0 n Q n' (no_input i Q) \<and>
    in_frame i s Q s' (no_input i Q) \<and> t_delct (io_tty s' i) = 0 \<and>
    (t_chan (io_tty s i) = None \<longrightarrow>
      signalled (t_pgrp (io_tty s i)) (if c = t_intrc (io_tty s i) then SIGINT else SIGQUIT) (io_kern s) (io_kern s'))"
proof -
  obtain s1 n1 where 1: "flushtty i s = Inr s1" "tio_ok s1 (no_input i Q) n1" "grows i 0 n Q n1 (no_input i Q)"
      "in_frame i s Q s1 (no_input i Q)" "t_delct (io_tty s1 i) = 0" "only_sched (io_kern s) (io_kern s1)"
    using flush_in[OF ok, of i] by blast
  note f = in_frame_fields[OF 1(4)]
  define sig where "sig = (if c = t_intrc (io_tty s i) then SIGINT else SIGQUIT)"
  have sg: "1 \<le> sig" "sig < int NSIG" by (simp_all add: sig_def SIGINT_def SIGQUIT_def NSIG_def)
  show ?thesis
  proof (cases "t_chan (io_tty s i) = None")
    case False
    then show ?thesis using 1 f(10) by (auto simp add: ttyinput_signal_def)
  next
    case True
    obtain k where k: "signal (t_pgrp (io_tty s i)) sig (io_kern s1) = Inr k" "sched_wf k"
        "signalled (t_pgrp (io_tty s i)) sig (io_kern s1) k"
      using signal_spec[OF tio_okD(4)[OF 1(2)] sg] by blast
    define s2 where "s2 = s1\<lparr>io_kern := k\<rparr>"
    have run: "ttyinput_signal c i s = Inr s2"
      unfolding ttyinput_signal_def 1(1) sbind_simps f tio_signal_def sig_def[symmetric]
      using True k(1) by (simp add: s2_def)
    have ok2: "tio_ok s2 (no_input i Q) n1" using 1(2) k(2) by (simp add: tio_ok_def s2_def)
    have fr: "in_frame i s Q s2 (no_input i Q)" using 1(4) by (simp add: in_frame_def s2_def)
    have sgn: "signalled (t_pgrp (io_tty s i)) sig (io_kern s) (io_kern s2)"
      using k(3) by (simp add: signalled_def s2_def only_sched_proc[OF 1(6)])
    have "t_delct (io_tty s2 i) = 0" using 1(5) by (simp add: s2_def)
    then show ?thesis using run ok2 1(3) fr sgn unfolding sig_def by blast
  qed
qed

text \<open>The part of \<open>ttyinput\<close> behind the flow control, in cooked mode.\<close>

lemma cooked_input_spec:
  assumes ok: "tio_ok s Q n" and ck: "cooked i s"
    and fl_def: "fl = t_flags (io_tty s i)" and c1_def: "c1 = c AND 0x7F"
  shows "\<exists>s' Q' n'. (case ttyinput_stop c1 i s of
        Inl msg \<Rightarrow> Inl msg
      | Inr (done, s) \<Rightarrow>
          if done then Inr s
          else if c1 = t_quitc (io_tty s i) \<or> c1 = t_intrc (io_tty s i) then ttyinput_signal c1 i s
          else ttyinput_store fl (if c1 = 13 \<and> fl AND CRMOD \<noteq> 0 then 10 else c1) i s) = Inr s' \<and>
    tio_ok s' Q' n' \<and> grows i (fate_cost (io_tty s i) (fate (io_tty s i) c)) n Q (n' + 2) Q' \<and> in_frame i s Q s' Q' \<and>
    fate_done i (fate (io_tty s i) c) n s Q s' Q'" (is "\<exists>s' Q' n'. ?run = Inr s' \<and> _")
proof -
  obtain s1 Q1 n1 where 1: "ttyinput_stop c1 i s = Inr (c1 = t_startc (io_tty s i) \<or> c1 = t_stopc (io_tty s i), s1)"
      "tio_ok s1 Q1 n1" "out_only s Q s1 Q1" "grows i 0 n Q n1 Q1"
    using stop_spec[OF ok, of c1 i] by auto
  have le: "n \<le> n1" using grows_blocks[OF 1(4)] by simp
  have two: "grows i k n1 Q1 (n2 + 2) Q2 \<Longrightarrow> grows i k n Q (n2 + 2) Q2" for k n2 Q2 using grows_trans[OF 1(4)] by fastforce
  have late: "grows i k n1 Q1 n2 Q2 \<Longrightarrow> grows i k n Q (n2 + 2) Q2" for k n2 Q2
    by (rule two) (simp add: grows_def)
  note f1 = out_only_fields[OF 1(3)]
  have first: "?run =
      (if c1 = t_startc (io_tty s i) \<or> c1 = t_stopc (io_tty s i) then Inr s1
       else if c1 = t_quitc (io_tty s i) \<or> c1 = t_intrc (io_tty s i) then ttyinput_signal c1 i s1
       else ttyinput_store fl (if c1 = 13 \<and> fl AND CRMOD \<noteq> 0 then 10 else c1) i s1)"
    by (simp add: 1(1) f1)
  consider (consumed) "c1 = t_startc (io_tty s i) \<or> c1 = t_stopc (io_tty s i)"
    | (signal) "\<not> (c1 = t_startc (io_tty s i) \<or> c1 = t_stopc (io_tty s i))" "c1 = t_quitc (io_tty s i) \<or> c1 = t_intrc (io_tty s i)"
    | (store) "\<not> (c1 = t_startc (io_tty s i) \<or> c1 = t_stopc (io_tty s i))" "\<not> (c1 = t_quitc (io_tty s i) \<or> c1 = t_intrc (io_tty s i))"
    by blast
  then show ?thesis
  proof cases
    case consumed
    then have run: "?run = Inr s1" "fate (io_tty s i) c = Consumed"
      by (simp_all only: first if_True) (simp add: fate_def c1_def Let_def)
    have "grows i 0 n1 Q1 n1 Q1" by simp
    then have "grows i (fate_cost (io_tty s i) (fate (io_tty s i) c)) n Q (n1 + 2) Q1"
      using late by (simp add: run(2) fate_cost_def)
    moreover have "fate_done i (fate (io_tty s i) c) n s Q s1 Q1" using f1 by (simp add: run(2) fate_done_def)
    ultimately show ?thesis using run(1) 1(2) in_frame_out[OF 1(3)] by blast
  next
    case signal
    then have run: "?run = ttyinput_signal c1 i s1"
        "fate (io_tty s i) c = Interrupt (if c1 = t_intrc (io_tty s i) then SIGINT else SIGQUIT)"
      by (simp_all only: first if_True if_False) (auto simp add: fate_def c1_def[symmetric] Let_def)
    obtain s2 n2 where 2: "ttyinput_signal c1 i s1 = Inr s2" "tio_ok s2 (no_input i Q1) n2" "grows i 0 n1 Q1 n2 (no_input i Q1)"
        "in_frame i s1 Q1 s2 (no_input i Q1)" "t_delct (io_tty s2 i) = 0"
        "t_chan (io_tty s1 i) = None \<longrightarrow>
          signalled (t_pgrp (io_tty s1 i)) (if c1 = t_intrc (io_tty s1 i) then SIGINT else SIGQUIT) (io_kern s1) (io_kern s2)"
      using ttyinput_signal_spec[OF 1(2), of c1 i] by (elim exE conjE) (rule that; assumption)
    have "only_sched (io_kern s) (io_kern s1)" using 1(3) by (simp add: out_only_def)
    then have sgn: "signalled g sg (io_kern s1) k \<Longrightarrow> signalled g sg (io_kern s) k" for g sg k
      by (simp add: signalled_def only_sched_proc)
    have "fate_done i (fate (io_tty s i) c) n s Q s2 (no_input i Q1)"
      using 2(5,6) sgn unfolding run(2) fate_done_def fate.case f1 by (auto simp add: no_input_def emptied_def)
    moreover have "in_frame i s Q s2 (no_input i Q1)" using in_frame_trans[OF in_frame_out[OF 1(3)] 2(4)] .
    moreover have "grows i (fate_cost (io_tty s i) (fate (io_tty s i) c)) n Q (n2 + 2) (no_input i Q1)"
      using late[OF 2(3)] by (simp add: run(2) fate_cost_def)
    ultimately show ?thesis using run(1) 2(1,2) by auto
  next
    case store
    define c2 where "c2 = (if c1 = 13 \<and> fl AND CRMOD \<noteq> 0 then 10 else c1)"
    have run: "?run = ttyinput_store fl c2 i s1" "fate (io_tty s i) c = Store (fold_case fl c2)"
      using store by (simp_all only: first c2_def if_False) (simp add: fate_def c1_def[symmetric] fl_def[symmetric] Let_def)
    have "cooked i s1" "fl = t_flags (io_tty s1 i)" using ck by (simp_all add: cooked_def fl_def f1)
    from store_spec[OF 1(2) this, of c2] obtain s2 Q2 n2 where
      2: "ttyinput_store fl c2 i s1 = Inr s2" "tio_ok s2 Q2 n2" "grows i (echo_cost (io_tty s1 i) (fold_case fl c2)) n1 Q1 (n2 + 2) Q2"
        "in_frame i s1 Q1 s2 Q2" "accepted i (fold_case fl c2) n1 s1 Q1 s2 Q2"
      by blast
    have "ends_line (io_tty s1 i) = ends_line (io_tty s i)" by (simp add: ends_line_def f1 fun_eq_iff)
    then have "accepted i (fold_case fl c2) n s Q s2 Q2"
      using 2(5) le by (auto simp add: accepted_def joined_def cut_short_def f1)
    moreover have "in_frame i s Q s2 Q2" using in_frame_trans[OF in_frame_out[OF 1(3)] 2(4)] .
    moreover have "echo_cost (io_tty s1 i) = echo_cost (io_tty s i)" by (simp add: echo_cost_def f1 fun_eq_iff)
    then have "grows i (fate_cost (io_tty s i) (fate (io_tty s i) c)) n Q (n2 + 2) Q2"
      using two[OF 2(3)] by (simp add: run(2) fate_cost_def)
    ultimately show ?thesis using run 2(1,2) by (auto simp add: fate_done_def)
  qed
qed

section \<open>Flow control with TANDEM\<close>

lemma calm_ttyblock: "calm i 1 (\<lambda>s. if b then
          (case tputc (t_stopc (io_tty s i)) i Outq s of (r, s) \<Rightarrow>
             if r = 0 then
               ttstart i (upd_tty i (\<lambda>t. t\<lparr>t_char := to_i8 (t_char t + 1)\<rparr>) (set_tstate i TBLOCK s))
             else Inr s)
        else Inr s)"
proof -
  let ?put = "\<lambda>c s. case tputc c i Outq s of (r, s) \<Rightarrow> if r = 0 then
      ttstart i (upd_tty i (\<lambda>t. t\<lparr>t_char := to_i8 (t_char t + 1)\<rparr>) (set_tstate i TBLOCK s)) else Inr s"
  have "silent i (0 + 0) s (upd_tty i (\<lambda>t. t\<lparr>t_char := to_i8 (t_char t + 1)\<rparr>) (set_tstate i TBLOCK s))" for s
    by (rule silent_trans[OF silent_tstate(1) silent_t_char])
  then have go: "calm i 0 (\<lambda>s. ttstart i (upd_tty i (\<lambda>t. t\<lparr>t_char := to_i8 (t_char t + 1)\<rparr>) (set_tstate i TBLOCK s)))"
    using calm_next[OF _ calm_ttstart, of i 0] by simp
  have "calm i 1 (?put c)" for c using calm_tputc[OF go calm_Inr] by simp
  then have put: "calm i 1 (\<lambda>s. ?put (t_stopc (io_tty s i)) s)" by (rule calm_read[where F = ?put])
  show ?thesis by (rule calm_if[OF put calm_Inr])
qed

text \<open>The input that \<open>ttyblock\<close> leaves: none if more than \<open>TTYHOG\<close> characters wait.\<close>

lemma ttyblock_spec:
  assumes ok: "tio_ok s Q n"
  shows "\<exists>s' Q' n'. ttyblock i s = Inr s' \<and> tio_ok s' Q' n' \<and> grows i 1 n Q n' Q' \<and> in_frame i s Q s' Q' \<and>
    only_sched (io_kern s) (io_kern s') \<and>
    (if length (Q i Rawq) > 256 then Q' i Rawq = [] \<and> Q' i Canq = [] \<and> t_delct (io_tty s' i) = 0
     else Q' i Rawq = Q i Rawq \<and> Q' i Canq = Q i Canq \<and> t_delct (io_tty s' i) = t_delct (io_tty s i))"
proof -
  define x where "x = tcc i Rawq s + tcc i Canq s"
  have hog: "tcc i Rawq s > TTYHOG \<longleftrightarrow> length (Q i Rawq) > 256"
    using tqs_count[OF tio_okD(1)[OF ok], of i Rawq] by (simp add: TTYHOG_def)
  have "\<exists>s1 Q1 n1. (if tcc i Rawq s > TTYHOG then sbind (flushtty i s) (\<lambda>s. Inr (clr_tstate i TBLOCK s)) else Inr s) = Inr s1 \<and>
    tio_ok s1 Q1 n1 \<and> grows i 0 n Q n1 Q1 \<and> in_frame i s Q s1 Q1 \<and> only_sched (io_kern s) (io_kern s1) \<and>
    (if length (Q i Rawq) > 256 then Q1 i Rawq = [] \<and> Q1 i Canq = [] \<and> t_delct (io_tty s1 i) = 0
     else Q1 i Rawq = Q i Rawq \<and> Q1 i Canq = Q i Canq \<and> t_delct (io_tty s1 i) = t_delct (io_tty s i))"
  proof (cases "length (Q i Rawq) > 256")
    case True
    obtain t n1 where f: "flushtty i s = Inr t" "tio_ok t (no_input i Q) n1" "grows i 0 n Q n1 (no_input i Q)"
        "in_frame i s Q t (no_input i Q)" "t_delct (io_tty t i) = 0" "only_sched (io_kern s) (io_kern t)"
      using flush_in[OF ok, of i] by blast
    from silentE[OF silent_tstate(2)[where i = i and j = i and m = TBLOCK] f(2)] obtain Q2 n2 where
      2: "tio_ok (clr_tstate i TBLOCK t) Q2 n2" "out_only t (no_input i Q) (clr_tstate i TBLOCK t) Q2" "grows i 0 n1 (no_input i Q) n2 Q2" .
    have "only_sched (io_kern t) (io_kern (clr_tstate i TBLOCK t))" using 2(2) by (simp add: out_only_def)
    moreover have "Q2 i Rawq = []" "Q2 i Canq = []" "t_delct (io_tty (clr_tstate i TBLOCK t) i) = 0"
      using out_only_fields[OF 2(2), of i] f(5) by (simp_all add: no_input_def)
    moreover have "grows i 0 n Q n2 Q2" using grows_trans[OF f(3) 2(3)] by simp
    ultimately show ?thesis
      using True hog f(1) 2(1) in_frame_trans[OF f(4) in_frame_out[OF 2(2)]] only_sched_trans[OF f(6)] by auto
  next
    case False
    have "grows i 0 n Q n Q" "in_frame i s Q s Q" "only_sched (io_kern s) (io_kern s)" by (simp_all add: only_sched_refl)
    then show ?thesis using False hog ok by (intro exI[of _ s] exI[of _ Q] exI[of _ n]) simp
  qed
  then obtain s1 Q1 n1 where
    1: "(if tcc i Rawq s > TTYHOG then sbind (flushtty i s) (\<lambda>s. Inr (clr_tstate i TBLOCK s)) else Inr s) = Inr s1"
      "tio_ok s1 Q1 n1" "grows i 0 n Q n1 Q1" "in_frame i s Q s1 Q1" "only_sched (io_kern s) (io_kern s1)"
      "if length (Q i Rawq) > 256 then Q1 i Rawq = [] \<and> Q1 i Canq = [] \<and> t_delct (io_tty s1 i) = 0
       else Q1 i Rawq = Q i Rawq \<and> Q1 i Canq = Q i Canq \<and> t_delct (io_tty s1 i) = t_delct (io_tty s i)"
    by blast
  note c = calmE[OF calm_ttyblock[where i = i and b = "x \<ge> TTYHOG div 2"] 1(2)]
  obtain s2 Q2 n2 where
    2: "ttyblock i s = Inr s2" "tio_ok s2 Q2 n2" "out_only s1 Q1 s2 Q2" "grows i 1 n1 Q1 n2 Q2"
    unfolding ttyblock_def Let_def x_def[symmetric] 1(1) sbind_simps by (rule c)
  have "only_sched (io_kern s1) (io_kern s2)" using 2(3) by (simp add: out_only_def)
  moreover have "grows i 1 n Q n2 Q2" using grows_trans[OF 1(3) 2(4)] by simp
  ultimately show ?thesis
    using 2(1,2) 1(6) out_only_fields(1,11,12)[OF 2(3), of i] in_frame_trans[OF 1(4) in_frame_out[OF 2(3)]] only_sched_trans[OF 1(5)]
    by (intro exI[of _ s2] exI[of _ Q2] exI[of _ n2]) simp
qed

text \<open>
  What becomes of a character \<open>c\<close>, in the terms of the queues before (\<open>s\<close>, \<open>Q\<close>) and after: with \<open>TANDEM\<close> an overfull input is thrown
  away first, without it together with the next character; \<open>n\<close> is the number of free blocks.
\<close>

definition key_done :: "nat \<Rightarrow> int \<Rightarrow> nat \<Rightarrow> tio \<Rightarrow> (nat \<Rightarrow> tqueue \<Rightarrow> 8 word list) \<Rightarrow> tio \<Rightarrow> (nat \<Rightarrow> tqueue \<Rightarrow> 8 word list) \<Rightarrow> bool" where
  "key_done i c n s Q s' Q' \<longleftrightarrow>
    (let t = io_tty s i; t' = io_tty s' i;
         hog = length (Q i Rawq) > 256; tandem = t_flags t AND TANDEM \<noteq> 0;
         raw = (if hog \<and> tandem then [] else Q i Rawq);
         can = (if hog \<and> tandem then [] else Q i Canq);
         delct = (if hog \<and> tandem then 0 else t_delct t);
         scarce = n < 2 + (if tandem then 1 else 0)
     in case fate t c of
          Consumed \<Rightarrow> Q' i Rawq = raw \<and> Q' i Canq = can \<and> t_delct t' = delct
        | Interrupt sig \<Rightarrow> Q' i Rawq = [] \<and> Q' i Canq = [] \<and> Q' i Outq = [] \<and> t_delct t' = 0 \<and>
            (t_chan t = None \<longrightarrow> signalled (t_pgrp t) sig (io_kern s) (io_kern s'))
        | Store d \<Rightarrow>
            if hog \<and> \<not> tandem then Q' i Rawq = [] \<and> Q' i Canq = [] \<and> Q' i Outq = [] \<and> t_delct t' = 0
            else Q' i Canq = can \<and>
              (if ends_line t d then Q' i Rawq = raw @ [word_of_int d, 0xFF] \<and> t_delct t' = to_i8 (delct + 1)
               else Q' i Rawq = raw @ [word_of_int d] \<and> t_delct t' = delct) \<or>
              scarce \<and> Q' i Canq = can \<and> Q' i Rawq \<in> {raw, raw @ [word_of_int d]} \<and> t_delct t' = delct)"

text \<open>The characters that one key can put out: its echo, and the stop character of \<open>ttyblock\<close>.\<close>

definition key_cost :: "tty \<Rightarrow> int \<Rightarrow> nat" where
  "key_cost t c = (if t_flags t AND TANDEM \<noteq> 0 then 1 else 0) + fate_cost t (fate t c)"

lemma ttyinput_spec:
  assumes ok: "tio_ok s Q n" and ck: "cooked i s"
  shows "\<exists>s' Q' n'. ttyinput c i s = Inr s' \<and> tio_ok s' Q' n' \<and> grows i (key_cost (io_tty s i) c) n Q (n' + 2) Q' \<and>
    in_frame i s Q s' Q' \<and> key_done i c n s Q s' Q'"
proof -
  define s0 where "s0 = s\<lparr>tk_nin := to_i32 (tk_nin s + 1)\<rparr>"
  define c1 where "c1 = c AND 0x7F"
  define fl where "fl = t_flags (io_tty s i)"
  define hog where "hog \<longleftrightarrow> length (Q i Rawq) > 256 \<and> fl AND TANDEM \<noteq> 0"
  define w where "w = (if fl AND TANDEM \<noteq> 0 then 1 :: nat else 0)"
  have low: "(c AND 0xFF) AND 0x7F = c1" by (simp add: c1_def and.assoc)
  have raw: "fl AND RAW = 0" using ck by (simp add: cooked_def fl_def bit.conj_disj_distrib or_eq_0_iff)
  have ok0: "tio_ok s0 Q n" "io_tty s0 = io_tty s" "io_kern s0 = io_kern s" "io_canonb s0 = io_canonb s"
    using ok by (simp_all add: s0_def tio_ok_def)
  have "\<exists>s1 Q1 n1. (if fl AND TANDEM \<noteq> 0 then ttyblock i s0 else Inr s0) = Inr s1 \<and> tio_ok s1 Q1 n1 \<and> grows i w n Q n1 Q1 \<and>
    in_frame i s0 Q s1 Q1 \<and> only_sched (io_kern s0) (io_kern s1) \<and>
    (if hog then Q1 i Rawq = [] \<and> Q1 i Canq = [] \<and> t_delct (io_tty s1 i) = 0
     else Q1 i Rawq = Q i Rawq \<and> Q1 i Canq = Q i Canq \<and> t_delct (io_tty s1 i) = t_delct (io_tty s0 i))"
  proof (cases "fl AND TANDEM = 0")
    case True
    have "grows i w n Q n Q" "in_frame i s0 Q s0 Q" "only_sched (io_kern s0) (io_kern s0)" by (simp_all add: only_sched_refl)
    then show ?thesis using True ok0(1) by (intro exI[of _ s0] exI[of _ Q] exI[of _ n]) (simp add: hog_def)
  next
    case False
    then show ?thesis using ttyblock_spec[OF ok0(1), of i] by (simp add: hog_def w_def)
  qed
  then obtain s1 Q1 n1 where
    1: "(if fl AND TANDEM \<noteq> 0 then ttyblock i s0 else Inr s0) = Inr s1" "tio_ok s1 Q1 n1" "grows i w n Q n1 Q1"
      "in_frame i s0 Q s1 Q1" "only_sched (io_kern s0) (io_kern s1)"
      "if hog then Q1 i Rawq = [] \<and> Q1 i Canq = [] \<and> t_delct (io_tty s1 i) = 0
       else Q1 i Rawq = Q i Rawq \<and> Q1 i Canq = Q i Canq \<and> t_delct (io_tty s1 i) = t_delct (io_tty s0 i)"
    by blast
  have fr: "in_frame i s Q s1 Q1" using 1(4) by (simp add: in_frame_def ok0)
  note f = in_frame_fields[OF fr]
  have same: "fate (io_tty s1 i) c = fate (io_tty s i) c" "ends_line (io_tty s1 i) = ends_line (io_tty s i)"
    "fate_cost (io_tty s1 i) = fate_cost (io_tty s i)"
    by (simp_all add: fate_def f Let_def ends_line_def fun_eq_iff fate_cost_def echo_cost_def split: fate.split)
  have ck1: "cooked i s1" using ck by (simp add: cooked_def f)
  obtain s2 Q2 n2 where 2: "(case ttyinput_stop c1 i s1 of
        Inl msg \<Rightarrow> Inl msg
      | Inr (done, s) \<Rightarrow>
          if done then Inr s
          else if c1 = t_quitc (io_tty s i) \<or> c1 = t_intrc (io_tty s i) then ttyinput_signal c1 i s
          else ttyinput_store fl (if c1 = 13 \<and> fl AND CRMOD \<noteq> 0 then 10 else c1) i s) = Inr s2"
      "tio_ok s2 Q2 n2" "grows i (fate_cost (io_tty s i) (fate (io_tty s i) c)) n1 Q1 (n2 + 2) Q2" "in_frame i s1 Q1 s2 Q2"
      "fate_done i (fate (io_tty s i) c) n1 s1 Q1 s2 Q2"
    using cooked_input_spec[OF 1(2) ck1 _ c1_def, of fl] unfolding same f fl_def[symmetric] by blast
  have run: "ttyinput c i s = Inr s2"
    unfolding ttyinput_def Let_def s0_def[symmetric] ok0(2) fl_def[symmetric] low 1(1) sbind_simps
    using raw 2(1) by simp
  have "grows i (key_cost (io_tty s i) c) n Q (n2 + 2) Q2"
    using grows_trans[OF 1(3) 2(3)] by (simp add: key_cost_def w_def fl_def)
  moreover have "in_frame i s Q s2 Q2" using in_frame_trans[OF fr 2(4)] .
  moreover have "key_done i c n s Q s2 Q2"
  proof -
    have n: "n \<le> n1 + w" using grows_blocks[OF 1(3)] .
    have sgn: "signalled g sg (io_kern s1) k \<Longrightarrow> signalled g sg (io_kern s) k" for g sg k
      using 1(5) by (simp add: signalled_def only_sched_proc ok0(3))
    have d: "if hog then Q1 i Rawq = [] \<and> Q1 i Canq = [] \<and> t_delct (io_tty s1 i) = 0
       else Q1 i Rawq = Q i Rawq \<and> Q1 i Canq = Q i Canq \<and> t_delct (io_tty s1 i) = t_delct (io_tty s i)"
      using 1(6) unfolding ok0(2) .
    show ?thesis
    proof (cases "fate (io_tty s i) c")
      case Consumed
      then show ?thesis using 2(5) d by (simp add: key_done_def fate_done_def hog_def fl_def Let_def split: if_splits)
    next
      case (Interrupt sig)
      then show ?thesis using 2(5) sgn by (simp add: key_done_def fate_done_def emptied_def f Let_def)
    next
      case (Store e)
      have a: "accepted i e n1 s1 Q1 s2 Q2" using 2(5) Store by (simp add: fate_done_def)
      show ?thesis
      proof (cases "length (Q1 i Rawq) > 256")
        case True
        then have "\<not> hog" "length (Q i Rawq) > 256" using d by (auto split: if_splits)
        then show ?thesis
          using a True Store by (simp add: key_done_def accepted_def emptied_def hog_def fl_def Let_def)
      next
        case False
        then have nh: "\<not> (length (Q i Rawq) > 256 \<and> fl AND TANDEM = 0)" using d by (auto simp add: hog_def split: if_splits)
        have j: "joined i e (ends_line (io_tty s i) e) s1 Q1 s2 Q2 \<or> n1 < 2 \<and> cut_short i e s1 Q1 s2 Q2"
          using a False by (simp add: accepted_def same)
        have "n1 < 2 \<Longrightarrow> n < 2 + w" using n by simp
        then show ?thesis
          using j d nh unfolding key_done_def Store fate.case Let_def fl_def[symmetric] hog_def[symmetric] w_def[symmetric]
          by (auto simp add: joined_def cut_short_def hog_def w_def)
      qed
    qed
  qed
  ultimately show ?thesis using run 2(2) by blast
qed

end
