(* ===== verification/Tty_Canon.thy ===== *)
theory Tty_Canon
  imports Tty_Discipline
begin

text \<open>
  \<open>canon\<close> of \<open>dev/tty.c\<close> as a line editor: \<open>edit\<close> is its loop on lists, with the buffer \<open>canonb\<close> as the line typed so far.
\<close>

section \<open>The line editor\<close>

definition last_is :: "8 word \<Rightarrow> 8 word list \<Rightarrow> bool" where
  "last_is x line \<longleftrightarrow> line \<noteq> [] \<and> last line = x"

text \<open>
  The line after one more character. \<open>esc c\<close> is what \<open>maptab\<close> has for \<open>c\<close>: a backslash quotes the erase and kill characters, and on
  upper-case terminals introduces the characters of the table; two backslashes leave one of them and the character.
\<close>

definition edit_char :: "tty \<Rightarrow> (int \<Rightarrow> int) \<Rightarrow> 8 word list \<Rightarrow> 8 word \<Rightarrow> 8 word list" where
  "edit_char t esc line w =
    (let c = uint w
     in if \<not> last_is 92 line then
          (if c = t_erase t then butlast line
           else if c = t_kill t then []
           else if c = t_eofc t then line
           else line @ [w])
        else
          let mc = (if c = t_erase t \<or> c = t_kill t then c else esc c)
          in if mc \<noteq> 0 \<and> (mc = c \<or> t_flags t AND LCASE \<noteq> 0)
             then butlast line @ [if last_is 92 (butlast line) then w else word_of_int mc]
             else line @ [w])"

text \<open>
  The line, what is left of the raw characters, and whether the delimiter was reached; a line is at most \<open>CANBSIZ - 2\<close> characters long.
\<close>

fun edit :: "tty \<Rightarrow> (int \<Rightarrow> int) \<Rightarrow> 8 word list \<Rightarrow> 8 word list \<Rightarrow> 8 word list \<times> 8 word list \<times> bool" where
  "edit t esc line [] = (line, [], False)"
| "edit t esc line (w # ws) =
    (if w = 0xFF then (line, ws, True)
     else let line' = edit_char t esc line w
          in if length line' \<ge> CANBSIZ - 2 then (line', ws, False) else edit t esc line' ws)"

section \<open>The buffer\<close>

text \<open>\<open>canonb\<close> holds \<open>line\<close> from index 2 on; the two bytes before it are no backslashes, which ends the look behind.\<close>

definition buf_holds :: "tio \<Rightarrow> nat \<Rightarrow> 8 word list \<Rightarrow> bool" where
  "buf_holds s bp line \<longleftrightarrow> bp = 2 + length line \<and> (\<forall>j < length line. io_canonb s (2 + j) = line ! j) \<and>
    io_canonb s 0 \<noteq> 92 \<and> io_canonb s 1 \<noteq> 92"

lemma buf_holds_list: "buf_holds s bp line \<Longrightarrow> map (io_canonb s) [2 ..< bp] = line"
  by (rule nth_equalityI) (simp_all add: buf_holds_def del: upt_Suc)

lemma buf_last1:
  assumes "buf_holds s bp line"
  shows "io_canonb s (bp - 1) \<noteq> 92 \<longleftrightarrow> \<not> last_is 92 line"
proof (cases "line = []")
  case True
  then have "bp - 1 = Suc 0" using assms by (simp add: buf_holds_def)
  with True assms show ?thesis by (simp add: buf_holds_def last_is_def)
next
  case False
  then have "bp - 1 = 2 + (length line - 1)" "length line - 1 < length line"
    using assms by (simp_all add: buf_holds_def Suc_leI)
  then have "io_canonb s (bp - 1) = line ! (length line - 1)" using assms unfolding buf_holds_def by metis
  then show ?thesis using False by (simp add: last_is_def last_conv_nth)
qed

lemma buf_butlast:
  assumes "buf_holds s bp line" "line \<noteq> []"
  shows "buf_holds s (bp - 1) (butlast line)"
  using assms by (auto simp add: buf_holds_def nth_butlast Suc_leI)

lemma buf_put:
  assumes "buf_holds s bp line"
  shows "buf_holds (s\<lparr>io_canonb := (io_canonb s)(bp := w)\<rparr>) (bp + 1) (line @ [w])"
  using assms by (auto simp add: buf_holds_def nth_append less_Suc_eq)

lemma buf_reset: "buf_holds s bp line \<Longrightarrow> buf_holds s 2 []"
  by (simp add: buf_holds_def)

lemma buf_cong: "io_canonb s' = io_canonb s \<Longrightarrow> buf_holds s' bp line = buf_holds s bp line"
  by (simp add: buf_holds_def)

text \<open>What \<open>canon\<close> changes while it reads.\<close>

definition canon_frame :: "nat \<Rightarrow> tio \<Rightarrow> tio \<Rightarrow> bool" where
  "canon_frame i s s' \<longleftrightarrow> io_kern s' = io_kern s \<and> io_rx s' = io_rx s \<and> io_txq s' = io_txq s \<and> io_uart s' = io_uart s \<and>
    io_past_maptab s' = io_past_maptab s \<and> tk_nin s' = tk_nin s \<and> tk_nout s' = tk_nout s \<and>
    cs_spl (io_cs s') = cs_spl (io_cs s) \<and>
    (\<forall>j. j \<noteq> i \<longrightarrow> io_tty s' j = io_tty s j) \<and>
    (\<exists>r c d. io_tty s' i = (io_tty s i)\<lparr>t_rawq := r, t_canq := c, t_delct := d\<rparr>)"

lemma canon_frameI:
  assumes "io_kern s' = io_kern s" "io_rx s' = io_rx s" "io_txq s' = io_txq s" "io_uart s' = io_uart s"
    "io_past_maptab s' = io_past_maptab s" "tk_nin s' = tk_nin s" "tk_nout s' = tk_nout s"
    "cs_spl (io_cs s') = cs_spl (io_cs s)" "\<And>j. j \<noteq> i \<Longrightarrow> io_tty s' j = io_tty s j"
    "io_tty s' i = (io_tty s i)\<lparr>t_rawq := r, t_canq := c, t_delct := d\<rparr>"
  shows "canon_frame i s s'"
  unfolding canon_frame_def using assms by blast

lemma canon_frame_trans:
  assumes "canon_frame i s t" "canon_frame i t v"
  shows "canon_frame i s v"
proof -
  obtain r c d where 1: "io_tty t i = (io_tty s i)\<lparr>t_rawq := r, t_canq := c, t_delct := d\<rparr>"
    using assms(1) unfolding canon_frame_def by blast
  obtain r' c' d' where 2: "io_tty v i = (io_tty t i)\<lparr>t_rawq := r', t_canq := c', t_delct := d'\<rparr>"
    using assms(2) unfolding canon_frame_def by blast
  have "io_tty v i = (io_tty s i)\<lparr>t_rawq := r', t_canq := c', t_delct := d'\<rparr>" unfolding 2 1 by simp
  from canon_frameI[OF _ _ _ _ _ _ _ _ _ this] show ?thesis using assms by (simp add: canon_frame_def)
qed

lemma canon_frame_q:
  assumes "qframe i k s s'" "k \<noteq> Outq"
  shows "canon_frame i s s'" "io_canonb s' = io_canonb s" "t_delct (io_tty s' i) = t_delct (io_tty s i)"
proof -
  obtain q cs where w: "s' = with_q i k q cs s" "cs_spl cs = cs_spl (io_cs s)" using assms(1) by (auto simp add: qframe_def)
  show "io_canonb s' = io_canonb s" by (simp add: w)
  show "t_delct (io_tty s' i) = t_delct (io_tty s i)" using assms(2) by (cases k) (simp_all add: w with_q_def)
  have "\<exists>r c. io_tty s' i = (io_tty s i)\<lparr>t_rawq := r, t_canq := c, t_delct := t_delct (io_tty s i)\<rparr>"
  proof (cases k)
    case Rawq
    then show ?thesis by (intro exI[of _ q] exI[of _ "t_canq (io_tty s i)"]) (simp add: w with_q_def)
  next
    case Canq
    then show ?thesis by (intro exI[of _ "t_rawq (io_tty s i)"] exI[of _ q]) (simp add: w with_q_def)
  qed (use assms(2) in simp)
  then obtain r c where "io_tty s' i = (io_tty s i)\<lparr>t_rawq := r, t_canq := c, t_delct := t_delct (io_tty s i)\<rparr>" by blast
  from canon_frameI[OF _ _ _ _ _ _ _ _ _ this] show "canon_frame i s s'" using w by (simp add: with_q_def upd_tty_def)
qed

lemma canon_frame_fields:
  assumes "canon_frame i s s'"
  shows "t_flags (io_tty s' i) = t_flags (io_tty s i)" "t_erase (io_tty s' i) = t_erase (io_tty s i)"
    "t_kill (io_tty s' i) = t_kill (io_tty s i)" "t_eofc (io_tty s' i) = t_eofc (io_tty s i)"
    "t_state (io_tty s' i) = t_state (io_tty s i)" "cooked i s' = cooked i s" "tflag i m s' = tflag i m s"
    "maptab c s' = maptab c s"
proof -
  obtain r cq d where t: "io_tty s' i = (io_tty s i)\<lparr>t_rawq := r, t_canq := cq, t_delct := d\<rparr>"
    using assms unfolding canon_frame_def by blast
  then show "t_flags (io_tty s' i) = t_flags (io_tty s i)" "t_erase (io_tty s' i) = t_erase (io_tty s i)"
    "t_kill (io_tty s' i) = t_kill (io_tty s i)" "t_eofc (io_tty s' i) = t_eofc (io_tty s i)"
    "t_state (io_tty s' i) = t_state (io_tty s i)" by simp_all
  then show "cooked i s' = cooked i s" "tflag i m s' = tflag i m s" by (simp_all add: cooked_def tflag_def)
  show "maptab c s' = maptab c s" using assms by (simp add: maptab_def canon_frame_def)
qed


section \<open>One character\<close>

text \<open>\<open>canon_char\<close> on a character that is not the delimiter is \<open>edit_char\<close> on the buffer; the loop ends when the buffer is full.\<close>

abbreviation esc_of :: "tio \<Rightarrow> int \<Rightarrow> int" where
  "esc_of s \<equiv> \<lambda>c. maptab c s"

lemma canon_put_ok:
  assumes b: "buf_holds s bp line"
  shows "\<exists>s'. canon_put c bp s = (length line + 1 \<ge> CANBSIZ - 2, 2 + length (line @ [word_of_int c]), s') \<and>
    buf_holds s' (2 + length (line @ [word_of_int c])) (line @ [word_of_int c]) \<and>
    s' = s\<lparr>io_canonb := io_canonb s'\<rparr>"
proof -
  have bp: "bp = 2 + length line" using b by (simp add: buf_holds_def)
  have "(bp + 1 \<ge> CANBSIZ) = (length line + 1 \<ge> CANBSIZ - 2)" by (auto simp add: bp CANBSIZ_def)
  then show ?thesis
    using buf_put[OF b, of "word_of_int c"] by (simp add: canon_put_def bp)
qed

lemma canon_char_ok:
  assumes ck: "cooked i s" and b: "buf_holds s bp line" and w: "w \<noteq> 0xFF" and short: "length line < CANBSIZ - 2"
  defines "line' \<equiv> edit_char (io_tty s i) (esc_of s) line w"
  shows "\<exists>s'. canon_char (uint w) i bp s = (length line' \<ge> CANBSIZ - 2, 2 + length line', s') \<and>
    buf_holds s' (2 + length line') line' \<and> s' = s\<lparr>io_canonb := io_canonb s'\<rparr>"
proof -
  let ?t = "io_tty s i"
  have bp: "bp = 2 + length line" using b by (simp add: buf_holds_def)
  have ne: "uint w \<noteq> 0xFF" 
  proof
    assume "uint w = 0xFF"
    then have "word_of_int (uint w) = (word_of_int 0xFF :: 8 word)" by simp
    then show False using w by simp
  qed
  have same: "s = s\<lparr>io_canonb := io_canonb s\<rparr>" by simp
  have bl: "(bp > 2) = (line \<noteq> [])" by (simp add: bp)
  have put: "\<exists>s'. canon_put (uint w) bp s = (length (line @ [w]) \<ge> CANBSIZ - 2, 2 + length (line @ [w]), s') \<and>
      buf_holds s' (2 + length (line @ [w])) (line @ [w]) \<and> s' = s\<lparr>io_canonb := io_canonb s'\<rparr>"
    using canon_put_ok[OF b, of "uint w"] by simp
  consider (erase) "\<not> last_is 92 line" "uint w = t_erase ?t"
    | (kill) "\<not> last_is 92 line" "uint w \<noteq> t_erase ?t" "uint w = t_kill ?t"
    | (eof) "\<not> last_is 92 line" "uint w \<noteq> t_erase ?t" "uint w \<noteq> t_kill ?t" "uint w = t_eofc ?t"
    | (plain) "\<not> last_is 92 line" "uint w \<noteq> t_erase ?t" "uint w \<noteq> t_kill ?t" "uint w \<noteq> t_eofc ?t"
    | (quoted) "last_is 92 line" by blast
  then show ?thesis
  proof cases
    case erase
    then have l: "line' = butlast line" by (simp add: line'_def edit_char_def Let_def)
    have "canon_char (uint w) i bp s = (False, if bp > 2 then bp - 1 else bp, s)"
      using erase ck ne buf_last1[OF b] by (simp add: canon_char_def Let_def)
    moreover have "(if bp > 2 then bp - 1 else bp) = 2 + length (butlast line)" by (auto simp add: bp)
    moreover have "buf_holds s (2 + length (butlast line)) (butlast line)"
      using b by (auto simp add: buf_holds_def nth_butlast)
    ultimately show ?thesis using short same by (intro exI[of _ s]) (simp add: l)
  next
    case kill
    then have l: "line' = []" by (simp add: line'_def edit_char_def Let_def)
    have "canon_char (uint w) i bp s = (False, 2, s)"
      using kill ck ne buf_last1[OF b] by (simp add: canon_char_def Let_def)
    then show ?thesis using buf_reset[OF b] by (intro exI[of _ s]) (simp add: l CANBSIZ_def)
  next
    case eof
    then have l: "line' = line" by (simp add: line'_def edit_char_def Let_def)
    have "canon_char (uint w) i bp s = (False, bp, s)"
      using eof ck ne buf_last1[OF b] by (simp add: canon_char_def Let_def)
    then show ?thesis using b short by (intro exI[of _ s]) (simp add: l bp)
  next
    case plain
    then have l: "line' = line @ [w]" by (simp add: line'_def edit_char_def Let_def)
    have "canon_char (uint w) i bp s = canon_put (uint w) bp s"
      using plain ck ne buf_last1[OF b] by (simp add: canon_char_def Let_def)
    then show ?thesis using put unfolding l by simp
  next
    case quoted
    then have nz: "line \<noteq> []" by (simp add: last_is_def)
    define mc where "mc = (if uint w = t_erase ?t \<or> uint w = t_kill ?t then uint w else maptab (uint w) s)"
    have run: "canon_char (uint w) i bp s =
        (if mc \<noteq> 0 \<and> (mc = uint w \<or> tflag i LCASE s)
         then canon_put (if io_canonb s (bp - 2) \<noteq> 92 then mc else uint w) (bp - 1) s else canon_put (uint w) bp s)"
      using quoted ck ne buf_last1[OF b] unfolding canon_char_def Let_def mc_def by simp
    have l: "line' = (if mc \<noteq> 0 \<and> (mc = uint w \<or> tflag i LCASE s)
         then butlast line @ [if last_is 92 (butlast line) then w else word_of_int mc] else line @ [w])"
      using quoted unfolding line'_def edit_char_def Let_def mc_def tflag_def by simp
    show ?thesis
    proof (cases "mc \<noteq> 0 \<and> (mc = uint w \<or> tflag i LCASE s)")
      case False
      show ?thesis unfolding run l if_not_P[OF False] by (rule put)
    next
      case True
      define d where "d = (if io_canonb s (bp - 2) \<noteq> 92 then mc else uint w)"
      have b1: "buf_holds s (bp - 1) (butlast line)" by (rule buf_butlast[OF b nz])
      have "bp - 1 - 1 = bp - 2" by simp
      then have "(word_of_int d :: 8 word) = (if last_is 92 (butlast line) then w else word_of_int mc)"
        using buf_last1[OF b1] by (simp add: d_def)
      then have l': "line' = butlast line @ [word_of_int d]" using True by (simp add: l)
      have run': "canon_char (uint w) i bp s = canon_put d (bp - 1) s" using True unfolding run d_def by simp
      obtain s' where p: "canon_put d (bp - 1) s =
            (length (butlast line) + 1 \<ge> CANBSIZ - 2, 2 + length (butlast line @ [word_of_int d]), s')"
          "buf_holds s' (2 + length (butlast line @ [word_of_int d])) (butlast line @ [word_of_int d])"
          "s' = s\<lparr>io_canonb := io_canonb s'\<rparr>"
        using canon_put_ok[OF b1, of d] by blast
      have "canon_char (uint w) i bp s = (length line' \<ge> CANBSIZ - 2, 2 + length line', s')"
        using run' p(1) unfolding l' by simp
      then show ?thesis using p(2,3) unfolding l'[symmetric] by blast
    qed
  qed
qed

section \<open>The loop\<close>

definition delct_after :: "bool \<Rightarrow> int \<Rightarrow> int" where
  "delct_after e d = (if e then to_i8 (d - 1) else d)"


lemma edit_char_cong:
  assumes "t_erase t' = t_erase t" "t_kill t' = t_kill t" "t_eofc t' = t_eofc t" "t_flags t' = t_flags t"
  shows "edit_char t' esc line w = edit_char t esc line w"
  unfolding edit_char_def assms ..

lemma edit_cong:
  assumes "t_erase t' = t_erase t" "t_kill t' = t_kill t" "t_eofc t' = t_eofc t" "t_flags t' = t_flags t"
  shows "edit t' esc line ws = edit t esc line ws"
  by (induction ws arbitrary: line) (simp_all add: Let_def edit_char_cong[OF assms])

lemma canon_frame_buf:
  assumes "s' = s\<lparr>io_canonb := b\<rparr>"
  shows "canon_frame i s s'" "t_delct (io_tty s' i) = t_delct (io_tty s i)" "tqs s' Q n = tqs s Q n"
proof -
  have t: "io_tty s' i = (io_tty s i)\<lparr>t_rawq := t_rawq (io_tty s i), t_canq := t_canq (io_tty s i), t_delct := t_delct (io_tty s i)\<rparr>"
    by (simp add: assms)
  show "canon_frame i s s'" by (rule canon_frameI[OF _ _ _ _ _ _ _ _ _ t]) (simp_all add: assms)
qed (simp_all add: assms)

lemma canon_loop_ok:
  assumes "tqs s Q n" "cooked i s" "buf_holds s bp line" "length line < CANBSIZ - 2"
    "edit (io_tty s i) (esc_of s) line (Q i Rawq) = (line', rest, e)"
  shows "\<exists>s' n'. canon_loop i bp s = (2 + length line', s') \<and> tqs s' (upd2 i Rawq rest Q) n' \<and> n \<le> n' \<and> canon_frame i s s' \<and>
    buf_holds s' (2 + length line') line' \<and> t_delct (io_tty s' i) = delct_after e (t_delct (io_tty s i))"
  using assms
proof (induction "Q i Rawq" arbitrary: s Q n bp line)
  case Nil
  have r: "line' = line" "rest = []" "\<not> e" using Nil.prems(5) Nil.hyps by simp_all
  have "canon_loop i bp s = (bp, s)" using tqs_get_empty[OF Nil.prems(1)] Nil.hyps by (simp add: canon_loop.simps)
  moreover have "bp = 2 + length line" using Nil.prems(3) by (simp add: buf_holds_def)
  moreover have "upd2 i Rawq rest Q = Q" using r Nil.hyps by (simp add: upd2_id)
  moreover have "canon_frame i s s" by (rule canon_frame_buf(1)[where b = "io_canonb s"]) simp
  ultimately show ?case using Nil.prems(1,3) r by (auto simp add: delct_after_def)
next
  case (Cons w ws)
  obtain s1 n1 where g: "tgetc i Rawq s = (uint w, s1)" "tqs s1 (upd2 i Rawq ws Q) n1" "n \<le> n1" "qframe i Rawq s s1"
    using tqs_get[OF Cons.prems(1) Cons.hyps(2)[symmetric]] by blast
  note f1 = canon_frame_q[OF g(4) tqueue.distinct(3)]
  note ff1 = canon_frame_fields[OF f1(1)]
  have b1: "buf_holds s1 bp line" and ck1: "cooked i s1" 
    using Cons.prems(2,3) by (simp_all add: buf_cong[OF f1(2)] ff1)
  have loop: "canon_loop i bp s = (case canon_char (uint w) i bp s1 of (stop, bp, s2) \<Rightarrow> if stop then (bp, s2) else canon_loop i bp s2)"
    using g(1) by (simp add: canon_loop.simps[of i bp s])
  have ed: "edit (io_tty s i) (esc_of s) line (w # ws) = (line', rest, e)" using Cons.prems(5) Cons.hyps(2) by simp
  show ?case
  proof (cases "w = 0xFF")
    case True
    then have r: "line' = line" "rest = ws" "e" using ed by simp_all
    define s2 where "s2 = set_delct i (t_delct (io_tty s1 i) - 1) s1"
    have "canon_char (uint w) i bp s1 = (True, bp, s2)" using True ck1 by (simp add: canon_char_def Let_def s2_def)
    moreover have "tqs s2 (upd2 i Rawq ws Q) n1" using g(2) by (simp add: s2_def set_delct_def tqs_delct)
    moreover have t: "io_tty s2 i = (io_tty s1 i)\<lparr>t_rawq := t_rawq (io_tty s1 i), t_canq := t_canq (io_tty s1 i),
        t_delct := to_i8 (t_delct (io_tty s1 i) - 1)\<rparr>" by (simp add: s2_def set_delct_def)
    have "canon_frame i s1 s2" by (rule canon_frameI[OF _ _ _ _ _ _ _ _ _ t]) (simp_all add: s2_def set_delct_def upd_tty_def)
    moreover have "buf_holds s2 bp line" using b1 by (subst buf_cong[of s2 s1]) (simp_all add: s2_def set_delct_def)
    moreover have "bp = 2 + length line" using b1 by (simp add: buf_holds_def)
    moreover have "t_delct (io_tty s2 i) = to_i8 (t_delct (io_tty s i) - 1)" using t f1(3) by simp
    ultimately show ?thesis
      using loop g(3) r canon_frame_trans[OF f1(1)] by (auto simp add: delct_after_def)
  next
    case False
    define line1 where "line1 = edit_char (io_tty s i) (esc_of s) line w"
    have l1: "edit_char (io_tty s1 i) (esc_of s1) line w = line1"
      by (simp only: line1_def edit_char_cong[OF ff1(2-4,1)] ff1(8))
    obtain s2 where c: "canon_char (uint w) i bp s1 = (length line1 \<ge> CANBSIZ - 2, 2 + length line1, s2)"
        "buf_holds s2 (2 + length line1) line1" "s2 = s1\<lparr>io_canonb := io_canonb s2\<rparr>"
      using canon_char_ok[OF ck1 b1 False Cons.prems(4)] unfolding l1 by blast
    note f2 = canon_frame_buf[OF c(3)] and ff2 = canon_frame_fields[OF canon_frame_buf(1)[OF c(3)]]
    have fr2: "canon_frame i s s2" using canon_frame_trans[OF f1(1) f2(1)] by simp
    have t2: "tqs s2 (upd2 i Rawq ws Q) n1" using g(2) f2(3) by simp
    have d2: "t_delct (io_tty s2 i) = t_delct (io_tty s i)" using f2(2) f1(3) by simp
    show ?thesis
    proof (cases "length line1 \<ge> CANBSIZ - 2")
      case True
      then have "line' = line1" "rest = ws" "\<not> e" using ed False by (simp_all add: Let_def line1_def[symmetric])
      then show ?thesis using loop c(1,2) True t2 g(3) fr2 d2 by (auto simp add: delct_after_def)
    next
      case short: False
      then have step: "canon_loop i bp s = canon_loop i (2 + length line1) s2" using loop c(1) by simp
      have "edit (io_tty s i) (esc_of s) line1 ws = (line', rest, e)"
        using ed False short unfolding edit.simps line1_def[symmetric] Let_def by simp
      then have "edit (io_tty s2 i) (esc_of s2) line1 ws = (line', rest, e)"
        unfolding edit_cong[OF ff2(2-4,1)] edit_cong[OF ff1(2-4,1)] ff2(8) ff1(8) .
      then have ed2: "edit (io_tty s2 i) (esc_of s2) line1 (upd2 i Rawq ws Q i Rawq) = (line', rest, e)" by simp
      have "ws = upd2 i Rawq ws Q i Rawq" "cooked i s2" "length line1 < CANBSIZ - 2" using ck1 ff2 short by simp_all
      from Cons.hyps(1)[OF this(1) t2 this(2) c(2) this(3) ed2, unfolded upd2_upd2]
      obtain s' n' where r: "canon_loop i (2 + length line1) s2 = (2 + length line', s')" "tqs s' (upd2 i Rawq rest Q) n'"
          "n1 \<le> n'" "canon_frame i s2 s'" "buf_holds s' (2 + length line') line'"
          "t_delct (io_tty s' i) = delct_after e (t_delct (io_tty s2 i))"
        by blast
      have "canon_frame i s s'" "n \<le> n'" using canon_frame_trans[OF fr2 r(4)] g(3) r(3) by simp_all
      then show ?thesis using step r(1,2,5,6) unfolding d2 by auto
    qed
  qed
qed


text \<open>The line goes to the canonical queue.\<close>

definition no_escape_below :: "tio \<Rightarrow> bool" where
  "no_escape_below s \<longleftrightarrow> io_canonb s 0 \<noteq> 92 \<and> io_canonb s 1 \<noteq> 92"

lemma canon_line_ok:
  assumes t: "tqs s Q n" and ck: "cooked i s" and nb: "no_escape_below s"
    and e: "edit (io_tty s i) (esc_of s) [] (Q i Rawq) = (line, rest, e)" and len: "length line \<le> 12 * n"
  shows "\<exists>s' n'. canon_line i s = (length line, s') \<and> tqs s' (upd2 i Canq (Q i Canq @ line) (upd2 i Rawq rest Q)) n' \<and>
    canon_frame i s s' \<and> no_escape_below s' \<and> t_delct (io_tty s' i) = delct_after e (t_delct (io_tty s i))"
proof -
  have b: "buf_holds s 2 []" using nb by (simp add: buf_holds_def no_escape_below_def)
  obtain s1 n1 where 1: "canon_loop i 2 s = (2 + length line, s1)" "tqs s1 (upd2 i Rawq rest Q) n1" "n \<le> n1"
      "canon_frame i s s1" "buf_holds s1 (2 + length line) line" "t_delct (io_tty s1 i) = delct_after e (t_delct (io_tty s i))"
    using canon_loop_ok[OF t ck b _ e] by (auto simp add: CANBSIZ_def)
  have c: "upd2 i Rawq rest Q i Canq = Q i Canq" by simp
  have "length line \<le> 12 * n1" using len 1(3) by simp
  from tqs_b_to_q[OF 1(2) this, of i Canq, unfolded c] obtain n2 where
    2: "tqs (tb_to_q line i Canq s1) (upd2 i Canq (Q i Canq @ line) (upd2 i Rawq rest Q)) n2" "qframe i Canq s1 (tb_to_q line i Canq s1)"
    by blast
  note f2 = canon_frame_q[OF 2(2) tqueue.distinct(5)]
  have "canon_line i s = (length line, tb_to_q line i Canq s1)"
    unfolding canon_line_def 1(1) prod.case buf_holds_list[OF 1(5)] by simp
  moreover have "no_escape_below (tb_to_q line i Canq s1)" using 1(5) f2(2) by (simp add: no_escape_below_def buf_holds_def)
  ultimately show ?thesis using 2(1) canon_frame_trans[OF 1(4) f2(1)] f2(3) 1(6) by auto
qed

lemma canon_spec:
  assumes t: "tqs s Q n" and ck: "cooked i s" and nb: "no_escape_below s"
    and line: "t_delct (io_tty s i) \<noteq> 0" "\<not> tstate i TBLOCK s"
    and e: "edit (io_tty s i) (esc_of s) [] (Q i Rawq) = (line, rest, e)" and len: "length line \<le> 12 * n"
  shows "\<exists>s' n'. canon i es s = Ret (int (length line)) es s' \<and>
    tqs s' (upd2 i Canq (Q i Canq @ line) (upd2 i Rawq rest Q)) n' \<and> no_escape_below s' \<and> cs_spl (io_cs s') = 0 \<and>
    canon_frame i (set_spl 0 s) s' \<and> t_delct (io_tty s' i) = delct_after e (t_delct (io_tty s i))"
proof -
  define s1 where "s1 = set_spl 0 (set_spl 5 s)"
  have s1: "s1 = set_spl 0 s" by (simp add: s1_def set_spl_def)
  have 1: "tqs s1 Q n" unfolding s1_def by (simp only: tqs_simps t)
  have "cooked i s1" "no_escape_below s1" "esc_of s1 = esc_of s" "io_tty s1 = io_tty s"
    using ck nb by (simp_all add: s1 cooked_def no_escape_below_def maptab_def set_spl_def fun_eq_iff)
  with 1 canon_line_ok[of s1 Q n i line rest e] e len obtain s' n' where
    l: "canon_line i s1 = (length line, s')" "tqs s' (upd2 i Canq (Q i Canq @ line) (upd2 i Rawq rest Q)) n'"
      "canon_frame i s1 s'" "no_escape_below s'" "t_delct (io_tty s' i) = delct_after e (t_delct (io_tty s i))"
    by auto
  have "\<not> canon_waits i (set_spl 5 s)" using ck line(1) by (simp add: canon_waits_def cooked_def)
  then have w: "canon_wait (Suc (length es)) i es (set_spl 5 s) = Ret False es (set_spl 5 s)"
    by (simp add: kif_def kret_def)
  have "\<not> tstate i TBLOCK s'" using line(2) canon_frame_fields(5)[OF l(3)] by (simp add: tstate_def s1)
  then have ub: "canon_unblock i s' = Inr s'" by (simp add: canon_unblock_def)
  have "canon i es s = Ret (int (length line)) es s'"
    unfolding canon_def kmod_run
    by (subst kbind_Ret[of _ es "set_spl 5 s" False es "set_spl 5 s"], rule w)
       (simp add: kmod_run s1_def[symmetric] kbind_def l(1) kpure_def ub kthen_def kret_def)
  moreover have "cs_spl (io_cs s') = 0" using l(3) by (simp add: canon_frame_def s1)
  ultimately show ?thesis using l unfolding s1 by blast
qed

end
