(* ===== verification/Uart_Receive.thy ===== *)
theory Uart_Receive
  imports Tty_Canon
begin

text \<open>
  The receive side, the interrupt entry and the set-up of the UART driver \<open>dev/kl.c\<close>. The data ready bit of a channel is set while
  \<open>ua_rx\<close> has a byte. The interrupt entry only moves bytes between a UART and its two rings; the poll from the clock hands
  the bytes received to the line discipline.
\<close>

section \<open>Constants and tables\<close>

definition UART_LCR_8N1 :: "8 word" where [flag_simps]: "UART_LCR_8N1 = 0x03"
definition UART_FCR_ENABLE :: "8 word" where [flag_simps]: "UART_FCR_ENABLE = 0x01"
definition UART_FCR_CLEAR_RX :: "8 word" where [flag_simps]: "UART_FCR_CLEAR_RX = 0x02"
definition UART_FCR_CLEAR_TX :: "8 word" where [flag_simps]: "UART_FCR_CLEAR_TX = 0x04"
definition UART_FCR_TRIGGER_14 :: "8 word" where [flag_simps]: "UART_FCR_TRIGGER_14 = 0xC0"
definition EPOCH68_B9600 :: int where "EPOCH68_B9600 = 13"

definition uart_channel_enabled :: "nat \<Rightarrow> bool" where
  "uart_channel_enabled ch \<longleftrightarrow> ch \<noteq> 1"

definition kl_minor_channel :: "int \<Rightarrow> nat option" where
  "kl_minor_channel dev =
    (let m = nat (minor dev) in if m \<ge> UART_CHANNELS \<or> \<not> uart_channel_enabled m then None else Some m)"

definition kl_is_ymodem :: "int \<Rightarrow> bool" where
  "kl_is_ymodem dev \<longleftrightarrow> minor dev = 1"

text \<open>The loops over the channels; a panic ends them.\<close>

primrec for_channels :: "nat list \<Rightarrow> (nat \<Rightarrow> tio \<Rightarrow> string + tio) \<Rightarrow> tio \<Rightarrow> string + tio" where
  "for_channels [] f s = Inr s"
| "for_channels (ch # chs) f s = sbind (f ch s) (for_channels chs f)"

section \<open>Receiving\<close>

definition uart_rbr :: "nat \<Rightarrow> tio \<Rightarrow> int \<times> tio" where
  "uart_rbr ch s =
    (case ua_rx (io_uart s ch) of [] \<Rightarrow> (0, s)
     | w # ws \<Rightarrow> (uint w, upd_uart ch (\<lambda>h. h\<lparr>ua_rx := ws\<rparr>) s))"

fun rx_stage :: "nat \<Rightarrow> nat \<Rightarrow> tio \<Rightarrow> tio" where
  "rx_stage 0 ch s = s"
| "rx_stage (Suc n) ch s =
    (if ua_rx (io_uart s ch) \<noteq> [] then
       (case uart_rbr ch s of (c, s) \<Rightarrow> rx_stage n ch (uart_rx_ring_put ch c s))
     else s)"

definition uart_stage_rx_channel :: "nat \<Rightarrow> tio \<Rightarrow> tio" where
  "uart_stage_rx_channel ch s =
    (let spl = cs_spl (io_cs s) in set_spl spl (rx_stage UART_RX_POLL_BUDGET ch (set_spl 6 s)))"

text \<open>\<open>while (uart_rx_ring_get(channel) >= 0);\<close>\<close>

lemma rx_get_counts: "\<lbrakk>(c, s') = uart_rx_ring_get ch s; \<not> c < 0\<rbrakk> \<Longrightarrow> ur_count (io_rx s' ch) < ur_count (io_rx s ch)"
  by (auto simp add: uart_rx_ring_get_def ring_get_def split: if_splits)

function rx_discard :: "nat \<Rightarrow> tio \<Rightarrow> tio" where
  "rx_discard ch s = (case uart_rx_ring_get ch s of (c, s') \<Rightarrow> if c < 0 then s' else rx_discard ch s')"
  by pat_completeness auto
termination
  by (relation "measure (\<lambda>(ch, s). ur_count (io_rx s ch))") (auto dest: rx_get_counts)

declare rx_discard.simps [simp del]

text \<open>The received bytes go to the line discipline, at most the budget and only while the terminal is open.\<close>

primrec rx_deliver :: "nat \<Rightarrow> nat \<Rightarrow> tio \<Rightarrow> string + tio" where
  "rx_deliver 0 ch s = Inr s"
| "rx_deliver (Suc n) ch s =
    (if tstate ch ISOPEN s then
       (case uart_rx_ring_get ch s of (c, s) \<Rightarrow>
          if c < 0 then Inr s else sbind (ttyinput c ch s) (rx_deliver n ch))
     else Inr s)"

definition poll_rx_channel :: "nat \<Rightarrow> tio \<Rightarrow> string + tio" where
  "poll_rx_channel ch s =
    (if \<not> uart_channel_enabled ch then Inr s
     else let s = uart_stage_rx_channel ch s
       in if \<not> tstate ch ISOPEN s then uart_poll_tx_channel ch (rx_discard ch s)
          else sbind (rx_deliver UART_RX_POLL_BUDGET ch s) (uart_poll_tx_channel ch))"

definition epoch68_uart_poll_rx :: "tio \<Rightarrow> string + tio" where
  "epoch68_uart_poll_rx = for_channels [0 ..< UART_CHANNELS] poll_rx_channel"

section \<open>Set-up\<close>

definition epoch68_uart_rings_reset :: "tio \<Rightarrow> tio" where
  "epoch68_uart_rings_reset s =
    (let reset = (\<lambda>rs ch. if ch < UART_CHANNELS then (rs ch)\<lparr>ur_head := 0, ur_tail := 0, ur_count := 0\<rparr> else rs ch)
     in s\<lparr>io_rx := reset (io_rx s), io_txq := reset (io_txq s)\<rparr>)"

text \<open>Writing the FIFO control register with the clear bits empties the FIFO of the receiver.\<close>

definition uart_fifo_clear :: "nat \<Rightarrow> tio \<Rightarrow> tio" where
  "uart_fifo_clear ch = upd_uart ch (\<lambda>h. h\<lparr>ua_rx := [],
     ua_fcr := UART_FCR_ENABLE OR UART_FCR_CLEAR_RX OR UART_FCR_CLEAR_TX OR UART_FCR_TRIGGER_14\<rparr>)"

definition epoch68_uart_kernel_init :: "tio \<Rightarrow> tio" where
  "epoch68_uart_kernel_init s =
    fold (\<lambda>ch s. upd_uart ch (\<lambda>h. h\<lparr>ua_ier := 0\<rparr>)
            (uart_fifo_clear ch (upd_uart ch (\<lambda>h. h\<lparr>ua_lcr := UART_LCR_8N1\<rparr>) s)))
      [0 ..< UART_CHANNELS] (epoch68_uart_rings_reset s)"

definition epoch68_uart_enable_rx_irqs :: "tio \<Rightarrow> tio" where
  "epoch68_uart_enable_rx_irqs =
    fold (\<lambda>ch s. if \<not> uart_channel_enabled ch then s
            else upd_uart ch (\<lambda>h. h\<lparr>ua_ier := UART_IER_RX\<rparr>) (uart_fifo_clear ch s))
      [0 ..< UART_CHANNELS]"

section \<open>Interrupts\<close>

definition uart_intr_stage_channel :: "nat \<Rightarrow> tio \<Rightarrow> tio" where
  "uart_intr_stage_channel ch s =
    (let spl = cs_spl (io_cs s); s = set_spl 6 s;
         s = tx_send UART_TX_POLL_BUDGET ch (uart_stage_rx_channel ch s);
         s = (if ur_count (io_txq s ch) = 0 then upd_uart ch (\<lambda>h. h\<lparr>ua_ier := ua_ier h AND NOT UART_IER_TX\<rparr>) s else s)
     in set_spl spl s)"

definition epoch68_uart_intr_shared :: "tio \<Rightarrow> tio" where
  "epoch68_uart_intr_shared =
    fold (\<lambda>ch s. if uart_channel_enabled ch then uart_intr_stage_channel ch s else s) [0 ..< UART_CHANNELS]"

end
