(* ===== verification/Process_Life.thy ===== *)
theory Process_Life
  imports File_Table
begin

text \<open>
  The life of a process: \<open>fork\<close>, \<open>exit\<close>, \<open>wait\<close> and \<open>break\<close> of \<open>sys/sys1.c\<close>, the accounting record of \<open>sys/acct.c\<close>, and the check
  for a collision of heap and stack in \<open>conf/trap0.c\<close>. The floating point registers are not part of the state.
\<close>

section \<open>Accounting\<close>

text \<open>\<open>while (t >= 8192)\<close>: the exponent and the bit that is rounded.\<close>

function compress_loop :: "int \<Rightarrow> int \<Rightarrow> int \<Rightarrow> int \<times> int \<times> int" where
  "compress_loop t e r = (if t \<ge> 8192 then compress_loop (drop_bit 3 t) (e + 1) (t AND 4) else (t, e, r))"
  by pat_completeness auto
termination by (relation "measure (\<lambda>(t, e, r). nat t)") (auto simp add: drop_bit_eq_div)

declare compress_loop.simps [simp del]

definition compress :: "int \<Rightarrow> int" where
  "compress t =
    (case compress_loop t 0 0 of (t, e, r) \<Rightarrow>
       let (t, e) = (if r \<noteq> 0 then (if t + 1 \<ge> 8192 then (drop_bit 3 (t + 1), e + 1) else (t + 1, e)) else (t, e))
       in to_u16 (push_bit 13 e + t))"

text \<open>\<open>struct acct\<close> in memory, 32 bytes: the last one is padding.\<close>

definition be_bytes :: "nat \<Rightarrow> int \<Rightarrow> 8 word list" where
  "be_bytes n v = map (\<lambda>k. be_byte (n - 1 - k) v) [0 ..< n]"

definition acct_bytes :: "kernel \<Rightarrow> 8 word list" where
  "acct_bytes s =
    (let w = u s
     in take 10 (u_comm w) @ be_bytes 2 (compress (u_utime w)) @ be_bytes 2 (compress (u_stime w)) @
        be_bytes 2 (compress (to_i32 (k_time s - u_start w))) @ be_bytes 4 (u_start w) @ be_bytes 2 (u_ruid w) @
        be_bytes 2 (u_rgid w) @ be_bytes 2 0 @ be_bytes 2 0 @ be_bytes 2 (u_ttyd w) @ [u_acflag w, 0])"

definition acct :: "(kernel, unit) kern" where
  "acct =
    kbind (kget k_acctp) (\<lambda>r.
      case r of
        None \<Rightarrow> kret ()
      | Some ip \<Rightarrow>
          kthen (plock ip)
          (kbind (kget (\<lambda>s. (i_size (ino ip s), acct_bytes s))) (\<lambda>(siz, bs).
           kthen (kmod (upd_u (\<lambda>w. w\<lparr>u_offset := siz, u_base := 0, u_count := 32, u_segflg := 1, u_error := 0,
                                    u_kbuf := (\<lambda>j. if j < 32 then bs ! j else u_kbuf w j)\<rparr>)))
           (kthen (writei ip)
           (kthen (kwhen (\<lambda>s. u_error (u s) \<noteq> 0) (kmod (upd_inode ip (\<lambda>d. d\<lparr>i_size := siz\<rparr>))))
             (prele ip))))))"

definition sysacct :: "(kernel, unit) kern" where
  "sysacct =
    kbind (kget (arg 0)) (\<lambda>fname.
    kbind ksuser (\<lambda>ok.
      if \<not> ok then kret ()
      else if fname = 0 then
        kbind (kget k_acctp) (\<lambda>r.
          case r of
            None \<Rightarrow> kret ()
          | Some ip \<Rightarrow> kthen (plock ip) (kthen (iput ip) (kmod (\<lambda>s. s\<lparr>k_acctp := None\<rparr>))))
      else
        kif (\<lambda>s. k_acctp s \<noteq> None) (kmod (set_error EBUSY))
          (kbind (namei uchar 0) (\<lambda>r.
            case r of
              None \<Rightarrow> kret ()
            | Some ip \<Rightarrow>
                kif (\<lambda>s. i_mode (ino ip s) AND IFMT \<noteq> IFREG)
                  (kthen (kmod (set_error EACCES)) (iput ip))
                  (kthen (kmod (\<lambda>s. s\<lparr>k_acctp := Some ip\<rparr>)) (prele ip))))))"

definition syslock :: "(kernel, unit) kern" where
  "syslock =
    kbind ksuser (\<lambda>ok.
      if ok then kmod (\<lambda>s. upd_proc (procp s) (\<lambda>p. p\<lparr>p_flag :=
        (if arg 0 s \<noteq> 0 then p_flag p AND NOT SULOCK OR SULOCK else p_flag p AND NOT SULOCK)\<rparr>) s)
      else kret ())"

definition profil :: "kernel \<Rightarrow> kernel" where
  "profil s =
    upd_u (\<lambda>w. w\<lparr>u_prof := \<lparr>pr_base = to_u32 (arg 0 s), pr_size = to_u32 (arg 1 s), pr_off = to_u32 (arg 2 s), pr_scale = to_u32 (arg 3 s)\<rparr>\<rparr>) s"

section \<open>Fork\<close>

definition user_procs :: "kernel \<Rightarrow> nat" where
  "user_procs s = length (filter (\<lambda>i. p_uid (k_proc s i) = u_uid (u s) \<and> p_stat (k_proc s i) \<noteq> SNULL) [0 ..< NPROC])"

definition fork :: "kernel \<Rightarrow> string + kernel" where
  "fork s =
    (case first_index NPROC (\<lambda>i. p_stat (k_proc s i) = SNULL) of
       None \<Rightarrow> Inr (set_error EAGAIN s)
     | Some p2 \<Rightarrow>
         if u_uid (u s) \<noteq> 0 \<and> (p2 = NPROC - 1 \<or> int (user_procs s) > MAXUPRC) then Inr (set_error EAGAIN s)
         else sbind (newproc (procp s) s) (\<lambda>s.
                if u_error (u s) \<noteq> 0 then Inr s else Inr (set_r1 (p_pid (k_proc s p2)) s)))"

section \<open>The heap\<close>

definition EPOCH68_HEAP_STACK_GUARD :: int where "EPOCH68_HEAP_STACK_GUARD = 4096"

definition epoch68_heap_stack_would_collide :: "int \<Rightarrow> int \<Rightarrow> bool" where
  "epoch68_heap_stack_would_collide heap_end usp =
    (if usp = 0 then False
     else if to_u32 (heap_end + EPOCH68_HEAP_STACK_GUARD) < heap_end then True
     else \<not> to_u32 (heap_end + EPOCH68_HEAP_STACK_GUARD) < usp)"

definition exec_btoc32 :: "int \<Rightarrow> int" where
  "exec_btoc32 bytes = drop_bit 6 (to_u32 (bytes + 63))"

definition clear_clicks :: "int list \<Rightarrow> kernel \<Rightarrow> kernel" where
  "clear_clicks = fold clearseg"

definition sbreak :: "kernel \<Rightarrow> kernel" where
  "sbreak s =
    (let nsiz = to_u32 (arg 0 s); usp = to_u32 (u_ar0 (u s) R6)
     in if epoch68_heap_stack_would_collide nsiz usp then set_error ENOMEM s
        else let n = exec_btoc32 nsiz
             in if n < to_i32 (u_tsize (u s)) then set_error ENOMEM s
                else let total = to_i32 (USIZE + n + u_ssize (u s));
                         (r, s) = estabur (u_tsize (u s)) n (u_ssize (u s)) (u_sep (u s)) s
                     in if r \<noteq> 0 then s
                        else let s = expand total s
                             in if u_error (u s) \<noteq> 0 then s
                                else upd_u (\<lambda>w. w\<lparr>u_dsize := n\<rparr>) (clear_clicks [to_i32 (u_dsize (u s)) .. n - 1] s))"

section \<open>Exit\<close>

text \<open>The last switch: a zombie is on no queue, so the processor goes to another process.\<close>

definition exit_swtch :: "(kernel, unit) kern" where
  "exit_swtch = (\<lambda>es s.
     case swtch_pick s of
       Inl msg \<Rightarrow> Panic msg s
     | Inr (r, s') \<Rightarrow> if r = None \<or> r = Some (procp s) then Panic ''zombie resumed'' s' else Exited s')"

definition exit_files :: "(kernel, unit) kern" where
  "exit_files =
    kthen (kfor (\<lambda>i. kbind (kget (\<lambda>s. u_ofile (u s) i)) (\<lambda>f. kthen (kmod (set_ofile i None)) (closef f))) [0 ..< NOFILE])
    (kthen (kbind (kget (\<lambda>s. u_cdir (u s))) (\<lambda>d. kthen (plock d) (iput d)))
      (kbind (kget (\<lambda>s. u_rdir (u s))) (\<lambda>r. case r of None \<Rightarrow> kret () | Some d \<Rightarrow> kthen (plock d) (iput d))))"

text \<open>The children go to process 1; stopped ones run again.\<close>

definition exit_child :: "int \<Rightarrow> nat \<Rightarrow> kernel \<Rightarrow> string + kernel" where
  "exit_child pid q s =
    (if p_ppid (k_proc s q) = pid then
       sbind (wakeup (Ch_proc 1) s) (\<lambda>s.
         let s = upd_proc q (\<lambda>p. p\<lparr>p_ppid := 1\<rparr>) s
         in if p_stat (k_proc s q) = SSTOP then setrun q s else Inr s)
     else Inr s)"

definition exit_zombie :: "int \<Rightarrow> nat \<Rightarrow> kernel \<Rightarrow> string + kernel" where
  "exit_zombie rv p s =
    (if on_queue (Suc NPROC) s (k_runq s) p then Inl ''zombie on runq''
     else case userpage_free (k_pages s) (p_addr (k_proc s p)) of
            Inl (Panicked m) \<Rightarrow> Inl m
          | Inl (Wild t) \<Rightarrow> Inl t
          | Inr pages \<Rightarrow>
              Inr (upd_proc p (\<lambda>q. q\<lparr>xp_xstat := to_i16 rv, xp_utime := to_i32 (u_cutime (u s) + u_utime (u s)),
                                     xp_stime := to_i32 (u_cstime (u s) + u_stime (u s)), p_stat := SZOMB\<rparr>) (s\<lparr>k_pages := pages\<rparr>)))"

definition exit_tell :: "nat \<Rightarrow> kernel \<Rightarrow> string + kernel" where
  "exit_tell p s =
    sbind (sfor (exit_child (p_pid (k_proc s p))) [0 ..< NPROC] s) (\<lambda>s.
      case first_index NPROC (\<lambda>q. p_ppid (k_proc s p) = p_pid (k_proc s q)) of
        None \<Rightarrow> Inr s
      | Some q \<Rightarrow> wakeup (Ch_proc q) s)"

definition exit :: "int \<Rightarrow> (kernel, unit) kern" where
  "exit rv =
    kbind (kget procp) (\<lambda>p.
    kthen (kmod (upd_proc p (\<lambda>q. q\<lparr>p_flag := p_flag q AND NOT (STRC OR SULOCK), p_clktim := 0\<rparr>)))
    (kthen (kmod (upd_u (\<lambda>w. w\<lparr>u_signal := (\<lambda>i. if i < NSIG then 1 else u_signal w i)\<rparr>)))
    (kthen exit_files
    (kthen xfree
    (kthen acct
    (kthen (kpure (exit_zombie rv p))
    (kthen (kpure (exit_tell p)) exit_swtch)))))))"

definition rexit :: "(kernel, unit) kern" where
  "rexit = kbind (kget (arg 0)) (\<lambda>rval. exit (push_bit 8 (rval AND 0xFF)))"

section \<open>Wait\<close>

definition wait_reap :: "nat \<Rightarrow> kernel \<Rightarrow> kernel" where
  "wait_reap p s =
    (let q = k_proc s p;
         s = upd_u (\<lambda>w. w\<lparr>r_val1 := p_pid q, r_val2 := xp_xstat q,
                          u_cutime := to_i32 (u_cutime w + xp_utime q), u_cstime := to_i32 (u_cstime w + xp_stime q)\<rparr>) s
     in upd_proc p (\<lambda>q. q\<lparr>p_pid := 0, p_ppid := 0, p_pgrp := 0, p_sig := 0, p_flag := 0, p_wchan := None, p_stat := SNULL\<rparr>) s)"

definition wait_stopped :: "nat \<Rightarrow> kernel \<Rightarrow> kernel" where
  "wait_stopped p s =
    (let s = upd_proc p (\<lambda>q. q\<lparr>p_flag := p_flag q OR SWTED\<rparr>) s
     in upd_u (\<lambda>w. w\<lparr>r_val1 := p_pid (k_proc s p), r_val2 := push_bit 8 (int (fsig (k_proc s p))) OR 0x7F\<rparr>) s)"

definition is_child :: "kernel \<Rightarrow> nat \<Rightarrow> bool" where
  "is_child s p \<longleftrightarrow> p_ppid (k_proc s p) = p_pid (k_proc s (procp s))"

definition reportable :: "kernel \<Rightarrow> nat \<Rightarrow> bool" where
  "reportable s p \<longleftrightarrow> is_child s p \<and>
    (p_stat (k_proc s p) = SZOMB \<or> p_stat (k_proc s p) = SSTOP \<and> p_flag (k_proc s p) AND SWTED = 0)"

text \<open>\<open>f\<close> says that a child was seen, in this turn or an earlier one.\<close>

fun wait_loop :: "nat \<Rightarrow> bool \<Rightarrow> (kernel, unit) kern" where
  "wait_loop 0 f = (\<lambda>es s. Blocked s)"
| "wait_loop (Suc k) f =
    kbind (kget (\<lambda>s. (first_index NPROC (reportable s), f \<or> (\<exists>p < NPROC. is_child s p)))) (\<lambda>(r, f).
      case r of
        Some p \<Rightarrow> kmod (\<lambda>s. if p_stat (k_proc s p) = SZOMB then wait_reap p s else wait_stopped p s)
      | None \<Rightarrow>
          if f then kthen (kbind (kget procp) (\<lambda>p. sleep (Ch_proc p) PWAIT)) (wait_loop k f)
          else kmod (set_error ECHILD))"

definition wait :: "(kernel, unit) kern" where
  "wait = (\<lambda>es s. wait_loop (Suc (length es)) False es s)"

section \<open>Accounting times\<close>

text \<open>What a reader of the accounting file makes of a compressed time: 13 bits of fraction and a base 8 exponent.\<close>

definition expand_comp :: "int \<Rightarrow> int" where
  "expand_comp c = (c mod 8192) * 8 ^ nat (c div 8192)"

lemma compress_loop_spec:
  assumes "0 \<le> t" "compress_loop t e r = (t', e', r')" "0 \<le> e"
  shows "0 \<le> t' \<and> t' < 8192 \<and> e \<le> e' \<and> t' = t div 8 ^ nat (e' - e) \<and>
    (e' = e \<longrightarrow> t' = t \<and> r' = r) \<and> (e < e' \<longrightarrow> 1024 \<le> t' \<and> (r' \<noteq> 0 \<longleftrightarrow> 4 \<le> (t div 8 ^ nat (e' - e - 1)) mod 8))"
  using assms
proof (induction t e r rule: compress_loop.induct)
  case (1 t e r)
  show ?case
  proof (cases "t \<ge> 8192")
    case False
    then show ?thesis using "1.prems" by (simp add: compress_loop.simps[of t])
  next
    case True
    have r: "compress_loop (t div 8) (e + 1) (t AND 4) = (t', e', r')"
      using "1.prems"(2) True by (simp add: compress_loop.simps[of t] drop_bit_eq_div)
    have "(t AND 4 \<noteq> 0) \<longleftrightarrow> odd (t div 4)"
      using and_exp_eq_0_iff_not_bit[of t 2] by (simp add: bit_iff_odd)
    also have "\<dots> \<longleftrightarrow> 4 \<le> t mod 8" by presburger
    finally have four: "(t AND 4 \<noteq> 0) \<longleftrightarrow> 4 \<le> t mod 8" .
    have e3: "drop_bit 3 t = t div 8" by (simp add: drop_bit_eq_div)
    have ih: "0 \<le> t' \<and> t' < 8192 \<and> e + 1 \<le> e' \<and> t' = (t div 8) div 8 ^ nat (e' - (e + 1)) \<and>
        (e' = e + 1 \<longrightarrow> t' = t div 8 \<and> r' = t AND 4) \<and>
        (e + 1 < e' \<longrightarrow> 1024 \<le> t' \<and> (r' \<noteq> 0 \<longleftrightarrow> 4 \<le> ((t div 8) div 8 ^ nat (e' - (e + 1) - 1)) mod 8))"
    proof (rule "1.IH"[OF True, unfolded e3])
      show "0 \<le> t div 8" "0 \<le> e + 1" using "1.prems"(1,3) by simp_all
    qed (rule r)
    have up: "(t div 8) div 8 ^ nat (x - 1) = t div 8 ^ nat x" if "1 \<le> x" for x
    proof -
      have "nat x = Suc (nat (x - 1))" using that by simp
      then show ?thesis by (simp add: zdiv_zmult2_eq)
    qed
    show ?thesis
    proof (cases "e' = e + 1")
      case 1: True
      then show ?thesis using ih four True by simp
    next
      case 2: False
      then have "1 \<le> e' - e" "1 \<le> e' - e - 1" using ih by linarith+
      then show ?thesis using ih 2 up[of "e' - e"] up[of "e' - e - 1"] by (auto simp add: diff_diff_eq2 algebra_simps)
    qed
  qed
qed

lemma round_half:
  fixes t :: int
  assumes "0 \<le> t" "0 < k"
  shows "4 \<le> (t div 8 ^ (k - 1)) mod 8 \<longleftrightarrow> 8 ^ k \<le> 2 * (t mod 8 ^ k)"
proof -
  define p where "p = (8 :: int) ^ (k - 1)"
  have p: "0 < p" "8 ^ k = p * 8" using assms(2) power_minus_mult[of k "8 :: int"] by (simp_all add: p_def)
  define x y where "x = (t div p) mod 8" and "y = t mod p"
  have m: "t mod (p * 8) = p * x + y" by (simp add: zmod_zmult2_eq p(1) less_imp_le x_def y_def)
  have y: "0 \<le> y" "y < p" using p(1) by (simp_all add: y_def)
  have "4 \<le> x \<longleftrightarrow> p * 8 \<le> 2 * (p * x + y)"
  proof
    assume "4 \<le> x"
    then have "p * 4 \<le> p * x" using p(1) by simp
    then show "p * 8 \<le> 2 * (p * x + y)" unfolding distrib_left using y by linarith
  next
    assume h: "p * 8 \<le> 2 * (p * x + y)"
    show "4 \<le> x"
    proof (rule ccontr)
      assume "\<not> 4 \<le> x"
      then have "p * x \<le> p * 3" using p(1) by simp
      then show False using h y unfolding distrib_left by linarith
    qed
  qed
  then show ?thesis unfolding p(2) m by (simp add: x_def p_def)
qed

lemma compress_value:
  assumes "0 \<le> t" "t < 2 ^ 31"
  shows "\<exists>e f. compress t = 8192 * e + f \<and> 0 \<le> e \<and> e \<le> 7 \<and> 0 \<le> f \<and> f < 8192 \<and>
    2048 * \<bar>f * 8 ^ nat e - t\<bar> \<le> t"
proof -
  obtain q e r where l: "compress_loop t 0 0 = (q, e, r)" by (cases "compress_loop t 0 0")
  note sp = compress_loop_spec[OF assms(1) l order_refl]
  define P where "P = (8 :: int) ^ nat e"
  have P: "0 < P" by (simp add: P_def)
  have e0: "0 \<le> e" using sp by simp
  have q: "0 \<le> q" "q < 8192" "q = t div P" using sp by (simp_all add: P_def)
  define m where "m = t mod P"
  have t: "t = q * P + m" "0 \<le> m" "m < P" using P by (simp_all add: q(3) m_def)
  show ?thesis
  proof (cases "e = 0")
    case True
    then have "compress t = t" "t < 8192" using sp l assms q by (auto simp add: compress_def to_u16_id)
    then show ?thesis using assms(1) by (intro exI[of _ 0] exI[of _ t]) simp
  next
    case False
    then have big: "1024 \<le> q" "(r \<noteq> 0) = (4 \<le> (t div 8 ^ (nat e - 1)) mod 8)"
      using sp e0 by (simp_all add: nat_diff_distrib)
    have half: "(r \<noteq> 0) = (P \<le> 2 * m)"
      unfolding big(2) P_def m_def using round_half[OF assms(1), of "nat e"] False e0 by simp
    have tq: "1024 * P \<le> t" using big(1) t(1,2) P mult_right_mono[of 1024 q P] by linarith
    have e6: "e \<le> 6"
    proof (rule ccontr)
      assume "\<not> e \<le> 6"
      then have "(8 :: int) ^ 7 \<le> P" unfolding P_def by (intro power_increasing) auto
      then show False using tq assms(2) by simp
    qed
    have u: "to_u16 (push_bit 13 e' + f) = 8192 * e' + f" if "0 \<le> e'" "e' \<le> 7" "0 \<le> f" "f < 8192" for e' f
      using that by (simp add: push_bit_eq_mult to_u16_id)
    show ?thesis
    proof (cases "r = 0")
      case True
      have "compress t = 8192 * e + q" using l True u[of e q] e0 e6 q by (simp add: compress_def)
      moreover have "2048 * \<bar>q * P - t\<bar> \<le> t" using t tq half True by simp
      ultimately show ?thesis using e0 e6 q(1,2) unfolding P_def by (intro exI[of _ e] exI[of _ q]) simp
    next
      case round: False
      have err: "2048 * \<bar>(q + 1) * P - t\<bar> \<le> t" using t tq half round by (simp add: algebra_simps)
      show ?thesis
      proof (cases "q + 1 \<ge> 8192")
        case True
        then have q': "q + 1 = 8192" using q(2) by simp
        then have "compress t = 8192 * (e + 1) + 1024" using l round u[of "e + 1" 1024] e0 e6 by (simp add: compress_def)
        moreover have "1024 * 8 ^ nat (e + 1) = (q + 1) * P" using e0 q' by (simp add: P_def nat_add_distrib)
        ultimately show ?thesis using err e0 e6 by (intro exI[of _ "e + 1"] exI[of _ 1024]) simp
      next
        case False
        then have "compress t = 8192 * e + (q + 1)" using l round u[of e "q + 1"] e0 e6 q by (simp add: compress_def)
        then show ?thesis using err e0 e6 q(1) False unfolding P_def by (intro exI[of _ e] exI[of _ "q + 1"]) simp
      qed
    qed
  qed
qed

section \<open>Clearing memory\<close>

definition zero_from :: "int \<Rightarrow> int \<Rightarrow> kernel \<Rightarrow> kernel" where
  "zero_from a b s = s\<lparr>k_mem := (k_mem s)(epoch68_user_page s :=
     (\<lambda>x. if 64 * a \<le> int x \<and> int x < 64 * b then 0 else k_mem s (epoch68_user_page s) x))\<rparr>"

lemma clearseg_click:
  assumes "0 \<le> c" "c < 4096"
  shows "clearseg c s = zero_from c (c + 1) s"
proof -
  have "to_u32 (to_u32 c * EPOCH68_CLICK_SIZE) = 64 * c" using assms by (simp add: to_u32_id EPOCH68_CLICK_SIZE_def)
  moreover have "epoch68_user_ptr (64 * c) EPOCH68_CLICK_SIZE = Some (nat (64 * c))"
    using assms user_ptr_Some[of EPOCH68_CLICK_SIZE "64 * c" "nat (64 * c)"]
    by (simp add: EPOCH68_CLICK_SIZE_def EPOCH68_USER_PAGE_SIZE_def to_u32_id)
  moreover have "epoch68_copyout_bytes (replicate 64 0) (nat (64 * c)) m =
      (\<lambda>x. if 64 * c \<le> int x \<and> int x < 64 * (c + 1) then 0 else m x)" for m
    using assms by (auto simp add: fun_eq_iff copyout_bytes_nth nat_le_iff)
  ultimately show ?thesis by (simp add: clearseg_def zero_from_def)
qed

lemma zero_from_join: "\<lbrakk>a \<le> b; b \<le> c\<rbrakk> \<Longrightarrow> zero_from b c (zero_from a b s) = zero_from a c s"
  unfolding zero_from_def epoch68_user_page_upd_mem by (auto simp add: fun_eq_iff)

lemma zero_from_nothing: "b \<le> a \<Longrightarrow> zero_from a b s = s"
proof -
  assume "b \<le> a"
  then have "(\<lambda>x. if 64 * a \<le> int x \<and> int x < 64 * b then 0 else k_mem s (epoch68_user_page s) x) = k_mem s (epoch68_user_page s)"
    by (auto simp add: fun_eq_iff)
  then show ?thesis unfolding zero_from_def by simp
qed

lemma clear_clicks_up:
  assumes "0 \<le> a" "a \<le> b" "b \<le> 4096"
  shows "clear_clicks [a .. b - 1] s = zero_from a b s"
  using assms(2,3)
proof (induction "nat (b - a)" arbitrary: b)
  case 0
  then show ?case by (simp add: clear_clicks_def zero_from_nothing)
next
  case (Suc n)
  then have ab: "a \<le> b - 1" by linarith
  have "[a .. b - 1] = [a .. b - 1 - 1] @ [b - 1]" using ab upto_rec2[of a "b - 1"] by simp
  then have "clear_clicks [a .. b - 1] s = clearseg (b - 1) (clear_clicks [a .. b - 1 - 1] s)" by (simp add: clear_clicks_def)
  also have "\<dots> = zero_from (b - 1) b (zero_from a (b - 1) s)"
    using Suc.hyps(1)[of "b - 1"] Suc.hyps(2) Suc.prems ab assms(1) clearseg_click[of "b - 1"] by simp
  also have "\<dots> = zero_from a b s" using ab by (intro zero_from_join) simp_all
  finally show ?case .
qed


lemma zero_from_fields [simp]:
  "u (zero_from a b s) = u s" "k_proc (zero_from a b s) = k_proc s" "epoch68_user_page (zero_from a b s) = epoch68_user_page s"
  by (simp_all add: zero_from_def)

section \<open>Properties\<close>

text \<open>
  Every 32-bit time is kept in an accounting record with 13 bits of precision: the exponent fits its three bits, times below 8192
  are exact, and the value read back differs by at most one part in 2048.\<close>

theorem compress_accurate:
  assumes "0 \<le> t" "t < 2 ^ 31"
  shows "0 \<le> compress t \<and> compress t < 65536 \<and> 2048 * \<bar>expand_comp (compress t) - t\<bar> \<le> t \<and>
    (t < 8192 \<longrightarrow> expand_comp (compress t) = t)"
proof -
  obtain e f where c: "compress t = 8192 * e + f" "0 \<le> e" "e \<le> 7" "0 \<le> f" "f < 8192" "2048 * \<bar>f * 8 ^ nat e - t\<bar> \<le> t"
    using compress_value[OF assms] by blast
  have x: "expand_comp (compress t) = f * 8 ^ nat e" using c by (simp add: expand_comp_def)
  have "compress t = t" if "t < 8192"
    using that assms by (simp add: compress_def compress_loop.simps to_u16_id)
  then have "expand_comp (compress t) = t" if "t < 8192" using that assms(1) by (simp add: expand_comp_def)
  then show ?thesis using c unfolding x by auto
qed

text \<open>
  Claim C23. \<open>break\<close> either fails with \<open>ENOMEM\<close>, leaving sizes and memory as they were, or sets the break: the new data size is the
  request rounded up to clicks and lies between the text and the stack, more than the guard below the stack pointer; the clicks that were
  added are zero and no other byte has changed. When a request must succeed is not part of the statement.\<close>

theorem sbreak_sets:
  assumes err: "u_error (u s) = 0" and sz: "0 \<le> u_tsize (u s)" "u_tsize (u s) < 2 ^ 31" "0 \<le> u_ssize (u s)" "u_ssize (u s) \<le> 4096"
      "0 \<le> u_dsize (u s)" "u_dsize (u s) \<le> 4096"
    and sp: "to_u32 (u_ar0 (u s) R6) \<noteq> 0" and n: "n = (to_u32 (arg 0 s) + 63) div 64"
  shows "if u_error (u (sbreak s)) \<noteq> 0 then sbreak s = set_error ENOMEM s
    else u_dsize (u (sbreak s)) = n \<and> u_tsize (u s) \<le> n \<and> n + u_ssize (u s) \<le> 4096 \<and>
      to_u32 (arg 0 s) + 4096 < to_u32 (u_ar0 (u s) R6) \<and>
      p_size (k_proc (sbreak s) (procp s)) = USIZE + n + u_ssize (u s) \<and>
      k_mem (sbreak s) = k_mem (zero_from (u_dsize (u s)) n s)"
proof -
  define nsiz where "nsiz = to_u32 (arg 0 s)"
  define usp where "usp = to_u32 (u_ar0 (u s) R6)"
  have rn: "0 \<le> nsiz" "nsiz < 4294967296" "usp < 4294967296" "usp \<noteq> 0"
    using sp by (simp_all add: nsiz_def usp_def to_u32_range)
  show ?thesis
  proof (cases "epoch68_heap_stack_would_collide nsiz usp")
    case True
    then have "sbreak s = set_error ENOMEM s" by (simp add: sbreak_def nsiz_def usp_def)
    then show ?thesis by (simp add: ENOMEM_def)
  next
    case False
    have "\<not> 4294967296 \<le> nsiz + 4096"
    proof
      assume "4294967296 \<le> nsiz + 4096"
      then have "to_u32 (nsiz + 4096) = nsiz + 4096 - 4294967296"
        using rn(2) unfolding to_u32_def take_bit_eq_mod by (intro int_mod_pos_eq[where q = 1]) auto
      then show False using False rn by (simp add: epoch68_heap_stack_would_collide_def EPOCH68_HEAP_STACK_GUARD_def)
    qed
    then have gap: "nsiz + 4096 < usp" and n': "exec_btoc32 nsiz = n" and n0: "0 \<le> n"
      using False rn n
      by (simp_all add: epoch68_heap_stack_would_collide_def EPOCH68_HEAP_STACK_GUARD_def exec_btoc32_def to_u32_id
          drop_bit_eq_div flip: nsiz_def)
    have n31: "n < 2 ^ 31" using n rn(2) by (simp add: nsiz_def[symmetric])
    define bad where "bad \<longleftrightarrow> n < u_tsize (u s) \<or> u_sep (u s) \<noteq> 0 \<or> \<not> n + u_ssize (u s) \<le> 4096"
    define t where "t = upd_proc (procp s) (\<lambda>p. p\<lparr>p_size := USIZE + n + u_ssize (u s)\<rparr>) s"
    have run: "sbreak s = (if bad then set_error ENOMEM s
        else upd_u (\<lambda>w. w\<lparr>u_dsize := n\<rparr>) (clear_clicks [u_dsize (u s) .. n - 1] t))"
    proof (cases "n < u_tsize (u s)")
      case True
      then show ?thesis
        using False n' sz by (simp add: sbreak_def bad_def to_i32_id Let_def flip: nsiz_def usp_def)
    next
      case ge: False
      have es: "estabur (u_tsize (u s)) n (u_ssize (u s)) (u_sep (u s)) s = (if bad then (- 1, set_error ENOMEM s) else (0, s))"
        using sz n0 n31 ge by (auto simp add: estabur_def bad_def to_u32_id EPOCH68_USER_CLICKS_def Let_def)
      have ex: "expand (to_i32 (USIZE + n + u_ssize (u s))) s = t" if "\<not> bad"
        using that sz n0 by (simp add: expand_def bad_def USIZE_def to_i32_id to_i16_id push_bit_eq_mult t_def)
      show ?thesis
        using False n' ge sz es ex err
        by (simp add: sbreak_def to_i32_id Let_def t_def flip: nsiz_def usp_def)
    qed
    show ?thesis
    proof (cases bad)
      case True
      then show ?thesis using run by (simp add: ENOMEM_def)
    next
      case ok: False
      have b: "0 \<le> u_dsize (u s)" "n \<le> 4096" using sz ok by (simp_all add: bad_def)
      have "clear_clicks [u_dsize (u s) .. n - 1] t = zero_from (u_dsize (u s)) n t"
        using clear_clicks_up[OF b(1) _ b(2)] zero_from_nothing[of n "u_dsize (u s)"]
        by (cases "u_dsize (u s) \<le> n") (simp_all add: clear_clicks_def)
      moreover have "k_mem (zero_from (u_dsize (u s)) n t) = k_mem (zero_from (u_dsize (u s)) n s)"
      proof -
        have same: "k_mem t = k_mem s" "epoch68_user_page t = epoch68_user_page s" by (simp_all add: t_def epoch68_user_page_def)
        show ?thesis unfolding zero_from_def same by simp
      qed
      ultimately show ?thesis
        using run ok err gap n0 by (simp add: bad_def t_def flip: nsiz_def usp_def)
    qed
  qed
qed

text \<open>
  Claim C24. What a process leaves behind reaches its parent: when \<open>exit\<close> has made the child a zombie and it is the first child in the table with something to
  report, \<open>wait\<close> in the parent returns its process number and its exit status (16 bits), adds its times to those of the parent's
  children and frees the table entry; the page of the child was given back.\<close>

theorem exit_wait:
  assumes z: "exit_zombie rv c s = Inr t" and c: "procp s = c" "c < NPROC" and q: "u_procp (k_uarea s q) = q" "q \<noteq> c"
    and par: "p_ppid (k_proc s c) = p_pid (k_proc s q)" and first: "\<forall>p < c. \<not> reportable (t\<lparr>k_uarrp := q\<rparr>) p"
    and v: "v = k_uarea s q"
  shows "\<exists>s'. wait es (t\<lparr>k_uarrp := q\<rparr>) = Ret () es s' \<and> r_val1 (u s') = p_pid (k_proc s c) \<and> r_val2 (u s') = to_i16 rv \<and>
    u_cutime (u s') = to_i32 (u_cutime v + to_i32 (u_cutime (u s) + u_utime (u s))) \<and>
    u_cstime (u s') = to_i32 (u_cstime v + to_i32 (u_cstime (u s) + u_stime (u s))) \<and>
    p_stat (k_proc s' c) = SNULL \<and> p_pid (k_proc s' c) = 0 \<and> \<not> epoch68_userpage_owned (k_pages s') (p_addr (k_proc s c))"
proof -
  define r where "r = t\<lparr>k_uarrp := q\<rparr>"
  obtain pages where pg: "userpage_free (k_pages s) (p_addr (k_proc s c)) = Inr pages"
    and t: "t = upd_proc c (\<lambda>q. q\<lparr>xp_xstat := to_i16 rv, xp_utime := to_i32 (u_cutime (u s) + u_utime (u s)),
                                     xp_stime := to_i32 (u_cstime (u s) + u_stime (u s)), p_stat := SZOMB\<rparr>) (s\<lparr>k_pages := pages\<rparr>)"
    using z by (auto simp add: exit_zombie_def split: if_splits sum.splits fault.splits)
  have free: "\<not> epoch68_userpage_owned pages (p_addr (k_proc s c))"
    using pg by (auto simp add: userpage_free_def split: if_splits option.splits)
  have u: "u r = v" using v by (simp add: r_def t u_def upd_proc_def)
  have pr: "procp r = q" using q(1) u v by (simp add: procp_def)
  have kc: "p_stat (k_proc r c) = SZOMB" "p_pid (k_proc r c) = p_pid (k_proc s c)" "xp_xstat (k_proc r c) = to_i16 rv"
      "xp_utime (k_proc r c) = to_i32 (u_cutime (u s) + u_utime (u s))" "xp_stime (k_proc r c) = to_i32 (u_cstime (u s) + u_stime (u s))"
      "k_pages r = pages"
    by (simp_all add: r_def t)
  have "is_child r c" using par q(2) by (simp add: is_child_def pr) (simp add: r_def t)
  then have f: "first_index NPROC (reportable r) = Some c"
    using c(2) first kc(1) by (simp add: first_index_Some reportable_def r_def[symmetric])
  have "wait es r = Ret () es (wait_reap c r)"
    using f kc(1) by (simp add: wait_def kern_simps)
  then show ?thesis
    using u kc free unfolding r_def[symmetric] by (simp add: wait_reap_def Let_def)
qed

text \<open>Concrete instances.\<close>

theorem compress_accurate_witness: "2048 * \<bar>expand_comp (compress 100000) - 100000\<bar> \<le> 100000"
  using compress_accurate[of 100000] by simp

definition brk_demo :: kernel where
  "brk_demo = upd_u (\<lambda>w. w\<lparr>u_ap := [1000], u_dsize := 8, u_ssize := 20, u_ar0 := (\<lambda>_. 200000)\<rparr>) kernel0"

lemma brk_demo_u: "u brk_demo = user0\<lparr>u_ap := [1000], u_dsize := 8, u_ssize := 20, u_ar0 := (\<lambda>_. 200000)\<rparr>"
  by (simp add: brk_demo_def) (simp add: u_def kernel0_def user0_def)

theorem sbreak_sets_witness:
  "if u_error (u (sbreak brk_demo)) \<noteq> 0 then sbreak brk_demo = set_error ENOMEM brk_demo
   else u_dsize (u (sbreak brk_demo)) = 16 \<and> k_mem (sbreak brk_demo) = k_mem (zero_from 8 16 brk_demo)"
proof -
  have a: "to_u32 (arg 0 brk_demo) = 1000" by (simp add: arg_def brk_demo_u to_u32_id)
  show ?thesis
    using sbreak_sets[of brk_demo 16] unfolding a by (simp add: brk_demo_u user0_def to_u32_id split: if_splits)
qed

definition exit_demo :: kernel where
  "exit_demo = kernel0\<lparr>k_proc := (\<lambda>i. if i = 1 then proc0\<lparr>p_pid := 1, p_stat := SRUN\<rparr>
       else if i = 2 then proc0\<lparr>p_pid := 7, p_ppid := 1, p_stat := SRUN, p_addr := 5\<rparr> else proc0),
     k_pages := \<lparr>userpagemap = \<lparr>m_size = 4, m_addr = 1\<rparr> # replicate 49 \<lparr>m_size = 0, m_addr = 0\<rparr>, epoch68_userpage_owned = (\<lambda>p. p = 5)\<rparr>,
     k_uarrp := 2\<rparr>"

theorem exit_wait_witness:
  "\<exists>t s'. exit_zombie 256 2 exit_demo = Inr t \<and> wait [] (t\<lparr>k_uarrp := 1\<rparr>) = Ret () [] s' \<and> r_val1 (u s') = 7 \<and> r_val2 (u s') = 256"
proof -
  have d: "procp exit_demo = 2" "u_procp (k_uarea exit_demo 1) = 1"
    by (simp_all add: exit_demo_def procp_def u_def kernel0_def user0_def)
  have k: "k_runq exit_demo = None" "p_addr (k_proc exit_demo 2) = 5" "p_ppid (k_proc exit_demo 2) = p_pid (k_proc exit_demo 1)"
    "p_pid (k_proc exit_demo 2) = 7" "p_stat (k_proc exit_demo 0) = SNULL" "p_stat (k_proc exit_demo 1) = SRUN"
    "k_pages exit_demo = \<lparr>userpagemap = \<lparr>m_size = 4, m_addr = 1\<rparr> # replicate 49 \<lparr>m_size = 0, m_addr = 0\<rparr>, epoch68_userpage_owned = (\<lambda>p. p = 5)\<rparr>"
    by (simp_all add: exit_demo_def kernel0_def proc0_def)
  have "replicate 49 (\<lparr>m_size = 0, m_addr = 0\<rparr> :: mapent) = \<lparr>m_size = 0, m_addr = 0\<rparr> # replicate 48 \<lparr>m_size = 0, m_addr = 0\<rparr>"
    by (simp flip: replicate_Suc)
  then obtain pages where "userpage_free (k_pages exit_demo) 5 = Inr pages"
    unfolding k by (simp add: userpage_free_def EPOCH68_FIRST_USER_PAGE_def EPOCH68_LAST_USER_PAGE_def mfree_def Let_def)
  then obtain t where z: "exit_zombie 256 2 exit_demo = Inr t"
    and t: "k_proc t 0 = k_proc exit_demo 0" "k_proc t 1 = k_proc exit_demo 1"
    using k(1,2) by (simp add: exit_zombie_def)
  have "\<forall>p < 2. \<not> reportable (t\<lparr>k_uarrp := 1\<rparr>) p"
  proof (intro allI impI)
    fix p :: nat
    assume "p < 2"
    then have "p = 0 \<or> p = 1" by linarith
    then show "\<not> reportable (t\<lparr>k_uarrp := 1\<rparr>) p" using t k by (auto simp add: reportable_def)
  qed
  then have "\<exists>s'. wait [] (t\<lparr>k_uarrp := 1\<rparr>) = Ret () [] s' \<and> r_val1 (u s') = 7 \<and> r_val2 (u s') = 256"
    using exit_wait[OF z d(1) _ d(2) _ k(3) _ refl, of "[]"] k(4) by (auto simp add: NPROC_def to_i16_id)
  then show ?thesis using z by blast
qed

end
