(* ===== verification/Exec.thy ===== *)
theory Exec
  imports Process_Life
begin

text \<open>
  Executing a program: \<open>exec\<close>, \<open>getxfile\<close> and \<open>setregs\<close> of \<open>sys/sys1.c\<close>. The arguments are collected in a kernel buffer that only the holder of
  \<open>exec_argbusy\<close> uses; the buffer is a list here. The header of the file is read into the kernel object \<open>u_exdata\<close>, whose bytes
  are \<open>u_kbuf\<close> during the transfer.
\<close>

definition E2BIG :: int where "E2BIG = 7"
definition ENOEXEC :: int where "ENOEXEC = 8"
definition NCARGS :: nat where "NCARGS = 5120"
definition EXCLOSE :: "8 word" where "EXCLOSE = 1"
definition AOUT_HDR_SIZE :: int where "AOUT_HDR_SIZE = 32"
definition AOUT_ZMAGIC :: int where "AOUT_ZMAGIC = 267"
definition AOUT_MID_SUN010 :: int where "AOUT_MID_SUN010 = 1"
definition USER_STACK_TOP :: int where "USER_STACK_TOP = 0x0003fffc"
definition EPOCH68_EXECARGS :: int where "EPOCH68_EXECARGS = 0x0003fff8"

section \<open>The argument buffer\<close>

text \<open>\<open>k_execarg\<close> is the pair of \<open>exec_argbusy\<close> and \<open>exec_argwant\<close>.\<close>

definition exec_arg_acquire :: "(kernel, unit) kern" where
  "exec_arg_acquire =
    kthen (ksleep_while (\<lambda>s. fst (k_execarg s) \<noteq> 0)
            (kthen (kmod (\<lambda>s. s\<lparr>k_execarg := (fst (k_execarg s), 1)\<rparr>)) (sleep Ch_execarg PZERO)))
      (kmod (\<lambda>s. s\<lparr>k_execarg := (1, snd (k_execarg s))\<rparr>))"

definition exec_arg_release :: "(kernel, unit) kern" where
  "exec_arg_release =
    kthen (kmod (\<lambda>s. s\<lparr>k_execarg := (0, snd (k_execarg s))\<rparr>))
      (kwhen (\<lambda>s. snd (k_execarg s) \<noteq> 0)
        (kthen (kmod (\<lambda>s. s\<lparr>k_execarg := (fst (k_execarg s), 0)\<rparr>)) (kpure (wakeup Ch_execarg))))"

definition epoch68_exec_fuint :: "int \<Rightarrow> kernel \<Rightarrow> int" where
  "epoch68_exec_fuint addr s = (case copyin addr 4 s of None \<Rightarrow> 0xFFFFFFFF | Some bs \<Rightarrow> rd32 (\<lambda>j. bs ! j) 0)"

definition epoch68_exec_suint :: "int \<Rightarrow> int \<Rightarrow> kernel \<Rightarrow> int \<times> kernel" where
  "epoch68_exec_suint addr v = copyout (be_bytes 4 v) addr"

text \<open>
  One string, up to and including its \<open>NUL\<close>; \<open>None\<close> is the jump to \<open>bad\<close>. Every character takes a place in the buffer and a full buffer is
  an error, so \<open>NCARGS\<close> turns are enough, also for the loop over the strings.
\<close>

fun exec_string :: "nat \<Rightarrow> int \<Rightarrow> 8 word list \<Rightarrow> kernel \<Rightarrow> 8 word list option \<times> kernel" where
  "exec_string k argp buf s =
    (if k = 0 then (None, s)
     else
       let s = (if length buf \<ge> NCARGS - 1 then set_error E2BIG s else s);
           c = fubyte argp s;
           s = (if c < 0 then set_error EFAULT s else s)
       in if u_error (u s) \<noteq> 0 then (None, s)
          else if c > 0 then exec_string (k - 1) (to_u32 (argp + 1)) (buf @ [word_of_int c]) s
          else (Some (buf @ [word_of_int c]), s))"

declare exec_string.simps [simp del]

record execargs =
  ea_na :: int
  ea_ne :: int
  ea_buf :: "8 word list"

fun exec_collect :: "nat \<Rightarrow> int \<Rightarrow> int \<Rightarrow> execargs \<Rightarrow> kernel \<Rightarrow> execargs option \<times> kernel" where
  "exec_collect k argv envp a s =
    (if k = 0 then (None, s)
     else
       let argp = (if argv \<noteq> 0 then epoch68_exec_fuint argv s else 0);
           argv = (if argv \<noteq> 0 then to_u32 (argv + 4) else 0);
           env = (argp = 0 \<and> envp \<noteq> 0);
           argp = (if env then epoch68_exec_fuint envp s else argp)
       in if argp = 0 then (Some a, s)
          else
            let argv = (if env then 0 else argv);
                envp = (if env then to_u32 (envp + 4) else envp);
                a = a\<lparr>ea_ne := (if env then ea_ne a + 1 else ea_ne a), ea_na := ea_na a + 1\<rparr>;
                s = (if argp = 0xFFFFFFFF then set_error EFAULT s else s)
            in case exec_string NCARGS argp (ea_buf a) s of
                 (None, s) \<Rightarrow> (None, s)
               | (Some buf, s) \<Rightarrow> exec_collect (k - 1) argv envp (a\<lparr>ea_buf := buf\<rparr>) s)"

declare exec_collect.simps [simp del]

section \<open>The image\<close>

definition aout_get32 :: "(nat \<Rightarrow> 8 word) \<Rightarrow> nat \<Rightarrow> int" where
  "aout_get32 p off = to_i32 (rd32 p off)"

definition aout_getmid :: "(nat \<Rightarrow> 8 word) \<Rightarrow> int" where
  "aout_getmid p = drop_bit 16 (aout_get32 p 0) AND 0x3FF"

definition aout_getmagic :: "(nat \<Rightarrow> 8 word) \<Rightarrow> int" where
  "aout_getmagic p = aout_get32 p 0 AND 0xFFFF"

definition aout_decode :: "(nat \<Rightarrow> 8 word) \<Rightarrow> exdata" where
  "aout_decode p =
    \<lparr>ux_mag = 264, ux_tsize = to_u32 (aout_get32 p 4 - AOUT_HDR_SIZE), ux_dsize = to_u32 (aout_get32 p 8),
     ux_bsize = to_u32 (aout_get32 p 12), ux_ssize = 0, ux_entloc = to_u32 (aout_get32 p 20), ux_unused = 0, ux_relflg = 1\<rparr>"

text \<open>The sizes in clicks, text and whole image; \<open>None\<close> when the size of the image overflows 32 bits.\<close>

definition image_clicks :: "exdata \<Rightarrow> (int \<times> int) option" where
  "image_clicks x =
    (let td = to_u32 (ux_tsize x + ux_dsize x); tdb = to_u32 (td + ux_bsize x)
     in if td < ux_tsize x \<or> tdb < td then None
        else Some (exec_btoc32 (ux_tsize x), exec_btoc32 tdb))"

definition kestabur :: "int \<Rightarrow> int \<Rightarrow> int \<Rightarrow> (kernel, bool) kern" where
  "kestabur nt nd ns = kbind (kget (estabur nt nd ns 0)) (\<lambda>(r, t). kthen (kmod (\<lambda>_. t)) (kret (r \<noteq> 0)))"

text \<open>A transfer of part of the file: address, offset, count and segment flag.\<close>

definition exec_read :: "nat \<Rightarrow> int \<Rightarrow> int \<Rightarrow> int \<Rightarrow> int \<Rightarrow> (kernel, unit) kern" where
  "exec_read ip base off cnt seg =
    kthen (kmod (upd_u (\<lambda>w. w\<lparr>u_base := base, u_offset := to_i32 off, u_count := cnt, u_segflg := seg\<rparr>)))
    (kthen (readi ip) (kmod (upd_u (\<lambda>w. w\<lparr>u_segflg := 0\<rparr>))))"

definition exec_owner :: "nat \<Rightarrow> (kernel, unit) kern" where
  "exec_owner ip =
    kif (\<lambda>s. p_flag (k_proc s (procp s)) AND STRC = 0)
      (kthen (kwhen (\<lambda>s. i_mode (ino ip s) AND ISUID \<noteq> 0 \<and> u_uid (u s) \<noteq> 0)
               (kmod (\<lambda>s. upd_proc (procp s) (\<lambda>p. p\<lparr>p_uid := i_uid (ino ip s)\<rparr>) (upd_u (\<lambda>w. w\<lparr>u_uid := i_uid (ino ip s)\<rparr>) s))))
        (kwhen (\<lambda>s. i_mode (ino ip s) AND ISGID \<noteq> 0) (kmod (\<lambda>s. upd_u (\<lambda>w. w\<lparr>u_gid := i_gid (ino ip s)\<rparr>) s))))
      (kpure (\<lambda>s. psignal (procp s) SIGTRC s))"

text \<open>The old image is given up: text reference, sizes, and cleared clicks from the top down.\<close>

definition exec_clear :: "int \<Rightarrow> int \<Rightarrow> (kernel, unit) kern" where
  "exec_clear ds ss =
    kthen (kmod (upd_u (\<lambda>w. w\<lparr>u_prof := (u_prof w)\<lparr>pr_scale := 0\<rparr>\<rparr>)))
    (kthen xfree
    (kthen (kmod (\<lambda>s. upd_proc (procp s) (\<lambda>p. p\<lparr>p_textp := None\<rparr>) s))
    (kthen (kmod (expand (to_i32 (USIZE + ds + ss))))
      (kmod (clear_clicks (rev [0 .. ds - 1]))))))"

definition exec_load :: "nat \<Rightarrow> int \<Rightarrow> int \<Rightarrow> int \<Rightarrow> (kernel, unit) kern" where
  "exec_load ip ts ds ss =
    kthen (exec_clear ds ss)
      (kif (\<lambda>s. u_error (u s) \<noteq> 0) (kret ())
        (kbind (kget (\<lambda>s. u_exdata (u s))) (\<lambda>x.
         kthen (if ux_tsize x \<noteq> 0 then kthen (kestabur ts 0 0) (exec_read ip 0 32 (ux_tsize x) 2) else kret ())
          (kif (\<lambda>s. u_error (u s) \<noteq> 0) (kret ())
            (kthen (kestabur 0 ds 0)
            (kthen (exec_read ip (ux_tsize x) (32 + ux_tsize x) (ux_dsize x) 0)
              (kif (\<lambda>s. u_error (u s) \<noteq> 0) (kret ())
                (kthen (xmark ip)
                (kthen (exec_owner ip)
                (kthen (kmod (upd_u (\<lambda>w. w\<lparr>u_tsize := ts, u_dsize := ds, u_ssize := ss, u_sep := 0\<rparr>)))
                (kthen (kestabur ts ds ss) (kret ()))))))))))))"

text \<open>\<open>getxfile\<close> always returns 0; its failures are in \<open>u_error\<close>.\<close>

definition getxfile :: "nat \<Rightarrow> int \<Rightarrow> (kernel, unit) kern" where
  "getxfile ip nargc =
    kthen (exec_read ip 0 0 32 1)
      (kif (\<lambda>s. u_error (u s) \<noteq> 0) (kret ())
        (kif (\<lambda>s. u_count (u s) \<noteq> 0 \<or> aout_getmid (u_kbuf (u s)) \<noteq> AOUT_MID_SUN010 \<or> aout_getmagic (u_kbuf (u s)) \<noteq> AOUT_ZMAGIC)
          (kmod (set_error ENOEXEC))
          (kthen (kmod (upd_u (\<lambda>w. w\<lparr>u_exdata := aout_decode (u_kbuf w)\<rparr>)))
          (kbind (kget (\<lambda>s. u_exdata (u s))) (\<lambda>x.
            if to_i32 (ux_tsize x) < 0 then kmod (set_error ENOEXEC)
            else kif (\<lambda>s. ux_tsize x \<noteq> 0 \<and> i_flag (ino ip s) AND ITEXT = 0 \<and> i_count (ino ip s) \<noteq> 1) (kmod (set_error ETXTBSY))
              (case image_clicks x of
                 None \<Rightarrow> kmod (set_error ENOMEM)
               | Some (ts, ds) \<Rightarrow>
                   let ss = SSIZE + exec_btoc32 (to_u32 nargc)
                   in kbind (kestabur ts ds ss) (\<lambda>bad. if bad then kret () else exec_load ip ts ds ss)))))))"

section \<open>The new stack\<close>

text \<open>
  The strings are copied back from the buffer and their addresses stored; \<open>na\<close> counts down, and a null word separates arguments and
  environment. \<open>None\<close> is the jump to \<open>bad\<close>, otherwise the last slot and the address behind the strings.
\<close>

fun put_string :: "8 word list \<Rightarrow> int \<Rightarrow> kernel \<Rightarrow> (8 word list \<times> int) option \<times> kernel" where
  "put_string [] ucp s = (None, s)"
| "put_string (c # buf) ucp s =
    (case subyte ucp (uint c) s of (r, s) \<Rightarrow>
       let s = (if r < 0 then set_error EFAULT s else s)
       in if u_error (u s) \<noteq> 0 then (None, s)
          else if c \<noteq> 0 then put_string buf (to_u32 (ucp + 1)) s
          else (Some (buf, to_u32 (ucp + 1)), s))"

definition put_word :: "int \<Rightarrow> int \<Rightarrow> kernel \<Rightarrow> bool \<times> kernel" where
  "put_word addr v s =
    (case epoch68_exec_suint addr v s of (r, s) \<Rightarrow> if r < 0 then (False, set_error EFAULT s) else (True, s))"

fun put_args :: "nat \<Rightarrow> int \<Rightarrow> 8 word list \<Rightarrow> int \<Rightarrow> int \<Rightarrow> kernel \<Rightarrow> (int \<times> int) option \<times> kernel" where
  "put_args na ne buf ap ucp s =
    (let ap = to_u32 (ap + 4);
         (ok, s) = (if int na = ne then put_word ap 0 s else (True, s));
         ap = (if int na = ne then to_u32 (ap + 4) else ap)
     in if \<not> ok then (None, s)
        else if na = 0 then (Some (ap, ucp), s)
        else case put_word ap ucp s of
               (False, s) \<Rightarrow> (None, s)
             | (True, s) \<Rightarrow>
                 (case put_string buf ucp s of
                    (None, s) \<Rightarrow> (None, s)
                  | (Some (buf, ucp), s) \<Rightarrow> put_args (na - 1) ne buf ap ucp s))"

declare put_args.simps [simp del]

definition exec_stack :: "execargs \<Rightarrow> int \<Rightarrow> kernel \<Rightarrow> bool \<times> kernel" where
  "exec_stack a nc s =
    (let ucp = to_u32 (USER_STACK_TOP - nc - 4);
         ap = to_u32 (ucp - ea_na a * 4 - 12);
         argbase = to_u32 (ap + 4);
         s = upd_u (\<lambda>w. w\<lparr>u_ar0 := (u_ar0 w)(R6 := to_i32 ap)\<rparr>) s
     in case put_word ap (ea_na a - ea_ne a) s of
          (False, s) \<Rightarrow> (False, s)
        | (True, s) \<Rightarrow>
            (case put_args (nat (ea_na a)) (ea_ne a) (ea_buf a) ap ucp s of
               (None, s) \<Rightarrow> (False, s)
             | (Some (ap, ucp), s) \<Rightarrow>
                 (case put_word ap 0 s of
                    (False, s) \<Rightarrow> (False, s)
                  | (True, s) \<Rightarrow>
                      (case put_word ucp 0 s of
                         (False, s) \<Rightarrow> (False, s)
                       | (True, s) \<Rightarrow> put_word EPOCH68_EXECARGS argbase s))))"

definition regloc6 :: "int list" where
  "regloc6 = [0, - 2, - 9, - 8, - 7, - 6]"

text \<open>The registers and files of a new image; the floating point registers in \<open>u_fps\<close>, which are cleared here too, are not kept.\<close>

definition setregs :: "(kernel, unit) kern" where
  "setregs =
    kthen (kmod (upd_u (\<lambda>w. w\<lparr>u_signal := (\<lambda>i. if i < NSIG \<and> u_signal w i AND 1 = 0 then 0 else u_signal w i),
                              u_ar0 := (\<lambda>r. if r = PC then to_i32 (ux_entloc (u_exdata w) AND NOT 1)
                                            else if r \<in> set regloc6 then 0 else u_ar0 w r)\<rparr>)))
    (kthen (kfor (\<lambda>i. kwhen (\<lambda>s. u_pofile (u s) i AND EXCLOSE \<noteq> 0)
              (kthen (kbind (kget (\<lambda>s. u_ofile (u s) i)) closef)
              (kthen (kmod (set_ofile i None))
                (kmod (upd_u (\<lambda>w. w\<lparr>u_pofile := (u_pofile w)(i := u_pofile w i AND NOT EXCLOSE)\<rparr>)))))) [0 ..< NOFILE])
      (kmod (upd_u (\<lambda>w. w\<lparr>u_acflag := u_acflag w AND NOT AFORK, u_comm := u_dbuf w\<rparr>))))"

section \<open>The calls\<close>

definition round4 :: "nat \<Rightarrow> int" where
  "round4 n = (int n + 3) AND NOT 3"

text \<open>With the buffer held.\<close>

definition exec_held :: "nat \<Rightarrow> int \<Rightarrow> int \<Rightarrow> (kernel, unit) kern" where
  "exec_held ip argv envp =
    kbind (kget (\<lambda>s. if argv \<noteq> 0 then exec_collect NCARGS argv envp \<lparr>ea_na = 0, ea_ne = 0, ea_buf = []\<rparr> s
                     else (Some \<lparr>ea_na = 0, ea_ne = 0, ea_buf = []\<rparr>, s))) (\<lambda>(r, t). kthen (kmod (\<lambda>_. t))
      (case r of
         None \<Rightarrow> kret ()
       | Some a \<Rightarrow>
           let nc = round4 (length (ea_buf a))
           in kthen (getxfile ip nc)
                (kif (\<lambda>s. u_error (u s) \<noteq> 0) (kret ())
                  (kbind (kget (exec_stack a nc)) (\<lambda>(ok, t). kthen (kmod (\<lambda>_. t))
                    (if ok then setregs else kret ()))))))"

definition exece_with :: "int \<Rightarrow> (kernel, unit) kern" where
  "exece_with envp =
    kbind (kget (arg 1)) (\<lambda>argv.
    kbind (namei uchar 0) (\<lambda>r.
      case r of
        None \<Rightarrow> kret ()
      | Some ip \<Rightarrow>
          kthen (kbind (access ip IEXEC) (\<lambda>denied.
                   if denied then kret ()
                   else kif (\<lambda>s. i_mode (ino ip s) AND IFMT \<noteq> IFREG \<or>
                                 i_mode (ino ip s) AND (IEXEC OR drop_bit 3 IEXEC OR drop_bit 6 IEXEC) = 0)
                          (kmod (set_error EACCES))
                          (kthen exec_arg_acquire (kthen (exec_held ip (to_u32 argv) (to_u32 envp)) exec_arg_release))))
            (iput ip)))"

definition exece :: "(kernel, unit) kern" where
  "exece = kbind (kget (arg 2)) exece_with"

definition exec :: "(kernel, unit) kern" where
  "exec = exece_with 0"

end
