(* ===== verification/Tty_Control.thy ===== *)
theory Tty_Control
  imports Uart_Receive Exec
begin

text \<open>
  Opening, closing and controlling a terminal: the first part of \<open>dev/tty.c\<close>, the entry points of \<open>dev/kl.c\<close>, the device
  \<open>/dev/tty\<close> of \<open>conf/stubs.c\<close>, and the part of \<open>cdevsw\<close> in \<open>conf/c.c\<close> that leads to them. A routine of the
  kernel that does not sleep runs inside the larger state by \<open>klift\<close>.
\<close>

section \<open>Commands\<close>

definition TIOCGETD :: int where "TIOCGETD = 0x7400"
definition TIOCSETD :: int where "TIOCSETD = 0x7401"
definition TIOCHPCL :: int where "TIOCHPCL = 0x7402"
definition TIOCGETP :: int where "TIOCGETP = 0x7408"
definition TIOCSETP :: int where "TIOCSETP = 0x7409"
definition TIOCSETN :: int where "TIOCSETN = 0x740A"
definition TIOCEXCL :: int where "TIOCEXCL = 0x740D"
definition TIOCNXCL :: int where "TIOCNXCL = 0x740E"
definition TIOCFLUSH :: int where "TIOCFLUSH = 0x7410"
definition TIOCSETC :: int where "TIOCSETC = 0x7411"
definition TIOCGETC :: int where "TIOCGETC = 0x7412"
definition DIOCGETP :: int where "DIOCGETP = 0x6408"
definition DIOCSETP :: int where "DIOCSETP = 0x6409"
definition FIOCLEX :: int where "FIOCLEX = 0x6601"
definition FIONCLEX :: int where "FIONCLEX = 0x6602"

lemmas tty_commands = TIOCGETD_def TIOCSETD_def TIOCHPCL_def TIOCGETP_def TIOCSETP_def TIOCSETN_def TIOCEXCL_def
  TIOCNXCL_def TIOCFLUSH_def TIOCSETC_def TIOCGETC_def DIOCGETP_def DIOCSETP_def FIOCLEX_def FIONCLEX_def

definition ENOTTY :: int where "ENOTTY = 25"

definition nldisp :: int where "nldisp = 1"

definition klift :: "(kernel, 'a) kern \<Rightarrow> (tio, 'a) kern" where
  "klift m = (\<lambda>es s.
    (case m [] (io_kern s) of
       Ret a es' k \<Rightarrow> Ret a es (s\<lparr>io_kern := k\<rparr>)
     | Blocked k \<Rightarrow> Blocked (s\<lparr>io_kern := k\<rparr>)
     | Longjmp k \<Rightarrow> Longjmp (s\<lparr>io_kern := k\<rparr>)
     | Panic msg k \<Rightarrow> Panic msg (s\<lparr>io_kern := k\<rparr>)
     | Exited k \<Rightarrow> Exited (s\<lparr>io_kern := k\<rparr>)))"

definition tset_error :: "int \<Rightarrow> tio \<Rightarrow> tio" where
  "tset_error e = on_kern (set_error e)"

definition tcopyout :: "8 word list \<Rightarrow> int \<Rightarrow> tio \<Rightarrow> tio" where
  "tcopyout bytes addr s =
    (case copyout bytes addr (io_kern s) of (r, k) \<Rightarrow>
       let s = s\<lparr>io_kern := k\<rparr> in if r \<noteq> 0 then tset_error EFAULT s else s)"

section \<open>tty.c: opening and closing\<close>

definition ttyopen :: "int \<Rightarrow> nat \<Rightarrow> tio \<Rightarrow> tio" where
  "ttyopen dev i s =
    (let s = upd_tty i (\<lambda>t. t\<lparr>t_dev := dev\<rparr>) s;
         pp = procp (io_kern s);
         s = (if p_pgrp (k_proc (io_kern s) pp) = 0 then
                let s = on_kern (upd_u (\<lambda>w. w\<lparr>u_ttyp := Some i, u_ttyd := dev\<rparr>)) s;
                    s = (if t_pgrp (io_tty s i) = 0
                         then upd_tty i (\<lambda>t. t\<lparr>t_pgrp := p_pid (k_proc (io_kern s) pp)\<rparr>) s else s)
                in on_kern (upd_proc pp (\<lambda>p. p\<lparr>p_pgrp := t_pgrp (io_tty s i)\<rparr>)) s
              else if t_pgrp (io_tty s i) = 0
              then upd_tty i (\<lambda>t. t\<lparr>t_pgrp := p_pgrp (k_proc (io_kern s) pp)\<rparr>) s
              else s)
     in set_tstate i ISOPEN (clr_tstate i WOPEN s))"

definition ttychars :: "nat \<Rightarrow> tio \<Rightarrow> tio" where
  "ttychars i = upd_tty i (\<lambda>t. t\<lparr>t_intrc := CINTR, t_quitc := CQUIT, t_startc := CSTART, t_stopc := CSTOP,
     t_eofc := CEOT, t_brkc := to_i8 CBRK, t_erase := CERASE, t_kill := CKILL\<rparr>)"

definition ttyclose :: "nat \<Rightarrow> (tio, unit) kern" where
  "ttyclose i =
    kthen (kmod (\<lambda>s. if u_ttyp (u (io_kern s)) = Some i
       then on_kern (\<lambda>k. upd_proc (procp k) (\<lambda>p. p\<lparr>p_pgrp := 0\<rparr>) (upd_u (\<lambda>w. w\<lparr>u_ttyp := None, u_ttyd := 0\<rparr>) k)) s
       else s))
    (kthen (kmod (upd_tty i (\<lambda>t. t\<lparr>t_pgrp := 0\<rparr>)))
    (kthen (wflushtty i) (kmod (upd_tty i (\<lambda>t. t\<lparr>t_state := 0\<rparr>)))))"

section \<open>tty.c: parameters\<close>

text \<open>\<open>struct ttiocb\<close> and \<open>struct tc\<close> as the bytes of user memory.\<close>

definition ttiocb_bytes :: "tty \<Rightarrow> 8 word list" where
  "ttiocb_bytes t = [word_of_int (t_ispeed t), word_of_int (t_ospeed t), word_of_int (t_erase t), word_of_int (t_kill t)] @
    Signals.be32 (sint (t_flags t))"

definition set_ttiocb :: "8 word list \<Rightarrow> tty \<Rightarrow> tty" where
  "set_ttiocb b t = t\<lparr>t_ispeed := sint (b ! 0), t_ospeed := sint (b ! 1), t_erase := sint (b ! 2), t_kill := sint (b ! 3),
     t_flags := word_of_int (256 * uint (b ! 6) + uint (b ! 7))\<rparr>"

definition tc_bytes :: "tty \<Rightarrow> 8 word list" where
  "tc_bytes t = map word_of_int [t_intrc t, t_quitc t, t_startc t, t_stopc t, t_eofc t, t_brkc t]"

definition set_tc :: "8 word list \<Rightarrow> tty \<Rightarrow> tty" where
  "set_tc b t = t\<lparr>t_intrc := sint (b ! 0), t_quitc := sint (b ! 1), t_startc := sint (b ! 2), t_stopc := sint (b ! 3),
     t_eofc := sint (b ! 4), t_brkc := sint (b ! 5)\<rparr>"

definition tty_setn :: "int \<Rightarrow> nat \<Rightarrow> tio \<Rightarrow> tio" where
  "tty_setn addr i s =
    (case copyin addr 8 (io_kern s) of None \<Rightarrow> tset_error EFAULT s | Some b \<Rightarrow> upd_tty i (set_ttiocb b) s)"

text \<open>
  Setting the discipline: \<open>linesw\<close> has the entry 0 only, so that \<open>t_line\<close> is always 0 and the calls of \<open>l_close\<close> and
  \<open>l_open\<close>, which need another number, are never reached.
\<close>

definition tty_setd :: "int \<Rightarrow> nat \<Rightarrow> tio \<Rightarrow> tio" where
  "tty_setd addr i s =
    (case copyin addr 2 (io_kern s) of
       None \<Rightarrow> tset_error EFAULT s
     | Some b \<Rightarrow>
         let t = 256 * uint (b ! 0) + uint (b ! 1)
         in if t \<ge> nldisp then tset_error ENXIO s
            else if u_error (u (io_kern s)) = 0 then upd_tty i (\<lambda>tp. tp\<lparr>t_line := t\<rparr>) s else s)"

definition nodev_lioctl :: "tio \<Rightarrow> tio" where
  "nodev_lioctl = tset_error ENODEV"

definition ttioccomm :: "int \<Rightarrow> nat \<Rightarrow> int \<Rightarrow> (tio, int) kern" where
  "ttioccomm com i addr =
    (if com = TIOCGETD then
       kthen (kmod (\<lambda>s. tcopyout [be_byte 1 (t_line (io_tty s i)), be_byte 0 (t_line (io_tty s i))] addr s)) (kret 1)
     else if com = TIOCSETD then kthen (kmod (tty_setd addr i)) (kret 1)
     else if com = TIOCEXCL then kthen (kmod (set_tstate i XCLUDE)) (kret 1)
     else if com = TIOCNXCL then kthen (kmod (clr_tstate i XCLUDE)) (kret 1)
     else if com = TIOCSETP then kthen (wflushtty i) (kthen (kmod (tty_setn addr i)) (kret 1))
     else if com = TIOCSETN then kthen (kmod (tty_setn addr i)) (kret 1)
     else if com = TIOCGETP then kthen (kmod (\<lambda>s. tcopyout (ttiocb_bytes (io_tty s i)) addr s)) (kret 1)
     else if com = TIOCHPCL then kthen (kmod (set_tstate i HUPCLS)) (kret 1)
     else if com = TIOCFLUSH then kthen (kpure (flushtty i)) (kret 1)
     else if com = DIOCSETP \<or> com = DIOCGETP then kthen (kmod nodev_lioctl) (kret 1)
     else if com = TIOCSETC then
       kthen (kmod (\<lambda>s. case copyin addr 6 (io_kern s) of None \<Rightarrow> tset_error EFAULT s | Some b \<Rightarrow> upd_tty i (set_tc b) s)) (kret 1)
     else if com = TIOCGETC then kthen (kmod (\<lambda>s. tcopyout (tc_bytes (io_tty s i)) addr s)) (kret 1)
     else kret 0)"

section \<open>kl.c: the entry points\<close>

definition klopen :: "int \<Rightarrow> int \<Rightarrow> (tio, int) kern" where
  "klopen dev flag =
    (if kl_is_ymodem dev then kret 0
     else case kl_minor_channel dev of
       None \<Rightarrow> kthen (kmod (tset_error ENXIO)) (kret 0)
     | Some i \<Rightarrow>
         kthen (kmod (\<lambda>s. if tstate i ISOPEN s then s
           else ttychars i (upd_tty i (\<lambda>t. t\<lparr>t_state := ISOPEN OR CARR_ON, t_flags := EVENP OR ODDP OR ECHO OR CRMOD OR XTABS,
             t_ispeed := EPOCH68_B9600, t_ospeed := EPOCH68_B9600\<rparr>) s)))
         (kthen (kmod (ttyopen dev i))
         (kthen (kpure epoch68_uart_poll_rx) (kret 0))))"

definition klclose :: "int \<Rightarrow> int \<Rightarrow> (tio, int) kern" where
  "klclose dev flag =
    (if kl_is_ymodem dev then kret 0
     else case kl_minor_channel dev of None \<Rightarrow> kret 0 | Some i \<Rightarrow> kthen (ttyclose i) (kret 0))"

text \<open>
  The raw transfers of UART 1 wait for the hardware in a loop: for a byte until the schedule has brought one, for the
  transmitter until it answers that it is ready. Without either, the loop never ends.
\<close>

primrec ymodem_wait :: "nat \<Rightarrow> (tio, unit) kern" where
  "ymodem_wait 0 = (\<lambda>es s. Blocked s)"
| "ymodem_wait (Suc n) = kif (\<lambda>s. ua_rx (io_uart s 1) = []) (kthen kyield (ymodem_wait n)) (kret ())"

primrec epoch68_ymodem_read_loop :: "nat \<Rightarrow> (tio, unit) kern" where
  "epoch68_ymodem_read_loop 0 = kret ()"
| "epoch68_ymodem_read_loop (Suc n) =
    kif (\<lambda>s. u_count (u (io_kern s)) \<noteq> 0)
      (kthen (\<lambda>es s. ymodem_wait (Suc (length es)) es s)
      (kbind (\<lambda>es s. case uart_rbr 1 s of (c, s) \<Rightarrow> Ret c es s) (\<lambda>c.
       kbind (\<lambda>es s. case tpassc c s of (r, s) \<Rightarrow> Ret r es s) (\<lambda>r.
         if r < 0 then kret () else epoch68_ymodem_read_loop n))))
      (kret ())"

definition epoch68_ymodem_read :: "(tio, unit) kern" where
  "epoch68_ymodem_read = (\<lambda>es s. epoch68_ymodem_read_loop (Suc (nat (u_count (u (io_kern s))))) es s)"

fun thre_spin :: "bool list \<Rightarrow> bool list option" where
  "thre_spin [] = None"
| "thre_spin (ready # bs) = (if ready then Some bs else thre_spin bs)"

primrec epoch68_ymodem_write_loop :: "nat \<Rightarrow> (tio, unit) kern" where
  "epoch68_ymodem_write_loop 0 = kret ()"
| "epoch68_ymodem_write_loop (Suc n) =
    kbind (\<lambda>es s. case tcpass s of (c, s) \<Rightarrow> Ret c es s) (\<lambda>c.
      if c < 0 then kret ()
      else (\<lambda>es s.
        case thre_spin (ua_thre (io_uart s 1)) of
          None \<Rightarrow> Blocked s
        | Some bs \<Rightarrow> epoch68_ymodem_write_loop n es (uart_thr 1 c (upd_uart 1 (\<lambda>h. h\<lparr>ua_thre := bs\<rparr>) s))))"

definition epoch68_ymodem_write :: "(tio, unit) kern" where
  "epoch68_ymodem_write = (\<lambda>es s. epoch68_ymodem_write_loop (Suc (nat (u_count (u (io_kern s))))) es s)"

definition klread :: "int \<Rightarrow> (tio, int) kern" where
  "klread dev =
    (if kl_is_ymodem dev then kthen epoch68_ymodem_read (kret 0)
     else case kl_minor_channel dev of
       None \<Rightarrow> kthen (kmod (tset_error ENXIO)) (kret 0)
     | Some i \<Rightarrow> kthen (kpure epoch68_uart_poll_rx) (kthen (ttread i) (kret 0)))"

definition klwrite :: "int \<Rightarrow> (tio, int) kern" where
  "klwrite dev =
    (if kl_is_ymodem dev then kthen epoch68_ymodem_write (kret 0)
     else case kl_minor_channel dev of
       None \<Rightarrow> kthen (kmod (tset_error ENXIO)) (kret 0)
     | Some i \<Rightarrow> kthen (ttwrite i) (kret 0))"

definition klioctl :: "int \<Rightarrow> int \<Rightarrow> int \<Rightarrow> int \<Rightarrow> (tio, int) kern" where
  "klioctl dev cmd addr flag =
    (if kl_is_ymodem dev then kthen (kmod (tset_error ENOTTY)) (kret 0)
     else case kl_minor_channel dev of
       None \<Rightarrow> kthen (kmod (tset_error ENXIO)) (kret 0)
     | Some i \<Rightarrow>
         kbind (ttioccomm cmd i addr) (\<lambda>handled.
           kthen (if handled = 0 then kmod (tset_error ENOTTY) else kret ()) (kret 0)))"

section \<open>stubs.c: /dev/tty\<close>

text \<open>
  \<open>/dev/tty\<close> passes a call on to the terminal that the process opened first. Only \<open>ttyopen\<close> sets \<open>u_ttyd\<close>, so that the
  entry of \<open>cdevsw\<close> it leads to is that of the UART driver.
\<close>

definition sy_call :: "(int \<Rightarrow> (tio, int) kern) \<Rightarrow> (tio, int) kern" where
  "sy_call call =
    kif (\<lambda>s. u_ttyp (u (io_kern s)) = None)
      (kthen (kmod (tset_error ENXIO)) (kret (- 1)))
      (kbind (kget (\<lambda>s. u_ttyd (u (io_kern s)))) (\<lambda>dev.
       kthen (kbind (call dev) (\<lambda>_. kret ()))
         (kget (\<lambda>s. if u_error (u (io_kern s)) \<noteq> 0 then - 1 else 0))))"

definition syopen :: "int \<Rightarrow> int \<Rightarrow> (tio, int) kern" where
  "syopen dev flag = sy_call (\<lambda>d. klopen d flag)"

definition syread :: "int \<Rightarrow> (tio, int) kern" where
  "syread dev = sy_call klread"

definition sywrite :: "int \<Rightarrow> (tio, int) kern" where
  "sywrite dev = sy_call klwrite"

definition sysioctl :: "int \<Rightarrow> int \<Rightarrow> int \<Rightarrow> int \<Rightarrow> (tio, int) kern" where
  "sysioctl dev cmd addr flag = sy_call (\<lambda>d. klioctl d cmd addr flag)"

section \<open>tty.c: ioctl\<close>

definition nodev_ioctl :: "(tio, int) kern" where
  "nodev_ioctl = kthen (kmod (tset_error ENODEV)) (kret (- 1))"

text \<open>The column \<open>d_ioctl\<close> of \<open>cdevsw\<close>; only a device with an entry can have been opened.\<close>

definition d_ioctl :: "int \<Rightarrow> int \<Rightarrow> int \<Rightarrow> int \<Rightarrow> (tio, int) kern" where
  "d_ioctl dev cmd addr flag =
    (if major dev = 0 then klioctl dev cmd addr flag
     else if major dev = 17 then sysioctl dev cmd addr flag
     else nodev_ioctl)"

definition tset_pofile :: "int \<Rightarrow> (8 word \<Rightarrow> 8 word) \<Rightarrow> tio \<Rightarrow> tio" where
  "tset_pofile fdes f =
    on_kern (upd_u (\<lambda>w. w\<lparr>u_pofile := (u_pofile w)(nat fdes := f (u_pofile w (nat fdes)))\<rparr>))"

definition ioctl :: "(tio, unit) kern" where
  "ioctl =
    kbind (kget (\<lambda>s. (arg 0 (io_kern s), arg 1 (io_kern s), arg 2 (io_kern s)))) (\<lambda>(fdes, cmd, cmarg).
    kbind (klift (getf fdes)) (\<lambda>r.
      case r of
        None \<Rightarrow> kret ()
      | Some fp \<Rightarrow>
          if cmd = FIOCLEX then kmod (tset_pofile fdes (\<lambda>p. p OR EXCLOSE))
          else if cmd = FIONCLEX then kmod (tset_pofile fdes (\<lambda>p. p AND NOT EXCLOSE))
          else
            kbind (kget (\<lambda>s. (f_flag (k_file (io_kern s) fp), ino (f_inode (k_file (io_kern s) fp)) (io_kern s)))) (\<lambda>(fl, ip).
            if \<not> is_chr (i_mode ip AND IFMT) then kmod (tset_error ENOTTY)
            else kbind (d_ioctl (i_rdev ip) cmd cmarg (uint fl)) (\<lambda>_. kret ()))))"

text \<open>\<open>stty\<close> and \<open>gtty\<close>: \<open>u_ap\<close> is \<open>u_arg\<close> here.\<close>

definition shift_args :: "int \<Rightarrow> tio \<Rightarrow> tio" where
  "shift_args cmd = on_kern (\<lambda>k. upd_u (\<lambda>w. w\<lparr>u_ap := [arg 0 k, cmd, arg 1 k]\<rparr>) k)"

definition stty :: "(tio, unit) kern" where
  "stty = kthen (kmod (shift_args TIOCSETP)) ioctl"

definition gtty :: "(tio, unit) kern" where
  "gtty = kthen (kmod (shift_args TIOCGETP)) ioctl"

end
