(* ===== verification/Terminals.thy ===== *)
theory Terminals
  imports Tty_Control
begin

text \<open>
  Terminals as a whole: the steps that input, output, the UART poll and a read can take, in any order, an invariant of all of them,
  and what a process reads of a line that was typed. Since no character block is ever lost, the lengths of the queues say how many are
  free (\<open>room_left\<close>), and with that whether a line has room.
\<close>

section \<open>Reading, whatever room there is\<close>

lemma tqs_b_to_q_any:
  assumes t: "tqs s Q n"
  shows "\<exists>n' got. tqs (tb_to_q xs i k s) (upd2 i k (Q i k @ got) Q) n' \<and> qframe i k s (tb_to_q xs i k s) \<and>
    (length xs \<le> 12 * n \<longrightarrow> got = xs) \<and> (\<exists>m. got = take m xs)"
proof -
  obtain F B where FB: "length F = n" "tqs_with (tqueues s) (io_cs s) F B Q" using t by (auto simp add: tqs_def)
  then have ok: "cl_ok (tqueues s i k) (io_cs s) F (B i k)" "contents (tqueues s i k) (io_cs s) (B i k) = Q i k"
    by (simp_all add: tqs_with_def)
  obtain r q' cs' where p: "putc_all xs (tq k (io_tty s i)) (io_cs s) = (r, q', cs')" using prod_cases3 by blast
  define got where "got = take (room (tqueues s i k) F (B i k)) xs"
  have all: "length xs \<le> 12 * n \<longrightarrow> got = xs" using FB(1) by (auto simp add: got_def room_def CBSIZE_def)
  obtain F' B' where new: "cl_ok q' cs' F' B'" "contents q' cs' B' = Q i k @ got"
      "set F' \<union> set B' = set F \<union> set (B i k)" "cl_frame (set F \<union> set (B i k)) (io_cs s) cs'"
    using putc_all_ok[OF ok(1) p] ok(2) unfolding got_def by auto
  have run: "tb_to_q xs i k s = with_q i k q' cs' s" by (simp add: tb_to_q_def b_to_q_putc_all[OF ok(1) p])
  have "tqs (with_q i k q' cs' s) (upd2 i k (Q i k @ got) Q) (length F')"
    unfolding tqs_def tqueues_with_q using tqs_with_step[OF FB(2) new] by auto
  moreover have "qframe i k s (with_q i k q' cs' s)" using new(4) by (auto simp add: qframe_def cl_frame_def)
  moreover have "\<exists>m. got = take m xs" unfolding got_def by blast
  ultimately show ?thesis using all unfolding run by blast
qed

lemma canon_frame_ok:
  assumes "canon_frame i s s'" "tio_ok s Q n" "tqs s' Q' n'"
  shows "tio_ok s' Q' n'"
  using assms by (simp add: canon_frame_def tio_ok_def)

text \<open>The line as \<open>canon_line_ok\<close> has it, with what the canonical queue had room for.\<close>

lemma canon_line_any:
  assumes ok: "tio_ok s Q n" and ck: "cooked i s" and nb: "no_escape_below s"
    and e: "edit (io_tty s i) (esc_of s) [] (Q i Rawq) = (line, rest, e)"
  shows "\<exists>s' n' got. canon_line i s = (length line, s') \<and> tio_ok s' (upd2 i Canq (Q i Canq @ got) (upd2 i Rawq rest Q)) n' \<and>
    (length line \<le> 12 * n \<longrightarrow> got = line) \<and> (\<exists>m. got = take m line) \<and>
    canon_frame i s s' \<and> no_escape_below s' \<and> t_delct (io_tty s' i) = delct_after e (t_delct (io_tty s i))"
proof -
  have b: "buf_holds s 2 []" using nb by (simp add: buf_holds_def no_escape_below_def)
  obtain s1 n1 where 1: "canon_loop i 2 s = (2 + length line, s1)" "tqs s1 (upd2 i Rawq rest Q) n1" "n \<le> n1"
      "canon_frame i s s1" "buf_holds s1 (2 + length line) line" "t_delct (io_tty s1 i) = delct_after e (t_delct (io_tty s i))"
    using canon_loop_ok[OF tio_okD(1)[OF ok] ck b _ e] by (auto simp add: CANBSIZ_def)
  have c: "upd2 i Rawq rest Q i Canq = Q i Canq" by simp
  from tqs_b_to_q_any[OF 1(2), of line i Canq, unfolded c] obtain n2 got where
    2: "tqs (tb_to_q line i Canq s1) (upd2 i Canq (Q i Canq @ got) (upd2 i Rawq rest Q)) n2" "qframe i Canq s1 (tb_to_q line i Canq s1)"
      "length line \<le> 12 * n1 \<longrightarrow> got = line" "\<exists>m. got = take m line"
    by blast
  note f2 = canon_frame_q[OF 2(2) tqueue.distinct(5)]
  have fr: "canon_frame i s (tb_to_q line i Canq s1)" using canon_frame_trans[OF 1(4) f2(1)] .
  have "canon_line i s = (length line, tb_to_q line i Canq s1)"
    unfolding canon_line_def 1(1) prod.case buf_holds_list[OF 1(5)] by simp
  moreover have "no_escape_below (tb_to_q line i Canq s1)" using 1(5) f2(2) by (simp add: no_escape_below_def buf_holds_def)
  moreover have "t_delct (io_tty (tb_to_q line i Canq s1) i) = delct_after e (t_delct (io_tty s i))" using f2(3) 1(6) by simp
  moreover have "length line \<le> 12 * n \<longrightarrow> got = line" using 2(3) 1(3) by auto
  ultimately show ?thesis using canon_frame_ok[OF fr ok 2(1)] fr 2(4) by blast
qed

text \<open>The end of \<open>canon\<close> touches the output only.\<close>

lemma calm_canon_unblock: "calm i 1 (canon_unblock i)"
proof -
  let ?put = "\<lambda>c s. case tputc c i Outq s of (r, s) \<Rightarrow> if r = 0 then ttstart i (clr_tstate i TBLOCK s) else Inr s"
  have go: "calm i 0 (\<lambda>s. ttstart i (clr_tstate i TBLOCK s))" using calm_next[OF silent_tstate(2) calm_ttstart] by simp
  have "calm i 1 (?put c)" for c using calm_tputc[OF go calm_Inr] by simp
  then have put: "calm i 1 (\<lambda>s. ?put (t_startc (io_tty s i)) s)" by (rule calm_read[where F = ?put])
  have "calm i 0 (\<lambda>s. Inr (upd_tty i (\<lambda>t. t\<lparr>t_char := 0\<rparr>) s))"
    by (rule calm_silent) (rule silent_t_char)
  note all = calm_sbind[OF put this, unfolded add_0_right]
  show ?thesis unfolding canon_unblock_def by (rule calm_if[OF all calm_Inr])
qed

text \<open>What a step on terminal \<open>i\<close> may change of the input side of the others, and of its own modes: nothing.\<close>

definition others_same :: "nat \<Rightarrow> tio \<Rightarrow> (nat \<Rightarrow> tqueue \<Rightarrow> 8 word list) \<Rightarrow> tio \<Rightarrow> (nat \<Rightarrow> tqueue \<Rightarrow> 8 word list) \<Rightarrow> bool" where
  "others_same i s Q s' Q' \<longleftrightarrow>
    (\<forall>j. j \<noteq> i \<longrightarrow> Q' j Rawq = Q j Rawq \<and> t_delct (io_tty s' j) = t_delct (io_tty s j)) \<and>
    (no_escape_below s \<longrightarrow> no_escape_below s')"

lemma others_same_out:
  assumes "out_only s Q s' Q'"
  shows "others_same i s Q s' Q'"
  using assms
  unfolding others_same_def no_escape_below_def
  by (simp add: out_only_fields(1,11)[OF assms]) (simp add: out_only_def)

lemma others_same_trans: "\<lbrakk>others_same i s Q t R; others_same i t R v W\<rbrakk> \<Longrightarrow> others_same i s Q v W"
  by (simp add: others_same_def)

lemma canon_any:
  assumes ok: "tio_ok s Q n" and ck: "cooked i s" and nb: "no_escape_below s" and line: "t_delct (io_tty s i) \<noteq> 0"
    and e: "edit (io_tty s i) (esc_of s) [] (Q i Rawq) = (line, rest, e)"
  shows "\<exists>s' Q' n' got. canon i es s = Ret (int (length line)) es s' \<and> tio_ok s' Q' n' \<and> others_same i s Q s' Q' \<and>
    Q' i Rawq = rest \<and> Q' i Canq = Q i Canq @ got \<and> (length line \<le> 12 * n \<longrightarrow> got = line) \<and>
    (\<exists>m. got = take m line) \<and> t_delct (io_tty s' i) = delct_after e (t_delct (io_tty s i))"
proof -
  define s1 where "s1 = set_spl 0 (set_spl 5 s)"
  have ok1: "tio_ok s1 Q n" unfolding s1_def using ok by simp
  have s1: "cooked i s1" "no_escape_below s1" "esc_of s1 = esc_of s" "io_tty s1 = io_tty s"
    using ck nb by (simp_all add: s1_def cooked_def no_escape_below_def maptab_def set_spl_def fun_eq_iff)
  have "edit (io_tty s1 i) (esc_of s1) [] (Q i Rawq) = (line, rest, e)" using e s1 by simp
  from canon_line_any[OF ok1 s1(1,2) this] obtain t n1 got where
    t: "canon_line i s1 = (length line, t)" "tio_ok t (upd2 i Canq (Q i Canq @ got) (upd2 i Rawq rest Q)) n1"
      "length line \<le> 12 * n \<longrightarrow> got = line" "canon_frame i s1 t" "no_escape_below t"
      "t_delct (io_tty t i) = delct_after e (t_delct (io_tty s1 i))" "\<exists>m. got = take m line"
    by blast
  from calmE[OF calm_canon_unblock[of i] t(2)] obtain s' Q' n' where
    2: "canon_unblock i t = Inr s'" "tio_ok s' Q' n'" "out_only t (upd2 i Canq (Q i Canq @ got) (upd2 i Rawq rest Q)) s' Q'" .
  note f = out_only_fields[OF 2(3)]
  have "\<not> canon_waits i (set_spl 5 s)" using ck line by (simp add: canon_waits_def cooked_def)
  then have w: "canon_wait (Suc (length es)) i es (set_spl 5 s) = Ret False es (set_spl 5 s)"
    by (simp add: kif_def kret_def)
  have "canon i es s = Ret (int (length line)) es s'"
    unfolding canon_def kmod_run
    by (subst kbind_Ret[of _ es "set_spl 5 s" False es "set_spl 5 s"], rule w)
       (simp add: kmod_run s1_def[symmetric] kbind_def t(1) kpure_def 2(1) kthen_def kret_def)
  moreover have "others_same i s Q t (upd2 i Canq (Q i Canq @ got) (upd2 i Rawq rest Q))"
    using t(4,5) s1(4) by (simp add: others_same_def canon_frame_def)
  from others_same_trans[OF this others_same_out[OF 2(3)]] have "others_same i s Q s' Q'" .
  moreover have "Q' i Rawq = rest" "Q' i Canq = Q i Canq @ got" using f by simp_all
  moreover have "t_delct (io_tty s' i) = delct_after e (t_delct (io_tty s i))" using t(6) f(1) s1(4) by simp
  ultimately show ?thesis using 2(2) t(3,7) by blast
qed

section \<open>Lines in the raw queue\<close>

text \<open>
  The delimiters in the raw queue: \<open>t_delct\<close> counts them, in a signed byte; no two are adjacent and the queue has at most
  \<open>TTYHOG + 2\<close> characters, so that the count is never a multiple of 256 other than 0.
\<close>

definition delims :: "8 word list \<Rightarrow> nat" where
  "delims xs = count_list xs 0xFF"

abbreviation apart :: "8 word list \<Rightarrow> bool" where
  "apart xs \<equiv> successively (\<lambda>a b. a \<noteq> 0xFF \<or> b \<noteq> 0xFF) xs"

definition raw_ok :: "tty \<Rightarrow> 8 word list \<Rightarrow> bool" where
  "raw_ok t xs \<longleftrightarrow> t_delct t = to_i8 (int (delims xs)) \<and> apart xs \<and> length xs \<le> 258"

lemma delims_simps [simp]: "delims [] = 0" "delims (x # xs) = (if x = 0xFF then 1 else 0) + delims xs"
  "delims (xs @ ys) = delims xs + delims ys"
  by (simp_all add: delims_def)

lemma delims_zero: "delims xs = 0 \<longleftrightarrow> 0xFF \<notin> set xs"
  by (simp add: delims_def count_list_0_iff)

lemma apart_delims: "apart xs \<Longrightarrow> 2 * delims xs \<le> length xs + (if xs \<noteq> [] \<and> hd xs = 0xFF then 1 else 0)"
proof (induction xs rule: induct_list012)
  case (3 x y zs)
  then have "apart (y # zs)" "x \<noteq> 0xFF \<or> y \<noteq> 0xFF" by simp_all
  with 3 show ?case by (cases zs) (auto split: if_splits)
qed simp_all

lemma to_i8_zero: "0 \<le> x \<Longrightarrow> x < 256 \<Longrightarrow> to_i8 x = 0 \<longleftrightarrow> x = 0"
  by (auto simp add: to_i8_def signed_take_bit_eq_take_bit_minus take_bit_eq_mod)

lemma raw_ok_waits: "raw_ok t xs \<Longrightarrow> t_delct t = 0 \<longleftrightarrow> 0xFF \<notin> set xs"
proof -
  assume r: "raw_ok t xs"
  then have "2 * delims xs \<le> 259" using apart_delims[of xs] by (auto simp add: raw_ok_def split: if_splits)
  then show ?thesis using r to_i8_zero[of "int (delims xs)"] delims_zero[of xs] by (simp add: raw_ok_def)
qed

definition lines_ok :: "tio \<Rightarrow> (nat \<Rightarrow> tqueue \<Rightarrow> 8 word list) \<Rightarrow> bool" where
  "lines_ok s Q \<longleftrightarrow> no_escape_below s \<and> (\<forall>i. raw_ok (io_tty s i) (Q i Rawq))"

lemma lines_ok_at: "\<lbrakk>lines_ok s Q; others_same i s Q s' Q'; raw_ok (io_tty s' i) (Q' i Rawq)\<rbrakk> \<Longrightarrow> lines_ok s' Q'"
  unfolding lines_ok_def others_same_def raw_ok_def by metis

lemma lines_ok_out:
  assumes "lines_ok s Q" "out_only s Q s' Q'"
  shows "lines_ok s' Q'"
proof -
  have "raw_ok (io_tty s' i) (Q' i Rawq)" for i
    using assms(1) out_only_fields(1,11)[OF assms(2), of i] by (simp add: lines_ok_def raw_ok_def)
  then show ?thesis using assms by (simp add: lines_ok_def out_only_def no_escape_below_def)
qed

lemma to_i8_step: "to_i8 (to_i8 x + 1) = to_i8 (x + 1)" "to_i8 (1 + to_i8 x) = to_i8 (1 + x)" "to_i8 (to_i8 x - 1) = to_i8 (x - 1)"
  using signed_take_bit_add[of 7 x 1] signed_take_bit_diff[of 7 x 1] by (simp_all add: to_i8_def add.commute)

lemma raw_ok_joined:
  assumes "raw_ok t xs" "w \<noteq> 0xFF" "length xs \<le> 256"
    "t_delct t' = (if e then to_i8 (t_delct t + 1) else t_delct t)"
  shows "raw_ok t' (xs @ w # (if e then [0xFF] else []))"
  using assms by (auto simp add: raw_ok_def successively_append_iff to_i8_step algebra_simps)

lemma stored_char:
  assumes "fate t c = Store d"
  shows "0 \<le> d" "d < 128" "(word_of_int d :: 8 word) \<noteq> 0xFF"
proof -
  have c: "0 \<le> c AND 0x7F" "c AND 0x7F < 128" using take_bit_int_less_exp[of 7 c]
    by (simp_all add: take_bit_eq_mask mask_eq_exp_minus_1)
  have "d = fold_case (t_flags t) (if c AND 0x7F = 13 \<and> t_flags t AND CRMOD \<noteq> 0 then 10 else c AND 0x7F)"
    using assms by (auto simp add: fate_def Let_def split: if_splits)
  then show d: "0 \<le> d" "d < 128" using c by (auto simp add: fold_case_def split: if_splits)
  have "uint (word_of_int d :: 8 word) = d" using d by (simp add: uint_word_of_int)
  moreover have "uint (0xFF :: 8 word) = 255" by simp
  ultimately show "(word_of_int d :: 8 word) \<noteq> 0xFF" using d by force
qed

text \<open>\<open>edit\<close> takes a prefix of the raw characters, up to the first delimiter at most.\<close>

lemma edit_rest:
  "edit t esc line ws = (line', rest, e) \<Longrightarrow> \<exists>pre. ws = pre @ rest \<and> delims pre = (if e then 1 else 0)"
proof (induction t esc line ws rule: edit.induct)
  case (2 t esc line w ws)
  show ?case
  proof (cases "w = 0xFF")
    case True
    then show ?thesis using 2(2) by (intro exI[of _ "[w]"]) auto
  next
    case False
    then have "\<exists>pre. ws = pre @ rest \<and> delims pre = (if e then 1 else 0)"
      using 2 by (auto simp add: Let_def split: if_splits)
    then obtain pre where "ws = pre @ rest" "delims pre = (if e then 1 else 0)" by blast
    then show ?thesis using False by (intro exI[of _ "w # pre"]) auto
  qed
qed simp

lemma raw_ok_rest:
  assumes "raw_ok t xs" "edit t' esc [] xs = (line, rest, e)" "t_delct t'' = delct_after e (t_delct t)"
  shows "raw_ok t'' rest"
proof -
  obtain pre where p: "xs = pre @ rest" "delims pre = (if e then 1 else 0)" using edit_rest[OF assms(2)] by blast
  then show ?thesis using assms(1,3)
    by (auto simp add: raw_ok_def delct_after_def successively_append_iff to_i8_step)
qed

section \<open>Steps\<close>

lemma cooked_lines:
  assumes "tio_ok s Q n" "lines_ok s Q" "cooked i s"
  shows "\<exists>s' Q' n'. ttyinput c i s = Inr s' \<and> tio_ok s' Q' n' \<and> lines_ok s' Q'"
proof -
  have raw: "raw_ok (io_tty s i) (Q i Rawq)" using assms(2) by (simp add: lines_ok_def)
  obtain s' Q' n' where 1: "ttyinput c i s = Inr s'" "tio_ok s' Q' n'" "in_frame i s Q s' Q'" "key_done i c n s Q s' Q'"
    using ttyinput_spec[OF assms(1,3), of c] by blast
  have o: "others_same i s Q s' Q'" using 1(3) by (simp add: in_frame_def others_same_def no_escape_below_def)
  have none: "raw_ok t []" if "t_delct t = 0" for t using that by (simp add: raw_ok_def to_i8_def)
  have "raw_ok (io_tty s' i) (Q' i Rawq)"
  proof (cases "fate (io_tty s i) c")
    case Consumed
    then show ?thesis using 1(4) raw none by (auto simp add: key_done_def Let_def raw_ok_def split: if_splits)
  next
    case (Interrupt sig)
    then show ?thesis using 1(4) none by (simp add: key_done_def Let_def)
  next
    case (Store d)
    note w = stored_char(3)[OF Store]
    define tandem where "tandem \<longleftrightarrow> t_flags (io_tty s i) AND TANDEM \<noteq> 0"
    define hog where "hog \<longleftrightarrow> length (Q i Rawq) > 256"
    define xs where "xs = (if hog \<and> tandem then [] else Q i Rawq)"
    define t where "t = (io_tty s i)\<lparr>t_delct := if hog \<and> tandem then 0 else t_delct (io_tty s i)\<rparr>"
    have xs: "raw_ok t xs" using raw by (auto simp add: xs_def t_def raw_ok_def to_i8_def)
    note kd = 1(4)[unfolded key_done_def Store fate.case Let_def tandem_def[symmetric] hog_def[symmetric] xs_def[symmetric]]
    show ?thesis
    proof (cases "hog \<and> \<not> tandem")
      case True
      then show ?thesis using kd none by simp
    next
      case False
      then have short: "length xs \<le> 256" by (auto simp add: xs_def hog_def)
      consider "Q' i Rawq = xs @ word_of_int d # (if ends_line (io_tty s i) d then [0xFF] else [])"
          "t_delct (io_tty s' i) = (if ends_line (io_tty s i) d then to_i8 (t_delct t + 1) else t_delct t)"
        | "Q' i Rawq = xs" "t_delct (io_tty s' i) = t_delct t"
        | "Q' i Rawq = xs @ [word_of_int d]" "t_delct (io_tty s' i) = t_delct t"
        using kd False by (auto simp add: t_def split: if_splits)
      then show ?thesis
      proof cases
        case 1
        then show ?thesis using raw_ok_joined[OF xs w short] by simp
      next
        case 2
        then show ?thesis using xs by (simp add: raw_ok_def)
      next
        case 3
        then show ?thesis using raw_ok_joined[OF xs w short, of _ False] by simp
      qed
    qed
  qed
  then show ?thesis using 1(1,2) lines_ok_at[OF assms(2) o] by blast
qed

lemma read_lines:
  assumes "tio_ok s Q n" "lines_ok s Q" "cooked i s" "t_delct (io_tty s i) \<noteq> 0"
  shows "\<exists>s' Q' n' r. canon i es s = Ret r es s' \<and> tio_ok s' Q' n' \<and> lines_ok s' Q'"
proof -
  obtain line rest e where e: "edit (io_tty s i) (esc_of s) [] (Q i Rawq) = (line, rest, e)" by (rule prod_cases3)
  have nb: "no_escape_below s" and raw: "raw_ok (io_tty s i) (Q i Rawq)" using assms(2) by (simp_all add: lines_ok_def)
  from canon_any[OF assms(1,3) nb assms(4) e, of es] obtain s' Q' n' where
    1: "canon i es s = Ret (int (length line)) es s'" "tio_ok s' Q' n'" "others_same i s Q s' Q'" "Q' i Rawq = rest"
      "t_delct (io_tty s' i) = delct_after e (t_delct (io_tty s i))"
    by blast
  have "raw_ok (io_tty s' i) (Q' i Rawq)" using raw_ok_rest[OF raw e 1(5)] 1(4) by simp
  then show ?thesis using 1(1,2) lines_ok_at[OF assms(2) 1(3)] by blast
qed

lemma calm_lines: "\<lbrakk>calm i k f; tio_ok s Q n; lines_ok s Q\<rbrakk> \<Longrightarrow> \<exists>s' Q' n'. f s = Inr s' \<and> tio_ok s' Q' n' \<and> lines_ok s' Q'"
  using lines_ok_out by (metis calmE)

lemma silent_lines: "\<lbrakk>silent i k s s'; tio_ok s Q n; lines_ok s Q\<rbrakk> \<Longrightarrow> \<exists>Q' n'. tio_ok s' Q' n' \<and> lines_ok s' Q'"
  using lines_ok_out by (metis silentE)

lemma flush_lines:
  assumes "tio_ok s Q n" "lines_ok s Q"
  shows "\<exists>s' Q' n'. flushtty i s = Inr s' \<and> tio_ok s' Q' n' \<and> lines_ok s' Q'"
proof -
  obtain s' n' where f: "flushtty i s = Inr s'" "tio_ok s' (no_input i Q) n'" "in_frame i s Q s' (no_input i Q)"
      "t_delct (io_tty s' i) = 0"
    using flush_in[OF assms(1), of i] by blast
  have "others_same i s Q s' (no_input i Q)" using f(3) by (simp add: in_frame_def others_same_def no_escape_below_def)
  moreover have "raw_ok (io_tty s' i) (no_input i Q i Rawq)" using f(4) by (simp add: raw_ok_def no_input_def to_i8_def)
  ultimately show ?thesis using f(1,2) lines_ok_at[OF assms(2)] by blast
qed

text \<open>Moving received bytes into a ring: in order, and what does not fit is lost.\<close>

lemma rx_put_ok:
  assumes "\<forall>c. ring_ok (io_rx s c)" "ch < UART_CHANNELS"
  shows "\<forall>c. ring_ok (io_rx (uart_rx_ring_put ch (uint w) s) c)"
    "ring_list (io_rx (uart_rx_ring_put ch (uint w) s) ch) = take UART_RING_SIZE (ring_list (io_rx s ch) @ [w])"
    "uart_rx_ring_put ch (uint w) s = s\<lparr>io_rx := io_rx (uart_rx_ring_put ch (uint w) s)\<rparr>"
proof -
  have r: "ring_ok (io_rx s ch)" using assms(1) by blast
  then have le: "ur_count (io_rx s ch) \<le> UART_RING_SIZE" by (simp add: ring_ok_def)
  show "\<forall>c. ring_ok (io_rx (uart_rx_ring_put ch (uint w) s) c)"
    using assms ring_put_ok[OF r, of "uint w"] ring_put_full[of "io_rx s ch" "uint w"]
    by (cases "ur_count (io_rx s ch) < UART_RING_SIZE") (simp_all add: uart_rx_ring_put_def not_less)
  show "ring_list (io_rx (uart_rx_ring_put ch (uint w) s) ch) = take UART_RING_SIZE (ring_list (io_rx s ch) @ [w])"
    using assms(2) le ring_put_ok[OF r, of "uint w"] ring_put_full[of "io_rx s ch" "uint w"]
    by (cases "ur_count (io_rx s ch) < UART_RING_SIZE") (simp_all add: uart_rx_ring_put_def not_less)
  show "uart_rx_ring_put ch (uint w) s = s\<lparr>io_rx := io_rx (uart_rx_ring_put ch (uint w) s)\<rparr>"
    by (simp add: uart_rx_ring_put_def)
qed

definition rx_frame :: "nat \<Rightarrow> tio \<Rightarrow> tio \<Rightarrow> bool" where
  "rx_frame ch s s' \<longleftrightarrow> (\<exists>r h. s' = s\<lparr>io_rx := r, io_uart := h\<rparr>) \<and>
    (\<forall>j. j \<noteq> ch \<longrightarrow> io_rx s' j = io_rx s j \<and> io_uart s' j = io_uart s j) \<and> ua_tx (io_uart s' ch) = ua_tx (io_uart s ch)"

lemma rx_frameI:
  assumes "s' = s\<lparr>io_rx := r, io_uart := h\<rparr>" "\<And>j. j \<noteq> ch \<Longrightarrow> r j = io_rx s j \<and> h j = io_uart s j" "ua_tx (h ch) = ua_tx (io_uart s ch)"
  shows "rx_frame ch s s'"
  unfolding rx_frame_def using assms by auto

lemma rx_frame_refl: "rx_frame ch s s"
  by (rule rx_frameI[where r = "io_rx s" and h = "io_uart s"]) simp_all

lemma rx_frame_trans: "\<lbrakk>rx_frame ch s t; rx_frame ch t v\<rbrakk> \<Longrightarrow> rx_frame ch s v"
  unfolding rx_frame_def by fastforce

lemma rx_frame_step:
  assumes "ua_rx (io_uart s ch) = w # ws" "ch < UART_CHANNELS"
  shows "rx_frame ch s (uart_rx_ring_put ch c (snd (uart_rbr ch s)))"
  using assms
  by (intro rx_frameI[where r = "(io_rx s)(ch := ring_put c (io_rx s ch))" and h = "(io_uart s)(ch := (io_uart s ch)\<lparr>ua_rx := ws\<rparr>)"])
     (simp_all add: uart_rbr_def upd_uart_def uart_rx_ring_put_def)

lemma rx_stage_ok:
  assumes "\<forall>c. ring_ok (io_rx s c)" "ch < UART_CHANNELS"
  shows "(\<forall>c. ring_ok (io_rx (rx_stage k ch s) c)) \<and> rx_frame ch s (rx_stage k ch s) \<and>
    ring_list (io_rx (rx_stage k ch s) ch) = take UART_RING_SIZE (ring_list (io_rx s ch) @ take k (ua_rx (io_uart s ch))) \<and>
    ua_rx (io_uart (rx_stage k ch s) ch) = drop k (ua_rx (io_uart s ch))"
  using assms(1)
proof (induction k arbitrary: s)
  case 0
  have "length (ring_list (io_rx s ch)) \<le> UART_RING_SIZE" using 0 by (simp add: ring_ok_def)
  then show ?case using 0 rx_frame_refl by simp
next
  case (Suc k)
  show ?case
  proof (cases "ua_rx (io_uart s ch)")
    case Nil
    have "length (ring_list (io_rx s ch)) \<le> UART_RING_SIZE" using Suc.prems by (simp add: ring_ok_def)
    then show ?thesis using Nil Suc.prems rx_frame_refl by simp
  next
    case (Cons w ws)
    define s1 where "s1 = upd_uart ch (\<lambda>h. h\<lparr>ua_rx := ws\<rparr>) s"
    define s2 where "s2 = uart_rx_ring_put ch (uint w) s1"
    have rx1: "io_rx s1 = io_rx s" "ua_rx (io_uart s1 ch) = ws" by (simp_all add: s1_def)
    have fr: "rx_frame ch s s2"
      using rx_frame_step[OF Cons assms(2), of "uint w"] Cons by (simp add: uart_rbr_def s1_def s2_def)
    have run: "rx_stage (Suc k) ch s = rx_stage k ch s2" using Cons by (simp add: uart_rbr_def s1_def s2_def)
    have ok1: "\<forall>c. ring_ok (io_rx s1 c)" using Suc.prems rx1 by simp
    note p = rx_put_ok[OF ok1 assms(2), of w, folded s2_def]
    have u2: "ua_rx (io_uart s2 ch) = ws" using p(3) rx1(2) by (metis tio.simps(6) tio.update_convs(4) tio.ext_inject tio.surjective)
    have "take UART_RING_SIZE (take UART_RING_SIZE (ring_list (io_rx s ch) @ [w]) @ take k ws) =
        take UART_RING_SIZE (ring_list (io_rx s ch) @ w # take k ws)"
      by (cases "length (ring_list (io_rx s ch)) < UART_RING_SIZE") (simp_all add: not_less)
    then show ?thesis
      using Suc.IH[OF p(1)] p(2) u2 rx1 Cons rx_frame_trans[OF fr] unfolding run by simp
  qed
qed

lemma set_spl_fields [simp]:
  "io_kern (set_spl m s) = io_kern s" "io_tty (set_spl m s) = io_tty s" "io_rx (set_spl m s) = io_rx s"
  "io_txq (set_spl m s) = io_txq s" "io_uart (set_spl m s) = io_uart s" "io_canonb (set_spl m s) = io_canonb s"
  "cs_spl (io_cs (set_spl m s)) = m"
  by (simp_all add: set_spl_def)

lemma stage_rx_ok:
  assumes ok: "tio_ok s Q n" and ch: "ch < UART_CHANNELS"
  defines "s' \<equiv> uart_stage_rx_channel ch s"
  shows "tio_ok s' Q n" "io_kern s' = io_kern s" "io_tty s' = io_tty s" "io_txq s' = io_txq s" "io_canonb s' = io_canonb s"
    "cs_spl (io_cs s') = cs_spl (io_cs s)" "ua_tx (io_uart s' ch) = ua_tx (io_uart s ch)"
    "ring_list (io_rx s' ch) = take UART_RING_SIZE (ring_list (io_rx s ch) @ take 64 (ua_rx (io_uart s ch)))"
    "ua_rx (io_uart s' ch) = drop 64 (ua_rx (io_uart s ch))"
proof -
  have rings: "\<forall>c. ring_ok (io_rx (set_spl 6 s) c)" using tio_okD(3)[OF ok] by simp
  define v where "v = rx_stage 64 ch (set_spl 6 s)"
  note r = rx_stage_ok[OF rings ch, of 64, folded v_def]
  obtain x h where v: "v = (set_spl 6 s)\<lparr>io_rx := x, io_uart := h\<rparr>" using r by (auto simp add: rx_frame_def)
  have s': "s' = set_spl (cs_spl (io_cs s)) v"
    by (simp add: s'_def uart_stage_rx_channel_def Let_def v_def UART_RX_POLL_BUDGET_def)
  show "io_kern s' = io_kern s" "io_tty s' = io_tty s" "io_txq s' = io_txq s" "io_canonb s' = io_canonb s"
    "cs_spl (io_cs s') = cs_spl (io_cs s)"
    unfolding s' using v by simp_all
  show "ua_tx (io_uart s' ch) = ua_tx (io_uart s ch)" using r by (simp add: s' rx_frame_def)
  show "ring_list (io_rx s' ch) = take UART_RING_SIZE (ring_list (io_rx s ch) @ take 64 (ua_rx (io_uart s ch)))"
    "ua_rx (io_uart s' ch) = drop 64 (ua_rx (io_uart s ch))"
    using r by (simp_all add: s')
  have "tqs s' Q n \<longleftrightarrow> tqs s Q n"
    by (rule tqs_cong[of _ _ "cs_spl (io_cs s)"]) (simp_all add: s' v set_spl_def)
  then show "tio_ok s' Q n" using ok r by (simp add: tio_ok_def s' v)
qed

lemma intr_ok:
  assumes ok: "tio_ok s Q n" and ch: "ch < UART_CHANNELS"
  defines "s' \<equiv> uart_intr_stage_channel ch s"
  shows "tio_ok s' Q n" "out_only s Q s' Q" "io_kern s' = io_kern s" "io_tty s' = io_tty s" "line_out ch s' Q = line_out ch s Q"
    "ring_list (io_rx s' ch) = take UART_RING_SIZE (ring_list (io_rx s ch) @ take 64 (ua_rx (io_uart s ch)))"
proof -
  define s0 where "s0 = set_spl 6 s"
  have ok0: "tio_ok s0 Q n" using ok by (simp add: s0_def)
  define s1 where "s1 = uart_stage_rx_channel ch s0"
  note r = stage_rx_ok[OF ok0 ch, folded s1_def]
  define s2 where "s2 = tx_send 64 ch s1"
  have t: "ring_ok (io_txq s2 ch)" "send_frame ch s1 s2"
      "ua_tx (io_uart s2 ch) @ ring_list (io_txq s2 ch) = ua_tx (io_uart s1 ch) @ ring_list (io_txq s1 ch)"
    using tx_send_ok[OF tio_okD(2)[OF r(1)] ch, of 64] by (simp_all add: s2_def)
  define s3 where "s3 = (if ur_count (io_txq s2 ch) = 0
      then upd_uart ch (\<lambda>h. h\<lparr>ua_ier := ua_ier h AND NOT UART_IER_TX\<rparr>) s2 else s2)"
  have s': "s' = set_spl (cs_spl (io_cs s)) s3"
    by (simp add: s'_def uart_intr_stage_channel_def Let_def s0_def s1_def s2_def s3_def UART_TX_POLL_BUDGET_def)
  have f3: "io_kern s3 = io_kern s2" "io_tty s3 = io_tty s2" "io_rx s3 = io_rx s2" "io_txq s3 = io_txq s2"
      "io_canonb s3 = io_canonb s2" "io_cs s3 = io_cs s2" "ua_tx (io_uart s3 ch) = ua_tx (io_uart s2 ch)"
    by (simp_all add: s3_def)
  have f2: "io_kern s2 = io_kern s1" "io_tty s2 = io_tty s1" "io_rx s2 = io_rx s1" "io_canonb s2 = io_canonb s1"
      "io_cs s2 = io_cs s1" "\<forall>j. j \<noteq> ch \<longrightarrow> io_txq s2 j = io_txq s1 j"
    using t(2) by (simp_all add: send_frame_def rest_same_def)
  show kt: "io_kern s' = io_kern s" "io_tty s' = io_tty s" using f2 f3 r by (simp_all add: s' s0_def)
  have cb: "io_canonb s' = io_canonb s" "cs_spl (io_cs s') = cs_spl (io_cs s)" using f2 f3 r by (simp_all add: s' s0_def)
  show "ring_list (io_rx s' ch) = take UART_RING_SIZE (ring_list (io_rx s ch) @ take 64 (ua_rx (io_uart s ch)))"
    using f2 f3 r(8) by (simp add: s' s0_def)
  have lo: "ua_tx (io_uart s' ch) @ ring_list (io_txq s' ch) = ua_tx (io_uart s ch) @ ring_list (io_txq s ch)"
    using t(3) f3 r(4,7) by (simp add: s' s0_def)
  show "line_out ch s' Q = line_out ch s Q" using lo by (simp add: line_out_def tflag_def kt)
  have "tqs s' Q n \<longleftrightarrow> tqs s1 Q n"
    by (rule tqs_cong[of _ _ "cs_spl (io_cs s)"]) (simp_all add: s' set_spl_def f2 f3)
  moreover have "ring_ok (io_txq s' c)" for c
    using t(1) f2(6) f3(4) tio_okD(2)[OF r(1)] by (cases "c = ch") (simp_all add: s')
  ultimately show "tio_ok s' Q n" using r(1) f2 f3 by (simp add: tio_ok_def s')
  show "out_only s Q s' Q"
    unfolding out_only_def kt cb using tty_same only_sched_refl by blast
qed

section \<open>Any order of steps\<close>

text \<open>
  One step: a character that a cooked terminal receives, a character of output, the start of output, the
  poll and the interrupt of a channel, a flush, and a read that finds a line.
\<close>

inductive tty_step :: "tio \<Rightarrow> tio \<Rightarrow> bool" where
  key: "\<lbrakk>cooked i s; ttyinput c i s = Inr s'\<rbrakk> \<Longrightarrow> tty_step s s'"
| echo: "tty_step s (ttyoutput c i s)"
| start: "ttstart i s = Inr s' \<Longrightarrow> tty_step s s'"
| poll: "\<lbrakk>ch < UART_CHANNELS; uart_poll_tx_channel ch s = Inr s'\<rbrakk> \<Longrightarrow> tty_step s s'"
| intr: "ch < UART_CHANNELS \<Longrightarrow> tty_step s (uart_intr_stage_channel ch s)"
| flush: "flushtty i s = Inr s' \<Longrightarrow> tty_step s s'"
| read: "\<lbrakk>cooked i s; t_delct (io_tty s i) \<noteq> 0; canon i es s = Ret r es s'\<rbrakk> \<Longrightarrow> tty_step s s'"

inductive tty_run :: "tio \<Rightarrow> tio \<Rightarrow> bool" for s0 where
  init: "tty_run s0 s0"
| step: "\<lbrakk>tty_run s0 s; tty_step s s'\<rbrakk> \<Longrightarrow> tty_run s0 s'"

lemma step_lines:
  assumes "tty_step s s'" "tio_ok s Q n" "lines_ok s Q"
  shows "\<exists>Q' n'. tio_ok s' Q' n' \<and> lines_ok s' Q'"
  using assms
proof cases
  case (key i c)
  then show ?thesis using cooked_lines[OF assms(2,3) key(1), of c] by auto
next
  case (echo c i)
  then show ?thesis using silent_lines[OF silent_ttyoutput assms(2,3)] by blast
next
  case (start i)
  then show ?thesis using calm_lines[OF calm_ttstart[of i i] assms(2,3)] by auto
next
  case (poll ch)
  then show ?thesis using calm_lines[OF calm_poll[OF poll(1), of ch] assms(2,3)] by auto
next
  case (intr ch)
  then show ?thesis using intr_ok(1,2)[OF assms(2) intr(2)] lines_ok_out[OF assms(3)] by blast
next
  case (flush i)
  then show ?thesis using flush_lines[OF assms(2,3), of i] by auto
next
  case (read i es r)
  then show ?thesis using read_lines[OF assms(2,3) read(1,2), of es] by auto
qed

lemma run_lines:
  assumes "tty_run s0 s" "tio_ok s0 Q n" "lines_ok s0 Q"
  shows "\<exists>Q' n'. tio_ok s Q' n' \<and> lines_ok s Q'"
  using assms by (induction rule: tty_run.induct) (use step_lines in blast)+

section \<open>A line from the keyboard\<close>










lemma key_stored:
  assumes ok: "tio_ok s Q n" and ck: "cooked i s"
    and d: "fate (io_tty s i) c = Store d" and room: "3 \<le> n" "length (Q i Rawq) \<le> 256"
  shows "\<exists>s' Q' n'. ttyinput c i s = Inr s' \<and> tio_ok s' Q' n' \<and> grows i (key_cost (io_tty s i) c) n Q (n' + 2) Q' \<and>
    in_frame i s Q s' Q' \<and> joined i d (ends_line (io_tty s i) d) s Q s' Q'"
proof -
  from ttyinput_spec[OF ok ck, of c] obtain s' Q' n' where
    1: "ttyinput c i s = Inr s'" "tio_ok s' Q' n'" "grows i (key_cost (io_tty s i) c) n Q (n' + 2) Q'" "in_frame i s Q s' Q'"
      "key_done i c n s Q s' Q'"
    by blast
  have "joined i d (ends_line (io_tty s i) d) s Q s' Q'"
    using 1(5) d room by (auto simp add: key_done_def joined_def Let_def split: if_splits)
  then show ?thesis using 1(1-4) by blast
qed




lemma in_frame_canon: "in_frame i s Q s' Q' \<Longrightarrow> io_canonb s' = io_canonb s"
  by (simp add: in_frame_def)





lemma edit_length: "edit t esc line ws = (line', rest, e) \<Longrightarrow> length line' \<le> length line + length ws"
proof (induction t esc line ws rule: edit.induct)
  case (2 t esc line w ws)
  have "length (edit_char t esc line w) \<le> length line + 1"
    by (auto simp add: edit_char_def Let_def)
  then show ?case using 2 by (auto simp add: Let_def split: if_splits)
qed simp



section \<open>A machine at rest\<close>

text \<open>Terminals, rings and UARTs of zeros, the characters blocks as \<open>cinit\<close> leaves them, and a terminal that has been opened.\<close>

definition tty0 :: tty where
  "tty0 = \<lparr>t_rawq = \<lparr>c_cc = 0, c_cf = 0, c_cl = 0\<rparr>, t_canq = \<lparr>c_cc = 0, c_cf = 0, c_cl = 0\<rparr>, t_outq = \<lparr>c_cc = 0, c_cf = 0, c_cl = 0\<rparr>,
     t_chan = None, t_dev = 0, t_flags = 0, t_state = 0, t_pgrp = 0, t_delct = 0, t_line = 0, t_col = 0, t_erase = 0, t_kill = 0,
     t_char = 0, t_ispeed = 0, t_ospeed = 0, t_intrc = 0, t_quitc = 0, t_startc = 0, t_stopc = 0, t_eofc = 0, t_brkc = 0\<rparr>"

definition ring0 :: epoch68_uart_ring where
  "ring0 = \<lparr>ur_head = 0, ur_tail = 0, ur_count = 0, ur_data = (\<lambda>_. 0)\<rparr>"

definition uart0 :: uart16550 where
  "uart0 = \<lparr>ua_thre = [], ua_rx = [], ua_tx = [], ua_ier = 0, ua_lcr = 0, ua_fcr = 0\<rparr>"

definition rest_tio :: "kernel \<Rightarrow> tio" where
  "rest_tio k = \<lparr>io_kern = k,
     io_cs = snd (cinit 4096 [] \<lparr>cs_next = (\<lambda>_. 0), cs_info = (\<lambda>_. 0), cfreelist = 0, cbad = 0, cs_spl = 0\<rparr>),
     io_tty = (\<lambda>_. tty0), io_rx = (\<lambda>_. ring0), io_txq = (\<lambda>_. ring0), io_uart = (\<lambda>_. uart0), io_canonb = (\<lambda>_. 0),
     io_past_maptab = (\<lambda>_. 0), tk_nin = 0, tk_nout = 0\<rparr>"

definition open_tio :: "16 word \<Rightarrow> tio" where
  "open_tio fl = ttychars 0 (upd_tty 0 (\<lambda>t. t\<lparr>t_flags := fl, t_state := ISOPEN OR CARR_ON, t_pgrp := 2\<rparr>) (rest_tio demo_sched))"

lemma rest_tqs: "tqs (rest_tio k) (\<lambda>_ _. []) NCLIST"
proof -
  define cs where "cs = io_cs (rest_tio k)"
  have "cinit 4096 [] \<lparr>cs_next = (\<lambda>_. 0), cs_info = (\<lambda>_. 0), cfreelist = 0, cbad = 0, cs_spl = 0\<rparr> = (0, cs)"
    unfolding cs_def rest_tio_def by (simp only: tio.simps) (simp add: cinit_def)
  from cinit_free_list[OF _ _ this] obtain F where F: "chain (cs_next cs) (cfreelist cs) F" "distinct F" "length F = NCLIST"
    by (auto simp add: cfree_base_def cb_base_def CROUND_def cb_off_def)
  have q: "tq q tty0 = \<lparr>c_cc = 0, c_cf = 0, c_cl = 0\<rparr>" for q by (cases q) (simp_all add: tty0_def)
  have "tqs_with (tqueues (rest_tio k)) cs F (\<lambda>_ _. []) (\<lambda>_ _. [])"
    using F distinct_card[OF F(2)] by (simp add: tqs_with_def cl_ok_def q_ok_def contents_def rest_tio_def q)
  then show ?thesis using F(3) unfolding tqs_def cs_def by blast
qed

lemma ring0_ok [simp]: "ring_ok ring0" "ring_list ring0 = []"
  by (simp_all add: ring_ok_def ring_list_def ring0_def UART_RING_SIZE_def)

lemma open_ok: "tio_ok (open_tio fl) (\<lambda>_ _. []) NCLIST"
proof -
  have "tqs (open_tio fl) (\<lambda>_ _. []) NCLIST"
    unfolding open_tio_def ttychars_def by (subst tqs_upd_tty, (case_tac k; simp))+ (rule rest_tqs)
  then show ?thesis by (simp add: tio_ok_def open_tio_def ttychars_def upd_tty_def rest_tio_def demo_sched_wf)
qed

lemma open_tty [simp]:
  "io_tty (open_tio fl) 0 = tty0\<lparr>t_flags := fl, t_state := ISOPEN OR CARR_ON, t_pgrp := 2, t_intrc := CINTR, t_quitc := CQUIT,
     t_startc := CSTART, t_stopc := CSTOP, t_eofc := CEOT, t_brkc := to_i8 CBRK, t_erase := CERASE, t_kill := CKILL\<rparr>"
  "io_tty (open_tio fl) (Suc j) = tty0" "io_canonb (open_tio fl) = (\<lambda>_. 0)" "io_kern (open_tio fl) = demo_sched"
  "io_txq (open_tio fl) = (\<lambda>_. ring0)" "io_rx (open_tio fl) = (\<lambda>_. ring0)" "io_uart (open_tio fl) = (\<lambda>_. uart0)"
  by (simp_all add: open_tio_def ttychars_def upd_tty_def rest_tio_def)

lemma open_lines: "lines_ok (open_tio fl) (\<lambda>_ _. [])"
proof -
  have "raw_ok (io_tty (open_tio fl) i) []" for i
    by (cases i) (simp_all add: raw_ok_def tty0_def to_i8_def)
  then show ?thesis by (simp add: lines_ok_def no_escape_below_def)
qed

section \<open>Properties\<close>

text \<open>
  Claim C28. Whatever the order of typed characters, output, output starts, UART polls, interrupts, flushes and reads of cooked terminals,
  with any of the modes of a cooked terminal, the character queues, rings and process table stay well formed, no character block is
  lost, and \<open>t_delct\<close> tells a reader the truth: it is 0 exactly when
  the raw queue holds no complete line. It is the number of delimiters kept in a signed byte, and the raw queue has at most
  258 characters, no two delimiters next to each other, so that the byte cannot wrap round to 0.\<close>

theorem lines_counted:
  assumes "tty_run s0 s" "tio_ok s0 (\<lambda>_ _. []) n" "no_escape_below s0" "\<forall>i. t_delct (io_tty s0 i) = 0"
  shows "\<exists>Q n'. tio_ok s Q n' \<and>
    (\<forall>i. (t_delct (io_tty s i) = 0 \<longleftrightarrow> 0xFF \<notin> set (Q i Rawq)) \<and>
         t_delct (io_tty s i) = to_i8 (int (count_list (Q i Rawq) 0xFF)) \<and> length (Q i Rawq) \<le> 258 \<and>
         successively (\<lambda>a b. a \<noteq> 0xFF \<or> b \<noteq> 0xFF) (Q i Rawq))"
proof -
  have "lines_ok s0 (\<lambda>_ _. [])" using assms(3,4) by (simp add: lines_ok_def raw_ok_def to_i8_def)
  from run_lines[OF assms(1,2) this] obtain Q n' where 1: "tio_ok s Q n'" "lines_ok s Q" by blast
  have raw: "raw_ok (io_tty s i) (Q i Rawq)" for i using 1(2) by (simp add: lines_ok_def)
  have "(t_delct (io_tty s i) = 0 \<longleftrightarrow> 0xFF \<notin> set (Q i Rawq)) \<and>
      t_delct (io_tty s i) = to_i8 (int (count_list (Q i Rawq) 0xFF)) \<and> length (Q i Rawq) \<le> 258 \<and> apart (Q i Rawq)" for i
    using raw[of i] raw_ok_waits[OF raw[of i]] by (simp only: raw_ok_def delims_def simp_thms)
  with 1(1) show ?thesis by (intro exI[of _ Q] exI[of _ n'] conjI[OF _ allI])
qed

text \<open>
  Claim C32. The UART poll sends output in order and loses none: what the line has carried, then the transmit ring, then the output
  queue (without its delays) is the same sequence before and after, for any answers of the ready bit. The terminal is \<open>BUSY\<close> exactly
  while the ring is not empty, and when the queue has fallen to its low mark, the ring is empty and \<open>ASLEEP\<close> said that somebody waits
  for that, nobody is left asleep waiting for it.\<close>

theorem output_in_order:
  assumes "tio_ok s Q n" "ch < UART_CHANNELS"
  shows "\<exists>s' xs n'. uart_poll_tx_channel ch s = Inr s' \<and> tio_ok s' (upd2 ch Outq xs Q) n' \<and>
    line_out ch s' (upd2 ch Outq xs Q) = line_out ch s Q \<and>
    (tstate ch BUSY s' \<longleftrightarrow> ur_count (io_txq s' ch) \<noteq> 0) \<and>
    (length xs \<le> 50 \<and> ur_count (io_txq s' ch) = 0 \<and> tstate ch ASLEEP s \<longrightarrow> outq_awake ch s')"
  using poll_spec[OF assms] by blast

text \<open>
  Claim C33. Output on a terminal with \<open>CRMOD\<close> and \<open>XTABS\<close> appears as text: a tab becomes the spaces up to the next multiple of 8, a
  newline becomes a carriage return and a line feed, and the column counted in a signed byte stays right modulo 256 for
  lines of any length, so that the tab stops never go wrong.\<close>

theorem text_rendered:
  assumes "tqs s Q n" "text_modes (t_flags (io_tty s i))" "t_col (io_tty s i) = to_i8 col" "\<forall>c \<in> set cs. text_char c"
    "length (render col cs) \<le> n"
  shows "\<exists>n'. tqs (fold (\<lambda>c. ttyoutput c i) cs s) (upd2 i Outq (Q i Outq @ render col cs) Q) n' \<and>
    t_col (io_tty (fold (\<lambda>c. ttyoutput c i) cs s) i) = to_i8 (foldl advance col cs)"
  using ttyoutput_all[OF assms(2-4)] emitsE[OF _ assms(1,5)] by metis

text \<open>
  Claim C29. The fate of every character that a terminal in cooked mode receives, with and without \<open>TANDEM\<close>. Start and stop characters change
  nothing of the input; interrupt and quit empty the queues and post their signal to exactly the processes of the terminal's group
  (unless a channel is attached); any other character joins the raw queue behind those that wait, with case folding and the newline for
  a return, and with a delimiter behind it, which is counted, if it ends a line. There are two exceptions. When more than 256 characters
  wait in the raw queue, they and the canonical queue are thrown away: without \<open>TANDEM\<close> together with the new character, if that would
  have joined them, and with \<open>TANDEM\<close> before it is looked at, so that it finds empty queues. And when fewer than two character
  blocks are free, three with \<open>TANDEM\<close>, the character or the delimiter behind it can be lost, without an error and without a count.\<close>

theorem key_fate:
  assumes "tio_ok s Q n" "cooked i s"
  shows "\<exists>s' Q' n'. ttyinput c i s = Inr s' \<and> tio_ok s' Q' n' \<and> in_frame i s Q s' Q' \<and> key_done i c n s Q s' Q'"
  using ttyinput_spec[OF assms] by blast



text \<open>
  The UART interrupt only moves bytes: received bytes join the receive ring in order, at most 64 of them and those beyond
  the capacity of the ring are lost; staged output is sent in order; neither terminals nor processes are touched.\<close>

theorem interrupt_stages:
  assumes "tio_ok s Q n" "ch < UART_CHANNELS"
  shows "tio_ok (uart_intr_stage_channel ch s) Q n \<and> io_kern (uart_intr_stage_channel ch s) = io_kern s \<and>
    io_tty (uart_intr_stage_channel ch s) = io_tty s \<and> line_out ch (uart_intr_stage_channel ch s) Q = line_out ch s Q \<and>
    ring_list (io_rx (uart_intr_stage_channel ch s) ch) =
      take UART_RING_SIZE (ring_list (io_rx s ch) @ take 64 (ua_rx (io_uart s ch)))"
  using intr_ok[OF assms] by blast

section \<open>Instances\<close>

lemma open_cooked [simp]: "cooked 0 (open_tio CRMOD)" "cooked 0 (open_tio (CRMOD OR XTABS))"
  by (simp_all add: cooked_def flag_simps)

lemma open_fate: "fate (io_tty (open_tio CRMOD) 0) 10 = Store 10" "key_cost (io_tty (open_tio CRMOD) 0) 10 = 0"
  by (simp_all add: fate_def fold_case_def key_cost_def fate_cost_def echo_cost_def flag_simps CSTART_def CSTOP_def CQUIT_def CINTR_def)

lemma open_newline:
  "\<exists>s Q n. ttyinput 10 0 (open_tio CRMOD) = Inr s \<and> tio_ok s Q n \<and> 98 \<le> n \<and> no_escape_below s \<and> cooked 0 s \<and>
    Q 0 Rawq = [10, 0xFF] \<and> Q 0 Canq = [] \<and> t_delct (io_tty s 0) = 1 \<and> t_flags (io_tty s 0) = CRMOD \<and>
    t_erase (io_tty s 0) = CERASE \<and> t_kill (io_tty s 0) = CKILL \<and> t_eofc (io_tty s 0) = CEOT"
proof -
  from key_stored[OF open_ok open_cooked(1) open_fate(1)] obtain s Q n where
    1: "ttyinput 10 0 (open_tio CRMOD) = Inr s" "tio_ok s Q n" "grows 0 0 NCLIST (\<lambda>_ _. []) (n + 2) Q" "in_frame 0 (open_tio CRMOD) (\<lambda>_ _. []) s Q"
      "joined 0 10 True (open_tio CRMOD) (\<lambda>_ _. []) s Q"
    using open_fate(2) by (auto simp add: NCLIST_def ends_line_def)
  note f = in_frame_fields[OF 1(4)] in_frame_canon[OF 1(4)]
  have "Q 0 Rawq = [10, 0xFF]" "Q 0 Canq = []" "t_delct (io_tty s 0) = 1"
    using 1(5) by (simp_all add: joined_def tty0_def to_i8_def)
  moreover have "cooked 0 s" using open_cooked(1) by (simp add: cooked_def f)
  moreover have "no_escape_below s" by (simp add: no_escape_below_def f)
  moreover have "98 \<le> n" using 1(3) by (simp add: NCLIST_def grows_def)
  ultimately show ?thesis using 1(1,2) by (intro exI[of _ s] exI[of _ Q] exI[of _ n]) (simp add: f)
qed

theorem lines_counted_witness:
  "\<exists>s Q n. tty_run (open_tio CRMOD) s \<and> ttyinput 10 0 (open_tio CRMOD) = Inr s \<and> tio_ok s Q n \<and>
    (t_delct (io_tty s 0) = 0 \<longleftrightarrow> 0xFF \<notin> set (Q 0 Rawq))"
proof -
  obtain s where k: "ttyinput 10 0 (open_tio CRMOD) = Inr s" using open_newline by blast
  from tty_run.step[OF tty_run.init tty_step.key[OF open_cooked(1) k]] have r: "tty_run (open_tio CRMOD) s" .
  have "t_delct (io_tty (open_tio CRMOD) i) = 0" for i by (cases i) (simp_all add: tty0_def)
  then show ?thesis using lines_counted[OF r open_ok] r k by (auto simp add: no_escape_below_def)
qed

theorem output_in_order_witness:
  "\<exists>s' xs. uart_poll_tx_channel 0 ((open_tio CRMOD)\<lparr>io_txq := \<lambda>_. ring_put 66 (ring_put 65 ring0)\<rparr>) = Inr s' \<and>
    line_out 0 s' (upd2 0 Outq xs (\<lambda>_ _. [])) = [65, 66]"
proof -
  let ?r = "ring_put 66 (ring_put 65 ring0)" and ?s = "(open_tio CRMOD)\<lparr>io_txq := \<lambda>_. ring_put 66 (ring_put 65 ring0)\<rparr>"
  have c: "ur_count ring0 < UART_RING_SIZE" "ur_count (ring_put 65 ring0) < UART_RING_SIZE"
    by (simp_all add: ring0_def ring_put_def UART_RING_SIZE_def)
  have r: "ring_ok ?r" "ring_list ?r = [65, 66]"
    using ring_put_ok[OF ring0_ok(1) c(1), of 65] ring_put_ok[of "ring_put 65 ring0" 66, OF _ c(2)] by simp_all
  have "tio_ok ?s (\<lambda>_ _. []) NCLIST" using open_ok[of CRMOD] r(1) by (simp add: tio_ok_def)
  from output_in_order[OF this, of 0] obtain s' xs where
    "uart_poll_tx_channel 0 ?s = Inr s'" "line_out 0 s' (upd2 0 Outq xs (\<lambda>_ _. [])) = line_out 0 ?s (\<lambda>_ _. [])"
    by (auto simp add: UART_CHANNELS_def)
  moreover have "line_out 0 ?s (\<lambda>_ _. []) = [65, 66]" using r(2) by (simp add: line_out_def uart0_def)
  ultimately show ?thesis by auto
qed

theorem text_rendered_witness:
  "\<exists>n. tqs (fold (\<lambda>c. ttyoutput c 0) [97, 9, 98, 10] (open_tio (CRMOD OR XTABS)))
    (upd2 0 Outq [97, 32, 32, 32, 32, 32, 32, 32, 98, 13, 10] (\<lambda>_ _. [])) n"
proof -
  have r: "render 0 [97, 9, 98, 10] = [97, 32, 32, 32, 32, 32, 32, 32, 98, 13, 10]"
    by (simp add: shown_def advance_def next_stop_def numeral_eq_Suc)
  have "text_modes (t_flags (io_tty (open_tio (CRMOD OR XTABS)) 0))" by (simp add: text_modes_def flag_simps)
  moreover have "t_col (io_tty (open_tio (CRMOD OR XTABS)) 0) = to_i8 0" by (simp add: tty0_def to_i8_def)
  moreover have "\<forall>c \<in> set [97, 9, 98, 10]. text_char c" by (simp add: text_char_def)
  ultimately show ?thesis
    using text_rendered[OF tio_okD(1)[OF open_ok], of "CRMOD OR XTABS" 0 0 "[97, 9, 98, 10]"] unfolding r by (auto simp add: NCLIST_def)
qed

theorem key_fate_witness:
  "\<exists>s Q. ttyinput 10 0 (open_tio CRMOD) = Inr s \<and> Q 0 Rawq = [10, 0xFF] \<and> t_delct (io_tty s 0) = 1"
proof -
  from key_fate[OF open_ok open_cooked(1), of 10] obtain s Q where
    "ttyinput 10 0 (open_tio CRMOD) = Inr s" "key_done 0 10 NCLIST (open_tio CRMOD) (\<lambda>_ _. []) s Q"
    by blast
  then show ?thesis using open_fate(1)
    by (auto simp add: key_done_def Let_def ends_line_def NCLIST_def tty0_def to_i8_def flag_simps)
qed




theorem interrupt_stages_witness:
  "ring_list (io_rx (uart_intr_stage_channel 2 (upd_uart 2 (\<lambda>h. h\<lparr>ua_rx := [104, 105]\<rparr>) (open_tio CRMOD))) 2) = [104, 105]"
proof -
  have "tio_ok (upd_uart 2 (\<lambda>h. h\<lparr>ua_rx := [104, 105]\<rparr>) (open_tio CRMOD)) (\<lambda>_ _. []) NCLIST" using open_ok by simp
  from interrupt_stages[OF this, of 2] show ?thesis by (simp add: UART_CHANNELS_def UART_RING_SIZE_def)
qed

end
