(* ===== verification/Console.thy ===== *)
theory Console
  imports Terminals "HOL-Library.Signed_Division"
begin

text \<open>
  The console: \<open>putchar\<close> of \<open>dev/kl.c\<close>, which writes to UART 0 and keeps the last \<open>MSGBUFS\<close> characters in \<open>msgbuf\<close>, and
  the kernel's \<open>printf\<close> of \<open>sys/prf.c\<close>.

  A result \<open>None\<close> means that the routine does not return: the transmitter never gets ready again, or the format runs past its end.
  Arguments are the words on the stack, as a function of their position, and \<open>cn_string\<close> gives the characters at an address up to
  the terminating zero. \<open>cn_around\<close> is the memory around the sixteen digits, which \<open>printn\<close> reads for the smallest number.
\<close>

section \<open>State\<close>

definition MSGBUFS :: nat where "MSGBUFS = 1024"

record console =
  cn_io :: tio
  cn_msgbuf :: "nat \<Rightarrow> 8 word"
  cn_msgbufp :: nat
  cn_string :: "int \<Rightarrow> int list"
  cn_around :: "int \<Rightarrow> int"

definition obind :: "'a option \<Rightarrow> ('a \<Rightarrow> 'b option) \<Rightarrow> 'b option" where
  "obind r f = (case r of None \<Rightarrow> None | Some a \<Rightarrow> f a)"

lemma obind_simps [simp]: "obind None f = None" "obind (Some a) f = f a"
  by (simp_all add: obind_def)

section \<open>putchar\<close>

definition cn_save :: "int \<Rightarrow> console \<Rightarrow> console" where
  "cn_save c s =
    s\<lparr>cn_msgbuf := (cn_msgbuf s)(cn_msgbufp s := word_of_int c),
      cn_msgbufp := if cn_msgbufp s + 1 \<ge> MSGBUFS then 0 else cn_msgbufp s + 1\<rparr>"

definition cn_send :: "int \<Rightarrow> console \<Rightarrow> console option" where
  "cn_send c s =
    (case thre_spin (ua_thre (io_uart (cn_io s) 0)) of
       None \<Rightarrow> None
     | Some bs \<Rightarrow> Some (s\<lparr>cn_io := uart_thr 0 c (upd_uart 0 (\<lambda>h. h\<lparr>ua_thre := bs\<rparr>) (cn_io s))\<rparr>))"

function putchar :: "int \<Rightarrow> console \<Rightarrow> console option" where
  "putchar c s =
    (let s = (if c \<noteq> 0 \<and> c \<noteq> 13 \<and> c \<noteq> 0x7F then cn_save c s else s)
     in if c = 0 then Some s
        else obind (if c = 10 then putchar 13 s else Some s) (cn_send c))"
  by pat_completeness auto
termination
  by (relation "measure (\<lambda>(c, s). if c = 10 then 1 else 0)") auto

declare putchar.simps [simp del]

section \<open>printn\<close>

definition digit_char :: "int \<Rightarrow> console \<Rightarrow> int" where
  "digit_char k s = (if 0 \<le> k \<and> k < 10 then 48 + k else if 10 \<le> k \<and> k < 16 then 55 + k else cn_around s k)"

lemma to_i32_abs: "\<bar>to_i32 x\<bar> \<le> \<bar>x\<bar>"
proof -
  have i: "to_i32 x = x \<or> - (2 ^ 31) \<le> to_i32 x \<and> to_i32 x < 2 ^ 31 \<and> (x < - (2 ^ 31) \<or> 2 ^ 31 \<le> x)"
    unfolding to_i32_def using signed_take_bit_int_less_exp[of 31 x] signed_take_bit_int_greater_eq_minus_exp[of 31 x]
    by (cases "- (2 ^ 31) \<le> x \<and> x < 2 ^ 31") (auto simp add: signed_take_bit_int_eq_self)
  then show ?thesis by auto
qed

lemma sdiv_shrinks:
  assumes "2 \<le> b" "x sdiv b \<noteq> (0 :: int)"
  shows "\<bar>x sdiv b\<bar> < \<bar>x\<bar>"
proof -
  have "\<bar>x sdiv b\<bar> = \<bar>x\<bar> div b"
    using assms(1) pos_imp_zdiv_nonneg_iff[of b "\<bar>x\<bar>"] by (cases "x < 0") (auto simp add: signed_divide_int_def abs_mult sgn_if)
  moreover have "x \<noteq> 0" using assms(2) by (auto simp add: signed_divide_int_def)
  moreover have "\<bar>x\<bar> div b < \<bar>x\<bar>" using assms(1) calculation(2) by (intro int_div_less_self) auto
  ultimately show ?thesis by simp
qed

lemma printn_shrinks:
  assumes "na = (if n < 0 then to_i32 (- n) else n)" "a = na sdiv b" "a \<noteq> 0" "\<not> b < 2"
  shows "\<bar>a\<bar> < \<bar>n\<bar>"
  using sdiv_shrinks[of b na] to_i32_abs[of "- n"] assms by (auto split: if_splits)

text \<open>Base 0 traps at the division and base 1 never ends; the callers pass 8, 10 and 16.\<close>

function printn :: "int \<Rightarrow> int \<Rightarrow> console \<Rightarrow> console option" where
  "printn n b s =
    (if b < 2 then None
     else obind (if n < 0 then putchar 45 s else Some s) (\<lambda>s.
       let n = (if n < 0 then to_i32 (- n) else n); a = n sdiv b
       in obind (if a \<noteq> 0 then printn a b s else Some s) (\<lambda>s.
            putchar (digit_char (n smod b) s) s)))"
  by pat_completeness auto
termination
  by (relation "measure (\<lambda>(n, b, s). nat \<bar>n\<bar>)") (use printn_shrinks in \<open>fastforce+\<close>)

declare printn.simps [simp del]

section \<open>printf\<close>

fun putchars :: "int list \<Rightarrow> console \<Rightarrow> console option" where
  "putchars [] s = Some s"
| "putchars (c # cs) s = obind (putchar c s) (putchars cs)"

text \<open>The characters of the format, the terminating zero among them, and the position of the next argument.\<close>

fun prf_core :: "int list \<Rightarrow> (nat \<Rightarrow> int) \<Rightarrow> nat \<Rightarrow> console \<Rightarrow> console option" where
  "prf_core [] args k s = None"
| "prf_core (c # fmt) args k s =
    (if c \<noteq> 37 then (if c = 0 then Some s else obind (putchar c s) (prf_core fmt args k))
     else case fmt of
       [] \<Rightarrow> None
     | d # fmt' \<Rightarrow>
         if d = 100 \<or> d = 117 \<or> d = 111 \<or> d = 120
         then obind (printn (args k) (if d = 111 then 8 else if d = 120 then 16 else 10) s) (prf_core fmt' args (k + 1))
         else if d = 115 then obind (putchars (cn_string s (args k)) s) (prf_core fmt' args (k + 1))
         else if d = 68 then obind (printn (args k) 10 s) (prf_core fmt' args (k + 1))
         else prf_core fmt' args k s)"

definition printf :: "int list \<Rightarrow> (nat \<Rightarrow> int) \<Rightarrow> console \<Rightarrow> console option" where
  "printf fmt args s = prf_core fmt args 0 s"

text \<open>A string constant with a line feed and the terminator, and the arguments of a call.\<close>

definition cline :: "string \<Rightarrow> int list" where
  "cline x = map of_char x @ [10, 0]"

definition stack :: "int list \<Rightarrow> nat \<Rightarrow> int" where
  "stack xs k = (if k < length xs then xs ! k else 0)"

text \<open>What \<open>panic\<close> prints, and the warnings of the drivers; strings are addresses.\<close>

definition panic_message :: "int \<Rightarrow> console \<Rightarrow> console option" where
  "panic_message str = printf (cline ''panic: %s'') (stack [str])"

definition prdev :: "int \<Rightarrow> int \<Rightarrow> console \<Rightarrow> console option" where
  "prdev str dev = printf (cline ''%s on dev %u/%u'') (stack [str, major dev, minor dev])"

definition deverror :: "int \<Rightarrow> int \<Rightarrow> int \<Rightarrow> int \<Rightarrow> int \<Rightarrow> console \<Rightarrow> console option" where
  "deverror err dev blkno o1 o2 s =
    obind (prdev err dev s) (printf (cline ''bn=%D er=%o,%o'') (stack [blkno, o1, o2]))"

section \<open>What is printed\<close>

text \<open>The characters on the line for the characters given to \<open>putchar\<close>, and those that \<open>msgbuf\<close> keeps.\<close>

definition on_line :: "int list \<Rightarrow> 8 word list" where
  "on_line cs = concat (map (\<lambda>c. if c = 0 then [] else if c = 10 then [13, 10] else [word_of_int c]) cs)"

definition logged :: "int list \<Rightarrow> 8 word list" where
  "logged cs = map word_of_int (filter (\<lambda>c. c \<noteq> 0 \<and> c \<noteq> 13 \<and> c \<noteq> 0x7F) cs)"

text \<open>How often the transmitter will be ready, and the characters sent so far.\<close>

definition ready :: "console \<Rightarrow> nat" where
  "ready s = length (filter id (ua_thre (io_uart (cn_io s) 0)))"

definition sent :: "console \<Rightarrow> 8 word list" where
  "sent s = ua_tx (io_uart (cn_io s) 0)"

text \<open>\<open>msgbuf\<close> holds the last \<open>MSGBUFS\<close> characters of \<open>log\<close>.\<close>

definition keeps :: "8 word list \<Rightarrow> console \<Rightarrow> bool" where
  "keeps log s \<longleftrightarrow> cn_msgbufp s = length log mod MSGBUFS \<and>
    (\<forall>i < length log. length log \<le> i + MSGBUFS \<longrightarrow> cn_msgbuf s (i mod MSGBUFS) = log ! i)"

definition prints :: "int list \<Rightarrow> console \<Rightarrow> console \<Rightarrow> bool" where
  "prints cs s s' \<longleftrightarrow> sent s' = sent s @ on_line cs \<and> ready s = ready s' + length (on_line cs) \<and>
    cn_string s' = cn_string s \<and> cn_around s' = cn_around s \<and> (\<forall>log. keeps log s \<longrightarrow> keeps (log @ logged cs) s')"

lemma on_line_simps [simp]: "on_line [] = []" "on_line (a @ b) = on_line a @ on_line b"
  by (simp_all add: on_line_def)

lemma logged_simps [simp]: "logged [] = []" "logged (a @ b) = logged a @ logged b"
  by (simp_all add: logged_def)

lemma prints_none [simp]: "prints [] s s"
  by (simp add: prints_def)

lemma prints_trans: "\<lbrakk>prints a s t; prints b t v\<rbrakk> \<Longrightarrow> prints (a @ b) s v"
  by (auto simp add: prints_def simp flip: append_assoc)

text \<open>A routine that prints \<open>cs\<close> if the transmitter gets ready often enough.\<close>

definition outputs :: "(console \<Rightarrow> console option) \<Rightarrow> int list \<Rightarrow> console \<Rightarrow> bool" where
  "outputs f cs s \<longleftrightarrow> (length (on_line cs) \<le> ready s \<longrightarrow> (\<exists>s'. f s = Some s' \<and> prints cs s s'))"

lemma outputs_Some: "outputs Some [] s"
  by (simp add: outputs_def)

lemma outputs_obind:
  assumes "outputs f a s" "\<And>s'. prints a s s' \<Longrightarrow> outputs g b s'"
  shows "outputs (\<lambda>s. obind (f s) g) (a @ b) s"
  unfolding outputs_def
proof
  assume l: "length (on_line (a @ b)) \<le> ready s"
  then obtain t where t: "f s = Some t" "prints a s t" using assms(1) by (auto simp add: outputs_def)
  then have "length (on_line b) \<le> ready t" using l by (simp add: prints_def)
  then obtain v where "g t = Some v" "prints b t v" using assms(2)[OF t(2)] by (auto simp add: outputs_def)
  then show "\<exists>s'. obind (f s) g = Some s' \<and> prints (a @ b) s s'" using t prints_trans by auto
qed

lemma keeps_save:
  assumes "keeps log s"
  shows "keeps (log @ [word_of_int c]) (cn_save c s)"
proof -
  have "(length log + 1) mod MSGBUFS = (if length log mod MSGBUFS + 1 \<ge> MSGBUFS then 0 else length log mod MSGBUFS + 1)"
    using mod_less_divisor[of MSGBUFS "length log"] by (auto simp add: MSGBUFS_def mod_Suc)
  moreover have "i mod MSGBUFS \<noteq> length log mod MSGBUFS" if "i < length log" "length log + 1 \<le> i + MSGBUFS" for i
  proof
    assume "i mod MSGBUFS = length log mod MSGBUFS"
    then have "MSGBUFS dvd length log - i" using that(1) by (metis less_imp_le mod_eq_dvd_iff_nat)
    then show False using that by (auto dest!: dvd_imp_le)
  qed
  ultimately show ?thesis
    using assms by (auto simp add: keeps_def cn_save_def nth_append less_Suc_eq)
qed

lemma thre_spin_ready:
  "filter id bs \<noteq> [] \<Longrightarrow> \<exists>bs'. thre_spin bs = Some bs' \<and> length (filter id bs) = Suc (length (filter id bs'))"
  by (induction bs) auto

lemma cn_send_prints:
  assumes "0 < ready s"
  shows "\<exists>s'. cn_send c s = Some s' \<and> sent s' = sent s @ [word_of_int c] \<and> ready s = Suc (ready s') \<and>
    cn_string s' = cn_string s \<and> cn_around s' = cn_around s \<and> cn_msgbuf s' = cn_msgbuf s \<and> cn_msgbufp s' = cn_msgbufp s"
proof -
  obtain bs where "thre_spin (ua_thre (io_uart (cn_io s) 0)) = Some bs"
      "length (filter id (ua_thre (io_uart (cn_io s) 0))) = Suc (length (filter id bs))"
    using thre_spin_ready assms by (metis length_greater_0_conv ready_def)
  then show ?thesis by (simp add: cn_send_def sent_def ready_def uart_thr_def)
qed

lemma putchar_cr: "outputs (putchar 13) [13] s"
proof -
  have "putchar 13 s = cn_send 13 s" by (subst putchar.simps) simp
  then show ?thesis
    unfolding outputs_def using cn_send_prints[of s 13] by (auto simp add: prints_def on_line_def logged_def keeps_def)
qed

lemma save_same [simp]:
  "sent (cn_save c s) = sent s" "ready (cn_save c s) = ready s" "cn_string (cn_save c s) = cn_string s"
  "cn_around (cn_save c s) = cn_around s"
  by (simp_all add: cn_save_def sent_def ready_def)

lemma putchar_outputs: "outputs (putchar c) [c] s"
  unfolding outputs_def
proof
  assume r: "length (on_line [c]) \<le> ready s"
  define s0 where "s0 = (if c \<noteq> 0 \<and> c \<noteq> 13 \<and> c \<noteq> 0x7F then cn_save c s else s)"
  have k: "keeps log s \<longrightarrow> keeps (log @ logged [c]) s0" for log
    using keeps_save[of log s c] by (simp add: s0_def logged_def)
  have f0: "sent s0 = sent s" "ready s0 = ready s" "cn_string s0 = cn_string s" "cn_around s0 = cn_around s"
    by (simp_all add: s0_def)
  have run: "putchar c s = (if c = 0 then Some s0 else obind (if c = 10 then putchar 13 s0 else Some s0) (cn_send c))"
    by (subst putchar.simps) (simp add: s0_def[symmetric] Let_def)
  show "\<exists>s'. putchar c s = Some s' \<and> prints [c] s s'"
  proof (cases "c = 0 \<or> c \<noteq> 10")
    case True
    then show ?thesis
      using run k f0 r cn_send_prints[of s0 c]
      by (cases "c = 0") (auto simp add: prints_def on_line_def keeps_def)
  next
    case False
    then have c: "c = 10" by simp
    obtain t where t: "putchar 13 s0 = Some t" "prints [13] s0 t"
      using putchar_cr[of s0] r f0 c by (auto simp add: outputs_def on_line_def)
    then have "0 < ready t" using r f0 c by (simp add: prints_def on_line_def)
    from cn_send_prints[OF this, of 10] obtain v where
      v: "cn_send 10 t = Some v" "sent v = sent t @ [word_of_int 10]" "ready t = Suc (ready v)" "cn_string v = cn_string t"
        "cn_around v = cn_around t" "cn_msgbuf v = cn_msgbuf t" "cn_msgbufp v = cn_msgbufp t" by blast
    have "keeps log t \<Longrightarrow> keeps log v" for log using v(6,7) by (simp add: keeps_def)
    then have "prints [c] s v" using t(2) v f0 k c by (auto simp add: prints_def on_line_def logged_def)
    then show ?thesis using run t(1) v(1) c by auto
  qed
qed

lemma putchars_outputs: "outputs (putchars cs) cs s"
proof (induction cs arbitrary: s)
  case (Cons c cs)
  have "outputs (\<lambda>s. obind (putchar c s) (putchars cs)) ([c] @ cs) s" by (rule outputs_obind[OF putchar_outputs Cons])
  then show ?case by (simp add: outputs_def)
qed (simp add: outputs_def)

section \<open>Numbers\<close>

text \<open>The digits of a number, most significant first, and the number that digits stand for.\<close>

fun digits :: "int \<Rightarrow> nat \<Rightarrow> int list" where
  "digits b n = (if b < 2 \<or> n < nat b then [int n] else digits b (n div nat b) @ [int n mod b])"

declare digits.simps [simp del]

definition number :: "int \<Rightarrow> int list \<Rightarrow> int" where
  "number b = foldl (\<lambda>a d. b * a + d) 0"

definition digit :: "int \<Rightarrow> int" where
  "digit d = (if d < 10 then 48 + d else 55 + d)"

lemma digits_number:
  assumes "2 \<le> b"
  shows "number b (digits b n) = int n \<and> (\<forall>d \<in> set (digits b n). 0 \<le> d \<and> d < b) \<and> digits b n \<noteq> [] \<and>
    (n \<noteq> 0 \<longrightarrow> hd (digits b n) \<noteq> 0)"
  using assms
proof (induction b n rule: digits.induct)
  case (1 b n)
  show ?case
  proof (cases "n < nat b")
    case True
    then show ?thesis using 1 by (simp add: digits.simps[of b n] number_def)
  next
    case False
    then have d: "digits b n = digits b (n div nat b) @ [int n mod b]" using 1 by (simp add: digits.simps[of b n])
    have ih: "number b (digits b (n div nat b)) = int (n div nat b)" "\<forall>d \<in> set (digits b (n div nat b)). 0 \<le> d \<and> d < b"
        "digits b (n div nat b) \<noteq> []" "n div nat b \<noteq> 0 \<longrightarrow> hd (digits b (n div nat b)) \<noteq> 0"
      using 1 False by auto
    have "n div nat b \<noteq> 0" using False 1(2) by (simp add: div_eq_0_iff)
    moreover have "int (n div nat b) = int n div b" using 1(2) by (simp add: zdiv_int)
    moreover have "number b (xs @ [y]) = b * number b xs + y" for xs y by (simp add: number_def)
    ultimately show ?thesis using ih 1(2) by (auto simp add: d hd_append)
  qed
qed

lemma digits_length: "\<lbrakk>2 \<le> b; n < nat b ^ Suc k\<rbrakk> \<Longrightarrow> length (digits b n) \<le> Suc k"
proof (induction k arbitrary: n)
  case 0
  then show ?case by (simp add: digits.simps[of b n])
next
  case (Suc k)
  show ?case
  proof (cases "n < nat b")
    case False
    have "n div nat b < nat b ^ Suc k" using Suc.prems by (intro less_mult_imp_div_less) (simp add: mult.commute)
    from Suc.IH[OF Suc.prems(1) this] show ?thesis using False Suc.prems(1) by (simp add: digits.simps[of b n])
  qed (simp add: digits.simps[of b n])
qed

text \<open>\<open>printn\<close> prints a sign and the digits, except for the smallest number.\<close>

definition shown_number :: "int \<Rightarrow> int \<Rightarrow> int list" where
  "shown_number n b = (if n < 0 then [45] else []) @ map digit (digits b (nat \<bar>n\<bar>))"

lemma digit_char_digit: "0 \<le> d \<Longrightarrow> d < 16 \<Longrightarrow> digit_char d s = digit d"
  by (simp add: digit_char_def digit_def)

lemma printn_unfold:
  assumes "2 \<le> b"
  shows "printn n b s = obind (if n < 0 then putchar 45 s else Some s) (\<lambda>s.
       let n = (if n < 0 then to_i32 (- n) else n); a = n sdiv b
       in obind (if a \<noteq> 0 then printn a b s else Some s) (\<lambda>s. putchar (digit_char (n smod b) s) s))"
  by (subst printn.simps, subst if_not_P) (use assms in simp, rule refl)

lemma printn_positive:
  assumes "2 \<le> b" "b \<le> 16"
  shows "0 \<le> n \<Longrightarrow> outputs (printn n b) (map digit (digits b (nat n))) s"
proof (induction "nat n" arbitrary: n s rule: less_induct)
  case (less n s)
  let ?a = "n sdiv b"
  have a: "?a = n div b" "n smod b = n mod b" 
    using less.prems assms(1) by (cases "n = 0"; simp add: signed_divide_int_def signed_modulo_int_def)+
  have d: "0 \<le> n mod b" "n mod b < 16" using assms by (auto intro: less_le_trans[OF pos_mod_bound])
  have last: "outputs (\<lambda>s. putchar (digit_char (n smod b) s) s) [digit (n mod b)] t" for t
    using putchar_outputs[of "digit (n mod b)" t] digit_char_digit[OF d] by (simp add: outputs_def a)
  have run: "printn n b = (\<lambda>s. obind ((if ?a \<noteq> 0 then printn ?a b else Some) s) (\<lambda>s. putchar (digit_char (n smod b) s) s))"
    using less.prems by (intro ext) (subst printn_unfold[OF assms(1)], simp add: Let_def)
  show ?case
  proof (cases "n < b")
    case True
    then have "?a = 0" "digits b (nat n) = [n]" "n mod b = n"
      using less.prems assms(1) by (simp_all add: a digits.simps[of b "nat n"] nat_less_eq_zless)
    then show ?thesis using last[of s] unfolding run by simp
  next
    case False
    then have pos: "1 \<le> n div b" using assms(1) by (simp add: pos_imp_zdiv_pos_iff int_one_le_iff_zero_less)
    have dg: "digits b (nat n) = digits b (nat (n div b)) @ [n mod b]"
      using False less.prems assms(1) by (simp add: digits.simps[of b "nat n"] nat_div_distrib)
    have "nat (n div b) < nat n" using pos assms(1) less.prems False by (simp add: int_div_less_self)
    from less.hyps[OF this] pos have "outputs (printn (n div b) b) (map digit (digits b (nat (n div b)))) s" by simp
    from outputs_obind[OF this last] show ?thesis using pos unfolding run a dg by simp
  qed
qed

lemma printn_outputs:
  assumes "2 \<le> b" "b \<le> 16" "- (2 ^ 31) < n" "n < 2 ^ 31"
  shows "outputs (printn n b) (shown_number n b) s"
proof (cases "n < 0")
  case False
  then show ?thesis using printn_positive[OF assms(1,2), of n s] by (simp add: shown_number_def)
next
  case True
  then have i: "to_i32 (- n) = - n" using assms(3,4) by (simp add: to_i32_id)
  have e: "printn (- n) b = (\<lambda>s. obind (if - n sdiv b \<noteq> 0 then printn (- n sdiv b) b s else Some s)
      (\<lambda>s. putchar (digit_char (- n smod b) s) s))"
    using True by (rule_tac ext) (simp add: printn_unfold[OF assms(1), of "- n"] Let_def)
  have "printn n b t = obind (putchar 45 t) (printn (- n) b)" for t
    unfolding e using True by (simp add: printn_unfold[OF assms(1), of n] Let_def i)
  then have "printn n b = (\<lambda>s. obind (putchar 45 s) (printn (- n) b))" by (rule ext)
  moreover have "outputs (printn (- n) b) (map digit (digits b (nat (- n)))) t" for t
    using printn_positive[OF assms(1,2), of "- n" t] True by simp
  from outputs_obind[OF putchar_outputs this]
  have "outputs (\<lambda>s. obind (putchar 45 s) (printn (- n) b)) ([45] @ map digit (digits b (nat (- n)))) s" .
  ultimately show ?thesis using True by (simp add: shown_number_def)
qed

lemma printn_smallest_outputs:
  "outputs (printn (- 2147483648) 10) ([45] @ shown_number (- 214748364) 10 @ [cn_around s (- 8)]) s"
proof -
  have i: "to_i32 (2147483648 :: int) = - 2147483648" by (simp add: to_i32_def)
  have a: "- 2147483648 sdiv (10 :: int) = - 214748364" "- 2147483648 smod (10 :: int) = - 8"
    by (simp_all add: signed_divide_int_def signed_modulo_int_def)
  have e: "printn (- 2147483648) 10 = (\<lambda>s. obind (putchar 45 s)
      (\<lambda>s. obind (printn (- 214748364) 10 s) (\<lambda>s. putchar (cn_around s (- 8)) s)))"
    by (rule ext) (simp add: printn_unfold[of 10 "- 2147483648"] Let_def i a digit_char_def)
  have last: "outputs (\<lambda>s. putchar (cn_around s (- 8)) s) [cn_around t (- 8)] t" for t
    using putchar_outputs[of "cn_around t (- 8)" t] by (simp add: outputs_def)
  have mid: "outputs (\<lambda>s. obind (printn (- 214748364) 10 s) (\<lambda>s. putchar (cn_around s (- 8)) s))
      (shown_number (- 214748364) 10 @ [cn_around t (- 8)]) t" for t
  proof (rule outputs_obind)
    show "outputs (printn (- 214748364) 10) (shown_number (- 214748364) 10) t" by (rule printn_outputs) simp_all
    show "outputs (\<lambda>s. putchar (cn_around s (- 8)) s) [cn_around t (- 8)] s'" if "prints (shown_number (- 214748364) 10) t s'" for s'
      using last[of s'] that by (simp add: prints_def)
  qed
  show ?thesis unfolding e
  proof (rule outputs_obind)
    show "outputs (putchar 45) [45] s" by (rule putchar_outputs)
    show "outputs (\<lambda>s. obind (printn (- 214748364) 10 s) (\<lambda>s. putchar (cn_around s (- 8)) s))
        (shown_number (- 214748364) 10 @ [cn_around s (- 8)]) s'" if "prints [45] s s'" for s'
      using mid[of s'] that by (simp add: prints_def)
  qed
qed

section \<open>Formats\<close>

text \<open>
  The characters that a format and its arguments stand for: \<open>%d\<close> and \<open>%D\<close> a decimal number with its sign, \<open>%u\<close>, \<open>%o\<close> and \<open>%x\<close> an
  unsigned number, \<open>%s\<close> a string; any other character behind a percent sign is skipped. There is no answer (\<open>None\<close>) for the
  arguments that \<open>printn\<close> is not made for: the smallest number, and for the unsigned directives what is negative as an \<open>i32\<close>; nor
  for a format that does not end in a zero or has it behind a percent sign.
\<close>

fun formatted :: "(int \<Rightarrow> int list) \<Rightarrow> int list \<Rightarrow> (nat \<Rightarrow> int) \<Rightarrow> nat \<Rightarrow> int list option" where
  "formatted str [] args k = None"
| "formatted str (c # fmt) args k =
    (if c \<noteq> 37 then (if c = 0 then Some [] else map_option ((@) [c]) (formatted str fmt args k))
     else case fmt of
       [] \<Rightarrow> None
     | d # fmt' \<Rightarrow>
         if d \<in> {100, 68}
         then (if - (2 ^ 31) < args k \<and> args k < 2 ^ 31
               then map_option ((@) (shown_number (args k) 10)) (formatted str fmt' args (k + 1))
               else None)
         else if d \<in> {117, 111, 120}
         then (if 0 \<le> args k \<and> args k < 2 ^ 31
               then map_option ((@) (map digit (digits (if d = 111 then 8 else if d = 120 then 16 else 10) (nat (args k)))))
                      (formatted str fmt' args (k + 1))
               else None)
         else if d = 0 then None
         else if d = 115 then map_option ((@) (str (args k))) (formatted str fmt' args (k + 1))
         else formatted str fmt' args k)"

lemma prf_core_outputs:
  "\<lbrakk>formatted str fmt args k = Some cs; cn_string s = str\<rbrakk> \<Longrightarrow> outputs (prf_core fmt args k) cs s"
proof (induction str fmt args k arbitrary: s cs rule: formatted.induct)
  case (2 str c fmt args k)
  have same: "cn_string s' = str" if "prints a s s'" for a s' using that 2(7) by (simp add: prints_def)
  consider (stop) "c = 0" | (char) "c \<noteq> 37" "c \<noteq> 0" | (dir) d fmt' where "c = 37" "fmt = d # fmt'"
    using 2(6) by (cases fmt) (auto split: if_splits)
  then show ?case
  proof cases
    case stop
    then show ?thesis using 2(6) by (simp add: outputs_def)
  next
    case char
    then obtain ds where ds: "formatted str fmt args k = Some ds" "cs = [c] @ ds" using 2(6) by auto
    have "outputs (\<lambda>s. obind (putchar c s) (prf_core fmt args k)) ([c] @ ds) s"
      using 2(1)[OF char ds(1)] same by (intro outputs_obind[OF putchar_outputs]) blast
    then show ?thesis using char ds(2) by (simp add: outputs_def)
  next
    case (dir d fmt')
    consider (num) "d \<in> {100, 68}" | (uns) "d \<in> {117, 111, 120}" | (str) "d = 115"
      | (other) "d \<notin> {100, 117, 111, 120, 68, 115}" by auto
    then show ?thesis
    proof cases
      case num
      then obtain ds where ds: "- (2 ^ 31) < args k" "args k < 2 ^ 31" "formatted str fmt' args (k + 1) = Some ds"
          "cs = shown_number (args k) 10 @ ds"
        using 2(6) dir by (auto split: if_splits)
      have "outputs (\<lambda>s. obind (printn (args k) 10 s) (prf_core fmt' args (k + 1))) (shown_number (args k) 10 @ ds) s"
      proof (rule outputs_obind)
        show "outputs (printn (args k) 10) (shown_number (args k) 10) s" using printn_outputs[OF _ _ ds(1,2)] by simp
        show "outputs (prf_core fmt' args (k + 1)) ds s'" if "prints (shown_number (args k) 10) s s'" for s'
          using 2(2)[OF _ dir(2) num _ ds(3) same[OF that]] dir(1) ds(1,2) by simp
      qed
      then show ?thesis using dir num ds(4) by (auto simp add: outputs_def)
    next
      case uns
      let ?b = "if d = 111 then 8 else if d = 120 then 16 else (10 :: int)"
      obtain ds where ds: "0 \<le> args k" "args k < 2 ^ 31" "formatted str fmt' args (k + 1) = Some ds"
          "cs = map digit (digits ?b (nat (args k))) @ ds"
        using 2(6) dir uns by (auto split: if_splits)
      have "outputs (\<lambda>s. obind (printn (args k) ?b s) (prf_core fmt' args (k + 1))) (map digit (digits ?b (nat (args k))) @ ds) s"
      proof (rule outputs_obind)
        show "outputs (printn (args k) ?b) (map digit (digits ?b (nat (args k)))) s" using printn_positive[OF _ _ ds(1)] by simp
        show "outputs (prf_core fmt' args (k + 1)) ds s'" if "prints (map digit (digits ?b (nat (args k)))) s s'" for s'
          using 2(3)[OF _ dir(2) _ uns _ ds(3) same[OF that]] dir(1) uns ds(1,2) by auto
      qed
      then show ?thesis using dir uns ds(4) by (auto simp add: outputs_def)
    next
      case str
      then obtain ds where ds: "formatted str fmt' args (k + 1) = Some ds" "cs = cn_string s (args k) @ ds"
        using 2(6,7) dir str by auto
      have "outputs (\<lambda>t. obind (putchars (cn_string s (args k)) t) (prf_core fmt' args (k + 1))) (cn_string s (args k) @ ds) s"
      proof (rule outputs_obind[OF putchars_outputs])
        show "outputs (prf_core fmt' args (k + 1)) ds s'" if "prints (cn_string s (args k)) s s'" for s'
          using 2(4)[OF _ dir(2) _ _ _ str ds(1) same[OF that]] dir(1) str by simp
      qed
      then show ?thesis using dir str ds(2) by (simp add: outputs_def)
    next
      case other
      then have z: "d \<noteq> 0" "formatted str fmt' args k = Some cs" using 2(6) dir by (auto split: if_splits)
      from 2(5)[OF _ dir(2) _ _ z(1) _ z(2) 2(7)] other dir(1) show ?thesis using dir by (simp add: outputs_def)
    qed
  qed
qed simp

lemma on_line_digits: "\<forall>d \<in> set ds. 0 \<le> d \<Longrightarrow> on_line (map digit ds) = map (word_of_int \<circ> digit) ds"
  by (induction ds) (auto simp add: on_line_def digit_def)

section \<open>Properties\<close>

text \<open>
  Claim C34. \<open>printf\<close> on the console agrees with the formatter on lists, for the arguments that \<open>printn\<close> is made for: \<open>%d\<close> and \<open>%D\<close>
  with any number but the smallest, printed with its sign, \<open>%u\<close>, \<open>%o\<close> and \<open>%x\<close> with a value below \<open>2^31\<close>, printed as an unsigned
  number, and \<open>%s\<close> with any string. If the transmitter gets ready often enough it returns, having sent the formatted text with a
  carriage return before every line feed, and \<open>msgbuf\<close> then holds the last \<open>MSGBUFS\<close> of all the characters printed, across any
  number of wraps of its pointer. What happens to the arguments left out is in \<open>printf_large_unsigned\<close> and \<open>printn_smallest\<close>.\<close>

theorem printf_formats:
  assumes "formatted (cn_string s) fmt args 0 = Some cs" "length (on_line cs) \<le> ready s" "keeps log s"
  shows "\<exists>s'. printf fmt args s = Some s' \<and> sent s' = sent s @ on_line cs \<and> keeps (log @ logged cs) s'"
  using prf_core_outputs[OF assms(1) refl] assms(2,3) by (auto simp add: printf_def outputs_def prints_def)

text \<open>
  An unsigned value from \<open>2^31\<close> on is negative as an \<open>i32\<close>: of \<open>2^32 - n\<close>, \<open>%u\<close> prints a minus sign and \<open>n\<close>, although \<open>printn\<close> is said
  to print an unsigned integer.\<close>

theorem printf_large_unsigned:
  assumes "- (2 ^ 31) < args 0" "args 0 < 0" "length (on_line (45 # map digit (digits 10 (nat (- args 0))))) \<le> ready s"
  shows "\<exists>s'. printf [37, 117, 0] args s = Some s' \<and>
    sent s' = sent s @ on_line (45 # map digit (digits 10 (nat (- args 0))))"
proof -
  have n: "shown_number (args 0) 10 = 45 # map digit (digits 10 (nat (- args 0)))" using assms(2) by (simp add: shown_number_def)
  have "outputs (printn (args 0) 10) (shown_number (args 0) 10) s" using printn_outputs[of 10 "args 0" s] assms(1,2) by simp
  then show ?thesis using assms(3) unfolding n by (auto simp add: printf_def outputs_def prints_def)
qed

text \<open>
  What \<open>printn\<close> prints can be read back: for every number but the smallest and bases from 8 to 16 it sends the sign and at
  most eleven digits whose value in the base is the absolute value of the number, without a leading zero.\<close>

theorem printn_readable:
  assumes "8 \<le> b" "b \<le> 16" "- (2 ^ 31) < n" "n < 2 ^ 31" "12 \<le> ready s"
  shows "\<exists>s' ds. printn n b s = Some s' \<and>
    sent s' = sent s @ (if n < 0 then [45] else []) @ map (word_of_int \<circ> digit) ds \<and>
    number b ds = \<bar>n\<bar> \<and> (\<forall>d \<in> set ds. 0 \<le> d \<and> d < b) \<and> (n \<noteq> 0 \<longrightarrow> hd ds \<noteq> 0) \<and> ds \<noteq> []"
proof -
  let ?ds = "digits b (nat \<bar>n\<bar>)"
  have b: "2 \<le> b" using assms(1) by simp
  note dn = digits_number[OF b, of "nat \<bar>n\<bar>"]
  have "int (nat \<bar>n\<bar>) = \<bar>n\<bar>" "n \<noteq> 0 \<longrightarrow> nat \<bar>n\<bar> \<noteq> 0" by auto
  then have num: "number b ?ds = \<bar>n\<bar>" "\<forall>d \<in> set ?ds. 0 \<le> d \<and> d < b" "n \<noteq> 0 \<longrightarrow> hd ?ds \<noteq> 0" "?ds \<noteq> []"
    using dn by metis+
  have "nat \<bar>n\<bar> < 8 ^ Suc 10" using assms(3,4) by simp
  also have "\<dots> \<le> nat b ^ Suc 10" using assms(1) by (intro power_mono) simp_all
  finally have len: "length ?ds \<le> 11" using digits_length[OF b, of "nat \<bar>n\<bar>" 10] by simp
  have "\<forall>d \<in> set ?ds. 0 \<le> d" using num(2) by blast
  note dl = on_line_digits[OF this]
  have sg: "on_line (if n < 0 then [45] else []) = (if n < 0 then [45] else [])" by (simp add: on_line_def)
  have line: "on_line (shown_number n b) = (if n < 0 then [45] else []) @ map (word_of_int \<circ> digit) ?ds"
    using sg dl by (simp add: shown_number_def)
  then have "length (on_line (shown_number n b)) \<le> ready s" using len assms(5) by (cases "n < 0") simp_all
  with printn_outputs[OF b assms(2-4), of s] obtain s' where "printn n b s = Some s'" "sent s' = sent s @ on_line (shown_number n b)"
    unfolding outputs_def prints_def by blast
  then show ?thesis using num unfolding line by blast
qed

text \<open>
  The smallest number is beyond \<open>printn\<close>: negation leaves it negative, so that two signs are printed, and its last digit
  is fetched from before the table of digits.\<close>

theorem printn_smallest:
  assumes "12 + length (on_line [cn_around s (- 8)]) \<le> ready s"
  shows "\<exists>s'. printn (- (2 ^ 31)) 10 s = Some s' \<and>
    sent s' = sent s @ map word_of_int [45, 45, 50, 49, 52, 55, 52, 56, 51, 54, 52] @ on_line [cn_around s (- 8)]"
proof -
  have d: "shown_number (- 214748364) 10 = [45, 50, 49, 52, 55, 52, 56, 51, 54, 52]"
    by (simp add: shown_number_def digits.simps digit_def)
  have "on_line ([45] @ shown_number (- 214748364) 10 @ [cn_around s (- 8)]) =
      map word_of_int [45, 45, 50, 49, 52, 55, 52, 56, 51, 54, 52] @ on_line [cn_around s (- 8)]"
    unfolding d by (simp add: on_line_def)
  with printn_smallest_outputs[of s] assms obtain s' where s': "printn (- 2147483648) 10 s = Some s'"
      "sent s' = sent s @ map word_of_int [45, 45, 50, 49, 52, 55, 52, 56, 51, 54, 52] @ on_line [cn_around s (- 8)]"
    unfolding outputs_def prints_def by fastforce
  have "- (2 ^ 31) = (- 2147483648 :: int)" by simp
  with s' show ?thesis by metis
qed

section \<open>Instances\<close>

definition demo_console :: console where
  "demo_console = \<lparr>cn_io = upd_uart 0 (\<lambda>h. h\<lparr>ua_thre := replicate 20 True\<rparr>) (rest_tio demo_sched), cn_msgbuf = (\<lambda>_. 0), cn_msgbufp = 0,
     cn_string = (\<lambda>a. if a = 4096 then [101, 114, 114] else []), cn_around = (\<lambda>_. 63)\<rparr>"

lemma demo_console_simps [simp]: "ready demo_console = 20" "sent demo_console = []" "keeps [] demo_console"
  "cn_string demo_console 4096 = [101, 114, 114]" "cn_around demo_console k = 63"
  by (simp_all add: demo_console_def ready_def sent_def keeps_def rest_tio_def uart0_def)

theorem printf_formats_witness:
  "\<exists>s'. printf (map of_char ''%s %u'' @ [10, 0]) (stack [4096, 17]) demo_console = Some s' \<and>
    sent s' = [101, 114, 114, 32, 49, 55, 13, 10]"
proof -
  have f: "formatted (cn_string demo_console) (map of_char ''%s %u'' @ [10, 0]) (stack [4096, 17]) 0 = Some [101, 114, 114, 32, 49, 55, 10]"
    by (simp add: stack_def shown_number_def digits.simps digit_def)
  have "on_line [101, 114, 114, 32, 49, 55, 10] = [101, 114, 114, 32, 49, 55, 13, 10]" by (simp add: on_line_def)
  with printf_formats[OF f, of "[]"] show ?thesis by auto
qed

theorem printn_readable_witness:
  "\<exists>s' ds. printn (- 255) 16 demo_console = Some s' \<and> sent s' = 45 # map (word_of_int \<circ> digit) ds \<and> number 16 ds = 255"
  using printn_readable[of 16 "- 255" demo_console] by auto

theorem printn_smallest_witness:
  "\<exists>s'. printn (- (2 ^ 31)) 10 demo_console = Some s' \<and> sent s' = map word_of_int [45, 45, 50, 49, 52, 55, 52, 56, 51, 54, 52, 63]"
  using printn_smallest[of demo_console] by (simp add: on_line_def)

end
