(* ===== verification/Trace.thy ===== *)
theory Trace
  imports Exec File_Calls Tty_State
begin

text \<open>
  Acting on signals: \<open>psig\<close>, \<open>core\<close>, \<open>stop\<close> and \<open>grow\<close> of \<open>sys/sig.c\<close>, and tracing with \<open>ptrace\<close> and \<open>procxmt\<close>.

  The bytes of the user structure as the debugger and a core image see them are a parameter, \<open>ulayout\<close>: the halfword at an offset, the
  saved register at an offset if one is there, whether the floating point registers are there, and the image of the first
  \<open>USIZE\<close> clicks. Floating point registers are not part of the state.
\<close>

definition IPCPRI :: int where "IPCPRI = PZERO"
definition SINCR :: int where "SINCR = 20"
definition SIGIOT :: int where "SIGIOT = 6"
definition SIGEMT :: int where "SIGEMT = 7"
definition SIGFPT :: int where "SIGFPT = 8"
definition SIGBUS :: int where "SIGBUS = 10"
definition SIGSEG :: int where "SIGSEG = 11"
definition SIGSYS :: int where "SIGSYS = 12"

definition regloc :: "int list" where
  "regloc = [R0, - 2, - 9, - 8, - 7, - 6, R6, PC, RPS]"

record ulayout =
  ul_word :: "int \<Rightarrow> user \<Rightarrow> int"
  ul_reg :: "int \<Rightarrow> int option"
  ul_fps :: "int \<Rightarrow> bool"
  ul_image :: "user \<Rightarrow> nat \<Rightarrow> 8 word"

definition set_ipc :: "(ipcent \<Rightarrow> ipcent) \<Rightarrow> kernel \<Rightarrow> kernel" where
  "set_ipc f s = s\<lparr>k_ipc := f (k_ipc s)\<rparr>"

definition set_ar0 :: "int \<Rightarrow> int \<Rightarrow> kernel \<Rightarrow> kernel" where
  "set_ar0 r v = upd_u (\<lambda>w. w\<lparr>u_ar0 := (u_ar0 w)(r := v)\<rparr>)"

section \<open>The tracing process\<close>

definition traced_child :: "kernel \<Rightarrow> int \<Rightarrow> nat \<Rightarrow> bool" where
  "traced_child s pid p \<longleftrightarrow> p_stat (k_proc s p) = SSTOP \<and> p_pid (k_proc s p) = pid \<and>
    p_ppid (k_proc s p) = p_pid (k_proc s (procp s))"

definition ptrace_reply :: "kernel \<Rightarrow> kernel" where
  "ptrace_reply s =
    (let s = set_r1 (ip_data (k_ipc s)) s;
         s = (if ip_req (k_ipc s) < 0 then set_error EIO s else s)
     in set_ipc (\<lambda>c. c\<lparr>ip_lock := 0\<rparr>) s)"

definition ptrace :: "(kernel, unit) kern" where
  "ptrace =
    kbind (kget (\<lambda>s. (arg 0 s, arg 1 s, arg 2 s, arg 3 s))) (\<lambda>(data, pid, addr, req).
      if req \<le> 0 then kmod (\<lambda>s. upd_proc (procp s) (\<lambda>p. p\<lparr>p_flag := p_flag p OR STRC\<rparr>) s)
      else kbind (kget (\<lambda>s. first_index NPROC (traced_child s pid))) (\<lambda>r.
        case r of
          None \<Rightarrow> kmod (set_error ESRCH)
        | Some p \<Rightarrow>
            kthen (ksleep_while (\<lambda>s. ip_lock (k_ipc s) \<noteq> 0) (sleep Ch_ipc IPCPRI))
            (kthen (kmod (\<lambda>s. set_ipc (\<lambda>c. \<lparr>ip_lock = p_pid (k_proc s p), ip_req = req, ip_addr = addr, ip_data = data\<rparr>) s))
            (kthen (kmod (upd_proc p (\<lambda>q. q\<lparr>p_flag := p_flag q AND NOT SWTED\<rparr>)))
            (kthen (kpure (setrun p))
            (kthen (ksleep_while (\<lambda>s. ip_req (k_ipc s) > 0) (sleep Ch_ipc IPCPRI))
            (kthen (kmod ptrace_reply) (kpure (wakeup Ch_ipc)))))))))"

section \<open>The traced process\<close>

definition ipc_error :: "(kernel, bool) kern" where
  "ipc_error = kthen (kmod (set_ipc (\<lambda>c. c\<lparr>ip_req := - 1\<rparr>))) (kret False)"

definition ipc_data :: "(kernel \<Rightarrow> int) \<Rightarrow> (kernel, bool) kern" where
  "ipc_data f = kthen (kmod (\<lambda>s. set_ipc (\<lambda>c. c\<lparr>ip_data := f s\<rparr>) s)) (kret False)"

definition xmt_read :: "(kernel, bool) kern" where
  "xmt_read = kif (\<lambda>s. fubyte (ip_addr (k_ipc s)) s = - 1) ipc_error (ipc_data (\<lambda>s. fuword (ip_addr (k_ipc s)) s))"

definition xmt_read_u :: "ulayout \<Rightarrow> (kernel, bool) kern" where
  "xmt_read_u l =
    kbind (kget (\<lambda>s. to_i32 (ip_addr (k_ipc s)))) (\<lambda>i.
      if i < 0 \<or> i \<ge> push_bit 6 USIZE then ipc_error else ipc_data (\<lambda>s. ul_word l i (u s)))"

text \<open>The store of a word, twice as the code does it; the value is the result of the first.\<close>

definition xmt_poke :: "(kernel, bool) kern" where
  "xmt_poke =
    (\<lambda>es s. case suword (ip_addr (k_ipc s)) 0 s of (r, t) \<Rightarrow>
       if r < 0 then Ret False es t else Ret True es (snd (suword (ip_addr (k_ipc t)) (ip_data (k_ipc t)) t)))"

definition kestabur_u :: "(kernel, unit) kern" where
  "kestabur_u = kmod (\<lambda>s. snd (estabur (u_tsize (u s)) (u_dsize (u s)) (u_ssize (u s)) (u_sep (u s)) s))"

definition text_shared :: "nat \<Rightarrow> kernel \<Rightarrow> bool" where
  "text_shared x s \<longleftrightarrow> x_count (k_text s x) \<noteq> 1 \<or>
    (case x_iptr (k_text s x) of None \<Rightarrow> False | Some ip \<Rightarrow> i_mode (ino ip s) AND ISVTX \<noteq> 0)"

definition xmt_write_i :: "(kernel, bool) kern" where
  "xmt_write_i =
    kbind (kget (\<lambda>s. p_textp (k_proc s (procp s)))) (\<lambda>xp.
    kbind (kget (\<lambda>s. case xp of None \<Rightarrow> None | Some x \<Rightarrow> x_iptr (k_text s x))) (\<lambda>ip.
    kbind (kget (\<lambda>s. case xp of None \<Rightarrow> False | Some x \<Rightarrow> text_shared x s)) (\<lambda>shared.
      if shared then ipc_error
      else if xp \<noteq> None \<and> ip = None then kpanic ''x_iptr''
      else
        kthen (case ip of None \<Rightarrow> kret () | Some i \<Rightarrow> kmod (clr_iflag i ITEXT))
        (kthen kestabur_u
        (kbind xmt_poke (\<lambda>ok.
         kthen kestabur_u
           (if \<not> ok then ipc_error
            else kthen (case xp of None \<Rightarrow> kret () | Some x \<Rightarrow> kmod (upd_text x (\<lambda>t. t\<lparr>x_flag := x_flag t OR XWRIT\<rparr>)))
                   (kret False))))))))"

definition xmt_write_d :: "(kernel, bool) kern" where
  "xmt_write_d = kbind xmt_poke (\<lambda>ok. if ok then kret False else ipc_error)"

definition xmt_write_u :: "ulayout \<Rightarrow> (kernel, bool) kern" where
  "xmt_write_u l =
    kbind (kget (\<lambda>s. to_i32 (ip_addr (k_ipc s)))) (\<lambda>i.
      if ul_fps l i then kret False
      else case ul_reg l i of
        None \<Rightarrow> ipc_error
      | Some r \<Rightarrow>
          if r \<in> set (take 8 regloc) then kthen (kmod (\<lambda>s. set_ar0 r (ip_data (k_ipc s)) s)) (kret False)
          else if r = RPS then
            kthen (kmod (set_ipc (\<lambda>c. c\<lparr>ip_data := (ip_data c OR 0xF000) AND NOT 0xE0\<rparr>)))
              (kthen (kmod (\<lambda>s. set_ar0 r (ip_data (k_ipc s)) s)) (kret False))
          else ipc_error)"

definition xmt_continue :: "(kernel, bool) kern" where
  "xmt_continue =
    kthen (kwhen (\<lambda>s. to_u32 (ip_addr (k_ipc s)) \<noteq> 1) (kmod (\<lambda>s. set_ar0 PC (ip_addr (k_ipc s)) s)))
    (kthen (kmod (\<lambda>s. upd_proc (procp s) (\<lambda>p. p\<lparr>p_sig := 0\<rparr>) s))
    (kthen (kwhen (\<lambda>s. ip_data (k_ipc s) \<noteq> 0) (kpure (\<lambda>s. psignal (procp s) (ip_data (k_ipc s)) s)))
      (kret True)))"

definition procxmt :: "ulayout \<Rightarrow> (kernel, bool) kern" where
  "procxmt l =
    kif (\<lambda>s. ip_lock (k_ipc s) \<noteq> p_pid (k_proc s (procp s))) (kret False)
      (kbind (kget (\<lambda>s. ip_req (k_ipc s))) (\<lambda>i.
       kthen (kmod (set_ipc (\<lambda>c. c\<lparr>ip_req := 0\<rparr>)))
       (kthen (kpure (wakeup Ch_ipc))
         (if i = 1 \<or> i = 2 then xmt_read
          else if i = 3 then xmt_read_u l
          else if i = 4 then xmt_write_i
          else if i = 5 then xmt_write_d
          else if i = 6 then xmt_write_u l
          else if i = 9 then kthen (kmod (\<lambda>s. set_ar0 RPS (u_ar0 (u s) RPS OR TBIT) s)) xmt_continue
          else if i = 7 then xmt_continue
          else if i = 8 then
            kbind (kget (\<lambda>s. fsig (k_proc s (procp s)))) (\<lambda>n. kthen (exit (int n)) ipc_error)
          else ipc_error))))"

definition stop_parent :: "kernel \<Rightarrow> nat option" where
  "stop_parent s =
    (let pp = p_ppid (k_proc s (procp s))
     in if pp \<noteq> 1 then first_index NPROC (\<lambda>p. p_pid (k_proc s p) = pp) else None)"

fun stop_loop :: "nat \<Rightarrow> ulayout \<Rightarrow> (kernel, unit) kern" where
  "stop_loop 0 l = (\<lambda>es s. Blocked s)"
| "stop_loop (Suc k) l =
    kbind (kget stop_parent) (\<lambda>r.
      case r of
        None \<Rightarrow> kbind (kget (\<lambda>s. fsig (k_proc s (procp s)))) (\<lambda>n. exit (int n))
      | Some pp \<Rightarrow>
          kthen (kpure (wakeup (Ch_proc pp)))
          (kthen (kmod (\<lambda>s. upd_proc (procp s) (\<lambda>p. p\<lparr>p_stat := SSTOP\<rparr>) s))
          (kthen swtch
            (kif (\<lambda>s. p_flag (k_proc s (procp s)) AND STRC = 0) (kret ())
              (kbind (procxmt l) (\<lambda>go. if go then kret () else stop_loop k l))))))"

text \<open>A turn that comes back has given the processor away, so that the schedule bounds the loop.\<close>

definition stop :: "ulayout \<Rightarrow> (kernel, unit) kern" where
  "stop l = (\<lambda>es s. stop_loop (Suc (length es)) l es s)"

section \<open>A core image\<close>

definition core_name :: "nat \<Rightarrow> 8 word" where
  "core_name i = (if i < 4 then [99, 111, 114, 101] ! i else 0)"

definition core_write :: "ulayout \<Rightarrow> nat \<Rightarrow> (kernel, unit) kern" where
  "core_write l ip =
    kthen (itrunc ip)
    (kthen (kmod (upd_u (\<lambda>w. w\<lparr>u_offset := 0, u_base := 0, u_kbuf := ul_image l w, u_count := push_bit 6 USIZE, u_segflg := 1\<rparr>)))
    (kthen (writei ip)
    (kbind (kget (\<lambda>s. to_u32 (p_size (k_proc s (procp s)) - USIZE))) (\<lambda>n.
     kthen (kmod (\<lambda>s. snd (estabur 0 n 0 0 s)))
     (kthen (kmod (upd_u (\<lambda>w. w\<lparr>u_base := 0, u_count := to_u32 (push_bit 6 n), u_segflg := 0\<rparr>)))
       (writei ip))))))"

definition core :: "ulayout \<Rightarrow> (kernel, bool) kern" where
  "core l =
    kthen (kmod (upd_u (\<lambda>w. w\<lparr>u_error := 0, u_dirp := 0\<rparr>)))
    (kbind (namei (schar core_name) 1) (\<lambda>r.
     kbind (case r of
              Some ip \<Rightarrow> kret (Some ip)
            | None \<Rightarrow> kif (\<lambda>s. u_error (u s) \<noteq> 0) (kret None) (maknode 0x1B6)) (\<lambda>r.
       case r of
         None \<Rightarrow> kret False
       | Some ip \<Rightarrow>
           kthen (kbind (access ip IWRITE) (\<lambda>denied.
                    kwhen (\<lambda>s. \<not> denied \<and> i_mode (ino ip s) AND IFMT = IFREG \<and> u_uid (u s) = u_ruid (u s))
                      (core_write l ip)))
           (kthen (iput ip) (kget (\<lambda>s. u_error (u s) = 0))))))"

section \<open>Taking a signal\<close>

definition take_sig :: "nat \<Rightarrow> nat \<Rightarrow> kernel \<Rightarrow> kernel" where
  "take_sig rp n = upd_proc rp (\<lambda>p. p\<lparr>p_sig := p_sig p AND NOT (push_bit (n - 1) 1)\<rparr>)"

definition catch_sig :: "nat \<Rightarrow> int \<Rightarrow> kernel \<Rightarrow> kernel" where
  "catch_sig n handler s =
    (let s = set_error 0 s;
         s = (if int n \<noteq> SIGINS \<and> int n \<noteq> SIGTRC then upd_u (\<lambda>w. w\<lparr>u_signal := (u_signal w)(n := 0)\<rparr>) s else s)
     in sendsig handler (int n) s)"

definition dumps_core :: "nat \<Rightarrow> bool" where
  "dumps_core n = (int n \<in> {SIGQUIT, SIGINS, SIGTRC, SIGIOT, SIGEMT, SIGFPT, SIGBUS, SIGSEG, SIGSYS})"

definition psig :: "ulayout \<Rightarrow> (kernel, unit) kern" where
  "psig l =
    kbind (kget procp) (\<lambda>rp.
    kthen (kwhen (\<lambda>s. p_flag (k_proc s rp) AND STRC \<noteq> 0) (stop l))
    (kbind (kget (\<lambda>s. fsig (k_proc s rp))) (\<lambda>n.
      if n = 0 then kret ()
      else
        kthen (kmod (take_sig rp n))
        (kbind (kget (\<lambda>s. u_signal (u s) n)) (\<lambda>handler.
          if handler \<noteq> 0 then kmod (catch_sig n handler)
          else kbind (if dumps_core n then core l else kret False) (\<lambda>dumped.
                 exit (int n + (if dumped then 128 else 0))))))))"

section \<open>Growing the stack\<close>

definition grow_copy :: "int \<Rightarrow> nat \<Rightarrow> int \<Rightarrow> kernel \<Rightarrow> kernel" where
  "grow_copy si n a s = fold (\<lambda>i s. copyseg (a - 1 - int i - si) (a - 1 - int i) s) [0 ..< n] s"

definition grow :: "int \<Rightarrow> kernel \<Rightarrow> int \<times> kernel" where
  "grow sp s =
    (let ss = u_ssize (u s); si = to_i32 (to_u32 (- sp) div 64 - ss + SINCR)
     in if to_u32 sp \<ge> to_u32 (- push_bit 6 ss) \<or> si \<le> 0 then (0, s)
        else case estabur (u_tsize (u s)) (u_dsize (u s)) (ss + si) (u_sep (u s)) s of (r, s) \<Rightarrow>
          if r \<noteq> 0 then (0, s)
          else
            let p = procp s;
                s = expand (p_size (k_proc s p) + si) s;
                a = p_addr (k_proc s p) + p_size (k_proc s p);
                s = grow_copy si (nat ss) a s;
                s = fold (\<lambda>i s. clearseg (a - ss - 1 - int i) s) [0 ..< nat si] s
            in (1, upd_u (\<lambda>w. w\<lparr>u_ssize := to_u32 (ss + si)\<rparr>) s))"

end
