(* ===== verification/Traps.thy ===== *)
theory Traps
  imports Trace Tty_Control Clock Rtc
begin

text \<open>
  System calls as the processor sees them: \<open>epoch68_trap_syscall\<close> and the rest of \<open>conf/trap0.c\<close>, with \<open>stime\<close> of
  \<open>sys/sys4.c\<close>.

  The globals of \<open>trap0.c\<close> are the record \<open>trapg\<close>. They are shared by all processes, so that what they hold after a sleep is
  what others have left there; this is the argument \<open>oth\<close> of the dispatcher, applied when the schedule has been used. The
  calls of \<open>dev/tty.c\<close> run on the state of the terminals by the argument \<open>tty\<close>, for which \<open>on_terminals\<close> can be taken. The
  answer of the clock chip to \<open>mm58167_set_time\<close> is not looked at. The guard words of the kernel stack are not part of the state.
\<close>

section \<open>State\<close>

definition EPOCH68_TRAP_EXECED :: int where "EPOCH68_TRAP_EXECED = 0x7fffffff"
definition EPOCH68_TRAP_ENOSYS :: int where "EPOCH68_TRAP_ENOSYS = 38"
definition EPOCH68_SYSCALL_KTICKS :: int where "EPOCH68_SYSCALL_KTICKS = 65500"
definition EPOCH68_SYSCALL_SHUTDOWN :: int where "EPOCH68_SYSCALL_SHUTDOWN = 65501"
definition EPOCH68_SYSCALL_IDLETRAP :: int where "EPOCH68_SYSCALL_IDLETRAP = 65502"
definition EINTR :: int where "EINTR = 4"

record trapg =
  tg_return_d1 :: int
  tg_new_pc :: int
  tg_new_usp :: int
  tg_new_sr :: int
  tg_fork_regs :: "(nat \<Rightarrow> int) option"
  tg_proc_usp :: "nat \<Rightarrow> int"
  tg_resume_usp :: int
  tg_page :: int
  tg_kticks :: int

text \<open>The arguments of the trap: the number, the registers of the call and those saved for \<open>fork\<close>.\<close>

record trapin =
  ti_sysno :: int
  ti_d1 :: int
  ti_d2 :: int
  ti_a0 :: int
  ti_a1 :: int
  ti_usp :: int
  ti_sr :: int
  ti_pc :: int
  ti_regs :: "(nat \<Rightarrow> int) option"

type_synonym ttyrun = "(tio, unit) kern \<Rightarrow> (kernel, unit) kern"

definition on_terminals :: "tio \<Rightarrow> (tio \<Rightarrow> tio) \<Rightarrow> ttyrun" where
  "on_terminals t others m = (\<lambda>es k.
    (case m (map (\<lambda>e s. others (on_kern e s)) es) (t\<lparr>io_kern := k\<rparr>) of
       Ret a es' s \<Rightarrow> Ret a (drop (length es - length es') es) (io_kern s)
     | Blocked s \<Rightarrow> Blocked (io_kern s)
     | Longjmp s \<Rightarrow> Longjmp (io_kern s)
     | Panic msg s \<Rightarrow> Panic msg (io_kern s)
     | Exited s \<Rightarrow> Exited (io_kern s)))"

section \<open>Helpers of the trap\<close>

definition epoch68_fault :: "int \<Rightarrow> bool \<Rightarrow> (kernel, unit) kern" where
  "epoch68_fault sig supervisor =
    (if supervisor then kpanic ''kernel fault'' else kthen (exit sig) (kpanic ''fault return''))"

definition epoch68_proc_index :: "nat \<Rightarrow> nat option" where
  "epoch68_proc_index p = (if p < NPROC then Some p else None)"

definition epoch68_sync_current_from_page :: "int \<Rightarrow> (kernel, unit) kern" where
  "epoch68_sync_current_from_page page =
    kbind (kget procp) (\<lambda>p.
      kwhen (\<lambda>s. p \<noteq> 0 \<and> p_stat (k_proc s p) \<noteq> SZOMB)
        (if p \<ge> NPROC then kpanic ''current proc''
         else kwhen (\<lambda>s. k_uarrp s \<noteq> p \<or> p_addr (k_proc s p) \<noteq> page) (kpanic ''current page'')))"

definition epoch68_save_current_usp :: "nat \<Rightarrow> int \<Rightarrow> trapg \<Rightarrow> trapg" where
  "epoch68_save_current_usp p usp g =
    (case epoch68_proc_index p of None \<Rightarrow> g | Some i \<Rightarrow> g\<lparr>tg_proc_usp := (tg_proc_usp g)(i := usp)\<rparr>)"

definition epoch68_set_resume_usp :: "nat \<Rightarrow> trapg \<Rightarrow> trapg" where
  "epoch68_set_resume_usp p g =
    g\<lparr>tg_resume_usp := (case epoch68_proc_index p of None \<Rightarrow> 0 | Some i \<Rightarrow> tg_proc_usp g i)\<rparr>"

definition epoch68_trap_return_usp :: "kernel \<Rightarrow> int" where
  "epoch68_trap_return_usp s = to_u32 (u_ar0 (u s) R6)"

definition epoch68_should_qswtch :: "kernel \<Rightarrow> int" where
  "epoch68_should_qswtch s = k_runrun s"

definition stime :: "kernel \<Rightarrow> kernel" where
  "stime s = (case suser s of (ok, s) \<Rightarrow> if ok then s\<lparr>k_time := arg 0 s\<rparr> else s)"

section \<open>One call\<close>

text \<open>What a call returns, and what it stores in the globals.\<close>

type_synonym callres = "int \<times> (trapg \<Rightarrow> trapg)"

definition rv_or :: "(kernel \<Rightarrow> int) \<Rightarrow> (kernel, callres) kern" where
  "rv_or f = kget (\<lambda>s. (if u_error (u s) \<noteq> 0 then - u_error (u s) else f s, id))"

definition set_ap :: "int list \<Rightarrow> kernel \<Rightarrow> kernel" where
  "set_ap xs = upd_u (\<lambda>w. w\<lparr>u_ap := xs\<rparr>)"

text \<open>A call with the arguments \<open>xs\<close>, that returns \<open>r_val1\<close> or 0; a call whose first argument is a name as well.\<close>

definition call_val :: "int list \<Rightarrow> (kernel, unit) kern \<Rightarrow> (kernel, callres) kern" where
  "call_val xs m = kthen (kmod (set_ap xs)) (kthen m (rv_or (\<lambda>s. r_val1 (u s))))"

definition call_zero :: "int list \<Rightarrow> (kernel, unit) kern \<Rightarrow> (kernel, callres) kern" where
  "call_zero xs m = kthen (kmod (set_ap xs)) (kthen m (rv_or (\<lambda>_. 0)))"

definition named :: "int \<Rightarrow> (kernel, unit) kern \<Rightarrow> (kernel, unit) kern" where
  "named a0 m = kthen (kmod (set_dirp a0)) m"

definition ret_pair :: "(kernel \<Rightarrow> int) \<Rightarrow> (kernel \<Rightarrow> int) \<Rightarrow> (kernel, callres) kern" where
  "ret_pair f d = kget (\<lambda>s. (f s, \<lambda>g. g\<lparr>tg_return_d1 := d s\<rparr>))"

definition trap_copyout :: "8 word list \<Rightarrow> int \<Rightarrow> int \<Rightarrow> (kernel, callres) kern" where
  "trap_copyout bytes a rv =
    (\<lambda>es s. case copyout bytes a s of (r, s) \<Rightarrow> Ret (if r < 0 then - EFAULT else rv, id) es s)"

definition trap_wait :: "int \<Rightarrow> (kernel, callres) kern" where
  "trap_wait a0 =
    kthen wait
      (kif (\<lambda>s. u_error (u s) \<noteq> 0) (kget (\<lambda>s. (- u_error (u s), id)))
        (kbind (kget (\<lambda>s. (r_val1 (u s), r_val2 (u s)))) (\<lambda>(v1, v2).
          if a0 \<noteq> 0 then trap_copyout (be_bytes 2 v2) a0 v1 else kret (v1, id))))"

definition trap_pipe :: "int \<Rightarrow> (kernel, callres) kern" where
  "trap_pipe a0 =
    kthen pipe
      (kif (\<lambda>s. u_error (u s) \<noteq> 0) (kget (\<lambda>s. (- u_error (u s), id)))
        (kbind (kget (\<lambda>s. (r_val1 (u s), r_val2 (u s)))) (\<lambda>(v1, v2).
          trap_copyout (be_bytes 4 v1 @ be_bytes 4 v2) a0 0)))"

text \<open>The status register without the supervisor bit.\<close>

definition user_sr :: "int \<Rightarrow> int" where
  "user_sr sr = to_u16 (sr AND NOT 0x2000)"

definition trap_exec :: "trapin \<Rightarrow> (kernel, callres) kern" where
  "trap_exec t =
    kthen (kmod (set_ap [ti_a0 t, ti_a1 t, ti_d2 t]))
    (kthen (named (ti_a0 t) exec)
      (kget (\<lambda>s. if u_error (u s) \<noteq> 0 then (- u_error (u s), id)
         else (EPOCH68_TRAP_EXECED, \<lambda>g. g\<lparr>tg_new_pc := to_u32 (u_ar0 (u s) PC), tg_new_usp := to_u32 (u_ar0 (u s) R6),
                 tg_new_sr := user_sr (u_ar0 (u s) RPS)\<rparr>))))"

text \<open>After \<open>sync\<close> the machine is given back to the monitor; the call has no result.\<close>

definition trap_shutdown :: "(kernel, callres) kern" where
  "trap_shutdown = kif (\<lambda>s. u_uid (u s) \<noteq> 0) (kret (- EPERM, id)) (kthen sync kexited)"

section \<open>The switch\<close>

text \<open>The cases of the switch with what they do, as association lists from the numbers, in the order of the code.\<close>

definition calls_1_14 :: "trapin \<Rightarrow> (int \<times> (kernel, callres) kern) list" where
  "calls_1_14 t =
    (let d1 = ti_d1 t; d2 = ti_d2 t; a0 = ti_a0 t; a1 = ti_a1 t
     in [(1, kthen (kmod (set_ap [d1])) (kthen rexit (kpanic ''rexit''))),
         (2, kthen (kpure fork) (rv_or (\<lambda>s. r_val1 (u s)))),
         (3, call_val [d1, a0, d2] read_call),
         (4, call_val [d1, a0, d2] write_call),
         (5, call_val [a0, d1] (named a0 open_call)),
         (6, call_zero [d1] close),
         (7, trap_wait a0),
         (8, call_val [a0, d1] (named a0 creat)),
         (9, call_zero [a0, a1] (named a0 link)),
         (10, call_zero [a0] (named a0 unlink)),
         (11, trap_exec t),
         (12, kthen (named a0 chdir) (rv_or (\<lambda>_. 0))),
         (13, kthen (kmod gtime) (rv_or (\<lambda>s. r_val1 (u s)))),
         (14, call_zero [a0, d1, d2] (named a0 mknod))])"

definition calls_15_27 :: "trapin \<Rightarrow> (int \<times> (kernel, callres) kern) list" where
  "calls_15_27 t =
    (let d1 = ti_d1 t; d2 = ti_d2 t; a0 = ti_a0 t; a1 = ti_a1 t
     in [(15, call_zero [a0, d1] (named a0 chmod)),
         (16, call_zero [a0, d1, d2] (named a0 chown)),
         (17, call_zero [d1] (kmod sbreak)),
         (18, call_zero [a0, a1] (named a0 stat)),
         (19, call_val [d1, d2, a0] seek),
         (20, ret_pair (\<lambda>s. p_pid (k_proc s (procp s))) (\<lambda>s. p_ppid (k_proc s (procp s)))),
         (21, call_zero [a0, a1, d1] (named a0 smount)),
         (22, call_zero [a0] (named a0 sumount)),
         (23, call_zero [d1] (kmod setuid)),
         (24, ret_pair (\<lambda>s. u_ruid (u s)) (\<lambda>s. u_uid (u s))),
         (25, call_zero [d1] (kmod stime)),
         (27, call_val [d1] (kmod alarm))])"

definition calls_28_43 :: "ttyrun \<Rightarrow> trapin \<Rightarrow> (int \<times> (kernel, callres) kern) list" where
  "calls_28_43 tty t =
    (let d1 = ti_d1 t; a0 = ti_a0 t; a1 = ti_a1 t
     in [(28, call_zero [d1, a0] fstat),
         (29, kthen pause (rv_or (\<lambda>_. 0))),
         (30, call_zero [a0, a1] (named a0 utime)),
         (31, call_zero [d1, a0, 0] (tty stty)),
         (32, call_zero [d1, a0, 0] (tty gtty)),
         (33, call_zero [a0, d1] (named a0 saccess)),
         (34, call_zero [d1] (kmod nice)),
         (35, call_zero [a0] (kmod ftime)),
         (36, kthen sync (rv_or (\<lambda>_. 0))),
         (43, call_zero [a0] (kmod times))])"

definition calls_37_60 :: "ttyrun \<Rightarrow> trapin \<Rightarrow> trapg \<Rightarrow> (int \<times> (kernel, callres) kern) list" where
  "calls_37_60 tty t g =
    (let d1 = ti_d1 t; d2 = ti_d2 t; a0 = ti_a0 t
     in [(37, call_zero [d1, d2] (kpure kill)),
         (41, call_val [d1, d2] dup),
         (42, trap_pipe a0),
         (46, call_zero [d1] (kmod setgid)),
         (47, ret_pair (\<lambda>s. u_rgid (u s)) (\<lambda>s. u_gid (u s))),
         (EPOCH68_SYSCALL_IDLETRAP, kret (0, id)),
         (48, call_val [d1, a0, d2] (kmod ssig)),
         (51, call_zero [a0] (named a0 sysacct)),
         (54, call_zero [d1, d2, a0] (tty ioctl)),
         (60, call_val [d1] (kmod umask)),
         (EPOCH68_SYSCALL_KTICKS, kret (to_i32 (tg_kticks g), id)),
         (EPOCH68_SYSCALL_SHUTDOWN, trap_shutdown)])"

definition syscalls :: "ttyrun \<Rightarrow> trapin \<Rightarrow> trapg \<Rightarrow> (int \<times> (kernel, callres) kern) list" where
  "syscalls tty t g = calls_1_14 t @ calls_15_27 t @ calls_28_43 tty t @ calls_37_60 tty t g"

lemmas switch_defs = syscalls_def calls_1_14_def calls_15_27_def calls_28_43_def calls_37_60_def

definition trap_switch :: "ttyrun \<Rightarrow> trapin \<Rightarrow> trapg \<Rightarrow> (kernel, callres) kern" where
  "trap_switch tty t g =
    (case map_of (syscalls tty t g) (ti_sysno t) of
       None \<Rightarrow> kret (- EPOCH68_TRAP_ENOSYS, id)
     | Some m \<Rightarrow> m)"

section \<open>The trap\<close>

definition trap_globals :: "trapin \<Rightarrow> nat \<Rightarrow> trapg \<Rightarrow> trapg" where
  "trap_globals t p g = (epoch68_save_current_usp p (ti_usp t) g)\<lparr>tg_return_d1 := ti_d1 t, tg_fork_regs := ti_regs t\<rparr>"

definition trap_enter :: "trapin \<Rightarrow> kernel \<Rightarrow> kernel" where
  "trap_enter t = upd_u (\<lambda>w. w\<lparr>u_ap := [], u_dirp := 0, u_error := 0,
     u_ar0 := (\<lambda>r. if r = R6 then to_i32 (ti_usp t) else if r = RPS then to_i32 (ti_sr t)
                   else if r = PC then to_i32 (ti_pc t) else 0)\<rparr>)"

definition others_ran :: "(trapg \<Rightarrow> trapg) \<Rightarrow> (kernel \<Rightarrow> kernel) list \<Rightarrow> (kernel \<Rightarrow> kernel) list \<Rightarrow> trapg \<Rightarrow> trapg" where
  "others_ran oth es es' g = (if length es' = length es then g else oth g)"

definition trap_signals :: "ulayout \<Rightarrow> (kernel, unit) kern" where
  "trap_signals l =
    kwhen (\<lambda>s. p_stat (k_proc s (procp s)) \<noteq> SZOMB) (kbind kissig (\<lambda>n. if n \<noteq> 0 then psig l else kret ()))"

definition trap_priority :: "kernel \<Rightarrow> kernel" where
  "trap_priority s =
    (if p_stat (k_proc s (procp s)) = SRUN
     then (case setpri (procp s) s of (n, s) \<Rightarrow> s\<lparr>k_curpri := n\<rparr>) else s)"

text \<open>The registers to return to; those of \<open>exec\<close> were set by the call itself.\<close>

definition trap_result :: "int \<Rightarrow> kernel \<Rightarrow> trapg \<Rightarrow> trapg" where
  "trap_result rv s g =
    (if rv = EPOCH68_TRAP_EXECED then epoch68_save_current_usp (procp s) (tg_new_usp g) g
     else let g = g\<lparr>tg_new_pc := to_u32 (u_ar0 (u s) PC), tg_new_usp := to_u32 (u_ar0 (u s) R6),
                     tg_new_sr := user_sr (u_ar0 (u s) RPS)\<rparr>
          in epoch68_save_current_usp (procp s) (to_u32 (u_ar0 (u s) R6)) g)"

definition trap_restore :: "user \<Rightarrow> kernel \<Rightarrow> kernel" where
  "trap_restore w0 = upd_u (\<lambda>w. w\<lparr>u_ap := u_ap w0, u_ar0 := u_ar0 w0, u_dirp := u_dirp w0\<rparr>)"

definition trap_done :: "ulayout \<Rightarrow> (trapg \<Rightarrow> trapg) \<Rightarrow> user \<Rightarrow> int \<Rightarrow> trapg \<Rightarrow> (kernel, int \<times> trapg) kern" where
  "trap_done l oth w0 rv g = (\<lambda>es s.
    (case trap_signals l es s of
       Ret _ es' s' \<Rightarrow>
         (let s' = trap_priority s' in Ret (rv, trap_result rv s' (others_ran oth es es' g)) es' (trap_restore w0 s'))
     | Blocked s' \<Rightarrow> Blocked s'
     | Longjmp s' \<Rightarrow> Longjmp s'
     | Panic msg s' \<Rightarrow> Panic msg s'
     | Exited s' \<Rightarrow> Exited s'))"

text \<open>The jump to \<open>u_qsav\<close> comes back to \<open>save\<close>; \<open>es2\<close> is the schedule from there on.\<close>

definition trap_interrupted :: "kernel \<Rightarrow> kernel" where
  "trap_interrupted s = (if u_error (u s) = 0 then set_error EINTR s else s)"

definition epoch68_trap_syscall ::
  "ttyrun \<Rightarrow> ulayout \<Rightarrow> (trapg \<Rightarrow> trapg) \<Rightarrow> (kernel \<Rightarrow> kernel) list \<Rightarrow> trapin \<Rightarrow> trapg \<Rightarrow> (kernel, int \<times> trapg) kern" where
  "epoch68_trap_syscall tty l oth es2 t g = (\<lambda>es s.
    let w0 = u s; g1 = trap_globals t (procp s) g;
        m = kthen (epoch68_sync_current_from_page (tg_page g))
              (kthen (kmod (trap_enter t))
              (kthen (epoch68_sync_current_from_page (tg_page g)) (trap_switch tty t g)))
    in case m es s of
         Ret r es' s' \<Rightarrow> trap_done l oth w0 (fst r) (snd r (others_ran oth es es' g1)) es' s'
       | Longjmp s' \<Rightarrow>
           (let s' = trap_interrupted s' in trap_done l oth w0 (- u_error (u s')) (oth g1) es2 s')
       | Blocked s' \<Rightarrow> Blocked s'
       | Panic msg s' \<Rightarrow> Panic msg s'
       | Exited s' \<Rightarrow> Exited s')"

section \<open>The clock's way to a signal\<close>

text \<open>
  \<open>epoch68_clock_signals\<close> of \<open>sys/clock.c\<close>: the status register, program counter and stack pointer to return to from a clock interrupt. They are
  globals, stored at the end and read at once.
\<close>

definition clock_regs :: "int \<Rightarrow> int \<Rightarrow> int \<Rightarrow> kernel \<Rightarrow> kernel" where
  "clock_regs sr pc usp = upd_u (\<lambda>w. w\<lparr>u_ar0 := (\<lambda>r. if r = R6 then to_i32 usp else if r = PC then to_i32 pc
     else if r = RPS then to_i32 sr else 0)\<rparr>)"

definition epoch68_clock_signals :: "ulayout \<Rightarrow> int \<Rightarrow> int \<Rightarrow> int \<Rightarrow> (kernel, int \<times> int \<times> int) kern" where
  "epoch68_clock_signals l sr pc usp =
    kif (\<lambda>s. \<not> USERMODE sr \<or> p_stat (k_proc s (procp s)) = SZOMB) (kret (to_u16 sr, pc, usp))
      (kbind (kget (\<lambda>s. u_ar0 (u s))) (\<lambda>saved.
       kthen (kmod (clock_regs sr pc usp))
       (kthen (kbind kissig (\<lambda>n. if n \<noteq> 0 then psig l else kret ()))
       (kbind (kget (\<lambda>s. (user_sr (u_ar0 (u s) RPS), to_u32 (u_ar0 (u s) PC), to_u32 (u_ar0 (u s) R6)))) (\<lambda>r.
        kthen (kmod (upd_u (\<lambda>w. w\<lparr>u_ar0 := saved\<rparr>))) (kret r))))))"

section \<open>Taking a caught signal\<close>

lemma issig_none: "p_sig (k_proc s (procp s)) = 0 \<Longrightarrow> issig s = (0, s)"
  by (simp add: issig_def NSIG_def eval_nat_numeral)

lemma issig_caught:
  assumes "fsig (k_proc s (procp s)) \<noteq> 0" "even (u_signal (u s) (fsig (k_proc s (procp s))))"
  shows "issig s = (fsig (k_proc s (procp s)), s)"
proof -
  have "p_sig (k_proc s (procp s)) \<noteq> 0" using assms(1) by (simp add: fsig_zero)
  then show ?thesis using assms(2) by (simp add: issig_def NSIG_def eval_nat_numeral)
qed

text \<open>The process is being run and has a handler for the lowest of its signals, \<open>n\<close>; it is not traced.\<close>

definition catches :: "nat \<Rightarrow> kernel \<Rightarrow> bool" where
  "catches n s \<longleftrightarrow> p_stat (k_proc s (procp s)) = SRUN \<and> p_flag (k_proc s (procp s)) AND STRC = 0 \<and>
    fsig (k_proc s (procp s)) = n \<and> n \<noteq> 0 \<and> u_signal (u s) n \<noteq> 0 \<and> even (u_signal (u s) n)"

lemma trap_signals_caught:
  assumes "catches n s"
  shows "trap_signals l es s = Ret () es (catch_sig n (u_signal (u s) n) (take_sig (procp s) n s))"
proof -
  have "issig s = (n, s)" using issig_caught[of s] assms by (auto simp add: catches_def)
  then show ?thesis
    using assms by (simp add: trap_signals_def psig_def kissig_def kern_simps catches_def take_sig_def)
qed

lemma trap_signals_none:
  assumes "p_sig (k_proc s (procp s)) = 0"
  shows "trap_signals l es s = Ret () es s"
  using issig_none[of s] assms by (simp add: trap_signals_def kissig_def kern_simps)

lemma trap_priority_fields [simp]:
  "u (trap_priority s) = u s" "k_uarrp (trap_priority s) = k_uarrp s" "procp (trap_priority s) = procp s"
  "k_mem (trap_priority s) = k_mem s" "k_uarea (trap_priority s) = k_uarea s"
  "p_addr (k_proc (trap_priority s) q) = p_addr (k_proc s q)" "p_sig (k_proc (trap_priority s) q) = p_sig (k_proc s q)"
  by (simp_all add: trap_priority_def setpri_def Let_def upd_defs)

lemma copyin_same:
  assumes "k_mem t = k_mem s" "epoch68_user_page t = epoch68_user_page s"
  shows "copyin a n t = copyin a n s"
  unfolding copyin_def assms by simp

lemma catch_sig_frame:
  fixes k
  defines "sp \<equiv> to_u32 (u_ar0 (u k) R6)"
  assumes sp: "10 \<le> sp" "sp \<le> 262144"
  shows "\<exists>s. catch_sig n h k = s \<and> k_proc s = k_proc k \<and> k_uarrp s = k_uarrp k \<and> procp s = procp k \<and>
    u_ar0 (u s) R6 = sp - 10 \<and> u_ar0 (u s) PC = to_i32 (to_u32 (u_sigtramp (u k))) \<and>
    u_ar0 (u s) RPS = u_ar0 (u k) RPS AND NOT (TBIT OR 0x2000) \<and>
    u_signal (u s) = (if int n \<noteq> SIGINS \<and> int n \<noteq> SIGTRC then (u_signal (u k))(n := 0) else u_signal (u k)) \<and>
    copyin (sp - 10) 10 s =
      Some (be_bytes 4 (to_u32 h) @ be_bytes 2 (int n) @ be_bytes 4 (to_u32 (u_ar0 (u k) PC)))"
proof -
  let ?k = "if int n \<noteq> SIGINS \<and> int n \<noteq> SIGTRC then upd_u (\<lambda>w. w\<lparr>u_signal := (u_signal w)(n := 0)\<rparr>) (set_error 0 k) else set_error 0 k"
  let ?f = "be_bytes 4 (to_u32 h) @ be_bytes 2 (int n) @ be_bytes 4 (to_u32 (u_ar0 (u k) PC))"
  have len: "length ?f = 10" by (simp add: be_bytes_def)
  have frame: "?f = [be_byte 3 (to_u32 h), be_byte 2 (to_u32 h), be_byte 1 (to_u32 h), be_byte 0 (to_u32 h),
      be_byte 1 (int n), be_byte 0 (int n), be_byte 3 (to_u32 (u_ar0 (u k) PC)), be_byte 2 (to_u32 (u_ar0 (u k) PC)),
      be_byte 1 (to_u32 (u_ar0 (u k) PC)), be_byte 0 (to_u32 (u_ar0 (u k) PC))]"
    by (simp add: be_bytes_def upt_rec)
  have k: "k_proc ?k = k_proc k" "k_uarrp ?k = k_uarrp k" "procp ?k = procp k" "u_ar0 (u ?k) = u_ar0 (u k)"
      "u_sigtramp (u ?k) = u_sigtramp (u k)"
      "u_signal (u ?k) = (if int n \<noteq> SIGINS \<and> int n \<noteq> SIGTRC then (u_signal (u k))(n := 0) else u_signal (u k))"
    by (simp_all add: upd_defs)
  have n: "to_u32 (sp - 10) = sp - 10" "to_i32 (sp - 10) = sp - 10" using sp by (simp_all add: to_u32_id to_i32_id)
  obtain r t where co: "copyout ?f (sp - 10) ?k = (r, t)" by fastforce
  have "if to_u32 (sp - 10) < 256 * 1024 \<and> to_u32 (sp - 10) + int (length ?f) \<le> 256 * 1024
    then r = 0 \<and> copyin (sp - 10) (int (length ?f)) t = Some ?f \<and>
      (\<forall>page off. page \<noteq> epoch68_user_page ?k \<or> off < nat (to_u32 (sp - 10)) \<or> nat (to_u32 (sp - 10)) + length ?f \<le> off
         \<longrightarrow> k_mem t page off = k_mem ?k page off)
    else r = - 1 \<and> t = ?k"
    by (rule copyout_copyin[OF _ co]) (simp add: be_bytes_def)
  then have r: "r = 0" "copyin (sp - 10) 10 t = Some ?f" using sp unfolding len n by simp_all
  have t: "k_proc t = k_proc ?k" "k_uarrp t = k_uarrp ?k" "procp t = procp ?k" "u t = u ?k"
    using co r(1) by (auto simp add: copyout_def split: option.splits)
  let ?s = "upd_u (\<lambda>w. w\<lparr>u_ar0 := (u_ar0 w)(R6 := to_i32 (sp - 10), RPS := u_ar0 w RPS AND NOT (TBIT OR 0x2000),
      PC := to_i32 (to_u32 (u_sigtramp (u k))))\<rparr>) t"
  have c: "catch_sig n h k = ?s"
    using co r(1) sp unfolding frame by (simp add: catch_sig_def sendsig_def k sp_def[symmetric] n Let_def)
  have "copyin (sp - 10) 10 ?s = copyin (sp - 10) 10 t"
    by (rule copyin_same) (simp_all add: upd_defs epoch68_user_page_def)
  moreover have "u_ar0 (u ?s) R6 = sp - 10" "u_ar0 (u ?s) PC = to_i32 (to_u32 (u_sigtramp (u k)))"
      "u_ar0 (u ?s) RPS = u_ar0 (u k) RPS AND NOT (TBIT OR 0x2000)" "u_signal (u ?s) = u_signal (u ?k)"
    using t k(4) by (simp_all add: upd_defs R6_def PC_def RPS_def n)
  moreover have "k_proc ?s = k_proc k" "k_uarrp ?s = k_uarrp k" "procp ?s = procp k"
    using t k(1-3) by (simp_all add: upd_defs)
  ultimately show ?thesis unfolding c using r(2) k(6) by (intro exI[of _ ?s]) simp
qed

section \<open>Ways through the trap\<close>

text \<open>The two tests of \<open>epoch68_sync_current_from_page\<close> are passed.\<close>

definition in_place :: "int \<Rightarrow> kernel \<Rightarrow> bool" where
  "in_place page s \<longleftrightarrow> procp s < NPROC \<and> k_uarrp s = procp s \<and> p_addr (k_proc s (procp s)) = page"

lemma sync_in_place: "in_place page s \<Longrightarrow> epoch68_sync_current_from_page page es s = Ret () es s"
  by (simp add: in_place_def epoch68_sync_current_from_page_def kern_simps)

lemma enter_in_place: "in_place page s \<Longrightarrow> in_place page (trap_enter t s)"
  by (auto simp add: in_place_def trap_enter_def upd_defs)

lemma sync_then: "in_place page s \<Longrightarrow> kthen (epoch68_sync_current_from_page page) m es s = m es s"
  by (simp add: kthen_def kbind_def sync_in_place)

definition call_end :: "ulayout \<Rightarrow> (trapg \<Rightarrow> trapg) \<Rightarrow> (kernel \<Rightarrow> kernel) list \<Rightarrow> (kernel \<Rightarrow> kernel) list \<Rightarrow> user \<Rightarrow> trapg \<Rightarrow>
  (kernel, callres) outcome \<Rightarrow> (kernel, int \<times> trapg) outcome" where
  "call_end l oth es es2 w0 g1 r =
    (case r of
       Ret r es' s' \<Rightarrow> trap_done l oth w0 (fst r) (snd r (others_ran oth es es' g1)) es' s'
     | Longjmp s' \<Rightarrow> (let s' = trap_interrupted s' in trap_done l oth w0 (- u_error (u s')) (oth g1) es2 s')
     | Blocked s' \<Rightarrow> Blocked s'
     | Panic msg s' \<Rightarrow> Panic msg s'
     | Exited s' \<Rightarrow> Exited s')"

lemma trap_syscall_run:
  assumes "in_place (tg_page g) s"
  shows "epoch68_trap_syscall tty l oth es2 t g es s =
    call_end l oth es es2 (u s) (trap_globals t (procp s) g) (trap_switch tty t g es (trap_enter t s))"
  unfolding epoch68_trap_syscall_def call_end_def Let_def
  by (simp add: sync_then[OF assms] kmod_run sync_then[OF enter_in_place[OF assms]])

lemma trap_done_caught:
  assumes "catches n s"
  shows "trap_done l oth w0 rv g es s =
    (let s' = trap_priority (catch_sig n (u_signal (u s) n) (take_sig (procp s) n s))
     in Ret (rv, trap_result rv s' g) es (trap_restore w0 s'))"
  using assms by (simp add: trap_done_def trap_signals_caught others_ran_def Let_def)

lemma trap_done_none:
  assumes "p_sig (k_proc s (procp s)) = 0"
  shows "trap_done l oth w0 rv g es s =
    (let s' = trap_priority s in Ret (rv, trap_result rv s' g) es (trap_restore w0 s'))"
  using assms by (simp add: trap_done_def trap_signals_none others_ran_def Let_def)

lemma save_usp_fields [simp]:
  "tg_return_d1 (epoch68_save_current_usp p v g) = tg_return_d1 g" "tg_new_pc (epoch68_save_current_usp p v g) = tg_new_pc g"
  "tg_new_usp (epoch68_save_current_usp p v g) = tg_new_usp g" "tg_new_sr (epoch68_save_current_usp p v g) = tg_new_sr g"
  "tg_page (epoch68_save_current_usp p v g) = tg_page g" "tg_fork_regs (epoch68_save_current_usp p v g) = tg_fork_regs g"
  by (simp_all add: epoch68_save_current_usp_def epoch68_proc_index_def)

lemma restore_fields [simp]:
  "k_proc (trap_restore w0 s) = k_proc s" "k_mem (trap_restore w0 s) = k_mem s" "procp (trap_restore w0 s) = procp s"
  "u_signal (u (trap_restore w0 s)) = u_signal (u s)" "u_ar0 (u (trap_restore w0 s)) = u_ar0 w0"
  "u_ap (u (trap_restore w0 s)) = u_ap w0" "u_dirp (u (trap_restore w0 s)) = u_dirp w0"
  "epoch68_user_page (trap_restore w0 s) = epoch68_user_page s"
  by (simp_all add: trap_restore_def upd_defs epoch68_user_page_def)

lemma trap_caught_end:
  assumes "catches n s" "10 \<le> to_u32 (u_ar0 (u s) R6)" "to_u32 (u_ar0 (u s) R6) \<le> 262144" "rv \<noteq> EPOCH68_TRAP_EXECED"
  shows "\<exists>g' s'. trap_done l oth w0 rv g es s = Ret (rv, g') es s' \<and>
    tg_new_pc g' = to_u32 (u_sigtramp (u s)) \<and> tg_new_usp g' = to_u32 (u_ar0 (u s) R6) - 10 \<and>
    tg_return_d1 g' = tg_return_d1 g \<and>
    copyin (tg_new_usp g') 10 s' = Some (be_bytes 4 (to_u32 (u_signal (u s) n)) @ be_bytes 2 (int n) @
      be_bytes 4 (to_u32 (u_ar0 (u s) PC))) \<and>
    \<not> bit (p_sig (k_proc s' (procp s))) (n - 1) \<and>
    (int n \<noteq> SIGINS \<and> int n \<noteq> SIGTRC \<longrightarrow> u_signal (u s') n = 0) \<and> u_ar0 (u s') = u_ar0 w0"
proof -
  let ?k = "take_sig (procp s) n s"
  have k: "u ?k = u s" "procp ?k = procp s" "k_proc ?k = (k_proc s)(procp s := (k_proc s (procp s))\<lparr>p_sig :=
      p_sig (k_proc s (procp s)) AND NOT (push_bit (n - 1) 1)\<rparr>)"
    by (simp_all add: take_sig_def upd_defs)
  have sp: "10 \<le> to_u32 (u_ar0 (u ?k) R6)" "to_u32 (u_ar0 (u ?k) R6) \<le> 262144" using assms(2,3) k(1) by simp_all
  obtain c where c0: "catch_sig n (u_signal (u s) n) ?k = c" by blast
  have c: "k_proc c = k_proc ?k" "procp c = procp s" "u_ar0 (u c) R6 = to_u32 (u_ar0 (u s) R6) - 10"
      "u_ar0 (u c) PC = to_i32 (to_u32 (u_sigtramp (u s)))"
      "int n \<noteq> SIGINS \<and> int n \<noteq> SIGTRC \<longrightarrow> u_signal (u c) n = 0"
      "copyin (to_u32 (u_ar0 (u s) R6) - 10) 10 c = Some (be_bytes 4 (to_u32 (u_signal (u s) n)) @ be_bytes 2 (int n) @
        be_bytes 4 (to_u32 (u_ar0 (u s) PC)))"
    using catch_sig_frame[OF sp, of n "u_signal (u s) n"] unfolding k(1,2) c0 by auto
  define s' where "s' = trap_restore w0 (trap_priority c)"
  define g' where "g' = trap_result rv (trap_priority c) g"
  have run: "trap_done l oth w0 rv g es s = Ret (rv, g') es s'"
    using trap_done_caught[OF assms(1)] unfolding c0 by (simp add: Let_def s'_def g'_def)
  have pc: "to_u32 (to_i32 (to_u32 x)) = to_u32 x" for x
    by (simp add: to_u32_def to_i32_def take_bit_signed_take_bit)
  have usp: "to_u32 (to_u32 (u_ar0 (u s) R6) - 10) = to_u32 (u_ar0 (u s) R6) - 10"
    using assms(2,3) by (simp add: to_u32_id)
  have g': "tg_new_pc g' = to_u32 (u_sigtramp (u s))" "tg_new_usp g' = to_u32 (u_ar0 (u s) R6) - 10"
      "tg_return_d1 g' = tg_return_d1 g"
    using assms(4) by (simp_all add: g'_def trap_result_def Let_def c(3,4) pc usp)
  have "copyin a 10 s' = copyin a 10 c" for a
    by (rule copyin_same) (simp_all add: s'_def epoch68_user_page_def)
  moreover have "\<not> bit (p_sig (k_proc s' (procp s))) (n - 1)"
    unfolding s'_def by (simp add: c(1) k(3) bit_simps)
  moreover have "u_signal (u s') = u_signal (u c)" "u_ar0 (u s') = u_ar0 w0" by (simp_all add: s'_def)
  ultimately show ?thesis using run g' c(5,6) by (intro exI[of _ g'] exI[of _ s']) simp
qed

section \<open>The supervisor bit\<close>

definition user_mode :: "trapg \<Rightarrow> bool" where
  "user_mode g \<longleftrightarrow> tg_new_sr g AND 0x2000 = 0"

lemma user_sr_clear: "user_sr sr AND 0x2000 = 0"
  by (simp add: user_sr_def to_u16_def and.assoc)

text \<open>The globals that a call stores do not leave user mode.\<close>

definition safe :: "(kernel, callres) kern \<Rightarrow> bool" where
  "safe m \<longleftrightarrow> (\<forall>es s r es' s' g. m es s = Ret r es' s' \<longrightarrow> user_mode g \<longrightarrow> user_mode (snd r g))"

lemma safe_rules [intro!]:
  "safe (kret (v, id))" "(\<And>s g. user_mode g \<Longrightarrow> user_mode (snd (f s) g)) \<Longrightarrow> safe (kget f)"
  "(\<And>a. safe (h a)) \<Longrightarrow> safe (kbind n h)" "safe m \<Longrightarrow> safe (kthen n m)" "\<lbrakk>safe m; safe m'\<rbrakk> \<Longrightarrow> safe (kif b m m')"
  "safe (kpanic msg)" "safe kexited" "safe (trap_copyout bs a v)"
  by (auto simp add: safe_def kern_simps trap_copyout_def split: outcome.splits prod.splits)

lemma safe_calls [intro!]:
  "safe (rv_or f)" "safe (call_val xs m)" "safe (call_zero xs m)" "safe (ret_pair f d)" "safe (trap_wait a)" "safe (trap_pipe a)"
  "safe (trap_exec t)" "safe trap_shutdown"
  unfolding rv_or_def call_val_def call_zero_def ret_pair_def trap_wait_def trap_pipe_def trap_exec_def trap_shutdown_def
  by (auto simp add: user_mode_def user_sr_clear split: prod.splits)

lemma switch_safe: "safe (trap_switch tty t g)"
proof -
  have "\<forall>e \<in> set (syscalls tty t g). safe (snd e)"
    unfolding switch_defs Let_def by auto
  then show ?thesis
    by (auto simp add: trap_switch_def split: option.split dest!: map_of_SomeD)
qed

lemma trap_result_user: "user_mode g \<Longrightarrow> user_mode (trap_result rv s g)"
  by (simp add: trap_result_def user_mode_def user_sr_clear Let_def)

lemma others_user: "\<lbrakk>user_mode g; \<forall>g. user_mode g \<longrightarrow> user_mode (oth g)\<rbrakk> \<Longrightarrow> user_mode (others_ran oth es es' g)"
  by (simp add: others_ran_def)

lemma trap_done_user:
  assumes "trap_done l oth w0 rv g es s = Ret (rv', g') es' s'" "user_mode g" "\<forall>g. user_mode g \<longrightarrow> user_mode (oth g)"
  shows "user_mode g'"
  using assms(1) trap_result_user others_user[OF assms(2,3)]
  by (auto simp add: trap_done_def Let_def split: outcome.splits)

section \<open>Calls that change nothing\<close>

lemma to_u32_i32 [simp]: "to_u32 (to_i32 x) = to_u32 x"
  by (simp add: to_u32_def to_i32_def take_bit_signed_take_bit)

lemma enter_fields [simp]:
  "k_proc (trap_enter t s) = k_proc s" "k_uarrp (trap_enter t s) = k_uarrp s" "procp (trap_enter t s) = procp s"
  "k_time (trap_enter t s) = k_time s" "u_error (u (trap_enter t s)) = 0" "u_uid (u (trap_enter t s)) = u_uid (u s)"
  "u_gid (u (trap_enter t s)) = u_gid (u s)" "u_ruid (u (trap_enter t s)) = u_ruid (u s)"
  "u_rgid (u (trap_enter t s)) = u_rgid (u s)" "u_ar0 (u (trap_enter t s)) PC = to_i32 (ti_pc t)"
  "u_ar0 (u (trap_enter t s)) R6 = to_i32 (ti_usp t)" "u_ar0 (u (trap_enter t s)) RPS = to_i32 (ti_sr t)"
  by (simp_all add: trap_enter_def upd_defs PC_def R6_def RPS_def)

text \<open>A call that returns without a sleep, with the registers of the trap in place and no signal pending.\<close>

lemma quick_call:
  assumes "in_place (tg_page g) s" "trap_switch tty t g es (trap_enter t s) = Ret (rv, f) es k"
    "k_proc k = k_proc s" "procp k = procp s" "u_ar0 (u k) = u_ar0 (u (trap_enter t s))" "p_sig (k_proc s (procp s)) = 0"
  shows "\<exists>g' s'. epoch68_trap_syscall tty l oth es2 t g es s = Ret (rv, g') es s' \<and>
    g' = trap_result rv (trap_priority k) (f (trap_globals t (procp s) g)) \<and> u_ar0 (u (trap_priority k)) PC = to_i32 (ti_pc t) \<and>
    u_ar0 (u (trap_priority k)) R6 = to_i32 (ti_usp t)"
proof -
  have "p_sig (k_proc k (procp k)) = 0" using assms(3,4,6) by simp
  from trap_done_none[OF this] show ?thesis
    unfolding trap_syscall_run[OF assms(1)] assms(2) call_end_def
    using assms(5) by (simp add: Let_def others_ran_def)
qed

lemma save_usp_proc:
  "p < NPROC \<Longrightarrow> tg_proc_usp (epoch68_save_current_usp p v g) p = v"
  by (simp add: epoch68_save_current_usp_def epoch68_proc_index_def)

lemma identity_switch:
  assumes "ti_sysno t \<in> {20, 24, 47}"
  shows "trap_switch tty t g es s =
    (let (v, d) = (if ti_sysno t = 20 then (p_pid (k_proc s (procp s)), p_ppid (k_proc s (procp s)))
                   else if ti_sysno t = 24 then (u_ruid (u s), u_uid (u s)) else (u_rgid (u s), u_gid (u s)))
     in Ret (v, \<lambda>g. g\<lparr>tg_return_d1 := d\<rparr>) es s)"
  using assms by (auto simp add: trap_switch_def switch_defs ret_pair_def kern_simps Let_def
    EPOCH68_SYSCALL_IDLETRAP_def EPOCH68_SYSCALL_KTICKS_def EPOCH68_SYSCALL_SHUTDOWN_def)

lemma time_switch:
  assumes "ti_sysno t = 13"
  shows "trap_switch tty t g es s = rv_or (\<lambda>s. r_val1 (u s)) es (gtime s)"
  using assms by (simp add: trap_switch_def switch_defs kern_simps Let_def)

section \<open>Properties\<close>

text \<open>
  Claim C36. Every system call that returns leaves the supervisor bit clear in the status register of the return, whatever its number
  and arguments, however it ended, and whatever the saved registers, the trampoline and the other processes hold: user code cannot
  get into supervisor mode through the trap, provided the others keep this too.\<close>

theorem returns_to_user:
  assumes "epoch68_trap_syscall tty l oth es2 t g es s = Ret (rv, g') es' s'" "user_mode g"
    "\<forall>g. user_mode g \<longrightarrow> user_mode (oth g)"
  shows "user_mode g'"
proof -
  let ?m = "kthen (epoch68_sync_current_from_page (tg_page g)) (kthen (kmod (trap_enter t))
    (kthen (epoch68_sync_current_from_page (tg_page g)) (trap_switch tty t g)))"
  let ?g = "trap_globals t (procp s) g"
  have g: "user_mode ?g" using assms(2) by (simp add: user_mode_def trap_globals_def)
  have m: "safe ?m" by (intro safe_rules switch_safe)
  show ?thesis
  proof (cases "?m es s")
    case (Ret r es1 s1)
    have "user_mode (snd r (others_ran oth es es1 ?g))"
      using m Ret others_user[OF g assms(3)] unfolding safe_def by blast
    then show ?thesis
      using assms(1) Ret trap_done_user[OF _ _ assms(3)] unfolding epoch68_trap_syscall_def Let_def by auto
  next
    case (Longjmp k)
    have "user_mode (oth ?g)" using g assms(3) by blast
    then show ?thesis
      using assms(1) Longjmp trap_done_user[OF _ _ assms(3)] unfolding epoch68_trap_syscall_def Let_def by auto
  qed (use assms(1) in \<open>auto simp add: epoch68_trap_syscall_def Let_def\<close>)
qed

text \<open>
  Claim C35. An interrupted call with a handler: when any call is left by the jump out of an interrupted sleep and the lowest signal is
  caught, the trap returns minus the error of the call, \<open>EINTR\<close> if it had none, and enters the trampoline with a frame of 10 bytes below the old stack
  pointer that holds the handler, the number and the old program counter; the signal is no longer pending, its disposition is the
  default again (but for \<open>SIGINS\<close> and \<open>SIGTRC\<close>), and the registers of the trap around this one (\<open>u_ar0\<close>) are back. The old stack pointer
  must leave room for the frame in the 256 KiB of the user page. The second result register is what the
  other processes have left in the one global that all of them share.\<close>

theorem interrupted_call:
  assumes "in_place (tg_page g) s" "trap_switch tty t g es (trap_enter t s) = Longjmp k" "catches n k" "0 \<le> u_error (u k)"
    "10 \<le> to_u32 (u_ar0 (u k) R6)" "to_u32 (u_ar0 (u k) R6) \<le> 262144"
  shows "\<exists>g' s'. epoch68_trap_syscall tty l oth es2 t g es s = Ret (- (if u_error (u k) = 0 then EINTR else u_error (u k)), g') es2 s' \<and>
    tg_new_pc g' = to_u32 (u_sigtramp (u k)) \<and> tg_new_usp g' = to_u32 (u_ar0 (u k) R6) - 10 \<and>
    tg_return_d1 g' = tg_return_d1 (oth (trap_globals t (procp s) g)) \<and>
    copyin (tg_new_usp g') 10 s' = Some (be_bytes 4 (to_u32 (u_signal (u k) n)) @ be_bytes 2 (int n) @
      be_bytes 4 (to_u32 (u_ar0 (u k) PC))) \<and>
    \<not> bit (p_sig (k_proc s' (procp k))) (n - 1) \<and>
    (int n \<noteq> SIGINS \<and> int n \<noteq> SIGTRC \<longrightarrow> u_signal (u s') n = 0) \<and> u_ar0 (u s') = u_ar0 (u s)"
proof -
  let ?k = "trap_interrupted k"
  have k: "k_proc ?k = k_proc k" "procp ?k = procp k" "u_ar0 (u ?k) = u_ar0 (u k)" "u_signal (u ?k) = u_signal (u k)"
      "u_sigtramp (u ?k) = u_sigtramp (u k)" "u_error (u ?k) = (if u_error (u k) = 0 then EINTR else u_error (u k))"
    by (simp_all add: trap_interrupted_def upd_defs)
  have c: "catches n ?k" "10 \<le> to_u32 (u_ar0 (u ?k) R6)" "to_u32 (u_ar0 (u ?k) R6) \<le> 262144"
    using assms(3,5,6) by (simp_all add: catches_def k)
  have "- u_error (u ?k) \<noteq> EPOCH68_TRAP_EXECED" using assms(4) by (simp add: k EPOCH68_TRAP_EXECED_def EINTR_def)
  from trap_caught_end[OF c this, of l oth "u s" "oth (trap_globals t (procp s) g)" es2]
  show ?thesis unfolding trap_syscall_run[OF assms(1)] assms(2) call_end_def Let_def by (simp add: k)
qed

text \<open>
  \<open>getpid\<close>, \<open>getuid\<close> and \<open>getgid\<close> return the pair of identities, the second one in \<open>D1\<close>; without a pending signal the process goes on
  exactly where it was, with the program counter and stack pointer of the trap.\<close>

theorem identity_calls:
  assumes "in_place (tg_page g) s" "p_sig (k_proc s (procp s)) = 0" "ti_sysno t \<in> {20, 24, 47}"
    "p_pid (k_proc s (procp s)) < 2 ^ 15" "u_ruid (u s) < 2 ^ 15" "u_rgid (u s) < 2 ^ 15"
  shows "\<exists>rv g' s'. epoch68_trap_syscall tty l oth es2 t g es s = Ret (rv, g') es s' \<and>
    (rv, tg_return_d1 g') =
      (if ti_sysno t = 20 then (p_pid (k_proc s (procp s)), p_ppid (k_proc s (procp s)))
       else if ti_sysno t = 24 then (u_ruid (u s), u_uid (u s)) else (u_rgid (u s), u_gid (u s))) \<and>
    tg_new_pc g' = to_u32 (ti_pc t) \<and> tg_new_usp g' = to_u32 (ti_usp t) \<and> tg_proc_usp g' (procp s) = to_u32 (ti_usp t)"
proof -
  let ?p = "if ti_sysno t = 20 then (p_pid (k_proc s (procp s)), p_ppid (k_proc s (procp s)))
       else if ti_sysno t = 24 then (u_ruid (u s), u_uid (u s)) else (u_rgid (u s), u_gid (u s))"
  obtain v d where vd: "?p = (v, d)" by fastforce
  have sw: "trap_switch tty t g es (trap_enter t s) = Ret (v, \<lambda>g. g\<lparr>tg_return_d1 := d\<rparr>) es (trap_enter t s)"
    unfolding identity_switch[OF assms(3)] using vd by (simp add: Let_def split: if_splits)
  have "v \<noteq> EPOCH68_TRAP_EXECED" using vd assms(4-6) by (auto simp add: EPOCH68_TRAP_EXECED_def split: if_splits)
  moreover have "procp s < NPROC" using assms(1) by (simp add: in_place_def)
  moreover from quick_call[OF assms(1) sw _ _ _ assms(2), of l oth es2] obtain g' s' where
      "epoch68_trap_syscall tty l oth es2 t g es s = Ret (v, g') es s'"
      "g' = trap_result v (trap_priority (trap_enter t s)) ((trap_globals t (procp s) g)\<lparr>tg_return_d1 := d\<rparr>)"
      "u_ar0 (u (trap_priority (trap_enter t s))) PC = to_i32 (ti_pc t)"
      "u_ar0 (u (trap_priority (trap_enter t s))) R6 = to_i32 (ti_usp t)" by auto
  ultimately show ?thesis
    unfolding vd by (intro exI[of _ v] exI[of _ g'] exI[of _ s']) (simp add: trap_result_def Let_def save_usp_proc)
qed

text \<open>
  A call whose result is the largest integer is taken for a successful \<open>exec\<close>: at the last second of 32-bit time, \<open>time\<close> leaves the program counter and
  stack pointer of an earlier system call, of whatever process, in the globals, and the caller continues there.\<close>

theorem exec_marker_confused:
  assumes "in_place (tg_page g) s" "p_sig (k_proc s (procp s)) = 0" "ti_sysno t = 13" "k_time s = 2 ^ 31 - 1"
  shows "\<exists>g' s'. epoch68_trap_syscall tty l oth es2 t g es s = Ret (EPOCH68_TRAP_EXECED, g') es s' \<and>
    tg_new_pc g' = tg_new_pc g \<and> tg_new_usp g' = tg_new_usp g \<and> tg_new_sr g' = tg_new_sr g"
proof -
  have sw: "trap_switch tty t g es (trap_enter t s) = Ret (EPOCH68_TRAP_EXECED, id) es (gtime (trap_enter t s))"
    unfolding time_switch[OF assms(3)] using assms(4)
    by (simp add: rv_or_def kern_simps gtime_def set_r1_def upd_defs trap_enter_def EPOCH68_TRAP_EXECED_def)
  have k: "k_proc (gtime (trap_enter t s)) = k_proc s" "procp (gtime (trap_enter t s)) = procp s"
      "u_ar0 (u (gtime (trap_enter t s))) = u_ar0 (u (trap_enter t s))"
    by (simp_all add: gtime_def set_r1_def) (simp_all add: upd_defs trap_enter_def)
  from quick_call[OF assms(1) sw k assms(2), of l oth es2] show ?thesis
    by (auto simp add: trap_result_def trap_globals_def)
qed

section \<open>The table of calls\<close>

text \<open>\<open>sysent\<close>: the number of arguments, how many of them are in registers, and the routine.\<close>

definition sysent :: "(nat \<times> nat \<times> string) list" where
  "sysent =
    [(0, 0, ''nullsys''), (1, 1, ''rexit''), (0, 0, ''fork''), (3, 1, ''read''), (3, 1, ''write''),
     (2, 0, ''open''), (1, 1, ''close''), (0, 0, ''wait''), (2, 0, ''creat''), (2, 0, ''link''),
     (1, 0, ''unlink''), (2, 0, ''exec''), (1, 0, ''chdir''), (0, 0, ''gtime''), (3, 0, ''mknod''),
     (2, 0, ''chmod''), (3, 0, ''chown''), (1, 0, ''sbreak''), (2, 0, ''stat''), (4, 1, ''seek''),
     (0, 0, ''getpid''), (3, 0, ''smount''), (1, 0, ''sumount''), (1, 1, ''setuid''), (0, 0, ''getuid''),
     (2, 2, ''stime''), (4, 1, ''ptrace''), (1, 1, ''alarm''), (2, 1, ''fstat''), (0, 0, ''pause''),
     (2, 0, ''utime''), (2, 1, ''stty''), (2, 1, ''gtty''), (2, 0, ''saccess''), (1, 1, ''nice''),
     (1, 0, ''ftime''), (0, 0, ''sync''), (2, 1, ''kill''), (0, 0, ''nullsys''), (0, 0, ''nullsys''),
     (1, 1, ''nosys''), (2, 2, ''dup''), (0, 0, ''pipe''), (1, 0, ''times''), (4, 0, ''profil''),
     (0, 0, ''nosys''), (1, 1, ''setgid''), (0, 0, ''getgid''), (2, 0, ''ssig''), (0, 0, ''nosys''),
     (0, 0, ''nosys''), (1, 0, ''sysacct''), (0, 0, ''nosys''), (1, 0, ''syslock''), (3, 0, ''ioctl''),
     (0, 0, ''nosys''), (4, 0, ''mpxchan''), (0, 0, ''nosys''), (0, 0, ''nosys''), (3, 0, ''exece''),
     (1, 0, ''umask''), (1, 0, ''chroot''), (0, 0, ''nosys''), (0, 0, ''nosys'')]"

definition sy_call_name :: "nat \<Rightarrow> string" where
  "sy_call_name n = snd (snd (sysent ! n))"

lemma call_numbers:
  "map fst (syscalls tty t g) =
    [1, 2, 3, 4, 5, 6, 7, 8, 9, 10, 11, 12, 13, 14, 15, 16, 17, 18, 19, 20, 21, 22, 23, 24, 25, 27, 28, 29, 30, 31, 32, 33, 34, 35, 36, 43,
     37, 41, 42, 46, 47, 65502, 48, 51, 54, 60, 65500, 65501]"
  by (simp add: switch_defs Let_def EPOCH68_SYSCALL_IDLETRAP_def EPOCH68_SYSCALL_KTICKS_def EPOCH68_SYSCALL_SHUTDOWN_def)

text \<open>
  The switch and the table disagree: exactly the calls \<open>indir\<close>, \<open>ptrace\<close>, \<open>switch\<close>, \<open>setpgrp\<close>, \<open>prof\<close>, \<open>lock\<close>, \<open>mpx\<close>, \<open>exece\<close> and
  \<open>chroot\<close> have a routine in \<open>sysent\<close> but no case in the switch that the trap uses, so that they return \<open>ENOSYS\<close>; every
  other routine of the table has one.\<close>

theorem calls_without_case:
  "filter (\<lambda>n. sy_call_name n \<noteq> ''nosys'' \<and> int n \<notin> set (map fst (syscalls tty t g))) [0 ..< 64] =
    [0, 26, 38, 39, 44, 53, 56, 59, 61]"
  unfolding call_numbers sy_call_name_def sysent_def by (simp add: upt_rec)

section \<open>Instances\<close>

definition trapg0 :: trapg where
  "trapg0 = \<lparr>tg_return_d1 = 0, tg_new_pc = 4096, tg_new_usp = 8192, tg_new_sr = 0, tg_fork_regs = None, tg_proc_usp = (\<lambda>_. 0),
     tg_resume_usp = 0, tg_page = 1, tg_kticks = 0\<rparr>"

definition trapin0 :: "int \<Rightarrow> trapin" where
  "trapin0 no = \<lparr>ti_sysno = no, ti_d1 = 7, ti_d2 = 0, ti_a0 = 0, ti_a1 = 0, ti_usp = 1000, ti_sr = 0, ti_pc = 500, ti_regs = None\<rparr>"

definition no_layout :: ulayout where
  "no_layout = \<lparr>ul_word = (\<lambda>_ _. 0), ul_reg = (\<lambda>_. None), ul_fps = (\<lambda>_. False), ul_image = (\<lambda>_ _. 0)\<rparr>"

lemma trap0_simps [simp]: "tg_page trapg0 = 1" "user_mode trapg0" "ti_sysno (trapin0 no) = no" "ti_usp (trapin0 no) = 1000"
  "ti_pc (trapin0 no) = 500" "ti_d1 (trapin0 no) = 7" "tg_new_pc trapg0 = 4096" "tg_new_usp trapg0 = 8192"
  by (simp_all add: trapg0_def trapin0_def user_mode_def)

definition demo_trap :: "16 word \<Rightarrow> kernel" where
  "demo_trap sig = upd_u (\<lambda>w. w\<lparr>u_signal := (\<lambda>_. 600), u_sigtramp := 700\<rparr>)
     (upd_proc 3 (\<lambda>p. p\<lparr>p_stat := SRUN, p_flag := 0, p_addr := 1, p_sig := sig, p_pid := 5, p_ppid := 4\<rparr>)
       (demo_sched\<lparr>k_time := 2147483647, k_uarrp := 3\<rparr>))"

lemma demo_trap_simps [simp]:
  "k_uarrp (demo_trap sig) = 3" "procp (demo_trap sig) = 3" "p_stat (k_proc (demo_trap sig) 3) = SRUN"
  "p_flag (k_proc (demo_trap sig) 3) = 0" "p_addr (k_proc (demo_trap sig) 3) = 1" "p_sig (k_proc (demo_trap sig) 3) = sig"
  "p_pid (k_proc (demo_trap sig) 3) = 5" "p_ppid (k_proc (demo_trap sig) 3) = 4" "k_time (demo_trap sig) = 2147483647"
  "u_signal (u (demo_trap sig)) n = 600" "u_sigtramp (u (demo_trap sig)) = 700"
  "u_ruid (u (demo_trap sig)) = 0" "u_rgid (u (demo_trap sig)) = 0"
  by (simp_all add: demo_trap_def upd_defs demo_sched_defs)

lemma demo_trap_place: "in_place 1 (demo_trap sig)"
  by (simp add: in_place_def NPROC_def)

lemma demo_pause:
  "\<exists>k. trap_switch tty (trapin0 29) g [] (trap_enter (trapin0 29) (demo_trap 2)) = Longjmp k \<and> catches 2 k \<and> u_error (u k) = 0 \<and>
    to_u32 (u_ar0 (u k) R6) = 1000 \<and> u_ar0 (u k) PC = 500 \<and> u_sigtramp (u k) = 700 \<and> u_signal (u k) 2 = 600 \<and> procp k = 3"
proof -
  let ?s = "trap_enter (trapin0 29) (demo_trap 2)"
  let ?t = "sleep_enter (Ch_u 3) PSLEP ?s"
  let ?k = "sleep_cancel 3 (HASH ?s (Ch_u 3)) ?t"
  have f: "fsig p = 2" if "p_sig p = 2" for p :: proc
    using that by (simp add: fsig_def NSIG_def upt_rec bit_iff_odd)
  have t: "k_uarrp ?t = 3" "procp ?t = 3" "p_sig (k_proc ?t 3) = 2" "p_flag (k_proc ?t 3) = 0" "u ?t = u ?s"
    by (simp_all add: sleep_enter_def Let_def)
  have us: "u_signal (u ?s) n = 600" "u_sigtramp (u ?s) = 700" for n
    by (simp_all add: trap_enter_def)
  have iss: "issig ?t = (2, ?t)" using issig_caught[of ?t] f[OF t(3)] us by (simp add: t(2,5))
  have "trap_switch tty (trapin0 29) g [] ?s = Longjmp ?k"
    using iss by (simp add: trap_switch_def switch_defs Let_def pause_def ksleep_while_def sleep_def kern_simps kissig_def PSLEP_def PZERO_def)
  moreover have k: "k_proc ?k 3 = (k_proc ?t 3)\<lparr>p_wchan := None, p_stat := SRUN\<rparr>" "u ?k = u ?s" "procp ?k = 3"
    by (simp_all add: sleep_cancel_def Let_def upd_proc_def t(2,5))
  moreover have "catches 2 ?k" using t(3,4) f us by (simp add: catches_def k)
  ultimately show ?thesis by (intro exI[of _ ?k]) (simp add: us k to_i32_id to_u32_id)
qed

theorem returns_to_user_witness:
  "\<exists>g' s'. epoch68_trap_syscall (\<lambda>m. kret ()) no_layout id [] (trapin0 20) trapg0 [] (demo_trap 0) = Ret (5, g') [] s' \<and> user_mode g'"
proof -
  have "trap_switch (\<lambda>m. kret ()) (trapin0 20) trapg0 [] (trap_enter (trapin0 20) (demo_trap 0)) =
      Ret (5, \<lambda>g. g\<lparr>tg_return_d1 := 4\<rparr>) [] (trap_enter (trapin0 20) (demo_trap 0))"
    using identity_switch[of "trapin0 20"] by simp
  from quick_call[OF _ this, where l = no_layout and oth = id] demo_trap_place obtain g' s' where
    "epoch68_trap_syscall (\<lambda>m. kret ()) no_layout id [] (trapin0 20) trapg0 [] (demo_trap 0) = Ret (5, g') [] s'" by fastforce
  with returns_to_user[OF this] show ?thesis by auto
qed

theorem interrupted_call_witness:
  "\<exists>g' s'. epoch68_trap_syscall (\<lambda>m. kret ()) no_layout id [] (trapin0 29) trapg0 [] (demo_trap 2) = Ret (- 4, g') [] s' \<and>
    tg_new_pc g' = 700 \<and> tg_new_usp g' = 990 \<and> copyin 990 10 s' = Some [0, 0, 2, 88, 0, 2, 0, 0, 1, 244]"
proof -
  obtain k where k: "trap_switch (\<lambda>m. kret ()) (trapin0 29) trapg0 [] (trap_enter (trapin0 29) (demo_trap 2)) = Longjmp k"
      "catches 2 k" "u_error (u k) = 0" "to_u32 (u_ar0 (u k) R6) = 1000" "u_ar0 (u k) PC = 500" "u_sigtramp (u k) = 700"
      "u_signal (u k) 2 = 600"
    using demo_pause by blast
  have "in_place (tg_page trapg0) (demo_trap 2)" using demo_trap_place by simp
  from interrupted_call[OF this k(1,2), of no_layout id "[]"] show ?thesis
    using k(3-7) by (auto simp add: EINTR_def to_u32_id be_bytes_def be_byte_def upt_rec)
qed

theorem identity_calls_witness:
  "\<exists>g' s'. epoch68_trap_syscall (\<lambda>m. kret ()) no_layout id [] (trapin0 20) trapg0 [] (demo_trap 0) = Ret (5, g') [] s' \<and>
    tg_return_d1 g' = 4 \<and> tg_new_pc g' = 500 \<and> tg_new_usp g' = 1000"
proof -
  have "in_place (tg_page trapg0) (demo_trap 0)" using demo_trap_place by simp
  from identity_calls[OF this, of "trapin0 20" "\<lambda>m. kret ()" no_layout id "[]" "[]"] show ?thesis
    by (simp add: to_u32_id) blast
qed

theorem exec_marker_confused_witness:
  "\<exists>g' s'. epoch68_trap_syscall (\<lambda>m. kret ()) no_layout id [] (trapin0 13) trapg0 [] (demo_trap 0) = Ret (2147483647, g') [] s' \<and>
    tg_new_pc g' = 4096 \<and> tg_new_usp g' = 8192"
proof -
  have "in_place (tg_page trapg0) (demo_trap 0)" using demo_trap_place by simp
  from exec_marker_confused[OF this, of "trapin0 13" "\<lambda>m. kret ()" no_layout id "[]" "[]"] show ?thesis
    by (auto simp add: EPOCH68_TRAP_EXECED_def)
qed

end
