(* ===== verification/Startup.thy ===== *)
theory Startup
  imports Traps
begin

text \<open>
  Starting the system: the parts of \<open>sys/main.c\<close> on the state of the kernel, with the bootstrap programs of \<open>sys/machdep.c\<close>. Vectors, the
  clearing of fixed memory and \<open>startup\<close>'s message are not part of this state; \<open>cinit\<close> and \<open>binit\<close> are in \<open>Clist\<close> and
  \<open>Cache_Init\<close>, the UARTs in \<open>Uart_Receive\<close>. The registers of the clock chip are the argument \<open>rtc\<close>.
\<close>

definition CMASK :: "16 word" where "CMASK = 0"
definition INIT_STACK_TOP :: int where "INIT_STACK_TOP = 0x0003fffe"
definition EPOCH68_BOOT_FLAG_MULTIUSER :: int where "EPOCH68_BOOT_FLAG_MULTIUSER = 1"
definition rootdev :: int where "rootdev = 0"

definition icode :: "int list" where
  "icode = [0x41fa, 0x0014, 0x43fa, 0x0008, 0x700b, 0x4e40, 0x60fe, 0x0000,
            0x0016, 0x0000, 0x0000, 0x2f65, 0x7463, 0x2f69, 0x6e69, 0x7400]"

definition icode_multi :: "int list" where
  "icode_multi = [0x41fa, 0x0018, 0x43fa, 0x0008, 0x700b, 0x4e40, 0x60fe, 0x0000,
                  0x001a, 0x0000, 0x0024, 0x0000, 0x0000, 0x2f65, 0x7463, 0x2f69,
                  0x6e69, 0x7400, 0x2d6d, 0x0000]"

definition epoch68_initcode :: "int \<Rightarrow> 8 word list" where
  "epoch68_initcode flags =
    concat (map (be_bytes 2) (if flags AND EPOCH68_BOOT_FLAG_MULTIUSER \<noteq> 0 then icode_multi else icode))"

definition btoc :: "int \<Rightarrow> int" where
  "btoc x = drop_bit 6 (to_u32 (to_u32 x + 63))"

section \<open>Process 0 and the root\<close>

definition main_proc0 :: "kernel \<Rightarrow> kernel" where
  "main_proc0 s =
    (let s = upd_proc 0 (\<lambda>p. p\<lparr>p_addr := 0, p_size := USIZE, p_stat := SRUN, p_flag := p_flag p OR (SLOAD OR SSYS),
                                p_nice := NZERO\<rparr>) s;
         s = s\<lparr>k_uarrp := 0\<rparr>
     in upd_u (\<lambda>w. w\<lparr>u_procp := 0, u_cmask := CMASK\<rparr>) s)"

definition iinit_mount :: "regs \<Rightarrow> filsys \<Rightarrow> kernel \<Rightarrow> kernel" where
  "iinit_mount rtc fp s =
    (let s = set_mount 0 (\<lambda>m. m\<lparr>m_used := True, m_dev := rootdev, m_filsys := fp\<lparr>s_flock := 0, s_ilock := 0, s_ronly := 0\<rparr>\<rparr>) s
     in s\<lparr>k_time := (case mm58167_time rtc of None \<Rightarrow> s_time fp | Some t \<Rightarrow> t)\<rparr>)"

definition iinit :: "regs \<Rightarrow> (kernel, unit) kern" where
  "iinit rtc =
    kthen (dev_call (Bdev_open rootdev 1))
    (kthen (blk_read rootdev SUPERB)
    (kthen kyield
      (kif (\<lambda>s. u_error (u s) \<noteq> 0) (kpanic ''iinit'')
        (kbind (kget (\<lambda>s. super_load (k_disk s rootdev SUPERB))) (\<lambda>fp. kmod (iinit_mount rtc fp))))))"

text \<open>\<open>iget\<close> of the root, which must not fail; the code does not look.\<close>

definition iget_root :: "(nat \<Rightarrow> kernel \<Rightarrow> kernel) \<Rightarrow> (kernel, unit) kern" where
  "iget_root place =
    kbind (iget rootdev ROOTINO) (\<lambda>r.
      case r of
        None \<Rightarrow> kpanic ''root''
      | Some ip \<Rightarrow> kmod (\<lambda>s. clr_iflag ip ILOCK (place ip s)))"

definition main_root :: "(kernel, unit) kern" where
  "main_root =
    kthen (iget_root (\<lambda>ip s. s\<lparr>k_rootdir := ip\<rparr>))
    (kthen (iget_root (\<lambda>ip. upd_u (\<lambda>w. w\<lparr>u_cdir := ip\<rparr>)))
      (kmod (upd_u (\<lambda>w. w\<lparr>u_rdir := None\<rparr>))))"

definition main_fork :: "(kernel, unit) kern" where
  "main_fork = kthen (kpure (newproc 0)) (kwhen (\<lambda>s. u_error (u s) \<noteq> 0) (kpanic ''init fork''))"

definition main_pages :: "kernel \<Rightarrow> string + kernel" where
  "main_pages s =
    (case userpage_init (k_pages s) of
       Inl (Panicked m) \<Rightarrow> Inl m
     | Inl (Wild t) \<Rightarrow> Inl t
     | Inr pages \<Rightarrow> Inr (s\<lparr>k_pages := pages\<rparr>))"

text \<open>\<open>epoch68_main\<close> up to its call of \<open>sched\<close>.\<close>

definition epoch68_main :: "regs \<Rightarrow> (kernel, unit) kern" where
  "epoch68_main rtc =
    kthen (kpure main_pages) (kthen (kmod main_proc0) (kthen (iinit rtc) (kthen main_root main_fork)))"

section \<open>Process 1\<close>

text \<open>
  The result is the program counter and the stack pointer with which \<open>epoch68_enter_user\<close> goes to user mode; the call before it, which
  lets the UARTs interrupt on received bytes, is a register of the device that this state does not have.\<close>

definition epoch68_init_process :: "int \<Rightarrow> (kernel, int \<times> int) kern" where
  "epoch68_init_process flags =
    (let code = epoch68_initcode flags; clicks = btoc (int (length code))
     in kthen (kmod (expand (USIZE + clicks)))
        (kif (\<lambda>s. u_error (u s) \<noteq> 0) (kpanic ''init expand'')
          (kbind (kestabur 0 clicks 0) (\<lambda>bad.
            if bad then kpanic ''init estabur''
            else (\<lambda>es s. case copyout code 0 s of (r, s) \<Rightarrow>
              if r < 0 then Panic ''init icode'' s else Ret (0, INIT_STACK_TOP) es s)))))"

section \<open>What process 1 executes\<close>

lemma icode_bytes:
  "epoch68_initcode flags =
    (if flags AND EPOCH68_BOOT_FLAG_MULTIUSER \<noteq> 0
     then [0x41, 0xFA, 0, 0x18, 0x43, 0xFA, 0, 8, 0x70, 0x0B, 0x4E, 0x40, 0x60, 0xFE, 0, 0, 0, 26, 0, 0, 0, 36, 0, 0, 0, 0,
           47, 101, 116, 99, 47, 105, 110, 105, 116, 0, 45, 109, 0, 0]
     else [0x41, 0xFA, 0, 0x14, 0x43, 0xFA, 0, 8, 0x70, 0x0B, 0x4E, 0x40, 0x60, 0xFE, 0, 0, 0, 22, 0, 0, 0, 0,
           47, 101, 116, 99, 47, 105, 110, 105, 116, 0])"
  by (simp add: epoch68_initcode_def icode_def icode_multi_def be_bytes_def be_byte_def upt_rec)

text \<open>The user page of the current process starts with \<open>code\<close>.\<close>

definition loaded :: "8 word list \<Rightarrow> kernel \<Rightarrow> bool" where
  "loaded code s \<longleftrightarrow> length code < 2 ^ 16 \<and> (\<forall>a < length code. k_mem s (epoch68_user_page s) a = code ! a)"

lemma loaded_ptr:
  assumes "loaded code s" "a + n \<le> length code" "0 < n"
  shows "epoch68_user_ptr (int a) (int n) = Some a"
  using assms user_ptr_Some[of "int n" "int a" a] by (simp add: loaded_def EPOCH68_USER_PAGE_SIZE_def to_u32_id)

lemma loaded_byte:
  assumes "loaded code s" "a < length code"
  shows "fubyte (int a) s = uint (code ! a)"
  using loaded_ptr[OF assms(1), of a 1] assms by (simp add: fubyte_def loaded_def)

lemma loaded_word:
  assumes "loaded code s" "a + 4 \<le> length code"
  shows "epoch68_exec_fuint (int a) s = rd32 (\<lambda>j. code ! (a + j)) 0"
proof -
  have "copyin (int a) 4 s = Some (map (\<lambda>i. code ! i) [a ..< a + 4])"
    using loaded_ptr[OF assms(1), of a 4] assms by (simp add: copyin_def epoch68_copy_bytes_def loaded_def to_u32_id)
  then show ?thesis by (simp add: epoch68_exec_fuint_def rd32_def)
qed

text \<open>A string of the image is collected.\<close>

lemma collect_string:
  "\<lbrakk>loaded code s; u_error (u s) = 0; \<forall>j < length cs. code ! (a + j) = cs ! j \<and> cs ! j \<noteq> 0; code ! (a + length cs) = 0;
    a + length cs < length code; length cs < k; length buf + length cs < NCARGS - 1\<rbrakk> \<Longrightarrow>
   exec_string k (int a) buf s = (Some (buf @ cs @ [0]), s)"
proof (induction cs arbitrary: a k buf)
  case Nil
  have "fubyte (int a) s = 0" using loaded_byte[OF Nil.prems(1), of a] Nil.prems(4,5) by simp
  then show ?case using Nil.prems by (subst exec_string.simps) (simp add: Let_def)
next
  case (Cons c cs)
  have c: "code ! a = c" "c \<noteq> 0" using spec[OF Cons.prems(3), of 0] by simp_all
  then have f: "fubyte (int a) s = uint c" using loaded_byte[OF Cons.prems(1), of a] Cons.prems(5) by simp
  have p: "0 < uint c" using c(2) by (simp add: word_neq_0_conv word_less_def)
  have a: "to_u32 (int a + 1) = int (Suc a)" using Cons.prems(1,5) by (simp add: loaded_def to_u32_id)
  have "exec_string (k - 1) (int (Suc a)) (buf @ [c]) s = (Some ((buf @ [c]) @ cs @ [0]), s)"
  proof (rule Cons.IH[OF Cons.prems(1,2)])
    show "\<forall>j < length cs. code ! (Suc a + j) = cs ! j \<and> cs ! j \<noteq> 0"
    proof (intro allI impI)
      fix j assume "j < length cs"
      then show "code ! (Suc a + j) = cs ! j \<and> cs ! j \<noteq> 0" using spec[OF Cons.prems(3), of "Suc j"] by simp
    qed
  qed (use Cons.prems in auto)
  then show ?case
    using Cons.prems(2,6,7) f p by (subst exec_string.simps) (simp add: Let_def a)
qed

lemma copyout_loaded:
  assumes "length code < 2 ^ 16"
  shows "\<exists>t. copyout code 0 s = (0, t) \<and> loaded code t \<and> u t = u s"
proof -
  have p: "epoch68_user_ptr 0 (int (length code)) = Some 0"
    using user_ptr_Some[of "int (length code)" 0 0] assms by (simp add: EPOCH68_USER_PAGE_SIZE_def to_u32_id)
  show ?thesis using assms by (simp add: copyout_def p loaded_def copyout_bytes_nth)
qed

definition init_args :: "int \<Rightarrow> 8 word list" where
  "init_args flags = [47, 101, 116, 99, 47, 105, 110, 105, 116, 0] @
     (if flags AND EPOCH68_BOOT_FLAG_MULTIUSER \<noteq> 0 then [45, 109, 0] else [])"

lemma init_process_loads:
  assumes "u_error (u s) = 0"
  shows "\<exists>s'. epoch68_init_process flags es s = Ret (0, INIT_STACK_TOP) es s' \<and> loaded (epoch68_initcode flags) s' \<and> u_error (u s') = 0"
proof -
  let ?c = "epoch68_initcode flags"
  have len: "length ?c = (if flags AND EPOCH68_BOOT_FLAG_MULTIUSER \<noteq> 0 then 40 else 32)" by (simp add: icode_bytes)
  then have b: "btoc (int (length ?c)) = 1" by (simp add: btoc_def to_u32_id)
  let ?t = "upd_proc (procp s) (\<lambda>p. p\<lparr>p_size := to_i16 (USIZE + 1)\<rparr>) s"
  have e: "expand (USIZE + 1) s = ?t" by (simp add: expand_def USIZE_def to_i32_id)
  have k: "kestabur 0 1 0 es ?t = Ret False es ?t"
    by (simp add: kestabur_def kern_simps estabur_def EPOCH68_USER_CLICKS_def to_u32_id)
  have "u_error (u ?t) = 0" using assms by simp
  moreover have "length ?c < 2 ^ 16" using len by simp
  moreover from copyout_loaded[OF this, of ?t] obtain v where "copyout ?c 0 ?t = (0, v)" "loaded ?c v" "u v = u ?t" by blast
  moreover have kb: "kbind (kestabur 0 1 0) f es ?t = f False es ?t" for f :: "bool \<Rightarrow> (kernel, int \<times> int) kern"
    using k by (simp add: kbind_def)
  ultimately show ?thesis unfolding epoch68_init_process_def Let_def b krun e kb by simp
qed

lemma collect_end:
  assumes "0 < k" "argv \<noteq> 0" "epoch68_exec_fuint argv s = 0"
  shows "exec_collect k argv 0 a s = (Some a, s)"
  using assms by (subst exec_collect.simps) (simp add: Let_def)

lemma collect_arg:
  assumes "0 < k" "argv \<noteq> 0" "epoch68_exec_fuint argv s = p" "p \<noteq> 0" "p \<noteq> 0xFFFFFFFF"
    "exec_string NCARGS p (ea_buf a) s = (Some buf, s)"
  shows "exec_collect k argv 0 a s = exec_collect (k - 1) (to_u32 (argv + 4)) 0 (a\<lparr>ea_na := ea_na a + 1, ea_buf := buf\<rparr>) s"
  using assms by (subst exec_collect.simps) (simp add: Let_def)

section \<open>The bootstrap on the processor\<close>

text \<open>
  The user-mode registers of the MC68000 that the bootstrap and the trap use, and the four instructions the bootstrap consists of, from
  their encodings: \<open>lea d16(pc),An\<close>, \<open>moveq #d8,Dn\<close>, \<open>trap #v\<close> and \<open>bra.s\<close>. Any other word is no answer. A step gives the vector of a
  trap, if there is one, and the registers after it.
\<close>

record mc68000 =
  mc_pc :: int
  mc_d :: "nat \<Rightarrow> int"
  mc_a :: "nat \<Rightarrow> int"

definition mc_fetch :: "int \<Rightarrow> kernel \<Rightarrow> int" where
  "mc_fetch pc s = 256 * fubyte pc s + fubyte (pc + 1) s"

definition mc_step :: "kernel \<Rightarrow> mc68000 \<Rightarrow> (int option \<times> mc68000) option" where
  "mc_step s m =
    (let w = mc_fetch (mc_pc m) s; n = nat (w div 512 mod 8); pc = mc_pc m + 2
     in if w AND 0xF1FF = 0x41FA then
          Some (None, m\<lparr>mc_a := (mc_a m)(n := pc + to_i16 (mc_fetch pc s)), mc_pc := pc + 2\<rparr>)
        else if w AND 0xF100 = 0x7000 then Some (None, m\<lparr>mc_d := (mc_d m)(n := to_i8 w), mc_pc := pc\<rparr>)
        else if w AND 0xFFF0 = 0x4E40 then Some (Some (w mod 16), m\<lparr>mc_pc := pc\<rparr>)
        else if w AND 0xFF00 = 0x6000 \<and> w mod 256 \<noteq> 0 then Some (None, m\<lparr>mc_pc := pc + to_i8 w\<rparr>)
        else None)"

text \<open>At most \<open>k\<close> instructions, up to the first trap.\<close>

fun mc_run :: "nat \<Rightarrow> kernel \<Rightarrow> mc68000 \<Rightarrow> (int \<times> mc68000) option" where
  "mc_run 0 s m = None"
| "mc_run (Suc k) s m =
    (case mc_step s m of
       None \<Rightarrow> None
     | Some (None, m) \<Rightarrow> mc_run k s m
     | Some (Some v, m) \<Rightarrow> Some (v, m))"

text \<open>The arguments that \<open>_syscall_trap0\<close> of \<open>conf/mch.s\<close>, the handler of trap 0, passes on to \<open>epoch68_trap_syscall\<close>.\<close>

definition syscall_trap0 :: "mc68000 \<Rightarrow> int \<Rightarrow> int \<Rightarrow> (nat \<Rightarrow> int) option \<Rightarrow> trapin" where
  "syscall_trap0 m usp sr regs = \<lparr>ti_sysno = mc_d m 0, ti_d1 = mc_d m 1, ti_d2 = mc_d m 2, ti_a0 = mc_a m 0, ti_a1 = mc_a m 1,
     ti_usp = usp, ti_sr = sr, ti_pc = mc_pc m, ti_regs = regs\<rparr>"

lemma loaded_fetch:
  assumes "loaded code s" "Suc a < length code"
  shows "mc_fetch (int a) s = 256 * uint (code ! a) + uint (code ! Suc a)"
proof -
  have "int a + 1 = int (Suc a)" by simp
  then show ?thesis using loaded_byte[OF assms(1), of a] loaded_byte[OF assms] assms(2) by (simp only: mc_fetch_def Suc_lessD)
qed

text \<open>Four instructions: the path, the vector of arguments, the number of the call, and the trap; behind it a loop.\<close>

lemma bootstrap_runs:
  assumes "loaded (epoch68_initcode flags) s"
    and m_def: "m = \<lparr>mc_pc = 12, mc_d = d(0 := 11), mc_a = a(0 := if flags AND EPOCH68_BOOT_FLAG_MULTIUSER \<noteq> 0 then 26 else 22, 1 := 14)\<rparr>"
  shows "mc_run 4 s \<lparr>mc_pc = 0, mc_d = d, mc_a = a\<rparr> = Some (0, m)" "mc_step s m = Some (None, m)"
proof -
  let ?multi = "flags AND EPOCH68_BOOT_FLAG_MULTIUSER \<noteq> 0"
  note fetch = loaded_fetch[OF assms(1)]
  have w: "mc_fetch 0 s = 0x41FA" "mc_fetch 2 s = (if ?multi then 0x18 else 0x14)" "mc_fetch 4 s = 0x43FA" "mc_fetch 6 s = 8"
    "mc_fetch 8 s = 0x700B" "mc_fetch 10 s = 0x4E40" "mc_fetch 12 s = 0x60FE"
    using fetch[of 0] fetch[of 2] fetch[of 4] fetch[of 6] fetch[of 8] fetch[of 10] fetch[of 12]
    by (simp_all add: icode_bytes)
  have "mc_step s \<lparr>mc_pc = 0, mc_d = d, mc_a = a\<rparr> =
      Some (None, \<lparr>mc_pc = 4, mc_d = d, mc_a = a(0 := if ?multi then 26 else 22)\<rparr>)"
    using w(1,2) by (simp add: mc_step_def Let_def to_i16_def)
  moreover have "mc_step s \<lparr>mc_pc = 4, mc_d = d, mc_a = b\<rparr> = Some (None, \<lparr>mc_pc = 8, mc_d = d, mc_a = b(1 := 14)\<rparr>)" for b
    using w(3,4) by (simp add: mc_step_def Let_def to_i16_def)
  moreover have "mc_step s \<lparr>mc_pc = 8, mc_d = d, mc_a = b\<rparr> = Some (None, \<lparr>mc_pc = 10, mc_d = d(0 := 11), mc_a = b\<rparr>)" for b
    using w(5) by (simp add: mc_step_def Let_def to_i8_def)
  moreover have "mc_step s \<lparr>mc_pc = 10, mc_d = e, mc_a = b\<rparr> = Some (Some 0, \<lparr>mc_pc = 12, mc_d = e, mc_a = b\<rparr>)" for e b
    using w(6) by (simp add: mc_step_def Let_def)
  ultimately show "mc_run 4 s \<lparr>mc_pc = 0, mc_d = d, mc_a = a\<rparr> = Some (0, m)" by (simp add: m_def eval_nat_numeral)
  show "mc_step s m = Some (None, m)" using w(7) by (simp add: m_def mc_step_def Let_def to_i8_def)
qed

section \<open>Property\<close>

text \<open>
  Claim C37. Process 1 starts the right program. \<open>epoch68_init_process\<close> goes to user mode at address 0 with the bootstrap in the user page
  from there on. The processor, executing the words of the bootstrap from whatever register contents, takes trap 0 after three
  instructions; the registers are then those of the call \<open>exec\<close> in the switch of \<open>epoch68_trap_syscall\<close>, which passes no environment:
  the first argument is the address of the path \<open>/etc/init\<close>, and the second that of a vector from which \<open>exec\<close> collects
  \<open>/etc/init\<close> and, when the boot flag asks for several users, \<open>-m\<close>. If the call comes back, the bootstrap stays where it is.\<close>

theorem boot_executes_init:
  assumes "u_error (u s) = 0"
  shows "\<exists>s' m. epoch68_init_process flags es s = Ret (0, INIT_STACK_TOP) es s' \<and>
    map (k_mem s' (epoch68_user_page s')) [0 ..< length (epoch68_initcode flags)] = epoch68_initcode flags \<and>
    mc_run 4 s' \<lparr>mc_pc = 0, mc_d = d, mc_a = a\<rparr> = Some (0, m) \<and>
    (\<forall>tty usp sr regs g. trap_switch tty (syscall_trap0 m usp sr regs) g = trap_exec (syscall_trap0 m usp sr regs)) \<and>
    exec_string NCARGS (mc_a m 0) [] s' = (Some [47, 101, 116, 99, 47, 105, 110, 105, 116, 0], s') \<and>
    exec_collect NCARGS (mc_a m 1) 0 \<lparr>ea_na = 0, ea_ne = 0, ea_buf = []\<rparr> s' =
      (Some \<lparr>ea_na = (if flags AND EPOCH68_BOOT_FLAG_MULTIUSER \<noteq> 0 then 2 else 1), ea_ne = 0, ea_buf = init_args flags\<rparr>, s') \<and>
    mc_step s' m = Some (None, m)"
proof -
  obtain s' where s': "epoch68_init_process flags es s = Ret (0, INIT_STACK_TOP) es s'" "loaded (epoch68_initcode flags) s'"
      "u_error (u s') = 0"
    using init_process_loads[OF assms] by blast
  let ?init = "[47, 101, 116, 99, 47, 105, 110, 105, 116] :: 8 word list"
  note word = loaded_word[OF s'(2)]
  let ?a0 = "\<lparr>ea_na = 0, ea_ne = 0, ea_buf = []\<rparr>"
  have "exec_string NCARGS (if flags AND EPOCH68_BOOT_FLAG_MULTIUSER \<noteq> 0 then 26 else 22) [] s' = (Some (?init @ [0]), s') \<and>
    exec_collect NCARGS 14 0 ?a0 s' =
      (Some \<lparr>ea_na = (if flags AND EPOCH68_BOOT_FLAG_MULTIUSER \<noteq> 0 then 2 else 1), ea_ne = 0, ea_buf = init_args flags\<rparr>, s')"
  proof (cases "flags AND EPOCH68_BOOT_FLAG_MULTIUSER \<noteq> 0")
    case True
    then have code: "epoch68_initcode flags = [0x41, 0xFA, 0, 0x18, 0x43, 0xFA, 0, 8, 0x70, 0x0B, 0x4E, 0x40, 0x60, 0xFE, 0, 0, 0, 26, 0, 0, 0, 36,
        0, 0, 0, 0, 47, 101, 116, 99, 47, 105, 110, 105, 116, 0, 45, 109, 0, 0]"
      by (simp add: icode_bytes)
    have w: "epoch68_exec_fuint 14 s' = 26" "epoch68_exec_fuint 18 s' = 36" "epoch68_exec_fuint 22 s' = 0"
      using word[of 14] word[of 18] word[of 22] by (simp_all add: code rd32_def)
    have "exec_string NCARGS (int 26) [] s' = (Some ([] @ ?init @ [0]), s')"
      by (rule collect_string[OF s'(2,3)]) (simp_all add: code All_less_Suc2 NCARGS_def)
    then have i: "exec_string NCARGS 26 [] s' = (Some (?init @ [0]), s')" by simp
    have "exec_string NCARGS (int 36) (?init @ [0]) s' = (Some ((?init @ [0]) @ [45, 109] @ [0]), s')"
      by (rule collect_string[OF s'(2,3)]) (simp_all add: code All_less_Suc2 NCARGS_def)
    then have m: "exec_string NCARGS 36 (?init @ [0]) s' = (Some (?init @ [0, 45, 109, 0]), s')" by simp
    have "exec_collect NCARGS 14 0 ?a0 s' = exec_collect (NCARGS - 1) 18 0 \<lparr>ea_na = 1, ea_ne = 0, ea_buf = ?init @ [0]\<rparr> s'"
      using collect_arg[OF _ _ w(1), of NCARGS ?a0] i by (simp add: NCARGS_def to_u32_id)
    also have "\<dots> = exec_collect (NCARGS - 2) 22 0 \<lparr>ea_na = 2, ea_ne = 0, ea_buf = ?init @ [0, 45, 109, 0]\<rparr> s'"
      using collect_arg[OF _ _ w(2), of "NCARGS - 1" "\<lparr>ea_na = 1, ea_ne = 0, ea_buf = ?init @ [0]\<rparr>"] m
      by (simp add: NCARGS_def to_u32_id)
    also have "\<dots> = (Some \<lparr>ea_na = 2, ea_ne = 0, ea_buf = ?init @ [0, 45, 109, 0]\<rparr>, s')"
      by (rule collect_end) (simp_all add: NCARGS_def w(3))
    finally show ?thesis using True i by (simp add: init_args_def)
  next
    case False
    then have code: "epoch68_initcode flags = [0x41, 0xFA, 0, 0x14, 0x43, 0xFA, 0, 8, 0x70, 0x0B, 0x4E, 0x40, 0x60, 0xFE, 0, 0, 0, 22, 0, 0, 0, 0,
        47, 101, 116, 99, 47, 105, 110, 105, 116, 0]"
      by (simp add: icode_bytes)
    have w: "epoch68_exec_fuint 14 s' = 22" "epoch68_exec_fuint 18 s' = 0"
      using word[of 14] word[of 18] by (simp_all add: code rd32_def)
    have "exec_string NCARGS (int 22) [] s' = (Some ([] @ ?init @ [0]), s')"
      by (rule collect_string[OF s'(2,3)]) (simp_all add: code All_less_Suc2 NCARGS_def)
    then have i: "exec_string NCARGS 22 [] s' = (Some (?init @ [0]), s')" by simp
    have "exec_collect NCARGS 14 0 ?a0 s' = exec_collect (NCARGS - 1) 18 0 \<lparr>ea_na = 1, ea_ne = 0, ea_buf = ?init @ [0]\<rparr> s'"
      using collect_arg[OF _ _ w(1), of NCARGS ?a0] i by (simp add: NCARGS_def to_u32_id)
    also have "\<dots> = (Some \<lparr>ea_na = 1, ea_ne = 0, ea_buf = ?init @ [0]\<rparr>, s')"
      by (rule collect_end) (simp_all add: NCARGS_def w(2))
    finally show ?thesis using False i by (simp add: init_args_def)
  qed
  moreover define m where "m = \<lparr>mc_pc = 12, mc_d = d(0 := 11),
    mc_a = a(0 := if flags AND EPOCH68_BOOT_FLAG_MULTIUSER \<noteq> 0 then 26 else 22, 1 := 14)\<rparr>"
  moreover have "\<forall>tty usp sr regs g. trap_switch tty (syscall_trap0 m usp sr regs) g = trap_exec (syscall_trap0 m usp sr regs)"
    by (simp add: trap_switch_def switch_defs syscall_trap0_def m_def Let_def)
  moreover have "map (k_mem s' (epoch68_user_page s')) [0 ..< length (epoch68_initcode flags)] = epoch68_initcode flags"
    using s'(2) by (intro nth_equalityI) (simp_all add: loaded_def)
  ultimately show ?thesis using s'(1) bootstrap_runs[OF s'(2), of m d a] by (intro exI[of _ s'] exI[of _ m]) simp
qed

theorem boot_executes_init_witness:
  "\<exists>s' m. epoch68_init_process 1 [] kernel0 = Ret (0, 0x3fffe) [] s' \<and>
    mc_run 4 s' \<lparr>mc_pc = 0, mc_d = (\<lambda>_. 0), mc_a = (\<lambda>_. 0)\<rparr> = Some (0, m) \<and>
    fst (exec_collect NCARGS (mc_a m 1) 0 \<lparr>ea_na = 0, ea_ne = 0, ea_buf = []\<rparr> s') =
      Some \<lparr>ea_na = 2, ea_ne = 0, ea_buf = [47, 101, 116, 99, 47, 105, 110, 105, 116, 0, 45, 109, 0]\<rparr>"
proof -
  have "u_error (u kernel0) = 0" by (simp add: zero_defs u_def)
  from boot_executes_init[OF this, of 1 "[]" "\<lambda>_. 0" "\<lambda>_. 0"] show ?thesis
    by (elim exE conjE) (rule exI, rule exI, intro conjI, auto simp add: init_args_def EPOCH68_BOOT_FLAG_MULTIUSER_def INIT_STACK_TOP_def)
qed

end
