(* ===== verification/Memory_Device.thy ===== *)
theory Memory_Device
  imports File_IO Rtc
begin

text \<open>
  The devices that give out bytes one by one. The memory devices of \<open>dev/mem.c\<close>: minor device 0 is the physical memory of 64 pages, 1 the kernel's addresses, 2 the null device.
  \<open>k_mem\<close> is the memory by page; the page register that the code sets for each byte and puts back with interrupts masked is not
  part of the state. The clock chip of \<open>dev/mm58167.c\<close> is read register by register; the registers are an argument.
\<close>

definition EPOCH68_RAM_PAGE_SIZE :: int where "EPOCH68_RAM_PAGE_SIZE = 256 * 1024"
definition EPOCH68_RAM_PAGES :: int where "EPOCH68_RAM_PAGES = 64"
definition EPOCH68_RAM_SIZE :: int where "EPOCH68_RAM_SIZE = EPOCH68_RAM_PAGE_SIZE * EPOCH68_RAM_PAGES"
definition EPOCH68_KMETA_BASE :: int where "EPOCH68_KMETA_BASE = 0x00c00000"
definition EPOCH68_KMETA_PAGE :: int where "EPOCH68_KMETA_PAGE = 63"

definition epoch68_page_byte :: "int \<Rightarrow> int \<Rightarrow> kernel \<Rightarrow> int" where
  "epoch68_page_byte page off s = uint (k_mem s (to_u8 page) (nat off))"

definition epoch68_ram_byte :: "int \<Rightarrow> kernel \<Rightarrow> int" where
  "epoch68_ram_byte addr s = epoch68_page_byte (addr div EPOCH68_RAM_PAGE_SIZE) (addr mod EPOCH68_RAM_PAGE_SIZE) s"

definition epoch68_kmem_byte :: "int \<Rightarrow> kernel \<Rightarrow> int" where
  "epoch68_kmem_byte addr s =
    (if addr < EPOCH68_RAM_PAGE_SIZE then epoch68_page_byte 0 addr s
     else if addr \<ge> EPOCH68_KMETA_BASE \<and> addr < EPOCH68_KMETA_BASE + EPOCH68_RAM_PAGE_SIZE
     then epoch68_page_byte EPOCH68_KMETA_PAGE (addr - EPOCH68_KMETA_BASE) s
     else - 1)"

text \<open>Each turn transfers a byte or ends the loop, so that \<open>u_count\<close> turns and the last test are enough.\<close>

fun mmread_loop :: "nat \<Rightarrow> int \<Rightarrow> kernel \<Rightarrow> kernel" where
  "mmread_loop 0 m s = s"
| "mmread_loop (Suc k) m s =
    (if u_count (u s) = 0 then s
     else
       let addr = to_u32 (u_offset (u s))
       in if m = 0 \<and> addr \<ge> EPOCH68_RAM_SIZE then s
          else
            let c = (if m = 0 then epoch68_ram_byte addr s else epoch68_kmem_byte addr s)
            in if m \<noteq> 0 \<and> c < 0 then set_error ENXIO s
               else case passc c s of (r, s) \<Rightarrow> if r < 0 then s else mmread_loop k m s)"

definition mmread :: "int \<Rightarrow> kernel \<Rightarrow> int \<times> kernel" where
  "mmread dev s =
    (let m = minor dev
     in if m = 2 then (0, s)
        else if m \<noteq> 0 \<and> m \<noteq> 1 then (- 1, set_error ENXIO s)
        else (0, mmread_loop (Suc (nat (u_count (u s)))) m s))"

definition mmwrite :: "int \<Rightarrow> kernel \<Rightarrow> int \<times> kernel" where
  "mmwrite dev s =
    (if minor dev = 2 then (0, upd_u (\<lambda>w. w\<lparr>u_count := 0\<rparr>) s)
     else (- 1, set_error EACCES s))"

section \<open>The clock chip\<close>

definition rtcopen :: "int \<Rightarrow> int \<Rightarrow> kernel \<Rightarrow> int \<times> kernel" where
  "rtcopen dev flag s = (if minor dev \<noteq> 0 then (- 1, set_error ENXIO s) else (0, s))"

fun rtcread_loop :: "nat \<Rightarrow> nat \<Rightarrow> regs \<Rightarrow> kernel \<Rightarrow> kernel" where
  "rtcread_loop 0 i rtc s = s"
| "rtcread_loop (Suc n) i rtc s =
    (if u_count (u s) = 0 then s
     else case passc (rtc i AND 0xFF) s of (r, s) \<Rightarrow> if r < 0 then s else rtcread_loop n (i + 1) rtc s)"

definition rtcread :: "int \<Rightarrow> regs \<Rightarrow> kernel \<Rightarrow> int \<times> kernel" where
  "rtcread dev rtc s =
    (if minor dev \<noteq> 0 then (- 1, set_error ENXIO s) else (0, rtcread_loop MM58167_NREG 0 rtc s))"

definition rtcwrite :: "int \<Rightarrow> kernel \<Rightarrow> int \<times> kernel" where
  "rtcwrite dev s = (- 1, set_error EINVAL s)"

lemma byte_of_and: "uint (word_of_int x :: 8 word) = x AND 0xFF"
proof -
  have "x AND mask 8 = take_bit 8 x" by (simp only: take_bit_eq_mask)
  then show ?thesis by (simp add: uint_word_of_int_eq mask_eq_exp_minus_1)
qed

text \<open>The registers are delivered like a block of bytes.\<close>

lemma rtcread_bytes:
  "u_count (u s) \<noteq> 0 \<Longrightarrow> rtcread_loop n i rtc s = iomove_passc n i (\<lambda>j. word_of_int (rtc j)) s"
proof (induction n arbitrary: i s)
  case (Suc n)
  obtain r t where p: "passc (rtc i AND 0xFF) s = (r, t)" by fastforce
  have "r < 0 \<or> u_count (u t) \<noteq> 0" using p by (auto simp add: passc_def Let_def split: prod.splits if_splits)
  then show ?case using Suc p by (auto simp add: byte_of_and)
qed simp

section \<open>What is read\<close>

text \<open>The byte at an address of the device, \<open>None\<close> if there is none.\<close>

definition mem_byte :: "int \<Rightarrow> int \<Rightarrow> kernel \<Rightarrow> 8 word option" where
  "mem_byte m a s =
    (if m = 0 then (if a < 2 ^ 24 then Some (k_mem s (a div 2 ^ 18) (nat (a mod 2 ^ 18))) else None)
     else if a < 2 ^ 18 then Some (k_mem s 0 (nat a))
     else if 0xC00000 \<le> a \<and> a < 0xC40000 then Some (k_mem s 63 (nat (a - 0xC00000)))
     else None)"

text \<open>The page that an address of the device is in.\<close>

definition mem_page :: "int \<Rightarrow> int \<Rightarrow> int" where
  "mem_page m a = (if m = 0 then a div 2 ^ 18 else if a < 2 ^ 18 then 0 else 63)"

lemma mem_byte_ram:
  assumes "0 \<le> a"
  shows "m = 0 \<Longrightarrow> mem_byte m a s = None \<longleftrightarrow> a \<ge> EPOCH68_RAM_SIZE"
    "m = 0 \<Longrightarrow> mem_byte m a s = Some b \<Longrightarrow> epoch68_ram_byte a s = uint b"
    "m \<noteq> 0 \<Longrightarrow> mem_byte m a s = None \<longleftrightarrow> epoch68_kmem_byte a s < 0"
    "m \<noteq> 0 \<Longrightarrow> mem_byte m a s = Some b \<Longrightarrow> epoch68_kmem_byte a s = uint b"
proof -
  show "m = 0 \<Longrightarrow> mem_byte m a s = None \<longleftrightarrow> a \<ge> EPOCH68_RAM_SIZE"
    by (simp add: mem_byte_def EPOCH68_RAM_SIZE_def EPOCH68_RAM_PAGE_SIZE_def EPOCH68_RAM_PAGES_def)
  show "m = 0 \<Longrightarrow> mem_byte m a s = Some b \<Longrightarrow> epoch68_ram_byte a s = uint b"
    using assms by (auto simp add: mem_byte_def epoch68_ram_byte_def epoch68_page_byte_def EPOCH68_RAM_PAGE_SIZE_def
      to_u8_id split: if_splits)
  have k: "\<not> uint x < 0" for x :: "8 word" by (simp add: not_less)
  show "m \<noteq> 0 \<Longrightarrow> mem_byte m a s = None \<longleftrightarrow> epoch68_kmem_byte a s < 0"
    using k by (simp add: mem_byte_def epoch68_kmem_byte_def epoch68_page_byte_def EPOCH68_RAM_PAGE_SIZE_def EPOCH68_KMETA_BASE_def)
  show "m \<noteq> 0 \<Longrightarrow> mem_byte m a s = Some b \<Longrightarrow> epoch68_kmem_byte a s = uint b"
    by (auto simp add: mem_byte_def epoch68_kmem_byte_def epoch68_page_byte_def EPOCH68_RAM_PAGE_SIZE_def EPOCH68_KMETA_BASE_def
      EPOCH68_KMETA_PAGE_def to_u8_id split: if_splits)
qed

lemma mem_byte_other_page:
  assumes "mem_page m a \<noteq> epoch68_user_page s"
  shows "mem_byte m a (io_step k (put_bytes dst bs s)) = mem_byte m a s"
proof -
  have "k_mem (io_step k (put_bytes dst bs s)) p = k_mem s p" if "p \<noteq> epoch68_user_page s" for p
    using that by (simp add: io_step_def put_bytes_def upd_u_def)
  then show ?thesis using assms by (auto simp add: mem_byte_def mem_page_def)
qed

lemma io_step_offset: "u_offset (u (io_step m s)) = to_i32 (u_offset (u s) + int m)"
  by (simp add: io_step_def)

lemma mmread_stops:
  assumes "mem_byte m (u_offset (u s)) s = None" "0 \<le> u_offset (u s)" "u_offset (u s) < 2 ^ 31" "u_count (u s) \<noteq> 0"
  shows "mmread_loop (Suc k) m s = (if m = 0 then s else set_error ENXIO s)"
proof -
  have a: "to_u32 (u_offset (u s)) = u_offset (u s)" using assms by (simp add: to_u32_id)
  show ?thesis
    using mem_byte_ram(1,3)[OF assms(2), of m s] assms(1,4) by (cases "m = 0") (simp_all add: a Let_def)
qed

text \<open>\<open>n\<close> bytes that exist, then the end of the request or of the memory.\<close>

lemma mmread_bytes:
  "\<lbrakk>fits n s; 0 \<le> u_offset (u s); u_offset (u s) + int n < 2 ^ 31;
    \<forall>j < n. mem_byte m (u_offset (u s) + int j) s = Some (b (cp + j)) \<and> mem_page m (u_offset (u s) + int j) \<noteq> epoch68_user_page s;
    n = nat (u_count (u s)) \<or> mem_byte m (u_offset (u s) + int n) s = None \<and> mem_page m (u_offset (u s) + int n) \<noteq> epoch68_user_page s;
    nat (u_count (u s)) < k\<rbrakk> \<Longrightarrow>
   mmread_loop k m s =
     (let t = io_step n (put_bytes (nat (u_base (u s))) (map b [cp ..< cp + n]) s)
      in if n = nat (u_count (u s)) \<or> m = 0 then t else set_error ENXIO t)"
proof (induction n arbitrary: cp s k)
  case (Suc n)
  obtain k' where k: "k = Suc k'" using Suc.prems(6) by (cases k) auto
  let ?o = "u_offset (u s)"
  have o: "to_u32 ?o = ?o" "0 \<le> ?o" using Suc.prems(2,3) by (simp_all add: to_u32_id)
  define t where "t = io_step 1 (put_bytes (nat (u_base (u s))) [b cp] s)"
  have c: "u_count (u s) \<noteq> 0" using Suc.prems(1) by (auto simp add: fits_def)
  have b0: "mem_byte m ?o s = Some (b cp)" using spec[OF Suc.prems(4), of 0] by simp
  have st: "mmread_loop k m s = (if u_count (u s) = 1 then t else mmread_loop k' m t)"
  proof (cases "m = 0")
    case True
    have "\<not> EPOCH68_RAM_SIZE \<le> ?o" "epoch68_ram_byte ?o s = uint (b cp)"
      using mem_byte_ram(1,2)[OF o(2) True] b0 by auto
    then show ?thesis using c passc_fits[OF Suc.prems(1), of "b cp"] True by (simp add: k o(1) Let_def t_def)
  next
    case False
    have "\<not> epoch68_kmem_byte ?o s < 0" "epoch68_kmem_byte ?o s = uint (b cp)"
      using mem_byte_ram(3,4)[OF o(2) False] b0 by auto
    then show ?thesis using c passc_fits[OF Suc.prems(1), of "b cp"] False by (simp add: k o(1) Let_def t_def)
  qed
  have ut: "u_count (u t) = u_count (u s) - 1" "u_base (u t) = u_base (u s) + 1" "u_segflg (u t) = u_segflg (u s)"
    using io_step_u[OF Suc.prems(1), of 1] by (simp_all add: t_def flip: put_bytes_io_step)
  have ot: "u_offset (u t) = ?o + 1"
    using Suc.prems(2,3) by (simp add: t_def io_step_offset to_i32_id)
  have pt: "epoch68_user_page t = epoch68_user_page s" by (simp add: t_def)
  have base: "0 \<le> u_base (u s)" using Suc.prems(1) by (simp add: fits_def)
  have mt: "mem_byte m a t = mem_byte m a s" if "mem_page m a \<noteq> epoch68_user_page s" for a
    unfolding t_def using mem_byte_other_page[OF that] .
  show ?case
  proof (cases n)
    case 0
    show ?thesis
    proof (cases "u_count (u s) = 1")
      case True
      then show ?thesis using st 0 by (simp add: t_def Let_def)
    next
      case False
      then have none: "mem_byte m (u_offset (u t)) t = None" using Suc.prems(5) 0 ot mt c by (auto simp add: fits_def)
      have "u_count (u t) \<noteq> 0" using False ut by simp
      moreover obtain k'' where "k' = Suc k''" using Suc.prems(6) False c k Suc.prems(1) by (cases k') (auto simp add: fits_def)
      moreover have "0 \<le> u_offset (u t)" "u_offset (u t) < 2 ^ 31" using ot Suc.prems(2,3) 0 by simp_all
      moreover have "Suc n \<noteq> nat (u_count (u s))" using False c 0 by auto
      ultimately show ?thesis
        using mmread_stops[OF none] st False 0 by (simp add: t_def Let_def)
    qed
  next
    case (Suc q)
    have ft: "fits n t" and c1: "u_count (u s) \<noteq> 1"
      using \<open>fits (Suc n) s\<close> Suc ut by (auto simp add: fits_def)
    have bytes: "map b [cp ..< cp + Suc n] = b cp # map b [cp + 1 ..< cp + 1 + n]"
      using upt_conv_Cons[of cp "cp + Suc n"] by simp
    have p4: "\<forall>j < n. mem_byte m (u_offset (u t) + int j) t = Some (b (cp + 1 + j)) \<and> mem_page m (u_offset (u t) + int j) \<noteq> epoch68_user_page t"
    proof (intro allI impI)
      fix j assume "j < n"
      then have "mem_byte m (?o + int (Suc j)) s = Some (b (cp + Suc j)) \<and> mem_page m (?o + int (Suc j)) \<noteq> epoch68_user_page s"
        using Suc.prems(4) by (meson Suc_less_eq)
      moreover have "u_offset (u t) + int j = ?o + int (Suc j)" using ot by simp
      ultimately show "mem_byte m (u_offset (u t) + int j) t = Some (b (cp + 1 + j)) \<and> mem_page m (u_offset (u t) + int j) \<noteq> epoch68_user_page t"
        using mt pt by (simp add: add.assoc)
    qed
    have cnt: "n = nat (u_count (u t)) \<longleftrightarrow> Suc n = nat (u_count (u s))"
    proof -
      have "0 < u_count (u s)" using Suc.prems(1) by (simp add: fits_def)
      then show ?thesis using ut(1) by linarith
    qed
    have "u_offset (u t) + int n = ?o + int (Suc n)" using ot by simp
    then have p5: "n = nat (u_count (u t)) \<or> mem_byte m (u_offset (u t) + int n) t = None \<and> mem_page m (u_offset (u t) + int n) \<noteq> epoch68_user_page t"
      using Suc.prems(5) cnt mt pt by metis
    have p6: "nat (u_count (u t)) < k'" using Suc.prems(6) k ut c Suc.prems(1) by (auto simp add: fits_def)
    have "nat (u_base (u t)) = nat (u_base (u s)) + 1" using ut base by simp
    moreover have "io_step n (put_bytes (nat (u_base (u s)) + 1) (map b [cp + 1 ..< cp + 1 + n]) t) =
        io_step (Suc n) (put_bytes (nat (u_base (u s))) (map b [cp ..< cp + Suc n]) s)"
      using put_bytes_Cons[of "nat (u_base (u s))" "b cp" "map b [cp + 1 ..< cp + 1 + n]" s]
      unfolding bytes t_def put_bytes_io_step io_step_add by simp
    ultimately show ?thesis
      using st c1 Suc.IH[OF ft _ _ p4 p5 p6] ot Suc.prems(2,3) cnt by (simp add: Let_def)
  qed
qed (simp add: fits_def)

section \<open>Property\<close>

text \<open>
  Reading a memory device delivers the memory: the user's buffer gets the bytes from the offset up to the end of the
  request, or up to the first address where the device ends, which is the end of the file for \<open>/dev/mem\<close> and the error \<open>ENXIO\<close> for
  \<open>/dev/kmem\<close>. Offset, base and count are advanced by what was read. This holds when the source is not the page that is written.\<close>

theorem mmread_delivers:
  assumes "fits n s" "0 \<le> u_offset (u s)" "u_offset (u s) + int n < 2 ^ 31" "minor dev = 0 \<or> minor dev = 1"
    "\<forall>j \<le> n. mem_page (minor dev) (u_offset (u s) + int j) \<noteq> epoch68_user_page s"
    "\<forall>j < n. mem_byte (minor dev) (u_offset (u s) + int j) s = Some (b j)"
    "n = nat (u_count (u s)) \<or> mem_byte (minor dev) (u_offset (u s) + int n) s = None"
  shows "mmread dev s =
    (let t = io_step n (put_bytes (nat (u_base (u s))) (map b [0 ..< n]) s)
     in (0, if n = nat (u_count (u s)) \<or> minor dev = 0 then t else set_error ENXIO t))"
  using mmread_bytes[of n s "minor dev" b 0 "Suc (nat (u_count (u s)))"] assms
  by (auto simp add: mmread_def Let_def)

definition mem_demo :: kernel where
  "mem_demo = (upd_u (\<lambda>w. w\<lparr>u_count := 4, u_base := 100, u_offset := 2 ^ 24 - 2\<rparr>) (upd_proc 0 (\<lambda>p. p\<lparr>p_addr := 5\<rparr>) kernel0))
     \<lparr>k_mem := (\<lambda>page off. if page = 63 then 9 else 0)\<rparr>"

theorem mmread_delivers_witness:
  "snd (mmread 0 mem_demo) = io_step 2 (put_bytes 100 [9, 9] mem_demo)"
proof -
  have d: "u_count (u mem_demo) = 4" "u_base (u mem_demo) = 100" "u_offset (u mem_demo) = 16777214" "u_segflg (u mem_demo) = 0"
      "epoch68_user_page mem_demo = 5" "k_mem mem_demo = (\<lambda>page off. if page = 63 then 9 else 0)"
    by (simp_all add: mem_demo_def epoch68_user_page_def upd_defs kernel0_def user0_def to_u8_id)
  have m: "minor 0 = 0" by (simp add: minor_def)
  have f: "fits 2 mem_demo" by (simp add: fits_def d EPOCH68_USER_PAGE_SIZE_def)
  have "\<forall>j \<le> 2. mem_page (minor 0) (u_offset (u mem_demo) + int j) \<noteq> epoch68_user_page mem_demo"
    by (auto simp add: mem_page_def d m)
  moreover have "\<forall>j < 2. mem_byte (minor 0) (u_offset (u mem_demo) + int j) mem_demo = Some 9"
    by (auto simp add: mem_byte_def d m less_2_cases_iff)
  ultimately show ?thesis
    using mmread_delivers[OF f, of 0 "\<lambda>_. 9"] by (simp add: d m mem_byte_def upt_rec)
qed

end
