(* ===== verification/Fw_Strings.thy ===== *)
theory Fw_Strings
  imports Kernel_Prelude
begin

text \<open>
  The string routines of the firmware (\<open>string.c\<close>), its \<open>sprintf\<close> (\<open>prf.c\<close>) and the number parsers of the monitor
  (\<open>monitor_cmd.c\<close>). A C string is the list of its bytes before the \<open>NUL\<close>, a null pointer is \<open>None\<close>, and the memory that a routine
  is given a count for is the list of its bytes.

  A result \<open>None\<close> of \<open>format\<close> means that the code reads past the end of the format or takes an argument that was not passed.
\<close>

type_synonym bytes = "8 word list"

abbreviation slash :: "8 word" where "slash \<equiv> 47"
abbreviation dot :: "8 word" where "dot \<equiv> 46"
abbreviation space :: "8 word" where "space \<equiv> 32"

definition ascii :: "string \<Rightarrow> bytes" where
  "ascii s = map of_char s"

section \<open>Memory and comparison\<close>

fun memcmp :: "bytes \<Rightarrow> bytes \<Rightarrow> nat \<Rightarrow> int" where
  "memcmp (a # as) (b # bs) (Suc n) = (if a \<noteq> b then uint a - uint b else memcmp as bs n)"
| "memcmp _ _ _ = 0"

fun strcmp :: "bytes \<Rightarrow> bytes \<Rightarrow> int" where
  "strcmp (a # as) (b # bs) = (if a = b then strcmp as bs else uint a - uint b)"
| "strcmp (a # as) [] = uint a"
| "strcmp [] (b # bs) = - uint b"
| "strcmp [] [] = 0"

fun strncmp :: "bytes \<Rightarrow> bytes \<Rightarrow> nat \<Rightarrow> int" where
  "strncmp _ _ 0 = 0"
| "strncmp (a # as) (b # bs) (Suc n) = (if a \<noteq> b then uint a - uint b else strncmp as bs n)"
| "strncmp (a # as) [] (Suc n) = uint a"
| "strncmp [] (b # bs) (Suc n) = - uint b"
| "strncmp [] [] (Suc n) = 0"

definition lower_ascii :: "8 word \<Rightarrow> 8 word" where
  "lower_ascii ch = (if 65 \<le> ch \<and> ch \<le> 90 then ch + 32 else ch)"

fun strncasecmp :: "bytes \<Rightarrow> bytes \<Rightarrow> nat \<Rightarrow> int" where
  "strncasecmp _ _ 0 = 0"
| "strncasecmp (a # as) (b # bs) (Suc n) =
    (if lower_ascii a \<noteq> lower_ascii b then uint (lower_ascii a) - uint (lower_ascii b) else strncasecmp as bs n)"
| "strncasecmp (a # as) [] (Suc n) = uint (lower_ascii a)"
| "strncasecmp [] (b # bs) (Suc n) = - uint (lower_ascii b)"
| "strncasecmp [] [] (Suc n) = 0"

text \<open>\<open>strchr\<close> gives the string from the first occurrence on; the \<open>NUL\<close> itself is found at the end.\<close>

fun strchr :: "bytes \<Rightarrow> 8 word \<Rightarrow> bytes option" where
  "strchr [] c = (if c = 0 then Some [] else None)"
| "strchr (s # ss) c = (if s = c then Some (s # ss) else strchr ss c)"

section \<open>Words of a command line\<close>

definition skip_spaces :: "bytes \<Rightarrow> bytes" where
  "skip_spaces p = dropWhile (\<lambda>c. c = space) p"

text \<open>The word, if there is one, and the rest of the line behind the space that ends it.\<close>

definition next_word :: "bytes \<Rightarrow> bytes option \<times> bytes" where
  "next_word line =
    (let p = skip_spaces line
     in if p = [] then (None, p)
        else (Some (takeWhile (\<lambda>c. c \<noteq> space) p),
              case dropWhile (\<lambda>c. c \<noteq> space) p of [] \<Rightarrow> [] | c # rest \<Rightarrow> rest))"

definition split_cmdbuf :: "bytes \<Rightarrow> bytes option \<times> bytes option \<times> bytes option" where
  "split_cmdbuf cmdbuf =
    (let (cmd, p) = next_word cmdbuf;
         (arg1, p) = next_word p;
         p = skip_spaces p
     in (cmd, arg1, if p = [] then None else Some p))"

text \<open>The words of a line, and what \<open>split_cmdbuf\<close> makes of them: the first two, and the text from the third on.\<close>

function words :: "bytes \<Rightarrow> bytes list" where
  "words p =
    (let q = skip_spaces p in if q = [] then [] else takeWhile (\<lambda>c. c \<noteq> space) q # words (dropWhile (\<lambda>c. c \<noteq> space) q))"
  by pat_completeness auto
termination
proof (relation "measure length", goal_cases)
  case (2 p q)
  then have "hd q \<noteq> space" unfolding skip_spaces_def using hd_dropWhile[of "\<lambda>c. c = space" p] by simp
  then have "length (dropWhile (\<lambda>c. c \<noteq> space) q) < length q"
    using 2(2) length_dropWhile_le[of "\<lambda>c. c \<noteq> space" "tl q"] by (cases q) auto
  moreover have "length q \<le> length p" unfolding 2(1) skip_spaces_def by (rule length_dropWhile_le)
  ultimately show ?case by simp
qed simp

declare words.simps [simp del]

lemma skip_spaces_idem [simp]: "skip_spaces (skip_spaces p) = skip_spaces p"
  by (induction p) (simp_all add: skip_spaces_def)

lemma words_skip: "words (skip_spaces p) = words p"
  by (subst (1 2) words.simps) simp

lemma words_empty: "words p = [] \<longleftrightarrow> skip_spaces p = []"
  by (subst words.simps) (simp add: Let_def)

lemma next_word_none: "words p = [] \<Longrightarrow> next_word p = (None, [])"
  by (simp add: words_empty next_word_def)

lemma words_space: "words (space # p) = words p"
  using words_skip[of "space # p"] words_skip[of p] by (simp add: skip_spaces_def)

lemma next_word_some:
  assumes "words p = w # ws"
  shows "\<exists>r. next_word p = (Some w, r) \<and> words r = ws"
proof -
  define q where "q = skip_spaces p"
  have q: "q \<noteq> []" using assms words_empty[of p] by (simp add: q_def)
  have w: "w = takeWhile (\<lambda>c. c \<noteq> space) q" "ws = words (dropWhile (\<lambda>c. c \<noteq> space) q)"
    using assms q by (subst (asm) words.simps; simp add: Let_def flip: q_def)+
  let ?r = "case dropWhile (\<lambda>c. c \<noteq> space) q of [] \<Rightarrow> [] | c # rest \<Rightarrow> rest"
  have "words ?r = words (dropWhile (\<lambda>c. c \<noteq> space) q)"
  proof (cases "dropWhile (\<lambda>c. c \<noteq> space) q")
    case (Cons c rest)
    then have "c = space" using hd_dropWhile[of "\<lambda>c. c \<noteq> space" q] by auto
    then show ?thesis unfolding Cons by (simp add: words_space)
  next
    case Nil
    show ?thesis unfolding Nil by simp
  qed
  moreover have "next_word p = (Some w, ?r)" using q w(1) by (simp add: next_word_def Let_def flip: q_def)
  ultimately show ?thesis using w(2) by simp
qed

theorem split_cmdbuf_words:
  "split_cmdbuf line = (cmd, arg1, arg2) \<Longrightarrow>
    cmd = (case words line of [] \<Rightarrow> None | w # ws \<Rightarrow> Some w) \<and>
    arg1 = (case words line of w # v # ws \<Rightarrow> Some v | _ \<Rightarrow> None) \<and>
    (case arg2 of None \<Rightarrow> length (words line) \<le> 2 | Some r \<Rightarrow> words r = drop 2 (words line) \<and> r \<noteq> [] \<and> hd r \<noteq> space)"
proof -
  assume s: "split_cmdbuf line = (cmd, arg1, arg2)"
  obtain p where p: "next_word line = (case words line of [] \<Rightarrow> None | w # ws \<Rightarrow> Some w, p)" "words p = tl (words line)"
    using next_word_none[of line] next_word_some[of line] words_empty[of "[]"]
    by (cases "words line") (auto simp add: skip_spaces_def)
  obtain q where q: "next_word p = (case words p of [] \<Rightarrow> None | w # ws \<Rightarrow> Some w, q)" "words q = tl (words p)"
    using next_word_none[of p] next_word_some[of p] words_empty[of "[]"]
    by (cases "words p") (auto simp add: skip_spaces_def)
  have "hd (skip_spaces q) \<noteq> space" if "skip_spaces q \<noteq> []"
    using that hd_dropWhile[of "\<lambda>c. c = space" q] by (simp add: skip_spaces_def)
  then show ?thesis
    using s p q words_skip[of q] words_empty[of q]
    by (cases "words line"; cases "tl (words line)") (auto simp add: split_cmdbuf_def Let_def split: if_splits)
qed

section \<open>Numbers\<close>

definition is_blank :: "8 word \<Rightarrow> bool" where
  "is_blank c \<longleftrightarrow> c \<in> set [32, 9, 10, 13, 12, 11]"

fun octal_value :: "bytes \<Rightarrow> int \<Rightarrow> int" where
  "octal_value [] v = v"
| "octal_value (c # cs) v = (if 48 \<le> c \<and> c \<le> 55 then octal_value cs (to_i32 (to_i32 (push_bit 3 v) + (uint c - 48))) else v)"

definition atoo :: "bytes \<Rightarrow> int" where
  "atoo s = octal_value (dropWhile is_blank s) 0"

definition is_octal_mode :: "bytes option \<Rightarrow> bool" where
  "is_octal_mode s = (case s of None \<Rightarrow> False | Some s \<Rightarrow> s \<noteq> [] \<and> (\<forall>c \<in> set s. \<not> (c < 48 \<or> c > 55)))"

definition is_decimal_number :: "bytes option \<Rightarrow> bool" where
  "is_decimal_number s = (case s of None \<Rightarrow> False | Some s \<Rightarrow> s \<noteq> [] \<and> (\<forall>c \<in> set s. \<not> (c < 48 \<or> c > 57)))"

definition is_rx_mode :: "bytes option \<Rightarrow> bool" where
  "is_rx_mode s = (is_octal_mode s \<and> (case s of None \<Rightarrow> False | Some s \<Rightarrow> length s = 4 \<or> length s = 5))"

section \<open>Formatted output\<close>

text \<open>
  The arguments are the words on the stack: an \<open>int\<close> takes one of 16 bits, a long or a pointer two. \<open>mem\<close> gives the string at an
  address.
\<close>

fun take_int :: "16 word list \<Rightarrow> (int \<times> 16 word list) option" where
  "take_int (w # ws) = Some (sint w, ws)"
| "take_int [] = None"

fun take_long :: "16 word list \<Rightarrow> (int \<times> 16 word list) option" where
  "take_long (h # l # ws) = Some (to_i32 (uint h * 65536 + uint l), ws)"
| "take_long _ = None"

fun take_number :: "bytes \<Rightarrow> int \<Rightarrow> int \<times> bytes" where
  "take_number [] v = (v, [])"
| "take_number (c # cs) v = (if 48 \<le> c \<and> c \<le> 57 then take_number cs (to_i32 (to_i32 (v * 10) + (uint c - 48))) else (v, c # cs))"

definition digit_byte :: "int \<Rightarrow> 8 word" where
  "digit_byte d = (if d < 10 then word_of_int (48 + d) else word_of_int (87 + d))"

text \<open>The digits backwards, as they are put into \<open>buf\<close>; the base is at least 2.\<close>

function digits_back :: "int \<Rightarrow> int \<Rightarrow> bytes" where
  "digits_back base v =
    (if base < 2 \<or> v < base then [digit_byte (v mod base)] else digit_byte (v mod base) # digits_back base (v div base))"
  by pat_completeness auto
termination
proof (relation "measure (\<lambda>(b, v). nat v)")
  fix base v :: int
  assume "\<not> (base < 2 \<or> v < base)"
  then have "v div base < v" "0 < v" by (auto simp add: int_div_less_self)
  then show "((base, v div base), base, v) \<in> measure (\<lambda>(b, v). nat v)" by simp
qed simp

declare digits_back.simps [simp del]

definition padded :: "bool \<Rightarrow> int \<Rightarrow> bytes \<Rightarrow> bytes" where
  "padded left width s =
    (let pad = replicate (nat (width - int (length s))) space in if left then s @ pad else pad @ s)"

definition number_text :: "8 word \<Rightarrow> int \<Rightarrow> bytes" where
  "number_text c val =
    (let base = (if c = 111 then 8 else if c = 120 then 16 else 10);
         signed = (c = 100 \<or> c = 68) \<and> val < 0;
         uval = to_u32 (if signed then - val else val)
     in rev (digits_back base uval @ (if signed then [45] else [])))"

record spec =
  sp_left :: bool
  sp_width :: int
  sp_prec :: int
  sp_long :: bool

definition take_spec :: "bytes \<Rightarrow> spec \<times> bytes" where
  "take_spec fmt =
    (let (left, fmt) = (if fmt \<noteq> [] \<and> hd fmt = 45 then (True, tl fmt) else (False, fmt));
         (width, fmt) = take_number fmt 0;
         (prec, fmt) = (if fmt \<noteq> [] \<and> hd fmt = 46 then take_number (tl fmt) 0 else (-1, fmt));
         (islong, fmt) = (if fmt \<noteq> [] \<and> hd fmt = 108 then (True, tl fmt) else (False, fmt))
     in (\<lparr>sp_left = left, sp_width = width, sp_prec = prec, sp_long = islong\<rparr>, fmt))"

definition convert :: "(int \<Rightarrow> bytes) \<Rightarrow> spec \<Rightarrow> 8 word \<Rightarrow> 16 word list \<Rightarrow> (bytes \<times> 16 word list) option" where
  "convert mem sp c args =
    (if c \<in> set [100, 68, 117, 111, 120] then
       (case (if sp_long sp \<or> c = 68 then take_long args else take_int args) of
          None \<Rightarrow> None
        | Some (val, args) \<Rightarrow> Some (padded (sp_left sp) (sp_width sp) (number_text c val), args))
     else if c = 115 then
       (case take_long args of
          None \<Rightarrow> None
        | Some (s, args) \<Rightarrow>
            Some (padded (sp_left sp) (sp_width sp)
                   (if sp_prec sp = -1 then mem s else take (nat (sp_prec sp)) (mem s)), args))
     else if c = 99 then
       (case take_int args of
          None \<Rightarrow> None
        | Some (v, args) \<Rightarrow> Some (padded (sp_left sp) (sp_width sp) [word_of_int v], args))
     else Some ([], args))"

lemma take_number_shorter: "length (snd (take_number s v)) \<le> length s"
  by (induction s v rule: take_number.induct) auto

lemma take_spec_shorter: "length (snd (take_spec fmt)) \<le> length fmt"
proof -
  have opt: "length (snd (if s \<noteq> [] \<and> hd s = c then (True, tl s) else (False, s))) \<le> length s" for s :: bytes and c
    by simp
  have num: "length (snd (if s \<noteq> [] \<and> hd s = c then take_number (tl s) 0 else (-1, s))) \<le> length s" for s c
    using take_number_shorter[of "tl s" 0] by (auto intro: le_trans)
  show ?thesis
    unfolding take_spec_def Let_def split_beta snd_conv
    by (rule order_trans[OF opt], rule order_trans[OF num], rule order_trans[OF take_number_shorter], rule opt)
qed

lemma take_spec_rest:
  assumes "(sp, c # r) = take_spec fmt"
  shows "length r < Suc (length fmt)"
  using take_spec_shorter[of fmt] assms[symmetric] by simp

function format :: "(int \<Rightarrow> bytes) \<Rightarrow> bytes \<Rightarrow> 16 word list \<Rightarrow> bytes option" where
  "format mem [] args = Some []"
| "format mem (c # fmt) args =
    (if c \<noteq> 37 then map_option ((#) c) (format mem fmt args)
     else case take_spec fmt of
       (sp, []) \<Rightarrow> None
     | (sp, c # fmt) \<Rightarrow>
         (case convert mem sp c args of
            None \<Rightarrow> None
          | Some (out, args) \<Rightarrow> map_option ((@) out) (format mem fmt args)))"
  by pat_completeness auto

termination
proof (relation "measure (\<lambda>(mem, fmt, args). length fmt)", goal_cases)
  case 3
  then show ?case by (simp add: take_spec_rest)
qed auto

end
