(* ===== verification/Fw_Paths.thy ===== *)
theory Fw_Paths
  imports Fw_Strings
begin

text \<open>
  Path names in the monitor of the firmware (\<open>platform/epoch68/firmware\<close>): the working directory of \<open>path.c\<close> and the device paths of \<open>v7/v7fs.c\<close>.
  A C string is the list of its bytes before the \<open>NUL\<close>; a null pointer is \<open>None\<close>. A routine that writes into a buffer of a given size returns
  the string that it leaves there, and \<open>None\<close> where the code returns \<open>-1\<close>; the string and its \<open>NUL\<close> must fit.
\<close>

section \<open>The working directory\<close>

definition cwd_push :: "int \<Rightarrow> bytes \<Rightarrow> bytes \<Rightarrow> bytes option" where
  "cwd_push cwdsz seg cwd =
    (if cwd = [dot] then (if int (length seg) + 1 > cwdsz then None else Some seg)
     else if int (length cwd) + 1 + int (length seg) + 1 > cwdsz then None
     else Some (cwd @ slash # seg))"

text \<open>The prefix before the last slash.\<close>

fun before_last_slash :: "bytes \<Rightarrow> bytes option" where
  "before_last_slash [] = None"
| "before_last_slash (c # cs) =
    (case before_last_slash cs of
       Some p \<Rightarrow> Some (c # p)
     | None \<Rightarrow> if c = slash then Some [] else None)"

definition cwd_pop :: "bytes \<Rightarrow> bytes" where
  "cwd_pop cwd =
    (if cwd = [dot] then cwd
     else case before_last_slash cwd of None \<Rightarrow> [dot] | Some p \<Rightarrow> p)"

lemma segs_shorter:
  assumes "p \<noteq> []"
  shows "length (dropWhile (\<lambda>c. c = slash) (dropWhile (\<lambda>c. c \<noteq> slash) p)) < length p"
proof (cases p)
  case (Cons c cs)
  have d: "length (dropWhile P xs) \<le> length xs" for P and xs :: bytes by (rule length_dropWhile_le)
  show ?thesis
  proof (cases "c = slash")
    case True
    then show ?thesis using Cons d[of "\<lambda>c. c = slash" cs] by simp
  next
    case False
    then show ?thesis
      using Cons d[of "\<lambda>c. c = slash" "dropWhile (\<lambda>c. c \<noteq> slash) cs"] d[of "\<lambda>c. c \<noteq> slash" cs] by simp
  qed
qed (use assms in simp)

text \<open>The loop over the segments of \<open>work\<close>; \<open>p\<close> is what is left, not starting with a slash.\<close>

function normalize_segs :: "int \<Rightarrow> bytes \<Rightarrow> bytes \<Rightarrow> bytes option" where
  "normalize_segs dstsz p dst =
    (if p = [] then Some dst
     else
       let seg = takeWhile (\<lambda>c. c \<noteq> slash) p;
           p = dropWhile (\<lambda>c. c = slash) (dropWhile (\<lambda>c. c \<noteq> slash) p)
       in if seg = [] \<or> seg = [dot] then normalize_segs dstsz p dst
          else if seg = [dot, dot] then normalize_segs dstsz p (cwd_pop dst)
          else case cwd_push dstsz seg dst of
            None \<Rightarrow> None
          | Some dst \<Rightarrow> normalize_segs dstsz p dst)"
  by pat_completeness auto

termination
  by (relation "measure (\<lambda>(d, p, s). length p)") (auto simp add: segs_shorter)

declare normalize_segs.simps [simp del]

definition normalize_cwd :: "int \<Rightarrow> bytes option \<Rightarrow> bytes option \<Rightarrow> bytes option" where
  "normalize_cwd dstsz cwd path =
    (case path of
       None \<Rightarrow> None
     | Some path \<Rightarrow>
         if dstsz \<le> 0 \<or> path = [] \<or> length path + 1 > 128 then None
         else
           let start = (if hd path = slash then Some [dot]
                        else case cwd of
                          None \<Rightarrow> Some [dot]
                        | Some cwd \<Rightarrow> if cwd = [] then Some [dot] else if int (length cwd) + 1 > dstsz then None else Some cwd)
           in case start of
                None \<Rightarrow> None
              | Some dst \<Rightarrow> normalize_segs dstsz (dropWhile (\<lambda>c. c = slash) path) dst)"

section \<open>Device paths\<close>

definition path_append :: "int \<Rightarrow> bytes \<Rightarrow> bytes \<Rightarrow> bytes option" where
  "path_append dstsz src dst = (if int (length dst + length src + 1) > dstsz then None else Some (dst @ src))"

definition path_join :: "int \<Rightarrow> bytes \<Rightarrow> bytes \<Rightarrow> bytes option" where
  "path_join dstsz src dst =
    (if dst = [] \<or> last dst = slash then path_append dstsz src dst
     else case path_append dstsz [slash] dst of None \<Rightarrow> None | Some dst \<Rightarrow> path_append dstsz src dst)"

definition path_is_rootish :: "bytes option \<Rightarrow> bool" where
  "path_is_rootish path = (case path of None \<Rightarrow> True | Some p \<Rightarrow> p = [dot] \<or> p = [slash])"

fun has_devspec :: "bytes \<Rightarrow> bool" where
  "has_devspec [] = False"
| "has_devspec (c # cs) = (if c = 40 then True else if c = slash then False else has_devspec cs)"

definition resolve_devspec :: "int \<Rightarrow> bytes \<Rightarrow> bytes option" where
  "resolve_devspec dstsz tail =
    (if int (length tail) + 1 > dstsz then None
     else if slash \<notin> set tail \<and> last tail = 41 then path_append dstsz [dot] tail
     else if slash \<notin> set (butlast tail) \<and> last tail = slash \<and> tail ! (length tail - 2) = 41
     then Some (butlast tail @ [dot])
     else Some tail)"

definition v7fs_resolve_path :: "int \<Rightarrow> bytes option \<Rightarrow> bytes option \<Rightarrow> bytes option \<Rightarrow> bytes option" where
  "v7fs_resolve_path dstsz attached cwd path =
    (if dstsz \<le> 0 then None
     else
       let tail = (if path = None \<or> path = Some [] \<or> path_is_rootish path then None else path);
           home = (if cwd = None \<or> cwd = Some [] \<or> path_is_rootish cwd then None else cwd)
       in case tail of
            Some t \<Rightarrow>
              if has_devspec t then resolve_devspec dstsz t
              else (case attached of
                None \<Rightarrow> None
              | Some a \<Rightarrow>
                  if a = [] \<or> int (length a) + 1 > dstsz then None
                  else if hd t = slash then (if tl t = [] then path_append dstsz [dot] a else path_append dstsz (tl t) a)
                  else case home of
                    None \<Rightarrow> path_append dstsz t a
                  | Some c \<Rightarrow> (case path_append dstsz c a of None \<Rightarrow> None | Some d \<Rightarrow> path_join dstsz t d))
          | None \<Rightarrow>
              (case attached of
                None \<Rightarrow> None
              | Some a \<Rightarrow>
                  if a = [] \<or> int (length a) + 1 > dstsz then None
                  else path_append dstsz (case home of None \<Rightarrow> [dot] | Some c \<Rightarrow> c) a))"

section \<open>Reference: paths as lists of names\<close>

definition join_segs :: "bytes list \<Rightarrow> bytes" where
  "join_segs ss = (if ss = [] then [dot] else hd ss @ concat (map (\<lambda>s. slash # s) (tl ss)))"

text \<open>The names between the slashes, and the list of names that a path leads to from another.\<close>

fun split_segs :: "bytes \<Rightarrow> bytes list" where
  "split_segs [] = [[]]"
| "split_segs (c # cs) =
    (if c = slash then [] # split_segs cs else case split_segs cs of s # ss \<Rightarrow> (c # s) # ss | [] \<Rightarrow> [[c]])"

definition walk :: "bytes list \<Rightarrow> bytes \<Rightarrow> bytes list" where
  "walk ss seg = (if seg = [] \<or> seg = [dot] then ss else if seg = [dot, dot] then butlast ss else ss @ [seg])"

definition seg_ok :: "bytes \<Rightarrow> bool" where
  "seg_ok s \<longleftrightarrow> s \<noteq> [] \<and> s \<noteq> [dot] \<and> slash \<notin> set s"

lemma join_snoc: "ss \<noteq> [] \<Longrightarrow> join_segs (ss @ [s]) = join_segs ss @ slash # s"
  by (simp add: join_segs_def)

lemma join_root:
  assumes "\<forall>s \<in> set ss. seg_ok s"
  shows "join_segs ss = [dot] \<longleftrightarrow> ss = []"
proof (cases ss)
  case (Cons a as)
  have a: "a \<noteq> []" "a \<noteq> [dot]" using assms Cons by (simp_all add: seg_ok_def)
  have "a @ concat (map (\<lambda>s. slash # s) as) \<noteq> [dot]"
  proof
    assume eq: "a @ concat (map (\<lambda>s. slash # s) as) = [dot]"
    then have "concat (map (\<lambda>s. slash # s) as) = []" using a(1) by (cases a) auto
    then show False using eq a(2) by simp
  qed
  then show ?thesis using Cons by (simp add: join_segs_def)
qed (simp add: join_segs_def)

lemma join_nonempty: "\<forall>s \<in> set ss. seg_ok s \<Longrightarrow> join_segs ss \<noteq> []"
  by (cases ss) (auto simp add: join_segs_def seg_ok_def)

lemma before_last_none: "slash \<notin> set s \<Longrightarrow> before_last_slash s = None"
  by (induction s) auto

lemma before_last_append: "slash \<notin> set s \<Longrightarrow> before_last_slash (p @ slash # s) = Some p"
  by (induction p) (simp_all add: before_last_none)

lemma push_joins:
  assumes "\<forall>s \<in> set ss. seg_ok s" "seg_ok seg"
  shows "cwd_push n seg (join_segs ss) = (if int (length (join_segs (ss @ [seg]))) + 1 > n then None else Some (join_segs (ss @ [seg])))"
  using join_root[OF assms(1)] join_snoc[of ss seg] by (auto simp add: cwd_push_def join_segs_def)

lemma pop_joins:
  assumes "\<forall>s \<in> set ss. seg_ok s"
  shows "cwd_pop (join_segs ss) = join_segs (butlast ss)"
proof (cases ss rule: rev_cases)
  case (snoc ts t)
  have t: "slash \<notin> set t" using assms snoc by (simp add: seg_ok_def)
  have nr: "join_segs ss \<noteq> [dot]" using join_root[OF assms] snoc by simp
  show ?thesis
  proof (cases "ts = []")
    case True
    then show ?thesis using nr snoc t by (simp add: cwd_pop_def join_segs_def before_last_none)
  next
    case False
    then show ?thesis using nr snoc join_snoc[OF False, of t] before_last_append[OF t] by (simp add: cwd_pop_def)
  qed
qed (simp add: cwd_pop_def join_segs_def)

lemma split_nonempty: "split_segs p \<noteq> []"
  by (induction p) (auto split: list.split)

lemma split_take:
  "split_segs p = takeWhile (\<lambda>c. c \<noteq> slash) p # (case dropWhile (\<lambda>c. c \<noteq> slash) p of [] \<Rightarrow> [] | c # r \<Rightarrow> split_segs r)"
  by (induction p) simp_all

lemma walk_slashes: "foldl walk ss (split_segs (dropWhile (\<lambda>c. c = slash) q)) = foldl walk ss (split_segs q)"
  by (induction q) (auto simp add: walk_def)

lemma walk_nil: "foldl walk ss (split_segs []) = ss"
  by (simp add: walk_def)

text \<open>One turn of the loop: a name, and the rest behind the slashes.\<close>

lemma walk_rest:
  "foldl walk ss (split_segs p) =
    foldl walk (walk ss (takeWhile (\<lambda>c. c \<noteq> slash) p))
      (split_segs (dropWhile (\<lambda>c. c = slash) (dropWhile (\<lambda>c. c \<noteq> slash) p)))"
proof -
  let ?s = "walk ss (takeWhile (\<lambda>c. c \<noteq> slash) p)"
  let ?q = "dropWhile (\<lambda>c. c \<noteq> slash) p"
  have "foldl walk ss (split_segs p) = foldl walk ?s (case ?q of [] \<Rightarrow> [] | c # r \<Rightarrow> split_segs r)"
    by (subst split_take) simp
  also have "\<dots> = foldl walk ?s (split_segs (dropWhile (\<lambda>c. c = slash) ?q))"
  proof (cases ?q)
    case (Cons c r)
    then have "c = slash" using hd_dropWhile[of "\<lambda>c. c \<noteq> slash" p] by auto
    then show ?thesis using Cons walk_slashes[of ?s r] by simp
  next
    case Nil
    show ?thesis unfolding Nil by (simp add: walk_def)
  qed
  finally show ?thesis .
qed

lemma walk_ok:
  assumes "\<forall>s \<in> set ss. seg_ok s" "slash \<notin> set seg"
  shows "\<forall>s \<in> set (walk ss seg). seg_ok s"
  using assms in_set_butlastD[of _ ss] by (auto simp add: walk_def seg_ok_def)

lemma take_no_slash: "slash \<notin> set (takeWhile (\<lambda>c. c \<noteq> slash) p)"
  using set_takeWhileD by fastforce

lemma join_lengths:
  assumes "\<forall>s \<in> set ss. seg_ok s"
  shows "length (join_segs (butlast ss)) \<le> length (join_segs ss)"
    "length (join_segs (ss @ [seg])) \<le> length (join_segs ss) + 1 + length seg"
proof -
  show "length (join_segs (ss @ [seg])) \<le> length (join_segs ss) + 1 + length seg"
    by (cases ss) (simp_all add: join_segs_def)
  show "length (join_segs (butlast ss)) \<le> length (join_segs ss)"
  proof (cases ss rule: rev_cases)
    case (snoc ts t)
    have "0 < length t" using assms snoc by (simp add: seg_ok_def)
    then show ?thesis using snoc join_snoc[of ts t] by (cases "ts = []") (simp_all add: join_segs_def Suc_le_eq)
  qed (simp add: join_segs_def)
qed

lemma normalize_segs_walks:
  "\<lbrakk>\<forall>s \<in> set ss. seg_ok s; p = [] \<or> int (length (join_segs ss) + length p) + 2 \<le> n; int (length (join_segs ss)) + 1 \<le> n\<rbrakk> \<Longrightarrow>
   normalize_segs n p (join_segs ss) = Some (join_segs (foldl walk ss (split_segs p))) \<and>
   int (length (join_segs (foldl walk ss (split_segs p)))) + 1 \<le> n"
proof (induction "length p" arbitrary: p ss rule: less_induct)
  case less
  show ?case
  proof (cases "p = []")
    case True
    then show ?thesis using less.prems(3) by (simp add: normalize_segs.simps walk_nil del: split_segs.simps)
  next
    case False
    define seg where "seg = takeWhile (\<lambda>c. c \<noteq> slash) p"
    define q where "q = dropWhile (\<lambda>c. c = slash) (dropWhile (\<lambda>c. c \<noteq> slash) p)"
    have ns: "slash \<notin> set seg" unfolding seg_def by (rule take_no_slash)
    have q: "length q < length p" unfolding q_def by (rule segs_shorter[OF False])
    have len: "q = [] \<or> length seg + length q + 1 \<le> length p"
    proof (cases "dropWhile (\<lambda>c. c \<noteq> slash) p")
      case Nil
      have "q = []" unfolding q_def Nil by simp
      then show ?thesis by simp
    next
      case (Cons c r)
      then have "c = slash" using hd_dropWhile[of "\<lambda>c. c \<noteq> slash" p] by auto
      then have "length q \<le> length r" using Cons length_dropWhile_le[of "\<lambda>c. c = slash" r] by (simp add: q_def)
      moreover have "length p = length seg + Suc (length r)"
        using takeWhile_dropWhile_id[of "\<lambda>c. c \<noteq> slash" p] Cons by (metis length_Cons length_append seg_def)
      ultimately show ?thesis by simp
    qed
    have segp: "length seg \<le> length p" by (simp add: seg_def length_takeWhile_le)
    have room: "int (length (join_segs ss) + length p) + 2 \<le> n" using less.prems(2) False by simp
    have wr: "foldl walk ss (split_segs p) = foldl walk (walk ss seg) (split_segs q)"
      unfolding seg_def q_def by (rule walk_rest)
    have wok: "\<forall>s \<in> set (walk ss seg). seg_ok s" by (rule walk_ok[OF less.prems(1) ns])
    have bound: "q = [] \<or> int (length (join_segs (walk ss seg)) + length q) + 2 \<le> n" "int (length (join_segs (walk ss seg))) + 1 \<le> n"
      using len segp room less.prems(3) join_lengths(1)[OF less.prems(1)] join_lengths(2)[OF less.prems(1), of seg] q by (auto simp add: walk_def)
    note IH = less.hyps[OF q wok bound]
    have step: "normalize_segs n p (join_segs ss) = normalize_segs n q (join_segs (walk ss seg))"
    proof -
      consider "seg = [] \<or> seg = [dot]" | "seg = [dot, dot]" | "seg_ok seg" "seg \<noteq> [dot, dot]"
        using ns by (auto simp add: seg_ok_def)
      then show ?thesis
      proof cases
        case 1
        then show ?thesis
          using False by (subst normalize_segs.simps) (auto simp add: walk_def Let_def simp flip: seg_def q_def)
      next
        case 2
        then show ?thesis
          using False pop_joins[OF less.prems(1)]
          by (subst normalize_segs.simps) (simp add: walk_def Let_def flip: seg_def q_def)
      next
        case 3
        then have w: "walk ss seg = ss @ [seg]" by (auto simp add: walk_def seg_ok_def)
        then show ?thesis
          using False 3 push_joins[OF less.prems(1) 3(1), of n] bound(2)
          by (subst normalize_segs.simps) (simp add: seg_ok_def Let_def flip: seg_def q_def)
      qed
    qed
    show ?thesis unfolding step wr by (rule IH)
  qed
qed

section \<open>Property\<close>

text \<open>
  Claim C39. The monitor's working directory is the walk along the names of the path: from the root or from the current directory, where
  empty names and \<open>.\<close> stay, \<open>..\<close> goes up (and stays at the root) and another name goes down. The result is the canonical string of the
  names reached and fits the buffer with its \<open>NUL\<close>, whenever the directory and the path together fit and the path, which is not
  empty, fits the 128 characters of the routine's own copy.\<close>

theorem normalize_cwd_walks:
  assumes "path \<noteq> []" "length path < 128" "\<forall>s \<in> set ss. seg_ok s" "int (length (join_segs ss) + length path) + 2 \<le> n"
  shows "\<exists>d. normalize_cwd n (Some (join_segs ss)) (Some path) = Some d \<and>
    d = join_segs (foldl walk (if hd path = slash then [] else ss) (split_segs path)) \<and> int (length d) < n"
proof -
  let ?ss = "if hd path = slash then [] else ss"
  let ?p = "dropWhile (\<lambda>c. c = slash) path"
  have ok: "\<forall>s \<in> set ?ss. seg_ok s" using assms(3) by simp
  have ne: "0 < length (join_segs ss)" "join_segs ss \<noteq> []" using join_nonempty[OF assms(3)] by simp_all
  have j: "length (join_segs ?ss) \<le> length (join_segs ss)" 
  proof -
    have "length (join_segs []) = 1" by (simp add: join_segs_def)
    then show ?thesis using ne(1) by (simp add: Suc_le_eq)
  qed
  have "length ?p \<le> length path" by (rule length_dropWhile_le)
  then have r: "?p = [] \<or> int (length (join_segs ?ss) + length ?p) + 2 \<le> n" "int (length (join_segs ?ss)) + 1 \<le> n"
    using j assms(4) by linarith+
  have "normalize_cwd n (Some (join_segs ss)) (Some path) = normalize_segs n ?p (join_segs ?ss)"
  proof (cases "hd path = slash")
    case True
    have "join_segs [] = [dot]" by (simp add: join_segs_def)
    then show ?thesis using True assms(1,2,4) by (simp add: normalize_cwd_def Let_def)
  next
    case False
    then show ?thesis using assms(1,2,4) ne(2) by (simp add: normalize_cwd_def Let_def)
  qed
  then show ?thesis
    using normalize_segs_walks[OF ok r] unfolding walk_slashes by (intro exI conjI) auto
qed

text \<open>Going to \<open>../b/./c\<close> from \<open>a\<close>.\<close>

theorem normalize_cwd_walks_witness:
  "normalize_cwd 64 (Some [97]) (Some [46, 46, 47, 98, 47, 46, 47, 99]) = Some [98, 47, 99]"
proof -
  have "\<forall>s \<in> set [[97]]. seg_ok s" by (simp add: seg_ok_def)
  from normalize_cwd_walks[OF _ _ this, of "[46, 46, 47, 98, 47, 46, 47, 99]" 64] show ?thesis
    by (simp add: join_segs_def walk_def)
qed

end
