(* ===== verification/Fw_Ymodem.thy ===== *)
theory Fw_Ymodem
  imports Fw_Paths
begin

text \<open>
  The YMODEM receiver of the firmware's monitor (\<open>ymodem.c\<close>): the files of the staged installation arrive through it.

  The input of the channel is the list of what the successive calls of \<open>uart_channel_getc_timeout\<close> give: a byte, or \<open>None\<close> when the
  time ran out; after the end of the list nothing comes any more. The output is the list of bytes that went to the channel and to
  the console, in their order. \<open>data\<close>, \<open>y_buf\<close> and the message buffers are arrays of a fixed size: an access outside of one ends
  the run as \<open>Overrun\<close>. The file routines of \<open>v7io.c\<close> are parameters: functions on a file store of any type.
\<close>

section \<open>State\<close>

type_synonym input = "8 word option list"

datatype wire = Chan "8 word" | Cons "8 word"

record 'f file_ops =
  fo_exists :: "bytes \<Rightarrow> 'f \<Rightarrow> int \<times> 'f"
  fo_unlink :: "bytes \<Rightarrow> 'f \<Rightarrow> int \<times> 'f"
  fo_open :: "bytes \<Rightarrow> int \<Rightarrow> 'f \<Rightarrow> int \<times> 'f"
  fo_write :: "int \<Rightarrow> bytes \<Rightarrow> 'f \<Rightarrow> int \<times> 'f"
  fo_close :: "int \<Rightarrow> 'f \<Rightarrow> 'f"

record ycall =
  yc_attached :: "bytes option"
  yc_cwd :: "bytes option"
  yc_request :: "bytes option"
  yc_path :: bytes
  yc_buffer :: bool
  yc_bufsz :: int
  yc_quiet :: bool

record 'f yrx =
  y_in :: input
  y_data :: bytes
  y_out :: "wire list"
  y_fs :: 'f
  y_fd :: int
  y_buf :: bytes
  y_offset :: nat
  y_name :: bytes
  y_size :: "32 word"
  y_remaining :: "32 word"
  y_expected :: int
  y_saw :: bool

datatype 'f ydone = Returned int "'f yrx" | Overrun

definition MODEM_SOH :: "8 word" where "MODEM_SOH = 0x01"
definition MODEM_STX :: "8 word" where "MODEM_STX = 0x02"
definition MODEM_EOT :: "8 word" where "MODEM_EOT = 0x04"
definition MODEM_ACK :: "8 word" where "MODEM_ACK = 0x06"
definition MODEM_NAK :: "8 word" where "MODEM_NAK = 0x15"
definition MODEM_CAN :: "8 word" where "MODEM_CAN = 0x18"
definition MODEM_CRC_REQ :: "8 word" where "MODEM_CRC_REQ = 67"
definition DIRSIZ_fw :: nat where "DIRSIZ_fw = 14"

section \<open>Output\<close>

definition channel_putc :: "8 word \<Rightarrow> 'f yrx \<Rightarrow> 'f yrx" where
  "channel_putc c s = s\<lparr>y_out := y_out s @ (if c = 10 then [Chan 13, Chan 10] else [Chan c])\<rparr>"

definition uart_putc :: "8 word \<Rightarrow> 'f yrx \<Rightarrow> 'f yrx" where
  "uart_putc c s = s\<lparr>y_out := y_out s @ (if c = 10 then [Cons 13, Cons 10] else [Cons c])\<rparr>"

definition uart_puts :: "bytes \<Rightarrow> 'f yrx \<Rightarrow> 'f yrx" where
  "uart_puts s st = fold uart_putc s st"

definition say :: "string \<Rightarrow> 'f yrx \<Rightarrow> 'f yrx" where
  "say m s = uart_puts (ascii ''ymodem: '' @ ascii m @ [10]) s"

definition send_request :: "bytes \<Rightarrow> 'f yrx \<Rightarrow> 'f yrx" where
  "send_request request s = channel_putc 10 (fold channel_putc request (fold channel_putc (ascii ''YSEND '') s))"

text \<open>\<open>sprintf\<close> into an array of \<open>sz\<close> bytes and \<open>uart_puts\<close>: \<open>None\<close> if the text and its \<open>NUL\<close> do not fit.\<close>

definition print_msg :: "nat \<Rightarrow> (int \<Rightarrow> bytes) \<Rightarrow> bytes \<Rightarrow> 16 word list \<Rightarrow> 'f yrx \<Rightarrow> 'f yrx option" where
  "print_msg sz mem fmt args s =
    (case format mem fmt args of None \<Rightarrow> None | Some m \<Rightarrow> if length m + 1 > sz then None else Some (uart_puts m s))"

text \<open>A 32-bit argument is two words on the stack, the high one first.\<close>

definition long_arg :: "32 word \<Rightarrow> 16 word list" where
  "long_arg x = [ucast (drop_bit 16 x), ucast x]"

definition print_received :: "bytes \<Rightarrow> 32 word \<Rightarrow> 'f yrx \<Rightarrow> 'f yrx option" where
  "print_received name sz s =
    print_msg 96 (\<lambda>_. name) (ascii ''ymodem: received %s, %ld bytes'' @ [10]) (long_arg 0 @ long_arg sz) s"

section \<open>Packets\<close>

definition ymodem_getc :: "input \<Rightarrow> 8 word option \<times> input" where
  "ymodem_getc inp = (case inp of [] \<Rightarrow> (None, []) | x # xs \<Rightarrow> (x, xs))"

text \<open>Up to \<open>n\<close> bytes, and whether all of them came.\<close>

fun get_bytes :: "nat \<Rightarrow> input \<Rightarrow> bytes \<times> bool \<times> input" where
  "get_bytes 0 inp = ([], True, inp)"
| "get_bytes (Suc n) inp =
    (case ymodem_getc inp of
       (None, inp) \<Rightarrow> ([], False, inp)
     | (Some b, inp) \<Rightarrow> (case get_bytes n inp of (bs, r) \<Rightarrow> (b # bs, r)))"

definition crc_shift :: "16 word \<Rightarrow> 16 word" where
  "crc_shift crc = (if crc AND 0x8000 \<noteq> 0 then push_bit 1 crc XOR 0x1021 else push_bit 1 crc)"

definition ymodem_crc16_update :: "16 word \<Rightarrow> 8 word \<Rightarrow> 16 word" where
  "ymodem_crc16_update crc ch = (crc_shift ^^ 8) (crc XOR push_bit 8 (ucast ch))"

definition ymodem_crc16 :: "bytes \<Rightarrow> 16 word" where
  "ymodem_crc16 buf = foldl ymodem_crc16_update 0 buf"

datatype packet = Eot | Can | Bad int | Packet "8 word" nat

definition read_body :: "8 word \<Rightarrow> nat \<Rightarrow> input \<Rightarrow> bytes \<Rightarrow> packet \<times> bytes \<times> input" where
  "read_body block len inp data =
    (case get_bytes len inp of (bs, ok, inp) \<Rightarrow>
      (let data = bs @ drop (length bs) data
       in if \<not> ok then (Bad (-4), data, inp)
          else case get_bytes 2 inp of (crc, ok, inp) \<Rightarrow>
            if \<not> ok then (Bad (-4), data, inp)
            else if ymodem_crc16 (take len data) \<noteq> push_bit 8 (ucast (crc ! 0)) OR ucast (crc ! 1) then (Bad (-3), data, inp)
            else (Packet block len, data, inp)))"

definition packet_read :: "input \<Rightarrow> bytes \<Rightarrow> packet \<times> bytes \<times> input" where
  "packet_read inp data =
    (case ymodem_getc inp of
       (None, inp) \<Rightarrow> (Bad (-4), data, inp)
     | (Some marker, inp) \<Rightarrow>
         if marker = MODEM_EOT then (Eot, data, inp)
         else if marker = MODEM_CAN then (Can, data, inp)
         else if marker \<noteq> MODEM_SOH \<and> marker \<noteq> MODEM_STX then (Bad (-1), data, inp)
         else
           let len = (if marker = MODEM_SOH then 128 else 1024)
           in case get_bytes 2 inp of (hdr, ok, inp) \<Rightarrow>
             if \<not> ok then (Bad (-4), data, inp)
             else if hdr ! 0 + hdr ! 1 \<noteq> 0xff then
               (case get_bytes (len + 2) inp of (bs, ok, inp) \<Rightarrow> (Bad (if ok then -2 else -4), data, inp))
             else read_body (hdr ! 0) len inp data)"

section \<open>Metadata\<close>

datatype metadata = Beyond | Malformed | Meta bytes "32 word"

text \<open>The value of the digits; \<open>None\<close> if they go on to the end of the array.\<close>

fun parse_decimal :: "bytes \<Rightarrow> 32 word \<Rightarrow> 32 word option" where
  "parse_decimal [] value = None"
| "parse_decimal (c # cs) value =
    (if 48 \<le> c \<and> c \<le> 57 then parse_decimal cs (value * 10 + ucast (c - 48)) else Some value)"

definition metadata_parse :: "bytes \<Rightarrow> nat \<Rightarrow> nat \<Rightarrow> metadata" where
  "metadata_parse data len namesz =
    (if data ! 0 = 0 then Malformed
     else if 0 \<notin> set data then Beyond
     else
       let name = takeWhile (\<lambda>c. c \<noteq> 0) data; i = length name
       in if i + 1 > namesz then Malformed
          else if \<not> (i < len \<and> i + 1 < len) then Malformed
          else case parse_decimal (drop (i + 1) data) 0 of None \<Rightarrow> Beyond | Some sz \<Rightarrow> Meta name sz)"

definition invalid_filename :: "bytes \<Rightarrow> bool" where
  "invalid_filename name \<longleftrightarrow> name = [] \<or> length name > DIRSIZ_fw \<or> (\<exists>c \<in> set name. c = slash \<or> c = 40 \<or> c = 41)"

definition request_basename :: "bytes \<Rightarrow> bytes" where
  "request_basename request = rev (takeWhile (\<lambda>c. c \<noteq> slash) (rev request))"

section \<open>The receiver\<close>

definition close_if_open :: "'f file_ops \<Rightarrow> 'f yrx \<Rightarrow> 'f yrx" where
  "close_if_open io s = (if y_fd s \<ge> 0 then s\<lparr>y_fs := fo_close io (y_fd s) (y_fs s), y_fd := -1\<rparr> else s)"

text \<open>The ways out with an error: with or without closing the file.\<close>

definition give_up :: "string \<Rightarrow> 'f yrx \<Rightarrow> 'f ydone" where
  "give_up m s = Returned (-1) (channel_putc MODEM_CAN (say m s))"

definition abort :: "'f file_ops \<Rightarrow> string \<Rightarrow> 'f yrx \<Rightarrow> 'f ydone" where
  "abort io m s = Returned (-1) (close_if_open io (channel_putc MODEM_CAN (say m s)))"

definition read_packet :: "'f yrx \<Rightarrow> packet \<times> 'f yrx" where
  "read_packet s = (case packet_read (y_in s) (y_data s) of (p, data, inp) \<Rightarrow> (p, s\<lparr>y_data := data, y_in := inp\<rparr>))"

definition receive_eot :: "'f file_ops \<Rightarrow> ycall \<Rightarrow> 'f yrx \<Rightarrow> 'f ydone" where
  "receive_eot io cl s =
    (if \<not> y_saw s then Returned (-1) (channel_putc MODEM_CAN s)
     else
       let s = channel_putc MODEM_ACK s;
           s = (if yc_quiet cl then s else uart_putc 10 s);
           s = channel_putc MODEM_CRC_REQ s;
           (rc, s) = read_packet s
       in if \<not> (case rc of Packet block _ \<Rightarrow> block = 0 \<and> y_data s ! 0 = 0 | _ \<Rightarrow> False) then abort io ''bad trailer'' s
          else if y_remaining s \<noteq> 0 then abort io ''short transfer'' s
          else
            let s = close_if_open io (channel_putc MODEM_ACK s)
            in if yc_buffer cl \<and> y_offset s \<ge> length (y_buf s) then Overrun
               else
                 let s = (if yc_buffer cl then s\<lparr>y_buf := (y_buf s)[y_offset s := 0]\<rparr> else s)
                 in if yc_quiet cl then Returned 0 s
                    else case print_received (y_name s) (y_size s) s of None \<Rightarrow> Overrun | Some s \<Rightarrow> Returned 0 s)"

text \<open>Making the file: a result \<open>Inr\<close> is the return from the receiver.\<close>

definition create_file :: "'f file_ops \<Rightarrow> ycall \<Rightarrow> 'f yrx \<Rightarrow> 'f yrx + 'f ydone" where
  "create_file io cl s =
    (case (if yc_request cl = None then v7fs_resolve_path 128 (yc_attached cl) (yc_cwd cl) (Some (y_name s)) else Some (yc_path cl)) of
       None \<Rightarrow> Inr (give_up ''bad destination path'' s)
     | Some path \<Rightarrow>
         (case fo_exists io path (y_fs s) of (e, fs) \<Rightarrow>
           (let s = s\<lparr>y_fs := fs\<rparr>;
                (u, fs) = (if e > 0 then fo_unlink io path (y_fs s) else (0, y_fs s));
                s = s\<lparr>y_fs := fs\<rparr>
            in if u < 0 then Inr (give_up ''replace failed'' s)
               else case fo_open io path 1 (y_fs s) of (fd, fs) \<Rightarrow>
                 (let s = s\<lparr>y_fs := fs, y_fd := fd\<rparr>
                  in if fd < 0 then Inr (give_up ''create failed'' s) else Inl s))))"

definition receive_metadata :: "'f file_ops \<Rightarrow> ycall \<Rightarrow> 8 word \<Rightarrow> nat \<Rightarrow> 'f yrx \<Rightarrow> 'f yrx + 'f ydone" where
  "receive_metadata io cl block len s =
    (if block \<noteq> 0 then
       Inr (case print_msg 80 (\<lambda>_. []) (ascii ''ymodem: expected metadata block, got=%d'' @ [10]) [ucast block] s of
              None \<Rightarrow> Overrun
            | Some s \<Rightarrow> Returned (-1) (close_if_open io (channel_putc MODEM_CAN s)))
     else case metadata_parse (y_data s) len 64 of
       Beyond \<Rightarrow> Inr Overrun
     | Malformed \<Rightarrow> Inr (give_up ''bad metadata parse'' s)
     | Meta name sz \<Rightarrow>
         let s = s\<lparr>y_name := name, y_size := sz\<rparr>
         in if (case yc_request cl of None \<Rightarrow> False | Some r \<Rightarrow> strcmp name (request_basename r) \<noteq> 0)
            then Inr (give_up ''wrong file'' s)
            else if \<not> yc_buffer cl \<and> yc_request cl = None \<and> invalid_filename name then Inr (give_up ''bad filename'' s)
            else if yc_buffer cl \<and> sz + 1 > word_of_int (yc_bufsz cl)
            then Inr (give_up ''file too large for script buffer'' s)
            else case (if yc_buffer cl then Inl s else create_file io cl s) of
              Inr d \<Rightarrow> Inr d
            | Inl s \<Rightarrow>
                Inl ((channel_putc MODEM_CRC_REQ (channel_putc MODEM_ACK (s\<lparr>y_remaining := y_size s\<rparr>)))\<lparr>y_saw := True, y_expected := 1\<rparr>))"

definition store_chunk :: "'f file_ops \<Rightarrow> ycall \<Rightarrow> nat \<Rightarrow> 'f yrx \<Rightarrow> 'f yrx + 'f ydone" where
  "store_chunk io cl chunk s =
    (if yc_buffer cl then
       (if y_offset s + chunk > length (y_buf s) then Inr Overrun
        else Inl (s\<lparr>y_buf := take (y_offset s) (y_buf s) @ take chunk (y_data s) @ drop (y_offset s + chunk) (y_buf s),
                    y_offset := y_offset s + chunk\<rparr>))
     else case fo_write io (y_fd s) (take chunk (y_data s)) (y_fs s) of (n, fs) \<Rightarrow>
       (let s = s\<lparr>y_fs := fs\<rparr>
        in if n \<noteq> int chunk then Inr (abort io ''write failed'' (uart_putc 10 s)) else Inl s))"

text \<open>\<open>length\<close> and \<open>expected_block & 0xff\<close> are longs, of which \<open>%d\<close> takes the high word.\<close>

definition receive_data :: "'f file_ops \<Rightarrow> ycall \<Rightarrow> 8 word \<Rightarrow> nat \<Rightarrow> 'f yrx \<Rightarrow> 'f yrx + 'f ydone" where
  "receive_data io cl block len s =
    (if uint block = to_u8 (y_expected s - 1) then
       (case print_msg 80 (\<lambda>_. []) (ascii ''ymodem: dup block=%d len=%d'' @ [10]) ([ucast block] @ long_arg (of_nat len)) (uart_putc 10 s) of
          None \<Rightarrow> Inr Overrun
        | Some s \<Rightarrow> Inl (channel_putc MODEM_ACK s))
     else if uint block \<noteq> to_u8 (y_expected s) then
       Inr (case print_msg 80 (\<lambda>_. []) (ascii ''ymodem: unexpected block=%d want=%d'' @ [10])
                   ([ucast block] @ long_arg (word_of_int (to_u8 (y_expected s)))) (uart_putc 10 s) of
              None \<Rightarrow> Overrun
            | Some s \<Rightarrow> Returned (-1) (close_if_open io (channel_putc MODEM_CAN s)))
     else if y_remaining s = 0 then Inr (abort io ''extra data beyond file size'' (uart_putc 10 s))
     else
       let chunk = (if of_nat len > y_remaining s then unat (y_remaining s) else len)
       in case store_chunk io cl chunk s of
            Inr d \<Rightarrow> Inr d
          | Inl s \<Rightarrow>
              Inl ((channel_putc MODEM_ACK (s\<lparr>y_remaining := y_remaining s - of_nat chunk\<rparr>))
                     \<lparr>y_expected := to_i32 (y_expected s + 1)\<rparr>))"

text \<open>One turn of the loop.\<close>

definition receive_step :: "'f file_ops \<Rightarrow> ycall \<Rightarrow> 'f yrx \<Rightarrow> 'f yrx + 'f ydone" where
  "receive_step io cl s =
    (case read_packet s of (rc, s) \<Rightarrow>
      (case rc of
         Eot \<Rightarrow> Inr (receive_eot io cl s)
       | Can \<Rightarrow> Inr (Returned (-1) (close_if_open io (say ''cancel'' (uart_putc 10 s))))
       | Bad e \<Rightarrow>
           if e = -1 then Inl (channel_putc MODEM_NAK (say ''bad marker'' (uart_putc 10 s)))
           else if e = -2 then Inl (channel_putc MODEM_NAK (say ''bad block header'' (uart_putc 10 s)))
           else if e = -3 then Inl (channel_putc MODEM_NAK (say ''bad crc'' (uart_putc 10 s)))
           else Inr (abort io ''timeout'' (uart_putc 10 s))
       | Packet block len \<Rightarrow> if \<not> y_saw s then receive_metadata io cl block len s else receive_data io cl block len s))"

section \<open>The loop\<close>

named_theorems y_out_simps \<open>the output routines only extend the output\<close>

lemma channel_putc_out [y_out_simps]: "channel_putc c s = s\<lparr>y_out := y_out s @ (if c = 10 then [Chan 13, Chan 10] else [Chan c])\<rparr>"
  by (rule channel_putc_def)

lemma uart_putc_out [y_out_simps]: "uart_putc c s = s\<lparr>y_out := y_out s @ (if c = 10 then [Cons 13, Cons 10] else [Cons c])\<rparr>"
  by (rule uart_putc_def)

definition console_text :: "bytes \<Rightarrow> wire list" where
  "console_text m = concat (map (\<lambda>c. if c = 10 then [Cons 13, Cons 10] else [Cons c]) m)"

lemma uart_puts_out [y_out_simps]: "uart_puts m s = s\<lparr>y_out := y_out s @ console_text m\<rparr>"
proof (induction m arbitrary: s)
  case (Cons c m)
  show ?case using Cons.IH[of "uart_putc c s"] by (simp add: uart_puts_def uart_putc_def console_text_def)
qed (simp add: uart_puts_def console_text_def)

lemma say_out [y_out_simps]: "say m s = s\<lparr>y_out := y_out s @ console_text (ascii ''ymodem: '' @ ascii m @ [10])\<rparr>"
  by (simp add: say_def uart_puts_out)

lemma print_msg_out: "print_msg n mem fmt args s = Some s' \<Longrightarrow> \<exists>w. s' = s\<lparr>y_out := y_out s @ w\<rparr>"
  by (auto simp add: print_msg_def uart_puts_out split: option.splits if_splits)

lemma get_bytes_rest: "length (snd (snd (get_bytes n inp))) \<le> length inp"
proof (induction n arbitrary: inp)
  case (Suc n)
  show ?case
  proof (cases inp)
    case (Cons x xs)
    then show ?thesis using Suc.IH[of xs] by (cases x) (auto simp add: ymodem_getc_def split: prod.splits)
  qed (simp add: ymodem_getc_def)
qed simp

lemma get_bytes_rest_eq: "get_bytes n inp = (bs, ok, inp') \<Longrightarrow> length inp' \<le> length inp"
  using get_bytes_rest[of n inp] by simp

declare get_bytes.simps [simp del]

lemma read_body_rest: "read_body b len inp data = (p, data', inp') \<Longrightarrow> length inp' \<le> length inp"
  unfolding read_body_def Let_def
  by (auto split: prod.splits if_splits dest!: get_bytes_rest_eq)

lemma packet_read_consumes:
  assumes "packet_read inp data = (p, data', inp')" "p \<noteq> Bad (-4)"
  shows "length inp' < length inp"
proof (cases inp)
  case Nil
  then show ?thesis using assms by (simp add: packet_read_def ymodem_getc_def)
next
  case (Cons x xs)
  have "length inp' \<le> length xs"
    using assms Cons unfolding packet_read_def Let_def
    by (cases x) (auto simp add: ymodem_getc_def split: prod.splits if_splits dest!: get_bytes_rest_eq read_body_rest)
  then show ?thesis using Cons by simp
qed

lemma create_file_input: "create_file io cl s = Inl s' \<Longrightarrow> y_in s' = y_in s"
  by (auto simp add: create_file_def Let_def split: option.splits prod.splits if_splits)

lemma store_chunk_input: "store_chunk io cl n s = Inl s' \<Longrightarrow> y_in s' = y_in s"
  by (auto simp add: store_chunk_def Let_def split: prod.splits if_splits)

lemma receive_metadata_input: "receive_metadata io cl b len s = Inl s' \<Longrightarrow> y_in s' = y_in s"
  unfolding receive_metadata_def Let_def
  by (auto simp add: y_out_simps split: option.splits sum.splits metadata.splits if_splits dest!: create_file_input)

lemma receive_data_input: "receive_data io cl b len s = Inl s' \<Longrightarrow> y_in s' = y_in s"
  unfolding receive_data_def Let_def
  by (auto simp add: y_out_simps split: option.splits sum.splits if_splits dest!: store_chunk_input print_msg_out)

lemma receive_step_consumes:
  assumes "receive_step io cl s = Inl s'"
  shows "length (y_in s') < length (y_in s)"
proof -
  obtain p data inp where r: "packet_read (y_in s) (y_data s) = (p, data, inp)" by (cases "packet_read (y_in s) (y_data s)") auto
  have rp: "read_packet s = (p, s\<lparr>y_data := data, y_in := inp\<rparr>)" using r by (simp add: read_packet_def)
  have "p \<noteq> Bad (-4)" using assms by (auto simp add: receive_step_def rp)
  moreover have "y_in s' = inp"
    using assms unfolding receive_step_def rp
    by (auto simp add: y_out_simps split: packet.splits if_splits dest!: receive_metadata_input receive_data_input)
  ultimately show ?thesis using packet_read_consumes[OF r] by simp
qed

function receive_loop :: "'f file_ops \<Rightarrow> ycall \<Rightarrow> 'f yrx \<Rightarrow> 'f ydone" where
  "receive_loop io cl s = (case receive_step io cl s of Inl s \<Rightarrow> receive_loop io cl s | Inr d \<Rightarrow> d)"
  by pat_completeness auto
termination
  by (relation "measure (\<lambda>(io, cl, s). length (y_in s))") (simp_all add: receive_step_consumes)

declare receive_loop.simps [simp del]

definition ymodem_receive_internal :: "'f file_ops \<Rightarrow> ycall \<Rightarrow> 'f yrx \<Rightarrow> 'f ydone" where
  "ymodem_receive_internal io cl s =
    (if \<not> yc_buffer cl \<and> yc_request cl = None \<and> (case yc_attached cl of None \<Rightarrow> True | Some a \<Rightarrow> a = [])
     then Returned (-1) (say ''no attached filesystem'' s)
     else if yc_buffer cl \<and> yc_bufsz cl \<le> 0 then Returned (-1) (say ''bad script buffer'' s)
     else
       let s = s\<lparr>y_expected := 1, y_saw := False, y_fd := -1, y_offset := 0\<rparr>;
           s = (case yc_request cl of None \<Rightarrow> s | Some r \<Rightarrow> send_request r s)
       in receive_loop io cl (channel_putc MODEM_CRC_REQ s))"

definition ymodem_receive_monitor ::
  "'f file_ops \<Rightarrow> bytes option \<Rightarrow> bytes option \<Rightarrow> bytes option \<Rightarrow> bytes \<Rightarrow> 'f yrx \<Rightarrow> 'f ydone" where
  "ymodem_receive_monitor io attached cwd request path s =
    ymodem_receive_internal io
      \<lparr>yc_attached = attached, yc_cwd = cwd, yc_request = request, yc_path = path, yc_buffer = False, yc_bufsz = 0, yc_quiet = False\<rparr> s"

definition ymodem_receive_monitor_quiet ::
  "'f file_ops \<Rightarrow> bytes option \<Rightarrow> bytes option \<Rightarrow> bytes option \<Rightarrow> bytes \<Rightarrow> 'f yrx \<Rightarrow> 'f ydone" where
  "ymodem_receive_monitor_quiet io attached cwd request path s =
    ymodem_receive_internal io
      \<lparr>yc_attached = attached, yc_cwd = cwd, yc_request = request, yc_path = path, yc_buffer = False, yc_bufsz = 0, yc_quiet = True\<rparr> s"

text \<open>\<open>y_buf\<close> is the caller's buffer, and \<open>bufsz\<close> its size.\<close>

definition ymodem_receive_buffer :: "'f file_ops \<Rightarrow> bytes option \<Rightarrow> int \<Rightarrow> 'f yrx \<Rightarrow> 'f ydone" where
  "ymodem_receive_buffer io request bufsz s =
    ymodem_receive_internal io
      \<lparr>yc_attached = None, yc_cwd = None, yc_request = request, yc_path = [], yc_buffer = True, yc_bufsz = bufsz, yc_quiet = True\<rparr> s"

end
