(* ===== verification/Fw_Transfer.thy ===== *)
theory Fw_Transfer
  imports Fw_Ymodem
begin

text \<open>
  What the YMODEM receiver makes of a transmission: the frames of a sender, frames that the line spoilt, the file in the buffer, and
  the sizes for which the buffer is not protected.
\<close>

section \<open>Frames\<close>

definition frame_length :: "8 word \<Rightarrow> nat" where
  "frame_length m = (if m = MODEM_SOH then 128 else 1024)"

definition is_block :: "bytes \<Rightarrow> bool" where
  "is_block p \<longleftrightarrow> length p = 128 \<or> length p = 1024"

definition block_frame :: "8 word \<Rightarrow> bytes \<Rightarrow> bytes" where
  "block_frame b p =
    (if length p = 128 then MODEM_SOH else MODEM_STX) # b # NOT b # p @ [ucast (drop_bit 8 (ymodem_crc16 p)), ucast (ymodem_crc16 p)]"

text \<open>Frames that do not arrive: a byte that starts none, a header whose complement is wrong, a wrong checksum.\<close>

inductive spoilt :: "bytes \<Rightarrow> bool" where
  spoilt_marker: "c \<notin> {MODEM_SOH, MODEM_STX, MODEM_EOT, MODEM_CAN} \<Longrightarrow> spoilt [c]"
| spoilt_header: "\<lbrakk>m \<in> {MODEM_SOH, MODEM_STX}; b + i \<noteq> 0xff; length r = frame_length m + 2\<rbrakk> \<Longrightarrow> spoilt (m # b # i # r)"
| spoilt_crc: "\<lbrakk>m \<in> {MODEM_SOH, MODEM_STX}; b + i = 0xff; length p = frame_length m; ymodem_crc16 p \<noteq> push_bit 8 (ucast h) OR ucast l\<rbrakk> \<Longrightarrow>
    spoilt (m # b # i # p @ [h, l])"

lemmas modem_codes =
  MODEM_SOH_def MODEM_STX_def MODEM_EOT_def MODEM_CAN_def MODEM_ACK_def MODEM_NAK_def MODEM_CRC_REQ_def

lemma get_bytes_all: "get_bytes (length bs) (map Some bs @ rest) = (bs, True, rest)"
  by (induction bs) (simp_all add: get_bytes.simps ymodem_getc_def)

lemma get_bytes_len: "length bs = n \<Longrightarrow> get_bytes n (map Some bs @ rest) = (bs, True, rest)"
  using get_bytes_all by blast

lemma get_two: "get_bytes 2 (Some a # Some b # rest) = ([a, b], True, rest)"
  using get_bytes_all[of "[a, b]" rest] by (simp add: numeral_2_eq_2)

lemma header_complement: "(b :: 8 word) + NOT b = 0xff"
proof -
  have "b + NOT b = - 1" by (simp add: not_eq_complement)
  then show ?thesis by simp
qed

lemma crc_bytes: "push_bit 8 (ucast (ucast (drop_bit 8 c) :: 8 word)) OR ucast (ucast c :: 8 word) = (c :: 16 word)"
  by (rule bit_word_eqI) (auto simp add: bit_simps)

lemma read_body_frame:
  assumes "length p = n" "n \<le> length data"
  shows "read_body b n (map Some p @ Some h # Some l # rest) data =
    (if ymodem_crc16 p \<noteq> push_bit 8 (ucast h) OR ucast l then Bad (-3) else Packet b n, p @ drop n data, rest)"
  using assms get_bytes_len[of p n "Some h # Some l # rest"] by (simp add: read_body_def get_two)

lemma packet_body:
  assumes "m \<in> {MODEM_SOH, MODEM_STX}" "b + i = 0xff"
  shows "packet_read (Some m # Some b # Some i # inp) data = read_body b (frame_length m) inp data"
  using assms by (auto simp add: packet_read_def ymodem_getc_def get_two frame_length_def modem_codes)

lemma read_frame:
  assumes "is_block p" "length data = 1024"
  shows "packet_read (map Some (block_frame b p) @ rest) data = (Packet b (length p), p @ drop (length p) data, rest)"
proof -
  let ?m = "if length p = 128 then MODEM_SOH else MODEM_STX"
  have m: "?m \<in> {MODEM_SOH, MODEM_STX}" "frame_length ?m = length p"
    using assms(1) by (auto simp add: is_block_def frame_length_def modem_codes)
  have l: "length p \<le> length data" using assms by (auto simp add: is_block_def)
  show ?thesis
    using packet_body[OF m(1) header_complement, of b] read_body_frame[OF refl l] m(2)
    by (simp add: block_frame_def crc_bytes)
qed

lemma read_spoilt:
  assumes "spoilt f" "length data = 1024"
  shows "\<exists>e data'. packet_read (map Some f @ rest) data = (Bad e, data', rest) \<and> e \<in> {-1, -2, -3} \<and> length data' = 1024"
  using assms(1)
proof cases
  case (spoilt_marker c)
  then show ?thesis using assms(2) by (auto simp add: packet_read_def ymodem_getc_def)
next
  case (spoilt_header m b i r)
  have "get_bytes (frame_length m + 2) (map Some r @ rest) = (r, True, rest)" by (rule get_bytes_len[OF spoilt_header(4)])
  then have "packet_read (map Some f @ rest) data = (Bad (-2), data, rest)"
    using spoilt_header by (auto simp add: packet_read_def ymodem_getc_def get_two frame_length_def modem_codes)
  then show ?thesis using assms(2) by auto
next
  case (spoilt_crc m b i p h l)
  have n: "frame_length m \<le> length data" using assms(2) by (simp add: frame_length_def)
  have "packet_read (map Some f @ rest) data = (Bad (-3), p @ drop (frame_length m) data, rest)"
    using packet_body[OF spoilt_crc(2,3)] read_body_frame[OF spoilt_crc(4) n] spoilt_crc(1,5) by simp
  then show ?thesis using assms(2) spoilt_crc(4) n by auto
qed

section \<open>The checksum\<close>

lemma msb_mask: "(x :: 16 word) AND 0x8000 \<noteq> 0 \<longleftrightarrow> bit x 15"
  by (simp add: and_exp_eq_0_iff_not_bit[of x 15, simplified])

lemma shift_bit: "n < 16 \<Longrightarrow> bit (push_bit 1 (x :: 16 word)) n \<longleftrightarrow> 0 < n \<and> bit x (n - 1)"
  by (cases n) (auto simp add: bit_push_bit_iff simp del: push_bit_Suc push_bit_numeral One_nat_def)

lemma xor_cancel: "(a :: 'a :: len word) XOR c = b XOR c \<longleftrightarrow> a = b" "c XOR a = c XOR b \<longleftrightarrow> a = b"
  by (metis xor.assoc xor.right_neutral xor_self_eq, metis xor.assoc xor.left_neutral xor_self_eq)

lemma crc_shifts_inj: "(crc_shift ^^ 8) x = (crc_shift ^^ 8) y \<Longrightarrow> x = y" if "inj crc_shift"
  using inj_fn[OF that, of 8] by (simp add: inj_eq)

lemma crc_shift_bit0: "bit (crc_shift x) 0 = bit x 15"
proof -
  have "bit (0x1021 :: 16 word) 0" by simp
  then show ?thesis using shift_bit[of 0 x] by (simp only: crc_shift_def msb_mask bit_xor_iff split: if_split) simp
qed

lemma crc_shift_inj: "inj crc_shift"
proof (rule injI)
  fix x y assume eq: "crc_shift x = crc_shift y"
  then have top: "bit x 15 = bit y 15" using crc_shift_bit0 by metis
  then have sh: "push_bit 1 x = push_bit 1 y"
    using eq unfolding crc_shift_def msb_mask by (auto simp add: xor_cancel split: if_splits)
  show "x = y"
  proof (rule bit_word_eqI)
    fix n assume "n < LENGTH(16)"
    then have "n = 15 \<or> Suc n < 16" by auto
    then show "bit x n = bit y n"
    proof
      assume "Suc n < 16"
      then show ?thesis using shift_bit[of "Suc n" x] shift_bit[of "Suc n" y] sh by simp
    qed (use top in simp)
  qed
qed

lemma crc_update_inj: "inj (\<lambda>c. ymodem_crc16_update c b)"
  by (rule injI) (auto simp add: ymodem_crc16_update_def xor_cancel dest: crc_shifts_inj[OF crc_shift_inj])

lemma crc_byte_inj: "inj (ymodem_crc16_update c)"
proof (rule injI)
  fix a b assume eq: "ymodem_crc16_update c a = ymodem_crc16_update c b"
  have p: "push_bit 8 (ucast a :: 16 word) = push_bit 8 (ucast b)"
    using crc_shifts_inj[OF crc_shift_inj eq[unfolded ymodem_crc16_update_def]] by (simp only: xor_cancel)
  show "a = b"
  proof (rule bit_word_eqI)
    fix n assume n: "n < LENGTH(8)"
    have "bit (push_bit 8 (ucast a :: 16 word)) (n + 8) = bit (push_bit 8 (ucast b :: 16 word)) (n + 8)" by (simp only: p)
    then show "bit a n = bit b n" using n by (simp add: bit_push_bit_iff bit_ucast_iff)
  qed
qed

lemma crc_rest_inj: "foldl ymodem_crc16_update c bs = foldl ymodem_crc16_update d bs \<Longrightarrow> c = d"
proof (induction bs arbitrary: c d)
  case (Cons b bs)
  then have "ymodem_crc16_update c b = ymodem_crc16_update d b" by simp
  then show ?case using crc_update_inj[of b] by (simp add: inj_def)
qed simp

text \<open>One wrong byte in a frame is always noticed.\<close>

lemma crc_detects_byte:
  assumes "x \<noteq> y"
  shows "ymodem_crc16 (p @ x # q) \<noteq> ymodem_crc16 (p @ y # q)"
proof
  assume "ymodem_crc16 (p @ x # q) = ymodem_crc16 (p @ y # q)"
  then have "ymodem_crc16_update (foldl ymodem_crc16_update 0 p) x = ymodem_crc16_update (foldl ymodem_crc16_update 0 p) y"
    by (simp add: ymodem_crc16_def crc_rest_inj)
  then show False using crc_byte_inj assms by (auto simp add: inj_def)
qed

section \<open>Messages fit their array\<close>

lemma digits_back_length: "\<lbrakk>2 \<le> base; 0 \<le> v; v < base ^ Suc n\<rbrakk> \<Longrightarrow> length (digits_back base v) \<le> Suc n"
proof (induction n arbitrary: v)
  case 0
  then show ?case by (simp add: digits_back.simps)
next
  case (Suc n)
  have "base * (v div base) \<le> v" using Suc.prems by (simp add: minus_mod_eq_mult_div[symmetric])
  then have "base * (v div base) < base * base ^ Suc n" using Suc.prems(3) by simp
  then have "v div base < base ^ Suc n" using Suc.prems(1) by (simp only: mult_less_cancel_left_pos)
  then show ?case using Suc by (subst digits_back.simps) (simp add: pos_imp_zdiv_nonneg_iff)
qed


lemma decimal_length: "length (number_text 100 v) \<le> 11"
proof -
  have "length (digits_back 10 (to_u32 x)) \<le> 10" for x
    using digits_back_length[of 10 "to_u32 x" 9] to_u32_range[of x] by simp
  then have "length (digits_back 10 (to_u32 x)) \<le> 11" "length (digits_back 10 (to_u32 x)) + 1 \<le> 11" for x
    by (simp_all add: le_trans[of _ 10 11])
  then show ?thesis by (simp add: number_text_def Let_def)
qed

lemma dup_text:
  "format mem (ascii ''ymodem: dup block=%d len=%d'' @ [10]) [b, h, l] =
    Some (ascii ''ymodem: dup block='' @ number_text 100 (sint b) @ ascii '' len='' @ number_text 100 (sint h) @ [10])"
  by (simp add: ascii_def format.simps take_spec_def convert_def padded_def)

lemma step_spoilt:
  assumes "spoilt f" "y_in s = map Some f @ rest" "length (y_data s) = 1024"
  shows "\<exists>d w. length d = 1024 \<and> receive_step io cl s = Inl (s\<lparr>y_data := d, y_in := rest, y_out := w\<rparr>)"
proof -
  obtain e d where r: "packet_read (map Some f @ rest) (y_data s) = (Bad e, d, rest)" "e \<in> {-1, -2, -3}" "length d = 1024"
    using read_spoilt[OF assms(1,3)] by metis
  have "read_packet s = (Bad e, s\<lparr>y_data := d, y_in := rest\<rparr>)" using r(1) assms(2) by (simp add: read_packet_def)
  then show ?thesis using r(2,3) by (auto simp add: receive_step_def y_out_simps intro: exI[of _ d])
qed

lemma step_dup:
  assumes "y_in s = map Some (block_frame b p) @ rest" "length (y_data s) = 1024" "is_block p" "y_saw s"
    "uint b = to_u8 (y_expected s - 1)"
  shows "\<exists>d w. length d = 1024 \<and> receive_step io cl s = Inl (s\<lparr>y_data := d, y_in := rest, y_out := w\<rparr>)"
proof -
  let ?d = "p @ drop (length p) (y_data s)"
  have r: "read_packet s = (Packet b (length p), s\<lparr>y_data := ?d, y_in := rest\<rparr>)"
    using read_frame[OF assms(3,2)] assms(1) by (simp add: read_packet_def)
  have l: "length ?d = 1024" using assms(2,3) by (auto simp add: is_block_def)
  let ?m = "ascii ''ymodem: dup block='' @ number_text 100 (sint (ucast b :: 16 word)) @ ascii '' len='' @
    number_text 100 (sint (hd (long_arg (of_nat (length p))))) @ [10]"
  have "length ?m + 1 \<le> 80"
    using decimal_length[of "sint (ucast b :: 16 word)"] decimal_length[of "sint (hd (long_arg (of_nat (length p))))"] by (simp add: ascii_def)
  then have m: "print_msg 80 (\<lambda>_. []) (ascii ''ymodem: dup block=%d len=%d'' @ [10]) (ucast b # long_arg (of_nat (length p))) t =
      Some (uart_puts ?m t)" for t :: "'a yrx"
    using dup_text[of "\<lambda>_. []"] by (simp add: print_msg_def long_arg_def)
  show ?thesis
    using l assms(4,5) by (auto simp add: receive_step_def r receive_data_def m y_out_simps intro: exI[of _ ?d])
qed

lemma unat_small: "n < 2 ^ 32 \<Longrightarrow> unat (of_nat n :: 32 word) = n"
  by (simp add: unsigned_of_nat take_bit_nat_eq_self)

lemma unat_min: "unat (of_nat (min n (unat (x :: 32 word))) :: 32 word) = min n (unat x)"
proof -
  have "unat x < 2 ^ LENGTH(32)" by (rule unsigned_less)
  then show ?thesis by (intro unat_small) simp
qed

lemma u8_next: "to_u8 (int k) \<noteq> to_u8 (int k - 1)"
proof
  assume "to_u8 (int k) = to_u8 (int k - 1)"
  then have "(int k - (int k - 1)) mod 256 = 0"
    by (simp only: to_u8_def take_bit_eq_mod mod_eq_dvd_iff) simp
  then show False by simp
qed

lemma block_number: "uint (of_nat k :: 8 word) = to_u8 (int k)"
  by (simp add: to_u8_def unsigned_of_nat take_bit_of_nat)

lemma receive_block:
  assumes "uint b = to_u8 (y_expected s)" "uint b \<noteq> to_u8 (y_expected s - 1)" "yc_buffer cl" "y_remaining s \<noteq> 0" "len < 2 ^ 32"
  shows "receive_data io cl b len s =
    (let n = min len (unat (y_remaining s)) in
     if y_offset s + n > length (y_buf s) then Inr Overrun
     else Inl (s\<lparr>y_out := y_out s @ [Chan MODEM_ACK],
       y_buf := take (y_offset s) (y_buf s) @ take n (y_data s) @ drop (y_offset s + n) (y_buf s), y_offset := y_offset s + n,
       y_remaining := y_remaining s - of_nat n, y_expected := to_i32 (y_expected s + 1)\<rparr>))"
proof -
  have cmp: "of_nat len > y_remaining s \<longleftrightarrow> unat (y_remaining s) < len"
    using unat_small[OF assms(5)] by (simp add: word_less_nat_alt)
  have chunk: "(if of_nat len > y_remaining s then unat (y_remaining s) else len) = min len (unat (y_remaining s))"
    unfolding cmp by (simp add: min_def)
  have n: "\<not> uint b \<noteq> to_u8 (y_expected s)" using assms(1) by simp
  show ?thesis
    unfolding receive_data_def if_not_P[OF assms(2)] if_not_P[OF n] if_not_P[OF assms(4)] chunk Let_def
    using assms(3) by (simp add: store_chunk_def channel_putc_def modem_codes)
qed

lemma step_block:
  assumes "y_in s = map Some (block_frame (of_nat k) p) @ rest" "length (y_data s) = 1024" "is_block p" "y_saw s"
    "y_expected s = int k" "int k + 1 < 2147483648" "yc_buffer cl" "y_remaining s \<noteq> 0"
  shows "receive_step io cl s =
    (let n = min (length p) (unat (y_remaining s)) in
     if y_offset s + n > length (y_buf s) then Inr Overrun
     else Inl (s\<lparr>y_data := p @ drop (length p) (y_data s), y_in := rest, y_out := y_out s @ [Chan MODEM_ACK],
       y_buf := take (y_offset s) (y_buf s) @ take n p @ drop (y_offset s + n) (y_buf s), y_offset := y_offset s + n,
       y_remaining := y_remaining s - of_nat n, y_expected := int k + 1\<rparr>))"
proof -
  let ?s = "s\<lparr>y_data := p @ drop (length p) (y_data s), y_in := rest\<rparr>"
  have r: "read_packet s = (Packet (of_nat k) (length p), ?s)"
    using read_frame[OF assms(3,2)] assms(1) by (simp add: read_packet_def)
  have b: "uint (of_nat k :: 8 word) = to_u8 (y_expected ?s)" "uint (of_nat k :: 8 word) \<noteq> to_u8 (y_expected ?s - 1)"
    using assms(5) u8_next[of k] by (simp_all add: block_number)
  have nz: "y_remaining ?s \<noteq> 0" using assms(8) by simp
  have small: "length p < 2 ^ 32" using assms(3) by (auto simp add: is_block_def)
  have e: "to_i32 (int k + 1) = int k + 1" using assms(6) by (simp add: to_i32_id)
  have "receive_step io cl s = receive_data io cl (of_nat k) (length p) ?s" using assms(4) by (simp add: receive_step_def r)
  then show ?thesis unfolding receive_block[OF b assms(7) nz small] using assms(5) e by (simp add: Let_def)
qed

text \<open>The sender's stream of blocks \<open>k\<close>, \<open>k + 1\<close>, \<dots>: any number of spoilt frames and of repetitions of the block before.\<close>

inductive sends :: "nat \<Rightarrow> bytes list \<Rightarrow> bytes \<Rightarrow> bool" where
  sends_done: "sends k [] []"
| sends_spoilt: "\<lbrakk>spoilt f; sends k ps w\<rbrakk> \<Longrightarrow> sends k ps (f @ w)"
| sends_again: "\<lbrakk>is_block p; sends (Suc k) ps w\<rbrakk> \<Longrightarrow> sends (Suc k) ps (block_frame (of_nat k) p @ w)"
| sends_block: "\<lbrakk>is_block p; sends (Suc k) ps w\<rbrakk> \<Longrightarrow> sends k (p # ps) (block_frame (of_nat k) p @ w)"

text \<open>The blocks carry a file of \<open>r\<close> bytes, and none of them lies beyond its end.\<close>

fun carries :: "nat \<Rightarrow> bytes list \<Rightarrow> bool" where
  "carries r [] \<longleftrightarrow> r = 0"
| "carries r (p # ps) \<longleftrightarrow> 0 < r \<and> carries (r - length p) ps"

lemma loop_step: "receive_step io cl s = Inl s' \<Longrightarrow> receive_loop io cl s = receive_loop io cl s'"
  by (subst receive_loop.simps) simp

lemma loop_end: "receive_step io cl s = Inr d \<Longrightarrow> receive_loop io cl s = d"
  by (subst receive_loop.simps) simp

lemma loop_sends:
  assumes "sends k ps w" "yc_buffer cl"
  shows "\<lbrakk>y_in s = map Some w @ rest; length (y_data s) = 1024; y_saw s; y_expected s = int k; carries (unat (y_remaining s)) ps;
      y_offset s + unat (y_remaining s) \<le> length (y_buf s); k + length ps < 2147483648\<rbrakk> \<Longrightarrow>
    \<exists>s'. receive_loop io cl s = receive_loop io cl s' \<and> y_in s' = rest \<and> length (y_data s') = 1024 \<and> y_saw s' \<and> y_remaining s' = 0 \<and>
      y_fd s' = y_fd s \<and> y_offset s' = y_offset s + unat (y_remaining s) \<and>
      y_buf s' = take (y_offset s) (y_buf s) @ take (unat (y_remaining s)) (concat ps) @ drop (y_offset s + unat (y_remaining s)) (y_buf s)"
  using assms(1)
proof (induction arbitrary: s rule: sends.induct)
  case (sends_done k)
  then have "y_remaining s = 0" by (simp add: unat_eq_zero)
  then show ?case using sends_done by (intro exI[of _ s]) simp
next
  case (sends_spoilt f k ps w)
  have i: "y_in s = map Some f @ (map Some w @ rest)" using sends_spoilt.prems(1) by simp
  obtain d ot where d: "length d = 1024" and
    st: "receive_step io cl s = Inl (s\<lparr>y_data := d, y_in := map Some w @ rest, y_out := ot\<rparr>)"
    using step_spoilt[OF sends_spoilt.hyps(1) i sends_spoilt.prems(2)] by metis
  show ?case
    unfolding loop_step[OF st]
    using sends_spoilt.IH[of "s\<lparr>y_data := d, y_in := map Some w @ rest, y_out := ot\<rparr>"] d sends_spoilt.prems by simp
next
  case (sends_again p k ps w)
  have i: "y_in s = map Some (block_frame (of_nat k) p) @ (map Some w @ rest)" using sends_again.prems(1) by simp
  have "uint (of_nat k :: 8 word) = to_u8 (y_expected s - 1)" using sends_again.prems(4) by (simp add: block_number)
  then obtain d ot where d: "length d = 1024" and
    st: "receive_step io cl s = Inl (s\<lparr>y_data := d, y_in := map Some w @ rest, y_out := ot\<rparr>)"
    using step_dup[OF i sends_again.prems(2) sends_again.hyps(1) sends_again.prems(3)] by metis
  show ?case
    unfolding loop_step[OF st]
    using sends_again.IH[of "s\<lparr>y_data := d, y_in := map Some w @ rest, y_out := ot\<rparr>"] d sends_again.prems by simp
next
  case (sends_block p k ps w)
  let ?r = "unat (y_remaining s)" and ?o = "y_offset s"
  let ?n = "min (length p) ?r"
  define t where "t = s\<lparr>y_data := p @ drop (length p) (y_data s), y_in := map Some w @ rest, y_out := y_out s @ [Chan MODEM_ACK],
       y_buf := take ?o (y_buf s) @ take ?n p @ drop (?o + ?n) (y_buf s), y_offset := ?o + ?n,
       y_remaining := y_remaining s - of_nat ?n, y_expected := int k + 1\<rparr>"
  have i: "y_in s = map Some (block_frame (of_nat k) p) @ (map Some w @ rest)" using sends_block.prems(1) by simp
  have kl: "int k + 1 < 2147483648" using sends_block.prems(7) by simp
  have nz: "y_remaining s \<noteq> 0" using sends_block.prems(5) by (auto simp add: unat_eq_zero)
  have room: "?o + ?n \<le> length (y_buf s)" using sends_block.prems(6) by simp
  have st: "receive_step io cl s = Inl t"
    using step_block[OF i sends_block.prems(2) sends_block.hyps(1) sends_block.prems(3,4) kl assms(2) nz] room
    by (simp add: Let_def t_def)
  have "of_nat ?n \<le> y_remaining s" by (simp add: word_le_nat_alt unat_min)
  then have rem: "unat (y_remaining t) = ?r - length p" by (simp add: t_def unat_sub unat_min)
  have buf: "length (y_buf t) = length (y_buf s)" "y_offset t = ?o + ?n" using room by (simp_all add: t_def)
  have pre: "y_in t = map Some w @ rest" "length (y_data t) = 1024" "y_saw t" "y_expected t = int (Suc k)"
      "carries (unat (y_remaining t)) ps" "y_offset t + unat (y_remaining t) \<le> length (y_buf t)" "Suc k + length ps < 2147483648"
    using sends_block.hyps(1) sends_block.prems rem buf by (auto simp add: is_block_def t_def)
  obtain s' where s': "receive_loop io cl t = receive_loop io cl s'" "y_in s' = rest" "length (y_data s') = 1024" "y_saw s'"
      "y_remaining s' = 0" "y_fd s' = y_fd t" "y_offset s' = y_offset t + unat (y_remaining t)"
      "y_buf s' = take (y_offset t) (y_buf t) @ take (unat (y_remaining t)) (concat ps) @ drop (y_offset t + unat (y_remaining t)) (y_buf t)"
    using sends_block.IH[OF pre] by metis
  have ob: "y_buf s' = take ?o (y_buf s) @ take ?r (concat (p # ps)) @ drop (?o + ?r) (y_buf s)"
    using s'(8) room unfolding rem buf(2) by (simp add: t_def min_def add.commute split: if_splits)
  have "y_offset s' = ?o + ?r" "y_fd s' = y_fd s" using s'(6,7) unfolding rem buf(2) by (simp_all add: t_def)
  then show ?case unfolding loop_step[OF st] using s' ob by metis
qed

section \<open>Beginning and end\<close>

definition digits_value :: "bytes \<Rightarrow> nat" where
  "digits_value ds = foldl (\<lambda>v c. v * 10 + unat (c - 48)) 0 ds"

definition decimal :: "bytes \<Rightarrow> bool" where
  "decimal ds \<longleftrightarrow> (\<forall>c \<in> set ds. 48 \<le> c \<and> c \<le> 57)"

text \<open>The data of block 0: a name, the size in digits, and anything that does not begin with a digit.\<close>

definition names_file :: "bytes \<Rightarrow> bytes \<Rightarrow> nat \<Rightarrow> bool" where
  "names_file name m sz \<longleftrightarrow>
    (\<exists>ds c pad. m = name @ 0 # ds @ c # pad \<and> decimal ds \<and> \<not> (48 \<le> c \<and> c \<le> 57) \<and> digits_value ds = sz) \<and>
    is_block m \<and> name \<noteq> [] \<and> 0 \<notin> set name \<and> length name < 64"

lemma parse_decimal_value:
  "\<lbrakk>decimal ds; \<not> (48 \<le> c \<and> c \<le> 57)\<rbrakk> \<Longrightarrow>
   parse_decimal (ds @ c # pad) v = Some (of_nat (foldl (\<lambda>v c. v * 10 + unat (c - 48)) n ds))" if "v = of_nat n"
  using that
proof (induction ds arbitrary: v n)
  case (Cons d ds)
  have d: "48 \<le> d" "d \<le> 57" "decimal ds" using Cons.prems(1) by (simp_all add: decimal_def)
  have "v * 10 + ucast (d - 48) = (of_nat (n * 10 + unat (d - 48)) :: 32 word)" using Cons.prems(3) by simp
  from Cons.IH[OF d(3) Cons.prems(2) this] show ?case using d(1,2) by simp
qed auto

lemma metadata_named:
  assumes "names_file name m sz" "length m \<le> len" "take (length m) data = m" "length m \<le> length data"
  shows "metadata_parse data len 64 = Meta name (of_nat sz)"
proof -
  obtain ds c pad where m: "m = name @ 0 # ds @ c # pad" "decimal ds" "\<not> (48 \<le> c \<and> c \<le> 57)" "digits_value ds = sz"
    and n: "name \<noteq> []" "0 \<notin> set name" "length name < 64"
    using assms(1) by (auto simp add: names_file_def)
  obtain r where d: "data = name @ 0 # ds @ c # (pad @ r)"
    using append_take_drop_id[of "length m" data] assms(3) m(1) by (metis append_Cons append_assoc)
  have "takeWhile (\<lambda>c. c \<noteq> 0) data = name" unfolding d using n(2) by (induction name) auto
  moreover have "data ! 0 \<noteq> 0" "0 \<in> set data" unfolding d using n(1,2) by (cases name; auto)+
  moreover have "drop (length name + 1) data = ds @ c # (pad @ r)" unfolding d by simp
  moreover have "length name + 1 < len" using assms(2) m(1) by simp
  moreover have "parse_decimal (ds @ c # (pad @ r)) 0 = Some (of_nat sz)"
    using parse_decimal_value[of 0 0 ds c "pad @ r"] m(2,3,4) by (simp add: digits_value_def)
  ultimately show ?thesis using n(3) by (simp add: metadata_parse_def Let_def)
qed

lemma strcmp_same [simp]: "strcmp s s = 0"
  by (induction s) simp_all

definition asks_for :: "bytes option \<Rightarrow> bytes \<Rightarrow> bool" where
  "asks_for request name \<longleftrightarrow> (case request of None \<Rightarrow> True | Some r \<Rightarrow> request_basename r = name)"

lemma step_metadata:
  assumes "y_in s = map Some (block_frame 0 m) @ rest" "length (y_data s) = 1024" "\<not> y_saw s" "names_file name m sz"
    "yc_buffer cl" "asks_for (yc_request cl) name" "\<not> (of_nat sz + 1 > (word_of_int (yc_bufsz cl) :: 32 word))"
  shows "\<exists>d w. length d = 1024 \<and> receive_step io cl s = Inl (s\<lparr>y_data := d, y_in := rest, y_out := w, y_name := name, y_size := of_nat sz,
    y_remaining := of_nat sz, y_saw := True, y_expected := 1\<rparr>)"
proof -
  have b: "is_block m" using assms(4) by (simp add: names_file_def)
  let ?d = "m @ drop (length m) (y_data s)"
  have r: "read_packet s = (Packet 0 (length m), s\<lparr>y_data := ?d, y_in := rest\<rparr>)"
    using read_frame[OF b assms(2)] assms(1) by (simp add: read_packet_def)
  have md: "metadata_parse ?d (length m) 64 = Meta name (of_nat sz)" by (rule metadata_named[OF assms(4)]) simp_all
  have rq: "\<not> (case yc_request cl of None \<Rightarrow> False | Some r \<Rightarrow> strcmp name (request_basename r) \<noteq> 0)"
    using assms(6) by (auto simp add: asks_for_def split: option.splits)
  have "length ?d = 1024" using b assms(2) by (auto simp add: is_block_def)
  moreover have "receive_step io cl s = Inl (s\<lparr>y_data := ?d, y_in := rest, y_out := y_out s @ [Chan MODEM_ACK, Chan MODEM_CRC_REQ],
      y_name := name, y_size := of_nat sz, y_remaining := of_nat sz, y_saw := True, y_expected := 1\<rparr>)"
    using assms(3,5,7) rq by (simp add: receive_step_def r receive_metadata_def md Let_def channel_putc_def modem_codes)
  ultimately show ?thesis by blast
qed

lemma step_eot:
  assumes "y_in s = Some MODEM_EOT # map Some (block_frame 0 t) @ rest" "length (y_data s) = 1024" "y_saw s" "is_block t" "hd t = 0"
    "yc_buffer cl" "yc_quiet cl" "y_remaining s = 0" "y_offset s < length (y_buf s)"
  shows "\<exists>s'. receive_loop io cl s = Returned 0 s' \<and> y_buf s' = (y_buf s)[y_offset s := 0] \<and> y_in s' = rest"
proof -
  have r: "read_packet s = (Eot, s\<lparr>y_in := map Some (block_frame 0 t) @ rest\<rparr>)"
    using assms(1) by (simp add: read_packet_def packet_read_def ymodem_getc_def)
  let ?d = "t @ drop (length t) (y_data s)"
  have r2: "read_packet (s\<lparr>y_in := map Some (block_frame 0 t) @ rest, y_out := w\<rparr>) =
      (Packet 0 (length t), s\<lparr>y_in := rest, y_out := w, y_data := ?d\<rparr>)" for w
    using read_frame[OF assms(4,2)] by (simp add: read_packet_def)
  have d0: "?d ! 0 = 0" using assms(4,5) by (cases t) (auto simp add: is_block_def)
  have "\<exists>s'. receive_eot io cl (s\<lparr>y_in := map Some (block_frame 0 t) @ rest\<rparr>) = Returned 0 s' \<and>
      y_buf s' = (y_buf s)[y_offset s := 0] \<and> y_in s' = rest"
    using assms(3,6,7,8,9) d0 by (simp add: receive_eot_def Let_def channel_putc_def modem_codes r2 close_if_open_def)
  then show ?thesis using loop_end[of io cl s] by (simp add: receive_step_def r)
qed

lemma loop_spoilt:
  "\<lbrakk>\<forall>f \<in> set fs. spoilt f; y_in s = map Some (concat fs) @ rest; length (y_data s) = 1024\<rbrakk> \<Longrightarrow>
   \<exists>d w. length d = 1024 \<and> receive_loop io cl s = receive_loop io cl (s\<lparr>y_data := d, y_in := rest, y_out := w\<rparr>)"
proof (induction fs arbitrary: s)
  case Nil
  then have "s = s\<lparr>y_data := y_data s, y_in := rest, y_out := y_out s\<rparr>" by simp
  then show ?case using Nil.prems(3) by metis
next
  case (Cons f fs)
  have i: "y_in s = map Some f @ (map Some (concat fs) @ rest)" using Cons.prems(2) by simp
  have f: "spoilt f" using Cons.prems(1) by simp
  obtain d w where d: "length d = 1024" and
    st: "receive_step io cl s = Inl (s\<lparr>y_data := d, y_in := map Some (concat fs) @ rest, y_out := w\<rparr>)"
    using step_spoilt[OF f i Cons.prems(3)] by metis
  show ?case
    unfolding loop_step[OF st]
    using Cons.IH[of "s\<lparr>y_data := d, y_in := map Some (concat fs) @ rest, y_out := w\<rparr>"] Cons.prems(1) d by simp
qed

lemma send_request_out: "send_request r s = s\<lparr>y_out := y_out (send_request r s)\<rparr>"
proof -
  have f: "fold channel_putc bs t = t\<lparr>y_out := y_out (fold channel_putc bs t)\<rparr>" for bs and t :: "'a yrx"
  proof (induction bs arbitrary: t)
    case (Cons b bs)
    show ?case using Cons.IH[of "channel_putc b t"] by (simp add: channel_putc_def)
  qed simp
  have c: "channel_putc b t = t\<lparr>y_out := y_out (channel_putc b t)\<rparr>" for b and t :: "'a yrx" by (simp add: channel_putc_def)
  show ?thesis
    unfolding send_request_def
    by (subst c, subst f, subst f) simp
qed

text \<open>The start of a transfer: the loop, with nothing received.\<close>

lemma receive_starts:
  assumes "0 < bufsz"
  shows "\<exists>w. ymodem_receive_buffer io request bufsz s =
    receive_loop io \<lparr>yc_attached = None, yc_cwd = None, yc_request = request, yc_path = [], yc_buffer = True, yc_bufsz = bufsz, yc_quiet = True\<rparr>
      (s\<lparr>y_expected := 1, y_saw := False, y_fd := -1, y_offset := 0, y_out := w\<rparr>)"
proof (cases request)
  case None
  then show ?thesis
    using assms by (auto simp add: ymodem_receive_buffer_def ymodem_receive_internal_def Let_def channel_putc_def)
next
  case (Some r)
  define a where "a = s\<lparr>y_expected := 1, y_saw := False, y_fd := -1, y_offset := 0\<rparr>"
  obtain w where w: "send_request r a = a\<lparr>y_out := w\<rparr>" using send_request_out by blast
  then have "channel_putc MODEM_CRC_REQ (send_request r a) = a\<lparr>y_out := w @ [Chan MODEM_CRC_REQ]\<rparr>"
    by (simp add: channel_putc_def modem_codes)
  then show ?thesis
    using assms Some
    unfolding a_def by (intro exI[of _ "w @ [Chan MODEM_CRC_REQ]"]) (simp add: ymodem_receive_buffer_def ymodem_receive_internal_def)
qed

text \<open>After block 0: the size is known and block 1 is expected.\<close>

lemma metadata_arrives:
  assumes "\<forall>f \<in> set fs. spoilt f" "names_file name m sz" "asks_for request name" "0 < bufsz" "length (y_data s) = 1024"
    "\<not> (of_nat sz + 1 > (word_of_int bufsz :: 32 word))" "y_in s = map Some (concat fs @ block_frame 0 m) @ rest"
  shows "\<exists>t cl. ymodem_receive_buffer io request bufsz s = receive_loop io cl t \<and> yc_buffer cl \<and> yc_quiet cl \<and> y_in t = rest \<and>
    length (y_data t) = 1024 \<and> y_saw t \<and> y_expected t = 1 \<and> y_fd t = -1 \<and> y_offset t = 0 \<and> y_remaining t = of_nat sz \<and> y_buf t = y_buf s"
proof -
  define cl where "cl = \<lparr>yc_attached = None, yc_cwd = None, yc_request = request, yc_path = [], yc_buffer = True, yc_bufsz = bufsz, yc_quiet = True\<rparr>"
  have cl: "yc_buffer cl" "yc_quiet cl" "yc_request cl = request" "yc_bufsz cl = bufsz" by (simp_all add: cl_def)
  obtain w where w: "ymodem_receive_buffer io request bufsz s =
      receive_loop io cl (s\<lparr>y_expected := 1, y_saw := False, y_fd := -1, y_offset := 0, y_out := w\<rparr>)"
    using receive_starts[OF assms(4)] unfolding cl_def by metis
  define a where "a = s\<lparr>y_expected := 1, y_saw := False, y_fd := -1, y_offset := 0, y_out := w\<rparr>"
  have "y_in a = map Some (concat fs) @ (map Some (block_frame 0 m) @ rest)" "length (y_data a) = 1024"
    using assms(5,7) by (simp_all add: a_def)
  then obtain d w2 where d: "length d = 1024" and
    l: "receive_loop io cl a = receive_loop io cl (a\<lparr>y_data := d, y_in := map Some (block_frame 0 m) @ rest, y_out := w2\<rparr>)"
    using loop_spoilt[OF assms(1)] by metis
  define b where "b = a\<lparr>y_data := d, y_in := map Some (block_frame 0 m) @ rest, y_out := w2\<rparr>"
  have b: "y_in b = map Some (block_frame 0 m) @ rest" "length (y_data b) = 1024" "\<not> y_saw b" using d by (simp_all add: b_def a_def)
  obtain d2 w3 where d2: "length d2 = 1024" and st: "receive_step io cl b = Inl (b\<lparr>y_data := d2, y_in := rest, y_out := w3, y_name := name,
      y_size := of_nat sz, y_remaining := of_nat sz, y_saw := True, y_expected := 1\<rparr>)"
    using step_metadata[OF b assms(2) cl(1), of io] assms(3,6) cl(3,4) by metis
  define t where "t = b\<lparr>y_data := d2, y_in := rest, y_out := w3, y_name := name,
      y_size := of_nat sz, y_remaining := of_nat sz, y_saw := True, y_expected := 1\<rparr>"
  have "ymodem_receive_buffer io request bufsz s = receive_loop io cl t"
    using w l loop_step[OF st] by (simp add: a_def b_def t_def)
  then show ?thesis using cl(1,2) d2 by (intro exI[of _ t] exI[of _ cl]) (simp add: t_def b_def a_def)
qed

lemma sends_blocks: "sends k ps w \<Longrightarrow> \<forall>p \<in> set ps. is_block p"
  by (induction rule: sends.induct) auto

lemma carries_count: "\<lbrakk>carries r ps; \<forall>p \<in> set ps. is_block p\<rbrakk> \<Longrightarrow> length ps \<le> r"
proof (induction r ps rule: carries.induct)
  case (2 r p ps)
  have "0 < length p" using 2(3) by (auto simp add: is_block_def)
  moreover have "length ps \<le> r - length p" using 2 by simp
  moreover have "0 < r" using 2(2) by simp
  ultimately have "length ps < r" by arith
  then show ?case by simp
qed simp

lemma size_fits:
  assumes "int n < bufsz" "bufsz < 2147483648"
  shows "\<not> (of_nat n + 1 > (word_of_int bufsz :: 32 word))"
proof -
  have "unat (of_nat n + 1 :: 32 word) = n + 1" using unat_small[of "n + 1"] assms by (simp add: add.commute)
  moreover have "unat (word_of_int bufsz :: 32 word) = nat bufsz"
    using unat_small[of "nat bufsz"] assms by (simp add: word_of_int_nat flip: of_nat_nat)
  ultimately show ?thesis using assms by (simp add: word_less_nat_alt)
qed

section \<open>Properties\<close>

text \<open>
  Claim C38. The YMODEM receiver puts the file into the buffer, however disturbed the line: for any number of frames that the line spoilt
  (bytes that start no frame, bad headers, bad checksums) and of repeated blocks, in any order between the sender's blocks, whose
  numbers wrap at 256, the receiver returns 0, the buffer holds exactly the bytes of the file and the terminating \<open>NUL\<close> and is
  otherwise unchanged, and the channel is read up to the end of the trailer and no further.\<close>

theorem ymodem_delivers:
  assumes "\<forall>f \<in> set fs. spoilt f" "names_file name m (length file)" "asks_for request name"
    "sends 1 ps w" "carries (length file) ps" "file = take (length file) (concat ps)" "is_block t" "hd t = 0"
    "int (length file) < bufsz" "bufsz < 2147483648" "int (length (y_buf s)) = bufsz" "length (y_data s) = 1024"
    "y_in s = map Some (concat fs @ block_frame 0 m @ w @ MODEM_EOT # block_frame 0 t) @ rest"
  shows "\<exists>s'. ymodem_receive_buffer io request bufsz s = Returned 0 s' \<and>
    y_buf s' = file @ 0 # drop (length file + 1) (y_buf s) \<and> y_in s' = rest"
proof -
  have u: "unat (of_nat (length file) :: 32 word) = length file" by (rule unat_small) (use assms(9,10) in simp)
  have pos: "0 < bufsz" using assms(9) by simp
  note fits = size_fits[OF assms(9,10)]
  have i: "y_in s = map Some (concat fs @ block_frame 0 m) @ (map Some w @ (Some MODEM_EOT # map Some (block_frame 0 t) @ rest))"
    using assms(13) by simp
  obtain a cl where a: "ymodem_receive_buffer io request bufsz s = receive_loop io cl a" "yc_buffer cl" "yc_quiet cl"
      "y_in a = map Some w @ (Some MODEM_EOT # map Some (block_frame 0 t) @ rest)" "length (y_data a) = 1024" "y_saw a" "y_expected a = int 1"
      "y_fd a = -1" "y_offset a = 0" "y_remaining a = of_nat (length file)" "y_buf a = y_buf s"
    using metadata_arrives[OF assms(1-3) pos assms(12) fits i, of io] by auto
  have cr: "carries (unat (y_remaining a)) ps" "y_offset a + unat (y_remaining a) \<le> length (y_buf a)" "1 + length ps < 2147483648"
    using assms(5,9,10,11) a(9-11) u carries_count[OF assms(5) sends_blocks[OF assms(4)]] by simp_all
  obtain b where b: "receive_loop io cl a = receive_loop io cl b" "y_in b = Some MODEM_EOT # map Some (block_frame 0 t) @ rest"
      "length (y_data b) = 1024" "y_saw b" "y_remaining b = 0" "y_offset b = length file" "y_buf b = file @ drop (length file) (y_buf s)"
    using loop_sends[OF assms(4) a(2,4-7) cr] assms(6) a(9-11) u by auto
  have off: "y_offset b < length (y_buf b)" using b(6,7) assms(9,11) by simp
  have dr: "drop (length file) (y_buf s) = (y_buf s ! length file) # drop (length file + 1) (y_buf s)"
    using assms(9,11) by (simp add: Cons_nth_drop_Suc)
  show ?thesis
    using step_eot[OF b(2-4) assms(7,8) a(2,3) b(5) off] a(1) b(1,6,7) dr by (simp add: list_update_append)
qed

text \<open>The file \<open>a\<close> of two bytes, after a byte of noise.\<close>

theorem ymodem_delivers_witness:
  "\<exists>s'. ymodem_receive_buffer
      \<lparr>fo_exists = \<lambda>_ u. (0, u), fo_unlink = \<lambda>_ u. (0, u), fo_open = \<lambda>_ _ u. (3, u), fo_write = \<lambda>_ bs u. (int (length bs), u), fo_close = \<lambda>_ u. u\<rparr>
      None 8
      \<lparr>y_in = map Some (concat [[0]] @ block_frame 0 ([97] @ 0 # [50] @ 0 # replicate 124 0) @ (block_frame 1 ([72, 105] @ replicate 126 26) @ []) @
          MODEM_EOT # block_frame 0 (replicate 128 0)) @ [],
        y_data = replicate 1024 7, y_out = [], y_fs = (), y_fd = 0, y_buf = replicate 8 1, y_offset = 0, y_name = [], y_size = 0,
        y_remaining = 0, y_expected = 0, y_saw = False\<rparr> = Returned 0 s' \<and>
    y_buf s' = [72, 105, 0, 1, 1, 1, 1, 1] \<and> y_in s' = []"
proof -
  let ?p = "[72, 105] @ replicate 126 26 :: bytes"
  have f: "\<forall>f \<in> set [[0]]. spoilt f" using spoilt_marker[of 0] by (simp add: modem_codes)
  have n: "names_file [97] ([97] @ 0 # [50] @ 0 # replicate 124 0) (length [72 :: 8 word, 105])"
    unfolding names_file_def is_block_def
    by (intro conjI exI[of _ "[50]"] exI[of _ 0] exI[of _ "replicate 124 0"]) (simp_all add: decimal_def digits_value_def)
  have b: "is_block ?p" by (simp add: is_block_def)
  have "sends (Suc 0) [?p] (block_frame (of_nat (Suc 0)) ?p @ [])" by (rule sends_block[OF b sends_done])
  then have w: "sends 1 [?p] (block_frame 1 ?p @ [])" by simp
  have t: "is_block (replicate 128 0)" "hd (replicate 128 (0 :: 8 word)) = 0" by (simp_all add: is_block_def)
  show ?thesis
    using ymodem_delivers[OF f n _ w _ _ t, of None 8
      "\<lparr>y_in = map Some (concat [[0]] @ block_frame 0 ([97] @ 0 # [50] @ 0 # replicate 124 0) @ (block_frame 1 ?p @ []) @
          MODEM_EOT # block_frame 0 (replicate 128 0)) @ [],
        y_data = replicate 1024 7, y_out = [], y_fs = (), y_fd = 0, y_buf = replicate 8 1, y_offset = 0, y_name = [], y_size = 0,
        y_remaining = 0, y_expected = 0, y_saw = False\<rparr>" "[]"]
    by (simp add: asks_for_def numeral_eq_Suc)
qed

text \<open>
  The size \<open>0xffffffff\<close> passes the check against the size of the buffer, because \<open>file_size + 1\<close> wraps to 0: then any blocks that
  together are longer than the buffer are written beyond its end.\<close>

lemma loop_overruns:
  assumes "sends k ps w" "yc_buffer cl"
  shows "\<lbrakk>y_in s = map Some w @ rest; length (y_data s) = 1024; y_saw s; y_expected s = int k; 128 * k \<le> y_offset s + 128;
      unat (y_remaining s) + y_offset s = 4294967295; y_offset s \<le> length (y_buf s); length (y_buf s) < 2147483648;
      length (y_buf s) < y_offset s + length (concat ps)\<rbrakk> \<Longrightarrow>
    receive_loop io cl s = Overrun"
  using assms(1)
proof (induction arbitrary: s rule: sends.induct)
  case (sends_done k)
  then show ?case by simp
next
  case (sends_spoilt f k ps w)
  have i: "y_in s = map Some f @ (map Some w @ rest)" using sends_spoilt.prems(1) by simp
  obtain d ot where d: "length d = 1024" and
    st: "receive_step io cl s = Inl (s\<lparr>y_data := d, y_in := map Some w @ rest, y_out := ot\<rparr>)"
    using step_spoilt[OF sends_spoilt.hyps(1) i sends_spoilt.prems(2)] by metis
  show ?case
    unfolding loop_step[OF st] using d sends_spoilt.prems by (intro sends_spoilt.IH) simp_all
next
  case (sends_again p k ps w)
  have i: "y_in s = map Some (block_frame (of_nat k) p) @ (map Some w @ rest)" using sends_again.prems(1) by simp
  have "uint (of_nat k :: 8 word) = to_u8 (y_expected s - 1)" using sends_again.prems(4) by (simp add: block_number)
  then obtain d ot where d: "length d = 1024" and
    st: "receive_step io cl s = Inl (s\<lparr>y_data := d, y_in := map Some w @ rest, y_out := ot\<rparr>)"
    using step_dup[OF i sends_again.prems(2) sends_again.hyps(1) sends_again.prems(3)] by metis
  show ?case
    unfolding loop_step[OF st] using d sends_again.prems by (intro sends_again.IH) simp_all
next
  case (sends_block p k ps w)
  have i: "y_in s = map Some (block_frame (of_nat k) p) @ (map Some w @ rest)" using sends_block.prems(1) by simp
  have k: "int k + 1 < 2147483648" using sends_block.prems(5,7,8) by simp
  have lp: "128 \<le> length p" "length p \<le> 1024" using sends_block.hyps(1) by (auto simp add: is_block_def)
  have r: "2147483647 \<le> unat (y_remaining s)" using sends_block.prems(6-8) by simp
  then have nz: "y_remaining s \<noteq> 0" by auto
  have m: "min (length p) (unat (y_remaining s)) = length p" using lp(2) r by simp
  note st = step_block[OF i sends_block.prems(2) sends_block.hyps(1) sends_block.prems(3,4) k assms(2) nz, unfolded m Let_def, of io]
  show ?case
  proof (cases "y_offset s + length p > length (y_buf s)")
    case True
    then show ?thesis using loop_end[of io cl s Overrun] st by simp
  next
    case False
    have "(of_nat (length p) :: 32 word) \<le> y_remaining s" using unat_small[of "length p"] lp(2) r by (simp add: word_le_nat_alt)
    then have rem: "unat (y_remaining s - of_nat (length p)) = unat (y_remaining s) - length p"
      using unat_small[of "length p"] lp(2) by (simp add: unat_sub)
    show ?thesis
      unfolding loop_step[OF st[unfolded if_not_P[OF False]]]
      using False sends_block.prems sends_block.hyps(1) lp r by (intro sends_block.IH) (simp_all add: rem is_block_def)
  qed
qed

theorem ymodem_size_wraps:
  assumes "\<forall>f \<in> set fs. spoilt f" "names_file name m 4294967295" "asks_for request name" "sends 1 ps w"
    "0 < bufsz" "bufsz < 2147483648" "int (length (y_buf s)) = bufsz" "bufsz < int (length (concat ps))" "length (y_data s) = 1024"
    "y_in s = map Some (concat fs @ block_frame 0 m @ w) @ rest"
  shows "ymodem_receive_buffer io request bufsz s = Overrun"
proof -
  have z: "(of_nat 4294967295 + 1 :: 32 word) = 0" by (simp flip: uint_0_iff)
  have fits: "\<not> (of_nat 4294967295 + 1 > (word_of_int bufsz :: 32 word))" unfolding z by simp
  have i: "y_in s = map Some (concat fs @ block_frame 0 m) @ (map Some w @ rest)" using assms(10) by simp
  obtain a cl where a: "ymodem_receive_buffer io request bufsz s = receive_loop io cl a" "yc_buffer cl" "y_in a = map Some w @ rest"
      "length (y_data a) = 1024" "y_saw a" "y_expected a = int 1" "y_offset a = 0" "y_remaining a = of_nat 4294967295" "y_buf a = y_buf s"
    using metadata_arrives[OF assms(1-3,5,9) fits i, of io] by auto
  have "unat (y_remaining a) + y_offset a = 4294967295" using a(7,8) unat_small[of 4294967295] by simp
  then show ?thesis
    unfolding a(1) using assms(6-8) a(7,9) by (intro loop_overruns[OF assms(4) a(2-6)]) simp_all
qed

end
