(* ===== verification/Spec2Isabelle.thy ===== *)
theory Spec2Isabelle
  imports Callout Rtc Clock File_Calls Cache_Init Console Startup Memory_Device Fw_Transfer
begin

text \<open>
  A verification of the UNIX768 kernel: the Version 7 UNIX kernel under \<open>src/unix/v7/usr/sys\<close>, as ported
  to the Epoch68 board (a 68010 with 62 user pages of 256 KiB and no swapping). File names below are relative to that
  directory. The definitions are shallow translations of the C functions of the same names; a suffix or prefix is added where a name is
  taken (\<open>read_call\<close>, \<open>open_call\<close>, \<open>umin\<close>), and a loop or a branch that is a definition of its own carries the name of its
  function (\<open>wakeup_scan\<close>, \<open>alloc_pop\<close>, \<open>namei_dir\<close>).

  \<^bold>\<open>Parts and interaction.\<close> A system call runs in the kernel on behalf of the current process, whose user area is \<open>u\<close>. It reads
  its arguments from \<open>u_ap\<close>, reports failure in \<open>u_error\<close> and results in \<open>u_r1\<close>. Path names are resolved by \<open>namei\<close>,
  which walks directories with \<open>bmap\<close> and locks i-nodes with \<open>iget\<close> and \<open>iput\<close>; descriptors lead to the file table and from
  there to i-nodes; file data moves between the user page and blocks with \<open>iomove\<close>; blocks and i-nodes are taken from the
  free lists of the super block. A routine that waits calls \<open>sleep\<close>, which puts the process on a hashed sleep queue and switches;
  \<open>wakeup\<close> moves all sleepers of a channel to the run queue. The clock interrupt drives the callout table, alarms and priorities.

  \<^bold>\<open>Theories.\<close>

  \<^item> \<open>Kernel_Prelude\<close>: C integers with their wrap-around, and the control structure of kernel code (\<open>outcome\<close>, \<open>kern\<close>) with its rules.
  \<^item> \<open>Resource_Map\<close>: \<open>sys/malloc.c\<close> on the array of map entries, and the pool of user pages of \<open>sys/machdep.c\<close>. A map
    represents a set of units; \<open>malloc\<close> takes the first interval that fits, \<open>mfree\<close> gives an interval back and joins it with its
    neighbours, the two are inverse, and no page is ever handed out twice. The contract is the locale \<open>interval_allocator\<close>.
  \<^item> \<open>Kernel_State\<close>: the constants of \<open>h/param.h\<close> and the other headers, and the kernel's tables and globals
    (\<open>h/*.h\<close>, \<open>sys/globals.c\<close>) as the record \<open>kernel\<close>.
  \<^item> \<open>User_Memory\<close>: \<open>conf/usermem.c\<close>, \<open>sys/ureg.c\<close>, \<open>expand\<close> and \<open>sendsig\<close>: the window check is exact also for
    lengths that wrap, and what is copied out is what is copied in.
  \<^item> \<open>Process_Sched\<close>: \<open>sys/slp.c\<close>: the queues are kept well-formed by every step of the scheduler and hold exactly the processes that can run or
    sleep, \<open>wakeup\<close> wakes exactly the sleepers of its channel, \<open>swtch\<close> picks a process of the best priority, \<open>newproc\<close> makes a copy of its caller.
  \<^item> \<open>Signals\<close>: posting signals and the calls of \<open>sys/sys4.c\<close> on process attributes.
  \<^item> \<open>Clist\<close>: the character queues of \<open>sys/prim.c\<close> with their pointer arithmetic, shown to be bounded FIFO queues (locale \<open>char_queue\<close>);
    the block operations are shown to be iterations of the character operations.
  \<^item> \<open>Callout\<close>, \<open>Clock\<close>: \<open>sys/clock.c\<close>: the differences in the callout table represent deadlines; a tick charges the running
    process, and a second delivers the alarms that are due.
  \<^item> \<open>Rtc\<close>: the calendar conversions of \<open>dev/mm58167.c\<close> are inverse between 1970 and 2038.
  \<^item> \<open>Block_Alloc\<close>: \<open>sys/alloc.c\<close>: the chain of tables represents a list of free blocks (\<open>free_chain\<close>), \<open>alloc\<close> and
    \<open>free\<close> are its pop and push (locale \<open>block_pool\<close>).
  \<^item> \<open>Kernel_Frames\<close>: what the scheduler and the block routines leave unchanged, as locales over a view of the state.
  \<^item> \<open>Inode_Table\<close>: \<open>sys/iget.c\<close>, \<open>plock\<close>, \<open>prele\<close>, \<open>ialloc\<close>, \<open>update\<close>: no i-number has two entries in core, and an
    i-node survives its way to the disk and back.
  \<^item> \<open>File_IO\<close>: \<open>sys/subr.c\<close>, \<open>sys/rdwri.c\<close>: \<open>bmap\<close> reads the tree of indirect blocks, the block copy of
    \<open>iomove\<close> is equivalent to the loop over \<open>passc\<close> or \<open>cpass\<close>.
  \<^item> \<open>Text_Table\<close>: \<open>sys/text.c\<close>, as far as this port calls it.
  \<^item> \<open>Name_Lookup\<close>: \<open>access\<close>, \<open>namei\<close> and directory entries: which permission bits decide, and which entry of a directory a name finds.
  \<^item> \<open>File_Table\<close>, \<open>File_Calls\<close>: \<open>sys/fio.c\<close>, \<open>sys/pipe.c\<close>, \<open>sys/sys2.c\<close>, \<open>sys/sys3.c\<close> and the file calls
    of \<open>sys/sys4.c\<close>: descriptors and reference counts, the super block in core and on the disk.
  \<^item> \<open>Ring_List\<close>: circular doubly linked lists as two link functions, with the list of their elements as abstraction.
  \<^item> \<open>Buffer_Pool\<close>: \<open>h/buf.h\<close> and the buffer cache's own state (\<open>bio\<close>: headers, buffers with both pairs of links, the disks), with
    \<open>brelse\<close>, \<open>iodone\<close>, \<open>notavail\<close> of \<open>dev/bio.c\<close> as operations on the lists that the links represent.
  \<^item> \<open>Disk_Drivers\<close>: \<open>dev/rd.c\<close> and the request format of \<open>dev/sd.c\<close>; what a block holds \<open>on_disk\<close>.
  \<^item> \<open>Buffer_Cache\<close>: the other routines of \<open>dev/bio.c\<close> and the invariant \<open>cache_inv\<close>: every buffer is on exactly one device ring, on
    the free list exactly if it is not busy, and no block has two buffers.
  \<^item> \<open>Cache_Contents\<close>, \<open>Cache_Init\<close>: the cache implements a store of blocks (\<open>contents_of\<close>: the delayed buffer of a block if it has one,
    the disk otherwise). \<open>binit\<close> establishes the invariant, \<open>bread\<close> reads the store, the ways to write a buffer update it, \<open>getblk\<close>
    always finds a buffer while one is free, \<open>bflush\<close> brings the disk up to date.
  \<^item> \<open>Process_Life\<close>, \<open>Exec\<close>: \<open>sys/sys1.c\<close>, \<open>sys/acct.c\<close>: what a parent learns of an exited child, the limits of the
    break, the precision of the accounting format, and the loading of programs.
  \<^item> \<open>Tty_State\<close>: \<open>h/tty.h\<close>, the rings of \<open>dev/kl.c\<close> and the state \<open>tio\<close> of the terminals: the kernel, six terminals, their
    receive and transmit rings and UARTs, and the character blocks of \<open>Clist\<close>. A UART is the list of bytes that arrive, of the bytes
    sent, and of the answers that its ready bit will give.
  \<^item> \<open>Tty_Queues\<close>, \<open>Tty_Transmit\<close>: the three queues of every terminal as lists (\<open>tqs\<close>, over the locale \<open>char_queue\<close>; no block is ever
    lost), the rings as lists (\<open>ring_list\<close>), and the transmit side: \<open>ttstart\<close>, \<open>ttrstrt\<close> and \<open>uart_poll_tx_channel\<close>.
  \<^item> \<open>Tty_Output\<close>, \<open>Tty_Input\<close>: \<open>ttyoutput\<close> with tabs, delays and escapes; \<open>ttyinput\<close>, \<open>ttyrend\<close>, \<open>canon\<close>, \<open>ttread\<close> and \<open>ttwrite\<close>
    of \<open>dev/tty.c\<close>, statement by statement.
  \<^item> \<open>Tty_Discipline\<close>, \<open>Tty_Canon\<close>: what these do to the lists: the fate of each received character, and the line editor \<open>edit\<close>, a
    function of the raw characters that \<open>canon\<close> is shown to implement.
  \<^item> \<open>Uart_Receive\<close>, \<open>Tty_Control\<close>: the receive poll and the interrupt entry of \<open>dev/kl.c\<close>; opening and closing, the control calls, the
    device entries, the raw transfers for YMODEM, and \<open>/dev/tty\<close> of \<open>conf/stubs.c\<close>.
  \<^item> \<open>Terminals\<close>: the parts together. \<open>tty_run\<close> is the relation of runs of keys, output, polls, interrupts, flushes and reads, whose
    states keep \<open>tio_ok\<close> and \<open>lines_ok\<close>; output leaves in order, and a typed line is what the next read returns.
  \<^item> \<open>Trace\<close>: the rest of \<open>sys/sig.c\<close>: \<open>psig\<close>, core images, and tracing with \<open>ptrace\<close> and \<open>procxmt\<close>.
  \<^item> \<open>Traps\<close>: \<open>conf/trap0.c\<close>: a system call from the trap to the return, with its switch and the globals that all processes share; no call
    returns in supervisor mode, and an interrupted call enters its handler. \<open>sysent\<close> is compared with the switch.
  \<^item> \<open>Startup\<close>: \<open>sys/main.c\<close> and the bootstrap programs; a processor with the four instructions of the bootstrap (\<open>mc_run\<close>) shows
    that process 1 asks for \<open>exec\<close> of \<open>/etc/init\<close>.
  \<^item> \<open>Memory_Device\<close>: \<open>dev/mem.c\<close> and the clock chip as a device: a read delivers the memory up to where the device ends.
  \<^item> \<open>Console\<close>: \<open>putchar\<close> and \<open>sys/prf.c\<close>: \<open>printf\<close> sends what the formatter on lists gives, for the numbers that \<open>printn\<close> is made for, and
    \<open>msgbuf\<close> holds its end.
  \<^item> \<open>Fw_Strings\<close>, \<open>Fw_Paths\<close>, \<open>Fw_Ymodem\<close>, \<open>Fw_Transfer\<close>: a part of the monitor in the firmware (\<open>platform/epoch68/firmware\<close>), a program of
    its own on the same machine: strings and formatted output, the working directory as a walk along names, and the YMODEM receiver, which
    delivers a file over a line that spoils and repeats frames; the checksum notices every single wrong byte.

  \<^bold>\<open>Concurrency.\<close> Only one process runs in the kernel at a time and it loses the processor only where it sleeps; interrupts do not
  touch the tables that the modelled system calls use outside their \<open>spl\<close> sections. A routine is therefore a function of a
  \<^emph>\<open>schedule\<close>, the list of what the rest of the system does to the state during each of its sleeps; statements about all
  schedules quantify over it, and the empty schedule means that the routine must not sleep.

  \<^bold>\<open>Bounds.\<close> A loop along \<open>p_link\<close> has the bound \<open>NPROC + 1\<close>; a queue of a well-formed state has no repetition, so the bound is not reached.
  \<open>issig\<close> clears one of sixteen bits in each turn. The loops that start again after a sleep have a bound that grows with the
  length of the schedule, so that the schedule ends before they do. The scan of a directory and the loops of \<open>readi\<close> and \<open>writei\<close> advance the
  offset in each turn and are bounded by the count. \<open>getblk\<close> starts again after each sleep and after each delayed buffer that it
  writes: \<open>NBUF + 1\<close> turns for each sleep of the schedule are enough, because a turn that starts again without a sleep leaves one delayed
  buffer less. \<open>bflush\<close> writes one delayed buffer in each turn and ends after at most \<open>NBUF\<close>. The loops of \<open>canon\<close> run along the raw queue, those of
  the UARTs along the bytes received, the ring or the budget of the code. A loop that waits for the ready bit runs along its answers and has
  no result when these end; statements that such a routine returns assume that enough of the answers are positive.

  \<^bold>\<open>Parameters.\<close> For the theories of the file system, the buffer cache with the disk drivers is the store \<open>k_disk\<close> of block
  contents (\<open>bread_reads\<close> and \<open>buffer_writes\<close> show that the cache over the RAM disk is one), with \<open>k_ioerr\<close> for the
  transfers that fail and \<open>k_incore\<close> for the blocks with a valid buffer; a device switch entry is \<open>k_driver\<close>. The addresses of kernel
  objects are \<open>k_addr\<close>. Memory that the code reads past the end of a table is a parameter too: \<open>io_past_maptab\<close> behind the table of escapes and
  \<open>cn_around\<close> around the digits of \<open>printn\<close>. The strings that \<open>printf\<close> is given are \<open>cn_string\<close>. The bytes of the user structure, for core images
  and tracing, are \<open>ulayout\<close>; what other processes do to the globals of the trap is an argument of \<open>epoch68_trap_syscall\<close>. The four
  instructions of the processor in \<open>mc_step\<close> are those of the MC68000 manual, not code of the repository.
  The file routines that the YMODEM receiver calls are \<open>file_ops\<close>.

  \<^bold>\<open>Not modelled.\<close> \<open>swap\<close> and \<open>physio\<close> of \<open>dev/bio.c\<close>, and the raw entries of the disks that call it (their addresses come from registers of
  another machine); the assembly (\<open>save\<close>, \<open>resume\<close>, the interrupt entries, the profiling of \<open>addupc\<close>) and the guard words of the kernel stacks; the
  vectors, the clearing of memory and the timer at start-up; swapping (\<open>xswap\<close>, \<open>xalloc\<close>), which the port never calls; multiplexed files, whose table is never
  set. Outside the kernel: the commands and the ported programs, the compiler tool chain, the rest of the firmware
  (its command loop, boot loader and own copy of the file system) and the emulator.
\<close>

end
